(* ===== verification/Prelude.thy ===== *)
theory Prelude
  imports Main "HOL-Library.Word"
begin

text \<open>
  Shared vocabulary of the EBBlib development: the widths of the machine integers, the
  result type of an operation that can fault, bounds-checked array access, and the
  generic lemmas on words, lists and function updates that the component theories use.

  A C function that can fail an assertion, index an array out of its bounds, dereference
  a null pointer, divide by zero, loop or spin for ever returns a value of type
  \<open>'a res\<close>: \<open>Inl\<close> of the fault or \<open>Inr\<close> of the result. A C return code
  (type \<open>EBBRC\<close>) is an ordinary result, not a fault.
\<close>

unbundle bit_operations_syntax

named_theorems ebb_simps \<open>unfolding equations of the one-line C helpers\<close>
named_theorems ebb_frame \<open>what an operation leaves unchanged\<close>

subsection \<open>Machine integers and return codes\<close>

type_synonym u8 = "8 word"
type_synonym u16 = "16 word"
type_synonym u32 = "32 word"
type_synonym u64 = "64 word"

text \<open>\<open>EBBRC\<close> is an \<open>intptr_t\<close> on which the code never computes.\<close>

type_synonym ebbrc = int

definition EBBRC_GENERIC_FAILURE :: ebbrc where "EBBRC_GENERIC_FAILURE = -1"
definition EBBRC_BADPARAMETER :: ebbrc where "EBBRC_BADPARAMETER = -2"
definition EBBRC_OUTOFRESOURCES :: ebbrc where "EBBRC_OUTOFRESOURCES = -3"
definition EBBRC_RETRY :: ebbrc where "EBBRC_RETRY = -4"
definition EBBRC_NOTFOUND :: ebbrc where "EBBRC_NOTFOUND = -5"
definition EBBRC_OK :: ebbrc where "EBBRC_OK = 0"

definition EBBRC_SUCCESS :: "ebbrc \<Rightarrow> bool" where
  "EBBRC_SUCCESS rc \<longleftrightarrow> rc \<ge> 0"

lemmas ebbrc_defs = EBBRC_GENERIC_FAILURE_def EBBRC_BADPARAMETER_def
  EBBRC_OUTOFRESOURCES_def EBBRC_RETRY_def EBBRC_NOTFOUND_def EBBRC_OK_def

lemma EBBRC_SUCCESS_values [simp]:
  "EBBRC_SUCCESS EBBRC_OK"
  "\<not> EBBRC_SUCCESS EBBRC_GENERIC_FAILURE"
  "\<not> EBBRC_SUCCESS EBBRC_BADPARAMETER"
  "\<not> EBBRC_SUCCESS EBBRC_OUTOFRESOURCES"
  "\<not> EBBRC_SUCCESS EBBRC_RETRY"
  "\<not> EBBRC_SUCCESS EBBRC_NOTFOUND"
  by (simp_all add: EBBRC_SUCCESS_def ebbrc_defs)

lemma EBBRC_distinct [simp]:
  "EBBRC_OK \<noteq> EBBRC_NOTFOUND" "EBBRC_NOTFOUND \<noteq> EBBRC_OK"
  "EBBRC_OK \<noteq> EBBRC_BADPARAMETER" "EBBRC_BADPARAMETER \<noteq> EBBRC_OK"
  "EBBRC_OK \<noteq> EBBRC_OUTOFRESOURCES" "EBBRC_OUTOFRESOURCES \<noteq> EBBRC_OK"
  "EBBRC_OK \<noteq> EBBRC_RETRY" "EBBRC_RETRY \<noteq> EBBRC_OK"
  by (simp_all add: ebbrc_defs)

subsection \<open>Results that can fault\<close>

datatype fault =
    AssertFail   \<comment> \<open>\<open>LRT_Assert\<close>, \<open>LRT_RCAssert\<close> or \<open>assert\<close> failed: the program aborts\<close>
  | OutOfBounds  \<comment> \<open>an array index outside the array\<close>
  | NullDeref    \<comment> \<open>a null pointer dereferenced or called\<close>
  | Blocked      \<comment> \<open>a spin lock that its own holder tries to take again\<close>
  | DivByZero    \<comment> \<open>an integer division by zero\<close>
  | BadShift     \<comment> \<open>a shift by the width of the operand or more\<close>
  | Diverges     \<comment> \<open>a loop that does not end\<close>

type_synonym 'a res = "fault + 'a"

definition rbind :: "'a res \<Rightarrow> ('a \<Rightarrow> 'b res) \<Rightarrow> 'b res" where
  "rbind m f = (case m of Inl e \<Rightarrow> Inl e | Inr x \<Rightarrow> f x)"

lemma rbind_simps [simp]:
  "rbind (Inl e) f = Inl e"
  "rbind (Inr x) f = f x"
  by (simp_all add: rbind_def)

lemma rbind_assoc: "rbind (rbind m f) g = rbind m (\<lambda>x. rbind (f x) g)"
  by (simp add: rbind_def split: sum.splits)

lemma rbind_Inr_iff [simp]: "rbind m f = Inr y \<longleftrightarrow> (\<exists>x. m = Inr x \<and> f x = Inr y)"
  by (cases m) auto

text \<open>The result of a loop defined as a partial function: \<open>None\<close> is a run that never ends.\<close>

definition returns :: "'a res option \<Rightarrow> 'a res" where
  "returns r = (case r of None \<Rightarrow> Inl Diverges | Some r' \<Rightarrow> r')"

lemma returns_simps [simp]: "returns (Some r) = r" "returns None = Inl Diverges"
  by (simp_all add: returns_def)

lemma rbind_cong [fundef_cong]:
  "m = m' \<Longrightarrow> (\<And>x. m' = Inr x \<Longrightarrow> f x = f' x) \<Longrightarrow> rbind m f = rbind m' f'"
  by (cases m') auto

text \<open>Loops over a list whose body can fault: the body's total correctness lifts to the loop.\<close>

lemma fold_rbind_Inl [simp]: "fold (\<lambda>i r. rbind r (f i)) xs (Inl e) = Inl e"
  by (induction xs) simp_all

lemma fold_rbind_total:
  assumes "\<And>i s. i \<in> set xs \<Longrightarrow> P s \<Longrightarrow> f i s = Inr (g i s) \<and> P (g i s)" "P s"
  shows "fold (\<lambda>i r. rbind r (f i)) xs (Inr s) = Inr (fold g xs s) \<and> P (fold g xs s)"
  using assms by (induction xs arbitrary: s) simp_all

lemma fold_rbind_inv:
  assumes "\<And>i s s'. i \<in> set xs \<Longrightarrow> P s \<Longrightarrow> f i s = Inr s' \<Longrightarrow> P s'"
    and "fold (\<lambda>i r. rbind r (f i)) xs (Inr s) = Inr s'" "P s"
  shows "P s'"
  using assms
proof (induction xs arbitrary: s)
  case (Cons x xs)
  then show ?case by (cases "f x s") auto
qed simp

lemma length_fold_update [simp]: "length (fold (\<lambda>i ys. ys[i := f i]) xs ys) = length ys"
  by (induction xs arbitrary: ys) simp_all

lemma nth_fold_update:
  "j < length ys \<Longrightarrow>
   fold (\<lambda>i ys. ys[i := f i]) xs ys ! j = (if j \<in> set xs then f j else ys ! j)"
  by (induction xs arbitrary: ys) (auto simp: nth_list_update)

lemma nth_list_update_any:
  "xs[v := b] ! x = (if x = v \<and> v < length xs then b else xs ! x)"
  by (cases "v < length xs") (auto simp: nth_list_update list_update_beyond)

lemma find_first:
  "find P xs = None \<Longrightarrow> P y \<Longrightarrow> find P (xs @ y # ys) = Some y"
  by (induction xs) (auto split: if_splits)

definition lrt_assert :: "bool \<Rightarrow> unit res" where
  "lrt_assert b = (if b then Inr () else Inl AssertFail)"

lemma lrt_assert_simps [simp]:
  "lrt_assert True = Inr ()"
  "lrt_assert False = Inl AssertFail"
  by (simp_all add: lrt_assert_def)

lemma lrt_assert_Inr_iff [simp]: "lrt_assert b = Inr u \<longleftrightarrow> b"
  by (simp add: lrt_assert_def)

subsection \<open>Arrays with bounds\<close>

definition arr_get :: "'a list \<Rightarrow> nat \<Rightarrow> 'a res" where
  "arr_get xs i = (if i < length xs then Inr (xs ! i) else Inl OutOfBounds)"

definition arr_set :: "'a list \<Rightarrow> nat \<Rightarrow> 'a \<Rightarrow> 'a list res" where
  "arr_set xs i x = (if i < length xs then Inr (xs[i := x]) else Inl OutOfBounds)"

lemma arr_get_in [simp]: "i < length xs \<Longrightarrow> arr_get xs i = Inr (xs ! i)"
  by (simp add: arr_get_def)

lemma arr_set_in [simp]: "i < length xs \<Longrightarrow> arr_set xs i x = Inr (xs[i := x])"
  by (simp add: arr_set_def)

lemma arr_get_out [simp]: "\<not> i < length xs \<Longrightarrow> arr_get xs i = Inl OutOfBounds"
  by (simp add: arr_get_def)

lemma arr_set_out [simp]: "\<not> i < length xs \<Longrightarrow> arr_set xs i x = Inl OutOfBounds"
  by (simp add: arr_set_def)

lemma arr_get_Inr_iff: "arr_get xs i = Inr x \<longleftrightarrow> i < length xs \<and> xs ! i = x"
  by (auto simp: arr_get_def)

lemma arr_set_Inr_iff: "arr_set xs i x = Inr ys \<longleftrightarrow> i < length xs \<and> ys = xs[i := x]"
  by (auto simp: arr_set_def)

subsection \<open>Words as offsets\<close>

lemma mixed_radix_inj:
  assumes "p * n + j = q * n + k" "j < n" "k < (n::nat)"
  shows "p = q \<and> j = k"
proof -
  have "(p * n + j) div n = (q * n + k) div n" "(p * n + j) mod n = (q * n + k) mod n"
    using assms(1) by simp_all
  then show ?thesis using assms(2,3) by simp
qed

lemma of_nat_u64_eq_iff:
  assumes "j < 2 ^ 64" "k < 2 ^ 64"
  shows "(of_nat j :: u64) = of_nat k \<longleftrightarrow> j = k"
proof -
  have "unat (of_nat j :: u64) = j" "unat (of_nat k :: u64) = k"
    using assms by (simp_all add: unat_of_nat take_bit_nat_eq_self)
  then show ?thesis by metis
qed

lemma unat_of_nat_u64: "k < 2 ^ 64 \<Longrightarrow> unat (of_nat k :: u64) = k"
  by (simp add: unat_of_nat take_bit_nat_eq_self)

lemma add_of_nat_u64_eq_iff:
  "j < 2 ^ 64 \<Longrightarrow> k < 2 ^ 64 \<Longrightarrow> (a :: u64) + of_nat j = a + of_nat k \<longleftrightarrow> j = k"
  by (simp add: of_nat_u64_eq_iff)

lemma unat_add_of_nat_u64:
  assumes "unat (a :: u64) + k < 2 ^ 64"
  shows "unat (a + of_nat k) = unat a + k"
proof -
  have "unat (of_nat k :: u64) = k" using assms by (simp add: unat_of_nat_u64)
  then show ?thesis using assms by (simp add: unat_word_ariths)
qed

lemma u64_less_iff_offset:
  assumes "unat (a :: u64) + j < 2 ^ 64" "unat a + k < 2 ^ 64"
  shows "a + of_nat j < a + of_nat k \<longleftrightarrow> j < k"
  using assms by (simp add: word_less_nat_alt unat_add_of_nat_u64)

end
