(* ===== verification/LrtPic.thy ===== *)
theory LrtPic
  imports Prelude
begin

text \<open>
  The programmable interrupt controller of the hosted runtime (\<open>l0/lrt/ulnx/pic.h\<close>,
  \<open>pic.c\<close>, \<open>pic-unix.h\<close>, \<open>pic-unix.c\<close>): vectors are file descriptors, cores are
  threads, an inter-processor interrupt is a flag and a signal.

  The record \<open>pic_state\<close> holds \<open>struct Pic\<close>, the array \<open>lpics\<close>, the two core id
  bounds and \<open>struct unix_pic\<close>. The thread-local \<open>lrt_pic_myid\<close> is an argument
  \<open>myid\<close>. The signals sent by \<open>pthread_kill\<close> are recorded in \<open>wakeups\<close>. The system
  calls \<open>dup2\<close>, \<open>pselect\<close> and \<open>pthread_self\<close> are arguments.
\<close>

subsection \<open>Constants\<close>

definition LRT_PIC_MAX_PICS :: nat where "LRT_PIC_MAX_PICS = 2 ^ 6"
definition LRT_PIC_MAX_PIC_ID :: nat where "LRT_PIC_MAX_PIC_ID = LRT_PIC_MAX_PICS - 1"

definition FIRST_VECFD :: nat where "FIRST_VECFD = 16"
definition NUM_RES_VEC :: nat where "NUM_RES_VEC = 2"
definition NUM_MAPPABLE_VEC :: nat where "NUM_MAPPABLE_VEC = 32"
definition RES0_VEC :: nat where "RES0_VEC = NUM_MAPPABLE_VEC"
definition RES1_VEC :: nat where "RES1_VEC = RES0_VEC + 1"
definition IPI_VEC :: nat where "IPI_VEC = RES0_VEC"
definition RST_VEC :: nat where "RST_VEC = RES1_VEC"
definition NUM_VEC :: nat where "NUM_VEC = NUM_MAPPABLE_VEC + NUM_RES_VEC"

lemma pic_values:
  "LRT_PIC_MAX_PICS = 64" "LRT_PIC_MAX_PIC_ID = 63" "FIRST_VECFD = 16" "NUM_RES_VEC = 2"
  "NUM_MAPPABLE_VEC = 32" "RES0_VEC = 32" "RES1_VEC = 33" "IPI_VEC = 32" "RST_VEC = 33"
  "NUM_VEC = 34"
  by (simp_all add: LRT_PIC_MAX_PICS_def LRT_PIC_MAX_PIC_ID_def FIRST_VECFD_def NUM_RES_VEC_def
    NUM_MAPPABLE_VEC_def RES0_VEC_def RES1_VEC_def IPI_VEC_def RST_VEC_def NUM_VEC_def)

subsection \<open>Sets of cores\<close>

text \<open>\<open>lrt_pic_set\<close> is an array of \<open>LRT_PIC_MAX_PICS/64 = 1\<close> words of 64 bits.\<close>

type_synonym lrt_pic_set = "u64 list"

definition lrt_pic_set_words :: nat where
  "lrt_pic_set_words = LRT_PIC_MAX_PICS div 64"

definition lrt_pic_set_copy :: "lrt_pic_set \<Rightarrow> lrt_pic_set \<Rightarrow> lrt_pic_set" where
  "lrt_pic_set_copy src dest = fold (\<lambda>i d. d[i := src ! i]) [0..<lrt_pic_set_words] dest"

definition lrt_pic_set_clear :: "lrt_pic_set \<Rightarrow> lrt_pic_set" where
  "lrt_pic_set_clear s = fold (\<lambda>i s. s[i := 0]) [0..<lrt_pic_set_words] s"

definition lrt_pic_set_add :: "lrt_pic_set \<Rightarrow> nat \<Rightarrow> lrt_pic_set" where
  "lrt_pic_set_add s i =
     (if i > LRT_PIC_MAX_PIC_ID then s
      else let mask = push_bit (i mod 64) 1 in s[i div 64 := s ! (i div 64) OR mask])"

definition lrt_pic_set_remove :: "lrt_pic_set \<Rightarrow> nat \<Rightarrow> lrt_pic_set" where
  "lrt_pic_set_remove s i =
     (if i > LRT_PIC_MAX_PIC_ID then s
      else let mask = NOT (push_bit (i mod 64) 1) in s[i div 64 := s ! (i div 64) AND mask])"

definition lrt_pic_set_test :: "lrt_pic_set \<Rightarrow> nat \<Rightarrow> bool" where
  "lrt_pic_set_test s i =
     (if i > LRT_PIC_MAX_PIC_ID then False
      else let mask = push_bit (i mod 64) 1 in (s ! (i div 64) AND mask) \<noteq> 0)"

definition lrt_pic_set_addall :: "lrt_pic_set \<Rightarrow> lrt_pic_set" where
  "lrt_pic_set_addall s = fold (\<lambda>i s. s[i := -1]) [0..<lrt_pic_set_words] s"

definition pic_set_wf :: "lrt_pic_set \<Rightarrow> bool" where
  "pic_set_wf s \<longleftrightarrow> length s = lrt_pic_set_words"

lemma lrt_pic_set_words_1 [simp]: "lrt_pic_set_words = 1"
  by (simp add: lrt_pic_set_words_def pic_values)

lemma pic_set_test_bit:
  "pic_set_wf s \<Longrightarrow> lrt_pic_set_test s i \<longleftrightarrow> i < 64 \<and> bit (s ! 0) i"
  by (auto simp: lrt_pic_set_test_def pic_values and_exp_eq_0_iff_not_bit)

lemma pic_set_wf_ops [simp]:
  "pic_set_wf (lrt_pic_set_add s i) = pic_set_wf s"
  "pic_set_wf (lrt_pic_set_remove s i) = pic_set_wf s"
  "pic_set_wf (lrt_pic_set_clear s) = pic_set_wf s"
  "pic_set_wf (lrt_pic_set_addall s) = pic_set_wf s"
  "pic_set_wf (lrt_pic_set_copy t s) = pic_set_wf s"
  by (auto simp: pic_set_wf_def lrt_pic_set_add_def lrt_pic_set_remove_def lrt_pic_set_clear_def
    lrt_pic_set_addall_def lrt_pic_set_copy_def Let_def)

text \<open>The set a value of type \<open>lrt_pic_set\<close> stands for, and what each operation does to it.\<close>

definition pic_set_abs :: "lrt_pic_set \<Rightarrow> nat set" where
  "pic_set_abs s = {i. lrt_pic_set_test s i}"

lemma pic_set_abs_bit: "pic_set_wf s \<Longrightarrow> pic_set_abs s = {i. i < 64 \<and> bit (s ! 0) i}"
  by (simp add: pic_set_abs_def pic_set_test_bit)

locale core_set =
  fixes add :: "'s \<Rightarrow> nat \<Rightarrow> 's" and remove :: "'s \<Rightarrow> nat \<Rightarrow> 's" and test :: "'s \<Rightarrow> nat \<Rightarrow> bool"
    and clear :: "'s \<Rightarrow> 's" and addall :: "'s \<Rightarrow> 's" and wf :: "'s \<Rightarrow> bool"
    and abs :: "'s \<Rightarrow> nat set" and universe :: "nat set"
  assumes abs_add: "wf s \<Longrightarrow> abs (add s i) = (if i \<in> universe then insert i (abs s) else abs s)"
    and abs_remove: "wf s \<Longrightarrow> abs (remove s i) = abs s - {i}"
    and abs_clear: "wf s \<Longrightarrow> abs (clear s) = {}"
    and abs_addall: "wf s \<Longrightarrow> abs (addall s) = universe"
    and test_abs: "wf s \<Longrightarrow> test s i \<longleftrightarrow> i \<in> abs s"
    and abs_universe: "wf s \<Longrightarrow> abs s \<subseteq> universe"
    and wf_add: "wf s \<Longrightarrow> wf (add s i)" and wf_remove: "wf s \<Longrightarrow> wf (remove s i)"
    and wf_clear: "wf s \<Longrightarrow> wf (clear s)"
begin

lemma test_add: "wf s \<Longrightarrow> test (add s i) j \<longleftrightarrow> test s j \<or> (j = i \<and> i \<in> universe)"
  by (auto simp: test_abs wf_add abs_add)

lemma test_remove: "wf s \<Longrightarrow> test (remove s i) j \<longleftrightarrow> test s j \<and> j \<noteq> i"
  by (simp add: test_abs wf_remove abs_remove)

lemma wf_adds: "wf s \<Longrightarrow> wf (fold (\<lambda>i s. add s i) is s)"
  by (induction "is" arbitrary: s) (simp_all add: wf_add)

lemma abs_adds: "wf s \<Longrightarrow> abs (fold (\<lambda>i s. add s i) is s) = abs s \<union> (set is \<inter> universe)"
  by (induction "is" arbitrary: s) (auto simp: wf_add abs_add)

lemma build_set: "wf s \<Longrightarrow> test (fold (\<lambda>i s. add s i) is (clear s)) j \<longleftrightarrow> j \<in> set is \<and> j \<in> universe"
  by (simp add: test_abs wf_adds abs_adds wf_clear abs_clear)

end

interpretation pics: core_set lrt_pic_set_add lrt_pic_set_remove lrt_pic_set_test
    lrt_pic_set_clear lrt_pic_set_addall pic_set_wf pic_set_abs "{..<64}"
proof (unfold_locales, goal_cases)
  case (1 s i)
  then show ?case
    by (auto simp: pic_set_abs_bit lrt_pic_set_add_def pic_values Let_def bit_simps pic_set_wf_def)
next
  case (2 s i)
  then show ?case
    by (auto simp: pic_set_abs_bit lrt_pic_set_remove_def pic_values Let_def bit_simps pic_set_wf_def)
next
  case (3 s)
  then show ?case
    by (auto simp: pic_set_abs_bit) (auto simp: lrt_pic_set_clear_def pic_set_wf_def)
next
  case (4 s)
  then show ?case
    by (auto simp: pic_set_abs_bit) (auto simp: lrt_pic_set_addall_def pic_set_wf_def)
qed (auto simp: pic_set_abs_def pic_set_test_bit)

end
