(* ===== verification/PicState.thy ===== *)
theory PicState
  imports LrtPic
begin

text \<open>
  The state of the hosted interrupt controller and the operations of \<open>l0/lrt/ulnx/pic.c\<close>
  and \<open>l0/lrt/ulnx/pic-unix.c\<close> that change it.
\<close>

subsection \<open>State\<close>

text \<open>
  A handler is a C function pointer: null, the marker \<open>(lrt_pic_handler)-1\<close> of an
  allocated vector that has no handler yet, the vector function \<open>vf\<close>\<^emph>\<open>i\<close> of the event
  manager, or another function.
\<close>

datatype pic_handler = H_NULL | H_ALLOCATED | H_vf nat | H_fun nat

record LPic =
  lvecs :: "pic_handler list"
  enabled :: "bool list"
  lpic_id :: nat
  lcore :: u64
  ipiStatus :: bool
  resetStatus :: bool

record unix_pic =
  rfds :: "nat set"
  wfds :: "nat set"
  efds :: "nat set"
  fd_enabled :: "nat set"
  maxfd :: nat

record pic_state =
  pic_lock :: bool
  gvecs :: "pic_handler list"
  pic_free :: nat
  numlpics :: nat
  lpics :: "LPic list"
  lrt_pic_firstid :: nat
  lrt_pic_lastid :: nat
  upic :: unix_pic
  wakeups :: "u64 list"

definition LPic_zero :: LPic where
  "LPic_zero = \<lparr>lvecs = replicate NUM_VEC H_NULL, enabled = replicate NUM_VEC False,
     lpic_id = 0, lcore = 0, ipiStatus = False, resetStatus = False\<rparr>"

definition unix_pic_zero :: unix_pic where
  "unix_pic_zero = \<lparr>rfds = {}, wfds = {}, efds = {}, fd_enabled = {}, maxfd = 0\<rparr>"

text \<open>\<open>lrt_pic_src\<close> of the hosted runtime and its flags.\<close>

record lrt_pic_src =
  src_fd :: nat
  src_flags :: u32

definition LRT_ULNX_PICFLAG_READ :: u32 where "LRT_ULNX_PICFLAG_READ = 1"
definition LRT_ULNX_PICFLAG_WRITE :: u32 where "LRT_ULNX_PICFLAG_WRITE = 2"
definition LRT_ULNX_PICFLAG_ERROR :: u32 where "LRT_ULNX_PICFLAG_ERROR = 4"

subsection \<open>Lock, cores\<close>

definition lock :: "'z pic_state_scheme \<Rightarrow> 'z pic_state_scheme res" where
  "lock s = (if pic_lock s then Inl Blocked else Inr (s\<lparr>pic_lock := True\<rparr>))"

definition unlock :: "'z pic_state_scheme \<Rightarrow> 'z pic_state_scheme" where
  "unlock s = s\<lparr>pic_lock := False\<rparr>"

definition lrt_pic_getnumlpics :: "'z pic_state_scheme \<Rightarrow> nat" where
  "lrt_pic_getnumlpics s = numlpics s"

definition lrt_pic_getnextlpic :: "'z pic_state_scheme \<Rightarrow> nat \<Rightarrow> nat res" where
  "lrt_pic_getnextlpic s c =
     (if numlpics s = 0 then Inl DivByZero else Inr ((c + 1) mod numlpics s))"

text \<open>A write to a field of \<open>lpics[i]\<close>.\<close>

definition upd_lpic :: "nat \<Rightarrow> (LPic \<Rightarrow> LPic res) \<Rightarrow> 'z pic_state_scheme \<Rightarrow> 'z pic_state_scheme res" where
  "upd_lpic i f s =
     rbind (arr_get (lpics s) i) (\<lambda>lp.
     rbind (f lp) (\<lambda>lp'.
     Inr (s\<lparr>lpics := (lpics s)[i := lp']\<rparr>)))"

definition set_lvec :: "nat \<Rightarrow> pic_handler \<Rightarrow> LPic \<Rightarrow> LPic res" where
  "set_lvec v h lp = rbind (arr_set (lvecs lp) v h) (\<lambda>vs. Inr (lp\<lparr>lvecs := vs\<rparr>))"

definition set_enabled :: "nat \<Rightarrow> bool \<Rightarrow> LPic \<Rightarrow> LPic res" where
  "set_enabled v b lp = rbind (arr_set (enabled lp) v b) (\<lambda>es. Inr (lp\<lparr>enabled := es\<rparr>))"

definition lrt_pic_enable :: "nat \<Rightarrow> nat \<Rightarrow> 'z pic_state_scheme \<Rightarrow> 'z pic_state_scheme res" where
  "lrt_pic_enable myid vec s = upd_lpic myid (set_enabled vec True) s"

definition lrt_pic_disable :: "nat \<Rightarrow> nat \<Rightarrow> 'z pic_state_scheme \<Rightarrow> 'z pic_state_scheme res" where
  "lrt_pic_disable myid vec s =
     (if vec \<noteq> RST_VEC then upd_lpic myid (set_enabled vec False) s else Inr s)"

definition lrt_pic_getIPIvec :: nat where "lrt_pic_getIPIvec = IPI_VEC"

definition lrt_pic_enableipi :: "nat \<Rightarrow> 'z pic_state_scheme \<Rightarrow> 'z pic_state_scheme res" where
  "lrt_pic_enableipi myid s = lrt_pic_enable myid IPI_VEC s"

definition lrt_pic_disableipi :: "nat \<Rightarrow> 'z pic_state_scheme \<Rightarrow> 'z pic_state_scheme res" where
  "lrt_pic_disableipi myid s = lrt_pic_disable myid IPI_VEC s"

definition lrt_pic_firstvec :: nat where "lrt_pic_firstvec = 0"
definition lrt_pic_numvec :: nat where "lrt_pic_numvec = NUM_MAPPABLE_VEC"

text \<open>
  \<open>lrt_pic_allocate_core_id\<close>: take the next core id, publish the largest one, copy the
  global vectors. \<open>lcoreid\<close> is what \<open>pthread_self\<close> returns. The compare-and-swap loop on
  \<open>lrt_pic_lastid\<close> leaves the larger of the two values. Returns the core's id.
\<close>

definition take_core_id :: "'z pic_state_scheme \<Rightarrow> (nat \<times> 'z pic_state_scheme) res" where
  "take_core_id s =
     (if numlpics s = 0
      then Inr (0, s\<lparr>numlpics := 1, lrt_pic_firstid := 0, lrt_pic_lastid := 0\<rparr>)
      else let myid = numlpics s in
        rbind (lrt_assert (myid \<le> LRT_PIC_MAX_PICS)) (\<lambda>_.
        Inr (myid, s\<lparr>numlpics := numlpics s + 1,
                     lrt_pic_lastid := max (lrt_pic_lastid s) myid\<rparr>)))"

definition copy_gvecs :: "'z pic_state_scheme \<Rightarrow> LPic \<Rightarrow> LPic res" where
  "copy_gvecs s lp =
     rbind (fold (\<lambda>i r. rbind r (\<lambda>lp. rbind (arr_get (gvecs s) i) (\<lambda>h. set_lvec i h lp)))
              [0..<NUM_MAPPABLE_VEC] (Inr lp)) (\<lambda>lp.
     rbind (arr_get (gvecs s) RST_VEC) (\<lambda>h. set_lvec RST_VEC h lp))"

definition lrt_pic_allocate_core_id ::
    "u64 \<Rightarrow> 'z pic_state_scheme \<Rightarrow> (nat \<times> 'z pic_state_scheme) res" where
  "lrt_pic_allocate_core_id lcoreid s =
     rbind (take_core_id s) (\<lambda>(myid, s).
     rbind (upd_lpic myid (\<lambda>lp. Inr (lp\<lparr>lcore := lcoreid\<rparr>)) s) (\<lambda>s.
     rbind (lock s) (\<lambda>s.
     rbind (upd_lpic myid (copy_gvecs s) s) (\<lambda>s.
     let s = unlock s in
     rbind (arr_get (lpics s) myid) (\<lambda>lp.
     rbind (lrt_assert (lcore lp \<noteq> 0)) (\<lambda>_.
     Inr (myid, s)))))))"

subsection \<open>Allocating and mapping vectors\<close>

text \<open>
  The scan of \<open>lrt_pic_allocvec\<close>: \<open>i\<close> counts the iterations, \<open>rtn\<close> is the vector
  looked at, starting from \<open>pic.free\<close> and wrapping.
\<close>

function allocvec_scan :: "pic_handler list \<Rightarrow> nat \<Rightarrow> nat \<Rightarrow> nat option res" where
  "allocvec_scan gv i rtn =
     (if i < NUM_MAPPABLE_VEC then
        rbind (arr_get gv rtn) (\<lambda>h.
        if h = H_NULL then Inr (Some rtn)
        else allocvec_scan gv (Suc i) (if rtn + 1 \<ge> NUM_MAPPABLE_VEC then 0 else rtn + 1))
      else Inr None)"
  by pat_completeness auto
termination
  by (relation "measure (\<lambda>(gv, i, rtn). NUM_MAPPABLE_VEC - i)") auto

declare allocvec_scan.simps [simp del]

text \<open>Returns the C return value and, with 1, the vector stored through \<open>vec\<close>.\<close>

definition lrt_pic_allocvec ::
    "'z pic_state_scheme \<Rightarrow> (int \<times> nat option \<times> 'z pic_state_scheme) res" where
  "lrt_pic_allocvec s =
     rbind (lock s) (\<lambda>s.
     rbind (allocvec_scan (gvecs s) 0 (pic_free s)) (\<lambda>found.
     case found of
       Some rtn \<Rightarrow>
         rbind (arr_set (gvecs s) rtn H_ALLOCATED) (\<lambda>gv.
         let free' = pic_free s + 1;
             free'' = (if free' \<ge> NUM_MAPPABLE_VEC then 0 else free')
         in Inr (1, Some rtn, unlock (s\<lparr>gvecs := gv, pic_free := free''\<rparr>)))
     | None \<Rightarrow> Inr (-1, None, unlock s)))"

definition lrt_pic_mapipi :: "nat \<Rightarrow> pic_handler \<Rightarrow> 'z pic_state_scheme \<Rightarrow> (int \<times> 'z pic_state_scheme) res" where
  "lrt_pic_mapipi myid h s =
     rbind (upd_lpic myid (set_lvec IPI_VEC h) s) (\<lambda>s. Inr (1, s))"

definition lrt_pic_mapreset :: "nat \<Rightarrow> pic_handler \<Rightarrow> 'z pic_state_scheme \<Rightarrow> (int \<times> 'z pic_state_scheme) res" where
  "lrt_pic_mapreset myid h s =
     rbind (arr_set (gvecs s) RST_VEC h) (\<lambda>gv.
     rbind (upd_lpic myid (set_lvec RST_VEC h) (s\<lparr>gvecs := gv\<rparr>)) (\<lambda>s. Inr (1, s)))"

definition lrt_pic_unix_wakeup :: "u64 \<Rightarrow> 'z pic_state_scheme \<Rightarrow> 'z pic_state_scheme" where
  "lrt_pic_unix_wakeup lc s = s\<lparr>wakeups := wakeups s @ [lc]\<rparr>"

definition lrt_pic_ipi :: "nat \<Rightarrow> 'z pic_state_scheme \<Rightarrow> (int \<times> 'z pic_state_scheme) res" where
  "lrt_pic_ipi target s =
     (if target > lrt_pic_lastid s then Inr (-1, s)
      else
        rbind (upd_lpic target (\<lambda>lp. Inr (lp\<lparr>ipiStatus := True\<rparr>)) s) (\<lambda>s.
        rbind (arr_get (lpics s) target) (\<lambda>lp.
        rbind (lrt_assert (lcore lp \<noteq> 0)) (\<lambda>_.
        Inr (1, lrt_pic_unix_wakeup (lcore lp) s)))))"

definition lrt_pic_reset :: "nat \<Rightarrow> 'z pic_state_scheme \<Rightarrow> (int \<times> 'z pic_state_scheme) res" where
  "lrt_pic_reset target s =
     (if target > lrt_pic_lastid s then Inr (-1, s)
      else
        rbind (upd_lpic target (\<lambda>lp. Inr (lp\<lparr>resetStatus := True\<rparr>)) s) (\<lambda>s.
        rbind (arr_get (lpics s) target) (\<lambda>lp.
        rbind (lrt_assert (lcore lp \<noteq> 0)) (\<lambda>_.
        Inr (1, lrt_pic_unix_wakeup (lcore lp) s)))))"

definition lrt_pic_ackipi :: "nat \<Rightarrow> 'z pic_state_scheme \<Rightarrow> 'z pic_state_scheme res" where
  "lrt_pic_ackipi myid s = upd_lpic myid (\<lambda>lp. Inr (lp\<lparr>ipiStatus := False\<rparr>)) s"

text \<open>The loop \<open>for (i=lrt_pic_firstid; i<=lrt_pic_lastid; i++)\<close> over the started cores.\<close>

definition started_cores :: "'z pic_state_scheme \<Rightarrow> nat list" where
  "started_cores s = [lrt_pic_firstid s..<lrt_pic_lastid s + 1]"

definition for_cores ::
    "(nat \<Rightarrow> 'z pic_state_scheme \<Rightarrow> 'z pic_state_scheme res) \<Rightarrow> 'z pic_state_scheme \<Rightarrow> 'z pic_state_scheme res" where
  "for_cores f s = fold (\<lambda>i r. rbind r (f i)) (started_cores s) (Inr s)"

definition wake_core :: "nat \<Rightarrow> 'z pic_state_scheme \<Rightarrow> 'z pic_state_scheme res" where
  "wake_core i s = rbind (arr_get (lpics s) i) (\<lambda>lp. Inr (lrt_pic_unix_wakeup (lcore lp) s))"

subsection \<open>Vectors on and off\<close>

definition lrt_pic_unix_locked_enable :: "nat \<Rightarrow> 'z pic_state_scheme \<Rightarrow> int \<times> 'z pic_state_scheme" where
  "lrt_pic_unix_locked_enable vec s =
     (let i = vec + FIRST_VECFD;
          u = (upic s)\<lparr>fd_enabled := insert i (fd_enabled (upic s))\<rparr>;
          u = (if i > maxfd u then u\<lparr>maxfd := i\<rparr> else u)
      in (0, s\<lparr>upic := u\<rparr>))"

text \<open>\<open>for (i=FIRST_VECFD + NUM_VEC; i>=FIRST_VECFD; i--)\<close>: the first set bit from above.\<close>

definition find_maxfd :: "nat set \<Rightarrow> nat" where
  "find_maxfd en =
     (case find (\<lambda>i. i \<in> en) (rev [FIRST_VECFD..<FIRST_VECFD + NUM_VEC + 1]) of
        Some i \<Rightarrow> i | None \<Rightarrow> 0)"

definition lrt_pic_unix_locked_disable :: "nat \<Rightarrow> 'z pic_state_scheme \<Rightarrow> int \<times> 'z pic_state_scheme" where
  "lrt_pic_unix_locked_disable vec s =
     (let i = vec + FIRST_VECFD;
          u = (upic s)\<lparr>fd_enabled := fd_enabled (upic s) - {i}\<rparr>;
          u = (if i = maxfd u then u\<lparr>maxfd := find_maxfd (fd_enabled u)\<rparr> else u)
      in (0, s\<lparr>upic := u\<rparr>))"

definition lrt_pic_locked_vecon :: "nat \<Rightarrow> 'z pic_state_scheme \<Rightarrow> (int \<times> 'z pic_state_scheme) res" where
  "lrt_pic_locked_vecon vec s =
     (let (rc, s) = lrt_pic_unix_locked_enable vec s
      in if rc \<noteq> 0 then Inr (-1, s)
         else rbind (for_cores wake_core s) (\<lambda>s. Inr (1, s)))"

definition lrt_pic_vecon :: "nat \<Rightarrow> 'z pic_state_scheme \<Rightarrow> (int \<times> 'z pic_state_scheme) res" where
  "lrt_pic_vecon vec s =
     rbind (lock s) (\<lambda>s.
     rbind (arr_get (gvecs s) vec) (\<lambda>h.
     rbind (if h = H_NULL then Inr (-1, s) else lrt_pic_locked_vecon vec s) (\<lambda>(rc, s).
     Inr (rc, unlock s))))"

definition lrt_pic_locked_vecoff :: "nat \<Rightarrow> 'z pic_state_scheme \<Rightarrow> (int \<times> 'z pic_state_scheme) res" where
  "lrt_pic_locked_vecoff vec s =
     (let (rc, s) = lrt_pic_unix_locked_disable vec s
      in if rc \<noteq> 0 then Inr (-1, s)
         else rbind (for_cores wake_core s) (\<lambda>s. Inr (1, s)))"

definition lrt_pic_vecoff :: "nat \<Rightarrow> 'z pic_state_scheme \<Rightarrow> (int \<times> 'z pic_state_scheme) res" where
  "lrt_pic_vecoff vec s =
     rbind (lock s) (\<lambda>s.
     rbind (arr_get (gvecs s) vec) (\<lambda>h.
     rbind (if h = H_NULL then Inr (-1, s) else lrt_pic_locked_vecoff vec s) (\<lambda>(rc, s).
     Inr (rc, unlock s))))"

text \<open>
  \<open>lrt_pic_unix_locked_map\<close>: \<open>dup2 fd newfd\<close> is the system call's result. A successful
  \<open>dup2\<close> returns the new descriptor.
\<close>

definition lrt_pic_unix_locked_map ::
    "(nat \<Rightarrow> nat \<Rightarrow> int) \<Rightarrow> lrt_pic_src \<Rightarrow> nat \<Rightarrow> 'z pic_state_scheme \<Rightarrow> int \<times> 'z pic_state_scheme" where
  "lrt_pic_unix_locked_map dup2 src vec s =
     (let i = dup2 (src_fd src) (vec + FIRST_VECFD)
      in if i \<noteq> int (vec + FIRST_VECFD) then (-1, s)
         else
           let n = vec + FIRST_VECFD;
               u = upic s;
               u = (if src_flags src AND LRT_ULNX_PICFLAG_READ \<noteq> 0 then u\<lparr>rfds := insert n (rfds u)\<rparr> else u);
               u = (if src_flags src AND LRT_ULNX_PICFLAG_WRITE \<noteq> 0 then u\<lparr>wfds := insert n (wfds u)\<rparr> else u);
               u = (if src_flags src AND LRT_ULNX_PICFLAG_ERROR \<noteq> 0 then u\<lparr>efds := insert n (efds u)\<rparr> else u)
           in (0, s\<lparr>upic := u\<rparr>))"

definition map_core :: "nat \<Rightarrow> pic_handler \<Rightarrow> nat \<Rightarrow> 'z pic_state_scheme \<Rightarrow> 'z pic_state_scheme res" where
  "map_core vec h i s =
     rbind (arr_get (lpics s) i) (\<lambda>lp.
     rbind (lrt_assert (lcore lp \<noteq> 0)) (\<lambda>_.
     upd_lpic i (set_lvec vec h) s))"

definition lrt_pic_mapvec ::
    "(nat \<Rightarrow> nat \<Rightarrow> int) \<Rightarrow> lrt_pic_src \<Rightarrow> nat \<Rightarrow> pic_handler \<Rightarrow> 'z pic_state_scheme \<Rightarrow> (int \<times> 'z pic_state_scheme) res" where
  "lrt_pic_mapvec dup2 src vec h s =
     rbind (lock s) (\<lambda>s.
     rbind (arr_get (gvecs s) vec) (\<lambda>old.
     if old = H_NULL then Inr (-1, unlock s)
     else
       rbind (arr_set (gvecs s) vec h) (\<lambda>gv.
       rbind (for_cores (map_core vec h) (s\<lparr>gvecs := gv\<rparr>)) (\<lambda>s.
       let (r, s) = lrt_pic_unix_locked_map dup2 src vec s
       in Inr (if r \<ge> 0 then 1 else -1, unlock s)))))"

text \<open>
  \<open>lrt_pic_init\<close> up to its call of \<open>lrt_pic_loop\<close>: clear the state, set up the Unix side
  (\<open>unix_rc\<close> is what \<open>lrt_pic_unix_init\<close> returned; it clears \<open>upic\<close>), map the reset vector.
\<close>

definition lrt_pic_init ::
    "int \<Rightarrow> pic_handler \<Rightarrow> 'z pic_state_scheme \<Rightarrow> (int \<times> 'z pic_state_scheme) res" where
  "lrt_pic_init unix_rc h s =
     rbind (lrt_assert (LRT_PIC_MAX_PICS div 64 * 64 = LRT_PIC_MAX_PICS)) (\<lambda>_.
     let s = s\<lparr>pic_lock := False, gvecs := replicate NUM_VEC H_NULL, pic_free := 0, numlpics := 0,
               lpics := replicate LRT_PIC_MAX_PICS LPic_zero, upic := unix_pic_zero\<rparr>
     in if unix_rc \<noteq> 0 then Inr (-1, s) else lrt_pic_mapreset 0 h s)"

end
