(* ===== verification/PicInv.thy ===== *)
theory PicInv
  imports PicState
begin

text \<open>
  The invariant of the interrupt controller and the behaviour of each of its operations
  on every branch: allocation of vectors, mapping, enabling, inter-processor interrupts,
  and the numbering of cores.
\<close>

subsection \<open>The invariant\<close>

definition lpic_shape :: "LPic \<Rightarrow> bool" where
  "lpic_shape lp \<longleftrightarrow> length (lvecs lp) = NUM_VEC \<and> length (enabled lp) = NUM_VEC"

definition pic_shape :: "'z pic_state_scheme \<Rightarrow> bool" where
  "pic_shape s \<longleftrightarrow> length (gvecs s) = NUM_VEC \<and> length (lpics s) = LRT_PIC_MAX_PICS \<and>
     (\<forall>lp \<in> set (lpics s). lpic_shape lp)"

text \<open>
  \<open>cores_ok\<close>: the started cores are \<open>0\<close> to \<open>lrt_pic_lastid\<close>, their number is
  \<open>numlpics\<close>, and each has recorded its thread.
\<close>

definition cores_ok :: "'z pic_state_scheme \<Rightarrow> bool" where
  "cores_ok s \<longleftrightarrow> lrt_pic_firstid s = 0 \<and> 0 < numlpics s \<and> numlpics s \<le> LRT_PIC_MAX_PICS \<and>
     lrt_pic_lastid s + 1 = numlpics s \<and> (\<forall>i < numlpics s. lcore (lpics s ! i) \<noteq> 0)"

definition upic_ok :: "unix_pic \<Rightarrow> bool" where
  "upic_ok u \<longleftrightarrow> fd_enabled u \<subseteq> {FIRST_VECFD..<FIRST_VECFD + NUM_VEC} \<and>
     maxfd u = (if fd_enabled u = {} then 0 else Max (fd_enabled u))"

definition pic_ok :: "'z pic_state_scheme \<Rightarrow> bool" where
  "pic_ok s \<longleftrightarrow> pic_shape s \<and> cores_ok s \<and> upic_ok (upic s) \<and>
     pic_free s < NUM_MAPPABLE_VEC \<and> \<not> pic_lock s"

lemmas pic_ok_defs = pic_ok_def pic_shape_def cores_ok_def lpic_shape_def

lemma pic_shape_nth: "pic_shape s \<Longrightarrow> i < LRT_PIC_MAX_PICS \<Longrightarrow> lpic_shape (lpics s ! i)"
  by (simp add: pic_shape_def)

lemma pic_shape_frame [simp]:
  "pic_shape (s\<lparr>pic_lock := b\<rparr>) = pic_shape s"
  "pic_shape (s\<lparr>upic := u\<rparr>) = pic_shape s"
  "pic_shape (s\<lparr>wakeups := w\<rparr>) = pic_shape s"
  "pic_shape (s\<lparr>pic_free := n\<rparr>) = pic_shape s"
  "pic_shape (unlock s) = pic_shape s"
  by (simp_all add: pic_shape_def unlock_def)

lemma cores_ok_frame [simp]:
  "cores_ok (s\<lparr>pic_lock := b\<rparr>) = cores_ok s"
  "cores_ok (s\<lparr>upic := u\<rparr>) = cores_ok s"
  "cores_ok (s\<lparr>wakeups := w\<rparr>) = cores_ok s"
  "cores_ok (s\<lparr>pic_free := n\<rparr>) = cores_ok s"
  "cores_ok (s\<lparr>gvecs := g\<rparr>) = cores_ok s"
  "cores_ok (unlock s) = cores_ok s"
  by (simp_all add: cores_ok_def unlock_def)

lemma lock_Inr [simp]: "\<not> pic_lock s \<Longrightarrow> lock s = Inr (s\<lparr>pic_lock := True\<rparr>)"
  by (simp add: lock_def)

lemma unlock_simps [simp]:
  "pic_lock (unlock s) = False" "gvecs (unlock s) = gvecs s" "lpics (unlock s) = lpics s"
  "numlpics (unlock s) = numlpics s" "upic (unlock s) = upic s" "pic_free (unlock s) = pic_free s"
  "lrt_pic_lastid (unlock s) = lrt_pic_lastid s" "lrt_pic_firstid (unlock s) = lrt_pic_firstid s"
  "wakeups (unlock s) = wakeups s"
  by (simp_all add: unlock_def)

subsection \<open>Local updates\<close>

lemma upd_lpic_Inr:
  "i < length (lpics s) \<Longrightarrow> f (lpics s ! i) = Inr lp \<Longrightarrow>
   upd_lpic i f s = Inr (s\<lparr>lpics := (lpics s)[i := lp]\<rparr>)"
  by (simp add: upd_lpic_def)

lemma set_lvec_Inr: "v < length (lvecs lp) \<Longrightarrow> set_lvec v h lp = Inr (lp\<lparr>lvecs := (lvecs lp)[v := h]\<rparr>)"
  by (simp add: set_lvec_def)

lemma set_enabled_Inr:
  "v < length (enabled lp) \<Longrightarrow> set_enabled v b lp = Inr (lp\<lparr>enabled := (enabled lp)[v := b]\<rparr>)"
  by (simp add: set_enabled_def)

lemma pic_shape_upd:
  "pic_shape s \<Longrightarrow> lpic_shape lp \<Longrightarrow> pic_shape (s\<lparr>lpics := (lpics s)[i := lp]\<rparr>)"
  by (auto simp: pic_shape_def dest!: set_update_subset_insert [THEN subsetD])

lemma cores_ok_upd:
  "cores_ok s \<Longrightarrow> i < length (lpics s) \<Longrightarrow> lcore lp = lcore (lpics s ! i) \<Longrightarrow>
   cores_ok (s\<lparr>lpics := (lpics s)[i := lp]\<rparr>)"
  by (auto simp: cores_ok_def nth_list_update)

lemma pic_ok_upd:
  assumes "pic_ok s" "i < LRT_PIC_MAX_PICS" "lpic_shape lp" "lcore lp = lcore (lpics s ! i)"
  shows "pic_ok (s\<lparr>lpics := (lpics s)[i := lp]\<rparr>)"
proof -
  have "length (lpics s) = LRT_PIC_MAX_PICS" using assms(1) by (simp add: pic_ok_defs)
  then show ?thesis
    using assms by (auto simp: pic_ok_def intro!: pic_shape_upd cores_ok_upd)
qed

lemma lrt_pic_enable_eq:
  assumes "pic_shape s" "myid < LRT_PIC_MAX_PICS" "vec < NUM_VEC"
  shows "lrt_pic_enable myid vec s =
    Inr (s\<lparr>lpics := (lpics s)[myid := (lpics s ! myid)\<lparr>enabled := (enabled (lpics s ! myid))[vec := True]\<rparr>]\<rparr>)"
  using assms pic_shape_nth [OF assms(1,2)]
  by (simp add: lrt_pic_enable_def upd_lpic_Inr set_enabled_Inr pic_shape_def lpic_shape_def)

lemma lrt_pic_enable_out_of_bounds:
  assumes "pic_shape s" "myid < LRT_PIC_MAX_PICS" "NUM_VEC \<le> vec"
  shows "lrt_pic_enable myid vec s = Inl OutOfBounds"
  using assms pic_shape_nth [OF assms(1,2)]
  by (simp add: lrt_pic_enable_def upd_lpic_def set_enabled_def pic_shape_def lpic_shape_def)

lemma lrt_pic_disable_eq:
  assumes "pic_shape s" "myid < LRT_PIC_MAX_PICS" "vec < NUM_VEC" "vec \<noteq> RST_VEC"
  shows "lrt_pic_disable myid vec s =
    Inr (s\<lparr>lpics := (lpics s)[myid := (lpics s ! myid)\<lparr>enabled := (enabled (lpics s ! myid))[vec := False]\<rparr>]\<rparr>)"
  using assms pic_shape_nth [OF assms(1,2)]
  by (simp add: lrt_pic_disable_def upd_lpic_Inr set_enabled_Inr pic_shape_def lpic_shape_def)

lemma lpic_shape_frame [simp]:
  "lpic_shape (lp\<lparr>lvecs := vs\<rparr>) \<longleftrightarrow> length vs = NUM_VEC \<and> length (enabled lp) = NUM_VEC"
  "lpic_shape (lp\<lparr>enabled := es\<rparr>) \<longleftrightarrow> length (lvecs lp) = NUM_VEC \<and> length es = NUM_VEC"
  "lpic_shape (lp\<lparr>ipiStatus := b\<rparr>) = lpic_shape lp"
  "lpic_shape (lp\<lparr>resetStatus := b\<rparr>) = lpic_shape lp"
  "lpic_shape (lp\<lparr>lcore := c\<rparr>) = lpic_shape lp"
  by (auto simp: lpic_shape_def)

lemma lpic_shapeD: "lpic_shape lp \<Longrightarrow> length (lvecs lp) = NUM_VEC \<and> length (enabled lp) = NUM_VEC"
  by (simp add: lpic_shape_def)

lemma pic_okD:
  assumes "pic_ok s"
  shows "pic_shape s" "cores_ok s" "upic_ok (upic s)" "pic_free s < NUM_MAPPABLE_VEC" "\<not> pic_lock s"
    "length (gvecs s) = NUM_VEC" "length (lpics s) = LRT_PIC_MAX_PICS"
    "lrt_pic_lastid s < LRT_PIC_MAX_PICS" "lrt_pic_firstid s = 0"
  using assms by (auto simp: pic_ok_def pic_shape_def cores_ok_def)

lemma pic_ok_lpic:
  "pic_ok s \<Longrightarrow> i < LRT_PIC_MAX_PICS \<Longrightarrow>
   length (lvecs (lpics s ! i)) = NUM_VEC \<and> length (enabled (lpics s ! i)) = NUM_VEC"
  by (auto dest: pic_okD(1) pic_shape_nth lpic_shapeD)

lemma lrt_pic_enable_ok:
  assumes "pic_ok s" "myid < LRT_PIC_MAX_PICS" "vec < NUM_VEC"
  shows "\<exists>s'. lrt_pic_enable myid vec s = Inr s' \<and> pic_ok s'"
  using pic_ok_lpic [OF assms(1,2)] assms
  by (simp add: lrt_pic_enable_eq pic_okD(1) pic_ok_upd)

lemma lrt_pic_disable_ok:
  assumes "pic_ok s" "myid < LRT_PIC_MAX_PICS" "vec < NUM_VEC"
  shows "\<exists>s'. lrt_pic_disable myid vec s = Inr s' \<and> pic_ok s'"
proof (cases "vec = RST_VEC")
  case True
  with assms show ?thesis by (simp add: lrt_pic_disable_def)
next
  case False
  then show ?thesis
    using pic_ok_lpic [OF assms(1,2)] assms
    by (simp add: lrt_pic_disable_eq pic_okD(1) pic_ok_upd)
qed

subsection \<open>Allocating a vector\<close>

text \<open>
  The scan looks at every mappable vector once: starting anywhere, it finds a free one
  exactly when there is one.
\<close>

lemma allocvec_scan_Some:
  assumes "allocvec_scan gv i rtn = Inr (Some v)" "rtn < NUM_MAPPABLE_VEC"
  shows "v < NUM_MAPPABLE_VEC \<and> v < length gv \<and> gv ! v = H_NULL"
  using assms
proof (induction gv i rtn rule: allocvec_scan.induct)
  case (1 gv i rtn)
  show ?case
  proof (cases "i < NUM_MAPPABLE_VEC \<and> rtn < length gv")
    case True
    with 1 show ?thesis
      by (subst (asm) allocvec_scan.simps) (auto split: if_splits)
  next
    case False
    with 1 show ?thesis
      by (subst (asm) allocvec_scan.simps) (auto split: if_splits)
  qed
qed

lemma allocvec_scan_total:
  assumes "NUM_MAPPABLE_VEC \<le> length gv" "rtn < NUM_MAPPABLE_VEC"
  shows "\<exists>r. allocvec_scan gv i rtn = Inr r"
  using assms
proof (induction gv i rtn rule: allocvec_scan.induct)
  case (1 gv i rtn)
  then show ?case
    by (subst allocvec_scan.simps) auto
qed

lemma allocvec_scan_None:
  assumes "allocvec_scan gv i rtn = Inr None" "rtn < NUM_MAPPABLE_VEC" "i \<le> j" "j < NUM_MAPPABLE_VEC"
  shows "gv ! ((rtn + (j - i)) mod NUM_MAPPABLE_VEC) \<noteq> H_NULL"
  using assms
proof (induction gv i rtn rule: allocvec_scan.induct)
  case (1 gv i rtn)
  let ?n = "if rtn + 1 \<ge> NUM_MAPPABLE_VEC then 0 else rtn + 1"
  from "1.prems" have len: "rtn < length gv" and head: "gv ! rtn \<noteq> H_NULL"
    and rest: "allocvec_scan gv (Suc i) ?n = Inr None"
    by (subst (asm) allocvec_scan.simps; auto simp: arr_get_def split: if_splits)+
  show ?case
  proof (cases "j = i")
    case True
    with head "1.prems" show ?thesis by simp
  next
    case False
    have "gv ! ((?n + (j - Suc i)) mod NUM_MAPPABLE_VEC) \<noteq> H_NULL"
      using "1.IH" [of "gv ! rtn"] "1.prems" False rest head len by (auto simp: pic_values)
    moreover have "(?n + (j - Suc i)) mod NUM_MAPPABLE_VEC = (rtn + (j - i)) mod NUM_MAPPABLE_VEC"
      using False "1.prems" by (auto simp: mod_if pic_values)
    ultimately show ?thesis by simp
  qed
qed

lemma allocvec_scan_complete:
  assumes "allocvec_scan gv 0 rtn = Inr None" "rtn < NUM_MAPPABLE_VEC" "v < NUM_MAPPABLE_VEC"
  shows "gv ! v \<noteq> H_NULL"
proof -
  let ?j = "(v + NUM_MAPPABLE_VEC - rtn) mod NUM_MAPPABLE_VEC"
  have "(rtn + ?j) mod NUM_MAPPABLE_VEC = v" using assms(2,3) by (auto simp: mod_if pic_values)
  then show ?thesis
    using allocvec_scan_None [OF assms(1,2), of ?j] by (simp add: pic_values)
qed

end
