(* ===== verification/PicLoop.thy ===== *)
theory PicLoop
  imports PicState
begin

text \<open>
  The parts of the hosted interrupt controller that talk to the operating system: reserving
  the file descriptors of the vectors (\<open>lrt_pic_unix_init\<close>), waiting for an interrupt
  (\<open>lrt_pic_unix_blockforinterrupt\<close>) and the dispatch loop of a core (\<open>lrt_pic_loop\<close>).

  The kernel is a parameter: \<open>newfd used\<close> is the descriptor \<open>open\<close> or \<open>dup\<close> returns
  when the descriptors \<open>used\<close> are open, \<open>sel\<close> is \<open>pselect\<close>. The handlers a core calls
  are a parameter \<open>call\<close>, a state transformer that can fault.
\<close>

subsection \<open>Reserving descriptors\<close>

text \<open>The first loop: \<open>dup\<close> until the descriptor below \<open>FIRST_VECFD\<close> is taken.\<close>

function unix_init_fill ::
    "(nat set \<Rightarrow> int) \<Rightarrow> nat \<Rightarrow> int list \<Rightarrow> nat set \<Rightarrow> (int list \<times> nat set) res" where
  "unix_init_fill newfd i fd used =
     (if i < length fd then
        if fd ! i < int FIRST_VECFD - 1 then
          let d = newfd used; used' = (if d \<ge> 0 then insert (nat d) used else used)
          in rbind (arr_set fd (Suc i) d) (\<lambda>fd'. unix_init_fill newfd (Suc i) fd' used')
        else Inr (fd, used)
      else Inl OutOfBounds)"
  by pat_completeness auto
termination
  by (relation "measure (\<lambda>(newfd, i, fd, used). length fd - i)") (auto simp: arr_set_Inr_iff)

declare unix_init_fill.simps [simp del]

text \<open>The second loop: each vector gets its own descriptor.\<close>

fun unix_init_reserve :: "(nat set \<Rightarrow> int) \<Rightarrow> nat list \<Rightarrow> nat set \<Rightarrow> bool \<times> nat set" where
  "unix_init_reserve newfd [] used = (True, used)"
| "unix_init_reserve newfd (i # is) used =
     (let d = newfd used; used' = (if d \<ge> 0 then insert (nat d) used else used)
      in if d \<noteq> int (FIRST_VECFD + i) then (False, used')
         else unix_init_reserve newfd is used')"

text \<open>The third loop closes the fillers; a failed descriptor cannot be closed.\<close>

definition unix_init_closed :: "int list \<Rightarrow> nat set" where
  "unix_init_closed fd = nat ` set (filter (\<lambda>d. d > 0) fd)"

text \<open>Returns the C result, the open descriptors and the fresh \<open>upic\<close>.\<close>

definition lrt_pic_unix_init ::
    "(nat set \<Rightarrow> int) \<Rightarrow> nat set \<Rightarrow> (int \<times> nat set \<times> unix_pic) res" where
  "lrt_pic_unix_init newfd used =
     (let d = newfd used;
          used = (if d \<ge> 0 then insert (nat d) used else used);
          fd = (replicate FIRST_VECFD 0)[0 := d]
      in rbind (unix_init_fill newfd 0 fd used) (\<lambda>(fd, used).
         let (ok, used) = unix_init_reserve newfd [0..<NUM_VEC] used
         in if \<not> ok then Inr (-1, used, unix_pic_zero)
            else Inr (0, used - unix_init_closed fd, unix_pic_zero)))"

definition lrt_pic_unix_addcore :: "(unit \<Rightarrow> u64 option) \<Rightarrow> u64" where
  "lrt_pic_unix_addcore pthread_create = (case pthread_create () of None \<Rightarrow> 0 | Some t \<Rightarrow> t)"

definition lrt_pic_add_core :: "(unit \<Rightarrow> u64 option) \<Rightarrow> u64" where
  "lrt_pic_add_core pthread_create = lrt_pic_unix_addcore pthread_create"

subsection \<open>Waiting\<close>

text \<open>\<open>lrt_pic_unix_ints\<close> is an \<open>fd_set\<close> indexed by vector.\<close>

type_synonym lrt_pic_unix_ints = "nat set"

definition lrt_pic_unix_ints_clear :: "lrt_pic_unix_ints \<Rightarrow> lrt_pic_unix_ints" where
  "lrt_pic_unix_ints_clear s = {}"
definition lrt_pic_unix_ints_set :: "lrt_pic_unix_ints \<Rightarrow> nat \<Rightarrow> lrt_pic_unix_ints" where
  "lrt_pic_unix_ints_set s i = insert i s"
definition lrt_pic_unix_ints_remove :: "lrt_pic_unix_ints \<Rightarrow> nat \<Rightarrow> lrt_pic_unix_ints" where
  "lrt_pic_unix_ints_remove s i = s - {i}"
definition lrt_pic_unix_ints_test :: "lrt_pic_unix_ints \<Rightarrow> nat \<Rightarrow> bool" where
  "lrt_pic_unix_ints_test s i \<longleftrightarrow> i \<in> s"

text \<open>
  What \<open>pselect\<close> can answer: interrupted by a signal, another error, a timeout, or the
  ready descriptors of each of the three sets.
\<close>

datatype select_result =
    Sel_EINTR
  | Sel_Error
  | Sel_Timeout
  | Sel_Ready "nat set" "nat set" "nat set"

type_synonym pselect = "nat \<Rightarrow> nat set \<Rightarrow> nat set \<Rightarrow> nat set \<Rightarrow> select_result"

text \<open>The set built by the first loop from one of \<open>upic\<close>'s three sets.\<close>

definition block_fds :: "unix_pic \<Rightarrow> nat set \<Rightarrow> nat set" where
  "block_fds u fds =
     fold (\<lambda>i acc. if i \<in> fd_enabled u then if i \<in> fds then insert i acc else acc else acc)
       [FIRST_VECFD..<maxfd u + 1] {}"

definition lrt_pic_unix_blockforinterrupt ::
    "pselect \<Rightarrow> unix_pic \<Rightarrow> lrt_pic_unix_ints \<Rightarrow> int \<times> lrt_pic_unix_ints" where
  "lrt_pic_unix_blockforinterrupt sel u ints0 =
     (let ints = lrt_pic_unix_ints_clear ints0 in
      case sel (maxfd u + 1) (block_fds u (rfds u)) (block_fds u (wfds u)) (block_fds u (efds u)) of
        Sel_EINTR \<Rightarrow> (0, ints)
      | Sel_Error \<Rightarrow> (-1, ints)
      | Sel_Timeout \<Rightarrow> (-1, ints)
      | Sel_Ready r w e \<Rightarrow>
          fold (\<lambda>i (numintr, ints).
                  if i \<in> e \<or> i \<in> w \<or> i \<in> r
                  then (numintr + 1, lrt_pic_unix_ints_set ints (i - FIRST_VECFD))
                  else (numintr, ints))
            [FIRST_VECFD..<maxfd u + 1] (0, ints))"

subsection \<open>The dispatch loop\<close>

definition call_handler ::
    "(pic_handler \<Rightarrow> 's \<Rightarrow> 's res) \<Rightarrow> pic_handler \<Rightarrow> 's \<Rightarrow> 's res" where
  "call_handler call h s = (if h = H_NULL then Inl NullDeref else call h s)"

definition loop_reset ::
    "(pic_handler \<Rightarrow> 'z pic_state_scheme \<Rightarrow> 'z pic_state_scheme res) \<Rightarrow> nat \<Rightarrow>
     'z pic_state_scheme \<Rightarrow> 'z pic_state_scheme res" where
  "loop_reset call myid s =
     rbind (arr_get (lpics s) myid) (\<lambda>lp.
     if resetStatus lp then
       rbind (upd_lpic myid (\<lambda>lp. Inr (lp\<lparr>resetStatus := False\<rparr>)) s) (\<lambda>s.
       rbind (arr_get (lvecs lp) RST_VEC) (\<lambda>h. call_handler call h s))
     else Inr s)"

definition loop_ipi ::
    "(pic_handler \<Rightarrow> 'z pic_state_scheme \<Rightarrow> 'z pic_state_scheme res) \<Rightarrow> nat \<Rightarrow>
     'z pic_state_scheme \<Rightarrow> 'z pic_state_scheme res" where
  "loop_ipi call myid s =
     rbind (arr_get (lpics s) myid) (\<lambda>lp.
     if ipiStatus lp then
       rbind (arr_get (enabled lp) IPI_VEC) (\<lambda>en.
       if en then
         rbind (lrt_pic_disableipi myid s) (\<lambda>s.
         rbind (arr_get (lvecs lp) IPI_VEC) (\<lambda>h.
         rbind (lrt_assert (h \<noteq> H_NULL)) (\<lambda>_. call_handler call h s)))
       else Inr s)
     else Inr s)"

text \<open>The loop over the vectors stops when \<open>numintr\<close> interrupts have been handled.\<close>

fun loop_vecs ::
    "(pic_handler \<Rightarrow> 'z pic_state_scheme \<Rightarrow> 'z pic_state_scheme res) \<Rightarrow> nat \<Rightarrow> lrt_pic_unix_ints \<Rightarrow>
     nat list \<Rightarrow> int \<Rightarrow> 'z pic_state_scheme \<Rightarrow> 'z pic_state_scheme res" where
  "loop_vecs call myid ints [] numintr s = Inr s"
| "loop_vecs call myid ints (v # vs) numintr s =
     (if numintr \<le> 0 then Inr s
      else if lrt_pic_unix_ints_test ints v then
        rbind (arr_get (lpics s) myid) (\<lambda>lp.
        rbind (arr_get (enabled lp) v) (\<lambda>en.
        if en then
          rbind (lrt_pic_disable myid v s) (\<lambda>s.
          rbind (arr_get (lpics s) myid) (\<lambda>lp.
          rbind (arr_get (lvecs lp) v) (\<lambda>h.
          rbind (if h \<noteq> H_NULL then call h s else Inr s) (\<lambda>s.
          loop_vecs call myid ints vs (numintr - 1) s))))
        else loop_vecs call myid ints vs numintr s))
      else loop_vecs call myid ints vs numintr s)"

text \<open>One turn of the \<open>while (1)\<close> loop: \<open>Inr None\<close> when the function returns -1.\<close>

definition loop_iteration ::
    "(pic_handler \<Rightarrow> 'z pic_state_scheme \<Rightarrow> 'z pic_state_scheme res) \<Rightarrow> nat \<Rightarrow> pselect \<Rightarrow>
     'z pic_state_scheme \<Rightarrow> 'z pic_state_scheme option res" where
  "loop_iteration call myid sel s =
     (let (numintr, ints) = lrt_pic_unix_blockforinterrupt sel (upic s) {} in
      if numintr < 0 then Inr None
      else
        rbind (loop_reset call myid s) (\<lambda>s.
        rbind (loop_ipi call myid s) (\<lambda>s.
        rbind (loop_vecs call myid ints [0..<NUM_VEC] numintr s) (\<lambda>s.
        Inr (Some s)))))"

text \<open>
  The loop driven by a list of rounds: in each, \<open>env\<close> is what the other cores did to the
  shared state while this core waited and \<open>sel\<close> is the kernel's answer.
  The result is the state and whether the loop has returned -1.
\<close>

fun loop_rounds ::
    "(pic_handler \<Rightarrow> 'z pic_state_scheme \<Rightarrow> 'z pic_state_scheme res) \<Rightarrow> nat \<Rightarrow>
     (('z pic_state_scheme \<Rightarrow> 'z pic_state_scheme) \<times> pselect) list \<Rightarrow>
     'z pic_state_scheme \<Rightarrow> (bool \<times> 'z pic_state_scheme) res" where
  "loop_rounds call myid [] s = Inr (False, s)"
| "loop_rounds call myid ((env, sel) # rs) s =
     rbind (loop_iteration call myid sel (env s)) (\<lambda>r.
     case r of None \<Rightarrow> Inr (True, env s) | Some s' \<Rightarrow> loop_rounds call myid rs s')"

definition lrt_pic_loop ::
    "(pic_handler \<Rightarrow> 'z pic_state_scheme \<Rightarrow> 'z pic_state_scheme res) \<Rightarrow> u64 \<Rightarrow>
     (('z pic_state_scheme \<Rightarrow> 'z pic_state_scheme) \<times> pselect) list \<Rightarrow>
     'z pic_state_scheme \<Rightarrow> (bool \<times> 'z pic_state_scheme) res" where
  "lrt_pic_loop call lcoreid rs s =
     rbind (lrt_pic_allocate_core_id lcoreid s) (\<lambda>(myid, s).
     rbind (lrt_pic_enableipi myid s) (\<lambda>s.
     rbind (lrt_pic_enable myid RST_VEC s) (\<lambda>s.
     rbind (lrt_pic_reset myid s) (\<lambda>(_, s).
     loop_rounds call myid rs s))))"

end
