(* ===== verification/PicProps.thy ===== *)
theory PicProps
  imports PicInv PicLoop
begin

text \<open>
  Reachable states of the interrupt controller: what the operations guarantee together.
  The invariant \<open>pic_inv\<close> adds to \<open>pic_ok\<close> that every started core has the handler of
  every mapped vector; the step relation \<open>pic_step\<close> lets any core call any operation.
\<close>

subsection \<open>Loops over the started cores\<close>

definition map_lpics :: "nat set \<Rightarrow> (LPic \<Rightarrow> LPic) \<Rightarrow> LPic list \<Rightarrow> LPic list" where
  "map_lpics I f ls = map (\<lambda>i. if i \<in> I then f (ls ! i) else ls ! i) [0..<length ls]"

lemma length_map_lpics [simp]: "length (map_lpics I f ls) = length ls"
  by (simp add: map_lpics_def)

lemma nth_map_lpics [simp]:
  "i < length ls \<Longrightarrow> map_lpics I f ls ! i = (if i \<in> I then f (ls ! i) else ls ! i)"
  by (simp add: map_lpics_def)

lemma map_lpics_empty [simp]: "map_lpics {} f ls = ls"
  by (simp add: map_lpics_def map_nth)

lemma map_lpics_insert:
  assumes "\<And>lp. f (f lp) = f lp" "i < length ls"
  shows "map_lpics I f (ls[i := f (ls ! i)]) = map_lpics (insert i I) f ls"
  using assms by (intro nth_equalityI) (auto simp: nth_list_update)

lemma started_cores_eq: "cores_ok s \<Longrightarrow> started_cores s = [0..<numlpics s]"
  by (simp add: cores_ok_def started_cores_def)

abbreviation set_handler :: "nat \<Rightarrow> pic_handler \<Rightarrow> LPic \<Rightarrow> LPic" where
  "set_handler vec h lp \<equiv> lp\<lparr>lvecs := (lvecs lp)[vec := h]\<rparr>"

lemma fold_map_core:
  assumes "pic_shape s" "vec < NUM_VEC" "\<forall>i \<in> set is. i < LRT_PIC_MAX_PICS \<and> lcore (lpics s ! i) \<noteq> 0"
  shows "fold (\<lambda>i r. rbind r (map_core vec h i)) is (Inr s) =
    Inr (s\<lparr>lpics := map_lpics (set is) (set_handler vec h) (lpics s)\<rparr>)"
  using assms
proof (induction "is" arbitrary: s)
  case (Cons i "is")
  let ?s = "s\<lparr>lpics := (lpics s)[i := set_handler vec h (lpics s ! i)]\<rparr>"
  from Cons.prems have i: "i < length (lpics s)" "lcore (lpics s ! i) \<noteq> 0"
    and shape: "lpic_shape (lpics s ! i)"
    by (auto simp: pic_shape_def)
  have step: "map_core vec h i s = Inr ?s"
    using i shape Cons.prems(2)
    by (simp add: map_core_def upd_lpic_Inr set_lvec_Inr lpic_shape_def)
  have "fold (\<lambda>i r. rbind r (map_core vec h i)) is (Inr ?s) =
      Inr (?s\<lparr>lpics := map_lpics (set is) (set_handler vec h) (lpics ?s)\<rparr>)"
    using i Cons.prems shape
    by (intro Cons.IH pic_shape_upd) (auto simp: lpic_shape_def nth_list_update)
  moreover have "map_lpics (set is) (set_handler vec h) ((lpics s)[i := set_handler vec h (lpics s ! i)]) =
      map_lpics (set (i # is)) (set_handler vec h) (lpics s)"
    using i(1) map_lpics_insert [of "set_handler vec h" i "lpics s" "set is"] by simp
  ultimately show ?case by (simp add: step)
qed simp

lemma for_cores_map_core:
  assumes "pic_shape s" "cores_ok s" "vec < NUM_VEC"
  shows "for_cores (map_core vec h) s =
    Inr (s\<lparr>lpics := map_lpics {..<numlpics s} (set_handler vec h) (lpics s)\<rparr>)"
  using assms fold_map_core [of s vec "[0..<numlpics s]" h]
  by (auto simp: for_cores_def started_cores_eq cores_ok_def atLeast0LessThan)

lemma fold_wake_core:
  assumes "\<forall>i \<in> set is. i < length (lpics s)"
  shows "fold (\<lambda>i r. rbind r (wake_core i)) is (Inr s) =
    Inr (s\<lparr>wakeups := wakeups s @ map (\<lambda>i. lcore (lpics s ! i)) is\<rparr>)"
  using assms by (induction "is" arbitrary: s) (simp_all add: wake_core_def lrt_pic_unix_wakeup_def)

lemma for_cores_wake_core:
  assumes "pic_shape s" "cores_ok s"
  shows "for_cores wake_core s =
    Inr (s\<lparr>wakeups := wakeups s @ map (\<lambda>i. lcore (lpics s ! i)) [0..<numlpics s]\<rparr>)"
  using assms by (simp add: for_cores_def started_cores_eq fold_wake_core pic_shape_def cores_ok_def)

subsection \<open>The invariant of the whole controller\<close>

definition vecs_agree :: "'z pic_state_scheme \<Rightarrow> bool" where
  "vecs_agree s \<longleftrightarrow> (\<forall>i < numlpics s. \<forall>v < NUM_MAPPABLE_VEC.
     gvecs s ! v \<noteq> H_NULL \<and> gvecs s ! v \<noteq> H_ALLOCATED \<longrightarrow> lvecs (lpics s ! i) ! v = gvecs s ! v)"

definition pic_inv :: "'z pic_state_scheme \<Rightarrow> bool" where
  "pic_inv s \<longleftrightarrow> pic_ok s \<and> vecs_agree s"

lemma vecs_agree_frame [simp]:
  "vecs_agree (s\<lparr>pic_lock := b\<rparr>) = vecs_agree s"
  "vecs_agree (s\<lparr>upic := u\<rparr>) = vecs_agree s"
  "vecs_agree (s\<lparr>wakeups := w\<rparr>) = vecs_agree s"
  "vecs_agree (s\<lparr>pic_free := n\<rparr>) = vecs_agree s"
  "vecs_agree (unlock s) = vecs_agree s"
  by (simp_all add: vecs_agree_def unlock_def)

lemma pic_inv_wakeups [simp]: "pic_inv (s\<lparr>wakeups := w\<rparr>) = pic_inv s"
  by (simp add: pic_inv_def pic_ok_def)

text \<open>An update of one core that keeps its thread and its mapped vectors.\<close>

lemma pic_inv_upd:
  assumes "pic_inv s" "i < LRT_PIC_MAX_PICS" "lpic_shape lp" "lcore lp = lcore (lpics s ! i)"
    and "\<And>v. v < NUM_MAPPABLE_VEC \<Longrightarrow> lvecs lp ! v = lvecs (lpics s ! i) ! v"
  shows "pic_inv (s\<lparr>lpics := (lpics s)[i := lp]\<rparr>)"
proof -
  have "vecs_agree (s\<lparr>lpics := (lpics s)[i := lp]\<rparr>)"
    using assms by (auto simp: pic_inv_def vecs_agree_def nth_list_update pic_okD(7))
  with assms show ?thesis by (simp add: pic_inv_def pic_ok_upd)
qed

lemma pic_inv_lpic:
  assumes "pic_inv s" "i < LRT_PIC_MAX_PICS"
  shows "lpic_shape (lpics s ! i)" "i < length (lpics s)"
  using assms by (auto simp: pic_inv_def pic_okD(7) dest: pic_okD(1) pic_shape_nth)

subsection \<open>Allocation\<close>

lemma allocvec_spec:
  assumes "pic_inv s"
  shows "\<exists>s'. pic_inv s' \<and>
    (if \<exists>v < NUM_MAPPABLE_VEC. gvecs s ! v = H_NULL
     then \<exists>v < NUM_MAPPABLE_VEC. gvecs s ! v = H_NULL \<and>
            lrt_pic_allocvec s = Inr (1, Some v, s') \<and> gvecs s' = (gvecs s)[v := H_ALLOCATED]
     else lrt_pic_allocvec s = Inr (-1, None, s') \<and> s' = s)"
proof -
  note ok = pic_okD [OF assms [unfolded pic_inv_def, THEN conjunct1]]
  obtain r where r: "allocvec_scan (gvecs s) 0 (pic_free s) = Inr r"
    using allocvec_scan_total [of "gvecs s" "pic_free s" 0] ok by (auto simp: pic_values)
  show ?thesis
  proof (cases r)
    case None
    have "gvecs s ! v \<noteq> H_NULL" if "v < NUM_MAPPABLE_VEC" for v
      using allocvec_scan_complete [OF r [unfolded None] ok(4) that] .
    moreover have "lrt_pic_allocvec s = Inr (-1, None, s)"
      using ok(5) by (simp add: lrt_pic_allocvec_def r None unlock_def)
    ultimately show ?thesis using assms by auto
  next
    case (Some v)
    then have v: "v < NUM_MAPPABLE_VEC" "v < length (gvecs s)" "gvecs s ! v = H_NULL"
      using allocvec_scan_Some r ok(4) by blast+
    let ?free = "if pic_free s + 1 \<ge> NUM_MAPPABLE_VEC then 0 else pic_free s + 1"
    let ?s = "unlock (s\<lparr>pic_lock := True, gvecs := (gvecs s)[v := H_ALLOCATED], pic_free := ?free\<rparr>)"
    have "lrt_pic_allocvec s = Inr (1, Some v, ?s)"
      using ok(5) v(2) by (simp add: lrt_pic_allocvec_def r Some Let_def)
    moreover have "pic_inv ?s"
      using assms v by (auto simp: pic_inv_def pic_ok_defs vecs_agree_def unlock_def nth_list_update pic_values)
    ultimately show ?thesis
      using v by (intro exI [of _ ?s]) (auto simp: unlock_def)
  qed
qed

text \<open>
  \<open>lrt_pic_allocvec\<close> on every branch. It never faults and releases the lock; it fails
  exactly when all mappable vectors are taken and then changes nothing, and otherwise returns a
  mappable vector that was free and is now marked as allocated, leaving the others.
\<close>

theorem lrt_pic_allocvec_correct:
  assumes "pic_inv s"
  shows "\<exists>s'. pic_inv s' \<and>
    (if \<exists>v < NUM_MAPPABLE_VEC. gvecs s ! v = H_NULL
     then \<exists>v < NUM_MAPPABLE_VEC. gvecs s ! v = H_NULL \<and>
            lrt_pic_allocvec s = Inr (1, Some v, s') \<and> gvecs s' = (gvecs s)[v := H_ALLOCATED]
     else lrt_pic_allocvec s = Inr (-1, None, s') \<and> s' = s)"
  using assms by (rule allocvec_spec)

subsection \<open>Mapping\<close>

lemma lrt_pic_unix_locked_map_inv:
  assumes "pic_inv s" "lrt_pic_unix_locked_map dup2 src vec s = (r, s')"
  shows "pic_inv s'" "gvecs s' = gvecs s" "lpics s' = lpics s" "numlpics s' = numlpics s"
    "r = (if dup2 (src_fd src) (vec + FIRST_VECFD) = int (vec + FIRST_VECFD) then 0 else -1)"
proof -
  have "\<exists>u. s' = s\<lparr>upic := u\<rparr> \<and> fd_enabled u = fd_enabled (upic s) \<and> maxfd u = maxfd (upic s)"
    using assms(2) by (auto simp: lrt_pic_unix_locked_map_def Let_def split: if_splits intro: exI [of _ "upic s"])
  then obtain u where "s' = s\<lparr>upic := u\<rparr>" "fd_enabled u = fd_enabled (upic s)" "maxfd u = maxfd (upic s)"
    by blast
  then show "pic_inv s'" "gvecs s' = gvecs s" "lpics s' = lpics s" "numlpics s' = numlpics s"
    using assms(1) by (simp_all add: pic_inv_def pic_ok_def upic_ok_def)
  show "r = (if dup2 (src_fd src) (vec + FIRST_VECFD) = int (vec + FIRST_VECFD) then 0 else -1)"
    using assms(2) by (auto simp: lrt_pic_unix_locked_map_def Let_def split: if_splits)
qed

lemma mapvec_spec:
  assumes "pic_inv s" "vec < NUM_VEC"
  shows "if gvecs s ! vec = H_NULL then lrt_pic_mapvec dup2 src vec h s = Inr (-1, s)
    else \<exists>s'. lrt_pic_mapvec dup2 src vec h s =
           Inr (if dup2 (src_fd src) (vec + FIRST_VECFD) = int (vec + FIRST_VECFD) then 1 else -1, s') \<and>
         pic_inv s' \<and> gvecs s' = (gvecs s)[vec := h] \<and>
         (\<forall>i < numlpics s. lvecs (lpics s' ! i) = (lvecs (lpics s ! i))[vec := h])"
proof (cases "gvecs s ! vec = H_NULL")
  case True
  then show ?thesis
    using assms by (simp add: lrt_pic_mapvec_def pic_inv_def pic_okD unlock_def)
next
  case False
  note ok = pic_okD [OF assms(1) [unfolded pic_inv_def, THEN conjunct1]]
  let ?s1 = "s\<lparr>pic_lock := True, gvecs := (gvecs s)[vec := h]\<rparr>"
  let ?ls = "map_lpics {..<numlpics s} (set_handler vec h) (lpics s)"
  let ?s2 = "?s1\<lparr>lpics := ?ls\<rparr>"
  have shape1: "pic_shape ?s1" "cores_ok ?s1" using ok by (simp_all add: pic_shape_def)
  have loop: "for_cores (map_core vec h) ?s1 = Inr ?s2"
    using for_cores_map_core [OF shape1 assms(2), of h] by simp
  have nth: "?ls ! i = set_handler vec h (lpics s ! i)" if "i < numlpics s" for i
    using that ok by (simp add: cores_ok_def)
  have "\<forall>lp \<in> set ?ls. lpic_shape lp"
    using ok(1,7) pic_shape_nth [OF ok(1)] by (auto simp: in_set_conv_nth lpic_shape_def)
  moreover have "length (lvecs (lpics s ! i)) = NUM_VEC" if "i < numlpics s" for i
    using that ok pic_shape_nth [OF ok(1)] by (simp add: cores_ok_def lpic_shape_def)
  ultimately have inv2: "pic_inv (?s2\<lparr>pic_lock := False\<rparr>)"
    using assms ok nth by (auto simp: pic_inv_def pic_ok_def pic_shape_def cores_ok_def vecs_agree_def
        nth_list_update pic_values)
  obtain r s3 where m: "lrt_pic_unix_locked_map dup2 src vec ?s2 = (r, s3)" by fastforce
  have m': "lrt_pic_unix_locked_map dup2 src vec (?s2\<lparr>pic_lock := False\<rparr>) = (r, unlock s3)"
    using m by (auto simp: lrt_pic_unix_locked_map_def Let_def unlock_def split: if_splits)
  note mp = lrt_pic_unix_locked_map_inv [OF inv2 m']
  have "lrt_pic_mapvec dup2 src vec h s = Inr (if r \<ge> 0 then 1 else -1, unlock s3)"
    using False ok assms(2) loop m by (simp add: lrt_pic_mapvec_def)
  then show ?thesis using False mp nth by (auto split: if_splits)
qed

text \<open>
  \<open>lrt_pic_mapvec\<close> on an allocated vector never faults, returns with the lock free, and
  installs the handler in the global vector and in the local vector of every started core,
  leaving all other vectors; the result says whether \<open>dup2\<close> moved the descriptor. On a
  vector nobody allocated it changes nothing and fails.
\<close>

theorem lrt_pic_mapvec_all_cores:
  assumes "pic_inv s" "vec < NUM_VEC"
  shows "if gvecs s ! vec = H_NULL then lrt_pic_mapvec dup2 src vec h s = Inr (-1, s)
    else \<exists>s'. lrt_pic_mapvec dup2 src vec h s =
           Inr (if dup2 (src_fd src) (vec + FIRST_VECFD) = int (vec + FIRST_VECFD) then 1 else -1, s') \<and>
         pic_inv s' \<and> gvecs s' = (gvecs s)[vec := h] \<and>
         (\<forall>i < numlpics s. lvecs (lpics s' ! i) = (lvecs (lpics s ! i))[vec := h])"
  using assms by (rule mapvec_spec)

subsection \<open>Enabling and disabling vectors\<close>

lemma find_maxfd_Max:
  assumes "en \<subseteq> {FIRST_VECFD..<FIRST_VECFD + NUM_VEC}"
  shows "find_maxfd en = (if en = {} then 0 else Max en)"
proof (cases "en = {}")
  case True
  have "find (\<lambda>i. False) xs = None" for xs :: "nat list" by (simp add: find_None_iff)
  with True show ?thesis by (simp add: find_maxfd_def)
next
  case False
  let ?b = "FIRST_VECFD + NUM_VEC + 1" and ?m = "Max en"
  have fin: "finite en" using assms finite_subset by blast
  then have m: "?m \<in> en" using False by simp
  then have bnd: "FIRST_VECFD \<le> ?m" "?m < ?b" using assms by auto
  then have "[FIRST_VECFD..<?b] = [FIRST_VECFD..<?m] @ ?m # [Suc ?m..<?b]"
    using upt_add_eq_append [of FIRST_VECFD ?m "?b - ?m"] by (simp add: upt_conv_Cons)
  then have "rev [FIRST_VECFD..<?b] = rev [Suc ?m..<?b] @ ?m # rev [FIRST_VECFD..<?m]" by simp
  moreover have "find (\<lambda>i. i \<in> en) (rev [Suc ?m..<?b]) = None"
    using Max_ge [OF fin] by (fastforce simp: find_None_iff)
  ultimately have "find (\<lambda>i. i \<in> en) (rev [FIRST_VECFD..<?b]) = Some ?m"
    using m by (simp add: find_first)
  then show ?thesis using False by (simp add: find_maxfd_def)
qed

lemma upic_ok_enable:
  assumes "upic_ok u" "vec < NUM_VEC"
  shows "upic_ok (u\<lparr>fd_enabled := insert (vec + FIRST_VECFD) (fd_enabled u),
    maxfd := max (maxfd u) (vec + FIRST_VECFD)\<rparr>)"
proof -
  have "finite (fd_enabled u)" using assms(1) finite_subset by (auto simp: upic_ok_def)
  then show ?thesis
    using assms by (auto simp: upic_ok_def max.commute)
qed

lemma upic_ok_disable:
  assumes "upic_ok u"
  shows "upic_ok (u\<lparr>fd_enabled := fd_enabled u - {i},
    maxfd := (if i = maxfd u then find_maxfd (fd_enabled u - {i}) else maxfd u)\<rparr>)"
proof -
  have fin: "finite (fd_enabled u)" using assms finite_subset by (auto simp: upic_ok_def)
  have sub: "fd_enabled u - {i} \<subseteq> {FIRST_VECFD..<FIRST_VECFD + NUM_VEC}"
    using assms by (auto simp: upic_ok_def)
  have keep: "Max (fd_enabled u - {i}) = Max (fd_enabled u)" "fd_enabled u - {i} \<noteq> {}"
    if "i \<noteq> Max (fd_enabled u)" "fd_enabled u \<noteq> {}"
  proof -
    have m: "Max (fd_enabled u) \<in> fd_enabled u - {i}" using that fin by simp
    then show "fd_enabled u - {i} \<noteq> {}" by blast
    show "Max (fd_enabled u - {i}) = Max (fd_enabled u)"
      using m fin by (intro Max_eqI) auto
  qed
  show ?thesis
  proof (cases "i = maxfd u")
    case True
    then show ?thesis using sub find_maxfd_Max [OF sub] by (simp add: upic_ok_def)
  next
    case False
    then show ?thesis using assms sub keep by (auto simp: upic_ok_def split: if_splits)
  qed
qed

lemma pic_inv_upic:
  "pic_inv s \<Longrightarrow> upic_ok u \<Longrightarrow> pic_inv (s\<lparr>upic := u\<rparr>)"
  by (simp add: pic_inv_def pic_ok_def)

abbreviation core_threads :: "'z pic_state_scheme \<Rightarrow> u64 list" where
  "core_threads s \<equiv> map (\<lambda>i. lcore (lpics s ! i)) [0..<numlpics s]"

lemma vecon_vecoff_spec:
  assumes "pic_inv s" "vec < NUM_VEC"
  shows "if gvecs s ! vec = H_NULL
    then lrt_pic_vecon vec s = Inr (-1, s) \<and> lrt_pic_vecoff vec s = Inr (-1, s)
    else (\<exists>u. lrt_pic_vecon vec s = Inr (1, s\<lparr>upic := u, wakeups := wakeups s @ core_threads s\<rparr>) \<and>
            fd_enabled u = insert (vec + FIRST_VECFD) (fd_enabled (upic s)) \<and> upic_ok u) \<and>
         (\<exists>u. lrt_pic_vecoff vec s = Inr (1, s\<lparr>upic := u, wakeups := wakeups s @ core_threads s\<rparr>) \<and>
            fd_enabled u = fd_enabled (upic s) - {vec + FIRST_VECFD} \<and> upic_ok u)"
proof (cases "gvecs s ! vec = H_NULL")
  case True
  then show ?thesis
    using assms by (simp add: lrt_pic_vecon_def lrt_pic_vecoff_def pic_inv_def pic_okD unlock_def)
next
  case False
  note ok = pic_okD [OF assms(1) [unfolded pic_inv_def, THEN conjunct1]]
  let ?i = "vec + FIRST_VECFD" and ?u = "upic s"
  let ?on = "?u\<lparr>fd_enabled := insert ?i (fd_enabled ?u), maxfd := max (maxfd ?u) ?i\<rparr>"
  let ?off = "?u\<lparr>fd_enabled := fd_enabled ?u - {?i},
    maxfd := (if ?i = maxfd ?u then find_maxfd (fd_enabled ?u - {?i}) else maxfd ?u)\<rparr>"
  have wake: "for_cores wake_core (s\<lparr>pic_lock := True, upic := u\<rparr>) =
      Inr (s\<lparr>pic_lock := True, upic := u, wakeups := wakeups s @ core_threads s\<rparr>)" for u
    using for_cores_wake_core [of "s\<lparr>pic_lock := True, upic := u\<rparr>"] ok by simp
  have locked: "s\<lparr>pic_lock := False\<rparr> = s" using ok(5) by simp
  have "lrt_pic_unix_locked_enable vec (s\<lparr>pic_lock := True\<rparr>) = (0, s\<lparr>pic_lock := True, upic := ?on\<rparr>)"
    by (simp add: lrt_pic_unix_locked_enable_def Let_def max_def)
  then have on: "lrt_pic_vecon vec s = Inr (1, unlock (s\<lparr>pic_lock := True, upic := ?on, wakeups := wakeups s @ core_threads s\<rparr>))"
    using False assms(2) ok wake by (simp add: lrt_pic_vecon_def lrt_pic_locked_vecon_def)
  have "lrt_pic_unix_locked_disable vec (s\<lparr>pic_lock := True\<rparr>) = (0, s\<lparr>pic_lock := True, upic := ?off\<rparr>)"
    by (simp add: lrt_pic_unix_locked_disable_def Let_def)
  then have off: "lrt_pic_vecoff vec s = Inr (1, unlock (s\<lparr>pic_lock := True, upic := ?off, wakeups := wakeups s @ core_threads s\<rparr>))"
    using False assms(2) ok wake by (simp add: lrt_pic_vecoff_def lrt_pic_locked_vecoff_def)
  have relock: "unlock (s\<lparr>pic_lock := True, upic := u, wakeups := w\<rparr>) = s\<lparr>upic := u, wakeups := w\<rparr>" for u w
    using ok(5) by (simp add: unlock_def)
  have "\<exists>u. lrt_pic_vecon vec s = Inr (1, s\<lparr>upic := u, wakeups := wakeups s @ core_threads s\<rparr>) \<and>
      fd_enabled u = insert ?i (fd_enabled ?u) \<and> upic_ok u"
    using on relock upic_ok_enable [OF ok(3) assms(2)] by (intro exI [of _ ?on]) simp
  moreover have "\<exists>u. lrt_pic_vecoff vec s = Inr (1, s\<lparr>upic := u, wakeups := wakeups s @ core_threads s\<rparr>) \<and>
      fd_enabled u = fd_enabled ?u - {?i} \<and> upic_ok u"
    using off relock upic_ok_disable [OF ok(3), of ?i] by (intro exI [of _ ?off]) simp
  ultimately show ?thesis using False by simp
qed

text \<open>
  \<open>lrt_pic_vecon\<close> and \<open>lrt_pic_vecoff\<close> on a vector that has been allocated add it to or
  remove it from the descriptors that are waited for, keep \<open>maxfd\<close> the largest of them, wake
  every started core in order, and release the lock; on a free vector they fail and change
  nothing. Neither faults.
\<close>

theorem lrt_pic_vecon_vecoff_correct:
  assumes "pic_inv s" "vec < NUM_VEC"
  shows "if gvecs s ! vec = H_NULL
    then lrt_pic_vecon vec s = Inr (-1, s) \<and> lrt_pic_vecoff vec s = Inr (-1, s)
    else (\<exists>u. lrt_pic_vecon vec s = Inr (1, s\<lparr>upic := u, wakeups := wakeups s @ core_threads s\<rparr>) \<and>
            fd_enabled u = insert (vec + FIRST_VECFD) (fd_enabled (upic s)) \<and> upic_ok u) \<and>
         (\<exists>u. lrt_pic_vecoff vec s = Inr (1, s\<lparr>upic := u, wakeups := wakeups s @ core_threads s\<rparr>) \<and>
            fd_enabled u = fd_enabled (upic s) - {vec + FIRST_VECFD} \<and> upic_ok u)"
  using assms by (rule vecon_vecoff_spec)

end
