(* ===== verification/PicSteps.thy ===== *)
theory PicSteps
  imports PicProps
begin

text \<open>
  The numbering of cores, inter-processor interrupts, the reachable states of the
  controller, and what the dispatch loop of a core does in one round.
\<close>

subsection \<open>Starting a core\<close>

definition copied_lvecs :: "'z pic_state_scheme \<Rightarrow> LPic \<Rightarrow> pic_handler list" where
  "copied_lvecs s lp =
     (fold (\<lambda>i ys. ys[i := gvecs s ! i]) [0..<NUM_MAPPABLE_VEC] (lvecs lp))[RST_VEC := gvecs s ! RST_VEC]"

lemma copy_gvecs_eq:
  assumes "length (gvecs s) = NUM_VEC" "lpic_shape lp"
  shows "copy_gvecs s lp = Inr (lp\<lparr>lvecs := copied_lvecs s lp\<rparr>)"
proof -
  let ?f = "\<lambda>i lp. rbind (arr_get (gvecs s) i) (\<lambda>h. set_lvec i h lp)"
  let ?g = "\<lambda>i lp. lp\<lparr>lvecs := (lvecs lp)[i := gvecs s ! i]\<rparr>"
  have total: "fold (\<lambda>i r. rbind r (?f i)) is (Inr lp) = Inr (fold ?g is lp) \<and> lpic_shape (fold ?g is lp)"
    if "set is \<subseteq> {..<NUM_MAPPABLE_VEC}" for "is"
    using that assms by (intro fold_rbind_total) (auto simp: set_lvec_Inr lpic_shape_def pic_values)
  have fold: "fold ?g is lp = lp\<lparr>lvecs := fold (\<lambda>i ys. ys[i := gvecs s ! i]) is (lvecs lp)\<rparr>" for "is" and lp
    by (induction "is" arbitrary: lp) simp_all
  have "set [0..<NUM_MAPPABLE_VEC] \<subseteq> {..<NUM_MAPPABLE_VEC}" by auto
  from total [OF this] show ?thesis
    using assms by (simp add: copy_gvecs_def copied_lvecs_def fold set_lvec_Inr lpic_shape_def pic_values)
qed

lemma copied_lvecs:
  assumes "length (lvecs lp) = NUM_VEC"
  shows "length (copied_lvecs s lp) = NUM_VEC"
    "v < NUM_MAPPABLE_VEC \<Longrightarrow> copied_lvecs s lp ! v = gvecs s ! v"
    "copied_lvecs s lp ! RST_VEC = gvecs s ! RST_VEC"
  using assms by (simp_all add: copied_lvecs_def nth_fold_update pic_values)

text \<open>What has to hold before a core starts: nothing has started, or the invariant.\<close>

definition pic_startable :: "'z pic_state_scheme \<Rightarrow> bool" where
  "pic_startable s \<longleftrightarrow> pic_shape s \<and> upic_ok (upic s) \<and> pic_free s < NUM_MAPPABLE_VEC \<and> \<not> pic_lock s \<and>
     (numlpics s = 0 \<or> cores_ok s \<and> vecs_agree s)"

lemma pic_inv_startable: "pic_inv s \<Longrightarrow> pic_startable s"
  by (simp add: pic_inv_def pic_ok_def pic_startable_def)

text \<open>The state after a core with thread \<open>c\<close> has started.\<close>

definition core_started :: "u64 \<Rightarrow> 'z pic_state_scheme \<Rightarrow> 'z pic_state_scheme" where
  "core_started c s =
     (let i = numlpics s; lp = lpics s ! i
      in s\<lparr>numlpics := i + 1, lrt_pic_firstid := 0, lrt_pic_lastid := i, pic_lock := False,
           lpics := (lpics s)[i := lp\<lparr>lcore := c, lvecs := copied_lvecs s lp\<rparr>]\<rparr>)"

lemma core_started_simps [simp]:
  "numlpics (core_started c s) = numlpics s + 1" "gvecs (core_started c s) = gvecs s"
  "upic (core_started c s) = upic s" "pic_lock (core_started c s) = False"
  "pic_state.more (core_started c s) = pic_state.more s"
  "lpics (core_started c s) = (lpics s)[numlpics s :=
     (lpics s ! numlpics s)\<lparr>lcore := c, lvecs := copied_lvecs s (lpics s ! numlpics s)\<rparr>]"
  by (simp_all add: core_started_def Let_def)

lemma startable_shape:
  assumes "pic_startable s" "numlpics s < LRT_PIC_MAX_PICS"
  shows "pic_shape s" "lpic_shape (lpics s ! numlpics s)" "length (lpics s) = LRT_PIC_MAX_PICS"
    "length (gvecs s) = NUM_VEC" "\<not> pic_lock s"
  using assms pic_shape_nth by (auto simp: pic_startable_def pic_shape_def)

lemma allocate_core_id_eq:
  assumes "pic_startable s" "numlpics s < LRT_PIC_MAX_PICS" "c \<noteq> 0"
  shows "lrt_pic_allocate_core_id c s = Inr (numlpics s, core_started c s)"
proof -
  let ?i = "numlpics s" and ?lp = "(lpics s ! numlpics s)\<lparr>lcore := c\<rparr>"
  note shape = startable_shape [OF assms(1,2)]
  let ?s1 = "s\<lparr>numlpics := ?i + 1, lrt_pic_firstid := 0, lrt_pic_lastid := ?i\<rparr>"
  have take: "take_core_id s = Inr (?i, ?s1)"
    using assms by (auto simp: take_core_id_def pic_startable_def cores_ok_def Let_def)
  let ?s2 = "?s1\<lparr>lpics := (lpics s)[?i := ?lp]\<rparr>"
  have "copy_gvecs (?s2\<lparr>pic_lock := True\<rparr>) ?lp = Inr (?lp\<lparr>lvecs := copied_lvecs s (lpics s ! ?i)\<rparr>)"
    using copy_gvecs_eq [of "?s2\<lparr>pic_lock := True\<rparr>" ?lp] shape by (simp add: copied_lvecs_def)
  then show ?thesis
    using shape assms
    by (simp add: lrt_pic_allocate_core_id_def take upd_lpic_Inr unlock_def core_started_def Let_def)
qed

lemma core_started_inv:
  assumes "pic_startable s" "numlpics s < LRT_PIC_MAX_PICS" "c \<noteq> 0"
  shows "pic_inv (core_started c s)"
proof -
  let ?lp = "lpics s ! numlpics s" and ?s = "core_started c s"
  note shape = startable_shape [OF assms(1,2)]
  have len: "length (lvecs ?lp) = NUM_VEC" using shape by (simp add: lpic_shape_def)
  note cp = copied_lvecs [OF len]
  have "pic_shape ?s"
    using shape cp(1) set_update_subset_insert [of "lpics s" "numlpics s"]
    by (fastforce simp: pic_shape_def lpic_shape_def)
  moreover have "cores_ok ?s"
    using assms shape by (auto simp: pic_startable_def cores_ok_def nth_list_update core_started_def Let_def)
  moreover have "vecs_agree ?s"
    using assms shape cp(2) by (auto simp: pic_startable_def vecs_agree_def nth_list_update less_Suc_eq)
  ultimately show ?thesis
    using assms by (simp add: pic_inv_def pic_ok_def pic_startable_def core_started_def Let_def)
qed

text \<open>
  a core that starts while fewer than \<open>LRT_PIC_MAX_PICS\<close> have started gets the next
  core id, all earlier cores are left as they are, its own local vectors are those mapped so
  far (the reset vector included), and the invariant holds afterwards: vectors mapped before
  a core was up reach it too.
\<close>

theorem lrt_pic_allocate_core_id_correct:
  assumes "pic_startable s" "numlpics s < LRT_PIC_MAX_PICS" "c \<noteq> 0"
  shows "\<exists>s'. lrt_pic_allocate_core_id c s = Inr (numlpics s, s') \<and> pic_inv s' \<and>
     numlpics s' = numlpics s + 1 \<and> lcore (lpics s' ! numlpics s) = c \<and>
     (\<forall>v < NUM_MAPPABLE_VEC. lvecs (lpics s' ! numlpics s) ! v = gvecs s ! v) \<and>
     lvecs (lpics s' ! numlpics s) ! RST_VEC = gvecs s ! RST_VEC \<and>
     (\<forall>j < numlpics s. lpics s' ! j = lpics s ! j) \<and> gvecs s' = gvecs s"
  using assms startable_shape [OF assms(1,2)] copied_lvecs [where s = s and lp = "lpics s ! numlpics s"]
  by (intro exI [of _ "core_started c s"])
    (simp add: allocate_core_id_eq core_started_inv lpic_shape_def)

lemma allocate_core_id_65:
  assumes "pic_inv s" "numlpics s = LRT_PIC_MAX_PICS"
  shows "lrt_pic_allocate_core_id c s = Inl OutOfBounds"
  using assms by (simp add: take_core_id_def lrt_pic_allocate_core_id_def upd_lpic_def pic_inv_def
    pic_okD(7) pic_values Let_def)

text \<open>
  The bound checked by \<open>lrt_pic_allocate_core_id\<close> is one too large. With all
  \<open>LRT_PIC_MAX_PICS\<close> cores started, the next one takes id \<open>LRT_PIC_MAX_PICS\<close>, passes
  \<open>assert(myid <= LRT_PIC_MAX_PICS)\<close>, publishes the id and then writes beyond the array
  \<open>lpics\<close>.
\<close>

theorem lrt_pic_allocate_core_id_overrun:
  assumes "pic_inv s" "numlpics s = LRT_PIC_MAX_PICS"
  shows "\<exists>s'. take_core_id s = Inr (LRT_PIC_MAX_PICS, s') \<and> length (lpics s') = LRT_PIC_MAX_PICS \<and>
    lrt_pic_allocate_core_id c s = Inl OutOfBounds"
  using assms allocate_core_id_65 [OF assms]
  by (simp add: take_core_id_def pic_inv_def pic_okD(7) pic_values Let_def)

text \<open>\<open>lrt_pic_init\<close> leaves a state in which the first core can start.\<close>

lemma pic_shape_init:
  "pic_shape (s\<lparr>pic_lock := b, gvecs := (replicate NUM_VEC H_NULL)[RST_VEC := h], pic_free := n, numlpics := m,
     lpics := (replicate LRT_PIC_MAX_PICS LPic_zero)[0 := LPic_zero\<lparr>lvecs := (lvecs LPic_zero)[RST_VEC := h]\<rparr>],
     upic := u\<rparr>)"
proof -
  let ?lp = "LPic_zero\<lparr>lvecs := (lvecs LPic_zero)[RST_VEC := h]\<rparr>"
  have "lpic_shape ?lp" "lpic_shape LPic_zero" by (simp_all add: lpic_shape_def LPic_zero_def)
  then show ?thesis
    using set_update_subset_insert [of "replicate LRT_PIC_MAX_PICS LPic_zero" 0 ?lp]
    by (auto simp: pic_shape_def)
qed

lemma init_startable:
  "\<exists>s'. lrt_pic_init 0 h s = Inr (1, s') \<and> pic_startable s' \<and> numlpics s' = 0 \<and>
     gvecs s' ! RST_VEC = h"
proof -
  let ?gv = "(replicate NUM_VEC H_NULL)[RST_VEC := h]"
  let ?ls = "(replicate LRT_PIC_MAX_PICS LPic_zero)[0 := LPic_zero\<lparr>lvecs := (lvecs LPic_zero)[RST_VEC := h]\<rparr>]"
  let ?s = "s\<lparr>pic_lock := False, gvecs := ?gv, pic_free := 0, numlpics := 0, lpics := ?ls, upic := unix_pic_zero\<rparr>"
  have "lrt_pic_init 0 h s = Inr (1, ?s)"
    by (simp add: lrt_pic_init_def lrt_pic_mapreset_def upd_lpic_def set_lvec_def LPic_zero_def pic_values)
  moreover have "pic_startable ?s"
    using pic_shape_init [where s = s and b = False and h = h and n = 0 and m = 0 and u = unix_pic_zero]
    by (simp add: pic_startable_def upic_ok_def unix_pic_zero_def pic_values)
  ultimately show ?thesis by (intro exI [of _ ?s]) (simp add: pic_values)
qed

text \<open>A running controller with \<open>n + 1\<close> cores, for concrete checks.\<close>

definition demo_lpic :: LPic where
  "demo_lpic = \<lparr>lvecs = (replicate NUM_VEC H_NULL)[0 := H_vf 0, RST_VEC := H_fun 0],
     enabled = replicate NUM_VEC True, lpic_id = 0, lcore = 7, ipiStatus = False, resetStatus = False\<rparr>"

definition demo_pic :: "nat \<Rightarrow> pic_state" where
  "demo_pic n = \<lparr>pic_lock = False, gvecs = (replicate NUM_VEC H_NULL)[0 := H_vf 0, RST_VEC := H_fun 0],
     pic_free = 1, numlpics = n + 1, lpics = replicate LRT_PIC_MAX_PICS demo_lpic,
     lrt_pic_firstid = 0, lrt_pic_lastid = n, upic = unix_pic_zero, wakeups = []\<rparr>"

lemma demo_pic_inv: "n < LRT_PIC_MAX_PICS \<Longrightarrow> pic_inv (demo_pic n)"
  by (simp add: pic_inv_def pic_ok_def pic_shape_def lpic_shape_def cores_ok_def upic_ok_def
      vecs_agree_def demo_pic_def demo_lpic_def unix_pic_zero_def pic_values)

lemma demo_pic_simps [simp]:
  "numlpics (demo_pic n) = n + 1" "gvecs (demo_pic n) ! 0 = H_vf 0" "gvecs (demo_pic n) ! Suc 0 = H_NULL"
  "lpics (demo_pic n) = replicate LRT_PIC_MAX_PICS demo_lpic" "wakeups (demo_pic n) = []"
  "lrt_pic_lastid (demo_pic n) = n"
  by (simp_all add: demo_pic_def pic_values nth_list_update)

theorem lrt_pic_allocate_core_id_overrun_witness:
  "\<exists>s'. take_core_id (demo_pic 63) = Inr (LRT_PIC_MAX_PICS, s') \<and> length (lpics s') = LRT_PIC_MAX_PICS \<and>
    lrt_pic_allocate_core_id 9 (demo_pic 63) = Inl OutOfBounds"
  by (rule lrt_pic_allocate_core_id_overrun) (simp_all add: demo_pic_inv pic_values)

theorem lrt_pic_allocate_core_id_correct_witness:
  "\<exists>s'. lrt_pic_allocate_core_id 9 (demo_pic 2) = Inr (3, s') \<and> pic_inv s' \<and>
     lvecs (lpics s' ! 3) ! 0 = H_vf 0"
  using lrt_pic_allocate_core_id_correct [of "demo_pic 2" 9] demo_pic_inv [of 2] pic_inv_startable
  by (fastforce simp: pic_values)

theorem lrt_pic_allocvec_correct_witness:
  "\<exists>v s'. lrt_pic_allocvec (demo_pic 2) = Inr (1, Some v, s') \<and> gvecs s' ! v = H_ALLOCATED"
proof -
  have ex: "\<exists>v < NUM_MAPPABLE_VEC. gvecs (demo_pic 2) ! v = H_NULL"
    by (intro exI [of _ 1]) (simp add: pic_values)
  have len: "length (gvecs (demo_pic 2)) = NUM_VEC" by (simp add: demo_pic_def)
  have inv: "pic_inv (demo_pic 2)" by (simp add: demo_pic_inv pic_values)
  obtain v s' where "v < NUM_MAPPABLE_VEC" "lrt_pic_allocvec (demo_pic 2) = Inr (1, Some v, s')"
    "gvecs s' = (gvecs (demo_pic 2))[v := H_ALLOCATED]"
    using lrt_pic_allocvec_correct [OF inv] unfolding if_P [OF ex] by blast
  with len show ?thesis by (intro exI [of _ v] exI [of _ s']) (simp add: pic_values)
qed

theorem lrt_pic_mapvec_all_cores_witness:
  "\<exists>s'. lrt_pic_mapvec (\<lambda>fd newfd. int newfd) \<lparr>src_fd = 3, src_flags = 1\<rparr> 0 (H_vf 5) (demo_pic 2) = Inr (1, s') \<and>
     lvecs (lpics s' ! 2) ! 0 = H_vf 5"
  using lrt_pic_mapvec_all_cores [of "demo_pic 2" 0 "\<lambda>fd newfd. int newfd" "\<lparr>src_fd = 3, src_flags = 1\<rparr>" "H_vf 5"]
    demo_pic_inv [of 2]
  by (force simp: pic_values demo_lpic_def)

theorem lrt_pic_vecon_vecoff_correct_witness:
  "\<exists>u. lrt_pic_vecon 0 (demo_pic 2) = Inr (1, demo_pic 2\<lparr>upic := u, wakeups := [7, 7, 7]\<rparr>) \<and> maxfd u = 16"
proof -
  have th: "core_threads (demo_pic 2) = [7, 7, 7]" by (simp add: demo_lpic_def pic_values upt_rec)
  have en: "fd_enabled (upic (demo_pic 2)) = {}" by (simp add: demo_pic_def unix_pic_zero_def)
  obtain u where u: "lrt_pic_vecon 0 (demo_pic 2) = Inr (1, demo_pic 2\<lparr>upic := u, wakeups := [7, 7, 7]\<rparr>)"
    "fd_enabled u = {FIRST_VECFD}" "upic_ok u"
    using lrt_pic_vecon_vecoff_correct [of "demo_pic 2" 0] demo_pic_inv [of 2] th en
    by (auto simp: pic_values)
  then show ?thesis by (intro exI [of _ u]) (simp add: upic_ok_def FIRST_VECFD_def)
qed

end
