(* ===== verification/PicReach.thy ===== *)
theory PicReach
  imports PicSteps
begin

text \<open>
  The interrupt controller as a transition system: started cores call the operations in any
  order, new cores start. Every reachable state satisfies \<open>pic_inv\<close>. Then what one round of
  the dispatch loop reports and calls.
\<close>

subsection \<open>Operations on one core\<close>

lemma pic_inv_core:
  assumes "pic_inv s" "i < numlpics s"
  shows "i < LRT_PIC_MAX_PICS" "i < length (lpics s)" "lpic_shape (lpics s ! i)" "lcore (lpics s ! i) \<noteq> 0"
    "i \<le> lrt_pic_lastid s"
  using assms pic_inv_lpic [of s i] by (auto simp: pic_inv_def cores_ok_def pic_okD(7) dest!: pic_okD(2))

lemma pic_inv_shape: "pic_inv s \<Longrightarrow> pic_shape s"
  by (simp add: pic_inv_def pic_okD)

lemma lrt_pic_enable_inv:
  assumes "pic_inv s" "myid < numlpics s" "vec < NUM_VEC"
  shows "\<exists>s'. lrt_pic_enable myid vec s = Inr s' \<and> pic_inv s'"
  using assms pic_inv_core [OF assms(1,2)]
  by (auto simp: lrt_pic_enable_eq pic_inv_shape lpic_shape_def intro!: pic_inv_upd)

lemma lrt_pic_disable_inv:
  assumes "pic_inv s" "myid < numlpics s" "vec < NUM_VEC"
  shows "\<exists>s'. lrt_pic_disable myid vec s = Inr s' \<and> pic_inv s'"
proof (cases "vec = RST_VEC")
  case True
  with assms show ?thesis by (simp add: lrt_pic_disable_def)
next
  case False
  then show ?thesis
    using assms pic_inv_core [OF assms(1,2)]
    by (auto simp: lrt_pic_disable_eq pic_inv_shape lpic_shape_def intro!: pic_inv_upd)
qed

lemma pic_inv_set_flag:
  assumes "pic_inv s" "i < numlpics s"
  shows "pic_inv (s\<lparr>lpics := (lpics s)[i := (lpics s ! i)\<lparr>ipiStatus := b\<rparr>]\<rparr>)"
    "pic_inv (s\<lparr>lpics := (lpics s)[i := (lpics s ! i)\<lparr>resetStatus := b\<rparr>]\<rparr>)"
  using assms pic_inv_core [OF assms] by (auto intro!: pic_inv_upd)

lemma ipi_reset_ack_spec:
  assumes "pic_inv s"
  shows "if target < numlpics s
    then lrt_pic_ipi target s = Inr (1, s\<lparr>lpics := (lpics s)[target := (lpics s ! target)\<lparr>ipiStatus := True\<rparr>],
            wakeups := wakeups s @ [lcore (lpics s ! target)]\<rparr>) \<and>
         lrt_pic_reset target s = Inr (1, s\<lparr>lpics := (lpics s)[target := (lpics s ! target)\<lparr>resetStatus := True\<rparr>],
            wakeups := wakeups s @ [lcore (lpics s ! target)]\<rparr>) \<and>
         (\<forall>s'. lrt_pic_ipi target s = Inr (1, s') \<longrightarrow> pic_inv s' \<and>
            lrt_pic_ackipi target s' = Inr (s'\<lparr>lpics := (lpics s)[target := (lpics s ! target)\<lparr>ipiStatus := False\<rparr>]\<rparr>))
    else lrt_pic_ipi target s = Inr (-1, s) \<and> lrt_pic_reset target s = Inr (-1, s)"
proof (cases "target < numlpics s")
  case True
  note core = pic_inv_core [OF assms True]
  have ipi: "lrt_pic_ipi target s = Inr (1, s\<lparr>lpics := (lpics s)[target := (lpics s ! target)\<lparr>ipiStatus := True\<rparr>],
            wakeups := wakeups s @ [lcore (lpics s ! target)]\<rparr>)"
    using core by (simp add: lrt_pic_ipi_def upd_lpic_Inr lrt_pic_unix_wakeup_def)
  have "lrt_pic_reset target s = Inr (1, s\<lparr>lpics := (lpics s)[target := (lpics s ! target)\<lparr>resetStatus := True\<rparr>],
            wakeups := wakeups s @ [lcore (lpics s ! target)]\<rparr>)"
    using core by (simp add: lrt_pic_reset_def upd_lpic_Inr lrt_pic_unix_wakeup_def)
  with True ipi show ?thesis
    using core pic_inv_set_flag [OF assms True] by (simp add: lrt_pic_ackipi_def upd_lpic_Inr)
next
  case False
  then have "target > lrt_pic_lastid s"
    using assms by (simp add: pic_inv_def pic_ok_def cores_ok_def)
  with False show ?thesis by (simp add: lrt_pic_ipi_def lrt_pic_reset_def)
qed

text \<open>
  An inter-processor interrupt (or a reset) sent to a started core sets exactly that core's
  flag and wakes exactly that core's thread, once; sent to a core that has not started it fails
  without effect. Acknowledging clears the flag again and restores the core.
\<close>

theorem lrt_pic_ipi_reset_ack:
  assumes "pic_inv s"
  shows "if target < numlpics s
    then lrt_pic_ipi target s = Inr (1, s\<lparr>lpics := (lpics s)[target := (lpics s ! target)\<lparr>ipiStatus := True\<rparr>],
            wakeups := wakeups s @ [lcore (lpics s ! target)]\<rparr>) \<and>
         lrt_pic_reset target s = Inr (1, s\<lparr>lpics := (lpics s)[target := (lpics s ! target)\<lparr>resetStatus := True\<rparr>],
            wakeups := wakeups s @ [lcore (lpics s ! target)]\<rparr>) \<and>
         (\<forall>s'. lrt_pic_ipi target s = Inr (1, s') \<longrightarrow> pic_inv s' \<and>
            lrt_pic_ackipi target s' = Inr (s'\<lparr>lpics := (lpics s)[target := (lpics s ! target)\<lparr>ipiStatus := False\<rparr>]\<rparr>))
    else lrt_pic_ipi target s = Inr (-1, s) \<and> lrt_pic_reset target s = Inr (-1, s)"
  using assms by (rule ipi_reset_ack_spec)

theorem lrt_pic_ipi_reset_ack_witness:
  "lrt_pic_ipi 1 (demo_pic 1) =
     Inr (1, demo_pic 1\<lparr>lpics := (replicate LRT_PIC_MAX_PICS demo_lpic)[1 := demo_lpic\<lparr>ipiStatus := True\<rparr>],
             wakeups := [7]\<rparr>) \<and>
   lrt_pic_ipi 2 (demo_pic 1) = Inr (-1, demo_pic 1)"
  using lrt_pic_ipi_reset_ack [OF demo_pic_inv, of 1 1] lrt_pic_ipi_reset_ack [OF demo_pic_inv, of 1 2]
  by (simp add: pic_values demo_lpic_def)

lemma lrt_pic_mapipi_inv:
  assumes "pic_inv s" "i < numlpics s"
  shows "\<exists>s'. lrt_pic_mapipi i h s = Inr (1, s') \<and> pic_inv s'"
  using assms pic_inv_core [OF assms]
  by (auto simp: lrt_pic_mapipi_def upd_lpic_Inr set_lvec_Inr lpic_shape_def pic_values intro!: pic_inv_upd)

lemma lrt_pic_mapreset_inv:
  assumes "pic_inv s" "i < numlpics s"
  shows "\<exists>s'. lrt_pic_mapreset i h s = Inr (1, s') \<and> pic_inv s'"
proof -
  note core = pic_inv_core [OF assms]
  let ?s1 = "s\<lparr>gvecs := (gvecs s)[RST_VEC := h]\<rparr>"
  let ?lp = "(lpics s ! i)\<lparr>lvecs := (lvecs (lpics s ! i))[RST_VEC := h]\<rparr>"
  have len: "length (gvecs s) = NUM_VEC" using assms by (simp add: pic_inv_def pic_okD)
  have inv1: "pic_inv ?s1"
    using assms by (auto simp: pic_inv_def pic_ok_def pic_shape_def vecs_agree_def pic_values)
  have "pic_inv (?s1\<lparr>lpics := (lpics ?s1)[i := ?lp]\<rparr>)"
    using inv1 core by (intro pic_inv_upd) (auto simp: lpic_shape_def pic_values)
  moreover have "lrt_pic_mapreset i h s = Inr (1, ?s1\<lparr>lpics := (lpics ?s1)[i := ?lp]\<rparr>)"
    using core len by (simp add: lrt_pic_mapreset_def upd_lpic_Inr set_lvec_Inr lpic_shape_def pic_values)
  ultimately show ?thesis by blast
qed

subsection \<open>Reachable states\<close>

inductive pic_step :: "(nat \<Rightarrow> nat \<Rightarrow> int) \<Rightarrow> 'z pic_state_scheme \<Rightarrow> 'z pic_state_scheme \<Rightarrow> bool"
  for dup2 where
  Start: "lrt_pic_allocate_core_id c s = Inr (i, s') \<Longrightarrow> c \<noteq> 0 \<Longrightarrow> pic_step dup2 s s'"
| Alloc: "0 < numlpics s \<Longrightarrow> lrt_pic_allocvec s = Inr (rc, v, s') \<Longrightarrow> pic_step dup2 s s'"
| Map: "0 < numlpics s \<Longrightarrow> lrt_pic_mapvec dup2 src vec h s = Inr (rc, s') \<Longrightarrow> pic_step dup2 s s'"
| On: "0 < numlpics s \<Longrightarrow> lrt_pic_vecon vec s = Inr (rc, s') \<Longrightarrow> pic_step dup2 s s'"
| Off: "0 < numlpics s \<Longrightarrow> lrt_pic_vecoff vec s = Inr (rc, s') \<Longrightarrow> pic_step dup2 s s'"
| Ipi: "0 < numlpics s \<Longrightarrow> lrt_pic_ipi t s = Inr (rc, s') \<Longrightarrow> pic_step dup2 s s'"
| Reset: "0 < numlpics s \<Longrightarrow> lrt_pic_reset t s = Inr (rc, s') \<Longrightarrow> pic_step dup2 s s'"
| Ack: "i < numlpics s \<Longrightarrow> lrt_pic_ackipi i s = Inr s' \<Longrightarrow> pic_step dup2 s s'"
| Enable: "i < numlpics s \<Longrightarrow> lrt_pic_enable i v s = Inr s' \<Longrightarrow> pic_step dup2 s s'"
| Disable: "i < numlpics s \<Longrightarrow> lrt_pic_disable i v s = Inr s' \<Longrightarrow> pic_step dup2 s s'"
| MapIpi: "i < numlpics s \<Longrightarrow> lrt_pic_mapipi i h s = Inr (rc, s') \<Longrightarrow> pic_step dup2 s s'"
| MapReset: "i < numlpics s \<Longrightarrow> lrt_pic_mapreset i h s = Inr (rc, s') \<Longrightarrow> pic_step dup2 s s'"

inductive pic_reachable :: "(nat \<Rightarrow> nat \<Rightarrow> int) \<Rightarrow> 'z pic_state_scheme \<Rightarrow> bool" for dup2 where
  Init: "lrt_pic_init 0 h s = Inr (1, s') \<Longrightarrow> pic_reachable dup2 s'"
| Step: "pic_reachable dup2 s \<Longrightarrow> pic_step dup2 s s' \<Longrightarrow> pic_reachable dup2 s'"

inductive_cases pic_stepE: "pic_step dup2 s s'"

text \<open>An operation on a vector that does not exist faults, so it is not a step.\<close>

lemma vec_in_range:
  assumes "pic_inv s"
  shows "lrt_pic_mapvec dup2 src vec h s = Inr (rc, s') \<Longrightarrow> vec < NUM_VEC"
    "lrt_pic_vecon vec s = Inr (rc, s') \<Longrightarrow> vec < NUM_VEC"
    "lrt_pic_vecoff vec s = Inr (rc, s') \<Longrightarrow> vec < NUM_VEC"
    "i < numlpics s \<Longrightarrow> lrt_pic_enable i vec s = Inr s' \<Longrightarrow> vec < NUM_VEC"
    "i < numlpics s \<Longrightarrow> lrt_pic_disable i vec s = Inr s' \<Longrightarrow> vec < NUM_VEC"
  using assms pic_inv_core [OF assms, of i] pic_okD [of s]
  by (auto simp: pic_inv_def lrt_pic_mapvec_def lrt_pic_vecon_def lrt_pic_vecoff_def arr_get_Inr_iff
      lrt_pic_enable_def lrt_pic_disable_def upd_lpic_def set_enabled_def arr_set_Inr_iff lpic_shape_def
      pic_values split: if_splits)

lemma pic_startable_running: "pic_startable s \<Longrightarrow> 0 < numlpics s \<Longrightarrow> pic_inv s"
  by (simp add: pic_startable_def pic_inv_def pic_ok_def)

lemma pic_op_inv:
  assumes "pic_inv s"
  shows "lrt_pic_allocvec s = Inr (rc, v, s') \<Longrightarrow> pic_inv s'"
    "lrt_pic_mapvec dup2 src vec h s = Inr (rc, s') \<Longrightarrow> pic_inv s'"
    "lrt_pic_vecon vec s = Inr (rc, s') \<Longrightarrow> pic_inv s'"
    "lrt_pic_vecoff vec s = Inr (rc, s') \<Longrightarrow> pic_inv s'"
    "lrt_pic_ipi t s = Inr (rc, s') \<Longrightarrow> pic_inv s'"
    "lrt_pic_reset t s = Inr (rc, s') \<Longrightarrow> pic_inv s'"
    "i < numlpics s \<Longrightarrow> lrt_pic_ackipi i s = Inr s' \<Longrightarrow> pic_inv s'"
    "i < numlpics s \<Longrightarrow> lrt_pic_enable i vec s = Inr s' \<Longrightarrow> pic_inv s'"
    "i < numlpics s \<Longrightarrow> lrt_pic_disable i vec s = Inr s' \<Longrightarrow> pic_inv s'"
    "i < numlpics s \<Longrightarrow> lrt_pic_mapipi i h s = Inr (rc, s') \<Longrightarrow> pic_inv s'"
    "i < numlpics s \<Longrightarrow> lrt_pic_mapreset i h s = Inr (rc, s') \<Longrightarrow> pic_inv s'"
proof goal_cases
  case 1
  then show ?case using allocvec_spec [OF assms] assms by (auto split: if_splits)
next
  case 2
  then show ?case
    using mapvec_spec [OF assms vec_in_range(1) [OF assms 2], of dup2 src h] assms by (auto split: if_splits)
next
  case 3
  then show ?case
    using vecon_vecoff_spec [OF assms vec_in_range(2) [OF assms 3]] assms pic_inv_upic
    by (fastforce split: if_splits)
next
  case 4
  then show ?case
    using vecon_vecoff_spec [OF assms vec_in_range(3) [OF assms 4]] assms pic_inv_upic
    by (fastforce split: if_splits)
next
  case 5
  then show ?case using ipi_reset_ack_spec [OF assms, of t] assms by (auto split: if_splits)
next
  case 6
  then show ?case
    using ipi_reset_ack_spec [OF assms, of t] assms pic_inv_set_flag(2) [OF assms] by (auto split: if_splits)
next
  case 7
  then show ?case
    using pic_inv_core [OF assms 7(1)] pic_inv_set_flag(1) [OF assms 7(1)]
    by (simp add: lrt_pic_ackipi_def upd_lpic_Inr) blast
next
  case 8
  then show ?case using lrt_pic_enable_inv [OF assms 8(1) vec_in_range(4) [OF assms 8]] by simp
next
  case 9
  then show ?case using lrt_pic_disable_inv [OF assms 9(1) vec_in_range(5) [OF assms 9]] by simp
next
  case 10
  then show ?case using lrt_pic_mapipi_inv [OF assms 10(1), of h] by simp
next
  case 11
  then show ?case using lrt_pic_mapreset_inv [OF assms 11(1), of h] by simp
qed

lemma start_in_range:
  assumes "pic_startable s" "lrt_pic_allocate_core_id c s = Inr (i, s')"
  shows "numlpics s < LRT_PIC_MAX_PICS"
proof (rule ccontr)
  assume "\<not> numlpics s < LRT_PIC_MAX_PICS"
  with assms(1) have "pic_inv s" "numlpics s = LRT_PIC_MAX_PICS"
    using pic_startable_running [OF assms(1)]
    by (auto simp: pic_startable_def cores_ok_def pic_values)
  then have "lrt_pic_allocate_core_id c s = Inl OutOfBounds" by (rule allocate_core_id_65)
  with assms(2) show False by simp
qed

lemma pic_step_startable:
  assumes "pic_step dup2 s s'" "pic_startable s"
  shows "pic_startable s' \<and> pic_inv s'"
proof -
  have "pic_inv s'"
    using assms
  proof (cases rule: pic_step.cases)
    case (Start c i)
    then show ?thesis
      using allocate_core_id_eq core_started_inv assms(2) start_in_range [OF assms(2)] by force
  qed (use pic_op_inv [OF pic_startable_running [OF assms(2)]] in \<open>auto intro: le_less_trans\<close>)
  then show ?thesis by (simp add: pic_inv_startable)
qed

lemma pic_reachable_startable: "pic_reachable dup2 s \<Longrightarrow> pic_startable s"
proof (induction rule: pic_reachable.induct)
  case (Init h s s')
  then show ?case using init_startable [of h s] by simp
next
  case (Step s s')
  then show ?case using pic_step_startable by blast
qed



subsection \<open>What is waited for, and what is reported\<close>

lemma fold_collect:
  "fold (\<lambda>i acc. if P i then if Q i then insert i acc else acc else acc) xs A =
   A \<union> {i \<in> set xs. P i \<and> Q i}"
  by (induction xs arbitrary: A) auto

lemma enabled_range:
  assumes "upic_ok u"
  shows "fd_enabled u \<subseteq> set [FIRST_VECFD..<maxfd u + 1]"
proof
  fix i assume i: "i \<in> fd_enabled u"
  have fin: "finite (fd_enabled u)" using assms finite_subset by (auto simp: upic_ok_def)
  have "i \<le> maxfd u" "FIRST_VECFD \<le> i"
    using assms i Max_ge [OF fin i] by (auto simp: upic_ok_def)
  then show "i \<in> set [FIRST_VECFD..<maxfd u + 1]" by (simp del: upt_Suc)
qed

lemma block_fds_eq: "upic_ok u \<Longrightarrow> block_fds u fds = fd_enabled u \<inter> fds"
  using enabled_range [of u] by (auto simp: block_fds_def fold_collect simp del: upt_Suc)

lemma fold_count:
  assumes "distinct xs" "\<And>i. i \<in> set xs \<Longrightarrow> b \<le> i"
  shows "fold (\<lambda>i (n, ints). if i \<in> R then (n + 1, insert (i - b) ints) else (n, ints)) xs (n :: int, ints) =
    (n + int (card (set xs \<inter> R)), ints \<union> (\<lambda>i. i - b) ` (set xs \<inter> R))"
  using assms
proof (induction xs arbitrary: n ints)
  case (Cons x xs)
  then show ?case
    by (cases "x \<in> R") (auto simp: card_insert_if)
qed simp

text \<open>
  When \<open>pselect\<close> reports ready descriptors among those it was given,
  \<open>lrt_pic_unix_blockforinterrupt\<close> returns exactly the vectors of the ready descriptors
  and their number; only vectors that exist and are switched on can be among them.
\<close>

lemma blockforinterrupt_reports_ready:
  assumes "upic_ok u"
    and "sel (maxfd u + 1) (block_fds u (rfds u)) (block_fds u (wfds u)) (block_fds u (efds u)) = Sel_Ready r w e"
    and "r \<subseteq> block_fds u (rfds u)" "w \<subseteq> block_fds u (wfds u)" "e \<subseteq> block_fds u (efds u)"
  shows "\<exists>ints. lrt_pic_unix_blockforinterrupt sel u ints0 = (int (card ints), ints) \<and>
    ints = {v. v + FIRST_VECFD \<in> r \<union> w \<union> e} \<and>
    ints \<subseteq> {v. v < NUM_VEC \<and> v + FIRST_VECFD \<in> fd_enabled u}"
proof -
  let ?R = "e \<union> w \<union> r" and ?X = "[FIRST_VECFD..<maxfd u + 1]"
  have sub: "?R \<subseteq> fd_enabled u" using assms by (auto simp: block_fds_eq)
  then have R: "set ?X \<inter> ?R = ?R" using enabled_range [OF assms(1)] by blast
  have ge: "FIRST_VECFD \<le> i" "i < FIRST_VECFD + NUM_VEC" if "i \<in> ?R" for i
    using that sub assms(1) by (auto simp: upic_ok_def)
  have img: "(\<lambda>i. i - FIRST_VECFD) ` ?R = {v. v + FIRST_VECFD \<in> ?R}"
    using ge(1) by (force simp: image_iff)
  have "inj_on (\<lambda>i. i - FIRST_VECFD) ?R"
    using ge(1) by (intro inj_onI) (metis le_add_diff_inverse2)
  then have card: "card {v. v + FIRST_VECFD \<in> ?R} = card ?R" by (metis card_image img)
  have body: "(\<lambda>i (n::int, ints). if i \<in> e \<or> i \<in> w \<or> i \<in> r
        then (n + 1, lrt_pic_unix_ints_set ints (i - FIRST_VECFD)) else (n, ints)) =
      (\<lambda>i (n, ints). if i \<in> ?R then (n + 1, insert (i - FIRST_VECFD) ints) else (n, ints))"
    by (intro ext) (auto simp: lrt_pic_unix_ints_set_def)
  have "lrt_pic_unix_blockforinterrupt sel u ints0 =
      fold (\<lambda>i (n, ints). if i \<in> ?R then (n + 1, insert (i - FIRST_VECFD) ints) else (n, ints)) ?X (0, {})"
    by (simp only: lrt_pic_unix_blockforinterrupt_def lrt_pic_unix_ints_clear_def Let_def assms(2)
        select_result.simps body)
  also have "\<dots> = (int (card ?R), (\<lambda>i. i - FIRST_VECFD) ` ?R)"
    using fold_count [of ?X FIRST_VECFD ?R 0 "{}"] by (simp only: R) (simp del: upt_Suc)
  also have "\<dots> = (int (card {v. v + FIRST_VECFD \<in> ?R}), {v. v + FIRST_VECFD \<in> ?R})"
    by (simp only: card img)
  finally have "lrt_pic_unix_blockforinterrupt sel u ints0 = \<dots>" .
  moreover have "v < NUM_VEC" if "v + FIRST_VECFD \<in> ?R" for v
    using ge(2) [OF that] by simp
  ultimately show ?thesis
    using sub by (intro exI [of _ "{v. v + FIRST_VECFD \<in> ?R}"]) (auto simp: Un_ac)
qed

subsection \<open>What a round calls\<close>

text \<open>A controller whose handlers only record that they were called.\<close>

record pic_trace = pic_state + called :: "pic_handler list"

definition log_call :: "pic_handler \<Rightarrow> pic_trace \<Rightarrow> pic_trace res" where
  "log_call h s = Inr (s\<lparr>called := called s @ [h]\<rparr>)"

definition switch_off :: "nat set \<Rightarrow> LPic \<Rightarrow> LPic" where
  "switch_off V lp = lp\<lparr>enabled := map (\<lambda>v. enabled lp ! v \<and> v \<notin> V) [0..<length (enabled lp)]\<rparr>"

definition due_handlers :: "LPic \<Rightarrow> nat set \<Rightarrow> nat list \<Rightarrow> pic_handler list" where
  "due_handlers lp ints vs =
     map (\<lambda>v. lvecs lp ! v) (filter (\<lambda>v. v \<in> ints \<and> enabled lp ! v \<and> lvecs lp ! v \<noteq> H_NULL) vs)"

lemma switch_off_simps [simp]:
  "lvecs (switch_off V lp) = lvecs lp" "length (enabled (switch_off V lp)) = length (enabled lp)"
  "lpic_shape (switch_off V lp) = lpic_shape lp" "switch_off {} lp = lp"
  "v < length (enabled lp) \<Longrightarrow> enabled (switch_off V lp) ! v \<longleftrightarrow> enabled lp ! v \<and> v \<notin> V"
  by (simp_all add: switch_off_def lpic_shape_def map_nth)

lemma switch_off_update:
  "switch_off V (lp\<lparr>enabled := (enabled lp)[v := False]\<rparr>) = switch_off (insert v V) lp"
proof -
  have "map (\<lambda>w. (enabled lp)[v := False] ! w \<and> w \<notin> V) [0..<length (enabled lp)] =
      map (\<lambda>w. enabled lp ! w \<and> w \<notin> insert v V) [0..<length (enabled lp)]"
    by (rule map_cong) (auto simp: nth_list_update_any)
  then show ?thesis by (simp add: switch_off_def)
qed

lemma switch_off_already:
  "\<not> enabled lp ! v \<Longrightarrow> switch_off (insert v V) lp = switch_off V lp"
  by (auto simp: switch_off_def intro!: arg_cong [where f = "\<lambda>e. lp\<lparr>enabled := e\<rparr>"] map_cong)

lemma due_handlers_update:
  "v \<notin> set vs \<Longrightarrow> due_handlers (lp\<lparr>enabled := (enabled lp)[v := b]\<rparr>) ints vs = due_handlers lp ints vs"
  by (auto simp: due_handlers_def nth_list_update_any intro!: arg_cong [where f = "map _"] filter_cong)

lemma loop_vecs_log:
  assumes "pic_shape s" "myid < LRT_PIC_MAX_PICS" "set vs \<subseteq> {..<NUM_VEC}" "distinct vs"
    "int (card (ints \<inter> set vs)) \<le> n"
  shows "loop_vecs log_call myid ints vs n s =
    Inr (s\<lparr>lpics := (lpics s)[myid := switch_off (ints \<inter> set vs - {RST_VEC}) (lpics s ! myid)],
           called := called s @ due_handlers (lpics s ! myid) ints vs\<rparr>)"
  using assms
proof (induction vs arbitrary: n s)
  case Nil
  then show ?case by (simp add: due_handlers_def)
next
  case (Cons v vs)
  let ?lp = "lpics s ! myid"
  have shape: "lpic_shape ?lp" "myid < length (lpics s)"
    using Cons.prems pic_shape_nth by (auto simp: pic_shape_def)
  have v: "v < NUM_VEC" "v \<notin> set vs" using Cons.prems by auto
  consider "n \<le> 0" | "0 < n" "v \<notin> ints" | "0 < n" "v \<in> ints" by linarith
  then show ?case
  proof cases
    case 1
    then have "card (ints \<inter> set (v # vs)) = 0" using Cons.prems(5) by linarith
    then have none: "ints \<inter> set (v # vs) = {}" using card_0_eq [of "ints \<inter> set (v # vs)"] by blast
    then have "due_handlers (lpics s ! myid) ints (v # vs) = []"
      by (auto simp: due_handlers_def filter_empty_conv)
    with 1 none show ?thesis by simp
  next
    case 2
    then have "ints \<inter> set (v # vs) = ints \<inter> set vs" by auto
    with 2 Cons show ?thesis
      by (auto simp: lrt_pic_unix_ints_test_def due_handlers_def)
  next
    case 3
    note True = 3(2)
    then have int: "ints \<inter> set (v # vs) = insert v (ints \<inter> set vs)" by auto
    have "card (insert v (ints \<inter> set vs)) = Suc (card (ints \<inter> set vs))" using v by simp
    then have n: "int (card (ints \<inter> set vs)) \<le> n - 1" "0 < n"
      using Cons.prems(5) unfolding int by auto
    show ?thesis
    proof (cases "enabled ?lp ! v")
      case False
      then have "loop_vecs log_call myid ints (v # vs) n s = loop_vecs log_call myid ints vs n s"
        using shape v n True by (simp add: lrt_pic_unix_ints_test_def lpic_shape_def)
      moreover have "ints \<inter> set (v # vs) - {RST_VEC} = (if v = RST_VEC then ints \<inter> set vs - {RST_VEC}
          else insert v (ints \<inter> set vs - {RST_VEC}))"
        using True by auto
      ultimately show ?thesis
        using Cons.IH [OF Cons.prems(1,2) _ _ order_trans [OF n(1)], of n] Cons.prems False
        by (auto simp: switch_off_already due_handlers_def)
    next
      case en: True
      let ?s1 = "if v = RST_VEC then s else s\<lparr>lpics := (lpics s)[myid := ?lp\<lparr>enabled := (enabled ?lp)[v := False]\<rparr>]\<rparr>"
      let ?s2 = "if lvecs ?lp ! v = H_NULL then ?s1 else ?s1\<lparr>called := called s @ [lvecs ?lp ! v]\<rparr>"
      have dis: "lrt_pic_disable myid v s = Inr ?s1"
        using lrt_pic_disable_eq [OF Cons.prems(1,2) v(1)] by (simp add: lrt_pic_disable_def)
      have lv: "lvecs (lpics ?s1 ! myid) = lvecs ?lp" using shape by simp
      have step: "loop_vecs log_call myid ints (v # vs) n s = loop_vecs log_call myid ints vs (n - 1) ?s2"
        using shape v n True en dis lv by (simp add: lrt_pic_unix_ints_test_def lpic_shape_def log_call_def)
      have shape2: "pic_shape ?s2"
        using Cons.prems(1) shape pic_shape_upd [of s "?lp\<lparr>enabled := (enabled ?lp)[v := False]\<rparr>" myid]
        by (auto simp: pic_shape_def lpic_shape_def)
      have set: "ints \<inter> set (v # vs) - {RST_VEC} = (if v = RST_VEC then ints \<inter> set vs - {RST_VEC}
          else insert v (ints \<inter> set vs - {RST_VEC}))"
        using True by auto
      show ?thesis
        using Cons.IH [OF shape2 Cons.prems(2) _ _ n(1)] Cons.prems(3,4) shape v True en
        unfolding step set by (auto simp: switch_off_update due_handlers_update) (auto simp: due_handlers_def)
    qed
  qed
qed

end
