(* ===== verification/PicRound.thy ===== *)
theory PicRound
  imports PicReach
begin

text \<open>
  One round of the dispatch loop on a running controller, the first round of a new core, and
  the reservation of the descriptors by \<open>lrt_pic_unix_init\<close>.
\<close>

subsection \<open>Dispatch\<close>


definition demo_trace :: pic_trace where
  "demo_trace = pic_state.extend
     ((demo_pic 1)\<lparr>upic := \<lparr>rfds = {16, 20}, wfds = {}, efds = {}, fd_enabled = {16}, maxfd = 16\<rparr>\<rparr>)
     \<lparr>called = []\<rparr>"

lemma demo_trace_inv: "pic_inv demo_trace"
  using demo_pic_inv [of 1]
  by (simp add: demo_trace_def pic_inv_def pic_ok_def pic_shape_def cores_ok_def vecs_agree_def upic_ok_def
      pic_state.defs pic_values)


subsection \<open>The first round of a core\<close>

text \<open>
  C31: a core that enters \<open>lrt_pic_loop\<close> on an initialised controller gets the next core id,
  and as soon as the signal it sent itself interrupts its wait, it calls the reset handler,
  exactly once and before any other handler; the reset flag is down again afterwards.
\<close>

theorem lrt_pic_loop_calls_reset_first:
  fixes s :: pic_trace
  assumes "pic_startable s" "numlpics s < LRT_PIC_MAX_PICS" "c \<noteq> 0"
    and h: "gvecs s ! RST_VEC = h" "h \<noteq> H_NULL"
    and idle: "\<not> ipiStatus (lpics s ! numlpics s)"
  shows "\<exists>s'. lrt_pic_loop log_call c [(\<lambda>s. s, \<lambda>_ _ _ _. Sel_EINTR)] s = Inr (False, s') \<and>
    called s' = called s @ [h] \<and> \<not> resetStatus (lpics s' ! numlpics s) \<and> numlpics s' = numlpics s + 1"
proof -
  let ?i = "numlpics s" and ?lp = "lpics s ! numlpics s"
  note shape = startable_shape [OF assms(1,2)]
  have len: "length (lvecs ?lp) = NUM_VEC" "length (enabled ?lp) = NUM_VEC"
    using shape by (simp_all add: lpic_shape_def)
  note cp = copied_lvecs(1,3) [OF len(1), of s]
  have vecs: "loop_vecs log_call ?i {} [0..<NUM_VEC] 0 t = Inr t" for t
    by (simp add: pic_values upt_conv_Cons)
  have last: "lrt_pic_lastid (core_started c s) = ?i" by (simp add: core_started_def Let_def)
  have called: "called (core_started c s) = called s" by (simp add: core_started_def Let_def)
  have block: "lrt_pic_unix_blockforinterrupt (\<lambda>_ _ _ _. Sel_EINTR) u {} = (0, {})" for u
    by (simp add: lrt_pic_unix_blockforinterrupt_def lrt_pic_unix_ints_clear_def)
  show ?thesis
    using shape len cp vecs last called block h idle assms(2,3)
    by (simp add: lrt_pic_loop_def allocate_core_id_eq [OF assms(1-3)] lrt_pic_enableipi_def lrt_pic_enable_def
        upd_lpic_def set_enabled_def lrt_pic_reset_def lrt_pic_unix_wakeup_def loop_iteration_def
        loop_reset_def loop_ipi_def call_handler_def log_call_def pic_values)
qed

theorem lrt_pic_loop_calls_reset_first_witness:
  "\<exists>s s'. lrt_pic_init 0 (H_fun 3) demo_trace = Inr (1, s) \<and>
     lrt_pic_loop log_call 9 [(\<lambda>s. s, \<lambda>_ _ _ _. Sel_EINTR)] s = Inr (False, s') \<and> called s' = [H_fun 3]"
proof -
  let ?z = "LPic_zero\<lparr>lvecs := (lvecs LPic_zero)[RST_VEC := H_fun 3]\<rparr>"
  let ?s = "demo_trace\<lparr>pic_lock := False, gvecs := (replicate NUM_VEC H_NULL)[RST_VEC := H_fun 3], pic_free := 0,
    numlpics := 0, lpics := (replicate LRT_PIC_MAX_PICS LPic_zero)[0 := ?z], upic := unix_pic_zero\<rparr>"
  have init: "lrt_pic_init 0 (H_fun 3) demo_trace = Inr (1, ?s)"
    by (simp add: lrt_pic_init_def lrt_pic_mapreset_def upd_lpic_def set_lvec_def LPic_zero_def pic_values)
  moreover have "pic_startable ?s"
    using init_startable [of "H_fun 3" demo_trace] unfolding init by auto
  moreover have "called ?s = []" by (simp add: demo_trace_def pic_state.defs)
  ultimately show ?thesis
    using lrt_pic_loop_calls_reset_first [of ?s 9 "H_fun 3"] by (auto simp: pic_values LPic_zero_def)
qed

subsection \<open>Reserving the descriptors\<close>

lemma unix_init_fill_lowest:
  assumes newfd: "\<And>n. newfd {..<n} = int n" and "k < m" "m \<le> FIRST_VECFD" "0 < k"
  shows "unix_init_fill newfd (m - 1 - k) (map int [k..<m] @ replicate (FIRST_VECFD - (m - k)) 0) {..<m} =
    Inr (map int [k..<FIRST_VECFD] @ replicate k 0, {..<FIRST_VECFD})"
  using assms(2,3)
proof (induction "FIRST_VECFD - m" arbitrary: m)
  case 0
  then have m: "m = FIRST_VECFD" by simp
  then have "15 - k < 16 - k" using 0 by (simp add: FIRST_VECFD_def)
  with m show ?case
    by (subst unix_init_fill.simps) (simp add: nth_append FIRST_VECFD_def)
next
  case (Suc d)
  let ?fd = "map int [k..<m] @ replicate (FIRST_VECFD - (m - k)) 0"
  have step: "unix_init_fill newfd i fd {..<m} = unix_init_fill newfd (Suc i) (fd[Suc i := int m]) {..<Suc m}"
    if "Suc i < length fd" "fd ! i < int FIRST_VECFD - 1" for i fd
    using that by (subst unix_init_fill.simps) (simp add: newfd lessThan_Suc)
  have m: "m < FIRST_VECFD" "m - 1 - k < m - k" "m - k < FIRST_VECFD" "Suc (m - 1 - k) = m - k"
    "k + (m - 1 - k) = m - 1"
    using Suc.prems Suc.hyps(2) by auto
  have len: "length ?fd = FIRST_VECFD" using Suc.prems by simp
  have at: "?fd ! (m - 1 - k) = int m - 1"
    using m(2,5) Suc.prems by (simp add: nth_append)
  have rep: "replicate (FIRST_VECFD - (m - k)) (0::int) = 0 # replicate (FIRST_VECFD - (Suc m - k)) 0"
    using Suc.prems Suc.hyps(2) assms(4) by (simp flip: replicate_Suc)
  have upd: "?fd[m - k := int m] = map int [k..<Suc m] @ replicate (FIRST_VECFD - (Suc m - k)) 0"
    using Suc.prems unfolding rep by (simp add: list_update_append)
  have "unix_init_fill newfd (m - 1 - k) ?fd {..<m} =
      unix_init_fill newfd (m - k) (map int [k..<Suc m] @ replicate (FIRST_VECFD - (Suc m - k)) 0) {..<Suc m}"
    using step [of "m - 1 - k" ?fd] m(1,3,4) len at upd by (simp only:)
  also have "\<dots> = Inr (map int [k..<FIRST_VECFD] @ replicate k 0, {..<FIRST_VECFD})"
    using Suc.hyps(1) [of "Suc m"] Suc.hyps(2) Suc.prems by simp
  finally show ?case .
qed

lemma unix_init_reserve_lowest:
  assumes newfd: "\<And>n. newfd {..<n} = int n"
  shows "unix_init_reserve newfd [i..<j] {..<FIRST_VECFD + i} = (True, {..<FIRST_VECFD + max i j})"
proof (induction "j - i" arbitrary: i)
  case (Suc d)
  then have "[i..<j] = i # [Suc i..<j]" by (simp add: upt_conv_Cons)
  then show ?case
    using Suc.hyps(1) [of "Suc i"] Suc.hyps(2) by (simp add: newfd lessThan_Suc max_def nat_int_add)
qed (simp add: max_def)

text \<open>
  when the kernel hands out the lowest free descriptor and the process starts with the
  descriptors below \<open>k\<close> open (\<open>0 < k < FIRST_VECFD\<close>), \<open>lrt_pic_unix_init\<close> terminates within
  its descriptor array, succeeds, and leaves open exactly the descriptors the process had and
  one for every vector, \<open>FIRST_VECFD\<close> up to \<open>FIRST_VECFD + NUM_VEC - 1\<close>.
\<close>

theorem lrt_pic_unix_init_reserves:
  assumes newfd: "\<And>n. newfd {..<n} = int n" and k: "0 < k" "k < FIRST_VECFD"
  shows "lrt_pic_unix_init newfd {..<k} =
    Inr (0, {..<k} \<union> {FIRST_VECFD..<FIRST_VECFD + NUM_VEC}, unix_pic_zero)"
proof -
  let ?fd = "map int [k..<FIRST_VECFD] @ replicate k 0"
  have "(replicate FIRST_VECFD 0)[0 := int k] = map int [k..<Suc k] @ replicate (FIRST_VECFD - (Suc k - k)) 0"
    by (simp add: FIRST_VECFD_def numeral_eq_Suc)
  then have fill: "unix_init_fill newfd 0 ((replicate FIRST_VECFD 0)[0 := int k]) {..<Suc k} =
      Inr (?fd, {..<FIRST_VECFD})"
    using unix_init_fill_lowest [OF newfd, of k "Suc k"] k by simp
  have "filter (\<lambda>d. d > 0) ?fd = map int [k..<FIRST_VECFD]"
    using k by (auto simp: filter_id_conv)
  then have close: "unix_init_closed ?fd = {k..<FIRST_VECFD}"
    by (simp add: unix_init_closed_def image_image)
  show ?thesis
    using fill unix_init_reserve_lowest [OF newfd, of 0 NUM_VEC] k
    unfolding lrt_pic_unix_init_def Let_def newfd
    by (auto simp add: lessThan_Suc [symmetric] close)
qed

theorem lrt_pic_unix_init_reserves_witness:
  "lrt_pic_unix_init (\<lambda>used. int (card used)) {..<3} = Inr (0, {..<3} \<union> {16..<50}, unix_pic_zero)"
  using lrt_pic_unix_init_reserves [of "\<lambda>used. int (card used)" 3] by (simp add: pic_values)

end
