(* ===== verification/LrtTrans.thy ===== *)
theory LrtTrans
  imports LrtPic
begin

text \<open>
  The address arithmetic of the translation tables (\<open>l0/lrt/*/trans.h\<close>). An Ebb id is the
  address of an entry of a local translation table; every platform provides the maps
  between an id, the executing core's local entry and the global entry of the id.

  The interface that \<open>l0/lrt/trans.h\<close> declares is the locale \<open>id_translation\<close>; the hosted
  (ulnx) provider and the three bare metal providers (amd64, ppc32, ppc64) interpret it.
\<close>

subsection \<open>The interface\<close>

text \<open>
  \<open>lrt_trans_gt2lt\<close> and \<open>lrt_trans_lt2gt\<close> are the compositions of the other four; the
  maps of a core are inverse to each other.
\<close>

locale id_translation =
  fixes id2lt :: "'a::len word \<Rightarrow> 'a word"
    and lt2id :: "'a word \<Rightarrow> 'a word"
    and id2gt :: "'a word \<Rightarrow> 'a word"
    and gt2id :: "'a word \<Rightarrow> 'a word"
    and gt2lt :: "'a word \<Rightarrow> 'a word"
    and lt2gt :: "'a word \<Rightarrow> 'a word"
  assumes lt2id_id2lt: "lt2id (id2lt i) = i"
    and id2lt_lt2id: "id2lt (lt2id l) = l"
    and gt2id_id2gt: "gt2id (id2gt i) = i"
    and id2gt_gt2id: "id2gt (gt2id g) = g"
    and gt2lt_via_id: "gt2lt g = id2lt (gt2id g)"
    and lt2gt_via_id: "lt2gt l = id2gt (lt2id l)"
begin

lemma lt2gt_gt2lt: "lt2gt (gt2lt g) = g"
  by (simp add: gt2lt_via_id lt2gt_via_id lt2id_id2lt id2gt_gt2id)

lemma gt2lt_lt2gt: "gt2lt (lt2gt l) = l"
  by (simp add: gt2lt_via_id lt2gt_via_id gt2id_id2gt id2lt_lt2id)

lemma lt2gt_id2lt: "lt2gt (id2lt i) = id2gt i"
  by (simp add: lt2gt_via_id lt2id_id2lt)

lemma gt2lt_id2gt: "gt2lt (id2gt i) = id2lt i"
  by (simp add: gt2lt_via_id gt2id_id2gt)

lemma id2lt_inj: "id2lt i = id2lt j \<longleftrightarrow> i = j"
  by (metis lt2id_id2lt)

lemma id2gt_inj: "id2gt i = id2gt j \<longleftrightarrow> i = j"
  by (metis gt2id_id2gt)

lemma lt2gt_inj: "lt2gt l = lt2gt l' \<longleftrightarrow> l = l'"
  by (metis gt2lt_lt2gt)

lemmas round_trips = lt2id_id2lt id2lt_lt2id gt2id_id2gt id2gt_gt2id
  lt2gt_gt2lt gt2lt_lt2gt lt2gt_id2lt gt2lt_id2gt

end

subsection \<open>The hosted provider\<close>

text \<open>
  \<open>struct TransMemDesc\<close> holds the global table \<open>GMem\<close> and then one local table per
  possible core in \<open>LMem\<close>. \<open>tm\<close> is the address of the one instance \<open>TransMem\<close>;
  \<open>myid\<close> is the thread-local \<open>lrt_pic_myid\<close>.
\<close>

definition LRT_TRANS_PAGESIZE :: nat where "LRT_TRANS_PAGESIZE = 2 ^ 12"
definition LRT_TRANS_NUMPAGES :: nat where "LRT_TRANS_NUMPAGES = 2 ^ 8"
definition LRT_TRANS_TBLSIZE :: nat where "LRT_TRANS_TBLSIZE = 2 ^ (12 + 8)"

definition TransMem_GMem :: "u64 \<Rightarrow> u64" where
  "TransMem_GMem tm = tm"

definition TransMem_LMem :: "u64 \<Rightarrow> u64" where
  "TransMem_LMem tm = tm + of_nat LRT_TRANS_TBLSIZE"

definition lrt_trans_gmem :: "u64 \<Rightarrow> u64" where
  "lrt_trans_gmem tm = TransMem_GMem tm"

definition lrt_trans_lmem :: "u64 \<Rightarrow> nat \<Rightarrow> u64" where
  "lrt_trans_lmem tm myid =
     (let picbase = of_nat myid * of_nat LRT_TRANS_TBLSIZE
      in TransMem_LMem tm + picbase)"

definition lrt_trans_offset :: "u64 \<Rightarrow> u64 \<Rightarrow> u64" where
  "lrt_trans_offset base t = t - base"

definition lrt_trans_idbase :: "u64 \<Rightarrow> u64" where
  "lrt_trans_idbase tm = TransMem_LMem tm"

definition lrt_trans_id2lt :: "u64 \<Rightarrow> nat \<Rightarrow> u64 \<Rightarrow> u64" where
  "lrt_trans_id2lt tm myid i =
     lrt_trans_lmem tm myid + lrt_trans_offset (lrt_trans_idbase tm) i"

definition lrt_trans_lt2id :: "u64 \<Rightarrow> nat \<Rightarrow> u64 \<Rightarrow> u64" where
  "lrt_trans_lt2id tm myid t =
     lrt_trans_idbase tm + lrt_trans_offset (lrt_trans_lmem tm myid) t"

definition lrt_trans_id2gt :: "u64 \<Rightarrow> u64 \<Rightarrow> u64" where
  "lrt_trans_id2gt tm i =
     lrt_trans_gmem tm + lrt_trans_offset (lrt_trans_idbase tm) i"

definition lrt_trans_gt2id :: "u64 \<Rightarrow> u64 \<Rightarrow> u64" where
  "lrt_trans_gt2id tm t =
     lrt_trans_idbase tm + lrt_trans_offset (lrt_trans_gmem tm) t"

definition lrt_trans_gt2lt :: "u64 \<Rightarrow> nat \<Rightarrow> u64 \<Rightarrow> u64" where
  "lrt_trans_gt2lt tm myid gt =
     lrt_trans_lmem tm myid + lrt_trans_offset (lrt_trans_gmem tm) gt"

definition lrt_trans_lt2gt :: "u64 \<Rightarrow> nat \<Rightarrow> u64 \<Rightarrow> u64" where
  "lrt_trans_lt2gt tm myid lt =
     lrt_trans_gmem tm + lrt_trans_offset (lrt_trans_lmem tm myid) lt"

text \<open>\<open>l0/lrt/ulnx/trans.c\<close>: the entry of an id in the table of another core.\<close>

definition lrt_trans_lmemr :: "u64 \<Rightarrow> nat \<Rightarrow> u64" where
  "lrt_trans_lmemr tm picid =
     (let picbase = of_nat picid * of_nat LRT_TRANS_TBLSIZE
      in TransMem_LMem tm + picbase)"

definition lrt_trans_id2rlt :: "u64 \<Rightarrow> nat \<Rightarrow> u64 \<Rightarrow> u64" where
  "lrt_trans_id2rlt tm picid oid =
     lrt_trans_lmemr tm picid + lrt_trans_offset (lrt_trans_idbase tm) oid"

lemmas lrt_trans_defs = lrt_trans_gmem_def lrt_trans_lmem_def lrt_trans_offset_def
  lrt_trans_idbase_def lrt_trans_id2lt_def lrt_trans_lt2id_def lrt_trans_id2gt_def
  lrt_trans_gt2id_def lrt_trans_gt2lt_def lrt_trans_lt2gt_def lrt_trans_lmemr_def
  lrt_trans_id2rlt_def TransMem_GMem_def TransMem_LMem_def Let_def

interpretation ulnx: id_translation "lrt_trans_id2lt tm myid" "lrt_trans_lt2id tm myid"
    "lrt_trans_id2gt tm" "lrt_trans_gt2id tm" "lrt_trans_gt2lt tm myid" "lrt_trans_lt2gt tm myid"
  by unfold_locales (simp_all add: lrt_trans_defs algebra_simps)

lemma id2rlt_eq_id2lt: "lrt_trans_id2rlt tm p i = lrt_trans_id2lt tm p i"
  by (simp add: lrt_trans_defs)

subsection \<open>The bare metal providers\<close>

text \<open>
  With one core, the local table is mapped at a fixed virtual address and an id is the
  address of its local entry. \<open>amd64\<close> and \<open>ppc64\<close> use the same two addresses.
\<close>

definition amd64_GMem :: u64 where "amd64_GMem = 0xFFFFFFFF00000000"
definition amd64_LMem :: u64 where "amd64_LMem = 0xFFFFFFFE00000000"

definition amd64_trans_gmem :: u64 where "amd64_trans_gmem = amd64_GMem"
definition amd64_trans_lmem :: u64 where "amd64_trans_lmem = amd64_LMem"
definition amd64_trans_offset :: "u64 \<Rightarrow> u64 \<Rightarrow> u64" where
  "amd64_trans_offset base t = t - base"
definition amd64_trans_idbase :: u64 where "amd64_trans_idbase = amd64_LMem"
definition amd64_trans_id2lt :: "u64 \<Rightarrow> u64" where "amd64_trans_id2lt i = i"
definition amd64_trans_lt2id :: "u64 \<Rightarrow> u64" where "amd64_trans_lt2id t = t"
definition amd64_trans_id2gt :: "u64 \<Rightarrow> u64" where
  "amd64_trans_id2gt i = amd64_trans_gmem + amd64_trans_offset amd64_trans_idbase i"
definition amd64_trans_gt2id :: "u64 \<Rightarrow> u64" where
  "amd64_trans_gt2id t = amd64_trans_idbase + amd64_trans_offset amd64_trans_gmem t"
definition amd64_trans_gt2lt :: "u64 \<Rightarrow> u64" where
  "amd64_trans_gt2lt gt = amd64_trans_id2lt (amd64_trans_gt2id gt)"
definition amd64_trans_lt2gt :: "u64 \<Rightarrow> u64" where
  "amd64_trans_lt2gt lt = amd64_trans_id2gt (amd64_trans_lt2id lt)"

lemmas amd64_trans_defs = amd64_trans_gmem_def amd64_trans_lmem_def amd64_trans_offset_def
  amd64_trans_idbase_def amd64_trans_id2lt_def amd64_trans_lt2id_def amd64_trans_id2gt_def
  amd64_trans_gt2id_def amd64_trans_gt2lt_def amd64_trans_lt2gt_def

interpretation amd64: id_translation amd64_trans_id2lt amd64_trans_lt2id
    amd64_trans_id2gt amd64_trans_gt2id amd64_trans_gt2lt amd64_trans_lt2gt
  by unfold_locales (simp_all add: amd64_trans_defs)

definition ppc64_GMem :: u64 where "ppc64_GMem = 0xFFFFFFFF00000000"
definition ppc64_LMem :: u64 where "ppc64_LMem = 0xFFFFFFFE00000000"

definition ppc64_trans_gmem :: u64 where "ppc64_trans_gmem = ppc64_GMem"
definition ppc64_trans_lmem :: u64 where "ppc64_trans_lmem = ppc64_LMem"
definition ppc64_trans_offset :: "u64 \<Rightarrow> u64 \<Rightarrow> u64" where
  "ppc64_trans_offset base t = t - base"
definition ppc64_trans_idbase :: u64 where "ppc64_trans_idbase = ppc64_LMem"
definition ppc64_trans_id2lt :: "u64 \<Rightarrow> u64" where "ppc64_trans_id2lt i = i"
definition ppc64_trans_lt2id :: "u64 \<Rightarrow> u64" where "ppc64_trans_lt2id t = t"
definition ppc64_trans_id2gt :: "u64 \<Rightarrow> u64" where
  "ppc64_trans_id2gt i = ppc64_trans_gmem + ppc64_trans_offset ppc64_trans_idbase i"
definition ppc64_trans_gt2id :: "u64 \<Rightarrow> u64" where
  "ppc64_trans_gt2id t = ppc64_trans_idbase + ppc64_trans_offset ppc64_trans_gmem t"
definition ppc64_trans_gt2lt :: "u64 \<Rightarrow> u64" where
  "ppc64_trans_gt2lt gt = ppc64_trans_id2lt (ppc64_trans_gt2id gt)"
definition ppc64_trans_lt2gt :: "u64 \<Rightarrow> u64" where
  "ppc64_trans_lt2gt lt = ppc64_trans_id2gt (ppc64_trans_lt2id lt)"

lemmas ppc64_trans_defs = ppc64_trans_gmem_def ppc64_trans_lmem_def ppc64_trans_offset_def
  ppc64_trans_idbase_def ppc64_trans_id2lt_def ppc64_trans_lt2id_def ppc64_trans_id2gt_def
  ppc64_trans_gt2id_def ppc64_trans_gt2lt_def ppc64_trans_lt2gt_def

interpretation ppc64: id_translation ppc64_trans_id2lt ppc64_trans_lt2id
    ppc64_trans_id2gt ppc64_trans_gt2id ppc64_trans_gt2lt ppc64_trans_lt2gt
  by unfold_locales (simp_all add: ppc64_trans_defs)

definition ppc32_GMem :: u32 where "ppc32_GMem = 0xFFE00000"
definition ppc32_LMem :: u32 where "ppc32_LMem = 0xFFD00000"

definition ppc32_trans_gmem :: u32 where "ppc32_trans_gmem = ppc32_GMem"
definition ppc32_trans_lmem :: u32 where "ppc32_trans_lmem = ppc32_LMem"
definition ppc32_trans_offset :: "u32 \<Rightarrow> u32 \<Rightarrow> u32" where
  "ppc32_trans_offset base t = t - base"
definition ppc32_trans_idbase :: u32 where "ppc32_trans_idbase = ppc32_LMem"
definition ppc32_trans_id2lt :: "u32 \<Rightarrow> u32" where "ppc32_trans_id2lt i = i"
definition ppc32_trans_lt2id :: "u32 \<Rightarrow> u32" where "ppc32_trans_lt2id t = t"
definition ppc32_trans_id2gt :: "u32 \<Rightarrow> u32" where
  "ppc32_trans_id2gt i = ppc32_trans_gmem + ppc32_trans_offset ppc32_trans_idbase i"
definition ppc32_trans_gt2id :: "u32 \<Rightarrow> u32" where
  "ppc32_trans_gt2id t = ppc32_trans_idbase + ppc32_trans_offset ppc32_trans_gmem t"
definition ppc32_trans_gt2lt :: "u32 \<Rightarrow> u32" where
  "ppc32_trans_gt2lt gt = ppc32_trans_id2lt (ppc32_trans_gt2id gt)"
definition ppc32_trans_lt2gt :: "u32 \<Rightarrow> u32" where
  "ppc32_trans_lt2gt lt = ppc32_trans_id2gt (ppc32_trans_lt2id lt)"

lemmas ppc32_trans_defs = ppc32_trans_gmem_def ppc32_trans_lmem_def ppc32_trans_offset_def
  ppc32_trans_idbase_def ppc32_trans_id2lt_def ppc32_trans_lt2id_def ppc32_trans_id2gt_def
  ppc32_trans_gt2id_def ppc32_trans_gt2lt_def ppc32_trans_lt2gt_def

interpretation ppc32: id_translation ppc32_trans_id2lt ppc32_trans_lt2id
    ppc32_trans_id2gt ppc32_trans_gt2id ppc32_trans_gt2lt ppc32_trans_lt2gt
  by unfold_locales (simp_all add: ppc32_trans_defs)

subsection \<open>Layout: entries, ranges and separation\<close>

text \<open>
  An entry is a \<open>struct lrt_trans\<close> of four 64-bit words. \<open>id_of tm k\<close> is the id whose
  entry is the \<open>k\<close>th of the global table. \<open>trans_mem_fits\<close> says that the object
  \<open>TransMem\<close> lies in the address space and not at address 0, as every C object does.
\<close>

definition sizeof_lrt_trans :: nat where "sizeof_lrt_trans = 4 * 8"

definition LRT_TRANS_NUMIDS_PERPAGE :: nat where
  "LRT_TRANS_NUMIDS_PERPAGE = LRT_TRANS_PAGESIZE div sizeof_lrt_trans"

definition trans_mem_fits :: "u64 \<Rightarrow> bool" where
  "trans_mem_fits tm \<longleftrightarrow> 0 < unat tm \<and>
     unat tm + (LRT_PIC_MAX_PICS + 1) * LRT_TRANS_TBLSIZE < 2 ^ 64"

definition id_of :: "u64 \<Rightarrow> nat \<Rightarrow> u64" where
  "id_of tm k = lrt_trans_idbase tm + of_nat (k * sizeof_lrt_trans)"

definition num_ids :: nat where "num_ids = LRT_TRANS_TBLSIZE div sizeof_lrt_trans"

lemmas trans_size_defs = LRT_PIC_MAX_PICS_def LRT_TRANS_PAGESIZE_def LRT_TRANS_NUMPAGES_def
  LRT_TRANS_TBLSIZE_def sizeof_lrt_trans_def LRT_TRANS_NUMIDS_PERPAGE_def num_ids_def

lemma static_assert_page: "sizeof_lrt_trans * LRT_TRANS_NUMIDS_PERPAGE = LRT_TRANS_PAGESIZE"
  by (simp add: trans_size_defs)

lemma id2gt_id_of: "lrt_trans_id2gt tm (id_of tm k) = tm + of_nat (k * sizeof_lrt_trans)"
  by (simp add: id_of_def lrt_trans_defs)

lemma id2lt_id_of:
  "lrt_trans_id2lt tm p (id_of tm k) =
     tm + of_nat ((p + 1) * LRT_TRANS_TBLSIZE + k * sizeof_lrt_trans)"
  by (simp add: id_of_def lrt_trans_defs algebra_simps)

lemma trans_size_values:
  "LRT_PIC_MAX_PICS = 64" "LRT_TRANS_TBLSIZE = 1048576" "sizeof_lrt_trans = 32"
  "num_ids = 32768" "LRT_TRANS_PAGESIZE = 4096" "LRT_TRANS_NUMIDS_PERPAGE = 128"
  by (simp_all add: trans_size_defs)

lemma trans_mem_fitsD:
  assumes "trans_mem_fits tm" "j < 65 * 1048576"
  shows "unat (tm + of_nat j) = unat tm + j"
proof -
  have "unat tm + j < 2 ^ 64"
    using assms by (simp add: trans_mem_fits_def trans_size_values)
  then show ?thesis by (rule unat_add_of_nat_u64)
qed

lemma unat_id2lt_id_of:
  assumes "trans_mem_fits tm" "p < LRT_PIC_MAX_PICS" "k < num_ids"
  shows "unat (lrt_trans_id2lt tm p (id_of tm k)) =
     unat tm + (p + 1) * LRT_TRANS_TBLSIZE + k * sizeof_lrt_trans"
proof -
  have "(p + 1) * LRT_TRANS_TBLSIZE + k * sizeof_lrt_trans < 65 * 1048576"
    using assms(2,3) by (simp add: trans_size_values)
  then show ?thesis
    unfolding id2lt_id_of by (simp only: trans_mem_fitsD [OF assms(1)] add.assoc)
qed

lemma unat_id2gt_id_of:
  assumes "trans_mem_fits tm" "k < num_ids"
  shows "unat (lrt_trans_id2gt tm (id_of tm k)) = unat tm + k * sizeof_lrt_trans"
proof -
  have "k * sizeof_lrt_trans < 65 * 1048576"
    using assms(2) by (simp add: trans_size_values)
  then show ?thesis
    unfolding id2gt_id_of by (simp only: trans_mem_fitsD [OF assms(1)])
qed

lemma local_entry_inj:
  assumes "trans_mem_fits tm" "p < LRT_PIC_MAX_PICS" "q < LRT_PIC_MAX_PICS"
    "j < num_ids" "k < num_ids"
    and eq: "lrt_trans_id2lt tm p (id_of tm j) = lrt_trans_id2lt tm q (id_of tm k)"
  shows "p = q \<and> j = k"
proof -
  have "unat tm + (p + 1) * LRT_TRANS_TBLSIZE + j * sizeof_lrt_trans =
      unat (lrt_trans_id2lt tm p (id_of tm j))"
    by (rule unat_id2lt_id_of [OF assms(1,2,4), symmetric])
  also have "\<dots> = unat (lrt_trans_id2lt tm q (id_of tm k))"
    by (rule arg_cong [OF eq])
  also have "\<dots> = unat tm + (q + 1) * LRT_TRANS_TBLSIZE + k * sizeof_lrt_trans"
    by (rule unat_id2lt_id_of [OF assms(1,3,5)])
  finally have "p * 32768 + j = q * 32768 + k"
    by (simp add: trans_size_values)
  then show ?thesis
    by (rule mixed_radix_inj) (use assms(4,5) in \<open>simp_all add: trans_size_values\<close>)
qed

lemma local_global_disjoint:
  assumes "trans_mem_fits tm" "p < LRT_PIC_MAX_PICS" "j < num_ids" "k < num_ids"
  shows "lrt_trans_id2lt tm p (id_of tm j) \<noteq> lrt_trans_id2gt tm (id_of tm k)"
proof
  assume "lrt_trans_id2lt tm p (id_of tm j) = lrt_trans_id2gt tm (id_of tm k)"
  then have "unat tm + (p + 1) * LRT_TRANS_TBLSIZE + j * sizeof_lrt_trans =
      unat tm + k * sizeof_lrt_trans"
    using unat_id2lt_id_of [OF assms(1,2,3)] unat_id2gt_id_of [OF assms(1,4)] by (simp only:)
  then show False using assms(4) by (simp add: trans_size_values)
qed

end
