(* ===== verification/SysTrans.thy ===== *)
theory SysTrans
  imports LrtTrans PicReach
begin

text \<open>
  The translation system of the Ebb model (\<open>l0/sys/trans.c\<close>, \<open>trans-def.h\<close>, \<open>defFT.c\<close>,
  \<open>l0/types.h\<close>, \<open>EBBMgrPrimBoot.c\<close>): the global table holds for every id the miss
  function that makes its object, the local table of a core holds the representative the core
  has cached. A call of an id that is not cached goes through the default function table, which
  calls the miss function.

  The two tables are stores from the address of an entry to its contents: an
  \<open>EBBTrans\<close> used as a global entry is a \<open>gtrans\<close>, used as a local entry an \<open>ltrans\<close>
  (the two tables do not overlap, \<open>local_global_disjoint\<close>). \<open>repft\<close> is the first word of a
  representative, the address of its function table.
\<close>

subsection \<open>Data\<close>

datatype missfn = MF_NULL | CObjEBBMissFunc_fp | CPlusEBBMissFunc_fp | nullmissmf_fp | MF_other nat

datatype ftname =
    EBBDefFT
  | FT_EBBMgrPrim
  | FT_EventMgrPrim
  | FT_MemMgrPrim
  | FT_MsgMgrPrim
  | FT_MsgMgrEvHdlr
  | FT_CtrPrimDistributed
  | FT_L0Prim
  | FT_L1Prim
  | FT_L1PrimMH
  | FT_Stream
  | FT_Ctr
  | FT_Console
  | FT_EthMgr
  | FT_App
  | FT_other nat

datatype fn = EBBDefFunc nat | Method ftname nat

record gtrans =
  mf :: missfn
  arg :: u64
  free :: u64
  corebv :: u64

record ltrans =
  obj :: u64
  ftable :: ftname

record trans_state = pic_state +
  TransMem :: u64
  gtab :: "u64 \<Rightarrow> gtrans"
  ltab :: "u64 \<Rightarrow> ltrans"
  repft :: "u64 \<Rightarrow> ftname"

definition gtrans_zero :: gtrans where
  "gtrans_zero = \<lparr>mf = MF_NULL, arg = 0, free = 0, corebv = 0\<rparr>"

definition ALLOCATED :: u64 where "ALLOCATED = -1"

definition EBB_TRANS_MAX_FUNCS :: nat where "EBB_TRANS_MAX_FUNCS = 256"

text \<open>Entry \<open>n\<close> of a function table. \<open>EBBDefFT\<close> is the array of \<open>defFT.c\<close>.\<close>

definition ft_lookup :: "ftname \<Rightarrow> nat \<Rightarrow> fn res" where
  "ft_lookup ft n =
     (if ft = EBBDefFT then if n < EBB_TRANS_MAX_FUNCS then Inr (EBBDefFunc n) else Inl OutOfBounds
      else Inr (Method ft n))"

subsection \<open>Partition of the global table\<close>

text \<open>\<open>EBBTrans\<close> is a union of four words and a \<open>struct lrt_trans\<close>.\<close>

definition sizeof_EBBTrans :: nat where "sizeof_EBBTrans = max (4 * 8) sizeof_lrt_trans"

definition sysTransValidate :: bool where
  "sysTransValidate =
     (let psize = LRT_TRANS_TBLSIZE div LRT_PIC_MAX_PICS in
      if psize * LRT_PIC_MAX_PICS \<noteq> LRT_TRANS_TBLSIZE then False
      else if LRT_TRANS_TBLSIZE div LRT_PIC_MAX_PICS < LRT_TRANS_PAGESIZE then False
      else if ALLOCATED = 0 then False
      else if sizeof_EBBTrans \<noteq> sizeof_lrt_trans then False
      else True)"

definition mygmem_size :: nat where
  "mygmem_size = LRT_TRANS_TBLSIZE div LRT_PIC_MAX_PICS"

definition mygmem :: "'z trans_state_scheme \<Rightarrow> nat \<Rightarrow> u64" where
  "mygmem s myid = (let ret = lrt_trans_gmem (TransMem s) in ret + of_nat (myid * mygmem_size))"

definition gt2id :: "'z trans_state_scheme \<Rightarrow> u64 \<Rightarrow> u64" where
  "gt2id s gt = lrt_trans_gt2id (TransMem s) gt"

definition id2gt :: "'z trans_state_scheme \<Rightarrow> u64 \<Rightarrow> u64" where
  "id2gt s i = lrt_trans_id2gt (TransMem s) i"

definition EBBIdToLTrans :: "'z trans_state_scheme \<Rightarrow> nat \<Rightarrow> u64 \<Rightarrow> u64" where
  "EBBIdToLTrans s myid i = lrt_trans_id2lt (TransMem s) myid i"

definition EBBId_DREF :: "'z trans_state_scheme \<Rightarrow> nat \<Rightarrow> u64 \<Rightarrow> u64" where
  "EBBId_DREF s myid i = obj (ltab s (EBBIdToLTrans s myid i))"

definition myNumGTrans :: nat where "myNumGTrans = mygmem_size div sizeof_EBBTrans"
definition myGTable :: "'z trans_state_scheme \<Rightarrow> nat \<Rightarrow> u64" where "myGTable s myid = mygmem s myid"
definition myNumLTrans :: nat where "myNumLTrans = LRT_TRANS_TBLSIZE div sizeof_EBBTrans"

text \<open>The address of \<open>t[i]\<close> in a table of entries.\<close>

definition entry_at :: "u64 \<Rightarrow> nat \<Rightarrow> u64" where
  "entry_at t i = t + of_nat (i * sizeof_EBBTrans)"

subsection \<open>Entries\<close>

definition upd_gt :: "u64 \<Rightarrow> (gtrans \<Rightarrow> gtrans) \<Rightarrow> 'z trans_state_scheme \<Rightarrow> 'z trans_state_scheme" where
  "upd_gt a f s = s\<lparr>gtab := (gtab s)(a := f (gtab s a))\<rparr>"

definition upd_lt :: "u64 \<Rightarrow> (ltrans \<Rightarrow> ltrans) \<Rightarrow> 'z trans_state_scheme \<Rightarrow> 'z trans_state_scheme" where
  "upd_lt a f s = s\<lparr>ltab := (ltab s)(a := f (ltab s a))\<rparr>"

definition trans_mark_core_used :: "u64 \<Rightarrow> nat \<Rightarrow> 'z trans_state_scheme \<Rightarrow> 'z trans_state_scheme" where
  "trans_mark_core_used gt core s =
     (let mask = push_bit core 1 in upd_gt gt (\<lambda>g. g\<lparr>corebv := corebv g OR mask\<rparr>) s)"

text \<open>The source tests \<open>corebv | mask\<close>, not \<open>corebv & mask\<close>.\<close>

definition trans_test_core_used :: "'z trans_state_scheme \<Rightarrow> u64 \<Rightarrow> nat \<Rightarrow> bool" where
  "trans_test_core_used s gt core =
     (let mask = push_bit core 1 in corebv (gtab s gt) OR mask \<noteq> 0)"

definition EBBCacheObj :: "nat \<Rightarrow> u64 \<Rightarrow> u64 \<Rightarrow> 'z trans_state_scheme \<Rightarrow> 'z trans_state_scheme" where
  "EBBCacheObj myid lt r s =
     (let gt = lrt_trans_lt2gt (TransMem s) myid lt;
          s = upd_lt lt (\<lambda>l. l\<lparr>obj := r\<rparr>) s
      in trans_mark_core_used gt myid s)"

definition EBBInitGTrans :: "u64 \<Rightarrow> missfn \<Rightarrow> u64 \<Rightarrow> 'z trans_state_scheme \<Rightarrow> 'z trans_state_scheme" where
  "EBBInitGTrans gt m a s = upd_gt gt (\<lambda>g. g\<lparr>mf := m, arg := a\<rparr>) s"

text \<open>\<open>&lt->ftable\<close>, the second word of the entry.\<close>

definition ftable_addr :: "u64 \<Rightarrow> u64" where
  "ftable_addr lt = lt + 8"

definition EBBInitLTrans :: "u64 \<Rightarrow> 'z trans_state_scheme \<Rightarrow> 'z trans_state_scheme" where
  "EBBInitLTrans lt s = upd_lt lt (\<lambda>l. \<lparr>obj = ftable_addr lt, ftable = EBBDefFT\<rparr>) s"

definition initGTable :: "nat \<Rightarrow> missfn \<Rightarrow> u64 \<Rightarrow> 'z trans_state_scheme \<Rightarrow> 'z trans_state_scheme" where
  "initGTable myid m a s =
     (let gt = myGTable s myid
      in fold (\<lambda>i s. if free (gtab s (entry_at gt i)) \<noteq> ALLOCATED
                     then EBBInitGTrans (entry_at gt i) m a s else s)
           [0..<myNumGTrans] s)"

definition initLTable :: "nat \<Rightarrow> 'z trans_state_scheme \<Rightarrow> 'z trans_state_scheme" where
  "initLTable myid s =
     (let lt = lrt_trans_lmem (TransMem s) myid
      in fold (\<lambda>i s. EBBInitLTrans (entry_at lt i) s) [0..<myNumLTrans] s)"

subsection \<open>Allocating and binding ids\<close>

definition TransEBBIdAlloc :: "nat \<Rightarrow> 'z trans_state_scheme \<Rightarrow> u64 \<times> 'z trans_state_scheme" where
  "TransEBBIdAlloc myid s =
     (let gt = myGTable s myid in
      case find (\<lambda>i. free (gtab s (entry_at gt i)) \<noteq> ALLOCATED) [0..<myNumGTrans] of
        Some i \<Rightarrow> (gt2id s (entry_at gt i), upd_gt (entry_at gt i) (\<lambda>g. g\<lparr>free := ALLOCATED\<rparr>) s)
      | None \<Rightarrow> (0, s))"

text \<open>The source stores \<open>ALLOCATED\<close> here too.\<close>

definition TransEBBIdFree :: "u64 \<Rightarrow> 'z trans_state_scheme \<Rightarrow> 'z trans_state_scheme" where
  "TransEBBIdFree i s = upd_gt (id2gt s i) (\<lambda>g. g\<lparr>free := ALLOCATED\<rparr>) s"

definition invalidate_one :: "u64 \<Rightarrow> nat \<Rightarrow> 'z trans_state_scheme \<Rightarrow> 'z trans_state_scheme res" where
  "invalidate_one i picId s =
     (if trans_test_core_used s (id2gt s i) picId then
        let lt = lrt_trans_id2rlt (TransMem s) picId i
        in rbind (lrt_assert (lt \<noteq> 0)) (\<lambda>_. Inr (EBBInitLTrans lt s))
      else Inr s)"

text \<open>The \<open>do ... while (picId != lrt_pic_myid)\<close> loop.\<close>

partial_function (option) invalidate_loop ::
    "nat \<Rightarrow> u64 \<Rightarrow> nat \<Rightarrow> 'z trans_state_scheme \<Rightarrow> 'z trans_state_scheme res option" where
  "invalidate_loop myid i picId s =
     (case rbind (invalidate_one i picId s) (\<lambda>s. rbind (lrt_pic_getnextlpic s picId) (\<lambda>p. Inr (p, s))) of
        Inl e \<Rightarrow> Some (Inl e)
      | Inr (p, s') \<Rightarrow> if p \<noteq> myid then invalidate_loop myid i p s' else Some (Inr s'))"

definition TransEBBIdInvalidateCaches :: "nat \<Rightarrow> u64 \<Rightarrow> 'z trans_state_scheme \<Rightarrow> 'z trans_state_scheme res" where
  "TransEBBIdInvalidateCaches myid i s = returns (invalidate_loop myid i myid s)"

definition TransEBBIdBind :: "nat \<Rightarrow> u64 \<Rightarrow> missfn \<Rightarrow> u64 \<Rightarrow> 'z trans_state_scheme \<Rightarrow> 'z trans_state_scheme res" where
  "TransEBBIdBind myid i m a s =
     (let gt = id2gt s i;
          s = upd_gt gt (\<lambda>g. g\<lparr>mf := m, arg := a\<rparr>) s
      in TransEBBIdInvalidateCaches myid i s)"

text \<open>\<open>bzero\<close> of this core's part of the global table clears the entries that lie in it.\<close>

definition bzero_mygmem :: "nat \<Rightarrow> 'z trans_state_scheme \<Rightarrow> 'z trans_state_scheme" where
  "bzero_mygmem myid s =
     (let gt = myGTable s myid
      in fold (\<lambda>i s. upd_gt (entry_at gt i) (\<lambda>_. gtrans_zero) s) [0..<myNumGTrans] s)"

definition trans_init :: "nat \<Rightarrow> 'z trans_state_scheme \<Rightarrow> 'z trans_state_scheme res" where
  "trans_init myid s =
     rbind (lrt_assert sysTransValidate) (\<lambda>_. Inr (initLTable myid (bzero_mygmem myid s)))"

definition EBBAllocPrimIdBoot :: "nat \<Rightarrow> 'z trans_state_scheme \<Rightarrow> ebbrc \<times> u64 \<times> 'z trans_state_scheme" where
  "EBBAllocPrimIdBoot myid s = (let (i, s) = TransEBBIdAlloc myid s in (EBBRC_OK, i, s))"

definition EBBBindPrimIdBoot ::
    "nat \<Rightarrow> u64 \<Rightarrow> missfn \<Rightarrow> u64 \<Rightarrow> 'z trans_state_scheme \<Rightarrow> (ebbrc \<times> 'z trans_state_scheme) res" where
  "EBBBindPrimIdBoot myid i m a s = rbind (TransEBBIdBind myid i m a s) (\<lambda>s. Inr (EBBRC_OK, s))"

subsection \<open>Calling an id\<close>

text \<open>
  The function table of the object at \<open>r\<close>: its first word. For the default object of a local
  entry this is the entry's \<open>ftable\<close>.
\<close>

definition is_ltrans_addr :: "'z trans_state_scheme \<Rightarrow> u64 \<Rightarrow> bool" where
  "is_ltrans_addr s a \<longleftrightarrow>
     (let d = unat (a - TransMem_LMem (TransMem s))
      in d < LRT_PIC_MAX_PICS * LRT_TRANS_TBLSIZE \<and> d mod sizeof_lrt_trans = 0)"

definition rep_ft :: "'z trans_state_scheme \<Rightarrow> u64 \<Rightarrow> ftname" where
  "rep_ft s r = (if is_ltrans_addr s (r - 8) then ftable (ltab s (r - 8)) else repft s r)"

text \<open>
  A miss function gets the object pointer to replace, the local entry, the number of the function
  called and the bound argument. It returns its code and the new object. \<open>callmf\<close> says what the
  miss functions do; \<open>GenericDefaultFunc\<close> returns the function to call and its object, or the
  error code of the miss.
\<close>

type_synonym 's callmf = "missfn \<Rightarrow> nat \<Rightarrow> u64 \<Rightarrow> u64 \<Rightarrow> nat \<Rightarrow> u64 \<Rightarrow> 's \<Rightarrow> (ebbrc \<times> u64 \<times> 's) res"

datatype call_result = Called fn u64 | Failed ebbrc

definition GenericDefaultFunc ::
    "'z trans_state_scheme callmf \<Rightarrow> nat \<Rightarrow> u64 \<Rightarrow> nat \<Rightarrow> 'z trans_state_scheme \<Rightarrow>
     (call_result \<times> 'z trans_state_scheme) res" where
  "GenericDefaultFunc callmf myid this fnum s =
     (let self = this - 8;
          gt = lrt_trans_lt2gt (TransMem s) myid self
      in rbind (callmf (mf (gtab s gt)) myid this self fnum (arg (gtab s gt)) s) (\<lambda>(ret, this', s).
         if EBBRC_SUCCESS ret
         then rbind (ft_lookup (rep_ft s this') fnum) (\<lambda>f. Inr (Called f this', s))
         else Inr (Failed ret, s)))"

text \<open>
  \<open>COBJ_EBBCALL(id, method)\<close>: the object of the id, the entry of its function table, and
  through the default function the miss.
\<close>

definition EBBCALL ::
    "'z trans_state_scheme callmf \<Rightarrow> nat \<Rightarrow> u64 \<Rightarrow> nat \<Rightarrow> 'z trans_state_scheme \<Rightarrow>
     (call_result \<times> 'z trans_state_scheme) res" where
  "EBBCALL callmf myid i fnum s =
     (let this = EBBId_DREF s myid i
      in rbind (ft_lookup (rep_ft s this) fnum) (\<lambda>f.
         case f of
           EBBDefFunc n \<Rightarrow> GenericDefaultFunc callmf myid this n s
         | Method ft n \<Rightarrow> Inr (Called (Method ft n) this, s)))"

end
