(* ===== verification/TransProps.thy ===== *)
theory TransProps
  imports SysTrans
begin

text \<open>
  The translation system: addresses of entries, allocation of ids, caching, binding and the
  invalidation of all cores' entries, dispatch of a call through a hit or a miss.
\<close>

subsection \<open>Entries\<close>

lemma sys_trans_values:
  "mygmem_size = 16384" "myNumGTrans = 512" "myNumLTrans = 32768" "sizeof_EBBTrans = 32"
  by (simp_all add: mygmem_size_def myNumGTrans_def myNumLTrans_def sizeof_EBBTrans_def trans_size_values)

theorem sysTransValidate_holds: "sysTransValidate"
  by (simp add: sysTransValidate_def ALLOCATED_def sizeof_EBBTrans_def trans_size_values)

lemma entry_at_inj: "j < num_ids \<Longrightarrow> k < num_ids \<Longrightarrow> entry_at t j = entry_at t k \<longleftrightarrow> j = k"
  unfolding entry_at_def sys_trans_values trans_size_values
  by (subst add_of_nat_u64_eq_iff) simp_all

lemma entry_at_myGTable:
  "entry_at (myGTable s p) i = entry_at (TransMem s) (p * myNumGTrans + i)"
  by (simp add: entry_at_def myGTable_def mygmem_def lrt_trans_defs sys_trans_values algebra_simps)

lemma id2gt_entry: "id2gt s (id_of (TransMem s) k) = entry_at (TransMem s) k"
  by (simp add: id2gt_def id2gt_id_of entry_at_def sys_trans_values trans_size_values)

lemma gt2id_entry: "gt2id s (entry_at (TransMem s) k) = id_of (TransMem s) k"
  by (metis gt2id_def id2gt_def id2gt_entry ulnx.gt2id_id2gt)

lemma entry_at_lmem:
  "entry_at (lrt_trans_lmem (TransMem s) p) i = lrt_trans_id2lt (TransMem s) p (id_of (TransMem s) i)"
  by (simp add: entry_at_def id_of_def lrt_trans_defs sys_trans_values trans_size_values)

lemma id_of_nonnull:
  assumes "trans_mem_fits tm" "k < num_ids"
  shows "id_of tm k \<noteq> 0"
proof -
  have "lrt_trans_id2lt tm 0 (id_of tm k) = id_of tm k" by (simp add: lrt_trans_defs)
  moreover have "unat (lrt_trans_id2lt tm 0 (id_of tm k)) \<noteq> 0"
    using unat_id2lt_id_of [OF assms(1) _ assms(2), of 0] by (simp add: trans_size_values)
  ultimately show ?thesis by (metis unat_0)
qed

lemma id_of_inj: "j < num_ids \<Longrightarrow> k < num_ids \<Longrightarrow> id_of tm j = id_of tm k \<longleftrightarrow> j = k"
  unfolding id_of_def trans_size_values by (subst add_of_nat_u64_eq_iff) simp_all

lemma id2lt_nonnull:
  assumes "trans_mem_fits tm" "p < LRT_PIC_MAX_PICS" "k < num_ids"
  shows "lrt_trans_id2lt tm p (id_of tm k) \<noteq> 0"
  using unat_id2lt_id_of [OF assms] assms(1) by (metis add_is_0 not_gr0 trans_mem_fits_def unat_0)

subsection \<open>Allocation\<close>

definition allocated :: "'z trans_state_scheme \<Rightarrow> nat \<Rightarrow> bool" where
  "allocated s k \<longleftrightarrow> free (gtab s (entry_at (TransMem s) k)) = ALLOCATED"

lemma upd_gt_simps [simp]:
  "TransMem (upd_gt a f s) = TransMem s" "gtab (upd_gt a f s) = (gtab s)(a := f (gtab s a))"
  "ltab (upd_gt a f s) = ltab s" "numlpics (upd_gt a f s) = numlpics s" "repft (upd_gt a f s) = repft s"
  by (simp_all add: upd_gt_def)

lemma upd_lt_simps [simp]:
  "TransMem (upd_lt a g s) = TransMem s" "ltab (upd_lt a g s) = (ltab s)(a := g (ltab s a))"
  "gtab (upd_lt a g s) = gtab s" "numlpics (upd_lt a g s) = numlpics s" "repft (upd_lt a g s) = repft s"
  by (simp_all add: upd_lt_def)

lemma portion_in_range: "p < LRT_PIC_MAX_PICS \<Longrightarrow> j < myNumGTrans \<Longrightarrow> p * myNumGTrans + j < num_ids"
  by (simp add: sys_trans_values trans_size_values)

lemma find_upt_Some: "find P [0..<n] = Some i \<Longrightarrow> i < n \<and> P i \<and> (\<forall>j < i. \<not> P j)"
  by (auto simp: find_Some_iff)

lemma find_upt_None: "find P [0..<n] = None \<longleftrightarrow> (\<forall>j < n. \<not> P j)"
  by (auto simp: find_None_iff)

lemma alloc_cases:
  assumes "myid < LRT_PIC_MAX_PICS"
  obtains (Full) "\<forall>j < myNumGTrans. allocated s (myid * myNumGTrans + j)" "TransEBBIdAlloc myid s = (0, s)"
  | (Ok) j s' where "j < myNumGTrans" "\<not> allocated s (myid * myNumGTrans + j)"
      "\<forall>j' < j. allocated s (myid * myNumGTrans + j')"
      "TransEBBIdAlloc myid s = (id_of (TransMem s) (myid * myNumGTrans + j), s')"
      "TransMem s' = TransMem s" "numlpics s' = numlpics s" "ltab s' = ltab s"
      "\<forall>k < num_ids. allocated s' k \<longleftrightarrow> allocated s k \<or> k = myid * myNumGTrans + j"
proof (cases "find (\<lambda>i. free (gtab s (entry_at (myGTable s myid) i)) \<noteq> ALLOCATED) [0..<myNumGTrans]")
  case None
  then have "\<forall>j < myNumGTrans. allocated s (myid * myNumGTrans + j)"
    unfolding find_upt_None by (simp add: allocated_def entry_at_myGTable)
  moreover have "TransEBBIdAlloc myid s = (0, s)" using None by (simp add: TransEBBIdAlloc_def)
  ultimately show thesis by (rule Full)
next
  case (Some j)
  let ?k = "myid * myNumGTrans + j"
  let ?s = "upd_gt (entry_at (TransMem s) ?k) (\<lambda>g. g\<lparr>free := ALLOCATED\<rparr>) s"
  note j = find_upt_Some [OF Some]
  have k: "?k < num_ids" using assms j by (simp add: portion_in_range)
  show thesis
  proof (rule Ok)
    show "TransEBBIdAlloc myid s = (id_of (TransMem s) ?k, ?s)"
      using Some by (simp add: TransEBBIdAlloc_def entry_at_myGTable gt2id_entry)
    show "\<forall>k' < num_ids. allocated ?s k' \<longleftrightarrow> allocated s k' \<or> k' = ?k"
      using k by (simp add: allocated_def entry_at_inj)
  qed (use j in \<open>simp_all add: allocated_def entry_at_myGTable\<close>)
qed

text \<open>
  \<open>TransEBBIdAlloc\<close> on core \<open>myid\<close> returns the id of the first entry of that core's part
  of the global table that is not allocated, a valid non-null id, and marks exactly that entry;
  it returns the null id, without effect, exactly when the core's part is exhausted.
\<close>

theorem TransEBBIdAlloc_correct:
  assumes "trans_mem_fits (TransMem s)" "myid < LRT_PIC_MAX_PICS" "TransEBBIdAlloc myid s = (i, s')"
  shows "if \<forall>j < myNumGTrans. allocated s (myid * myNumGTrans + j) then i = 0 \<and> s' = s
    else i \<noteq> 0 \<and> (\<exists>j < myNumGTrans. i = id_of (TransMem s) (myid * myNumGTrans + j) \<and>
      \<not> allocated s (myid * myNumGTrans + j) \<and> (\<forall>j' < j. allocated s (myid * myNumGTrans + j')) \<and>
      (\<forall>k < num_ids. allocated s' k \<longleftrightarrow> allocated s k \<or> k = myid * myNumGTrans + j))"
proof (rule alloc_cases [OF assms(2), of s])
  fix j s1
  assume j: "j < myNumGTrans" "\<not> allocated s (myid * myNumGTrans + j)"
    "\<forall>j' < j. allocated s (myid * myNumGTrans + j')"
    "TransEBBIdAlloc myid s = (id_of (TransMem s) (myid * myNumGTrans + j), s1)"
    "\<forall>k < num_ids. allocated s1 k \<longleftrightarrow> allocated s k \<or> k = myid * myNumGTrans + j"
  with assms(3) have i: "i = id_of (TransMem s) (myid * myNumGTrans + j)" "s' = s1" by simp_all
  have "id_of (TransMem s) (myid * myNumGTrans + j) \<noteq> 0"
    using id_of_nonnull [OF assms(1) portion_in_range [OF assms(2) j(1)]] .
  with i j show ?thesis by auto
qed (use assms(3) in auto)

text \<open>A sequence of allocations by several cores.\<close>

fun alloc_ids :: "nat list \<Rightarrow> 'z trans_state_scheme \<Rightarrow> u64 list \<times> 'z trans_state_scheme" where
  "alloc_ids [] s = ([], s)"
| "alloc_ids (p # ps) s =
     (let (i, s) = TransEBBIdAlloc p s; (is, s) = alloc_ids ps s in (i # is, s))"

text \<open>
  C29: the non-null ids that any sequence of allocations on any cores returns are pairwise
  distinct, valid, were free before and are allocated afterwards; ids allocated before stay
  allocated.
\<close>

theorem alloc_ids_fresh_distinct:
  assumes "trans_mem_fits (TransMem s)" "set ps \<subseteq> {..<LRT_PIC_MAX_PICS}" "alloc_ids ps s = (is, s')"
  shows "distinct (filter (\<lambda>i. i \<noteq> 0) is) \<and>
    (\<forall>i \<in> set is. i \<noteq> 0 \<longrightarrow> (\<exists>k < num_ids. i = id_of (TransMem s) k \<and> \<not> allocated s k \<and> allocated s' k)) \<and>
    (\<forall>k < num_ids. allocated s k \<longrightarrow> allocated s' k)"
  using assms
proof (induction ps arbitrary: s "is")
  case (Cons p ps)
  obtain i s1 where a: "TransEBBIdAlloc p s = (i, s1)" by fastforce
  obtain js where r: "alloc_ids ps s1 = (js, s')" "is = i # js"
    using Cons.prems(3) a by (auto split: prod.splits)
  show ?case
  proof (rule alloc_cases [of p s])
    assume "TransEBBIdAlloc p s = (0, s)"
    then have "i = 0" "s1 = s" using a by simp_all
    then show ?thesis using Cons.IH [of s js] Cons.prems r by simp
  next
    fix j s2
    let ?k = "p * myNumGTrans + j"
    assume j: "j < myNumGTrans" "\<not> allocated s ?k" "TransEBBIdAlloc p s = (id_of (TransMem s) ?k, s2)"
      "TransMem s2 = TransMem s" "\<forall>k < num_ids. allocated s2 k \<longleftrightarrow> allocated s k \<or> k = ?k"
    then have s1: "s1 = s2" "i = id_of (TransMem s) ?k" using a by simp_all
    have k: "?k < num_ids" using Cons.prems(2) j(1) by (simp add: portion_in_range)
    have IH: "distinct (filter (\<lambda>i. i \<noteq> 0) js)"
      "\<forall>i \<in> set js. i \<noteq> 0 \<longrightarrow> (\<exists>k < num_ids. i = id_of (TransMem s) k \<and> \<not> allocated s1 k \<and> allocated s' k)"
      "\<forall>k < num_ids. allocated s1 k \<longrightarrow> allocated s' k"
      using Cons.IH [of s1 js] Cons.prems r j(4) s1 by simp_all
    have "i \<notin> set js \<or> i = 0"
      using IH(2) s1 j(5) k by (auto simp: id_of_inj)
    moreover have "\<forall>i \<in> set js. i \<noteq> 0 \<longrightarrow> (\<exists>k < num_ids. i = id_of (TransMem s) k \<and> \<not> allocated s k \<and> allocated s' k)"
      using IH(2) s1(1) j(5) by blast
    moreover have "allocated s' ?k" using IH(3) j(5) s1(1) k by blast
    ultimately show ?thesis using IH(1,3) r(2) s1 j(2,5) k by auto
  qed (use Cons.prems(2) in simp)
qed simp

subsection \<open>Caching, binding, invalidation\<close>

abbreviation local_entry :: "'z trans_state_scheme \<Rightarrow> nat \<Rightarrow> u64 \<Rightarrow> u64" where
  "local_entry s p i \<equiv> lrt_trans_id2lt (TransMem s) p i"

definition default_lt :: "u64 \<Rightarrow> ltrans" where
  "default_lt lt = \<lparr>obj = ftable_addr lt, ftable = EBBDefFT\<rparr>"

lemma EBBInitLTrans_eq: "EBBInitLTrans lt s = s\<lparr>ltab := (ltab s)(lt := default_lt lt)\<rparr>"
  by (simp add: EBBInitLTrans_def upd_lt_def default_lt_def)

lemma test_always: "core < 64 \<Longrightarrow> trans_test_core_used s gt core"
proof -
  assume "core < 64"
  then have "bit (corebv (gtab s gt) OR push_bit core 1) core" by (simp add: bit_simps)
  then have "corebv (gtab s gt) OR push_bit core 1 \<noteq> 0" by (metis bit_0_eq bot_apply bot_bool_def)
  then show ?thesis by (simp add: trans_test_core_used_def Let_def)
qed

text \<open>The state after the entries of an id on the cores \<open>ps\<close> have been reset.\<close>

definition invalidated :: "u64 \<Rightarrow> nat set \<Rightarrow> 'z trans_state_scheme \<Rightarrow> 'z trans_state_scheme" where
  "invalidated i P s = s\<lparr>ltab := (\<lambda>a. if a \<in> (\<lambda>p. local_entry s p i) ` P then default_lt a else ltab s a)\<rparr>"

lemma invalidated_simps [simp]:
  "TransMem (invalidated i P s) = TransMem s" "numlpics (invalidated i P s) = numlpics s"
  "gtab (invalidated i P s) = gtab s" "repft (invalidated i P s) = repft s"
  by (simp_all add: invalidated_def)

lemma invalidate_one_eq:
  assumes "trans_mem_fits (TransMem s)" "p < LRT_PIC_MAX_PICS" "k < num_ids"
  shows "invalidate_one (id_of (TransMem s) k) p s = Inr (invalidated (id_of (TransMem s) k) {p} s)"
proof -
  have "p < 64" using assms(2) by (simp add: trans_size_values)
  moreover have "(\<lambda>a. if a = l then default_lt a else f a) = f(l := default_lt l)" for l f by auto
  ultimately show ?thesis
    using id2lt_nonnull [OF assms] test_always [of p s]
    by (simp add: invalidate_one_def id2rlt_eq_id2lt EBBInitLTrans_eq invalidated_def Let_def)
qed

lemma invalidated_twice: "invalidated i P (invalidated i Q s) = invalidated i (P \<union> Q) s"
proof -
  let ?A = "(\<lambda>p. local_entry s p i) ` P" and ?B = "(\<lambda>p. local_entry s p i) ` Q"
  have "(\<lambda>a. if a \<in> ?A then default_lt a else if a \<in> ?B then default_lt a else ltab s a) =
      (\<lambda>a. if a \<in> ?A \<union> ?B then default_lt a else ltab s a)"
    by auto
  then show ?thesis by (simp add: invalidated_def image_Un cong: if_cong)
qed

lemma invalidate_loop_runs:
  assumes "trans_mem_fits (TransMem s)" "numlpics s = n" "n \<le> LRT_PIC_MAX_PICS" "myid < n" "k < num_ids" "d < n"
  shows "invalidate_loop myid (id_of (TransMem s) k) ((myid + d) mod n) s =
    Some (Inr (invalidated (id_of (TransMem s) k) ((\<lambda>e. (myid + e) mod n) ` {d..<n}) s))"
  using assms
proof (induction "n - d" arbitrary: d s)
  case (Suc m)
  let ?i = "id_of (TransMem s) k" and ?p = "(myid + d) mod n"
  let ?s = "invalidated ?i {?p} s"
  have "?p < LRT_PIC_MAX_PICS" using Suc.prems by (metis le_less_trans less_le_trans mod_less_divisor neq0_conv not_less0)
  then have one: "invalidate_one ?i ?p s = Inr ?s"
    using invalidate_one_eq Suc.prems by blast
  have nxt: "lrt_pic_getnextlpic ?s ?p = Inr ((myid + Suc d) mod n)"
    using Suc.prems by (simp add: lrt_pic_getnextlpic_def mod_Suc_eq)
  show ?case
  proof (cases "Suc d = n")
    case True
    then have "(myid + Suc d) mod n = myid" "{d..<n} = {d}" using Suc.prems by auto
    then show ?thesis
      using one nxt by (subst invalidate_loop.simps) simp
  next
    case False
    then have d: "Suc d < n" using Suc.prems by simp
    have "(myid + Suc d) mod n \<noteq> myid"
      using Suc.prems(4) d by (auto simp: mod_if split: if_splits)
    then have "invalidate_loop myid ?i ?p s = invalidate_loop myid ?i ((myid + Suc d) mod n) ?s"
      using one nxt by (subst invalidate_loop.simps) simp
    also have "\<dots> = Some (Inr (invalidated ?i ((\<lambda>e. (myid + e) mod n) ` {Suc d..<n}) ?s))"
      using Suc.hyps(1) [of "Suc d" ?s] Suc.hyps(2) Suc.prems d by simp
    also have "\<dots> = Some (Inr (invalidated ?i ((\<lambda>e. (myid + e) mod n) ` {d..<n}) s))"
    proof -
      have "{d..<n} = insert d {Suc d..<n}" using d by auto
      then show ?thesis by (simp add: invalidated_twice)
    qed
    finally show ?thesis .
  qed
qed simp

lemma rotation_covers: "0 < n \<Longrightarrow> (\<lambda>e. (m + e) mod n) ` {0..<n} = {..<(n::nat)}"
proof (intro set_eqI iffI)
  fix p assume "0 < n" "p \<in> {..<n}"
  then have "(m + (p + n - m mod n) mod n) mod n = p"
    by (metis (no_types, lifting) add.commute add_diff_inverse_nat lessThan_iff less_imp_le_nat mod_add_left_eq
        mod_add_right_eq mod_add_self2 mod_less mod_less_divisor not_less trans_le_add2)
  then show "p \<in> (\<lambda>e. (m + e) mod n) ` {0..<n}"
    using \<open>0 < n\<close> by (metis (no_types, lifting) atLeastLessThan_iff image_iff mod_less_divisor zero_le)
qed auto

lemma TransEBBIdBind_eq:
  assumes "trans_mem_fits (TransMem s)" "numlpics s \<le> LRT_PIC_MAX_PICS" "myid < numlpics s" "k < num_ids"
  shows "TransEBBIdBind myid (id_of (TransMem s) k) m a s =
    Inr (invalidated (id_of (TransMem s) k) {..<numlpics s}
      (upd_gt (entry_at (TransMem s) k) (\<lambda>g. g\<lparr>mf := m, arg := a\<rparr>) s))"
proof -
  let ?s = "upd_gt (entry_at (TransMem s) k) (\<lambda>g. g\<lparr>mf := m, arg := a\<rparr>) s"
  have "(\<lambda>e. (myid + e) mod numlpics s) ` {0..<numlpics s} = {..<numlpics s}"
    using assms(3) by (intro rotation_covers) simp
  then show ?thesis
    using invalidate_loop_runs [of ?s "numlpics s" myid k 0] assms
    by (simp add: TransEBBIdBind_def TransEBBIdInvalidateCaches_def id2gt_entry)
qed

lemma ltab_invalidated:
  assumes "trans_mem_fits (TransMem s)" "n \<le> LRT_PIC_MAX_PICS" "p < LRT_PIC_MAX_PICS"
    "k < num_ids" "j < num_ids"
  shows "ltab (invalidated (id_of (TransMem s) k) {..<n} s) (local_entry s p (id_of (TransMem s) j)) =
    (if p < n \<and> j = k then default_lt (local_entry s p (id_of (TransMem s) j))
     else ltab s (local_entry s p (id_of (TransMem s) j)))"
proof -
  have "local_entry s p (id_of (TransMem s) j) \<in> (\<lambda>q. local_entry s q (id_of (TransMem s) k)) ` {..<n} \<longleftrightarrow>
      p < n \<and> j = k"
  proof
    assume "local_entry s p (id_of (TransMem s) j) \<in> (\<lambda>q. local_entry s q (id_of (TransMem s) k)) ` {..<n}"
    then obtain q where q: "q < n" "local_entry s p (id_of (TransMem s) j) = local_entry s q (id_of (TransMem s) k)"
      by auto
    moreover have "q < LRT_PIC_MAX_PICS" using q(1) assms(2) by simp
    ultimately show "p < n \<and> j = k"
      using local_entry_inj [OF assms(1,3) _ assms(5,4) q(2)] by simp
  qed auto
  then show ?thesis by (simp add: invalidated_def)
qed

text \<open>
  C2: \<open>TransEBBIdBind\<close> of a valid id, by a started core, terminates without fault; it sets the
  miss function and argument of exactly that id, resets the id's local entry of every started
  core to the default object, and changes no other entry of any core.
\<close>

theorem TransEBBIdBind_correct:
  assumes "trans_mem_fits (TransMem s)" "numlpics s \<le> LRT_PIC_MAX_PICS" "myid < numlpics s" "k < num_ids"
  shows "\<exists>s'. TransEBBIdBind myid (id_of (TransMem s) k) m a s = Inr s' \<and>
    gtab s' = (gtab s)(entry_at (TransMem s) k := (gtab s (entry_at (TransMem s) k))\<lparr>mf := m, arg := a\<rparr>) \<and>
    (\<forall>p < LRT_PIC_MAX_PICS. \<forall>j < num_ids. ltab s' (local_entry s p (id_of (TransMem s) j)) =
       (if p < numlpics s \<and> j = k then default_lt (local_entry s p (id_of (TransMem s) j))
        else ltab s (local_entry s p (id_of (TransMem s) j))))"
proof -
  let ?s = "upd_gt (entry_at (TransMem s) k) (\<lambda>g. g\<lparr>mf := m, arg := a\<rparr>) s"
  have "ltab (invalidated (id_of (TransMem s) k) {..<numlpics s} ?s) (local_entry s p (id_of (TransMem s) j)) =
       (if p < numlpics s \<and> j = k then default_lt (local_entry s p (id_of (TransMem s) j))
        else ltab s (local_entry s p (id_of (TransMem s) j)))"
    if "p < LRT_PIC_MAX_PICS" "j < num_ids" for p j
    using ltab_invalidated [of ?s "numlpics s" p k j] that assms by simp
  then show ?thesis using TransEBBIdBind_eq [OF assms] by auto
qed

subsection \<open>Calls\<close>

lemma is_ltrans_addr_entry:
  assumes "trans_mem_fits (TransMem s)" "p < LRT_PIC_MAX_PICS" "k < num_ids"
  shows "is_ltrans_addr s (local_entry s p (id_of (TransMem s) k))"
proof -
  let ?d = "p * LRT_TRANS_TBLSIZE + k * sizeof_lrt_trans"
  have "local_entry s p (id_of (TransMem s) k) - TransMem_LMem (TransMem s) = of_nat ?d"
    by (simp add: id2lt_id_of TransMem_LMem_def algebra_simps)
  moreover have "?d < 64 * 1048576" using assms(2,3) by (simp add: trans_size_values)
  moreover then have "unat (of_nat ?d :: u64) = ?d" by (intro unat_of_nat_u64) simp
  moreover have "?d mod 32 = 0" by (simp add: trans_size_values)
  ultimately show ?thesis by (simp only: is_ltrans_addr_def Let_def) (simp add: trans_size_values)
qed

lemma rep_ft_default:
  assumes "trans_mem_fits (TransMem s)" "p < LRT_PIC_MAX_PICS" "k < num_ids"
  shows "rep_ft s (ftable_addr (local_entry s p (id_of (TransMem s) k))) =
    ftable (ltab s (local_entry s p (id_of (TransMem s) k)))"
  using is_ltrans_addr_entry [OF assms] by (simp add: rep_ft_def ftable_addr_def)

definition uncached :: "'z trans_state_scheme \<Rightarrow> nat \<Rightarrow> nat \<Rightarrow> bool" where
  "uncached s p k \<longleftrightarrow> ltab s (local_entry s p (id_of (TransMem s) k)) =
     default_lt (local_entry s p (id_of (TransMem s) k))"

lemma EBBCALL_miss:
  assumes "trans_mem_fits (TransMem s)" "p < LRT_PIC_MAX_PICS" "k < num_ids" "n < EBB_TRANS_MAX_FUNCS"
    "uncached s p k"
  defines "lt \<equiv> local_entry s p (id_of (TransMem s) k)" and "g \<equiv> gtab s (entry_at (TransMem s) k)"
  shows "EBBCALL callmf p (id_of (TransMem s) k) n s =
    rbind (callmf (mf g) p (ftable_addr lt) lt n (arg g) s) (\<lambda>(ret, this', s).
      if EBBRC_SUCCESS ret
      then rbind (ft_lookup (rep_ft s this') n) (\<lambda>f. Inr (Called f this', s))
      else Inr (Failed ret, s))"
proof -
  have dref: "EBBId_DREF s p (id_of (TransMem s) k) = ftable_addr lt"
    and ft: "rep_ft s (ftable_addr lt) = EBBDefFT"
    using assms rep_ft_default [OF assms(1-3)]
    by (simp_all add: EBBId_DREF_def EBBIdToLTrans_def uncached_def default_lt_def)
  have "lrt_trans_lt2gt (TransMem s) p lt = entry_at (TransMem s) k"
    by (simp add: lt_def ulnx.lt2gt_id2lt id2gt_entry [unfolded id2gt_def])
  then show ?thesis
    using dref ft assms(4) by (simp add: EBBCALL_def GenericDefaultFunc_def ft_lookup_def ftable_addr_def g_def Let_def)
qed

lemma EBBCacheObj_eq:
  "EBBCacheObj p (local_entry s p (id_of (TransMem s) k)) r s =
    upd_gt (entry_at (TransMem s) k) (\<lambda>g. g\<lparr>corebv := corebv g OR push_bit p 1\<rparr>)
      (upd_lt (local_entry s p (id_of (TransMem s) k)) (\<lambda>l. l\<lparr>obj := r\<rparr>) s)"
  by (simp add: EBBCacheObj_def trans_mark_core_used_def ulnx.lt2gt_id2lt id2gt_entry [unfolded id2gt_def] Let_def)

lemma rep_ft_EBBCacheObj [simp]:
  "rep_ft (EBBCacheObj p (local_entry s p (id_of (TransMem s) k)) r s) r' = rep_ft s r'"
  by (simp add: EBBCacheObj_eq rep_ft_def is_ltrans_addr_def)

lemma EBBCALL_hit:
  assumes "EBBId_DREF s p i = r" "rep_ft s r = ft" "ft \<noteq> EBBDefFT"
  shows "EBBCALL callmf p i n s = Inr (Called (Method ft n) r, s)"
  using assms by (simp add: EBBCALL_def ft_lookup_def)

text \<open>
  After a core has cached a representative for an id, every call of the id on that core goes
  straight to the representative's function table, without a miss and without changing the
  state; the entries of all other ids and of all other cores are untouched.
\<close>

theorem cached_call_hits:
  assumes "trans_mem_fits (TransMem s)" "p < LRT_PIC_MAX_PICS" "k < num_ids" "rep_ft s r \<noteq> EBBDefFT"
    and "s' = EBBCacheObj p (local_entry s p (id_of (TransMem s) k)) r s"
  shows "EBBCALL callmf p (id_of (TransMem s) k) n s' = Inr (Called (Method (rep_ft s r) n) r, s') \<and>
    (\<forall>q < LRT_PIC_MAX_PICS. \<forall>j < num_ids. (q, j) \<noteq> (p, k) \<longrightarrow>
       ltab s' (local_entry s q (id_of (TransMem s) j)) = ltab s (local_entry s q (id_of (TransMem s) j)))"
proof -
  have tm: "TransMem s' = TransMem s" using assms(5) by (simp add: EBBCacheObj_eq)
  have "EBBId_DREF s' p (id_of (TransMem s) k) = r"
    by (simp add: EBBId_DREF_def EBBIdToLTrans_def assms(5) EBBCacheObj_eq)
  moreover have "rep_ft s' r = rep_ft s r" by (simp add: assms(5))
  moreover have "ltab s' (local_entry s q (id_of (TransMem s) j)) = ltab s (local_entry s q (id_of (TransMem s) j))"
    if "q < LRT_PIC_MAX_PICS" "j < num_ids" "(q, j) \<noteq> (p, k)" for q j
    using local_entry_inj [OF assms(1) that(1) assms(2) that(2) assms(3)] that(3)
    by (auto simp: assms(5) EBBCacheObj_eq)
  ultimately show ?thesis using assms(4) EBBCALL_hit [of s' p "id_of (TransMem s) k"] tm by auto
qed

text \<open>
  a call of an id on a core whose entry is in its default state runs the miss function
  bound to the id, with the bound argument, the core's entry and the number of the function; if
  it fails, the call returns its error code, and if it succeeds, the call goes to that function
  of the object the miss function returned.
\<close>

theorem uncached_call_misses:
  assumes "trans_mem_fits (TransMem s)" "p < LRT_PIC_MAX_PICS" "k < num_ids" "n < EBB_TRANS_MAX_FUNCS"
    "uncached s p k"
    and "callmf (mf (gtab s (entry_at (TransMem s) k))) p
        (ftable_addr (local_entry s p (id_of (TransMem s) k))) (local_entry s p (id_of (TransMem s) k)) n
        (arg (gtab s (entry_at (TransMem s) k))) s = Inr (rc, r, s')"
  shows "EBBCALL callmf p (id_of (TransMem s) k) n s =
    (if rc < 0 then Inr (Failed rc, s')
     else if rep_ft s' r = EBBDefFT then Inr (Called (EBBDefFunc n) r, s')
     else Inr (Called (Method (rep_ft s' r) n) r, s'))"
  using EBBCALL_miss [OF assms(1-5), of callmf] assms(4,6)
  by (simp add: EBBRC_SUCCESS_def ft_lookup_def)

subsection \<open>The cores an entry is cached on\<close>

text \<open>
  \<open>corebv_sound\<close>: the bit vector of every id has the bit of every core whose local entry is
  not the default one.
\<close>

definition corebv_sound :: "'z trans_state_scheme \<Rightarrow> bool" where
  "corebv_sound s \<longleftrightarrow> (\<forall>p < LRT_PIC_MAX_PICS. \<forall>k < num_ids.
     \<not> uncached s p k \<longrightarrow> bit (corebv (gtab s (entry_at (TransMem s) k))) p)"

lemma corebv_sound_cache:
  assumes "trans_mem_fits (TransMem s)" "p < LRT_PIC_MAX_PICS" "k < num_ids" "corebv_sound s"
  shows "corebv_sound (EBBCacheObj p (local_entry s p (id_of (TransMem s) k)) r s)"
proof -
  have "bit (corebv (gtab (EBBCacheObj p (local_entry s p (id_of (TransMem s) k)) r s) (entry_at (TransMem s) j))) q"
    if "q < LRT_PIC_MAX_PICS" "j < num_ids" "\<not> uncached (EBBCacheObj p (local_entry s p (id_of (TransMem s) k)) r s) q j" for q j
  proof (cases "q = p \<and> j = k")
    case True
    then show ?thesis using assms(2) by (simp add: EBBCacheObj_eq bit_simps trans_size_values)
  next
    case False
    then have "local_entry s q (id_of (TransMem s) j) \<noteq> local_entry s p (id_of (TransMem s) k)"
      using local_entry_inj [OF assms(1) that(1) assms(2) that(2) assms(3)] by blast
    then have "\<not> uncached s q j" using that(3) by (simp add: uncached_def EBBCacheObj_eq)
    then show ?thesis
      using assms(3,4) that by (auto simp: corebv_sound_def EBBCacheObj_eq entry_at_inj bit_simps)
  qed
  then show ?thesis by (auto simp: corebv_sound_def EBBCacheObj_eq)
qed

lemma corebv_sound_bind:
  assumes "trans_mem_fits (TransMem s)" "numlpics s \<le> LRT_PIC_MAX_PICS" "myid < numlpics s" "k < num_ids"
    "corebv_sound s" "TransEBBIdBind myid (id_of (TransMem s) k) m a s = Inr s'"
  shows "corebv_sound s'"
proof -
  let ?s = "upd_gt (entry_at (TransMem s) k) (\<lambda>g. g\<lparr>mf := m, arg := a\<rparr>) s"
  have s': "s' = invalidated (id_of (TransMem s) k) {..<numlpics s} ?s"
    using TransEBBIdBind_eq [OF assms(1-4), of m a] assms(6) by simp
  have "\<not> uncached s p j" if "p < LRT_PIC_MAX_PICS" "j < num_ids" "\<not> uncached s' p j" for p j
    using that ltab_invalidated [of ?s "numlpics s" p k j] assms(1,2,4)
    by (auto simp: uncached_def s' split: if_splits)
  moreover have "corebv (gtab s' x) = corebv (gtab s x)" "TransMem s' = TransMem s" for x
    by (simp_all add: s')
  ultimately show ?thesis using assms(5) unfolding corebv_sound_def by metis
qed

lemma corebv_sound_alloc:
  assumes "myid < LRT_PIC_MAX_PICS" "corebv_sound s" "TransEBBIdAlloc myid s = (i, s')"
  shows "corebv_sound s'"
proof -
  have "corebv (gtab s' x) = corebv (gtab s x)" "TransMem s' = TransMem s" "ltab s' = ltab s" for x
    using assms(3) by (auto simp: TransEBBIdAlloc_def Let_def split: option.splits)
  then show ?thesis using assms(2) unfolding corebv_sound_def uncached_def by simp
qed

text \<open>
  Caching, binding and allocating keep the invariant that the bit vector of an id names
  every core that caches it, so invalidating only the cores in the vector, which the test of
  \<open>trans_test_core_used\<close> is written for, would be enough.
\<close>

theorem corebv_sound_preserved:
  assumes "trans_mem_fits (TransMem s)" "numlpics s \<le> LRT_PIC_MAX_PICS" "myid < numlpics s" "k < num_ids"
    "corebv_sound s"
  shows "corebv_sound (EBBCacheObj myid (local_entry s myid (id_of (TransMem s) k)) r s) \<and>
    (\<exists>s'. TransEBBIdBind myid (id_of (TransMem s) k) m a s = Inr s' \<and> corebv_sound s') \<and>
    corebv_sound (snd (TransEBBIdAlloc myid s))"
  using corebv_sound_cache [OF assms(1) _ assms(4,5)] corebv_sound_bind [OF assms]
    TransEBBIdBind_eq [OF assms(1-4)] corebv_sound_alloc [OF _ assms(5)] assms(2,3)
  by (metis less_le_trans prod.collapse)

text \<open>
  \<open>trans_test_core_used\<close> does not test: because it combines the vector with \<open>|\<close> it answers
  yes for every core, also for an id no core has ever cached.
\<close>

theorem trans_test_core_used_always:
  "core < LRT_PIC_MAX_PICS \<Longrightarrow> trans_test_core_used s gt core"
  by (rule test_always) (simp add: trans_size_values)

text \<open>
  \<open>TransEBBIdFree\<close> does not free: it marks the entry as allocated, so the id it was
  given is not returned by any later allocation.
\<close>

theorem TransEBBIdFree_never_frees:
  assumes "trans_mem_fits (TransMem s)" "k < num_ids" "p < LRT_PIC_MAX_PICS"
  shows "allocated (TransEBBIdFree (id_of (TransMem s) k) s) k \<and>
    fst (TransEBBIdAlloc p (TransEBBIdFree (id_of (TransMem s) k) s)) \<noteq> id_of (TransMem s) k"
proof -
  let ?s = "TransEBBIdFree (id_of (TransMem s) k) s"
  have tm: "TransMem ?s = TransMem s" by (simp add: TransEBBIdFree_def)
  have al: "allocated ?s k" by (simp add: allocated_def TransEBBIdFree_def id2gt_entry)
  have "fst (TransEBBIdAlloc p ?s) \<noteq> id_of (TransMem s) k"
  proof (rule alloc_cases [OF assms(3), of ?s])
    fix j s'
    assume "j < myNumGTrans" "\<not> allocated ?s (p * myNumGTrans + j)"
      "TransEBBIdAlloc p ?s = (id_of (TransMem ?s) (p * myNumGTrans + j), s')"
    then show ?thesis using al tm portion_in_range [OF assms(3), of j] assms(2) by (auto simp: id_of_inj)
  qed (use id_of_nonnull [OF assms(1,2)] in auto)
  with al show ?thesis by simp
qed

subsection \<open>Initialisation\<close>

lemma fold_upd_gt:
  "fold (\<lambda>i s. upd_gt (f i) (\<lambda>_. g) s) xs s =
   s\<lparr>gtab := (\<lambda>a. if a \<in> f ` set xs then g else gtab s a)\<rparr>"
proof (induction xs arbitrary: s)
  case (Cons x xs)
  have "(\<lambda>a. if a \<in> f ` set xs then g else ((gtab s)(f x := g)) a) =
      (\<lambda>a. if a \<in> f ` set (x # xs) then g else gtab s a)" by auto
  with Cons [of "upd_gt (f x) (\<lambda>_. g) s"] show ?case by (simp add: upd_gt_def cong: if_cong)
qed simp

lemma fold_init_lt:
  "fold (\<lambda>i s. EBBInitLTrans (f i) s) xs s =
   s\<lparr>ltab := (\<lambda>a. if a \<in> f ` set xs then default_lt a else ltab s a)\<rparr>"
proof (induction xs arbitrary: s)
  case (Cons x xs)
  have "(\<lambda>a. if a \<in> f ` set xs then default_lt a else ((ltab s)(f x := default_lt (f x))) a) =
      (\<lambda>a. if a \<in> f ` set (x # xs) then default_lt a else ltab s a)" by auto
  with Cons [of "EBBInitLTrans (f x) s"] show ?case by (simp add: EBBInitLTrans_eq cong: if_cong)
qed simp

text \<open>
  \<open>trans_init\<close> on a core passes its validation and leaves every local entry of that core
  in the default state and every global entry of the core's part free and unbound, without
  touching the local entries of other cores.
\<close>

theorem trans_init_correct:
  assumes "trans_mem_fits (TransMem s)" "p < LRT_PIC_MAX_PICS"
  shows "\<exists>s'. trans_init p s = Inr s' \<and> TransMem s' = TransMem s \<and>
    (\<forall>k < num_ids. uncached s' p k) \<and>
    (\<forall>j < myNumGTrans. gtab s' (entry_at (TransMem s) (p * myNumGTrans + j)) = gtrans_zero) \<and>
    (\<forall>q < LRT_PIC_MAX_PICS. \<forall>k < num_ids. q \<noteq> p \<longrightarrow>
       ltab s' (local_entry s q (id_of (TransMem s) k)) = ltab s (local_entry s q (id_of (TransMem s) k)))"
proof -
  let ?s1 = "bzero_mygmem p s" and ?s2 = "initLTable p (bzero_mygmem p s)"
  have s1: "?s1 = s\<lparr>gtab := (\<lambda>a. if a \<in> (\<lambda>i. entry_at (TransMem s) (p * myNumGTrans + i)) ` {..<myNumGTrans}
      then gtrans_zero else gtab s a)\<rparr>"
    using fold_upd_gt [of "entry_at (myGTable s p)" gtrans_zero "[0..<myNumGTrans]" s]
    by (simp add: bzero_mygmem_def entry_at_myGTable atLeast0LessThan)
  have s2: "?s2 = ?s1\<lparr>ltab := (\<lambda>a. if a \<in> (\<lambda>i. local_entry s p (id_of (TransMem s) i)) ` {..<num_ids}
      then default_lt a else ltab s a)\<rparr>"
    using fold_init_lt [of "entry_at (lrt_trans_lmem (TransMem s) p)" "[0..<myNumLTrans]" ?s1]
    by (simp add: initLTable_def s1 entry_at_lmem atLeast0LessThan sys_trans_values trans_size_values
      cong: if_cong)
  have other: "local_entry s q (id_of (TransMem s) k) \<notin> (\<lambda>i. local_entry s p (id_of (TransMem s) i)) ` {..<num_ids}"
    if "q < LRT_PIC_MAX_PICS" "k < num_ids" "q \<noteq> p" for q k
    using local_entry_inj [OF assms(1) that(1) assms(2) that(2)] that(3) by auto
  have "trans_init p s = Inr ?s2" using sysTransValidate_holds by (simp add: trans_init_def)
  moreover have "TransMem ?s2 = TransMem s" unfolding s2 unfolding s1 by simp
  moreover have "gtab ?s2 = gtab ?s1" unfolding s2 by simp
  moreover have "ltab ?s2 = (\<lambda>a. if a \<in> (\<lambda>i. local_entry s p (id_of (TransMem s) i)) ` {..<num_ids}
      then default_lt a else ltab s a)"
    unfolding s2 by simp
  moreover have "gtab ?s1 (entry_at (TransMem s) (p * myNumGTrans + j)) = gtrans_zero" if "j < myNumGTrans" for j
    unfolding s1 using that by simp
  ultimately show ?thesis
    using other by (intro exI [of _ ?s2]) (simp add: uncached_def)
qed

subsection \<open>Concrete instances\<close>

definition demo_trans :: trans_state where
  "demo_trans = pic_state.extend (demo_pic 1)
     \<lparr>TransMem = 0x10000, gtab = (\<lambda>a. gtrans_zero), ltab = default_lt, repft = (\<lambda>a. FT_App)\<rparr>"

lemma demo_trans_simps [simp]:
  "TransMem demo_trans = 0x10000" "numlpics demo_trans = 2" "gtab demo_trans = (\<lambda>a. gtrans_zero)"
  "ltab demo_trans = default_lt" "repft demo_trans = (\<lambda>a. FT_App)"
  by (simp_all add: demo_trans_def pic_state.defs demo_pic_def)

lemma demo_trans_fits: "trans_mem_fits (TransMem demo_trans)"
  by (simp add: trans_mem_fits_def trans_size_values)

lemma demo_not_allocated: "\<not> allocated demo_trans k"
  by (simp add: allocated_def gtrans_zero_def ALLOCATED_def)

lemma demo_uncached: "uncached demo_trans p k"
  by (simp add: uncached_def)

theorem TransEBBIdAlloc_correct_witness:
  "fst (TransEBBIdAlloc 1 demo_trans) = id_of 0x10000 512"
proof -
  obtain i s' where a: "TransEBBIdAlloc 1 demo_trans = (i, s')" by fastforce
  have one: "(1::nat) < LRT_PIC_MAX_PICS" by (simp add: trans_size_values)
  have "\<not> (\<forall>j < myNumGTrans. allocated demo_trans (1 * myNumGTrans + j))"
    using demo_not_allocated by (simp add: sys_trans_values) (rule exI [of _ 0], simp)
  then have "\<exists>j < myNumGTrans. i = id_of 0x10000 (1 * myNumGTrans + j) \<and> (\<forall>j' < j. allocated demo_trans (1 * myNumGTrans + j'))"
    using TransEBBIdAlloc_correct [OF demo_trans_fits one a] by (auto split: if_splits)
  then have "i = id_of 0x10000 (1 * myNumGTrans + 0)" using demo_not_allocated by (metis gr0I)
  then show ?thesis using a by (simp add: sys_trans_values)
qed

theorem alloc_ids_fresh_distinct_witness:
  "distinct (filter (\<lambda>i. i \<noteq> 0) (fst (alloc_ids [0, 1, 0, 1] demo_trans)))"
  using alloc_ids_fresh_distinct [OF demo_trans_fits, of "[0, 1, 0, 1]" "fst (alloc_ids [0, 1, 0, 1] demo_trans)"
      "snd (alloc_ids [0, 1, 0, 1] demo_trans)"]
  by (simp add: trans_size_values)

theorem TransEBBIdBind_correct_witness:
  "\<exists>s'. TransEBBIdBind 1 (id_of 0x10000 3) CObjEBBMissFunc_fp 77 demo_trans = Inr s' \<and>
     gtab s' (entry_at 0x10000 3) = gtrans_zero\<lparr>mf := CObjEBBMissFunc_fp, arg := 77\<rparr>"
  using TransEBBIdBind_correct [of demo_trans 1 3 CObjEBBMissFunc_fp 77] demo_trans_fits
  by (auto simp: trans_size_values)

definition demo_rep :: u64 where "demo_rep = 0x8"

lemma demo_rep_ft: "rep_ft demo_trans demo_rep = FT_App"
  by (simp add: rep_ft_def is_ltrans_addr_def demo_rep_def lrt_trans_defs trans_size_values)

theorem cached_call_hits_witness:
  "EBBCALL (\<lambda>m p o' l n a s. Inl NullDeref) 1 (id_of 0x10000 3) 2
     (EBBCacheObj 1 (lrt_trans_id2lt 0x10000 1 (id_of 0x10000 3)) demo_rep demo_trans) =
   Inr (Called (Method FT_App 2) demo_rep,
     EBBCacheObj 1 (lrt_trans_id2lt 0x10000 1 (id_of 0x10000 3)) demo_rep demo_trans)"
  using cached_call_hits [of demo_trans 1 3 demo_rep _ "\<lambda>m p o' l n a s. Inl NullDeref" 2] demo_trans_fits demo_rep_ft
  by (simp add: trans_size_values)

theorem uncached_call_misses_witness:
  "EBBCALL (\<lambda>m p o' l n a s. Inr (EBBRC_NOTFOUND, o', s)) 1 (id_of 0x10000 3) 2 demo_trans =
   Inr (Failed EBBRC_NOTFOUND, demo_trans)"
  using uncached_call_misses [of demo_trans 1 3 2 "\<lambda>m p o' l n a s. Inr (EBBRC_NOTFOUND, o', s)"
      EBBRC_NOTFOUND _ demo_trans] demo_trans_fits demo_uncached
  by (simp add: trans_size_values EBB_TRANS_MAX_FUNCS_def ebbrc_defs)

theorem corebv_sound_preserved_witness:
  "corebv_sound (EBBCacheObj 1 (lrt_trans_id2lt 0x10000 1 (id_of 0x10000 3)) demo_rep demo_trans)"
  using corebv_sound_preserved [of demo_trans 1 3 demo_rep] demo_trans_fits demo_uncached
  by (simp add: trans_size_values corebv_sound_def)

theorem trans_test_core_used_always_witness: "trans_test_core_used demo_trans 0x10000 5"
  by (rule trans_test_core_used_always) (simp add: trans_size_values)

theorem TransEBBIdFree_never_frees_witness:
  "fst (TransEBBIdAlloc 0 (TransEBBIdFree (id_of 0x10000 3) demo_trans)) \<noteq> id_of 0x10000 3"
  using TransEBBIdFree_never_frees [of demo_trans 3 0] demo_trans_fits by (simp add: trans_size_values)

theorem trans_init_correct_witness:
  "\<exists>s'. trans_init 1 demo_trans = Inr s' \<and> uncached s' 1 7"
  using trans_init_correct [of demo_trans 1] demo_trans_fits by (auto simp: trans_size_values)

end
