(* ===== verification/EbbRoots.thy ===== *)
theory EbbRoots
  imports TransProps
begin

text \<open>
  The root objects of Ebbs (\<open>l0/cobj/CObjEBB.c\<close>, \<open>CObjEBBRootMultiImp.c\<close>,
  \<open>CObjEBBRootShared.c\<close> and their C++ counterpart \<open>l0/cplus/CPlusEBBRootShared.C\<close>): the object
  behind an id that makes or finds the representative of a core that misses. A multi root keeps
  a linked list of representatives, one per core; a shared root has one for all cores.

  Roots and list nodes live in stores keyed by the address of the object. Memory comes from
  \<open>malloc\<close>, a parameter that stands for \<open>EBBPrimMalloc\<close> (its model is in \<open>MemBoot\<close>), and the
  \<open>createRep\<close> functions of the Ebbs are called through \<open>callcr\<close>.
\<close>

subsection \<open>State\<close>

datatype createrep =
    MemMgrPrimStupid_createRep_fp
  | MemMgrPrimRB_createRep_fp
  | EBBMgrPrimImp_createRep_fp
  | EventMgrPrimImp_createRepAssert_fp
  | MsgMgrPrim_createRepAssert_fp
  | L0Prim_createRep_fp
  | L1Prim_createRep_fp
  | App_createRep_fp
  | CtrPrimDistributed_createRep_fp
  | CR_other nat

datatype rootft = RootFT_none | CObjEBBRootMulti_ftable | CObjEBBRootSharedImp_ftable | CPlusEBBRootShared_vtbl

record RepListNode_s =
  node_rep :: u64
  node_el :: nat
  node_next :: u64

record CObjEBBRootMultiImp =
  rm_createRep :: createrep
  rm_head :: u64
  rm_lock :: u64

record root_state = trans_state +
  root_ft :: "u64 \<Rightarrow> rootft"
  multi :: "u64 \<Rightarrow> CObjEBBRootMultiImp"
  theRep :: "u64 \<Rightarrow> u64"
  repnode :: "u64 \<Rightarrow> RepListNode_s"

type_synonym 's malloc = "nat \<Rightarrow> u64 \<Rightarrow> 's \<Rightarrow> (ebbrc \<times> u64 \<times> 's) res"
type_synonym 's callcr = "createrep \<Rightarrow> nat \<Rightarrow> u64 \<Rightarrow> 's \<Rightarrow> (u64 \<times> 's) res"

definition sizeof_RepListNode :: u64 where "sizeof_RepListNode = 24"
definition sizeof_CObjEBBRootMultiImp :: u64 where "sizeof_CObjEBBRootMultiImp = 32"
definition sizeof_CObjEBBRootSharedImp :: u64 where "sizeof_CObjEBBRootSharedImp = 16"

definition MyEL :: "nat \<Rightarrow> nat" where "MyEL myid = myid"

definition upd_multi ::
    "u64 \<Rightarrow> (CObjEBBRootMultiImp \<Rightarrow> CObjEBBRootMultiImp) \<Rightarrow> 'z root_state_scheme \<Rightarrow> 'z root_state_scheme" where
  "upd_multi a f s = s\<lparr>multi := (multi s)(a := f (multi s a))\<rparr>"

subsection \<open>Multi roots\<close>

definition lockReps :: "u64 \<Rightarrow> 'z root_state_scheme \<Rightarrow> 'z root_state_scheme res" where
  "lockReps self s =
     (if rm_lock (multi s self) = 0 then Inr (upd_multi self (\<lambda>r. r\<lparr>rm_lock := 1\<rparr>) s) else Inl Blocked)"

definition unlockReps :: "u64 \<Rightarrow> 'z root_state_scheme \<Rightarrow> 'z root_state_scheme res" where
  "unlockReps self s =
     (if rm_lock (multi s self) = 1 then Inr (upd_multi self (\<lambda>r. r\<lparr>rm_lock := 0\<rparr>) s) else Inl AssertFail)"

text \<open>The \<open>while (rd)\<close> loop; null when no node is of the event location.\<close>

partial_function (option) find_rep :: "(u64 \<Rightarrow> RepListNode_s) \<Rightarrow> nat \<Rightarrow> u64 \<Rightarrow> u64 option" where
  "find_rep m e rd =
     (if rd = 0 then Some 0
      else if node_el (m rd) = e then Some (node_rep (m rd))
      else find_rep m e (node_next (m rd)))"

definition locked_FindRepOn :: "u64 \<Rightarrow> nat \<Rightarrow> 'z root_state_scheme \<Rightarrow> u64 res" where
  "locked_FindRepOn self e s =
     rbind (lrt_assert (rm_lock (multi s self) \<noteq> 0)) (\<lambda>_.
     case find_rep (repnode s) e (rm_head (multi s self)) of
       None \<Rightarrow> Inl Diverges
     | Some r \<Rightarrow> Inr r)"

definition locked_AddRepOn ::
    "'z root_state_scheme malloc \<Rightarrow> nat \<Rightarrow> u64 \<Rightarrow> nat \<Rightarrow> u64 \<Rightarrow> 'z root_state_scheme \<Rightarrow> 'z root_state_scheme res" where
  "locked_AddRepOn malloc myid self e r s =
     rbind (lrt_assert (rm_lock (multi s self) \<noteq> 0)) (\<lambda>_.
     rbind (malloc myid sizeof_RepListNode s) (\<lambda>(rc, rd, s).
     rbind (lrt_assert (EBBRC_SUCCESS rc)) (\<lambda>_.
     if rd = 0 then Inl NullDeref
     else
       let s = s\<lparr>repnode := (repnode s)(rd := \<lparr>node_rep = r, node_el = e, node_next = rm_head (multi s self)\<rparr>)\<rparr>;
           s = upd_multi self (\<lambda>t. t\<lparr>rm_head := rd\<rparr>) s
       in rbind (lrt_assert (rm_lock (multi s self) \<noteq> 0)) (\<lambda>_. Inr s))))"

definition CObjEBBRootMulti_addRepOn ::
    "'z root_state_scheme malloc \<Rightarrow> nat \<Rightarrow> u64 \<Rightarrow> nat \<Rightarrow> u64 \<Rightarrow> 'z root_state_scheme \<Rightarrow> 'z root_state_scheme res" where
  "CObjEBBRootMulti_addRepOn malloc myid self e r s =
     rbind (lockReps self s) (\<lambda>s.
     rbind (locked_AddRepOn malloc myid self e r s) (\<lambda>s.
     unlockReps self s))"

definition CObjEBBRootMulti_handleMiss ::
    "'z root_state_scheme callcr \<Rightarrow> 'z root_state_scheme malloc \<Rightarrow> nat \<Rightarrow> u64 \<Rightarrow> u64 \<Rightarrow> u64 \<Rightarrow> nat \<Rightarrow>
     'z root_state_scheme \<Rightarrow> (ebbrc \<times> u64 \<times> 'z root_state_scheme) res" where
  "CObjEBBRootMulti_handleMiss callcr malloc myid self obj' lt fnum s =
     (let myel = MyEL myid in
      rbind (lockReps self s) (\<lambda>s.
      rbind (locked_FindRepOn self myel s) (\<lambda>r.
      rbind (if r = 0 then
               rbind (callcr (rm_createRep (multi s self)) myid self s) (\<lambda>(r, s).
               rbind (locked_AddRepOn malloc myid self myel r s) (\<lambda>s. Inr (r, s)))
             else Inr (r, s)) (\<lambda>(r, s).
      rbind (unlockReps self s) (\<lambda>s.
      Inr (EBBRC_OK, r, EBBCacheObj myid lt r s))))))"

text \<open>Returns the node and the representative stored through \<open>rep\<close>; 0 is null.\<close>

definition CObjEBBRootMulti_nextRep :: "u64 \<Rightarrow> u64 \<Rightarrow> 'z root_state_scheme \<Rightarrow> u64 \<times> u64" where
  "CObjEBBRootMulti_nextRep self cur s =
     (let ret = (if cur = 0 then rm_head (multi s self) else node_next (repnode s cur))
      in (ret, if ret \<noteq> 0 then node_rep (repnode s ret) else 0))"

definition CObjEBBRootMultiSetFT :: "u64 \<Rightarrow> 'z root_state_scheme \<Rightarrow> 'z root_state_scheme" where
  "CObjEBBRootMultiSetFT a s = s\<lparr>root_ft := (root_ft s)(a := CObjEBBRootMulti_ftable)\<rparr>"

definition CObjEBBRootMultiImpInit :: "u64 \<Rightarrow> createrep \<Rightarrow> 'z root_state_scheme \<Rightarrow> 'z root_state_scheme" where
  "CObjEBBRootMultiImpInit a f s =
     (let s = CObjEBBRootMultiSetFT a s
      in upd_multi a (\<lambda>_. \<lparr>rm_createRep = f, rm_head = 0, rm_lock = 0\<rparr>) s)"

definition CObjEBBRootMultiImpStaticInit ::
    "u64 \<Rightarrow> createrep \<Rightarrow> 'z root_state_scheme \<Rightarrow> ebbrc \<times> 'z root_state_scheme" where
  "CObjEBBRootMultiImpStaticInit a f s = (EBBRC_OK, CObjEBBRootMultiImpInit a f s)"

definition CObjEBBRootMultiImpCreate ::
    "'z root_state_scheme malloc \<Rightarrow> nat \<Rightarrow> createrep \<Rightarrow> 'z root_state_scheme \<Rightarrow>
     (ebbrc \<times> u64 \<times> 'z root_state_scheme) res" where
  "CObjEBBRootMultiImpCreate malloc myid f s =
     rbind (malloc myid sizeof_CObjEBBRootMultiImp s) (\<lambda>(rc, a, s).
     if EBBRC_SUCCESS rc then
       if a = 0 then Inl NullDeref else Inr (rc, a, CObjEBBRootMultiImpInit a f s)
     else Inr (rc, a, s))"

subsection \<open>Shared roots\<close>

definition CObjEBBRootSharedImp_handleMiss ::
    "nat \<Rightarrow> u64 \<Rightarrow> u64 \<Rightarrow> u64 \<Rightarrow> nat \<Rightarrow> 'z root_state_scheme \<Rightarrow> ebbrc \<times> u64 \<times> 'z root_state_scheme" where
  "CObjEBBRootSharedImp_handleMiss myid self obj' lt fnum s =
     (let s = EBBCacheObj myid lt (theRep s self) s in (EBBRC_OK, theRep s self, s))"

definition CObjEBBRootSharedImp_init :: "u64 \<Rightarrow> u64 \<Rightarrow> 'z root_state_scheme \<Rightarrow> 'z root_state_scheme" where
  "CObjEBBRootSharedImp_init self r s = s\<lparr>theRep := (theRep s)(self := r)\<rparr>"

definition CObjEBBRootSharedSetFT :: "u64 \<Rightarrow> 'z root_state_scheme \<Rightarrow> 'z root_state_scheme" where
  "CObjEBBRootSharedSetFT a s = s\<lparr>root_ft := (root_ft s)(a := CObjEBBRootSharedImp_ftable)\<rparr>"

definition CObjEBBRootSharedCreate ::
    "'z root_state_scheme malloc \<Rightarrow> nat \<Rightarrow> u64 \<Rightarrow> 'z root_state_scheme \<Rightarrow>
     (ebbrc \<times> u64 \<times> 'z root_state_scheme) res" where
  "CObjEBBRootSharedCreate malloc myid r s =
     rbind (malloc myid sizeof_CObjEBBRootSharedImp s) (\<lambda>(rc, a, s).
     if EBBRC_SUCCESS rc then
       if a = 0 then Inl NullDeref
       else Inr (rc, a, CObjEBBRootSharedImp_init a r (CObjEBBRootSharedSetFT a s))
     else Inr (rc, a, s))"

text \<open>The C++ shared root: its constructor sets the virtual table, \<open>init\<close> the representative.\<close>

definition CPlusEBBRootShared_handleMiss ::
    "nat \<Rightarrow> u64 \<Rightarrow> u64 \<Rightarrow> u64 \<Rightarrow> nat \<Rightarrow> 'z root_state_scheme \<Rightarrow> ebbrc \<times> u64 \<times> 'z root_state_scheme" where
  "CPlusEBBRootShared_handleMiss myid self obj' lt fnum s =
     (let s = EBBCacheObj myid lt (theRep s self) s in (EBBRC_OK, theRep s self, s))"

definition CPlusEBBRootShared_new ::
    "'z root_state_scheme malloc \<Rightarrow> nat \<Rightarrow> u64 \<Rightarrow> 'z root_state_scheme \<Rightarrow> (u64 \<times> 'z root_state_scheme) res" where
  "CPlusEBBRootShared_new malloc myid sz s =
     rbind (malloc myid sz s) (\<lambda>(rc, val, s).
     rbind (lrt_assert (EBBRC_SUCCESS rc)) (\<lambda>_. Inr (val, s)))"

definition CPlusEBBRootShared_init :: "u64 \<Rightarrow> u64 \<Rightarrow> 'z root_state_scheme \<Rightarrow> ebbrc \<times> 'z root_state_scheme" where
  "CPlusEBBRootShared_init self r s = (EBBRC_OK, s\<lparr>theRep := (theRep s)(self := r)\<rparr>)"

subsection \<open>Miss functions\<close>

text \<open>
  \<open>rootRef->ft->handleMiss\<close>. A function table that is none of a root's is a wild pointer.
\<close>

definition CObjEBBMissFunc ::
    "'z root_state_scheme callcr \<Rightarrow> 'z root_state_scheme malloc \<Rightarrow> nat \<Rightarrow> u64 \<Rightarrow> u64 \<Rightarrow> nat \<Rightarrow> u64 \<Rightarrow>
     'z root_state_scheme \<Rightarrow> (ebbrc \<times> u64 \<times> 'z root_state_scheme) res" where
  "CObjEBBMissFunc callcr malloc myid self lt fnum a s =
     (case root_ft s a of
        CObjEBBRootMulti_ftable \<Rightarrow> CObjEBBRootMulti_handleMiss callcr malloc myid a self lt fnum s
      | CObjEBBRootSharedImp_ftable \<Rightarrow> Inr (CObjEBBRootSharedImp_handleMiss myid a self lt fnum s)
      | _ \<Rightarrow> Inl NullDeref)"

definition CPlusEBBMissFunc ::
    "nat \<Rightarrow> u64 \<Rightarrow> u64 \<Rightarrow> nat \<Rightarrow> u64 \<Rightarrow> 'z root_state_scheme \<Rightarrow> (ebbrc \<times> u64 \<times> 'z root_state_scheme) res" where
  "CPlusEBBMissFunc myid r lt fnum a s =
     (case root_ft s a of
        CPlusEBBRootShared_vtbl \<Rightarrow> Inr (CPlusEBBRootShared_handleMiss myid a r lt fnum s)
      | _ \<Rightarrow> Inl NullDeref)"

definition CObjEBBBindBoot :: "nat \<Rightarrow> u64 \<Rightarrow> u64 \<Rightarrow> 'z root_state_scheme \<Rightarrow> (ebbrc \<times> 'z root_state_scheme) res" where
  "CObjEBBBindBoot myid i root s = EBBBindPrimIdBoot myid i CObjEBBMissFunc_fp root s"

text \<open>The miss functions of the program; \<open>other\<close> stands for those of applications.\<close>

definition miss_functions ::
    "'z root_state_scheme callcr \<Rightarrow> 'z root_state_scheme malloc \<Rightarrow> 'z root_state_scheme callmf \<Rightarrow>
     'z root_state_scheme callmf" where
  "miss_functions callcr malloc other m myid self lt fnum a s =
     (case m of
        MF_NULL \<Rightarrow> Inl NullDeref
      | CObjEBBMissFunc_fp \<Rightarrow> CObjEBBMissFunc callcr malloc myid self lt fnum a s
      | CPlusEBBMissFunc_fp \<Rightarrow> CPlusEBBMissFunc myid self lt fnum a s
      | _ \<Rightarrow> other m myid self lt fnum a s)"

end
