(* ===== verification/RootProps.thy ===== *)
theory RootProps
  imports EbbRoots
begin

text \<open>
  What the root objects do: the list of representatives of a multi root abstracts to a list of
  node addresses (\<open>chain\<close>), a miss finds the representative of the core or makes one, and so
  every core that calls an id has one representative of its own, made once, however the calls of
  the cores are ordered. The contracts of the memory allocator and of the \<open>createRep\<close> function are
  the locales \<open>prim_malloc\<close> and \<open>rep_maker\<close>.
\<close>

subsection \<open>Representative lists\<close>

fun chain :: "(u64 \<Rightarrow> RepListNode_s) \<Rightarrow> u64 \<Rightarrow> u64 list \<Rightarrow> bool" where
  "chain m p [] \<longleftrightarrow> p = 0"
| "chain m p (a # as) \<longleftrightarrow> p = a \<and> a \<noteq> 0 \<and> chain m (node_next (m a)) as"

definition node_entry :: "(u64 \<Rightarrow> RepListNode_s) \<Rightarrow> u64 \<Rightarrow> nat \<times> u64" where
  "node_entry m a = (node_el (m a), node_rep (m a))"

lemma chain_cong: "\<forall>a \<in> set as. m a = m' a \<Longrightarrow> chain m p as = chain m' p as"
  by (induction as arbitrary: p) auto

lemma chain_update [simp]: "a \<notin> set as \<Longrightarrow> chain (m(a := n)) p as = chain m p as"
  by (rule chain_cong) auto

lemma node_entries_update [simp]: "a \<notin> set as \<Longrightarrow> map (node_entry (m(a := n))) as = map (node_entry m) as"
  by (auto simp: node_entry_def)

lemma find_rep_chain:
  "chain m p as \<Longrightarrow> find_rep m e p = Some (case map_of (map (node_entry m) as) e of None \<Rightarrow> 0 | Some r \<Rightarrow> r)"
proof (induction as arbitrary: p)
  case Nil
  then show ?case by (subst find_rep.simps) simp
next
  case (Cons a as)
  moreover have "node_entry m a = (node_el (m a), node_rep (m a))" by (rule node_entry_def)
  ultimately show ?case by (subst find_rep.simps) auto
qed

lemma chain_det: "chain m p as \<Longrightarrow> chain m p bs \<Longrightarrow> as = bs"
proof (induction as arbitrary: p bs)
  case Nil
  then show ?case by (cases bs) auto
next
  case (Cons a as)
  then show ?case by (cases bs) auto
qed

lemma chain_drop: "chain m p (as @ a # bs) \<Longrightarrow> chain m (node_next (m a)) bs"
  by (induction as arbitrary: p) auto

lemma chain_distinct: "chain m p as \<Longrightarrow> distinct as"
proof (induction as arbitrary: p)
  case (Cons a as)
  have "a \<notin> set as"
  proof
    assume "a \<in> set as"
    then obtain bs cs where "as = bs @ a # cs" by (meson split_list)
    moreover have "chain m (node_next (m a)) as" using Cons.prems by simp
    ultimately have "chain m (node_next (m a)) cs" "chain m (node_next (m a)) (bs @ a # cs)"
      using chain_drop by blast+
    then have "cs = bs @ a # cs" by (rule chain_det)
    then have "length cs = length (bs @ a # cs)" by (rule arg_cong)
    then show False by simp
  qed
  then show ?case using Cons by auto
qed simp

text \<open>A root whose representatives are the entries \<open>es\<close>, newest first, with its lock free.\<close>

definition root_reps :: "'z root_state_scheme \<Rightarrow> u64 \<Rightarrow> u64 list \<Rightarrow> (nat \<times> u64) list \<Rightarrow> bool" where
  "root_reps s root as es \<longleftrightarrow> chain (repnode s) (rm_head (multi s root)) as \<and>
     es = map (node_entry (repnode s)) as"

subsection \<open>Walking the list\<close>

text \<open>
  The loop \<open>for (node = nextRep(root, 0, &rep); node != NULL; node = nextRep(root, node, &rep))\<close>
  of the clients, collecting the representatives; \<open>n\<close> bounds the number of rounds.
\<close>

fun all_reps :: "nat \<Rightarrow> u64 \<Rightarrow> u64 \<Rightarrow> 'z root_state_scheme \<Rightarrow> u64 list option" where
  "all_reps 0 root cur s = None"
| "all_reps (Suc n) root cur s =
     (let (node, r) = CObjEBBRootMulti_nextRep root cur s
      in if node = 0 then Some [] else map_option ((#) r) (all_reps n root node s))"

lemma nextRep_first:
  "chain (repnode s) (rm_head (multi s root)) as \<Longrightarrow> CObjEBBRootMulti_nextRep root 0 s =
     (case as of [] \<Rightarrow> (0, 0) | a # _ \<Rightarrow> (a, node_rep (repnode s a)))"
  by (cases as) (auto simp: CObjEBBRootMulti_nextRep_def)

lemma nextRep_next:
  "a \<noteq> 0 \<Longrightarrow> chain (repnode s) (node_next (repnode s a)) bs \<Longrightarrow> CObjEBBRootMulti_nextRep root a s =
     (case bs of [] \<Rightarrow> (0, 0) | b # _ \<Rightarrow> (b, node_rep (repnode s b)))"
  by (cases bs) (auto simp: CObjEBBRootMulti_nextRep_def)

lemma all_reps_from:
  "a \<noteq> 0 \<Longrightarrow> chain (repnode s) (node_next (repnode s a)) bs \<Longrightarrow> length bs < n \<Longrightarrow>
   all_reps n root a s = Some (map (node_rep \<circ> repnode s) bs)"
proof (induction bs arbitrary: a n)
  case Nil
  then show ?case using nextRep_next [OF Nil(1,2)] by (cases n) simp_all
next
  case (Cons b bs)
  then obtain m where n: "n = Suc m" "length bs < m" by (cases n) auto
  have "all_reps m root b s = Some (map (node_rep \<circ> repnode s) bs)"
    using Cons.IH [of b m] Cons.prems n by simp
  then show ?case using Cons.prems n nextRep_next [OF Cons.prems(1,2)] by simp
qed


subsection \<open>One miss\<close>

lemma upd_multi_simps [simp]:
  "TransMem (upd_multi a f s) = TransMem s" "gtab (upd_multi a f s) = gtab s" "ltab (upd_multi a f s) = ltab s"
  "repft (upd_multi a f s) = repft s" "root_ft (upd_multi a f s) = root_ft s" "theRep (upd_multi a f s) = theRep s"
  "repnode (upd_multi a f s) = repnode s" "multi (upd_multi a f s) = (multi s)(a := f (multi s a))"
  "root_state.more (upd_multi a f s) = root_state.more s" "numlpics (upd_multi a f s) = numlpics s"
  by (simp_all add: upd_multi_def)

lemma unlock_after_lock:
  assumes "rm_lock (multi s a) = 0"
  shows "upd_multi a (\<lambda>r. r\<lparr>rm_lock := 0\<rparr>) (upd_multi a (\<lambda>r. r\<lparr>rm_lock := 1\<rparr>) s) = s"
proof -
  have "(multi s a)\<lparr>rm_lock := 0\<rparr> = multi s a" using assms by simp
  then show ?thesis by (simp add: upd_multi_def)
qed

lemma handleMiss_found:
  assumes "rm_lock (multi s self) = 0" "chain (repnode s) (rm_head (multi s self)) as"
    "map_of (map (node_entry (repnode s)) as) p = Some r" "r \<noteq> 0"
  shows "CObjEBBRootMulti_handleMiss callcr malloc p self o' lt n s = Inr (EBBRC_OK, r, EBBCacheObj p lt r s)"
  using find_rep_chain [OF assms(2), of p] assms(1,3,4) unlock_after_lock [OF assms(1)]
  by (simp add: CObjEBBRootMulti_handleMiss_def lockReps_def locked_FindRepOn_def unlockReps_def MyEL_def)

definition locked_root :: "u64 \<Rightarrow> 'z root_state_scheme \<Rightarrow> 'z root_state_scheme" where
  "locked_root root s = upd_multi root (\<lambda>r. r\<lparr>rm_lock := 1\<rparr>) s"

definition push_rep :: "u64 \<Rightarrow> u64 \<Rightarrow> nat \<Rightarrow> u64 \<Rightarrow> u64 \<Rightarrow> 'z root_state_scheme \<Rightarrow> 'z root_state_scheme" where
  "push_rep root a p r h s = upd_multi root (\<lambda>t. t\<lparr>rm_head := a, rm_lock := 0\<rparr>)
     (s\<lparr>repnode := (repnode s)(a := \<lparr>node_rep = r, node_el = p, node_next = h\<rparr>)\<rparr>)"

lemma locked_AddRepOn_eq:
  assumes "rm_lock (multi s self) = 1" "malloc p sizeof_RepListNode s = Inr (rc, a, s2)" "EBBRC_SUCCESS rc"
    "a \<noteq> 0" "multi s2 = multi s"
  shows "rbind (locked_AddRepOn malloc p self e r s) (unlockReps self) =
    Inr (push_rep self a e r (rm_head (multi s self)) s2)"
  using assms by (simp add: locked_AddRepOn_def unlockReps_def push_rep_def upd_multi_def)

lemma handleMiss_creates:
  assumes "rm_lock (multi s self) = 0" "chain (repnode s) (rm_head (multi s self)) as"
    "map_of (map (node_entry (repnode s)) as) p = None"
    "callcr (rm_createRep (multi s self)) p self (locked_root self s) = Inr (r, s1)"
    "malloc p sizeof_RepListNode s1 = Inr (rc, a, s2)" "EBBRC_SUCCESS rc" "a \<noteq> 0"
    "multi s1 = multi (locked_root self s)" "multi s2 = multi s1"
  shows "CObjEBBRootMulti_handleMiss callcr malloc p self o' lt n s =
    Inr (EBBRC_OK, r, EBBCacheObj p lt r (push_rep self a p r (rm_head (multi s self)) s2))"
proof -
  have "rbind (locked_AddRepOn malloc p self p r s1) (unlockReps self) =
      Inr (push_rep self a p r (rm_head (multi s self)) s2)"
    using locked_AddRepOn_eq [of s1 self malloc p rc a s2 p r] assms(5-9) by (simp add: locked_root_def)
  then obtain s3 where "locked_AddRepOn malloc p self p r s1 = Inr s3"
    "unlockReps self s3 = Inr (push_rep self a p r (rm_head (multi s self)) s2)"
    by (auto simp: rbind_def split: sum.splits)
  then show ?thesis
    using find_rep_chain [OF assms(2), of p] assms(1,3,4)
    by (simp add: CObjEBBRootMulti_handleMiss_def lockReps_def locked_FindRepOn_def MyEL_def locked_root_def)
qed

subsection \<open>The contracts\<close>

text \<open>
  \<open>avail s\<close> are the addresses the allocator has not handed out, \<open>funds p k s\<close> says that core
  \<open>p\<close> can allocate \<open>k\<close> bytes. The allocator is itself an Ebb, with id number \<open>mm\<close>; it depends on
  its own state (the extension of the record), on the local entries of \<open>mm\<close> and on the first
  words of objects. \<open>rest\<close> is the state of the layers above, which it does not touch.
\<close>

definition same_trans :: "'z root_state_scheme \<Rightarrow> 'z root_state_scheme \<Rightarrow> bool" where
  "same_trans s s' \<longleftrightarrow> root_state.truncate s' = root_state.truncate s"

definition same_roots :: "'z root_state_scheme \<Rightarrow> 'z root_state_scheme \<Rightarrow> bool" where
  "same_roots s s' \<longleftrightarrow> root_state.truncate s' = (root_state.truncate s)\<lparr>repft := repft s'\<rparr>"

lemma same_roots_sel:
  assumes "same_roots s s'"
  shows "TransMem s' = TransMem s" "gtab s' = gtab s" "ltab s' = ltab s" "root_ft s' = root_ft s"
    "multi s' = multi s" "theRep s' = theRep s" "repnode s' = repnode s" "numlpics s' = numlpics s"
  using assms by (simp_all add: same_roots_def root_state.defs)

lemma same_trans_roots: "same_trans s s' \<longleftrightarrow> same_roots s s' \<and> repft s' = repft s"
  by (auto simp: same_trans_def same_roots_def root_state.defs)

locale prim_malloc =
  fixes malloc :: "'z root_state_scheme malloc"
    and mm :: nat
    and avail :: "'z root_state_scheme \<Rightarrow> u64 set"
    and funds :: "nat \<Rightarrow> nat \<Rightarrow> 'z root_state_scheme \<Rightarrow> bool"
    and rest :: "'z root_state_scheme \<Rightarrow> 'r"
  assumes malloc_law: "funds p k s \<Longrightarrow> 0 < unat n \<Longrightarrow> unat n \<le> k \<Longrightarrow>
      \<exists>rc a s'. malloc p n s = Inr (rc, a, s') \<and> EBBRC_SUCCESS rc \<and> a \<noteq> 0 \<and> a \<in> avail s \<and> a \<notin> avail s' \<and>
        avail s' \<subseteq> avail s \<and> same_trans s s' \<and> rest s' = rest s \<and> funds p (k - unat n) s' \<and>
        (\<forall>q j. q \<noteq> p \<longrightarrow> funds q j s \<longrightarrow> funds q j s')"
    and avail_law: "root_state.more s' = root_state.more s \<Longrightarrow> avail s' = avail s \<and> rest s' = rest s"
    and funds_law: "funds p k s \<Longrightarrow> root_state.more s' = root_state.more s \<Longrightarrow> TransMem s' = TransMem s \<Longrightarrow>
      \<forall>q < LRT_PIC_MAX_PICS. ltab s' (local_entry s q (id_of (TransMem s) mm)) =
        ltab s (local_entry s q (id_of (TransMem s) mm)) \<Longrightarrow>
      \<forall>a. a \<notin> avail s \<longrightarrow> repft s' a = repft s a \<Longrightarrow> funds p k s'"
    and mm_law: "funds p k s \<Longrightarrow> mm < num_ids"
    and avail_objects: "funds p k s \<Longrightarrow> a \<in> avail s \<Longrightarrow> \<not> is_ltrans_addr s (a - 8)"

text \<open>
  A \<open>createRep\<close> function for the root at \<open>root\<close>: from \<open>cost\<close> bytes it makes an object with
  function table \<open>ft\<close>. \<open>view\<close> is what its clients see of the state of the layers above, and
  \<open>made r\<close> what making the representative \<open>r\<close> does to it.
\<close>

locale rep_maker = prim_malloc malloc mm avail funds rest
  for malloc :: "'z root_state_scheme malloc" and mm avail funds and rest :: "'z root_state_scheme \<Rightarrow> 'r" +
  fixes callcr :: "'z root_state_scheme callcr"
    and cr :: createrep
    and root :: u64
    and cost :: nat
    and ft :: ftname
    and view :: "'z root_state_scheme \<Rightarrow> 'v"
    and made :: "u64 \<Rightarrow> 'v \<Rightarrow> 'v"
  assumes make_law: "funds p k s \<Longrightarrow> cost \<le> k \<Longrightarrow>
      \<exists>r s'. callcr cr p root s = Inr (r, s') \<and> r \<noteq> 0 \<and> r \<in> avail s \<and> r \<notin> avail s' \<and> avail s' \<subseteq> avail s \<and>
        same_roots s s' \<and> repft s' r = ft \<and> (\<forall>a. a \<notin> avail s \<longrightarrow> repft s' a = repft s a) \<and>
        view s' = made r (view s) \<and> funds p (k - cost) s' \<and> (\<forall>q j. q \<noteq> p \<longrightarrow> funds q j s \<longrightarrow> funds q j s')"
    and view_law: "rest s' = rest s \<Longrightarrow> view s' = view s"
    and ft_law: "ft \<noteq> EBBDefFT"

end
