(* ===== verification/RootCalls.thy ===== *)
theory RootCalls
  imports RootProps
begin

text \<open>
  Calls of an Ebb with a multi root from any cores in any order, proved once for every memory
  allocator and every \<open>createRep\<close> function that keep their contracts.
\<close>

subsection \<open>An Ebb with a multi root\<close>

text \<open>
  \<open>ebb_ok k root cr ft av as f s\<close>: id number \<open>k\<close> is bound to the multi root \<open>root\<close>, whose list has
  the nodes \<open>as\<close> and gives the representatives \<open>f\<close>, distinct objects with function table \<open>ft\<close>; a
  core's local entry is in its default state or caches the core's own representative.
\<close>

definition ebb_ok ::
    "nat \<Rightarrow> u64 \<Rightarrow> createrep \<Rightarrow> ftname \<Rightarrow> ('z root_state_scheme \<Rightarrow> u64 set) \<Rightarrow> u64 list \<Rightarrow> (nat \<Rightarrow> u64 option) \<Rightarrow>
     'z root_state_scheme \<Rightarrow> bool" where
  "ebb_ok k root cr ft av as f s \<longleftrightarrow>
     trans_mem_fits (TransMem s) \<and>
     mf (gtab s (entry_at (TransMem s) k)) = CObjEBBMissFunc_fp \<and> arg (gtab s (entry_at (TransMem s) k)) = root \<and>
     root_ft s root = CObjEBBRootMulti_ftable \<and> rm_createRep (multi s root) = cr \<and> rm_lock (multi s root) = 0 \<and>
     chain (repnode s) (rm_head (multi s root)) as \<and> map_of (map (node_entry (repnode s)) as) = f \<and>
     distinct (map (node_el \<circ> repnode s) as) \<and> set as \<inter> av s = {} \<and>
     (\<forall>p r. f p = Some r \<longrightarrow> r \<noteq> 0 \<and> r \<notin> av s \<and> rep_ft s r = ft) \<and> inj_on f (dom f) \<and>
     (\<forall>p < LRT_PIC_MAX_PICS. uncached s p k \<or>
        (\<exists>r. f p = Some r \<and> obj (ltab s (local_entry s p (id_of (TransMem s) k))) = r))"

fun call_all ::
    "'z trans_state_scheme callmf \<Rightarrow> u64 \<Rightarrow> nat \<Rightarrow> nat list \<Rightarrow> 'z trans_state_scheme \<Rightarrow>
     (call_result list \<times> 'z trans_state_scheme) res" where
  "call_all callmf i n [] s = Inr ([], s)"
| "call_all callmf i n (p # ps) s =
     rbind (EBBCALL callmf p i n s) (\<lambda>(r, s).
     rbind (call_all callmf i n ps s) (\<lambda>(rs, s). Inr (r # rs, s)))"

lemma EBBCacheObj_sel [simp]:
  "TransMem (EBBCacheObj p lt r s) = TransMem s" "repft (EBBCacheObj p lt r s) = repft s"
  "numlpics (EBBCacheObj p lt r s) = numlpics s"
  "root_ft (EBBCacheObj p lt r t) = root_ft t" "multi (EBBCacheObj p lt r t) = multi t"
  "theRep (EBBCacheObj p lt r t) = theRep t" "repnode (EBBCacheObj p lt r t) = repnode t"
  "root_state.more (EBBCacheObj p lt r t) = root_state.more t"
  "mf (gtab (EBBCacheObj p lt r s) x) = mf (gtab s x)" "arg (gtab (EBBCacheObj p lt r s) x) = arg (gtab s x)"
  "ltab (EBBCacheObj p lt r s) = (ltab s)(lt := (ltab s lt)\<lparr>obj := r\<rparr>)"
  by (simp_all add: EBBCacheObj_def trans_mark_core_used_def upd_gt_def upd_lt_def Let_def)

lemma push_rep_sel [simp]:
  "TransMem (push_rep root a p r h s) = TransMem s" "gtab (push_rep root a p r h s) = gtab s"
  "ltab (push_rep root a p r h s) = ltab s" "repft (push_rep root a p r h s) = repft s"
  "root_ft (push_rep root a p r h s) = root_ft s" "theRep (push_rep root a p r h s) = theRep s"
  "repnode (push_rep root a p r h s) = (repnode s)(a := \<lparr>node_rep = r, node_el = p, node_next = h\<rparr>)"
  "multi (push_rep root a p r h s) = (multi s)(root := (multi s root)\<lparr>rm_head := a, rm_lock := 0\<rparr>)"
  "root_state.more (push_rep root a p r h s) = root_state.more s"
  "numlpics (push_rep root a p r h s) = numlpics s"
  by (simp_all add: push_rep_def)

lemma rep_ft_cong:
  "TransMem s' = TransMem s \<Longrightarrow> ltab s' = ltab s \<Longrightarrow> repft s' r = repft s r \<Longrightarrow> rep_ft s' r = rep_ft s r"
  by (simp add: rep_ft_def is_ltrans_addr_def)

lemma ebb_ok_rep: "ebb_ok k root cr ft av as f s \<Longrightarrow> f p = Some r \<Longrightarrow> rep_ft s r = ft"
  unfolding ebb_ok_def by blast

lemma ebb_ok_cache:
  assumes "ebb_ok k root cr ft av as f s" "p < LRT_PIC_MAX_PICS" "k < num_ids" "f p = Some r"
    "av (EBBCacheObj p (local_entry s p (id_of (TransMem s) k)) r s) = av s"
  shows "ebb_ok k root cr ft av as f (EBBCacheObj p (local_entry s p (id_of (TransMem s) k)) r s)"
proof -
  let ?s = "EBBCacheObj p (local_entry s p (id_of (TransMem s) k)) r s"
  have tm: "trans_mem_fits (TransMem s)" using assms(1) by (simp add: ebb_ok_def)
  have "uncached ?s q k \<or> (\<exists>r. f q = Some r \<and> obj (ltab ?s (local_entry s q (id_of (TransMem s) k))) = r)"
    if q: "q < LRT_PIC_MAX_PICS" for q
  proof (cases "q = p")
    case False
    then have "local_entry s q (id_of (TransMem s) k) \<noteq> local_entry s p (id_of (TransMem s) k)"
      using local_entry_inj [OF tm q assms(2,3,3)] by blast
    then show ?thesis using assms(1) q by (simp add: ebb_ok_def uncached_def)
  qed (use assms(4) in simp)
  then show ?thesis using assms(1,5) by (simp add: ebb_ok_def)
qed

subsection \<open>Making a representative\<close>

context prim_malloc begin

lemma locked_root_same: "funds p k (locked_root root s) = funds p k s" "avail (locked_root root s) = avail s"
  "rest (locked_root root s) = rest s"
  using funds_law [of p k s "locked_root root s"] funds_law [of p k "locked_root root s" s]
    avail_law [of "locked_root root s" s]
  by (auto simp: locked_root_def)

text \<open>Adding a representative by hand, as the managers that do not wait for a miss do.\<close>

lemma addRepOn_ok:
  assumes "funds p k s" "24 \<le> k" "rm_lock (multi s root) = 0"
    and ch: "chain (repnode s) (rm_head (multi s root)) as" and dis: "set as \<inter> avail s = {}"
  shows "\<exists>a s2. CObjEBBRootMulti_addRepOn malloc p root e r s = Inr (push_rep root a e r (rm_head (multi s root)) s2) \<and>
    chain (repnode (push_rep root a e r (rm_head (multi s root)) s2)) a (a # as) \<and>
    map (node_entry (repnode (push_rep root a e r (rm_head (multi s root)) s2))) (a # as) =
      (e, r) # map (node_entry (repnode s)) as \<and>
    set (a # as) \<inter> avail (push_rep root a e r (rm_head (multi s root)) s2) = {} \<and>
    a \<in> avail s \<and> avail (push_rep root a e r (rm_head (multi s root)) s2) \<subseteq> avail s \<and>
    same_trans (locked_root root s) s2 \<and>
    rest (push_rep root a e r (rm_head (multi s root)) s2) = rest s \<and>
    funds p (k - 24) (push_rep root a e r (rm_head (multi s root)) s2) \<and>
    (\<forall>q j. q \<noteq> p \<longrightarrow> funds q j s \<longrightarrow> funds q j (push_rep root a e r (rm_head (multi s root)) s2))"
proof -
  have sz: "unat sizeof_RepListNode = 24" by (simp add: sizeof_RepListNode_def)
  obtain rc a s2 where b: "malloc p sizeof_RepListNode (locked_root root s) = Inr (rc, a, s2)" "EBBRC_SUCCESS rc"
    "a \<noteq> 0" "a \<in> avail s" "a \<notin> avail s2" "avail s2 \<subseteq> avail s" "same_trans (locked_root root s) s2" "rest s2 = rest s"
    "funds p (k - 24) s2" "\<forall>q j. q \<noteq> p \<longrightarrow> funds q j s \<longrightarrow> funds q j s2"
    using malloc_law [of p k "locked_root root s" sizeof_RepListNode] assms(1,2) sz locked_root_same by auto
  let ?s = "push_rep root a e r (rm_head (multi s root)) s2"
  have st: "same_roots (locked_root root s) s2" using b(7) by (simp add: same_trans_roots)
  note sel = same_roots_sel [OF st]
  have add: "CObjEBBRootMulti_addRepOn malloc p root e r s = Inr ?s"
    using locked_AddRepOn_eq [of "locked_root root s" root malloc p rc a s2 e r] assms(3) b(1-3) sel(5)
    by (simp add: CObjEBBRootMulti_addRepOn_def lockReps_def locked_root_def)
  have nodes: "repnode s2 = repnode s" using sel by (simp add: locked_root_def)
  have notin: "a \<notin> set as" using dis b(4) by blast
  have same: "avail ?s = avail s2" "rest ?s = rest s2" using avail_law [of ?s s2] by simp_all
  have fs: "funds q j ?s" if "funds q j s2" for q j by (rule funds_law [OF that]) simp_all
  have "chain (repnode ?s) a (a # as)" using ch notin nodes b(3) by simp
  moreover have "map (node_entry (repnode ?s)) (a # as) = (e, r) # map (node_entry (repnode s)) as"
    using notin nodes by (simp add: node_entry_def)
  moreover have "set (a # as) \<inter> avail ?s = {}" using dis b(5,6) same(1) by auto
  moreover have "avail ?s \<subseteq> avail s" "rest ?s = rest s" using b(6,8) same by simp_all
  moreover have "funds p (k - 24) ?s" by (rule fs [OF b(9)])
  moreover have "\<forall>q j. q \<noteq> p \<longrightarrow> funds q j s \<longrightarrow> funds q j ?s" using b(10) fs by blast
  ultimately show ?thesis using add b(4,7) by (intro exI [of _ a] exI [of _ s2] conjI)
qed

end

context rep_maker begin

lemma funds_cache:
  assumes "funds q j s" "trans_mem_fits (TransMem s)" "p < LRT_PIC_MAX_PICS" "k < num_ids" "k \<noteq> mm"
  shows "funds q j (EBBCacheObj p (local_entry s p (id_of (TransMem s) k)) r s)"
proof (rule funds_law [OF assms(1)])
  show "\<forall>q < LRT_PIC_MAX_PICS. ltab (EBBCacheObj p (local_entry s p (id_of (TransMem s) k)) r s)
      (local_entry s q (id_of (TransMem s) mm)) = ltab s (local_entry s q (id_of (TransMem s) mm))"
    using local_entry_inj [OF assms(2) _ assms(3) mm_law [OF assms(1)] assms(4)] assms(5) by auto
qed simp_all

lemma make_rep:
  assumes ok: "ebb_ok k root cr ft avail as f s" and "f p = None" and funds: "funds p (cost + 24) s"
  shows "\<exists>a r s'. CObjEBBRootMulti_handleMiss callcr malloc p root o' lt n s =
      Inr (EBBRC_OK, r, EBBCacheObj p lt r s') \<and>
    ebb_ok k root cr ft avail (a # as) (f(p \<mapsto> r)) s' \<and> TransMem s' = TransMem s \<and>
    view s' = made r (view s) \<and> (\<forall>q j. q \<noteq> p \<longrightarrow> funds q j s \<longrightarrow> funds q j s')"
proof -
  let ?s0 = "locked_root root s"
  have f0: "funds q j ?s0 \<longleftrightarrow> funds q j s" and a0: "avail ?s0 = avail s" for q j
    by (simp_all add: locked_root_same)
  have v0: "view ?s0 = view s" by (rule view_law [OF locked_root_same(3)])
  have "funds p (cost + 24) ?s0" using funds f0 by simp
  from make_law [OF this] obtain r s1 where m: "callcr cr p root ?s0 = Inr (r, s1)" "r \<noteq> 0" "r \<in> avail s"
    "r \<notin> avail s1" "avail s1 \<subseteq> avail s" "same_roots ?s0 s1" "repft s1 r = ft"
    "\<forall>a. a \<notin> avail s \<longrightarrow> repft s1 a = repft s a" "funds p 24 s1" "view s1 = made r (view s)"
    "\<forall>q j. q \<noteq> p \<longrightarrow> funds q j s \<longrightarrow> funds q j s1"
    unfolding f0 a0 v0 by (auto simp: locked_root_def)
  have sz: "unat sizeof_RepListNode = 24" by (simp add: sizeof_RepListNode_def)
  obtain rc a s2 where b: "malloc p sizeof_RepListNode s1 = Inr (rc, a, s2)" "EBBRC_SUCCESS rc" "a \<noteq> 0"
    "a \<in> avail s1" "a \<notin> avail s2" "avail s2 \<subseteq> avail s1" "same_trans s1 s2" "rest s2 = rest s1"
    "\<forall>q j. q \<noteq> p \<longrightarrow> funds q j s1 \<longrightarrow> funds q j s2"
    using malloc_law [OF m(9), of sizeof_RepListNode] sz by auto
  note s1 = same_roots_sel [OF m(6)]
  have s2r: "same_roots s1 s2" "repft s2 = repft s1" using b(7) by (simp_all add: same_trans_roots)
  note s2 = same_roots_sel [OF s2r(1)]
  let ?s3 = "push_rep root a p r (rm_head (multi s root)) s2"
  note okD = ok [unfolded ebb_ok_def]
  have miss: "CObjEBBRootMulti_handleMiss callcr malloc p root o' lt n s =
      Inr (EBBRC_OK, r, EBBCacheObj p lt r ?s3)"
    using handleMiss_creates [of s root as p callcr r s1 malloc rc a s2 o' lt n] okD m(1) b(1-3) s1 s2 assms(2)
    by simp
  have av3: "avail ?s3 = avail s2" using avail_law [of ?s3 s2] by simp
  have v3: "view ?s3 = made r (view s)" using avail_law [of ?s3 s2] view_law [of ?s3 s1] b(8) m(10) by simp
  have notin: "a \<notin> set as" using okD b(4) m(5) by blast
  have ms: "multi s2 root = (multi s root)\<lparr>rm_lock := 1\<rparr>" using s1 s2 by (simp add: locked_root_def)
  have nodes: "repnode s2 = repnode s" and lt2: "ltab s2 = ltab s" and gt2: "gtab s2 = gtab s"
    and tm2: "TransMem s2 = TransMem s" and rft2: "root_ft s2 = root_ft s"
    using s1 s2 by (simp_all add: locked_root_def)
  have old: "rep_ft ?s3 r' = rep_ft s r'" if "r' \<notin> avail s" for r'
    by (rule rep_ft_cong) (use that m(8) s2r lt2 tm2 in simp_all)
  have new: "rep_ft ?s3 r = ft"
    using avail_objects [OF funds m(3)] m(7) s2r tm2 by (simp add: rep_ft_def is_ltrans_addr_def)
  have reps: "\<forall>q r'. (f(p \<mapsto> r)) q = Some r' \<longrightarrow> r' \<noteq> 0 \<and> r' \<notin> avail s2 \<and> rep_ft ?s3 r' = ft"
    using okD m(2,4,5) b(6) new old by (auto split: if_splits)
  have inj: "inj_on (f(p \<mapsto> r)) (dom (f(p \<mapsto> r)))"
  proof -
    have "f q \<noteq> Some r" for q using okD m(3) by blast
    moreover have "inj_on f (dom f)" using okD by blast
    ultimately show ?thesis unfolding inj_on_def by (auto split: if_splits)
  qed
  have unc: "uncached ?s3 q k = uncached s q k" for q using lt2 tm2 by (simp add: uncached_def)
  have fs: "map_of (map (node_entry (repnode ?s3)) (a # as)) = f(p \<mapsto> r)"
  proof -
    have "node_entry (repnode ?s3) a = (p, r)" by (simp add: node_entry_def)
    then show ?thesis using okD notin nodes by simp
  qed
  have di: "distinct (map (node_el \<circ> repnode ?s3) (a # as))"
  proof -
    have "p \<notin> dom (map_of (map (node_entry (repnode s)) as))" using okD assms(2) by (metis domIff)
    then have "p \<notin> (node_el \<circ> repnode s) ` set as" by (auto simp: dom_map_of_conv_image_fst node_entry_def image_image)
    moreover have "map (node_el \<circ> repnode ?s3) as = map (node_el \<circ> repnode s) as" using notin nodes by auto
    moreover have "node_el (repnode ?s3 a) = p" by simp
    moreover have "distinct (map (node_el \<circ> repnode s) as)" using okD by blast
    ultimately show ?thesis unfolding list.map distinct.simps comp_apply by (metis (no_types) image_set)
  qed
  have ch: "chain (repnode ?s3) (rm_head (multi ?s3 root)) (a # as)"
    using okD notin nodes b(3) by simp
  have dis: "set (a # as) \<inter> avail ?s3 = {}" using av3 b(5,6) m(5) okD by auto
  have loc: "\<forall>q < LRT_PIC_MAX_PICS. uncached ?s3 q k \<or>
      (\<exists>r'. (f(p \<mapsto> r)) q = Some r' \<and> obj (ltab ?s3 (local_entry ?s3 q (id_of (TransMem ?s3) k))) = r')"
  proof (intro allI impI)
    fix q assume "q < LRT_PIC_MAX_PICS"
    then have "uncached s q k \<or> (\<exists>r'. f q = Some r' \<and> obj (ltab s (local_entry s q (id_of (TransMem s) k))) = r')"
      using okD by blast
    moreover have "obj (ltab ?s3 (local_entry ?s3 q (id_of (TransMem ?s3) k))) =
        obj (ltab s (local_entry s q (id_of (TransMem s) k)))"
      by (simp add: lt2 tm2)
    moreover have "(f(p \<mapsto> r)) q = Some r'" if "f q = Some r'" for r' using that assms(2) by auto
    ultimately show "uncached ?s3 q k \<or>
        (\<exists>r'. (f(p \<mapsto> r)) q = Some r' \<and> obj (ltab ?s3 (local_entry ?s3 q (id_of (TransMem ?s3) k))) = r')"
      unfolding unc by metis
  qed
  have bound: "trans_mem_fits (TransMem ?s3)" "mf (gtab ?s3 (entry_at (TransMem ?s3) k)) = CObjEBBMissFunc_fp"
    "arg (gtab ?s3 (entry_at (TransMem ?s3) k)) = root" "root_ft ?s3 root = CObjEBBRootMulti_ftable"
    "rm_createRep (multi ?s3 root) = cr" "rm_lock (multi ?s3 root) = 0"
    using okD gt2 tm2 rft2 ms by simp_all
  have "ebb_ok k root cr ft avail (a # as) (f(p \<mapsto> r)) ?s3"
    unfolding ebb_ok_def using bound fs ch di dis reps [folded av3] inj loc by (intro conjI)
  moreover have "funds q j ?s3" if "q \<noteq> p" "funds q j s" for q j
  proof -
    have "funds q j s2" using that m(11) b(9) by blast
    from funds_law [OF this, of ?s3] show ?thesis by simp
  qed
  ultimately show ?thesis using miss tm2 v3 by (metis push_rep_sel(1))
qed

text \<open>One call: it reaches the core's own representative, made now if the core has none.\<close>

lemma call_dispatches:
  assumes ok: "ebb_ok k root cr ft avail as f s" and p: "p < LRT_PIC_MAX_PICS" and k: "k < num_ids" "k \<noteq> mm"
    and n: "n < EBB_TRANS_MAX_FUNCS" and funds: "f p = None \<Longrightarrow> funds p (cost + 24) s"
  shows "\<exists>r as' s'. EBBCALL (miss_functions callcr malloc other) p (id_of (TransMem s) k) n s =
      Inr (Called (Method ft n) r, s') \<and>
    (f p = Some r \<or> f p = None) \<and> ebb_ok k root cr ft avail as' (f(p \<mapsto> r)) s' \<and> TransMem s' = TransMem s \<and>
    view s' = (if f p = None then made r (view s) else view s) \<and>
    (\<forall>q j. q \<noteq> p \<longrightarrow> funds q j s \<longrightarrow> funds q j s')"
proof (cases "uncached s p k")
  case False
  then obtain r where r: "f p = Some r" "obj (ltab s (local_entry s p (id_of (TransMem s) k))) = r"
    "rep_ft s r = ft" using ok p unfolding ebb_ok_def by blast
  have "EBBId_DREF s p (id_of (TransMem s) k) = r" using r(2) by (simp add: EBBId_DREF_def EBBIdToLTrans_def)
  from EBBCALL_hit [OF this r(3) ft_law]
  have "EBBCALL (miss_functions callcr malloc other) p (id_of (TransMem s) k) n s = Inr (Called (Method ft n) r, s)" .
  moreover have "f(p \<mapsto> r) = f" using r(1) by auto
  ultimately show ?thesis using ok r(1) by (metis option.distinct(1))
next
  case True
  let ?lt = "local_entry s p (id_of (TransMem s) k)"
  have tm: "trans_mem_fits (TransMem s)" and mf: "mf (gtab s (entry_at (TransMem s) k)) = CObjEBBMissFunc_fp"
    "arg (gtab s (entry_at (TransMem s) k)) = root" "root_ft s root = CObjEBBRootMulti_ftable"
    using ok by (simp_all add: ebb_ok_def)
  note miss = EBBCALL_miss [OF tm p k(1) n True, of "miss_functions callcr malloc other"]
  have reach: ?thesis
    if h: "CObjEBBRootMulti_handleMiss callcr malloc p root (ftable_addr ?lt) ?lt n s =
        Inr (EBBRC_OK, r, EBBCacheObj p ?lt r s')"
      and ok': "ebb_ok k root cr ft avail as' (f(p \<mapsto> r)) s'" and tm': "TransMem s' = TransMem s"
      and fp: "f p = Some r \<or> f p = None" and vw: "view s' = (if f p = None then made r (view s) else view s)"
      and fr: "\<forall>q j. q \<noteq> p \<longrightarrow> funds q j s \<longrightarrow> funds q j s'" for r as' s'
  proof -
    let ?t = "EBBCacheObj p ?lt r s'"
    have ft: "rep_ft ?t r = ft"
      using rep_ft_EBBCacheObj [of p s' k r r] ebb_ok_rep [OF ok', of p r] by (simp add: tm')
    have "ebb_ok k root cr ft avail as' (f(p \<mapsto> r)) ?t"
      using ebb_ok_cache [OF ok' p k(1), of r] avail_law [of ?t s'] by (simp add: tm')
    moreover have "funds q j ?t" if "q \<noteq> p" "funds q j s" for q j
      using funds_cache [of q j s' p k r] fr that tm tm' p k by simp
    moreover have "EBBCALL (miss_functions callcr malloc other) p (id_of (TransMem s) k) n s =
        Inr (Called (Method ft n) r, ?t)"
      using ft_law by (simp add: miss mf miss_functions_def CObjEBBMissFunc_def h ft ft_lookup_def)
    moreover have "view ?t = (if f p = None then made r (view s) else view s)"
      using vw view_law [of ?t s'] avail_law [of ?t s'] by simp
    ultimately show ?thesis using fp tm' by (metis EBBCacheObj_sel(1))
  qed
  show ?thesis
  proof (cases "f p")
    case None
    from make_rep [OF ok None funds [OF None], of "ftable_addr ?lt" ?lt n] obtain r s' where m:
      "CObjEBBRootMulti_handleMiss callcr malloc p root (ftable_addr ?lt) ?lt n s = Inr (EBBRC_OK, r, EBBCacheObj p ?lt r s')"
      "\<exists>as'. ebb_ok k root cr ft avail as' (f(p \<mapsto> r)) s'" "TransMem s' = TransMem s" "view s' = made r (view s)"
      "\<forall>q j. q \<noteq> p \<longrightarrow> funds q j s \<longrightarrow> funds q j s'" by blast
    from m(2) obtain as' where as': "ebb_ok k root cr ft avail as' (f(p \<mapsto> r)) s'" by blast
    show ?thesis by (rule reach [OF m(1) as' m(3) _ _ m(5)]) (use None m(4) in simp_all)
  next
    case (Some r)
    have "r \<noteq> 0" "f(p \<mapsto> r) = f" using ok Some by (auto simp: ebb_ok_def)
    moreover have "CObjEBBRootMulti_handleMiss callcr malloc p root (ftable_addr ?lt) ?lt n s =
        Inr (EBBRC_OK, r, EBBCacheObj p ?lt r s)"
      by (rule handleMiss_found [where as = as]) (use ok Some \<open>r \<noteq> 0\<close> in \<open>simp_all add: ebb_ok_def\<close>)
    ultimately show ?thesis using reach [of r s as] ok Some by simp
  qed
qed

lemma calls_dispatch:
  assumes "ebb_ok k root cr ft avail as f s" "set ps \<subseteq> {..<LRT_PIC_MAX_PICS}" "k < num_ids" "k \<noteq> mm"
    "n < EBB_TRANS_MAX_FUNCS" "\<forall>p \<in> set ps. f p = None \<longrightarrow> funds p (cost + 24) s"
  shows "\<exists>as' f' s'. call_all (miss_functions callcr malloc other) (id_of (TransMem s) k) n ps s =
      Inr (map (\<lambda>p. Called (Method ft n) (the (f' p))) ps, s') \<and>
    f \<subseteq>\<^sub>m f' \<and> dom f' = dom f \<union> set ps \<and> ebb_ok k root cr ft avail as' f' s' \<and> TransMem s' = TransMem s"
  using assms
proof (induction ps arbitrary: as f s)
  case Nil
  then show ?case by (auto intro!: map_le_refl)
next
  case (Cons p ps)
  from call_dispatches [OF Cons.prems(1) _ Cons.prems(3-5), of p other]
  obtain r as1 s1 where c: "EBBCALL (miss_functions callcr malloc other) p (id_of (TransMem s) k) n s =
      Inr (Called (Method ft n) r, s1)" "f p = Some r \<or> f p = None"
    "ebb_ok k root cr ft avail as1 (f(p \<mapsto> r)) s1" "TransMem s1 = TransMem s"
    "\<forall>q j. q \<noteq> p \<longrightarrow> funds q j s \<longrightarrow> funds q j s1"
    using Cons.prems(2,6) by auto
  have "\<forall>q \<in> set ps. (f(p \<mapsto> r)) q = None \<longrightarrow> funds q (cost + 24) s1" using Cons.prems(6) c(5) by auto
  moreover have "set ps \<subseteq> {..<LRT_PIC_MAX_PICS}" using Cons.prems(2) by simp
  ultimately obtain as' f' s' where r: "call_all (miss_functions callcr malloc other) (id_of (TransMem s) k) n ps s1 =
      Inr (map (\<lambda>p. Called (Method ft n) (the (f' p))) ps, s')"
    "f(p \<mapsto> r) \<subseteq>\<^sub>m f'" "dom f' = dom (f(p \<mapsto> r)) \<union> set ps" "ebb_ok k root cr ft avail as' f' s'"
    "TransMem s' = TransMem s"
    using Cons.IH [OF c(3) _ Cons.prems(3-5), unfolded c(4)] by blast
  have fp: "f' p = Some r" using r(2) by (auto simp: map_le_def split: if_splits)
  have "f \<subseteq>\<^sub>m f'" unfolding map_le_def
  proof
    fix a assume a: "a \<in> dom f"
    then have "f a = (f(p \<mapsto> r)) a" using c(2) by auto
    also have "\<dots> = f' a" using r(2) a unfolding map_le_def by (metis domI domIff fun_upd_def option.distinct(1))
    finally show "f a = f' a" .
  qed
  moreover have "call_all (miss_functions callcr malloc other) (id_of (TransMem s) k) n (p # ps) s =
      Inr (map (\<lambda>p. Called (Method ft n) (the (f' p))) (p # ps), s')"
    using c(1) r(1) fp by simp
  moreover have "dom f' = dom f \<union> set (p # ps)" using r(3) by simp
  ultimately show ?case using r(4,5) by blast
qed

end

end
