(* ===== verification/MemMgrSimple.thy ===== *)
theory MemMgrSimple
  imports Prelude
begin

text \<open>
  The first-fit memory manager \<open>l0/MemMgrPrimSimple.c\<close>. Memory is a store of 64-bit words by
  byte address; the code only touches words at multiples of 8. A block starts and ends with a
  \<open>Bumper\<close>: its size in bytes in the low 63 bits and, in the top bit, whether it is in use.

  First the operations as the code has them, then the layout \<open>layout\<close> of a heap as a list of
  blocks, and the refinement of \<open>alloc\<close> and \<open>free\<close> to operations on block lists.
\<close>

subsection \<open>Bumpers\<close>

type_synonym heap = "u64 \<Rightarrow> u64"

definition MAX_BLOCK_SIZE :: u64 where "MAX_BLOCK_SIZE = drop_bit 1 (NOT 0)"

definition sizeof_Bumper :: u64 where "sizeof_Bumper = 8"

definition used_bit :: u64 where "used_bit = push_bit 63 1"

definition b_size :: "u64 \<Rightarrow> u64" where "b_size raw = take_bit 63 raw"
definition b_used :: "u64 \<Rightarrow> bool" where "b_used raw \<longleftrightarrow> bit raw 63"
definition set_size :: "u64 \<Rightarrow> u64 \<Rightarrow> u64" where
  "set_size n raw = (raw AND used_bit) OR take_bit 63 n"
definition set_used :: "bool \<Rightarrow> u64 \<Rightarrow> u64" where
  "set_used u raw = (if u then raw OR used_bit else take_bit 63 raw)"

subsection \<open>The manager\<close>

record EBBMemMgrPrimSimple =
  simple_myRoot :: u64
  simple_mem :: u64
  simple_end :: u64

definition sizeof_EBBMemMgrPrimSimple :: u64 where "sizeof_EBBMemMgrPrimSimple = 32"

definition simple_init_rep ::
    "u64 \<Rightarrow> u64 \<Rightarrow> u64 \<Rightarrow> heap \<Rightarrow> (EBBMemMgrPrimSimple \<times> heap) res" where
  "simple_init_rep self rootRef endp h =
     (let m = self + sizeof_EBBMemMgrPrimSimple;
          m = (if m mod 8 \<noteq> 0 then m + (8 - m mod 8) else m);
          prologue_hdr = m;
          prologue_ftr = prologue_hdr + sizeof_Bumper;
          h = h(prologue_hdr := set_used True (h prologue_hdr));
          h = h(prologue_hdr := set_size (2 * sizeof_Bumper) (h prologue_hdr));
          h = h(prologue_ftr := h prologue_hdr);
          epilog_hdr = endp - 2 * sizeof_Bumper;
          epilog_ftr = epilog_hdr + sizeof_Bumper;
          h = h(epilog_hdr := set_used True (h epilog_hdr));
          h = h(epilog_hdr := set_size (2 * sizeof_Bumper) (h epilog_hdr));
          h = h(epilog_ftr := h epilog_hdr);
          first_block_hdr = prologue_ftr + sizeof_Bumper;
          h = h(first_block_hdr := set_used False (h first_block_hdr));
          h = h(first_block_hdr := set_size (epilog_hdr - first_block_hdr) (h first_block_hdr));
          first_block_ftr = first_block_hdr + b_size (h first_block_hdr) - sizeof_Bumper;
          h = h(first_block_ftr := h first_block_hdr)
      in rbind (lrt_assert (epilog_hdr - first_block_hdr \<le> MAX_BLOCK_SIZE)) (\<lambda>_.
         Inr (\<lparr>simple_myRoot = rootRef, simple_mem = m, simple_end = endp\<rparr>, h)))"

definition round_up :: "u64 \<Rightarrow> u64" where
  "round_up sz = (if sz mod 8 \<noteq> 0 then sz + (8 - sz mod 8) else sz)"

text \<open>The search for a block: \<open>None\<close> when the walk never ends.\<close>

partial_function (option) find_block :: "heap \<Rightarrow> u64 \<Rightarrow> u64 \<Rightarrow> u64 \<Rightarrow> u64 option" where
  "find_block h endp sz hdr =
     (if hdr < endp \<and> (b_used (h hdr) \<or> b_size (h hdr) < sz)
      then find_block h endp sz (hdr + b_size (h hdr))
      else Some hdr)"

text \<open>Returns the code, the pointer stored through \<open>mem\<close> and the heap.\<close>

definition EBBMemMgrPrimSimple_alloc ::
    "EBBMemMgrPrimSimple \<Rightarrow> u64 \<Rightarrow> heap \<Rightarrow> (ebbrc \<times> u64 \<times> heap) res" where
  "EBBMemMgrPrimSimple_alloc self sz0 h =
     (let sz = round_up (sz0 + 2 * sizeof_Bumper) in
      case find_block h (simple_end self) sz (simple_mem self) of
        None \<Rightarrow> Inl Diverges
      | Some hdr \<Rightarrow>
          if hdr \<ge> simple_end self then Inr (EBBRC_OUTOFRESOURCES, 0, h)
          else
            let h = h(hdr := set_used True (h hdr));
                next_ftr = hdr + b_size (h hdr) - sizeof_Bumper;
                h = h(next_ftr := set_size (b_size (h next_ftr) - sz) (h next_ftr));
                h = h(hdr := set_size sz (h hdr));
                ftr = hdr + b_size (h hdr) - sizeof_Bumper;
                h = h(ftr := h hdr);
                next_hdr = ftr + sizeof_Bumper;
                h = h(next_hdr := h next_ftr)
            in Inr (EBBRC_OK, hdr + sizeof_Bumper, h))"

text \<open>The warning of \<open>LRT_WAssert\<close> has no effect on the state.\<close>

definition EBBMemMgrPrimSimple_free ::
    "EBBMemMgrPrimSimple \<Rightarrow> u64 \<Rightarrow> u64 \<Rightarrow> heap \<Rightarrow> (ebbrc \<times> heap) res" where
  "EBBMemMgrPrimSimple_free self sz0 mem h =
     (let hdr = mem - sizeof_Bumper;
          ftr = hdr + b_size (h hdr) - sizeof_Bumper;
          newsize = b_size (h hdr);
          sz = round_up sz0
      in rbind (lrt_assert (sz = b_size (h hdr) - 2 * sizeof_Bumper)) (\<lambda>_.
         let left_ftr = hdr - sizeof_Bumper;
             (hdr, newsize) =
               (if \<not> b_used (h left_ftr)
                then let hdr = left_ftr - b_size (h left_ftr) + sizeof_Bumper
                     in (hdr, newsize + b_size (h hdr))
                else (hdr, newsize));
             right_hdr = ftr + sizeof_Bumper;
             (ftr, newsize) =
               (if \<not> b_used (h right_hdr)
                then let ftr = right_hdr + b_size (h right_hdr) - sizeof_Bumper
                     in (ftr, newsize + b_size (h ftr))
                else (ftr, newsize));
             h = h(hdr := set_size newsize (h hdr));
             h = h(hdr := set_used False (h hdr));
             h = h(ftr := h hdr)
         in Inr (EBBRC_OK, h)))"

subsection \<open>Bumper lemmas\<close>

definition bumper :: "nat \<Rightarrow> bool \<Rightarrow> u64" where
  "bumper n u = set_used u (of_nat n)"

lemma bit_used_bit [simp]: "bit used_bit n \<longleftrightarrow> n = 63"
  unfolding used_bit_def bit_push_bit_iff by (auto simp: bit_1_iff)

lemma b_simps [simp]:
  "b_size (set_size n raw) = take_bit 63 n"
  "b_used (set_size n raw) = b_used raw"
  "b_size (set_used u raw) = b_size raw"
  "b_used (set_used u raw) = u"
  by (auto simp: b_size_def b_used_def set_size_def set_used_def bit_simps intro!: bit_word_eqI)

lemma bumper_eqI: "b_size x = b_size y \<Longrightarrow> b_used x = b_used y \<Longrightarrow> x = (y :: u64)"
proof (rule bit_word_eqI)
  fix i assume h: "b_size x = b_size y" "b_used x = b_used y" "i < LENGTH(64)"
  show "bit x i = bit y i"
  proof (cases "i = 63")
    case True
    then show ?thesis using h(2) by (simp add: b_used_def)
  next
    case False
    then have "bit (take_bit 63 x) i = bit x i" "bit (take_bit 63 y) i = bit y i"
      using h(3) by (simp_all add: bit_simps)
    then show ?thesis using h(1) by (metis b_size_def)
  qed
qed

lemma b_size_of_nat: "n < 2 ^ 63 \<Longrightarrow> b_size (of_nat n) = of_nat n"
  by (simp add: b_size_def take_bit_of_nat take_bit_nat_eq_self)

lemma b_bumper [simp]: "n < 2 ^ 63 \<Longrightarrow> b_size (bumper n u) = of_nat n" "b_used (bumper n u) = u"
  by (simp_all add: bumper_def b_size_of_nat)

lemma bumper_intro: "n < 2 ^ 63 \<Longrightarrow> b_size x = of_nat n \<Longrightarrow> b_used x = u \<Longrightarrow> x = bumper n u"
  by (rule bumper_eqI) simp_all

end
