(* ===== verification/MemMgrLayout.thy ===== *)
theory MemMgrLayout
  imports MemMgrSimple
begin

text \<open>
  The heap of the first-fit manager as a list of blocks. \<open>layout h a bs\<close>: from address
  \<open>a\<close> on, the heap holds the blocks \<open>bs\<close> one after the other, each with equal bumpers
  at both ends. Allocation and freeing refine \<open>ff_split\<close> and \<open>coalesce\<close> on block lists.
\<close>

subsection \<open>Addresses\<close>

definition adr :: "nat \<Rightarrow> u64" where "adr x = of_nat x"

lemma adr_eq_iff: "x < 2 ^ 64 \<Longrightarrow> y < 2 ^ 64 \<Longrightarrow> adr x = adr y \<longleftrightarrow> x = y"
  by (simp add: adr_def of_nat_u64_eq_iff)

lemma adr_less_iff: "x < 2 ^ 64 \<Longrightarrow> y < 2 ^ 64 \<Longrightarrow> adr x < adr y \<longleftrightarrow> x < y"
  by (simp add: adr_def word_less_nat_alt unat_of_nat_u64)

lemma unat_adr: "x < 2 ^ 64 \<Longrightarrow> unat (adr x) = x"
  by (simp add: adr_def unat_of_nat_u64)

lemma adr_plus: "adr x + of_nat n = adr (x + n)"
  by (simp add: adr_def)

lemma adr_plus_8: "adr x + 8 = adr (x + 8)"
  by (simp add: adr_def)

lemma adr_minus_8: "8 \<le> x \<Longrightarrow> adr x - 8 = adr (x - 8)"
  by (simp add: adr_def of_nat_diff)

lemma adr_plus_minus: "8 \<le> n \<Longrightarrow> adr x + of_nat n - 8 = adr (x + n - 8)"
  by (simp add: adr_def of_nat_diff)

lemma of_nat_less_u64: "n < 2 ^ 64 \<Longrightarrow> (of_nat n :: u64) < sz \<longleftrightarrow> n < unat sz"
  by (simp add: word_less_nat_alt unat_of_nat_u64)

subsection \<open>Block lists\<close>

type_synonym block = "nat \<times> bool"

definition blen :: "block list \<Rightarrow> nat" where "blen bs = sum_list (map fst bs)"

lemma blen_simps [simp]:
  "blen [] = 0" "blen ((n, u) # bs) = n + blen bs" "blen (xs @ ys) = blen xs + blen ys"
  by (simp_all add: blen_def)

fun layout :: "heap \<Rightarrow> nat \<Rightarrow> block list \<Rightarrow> bool" where
  "layout h a [] \<longleftrightarrow> True"
| "layout h a ((n, u) # bs) \<longleftrightarrow>
     8 \<le> n \<and> 8 dvd n \<and> n < 2 ^ 63 \<and> h (adr a) = bumper n u \<and> h (adr (a + n - 8)) = bumper n u \<and>
     layout h (a + n) bs"

lemma layout_append [simp]: "layout h a (xs @ ys) \<longleftrightarrow> layout h a xs \<and> layout h (a + blen xs) ys"
  by (induction h a xs rule: layout.induct) (auto simp: add.assoc)

lemma layout_frame:
  assumes "\<And>x. a \<le> x \<Longrightarrow> x < a + blen bs \<Longrightarrow> h' (adr x) = h (adr x)" "layout h a bs"
  shows "layout h' a bs"
  using assms
proof (induction h a bs rule: layout.induct)
  case (2 h a n u bs)
  have "layout h' (a + n) bs" by (rule "2.IH") (use "2.prems" in auto)
  moreover have "h' (adr a) = h (adr a)" "h' (adr (a + n - 8)) = h (adr (a + n - 8))"
    using "2.prems" by auto
  ultimately show ?case using "2.prems"(2) by simp
qed simp

text \<open>A block that can serve a request of \<open>sz\<close> bytes, and the first such block.\<close>

definition unfit :: "nat \<Rightarrow> block \<Rightarrow> bool" where
  "unfit sz b \<longleftrightarrow> snd b \<or> fst b < sz"

definition ff_split :: "nat \<Rightarrow> block list \<Rightarrow> (block list \<times> nat \<times> block list) option" where
  "ff_split sz bs = (case dropWhile (unfit sz) bs of
     [] \<Rightarrow> None
   | b # post \<Rightarrow> Some (takeWhile (unfit sz) bs, fst b, post))"

lemma ff_split_Some:
  assumes "ff_split sz bs = Some (pre, n, post)"
  shows "bs = pre @ (n, False) # post" "sz \<le> n" "\<forall>b \<in> set pre. unfit sz b"
proof -
  obtain b where b: "dropWhile (unfit sz) bs = b # post" "pre = takeWhile (unfit sz) bs" "n = fst b"
    using assms by (auto simp: ff_split_def split: list.splits)
  then have nb: "\<not> unfit sz b" by (metis hd_dropWhile list.discI list.sel(1))
  then have "b = (n, False)" "sz \<le> n" using b(3) by (cases b; auto simp: unfit_def)+
  then show "bs = pre @ (n, False) # post" "sz \<le> n" using b(1,2) by (metis takeWhile_dropWhile_id)+
  show "\<forall>b \<in> set pre. unfit sz b" using b(2) by (auto dest: set_takeWhileD)
qed

lemma ff_split_None: "ff_split sz bs = None \<longleftrightarrow> (\<forall>b \<in> set bs. unfit sz b)"
proof (cases "dropWhile (unfit sz) bs")
  case Nil
  then have "ff_split sz bs = None" by (simp only: ff_split_def list.case)
  moreover have "\<forall>b \<in> set bs. unfit sz b" using Nil by (simp only: dropWhile_eq_Nil_conv)
  ultimately show ?thesis by simp
next
  case (Cons b post)
  then have "ff_split sz bs \<noteq> None" by (simp add: ff_split_def)
  moreover have "\<not> (\<forall>b \<in> set bs. unfit sz b)"
    using Cons dropWhile_eq_Nil_conv [of "unfit sz" bs] by simp
  ultimately show ?thesis by blast
qed

lemma find_block_walk:
  assumes "layout h a bs" "a + blen bs = e" "e < 2 ^ 64"
  shows "find_block h (adr e) sz (adr a) = Some (adr (a + blen (takeWhile (unfit (unat sz)) bs)))"
  using assms
proof (induction h a bs rule: layout.induct)
  case (1 h a)
  then show ?case by (subst find_block.simps) simp
next
  case (2 h a n u bs)
  have lt: "adr a < adr e" using "2.prems" by (subst adr_less_iff) auto
  have n: "n < 2 ^ 63" "b_size (h (adr a)) = of_nat n" "b_used (h (adr a)) = u"
    using "2.prems" by auto
  have fit: "b_used (h (adr a)) \<or> b_size (h (adr a)) < sz \<longleftrightarrow> unfit (unat sz) (n, u)"
    using n by (simp add: unfit_def of_nat_less_u64)
  show ?case
  proof (cases "unfit (unat sz) (n, u)")
    case True
    then have "find_block h (adr e) sz (adr a) = find_block h (adr e) sz (adr (a + n))"
      using lt fit n by (subst find_block.simps) (simp add: adr_plus)
    also have "\<dots> = Some (adr (a + n + blen (takeWhile (unfit (unat sz)) bs)))"
      using "2.IH" "2.prems" by simp
    finally show ?thesis using True by (simp add: add.assoc)
  next
    case False
    then show ?thesis using fit by (subst find_block.simps) simp
  qed
qed

subsection \<open>Allocation\<close>

text \<open>The size of the block that serves a request of \<open>n\<close> bytes.\<close>

definition block_for :: "nat \<Rightarrow> nat" where "block_for n = (n + 23) div 8 * 8"

lemma block_for: "8 dvd block_for n" "n + 16 \<le> block_for n" "block_for n \<le> n + 23"
  by (auto simp: block_for_def)

lemma round_nat:
  "m mod 8 = 0 \<Longrightarrow> m = (m + 7) div 8 * (8 :: nat)"
  "m mod 8 \<noteq> 0 \<Longrightarrow> m + (8 - m mod 8) = (m + 7) div 8 * (8 :: nat)"
proof -
  define q r where "q = m div 8" and "r = m mod 8"
  have m: "m = 8 * q + r" "r < 8" by (simp_all add: q_def r_def)
  have d: "(m + 7) div 8 = q + (r + 7) div 8" unfolding m(1) by (simp add: add.assoc)
  show "m mod 8 = 0 \<Longrightarrow> m = (m + 7) div 8 * 8" using d m by (simp flip: r_def)
  assume "m mod 8 \<noteq> 0"
  then have "(r + 7) div 8 = 1" using m(2) by (simp add: div_nat_eqI flip: r_def)
  then show "m + (8 - m mod 8) = (m + 7) div 8 * 8" using d m by (simp flip: r_def)
qed

lemma unat_round_up:
  assumes "unat x + 8 < 2 ^ 64"
  shows "unat (round_up x) = (unat x + 7) div 8 * 8"
proof -
  have m: "unat (x mod 8) = unat x mod 8" by (simp add: unat_mod)
  have z: "x mod 8 = 0 \<longleftrightarrow> unat x mod 8 = 0" by (metis m unat_eq_zero)
  have "x mod 8 \<le> 8" using word_mod_less_divisor [of 8 x] by simp
  then have sub: "unat (8 - x mod 8) = 8 - unat x mod 8" using unat_sub m by fastforce
  show ?thesis
  proof (cases "unat x mod 8 = 0")
    case True
    moreover from True have "unat x = (unat x + 7) div 8 * 8" by (rule round_nat(1))
    ultimately show ?thesis using z by (simp add: round_up_def)
  next
    case False
    have "unat (x + (8 - x mod 8)) = unat x + (8 - unat x mod 8)"
      using assms sub by (simp add: unat_word_ariths)
    moreover from False have "unat x + (8 - unat x mod 8) = (unat x + 7) div 8 * 8" by (rule round_nat(2))
    ultimately show ?thesis using False z by (simp add: round_up_def)
  qed
qed

lemma round_up_request:
  assumes "unat sz + 24 < 2 ^ 64"
  shows "round_up (sz + 2 * sizeof_Bumper) = adr (block_for (unat sz))"
proof -
  have "unat (sz + 2 * sizeof_Bumper) = unat sz + 16"
    using assms by (simp add: unat_word_ariths sizeof_Bumper_def)
  then have "unat (round_up (sz + 2 * sizeof_Bumper)) = block_for (unat sz)"
    using assms unat_round_up [of "sz + 2 * sizeof_Bumper"] by (simp add: block_for_def)
  then have "of_nat (unat (round_up (sz + 2 * sizeof_Bumper))) = adr (block_for (unat sz))"
    by (simp only: adr_def)
  then show ?thesis by simp
qed

text \<open>The heap after the block of \<open>n\<close> bytes at \<open>H\<close> has been split for a request.\<close>

definition split_heap :: "nat \<Rightarrow> nat \<Rightarrow> nat \<Rightarrow> heap \<Rightarrow> heap" where
  "split_heap H n k h =
     h(adr (H + n - 8) := bumper (n - k) False, adr H := bumper k True,
       adr (H + k - 8) := bumper k True, adr (H + k) := bumper (n - k) False)"

lemma set_size_bumper [simp]:
  "n < 2 ^ 63 \<Longrightarrow> k < 2 ^ 63 \<Longrightarrow> set_size (of_nat k) (bumper n u) = bumper k u"
  by (rule bumper_intro) (simp_all flip: b_size_def add: b_size_of_nat)

lemma set_used_bumper [simp]: "n < 2 ^ 63 \<Longrightarrow> set_used v (bumper n u) = bumper n v"
  by (rule bumper_intro) simp_all

lemma set_bumper_adr [simp]:
  "n < 2 ^ 63 \<Longrightarrow> k < 2 ^ 63 \<Longrightarrow> set_size (adr k) (bumper n u) = bumper k u"
  by (simp add: adr_def)

text \<open>A free block of \<open>n\<close> bytes at \<open>H\<close> that the search stops at.\<close>

definition stops_at :: "EBBMemMgrPrimSimple \<Rightarrow> heap \<Rightarrow> u64 \<Rightarrow> nat \<Rightarrow> nat \<Rightarrow> nat \<Rightarrow> bool" where
  "stops_at self h sz H n k \<longleftrightarrow>
     round_up (sz + 16) = adr k \<and> find_block h (simple_end self) (adr k) (simple_mem self) = Some (adr H) \<and>
     adr H < simple_end self \<and> h (adr H) = bumper n False \<and> h (adr (H + n - 8)) = bumper n False \<and>
     H + n < 2 ^ 64 \<and> n < 2 ^ 63 \<and> 16 \<le> k \<and> k \<le> n \<and> 8 dvd n \<and> 8 dvd k"

lemma of_nat_ne_u64: "i < 2 ^ 64 \<Longrightarrow> j < 2 ^ 64 \<Longrightarrow> i \<noteq> j \<Longrightarrow> (of_nat i :: u64) \<noteq> of_nat j"
  by (simp add: of_nat_u64_eq_iff)

lemma alloc_splits:
  assumes st: "stops_at self h sz H n k" and "k < n"
  shows "EBBMemMgrPrimSimple_alloc self sz h = Inr (EBBRC_OK, adr (H + 8), split_heap H n k h)"
proof -
  have bnd: "H + n < 2 ^ 64" "n < 2 ^ 63" "16 \<le> k" "8 dvd n" "8 dvd k"
    using st by (simp_all add: stops_at_def)
  have gap: "k + 8 \<le> n" using assms(2) bnd(4,5) by (auto elim!: dvdE)
  have ne: "adr (H + n - 8) \<noteq> adr H" "adr (H + k - 8) \<noteq> adr H" "adr (H + k - 8) \<noteq> adr (H + n - 8)"
    using bnd gap by (subst adr_eq_iff; simp)+
  have sub: "set_size (of_nat n - of_nat k) (bumper n False) = bumper (n - k) False"
    using set_size_bumper [of n "n - k" False] assms(2) bnd by (simp add: of_nat_diff)
  have ftr: "adr H + of_nat n - 8 = adr (H + n - 8)" "adr H + of_nat k - 8 = adr (H + k - 8)"
    using bnd gap by (simp_all add: adr_plus_minus)
  have k: "k < 2 ^ 63" "adr k = of_nat k" "take_bit 63 (of_nat k :: u64) = of_nat k"
    using bnd(2) gap by (simp_all add: adr_def take_bit_of_nat take_bit_nat_eq_self)
  have w: "(of_nat n :: u64) \<noteq> 8" "(of_nat k :: u64) \<noteq> 8" "(of_nat n :: u64) \<noteq> of_nat k"
    using of_nat_ne_u64 [of n 8] of_nat_ne_u64 [of k 8] of_nat_ne_u64 [of n k] bnd gap by simp_all
  show ?thesis
    using st bnd ftr k ne w gap
    by (simp add: EBBMemMgrPrimSimple_alloc_def stops_at_def Let_def sizeof_Bumper_def sub
        adr_plus_8 adr_plus split_heap_def not_le)
qed

text \<open>
  When the block fits exactly, the word after the block gets the bumper of the allocated block.
\<close>

lemma alloc_exact:
  assumes st: "stops_at self h sz H n n"
  shows "EBBMemMgrPrimSimple_alloc self sz h = Inr (EBBRC_OK, adr (H + 8),
    h(adr H := bumper n True, adr (H + n - 8) := bumper n True, adr (H + n) := bumper n True))"
proof -
  have bnd: "H + n < 2 ^ 64" "n < 2 ^ 63" "16 \<le> n"
    using st by (simp_all add: stops_at_def)
  have ne: "adr (H + n - 8) \<noteq> adr H" using bnd by (subst adr_eq_iff; simp)
  have sub: "of_nat n - adr n = 0" by (simp add: adr_def)
  have ftr: "adr H + of_nat n - 8 = adr (H + n - 8)" "adr (H + n - 8) + 8 = adr (H + n)"
    using bnd by (simp_all add: adr_plus_minus adr_plus_8)
  have z: "set_size 0 (bumper n False) = bumper 0 False" using set_size_bumper [of n 0 False] bnd by simp
  have tb: "take_bit 63 (adr n) = of_nat n"
    using bnd by (simp add: adr_def take_bit_of_nat take_bit_nat_eq_self)
  have "unat (of_nat n :: u64) = n" using bnd by (intro unat_of_nat_u64) simp
  then have n8: "(of_nat n :: u64) \<noteq> 8" using bnd by auto
  show ?thesis
    using st ne bnd ftr
    by (simp add: EBBMemMgrPrimSimple_alloc_def stops_at_def Let_def sizeof_Bumper_def sub z tb n8
        adr_plus_8 adr_plus not_le)
qed

text \<open>The heap of a manager: the blocks \<open>bs\<close> fill the memory from \<open>mem\<close> to \<open>end\<close>.\<close>

definition heap_ok :: "EBBMemMgrPrimSimple \<Rightarrow> heap \<Rightarrow> nat \<Rightarrow> block list \<Rightarrow> bool" where
  "heap_ok self h a bs \<longleftrightarrow> simple_mem self = adr a \<and> simple_end self = adr (a + blen bs) \<and>
     a + blen bs < 2 ^ 64 \<and> layout h a bs"

lemma stops_at_first_fit:
  assumes "heap_ok self h a bs" "ff_split (block_for (unat sz)) bs = Some (pre, n, post)"
    "unat sz + 24 < 2 ^ 64"
  shows "stops_at self h sz (a + blen pre) n (block_for (unat sz))"
proof -
  let ?k = "block_for (unat sz)"
  note ff = ff_split_Some [OF assms(2)]
  have lay: "layout h (a + blen pre) ((n, False) # post)" "a + blen pre + n + blen post < 2 ^ 64"
    using assms(1) ff(1) by (simp_all add: heap_ok_def add.assoc)
  have k: "?k < 2 ^ 64" "unat (adr ?k) = ?k"
    using lay(2) ff(2) by (simp_all add: adr_def unat_of_nat_u64)
  have "takeWhile (unfit ?k) bs = pre"
    using ff(1,2,3) by (simp add: takeWhile_append unfit_def)
  then have "find_block h (simple_end self) (adr ?k) (simple_mem self) = Some (adr (a + blen pre))"
    using find_block_walk [of h a bs "a + blen bs" "adr ?k"] assms(1) k(2) by (simp add: heap_ok_def)
  moreover have "adr (a + blen pre) < simple_end self"
    using assms(1) ff(1) lay by (auto simp: heap_ok_def adr_less_iff)
  moreover have "round_up (sz + 16) = adr ?k"
    using round_up_request [OF assms(3)] by (simp add: sizeof_Bumper_def)
  ultimately show ?thesis
    using lay ff(2) block_for [of "unat sz"] by (simp add: stops_at_def)
qed

lemma layout_split_heap:
  assumes "layout h H [(n, False)]" "H + n < 2 ^ 64" "16 \<le> k" "k < n" "8 dvd k"
  shows "layout (split_heap H n k h) H [(k, True), (n - k, False)]"
proof -
  have n: "8 dvd n" "n < 2 ^ 63" using assms(1) by simp_all
  have gap: "k + 8 \<le> n" using assms(4,5) n(1) by (auto elim!: dvdE)
  have dvd: "8 dvd n - k" using n(1) assms(5) by (rule dvd_diff_nat)
  have end_: "H + k + (n - k) - 8 = H + n - 8" using gap by simp
  have ne: "adr (H + k) \<noteq> adr H" "adr (H + k) \<noteq> adr (H + k - 8)" "adr (H + k - 8) \<noteq> adr H"
    "adr (H + n - 8) \<noteq> adr H" "adr (H + n - 8) \<noteq> adr (H + k - 8)"
    using assms(2,3) gap by (subst adr_eq_iff; simp)+
  moreover have "8 \<le> n - k" using gap by simp
  moreover have "n - k < 2 ^ 63" using n(2) by (rule less_imp_diff_less)
  ultimately show ?thesis
    using n dvd gap assms(3,5) end_ by (simp add: split_heap_def)
qed

lemma split_heap_frame:
  assumes "H + n < 2 ^ 64" "16 \<le> k" "k + 8 \<le> n" "x < 2 ^ 64" "x < H \<or> H + n \<le> x"
  shows "split_heap H n k h (adr x) = h (adr x)"
proof -
  have "adr x \<noteq> adr H" "adr x \<noteq> adr (H + n - 8)" "adr x \<noteq> adr (H + k - 8)" "adr x \<noteq> adr (H + k)"
    using assms by (subst adr_eq_iff; auto)+
  then show ?thesis by (simp add: split_heap_def)
qed

lemma alloc_refines_split:
  assumes "heap_ok self h a bs" "unat sz + 24 < 2 ^ 64"
    and "ff_split (block_for (unat sz)) bs = Some (pre, n, post)" "block_for (unat sz) \<noteq> n"
  defines "k \<equiv> block_for (unat sz)" and "H \<equiv> a + blen pre"
  shows "\<exists>h'. EBBMemMgrPrimSimple_alloc self sz h = Inr (EBBRC_OK, adr (H + 8), h') \<and>
    heap_ok self h' a (pre @ (k, True) # (n - k, False) # post) \<and>
    (\<forall>x < 2 ^ 64. x < H \<or> H + n \<le> x \<longrightarrow> h' (adr x) = h (adr x))"
proof -
  note ff = ff_split_Some [OF assms(3)]
  have st: "stops_at self h sz H n k"
    using stops_at_first_fit [OF assms(1,3,2)] by (simp add: H_def k_def)
  then have bnd: "16 \<le> k" "k \<le> n" "8 dvd n" "8 dvd k" "H + n < 2 ^ 64" by (simp_all add: stops_at_def)
  have lt: "k < n" using bnd(2) assms(4) by (simp add: k_def)
  have gap: "k + 8 \<le> n" using lt bnd(3,4) by (auto elim!: dvdE)
  have tot: "H + n + blen post < 2 ^ 64" "a + blen bs = H + n + blen post"
    using assms(1) ff(1) by (simp_all add: heap_ok_def H_def)
  let ?h = "split_heap H n k h"
  have frame: "?h (adr x) = h (adr x)" if "x < 2 ^ 64" "x < H \<or> H + n \<le> x" for x
    using split_heap_frame bnd(1,5) gap that by blast
  have lay: "layout h a pre" "layout h H [(n, False)]" "layout h (H + n) post"
    using assms(1) ff(1) by (simp_all add: heap_ok_def H_def)
  have "layout ?h a pre"
    by (rule layout_frame [OF _ lay(1)], rule frame) (use tot H_def in auto)
  moreover have "layout ?h (H + n) post"
    by (rule layout_frame [OF _ lay(3)], rule frame) (use tot in auto)
  moreover have "layout ?h H [(k, True), (n - k, False)]"
    by (rule layout_split_heap [OF lay(2) bnd(5,1) lt bnd(4)])
  ultimately have "layout ?h a (pre @ (k, True) # (n - k, False) # post)"
    using gap by (simp add: H_def add.assoc)
  moreover have "blen (pre @ (k, True) # (n - k, False) # post) = blen bs"
    using ff(1) gap by simp
  ultimately have "heap_ok self ?h a (pre @ (k, True) # (n - k, False) # post)"
    using assms(1) by (simp add: heap_ok_def)
  with alloc_splits [OF st lt] frame show ?thesis by blast
qed

lemma alloc_out_of_memory:
  assumes "heap_ok self h a bs" "unat sz + 24 < 2 ^ 64" "ff_split (block_for (unat sz)) bs = None"
  shows "EBBMemMgrPrimSimple_alloc self sz h = Inr (EBBRC_OUTOFRESOURCES, 0, h)"
proof -
  let ?k = "block_for (unat sz)"
  have k: "?k < 2 ^ 64" using block_for(3) [of "unat sz"] assms(2) by simp
  then have u: "unat (adr ?k) = ?k" by (simp add: adr_def unat_of_nat_u64)
  have all: "takeWhile (unfit ?k) bs = bs" using assms(3) by (simp add: ff_split_None takeWhile_eq_all_conv)
  have "find_block h (simple_end self) (adr ?k) (simple_mem self) = Some (simple_end self)"
    using find_block_walk [of h a bs "a + blen bs" "adr ?k"] assms(1) u by (simp add: heap_ok_def all)
  then show ?thesis
    by (simp only: EBBMemMgrPrimSimple_alloc_def round_up_request [OF assms(2)] Let_def) simp
qed

text \<open>
  C3: \<open>EBBMemMgrPrimSimple_alloc\<close> refines first fit. On a well-formed heap and a request whose
  rounding does not wrap: if no free block is large enough it fails with
  \<open>EBBRC_OUTOFRESOURCES\<close>, stores null and leaves the heap unchanged; if the first free block
  that is large enough is larger than needed, it returns the address after that block's header,
  the heap is again well formed with the block split into an allocated part and a free rest, and
  nothing outside that block changes.
\<close>

theorem simple_alloc_refines_first_fit:
  assumes "heap_ok self h a bs" "unat sz + 24 < 2 ^ 64"
  shows "case ff_split (block_for (unat sz)) bs of
      None \<Rightarrow> EBBMemMgrPrimSimple_alloc self sz h = Inr (EBBRC_OUTOFRESOURCES, 0, h)
    | Some (pre, n, post) \<Rightarrow> block_for (unat sz) \<noteq> n \<longrightarrow>
        (\<exists>h'. EBBMemMgrPrimSimple_alloc self sz h = Inr (EBBRC_OK, adr (a + blen pre + 8), h') \<and>
          heap_ok self h' a (pre @ (block_for (unat sz), True) # (n - block_for (unat sz), False) # post) \<and>
          (\<forall>x < 2 ^ 64. x < a + blen pre \<or> a + blen pre + n \<le> x \<longrightarrow> h' (adr x) = h (adr x)))"
proof (cases "ff_split (block_for (unat sz)) bs")
  case None
  then show ?thesis using alloc_out_of_memory [OF assms] by simp
next
  case (Some r)
  then show ?thesis using alloc_refines_split [OF assms] by (cases r) auto
qed

text \<open>
  C34: on an exact fit \<open>alloc\<close> destroys the next block: it writes the allocated block's bumper
  over the header of the block that follows, so the heap is no longer the allocated block list
  unless the next block happens to be an allocated block of the same size.
\<close>

theorem simple_alloc_exact_fit_corrupts:
  assumes "heap_ok self h a bs" "unat sz + 24 < 2 ^ 64"
    and "ff_split (block_for (unat sz)) bs = Some (pre, block_for (unat sz), (m, u) # post)"
    and "(m, u) \<noteq> (block_for (unat sz), True)"
  shows "\<exists>h'. EBBMemMgrPrimSimple_alloc self sz h = Inr (EBBRC_OK, adr (a + blen pre + 8), h') \<and>
    h' (adr (a + blen pre + block_for (unat sz))) = bumper (block_for (unat sz)) True \<and>
    \<not> heap_ok self h' a (pre @ (block_for (unat sz), True) # (m, u) # post)"
proof -
  let ?k = "block_for (unat sz)" and ?H = "a + blen pre"
  have st: "stops_at self h sz ?H ?k ?k" by (rule stops_at_first_fit [OF assms(1,3,2)])
  let ?h = "h(adr ?H := bumper ?k True, adr (?H + ?k - 8) := bumper ?k True, adr (?H + ?k) := bumper ?k True)"
  have k: "?k < 2 ^ 63" using st by (simp add: stops_at_def)
  have m: "m < 2 ^ 63" using assms(1) ff_split_Some(1) [OF assms(3)] by (simp add: heap_ok_def)
  have "bumper ?k True \<noteq> bumper m u"
  proof
    assume eq: "bumper ?k True = bumper m u"
    have "b_size (bumper ?k True) = of_nat ?k" "b_size (bumper m u) = of_nat m" using k m by simp_all
    then have "?k = m" using eq k m of_nat_u64_eq_iff [of ?k m] by simp
    moreover have "u" using eq b_bumper(2) by metis
    ultimately show False using assms(4) by simp
  qed
  then have "\<not> layout ?h (?H + ?k) ((m, u) # post)" by simp
  then have "\<not> heap_ok self ?h a (pre @ (?k, True) # (m, u) # post)"
    by (auto simp: heap_ok_def add.assoc)
  with alloc_exact [OF st] show ?thesis by (intro exI [of _ ?h]) simp
qed

end
