(* ===== verification/MemMgrFree.thy ===== *)
theory MemMgrFree
  imports MemMgrLayout
begin

text \<open>
  Freeing in the first-fit manager merges the block with its free neighbours; the heap set up by
  \<open>init_rep\<close> is well formed; allocating and freeing again restores the block list.
\<close>

subsection \<open>Freeing\<close>

lemma layout_last_footer:
  "layout h a (pre @ [(l, lu)]) \<Longrightarrow> h (adr (a + blen pre + l - 8)) = bumper l lu"
  by (simp add: add.assoc)

lemma layout_mid:
  "layout h a (xs @ b # ys) \<longleftrightarrow> layout h a xs \<and> layout h (a + blen xs) [b] \<and> layout h (a + blen xs + fst b) ys"
  by (cases b) auto

lemma adr_minus: "n \<le> x \<Longrightarrow> adr x - of_nat n = adr (x - n)"
  by (simp add: adr_def of_nat_diff)

text \<open>
  What \<open>free\<close> computes for the block of \<open>n\<close> bytes at \<open>H\<close> with the left neighbour
  \<open>(l, lu)\<close> and the right neighbour \<open>(r, ru)\<close>.
\<close>

lemma free_computes:
  assumes left: "h (adr (H - 8)) = bumper l lu" "\<not> lu \<Longrightarrow> h (adr (H - l)) = bumper l lu"
    and blk: "h (adr H) = bumper n u"
    and right: "h (adr (H + n)) = bumper r ru" "\<not> ru \<Longrightarrow> h (adr (H + n + r - 8)) = bumper r ru"
    and b: "8 \<le> l" "l \<le> H" "16 \<le> n" "8 \<le> r" "l + n + r < 2 ^ 63" "H + n + r < 2 ^ 64"
    and sz: "round_up sz = adr (n - 16)"
  defines "L \<equiv> if lu then 0 else l" and "R \<equiv> if ru then 0 else r"
  shows "EBBMemMgrPrimSimple_free self sz (adr (H + 8)) h =
    Inr (EBBRC_OK, h(adr (H - L) := bumper (L + n + R) False, adr (H + n + R - 8) := bumper (L + n + R) False))"
proof -
  have lt: "l < 2 ^ 63" "n < 2 ^ 63" "r < 2 ^ 63" using b(5) by simp_all
  have a1: "adr (H + 8) - 8 = adr H" by (simp add: adr_def)
  have a2: "adr H - 8 = adr (H - 8)" using b by (simp add: adr_minus_8)
  have a3: "adr (H - 8) - of_nat l + 8 = adr (H - l)"
    using b by (simp add: adr_def of_nat_diff)
  have a4: "adr (H + n - 8) + 8 = adr (H + n)" using b by (simp add: adr_plus_8)
  have a5: "adr (H + n) + of_nat r - 8 = adr (H + n + r - 8)" using b by (simp add: adr_plus_minus)
  have a6: "adr H + of_nat n - 8 = adr (H + n - 8)" using b by (simp add: adr_plus_minus)
  have szeq: "adr (n - 16) = of_nat n - 2 * 8" using b by (simp add: adr_def of_nat_diff)
  have bs: "set_used False (set_size (of_nat x) raw) = bumper x False" if "x < 2 ^ 63" for x raw
    using that by (intro bumper_intro) (simp_all flip: b_size_def add: b_size_of_nat)
  have sums: "set_used False (set_size (of_nat n + of_nat l + of_nat r) raw) = bumper (l + n + r) False"
    "set_used False (set_size (of_nat n + of_nat l) raw) = bumper (l + n) False"
    "set_used False (set_size (of_nat n + of_nat r) raw) = bumper (n + r) False"
    "set_used False (set_size (of_nat n) raw) = bumper n False" for raw
    using bs [of "l + n + r"] bs [of "l + n"] bs [of "n + r"] bs [of n] b(5) by (simp_all add: ac_simps)
  show ?thesis
    by (cases lu; cases ru; simp only: EBBMemMgrPrimSimple_free_def Let_def sizeof_Bumper_def a1 a2 blk
        b_bumper lt left right a3 a4 a5 a6 sz szeq lrt_assert_simps rbind_simps if_True if_False
        not_True_eq_False not_False_eq_True prod.case fun_upd_same fun_upd_upd sums L_def R_def
        add_0 add_0_right diff_zero simp_thms)
qed

text \<open>The block list after the block of \<open>n\<close> bytes between \<open>pre\<close> and \<open>post\<close> is freed.\<close>

definition free_left :: "block list \<Rightarrow> nat" where
  "free_left pre = (if snd (last pre) then 0 else fst (last pre))"

definition free_right :: "block list \<Rightarrow> nat" where
  "free_right post = (if snd (hd post) then 0 else fst (hd post))"

definition coalesce :: "block list \<Rightarrow> nat \<Rightarrow> block list \<Rightarrow> block list" where
  "coalesce pre n post =
     (if snd (last pre) then pre else butlast pre) @
     (free_left pre + n + free_right post, False) # (if snd (hd post) then post else tl post)"

lemma layout_blocks: "layout h a bs \<Longrightarrow> b \<in> set bs \<Longrightarrow> 8 \<le> fst b \<and> 8 dvd fst b \<and> fst b < 2 ^ 63"
  by (induction h a bs rule: layout.induct) auto

lemma keep_left:
  assumes "pre \<noteq> []"
  shows "blen (if snd (last pre) then pre else butlast pre) + free_left pre = blen pre"
    "layout h a pre \<Longrightarrow> layout h a (if snd (last pre) then pre else butlast pre)"
proof -
  obtain pre' l lu where "pre = pre' @ [(l, lu)]" using assms by (metis rev_exhaust surj_pair)
  then show "blen (if snd (last pre) then pre else butlast pre) + free_left pre = blen pre"
    "layout h a pre \<Longrightarrow> layout h a (if snd (last pre) then pre else butlast pre)"
    by (simp_all add: free_left_def)
qed

lemma keep_right:
  assumes "post \<noteq> []"
  shows "blen (if snd (hd post) then post else tl post) + free_right post = blen post"
    "layout h a post \<Longrightarrow> layout h (a + free_right post) (if snd (hd post) then post else tl post)"
  using assms by (cases post; auto simp: free_right_def)+

lemma free_refines_coalesce:
  assumes ok: "heap_ok self h a (pre @ (n, True) # post)" and ne: "pre \<noteq> []" "post \<noteq> []"
    and n: "16 \<le> n" "round_up sz = adr (n - 16)"
    and total: "blen pre + n + blen post < 2 ^ 63"
  shows "\<exists>h'. EBBMemMgrPrimSimple_free self sz (adr (a + blen pre + 8)) h = Inr (EBBRC_OK, h') \<and>
    heap_ok self h' a (coalesce pre n post) \<and>
    (\<forall>x < 2 ^ 64. x \<noteq> a + blen pre - free_left pre \<longrightarrow> x \<noteq> a + blen pre + n + free_right post - 8 \<longrightarrow>
       h' (adr x) = h (adr x))"
proof -
  obtain pre' l lu where pre: "pre = pre' @ [(l, lu)]" using ne(1) by (metis rev_exhaust surj_pair)
  obtain r ru post' where post: "post = (r, ru) # post'" using ne(2) by (cases post) auto
  let ?H = "a + blen pre" and ?L = "free_left pre" and ?R = "free_right post"
  let ?N = "?L + n + ?R"
  have lay: "layout h a pre" "layout h ?H [(n, True)]" "layout h (?H + n) post"
    using ok by (simp_all add: heap_ok_def)
  have b: "8 \<le> l" "8 dvd l" "8 \<le> r" "8 dvd r" "8 dvd n" "8 \<le> n"
    using lay pre post by simp_all
  have tot: "?H + n + blen post < 2 ^ 64" using ok by (simp add: heap_ok_def add.assoc)
  have LR: "?L = (if lu then 0 else l)" "?R = (if ru then 0 else r)"
    by (simp_all add: free_left_def free_right_def pre post)
  have LRb: "8 dvd ?L" "8 dvd ?R" "?L \<le> blen pre" "?R \<le> blen post" using b LR by (auto simp: pre post)
  then have N: "8 dvd ?N" "?N < 2 ^ 63" "8 \<le> ?N" using b total n(1) by simp_all
  let ?h = "h(adr (?H - ?L) := bumper ?N False, adr (?H + n + ?R - 8) := bumper ?N False)"
  have run: "EBBMemMgrPrimSimple_free self sz (adr (?H + 8)) h = Inr (EBBRC_OK, ?h)"
    unfolding LR
    by (rule free_computes) (use lay pre post b n total tot in \<open>auto simp: add.assoc\<close>)
  have frame: "?h (adr x) = h (adr x)" if "x < 2 ^ 64" "x \<noteq> ?H - ?L" "x \<noteq> ?H + n + ?R - 8" for x
  proof -
    have "?H - ?L < 2 ^ 64" "?H + n + ?R - 8 < 2 ^ 64" using tot LRb by linarith+
    then have "adr x \<noteq> adr (?H - ?L)" "adr x \<noteq> adr (?H + n + ?R - 8)"
      using that by (simp_all only: adr_eq_iff not_False_eq_True)
    then show ?thesis by simp
  qed
  let ?pre = "if snd (last pre) then pre else butlast pre" and ?post = "if snd (hd post) then post else tl post"
  have pl: "a + blen ?pre = ?H - ?L" "layout h a ?pre" "a + blen ?pre + ?L = ?H"
    using keep_left(1) [OF ne(1)] keep_left(2) [OF ne(1) lay(1)] LRb(3) by linarith+
  have ql: "layout h (?H + n + ?R) ?post" "blen ?post + ?R = blen post"
    using keep_right [OF ne(2)] lay(3) by blast+
  have "layout ?h a ?pre"
    by (rule layout_frame [OF _ pl(2)], rule frame) (use tot pl(1) n(1) in auto)
  moreover have "layout ?h (?H - ?L) [(?N, False)]"
  proof -
    have e: "?H - ?L + ?N - 8 = ?H + n + ?R - 8" using LRb(3) by linarith
    have "?H - ?L < 2 ^ 64" "?H + n + ?R - 8 < 2 ^ 64" "?H - ?L \<noteq> ?H + n + ?R - 8"
      using tot LRb n(1) by linarith+
    then have "adr (?H - ?L) \<noteq> adr (?H + n + ?R - 8)" by (simp add: adr_eq_iff)
    then show ?thesis using N by (simp add: e)
  qed
  moreover have "layout ?h (?H + n + ?R) ?post"
    by (rule layout_frame [OF _ ql(1)], rule frame) (use tot ql(2) n(1) in auto)
  moreover have "?H - ?L + ?N = ?H + n + ?R" using LRb(3) by linarith
  ultimately have "layout ?h a (coalesce pre n post)"
    unfolding coalesce_def layout_mid pl(1) fst_conv by (simp only: simp_thms)
  moreover have "blen (coalesce pre n post) = blen (pre @ (n, True) # post)"
    using keep_left(1) [OF ne(1)] ql(2) by (simp add: coalesce_def)
  ultimately have "heap_ok self ?h a (coalesce pre n post)" using ok by (simp add: heap_ok_def)
  with run frame show ?thesis by blast
qed

subsection \<open>The invariant of the manager\<close>

text \<open>
  The two sentinels surround the managed blocks, every allocated block has room for its bumpers,
  no two free blocks are neighbours, and the sizes stay below the limit of the bumper.
\<close>

fun no_adjacent_free :: "block list \<Rightarrow> bool" where
  "no_adjacent_free ((n, u) # (m, v) # bs) \<longleftrightarrow> (u \<or> v) \<and> no_adjacent_free ((m, v) # bs)"
| "no_adjacent_free bs \<longleftrightarrow> True"

definition blocks_ok :: "block list \<Rightarrow> bool" where
  "blocks_ok bs \<longleftrightarrow> (\<exists>mid. bs = (16, True) # mid @ [(16, True)]) \<and>
     (\<forall>b \<in> set bs. snd b \<longrightarrow> 16 \<le> fst b) \<and> no_adjacent_free bs \<and> blen bs < 2 ^ 63"

lemma no_adjacent_free_append:
  "no_adjacent_free (xs @ ys) \<longleftrightarrow> no_adjacent_free xs \<and> no_adjacent_free ys \<and>
     (xs \<noteq> [] \<longrightarrow> ys \<noteq> [] \<longrightarrow> snd (last xs) \<or> snd (hd ys))"
proof (induction xs)
  case (Cons b xs)
  have one: "no_adjacent_free (b # zs) \<longleftrightarrow> (zs \<noteq> [] \<longrightarrow> snd b \<or> snd (hd zs)) \<and> no_adjacent_free zs" for zs
    by (cases b; cases zs) auto
  show ?case using Cons by (cases xs) (auto simp: one)
qed simp

text \<open>
  C4: \<open>EBBMemMgrPrimSimple_free\<close> of a block of a well-formed heap, called with the size it was
  allocated with, refines \<open>coalesce\<close>: the block and its free neighbours become one free block,
  only the two bumpers of the new block are written, and afterwards again no two free blocks are
  neighbours. Called with a size that rounds to anything else it fails its assertion.
\<close>

theorem simple_free_refines_coalesce:
  assumes ok: "heap_ok self h a (pre @ (n, True) # post)" "blocks_ok (pre @ (n, True) # post)"
    and ne: "pre \<noteq> []" "post \<noteq> []"
  shows "if round_up sz = adr (n - 16)
    then \<exists>h'. EBBMemMgrPrimSimple_free self sz (adr (a + blen pre + 8)) h = Inr (EBBRC_OK, h') \<and>
      heap_ok self h' a (coalesce pre n post) \<and> no_adjacent_free (coalesce pre n post) \<and>
      (\<forall>x < 2 ^ 64. x \<noteq> a + blen pre - free_left pre \<longrightarrow> x \<noteq> a + blen pre + n + free_right post - 8 \<longrightarrow>
         h' (adr x) = h (adr x))
    else EBBMemMgrPrimSimple_free self sz (adr (a + blen pre + 8)) h = Inl AssertFail"
proof (cases "round_up sz = adr (n - 16)")
  case True
  have n: "16 \<le> n" "blen pre + n + blen post < 2 ^ 63" using ok(2) by (auto simp: blocks_ok_def)
  have nf: "no_adjacent_free pre" "no_adjacent_free post"
    using ok(2) unfolding blocks_ok_def no_adjacent_free_append by (auto elim: no_adjacent_free.elims)
  have left: "no_adjacent_free (butlast pre)" "butlast pre \<noteq> [] \<Longrightarrow> \<not> snd (last pre) \<Longrightarrow> snd (last (butlast pre))"
    using nf(1) ne(1) no_adjacent_free_append [of "butlast pre" "[last pre]"] by auto
  have right: "no_adjacent_free (tl post)" "tl post \<noteq> [] \<Longrightarrow> \<not> snd (hd post) \<Longrightarrow> snd (hd (tl post))"
    using nf(2) ne(2) no_adjacent_free_append [of "[hd post]" "tl post"] by auto
  have one: "no_adjacent_free ((x, False) # ys) \<longleftrightarrow> no_adjacent_free ys \<and> (ys \<noteq> [] \<longrightarrow> snd (hd ys))" for x ys
    by (cases ys) auto
  have "no_adjacent_free (coalesce pre n post)"
    using nf left right by (auto simp: coalesce_def no_adjacent_free_append one)
  with free_refines_coalesce [OF ok(1) ne n(1) True n(2)] True show ?thesis by auto
next
  case False
  have n: "16 \<le> n" "n < 2 ^ 63" using ok by (auto simp: blocks_ok_def)
  have "h (adr (a + blen pre)) = bumper n True" using ok(1) by (simp add: heap_ok_def)
  moreover have "adr (n - 16) = of_nat n - 16" using n by (simp add: adr_def of_nat_diff)
  moreover have "adr (a + blen pre + 8) - 8 = adr (a + blen pre)" by (simp add: adr_def)
  ultimately show ?thesis
    using False n by (simp add: EBBMemMgrPrimSimple_free_def sizeof_Bumper_def Let_def)
qed

lemma round_up_freed:
  assumes "unat sz + 24 < 2 ^ 64"
  shows "round_up sz = adr (block_for (unat sz) - 16)"
proof -
  have "unat sz + 23 = unat sz + 7 + 2 * 8" by simp
  then have "(unat sz + 23) div 8 = (unat sz + 7) div 8 + 2"
    by (simp only: div_mult_self1 zero_neq_numeral not_False_eq_True)
  then have "block_for (unat sz) - 16 = (unat sz + 7) div 8 * 8" by (simp add: block_for_def)
  then have "of_nat (unat (round_up sz)) = adr (block_for (unat sz) - 16)"
    using unat_round_up [of sz] assms by (simp only: adr_def)
  then show ?thesis by simp
qed

lemma split_neighbours:
  assumes "blocks_ok (pre @ (n, False) # post)"
  shows "pre \<noteq> []" "post \<noteq> []" "snd (last pre)" "snd (hd post)"
proof -
  obtain mid where mid: "pre @ (n, False) # post = ((16, True) # mid) @ [(16, True)]"
    using assms by (auto simp: blocks_ok_def)
  then show pre: "pre \<noteq> []" by (cases pre) auto
  from mid show post: "post \<noteq> []" by (auto simp: append_eq_append_conv2 Cons_eq_append_conv)
  have naf: "no_adjacent_free pre \<and> no_adjacent_free ((n, False) # post) \<and> snd (last pre)"
    using assms pre by (auto simp: blocks_ok_def no_adjacent_free_append)
  then show "snd (last pre)" by blast
  show "snd (hd post)" using naf post by (cases post) auto
qed


subsection \<open>A fresh manager\<close>

text \<open>
  \<open>init_rep\<close> on a region that is aligned, lies below the end of the address space and
  holds the manager and the two sentinels with some room, builds a well-formed heap with one
  free block that starts after the manager's own fields.
\<close>

theorem simple_init_rep_correct:
  assumes "8 dvd s" "8 dvd e" "s + 32 + 40 \<le> e" "e < 2 ^ 64" "e - s < 2 ^ 63"
  shows "\<exists>self h'. simple_init_rep (adr s) root (adr e) h = Inr (self, h') \<and>
    heap_ok self h' (s + 32) [(16, True), (e - s - 64, False), (16, True)] \<and>
    blocks_ok [(16, True), (e - s - 64, False), (16, True)]"
proof -
  let ?m = "s + 32" and ?n = "e - s - 64"
  have m: "adr s + sizeof_EBBMemMgrPrimSimple = adr ?m"
    by (simp add: adr_def sizeof_EBBMemMgrPrimSimple_def)
  have "unat (adr ?m) = ?m" unfolding adr_def using assms by (intro unat_of_nat_u64) simp
  then have "unat (adr ?m mod 8) = 0"
    using assms(1) by (simp only: unat_mod) auto
  then have al: "adr ?m mod 8 = 0" by (simp add: unat_eq_zero)
  have e1: "adr e - 2 * sizeof_Bumper = adr (e - 16)"
    using assms(3) by (simp add: adr_def sizeof_Bumper_def of_nat_diff)
  have e2: "adr (e - 16) + sizeof_Bumper = adr (e - 8)"
    using assms(3) by (simp add: sizeof_Bumper_def adr_plus_8)
  have e3: "adr ?m + sizeof_Bumper = adr (?m + 8)" "adr (?m + 8) + sizeof_Bumper = adr (?m + 16)"
    by (simp_all add: sizeof_Bumper_def adr_plus_8)
  have n: "adr (e - 16) - adr (?m + 16) = of_nat ?n"
    using assms(3) by (simp add: adr_def of_nat_diff)
  have nlt: "?n < 2 ^ 63" "8 dvd ?n" using assms by (auto simp: dvd_diff_nat)
  have tb: "take_bit 63 (of_nat ?n :: u64) = of_nat ?n"
    using nlt by (simp add: take_bit_of_nat take_bit_nat_eq_self)
  have f: "adr (?m + 16) + of_nat ?n - sizeof_Bumper = adr (e - 24)"
    using assms(3) by (simp add: adr_def sizeof_Bumper_def of_nat_diff)
  have max: "of_nat ?n \<le> MAX_BLOCK_SIZE"
  proof -
    have "unat (of_nat ?n :: u64) = ?n" using nlt(1) by (intro unat_of_nat_u64) simp
    moreover have "MAX_BLOCK_SIZE = 9223372036854775807"
      by (simp add: MAX_BLOCK_SIZE_def mask_eq_exp_minus_1)
    then have "unat MAX_BLOCK_SIZE = unat (9223372036854775807 :: u64)" by (simp only:)
    then have "unat MAX_BLOCK_SIZE = 2 ^ 63 - 1" by simp
    ultimately show ?thesis using nlt(1) by (simp add: word_le_nat_alt)
  qed
  have b: "set_size (of_nat x) (set_used u raw) = bumper x u" if "x < 2 ^ 63" for x u raw
    using that by (intro bumper_intro) (simp_all flip: b_size_def add: b_size_of_nat)
  have b16: "set_size (2 * sizeof_Bumper) (set_used True raw) = bumper 16 True" for raw
    using b [of 16] by (simp add: sizeof_Bumper_def)
  let ?B = "bumper 16 True" and ?F = "bumper ?n False"
  let ?h = "h(adr ?m := ?B, adr (?m + 8) := ?B, adr (e - 16) := ?B, adr (e - 8) := ?B,
    adr (?m + 16) := ?F, adr (e - 24) := ?F)"
  let ?self = "\<lparr>simple_myRoot = root, simple_mem = adr ?m, simple_end = adr e\<rparr>"
  have run: "simple_init_rep (adr s) root (adr e) h = Inr (?self, ?h)"
    by (simp only: simple_init_rep_def Let_def m al e1 e2 e3 n fun_upd_same fun_upd_upd b16 b [OF nlt(1)]
        b_bumper(1) [OF nlt(1)] f max lrt_assert_simps rbind_simps if_False if_True simp_thms)
  have ne: "adr (e - 24) \<noteq> adr ?m" "adr (e - 24) \<noteq> adr (?m + 8)" "adr (e - 24) \<noteq> adr (e - 16)"
    "adr (e - 24) \<noteq> adr (e - 8)" "adr (?m + 16) \<noteq> adr ?m" "adr (?m + 16) \<noteq> adr (?m + 8)"
    "adr (?m + 16) \<noteq> adr (e - 16)" "adr (?m + 16) \<noteq> adr (e - 8)" "adr (e - 16) \<noteq> adr ?m"
    "adr (e - 16) \<noteq> adr (?m + 8)" "adr (e - 8) \<noteq> adr ?m" "adr (e - 8) \<noteq> adr (?m + 8)"
    "adr (e - 8) \<noteq> adr (e - 16)" "adr (?m + 8) \<noteq> adr ?m"
    using assms by (subst adr_eq_iff; simp)+
  have "?m + 16 + ?n = e - 16" "?m + 16 + ?n - 8 = e - 24" "e - 16 + 16 - 8 = e - 8" "?m + 16 - 8 = ?m + 8"
    using assms(3) by simp_all
  then have "layout ?h ?m [(16, True), (?n, False), (16, True)]"
    using nlt assms(3) ne by (simp only: layout.simps fun_upd_apply) simp
  moreover have "?m + blen [(16, True), (?n, False), (16, True)] = e" using assms(3) by simp
  ultimately have "heap_ok ?self ?h ?m [(16, True), (?n, False), (16, True)]"
    using assms(4) by (simp only: heap_ok_def) simp
  moreover have "blocks_ok [(16, True), (?n, False), (16, True)]"
    using assms(3,5) by (auto simp: blocks_ok_def)
  ultimately show ?thesis using run by blast
qed

end
