(* ===== verification/MemMgr.thy ===== *)
theory MemMgr
  imports MemMgrFree
begin

text \<open>
  The bump allocator \<open>l0/MemMgrPrimStupid.c\<close> and the contract that the clients of a memory
  manager rely on (\<open>l0/MemMgr.h\<close>), the locale \<open>mem_mgr\<close>, which both managers provide.
\<close>

subsection \<open>The bump allocator\<close>

record EBBMemMgrPrimStupid =
  stupid_myRoot :: u64
  stupid_mem :: u64
  stupid_len :: u64

definition sizeof_EBBMemMgrPrimStupid :: u64 where "sizeof_EBBMemMgrPrimStupid = 32"

definition stupid_init_rep :: "u64 \<Rightarrow> u64 \<Rightarrow> u64 \<Rightarrow> ebbrc \<times> EBBMemMgrPrimStupid" where
  "stupid_init_rep self rootRef endp =
     (let m = self + sizeof_EBBMemMgrPrimStupid
      in (EBBRC_OK, \<lparr>stupid_myRoot = rootRef, stupid_mem = m, stupid_len = endp - m\<rparr>))"

definition EBBMemMgrPrimStupid_alloc ::
    "EBBMemMgrPrimStupid \<Rightarrow> u64 \<Rightarrow> ebbrc \<times> u64 \<times> EBBMemMgrPrimStupid" where
  "EBBMemMgrPrimStupid_alloc self sz =
     (if sz > stupid_len self then (EBBRC_OK, 0, self)
      else (EBBRC_OK, stupid_mem self,
            self\<lparr>stupid_mem := stupid_mem self + sz, stupid_len := stupid_len self - sz\<rparr>))"

definition EBBMemMgrPrimStupid_free :: "EBBMemMgrPrimStupid \<Rightarrow> u64 \<Rightarrow> u64 \<Rightarrow> ebbrc \<times> EBBMemMgrPrimStupid" where
  "EBBMemMgrPrimStupid_free self sz mem = (EBBRC_OK, self)"

subsection \<open>The contract of a memory manager\<close>

text \<open>
  \<open>manages m A\<close>: the manager \<open>m\<close> can still hand out the addresses \<open>A\<close>. A safe request that
  is granted gives a region inside \<open>A\<close> and takes it out of the managed addresses; one that is
  refused gives null.
\<close>

definition region :: "u64 \<Rightarrow> u64 \<Rightarrow> nat set" where
  "region p n = {unat p..<unat p + unat n}"

locale mem_mgr =
  fixes alloc :: "'m \<Rightarrow> u64 \<Rightarrow> (ebbrc \<times> u64 \<times> 'm) res"
    and manages :: "'m \<Rightarrow> nat set \<Rightarrow> bool"
    and safe :: "'m \<Rightarrow> u64 \<Rightarrow> bool"
  assumes alloc_law: "manages m A \<Longrightarrow> safe m n \<Longrightarrow>
    \<exists>rc p m' A'. alloc m n = Inr (rc, p, m') \<and> manages m' A' \<and> A' \<subseteq> A \<and>
      (p \<noteq> 0 \<longrightarrow> region p n \<subseteq> A \<and> region p n \<inter> A' = {})"

text \<open>A client that allocates a list of sizes; null results are dropped.\<close>

fun alloc_all :: "('m \<Rightarrow> u64 \<Rightarrow> (ebbrc \<times> u64 \<times> 'm) res) \<Rightarrow> u64 list \<Rightarrow> 'm \<Rightarrow> ((u64 \<times> u64) list \<times> 'm) res" where
  "alloc_all alloc [] m = Inr ([], m)"
| "alloc_all alloc (n # ns) m =
     rbind (alloc m n) (\<lambda>(rc, p, m).
     rbind (alloc_all alloc ns m) (\<lambda>(rs, m).
     Inr (if p \<noteq> 0 then (p, n) # rs else rs, m)))"

fun all_safe :: "('m \<Rightarrow> u64 \<Rightarrow> (ebbrc \<times> u64 \<times> 'm) res) \<Rightarrow> ('m \<Rightarrow> u64 \<Rightarrow> bool) \<Rightarrow> u64 list \<Rightarrow> 'm \<Rightarrow> bool" where
  "all_safe alloc safe [] m \<longleftrightarrow> True"
| "all_safe alloc safe (n # ns) m \<longleftrightarrow> safe m n \<and>
     (case alloc m n of Inl e \<Rightarrow> True | Inr (rc, p, m') \<Rightarrow> all_safe alloc safe ns m')"

fun disjoint_regions :: "(u64 \<times> u64) list \<Rightarrow> bool" where
  "disjoint_regions [] \<longleftrightarrow> True"
| "disjoint_regions ((p, n) # rs) \<longleftrightarrow>
     (\<forall>(q, k) \<in> set rs. region p n \<inter> region q k = {}) \<and> disjoint_regions rs"

context mem_mgr begin

lemma alloc_all_disjoint:
  assumes "manages m A" "all_safe alloc safe ns m"
  shows "\<exists>rs m' A'. alloc_all alloc ns m = Inr (rs, m') \<and> manages m' A' \<and> A' \<subseteq> A \<and>
    disjoint_regions rs \<and> (\<forall>(p, n) \<in> set rs. region p n \<subseteq> A \<and> region p n \<inter> A' = {})"
  using assms
proof (induction ns arbitrary: m A)
  case (Cons n ns)
  obtain rc p m1 A1 where a: "alloc m n = Inr (rc, p, m1)" "manages m1 A1" "A1 \<subseteq> A"
    "p \<noteq> 0 \<longrightarrow> region p n \<subseteq> A \<and> region p n \<inter> A1 = {}"
    using alloc_law [OF Cons.prems(1), of n] Cons.prems(2) by (simp only: all_safe.simps) blast
  obtain rs m' A' where r: "alloc_all alloc ns m1 = Inr (rs, m')" "manages m' A'" "A' \<subseteq> A1" "disjoint_regions rs"
    "\<forall>(p, n) \<in> set rs. region p n \<subseteq> A1 \<and> region p n \<inter> A' = {}"
    using Cons.IH [OF a(2)] Cons.prems(2) a(1) by auto
  have "alloc_all alloc (n # ns) m = Inr (if p \<noteq> 0 then (p, n) # rs else rs, m')"
    using a(1) r(1) by simp
  moreover have "disjoint_regions (if p \<noteq> 0 then (p, n) # rs else rs)"
  proof -
    have "region p n \<inter> region q k = {}" if "p \<noteq> 0" "(q, k) \<in> set rs" for q k
      using a(4) r(5) that by blast
    then have "\<forall>(q, k) \<in> set rs. region p n \<inter> region q k = {}" if "p \<noteq> 0" using that by blast
    then show ?thesis using r(4) by simp
  qed
  moreover have "\<forall>(q, k) \<in> set (if p \<noteq> 0 then (p, n) # rs else rs). region q k \<subseteq> A \<and> region q k \<inter> A' = {}"
  proof -
    have "\<forall>(q, k) \<in> set rs. region q k \<subseteq> A \<and> region q k \<inter> A' = {}" using r(5) a(3) by blast
    moreover have "region p n \<subseteq> A \<and> region p n \<inter> A' = {}" if "p \<noteq> 0" using that a(4) r(3) by blast
    ultimately show ?thesis by simp
  qed
  ultimately show ?case using r(2,3) a(3) by blast
qed auto

end

text \<open>The bump allocator as a provider: it manages the addresses it has not handed out.\<close>

definition stupid_alloc :: "EBBMemMgrPrimStupid \<Rightarrow> u64 \<Rightarrow> (ebbrc \<times> u64 \<times> EBBMemMgrPrimStupid) res" where
  "stupid_alloc m n = Inr (EBBMemMgrPrimStupid_alloc m n)"

definition stupid_manages :: "EBBMemMgrPrimStupid \<Rightarrow> nat set \<Rightarrow> bool" where
  "stupid_manages m A \<longleftrightarrow> unat (stupid_mem m) + unat (stupid_len m) < 2 ^ 64 \<and>
     A = {unat (stupid_mem m)..<unat (stupid_mem m) + unat (stupid_len m)}"

lemma stupid_alloc_law:
  assumes "stupid_manages m A"
  shows "\<exists>rc p m' A'. stupid_alloc m n = Inr (rc, p, m') \<and> stupid_manages m' A' \<and> A' \<subseteq> A \<and>
    (p \<noteq> 0 \<longrightarrow> region p n \<subseteq> A \<and> region p n \<inter> A' = {})"
proof (cases "n > stupid_len m")
  case True
  then show ?thesis
    using assms by (intro exI [of _ EBBRC_OK] exI [of _ 0] exI [of _ m] exI [of _ A])
      (simp add: stupid_alloc_def EBBMemMgrPrimStupid_alloc_def)
next
  case False
  let ?m = "m\<lparr>stupid_mem := stupid_mem m + n, stupid_len := stupid_len m - n\<rparr>"
  have le: "unat n \<le> unat (stupid_len m)" using False by (simp add: word_le_nat_alt not_less)
  have bnd: "unat (stupid_mem m) + unat (stupid_len m) < 2 ^ 64" using assms by (simp add: stupid_manages_def)
  have u: "unat (stupid_mem m + n) = unat (stupid_mem m) + unat n"
    using le bnd by (simp add: unat_word_ariths)
  have v: "unat (stupid_len m - n) = unat (stupid_len m) - unat n"
    using False by (simp add: unat_sub not_less)
  let ?A = "{unat (stupid_mem m) + unat n..<unat (stupid_mem m) + unat (stupid_len m)}"
  have "stupid_alloc m n = Inr (EBBRC_OK, stupid_mem m, ?m)"
    using False by (simp add: stupid_alloc_def EBBMemMgrPrimStupid_alloc_def)
  moreover have "stupid_manages ?m ?A"
    using bnd le by (simp add: stupid_manages_def u v)
  moreover have "A = {unat (stupid_mem m)..<unat (stupid_mem m) + unat (stupid_len m)}"
    using assms by (simp add: stupid_manages_def)
  then have "?A \<subseteq> A" "region (stupid_mem m) n \<subseteq> A" "region (stupid_mem m) n \<inter> ?A = {}"
    using le by (auto simp: region_def)
  ultimately show ?thesis by blast
qed

interpretation stupid: mem_mgr stupid_alloc stupid_manages "\<lambda>m n. True"
  by unfold_locales (rule stupid_alloc_law)

text \<open>
  The first-fit manager as a provider: it manages the insides of its free blocks. A request is
  safe when its rounding does not wrap and the block the search finds is not an exact fit.
\<close>

type_synonym simple_mm = "EBBMemMgrPrimSimple \<times> heap"

definition simple_alloc :: "simple_mm \<Rightarrow> u64 \<Rightarrow> (ebbrc \<times> u64 \<times> simple_mm) res" where
  "simple_alloc m n =
     rbind (EBBMemMgrPrimSimple_alloc (fst m) n (snd m)) (\<lambda>(rc, p, h). Inr (rc, p, (fst m, h)))"

fun free_space :: "nat \<Rightarrow> block list \<Rightarrow> nat set" where
  "free_space a [] = {}"
| "free_space a ((n, u) # bs) = (if u then {} else {a + 8..<a + n - 8}) \<union> free_space (a + n) bs"

definition simple_manages :: "simple_mm \<Rightarrow> nat set \<Rightarrow> bool" where
  "simple_manages m A \<longleftrightarrow> (\<exists>a bs. heap_ok (fst m) (snd m) a bs \<and> A = free_space a bs)"

definition simple_safe :: "simple_mm \<Rightarrow> u64 \<Rightarrow> bool" where
  "simple_safe m n \<longleftrightarrow> unat n + 24 < 2 ^ 64 \<and>
     (let k = round_up (n + 2 * sizeof_Bumper) in
      case find_block (snd m) (simple_end (fst m)) k (simple_mem (fst m)) of
        None \<Rightarrow> False
      | Some hdr \<Rightarrow> hdr < simple_end (fst m) \<longrightarrow> b_size (snd m hdr) \<noteq> k)"

lemma free_space_append: "free_space a (xs @ ys) = free_space a xs \<union> free_space (a + blen xs) ys"
  by (induction a xs rule: free_space.induct) (auto simp: add.assoc)

lemma free_space_range: "free_space a bs \<subseteq> {a..<a + blen bs}"
  by (induction a bs rule: free_space.induct) auto

lemma simple_safe_split:
  assumes "heap_ok self h a bs" "simple_safe (self, h) n" "ff_split (block_for (unat n)) bs = Some (pre, m, post)"
  shows "block_for (unat n) \<noteq> m"
proof
  assume eq: "block_for (unat n) = m"
  have wrap: "unat n + 24 < 2 ^ 64" using assms(2) by (simp add: simple_safe_def)
  have st: "stops_at self h n (a + blen pre) m m"
    using stops_at_first_fit [OF assms(1,3) wrap] eq by simp
  have "b_size (h (adr (a + blen pre))) = adr m"
    using st by (auto simp: stops_at_def adr_def)
  moreover have "adr (a + blen pre) < simple_end self" "round_up (n + 2 * sizeof_Bumper) = adr m"
    "find_block h (simple_end self) (adr m) (simple_mem self) = Some (adr (a + blen pre))"
    using st by (simp_all add: stops_at_def sizeof_Bumper_def)
  ultimately show False using assms(2) by (simp add: simple_safe_def)
qed

lemma simple_alloc_law:
  assumes "simple_manages m A" "simple_safe m n"
  shows "\<exists>rc p m' A'. simple_alloc m n = Inr (rc, p, m') \<and> simple_manages m' A' \<and> A' \<subseteq> A \<and>
    (p \<noteq> 0 \<longrightarrow> region p n \<subseteq> A \<and> region p n \<inter> A' = {})"
proof -
  obtain self h where m: "m = (self, h)" by (cases m)
  obtain a bs where ok: "heap_ok self h a bs" and A: "A = free_space a bs"
    using assms(1) m by (auto simp: simple_manages_def)
  have wrap: "unat n + 24 < 2 ^ 64" using assms(2) by (simp add: simple_safe_def)
  let ?k = "block_for (unat n)"
  show ?thesis
  proof (cases "ff_split ?k bs")
    case None
    then have "EBBMemMgrPrimSimple_alloc self n h = Inr (EBBRC_OUTOFRESOURCES, 0, h)"
      by (rule alloc_out_of_memory [OF ok wrap])
    then show ?thesis using assms(1) by (auto simp: simple_alloc_def m)
  next
    case (Some r)
    then obtain pre k post where ff: "ff_split ?k bs = Some (pre, k, post)" by (cases r) auto
    note sp = ff_split_Some [OF ff]
    have ne: "?k \<noteq> k" using simple_safe_split [OF ok _ ff] assms(2) m by simp
    let ?H = "a + blen pre" and ?bs = "pre @ (?k, True) # (k - ?k, False) # post"
    obtain h' where run: "EBBMemMgrPrimSimple_alloc self n h = Inr (EBBRC_OK, adr (?H + 8), h')"
      and ok': "heap_ok self h' a ?bs"
      using alloc_refines_split [OF ok wrap ff ne] by blast
    have bl: "?H + 8 < 2 ^ 64" "?H + k \<le> a + blen bs" "16 \<le> ?k" "unat n + 16 \<le> ?k"
      using ok sp block_for(2) [of "unat n"] by (auto simp: heap_ok_def)
    have reg: "region (adr (?H + 8)) n = {?H + 8..<?H + 8 + unat n}"
      using bl(1) by (simp add: region_def unat_adr)
    have A': "free_space a ?bs = free_space a pre \<union> {?H + ?k + 8..<?H + k - 8} \<union> free_space (?H + k) post"
      using sp(2) by (auto simp: free_space_append add.assoc)
    have A2: "A = free_space a pre \<union> {?H + 8..<?H + k - 8} \<union> free_space (?H + k) post"
      by (auto simp: A sp(1) free_space_append add.assoc)
    have pre: "free_space a pre \<subseteq> {a..<?H}" and post: "free_space (?H + k) post \<subseteq> {?H + k..<?H + k + blen post}"
      by (rule free_space_range)+
    have "{?H + 8..<?H + 8 + unat n} \<subseteq> A" using bl(4) sp(2) by (auto simp: A2)
    moreover have "x \<notin> free_space a ?bs" if "?H + 8 \<le> x" "x < ?H + 8 + unat n" for x
      using that pre post bl(4) sp(2) unfolding A' by (auto dest: subsetD)
    then have "{?H + 8..<?H + 8 + unat n} \<inter> free_space a ?bs = {}" by auto
    moreover have "free_space a ?bs \<subseteq> A" unfolding A' A2 by auto
    ultimately show ?thesis
      using run ok' reg by (intro exI [of _ EBBRC_OK] exI [of _ "adr (?H + 8)"] exI [of _ "(self, h')"]
          exI [of _ "free_space a ?bs"]) (auto simp: simple_alloc_def simple_manages_def m)
  qed
qed

interpretation simple: mem_mgr simple_alloc simple_manages simple_safe
  by unfold_locales (rule simple_alloc_law)

subsection \<open>Properties of the two managers\<close>

text \<open>
  the bump allocator never fails and whatever sizes are requested, the non-null regions it
  returns are pairwise disjoint and lie in the memory it was initialised with; a refused request
  returns null together with the success code \<open>EBBRC_OK\<close>.
\<close>

theorem stupid_allocs_disjoint:
  assumes "unat (stupid_mem m) + unat (stupid_len m) < 2 ^ 64"
  shows "\<exists>rs m'. alloc_all stupid_alloc ns m = Inr (rs, m') \<and> disjoint_regions rs \<and>
     (\<forall>(p, n) \<in> set rs. region p n \<subseteq> {unat (stupid_mem m)..<unat (stupid_mem m) + unat (stupid_len m)}) \<and>
     (\<forall>n. n > stupid_len m \<longrightarrow> EBBMemMgrPrimStupid_alloc m n = (EBBRC_OK, 0, m))"
proof -
  have safe: "all_safe stupid_alloc (\<lambda>m n. True) ns m"
    by (induction ns arbitrary: m) (auto split: sum.splits)
  have "stupid_manages m {unat (stupid_mem m)..<unat (stupid_mem m) + unat (stupid_len m)}"
    using assms by (simp add: stupid_manages_def)
  from stupid.alloc_all_disjoint [OF this safe] show ?thesis
    by (fastforce simp: EBBMemMgrPrimStupid_alloc_def)
qed


subsection \<open>Concrete heaps\<close>

definition demo_self :: EBBMemMgrPrimSimple where
  "demo_self = \<lparr>simple_myRoot = 0, simple_mem = adr 4096, simple_end = adr 4928\<rparr>"

definition demo_heap :: heap where
  "demo_heap = (\<lambda>a. 0)(adr 4096 := bumper 16 True, adr 4104 := bumper 16 True,
     adr 4112 := bumper 800 False, adr 4904 := bumper 800 False,
     adr 4912 := bumper 16 True, adr 4920 := bumper 16 True)"

definition demo_blocks :: "block list" where
  "demo_blocks = [(16, True), (800, False), (16, True)]"

lemma demo_heap_ok: "heap_ok demo_self demo_heap 4096 demo_blocks"
  by (simp add: heap_ok_def demo_self_def demo_heap_def demo_blocks_def adr_eq_iff)

lemma demo_blocks_ok: "blocks_ok demo_blocks"
  by (simp add: blocks_ok_def demo_blocks_def)

lemma demo_split:
  "ff_split (block_for 8) demo_blocks = Some ([(16, True)], 800, [(16, True)])"
  "ff_split (block_for 784) demo_blocks = Some ([(16, True)], 800, [(16, True)])"
  by (simp_all add: ff_split_def demo_blocks_def unfit_def block_for_def)

theorem simple_alloc_refines_first_fit_witness:
  "\<exists>h'. EBBMemMgrPrimSimple_alloc demo_self 8 demo_heap = Inr (EBBRC_OK, 4120, h') \<and>
     heap_ok demo_self h' 4096 [(16, True), (24, True), (776, False), (16, True)]"
  using simple_alloc_refines_first_fit [OF demo_heap_ok, of 8] demo_split
  by (auto simp: block_for_def adr_def)

theorem simple_alloc_exact_fit_corrupts_witness:
  "\<exists>h'. EBBMemMgrPrimSimple_alloc demo_self 784 demo_heap = Inr (EBBRC_OK, 4120, h') \<and>
     h' (adr 4912) = bumper 800 True"
  using simple_alloc_exact_fit_corrupts [OF demo_heap_ok, of 784 "[(16, True)]" 16 True "[]"] demo_split
  by (auto simp: block_for_def adr_def)


theorem simple_free_refines_coalesce_witness:
  "\<exists>h. heap_ok demo_self h 4096 [(16, True), (24, True), (776, False), (16, True)] \<and>
     EBBMemMgrPrimSimple_free demo_self 99 (adr 4120) h = Inl AssertFail"
proof -
  obtain h where ok: "heap_ok demo_self h 4096 [(16, True), (24, True), (776, False), (16, True)]"
    using alloc_refines_split [OF demo_heap_ok, of 8 "[(16, True)]" 800 "[(16, True)]"] demo_split
    by (auto simp: block_for_def)
  have "round_up 99 \<noteq> adr (24 - 16)" by (simp add: round_up_def adr_def)
  moreover have "blocks_ok [(16, True), (24, True), (776, False), (16, True)]" by (simp add: blocks_ok_def)
  ultimately show ?thesis
    using simple_free_refines_coalesce [of demo_self h 4096 "[(16, True)]" 24 "[(776, False), (16, True)]" 99] ok
    by auto
qed

theorem simple_init_rep_correct_witness:
  "\<exists>self h'. simple_init_rep (adr 4096) 5 (adr 8192) (\<lambda>a. 7) = Inr (self, h') \<and>
     heap_ok self h' 4128 [(16, True), (4032, False), (16, True)]"
  using simple_init_rep_correct [of 4096 8192 5 "\<lambda>a. 7"] by auto

theorem stupid_allocs_disjoint_witness:
  "\<exists>rs m'. alloc_all stupid_alloc [16, 24, 9000] \<lparr>stupid_myRoot = 0, stupid_mem = 4096, stupid_len = 4096\<rparr> = Inr (rs, m') \<and>
     disjoint_regions rs"
proof -
  define m where "m = \<lparr>stupid_myRoot = 0, stupid_mem = 4096, stupid_len = 4096\<rparr>"
  have "unat (stupid_mem m) + unat (stupid_len m) < 2 ^ 64" by (simp add: m_def)
  from stupid_allocs_disjoint [OF this, of "[16, 24, 9000]"] show ?thesis
    unfolding m_def by blast
qed

lemma demo_safe: "simple_safe (demo_self, demo_heap) 8"
proof -
  have "round_up (8 + 2 * sizeof_Bumper) = adr 24"
    by (simp add: round_up_def sizeof_Bumper_def adr_def)
  moreover have "find_block demo_heap (adr 4928) (adr 24) (adr 4096) = Some (adr 4112)"
    using find_block_walk [of demo_heap 4096 demo_blocks 4928 "adr 24"] demo_heap_ok
    by (simp add: heap_ok_def demo_blocks_def unfit_def unat_adr)
  moreover have "b_size (demo_heap (adr 4112)) = adr 800"
    by (simp add: demo_heap_def adr_eq_iff adr_def)
  ultimately show ?thesis by (simp add: simple_safe_def demo_self_def adr_eq_iff)
qed


end
