(* ===== verification/MemBoot.thy ===== *)
theory MemBoot
  imports RootCalls MemMgr
begin

text \<open>
  How a memory manager becomes an Ebb: the memory each core gets at boot
  (\<open>l0/lrt/ulnx/mem.c\<close>), the initialisation of the two managers (\<open>MemMgrPrimStupid.c\<close>,
  \<open>MemMgrPrimSimple.c\<close>), and \<open>EBBPrimMalloc\<close> (\<open>MemMgrPrim.h\<close>), the call of the manager's id
  that all other parts allocate with. The bump manager provides the contract \<open>prim_malloc\<close>.
\<close>

subsection \<open>State\<close>

record BootMemDesc =
  bm_start :: u64
  bm_end :: u64

record mem_state = root_state +
  theEBBMemMgrPrimId :: u64
  bootMem :: "BootMemDesc list"
  stupid_rep :: "u64 \<Rightarrow> EBBMemMgrPrimStupid"
  simple_rep :: "u64 \<Rightarrow> EBBMemMgrPrimSimple"
  mm_heap :: heap

definition LRT_MEM_PERPIC :: u64 where "LRT_MEM_PERPIC = 4096 * 1024"

definition lrt_mem_start :: "nat \<Rightarrow> 'z mem_state_scheme \<Rightarrow> u64 res" where
  "lrt_mem_start myid s = rbind (arr_get (bootMem s) myid) (\<lambda>bm. Inr (bm_start bm))"

definition lrt_mem_end :: "nat \<Rightarrow> 'z mem_state_scheme \<Rightarrow> u64 res" where
  "lrt_mem_end myid s = rbind (arr_get (bootMem s) myid) (\<lambda>bm. Inr (bm_end bm))"

text \<open>\<open>mm\<close> is what \<open>mmap\<close> returned, \<open>None\<close> for \<open>MAP_FAILED\<close>.\<close>

definition lrt_mem_init :: "u64 option \<Rightarrow> nat \<Rightarrow> 'z mem_state_scheme \<Rightarrow> (int \<times> 'z mem_state_scheme) res" where
  "lrt_mem_init mm myid s =
     rbind (arr_get (bootMem s) myid) (\<lambda>_.
     case mm of
       None \<Rightarrow> Inl AssertFail
     | Some a \<Rightarrow> Inr (1, s\<lparr>bootMem := (bootMem s)[myid := \<lparr>bm_start = a, bm_end = a + LRT_MEM_PERPIC\<rparr>]\<rparr>))"

subsection \<open>Allocation through the id\<close>

text \<open>The build links one of the two managers; \<open>alloc\<close> is function 0 of their table, \<open>free\<close> function 1.\<close>

datatype memmgrprim = Stupid | Simple

definition mm_alloc ::
    "memmgrprim \<Rightarrow> u64 \<Rightarrow> u64 \<Rightarrow> 'z mem_state_scheme \<Rightarrow> (ebbrc \<times> u64 \<times> 'z mem_state_scheme) res" where
  "mm_alloc cfg r sz s =
     (case cfg of
        Stupid \<Rightarrow> (let (rc, p, m) = EBBMemMgrPrimStupid_alloc (stupid_rep s r) sz
                   in Inr (rc, p, s\<lparr>stupid_rep := (stupid_rep s)(r := m)\<rparr>))
      | Simple \<Rightarrow> rbind (EBBMemMgrPrimSimple_alloc (simple_rep s r) sz (mm_heap s)) (\<lambda>(rc, p, h).
                  Inr (rc, p, s\<lparr>mm_heap := h\<rparr>)))"

definition mm_free ::
    "memmgrprim \<Rightarrow> u64 \<Rightarrow> u64 \<Rightarrow> u64 \<Rightarrow> 'z mem_state_scheme \<Rightarrow> (ebbrc \<times> 'z mem_state_scheme) res" where
  "mm_free cfg r sz mem s =
     (case cfg of
        Stupid \<Rightarrow> (let (rc, m) = EBBMemMgrPrimStupid_free (stupid_rep s r) sz mem
                   in Inr (rc, s\<lparr>stupid_rep := (stupid_rep s)(r := m)\<rparr>))
      | Simple \<Rightarrow> rbind (EBBMemMgrPrimSimple_free (simple_rep s r) sz mem (mm_heap s)) (\<lambda>(rc, h).
                  Inr (rc, s\<lparr>mm_heap := h\<rparr>)))"

text \<open>
  The pointer is left as it was when the miss fails; the model returns null then. An id that is
  bound to another kind of object is a call of a wild function.
\<close>

definition EBBPrimMalloc ::
    "memmgrprim \<Rightarrow> 'z mem_state_scheme callmf \<Rightarrow> nat \<Rightarrow> u64 \<Rightarrow> 'z mem_state_scheme \<Rightarrow>
     (ebbrc \<times> u64 \<times> 'z mem_state_scheme) res" where
  "EBBPrimMalloc cfg callmf myid sz s =
     rbind (EBBCALL callmf myid (theEBBMemMgrPrimId s) 0 s) (\<lambda>(c, s).
     case c of
       Failed rc \<Rightarrow> Inr (rc, 0, s)
     | Called f r \<Rightarrow> if f = Method FT_MemMgrPrim 0 then mm_alloc cfg r sz s else Inl NullDeref)"

definition EBBPrimFree ::
    "memmgrprim \<Rightarrow> 'z mem_state_scheme callmf \<Rightarrow> nat \<Rightarrow> u64 \<Rightarrow> u64 \<Rightarrow> 'z mem_state_scheme \<Rightarrow>
     (ebbrc \<times> 'z mem_state_scheme) res" where
  "EBBPrimFree cfg callmf myid sz mem s =
     rbind (EBBCALL callmf myid (theEBBMemMgrPrimId s) 1 s) (\<lambda>(c, s).
     case c of
       Failed rc \<Rightarrow> Inr (rc, s)
     | Called f r \<Rightarrow> if f = Method FT_MemMgrPrim 1 then mm_free cfg r sz mem s else Inl NullDeref)"

subsection \<open>Initialisation\<close>

text \<open>
  The first core takes the id from 0 to -1, sets up the static root, and publishes the id; the
  others wait while it is -1 (\<open>Blocked\<close>: it is another core that has to go on).
\<close>

definition memmgr_id_once ::
    "u64 \<Rightarrow> createrep \<Rightarrow> nat \<Rightarrow> 'z mem_state_scheme \<Rightarrow> 'z mem_state_scheme res" where
  "memmgr_id_once rootRef cr myid s =
     (if theEBBMemMgrPrimId s = 0 then
        let s = s\<lparr>theEBBMemMgrPrimId := -1\<rparr>;
            (rc, s) = CObjEBBRootMultiImpStaticInit rootRef cr s;
            (rc, i, s) = EBBAllocPrimIdBoot myid s
        in rbind (lrt_assert (EBBRC_SUCCESS rc)) (\<lambda>_.
           rbind (CObjEBBBindBoot myid i rootRef s) (\<lambda>(rc, s).
           rbind (lrt_assert (EBBRC_SUCCESS rc)) (\<lambda>_.
           Inr (if theEBBMemMgrPrimId s = -1 then s\<lparr>theEBBMemMgrPrimId := i\<rparr> else s))))
      else if theEBBMemMgrPrimId s = -1 then Inl Blocked
      else Inr s)"

definition EBBMemMgrPrimSetFT :: "u64 \<Rightarrow> 'z mem_state_scheme \<Rightarrow> 'z mem_state_scheme" where
  "EBBMemMgrPrimSetFT r s = s\<lparr>repft := (repft s)(r := FT_MemMgrPrim)\<rparr>"

definition EBBMemMgrPrimStupidInit ::
    "'z mem_state_scheme callmf \<Rightarrow> u64 \<Rightarrow> nat \<Rightarrow> 'z mem_state_scheme \<Rightarrow> (ebbrc \<times> 'z mem_state_scheme) res" where
  "EBBMemMgrPrimStupidInit callmf rootRef myid s =
     rbind (memmgr_id_once rootRef MemMgrPrimStupid_createRep_fp myid s) (\<lambda>s.
     rbind (lrt_mem_start myid s) (\<lambda>repRef.
     rbind (lrt_mem_end myid s) (\<lambda>end'.
     let s = EBBMemMgrPrimSetFT repRef s;
         (rc, m) = stupid_init_rep repRef rootRef end';
         s = s\<lparr>stupid_rep := (stupid_rep s)(repRef := m)\<rparr>;
         lt = lrt_trans_id2lt (TransMem s) myid (theEBBMemMgrPrimId s);
         s = EBBCacheObj myid lt repRef s
     in rbind (CObjEBBRootMulti_addRepOn (EBBPrimMalloc Stupid callmf) myid rootRef (MyEL myid) repRef s) (\<lambda>s.
        Inr (EBBRC_OK, s)))))"

definition EBBMemMgrPrimSimpleInit ::
    "'z mem_state_scheme callmf \<Rightarrow> u64 \<Rightarrow> nat \<Rightarrow> 'z mem_state_scheme \<Rightarrow> (ebbrc \<times> 'z mem_state_scheme) res" where
  "EBBMemMgrPrimSimpleInit callmf rootRef myid s =
     rbind (memmgr_id_once rootRef MemMgrPrimRB_createRep_fp myid s) (\<lambda>s.
     rbind (lrt_mem_start myid s) (\<lambda>repRef.
     rbind (lrt_mem_end myid s) (\<lambda>end'.
     let s = EBBMemMgrPrimSetFT repRef s
     in rbind (simple_init_rep repRef rootRef end' (mm_heap s)) (\<lambda>(m, h).
        let s = s\<lparr>simple_rep := (simple_rep s)(repRef := m), mm_heap := h\<rparr>;
            lt = lrt_trans_id2lt (TransMem s) myid (theEBBMemMgrPrimId s);
            s = EBBCacheObj myid lt repRef s
        in rbind (CObjEBBRootMulti_addRepOn (EBBPrimMalloc Simple callmf) myid rootRef (MyEL myid) repRef s) (\<lambda>s.
           Inr (EBBRC_OK, s))))))"

definition EBBMemMgrPrimInit ::
    "memmgrprim \<Rightarrow> 'z mem_state_scheme callmf \<Rightarrow> u64 \<Rightarrow> nat \<Rightarrow> 'z mem_state_scheme \<Rightarrow>
     (ebbrc \<times> 'z mem_state_scheme) res" where
  "EBBMemMgrPrimInit cfg callmf rootRef myid s =
     (case cfg of
        Stupid \<Rightarrow> EBBMemMgrPrimStupidInit callmf rootRef myid s
      | Simple \<Rightarrow> EBBMemMgrPrimSimpleInit callmf rootRef myid s)"

subsection \<open>The bump manager keeps the allocation contract\<close>

definition mem_rep :: "'z mem_state_scheme \<Rightarrow> nat \<Rightarrow> u64" where
  "mem_rep s p = bm_start (bootMem s ! p)"

definition arena :: "'z mem_state_scheme \<Rightarrow> nat \<Rightarrow> nat set" where
  "arena s p = {unat (bm_start (bootMem s ! p))..<unat (bm_end (bootMem s ! p))}"

text \<open>
  The boot memory of the cores: disjoint arenas, null for a core that has not started, apart
  from the translation tables.
\<close>

definition boot_mem_ok :: "'z mem_state_scheme \<Rightarrow> bool" where
  "boot_mem_ok s \<longleftrightarrow> length (bootMem s) = LRT_PIC_MAX_PICS \<and>
     (\<forall>p < LRT_PIC_MAX_PICS. \<forall>q < LRT_PIC_MAX_PICS. p \<noteq> q \<longrightarrow> arena s p \<inter> arena s q = {}) \<and>
     (\<forall>p < LRT_PIC_MAX_PICS.
       bm_start (bootMem s ! p) = 0 \<and> bm_end (bootMem s ! p) = 0 \<or>
       bm_start (bootMem s ! p) \<noteq> 0 \<and> unat (bm_start (bootMem s ! p)) + 32 \<le> unat (bm_end (bootMem s ! p))) \<and>
     (\<forall>a. (\<exists>p < LRT_PIC_MAX_PICS. unat a \<in> arena s p) \<longrightarrow> \<not> is_ltrans_addr s (a - 8))"

definition mem_avail :: "'z mem_state_scheme \<Rightarrow> u64 set" where
  "mem_avail s = {a. \<exists>p < LRT_PIC_MAX_PICS. unat a \<in> arena s p \<and> stupid_mem (stupid_rep s (mem_rep s p)) \<le> a}"

text \<open>Core \<open>p\<close>'s manager is up, cached by the core, and has \<open>k\<close> bytes left of its arena.\<close>

definition mem_funds :: "nat \<Rightarrow> nat \<Rightarrow> nat \<Rightarrow> 'z mem_state_scheme \<Rightarrow> bool" where
  "mem_funds mm p k s \<longleftrightarrow> trans_mem_fits (TransMem s) \<and> boot_mem_ok s \<and> p < LRT_PIC_MAX_PICS \<and> mm < num_ids \<and>
     theEBBMemMgrPrimId s = id_of (TransMem s) mm \<and>
     obj (ltab s (local_entry s p (id_of (TransMem s) mm))) = mem_rep s p \<and>
     repft s (mem_rep s p) = FT_MemMgrPrim \<and>
     (let m = stupid_rep s (mem_rep s p) in
       unat (mem_rep s p) + 32 \<le> unat (stupid_mem m) \<and>
       unat (stupid_mem m) + unat (stupid_len m) = unat (bm_end (bootMem s ! p)) \<and> k \<le> unat (stupid_len m))"

lemma mem_cong:
  assumes "bootMem s' = bootMem s" "TransMem s' = TransMem s"
  shows "boot_mem_ok s' = boot_mem_ok s" "arena s' p = arena s p" "mem_rep s' p = mem_rep s p"
  using assms by (simp_all add: boot_mem_ok_def arena_def mem_rep_def is_ltrans_addr_def)

lemma fundsD:
  assumes "mem_funds mm p k s"
  shows "trans_mem_fits (TransMem s)" "boot_mem_ok s" "p < LRT_PIC_MAX_PICS" "mm < num_ids"
    "theEBBMemMgrPrimId s = id_of (TransMem s) mm" "unat (mem_rep s p) \<in> arena s p"
    "EBBId_DREF s p (theEBBMemMgrPrimId s) = mem_rep s p" "rep_ft s (mem_rep s p) = FT_MemMgrPrim"
    "\<And>q. q < LRT_PIC_MAX_PICS \<Longrightarrow> q \<noteq> p \<Longrightarrow> mem_rep s q \<noteq> mem_rep s p"
proof -
  note f = assms [unfolded mem_funds_def Let_def]
  show "trans_mem_fits (TransMem s)" "boot_mem_ok s" "p < LRT_PIC_MAX_PICS" "mm < num_ids"
    "theEBBMemMgrPrimId s = id_of (TransMem s) mm" using f by simp_all
  show "EBBId_DREF s p (theEBBMemMgrPrimId s) = mem_rep s p"
    using f by (simp add: EBBId_DREF_def EBBIdToLTrans_def)
  show in_arena: "unat (mem_rep s p) \<in> arena s p" using f by (auto simp: arena_def mem_rep_def)
  have "\<not> is_ltrans_addr s (mem_rep s p - 8)" using f in_arena unfolding boot_mem_ok_def by blast
  then show "rep_ft s (mem_rep s p) = FT_MemMgrPrim" using f by (simp add: rep_ft_def)
  show "mem_rep s q \<noteq> mem_rep s p" if q: "q < LRT_PIC_MAX_PICS" "q \<noteq> p" for q
  proof
    assume eq: "mem_rep s q = mem_rep s p"
    have "\<And>p. p < LRT_PIC_MAX_PICS \<Longrightarrow> mem_rep s p = 0 \<and> bm_end (bootMem s ! p) = 0 \<or>
        mem_rep s p \<noteq> 0 \<and> unat (mem_rep s p) + 32 \<le> unat (bm_end (bootMem s ! p))"
      using f unfolding boot_mem_ok_def mem_rep_def by blast
    from this [of p] this [of q] have "unat (mem_rep s q) + 32 \<le> unat (bm_end (bootMem s ! q))"
      using f q eq by auto
    then have "unat (mem_rep s p) \<in> arena s q" using eq by (simp add: arena_def mem_rep_def)
    then show False using in_arena f q unfolding boot_mem_ok_def by blast
  qed
qed

definition bump_by :: "u64 \<Rightarrow> nat \<Rightarrow> 'z mem_state_scheme \<Rightarrow> 'z mem_state_scheme" where
  "bump_by n p s = (let r = mem_rep s p; m = stupid_rep s r in
     s\<lparr>stupid_rep := (stupid_rep s)(r := m\<lparr>stupid_mem := stupid_mem m + n, stupid_len := stupid_len m - n\<rparr>)\<rparr>)"

lemma bump_malloc:
  assumes "mem_funds mm p k s" "unat n \<le> k"
  shows "EBBPrimMalloc Stupid callmf p n s =
    Inr (EBBRC_OK, stupid_mem (stupid_rep s (mem_rep s p)), bump_by n p s)"
proof -
  have "\<not> n > stupid_len (stupid_rep s (mem_rep s p))"
    using assms by (simp add: mem_funds_def Let_def word_less_nat_alt)
  then show ?thesis
    using EBBCALL_hit [OF fundsD(7,8) [OF assms(1)]]
    by (simp add: EBBPrimMalloc_def mm_alloc_def EBBMemMgrPrimStupid_alloc_def bump_by_def Let_def)
qed

lemma bump_by_sel [simp]:
  "TransMem (bump_by n p s) = TransMem s" "bootMem (bump_by n p s) = bootMem s"
  "ltab (bump_by n p s) = ltab s" "repft (bump_by n p s) = repft s"
  "theEBBMemMgrPrimId (bump_by n p s) = theEBBMemMgrPrimId s" "mem_rep (bump_by n p s) q = mem_rep s q"
  "arena (bump_by n p s) q = arena s q"
  by (simp_all add: bump_by_def Let_def mem_rep_def arena_def)

lemma boot_mem_ok_bump_by [simp]: "boot_mem_ok (bump_by n p s) = boot_mem_ok s"
  by (rule mem_cong(1)) simp_all

lemma bump_by_other:
  "mem_rep s q \<noteq> mem_rep s p \<Longrightarrow> stupid_rep (bump_by n p s) (mem_rep s q) = stupid_rep s (mem_rep s q)"
  by (simp add: bump_by_def Let_def)

lemma bump_by_own:
  assumes "mem_funds mm p k s" "unat n \<le> k"
  shows "unat (stupid_mem (stupid_rep (bump_by n p s) (mem_rep s p))) =
      unat (stupid_mem (stupid_rep s (mem_rep s p))) + unat n"
    "unat (stupid_len (stupid_rep (bump_by n p s) (mem_rep s p))) =
      unat (stupid_len (stupid_rep s (mem_rep s p))) - unat n"
proof -
  let ?m = "stupid_rep s (mem_rep s p)"
  have le: "n \<le> stupid_len ?m" and sum: "unat (stupid_mem ?m) + unat (stupid_len ?m) < 2 ^ 64"
    using assms unsigned_less [of "bm_end (bootMem s ! p)"]
    by (simp_all add: mem_funds_def Let_def word_le_nat_alt)
  then have "unat (stupid_mem ?m) + unat n < 2 ^ 64" by (simp add: word_le_nat_alt)
  then have "unat (stupid_mem ?m + n) = unat (stupid_mem ?m) + unat n"
    using unat_add_of_nat_u64 [of "stupid_mem ?m" "unat n"] by simp
  then show "unat (stupid_mem (stupid_rep (bump_by n p s) (mem_rep s p))) = unat (stupid_mem ?m) + unat n"
    by (simp add: bump_by_def Let_def)
  show "unat (stupid_len (stupid_rep (bump_by n p s) (mem_rep s p))) = unat (stupid_len ?m) - unat n"
    using unat_sub [OF le] by (simp add: bump_by_def Let_def)
qed

lemma mem_avail_eq:
  "a \<in> mem_avail s \<longleftrightarrow>
    (\<exists>p < LRT_PIC_MAX_PICS. unat a \<in> arena s p \<and> stupid_mem (stupid_rep s (mem_rep s p)) \<le> a)"
  by (simp add: mem_avail_def)

lemma bump_avail:
  assumes f: "mem_funds mm p k s" and n: "0 < unat n" "unat n \<le> k"
  defines "a \<equiv> stupid_mem (stupid_rep s (mem_rep s p))"
  shows "a \<noteq> 0 \<and> a \<in> mem_avail s \<and> a \<notin> mem_avail (bump_by n p s) \<and> mem_avail (bump_by n p s) \<subseteq> mem_avail s"
proof -
  note own = bump_by_own [OF f n(2)]
  have bounds: "unat (mem_rep s p) + 32 \<le> unat a" "unat a < unat (bm_end (bootMem s ! p))"
    using f n by (auto simp: mem_funds_def Let_def a_def)
  have arena: "unat a \<in> arena s p" using bounds by (simp add: arena_def mem_rep_def)
  have after: "a < stupid_mem (stupid_rep (bump_by n p s) (mem_rep s p))"
    using own(1) n by (simp add: word_less_nat_alt a_def)
  have other: "stupid_rep (bump_by n p s) (mem_rep s q) = stupid_rep s (mem_rep s q)"
    if "q < LRT_PIC_MAX_PICS" "q \<noteq> p" for q
    using bump_by_other fundsD(9) [OF f that] by blast
  have "a \<noteq> 0" using bounds by auto
  moreover have "a \<in> mem_avail s" unfolding mem_avail_eq using arena fundsD(3) [OF f] a_def by blast
  moreover have "a \<notin> mem_avail (bump_by n p s)"
  proof
    assume "a \<in> mem_avail (bump_by n p s)"
    then obtain q where q: "q < LRT_PIC_MAX_PICS" "unat a \<in> arena s q"
      "stupid_mem (stupid_rep (bump_by n p s) (mem_rep s q)) \<le> a"
      by (auto simp: mem_avail_eq)
    then have "q = p" using arena fundsD(2,3) [OF f] unfolding boot_mem_ok_def by blast
    then show False using q(3) after by simp
  qed
  moreover have "mem_avail (bump_by n p s) \<subseteq> mem_avail s"
  proof
    fix b assume "b \<in> mem_avail (bump_by n p s)"
    then obtain q where q: "q < LRT_PIC_MAX_PICS" "unat b \<in> arena s q"
      "stupid_mem (stupid_rep (bump_by n p s) (mem_rep s q)) \<le> b"
      by (auto simp: mem_avail_eq)
    have "stupid_mem (stupid_rep s (mem_rep s q)) \<le> b"
    proof (cases "q = p")
      case True
      then show ?thesis using after q(3) unfolding a_def by (metis dual_order.strict_implies_order order.trans)
    next
      case False
      then show ?thesis using q other by simp
    qed
    then show "b \<in> mem_avail s" using q by (auto simp: mem_avail_eq)
  qed
  ultimately show ?thesis by blast
qed

lemma bump_funds:
  assumes f: "mem_funds mm p k s" and n: "unat n \<le> k"
  shows "mem_funds mm p (k - unat n) (bump_by n p s)"
    and "q \<noteq> p \<Longrightarrow> mem_funds mm q j s \<Longrightarrow> mem_funds mm q j (bump_by n p s)"
proof -
  show "mem_funds mm p (k - unat n) (bump_by n p s)"
    using f n bump_by_own [OF f n] by (simp add: mem_funds_def Let_def diff_le_mono)
  assume q: "q \<noteq> p" "mem_funds mm q j s"
  have "mem_rep s q \<noteq> mem_rep s p" using fundsD(9) [OF f fundsD(3) [OF q(2)] q(1)] .
  then show "mem_funds mm q j (bump_by n p s)"
    using q bump_by_other [of s q p n] by (simp add: mem_funds_def Let_def)
qed

lemma more_bump_by: "mem_state.more (bump_by n p s) = mem_state.more s"
  by (simp add: bump_by_def Let_def)

lemma same_trans_bump_by: "same_trans s (bump_by n p s)"
  by (simp add: same_trans_def bump_by_def Let_def root_state.defs)

lemma more_mem:
  assumes "root_state.more s' = root_state.more s"
  shows "bootMem s' = bootMem s" "stupid_rep s' = stupid_rep s" "theEBBMemMgrPrimId s' = theEBBMemMgrPrimId s"
    "mem_state.more s' = mem_state.more s"
  using assms by (cases s; cases s'; simp)+

lemma mem_rep_not_avail: "mem_funds mm p k s \<Longrightarrow> mem_rep s p \<notin> mem_avail s"
proof
  assume f: "mem_funds mm p k s" and "mem_rep s p \<in> mem_avail s"
  then obtain q where q: "q < LRT_PIC_MAX_PICS" "unat (mem_rep s p) \<in> arena s q"
    "stupid_mem (stupid_rep s (mem_rep s q)) \<le> mem_rep s p" by (auto simp: mem_avail_eq)
  then have "q = p" using fundsD(2,3,6) [OF f] unfolding boot_mem_ok_def by blast
  then show False using q(3) f by (auto simp: mem_funds_def Let_def word_le_nat_alt)
qed

lemma mem_funds_fields:
  assumes f: "mem_funds mm p k s" and "bootMem s' = bootMem s" "stupid_rep s' = stupid_rep s"
    "theEBBMemMgrPrimId s' = theEBBMemMgrPrimId s" "TransMem s' = TransMem s"
    and "ltab s' (local_entry s p (id_of (TransMem s) mm)) = ltab s (local_entry s p (id_of (TransMem s) mm))"
    and "repft s' (mem_rep s p) = repft s (mem_rep s p)"
  shows "mem_funds mm p k s'"
  using assms by (simp add: mem_funds_def mem_cong [OF assms(2,5)])

lemma mem_funds_cong:
  assumes f: "mem_funds mm p k s" and "root_state.more s' = root_state.more s" "TransMem s' = TransMem s"
    and lt: "\<forall>q < LRT_PIC_MAX_PICS. ltab s' (local_entry s q (id_of (TransMem s) mm)) =
      ltab s (local_entry s q (id_of (TransMem s) mm))"
    and rf: "\<forall>a. a \<notin> mem_avail s \<longrightarrow> repft s' a = repft s a"
  shows "mem_funds mm p k s'"
  by (rule mem_funds_fields [OF f more_mem(1-3) [OF assms(2)] assms(3)])
    (use lt rf fundsD(3) [OF f] mem_rep_not_avail [OF f] in simp_all)

interpretation bump: prim_malloc "EBBPrimMalloc Stupid callmf" mm mem_avail "mem_funds mm" mem_state.more
  for callmf mm
proof
  fix p k and s :: "'a mem_state_scheme" and n :: u64
  assume f: "mem_funds mm p k s" and n: "0 < unat n" "unat n \<le> k"
  show "\<exists>rc a s'. EBBPrimMalloc Stupid callmf p n s = Inr (rc, a, s') \<and> EBBRC_SUCCESS rc \<and> a \<noteq> 0 \<and>
      a \<in> mem_avail s \<and> a \<notin> mem_avail s' \<and> mem_avail s' \<subseteq> mem_avail s \<and> same_trans s s' \<and>
      mem_state.more s' = mem_state.more s \<and> mem_funds mm p (k - unat n) s' \<and> (\<forall>q j. q \<noteq> p \<longrightarrow> mem_funds mm q j s \<longrightarrow> mem_funds mm q j s')"
    using bump_malloc [OF f n(2), of callmf] bump_avail [OF f n] bump_funds [OF f n(2)] same_trans_bump_by more_bump_by
    by (metis EBBRC_SUCCESS_values(1))
next
  fix s' s :: "'a mem_state_scheme"
  assume "root_state.more s' = root_state.more s"
  from more_mem [OF this] show "mem_avail s' = mem_avail s \<and> mem_state.more s' = mem_state.more s" by (simp add: mem_avail_def arena_def mem_rep_def)
next
  fix p k and s s' :: "'a mem_state_scheme"
  assume "mem_funds mm p k s" "root_state.more s' = root_state.more s" "TransMem s' = TransMem s"
    "\<forall>q < LRT_PIC_MAX_PICS. ltab s' (local_entry s q (id_of (TransMem s) mm)) =
      ltab s (local_entry s q (id_of (TransMem s) mm))"
    "\<forall>a. a \<notin> mem_avail s \<longrightarrow> repft s' a = repft s a"
  then show "mem_funds mm p k s'" by (rule mem_funds_cong)
next
  fix p k and s :: "'a mem_state_scheme"
  assume "mem_funds mm p k s"
  then show "mm < num_ids" by (rule fundsD(4))
next
  fix p k a and s :: "'a mem_state_scheme"
  assume f: "mem_funds mm p k s" and "a \<in> mem_avail s"
  then obtain q where "q < LRT_PIC_MAX_PICS" "unat a \<in> arena s q" by (auto simp: mem_avail_eq)
  then show "\<not> is_ltrans_addr s (a - 8)" using fundsD(2) [OF f] unfolding boot_mem_ok_def by blast
qed

end
