(* ===== verification/MemBootProps.thy ===== *)
theory MemBootProps
  imports MemBoot
begin

text \<open>
  The bump manager comes up core by core: the first core to run its initialisation makes and
  binds the id, every core sets up a manager in its own boot memory, caches it and adds it to
  the root. From then on the core can allocate.
\<close>

lemma upd_gt_mem [simp]:
  "theEBBMemMgrPrimId (upd_gt a f s) = theEBBMemMgrPrimId s" "bootMem (upd_gt a f s) = bootMem s"
  "stupid_rep (upd_gt a f s) = stupid_rep s" "multi (upd_gt a f t) = multi t" "repnode (upd_gt a f t) = repnode t"
  "root_ft (upd_gt a f t) = root_ft t" "root_state.more (upd_gt a f t) = root_state.more t"
  by (simp_all add: upd_gt_def)

lemma invalidated_mem [simp]:
  "theEBBMemMgrPrimId (invalidated i P s) = theEBBMemMgrPrimId s" "bootMem (invalidated i P s) = bootMem s"
  "stupid_rep (invalidated i P s) = stupid_rep s" "multi (invalidated i P t) = multi t"
  "repnode (invalidated i P t) = repnode t"
  "root_ft (invalidated i P t) = root_ft t" "root_state.more (invalidated i P t) = root_state.more t"
  by (simp_all add: invalidated_def)

lemma MultiImpInit_sel [simp]:
  "TransMem (CObjEBBRootMultiImpInit a f s) = TransMem s" "gtab (CObjEBBRootMultiImpInit a f s) = gtab s"
  "ltab (CObjEBBRootMultiImpInit a f s) = ltab s" "repft (CObjEBBRootMultiImpInit a f s) = repft s"
  "numlpics (CObjEBBRootMultiImpInit a f s) = numlpics s" "repnode (CObjEBBRootMultiImpInit a f s) = repnode s"
  "root_ft (CObjEBBRootMultiImpInit a f s) = (root_ft s)(a := CObjEBBRootMulti_ftable)"
  "multi (CObjEBBRootMultiImpInit a f s) = (multi s)(a := \<lparr>rm_createRep = f, rm_head = 0, rm_lock = 0\<rparr>)"
  "theRep (CObjEBBRootMultiImpInit a f s) = theRep s"
  "root_state.more (CObjEBBRootMultiImpInit a f s) = root_state.more s"
  by (simp_all add: CObjEBBRootMultiImpInit_def CObjEBBRootMultiSetFT_def)

lemma MultiImpInit_mem [simp]:
  "theEBBMemMgrPrimId (CObjEBBRootMultiImpInit a f s) = theEBBMemMgrPrimId s"
  "bootMem (CObjEBBRootMultiImpInit a f s) = bootMem s" "stupid_rep (CObjEBBRootMultiImpInit a f s) = stupid_rep s"
  by (simp_all add: CObjEBBRootMultiImpInit_def CObjEBBRootMultiSetFT_def upd_multi_def)

subsection \<open>The id\<close>

definition id_made ::
    "nat \<Rightarrow> u64 \<Rightarrow> createrep \<Rightarrow> 'z root_state_scheme \<Rightarrow> 'z root_state_scheme \<Rightarrow> bool" where
  "id_made k root cr s s' \<longleftrightarrow> k < num_ids \<and> \<not> allocated s k \<and> allocated s' k \<and>
     TransMem s' = TransMem s \<and> numlpics s' = numlpics s \<and> repft s' = repft s \<and> repnode s' = repnode s \<and>
     multi s' = (multi s)(root := \<lparr>rm_createRep = cr, rm_head = 0, rm_lock = 0\<rparr>) \<and>
     root_ft s' = (root_ft s)(root := CObjEBBRootMulti_ftable) \<and>
     mf (gtab s' (entry_at (TransMem s) k)) = CObjEBBMissFunc_fp \<and> arg (gtab s' (entry_at (TransMem s) k)) = root"

lemma TransEBBIdAlloc_some:
  assumes "j < myNumGTrans" "\<not> allocated s (p * myNumGTrans + j)"
  obtains i where "i < myNumGTrans" "\<not> allocated s (p * myNumGTrans + i)"
    "TransEBBIdAlloc p s = (id_of (TransMem s) (p * myNumGTrans + i),
      upd_gt (entry_at (TransMem s) (p * myNumGTrans + i)) (\<lambda>g. g\<lparr>free := ALLOCATED\<rparr>) s)"
proof (cases "find (\<lambda>i. free (gtab s (entry_at (myGTable s p) i)) \<noteq> ALLOCATED) [0..<myNumGTrans]")
  case None
  then show thesis using assms unfolding find_upt_None by (simp add: allocated_def entry_at_myGTable)
next
  case (Some i)
  from find_upt_Some [OF this] Some show thesis
    by (intro that [of i]) (simp_all add: TransEBBIdAlloc_def allocated_def entry_at_myGTable gt2id_entry)
qed

lemma memmgr_id_once_first:
  assumes "theEBBMemMgrPrimId s = 0" "trans_mem_fits (TransMem s)" "numlpics s \<le> LRT_PIC_MAX_PICS" "p < numlpics s"
    and "j < myNumGTrans" "\<not> allocated s (p * myNumGTrans + j)"
  shows "\<exists>k s'. memmgr_id_once root cr p s = Inr s' \<and> id_made k root cr s s' \<and>
    theEBBMemMgrPrimId s' = id_of (TransMem s) k \<and> bootMem s' = bootMem s \<and> stupid_rep s' = stupid_rep s"
proof -
  let ?s = "CObjEBBRootMultiImpInit root cr (s\<lparr>theEBBMemMgrPrimId := -1\<rparr>)"
  have p: "p < LRT_PIC_MAX_PICS" using assms(3,4) by simp
  have al: "allocated ?s i \<longleftrightarrow> allocated s i" for i by (simp add: allocated_def)
  obtain i where i: "i < myNumGTrans" "\<not> allocated ?s (p * myNumGTrans + i)"
    "TransEBBIdAlloc p ?s = (id_of (TransMem ?s) (p * myNumGTrans + i),
      upd_gt (entry_at (TransMem ?s) (p * myNumGTrans + i)) (\<lambda>g. g\<lparr>free := ALLOCATED\<rparr>) ?s)"
    using TransEBBIdAlloc_some [of j ?s p] assms(5,6) al by blast
  define k where "k = p * myNumGTrans + i"
  have k: "k < num_ids" unfolding k_def by (rule portion_in_range [OF p i(1)])
  have na: "\<not> allocated s k" using i(2) al by (simp add: k_def)
  define s1 where "s1 = upd_gt (entry_at (TransMem s) k) (\<lambda>g. g\<lparr>free := ALLOCATED\<rparr>) ?s"
  have al1: "EBBAllocPrimIdBoot p ?s = (EBBRC_OK, id_of (TransMem s) k, s1)"
    using i(3) by (simp add: EBBAllocPrimIdBoot_def k_def s1_def)
  have s1: "TransMem s1 = TransMem s" "numlpics s1 = numlpics s" by (simp_all add: s1_def)
  let ?s2 = "invalidated (id_of (TransMem s) k) {..<numlpics s}
      (upd_gt (entry_at (TransMem s) k) (\<lambda>g. g\<lparr>mf := CObjEBBMissFunc_fp, arg := root\<rparr>) s1)"
  have b: "CObjEBBBindBoot p (id_of (TransMem s) k) root s1 = Inr (EBBRC_OK, ?s2)"
    using TransEBBIdBind_eq [of s1 p k CObjEBBMissFunc_fp root] assms(2-4) k s1
    by (simp add: CObjEBBBindBoot_def EBBBindPrimIdBoot_def)
  let ?s3 = "?s2\<lparr>theEBBMemMgrPrimId := id_of (TransMem s) k\<rparr>"
  have "memmgr_id_once root cr p s = Inr ?s3"
    using assms(1) al1 b by (simp add: memmgr_id_once_def CObjEBBRootMultiImpStaticInit_def s1_def)
  moreover have "id_made k root cr s ?s3"
    using k na by (simp add: id_made_def s1_def allocated_def)
  ultimately show ?thesis by (intro exI [of _ k] exI [of _ ?s3]) (simp add: s1_def)
qed

subsection \<open>A core's manager\<close>

definition mgr_up :: "nat \<Rightarrow> u64 \<Rightarrow> 'z mem_state_scheme \<Rightarrow> 'z mem_state_scheme" where
  "mgr_up p root s =
     (let r = mem_rep s p; s = EBBMemMgrPrimSetFT r s;
          s = s\<lparr>stupid_rep := (stupid_rep s)(r := snd (stupid_init_rep r root (bm_end (bootMem s ! p))))\<rparr>
      in EBBCacheObj p (local_entry s p (theEBBMemMgrPrimId s)) r s)"

lemma stupid_init_rest:
  assumes "memmgr_id_once root MemMgrPrimStupid_createRep_fp p s = Inr s1" "p < length (bootMem s1)"
  shows "EBBMemMgrPrimStupidInit callmf root p s =
    rbind (CObjEBBRootMulti_addRepOn (EBBPrimMalloc Stupid callmf) p root p (mem_rep s1 p) (mgr_up p root s1))
      (\<lambda>s. Inr (EBBRC_OK, s))"
  using assms
  by (simp add: EBBMemMgrPrimStupidInit_def lrt_mem_start_def lrt_mem_end_def mgr_up_def mem_rep_def MyEL_def
      stupid_init_rep_def EBBMemMgrPrimSetFT_def Let_def)

lemma EBBCacheObj_mem [simp]:
  "theEBBMemMgrPrimId (EBBCacheObj p lt r s) = theEBBMemMgrPrimId s" "bootMem (EBBCacheObj p lt r s) = bootMem s"
  "stupid_rep (EBBCacheObj p lt r s) = stupid_rep s"
  by (simp_all add: EBBCacheObj_def trans_mark_core_used_def upd_gt_def upd_lt_def Let_def)

lemma mgr_up_sel [simp]:
  "TransMem (mgr_up p root s) = TransMem s" "numlpics (mgr_up p root s) = numlpics s"
  "bootMem (mgr_up p root s) = bootMem s" "theEBBMemMgrPrimId (mgr_up p root s) = theEBBMemMgrPrimId s"
  "multi (mgr_up p root s) = multi s" "repnode (mgr_up p root s) = repnode s" "root_ft (mgr_up p root s) = root_ft s"
  "repft (mgr_up p root s) = (repft s)(mem_rep s p := FT_MemMgrPrim)"
  "mf (gtab (mgr_up p root s) x) = mf (gtab s x)" "arg (gtab (mgr_up p root s) x) = arg (gtab s x)"
  "stupid_rep (mgr_up p root s) = (stupid_rep s)(mem_rep s p :=
     \<lparr>stupid_myRoot = root, stupid_mem = mem_rep s p + 32, stupid_len = bm_end (bootMem s ! p) - (mem_rep s p + 32)\<rparr>)"
  "ltab (mgr_up p root s) = (ltab s)(local_entry s p (theEBBMemMgrPrimId s) :=
     (ltab s (local_entry s p (theEBBMemMgrPrimId s)))\<lparr>obj := mem_rep s p\<rparr>)"
  "mem_rep (mgr_up p root s) q = mem_rep s q" "arena (mgr_up p root s) q = arena s q"
  by (simp_all add: mgr_up_def EBBMemMgrPrimSetFT_def Let_def mem_rep_def arena_def stupid_init_rep_def
      sizeof_EBBMemMgrPrimStupid_def)

lemma boot_mem_ok_mgr_up [simp]: "boot_mem_ok (mgr_up p root s) = boot_mem_ok s"
  by (rule mem_cong(1)) simp_all

lemma boot_mem_own:
  assumes "boot_mem_ok s" "p < LRT_PIC_MAX_PICS" "q < LRT_PIC_MAX_PICS" "q \<noteq> p" "mem_rep s p \<noteq> 0"
  shows "mem_rep s q \<noteq> mem_rep s p"
proof
  assume eq: "mem_rep s q = mem_rep s p"
  have arena: "unat (mem_rep s r) \<in> arena s r" if "r < LRT_PIC_MAX_PICS" "mem_rep s r \<noteq> 0" for r
  proof -
    have "unat (mem_rep s r) + 32 \<le> unat (bm_end (bootMem s ! r))"
      using assms(1) that unfolding boot_mem_ok_def mem_rep_def by blast
    then show ?thesis by (simp add: arena_def mem_rep_def)
  qed
  have "unat (mem_rep s p) \<in> arena s p" using arena assms by blast
  moreover have "unat (mem_rep s p) \<in> arena s q" using arena [of q] assms eq by simp
  moreover have "arena s p \<inter> arena s q = {}" using assms unfolding boot_mem_ok_def by metis
  ultimately show False by blast
qed

lemma mgr_up_funds:
  assumes "trans_mem_fits (TransMem s)" "boot_mem_ok s" "p < LRT_PIC_MAX_PICS" "mm < num_ids"
    "theEBBMemMgrPrimId s = id_of (TransMem s) mm" "mem_rep s p \<noteq> 0"
  shows "mem_funds mm p (unat (bm_end (bootMem s ! p)) - unat (mem_rep s p) - 32) (mgr_up p root s)"
proof -
  let ?r = "mem_rep s p" and ?e = "bm_end (bootMem s ! p)"
  have fit: "unat ?r + 32 \<le> unat ?e" using assms(2,3,6) unfolding boot_mem_ok_def mem_rep_def by blast
  have m: "unat (?r + 32) = unat ?r + 32"
    using unat_add_of_nat_u64 [of ?r 32] fit unsigned_less [of ?e, where ?'a = nat] by simp
  have l: "unat (?e - (?r + 32)) = unat ?e - (unat ?r + 32)"
    using unat_sub [of "?r + 32" ?e] m fit by (simp add: word_le_nat_alt)
  show ?thesis using assms m l fit by (simp add: mem_funds_def Let_def)
qed

lemma mgr_up_other:
  assumes "mem_funds mm q k s" "q \<noteq> p" "p < LRT_PIC_MAX_PICS" "mem_rep s p \<noteq> 0"
  shows "mem_funds mm q k (mgr_up p root s)"
proof -
  note d = fundsD [OF assms(1)]
  have "mem_rep s q \<noteq> mem_rep s p" by (rule d(9) [OF assms(3), symmetric]) (use assms(2) in simp)
  moreover have "local_entry s q (id_of (TransMem s) mm) \<noteq> local_entry s p (id_of (TransMem s) mm)"
    using local_entry_inj [OF d(1,3) assms(3) d(4,4)] assms(2) by blast
  ultimately show ?thesis using assms(1) d(5) by (simp add: mem_funds_def Let_def)
qed

lemma mgr_up_avail:
  assumes "stupid_mem (stupid_rep s (mem_rep s p)) = 0"
  shows "mem_avail (mgr_up p root s) \<subseteq> mem_avail s"
proof
  fix a assume "a \<in> mem_avail (mgr_up p root s)"
  then obtain q where q: "q < LRT_PIC_MAX_PICS" "unat a \<in> arena s q"
    "stupid_mem (stupid_rep (mgr_up p root s) (mem_rep s q)) \<le> a" by (auto simp: mem_avail_eq)
  have "stupid_mem (stupid_rep s (mem_rep s q)) \<le> a"
    using q(3) assms by (cases "mem_rep s q = mem_rep s p") auto
  then show "a \<in> mem_avail s" using q by (auto simp: mem_avail_eq)
qed

subsection \<open>All cores\<close>

text \<open>The cores \<open>ds\<close> have their managers: \<open>as\<close> are the nodes of the root's list.\<close>

definition managers_up :: "nat \<Rightarrow> u64 \<Rightarrow> u64 list \<Rightarrow> nat list \<Rightarrow> 'z mem_state_scheme \<Rightarrow> bool" where
  "managers_up mm root as ds s \<longleftrightarrow>
     trans_mem_fits (TransMem s) \<and> boot_mem_ok s \<and> mm < num_ids \<and>
     theEBBMemMgrPrimId s = id_of (TransMem s) mm \<and>
     mf (gtab s (entry_at (TransMem s) mm)) = CObjEBBMissFunc_fp \<and> arg (gtab s (entry_at (TransMem s) mm)) = root \<and>
     root_ft s root = CObjEBBRootMulti_ftable \<and> rm_lock (multi s root) = 0 \<and>
     chain (repnode s) (rm_head (multi s root)) as \<and>
     map (node_entry (repnode s)) as = map (\<lambda>q. (q, mem_rep s q)) ds \<and> set as \<inter> mem_avail s = {} \<and>
     (\<forall>q \<in> set ds. mem_funds mm q (unat (bm_end (bootMem s ! q)) - unat (mem_rep s q) - 56) s) \<and>
     (\<forall>q < LRT_PIC_MAX_PICS. q \<notin> set ds \<longrightarrow> stupid_mem (stupid_rep s (mem_rep s q)) = 0)"

lemma push_rep_mem [simp]:
  "theEBBMemMgrPrimId (push_rep root a p r h s) = theEBBMemMgrPrimId s"
  "bootMem (push_rep root a p r h s) = bootMem s" "stupid_rep (push_rep root a p r h s) = stupid_rep s"
  by (simp_all add: push_rep_def upd_multi_def)

lemma locked_root_sel [simp]:
  "TransMem (locked_root root s) = TransMem s" "gtab (locked_root root s) = gtab s"
  "root_ft (locked_root root s) = root_ft s" "repnode (locked_root root s) = repnode s"
  "multi (locked_root root s) = (multi s)(root := (multi s root)\<lparr>rm_lock := 1\<rparr>)"
  "ltab (locked_root root s) = ltab s" "repft (locked_root root s) = repft s"
  "root_state.more (locked_root root s) = root_state.more s" "numlpics (locked_root root s) = numlpics s"
  "theRep (locked_root root s) = theRep s"
  by (simp_all add: locked_root_def)

text \<open>The allocation of the list node comes from the core's own manager.\<close>

lemma addRepOn_bump:
  assumes f: "mem_funds mm p k s" "24 \<le> k" and "rm_lock (multi s root) = 0"
  shows "CObjEBBRootMulti_addRepOn (EBBPrimMalloc Stupid callmf) p root e r s =
    Inr (push_rep root (stupid_mem (stupid_rep s (mem_rep s p))) e r (rm_head (multi s root))
      (bump_by sizeof_RepListNode p (locked_root root s)))"
proof -
  have f': "mem_funds mm p k (locked_root root s)" using f bump.locked_root_same(1) by blast
  have sz: "unat sizeof_RepListNode = 24" "0 < unat sizeof_RepListNode" by (simp_all add: sizeof_RepListNode_def)
  have m: "mem_rep (locked_root root s) p = mem_rep s p" "stupid_rep (locked_root root s) = stupid_rep s"
    by (simp_all add: mem_rep_def locked_root_def upd_multi_def)
  have a: "stupid_mem (stupid_rep s (mem_rep s p)) \<noteq> 0"
    using bump_avail [OF f' sz(2)] sz f(2) m by simp
  have mu: "multi (bump_by sizeof_RepListNode p (locked_root root s)) = multi (locked_root root s)"
    by (simp add: bump_by_def Let_def)
  have al: "EBBPrimMalloc Stupid callmf p sizeof_RepListNode (locked_root root s) =
      Inr (EBBRC_OK, stupid_mem (stupid_rep s (mem_rep s p)), bump_by sizeof_RepListNode p (locked_root root s))"
    using bump_malloc [OF f', of sizeof_RepListNode callmf] sz f(2) m by simp
  show ?thesis
    using locked_AddRepOn_eq [of "locked_root root s" root "EBBPrimMalloc Stupid callmf" p EBBRC_OK, OF _ al _ a mu, of e r]
      assms(3)
    by (simp add: CObjEBBRootMulti_addRepOn_def lockReps_def locked_root_def)
qed

lemma add_manager:
  assumes up: "managers_up mm root as ds s" and p: "p < LRT_PIC_MAX_PICS" "p \<notin> set ds" "mem_rep s p \<noteq> 0"
    and sz: "unat (mem_rep s p) + 56 \<le> unat (bm_end (bootMem s ! p))"
  shows "\<exists>a s'. CObjEBBRootMulti_addRepOn (EBBPrimMalloc Stupid callmf) p root p (mem_rep s p) (mgr_up p root s) = Inr s' \<and>
    managers_up mm root (a # as) (p # ds) s' \<and> bootMem s' = bootMem s \<and> TransMem s' = TransMem s \<and>
    numlpics s' = numlpics s"
proof -
  note d = up [unfolded managers_up_def]
  let ?u = "mgr_up p root s" and ?k = "unat (bm_end (bootMem s ! p)) - unat (mem_rep s p) - 32"
  have z: "stupid_mem (stupid_rep s (mem_rep s p)) = 0" using d p by blast
  have f: "mem_funds mm p ?k ?u" by (rule mgr_up_funds) (use d p in blast)+
  have lk: "rm_lock (multi ?u root) = 0" "chain (repnode ?u) (rm_head (multi ?u root)) as"
    "set as \<inter> mem_avail ?u = {}" using d mgr_up_avail [OF z, of root] by auto
  have k: "24 \<le> ?k" using sz by simp
  let ?a = "stupid_mem (stupid_rep ?u (mem_rep ?u p))"
  let ?s = "push_rep root ?a p (mem_rep s p) (rm_head (multi ?u root)) (bump_by sizeof_RepListNode p (locked_root root ?u))"
  have add: "CObjEBBRootMulti_addRepOn (EBBPrimMalloc Stupid callmf) p root p (mem_rep s p) ?u = Inr ?s"
    by (rule addRepOn_bump [OF f k lk(1)])
  obtain a s2 where c: "Inr ?s = (Inr (push_rep root a p (mem_rep s p) (rm_head (multi ?u root)) s2) :: fault + 'a mem_state_scheme)"
    "chain (repnode (push_rep root a p (mem_rep s p) (rm_head (multi ?u root)) s2)) a (a # as)"
    "map (node_entry (repnode (push_rep root a p (mem_rep s p) (rm_head (multi ?u root)) s2))) (a # as) =
      (p, mem_rep s p) # map (node_entry (repnode ?u)) as"
    "set (a # as) \<inter> mem_avail (push_rep root a p (mem_rep s p) (rm_head (multi ?u root)) s2) = {}"
    "mem_funds mm p (?k - 24) (push_rep root a p (mem_rep s p) (rm_head (multi ?u root)) s2)"
    "\<forall>q j. q \<noteq> p \<longrightarrow> mem_funds mm q j ?u \<longrightarrow>
      mem_funds mm q j (push_rep root a p (mem_rep s p) (rm_head (multi ?u root)) s2)"
    using bump.addRepOn_ok [OF f k lk, of callmf p "mem_rep s p"] unfolding add
    by (elim exE conjE) (rule that)
  define s' where "s' = push_rep root a p (mem_rep s p) (rm_head (multi ?u root)) s2"
  have s': "s' = ?s" using c(1) by (simp add: s'_def)
  have mt: "multi (bump_by n p t) = multi t" "repnode (bump_by n p t) = repnode t" "gtab (bump_by n p t) = gtab t"
    "root_ft (bump_by n p t) = root_ft t" "numlpics (bump_by n p t) = numlpics t" for n and t :: "'a mem_state_scheme"
    by (simp_all add: bump_by_def Let_def)
  have lr: "theEBBMemMgrPrimId (locked_root root t) = theEBBMemMgrPrimId t" "bootMem (locked_root root t) = bootMem t"
    "stupid_rep (locked_root root t) = stupid_rep t" for t :: "'a mem_state_scheme"
    by (simp_all add: locked_root_def upd_multi_def)
  have same: "TransMem s' = TransMem s" "bootMem s' = bootMem s" "theEBBMemMgrPrimId s' = theEBBMemMgrPrimId s"
    "numlpics s' = numlpics s" "root_ft s' = root_ft s"
    "mf (gtab s' x) = mf (gtab s x)" "arg (gtab s' x) = arg (gtab s x)" for x
    unfolding s' by (simp_all add: mt lr)
  have head: "rm_head (multi s' root) = a" "rm_lock (multi s' root) = 0"
    by (simp_all add: s'_def)
  have rep: "mem_rep s' q = mem_rep s q" for q using same by (simp add: mem_rep_def)
  have "boot_mem_ok s' = boot_mem_ok s" by (rule mem_cong(1)) (simp_all add: same)
  moreover have "mem_funds mm q (unat (bm_end (bootMem s ! q)) - unat (mem_rep s q) - 56) s'" if "q \<in> set (p # ds)" for q
  proof (cases "q = p")
    case True
    have "?k - 24 = unat (bm_end (bootMem s ! p)) - unat (mem_rep s p) - 56" by simp
    then show ?thesis using c(5) True by (simp add: s'_def)
  next
    case False
    then have "mem_funds mm q (unat (bm_end (bootMem s ! q)) - unat (mem_rep s q) - 56) s" using d that by simp
    then show ?thesis using c(6) mgr_up_other [OF _ False p(1,3)] False unfolding s'_def by blast
  qed
  moreover have "stupid_mem (stupid_rep s' (mem_rep s q)) = 0" if "q < LRT_PIC_MAX_PICS" "q \<notin> set (p # ds)" for q
  proof -
    have ne: "mem_rep s q \<noteq> mem_rep s p" by (rule boot_mem_own) (use d p that in auto)
    have "stupid_rep s' (mem_rep s q) = stupid_rep s (mem_rep s q)"
      using bump_by_other [of "locked_root root ?u" q p sizeof_RepListNode] ne
      by (simp add: s' mem_rep_def lr)
    then show ?thesis using d that by simp
  qed
  moreover have "map (node_entry (repnode s')) (a # as) = map (\<lambda>q. (q, mem_rep s q)) (p # ds)"
    using c(3) d by (simp add: s'_def)
  moreover have "chain (repnode s') (rm_head (multi s' root)) (a # as)" "set (a # as) \<inter> mem_avail s' = {}"
    using c(2,4) head(1) unfolding s'_def [symmetric] by simp_all
  ultimately have "managers_up mm root (a # as) (p # ds) s'"
    using d head(2) unfolding managers_up_def same rep by simp
  then show ?thesis using add same unfolding s' by blast
qed

text \<open>The cores run their initialisation one after the other.\<close>

fun init_all ::
    "'z mem_state_scheme callmf \<Rightarrow> u64 \<Rightarrow> nat list \<Rightarrow> 'z mem_state_scheme \<Rightarrow> 'z mem_state_scheme res" where
  "init_all callmf root [] s = Inr s"
| "init_all callmf root (p # ps) s =
     rbind (EBBMemMgrPrimInit Stupid callmf root p s) (\<lambda>(rc, s). init_all callmf root ps s)"

definition core_mem_ok :: "'z mem_state_scheme \<Rightarrow> nat \<Rightarrow> bool" where
  "core_mem_ok s p \<longleftrightarrow> p < LRT_PIC_MAX_PICS \<and> mem_rep s p \<noteq> 0 \<and>
     unat (mem_rep s p) + 56 \<le> unat (bm_end (bootMem s ! p))"

lemma core_mem_ok_cong: "bootMem s' = bootMem s \<Longrightarrow> core_mem_ok s' p = core_mem_ok s p"
  by (simp add: core_mem_ok_def mem_rep_def)

lemma id_of_not_minus_one:
  assumes "trans_mem_fits tm" "k < num_ids"
  shows "id_of tm k \<noteq> - 1"
proof
  assume a: "id_of tm k = -1"
  have "lrt_trans_id2lt tm 0 (id_of tm k) = id_of tm k" by (simp add: lrt_trans_defs)
  then have "unat (id_of tm k) = unat tm + 1 * LRT_TRANS_TBLSIZE + k * sizeof_lrt_trans"
    using unat_id2lt_id_of [OF assms(1) _ assms(2), of 0] by (simp add: trans_size_values)
  moreover have "unat tm + 65 * LRT_TRANS_TBLSIZE < 2 ^ 64"
    using assms(1) by (simp add: trans_mem_fits_def trans_size_values)
  moreover have "k * sizeof_lrt_trans < LRT_TRANS_TBLSIZE" using assms(2) by (simp add: trans_size_values)
  moreover have "unat (- 1 :: u64) = 2 ^ 64 - 1" by (simp add: unsigned_minus_1_eq_mask mask_eq_exp_minus_1)
  ultimately show False using a by (simp add: trans_size_values)
qed

lemma init_later:
  assumes up: "managers_up mm root as ds s" and p: "core_mem_ok s p" "p \<notin> set ds"
  shows "\<exists>a s'. EBBMemMgrPrimInit Stupid callmf root p s = Inr (EBBRC_OK, s') \<and>
    managers_up mm root (a # as) (p # ds) s' \<and> bootMem s' = bootMem s \<and> TransMem s' = TransMem s \<and>
    numlpics s' = numlpics s"
proof -
  note d = up [unfolded managers_up_def]
  have "theEBBMemMgrPrimId s \<noteq> 0" "theEBBMemMgrPrimId s \<noteq> -1"
    using id_of_nonnull [of "TransMem s" mm] id_of_not_minus_one [of "TransMem s" mm] d by auto
  then have once: "memmgr_id_once root MemMgrPrimStupid_createRep_fp p s = Inr s"
    by (simp add: memmgr_id_once_def)
  have len: "p < length (bootMem s)" using d p by (simp add: boot_mem_ok_def core_mem_ok_def)
  show ?thesis
    using add_manager [OF up _ p(2), of callmf] p(1) stupid_init_rest [OF once len, of callmf]
    by (auto simp: core_mem_ok_def EBBMemMgrPrimInit_def)
qed

lemma init_later_all:
  assumes "managers_up mm root as ds s" "\<forall>p \<in> set ps. core_mem_ok s p" "distinct ps" "set ps \<inter> set ds = {}"
  shows "\<exists>as' s'. init_all callmf root ps s = Inr s' \<and> managers_up mm root as' (rev ps @ ds) s' \<and>
    bootMem s' = bootMem s \<and> TransMem s' = TransMem s \<and> numlpics s' = numlpics s"
  using assms
proof (induction ps arbitrary: as ds s)
  case (Cons p ps)
  obtain a s1 where i: "EBBMemMgrPrimInit Stupid callmf root p s = Inr (EBBRC_OK, s1)"
    "managers_up mm root (a # as) (p # ds) s1" "bootMem s1 = bootMem s" "TransMem s1 = TransMem s"
    "numlpics s1 = numlpics s"
    using init_later [OF Cons.prems(1), of p callmf] Cons.prems by auto
  have "\<forall>p \<in> set ps. core_mem_ok s1 p" using Cons.prems(2) core_mem_ok_cong [OF i(3)] by simp
  from Cons.IH [OF i(2) this] Cons.prems obtain as' s' where
    "init_all callmf root ps s1 = Inr s'" "managers_up mm root as' (rev ps @ p # ds) s'"
    "bootMem s' = bootMem s1" "TransMem s' = TransMem s1" "numlpics s' = numlpics s1"
    by auto
  then show ?case using i by auto
qed auto

lemma once_managers_up:
  assumes "memmgr_id_once root cr p s = Inr s1" "id_made k root cr s s1" "theEBBMemMgrPrimId s1 = id_of (TransMem s) k"
    "bootMem s1 = bootMem s" "stupid_rep s1 = stupid_rep s" "trans_mem_fits (TransMem s)" "boot_mem_ok s"
    "\<forall>q < LRT_PIC_MAX_PICS. stupid_mem (stupid_rep s (mem_rep s q)) = 0"
  shows "managers_up k root [] [] s1"
proof -
  note m = assms(2) [unfolded id_made_def]
  have "boot_mem_ok s1 = boot_mem_ok s" by (rule mem_cong(1)) (use assms(4) m in simp_all)
  then show ?thesis using assms m by (simp add: managers_up_def mem_rep_def)
qed


subsection \<open>Witness\<close>

definition demo_root_node :: RepListNode_s where
  "demo_root_node = \<lparr>node_rep = 0, node_el = 0, node_next = 0\<rparr>"

definition demo_root_state :: root_state where
  "demo_root_state = trans_state.extend demo_trans
     \<lparr>root_ft = (\<lambda>a. RootFT_none), multi = (\<lambda>a. \<lparr>rm_createRep = CR_other 0, rm_head = 0, rm_lock = 0\<rparr>),
      theRep = (\<lambda>a. 0), repnode = (\<lambda>a. demo_root_node)\<rparr>"

definition demo_boot :: "BootMemDesc list" where
  "demo_boot = [\<lparr>bm_start = 0x100000000, bm_end = 0x100400000\<rparr>, \<lparr>bm_start = 0x100400000, bm_end = 0x100800000\<rparr>] @
     replicate 62 \<lparr>bm_start = 0, bm_end = 0\<rparr>"

definition demo_mem :: mem_state where
  "demo_mem = root_state.extend demo_root_state
     \<lparr>theEBBMemMgrPrimId = 0, bootMem = demo_boot,
      stupid_rep = (\<lambda>a. \<lparr>stupid_myRoot = 0, stupid_mem = 0, stupid_len = 0\<rparr>),
      simple_rep = (\<lambda>a. \<lparr>simple_myRoot = 0, simple_mem = 0, simple_end = 0\<rparr>), mm_heap = (\<lambda>a. 0)\<rparr>"

lemma demo_mem_simps [simp]:
  "TransMem demo_mem = 0x10000" "numlpics demo_mem = 2" "gtab demo_mem = (\<lambda>a. gtrans_zero)"
  "ltab demo_mem = default_lt" "theEBBMemMgrPrimId demo_mem = 0" "bootMem demo_mem = demo_boot"
  "stupid_mem (stupid_rep demo_mem a) = 0"
  by (simp_all add: demo_mem_def demo_root_state_def demo_trans_def pic_state.defs trans_state.defs root_state.defs
      demo_pic_def)

lemma demo_boot_nth:
  "p < 64 \<Longrightarrow> demo_boot ! p = (if p = 0 then \<lparr>bm_start = 0x100000000, bm_end = 0x100400000\<rparr>
     else if p = 1 then \<lparr>bm_start = 0x100400000, bm_end = 0x100800000\<rparr> else \<lparr>bm_start = 0, bm_end = 0\<rparr>)"
  by (auto simp: demo_boot_def nth_Cons' nth_append)

lemma demo_arena:
  "p < 64 \<Longrightarrow> arena demo_mem p = (if p = 0 then {4294967296..<4299161600} else if p = 1 then {4299161600..<4303355904} else {})"
  by (simp add: arena_def demo_boot_nth)

lemma demo_not_ltrans:
  assumes "4294967296 \<le> unat a" "unat a < 4303355904"
  shows "\<not> is_ltrans_addr demo_mem (a - 8)"
proof -
  have "unat (a - 8 - (0x10000 + 0x100000)) = unat a - 8 - 1114112"
    using assms by (simp add: unat_sub word_le_nat_alt)
  then show ?thesis using assms
    by (simp add: is_ltrans_addr_def TransMem_LMem_def trans_size_values Let_def)
qed

lemma demo_boot_mem_ok: "boot_mem_ok demo_mem"
proof -
  have "length demo_boot = 64" by (simp add: demo_boot_def)
  moreover have "\<not> is_ltrans_addr demo_mem (a - 8)" if "p < 64" "unat a \<in> arena demo_mem p" for a p
    using demo_not_ltrans [of a] that by (auto simp: demo_arena split: if_splits)
  ultimately show ?thesis
    by (auto simp: boot_mem_ok_def trans_size_values demo_arena demo_boot_nth)
qed

lemma demo_mem_fits: "trans_mem_fits (TransMem demo_mem)"
  using demo_trans_fits by simp

lemma demo_core_mem: "core_mem_ok demo_mem 0" "core_mem_ok demo_mem 1"
  by (simp_all add: core_mem_ok_def mem_rep_def demo_boot_nth trans_size_values)


end
