(* ===== verification/EbbMgr.thy ===== *)
theory EbbMgr
  imports MemBootProps
begin

text \<open>
  The Ebb manager (\<open>l0/EBBMgrPrim.c\<close>): the Ebb through which ids are allocated and bound after
  boot. Its functions have the numbers of their place in the function table.
\<close>

record ebbmgr_state = mem_state +
  theEBBMgrPrimId :: u64
  ebbmgr_theRoot :: "u64 \<Rightarrow> u64"

definition sizeof_EBBMgrPrimImp :: u64 where "sizeof_EBBMgrPrimImp = 16"

definition AllocId :: "nat \<Rightarrow> 'z trans_state_scheme \<Rightarrow> ebbrc \<times> u64 \<times> 'z trans_state_scheme" where
  "AllocId myid s = (let (i, s) = TransEBBIdAlloc myid s in (EBBRC_OK, i, s))"

definition FreeId :: "u64 \<Rightarrow> 'z trans_state_scheme \<Rightarrow> ebbrc \<times> 'z trans_state_scheme" where
  "FreeId i s = (EBBRC_OK, TransEBBIdFree i s)"

definition BindId ::
    "nat \<Rightarrow> u64 \<Rightarrow> missfn \<Rightarrow> u64 \<Rightarrow> 'z trans_state_scheme \<Rightarrow> (ebbrc \<times> 'z trans_state_scheme) res" where
  "BindId myid i m a s = rbind (TransEBBIdBind myid i m a s) (\<lambda>s. Inr (EBBRC_OK, s))"

text \<open>The message that it is not implemented is not modelled.\<close>

definition UnBindId :: "u64 \<Rightarrow> 'z trans_state_scheme \<Rightarrow> ebbrc \<times> 'z trans_state_scheme" where
  "UnBindId i s = (EBBRC_OK, s)"

definition EBBDestroyPrimId :: "u64 \<Rightarrow> 'z trans_state_scheme \<Rightarrow> ebbrc \<times> 'z trans_state_scheme" where
  "EBBDestroyPrimId i s = (0, s)"

definition EBBMgrPrimImp_createRep ::
    "'z ebbmgr_state_scheme malloc \<Rightarrow> nat \<Rightarrow> u64 \<Rightarrow> 'z ebbmgr_state_scheme \<Rightarrow> (u64 \<times> 'z ebbmgr_state_scheme) res" where
  "EBBMgrPrimImp_createRep malloc myid self s =
     rbind (malloc myid sizeof_EBBMgrPrimImp s) (\<lambda>(rc, a, s).
     if a = 0 then Inl NullDeref
     else Inr (a, s\<lparr>repft := (repft s)(a := FT_EBBMgrPrim), ebbmgr_theRoot := (ebbmgr_theRoot s)(a := self)\<rparr>))"

text \<open>The \<open>createRep\<close> functions known so far: the managers that must never miss assert 0.\<close>

definition ebbmgr_createReps ::
    "'z ebbmgr_state_scheme malloc \<Rightarrow> 'z ebbmgr_state_scheme callcr \<Rightarrow> 'z ebbmgr_state_scheme callcr" where
  "ebbmgr_createReps malloc other cr myid root s =
     (case cr of
        EBBMgrPrimImp_createRep_fp \<Rightarrow> EBBMgrPrimImp_createRep malloc myid root s
      | MemMgrPrimStupid_createRep_fp \<Rightarrow> Inl AssertFail
      | MemMgrPrimRB_createRep_fp \<Rightarrow> Inl AssertFail
      | EventMgrPrimImp_createRepAssert_fp \<Rightarrow> Inl AssertFail
      | MsgMgrPrim_createRepAssert_fp \<Rightarrow> Inl AssertFail
      | _ \<Rightarrow> other cr myid root s)"

subsection \<open>Calls of the manager\<close>

definition EBBAllocPrimId ::
    "'z ebbmgr_state_scheme callmf \<Rightarrow> nat \<Rightarrow> 'z ebbmgr_state_scheme \<Rightarrow> (ebbrc \<times> u64 \<times> 'z ebbmgr_state_scheme) res" where
  "EBBAllocPrimId callmf myid s =
     rbind (EBBCALL callmf myid (theEBBMgrPrimId s) 0 s) (\<lambda>(c, s).
     case c of
       Failed rc \<Rightarrow> Inr (rc, 0, s)
     | Called f r \<Rightarrow> if f = Method FT_EBBMgrPrim 0 then Inr (AllocId myid s) else Inl NullDeref)"

definition EBBBindPrimId ::
    "'z ebbmgr_state_scheme callmf \<Rightarrow> nat \<Rightarrow> u64 \<Rightarrow> missfn \<Rightarrow> u64 \<Rightarrow> 'z ebbmgr_state_scheme \<Rightarrow>
     (ebbrc \<times> 'z ebbmgr_state_scheme) res" where
  "EBBBindPrimId callmf myid i m a s =
     rbind (EBBCALL callmf myid (theEBBMgrPrimId s) 2 s) (\<lambda>(c, s).
     case c of
       Failed rc \<Rightarrow> Inr (rc, s)
     | Called f r \<Rightarrow> if f = Method FT_EBBMgrPrim 2 then BindId myid i m a s else Inl NullDeref)"

definition CObjEBBBind ::
    "'z ebbmgr_state_scheme callmf \<Rightarrow> nat \<Rightarrow> u64 \<Rightarrow> u64 \<Rightarrow> 'z ebbmgr_state_scheme \<Rightarrow>
     (ebbrc \<times> 'z ebbmgr_state_scheme) res" where
  "CObjEBBBind callmf myid i root s = EBBBindPrimId callmf myid i CObjEBBMissFunc_fp root s"

definition CPlusEBBBind ::
    "'z ebbmgr_state_scheme callmf \<Rightarrow> nat \<Rightarrow> u64 \<Rightarrow> u64 \<Rightarrow> 'z ebbmgr_state_scheme \<Rightarrow>
     (ebbrc \<times> 'z ebbmgr_state_scheme) res" where
  "CPlusEBBBind callmf myid i root s = EBBBindPrimId callmf myid i CPlusEBBMissFunc_fp root s"

text \<open>
  The core that finds the id 0 makes it; the others spin, but on the id of the memory manager, as
  the source does.
\<close>

definition EBBMgrPrimInit ::
    "'z ebbmgr_state_scheme malloc \<Rightarrow> nat \<Rightarrow> 'z ebbmgr_state_scheme \<Rightarrow> (ebbrc \<times> 'z ebbmgr_state_scheme) res" where
  "EBBMgrPrimInit malloc myid s =
     (if theEBBMgrPrimId s = 0 then
        let s = s\<lparr>theEBBMgrPrimId := -1\<rparr>
        in rbind (CObjEBBRootMultiImpCreate malloc myid EBBMgrPrimImp_createRep_fp s) (\<lambda>(rc, rootRef, s).
           rbind (lrt_assert (EBBRC_SUCCESS rc)) (\<lambda>_.
           let (rc, i, s) = EBBAllocPrimIdBoot myid s
           in rbind (lrt_assert (EBBRC_SUCCESS rc)) (\<lambda>_.
           rbind (EBBBindPrimIdBoot myid i CObjEBBMissFunc_fp rootRef s) (\<lambda>(rc, s).
           rbind (lrt_assert (EBBRC_SUCCESS rc)) (\<lambda>_.
           Inr (rc, s\<lparr>theEBBMgrPrimId := i\<rparr>))))))
      else if theEBBMemMgrPrimId s = -1 then Inl Blocked
      else Inr (EBBRC_OK, s))"

subsection \<open>The manager keeps the contract of representatives\<close>

definition ebbmgr_made :: "nat \<Rightarrow> u64 \<Rightarrow> 'z ebbmgr_state_scheme \<Rightarrow> 'z ebbmgr_state_scheme" where
  "ebbmgr_made p root s = (bump_by sizeof_EBBMgrPrimImp p s)
     \<lparr>repft := (repft s)(stupid_mem (stupid_rep s (mem_rep s p)) := FT_EBBMgrPrim),
      ebbmgr_theRoot := (ebbmgr_theRoot s)(stupid_mem (stupid_rep s (mem_rep s p)) := root)\<rparr>"

text \<open>An object of \<open>n\<close> bytes from the core's arena, set up without touching anything older.\<close>

lemma made_object:
  assumes f: "mem_funds mm p k s" and n: "0 < unat n" "unat n \<le> k"
  defines "a \<equiv> stupid_mem (stupid_rep s (mem_rep s p))"
  assumes s': "bootMem s' = bootMem s" "stupid_rep s' = stupid_rep (bump_by n p s)"
    "theEBBMemMgrPrimId s' = theEBBMemMgrPrimId s" "same_roots (bump_by n p s) s'" "\<forall>b. b \<noteq> a \<longrightarrow> repft s' b = repft s b"
  shows "a \<noteq> 0 \<and> a \<in> mem_avail s \<and> a \<notin> mem_avail s' \<and> mem_avail s' \<subseteq> mem_avail s \<and> same_roots s s' \<and>
    (\<forall>b. b \<notin> mem_avail s \<longrightarrow> repft s' b = repft s b) \<and>
    mem_funds mm p (k - unat n) s' \<and> (\<forall>q j. q \<noteq> p \<longrightarrow> mem_funds mm q j s \<longrightarrow> mem_funds mm q j s')"
proof -
  have b: "a \<noteq> 0 \<and> a \<in> mem_avail s \<and> a \<notin> mem_avail (bump_by n p s) \<and> mem_avail (bump_by n p s) \<subseteq> mem_avail s"
    unfolding a_def by (rule bump_avail [OF f n])
  have av: "mem_avail s' = mem_avail (bump_by n p s)"
    using s'(1,2) by (simp add: mem_avail_def arena_def mem_rep_def)
  note sr = same_roots_sel [OF s'(4)]
  have "same_roots s s'"
    using s'(4) by (simp add: same_roots_def bump_by_def Let_def root_state.defs)
  moreover have keep: "mem_funds mm q j s'" if g: "mem_funds mm q j (bump_by n p s)" "mem_funds mm q i s" for q i j
  proof (rule mem_funds_fields [OF g(1)])
    have "mem_rep s q \<noteq> a" using mem_rep_not_avail [OF g(2)] b by blast
    then show "repft s' (mem_rep (bump_by n p s) q) = repft (bump_by n p s) (mem_rep (bump_by n p s) q)"
      using s'(5) by simp
  qed (use s'(1-3) sr in simp_all)
  moreover have "mem_funds mm p (k - unat n) s'" by (rule keep [OF bump_funds(1) [OF f n(2)] f])
  moreover have "mem_funds mm q j s'" if "q \<noteq> p" "mem_funds mm q j s" for q j
    by (rule keep [OF bump_funds(2) [OF f n(2) that] that(2)])
  moreover have "\<forall>b. b \<notin> mem_avail s \<longrightarrow> repft s' b = repft s b" using b s'(5) by metis
  ultimately show ?thesis using b av by blast
qed

lemma ebbmgr_maker:
  fixes root :: u64
  assumes f: "mem_funds mm p k s" and k: "16 \<le> k"
  defines "a \<equiv> stupid_mem (stupid_rep s (mem_rep s p))" and "s' \<equiv> ebbmgr_made p root s"
  shows "EBBMgrPrimImp_createRep (EBBPrimMalloc Stupid callmf) p root s = Inr (a, s') \<and>
    a \<noteq> 0 \<and> a \<in> mem_avail s \<and> a \<notin> mem_avail s' \<and> mem_avail s' \<subseteq> mem_avail s \<and> same_roots s s' \<and>
    (\<forall>b. b \<notin> mem_avail s \<longrightarrow> repft s' b = repft s b) \<and>
    mem_funds mm p (k - 16) s' \<and> (\<forall>q j. q \<noteq> p \<longrightarrow> mem_funds mm q j s \<longrightarrow> mem_funds mm q j s')"
proof -
  let ?n = sizeof_EBBMgrPrimImp
  have n: "0 < unat ?n" "unat ?n \<le> k" "unat ?n = 16" using k by (simp_all add: sizeof_EBBMgrPrimImp_def)
  have bs: "ebbmgr_theRoot (bump_by ?n p s) = ebbmgr_theRoot s" by (simp add: bump_by_def Let_def)
  have sr: "same_roots (bump_by ?n p s) s'"
    by (simp add: s'_def ebbmgr_made_def same_roots_def root_state.defs)
  note m = made_object [OF f n(1,2), of s', folded a_def, OF _ _ _ sr, unfolded n(3)]
  have "EBBMgrPrimImp_createRep (EBBPrimMalloc Stupid callmf) p root s = Inr (a, s')"
    using bump_malloc [OF f n(2), of callmf] bump_avail [OF f n(1,2)] bs
    by (simp add: EBBMgrPrimImp_createRep_def a_def s'_def ebbmgr_made_def)
  then show ?thesis using m by (simp add: s'_def ebbmgr_made_def a_def)
qed

interpretation ebbmgr: rep_maker "EBBPrimMalloc Stupid callmf" mm mem_avail "mem_funds mm" mem_state.more
    "ebbmgr_createReps (EBBPrimMalloc Stupid callmf) other" EBBMgrPrimImp_createRep_fp root 16 FT_EBBMgrPrim
    "\<lambda>s. ()" "\<lambda>r v. v"
  for callmf mm other root
proof
  fix p k and s :: "'a ebbmgr_state_scheme"
  assume f: "mem_funds mm p k s" "16 \<le> k"
  let ?a = "stupid_mem (stupid_rep s (mem_rep s p))"
  let ?s = "ebbmgr_made p root s"
  have "ebbmgr_createReps (EBBPrimMalloc Stupid callmf) other EBBMgrPrimImp_createRep_fp p root s = Inr (?a, ?s)"
    using ebbmgr_maker [OF f, of callmf root] by (simp add: ebbmgr_createReps_def)
  moreover have "repft ?s ?a = FT_EBBMgrPrim" "\<forall>b. b \<notin> mem_avail s \<longrightarrow> repft ?s b = repft s b"
    using ebbmgr_maker [OF f, of callmf root] by (auto simp: ebbmgr_made_def)
  ultimately show "\<exists>r s'. ebbmgr_createReps (EBBPrimMalloc Stupid callmf) other EBBMgrPrimImp_createRep_fp p root s = Inr (r, s') \<and>
      r \<noteq> 0 \<and> r \<in> mem_avail s \<and> r \<notin> mem_avail s' \<and> mem_avail s' \<subseteq> mem_avail s \<and> same_roots s s' \<and>
      repft s' r = FT_EBBMgrPrim \<and> (\<forall>b. b \<notin> mem_avail s \<longrightarrow> repft s' b = repft s b) \<and>
      () = () \<and> mem_funds mm p (k - 16) s' \<and> (\<forall>q j. q \<noteq> p \<longrightarrow> mem_funds mm q j s \<longrightarrow> mem_funds mm q j s')"
    using ebbmgr_maker [OF f, of callmf root] by blast
qed simp_all

end
