(* ===== verification/EbbMgrProps.thy ===== *)
theory EbbMgrProps
  imports EbbMgr
begin

text \<open>
  The Ebb manager comes up on top of the memory managers, and its calls, from any cores in any
  order, reach one representative per core.
\<close>

lemma invalidated_other:
  assumes "trans_mem_fits (TransMem s)" "n \<le> LRT_PIC_MAX_PICS" "q < LRT_PIC_MAX_PICS" "k < num_ids" "j < num_ids" "j \<noteq> k"
  shows "ltab (invalidated (id_of (TransMem s) k) {..<n} s) (local_entry s q (id_of (TransMem s) j)) =
    ltab s (local_entry s q (id_of (TransMem s) j))"
  using ltab_invalidated [OF assms(1-5)] assms(6) by simp

lemma invalidated_repft [simp]: "theRep (invalidated i P t) = theRep t"
  by (simp add: invalidated_def)

text \<open>Binding an id other than the memory manager's leaves the managers as they are.\<close>

lemma mem_funds_bind:
  assumes f: "mem_funds mm p j s" and "numlpics s \<le> LRT_PIC_MAX_PICS" "k < num_ids" "k \<noteq> mm"
  shows "mem_funds mm p j (invalidated (id_of (TransMem s) k) {..<numlpics s}
    (upd_gt (entry_at (TransMem s) k) g s))"
proof -
  let ?s = "upd_gt (entry_at (TransMem s) k) g s"
  have "ltab (invalidated (id_of (TransMem ?s) k) {..<numlpics s} ?s) (local_entry ?s p (id_of (TransMem ?s) mm)) =
      ltab ?s (local_entry ?s p (id_of (TransMem ?s) mm))"
    by (rule invalidated_other) (use fundsD [OF f] assms(2-4) in simp_all)
  then show ?thesis by (intro mem_funds_fields [OF f]) simp_all
qed

lemma mem_avail_fields:
  "bootMem s' = bootMem s \<Longrightarrow> stupid_rep s' = stupid_rep s \<Longrightarrow> mem_avail s' = mem_avail s"
  by (simp add: mem_avail_def arena_def mem_rep_def)

lemma ebbmgr_fields [simp]:
  "ebbmgr_theRoot (upd_gt a f s) = ebbmgr_theRoot s" "theEBBMgrPrimId (upd_gt a f s) = theEBBMgrPrimId s"
  "ebbmgr_theRoot (invalidated i P s) = ebbmgr_theRoot s" "theEBBMgrPrimId (invalidated i P s) = theEBBMgrPrimId s"
  by (simp_all add: upd_gt_def invalidated_def)

lemma bump_by_trans [simp]:
  "gtab (bump_by n p s) = gtab s" "multi (bump_by n p s) = multi s" "repnode (bump_by n p s) = repnode s"
  "root_ft (bump_by n p s) = root_ft s" "numlpics (bump_by n p s) = numlpics s" "theRep (bump_by n p s) = theRep s"
  by (simp_all add: bump_by_def Let_def)

text \<open>Cores that have not started have the local tables they will start with.\<close>

definition fresh_cores :: "'z trans_state_scheme \<Rightarrow> bool" where
  "fresh_cores s \<longleftrightarrow> (\<forall>q < LRT_PIC_MAX_PICS. numlpics s \<le> q \<longrightarrow> (\<forall>k < num_ids. uncached s q k))"

lemma bind_uncached:
  assumes "trans_mem_fits (TransMem s)" "numlpics s \<le> LRT_PIC_MAX_PICS" "k < num_ids" "fresh_cores s" "q < LRT_PIC_MAX_PICS"
  shows "uncached (invalidated (id_of (TransMem s) k) {..<numlpics s} s) q k"
proof -
  have "ltab s (local_entry s q (id_of (TransMem s) k)) = default_lt (local_entry s q (id_of (TransMem s) k))"
    if "\<not> q < numlpics s" using assms that by (simp add: fresh_cores_def uncached_def)
  then show ?thesis
    using ltab_invalidated [OF assms(1,2,5,3,3)] by (cases "q < numlpics s") (simp_all add: uncached_def)
qed

lemma ebbmgr_init_ok:
  assumes id0: "theEBBMgrPrimId s = 0" and f: "mem_funds mm p b s" "32 \<le> b"
    and n: "numlpics s \<le> LRT_PIC_MAX_PICS" "p < numlpics s" "fresh_cores s"
    and j: "j < myNumGTrans" "\<not> allocated s (p * myNumGTrans + j)" and mm: "allocated s mm"
  shows "\<exists>k root s'. EBBMgrPrimInit (EBBPrimMalloc Stupid callmf) p s = Inr (EBBRC_OK, s') \<and>
    k < num_ids \<and> k \<noteq> mm \<and> theEBBMgrPrimId s' = id_of (TransMem s) k \<and> TransMem s' = TransMem s \<and>
    numlpics s' = numlpics s \<and>
    ebb_ok k root EBBMgrPrimImp_createRep_fp FT_EBBMgrPrim mem_avail [] Map.empty s' \<and>
    mem_funds mm p (b - 32) s' \<and> (\<forall>q i. q \<noteq> p \<longrightarrow> mem_funds mm q i s \<longrightarrow> mem_funds mm q i s')"
proof -
  let ?n = sizeof_CObjEBBRootMultiImp and ?cr = EBBMgrPrimImp_createRep_fp
  have sz: "unat ?n = 32" "0 < unat ?n" by (simp_all add: sizeof_CObjEBBRootMultiImp_def)
  note tm = fundsD(1) [OF f(1)]
  have p: "p < LRT_PIC_MAX_PICS" using n by simp
  define s1 where "s1 = s\<lparr>theEBBMgrPrimId := -1\<rparr>"
  have fs1: "mem_funds mm q i s1" if "mem_funds mm q i s" for q i
    by (rule mem_funds_fields [OF that]) (simp_all add: s1_def)
  define root where "root = stupid_mem (stupid_rep s1 (mem_rep s1 p))"
  define s2 where "s2 = bump_by ?n p s1"
  have al: "EBBPrimMalloc Stupid callmf p ?n s1 = Inr (EBBRC_OK, root, s2)"
    unfolding root_def s2_def by (rule bump_malloc [OF fs1 [OF f(1)]]) (use f sz in simp)
  have r0: "root \<noteq> 0" unfolding root_def using bump_avail [OF fs1 [OF f(1)], of ?n] f sz by simp
  define s3 where "s3 = CObjEBBRootMultiImpInit root ?cr s2"
  have cre: "CObjEBBRootMultiImpCreate (EBBPrimMalloc Stupid callmf) p ?cr s1 = Inr (EBBRC_OK, root, s3)"
    using al r0 by (simp add: CObjEBBRootMultiImpCreate_def s3_def)
  have s3: "TransMem s3 = TransMem s" "numlpics s3 = numlpics s" "gtab s3 = gtab s" "ltab s3 = ltab s"
    by (simp_all add: s3_def s2_def s1_def)
  obtain i where i: "i < myNumGTrans" "\<not> allocated s3 (p * myNumGTrans + i)"
    "TransEBBIdAlloc p s3 = (id_of (TransMem s3) (p * myNumGTrans + i),
      upd_gt (entry_at (TransMem s3) (p * myNumGTrans + i)) (\<lambda>g. g\<lparr>free := ALLOCATED\<rparr>) s3)"
    using TransEBBIdAlloc_some [of j s3 p] j s3 by (auto simp: allocated_def)
  define k where "k = p * myNumGTrans + i"
  have k: "k < num_ids" unfolding k_def by (rule portion_in_range [OF p i(1)])
  have kmm: "k \<noteq> mm" using i(2) mm s3 by (auto simp: k_def allocated_def)
  define s4 where "s4 = upd_gt (entry_at (TransMem s) k) (\<lambda>g. g\<lparr>free := ALLOCATED\<rparr>) s3"
  have s4: "TransMem s4 = TransMem s" "numlpics s4 = numlpics s" "ltab s4 = ltab s" by (simp_all add: s4_def s3)
  have al1: "EBBAllocPrimIdBoot p s3 = (EBBRC_OK, id_of (TransMem s) k, s4)"
    using i(3) s3 by (simp add: EBBAllocPrimIdBoot_def k_def s4_def)
  let ?g = "\<lambda>g. g\<lparr>mf := CObjEBBMissFunc_fp, arg := root\<rparr>"
  define s5 where "s5 = invalidated (id_of (TransMem s4) k) {..<numlpics s4} (upd_gt (entry_at (TransMem s4) k) ?g s4)"
  have bind: "EBBBindPrimIdBoot p (id_of (TransMem s) k) CObjEBBMissFunc_fp root s4 = Inr (EBBRC_OK, s5)"
    using TransEBBIdBind_eq [of s4 p k CObjEBBMissFunc_fp root] tm n k s4
    by (simp add: EBBBindPrimIdBoot_def s5_def)
  define s6 where "s6 = s5\<lparr>theEBBMgrPrimId := id_of (TransMem s) k\<rparr>"
  have init: "EBBMgrPrimInit (EBBPrimMalloc Stupid callmf) p s = Inr (EBBRC_OK, s6)"
    using id0 cre al1 bind by (simp add: EBBMgrPrimInit_def s6_def s1_def [symmetric])
  have keep: "mem_funds mm q i s6" if "mem_funds mm q i s2" for q i
  proof -
    have "mem_funds mm q i s4"
      by (rule mem_funds_fields [OF that]) (simp_all add: s4_def s3_def)
    from mem_funds_bind [OF this _ k kmm, of ?g] have "mem_funds mm q i s5" using n s4 by (simp add: s5_def)
    then show ?thesis by (rule mem_funds_fields) (simp_all add: s6_def)
  qed
  have "mem_funds mm p (b - 32) s6"
    using keep bump_funds(1) [OF fs1 [OF f(1)], of ?n] f sz by (simp add: s2_def)
  moreover have "mem_funds mm q i s6" if "q \<noteq> p" "mem_funds mm q i s" for q i
    using keep bump_funds(2) [OF fs1 [OF f(1)] _ that(1) fs1 [OF that(2)], of ?n] f sz by (simp add: s2_def)
  moreover have "ebb_ok k root ?cr FT_EBBMgrPrim mem_avail [] Map.empty s6"
  proof -
    have "uncached s6 q k" if "q < LRT_PIC_MAX_PICS" for q
    proof -
      let ?s = "upd_gt (entry_at (TransMem s4) k) ?g s4"
      have "fresh_cores ?s" using n(3) s4 by (simp add: fresh_cores_def uncached_def)
      from bind_uncached [OF _ _ k this that] tm n s4 have "uncached s5 q k" by (simp add: s5_def)
      then show ?thesis by (simp add: s6_def uncached_def)
    qed
    then show ?thesis
      using tm by (simp add: ebb_ok_def s6_def s5_def s4_def s3_def s2_def s1_def)
  qed
  moreover have "TransMem s6 = TransMem s" "numlpics s6 = numlpics s" "theEBBMgrPrimId s6 = id_of (TransMem s) k"
    by (simp_all add: s6_def s5_def s4)
  ultimately show ?thesis using init k kmm by blast
qed

lemma mem_funds_mono: "mem_funds mm p k s \<Longrightarrow> j \<le> k \<Longrightarrow> mem_funds mm p j s"
  by (simp add: mem_funds_def Let_def)


subsection \<open>Witness\<close>

text \<open>Two cores with their memory managers up, under id number 0.\<close>

definition demo_up :: mem_state where
  "demo_up = demo_mem\<lparr>theEBBMemMgrPrimId := id_of 0x10000 0,
     gtab := (\<lambda>a. gtrans_zero)(entry_at 0x10000 0 := gtrans_zero\<lparr>free := ALLOCATED\<rparr>),
     ltab := default_lt(lrt_trans_id2lt 0x10000 0 (id_of 0x10000 0) := \<lparr>obj = 0x100000000, ftable = EBBDefFT\<rparr>,
       lrt_trans_id2lt 0x10000 1 (id_of 0x10000 0) := \<lparr>obj = 0x100400000, ftable = EBBDefFT\<rparr>),
     repft := (\<lambda>a. FT_MemMgrPrim),
     stupid_rep := (\<lambda>a. if a = 0x100000000
       then \<lparr>stupid_myRoot = 0, stupid_mem = 0x100000038, stupid_len = 0x3fffc8\<rparr>
       else \<lparr>stupid_myRoot = 0, stupid_mem = 0x100400038, stupid_len = 0x3fffc8\<rparr>)\<rparr>"

definition demo_ebbmgr :: ebbmgr_state where
  "demo_ebbmgr = mem_state.extend demo_up \<lparr>theEBBMgrPrimId = 0, ebbmgr_theRoot = (\<lambda>a. 0)\<rparr>"

lemma demo_ebbmgr_sel [simp]:
  "TransMem demo_ebbmgr = 0x10000" "numlpics demo_ebbmgr = 2" "gtab demo_ebbmgr = gtab demo_up"
  "ltab demo_ebbmgr = ltab demo_up" "repft demo_ebbmgr a = FT_MemMgrPrim" "bootMem demo_ebbmgr = demo_boot"
  "stupid_rep demo_ebbmgr = stupid_rep demo_up" "theEBBMemMgrPrimId demo_ebbmgr = id_of 0x10000 0"
  "theEBBMgrPrimId demo_ebbmgr = 0"
proof -
  have m: "TransMem demo_mem = 0x10000" "numlpics demo_mem = 2" "bootMem demo_mem = demo_boot" by simp_all
  show "TransMem demo_ebbmgr = 0x10000" "numlpics demo_ebbmgr = 2" "gtab demo_ebbmgr = gtab demo_up"
    "ltab demo_ebbmgr = ltab demo_up" "repft demo_ebbmgr a = FT_MemMgrPrim" "bootMem demo_ebbmgr = demo_boot"
    "stupid_rep demo_ebbmgr = stupid_rep demo_up" "theEBBMemMgrPrimId demo_ebbmgr = id_of 0x10000 0"
    "theEBBMgrPrimId demo_ebbmgr = 0"
    using m unfolding demo_ebbmgr_def demo_up_def
    by (simp_all add: pic_state.defs trans_state.defs root_state.defs mem_state.defs)
qed

lemma demo_boot_mem_ok_cong:
  "bootMem s = demo_boot \<Longrightarrow> TransMem s = 0x10000 \<Longrightarrow> boot_mem_ok s"
  using demo_boot_mem_ok by (simp add: boot_mem_ok_def arena_def is_ltrans_addr_def)

lemma demo_local_ne:
  "lrt_trans_id2lt 0x10000 0 (id_of 0x10000 0) \<noteq> lrt_trans_id2lt 0x10000 1 (id_of 0x10000 0)"
  using local_entry_inj [of "0x10000" 0 1 0 0] demo_trans_fits by (auto simp: trans_size_values)

lemma demo_up_funds: "q \<in> {0, 1} \<Longrightarrow> mem_funds 0 q 72 demo_ebbmgr"
  using demo_boot_mem_ok_cong [of demo_ebbmgr] demo_trans_fits demo_local_ne
  by (auto simp: mem_funds_def mem_rep_def demo_boot_nth trans_size_values demo_up_def)

lemma demo_up_fresh: "fresh_cores demo_ebbmgr"
proof -
  have "ltab demo_up (lrt_trans_id2lt 0x10000 q (id_of 0x10000 k)) = default_lt (lrt_trans_id2lt 0x10000 q (id_of 0x10000 k))"
    if q: "2 \<le> q" "q < LRT_PIC_MAX_PICS" "k < num_ids" for q k
  proof -
    have fit: "trans_mem_fits 0x10000" using demo_trans_fits by simp
    have "lrt_trans_id2lt 0x10000 q (id_of 0x10000 k) \<noteq> lrt_trans_id2lt 0x10000 c (id_of 0x10000 0)" if "c < 2" for c
      using local_entry_inj [OF fit q(2) _ q(3), of c 0] that q(1) by (auto simp: trans_size_values)
    from this [of 0] this [of 1] show ?thesis by (simp add: demo_up_def)
  qed
  then show ?thesis by (simp add: fresh_cores_def uncached_def)
qed


definition demo_list :: ebbmgr_state where
  "demo_list = demo_ebbmgr
     \<lparr>multi := (multi demo_ebbmgr)(0x500 := \<lparr>rm_createRep = CR_other 0, rm_head = 0x600, rm_lock = 0\<rparr>),
      repnode := (repnode demo_ebbmgr)(0x600 := \<lparr>node_rep = 0x40, node_el = 1, node_next = 0x700\<rparr>,
        0x700 := \<lparr>node_rep = 0x80, node_el = 0, node_next = 0\<rparr>)\<rparr>"


end
