(* ===== verification/EventMgr.thy ===== *)
theory EventMgr
  imports EbbMgrProps
begin

text \<open>
  The event manager (\<open>l0/EventMgrPrimImp.c\<close>): a table of handlers per core, a master
  representative through whose lock handlers are registered, the vector functions that connect
  the interrupt vectors to the table. Functions of the manager have the numbers of their place in
  the function table (\<open>l0/EventMgrPrim.h\<close>).
\<close>

subsection \<open>State\<close>

definition MAXEVENTS :: nat where "MAXEVENTS = 256"

text \<open>\<open>NOFUNCNUM\<close> is \<open>(uintptr_t)-1\<close>.\<close>

definition NOFUNCNUM :: u64 where "NOFUNCNUM = -1"

record HandlerInfoStruc =
  hi_id :: u64
  hi_fn :: u64

record EventMgrPrimImp =
  em_lock :: u64
  em_theRoot :: u64
  em_handlerInfo :: "HandlerInfoStruc list"
  em_master :: u64
  em_ipi_vec_no :: nat

record event_state = ebbmgr_state +
  theEventMgrPrimId :: u64
  theEventMgrPrimMaster :: u64
  em_rootRef :: u64
  emrep :: "u64 \<Rightarrow> EventMgrPrimImp"

definition sizeof_EventMgrPrimImp :: u64 where "sizeof_EventMgrPrimImp = 5 * 8 + 256 * 16"

definition upd_em :: "u64 \<Rightarrow> (EventMgrPrimImp \<Rightarrow> EventMgrPrimImp) \<Rightarrow> 'z event_state_scheme \<Rightarrow> 'z event_state_scheme" where
  "upd_em a f s = s\<lparr>emrep := (emrep s)(a := f (emrep s a))\<rparr>"

text \<open>A write to \<open>handlerInfo[eventNo]\<close> of the representative at \<open>a\<close>.\<close>

definition set_handlerInfo ::
    "u64 \<Rightarrow> nat \<Rightarrow> u64 \<Rightarrow> u64 \<Rightarrow> 'z event_state_scheme \<Rightarrow> 'z event_state_scheme res" where
  "set_handlerInfo a eventNo h fn s =
     rbind (arr_set (em_handlerInfo (emrep s a)) eventNo \<lparr>hi_id = h, hi_fn = fn\<rparr>) (\<lambda>hs.
     Inr (upd_em a (\<lambda>r. r\<lparr>em_handlerInfo := hs\<rparr>) s))"

subsection \<open>Vector functions\<close>

text \<open>
  \<open>VFUNC(i)\<close> defines \<open>vf\<close>\<^emph>\<open>i\<close>, which calls \<open>dispatchEventLocal\<close> of the manager with \<open>i\<close>;
  \<open>vfTbl\<close> lists them. \<open>vf\<close> gives the call, the body of the called function comes below.
\<close>

definition vfTbl :: "pic_handler list" where "vfTbl = map H_vf [0..<MAXEVENTS]"

subsection \<open>Locks\<close>

definition em_spin_lock :: "u64 \<Rightarrow> 'z event_state_scheme \<Rightarrow> 'z event_state_scheme res" where
  "em_spin_lock a s =
     (if em_lock (emrep s a) = 0 then Inr (upd_em a (\<lambda>r. r\<lparr>em_lock := 1\<rparr>) s) else Inl Blocked)"

definition em_spin_unlock :: "u64 \<Rightarrow> 'z event_state_scheme \<Rightarrow> 'z event_state_scheme" where
  "em_spin_unlock a s =
     (if em_lock (emrep s a) = 1 then upd_em a (\<lambda>r. r\<lparr>em_lock := 0\<rparr>) s else s)"

subsection \<open>Interrupts between processors\<close>

definition EventMgrPrim_dispatchIPI :: "nat \<Rightarrow> 'z event_state_scheme \<Rightarrow> (ebbrc \<times> 'z event_state_scheme) res" where
  "EventMgrPrim_dispatchIPI el s = rbind (lrt_pic_ipi el s) (\<lambda>(r, s). Inr (EBBRC_OK, s))"

definition EventMgrPrim_ackIPI :: "nat \<Rightarrow> 'z event_state_scheme \<Rightarrow> (ebbrc \<times> 'z event_state_scheme) res" where
  "EventMgrPrim_ackIPI myid s = rbind (lrt_pic_ackipi myid s) (\<lambda>s. Inr (EBBRC_OK, s))"

definition EventMgrPrim_enableIPI :: "nat \<Rightarrow> 'z event_state_scheme \<Rightarrow> (ebbrc \<times> 'z event_state_scheme) res" where
  "EventMgrPrim_enableIPI myid s = rbind (lrt_pic_enableipi myid s) (\<lambda>s. Inr (EBBRC_OK, s))"

subsection \<open>Dispatch\<close>

text \<open>
  \<open>invoke f r s\<close> runs function \<open>f\<close> of the representative at \<open>r\<close>: the handler's code. The handler is
  called through its id; \<open>handleEvent\<close> is function 0 of an event handler, and
  \<open>COBJ_EBBCALL_FUNCNUM\<close> calls the function with the given number. Their results are ignored.
\<close>

type_synonym 's invoke = "fn \<Rightarrow> u64 \<Rightarrow> 's \<Rightarrow> 's res"

definition EventMgrPrim_dispatchEventLocal ::
    "'z event_state_scheme callmf \<Rightarrow> 'z event_state_scheme invoke \<Rightarrow> nat \<Rightarrow> u64 \<Rightarrow> nat \<Rightarrow>
     'z event_state_scheme \<Rightarrow> (ebbrc \<times> 'z event_state_scheme) res" where
  "EventMgrPrim_dispatchEventLocal callmf invoke myid self eventNo s =
     rbind (arr_get (em_handlerInfo (emrep s self)) eventNo) (\<lambda>hi.
     let handler = hi_id hi; fn = hi_fn hi
     in rbind (lrt_assert (handler \<noteq> 0)) (\<lambda>_.
        rbind (EBBCALL callmf myid handler (if fn = NOFUNCNUM then 0 else unat fn) s) (\<lambda>(c, s).
        rbind (case c of Failed rc \<Rightarrow> Inr s | Called f r \<Rightarrow> invoke f r s) (\<lambda>s.
        rbind (lrt_pic_enable myid eventNo s) (\<lambda>s.
        Inr (EBBRC_OK, s))))))"

definition vf ::
    "'z event_state_scheme callmf \<Rightarrow> 'z event_state_scheme invoke \<Rightarrow> nat \<Rightarrow> nat \<Rightarrow>
     'z event_state_scheme \<Rightarrow> 'z event_state_scheme res" where
  "vf callmf invoke i myid s =
     rbind (EBBCALL callmf myid (theEventMgrPrimId s) 8 s) (\<lambda>(c, s).
     case c of
       Failed rc \<Rightarrow> Inr s
     | Called f self \<Rightarrow>
         if f = Method FT_EventMgrPrim 8
         then rbind (EventMgrPrim_dispatchEventLocal callmf invoke myid self i s) (\<lambda>(rc, s). Inr s)
         else Inl NullDeref)"

text \<open>
  The functions \<open>VFUNC(0)\<close> to \<open>VFUNC(255)\<close> declare; \<open>other\<close> runs any other handler the controller
  may hold.
\<close>

definition vector_code ::
    "'z event_state_scheme callmf \<Rightarrow> 'z event_state_scheme invoke \<Rightarrow>
     (pic_handler \<Rightarrow> 'z event_state_scheme \<Rightarrow> 'z event_state_scheme res) \<Rightarrow> nat \<Rightarrow>
     pic_handler \<Rightarrow> 'z event_state_scheme \<Rightarrow> 'z event_state_scheme res" where
  "vector_code callmf invoke other myid h =
     (case h of H_vf i \<Rightarrow> if i < MAXEVENTS then vf callmf invoke i myid else other h | _ \<Rightarrow> other h)"

subsection \<open>Registration\<close>

text \<open>The loop over the representatives: \<open>None\<close> when the list never ends.\<close>

partial_function (option) replicate_loop ::
    "u64 \<Rightarrow> u64 \<Rightarrow> u64 \<Rightarrow> nat \<Rightarrow> u64 \<Rightarrow> u64 \<Rightarrow> 'z event_state_scheme \<Rightarrow> 'z event_state_scheme res option" where
  "replicate_loop root node r eventNo h fn s =
     (if node = 0 then Some (Inr s)
      else case set_handlerInfo r eventNo h fn s of
        Inl e \<Rightarrow> Some (Inl e)
      | Inr s' \<Rightarrow>
          let (node', r') = CObjEBBRootMulti_nextRep root node s'
          in replicate_loop root node' r' eventNo h fn s')"

definition lockedReplicateHandler ::
    "u64 \<Rightarrow> nat \<Rightarrow> u64 \<Rightarrow> u64 \<Rightarrow> 'z event_state_scheme \<Rightarrow> 'z event_state_scheme res" where
  "lockedReplicateHandler root eventNo h fn s =
     (let (node, r) = CObjEBBRootMulti_nextRep root 0 s in returns (replicate_loop root node r eventNo h fn s))"

definition lockedRegisterHandler ::
    "u64 \<Rightarrow> nat \<Rightarrow> u64 \<Rightarrow> u64 \<Rightarrow> 'z event_state_scheme \<Rightarrow> (ebbrc \<times> 'z event_state_scheme) res" where
  "lockedRegisterHandler master eventNo h fn s =
     (if eventNo \<ge> MAXEVENTS then Inr (EBBRC_BADPARAMETER, s)
      else
        rbind (arr_get (em_handlerInfo (emrep s master)) eventNo) (\<lambda>hi.
        if hi_id hi \<noteq> 0 then Inr (EBBRC_BADPARAMETER, s)
        else
          rbind (set_handlerInfo master eventNo h fn s) (\<lambda>s.
          rbind (lockedReplicateHandler (em_theRoot (emrep s master)) eventNo h fn s) (\<lambda>s.
          Inr (0, s)))))"

text \<open>
  The source enables the event at the end whatever came before; \<open>vfTbl[eventNo]\<close> is only reached
  after the bound was checked.
\<close>

definition EventMgrPrim_registerHandler ::
    "(nat \<Rightarrow> nat \<Rightarrow> int) \<Rightarrow> nat \<Rightarrow> u64 \<Rightarrow> nat \<Rightarrow> u64 \<Rightarrow> u64 \<Rightarrow> lrt_pic_src \<Rightarrow> 'z event_state_scheme \<Rightarrow>
     (ebbrc \<times> 'z event_state_scheme) res" where
  "EventMgrPrim_registerHandler dup2 myid self eventNo h fn isrc s =
     (let master = em_master (emrep s self) in
      rbind (em_spin_lock master s) (\<lambda>s.
      rbind (lockedRegisterHandler (em_master (emrep s self)) eventNo h fn s) (\<lambda>(rc, s).
      rbind (if \<not> EBBRC_SUCCESS rc then Inr (rc, s)
             else
               rbind (arr_get vfTbl eventNo) (\<lambda>v.
               rbind (lrt_pic_mapvec dup2 isrc eventNo v s) (\<lambda>(r, s).
               if r < 0 then
                 rbind (lockedReplicateHandler (em_theRoot (emrep s self)) eventNo 0 NOFUNCNUM s) (\<lambda>s.
                 Inr (EBBRC_BADPARAMETER, s))
               else Inr (rc, s)))) (\<lambda>(rc, s).
      let s = em_spin_unlock master s
      in rbind (lrt_pic_enable myid eventNo s) (\<lambda>s. Inr (rc, s))))))"

definition EventMgrPrim_eventEnable :: "nat \<Rightarrow> 'z event_state_scheme \<Rightarrow> (ebbrc \<times> 'z event_state_scheme) res" where
  "EventMgrPrim_eventEnable eventNo s =
     rbind (lrt_pic_vecon eventNo s) (\<lambda>(r, s). Inr (if r < 0 then EBBRC_BADPARAMETER else EBBRC_OK, s))"

definition EventMgrPrim_eventDisable :: "nat \<Rightarrow> 'z event_state_scheme \<Rightarrow> (ebbrc \<times> 'z event_state_scheme) res" where
  "EventMgrPrim_eventDisable eventNo s =
     rbind (lrt_pic_vecoff eventNo s) (\<lambda>(r, s). Inr (if r < 0 then EBBRC_BADPARAMETER else EBBRC_OK, s))"

definition EventMgrPrim_registerIPIHandler ::
    "nat \<Rightarrow> u64 \<Rightarrow> u64 \<Rightarrow> u64 \<Rightarrow> 'z event_state_scheme \<Rightarrow> (ebbrc \<times> 'z event_state_scheme) res" where
  "EventMgrPrim_registerIPIHandler myid self h fn s =
     (let v = em_ipi_vec_no (emrep s self) in
      rbind (set_handlerInfo self v h fn s) (\<lambda>s.
      rbind (arr_get vfTbl v) (\<lambda>f.
      rbind (lrt_pic_mapipi myid f s) (\<lambda>(r, s). Inr (0, s)))))"

text \<open>Returns the code, the event number stored through the pointer, and the state.\<close>

definition EventMgrPrim_allocEventNo ::
    "'z event_state_scheme \<Rightarrow> (ebbrc \<times> nat option \<times> 'z event_state_scheme) res" where
  "EventMgrPrim_allocEventNo s =
     rbind (lrt_pic_allocvec s) (\<lambda>(r, v, s). Inr (if r < 0 then EBBRC_OUTOFRESOURCES else EBBRC_OK, v, s))"

subsection \<open>Representatives\<close>

definition EventMgrPrimSetFT :: "u64 \<Rightarrow> 'z event_state_scheme \<Rightarrow> 'z event_state_scheme" where
  "EventMgrPrimSetFT a s = s\<lparr>repft := (repft s)(a := FT_EventMgrPrim)\<rparr>"

text \<open>
  The lock is not initialised: it is what the memory held. The master's table starts empty; every
  other representative copies the ids of the master's handlers, but not their functions.
\<close>

definition clear_handlers :: "u64 \<Rightarrow> 'z event_state_scheme \<Rightarrow> 'z event_state_scheme" where
  "clear_handlers a s =
     upd_em a (\<lambda>r. r\<lparr>em_handlerInfo := replicate MAXEVENTS \<lparr>hi_id = 0, hi_fn = NOFUNCNUM\<rparr>\<rparr>) s"

definition copy_handlers :: "u64 \<Rightarrow> u64 \<Rightarrow> 'z event_state_scheme \<Rightarrow> 'z event_state_scheme" where
  "copy_handlers a mstr s =
     upd_em a (\<lambda>r. r\<lparr>em_handlerInfo :=
       map2 (\<lambda>own m. own\<lparr>hi_id := hi_id m\<rparr>) (em_handlerInfo r) (em_handlerInfo (emrep s mstr))\<rparr>) s"

definition EventMgrPrimImp_createRep ::
    "'z event_state_scheme malloc \<Rightarrow> nat \<Rightarrow> u64 \<Rightarrow> 'z event_state_scheme \<Rightarrow> (u64 \<times> 'z event_state_scheme) res" where
  "EventMgrPrimImp_createRep malloc myid root s =
     rbind (malloc myid sizeof_EventMgrPrimImp s) (\<lambda>(rc, a, s).
     rbind (lrt_assert (EBBRC_SUCCESS rc)) (\<lambda>_.
     if a = 0 then Inl NullDeref
     else
       let s = EventMgrPrimSetFT a s;
           s = upd_em a (\<lambda>r. r\<lparr>em_theRoot := root, em_ipi_vec_no := lrt_pic_getIPIvec\<rparr>) s
       in rbind (em_spin_lock a s) (\<lambda>s.
          if theEventMgrPrimMaster s = 0 then
            let s = s\<lparr>theEventMgrPrimMaster := a\<rparr>;
                s = upd_em a (\<lambda>r. r\<lparr>em_master := a\<rparr>) s;
                s = clear_handlers a s
            in Inr (a, em_spin_unlock a s)
          else
            let mstr = theEventMgrPrimMaster s;
                s = upd_em a (\<lambda>r. r\<lparr>em_master := mstr\<rparr>) s;
                s = em_spin_unlock a s
            in rbind (em_spin_lock mstr s) (\<lambda>s.
               rbind (em_spin_lock a s) (\<lambda>s.
               let s = copy_handlers a mstr s;
                   s = em_spin_unlock a s
               in Inr (a, em_spin_unlock mstr s))))))"

definition EventMgrPrimImpInit ::
    "'z event_state_scheme callmf \<Rightarrow> 'z event_state_scheme malloc \<Rightarrow> nat \<Rightarrow> 'z event_state_scheme \<Rightarrow>
     (ebbrc \<times> 'z event_state_scheme) res" where
  "EventMgrPrimImpInit callmf malloc myid s =
     rbind (if theEventMgrPrimId s = 0 then
              let s = s\<lparr>theEventMgrPrimId := -1\<rparr>
              in rbind (lrt_assert (MAXEVENTS \<ge> lrt_pic_numvec)) (\<lambda>_.
                 rbind (CObjEBBRootMultiImpCreate malloc myid EventMgrPrimImp_createRepAssert_fp s) (\<lambda>(rc, root, s).
                 let s = s\<lparr>em_rootRef := root\<rparr>
                 in rbind (lrt_assert (EBBRC_SUCCESS rc)) (\<lambda>_.
                    rbind (EBBAllocPrimId callmf myid s) (\<lambda>(rc, i, s).
                    rbind (lrt_assert (EBBRC_SUCCESS rc)) (\<lambda>_.
                    rbind (EBBBindPrimId callmf myid i CObjEBBMissFunc_fp (em_rootRef s) s) (\<lambda>(rc, s).
                    rbind (lrt_assert (EBBRC_SUCCESS rc)) (\<lambda>_.
                    Inr (s\<lparr>theEventMgrPrimId := i\<rparr>))))))))
            else if theEventMgrPrimId s = -1 then Inl Blocked
            else Inr s) (\<lambda>s.
     rbind (EventMgrPrimImp_createRep malloc myid (em_rootRef s) s) (\<lambda>(repRef, s).
     rbind (CObjEBBRootMulti_addRepOn malloc myid (em_rootRef s) (MyEL myid) repRef s) (\<lambda>s.
     Inr (EBBRC_OK, s))))"

text \<open>A call of function \<open>n\<close> of the event manager through its id; \<open>k\<close> is that function.\<close>

definition em_call ::
    "'z event_state_scheme callmf \<Rightarrow> nat \<Rightarrow> nat \<Rightarrow> (ebbrc \<Rightarrow> 'z event_state_scheme \<Rightarrow> 'b res) \<Rightarrow>
     (u64 \<Rightarrow> 'z event_state_scheme \<Rightarrow> 'b res) \<Rightarrow> 'z event_state_scheme \<Rightarrow> 'b res" where
  "em_call callmf myid n failed k s =
     rbind (EBBCALL callmf myid (theEventMgrPrimId s) n s) (\<lambda>(c, s).
     case c of
       Failed rc \<Rightarrow> failed rc s
     | Called f self \<Rightarrow> if f = Method FT_EventMgrPrim n then k self s else Inl NullDeref)"

end
