(* ===== verification/EventReg.thy ===== *)
theory EventReg
  imports EventProps
begin

text \<open>
  Registration of an event handler from end to end: what \<open>registerHandler\<close> leaves on every
  branch, and that the interrupt it maps then runs the registered handler.
\<close>

subsection \<open>Registration, branch by branch\<close>

lemma registerHandler_mapped:
  assumes r: "em_ready m as s" and a: "a \<in> em_reps as s" and e: "e < NUM_VEC" and g: "gvecs s ! e \<noteq> H_NULL"
    and free: "hi_id (em_handlerInfo (emrep s m) ! e) = 0"
    and dup: "dup2 (src_fd src) (e + FIRST_VECFD) = int (e + FIRST_VECFD)"
  shows "\<exists>u. EventMgrPrim_registerHandler dup2 p a e h fn src s =
      rbind (lrt_pic_enable p e (registered m as e h fn u s)) (\<lambda>s. Inr (EBBRC_OK, s)) \<and>
    pic_inv (registered m as e h fn u s) \<and>
    (\<forall>i < numlpics s. lvecs (lpics (registered m as e h fn u s) ! i) = (lvecs (lpics s ! i))[e := H_vf e])"
proof -
  let ?s1 = "locked_em m 1 s"
  let ?s2 = "with_handler (em_reps as s) e h fn ?s1"
  have me: "e < MAXEVENTS" using e by (simp add: pic_values MAXEVENTS_def)
  have lk: "em_spin_lock m s = Inr ?s1"
    using em_readyD(3) [OF r] by (simp add: em_spin_lock_def locked_em_def)
  have inv: "pic_inv ?s2" using em_readyD(1) [OF r] by simp
  have g2: "gvecs ?s2 ! e \<noteq> H_NULL" using g by simp
  obtain u where u: "lrt_pic_mapvec dup2 src e (H_vf e) ?s2 = Inr (1, mapped e u ?s2)"
    using mapvec_eq [OF inv e g2, of dup2 src] dup by auto
  have ul: "em_spin_unlock m (mapped e u ?s2) = registered m as e h fn u s"
    by (simp add: em_spin_unlock_def registered_def) (simp add: locked_em_def)
  have ma: "em_master (emrep s a) = m" "em_master (emrep ?s1 a) = m" using em_readyD(6) [OF r a] by simp_all
  have run: "EventMgrPrim_registerHandler dup2 p a e h fn src s =
      rbind (lrt_pic_enable p e (registered m as e h fn u s)) (\<lambda>s. Inr (EBBRC_OK, s))"
    using ma lk lockedRegisterHandler_free [OF r me free, of h fn] u ul vfTbl_nth [OF me]
    by (simp add: EventMgrPrim_registerHandler_def EBBRC_SUCCESS_def EBBRC_OK_def)
  have "pic_inv (registered m as e h fn u s)"
    using pic_inv_mapped(1) [OF inv e g2 u] by (simp add: registered_def)
  moreover have "lvecs (lpics (registered m as e h fn u s) ! i) = (lvecs (lpics s ! i))[e := H_vf e]" if "i < numlpics s" for i
    using pic_inv_mapped(2) [OF inv e g2 u, of i] that by (simp add: registered_def)
  ultimately show ?thesis using run by blast
qed

lemma em_ready_registered:
  assumes r: "em_ready m as s" and inv: "pic_inv (registered m as e h fn u s)"
  shows "em_ready m as (registered m as e h fn u s)"
proof -
  note em = locked_em_1_0 [OF em_readyD(3) [OF r], of as e h fn u]
  have sel: "em_lock (emrep (registered m as e h fn u s) b) = em_lock (emrep s b)"
    "em_master (emrep (registered m as e h fn u s) b) = em_master (emrep s b)"
    "em_theRoot (emrep (registered m as e h fn u s) b) = em_theRoot (emrep s b)" for b
    unfolding em by simp_all
  have "em_shape (registered m as e h fn u s)"
    using em_readyD(2) [OF r] unfolding em_shape_def em by simp
  moreover have "em_reps as (registered m as e h fn u s) = em_reps as s" by (simp add: em_reps_def)
  ultimately show ?thesis
    using em_readyD(3-7) [OF r] inv unfolding em_ready_def sel registered_sel by metis
qed

lemma em_ready_enabled_on:
  assumes r: "em_ready m as s" and "pic_inv (enabled_on p e s)"
  shows "em_ready m as (enabled_on p e s)"
proof -
  have "em_reps as (enabled_on p e s) = em_reps as s" "em_shape (enabled_on p e s) = em_shape s"
    by (simp_all add: em_reps_def em_shape_def)
  then show ?thesis using r assms(2) unfolding em_ready_def enabled_on_sel by blast
qed

lemma registerHandler_success:
  assumes "em_ready m as s" "a \<in> em_reps as s" "p < numlpics s" "e < NUM_VEC" "gvecs s ! e \<noteq> H_NULL"
    "hi_id (em_handlerInfo (emrep s m) ! e) = 0" "dup2 (src_fd src) (e + FIRST_VECFD) = int (e + FIRST_VECFD)"
  shows "\<exists>u. EventMgrPrim_registerHandler dup2 p a e h fn src s =
      Inr (EBBRC_OK, enabled_on p e (registered m as e h fn u s)) \<and>
    em_ready m as (enabled_on p e (registered m as e h fn u s)) \<and>
    (\<forall>i < numlpics s. lvecs (lpics (enabled_on p e (registered m as e h fn u s)) ! i) = (lvecs (lpics s ! i))[e := H_vf e]) \<and>
    enabled (lpics (enabled_on p e (registered m as e h fn u s)) ! p) ! e"
proof -
  obtain u where u: "EventMgrPrim_registerHandler dup2 p a e h fn src s =
      rbind (lrt_pic_enable p e (registered m as e h fn u s)) (\<lambda>s. Inr (EBBRC_OK, s))"
    "pic_inv (registered m as e h fn u s)"
    "\<forall>i < numlpics s. lvecs (lpics (registered m as e h fn u s) ! i) = (lvecs (lpics s ! i))[e := H_vf e]"
    using registerHandler_mapped [where ?dup2.0 = dup2 and src = src and e = e, OF assms(1,2,4-7), of p h fn] by blast
  have p: "p < numlpics (registered m as e h fn u s)" using assms(3) by simp
  note en = enable_on [OF u(2) p assms(4)]
  have "EventMgrPrim_registerHandler dup2 p a e h fn src s = Inr (EBBRC_OK, enabled_on p e (registered m as e h fn u s))"
    using u(1) en(1) by simp
  moreover have "em_ready m as (enabled_on p e (registered m as e h fn u s))"
    using em_ready_enabled_on [OF em_ready_registered [OF assms(1) u(2)] en(2)] .
  ultimately show ?thesis using u(3) en(3,4) by (intro exI [of _ u] conjI) simp_all
qed


subsection \<open>Registrations that fail\<close>

lemma locked_em_unlock: "em_lock (emrep s m) = 0 \<Longrightarrow> em_spin_unlock m (locked_em m 1 s) = s"
  by (cases s) (auto simp: em_spin_unlock_def locked_em_def upd_em_def fun_upd_idem)

lemma registerHandler_refused:
  assumes r: "em_ready m as s" and a: "a \<in> em_reps as s"
    and no: "MAXEVENTS \<le> e \<or> hi_id (em_handlerInfo (emrep s m) ! e) \<noteq> 0"
  shows "EventMgrPrim_registerHandler dup2 p a e h fn src s =
    rbind (lrt_pic_enable p e s) (\<lambda>s. Inr (EBBRC_BADPARAMETER, s))"
proof -
  have len: "length (em_handlerInfo (emrep s m)) = MAXEVENTS" using em_readyD(2) [OF r] by (simp add: em_shape_def)
  have lk: "em_spin_lock m s = Inr (locked_em m 1 s)"
    using em_readyD(3) [OF r] by (simp add: em_spin_lock_def locked_em_def)
  have ma: "em_master (emrep s a) = m" "em_master (emrep (locked_em m 1 s) a) = m" using em_readyD(6) [OF r a] by simp_all
  have "lockedRegisterHandler m e h fn (locked_em m 1 s) = Inr (EBBRC_BADPARAMETER, locked_em m 1 s)"
    using no len by (auto simp: lockedRegisterHandler_def arr_get_def)
  then show ?thesis
    using ma lk locked_em_unlock [OF em_readyD(3) [OF r]] by (simp add: EventMgrPrim_registerHandler_def)
qed

lemma registerHandler_unmapped:
  assumes r: "em_ready m as s" and a: "a \<in> em_reps as s" and e: "e < NUM_VEC" and g: "gvecs s ! e \<noteq> H_NULL"
    and free: "hi_id (em_handlerInfo (emrep s m) ! e) = 0"
    and dup: "dup2 (src_fd src) (e + FIRST_VECFD) \<noteq> int (e + FIRST_VECFD)"
  shows "\<exists>u. EventMgrPrim_registerHandler dup2 p a e h fn src s =
      rbind (lrt_pic_enable p e (registered m as e 0 NOFUNCNUM u s)) (\<lambda>s. Inr (EBBRC_BADPARAMETER, s)) \<and>
    pic_inv (registered m as e 0 NOFUNCNUM u s)"
proof -
  let ?s1 = "locked_em m 1 s"
  let ?s2 = "with_handler (em_reps as s) e h fn ?s1"
  let ?root = "em_theRoot (emrep s m)"
  have me: "e < MAXEVENTS" using e by (simp add: pic_values MAXEVENTS_def)
  have lk: "em_spin_lock m s = Inr ?s1"
    using em_readyD(3) [OF r] by (simp add: em_spin_lock_def locked_em_def)
  have inv: "pic_inv ?s2" using em_readyD(1) [OF r] by simp
  have g2: "gvecs ?s2 ! e \<noteq> H_NULL" using g by simp
  obtain u where u: "lrt_pic_mapvec dup2 src e (H_vf e) ?s2 = Inr (-1, mapped e u ?s2)"
    using mapvec_eq [OF inv e g2, of dup2 src] dup by auto
  let ?s3 = "mapped e u ?s2"
  have ma: "em_master (emrep s a) = m" "em_master (emrep ?s1 a) = m" "em_theRoot (emrep ?s3 a) = ?root"
    using em_readyD(6,7) [OF r a] by simp_all
  have sh: "em_shape ?s3" using em_readyD(2) [OF r] by (auto simp: em_shape_def)
  have ch: "chain (repnode ?s3) (rm_head (multi ?s3 ?root)) as" using em_readyD(4) [OF r] by simp
  have "node_rep ` repnode ?s3 ` set as = em_reps as s" by (simp add: em_reps_def)
  from lockedReplicateHandler_eq [OF ch sh me, unfolded this]
  have rep: "lockedReplicateHandler ?root e 0 NOFUNCNUM ?s3 = Inr (with_handler (em_reps as s) e 0 NOFUNCNUM ?s3)" .
  have undo: "with_handler (em_reps as s) e 0 NOFUNCNUM ?s3 = mapped e u (with_handler (em_reps as s) e 0 NOFUNCNUM ?s1)"
    by (auto simp: with_handler_def mapped_def fun_eq_iff)
  have ul: "em_spin_unlock m (mapped e u (with_handler (em_reps as s) e 0 NOFUNCNUM ?s1)) = registered m as e 0 NOFUNCNUM u s"
    by (simp add: em_spin_unlock_def registered_def) (simp add: locked_em_def)
  have run: "EventMgrPrim_registerHandler dup2 p a e h fn src s =
      rbind (lrt_pic_enable p e (registered m as e 0 NOFUNCNUM u s)) (\<lambda>s. Inr (EBBRC_BADPARAMETER, s))"
    using ma lk lockedRegisterHandler_free [OF r me free, of h fn] u rep [unfolded undo] ul vfTbl_nth [OF me]
    by (simp add: EventMgrPrim_registerHandler_def EBBRC_SUCCESS_def)
  have "pic_inv (mapped e u (with_handler (em_reps as s) e 0 NOFUNCNUM ?s1))"
    using pic_inv_mapped(1) [OF inv e g2 u] unfolding undo [symmetric] by simp
  then show ?thesis using run by (intro exI [of _ u]) (simp add: registered_def)
qed

lemma registerHandler_out_of_range:
  assumes r: "em_ready m as s" and a: "a \<in> em_reps as s" and p: "p < numlpics s" and e: "NUM_VEC \<le> e"
  shows "EventMgrPrim_registerHandler dup2 p a e h fn src s = Inl OutOfBounds"
proof (cases "MAXEVENTS \<le> e \<or> hi_id (em_handlerInfo (emrep s m) ! e) \<noteq> 0")
  case True
  note ok = em_readyD(1) [OF r, unfolded pic_inv_def, THEN conjunct1, THEN pic_okD(1)]
    em_readyD(1) [OF r, unfolded pic_inv_def, THEN conjunct1, THEN pic_okD(2)]
  have "p < LRT_PIC_MAX_PICS" using p ok(2) by (simp add: cores_ok_def)
  then show ?thesis
    using registerHandler_refused [where src = src and e = e, OF r a True, of _ p h fn] lrt_pic_enable_out_of_bounds [OF ok(1) _ e] by simp
next
  case False
  let ?s2 = "with_handler (em_reps as s) e h fn (locked_em m 1 s)"
  have lk: "em_spin_lock m s = Inr (locked_em m 1 s)"
    using em_readyD(3) [OF r] by (simp add: em_spin_lock_def locked_em_def)
  have ma: "em_master (emrep s a) = m" "em_master (emrep (locked_em m 1 s) a) = m" using em_readyD(6) [OF r a] by simp_all
  have "pic_inv ?s2" using em_readyD(1) [OF r] by simp
  then have "pic_ok ?s2" unfolding pic_inv_def ..
  from pic_okD(5,6) [OF this] have "lrt_pic_mapvec dup2 src e (H_vf e) ?s2 = Inl OutOfBounds"
    using e by (simp add: lrt_pic_mapvec_def arr_get_def)
  then show ?thesis
    using ma lk lockedRegisterHandler_free [OF r, of e h fn] False vfTbl_nth [of e]
    by (simp add: EventMgrPrim_registerHandler_def EBBRC_SUCCESS_def)
qed

text \<open>
  The registrations that fail. An event that has a handler is refused and keeps it, but is
  enabled on the core all the same. When \<open>dup2\<close> fails, the tables of all cores are cleared again
  but the vector stays mapped to its vector function, and enabled. An event number from
  \<open>NUM_VEC\<close> on makes the enabling write outside the controller's arrays, although the event
  manager would admit numbers up to \<open>MAXEVENTS\<close>.
\<close>

theorem registerHandler_failures:
  assumes "em_ready m as s" "a \<in> em_reps as s" "p < numlpics s"
  shows "if NUM_VEC \<le> e then EventMgrPrim_registerHandler dup2 p a e h fn src s = Inl OutOfBounds
    else if hi_id (em_handlerInfo (emrep s m) ! e) \<noteq> 0
    then EventMgrPrim_registerHandler dup2 p a e h fn src s = Inr (EBBRC_BADPARAMETER, enabled_on p e s)
    else gvecs s ! e \<noteq> H_NULL \<and> dup2 (src_fd src) (e + FIRST_VECFD) \<noteq> int (e + FIRST_VECFD) \<longrightarrow>
      (\<exists>s'. EventMgrPrim_registerHandler dup2 p a e h fn src s = Inr (EBBRC_BADPARAMETER, s') \<and>
        gvecs s' = (gvecs s)[e := H_vf e] \<and> enabled (lpics s' ! p) ! e \<and>
        (\<forall>r \<in> em_reps as s. em_handlerInfo (emrep s' r) = (em_handlerInfo (emrep s r))[e := \<lparr>hi_id = 0, hi_fn = NOFUNCNUM\<rparr>]))"
proof (cases "NUM_VEC \<le> e")
  case True
  then show ?thesis using registerHandler_out_of_range [OF assms True] by simp
next
  case False
  then have e: "e < NUM_VEC" by simp
  show ?thesis
  proof (cases "hi_id (em_handlerInfo (emrep s m) ! e) = 0")
    case free: True
    have "\<exists>s'. EventMgrPrim_registerHandler dup2 p a e h fn src s = Inr (EBBRC_BADPARAMETER, s') \<and>
        gvecs s' = (gvecs s)[e := H_vf e] \<and> enabled (lpics s' ! p) ! e \<and>
        (\<forall>r \<in> em_reps as s. em_handlerInfo (emrep s' r) = (em_handlerInfo (emrep s r))[e := \<lparr>hi_id = 0, hi_fn = NOFUNCNUM\<rparr>])"
      if g: "gvecs s ! e \<noteq> H_NULL" and dup: "dup2 (src_fd src) (e + FIRST_VECFD) \<noteq> int (e + FIRST_VECFD)"
    proof -
      obtain u where u: "EventMgrPrim_registerHandler dup2 p a e h fn src s =
          rbind (lrt_pic_enable p e (registered m as e 0 NOFUNCNUM u s)) (\<lambda>s. Inr (EBBRC_BADPARAMETER, s))"
        "pic_inv (registered m as e 0 NOFUNCNUM u s)"
        using registerHandler_unmapped [where ?dup2.0 = dup2 and src = src and e = e, OF assms(1,2) e g free dup, of p h fn] by blast
      have p: "p < numlpics (registered m as e 0 NOFUNCNUM u s)" using assms(3) by simp
      note en = enable_on [OF u(2) p e]
      show ?thesis
        using u(1) en(1,4) locked_em_1_0 [OF em_readyD(3) [OF assms(1)], of as e 0 NOFUNCNUM u]
        by (intro exI [of _ "enabled_on p e (registered m as e 0 NOFUNCNUM u s)"] conjI) simp_all
    qed
    then show ?thesis using e free by simp
  next
    case False
    then show ?thesis
      using e registerHandler_refused [where src = src and e = e, OF assms(1,2) disjI2 [OF False], of dup2 p h fn]
        enable_on(1) [OF em_readyD(1) [OF assms(1)] assms(3) e] by simp
  qed
qed

subsection \<open>From the interrupt to the handler\<close>

lemma loop_vecs_quiet:
  "(\<forall>v \<in> set vs. v \<notin> ints) \<Longrightarrow> loop_vecs call p ints (vs @ ws) n s = loop_vecs call p ints ws n s"
  if "0 < n"
  using that by (induction vs) (simp_all add: lrt_pic_unix_ints_test_def)

lemma loop_vecs_one:
  assumes "e < NUM_VEC" "arr_get (lpics s) p = Inr lp" "arr_get (enabled lp) e = Inr True"
    "lrt_pic_disable p e s = Inr s'" "arr_get (lpics s') p = Inr lp'" "arr_get (lvecs lp') e = Inr h" "h \<noteq> H_NULL"
  shows "loop_vecs call p {e} [0..<NUM_VEC] 1 s = call h s'"
proof -
  have vs: "[0..<NUM_VEC] = [0..<e] @ e # [Suc e..<NUM_VEC]"
    using assms(1) upt_add_eq_append [of 0 e "NUM_VEC - e"] upt_conv_Cons [of e NUM_VEC] by simp
  have stop: "loop_vecs call p {e} vs 0 = Inr" for vs by (cases vs) (simp_all add: fun_eq_iff)
  have "loop_vecs call p {e} [0..<NUM_VEC] 1 s = loop_vecs call p {e} (e # [Suc e..<NUM_VEC]) 1 s"
    unfolding vs by (rule loop_vecs_quiet) simp_all
  also have "\<dots> = rbind (call h s') Inr"
    using assms(2-7) by (simp add: lrt_pic_unix_ints_test_def stop)
  finally show ?thesis by (cases "call h s'") simp_all
qed

text \<open>The call that an interrupt makes: the handler's function on the core's representative of it.\<close>

definition handler_fn :: "u64 \<Rightarrow> nat" where
  "handler_fn fn = (if fn = NOFUNCNUM then 0 else unat fn)"

lemma vector_code_calls:
  assumes "e < MAXEVENTS" "em_shape s"
    and "EBBId_DREF s p (theEventMgrPrimId s) = r" "rep_ft s r = FT_EventMgrPrim"
    and "em_handlerInfo (emrep s r) ! e = \<lparr>hi_id = h, hi_fn = fn\<rparr>" "h \<noteq> 0"
    and "EBBId_DREF s p h = hr" "rep_ft s hr = ft" "ft \<noteq> EBBDefFT"
  shows "vector_code callmf invoke other p (H_vf e) s =
    rbind (invoke (Method ft (handler_fn fn)) hr s) (lrt_pic_enable p e)"
proof -
  have "arr_get (em_handlerInfo (emrep s r)) e = Inr \<lparr>hi_id = h, hi_fn = fn\<rparr>"
    using assms(1,2,5) by (simp add: em_shape_def arr_get_def)
  moreover have "EBBCALL callmf p h n s = Inr (Called (Method ft n) hr, s)" for n
    by (rule EBBCALL_hit [OF assms(7-9)])
  moreover have "EBBCALL callmf p (theEventMgrPrimId s) 8 s = Inr (Called (Method FT_EventMgrPrim 8) r, s)"
    by (rule EBBCALL_hit [OF assms(3,4)]) simp
  ultimately have "vector_code callmf invoke other p (H_vf e) s =
      rbind (invoke (Method ft (handler_fn fn)) hr s) (\<lambda>s. rbind (lrt_pic_enable p e s) Inr)"
    using assms(1,6) by (simp add: vector_code_def vf_def EventMgrPrim_dispatchEventLocal_def handler_fn_def rbind_assoc)
  moreover have "rbind x Inr = x" for x :: "'a event_state_scheme res" by (cases x) simp_all
  ultimately show ?thesis by simp
qed

definition disabled_on :: "nat \<Rightarrow> nat \<Rightarrow> 'z pic_state_scheme \<Rightarrow> 'z pic_state_scheme" where
  "disabled_on p e s =
     s\<lparr>lpics := (lpics s)[p := (lpics s ! p)\<lparr>enabled := (enabled (lpics s ! p))[e := False]\<rparr>]\<rparr>"

lemma disabled_on_sel [simp]:
  "emrep (disabled_on p e z) = emrep z"
  "TransMem (disabled_on p e y) = TransMem y" "ltab (disabled_on p e y) = ltab y" "repft (disabled_on p e y) = repft y"
  "theEventMgrPrimId (disabled_on p e z) = theEventMgrPrimId z" "numlpics (disabled_on p e s) = numlpics s"
  by (simp_all add: disabled_on_def)

text \<open>Functions that only look at the translation tables.\<close>

lemma trans_read_cong:
  assumes "TransMem t = TransMem s" "ltab t = ltab s" "repft t = repft s"
  shows "EBBId_DREF t p i = EBBId_DREF s p i" "rep_ft t r = rep_ft s r"
  using assms by (simp_all add: EBBId_DREF_def EBBIdToLTrans_def rep_ft_def is_ltrans_addr_def)

lemma registered_event_run:
  assumes "em_ready m as s" "a \<in> em_reps as s" "p < numlpics s" "e < NUM_MAPPABLE_VEC" "gvecs s ! e \<noteq> H_NULL"
    "hi_id (em_handlerInfo (emrep s m) ! e) = 0" "dup2 (src_fd src) (e + FIRST_VECFD) = int (e + FIRST_VECFD)"
    and mgr: "EBBId_DREF s p (theEventMgrPrimId s) = r" "r \<in> em_reps as s" "rep_ft s r = FT_EventMgrPrim"
    and hdl: "h \<noteq> 0" "EBBId_DREF s p h = hr" "rep_ft s hr = ft" "ft \<noteq> EBBDefFT"
  shows "\<exists>u. EventMgrPrim_registerHandler dup2 p a e h fn src s = Inr (EBBRC_OK, enabled_on p e (registered m as e h fn u s)) \<and>
    lrt_pic_disable p e (enabled_on p e (registered m as e h fn u s)) =
      Inr (disabled_on p e (enabled_on p e (registered m as e h fn u s))) \<and>
    loop_vecs (vector_code callmf invoke other p) p {e} [0..<NUM_VEC] 1 (enabled_on p e (registered m as e h fn u s)) =
      rbind (invoke (Method ft (handler_fn fn)) hr (disabled_on p e (enabled_on p e (registered m as e h fn u s))))
        (lrt_pic_enable p e)"
proof -
  have e: "e < NUM_VEC" "e < MAXEVENTS" "e \<noteq> RST_VEC" using assms(4) by (simp_all add: pic_values MAXEVENTS_def)
  obtain u where u: "EventMgrPrim_registerHandler dup2 p a e h fn src s =
      Inr (EBBRC_OK, enabled_on p e (registered m as e h fn u s))"
    "em_ready m as (enabled_on p e (registered m as e h fn u s))"
    "\<forall>i < numlpics s. lvecs (lpics (enabled_on p e (registered m as e h fn u s)) ! i) = (lvecs (lpics s ! i))[e := H_vf e]"
    "enabled (lpics (enabled_on p e (registered m as e h fn u s)) ! p) ! e"
    using registerHandler_success [where ?dup2.0 = dup2 and src = src and e = e, OF assms(1-3) e(1) assms(5-7)] by blast
  define s' where "s' = enabled_on p e (registered m as e h fn u s)"
  note ok = em_readyD(1) [OF u(2), folded s'_def, unfolded pic_inv_def, THEN conjunct1]
  have n: "numlpics s' = numlpics s" by (simp add: s'_def)
  have p: "p < LRT_PIC_MAX_PICS" using pic_okD(2) [OF ok] assms(3) n by (simp add: cores_ok_def)
  note len = pic_ok_lpic [OF ok p] pic_okD(7) [OF ok]
  have dis: "lrt_pic_disable p e s' = Inr (disabled_on p e s')"
    using lrt_pic_disable_eq [OF pic_okD(1) [OF ok] p e(1,3)] by (simp add: disabled_on_def)
  have "length (lvecs (lpics s ! p)) = NUM_VEC"
    using pic_ok_lpic [OF em_readyD(1) [OF assms(1), unfolded pic_inv_def, THEN conjunct1] p] ..
  then have vec: "arr_get (lvecs (lpics (disabled_on p e s') ! p)) e = Inr (H_vf e)"
    using u(3) assms(3) e(1) p len by (simp add: disabled_on_def s'_def [symmetric] arr_get_def)
  have get: "arr_get (lpics s') p = Inr (lpics s' ! p)"
    "arr_get (lpics (disabled_on p e s')) p = Inr (lpics (disabled_on p e s') ! p)"
    using p len(2) by (simp_all add: arr_get_def disabled_on_def)
  have "enabled (lpics s' ! p) ! e" using u(4) unfolding s'_def .
  then have en: "arr_get (enabled (lpics s' ! p)) e = Inr True"
    using len(1) e(1) unfolding arr_get_def by simp
  have once: "loop_vecs call p {e} [0..<NUM_VEC] 1 s' = call (H_vf e) (disabled_on p e s')" for call
    by (rule loop_vecs_one [OF e(1) get(1) en dis get(2) vec]) simp
  have "em_handlerInfo (emrep s r) ! e = em_handlerInfo (emrep s r) ! e \<and> length (em_handlerInfo (emrep s r)) = MAXEVENTS"
    using em_readyD(2) [OF assms(1)] by (simp add: em_shape_def)
  then have hi: "em_handlerInfo (emrep (disabled_on p e s') r) ! e = \<lparr>hi_id = h, hi_fn = fn\<rparr>"
    using mgr(2) e(2) by (simp add: s'_def locked_em_1_0 [OF em_readyD(3) [OF assms(1)]])
  have sh: "em_shape (disabled_on p e s')"
    using em_readyD(2) [OF u(2)] by (simp add: em_shape_def s'_def)
  have same: "TransMem (disabled_on p e s') = TransMem s" "ltab (disabled_on p e s') = ltab s"
    "repft (disabled_on p e s') = repft s" "theEventMgrPrimId (disabled_on p e s') = theEventMgrPrimId s"
    by (simp_all add: s'_def registered_def locked_em_def upd_em_def)
  note rd = trans_read_cong [OF same(1-3)]
  have "vector_code callmf invoke other p (H_vf e) (disabled_on p e s') =
      rbind (invoke (Method ft (handler_fn fn)) hr (disabled_on p e s')) (lrt_pic_enable p e)"
    by (rule vector_code_calls [OF e(2) sh _ _ hi hdl(1)]) (use mgr hdl same(4) rd in simp_all)
  then show ?thesis using u(1) dis once unfolding s'_def by (intro exI [of _ u] conjI) simp_all
qed

text \<open>
  after a core has registered a handler for an event, an interrupt on the event's vector on
  that core runs exactly the registered function of the handler's representative on the core,
  once, with the vector disabled, and enables the vector again afterwards; \<open>handleEvent\<close>, the
  first function, is run when no function number was given.
\<close>

theorem registered_event_dispatches:
  assumes "em_ready m as s" "a \<in> em_reps as s" "p < numlpics s" "e < NUM_MAPPABLE_VEC" "gvecs s ! e \<noteq> H_NULL"
    "hi_id (em_handlerInfo (emrep s m) ! e) = 0" "dup2 (src_fd src) (e + FIRST_VECFD) = int (e + FIRST_VECFD)"
    and mgr: "EBBId_DREF s p (theEventMgrPrimId s) = r" "r \<in> em_reps as s" "rep_ft s r = FT_EventMgrPrim"
    and hdl: "h \<noteq> 0" "EBBId_DREF s p h = hr" "rep_ft s hr = ft" "ft \<noteq> EBBDefFT"
  shows "\<exists>s' s''. EventMgrPrim_registerHandler dup2 p a e h fn src s = Inr (EBBRC_OK, s') \<and>
    lrt_pic_disable p e s' = Inr s'' \<and>
    loop_vecs (vector_code callmf invoke other p) p {e} [0..<NUM_VEC] 1 s' =
      rbind (invoke (Method ft (handler_fn fn)) hr s'') (lrt_pic_enable p e)"
  using registered_event_run [where ?dup2.0 = dup2 and src = src and e = e and callmf = callmf and invoke = invoke and other = other
      and fn = fn, OF assms] by blast

subsection \<open>Witnesses\<close>

text \<open>Two cores with an event manager each; event 1 is allocated, core 0 has cached the ids.\<close>

definition demo_event :: event_state where
  "demo_event = ebbmgr_state.extend (demo_list
      \<lparr>gvecs := (gvecs (demo_pic 1))[1 := H_ALLOCATED],
       ltab := (\<lambda>a. \<lparr>obj = if a = lrt_trans_id2lt 0x10000 0 (id_of 0x10000 5) then 0x40
         else if a = lrt_trans_id2lt 0x10000 0 (id_of 0x10000 6) then 0x900 else 0, ftable = EBBDefFT\<rparr>),
       repft := (\<lambda>a. if a = 0x900 then FT_App else FT_EventMgrPrim)\<rparr>)
     \<lparr>theEventMgrPrimId = id_of 0x10000 5, theEventMgrPrimMaster = 0x40, em_rootRef = 0x500,
      emrep = (\<lambda>a. \<lparr>em_lock = 0, em_theRoot = 0x500, em_handlerInfo = replicate MAXEVENTS \<lparr>hi_id = 0, hi_fn = NOFUNCNUM\<rparr>,
        em_master = 0x40, em_ipi_vec_no = IPI_VEC\<rparr>)\<rparr>"

lemma demo_event_pic:
  "numlpics demo_event = 2" "gvecs demo_event = (gvecs (demo_pic 1))[1 := H_ALLOCATED]" "lpics demo_event = lpics (demo_pic 1)"
  "pic_lock demo_event = False" "pic_free demo_event = 1" "lrt_pic_firstid demo_event = 0" "lrt_pic_lastid demo_event = 1"
  "upic demo_event = unix_pic_zero"
  by (simp_all add: demo_event_def demo_list_def demo_ebbmgr_def demo_up_def demo_mem_def demo_root_state_def demo_trans_def
      pic_state.defs trans_state.defs root_state.defs mem_state.defs ebbmgr_state.defs) (simp_all add: demo_pic_def)

lemma demo_event_sel:
  "repnode demo_event = repnode demo_list" "multi demo_event = multi demo_list" "TransMem demo_event = 0x10000"
  "ltab demo_event = (\<lambda>a. \<lparr>obj = if a = lrt_trans_id2lt 0x10000 0 (id_of 0x10000 5) then 0x40
         else if a = lrt_trans_id2lt 0x10000 0 (id_of 0x10000 6) then 0x900 else 0, ftable = EBBDefFT\<rparr>)"
  "repft demo_event = (\<lambda>a. if a = 0x900 then FT_App else FT_EventMgrPrim)"
  "theEventMgrPrimId demo_event = id_of 0x10000 5"
  "emrep demo_event = (\<lambda>a. \<lparr>em_lock = 0, em_theRoot = 0x500, em_handlerInfo = replicate MAXEVENTS \<lparr>hi_id = 0, hi_fn = NOFUNCNUM\<rparr>,
        em_master = 0x40, em_ipi_vec_no = IPI_VEC\<rparr>)"
  by (simp_all add: demo_event_def demo_list_def demo_ebbmgr_def ebbmgr_state.defs mem_state.defs demo_up_def)

lemma demo_event_inv: "pic_inv demo_event"
  using demo_pic_inv [of 1]
  by (auto simp: pic_inv_def pic_ok_def pic_shape_def cores_ok_def vecs_agree_def demo_event_pic nth_list_update pic_values
      upic_ok_def unix_pic_zero_def lpic_shape_def)

lemma demo_event_reps: "em_reps [0x600, 0x700] demo_event = {0x40, 0x80}"
  by (simp add: em_reps_def demo_event_sel demo_list_def)

lemma demo_event_ready: "em_ready 0x40 [0x600, 0x700] demo_event"
  using demo_event_inv demo_event_reps
  by (simp add: em_ready_def em_shape_def demo_event_sel demo_list_def)

lemma demo_event_args:
  "(0 :: nat) < numlpics demo_event" "1 < NUM_VEC" "gvecs demo_event ! 1 \<noteq> H_NULL"
  "hi_id (em_handlerInfo (emrep demo_event 0x40) ! 1) = 0"
  "(\<lambda>a b. int b) (src_fd \<lparr>src_fd = 5, src_flags = 1\<rparr>) (1 + FIRST_VECFD) = int (1 + FIRST_VECFD)"
  by (simp_all add: demo_event_pic demo_event_sel pic_values MAXEVENTS_def demo_pic_def)

lemma demo_event_args40: "0x40 \<in> em_reps [0x600, 0x700] demo_event"
  by (simp add: demo_event_reps)


theorem registerHandler_failures_witness:
  "EventMgrPrim_registerHandler (\<lambda>a b. int b) 0 0x40 200 0x77 3 \<lparr>src_fd = 5, src_flags = 1\<rparr> demo_event = Inl OutOfBounds \<and>
   (\<exists>s'. EventMgrPrim_registerHandler (\<lambda>a b. -1) 0 0x40 1 0x77 3 \<lparr>src_fd = 5, src_flags = 1\<rparr> demo_event =
      Inr (EBBRC_BADPARAMETER, s') \<and> gvecs s' = (gvecs demo_event)[1 := H_vf 1])"
proof -
  note fl = registerHandler_failures [OF demo_event_ready demo_event_args40 demo_event_args(1)]
  have "EventMgrPrim_registerHandler (\<lambda>a b. int b) 0 0x40 200 0x77 3 \<lparr>src_fd = 5, src_flags = 1\<rparr> demo_event = Inl OutOfBounds"
    using fl [of 200 "\<lambda>a b. int b" "0x77" 3 "\<lparr>src_fd = 5, src_flags = 1\<rparr>"] by (simp add: pic_values)
  moreover have "\<exists>s'. EventMgrPrim_registerHandler (\<lambda>a b. -1) 0 0x40 1 0x77 3 \<lparr>src_fd = 5, src_flags = 1\<rparr> demo_event =
      Inr (EBBRC_BADPARAMETER, s') \<and> gvecs s' = (gvecs demo_event)[1 := H_vf 1]"
    using fl [of 1 "\<lambda>a b. -1" "0x77" 3 "\<lparr>src_fd = 5, src_flags = 1\<rparr>"] demo_event_args(2-4) by auto
  ultimately show ?thesis ..
qed

lemma demo_event_ids:
  "EBBId_DREF demo_event 0 (theEventMgrPrimId demo_event) = 0x40" "EBBId_DREF demo_event 0 (id_of 0x10000 6) = 0x900"
  "id_of 0x10000 6 \<noteq> 0"
proof -
  have ne: "lrt_trans_id2lt 0x10000 0 (id_of 0x10000 6) \<noteq> lrt_trans_id2lt 0x10000 0 (id_of 0x10000 5)"
    using local_entry_inj [of "0x10000" 0 0 6 5] demo_trans_fits by (auto simp: trans_size_values)
  then show "EBBId_DREF demo_event 0 (theEventMgrPrimId demo_event) = 0x40" "EBBId_DREF demo_event 0 (id_of 0x10000 6) = 0x900"
    by (simp_all add: EBBId_DREF_def EBBIdToLTrans_def demo_event_sel)
  show "id_of 0x10000 6 \<noteq> 0" by (simp add: id_of_def lrt_trans_defs trans_size_values)
qed

theorem registered_event_dispatches_witness:
  "\<exists>s' s''. EventMgrPrim_registerHandler (\<lambda>a b. int b) 0 0x40 1 (id_of 0x10000 6) 3 \<lparr>src_fd = 5, src_flags = 1\<rparr> demo_event =
      Inr (EBBRC_OK, s') \<and> lrt_pic_disable 0 1 s' = Inr s'' \<and>
    loop_vecs (vector_code (\<lambda>m p o' l n a s. Inl NullDeref)
        (\<lambda>f r s. if f = Method FT_App 3 \<and> r = 0x900 then Inr s else Inl AssertFail) (\<lambda>h s. Inl NullDeref) 0)
      0 {1} [0..<NUM_VEC] 1 s' = lrt_pic_enable 0 1 s''"
proof -
  have m: "(1 :: nat) < NUM_MAPPABLE_VEC" by (simp add: pic_values)
  note d = demo_event_ids(1,2)
  have ft: "rep_ft demo_event 0x40 = FT_EventMgrPrim" "rep_ft demo_event 0x900 = FT_App"
    by (simp_all add: rep_ft_def demo_event_sel is_ltrans_addr_def lrt_trans_defs trans_size_values)
  note h = demo_event_ids(3)
  have fn: "handler_fn 3 = 3" by (simp add: handler_fn_def NOFUNCNUM_def)
  show ?thesis
    using registered_event_dispatches [where ?dup2.0 = "\<lambda>a b. int b" and src = "\<lparr>src_fd = 5, src_flags = 1\<rparr>",
        OF demo_event_ready demo_event_args40 demo_event_args(1) m demo_event_args(3-5) d(1) demo_event_args40 ft(1) h d(2) ft(2),
        of 3 "\<lambda>m p o' l n a s. Inl NullDeref" "\<lambda>f r s. if f = Method FT_App 3 \<and> r = 0x900 then Inr s else Inl AssertFail"
        "\<lambda>h s. Inl NullDeref"] by (simp add: fn)
qed

end
