(* ===== verification/MsgMgr.thy ===== *)
theory MsgMgr
  imports EventReg
begin

text \<open>
  The message manager (\<open>l1/MsgMgrPrim.c\<close>): a core sends a message of up to three words to the
  object with an id on another core. Each core's representative has a list of received messages
  and a list of free ones; the first message in an empty list is announced with an
  inter-processor interrupt, whose handler runs all messages of the list.
\<close>

subsection \<open>State\<close>

text \<open>Messages and representatives live in stores keyed by their address; 0 is null.\<close>

definition MAXARGS :: nat where "MAXARGS = 3"

record MsgStore =
  ms_next :: u64
  ms_home :: nat
  ms_id :: u64
  ms_numargs :: nat
  ms_args :: "u64 list"

record MsgMgrPrim =
  mm_eventLoc :: nat
  mm_msgqueuelock :: u64
  mm_msgqueue :: u64
  mm_freelistlock :: u64
  mm_freelist :: u64
  mm_reps :: "u64 list"
  mm_theRootMM :: u64

record msg_state = event_state +
  theMsgMgrId :: u64
  theMsgMgrEHId :: u64
  rootRefMM :: u64
  rootRefEH :: u64
  msgrep :: "u64 \<Rightarrow> MsgMgrPrim"
  msgstore :: "u64 \<Rightarrow> MsgStore"

definition sizeof_MsgStore :: u64 where "sizeof_MsgStore = 7 * 8"
definition sizeof_MsgMgrPrim :: u64 where "sizeof_MsgMgrPrim = 8 * 8 + 64 * 8"

text \<open>The event handler is embedded in the manager, after its function table.\<close>

definition evHdlr_of :: "u64 \<Rightarrow> u64" where "evHdlr_of a = a + 8"
definition ContainingCOPtr :: "u64 \<Rightarrow> u64" where "ContainingCOPtr a = a - 8"

definition upd_mm :: "u64 \<Rightarrow> (MsgMgrPrim \<Rightarrow> MsgMgrPrim) \<Rightarrow> 'z msg_state_scheme \<Rightarrow> 'z msg_state_scheme" where
  "upd_mm a f s = s\<lparr>msgrep := (msgrep s)(a := f (msgrep s a))\<rparr>"

definition upd_msg :: "u64 \<Rightarrow> (MsgStore \<Rightarrow> MsgStore) \<Rightarrow> 'z msg_state_scheme \<Rightarrow> 'z msg_state_scheme" where
  "upd_msg a f s = s\<lparr>msgstore := (msgstore s)(a := f (msgstore s a))\<rparr>"

subsection \<open>Locks\<close>

text \<open>\<open>spinLock\<close> and \<open>spinUnlock\<close> on the two locks of a manager.\<close>

definition spinLock_queue :: "u64 \<Rightarrow> 'z msg_state_scheme \<Rightarrow> 'z msg_state_scheme res" where
  "spinLock_queue a s =
     (if mm_msgqueuelock (msgrep s a) = 0 then Inr (upd_mm a (\<lambda>r. r\<lparr>mm_msgqueuelock := 1\<rparr>) s) else Inl Blocked)"

definition spinUnlock_queue :: "u64 \<Rightarrow> 'z msg_state_scheme \<Rightarrow> 'z msg_state_scheme" where
  "spinUnlock_queue a s =
     (if mm_msgqueuelock (msgrep s a) = 1 then upd_mm a (\<lambda>r. r\<lparr>mm_msgqueuelock := 0\<rparr>) s else s)"

definition spinLock_free :: "u64 \<Rightarrow> 'z msg_state_scheme \<Rightarrow> 'z msg_state_scheme res" where
  "spinLock_free a s =
     (if mm_freelistlock (msgrep s a) = 0 then Inr (upd_mm a (\<lambda>r. r\<lparr>mm_freelistlock := 1\<rparr>) s) else Inl Blocked)"

definition spinUnlock_free :: "u64 \<Rightarrow> 'z msg_state_scheme \<Rightarrow> 'z msg_state_scheme" where
  "spinUnlock_free a s =
     (if mm_freelistlock (msgrep s a) = 1 then upd_mm a (\<lambda>r. r\<lparr>mm_freelistlock := 0\<rparr>) s else s)"

subsection \<open>Calls of the event manager\<close>

text \<open>
  \<open>COBJ_EBBCALL(theEventMgrPrimId, f)\<close>, where \<open>f\<close> is function \<open>n\<close> of the manager's table. A miss
  that fails gives its code.
\<close>

definition em_callrc ::
    "'z msg_state_scheme callmf \<Rightarrow> nat \<Rightarrow> nat \<Rightarrow>
     (u64 \<Rightarrow> 'z msg_state_scheme \<Rightarrow> (ebbrc \<times> 'z msg_state_scheme) res) \<Rightarrow>
     'z msg_state_scheme \<Rightarrow> (ebbrc \<times> 'z msg_state_scheme) res" where
  "em_callrc callmf myid n k = em_call callmf myid n (\<lambda>rc s. Inr (rc, s)) k"

subsection \<open>Queues\<close>

definition MsgMgrPrim_enqueueMsg ::
    "'z msg_state_scheme callmf \<Rightarrow> nat \<Rightarrow> u64 \<Rightarrow> u64 \<Rightarrow> 'z msg_state_scheme \<Rightarrow> (ebbrc \<times> 'z msg_state_scheme) res" where
  "MsgMgrPrim_enqueueMsg callmf myid target msg s =
     rbind (spinLock_queue target s) (\<lambda>s.
     let queueempty = (mm_msgqueue (msgrep s target) = 0);
         s = upd_msg msg (\<lambda>m. m\<lparr>ms_next := mm_msgqueue (msgrep s target)\<rparr>) s;
         s = upd_mm target (\<lambda>r. r\<lparr>mm_msgqueue := msg\<rparr>) s;
         s = spinUnlock_queue target s
     in rbind (if queueempty
               then em_callrc callmf myid 5 (\<lambda>em. EventMgrPrim_dispatchIPI (mm_eventLoc (msgrep s target))) s
               else Inr (EBBRC_OK, s)) (\<lambda>(rc, s).
        Inr (EBBRC_OK, s)))"

definition MsgMgrPrim_dequeueMsgHead :: "u64 \<Rightarrow> 'z msg_state_scheme \<Rightarrow> (u64 \<times> 'z msg_state_scheme) res" where
  "MsgMgrPrim_dequeueMsgHead target s =
     rbind (spinLock_queue target s) (\<lambda>s.
     let msg = mm_msgqueue (msgrep s target);
         s = (if msg \<noteq> 0 then upd_mm target (\<lambda>r. r\<lparr>mm_msgqueue := ms_next (msgstore s msg)\<rparr>) s else s)
     in Inr (msg, spinUnlock_queue target s))"

text \<open>The search of the root's list; \<open>None\<close> when it never ends.\<close>

partial_function (option) find_loc ::
    "u64 \<Rightarrow> nat \<Rightarrow> u64 \<Rightarrow> u64 \<Rightarrow> 'z msg_state_scheme \<Rightarrow> u64 res option" where
  "find_loc root loc node r s =
     (if node = 0 then Some (Inr r)
      else if r = 0 then Some (Inl AssertFail)
      else if mm_eventLoc (msgrep s r) = loc then Some (Inr r)
      else let (node', r') = CObjEBBRootMulti_nextRep root node s in find_loc root loc node' r' s)"

definition MsgMgrPrim_findTarget ::
    "u64 \<Rightarrow> nat \<Rightarrow> 'z msg_state_scheme \<Rightarrow> (ebbrc \<times> u64 \<times> 'z msg_state_scheme) res" where
  "MsgMgrPrim_findTarget self loc s =
     rbind (arr_get (mm_reps (msgrep s self)) loc) (\<lambda>r.
     rbind (if r = 0 then
              let root = mm_theRootMM (msgrep s self);
                  (node, r) = CObjEBBRootMulti_nextRep root 0 s
              in rbind (returns (find_loc root loc node r s)) (\<lambda>r.
                 rbind (arr_set (mm_reps (msgrep s self)) loc r) (\<lambda>rs.
                 Inr (r, upd_mm self (\<lambda>t. t\<lparr>mm_reps := rs\<rparr>) s)))
            else Inr (r, s)) (\<lambda>(r, s).
     Inr (if r = 0 then EBBRC_NOTFOUND else EBBRC_OK, r, s)))"

definition allocMsg ::
    "'z msg_state_scheme malloc \<Rightarrow> nat \<Rightarrow> u64 \<Rightarrow> 'z msg_state_scheme \<Rightarrow> (u64 \<times> 'z msg_state_scheme) res" where
  "allocMsg malloc myid self s =
     rbind (spinLock_free self s) (\<lambda>s.
     let msg = mm_freelist (msgrep s self)
     in if msg \<noteq> 0 then
          let s = upd_mm self (\<lambda>r. r\<lparr>mm_freelist := ms_next (msgstore s msg)\<rparr>) s;
              s = spinUnlock_free self s
          in Inr (msg, upd_msg msg (\<lambda>m. m\<lparr>ms_home := MyEL myid\<rparr>) s)
        else
          let s = spinUnlock_free self s
          in rbind (malloc myid sizeof_MsgStore s) (\<lambda>(rc, msg, s).
             rbind (lrt_assert (EBBRC_SUCCESS rc)) (\<lambda>_.
             if msg = 0 then Inl NullDeref
             else Inr (msg, upd_msg msg (\<lambda>m. m\<lparr>ms_home := MyEL myid\<rparr>) s))))"

definition freeMsg :: "u64 \<Rightarrow> u64 \<Rightarrow> 'z msg_state_scheme \<Rightarrow> 'z msg_state_scheme res" where
  "freeMsg self msg s =
     rbind (MsgMgrPrim_findTarget self (ms_home (msgstore s msg)) s) (\<lambda>(rc, target, s).
     rbind (lrt_assert (EBBRC_SUCCESS rc)) (\<lambda>_.
     rbind (spinLock_free target s) (\<lambda>s.
     let s = upd_msg msg (\<lambda>m. m\<lparr>ms_next := mm_freelist (msgrep s target)\<rparr>) s;
         s = upd_mm target (\<lambda>r. r\<lparr>mm_freelist := msg\<rparr>) s
     in Inr (spinUnlock_free target s))))"

subsection \<open>Sending\<close>

definition MsgMgrPrim_msg0 ::
    "'z msg_state_scheme callmf \<Rightarrow> 'z msg_state_scheme malloc \<Rightarrow> nat \<Rightarrow> u64 \<Rightarrow> nat \<Rightarrow> u64 \<Rightarrow> 
     'z msg_state_scheme \<Rightarrow> (ebbrc \<times> 'z msg_state_scheme) res" where
  "MsgMgrPrim_msg0 callmf malloc myid self loc i s =
     rbind (MsgMgrPrim_findTarget self loc s) (\<lambda>(rc, target, s).
     if rc = EBBRC_NOTFOUND then Inr (rc, s)
     else
       rbind (lrt_assert (EBBRC_SUCCESS rc)) (\<lambda>_.
       rbind (allocMsg malloc myid self s) (\<lambda>(msg, s).
       let s = upd_msg msg (\<lambda>m. m\<lparr>ms_id := i, ms_numargs := 0\<rparr>) s
       in rbind (MsgMgrPrim_enqueueMsg callmf myid target msg s) (\<lambda>(rc, s).
          Inr (EBBRC_OK, s)))))"

definition MsgMgrPrim_msg1 ::
    "'z msg_state_scheme callmf \<Rightarrow> 'z msg_state_scheme malloc \<Rightarrow> nat \<Rightarrow> u64 \<Rightarrow> nat \<Rightarrow> u64 \<Rightarrow> u64 \<Rightarrow> 
     'z msg_state_scheme \<Rightarrow> (ebbrc \<times> 'z msg_state_scheme) res" where
  "MsgMgrPrim_msg1 callmf malloc myid self loc i a1 s =
     rbind (MsgMgrPrim_findTarget self loc s) (\<lambda>(rc, target, s).
     if rc = EBBRC_NOTFOUND then Inr (rc, s)
     else
       rbind (lrt_assert (EBBRC_SUCCESS rc)) (\<lambda>_.
       rbind (allocMsg malloc myid self s) (\<lambda>(msg, s).
       let s = upd_msg msg (\<lambda>m. m\<lparr>ms_id := i, ms_numargs := 1, ms_args := (ms_args m)[0 := a1]\<rparr>) s
       in rbind (MsgMgrPrim_enqueueMsg callmf myid target msg s) (\<lambda>(rc, s).
          Inr (EBBRC_OK, s)))))"

definition MsgMgrPrim_msg2 ::
    "'z msg_state_scheme callmf \<Rightarrow> 'z msg_state_scheme malloc \<Rightarrow> nat \<Rightarrow> u64 \<Rightarrow> nat \<Rightarrow> u64 \<Rightarrow> u64 \<Rightarrow> u64 \<Rightarrow> 
     'z msg_state_scheme \<Rightarrow> (ebbrc \<times> 'z msg_state_scheme) res" where
  "MsgMgrPrim_msg2 callmf malloc myid self loc i a1 a2 s =
     rbind (MsgMgrPrim_findTarget self loc s) (\<lambda>(rc, target, s).
     if rc = EBBRC_NOTFOUND then Inr (rc, s)
     else
       rbind (lrt_assert (EBBRC_SUCCESS rc)) (\<lambda>_.
       rbind (allocMsg malloc myid self s) (\<lambda>(msg, s).
       let s = upd_msg msg (\<lambda>m. m\<lparr>ms_id := i, ms_numargs := 2, ms_args := (ms_args m)[0 := a1, 1 := a2]\<rparr>) s
       in rbind (MsgMgrPrim_enqueueMsg callmf myid target msg s) (\<lambda>(rc, s).
          Inr (EBBRC_OK, s)))))"

definition MsgMgrPrim_msg3 ::
    "'z msg_state_scheme callmf \<Rightarrow> 'z msg_state_scheme malloc \<Rightarrow> nat \<Rightarrow> u64 \<Rightarrow> nat \<Rightarrow> u64 \<Rightarrow> u64 \<Rightarrow> u64 \<Rightarrow> u64 \<Rightarrow> 
     'z msg_state_scheme \<Rightarrow> (ebbrc \<times> 'z msg_state_scheme) res" where
  "MsgMgrPrim_msg3 callmf malloc myid self loc i a1 a2 a3 s =
     rbind (MsgMgrPrim_findTarget self loc s) (\<lambda>(rc, target, s).
     if rc = EBBRC_NOTFOUND then Inr (rc, s)
     else
       rbind (lrt_assert (EBBRC_SUCCESS rc)) (\<lambda>_.
       rbind (allocMsg malloc myid self s) (\<lambda>(msg, s).
       let s = upd_msg msg (\<lambda>m. m\<lparr>ms_id := i, ms_numargs := 3, ms_args := (ms_args m)[0 := a1, 1 := a2, 2 := a3]\<rparr>) s
       in rbind (MsgMgrPrim_enqueueMsg callmf myid target msg s) (\<lambda>(rc, s).
          Inr (EBBRC_OK, s)))))"

subsection \<open>Receiving\<close>

text \<open>
  \<open>invoke f r args s\<close> runs function \<open>f\<close> of the representative at \<open>r\<close>, the code of the message's
  handler. Function \<open>n\<close> of a message handler takes \<open>n\<close> arguments.
\<close>

type_synonym 's invoke_msg = "fn \<Rightarrow> u64 \<Rightarrow> u64 list \<Rightarrow> 's \<Rightarrow> 's res"

definition deliver_msg ::
    "'z msg_state_scheme callmf \<Rightarrow> 'z msg_state_scheme invoke_msg \<Rightarrow> nat \<Rightarrow> u64 \<Rightarrow>
     'z msg_state_scheme \<Rightarrow> 'z msg_state_scheme res" where
  "deliver_msg callmf invoke myid msg s =
     (let m = msgstore s msg; n = ms_numargs m
      in if n \<le> 3 then
           rbind (EBBCALL callmf myid (ms_id m) n s) (\<lambda>(c, s).
           case c of Failed rc \<Rightarrow> Inr s | Called f r \<Rightarrow> invoke f r (take n (ms_args m)) s)
         else Inr s)"

text \<open>The loop over the messages: \<open>None\<close> when it never ends.\<close>

partial_function (option) msg_loop ::
    "'z msg_state_scheme callmf \<Rightarrow> 'z msg_state_scheme invoke_msg \<Rightarrow> nat \<Rightarrow> u64 \<Rightarrow> u64 \<Rightarrow>
     'z msg_state_scheme \<Rightarrow> 'z msg_state_scheme res option" where
  "msg_loop callmf invoke myid self msg s =
     (if msg = 0 then Some (Inr s)
      else case deliver_msg callmf invoke myid msg s of
        Inl e \<Rightarrow> Some (Inl e)
      | Inr s \<Rightarrow>
        (case freeMsg self msg s of
          Inl e \<Rightarrow> Some (Inl e)
        | Inr s \<Rightarrow>
          (case MsgMgrPrim_dequeueMsgHead self s of
            Inl e \<Rightarrow> Some (Inl e)
          | Inr (msg, s) \<Rightarrow> msg_loop callmf invoke myid self msg s)))"

definition MsgMgrPrim_handleEvent ::
    "'z msg_state_scheme callmf \<Rightarrow> 'z msg_state_scheme invoke_msg \<Rightarrow> nat \<Rightarrow> u64 \<Rightarrow>
     'z msg_state_scheme \<Rightarrow> (ebbrc \<times> 'z msg_state_scheme) res" where
  "MsgMgrPrim_handleEvent callmf invoke myid eh s =
     (let self = ContainingCOPtr eh in
      rbind (em_callrc callmf myid 6 (\<lambda>em. EventMgrPrim_ackIPI myid) s) (\<lambda>(rc, s).
      rbind (lrt_assert (EBBRC_SUCCESS rc)) (\<lambda>_.
      rbind (MsgMgrPrim_dequeueMsgHead self s) (\<lambda>(msg, s).
      rbind (returns (msg_loop callmf invoke myid self msg s)) (\<lambda>s.
      rbind (em_callrc callmf myid 7 (\<lambda>em. EventMgrPrim_enableIPI myid) s) (\<lambda>(rc, s).
      rbind (lrt_assert (EBBRC_SUCCESS rc)) (\<lambda>_.
      Inr (EBBRC_OK, s))))))))"

subsection \<open>Initialisation\<close>

definition MsgMgrPrim_SetFT :: "u64 \<Rightarrow> 'z msg_state_scheme \<Rightarrow> 'z msg_state_scheme" where
  "MsgMgrPrim_SetFT a s = s\<lparr>repft := (repft s)(a := FT_MsgMgrPrim, evHdlr_of a := FT_MsgMgrEvHdlr)\<rparr>"

text \<open>The result of \<open>malloc\<close> is not checked, nor that of \<open>registerIPIHandler\<close>.\<close>

definition MsgMgrPrim_createRep ::
    "'z msg_state_scheme callmf \<Rightarrow> 'z msg_state_scheme malloc \<Rightarrow> nat \<Rightarrow> u64 \<Rightarrow> u64 \<Rightarrow> u64 \<Rightarrow>
     'z msg_state_scheme \<Rightarrow> (ebbrc \<times> 'z msg_state_scheme) res" where
  "MsgMgrPrim_createRep callmf malloc myid rootMM rootEH ehid s =
     rbind (lrt_assert (ehid \<noteq> 0)) (\<lambda>_.
     rbind (malloc myid sizeof_MsgMgrPrim s) (\<lambda>(rc, a, s).
     if a = 0 then Inl NullDeref
     else
       let s = MsgMgrPrim_SetFT a s;
           s = upd_mm a (\<lambda>_. \<lparr>mm_eventLoc = MyEL myid, mm_msgqueuelock = 0, mm_msgqueue = 0, mm_freelistlock = 0,
                 mm_freelist = 0, mm_reps = replicate LRT_PIC_MAX_PICS 0, mm_theRootMM = rootMM\<rparr>) s
       in rbind (em_callrc callmf myid 3 (\<lambda>em. EventMgrPrim_registerIPIHandler myid em ehid NOFUNCNUM) s) (\<lambda>(rc, s).
          rbind (CObjEBBRootMulti_addRepOn malloc myid rootEH (MyEL myid) (evHdlr_of a) s) (\<lambda>s.
          rbind (CObjEBBRootMulti_addRepOn malloc myid rootMM (MyEL myid) a s) (\<lambda>s.
          Inr (EBBRC_OK, s))))))"

text \<open>Making one root and an id bound to it, as \<open>MsgMgrPrim_Init\<close> does twice.\<close>

definition make_root_id ::
    "'z msg_state_scheme callmf \<Rightarrow> 'z msg_state_scheme malloc \<Rightarrow> nat \<Rightarrow> 'z msg_state_scheme \<Rightarrow>
     (u64 \<times> u64 \<times> 'z msg_state_scheme) res" where
  "make_root_id callmf malloc myid s =
     rbind (CObjEBBRootMultiImpCreate malloc myid MsgMgrPrim_createRepAssert_fp s) (\<lambda>(rc, root, s).
     rbind (lrt_assert (EBBRC_SUCCESS rc)) (\<lambda>_.
     rbind (EBBAllocPrimId callmf myid s) (\<lambda>(rc, i, s).
     rbind (lrt_assert (EBBRC_SUCCESS rc)) (\<lambda>_.
     rbind (EBBBindPrimId callmf myid i CObjEBBMissFunc_fp root s) (\<lambda>(rc, s).
     rbind (lrt_assert (EBBRC_SUCCESS rc)) (\<lambda>_.
     Inr (root, i, s)))))))"

definition MsgMgrPrim_Init ::
    "'z msg_state_scheme callmf \<Rightarrow> 'z msg_state_scheme malloc \<Rightarrow> nat \<Rightarrow> 'z msg_state_scheme \<Rightarrow>
     (ebbrc \<times> 'z msg_state_scheme) res" where
  "MsgMgrPrim_Init callmf malloc myid s =
     rbind (if theMsgMgrEHId s = 0 then
              let s = s\<lparr>theMsgMgrEHId := -1\<rparr>
              in rbind (make_root_id callmf malloc myid s) (\<lambda>(root, i, s).
                 let s = s\<lparr>rootRefMM := root, theMsgMgrId := i\<rparr>
                 in rbind (make_root_id callmf malloc myid s) (\<lambda>(root, i, s).
                    let s = s\<lparr>rootRefEH := root, theMsgMgrEHId := i\<rparr>
                    in rbind (lrt_assert (i \<noteq> 0)) (\<lambda>_. Inr s)))
            else if theMsgMgrEHId s = -1 then Inl Blocked
            else Inr s) (\<lambda>s.
     rbind (lrt_assert (theMsgMgrEHId s \<noteq> 0)) (\<lambda>_.
     rbind (MsgMgrPrim_createRep callmf malloc myid (rootRefMM s) (rootRefEH s) (theMsgMgrEHId s) s) (\<lambda>(rc, s).
     Inr (EBBRC_OK, s))))"

end
