(* ===== verification/MsgProps.thy ===== *)
theory MsgProps
  imports MsgMgr
begin

text \<open>
  The message lists of the message manager. Each representative has two linked lists threaded
  through the messages; the locale \<open>msg_list\<close> is what the code relies on for one such list, and
  both lists are instances. \<open>msgs_ok\<close> is the abstraction: a queue and a free list of messages per
  representative, no message in two of them.
\<close>

subsection \<open>Linked lists of messages\<close>

fun mlist :: "(u64 \<Rightarrow> u64) \<Rightarrow> u64 \<Rightarrow> u64 list \<Rightarrow> bool" where
  "mlist nx a [] \<longleftrightarrow> a = 0"
| "mlist nx a (b # bs) \<longleftrightarrow> a = b \<and> b \<noteq> 0 \<and> mlist nx (nx b) bs"

abbreviation nxt :: "'z msg_state_scheme \<Rightarrow> u64 \<Rightarrow> u64" where
  "nxt s \<equiv> \<lambda>m. ms_next (msgstore s m)"

lemma mlist_cong: "(\<And>b. b \<in> set bs \<Longrightarrow> nx b = nx' b) \<Longrightarrow> mlist nx a bs = mlist nx' a bs"
  by (induction bs arbitrary: a) auto

lemma mlist_det: "mlist nx a bs \<Longrightarrow> mlist nx a cs \<Longrightarrow> bs = cs"
proof (induction bs arbitrary: a cs)
  case Nil
  then show ?case by (cases cs) auto
next
  case (Cons b bs)
  then show ?case by (cases cs) auto
qed

lemma mlist_drop: "mlist nx a (bs @ b # cs) \<Longrightarrow> mlist nx (nx b) cs"
  by (induction bs arbitrary: a) auto

lemma mlist_tail_fresh: "mlist nx a (b # bs) \<Longrightarrow> b \<notin> set bs"
proof
  assume l: "mlist nx a (b # bs)" and "b \<in> set bs"
  then obtain cs ds where bs: "bs = cs @ b # ds" by (meson split_list)
  from l have "mlist nx (nx b) (cs @ b # ds)" unfolding bs by simp
  from mlist_drop [OF this] this have "ds = cs @ b # ds" by (rule mlist_det)
  then have "length ds = length (cs @ b # ds)" by (rule arg_cong)
  then show False by simp
qed

definition nodes :: "u64 set \<Rightarrow> (u64 \<Rightarrow> u64 list) \<Rightarrow> u64 set" where
  "nodes R L = (\<Union>r \<in> R. set (L r))"

definition lists :: "(MsgMgrPrim \<Rightarrow> u64) \<Rightarrow> u64 set \<Rightarrow> (u64 \<Rightarrow> u64 list) \<Rightarrow> 'z msg_state_scheme \<Rightarrow> bool" where
  "lists head R L s \<longleftrightarrow> (\<forall>r \<in> R. mlist (nxt s) (head (msgrep s r)) (L r)) \<and>
     (\<forall>r \<in> R. \<forall>r' \<in> R. r \<noteq> r' \<longrightarrow> set (L r) \<inter> set (L r') = {})"

lemma lists_frame:
  assumes "lists head R L s" "\<And>r. r \<in> R \<Longrightarrow> head (msgrep s' r) = head (msgrep s r)"
    "\<And>m. m \<in> nodes R L \<Longrightarrow> nxt s' m = nxt s m"
  shows "lists head R L s'"
proof -
  have "mlist (nxt s') (head (msgrep s' r)) (L r)" if r: "r \<in> R" for r
  proof -
    have "mlist (nxt s') (head (msgrep s r)) (L r) = mlist (nxt s) (head (msgrep s r)) (L r)"
      by (rule mlist_cong) (use r assms(3) in \<open>auto simp: nodes_def\<close>)
    then show ?thesis using r assms(1,2) by (simp add: lists_def)
  qed
  then show ?thesis using assms(1) by (simp add: lists_def)
qed

lemma nodes_upd: "t \<in> R \<Longrightarrow> nodes R (L(t := ms)) = set ms \<union> nodes (R - {t}) L"
  by (auto simp: nodes_def split: if_splits)

lemma nodes_same: "t \<in> R \<Longrightarrow> nodes R L = set (L t) \<union> nodes (R - {t}) L"
  by (auto simp: nodes_def)

text \<open>Fields of the manager that hold the head of a list.\<close>

locale msg_list =
  fixes head :: "MsgMgrPrim \<Rightarrow> u64"
    and set_head :: "u64 \<Rightarrow> MsgMgrPrim \<Rightarrow> MsgMgrPrim"
  assumes head_set: "head (set_head a r) = a"
begin

lemma push:
  assumes l: "lists head R L s" and t: "t \<in> R" and m: "m \<noteq> 0" "m \<notin> nodes R L"
    and rep: "\<And>r. msgrep s' r = (if r = t then set_head m (msgrep s t) else msgrep s r)"
    and sto: "\<And>a. a \<noteq> m \<Longrightarrow> nxt s' a = nxt s a" "nxt s' m = head (msgrep s t)"
  shows "lists head R (L(t := m # L t)) s'"
proof -
  have cong: "mlist (nxt s') a (L r) = mlist (nxt s) a (L r)" if "r \<in> R" for a r
  proof (rule mlist_cong)
    fix b
    assume "b \<in> set (L r)"
    then have "b \<noteq> m" using that m(2) by (auto simp: nodes_def)
    then show "nxt s' b = nxt s b" by (rule sto(1))
  qed
  have "mlist (nxt s') (head (msgrep s' r)) ((L(t := m # L t)) r)" if "r \<in> R" for r
    using l that m sto(2) cong [OF that] by (auto simp: lists_def rep head_set)
  then show ?thesis
    using l m t by (auto simp: lists_def nodes_def)
qed

lemma pop:
  assumes l: "lists head R L s" and t: "t \<in> R" and m: "L t = m # ms"
  shows "head (msgrep s t) = m" "m \<noteq> 0" "m \<notin> nodes R (L(t := ms))"
    and "(\<And>r. msgrep s' r = (if r = t then set_head (nxt s m) (msgrep s t) else msgrep s r)) \<Longrightarrow>
      (\<And>a. a \<in> nodes R (L(t := ms)) \<Longrightarrow> nxt s' a = nxt s a) \<Longrightarrow> lists head R (L(t := ms)) s'"
proof -
  have lt: "mlist (nxt s) (head (msgrep s t)) (m # ms)" using l t m by (auto simp: lists_def)
  then show "head (msgrep s t) = m" "m \<noteq> 0" by simp_all
  have "m \<notin> set ms" by (rule mlist_tail_fresh [OF lt])
  moreover have "m \<notin> set (L r)" if "r \<in> R" "r \<noteq> t" for r using l t m that by (auto simp: lists_def)
  ultimately show "m \<notin> nodes R (L(t := ms))" by (auto simp: nodes_def)
  assume rep: "\<And>r. msgrep s' r = (if r = t then set_head (nxt s m) (msgrep s t) else msgrep s r)"
    and sto: "\<And>a. a \<in> nodes R (L(t := ms)) \<Longrightarrow> nxt s' a = nxt s a"
  have "mlist (nxt s') (head (msgrep s' r)) ((L(t := ms)) r)" if r: "r \<in> R" for r
  proof -
    have "mlist (nxt s) (head (msgrep s' r)) ((L(t := ms)) r)"
      using l lt r by (auto simp: lists_def rep head_set)
    moreover have "mlist (nxt s') a ((L(t := ms)) r) = mlist (nxt s) a ((L(t := ms)) r)" for a
      by (rule mlist_cong) (use r sto in \<open>auto simp: nodes_def\<close>)
    ultimately show ?thesis by simp
  qed
  moreover have "set ((L(t := ms)) r) \<inter> set ((L(t := ms)) r') = {}" if "r \<in> R" "r' \<in> R" "r \<noteq> r'" for r r'
  proof -
    have "set ((L(t := ms)) q) \<subseteq> set (L q)" for q using m by auto
    moreover have "set (L r) \<inter> set (L r') = {}" using l that by (simp add: lists_def)
    ultimately show ?thesis by blast
  qed
  ultimately show "lists head R (L(t := ms)) s'" by (simp add: lists_def)
qed

lemma empty_head: "lists head R L s \<Longrightarrow> t \<in> R \<Longrightarrow> head (msgrep s t) = 0 \<longleftrightarrow> L t = []"
  by (cases "L t") (auto simp: lists_def)

end

interpretation queue: msg_list mm_msgqueue "\<lambda>a r. r\<lparr>mm_msgqueue := a\<rparr>"
  by unfold_locales simp

interpretation free: msg_list mm_freelist "\<lambda>a r. r\<lparr>mm_freelist := a\<rparr>"
  by unfold_locales simp

end
