(* ===== verification/MsgSend.thy ===== *)
theory MsgSend
  imports MsgProps
begin

text \<open>
  The operations of the message manager on the abstraction of \<open>MsgProps\<close>: finding the
  representative of a core, allocating, queueing, taking and freeing messages; and sending.
\<close>

subsection \<open>The invariant\<close>

definition msgs_ok :: "u64 set \<Rightarrow> (u64 \<Rightarrow> u64 list) \<Rightarrow> (u64 \<Rightarrow> u64 list) \<Rightarrow> 'z msg_state_scheme \<Rightarrow> bool" where
  "msgs_ok R Q F s \<longleftrightarrow> lists mm_msgqueue R Q s \<and> lists mm_freelist R F s \<and> nodes R Q \<inter> nodes R F = {}"

text \<open>
  The representatives \<open>R\<close> are those in the root's list, one per core; each has its locks free, its
  cache of other cores' representatives is right, and messages have room for three arguments.
\<close>

definition cache_ok :: "u64 set \<Rightarrow> 'z msg_state_scheme \<Rightarrow> bool" where
  "cache_ok R s \<longleftrightarrow> (\<forall>r \<in> R. length (mm_reps (msgrep s r)) = LRT_PIC_MAX_PICS \<and>
     (\<forall>l < LRT_PIC_MAX_PICS. mm_reps (msgrep s r) ! l \<noteq> 0 \<longrightarrow>
        mm_reps (msgrep s r) ! l \<in> R \<and> mm_eventLoc (msgrep s (mm_reps (msgrep s r) ! l)) = l))"

definition reps_up :: "u64 \<Rightarrow> u64 list \<Rightarrow> u64 set \<Rightarrow> 'z msg_state_scheme \<Rightarrow> bool" where
  "reps_up root as R s \<longleftrightarrow> chain (repnode s) (rm_head (multi s root)) as \<and> R = node_rep ` repnode s ` set as \<and> 0 \<notin> R \<and>
     inj_on (\<lambda>r. mm_eventLoc (msgrep s r)) R \<and>
     (\<forall>r \<in> R. mm_theRootMM (msgrep s r) = root \<and> mm_msgqueuelock (msgrep s r) = 0 \<and> mm_freelistlock (msgrep s r) = 0 \<and>
        mm_eventLoc (msgrep s r) < LRT_PIC_MAX_PICS)"

definition args_ok :: "'z msg_state_scheme \<Rightarrow> bool" where
  "args_ok s \<longleftrightarrow> (\<forall>m. length (ms_args (msgstore s m)) = MAXARGS)"

definition msg_inv ::
    "u64 \<Rightarrow> u64 list \<Rightarrow> u64 set \<Rightarrow> (u64 \<Rightarrow> u64 list) \<Rightarrow> (u64 \<Rightarrow> u64 list) \<Rightarrow> 'z msg_state_scheme \<Rightarrow> bool" where
  "msg_inv root as R Q F s \<longleftrightarrow> reps_up root as R s \<and> cache_ok R s \<and> msgs_ok R Q F s \<and> args_ok s"

lemma msg_invD:
  assumes "msg_inv root as R Q F s"
  shows "reps_up root as R s" "cache_ok R s" "msgs_ok R Q F s" "args_ok s"
  using assms by (simp_all add: msg_inv_def)

lemma msgs_okD:
  assumes "msgs_ok R Q F s"
  shows "lists mm_msgqueue R Q s" "lists mm_freelist R F s" "nodes R Q \<inter> nodes R F = {}"
  using assms by (simp_all add: msgs_ok_def)

lemma reps_upD:
  assumes "reps_up root as R s"
  shows "chain (repnode s) (rm_head (multi s root)) as" "R = node_rep ` repnode s ` set as" "0 \<notin> R"
    "inj_on (\<lambda>r. mm_eventLoc (msgrep s r)) R"
    "r \<in> R \<Longrightarrow> mm_theRootMM (msgrep s r) = root" "r \<in> R \<Longrightarrow> mm_msgqueuelock (msgrep s r) = 0"
    "r \<in> R \<Longrightarrow> mm_freelistlock (msgrep s r) = 0" "r \<in> R \<Longrightarrow> mm_eventLoc (msgrep s r) < LRT_PIC_MAX_PICS"
  using assms unfolding reps_up_def by blast+

lemma upd_mm_sel [simp]:
  "msgrep (upd_mm a f s) = (msgrep s)(a := f (msgrep s a))" "msgstore (upd_mm a f s) = msgstore s"
  "repnode (upd_mm a f s) = repnode s" "multi (upd_mm a f s) = multi s" "TransMem (upd_mm a f s) = TransMem s"
  "ltab (upd_mm a f s) = ltab s" "repft (upd_mm a f s) = repft s" "theEventMgrPrimId (upd_mm a f s) = theEventMgrPrimId s"
  "numlpics (upd_mm a f s) = numlpics s" "lpics (upd_mm a f s) = lpics s" "wakeups (upd_mm a f s) = wakeups s"
  "msg_state.more (upd_mm a f s) = msg_state.more s"
  by (simp_all add: upd_mm_def)

lemma upd_msg_sel [simp]:
  "msgstore (upd_msg a g s) = (msgstore s)(a := g (msgstore s a))" "msgrep (upd_msg a g s) = msgrep s"
  "repnode (upd_msg a g s) = repnode s" "multi (upd_msg a g s) = multi s" "TransMem (upd_msg a g s) = TransMem s"
  "ltab (upd_msg a g s) = ltab s" "repft (upd_msg a g s) = repft s" "theEventMgrPrimId (upd_msg a g s) = theEventMgrPrimId s"
  "numlpics (upd_msg a g s) = numlpics s" "lpics (upd_msg a g s) = lpics s" "wakeups (upd_msg a g s) = wakeups s"
  "msg_state.more (upd_msg a g s) = msg_state.more s"
  by (simp_all add: upd_msg_def)

lemma upd_mm_pic_inv [simp]: "pic_inv (upd_mm a f s) = pic_inv s" "pic_inv (upd_msg a g s) = pic_inv s"
  by (simp_all add: upd_mm_def upd_msg_def pic_inv_def pic_ok_def vecs_agree_def pic_shape_def cores_ok_def)

lemma upd_mm_id: "f (msgrep s a) = msgrep s a \<Longrightarrow> upd_mm a f s = s"
  by (cases s) (simp add: upd_mm_def fun_upd_idem)

lemma upd_mm_comp: "upd_mm a g (upd_mm a f s) = upd_mm a (\<lambda>r. g (f r)) s"
  by (simp add: upd_mm_def)

lemma upd_mm_msg: "upd_msg m g (upd_mm a f s) = upd_mm a f (upd_msg m g s)"
  by (simp add: upd_mm_def upd_msg_def)

text \<open>Changes of state that keep what \<open>reps_up\<close> and \<open>cache_ok\<close> look at.\<close>

lemma reps_up_cong:
  assumes "repnode s' = repnode s" "multi s' = multi s"
    "\<And>r. mm_eventLoc (msgrep s' r) = mm_eventLoc (msgrep s r)" "\<And>r. mm_theRootMM (msgrep s' r) = mm_theRootMM (msgrep s r)"
    "\<And>r. mm_msgqueuelock (msgrep s' r) = mm_msgqueuelock (msgrep s r)"
    "\<And>r. mm_freelistlock (msgrep s' r) = mm_freelistlock (msgrep s r)"
  shows "reps_up root as R s' = reps_up root as R s"
  unfolding reps_up_def assms ..

lemma cache_ok_cong:
  assumes "\<And>r. mm_eventLoc (msgrep s' r) = mm_eventLoc (msgrep s r)" "\<And>r. mm_reps (msgrep s' r) = mm_reps (msgrep s r)"
  shows "cache_ok R s' = cache_ok R s"
  unfolding cache_ok_def assms ..

lemma reps_up_upd [simp]:
  "reps_up root as R (upd_msg m g s) = reps_up root as R s"
  "reps_up root as R (upd_mm a (\<lambda>r. r\<lparr>mm_msgqueue := q\<rparr>) s) = reps_up root as R s"
  "reps_up root as R (upd_mm a (\<lambda>r. r\<lparr>mm_freelist := q\<rparr>) s) = reps_up root as R s"
  "reps_up root as R (upd_mm a (\<lambda>r. r\<lparr>mm_reps := rs\<rparr>) s) = reps_up root as R s"
  by (rule reps_up_cong; simp)+

lemma cache_ok_upd [simp]:
  "cache_ok R (upd_msg m g s) = cache_ok R s"
  "cache_ok R (upd_mm a (\<lambda>r. r\<lparr>mm_msgqueue := q\<rparr>) s) = cache_ok R s"
  "cache_ok R (upd_mm a (\<lambda>r. r\<lparr>mm_freelist := q\<rparr>) s) = cache_ok R s"
  by (rule cache_ok_cong; simp)+

lemma args_ok_upd [simp]: "args_ok (upd_mm a f s) = args_ok s"
  by (simp add: args_ok_def)

lemma args_ok_upd_msg: "args_ok s \<Longrightarrow> (\<And>x. length (ms_args (g x)) = length (ms_args x)) \<Longrightarrow> args_ok (upd_msg m g s)"
  by (simp add: args_ok_def)

subsection \<open>Finding a representative\<close>

lemma find_loc_chain:
  assumes "chain (repnode s) (node_next (repnode s a)) bs" "a \<noteq> 0" "0 \<notin> node_rep ` repnode s ` set (a # bs)"
  shows "find_loc root loc a (node_rep (repnode s a)) s =
    Some (Inr (case filter (\<lambda>r. mm_eventLoc (msgrep s r) = loc) (map (\<lambda>a. node_rep (repnode s a)) (a # bs)) of [] \<Rightarrow> 0 | r # _ \<Rightarrow> r))"
  using assms
proof (induction bs arbitrary: a)
  case Nil
  then show ?case using nextRep_next [OF Nil(2,1), of root]
    by (subst find_loc.simps) (auto simp: find_loc.simps)
next
  case (Cons b bs)
  note nx = nextRep_next [OF Cons.prems(2,1), of root]
  have b: "b \<noteq> 0" "chain (repnode s) (node_next (repnode s b)) bs" "0 \<notin> node_rep ` repnode s ` set (b # bs)"
    using Cons.prems by auto
  have "node_rep (repnode s a) \<noteq> 0" using Cons.prems(3) by auto
  then show ?case
    using Cons.prems(2) nx Cons.IH [OF b(2,1,3)] by (subst find_loc.simps) simp
qed

lemma find_loc_root:
  assumes r: "reps_up root as R s"
  shows "(let (node, r) = CObjEBBRootMulti_nextRep root 0 s in find_loc root loc node r s) =
    Some (Inr (case filter (\<lambda>r. mm_eventLoc (msgrep s r) = loc) (map (\<lambda>a. node_rep (repnode s a)) as) of [] \<Rightarrow> 0 | r # _ \<Rightarrow> r))"
proof (cases as)
  case Nil
  then show ?thesis using nextRep_first [OF reps_upD(1) [OF r]] by (simp add: find_loc.simps)
next
  case (Cons a bs)
  have "a \<noteq> 0" "chain (repnode s) (node_next (repnode s a)) bs" using reps_upD(1) [OF r] Cons by auto
  moreover have "0 \<notin> node_rep ` repnode s ` set (a # bs)" using reps_upD(2,3) [OF r] Cons by simp
  ultimately show ?thesis
    using nextRep_first [OF reps_upD(1) [OF r]] find_loc_chain [of s a bs root loc] Cons by simp
qed

lemma find_loc_found:
  assumes r: "reps_up root as R s" and t: "t \<in> R" "mm_eventLoc (msgrep s t) = loc"
  shows "(let (node, r) = CObjEBBRootMulti_nextRep root 0 s in find_loc root loc node r s) = Some (Inr t)"
proof -
  let ?fs = "filter (\<lambda>r. mm_eventLoc (msgrep s r) = loc) (map (\<lambda>a. node_rep (repnode s a)) as)"
  have "set ?fs = {r \<in> R. mm_eventLoc (msgrep s r) = loc}" using reps_upD(2) [OF r] by auto
  also have "\<dots> = {t}" using t reps_upD(4) [OF r] by (auto dest: inj_onD)
  finally obtain x xs where "?fs = x # xs" "x = t" by (cases ?fs) auto
  then show ?thesis using find_loc_root [OF r, of loc] by simp
qed

lemma find_loc_missing:
  assumes r: "reps_up root as R s" and no: "\<And>t. t \<in> R \<Longrightarrow> mm_eventLoc (msgrep s t) \<noteq> loc"
  shows "(let (node, r) = CObjEBBRootMulti_nextRep root 0 s in find_loc root loc node r s) = Some (Inr 0)"
proof -
  have "filter (\<lambda>r. mm_eventLoc (msgrep s r) = loc) (map (\<lambda>a. node_rep (repnode s a)) as) = []"
    using no reps_upD(2) [OF r] by (auto simp: filter_empty_conv)
  then show ?thesis using find_loc_root [OF r, of loc] by simp
qed

text \<open>The state after the cache of \<open>self\<close> has been filled in.\<close>

definition cached_rep :: "u64 \<Rightarrow> nat \<Rightarrow> u64 \<Rightarrow> 'z msg_state_scheme \<Rightarrow> 'z msg_state_scheme" where
  "cached_rep self loc t s = upd_mm self (\<lambda>r. r\<lparr>mm_reps := (mm_reps (msgrep s self))[loc := t]\<rparr>) s"

lemma cached_rep_id: "mm_reps (msgrep s self) ! loc = t \<Longrightarrow> cached_rep self loc t s = s"
  unfolding cached_rep_def by (rule upd_mm_id) (auto simp: list_update_same_conv)

lemma findTarget_found:
  assumes r: "reps_up root as R s" "cache_ok R s" and "self \<in> R" "t \<in> R" "mm_eventLoc (msgrep s t) = loc"
  shows "MsgMgrPrim_findTarget self loc s = Inr (EBBRC_OK, t, cached_rep self loc t s)"
proof -
  have len: "length (mm_reps (msgrep s self)) = LRT_PIC_MAX_PICS" and loc: "loc < LRT_PIC_MAX_PICS" and t0: "t \<noteq> 0"
    using assms reps_upD(3,8) [OF r(1)] by (auto simp: cache_ok_def)
  show ?thesis
  proof (cases "mm_reps (msgrep s self) ! loc = 0")
    case True
    have root: "mm_theRootMM (msgrep s self) = root" by (rule reps_upD(5) [OF r(1) assms(3)])
    then show ?thesis
      using True len loc t0 find_loc_found [OF r(1) assms(4,5)]
      by (simp add: MsgMgrPrim_findTarget_def arr_get_def arr_set_def cached_rep_def split: prod.splits)
  next
    case False
    then have "mm_reps (msgrep s self) ! loc \<in> R" "mm_eventLoc (msgrep s (mm_reps (msgrep s self) ! loc)) = loc"
      using r(2) assms(3) loc by (auto simp: cache_ok_def)
    then have "mm_reps (msgrep s self) ! loc = t"
      using reps_upD(4) [OF r(1)] assms(4,5) by (auto dest: inj_onD)
    then show ?thesis
      using False len loc t0 by (simp add: MsgMgrPrim_findTarget_def arr_get_def cached_rep_id)
  qed
qed

lemma findTarget_missing:
  assumes r: "reps_up root as R s" "cache_ok R s" and "self \<in> R" "loc < LRT_PIC_MAX_PICS"
    and no: "\<And>t. t \<in> R \<Longrightarrow> mm_eventLoc (msgrep s t) \<noteq> loc"
  shows "MsgMgrPrim_findTarget self loc s = Inr (EBBRC_NOTFOUND, 0, s)"
proof -
  have len: "length (mm_reps (msgrep s self)) = LRT_PIC_MAX_PICS" using r(2) assms(3) by (auto simp: cache_ok_def)
  have z: "mm_reps (msgrep s self) ! loc = 0" using r(2) assms(3,4) no by (auto simp: cache_ok_def)
  have "upd_mm self (\<lambda>r. r\<lparr>mm_reps := (mm_reps (msgrep s self))[loc := 0]\<rparr>) s = s"
    using cached_rep_id [OF z] by (simp add: cached_rep_def)
  then show ?thesis
    using z len assms(4) reps_upD(5) [OF r(1) assms(3)] find_loc_missing [OF r(1) no]
    by (simp add: MsgMgrPrim_findTarget_def arr_get_def arr_set_def split: prod.splits)
qed

text \<open>Filling in the cache keeps the invariant.\<close>

lemma cached_rep_sel [simp]:
  "msgstore (cached_rep self loc t s) = msgstore s" "repnode (cached_rep self loc t s) = repnode s"
  "multi (cached_rep self loc t s) = multi s" "TransMem (cached_rep self loc t s) = TransMem s"
  "ltab (cached_rep self loc t s) = ltab s" "repft (cached_rep self loc t s) = repft s"
  "theEventMgrPrimId (cached_rep self loc t s) = theEventMgrPrimId s"
  "mm_msgqueue (msgrep (cached_rep self loc t s) r) = mm_msgqueue (msgrep s r)"
  "mm_freelist (msgrep (cached_rep self loc t s) r) = mm_freelist (msgrep s r)"
  "mm_eventLoc (msgrep (cached_rep self loc t s) r) = mm_eventLoc (msgrep s r)"
  "mm_msgqueuelock (msgrep (cached_rep self loc t s) r) = mm_msgqueuelock (msgrep s r)"
  "mm_freelistlock (msgrep (cached_rep self loc t s) r) = mm_freelistlock (msgrep s r)"
  "pic_inv (cached_rep self loc t s) = pic_inv s" "numlpics (cached_rep self loc t s) = numlpics s"
  "lpics (cached_rep self loc t s) = lpics s" "msg_state.more (cached_rep self loc t s) = msg_state.more s"
  by (simp_all add: cached_rep_def)

lemma msgs_ok_frame:
  assumes "msgs_ok R Q F s" "\<And>r. r \<in> R \<Longrightarrow> mm_msgqueue (msgrep s' r) = mm_msgqueue (msgrep s r)"
    "\<And>r. r \<in> R \<Longrightarrow> mm_freelist (msgrep s' r) = mm_freelist (msgrep s r)"
    "\<And>m. m \<in> nodes R Q \<union> nodes R F \<Longrightarrow> nxt s' m = nxt s m"
  shows "msgs_ok R Q F s'"
  using msgs_okD [OF assms(1)] assms(2-4) lists_frame [of mm_msgqueue R Q s s'] lists_frame [of mm_freelist R F s s']
  by (simp add: msgs_ok_def)

lemma msg_inv_cached_rep:
  assumes i: "msg_inv root as R Q F s" and "self \<in> R" "t \<in> R" "mm_eventLoc (msgrep s t) = loc"
  shows "msg_inv root as R Q F (cached_rep self loc t s)"
proof -
  have "reps_up root as R (cached_rep self loc t s)" using msg_invD(1) [OF i] by (simp add: cached_rep_def)
  moreover have "cache_ok R (cached_rep self loc t s)"
  proof -
    note c = msg_invD(2) [OF i, unfolded cache_ok_def, rule_format]
    have loc: "loc < LRT_PIC_MAX_PICS" using reps_upD(8) [OF msg_invD(1) [OF i] assms(3)] assms(4) by simp
    have "(mm_reps (msgrep s self))[loc := t] ! l = (if l = loc then t else mm_reps (msgrep s self) ! l)" for l
      using loc c assms(2) by (simp add: nth_list_update)
    then have "mm_reps (msgrep (cached_rep self loc t s) r) ! l = (if r = self \<and> l = loc then t else mm_reps (msgrep s r) ! l)"
      and "length (mm_reps (msgrep (cached_rep self loc t s) r)) = length (mm_reps (msgrep s r))" for r l
      by (simp_all add: cached_rep_def)
    then show ?thesis using c assms(3,4) by (simp add: cache_ok_def)
  qed
  moreover have "msgs_ok R Q F (cached_rep self loc t s)"
    by (rule msgs_ok_frame [OF msg_invD(3) [OF i]]) simp_all
  ultimately show ?thesis using msg_invD(4) [OF i] by (simp add: msg_inv_def cached_rep_def)
qed

subsection \<open>Allocating\<close>

text \<open>The parts of the state below the messages that the operations on messages keep.\<close>

definition same_below :: "'z msg_state_scheme \<Rightarrow> 'z msg_state_scheme \<Rightarrow> bool" where
  "same_below s s' \<longleftrightarrow> same_trans s s' \<and> theEventMgrPrimId s' = theEventMgrPrimId s \<and> emrep s' = emrep s \<and>
     msg_state.more s' = msg_state.more s"

lemma same_trans_pic:
  assumes "same_trans s s'"
  shows "pic_state.truncate s' = pic_state.truncate s"
proof -
  have "pic_state.truncate (root_state.truncate s') = pic_state.truncate (root_state.truncate s)"
    using assms by (simp add: same_trans_def)
  then show ?thesis by (simp add: pic_state.defs root_state.defs)
qed

lemma same_pic_inv: "pic_state.truncate s' = pic_state.truncate s \<Longrightarrow> pic_inv s' = pic_inv s"
  by (simp add: pic_state.defs pic_inv_def pic_ok_def vecs_agree_def pic_shape_def cores_ok_def)

lemma same_belowD:
  assumes "same_below s s'"
  shows "TransMem s' = TransMem s" "ltab s' = ltab s" "multi s' = multi s" "repnode s' = repnode s" "numlpics s' = numlpics s"
    "repft s' = repft s" "theEventMgrPrimId s' = theEventMgrPrimId s" "emrep s' = emrep s" "msg_state.more s' = msg_state.more s"
    "lpics s' = lpics s" "wakeups s' = wakeups s" "pic_inv s' = pic_inv s"
proof -
  have s: "same_trans s s'" using assms by (simp add: same_below_def)
  show "TransMem s' = TransMem s" "ltab s' = ltab s" "multi s' = multi s" "repnode s' = repnode s" "numlpics s' = numlpics s"
    "repft s' = repft s"
    using s same_roots_sel [of s s'] by (simp_all add: same_trans_roots)
  show "theEventMgrPrimId s' = theEventMgrPrimId s" "emrep s' = emrep s" "msg_state.more s' = msg_state.more s"
    using assms by (simp_all add: same_below_def)
  show "lpics s' = lpics s" "wakeups s' = wakeups s"
    using same_trans_pic [OF s] by (simp_all add: pic_state.defs)
  show "pic_inv s' = pic_inv s" by (rule same_pic_inv [OF same_trans_pic [OF s]])
qed

lemma same_below_refl [simp]: "same_below s s"
  by (simp add: same_below_def same_trans_def)

lemma same_below_trans: "same_below s t \<Longrightarrow> same_below t u \<Longrightarrow> same_below s u"
  by (simp add: same_below_def same_trans_def)

lemma same_below_upd [simp]: "same_below s (upd_mm a f t) = same_below s t" "same_below s (upd_msg a g t) = same_below s t"
  by (simp_all add: same_below_def same_trans_def upd_mm_def upd_msg_def root_state.defs)

lemma same_below_cached_rep [simp]: "same_below s (cached_rep self loc t s)"
  by (simp add: cached_rep_def)

lemma more_above:
  assumes "mem_state.more s' = mem_state.more s"
  shows "msgrep s' = msgrep s" "msgstore s' = msgstore s" "theEventMgrPrimId s' = theEventMgrPrimId s" "emrep s' = emrep s"
    "msg_state.more s' = msg_state.more s"
  using assms by (cases s; cases s'; simp)+

text \<open>A core can allocate a message: from its free list, or from memory outside all messages.\<close>

definition can_alloc ::
    "nat \<Rightarrow> nat \<Rightarrow> u64 \<Rightarrow> u64 set \<Rightarrow> (u64 \<Rightarrow> u64 list) \<Rightarrow> (u64 \<Rightarrow> u64 list) \<Rightarrow> 'z msg_state_scheme \<Rightarrow> bool" where
  "can_alloc mm p self R Q F s \<longleftrightarrow> F self \<noteq> [] \<or>
     (\<exists>k \<ge> 56. mem_funds mm p k s) \<and> (nodes R Q \<union> nodes R F) \<inter> mem_avail s = {}"

definition fresh_msg :: "nat \<Rightarrow> u64 \<Rightarrow> u64 \<Rightarrow> u64 set \<Rightarrow> (u64 \<Rightarrow> u64 list) \<Rightarrow> (u64 \<Rightarrow> u64 list) \<Rightarrow>
    'z msg_state_scheme \<Rightarrow> 'z msg_state_scheme \<Rightarrow> bool" where
  "fresh_msg p self m R Q F s s' \<longleftrightarrow> m \<noteq> 0 \<and> m \<notin> nodes R Q \<and> m \<notin> nodes R F \<and> ms_home (msgstore s' m) = p \<and>
     (\<forall>a. a \<noteq> m \<longrightarrow> msgstore s' a = msgstore s a) \<and> same_below s s' \<and>
     (\<forall>r. mm_msgqueue (msgrep s' r) = mm_msgqueue (msgrep s r) \<and> mm_eventLoc (msgrep s' r) = mm_eventLoc (msgrep s r))"

lemma free_lock:
  "mm_freelistlock (msgrep s a) = 0 \<Longrightarrow> spinLock_free a s = Inr (upd_mm a (\<lambda>r. r\<lparr>mm_freelistlock := 1\<rparr>) s)"
  "mm_freelistlock (msgrep s a) = 0 \<Longrightarrow>
     spinUnlock_free a (upd_mm a (\<lambda>r. (f r)\<lparr>mm_freelist := q, mm_freelistlock := 1\<rparr>) s) =
     upd_mm a (\<lambda>r. (f r)\<lparr>mm_freelist := q, mm_freelistlock := 0\<rparr>) s"
  by (simp_all add: spinLock_free_def spinUnlock_free_def upd_mm_comp)

lemma allocMsg_free:
  assumes "mm_freelistlock (msgrep s self) = 0" "mm_freelist (msgrep s self) = m" "m \<noteq> 0"
  shows "allocMsg malloc p self s =
    Inr (m, upd_msg m (\<lambda>x. x\<lparr>ms_home := p\<rparr>) (upd_mm self (\<lambda>r. r\<lparr>mm_freelist := nxt s m\<rparr>) s))"
proof -
  have "(msgrep s self)\<lparr>mm_freelist := nxt s m, mm_freelistlock := 0\<rparr> = (msgrep s self)\<lparr>mm_freelist := nxt s m\<rparr>"
    using assms(1) by (cases "msgrep s self") simp
  then have "upd_mm self (\<lambda>r. r\<lparr>mm_freelistlock := 1, mm_freelist := nxt s m, mm_freelistlock := 0\<rparr>) s =
      upd_mm self (\<lambda>r. r\<lparr>mm_freelist := nxt s m\<rparr>) s"
    by (simp add: upd_mm_def)
  then show ?thesis
    using assms by (simp add: allocMsg_def spinLock_free_def spinUnlock_free_def upd_mm_comp MyEL_def)
qed

lemma allocMsg_malloc:
  assumes "mm_freelistlock (msgrep s self) = 0" "mm_freelist (msgrep s self) = 0"
    "malloc p sizeof_MsgStore s = Inr (rc, m, s')" "EBBRC_SUCCESS rc" "m \<noteq> 0"
  shows "allocMsg malloc p self s = Inr (m, upd_msg m (\<lambda>x. x\<lparr>ms_home := p\<rparr>) s')"
proof -
  have "upd_mm self (\<lambda>r. r\<lparr>mm_freelistlock := 0\<rparr>) s = s"
    by (rule upd_mm_id) (use assms(1) in \<open>cases "msgrep s self"; simp\<close>)
  then show ?thesis
    using assms by (simp add: allocMsg_def spinLock_free_def spinUnlock_free_def upd_mm_comp MyEL_def)
qed

lemma alloc_ok:
  assumes i: "msg_inv root as R Q F s" and self: "self \<in> R" and c: "can_alloc mm p self R Q F s"
  shows "\<exists>m s'. allocMsg (EBBPrimMalloc Stupid callmf) p self s = Inr (m, s') \<and>
    msg_inv root as R Q (F(self := tl (F self))) s' \<and> fresh_msg p self m R Q (F(self := tl (F self))) s s'"
proof (cases "F self")
  case (Cons m fs)
  note mo = msgs_okD [OF msg_invD(3) [OF i]]
  note pop = free.pop [OF mo(2) self Cons]
  let ?s = "upd_msg m (\<lambda>x. x\<lparr>ms_home := p\<rparr>) (upd_mm self (\<lambda>r. r\<lparr>mm_freelist := nxt s m\<rparr>) s)"
  have run: "allocMsg (EBBPrimMalloc Stupid callmf) p self s = Inr (m, ?s)"
    by (rule allocMsg_free [OF reps_upD(7) [OF msg_invD(1) [OF i] self] pop(1,2)])
  have sub: "nodes R (F(self := fs)) \<subseteq> nodes R F" using Cons by (auto simp: nodes_def split: if_splits)
  have "m \<in> nodes R F" using self Cons unfolding nodes_def by force
  then have mq: "m \<notin> nodes R Q" using mo(3) by blast
  have "lists mm_freelist R (F(self := fs)) ?s" by (rule pop(4)) simp_all
  moreover have "lists mm_msgqueue R Q ?s" by (rule lists_frame [OF mo(1)]) simp_all
  ultimately have "msgs_ok R Q (F(self := fs)) ?s" using mo(3) sub by (auto simp: msgs_ok_def)
  moreover have "args_ok ?s" using msg_invD(4) [OF i] by (simp add: args_ok_def)
  ultimately have "msg_inv root as R Q (F(self := fs)) ?s" using msg_invD(1,2) [OF i] by (simp add: msg_inv_def)
  moreover have "fresh_msg p self m R Q (F(self := fs)) s ?s"
    using pop(2,3) mq by (simp add: fresh_msg_def)
  ultimately show ?thesis using run Cons by auto
next
  case Nil
  note mo = msgs_okD [OF msg_invD(3) [OF i]]
  from c Nil obtain k where k: "56 \<le> k" "mem_funds mm p k s" "(nodes R Q \<union> nodes R F) \<inter> mem_avail s = {}"
    by (auto simp: can_alloc_def)
  have sz: "0 < unat sizeof_MsgStore" "unat sizeof_MsgStore \<le> k" using k(1) by (simp_all add: sizeof_MsgStore_def)
  obtain rc m s1 where m: "EBBPrimMalloc Stupid callmf p sizeof_MsgStore s = Inr (rc, m, s1)" "EBBRC_SUCCESS rc" "m \<noteq> 0"
    "m \<in> mem_avail s" "same_trans s s1" "mem_state.more s1 = mem_state.more s"
    using bump.malloc_law [OF k(2) sz, of callmf] by blast
  let ?s = "upd_msg m (\<lambda>x. x\<lparr>ms_home := p\<rparr>) s1"
  have "mm_freelist (msgrep s self) = 0" using free.empty_head [OF mo(2) self] Nil by simp
  then have run: "allocMsg (EBBPrimMalloc Stupid callmf) p self s = Inr (m, ?s)"
    using allocMsg_malloc [where malloc = "EBBPrimMalloc Stupid callmf", OF reps_upD(7) [OF msg_invD(1) [OF i] self] _ m(1-3)] by simp
  note ab = more_above [OF m(6)]
  have below: "same_below s s1" using m(5) ab by (simp add: same_below_def)
  have mr: "msgrep ?s = msgrep s" using ab by simp
  have fr: "m \<notin> nodes R Q" "m \<notin> nodes R F" using m(4) k(3) by blast+
  have "reps_up root as R ?s" "cache_ok R ?s"
    using msg_invD(1,2) [OF i] reps_up_cong [of ?s s root as R] cache_ok_cong [of ?s s R] same_belowD(3,4) [OF below] mr
    by simp_all
  moreover have "msgs_ok R Q F ?s"
    by (rule msgs_ok_frame [OF msg_invD(3) [OF i]]) (use mr ab fr in auto)
  moreover have "args_ok ?s" using msg_invD(4) [OF i] ab by (simp add: args_ok_def)
  ultimately have "msg_inv root as R Q F ?s" by (simp add: msg_inv_def)
  moreover have "fresh_msg p self m R Q F s ?s" using m(3) fr below ab by (simp add: fresh_msg_def)
  moreover have "F(self := tl (F self)) = F" using Nil by auto
  ultimately show ?thesis using run by auto
qed

subsection \<open>Queueing\<close>

lemma msg_inv_cong:
  assumes "repnode s' = repnode s" "multi s' = multi s" "msgrep s' = msgrep s" "msgstore s' = msgstore s"
  shows "msg_inv root as R Q F s' = msg_inv root as R Q F s"
  unfolding msg_inv_def reps_up_def cache_ok_def msgs_ok_def lists_def args_ok_def assms ..

text \<open>The core can call the event manager without a miss.\<close>

definition em_cached :: "nat \<Rightarrow> 'z msg_state_scheme \<Rightarrow> bool" where
  "em_cached p s \<longleftrightarrow> rep_ft s (EBBId_DREF s p (theEventMgrPrimId s)) = FT_EventMgrPrim"

lemma em_cached_cong:
  assumes "TransMem t = TransMem s" "ltab t = ltab s" "repft t = repft s" "theEventMgrPrimId t = theEventMgrPrimId s"
  shows "em_cached p t = em_cached p s"
  using trans_read_cong [OF assms(1-3)] assms(4) by (simp add: em_cached_def)

lemma em_callrc_hit:
  "em_cached p s \<Longrightarrow> em_callrc callmf p n k s = k (EBBId_DREF s p (theEventMgrPrimId s)) s"
  by (simp add: em_callrc_def em_call_def em_cached_def EBBCALL_hit)

definition interrupted :: "nat \<Rightarrow> 'z pic_state_scheme \<Rightarrow> 'z pic_state_scheme" where
  "interrupted loc s = s\<lparr>lpics := (lpics s)[loc := (lpics s ! loc)\<lparr>ipiStatus := True\<rparr>],
     wakeups := wakeups s @ [lcore (lpics s ! loc)]\<rparr>"

lemma interrupted_sel [simp]:
  "numlpics (interrupted loc s) = numlpics s" "TransMem (interrupted loc y) = TransMem y" "ltab (interrupted loc y) = ltab y"
  "repft (interrupted loc y) = repft y" "repnode (interrupted loc x) = repnode x" "multi (interrupted loc x) = multi x"
  "theEventMgrPrimId (interrupted loc z) = theEventMgrPrimId z" "emrep (interrupted loc z) = emrep z"
  "msgrep (interrupted loc w) = msgrep w" "msgstore (interrupted loc w) = msgstore w"
  "msg_state.more (interrupted loc w) = msg_state.more w"
  by (simp_all add: interrupted_def)

lemma ipi_interrupts:
  assumes "pic_inv s" "loc < numlpics s"
  shows "lrt_pic_ipi loc s = Inr (1, interrupted loc s)" "pic_inv (interrupted loc s)"
proof -
  show 1: "lrt_pic_ipi loc s = Inr (1, interrupted loc s)"
    using ipi_reset_ack_spec [OF assms(1), of loc] assms(2) by (simp add: interrupted_def)
  have "\<forall>s'. lrt_pic_ipi loc s = Inr (1, s') \<longrightarrow> pic_inv s'"
    using ipi_reset_ack_spec [OF assms(1), of loc, unfolded if_P [OF assms(2)]] by blast
  then show "pic_inv (interrupted loc s)" using 1 by blast
qed

definition queued :: "u64 \<Rightarrow> u64 \<Rightarrow> 'z msg_state_scheme \<Rightarrow> 'z msg_state_scheme" where
  "queued t m s = upd_mm t (\<lambda>r. r\<lparr>mm_msgqueue := m\<rparr>) (upd_msg m (\<lambda>x. x\<lparr>ms_next := mm_msgqueue (msgrep s t)\<rparr>) s)"

lemma queue_lock:
  assumes "mm_msgqueuelock (msgrep s a) = 0" "\<And>r. mm_msgqueuelock (f r) = mm_msgqueuelock r"
    "f ((msgrep s a)\<lparr>mm_msgqueuelock := 1\<rparr>) = (f (msgrep s a))\<lparr>mm_msgqueuelock := 1\<rparr>"
  shows "spinUnlock_queue a (upd_mm a f (upd_msg m g (upd_mm a (\<lambda>r. r\<lparr>mm_msgqueuelock := 1\<rparr>) s))) =
    upd_mm a f (upd_msg m g s)"
proof -
  have "(f (msgrep s a))\<lparr>mm_msgqueuelock := 0\<rparr> = f (msgrep s a)"
    using assms(1) assms(2) [of "msgrep s a"] by (cases "f (msgrep s a)") simp
  then show ?thesis using assms(3) by (simp add: spinUnlock_queue_def upd_mm_def upd_msg_def)
qed

lemma enqueueMsg_eq:
  assumes "mm_msgqueuelock (msgrep s t) = 0" "em_cached p s" "pic_inv s" "mm_eventLoc (msgrep s t) < numlpics s"
  shows "MsgMgrPrim_enqueueMsg callmf p t m s =
    Inr (EBBRC_OK, if mm_msgqueue (msgrep s t) = 0 then interrupted (mm_eventLoc (msgrep s t)) (queued t m s) else queued t m s)"
proof -
  have q: "spinUnlock_queue t (upd_mm t (\<lambda>r. r\<lparr>mm_msgqueue := m\<rparr>)
      (upd_msg m (\<lambda>x. x\<lparr>ms_next := mm_msgqueue (msgrep s t)\<rparr>) (upd_mm t (\<lambda>r. r\<lparr>mm_msgqueuelock := 1\<rparr>) s))) = queued t m s"
    unfolding queued_def by (rule queue_lock [OF assms(1)]) simp_all
  have em: "em_cached p (queued t m s)"
    using em_cached_cong [of "queued t m s" s p] assms(2) by (simp add: queued_def)
  have pi: "pic_inv (queued t m s)" using assms(3) by (simp add: queued_def)
  have loc: "mm_eventLoc (msgrep (queued t m s) t) = mm_eventLoc (msgrep s t)" "numlpics (queued t m s) = numlpics s"
    by (simp_all add: queued_def)
  note ipi = ipi_interrupts(1) [OF pi, of "mm_eventLoc (msgrep s t)"]
  show ?thesis
    using assms(1,4) q em_callrc_hit [OF em] ipi loc
    by (simp add: MsgMgrPrim_enqueueMsg_def spinLock_queue_def EventMgrPrim_dispatchIPI_def)
qed

lemma msg_inv_queued:
  assumes i: "msg_inv root as R Q F s" and t: "t \<in> R" and m: "m \<noteq> 0" "m \<notin> nodes R Q" "m \<notin> nodes R F"
  shows "msg_inv root as R (Q(t := m # Q t)) F (queued t m s)"
proof -
  note mo = msgs_okD [OF msg_invD(3) [OF i]]
  have "lists mm_msgqueue R (Q(t := m # Q t)) (queued t m s)"
    by (rule queue.push [OF mo(1) t m(1,2)]) (simp_all add: queued_def)
  moreover have "lists mm_freelist R F (queued t m s)"
    by (rule lists_frame [OF mo(2)]) (use m(3) in \<open>auto simp: queued_def\<close>)
  moreover have "nodes R (Q(t := m # Q t)) \<subseteq> insert m (nodes R Q)"
    using t by (auto simp: nodes_def split: if_splits)
  then have "nodes R (Q(t := m # Q t)) \<inter> nodes R F = {}" using mo(3) m(3) by blast
  ultimately show ?thesis
    using msg_invD(1,2,4) [OF i] args_ok_upd_msg [OF msg_invD(4) [OF i]]
    by (simp add: msg_inv_def msgs_ok_def queued_def)
qed

subsection \<open>Sending\<close>

text \<open>The four functions differ in what they write into the message.\<close>

definition send_with ::
    "'z msg_state_scheme callmf \<Rightarrow> 'z msg_state_scheme malloc \<Rightarrow> nat \<Rightarrow> u64 \<Rightarrow> nat \<Rightarrow> (MsgStore \<Rightarrow> MsgStore) \<Rightarrow>
     'z msg_state_scheme \<Rightarrow> (ebbrc \<times> 'z msg_state_scheme) res" where
  "send_with callmf malloc myid self loc g s =
     rbind (MsgMgrPrim_findTarget self loc s) (\<lambda>(rc, target, s).
     if rc = EBBRC_NOTFOUND then Inr (rc, s)
     else
       rbind (lrt_assert (EBBRC_SUCCESS rc)) (\<lambda>_.
       rbind (allocMsg malloc myid self s) (\<lambda>(msg, s).
       rbind (MsgMgrPrim_enqueueMsg callmf myid target msg (upd_msg msg g s)) (\<lambda>(rc, s).
       Inr (EBBRC_OK, s)))))"

definition msg_payload :: "u64 \<Rightarrow> u64 list \<Rightarrow> MsgStore \<Rightarrow> MsgStore" where
  "msg_payload i args m = m\<lparr>ms_id := i, ms_numargs := length args, ms_args := args @ drop (length args) (ms_args m)\<rparr>"

text \<open>The function of the interface that takes the given number of arguments.\<close>

definition msg_function ::
    "'z msg_state_scheme callmf \<Rightarrow> 'z msg_state_scheme malloc \<Rightarrow> nat \<Rightarrow> u64 \<Rightarrow> nat \<Rightarrow> u64 \<Rightarrow> u64 list \<Rightarrow>
     'z msg_state_scheme \<Rightarrow> (ebbrc \<times> 'z msg_state_scheme) res" where
  "msg_function callmf malloc myid self loc i args =
     (case args of
        [] \<Rightarrow> MsgMgrPrim_msg0 callmf malloc myid self loc i
      | [a1] \<Rightarrow> MsgMgrPrim_msg1 callmf malloc myid self loc i a1
      | [a1, a2] \<Rightarrow> MsgMgrPrim_msg2 callmf malloc myid self loc i a1 a2
      | [a1, a2, a3] \<Rightarrow> MsgMgrPrim_msg3 callmf malloc myid self loc i a1 a2 a3
      | _ \<Rightarrow> (\<lambda>s. Inl AssertFail))"

lemma msg_function_prefix:
  "length args \<le> 3 \<Longrightarrow> \<exists>g. msg_function callmf malloc p self loc i args = send_with callmf malloc p self loc g \<and>
     (\<forall>x. length (ms_args x) = MAXARGS \<longrightarrow> g x = msg_payload i args x)"
proof -
  assume n: "length args \<le> 3"
  have arr: "length xs = MAXARGS \<Longrightarrow> \<exists>a b c. xs = [a, b, c]" for xs :: "u64 list"
    by (auto simp: MAXARGS_def numeral_eq_Suc length_Suc_conv)
  consider "args = []" | a where "args = [a]" | a b where "args = [a, b]" | a b c where "args = [a, b, c]"
    using n by (auto simp: le_Suc_eq numeral_eq_Suc length_Suc_conv)
  then show ?thesis
  proof cases
    case 1
    then show ?thesis
      by (intro exI [of _ "\<lambda>m. m\<lparr>ms_id := i, ms_numargs := 0\<rparr>"])
        (auto simp: msg_function_def send_with_def MsgMgrPrim_msg0_def fun_eq_iff msg_payload_def Let_def cong: if_cong)
  next
    case (2 a)
    then show ?thesis
      by (intro exI [of _ "\<lambda>m. m\<lparr>ms_id := i, ms_numargs := 1, ms_args := (ms_args m)[0 := a]\<rparr>"])
        (auto simp: msg_function_def send_with_def MsgMgrPrim_msg1_def fun_eq_iff msg_payload_def Let_def dest!: arr cong: if_cong)
  next
    case (3 a b)
    then show ?thesis
      by (intro exI [of _ "\<lambda>m. m\<lparr>ms_id := i, ms_numargs := 2, ms_args := (ms_args m)[0 := a, 1 := b]\<rparr>"])
        (auto simp: msg_function_def send_with_def MsgMgrPrim_msg2_def fun_eq_iff msg_payload_def Let_def numeral_eq_Suc dest!: arr cong: if_cong)
  next
    case (4 a b c)
    then show ?thesis
      by (intro exI [of _ "\<lambda>m. m\<lparr>ms_id := i, ms_numargs := 3, ms_args := (ms_args m)[0 := a, 1 := b, 2 := c]\<rparr>"])
        (auto simp: msg_function_def send_with_def MsgMgrPrim_msg3_def fun_eq_iff msg_payload_def Let_def numeral_eq_Suc dest!: arr cong: if_cong)
  qed
qed

lemma send_with_missing:
  assumes i: "msg_inv root as R Q F s" and "self \<in> R"
  shows "LRT_PIC_MAX_PICS \<le> loc \<Longrightarrow> send_with callmf malloc p self loc g s = Inl OutOfBounds"
    and "loc < LRT_PIC_MAX_PICS \<Longrightarrow> (\<And>t. t \<in> R \<Longrightarrow> mm_eventLoc (msgrep s t) \<noteq> loc) \<Longrightarrow>
      send_with callmf malloc p self loc g s = Inr (EBBRC_NOTFOUND, s)"
proof -
  have len: "length (mm_reps (msgrep s self)) = LRT_PIC_MAX_PICS"
    using msg_invD(2) [OF i] assms(2) by (auto simp: cache_ok_def)
  show "LRT_PIC_MAX_PICS \<le> loc \<Longrightarrow> send_with callmf malloc p self loc g s = Inl OutOfBounds"
    using len by (simp add: send_with_def MsgMgrPrim_findTarget_def arr_get_def)
  show "loc < LRT_PIC_MAX_PICS \<Longrightarrow> (\<And>t. t \<in> R \<Longrightarrow> mm_eventLoc (msgrep s t) \<noteq> loc) \<Longrightarrow>
      send_with callmf malloc p self loc g s = Inr (EBBRC_NOTFOUND, s)"
    using findTarget_missing [OF msg_invD(1,2) [OF i] assms(2)] by (simp add: send_with_def)
qed

text \<open>What a message says: the core it comes from, the id it is for, its arguments.\<close>

definition content :: "MsgStore \<Rightarrow> nat \<times> u64 \<times> u64 list" where
  "content x = (ms_home x, ms_id x, take (ms_numargs x) (ms_args x))"

lemma content_next [simp]: "content (x\<lparr>ms_next := n\<rparr>) = content x"
  by (simp add: content_def)

lemma content_payload: "content (msg_payload i args x) = (ms_home x, i, args)"
  by (simp add: content_def msg_payload_def)

lemma can_alloc_cached_rep: "can_alloc mm p self R Q F s \<Longrightarrow> can_alloc mm p self R Q F (cached_rep self' loc t s)"
proof -
  have m: "root_state.more s = root_state.more s \<Longrightarrow> bootMem (cached_rep self' loc t s) = bootMem s"
    "stupid_rep (cached_rep self' loc t s) = stupid_rep s" "theEBBMemMgrPrimId (cached_rep self' loc t s) = theEBBMemMgrPrimId s"
    by (simp_all add: cached_rep_def upd_mm_def)
  have "mem_funds mm p k s \<Longrightarrow> mem_funds mm p k (cached_rep self' loc t s)" for k
    by (rule mem_funds_fields) (simp_all add: m)
  moreover have "mem_avail (cached_rep self' loc t s) = mem_avail s"
    by (simp add: mem_avail_def arena_def mem_rep_def m)
  ultimately show "can_alloc mm p self R Q F s \<Longrightarrow> can_alloc mm p self R Q F (cached_rep self' loc t s)"
    unfolding can_alloc_def by metis
qed

lemma send_with_ok:
  assumes i: "msg_inv root as R Q F s" and self: "self \<in> R" and t: "t \<in> R" "mm_eventLoc (msgrep s t) = loc"
    and em: "em_cached p s" and pic: "pic_inv s" "loc < numlpics s" and c: "can_alloc mm p self R Q F s"
    and g: "\<And>x. length (ms_args x) = MAXARGS \<Longrightarrow> g x = msg_payload i args x" and n: "length args \<le> 3"
  shows "\<exists>m s'. send_with callmf (EBBPrimMalloc Stupid callmf) p self loc g s = Inr (EBBRC_OK, s') \<and>
    msg_inv root as R (Q(t := m # Q t)) (F(self := tl (F self))) s' \<and>
    m \<notin> nodes R Q \<and> content (msgstore s' m) = (p, i, args) \<and> ms_numargs (msgstore s' m) = length args \<and>
    (\<forall>a. a \<noteq> m \<longrightarrow> msgstore s' a = msgstore s a) \<and>
    (if Q t = [] then \<exists>u. same_below s u \<and> same_below (interrupted loc u) s' else same_below s s')"
proof -
  let ?F = "F(self := tl (F self))"
  let ?s = "cached_rep self loc t s"
  note rep = findTarget_found [OF msg_invD(1,2) [OF i] self t]
  have i1: "msg_inv root as R Q F ?s" by (rule msg_inv_cached_rep [OF i self t])
  obtain m s1 where m: "allocMsg (EBBPrimMalloc Stupid callmf) p self ?s = Inr (m, s1)"
    "msg_inv root as R Q ?F s1" "fresh_msg p self m R Q ?F ?s s1"
    using alloc_ok [OF i1 self can_alloc_cached_rep [OF c], of callmf] by blast
  let ?s2 = "upd_msg m g s1"
  have sb: "same_below s s1" using same_below_trans [of s ?s s1] m(3) by (simp add: fresh_msg_def)
  note be = same_belowD [OF sb]
  have fr: "m \<noteq> 0" "m \<notin> nodes R Q" "m \<notin> nodes R ?F" "ms_home (msgstore s1 m) = p"
    "\<And>a. a \<noteq> m \<Longrightarrow> msgstore s1 a = msgstore s a" "mm_eventLoc (msgrep s1 t) = loc"
    using m(3) t(2) by (simp_all add: fresh_msg_def)
  have len: "length (ms_args (msgstore s1 m)) = MAXARGS" using msg_invD(4) [OF m(2)] by (simp add: args_ok_def)
  have g1: "g (msgstore s1 m) = msg_payload i args (msgstore s1 m)" by (rule g [OF len])
  have "reps_up root as R ?s2" "cache_ok R ?s2" using msg_invD(1,2) [OF m(2)] by simp_all
  moreover have "msgs_ok R Q ?F ?s2"
    by (rule msgs_ok_frame [OF msg_invD(3) [OF m(2)]]) (use fr(2,3) in auto)
  moreover have "args_ok ?s2"
    using msg_invD(4) [OF m(2)] g1 len n by (simp add: args_ok_def msg_payload_def MAXARGS_def)
  ultimately have i2: "msg_inv root as R Q ?F ?s2" by (simp add: msg_inv_def)
  have em2: "em_cached p ?s2" using em_cached_cong [of ?s2 s p] em be by simp
  have pic2: "pic_inv ?s2" "mm_eventLoc (msgrep ?s2 t) < numlpics ?s2" using pic be fr(6) by simp_all
  note enq = enqueueMsg_eq [OF reps_upD(6) [OF msg_invD(1) [OF i2] t(1)] em2 pic2, of callmf m]
  have i3: "msg_inv root as R (Q(t := m # Q t)) ?F (queued t m ?s2)"
    by (rule msg_inv_queued [OF i2 t(1) fr(1-3)])
  have q0: "mm_msgqueue (msgrep ?s2 t) = 0 \<longleftrightarrow> Q t = []"
    by (rule queue.empty_head [OF msgs_okD(1) [OF msg_invD(3) [OF i2]] t(1)])
  define s' where "s' = (if Q t = [] then interrupted loc (queued t m ?s2) else queued t m ?s2)"
  have run: "send_with callmf (EBBPrimMalloc Stupid callmf) p self loc g s = Inr (EBBRC_OK, s')"
    using rep m(1) enq q0 fr(6) by (simp add: send_with_def s'_def ebbrc_defs EBBRC_SUCCESS_def)
  have st: "msgstore s' = msgstore (queued t m ?s2)" "repnode s' = repnode (queued t m ?s2)"
    "multi s' = multi (queued t m ?s2)" "msgrep s' = msgrep (queued t m ?s2)"
    by (simp_all add: s'_def)
  have "msg_inv root as R (Q(t := m # Q t)) ?F s'"
    using msg_inv_cong [OF st(2,3,4,1)] i3 by blast
  moreover have "content (msgstore s' m) = (p, i, args)" "ms_numargs (msgstore s' m) = length args"
    using fr(4) g1 content_payload [of i args "msgstore s1 m"] by (simp_all add: st queued_def msg_payload_def)
  moreover have "msgstore s' a = msgstore s a" if "a \<noteq> m" for a using fr(5) that by (simp add: st queued_def)
  moreover have sbq: "same_below s (queued t m ?s2)" using sb by (simp add: queued_def)
  then have "if Q t = [] then \<exists>u. same_below s u \<and> same_below (interrupted loc u) s' else same_below s s'"
    by (auto simp: s'_def)
  ultimately show ?thesis using run fr(2) by blast
qed


end
