(* ===== verification/MsgRecv.thy ===== *)
theory MsgRecv
  imports MsgSend
begin

text \<open>
  Receiving: the handler of the inter-processor interrupt runs every message of its core's queue,
  the one sent last first, and gives each back to the core that sent it.
\<close>

subsection \<open>Freeing and taking\<close>

lemma msg_inv_lists_cong:
  assumes "msg_inv root as R Q F s" "\<And>r. r \<in> R \<Longrightarrow> Q' r = Q r" "\<And>r. r \<in> R \<Longrightarrow> F' r = F r"
  shows "msg_inv root as R Q' F' s"
proof -
  have "nodes R Q' = nodes R Q" "nodes R F' = nodes R F" using assms(2,3) by (auto simp: nodes_def)
  then show ?thesis using assms by (simp add: msg_inv_def msgs_ok_def lists_def)
qed

lemma free_unlock:
  assumes "mm_freelistlock (msgrep s a) = 0"
  shows "spinUnlock_free a (upd_mm a (\<lambda>r. r\<lparr>mm_freelist := q\<rparr>) (upd_msg m g (upd_mm a (\<lambda>r. r\<lparr>mm_freelistlock := 1\<rparr>) s))) =
    upd_mm a (\<lambda>r. r\<lparr>mm_freelist := q\<rparr>) (upd_msg m g s)"
proof -
  have "(msgrep s a)\<lparr>mm_freelist := q, mm_freelistlock := 0\<rparr> = (msgrep s a)\<lparr>mm_freelist := q\<rparr>"
    using assms by (cases "msgrep s a") simp
  then show ?thesis by (simp add: spinUnlock_free_def upd_mm_def upd_msg_def)
qed

lemma freeMsg_ok:
  assumes i: "msg_inv root as R Q F s" and self: "self \<in> R" and h: "h \<in> R" "mm_eventLoc (msgrep s h) = ms_home (msgstore s m)"
    and m: "m \<noteq> 0" "m \<notin> nodes R Q" "m \<notin> nodes R F"
  shows "\<exists>s'. freeMsg self m s = Inr s' \<and> msg_inv root as R Q (F(h := m # F h)) s' \<and> same_below s s' \<and>
    (\<forall>a. a \<noteq> m \<longrightarrow> msgstore s' a = msgstore s a) \<and> (\<forall>r. mm_eventLoc (msgrep s' r) = mm_eventLoc (msgrep s r))"
proof -
  let ?s = "cached_rep self (ms_home (msgstore s m)) h s"
  let ?s' = "upd_mm h (\<lambda>r. r\<lparr>mm_freelist := m\<rparr>) (upd_msg m (\<lambda>x. x\<lparr>ms_next := mm_freelist (msgrep ?s h)\<rparr>) ?s)"
  have i1: "msg_inv root as R Q F ?s" by (rule msg_inv_cached_rep [OF i self h])
  note mo = msgs_okD [OF msg_invD(3) [OF i1]]
  have lk: "mm_freelistlock (msgrep ?s h) = 0" by (rule reps_upD(7) [OF msg_invD(1) [OF i1] h(1)])
  have run: "freeMsg self m s = Inr ?s'"
    using findTarget_found [OF msg_invD(1,2) [OF i] self h] lk free_unlock [OF lk]
    by (simp add: freeMsg_def spinLock_free_def)
  have "lists mm_freelist R (F(h := m # F h)) ?s'"
    by (rule free.push [OF mo(2) h(1) m(1,3)]) (simp_all add: cached_rep_def)
  moreover have "lists mm_msgqueue R Q ?s'"
    by (rule lists_frame [OF mo(1)]) (use m(2) in auto)
  moreover have "nodes R (F(h := m # F h)) \<subseteq> insert m (nodes R F)"
    using h(1) by (auto simp: nodes_def split: if_splits)
  then have "nodes R Q \<inter> nodes R (F(h := m # F h)) = {}" using mo(3) m(2) by blast
  ultimately have "msg_inv root as R Q (F(h := m # F h)) ?s'"
    using msg_invD(1,2,4) [OF i1] args_ok_upd_msg [OF msg_invD(4) [OF i1]] by (simp add: msg_inv_def msgs_ok_def)
  then show ?thesis using run by (intro exI [of _ ?s']) simp
qed

lemma dequeue_eq:
  assumes "mm_msgqueuelock (msgrep s t) = 0"
  shows "MsgMgrPrim_dequeueMsgHead t s = Inr (mm_msgqueue (msgrep s t),
    if mm_msgqueue (msgrep s t) = 0 then s else upd_mm t (\<lambda>r. r\<lparr>mm_msgqueue := nxt s (mm_msgqueue (msgrep s t))\<rparr>) s)"
proof -
  have 1: "upd_mm t (\<lambda>r. r\<lparr>mm_msgqueuelock := 0\<rparr>) s = s"
    by (rule upd_mm_id) (use assms in \<open>cases "msgrep s t"; simp\<close>)
  have 2: "upd_mm t (\<lambda>r. r\<lparr>mm_msgqueue := q, mm_msgqueuelock := 0\<rparr>) s = upd_mm t (\<lambda>r. r\<lparr>mm_msgqueue := q\<rparr>) s" for q
  proof -
    have "(msgrep s t)\<lparr>mm_msgqueue := q, mm_msgqueuelock := 0\<rparr> = (msgrep s t)\<lparr>mm_msgqueue := q\<rparr>"
      using assms by (cases "msgrep s t") simp
    then show ?thesis by (simp add: upd_mm_def)
  qed
  show ?thesis
    using assms 1 2 by (simp add: MsgMgrPrim_dequeueMsgHead_def spinLock_queue_def spinUnlock_queue_def upd_mm_comp Let_def)
qed

lemma dequeue_ok:
  assumes i: "msg_inv root as R Q F s" and self: "self \<in> R"
  shows "case Q self of [] \<Rightarrow> MsgMgrPrim_dequeueMsgHead self s = Inr (0, s)
    | m # ms \<Rightarrow> m \<noteq> 0 \<and> m \<notin> nodes R (Q(self := ms)) \<and> m \<notin> nodes R F \<and>
        (\<exists>s'. MsgMgrPrim_dequeueMsgHead self s = Inr (m, s') \<and> msg_inv root as R (Q(self := ms)) F s' \<and> same_below s s' \<and>
          msgstore s' = msgstore s \<and> (\<forall>r. mm_eventLoc (msgrep s' r) = mm_eventLoc (msgrep s r)))"
proof -
  note mo = msgs_okD [OF msg_invD(3) [OF i]]
  have lk: "mm_msgqueuelock (msgrep s self) = 0" by (rule reps_upD(6) [OF msg_invD(1) [OF i] self])
  show ?thesis
  proof (cases "Q self")
    case Nil
    then show ?thesis using dequeue_eq [OF lk] queue.empty_head [OF mo(1) self] by simp
  next
    case (Cons m ms)
    note pop = queue.pop [OF mo(1) self Cons]
    let ?s = "upd_mm self (\<lambda>r. r\<lparr>mm_msgqueue := nxt s m\<rparr>) s"
    have "lists mm_msgqueue R (Q(self := ms)) ?s" by (rule pop(4)) simp_all
    moreover have "lists mm_freelist R F ?s" by (rule lists_frame [OF mo(2)]) simp_all
    moreover have "nodes R (Q(self := ms)) \<subseteq> nodes R Q" using Cons by (auto simp: nodes_def split: if_splits)
    ultimately have "msg_inv root as R (Q(self := ms)) F ?s"
      using msg_invD(1,2,4) [OF i] mo(3) by (auto simp: msg_inv_def msgs_ok_def)
    moreover have "m \<in> nodes R Q" using self Cons unfolding nodes_def by force
    then have "m \<notin> nodes R F" using mo(3) by blast
    ultimately show ?thesis using dequeue_eq [OF lk] pop(1-3) Cons by simp
  qed
qed

subsection \<open>Running the messages\<close>

text \<open>Handlers that only record their calls: the core's log of function, object and arguments.\<close>

record msg_trace = msg_state +
  delivered :: "(fn \<times> u64 \<times> u64 list) list"

definition log_msg :: "fn \<Rightarrow> u64 \<Rightarrow> u64 list \<Rightarrow> msg_trace \<Rightarrow> msg_trace res" where
  "log_msg f r args s = Inr (s\<lparr>delivered := delivered s @ [(f, r, args)]\<rparr>)"

text \<open>The call a message makes on core \<open>p\<close>: function \<open>n\<close> of the core's object for the id.\<close>

definition msg_call :: "nat \<Rightarrow> msg_trace \<Rightarrow> u64 \<Rightarrow> fn \<times> u64 \<times> u64 list" where
  "msg_call p s m =
     (let x = msgstore s m; r = EBBId_DREF s p (ms_id x)
      in (Method (rep_ft s r) (ms_numargs x), r, take (ms_numargs x) (ms_args x)))"

definition deliverable :: "nat \<Rightarrow> u64 set \<Rightarrow> msg_trace \<Rightarrow> u64 \<Rightarrow> bool" where
  "deliverable p R s m \<longleftrightarrow> ms_numargs (msgstore s m) \<le> 3 \<and>
     rep_ft s (EBBId_DREF s p (ms_id (msgstore s m))) \<noteq> EBBDefFT \<and>
     (\<exists>h \<in> R. mm_eventLoc (msgrep s h) = ms_home (msgstore s m))"

definition logged :: "nat \<Rightarrow> u64 list \<Rightarrow> msg_trace \<Rightarrow> msg_trace" where
  "logged p ms s = s\<lparr>delivered := delivered s @ map (msg_call p s) ms\<rparr>"

lemma deliver_logs:
  assumes "ms_numargs (msgstore s m) \<le> 3" "rep_ft s (EBBId_DREF s p (ms_id (msgstore s m))) \<noteq> EBBDefFT"
  shows "deliver_msg callmf log_msg p m s = Inr (logged p [m] s)"
  using EBBCALL_hit [OF refl refl assms(2), of callmf] assms(1)
  by (simp add: deliver_msg_def log_msg_def logged_def msg_call_def Let_def)

lemma logged_sel [simp]:
  "msgstore (logged p ms s) = msgstore s" "msgrep (logged p ms s) = msgrep s" "repnode (logged p ms s) = repnode s"
  "multi (logged p ms s) = multi s" "TransMem (logged p ms s) = TransMem s" "ltab (logged p ms s) = ltab s"
  "repft (logged p ms s) = repft s" "theEventMgrPrimId (logged p ms s) = theEventMgrPrimId s"
  "numlpics (logged p ms s) = numlpics s" "lpics (logged p ms s) = lpics s" "pic_inv (logged p ms s) = pic_inv s"
  by (simp_all add: logged_def pic_inv_def pic_ok_def vecs_agree_def pic_shape_def cores_ok_def)

lemma msg_call_cong:
  assumes "TransMem t = TransMem s" "ltab t = ltab s" "repft t = repft s" "ms_id (msgstore t m) = ms_id (msgstore s m)"
    "ms_numargs (msgstore t m) = ms_numargs (msgstore s m)" "ms_args (msgstore t m) = ms_args (msgstore s m)"
  shows "msg_call p t m = msg_call p s m"
  using trans_read_cong [OF assms(1-3)] assms(4-6) by (simp add: msg_call_def Let_def)

text \<open>The messages a core gets back when \<open>ms\<close> have been run: its own, the last one first.\<close>

definition returned :: "msg_trace \<Rightarrow> u64 list \<Rightarrow> (u64 \<Rightarrow> u64 list) \<Rightarrow> u64 \<Rightarrow> u64 list" where
  "returned s ms F r = rev (filter (\<lambda>m. mm_eventLoc (msgrep s r) = ms_home (msgstore s m)) ms) @ F r"

lemma same_below_logged:
  "same_below (logged p ms s) t \<Longrightarrow> TransMem t = TransMem s \<and> ltab t = ltab s \<and> repft t = repft s \<and>
     theEventMgrPrimId t = theEventMgrPrimId s \<and> numlpics t = numlpics s \<and> lpics t = lpics s \<and> pic_inv t = pic_inv s \<and>
     delivered t = delivered s @ map (msg_call p s) ms"
proof -
  assume b: "same_below (logged p ms s) t"
  note d = same_belowD [OF b]
  have "delivered t = delivered (logged p ms s)" using d(9) by (cases t; cases "logged p ms s") simp
  moreover have "delivered (logged p ms s) = delivered s @ map (msg_call p s) ms" by (simp add: logged_def)
  ultimately show ?thesis using d by simp
qed

lemma same_below_logged_step:
  assumes b: "same_below (logged p [m] s) s3" and c: "\<And>x. x \<in> set ms \<Longrightarrow> msgstore s3 x = msgstore s x"
  shows "same_below (logged p (m # ms) s) (logged p ms s3)"
proof -
  note d = same_below_logged [OF b]
  have call: "msg_call p s3 x = msg_call p s x" if "x \<in> set ms" for x
    by (rule msg_call_cong) (use d c [OF that] in simp_all)
  have log: "delivered (logged p ms s3) = delivered (logged p (m # ms) s)"
    using d call by (simp add: logged_def)
  then have "msg_state.more (logged p ms s3) = msg_state.more (logged p (m # ms) s)"
    by (cases "logged p ms s3"; cases "logged p (m # ms) s") simp
  moreover have "same_trans (logged p (m # ms) s) (logged p ms s3)"
    using b by (simp add: same_below_def same_trans_def logged_def root_state.defs)
  moreover have "emrep (logged p ms s3) = emrep (logged p (m # ms) s)"
    using same_belowD(8) [OF b] by (simp add: logged_def)
  ultimately show ?thesis using d by (simp add: same_below_def)
qed

lemma returned_step:
  assumes "\<And>x. x \<in> set ms \<Longrightarrow> ms_home (msgstore s3 x) = ms_home (msgstore s x)"
    "\<And>r. mm_eventLoc (msgrep s3 r) = mm_eventLoc (msgrep s r)"
    "inj_on (\<lambda>r. mm_eventLoc (msgrep s r)) R" "h \<in> R" "mm_eventLoc (msgrep s h) = ms_home (msgstore s m)" "r \<in> R"
  shows "returned s3 ms (F(h := m # F h)) r = returned s (m # ms) F r"
proof -
  have "filter (\<lambda>x. mm_eventLoc (msgrep s r) = ms_home (msgstore s3 x)) ms =
      filter (\<lambda>x. mm_eventLoc (msgrep s r) = ms_home (msgstore s x)) ms"
    by (rule filter_cong) (use assms(1) in auto)
  moreover have "mm_eventLoc (msgrep s r) = ms_home (msgstore s m) \<longleftrightarrow> r = h"
    using inj_on_eq_iff [OF assms(3,6,4)] assms(5) by simp
  ultimately show ?thesis by (simp add: returned_def assms(2))
qed

lemma msg_loop_runs:
  assumes "msg_inv root as R Q F s" "self \<in> R" "Q self = ms" "m \<noteq> 0" "m \<notin> nodes R Q" "m \<notin> nodes R F"
    "\<forall>x \<in> set (m # ms). deliverable p R s x"
  shows "\<exists>s'. msg_loop callmf log_msg p self m s = Some (Inr s') \<and>
    msg_inv root as R (Q(self := [])) (returned s (m # ms) F) s' \<and> same_below (logged p (m # ms) s) s'"
  using assms
proof (induction ms arbitrary: m s Q F)
  case (Nil m s Q F)
  note step = Nil.prems
  let ?s1 = "logged p [m] s"
  have dl: "deliver_msg callmf log_msg p m s = Inr ?s1"
    by (rule deliver_logs) (use step(7) in \<open>simp_all add: deliverable_def\<close>)
  have i1: "msg_inv root as R Q F ?s1" using step(1) msg_inv_cong [of ?s1 s] by simp
  obtain h where h: "h \<in> R" "mm_eventLoc (msgrep s h) = ms_home (msgstore s m)" using step(7) by (auto simp: deliverable_def)
  obtain s2 where f: "freeMsg self m ?s1 = Inr s2" "msg_inv root as R Q (F(h := m # F h)) s2" "same_below ?s1 s2"
    "\<forall>a. a \<noteq> m \<longrightarrow> msgstore s2 a = msgstore s a" "\<forall>r. mm_eventLoc (msgrep s2 r) = mm_eventLoc (msgrep s r)"
    using freeMsg_ok [OF i1 step(2) h(1) _ step(4-6)] h(2) by auto
  have "MsgMgrPrim_dequeueMsgHead self s2 = Inr (0, s2)" using dequeue_ok [OF f(2) step(2)] step(3) by simp
  then have "msg_loop callmf log_msg p self m s = Some (Inr s2)"
    using step(4) dl f(1) by (subst msg_loop.simps) (simp add: msg_loop.simps)
  moreover have "msg_inv root as R (Q(self := [])) (returned s [m] F) s2"
  proof (rule msg_inv_lists_cong [OF f(2)])
    fix r assume r: "r \<in> R"
    show "(Q(self := [])) r = Q r" using step(3) by simp
    have "returned s [] (F(h := m # F h)) r = returned s [m] F r"
      by (rule returned_step [OF _ _ reps_upD(4) [OF msg_invD(1) [OF step(1)]] h r]) simp_all
    then show "returned s [m] F r = (F(h := m # F h)) r" by (simp add: returned_def)
  qed
  ultimately show ?case using f(3) by blast
next
  case (Cons x xs m s Q F)
  note step = Cons.prems
  let ?s1 = "logged p [m] s"
  have dl: "deliver_msg callmf log_msg p m s = Inr ?s1"
    by (rule deliver_logs) (use step(7) in \<open>simp_all add: deliverable_def\<close>)
  have i1: "msg_inv root as R Q F ?s1" using step(1) msg_inv_cong [of ?s1 s] by simp
  obtain h where h: "h \<in> R" "mm_eventLoc (msgrep s h) = ms_home (msgstore s m)" using step(7) by (auto simp: deliverable_def)
  obtain s2 where f: "freeMsg self m ?s1 = Inr s2" "msg_inv root as R Q (F(h := m # F h)) s2" "same_below ?s1 s2"
    "\<forall>a. a \<noteq> m \<longrightarrow> msgstore s2 a = msgstore s a" "\<forall>r. mm_eventLoc (msgrep s2 r) = mm_eventLoc (msgrep s r)"
    using freeMsg_ok [OF i1 step(2) h(1) _ step(4-6)] h(2) by auto
  obtain s3 where d: "MsgMgrPrim_dequeueMsgHead self s2 = Inr (x, s3)" "msg_inv root as R (Q(self := xs)) (F(h := m # F h)) s3"
    "same_below s2 s3" "msgstore s3 = msgstore s2" "\<forall>r. mm_eventLoc (msgrep s3 r) = mm_eventLoc (msgrep s2 r)"
    and x: "x \<noteq> 0" "x \<notin> nodes R (Q(self := xs))" "x \<notin> nodes R (F(h := m # F h))"
    using dequeue_ok [OF f(2) step(2)] step(3) by auto
  have "set (x # xs) \<subseteq> nodes R Q" using step(2,3) unfolding nodes_def by force
  then have sto: "msgstore s3 y = msgstore s y" if "y \<in> set (x # xs)" for y
    using that f(4) d(4) step(5) by auto
  have loc: "mm_eventLoc (msgrep s3 r) = mm_eventLoc (msgrep s r)" for r using f(5) d(5) by simp
  have b3: "same_below ?s1 s3" by (rule same_below_trans [OF f(3) d(3)])
  note rd = trans_read_cong [of s3 s] same_below_logged [OF b3]
  have "\<forall>y \<in> set (x # xs). deliverable p R s3 y"
    using step(7) rd sto loc by (auto simp: deliverable_def)
  from Cons.IH [OF d(2) step(2) fun_upd_same x this, unfolded fun_upd_upd]
  obtain s' where s': "msg_loop callmf log_msg p self x s3 = Some (Inr s')"
    "msg_inv root as R (Q(self := [])) (returned s3 (x # xs) (F(h := m # F h))) s'" "same_below (logged p (x # xs) s3) s'"
    by blast
  have "msg_loop callmf log_msg p self m s = Some (Inr s')"
    using step(4) dl f(1) d(1) s'(1) by (subst msg_loop.simps) simp
  moreover have "msg_inv root as R (Q(self := [])) (returned s (m # x # xs) F) s'"
    by (rule msg_inv_lists_cong [OF s'(2) refl returned_step [symmetric]])
      (use sto loc reps_upD(4) [OF msg_invD(1) [OF step(1)]] h in simp_all)
  moreover have "same_below (logged p (m # x # xs) s) s'"
    by (rule same_below_trans [OF same_below_logged_step [OF b3 sto] s'(3)])
  ultimately show ?case by blast
qed

subsection \<open>The interrupt handler\<close>

definition acked :: "nat \<Rightarrow> 'z pic_state_scheme \<Rightarrow> 'z pic_state_scheme" where
  "acked p s = s\<lparr>lpics := (lpics s)[p := (lpics s ! p)\<lparr>ipiStatus := False\<rparr>]\<rparr>"

lemma acked_sel [simp]:
  "numlpics (acked p s) = numlpics s" "TransMem (acked p y) = TransMem y" "ltab (acked p y) = ltab y"
  "repft (acked p y) = repft y" "repnode (acked p x) = repnode x" "multi (acked p x) = multi x"
  "theEventMgrPrimId (acked p z) = theEventMgrPrimId z" "msgrep (acked p w) = msgrep w"
  "msgstore (acked p w) = msgstore w" "delivered (acked p v) = delivered v"
  by (simp_all add: acked_def)

lemma enabled_on_msg [simp]:
  "msgrep (enabled_on p e w) = msgrep w" "msgstore (enabled_on p e w) = msgstore w" "delivered (enabled_on p e v) = delivered v"
  by (simp_all add: enabled_on_def)

lemma ack_ok:
  assumes "pic_inv s" "p < numlpics s"
  shows "lrt_pic_ackipi p s = Inr (acked p s)" "pic_inv (acked p s)" "\<not> ipiStatus (lpics (acked p s) ! p)"
proof -
  note ok = pic_okD [OF assms(1) [unfolded pic_inv_def, THEN conjunct1]]
  have p: "p < LRT_PIC_MAX_PICS" using ok(2) assms(2) by (simp add: cores_ok_def)
  note len = pic_ok_lpic [OF assms(1) [unfolded pic_inv_def, THEN conjunct1] p]
  show "lrt_pic_ackipi p s = Inr (acked p s)" using p ok(7) by (simp add: lrt_pic_ackipi_def upd_lpic_Inr acked_def)
  show "pic_inv (acked p s)"
    unfolding acked_def by (rule pic_inv_upd [OF assms(1) p]) (use len in \<open>simp_all add: lpic_shape_def\<close>)
  show "\<not> ipiStatus (lpics (acked p s) ! p)" using p ok(7) by (simp add: acked_def)
qed

lemma enabled_on_ipi:
  "ipiStatus (lpics (enabled_on p e s) ! p) = ipiStatus (lpics s ! p)"
  by (cases "p < length (lpics s)") (simp_all add: enabled_on_def list_update_beyond)


subsection \<open>Witnesses\<close>

text \<open>
  Cores 0 and 1 have managers at \<open>0x3000\<close> and \<open>0x2000\<close>; core 0 has two messages from core 1
  queued and one message free.
\<close>

definition demo_msgrep :: "u64 \<Rightarrow> MsgMgrPrim" where
  "demo_msgrep = (\<lambda>a. \<lparr>mm_eventLoc = if a = 0x2000 then 1 else 0, mm_msgqueuelock = 0,
     mm_msgqueue = if a = 0x3000 then 0x5000 else 0, mm_freelistlock = 0, mm_freelist = if a = 0x3000 then 0x7000 else 0,
     mm_reps = replicate LRT_PIC_MAX_PICS 0, mm_theRootMM = 0xA00\<rparr>)"

definition demo_msgstore :: "u64 \<Rightarrow> MsgStore" where
  "demo_msgstore = (\<lambda>a. if a = 0x5000
     then \<lparr>ms_next = 0x6000, ms_home = 1, ms_id = id_of 0x10000 6, ms_numargs = 2, ms_args = [7, 8, 0]\<rparr>
     else \<lparr>ms_next = 0, ms_home = 1, ms_id = id_of 0x10000 6, ms_numargs = 0, ms_args = [0, 0, 0]\<rparr>)"

definition demo_msg :: msg_trace where
  "demo_msg = msg_state.extend (event_state.extend (demo_event
      \<lparr>multi := (multi demo_event)(0xA00 := \<lparr>rm_createRep = CR_other 0, rm_head = 0xB00, rm_lock = 0\<rparr>),
       repnode := (repnode demo_event)(0xB00 := \<lparr>node_rep = 0x2000, node_el = 1, node_next = 0xC00\<rparr>,
         0xC00 := \<lparr>node_rep = 0x3000, node_el = 0, node_next = 0\<rparr>)\<rparr>)
     \<lparr>theMsgMgrId = id_of 0x10000 7, theMsgMgrEHId = id_of 0x10000 8, rootRefMM = 0xA00, rootRefEH = 0xA40,
      msgrep = demo_msgrep, msgstore = demo_msgstore\<rparr>) \<lparr>delivered = []\<rparr>"

definition demo_Q :: "u64 \<Rightarrow> u64 list" where "demo_Q a = (if a = 0x3000 then [0x5000, 0x6000] else [])"
definition demo_F :: "u64 \<Rightarrow> u64 list" where "demo_F a = (if a = 0x3000 then [0x7000] else [])"

lemma demo_msg_sel [simp]:
  "msgrep demo_msg = demo_msgrep" "msgstore demo_msg = demo_msgstore" "delivered demo_msg = []"
  "numlpics demo_msg = 2" "theEventMgrPrimId demo_msg = theEventMgrPrimId demo_event" "TransMem demo_msg = TransMem demo_event"
  "ltab demo_msg = ltab demo_event" "repft demo_msg = repft demo_event"
  "rm_head (multi demo_msg 0xA00) = 0xB00"
  "repnode demo_msg 0xB00 = \<lparr>node_rep = 0x2000, node_el = 1, node_next = 0xC00\<rparr>"
  "repnode demo_msg 0xC00 = \<lparr>node_rep = 0x3000, node_el = 0, node_next = 0\<rparr>"
  by (simp_all add: demo_msg_def event_state.defs msg_state.defs demo_event_pic)

lemma demo_msg_pic: "pic_inv demo_msg"
proof -
  have "pic_state.truncate demo_msg = pic_state.truncate demo_event"
    by (simp add: demo_msg_def event_state.defs msg_state.defs pic_state.defs)
  then show ?thesis using demo_event_inv by (simp add: pic_state.defs pic_inv_def pic_ok_def vecs_agree_def pic_shape_def cores_ok_def)
qed

lemma demo_msg_inv: "msg_inv 0xA00 [0xB00, 0xC00] {0x2000, 0x3000} demo_Q demo_F demo_msg"
proof -
  have "reps_up 0xA00 [0xB00, 0xC00] {0x2000, 0x3000} demo_msg"
    by (simp add: reps_up_def demo_msgrep_def pic_values)
  moreover have "cache_ok {0x2000, 0x3000} demo_msg" by (simp add: cache_ok_def demo_msgrep_def)
  moreover have "lists mm_msgqueue {0x2000, 0x3000} demo_Q demo_msg" "lists mm_freelist {0x2000, 0x3000} demo_F demo_msg"
    by (simp_all add: lists_def demo_Q_def demo_F_def demo_msgrep_def demo_msgstore_def)
  moreover have "nodes {0x2000, 0x3000} demo_Q \<inter> nodes {0x2000, 0x3000} demo_F = {}"
    by (simp add: nodes_def demo_Q_def demo_F_def)
  moreover have "args_ok demo_msg" by (simp add: args_ok_def demo_msgstore_def MAXARGS_def)
  ultimately show ?thesis by (simp add: msg_inv_def msgs_ok_def)
qed

lemma demo_msg_reads:
  "em_cached 0 demo_msg" "EBBId_DREF demo_msg 0 (id_of 0x10000 6) = 0x900" "rep_ft demo_msg 0x900 = FT_App"
proof -
  have ne: "lrt_trans_id2lt 0x10000 0 (id_of 0x10000 6) \<noteq> lrt_trans_id2lt 0x10000 0 (id_of 0x10000 5)"
    using local_entry_inj [of "0x10000" 0 0 6 5] demo_trans_fits by (auto simp: trans_size_values)
  show "em_cached 0 demo_msg" "EBBId_DREF demo_msg 0 (id_of 0x10000 6) = 0x900" "rep_ft demo_msg 0x900 = FT_App"
    using ne by (simp_all add: em_cached_def EBBId_DREF_def EBBIdToLTrans_def demo_event_sel rep_ft_def is_ltrans_addr_def
        lrt_trans_defs trans_size_values)
qed



end
