(* ===== verification/StartInfo.thy ===== *)
theory StartInfo
  imports Prelude
begin

text \<open>
  The start information: the hosted runtime packs the arguments and the environment of the process
  into a block of bytes (\<open>lrt/ulnx/lrt_start.c\<close>), and the second layer takes them apart again
  (\<open>initArgvAndEnv\<close> of \<open>l1/L1Prim.c\<close>). A string is the list of its bytes before the null; a pointer
  into the block is its offset.
\<close>

subsection \<open>Packing\<close>

type_synonym byte = "8 word"

record start_args_t =
  sa_cores :: int
  sa_cores_to_start :: int
  sa_start_info :: "byte list"
  sa_start_info_size :: int

definition str :: "string \<Rightarrow> byte list" where
  "str s = map (\<lambda>c. of_nat (of_char c)) s"

definition ebbos_arg :: "byte list" where "ebbos_arg = str ''-ebbos''"
definition ebbos_cores :: "byte list" where "ebbos_cores = str ''-ebbos_cores''"

text \<open>\<open>strncmp(a, p, strlen(p)) == 0\<close>.\<close>

definition starts_with :: "byte list \<Rightarrow> byte list \<Rightarrow> bool" where
  "starts_with p a \<longleftrightarrow> take (length p) a = p"

text \<open>\<open>atoi\<close>: white space, a sign, digits up to the first other character.\<close>

definition is_digit :: "byte \<Rightarrow> bool" where "is_digit b \<longleftrightarrow> 48 \<le> b \<and> b \<le> 57"

definition atoi :: "byte list \<Rightarrow> int" where
  "atoi a =
     (let a = dropWhile (\<lambda>b. b = 32 \<or> 9 \<le> b \<and> b \<le> 13) a;
          (neg, a) = (case a of b # r \<Rightarrow> if b = 45 then (True, r) else if b = 43 then (False, r) else (False, a) | [] \<Rightarrow> (False, []));
          n = foldl (\<lambda>v d. 10 * v + (int (unat d) - 48)) 0 (takeWhile is_digit a)
      in if neg then - n else n)"

text \<open>
  \<open>argv[argc]\<close> is null: an option at the end that needs a value dereferences it. The result is the
  number of arguments used up.
\<close>

definition parse_ebbos_arg :: "byte list list \<Rightarrow> start_args_t \<Rightarrow> (nat \<times> start_args_t) res" where
  "parse_ebbos_arg argv sa =
     (case argv of
        [] \<Rightarrow> Inl NullDeref
      | a # rest \<Rightarrow>
          if starts_with ebbos_cores a then
            (case rest of
               [] \<Rightarrow> Inl NullDeref
             | v # _ \<Rightarrow> let n = atoi v in Inr (2, sa\<lparr>sa_cores := n, sa_cores_to_start := n - 1\<rparr>))
          else Inr (1, sa))"

text \<open>
  The loop that copies the arguments: \<open>s\<close> is the size still claimed, \<open>argcl\<close> the number of
  arguments, \<open>cur\<close> the bytes written so far.
\<close>

function pack_args ::
    "byte list list \<Rightarrow> int \<Rightarrow> int \<Rightarrow> byte list \<Rightarrow> start_args_t \<Rightarrow> (int \<times> int \<times> byte list \<times> start_args_t) res" where
  "pack_args [] s argcl cur sa = Inr (s, argcl, cur, sa)"
| "pack_args (a # rest) s argcl cur sa =
     (if starts_with ebbos_arg a then
        rbind (parse_ebbos_arg (a # rest) sa) (\<lambda>(osargs, sa).
        let s = s - (\<Sum>x\<leftarrow>take osargs (a # rest). int (length x) + 1)
        in pack_args (drop (osargs - 1) rest) s (argcl - int osargs) cur sa)
      else pack_args rest s argcl (cur @ a @ [0]) sa)"
  by pat_completeness auto

termination by (relation "measure (\<lambda>(args, _). length args)") auto

definition le32 :: "int \<Rightarrow> byte list" where
  "le32 n = map (\<lambda>i. word_of_int (n div 256 ^ i)) [0..<4]"

definition startinfo_size :: "byte list list \<Rightarrow> byte list list \<Rightarrow> int" where
  "startinfo_size argv env =
     4 + (\<Sum>a\<leftarrow>argv. int (length a) + 1) + (\<Sum>e\<leftarrow>env. int (length e) + 1)"

text \<open>\<open>alloc\<close> says whether the C library's \<open>malloc\<close> found memory.\<close>

definition startinfo ::
    "bool \<Rightarrow> byte list list \<Rightarrow> byte list list \<Rightarrow> start_args_t \<Rightarrow> (byte list \<times> int \<times> start_args_t) res" where
  "startinfo alloc argv env sa =
     (let s = startinfo_size argv env in
      rbind (lrt_assert alloc) (\<lambda>_.
      rbind (pack_args argv s (int (length argv)) [] sa) (\<lambda>(s, argcl, cur, sa).
      let data = le32 argcl @ cur @ concat (map (\<lambda>e. e @ [0]) env)
      in rbind (lrt_assert (s = int (length data))) (\<lambda>_. Inr (data, s, sa)))))"

definition lrt_startinfo :: "start_args_t \<Rightarrow> byte list" where "lrt_startinfo sa = sa_start_info sa"
definition lrt_startinfo_size :: "start_args_t \<Rightarrow> int" where "lrt_startinfo_size sa = sa_start_info_size sa"

text \<open>\<open>main\<close> up to the start of the interrupt controller; \<open>phys\<close> is the number of processors.\<close>

definition main_start_args :: "int \<Rightarrow> bool \<Rightarrow> byte list list \<Rightarrow> byte list list \<Rightarrow> start_args_t res" where
  "main_start_args phys alloc argv env =
     (let sa = \<lparr>sa_cores = phys, sa_cores_to_start = phys - 1, sa_start_info = [], sa_start_info_size = 0\<rparr>
      in rbind (startinfo alloc argv env sa) (\<lambda>(data, s, sa).
         Inr (sa\<lparr>sa_start_info := data, sa_start_info_size := s\<rparr>)))"

subsection \<open>Taking apart\<close>

text \<open>\<open>while (*data != 0) { data++; s++; } data++; s++;\<close>\<close>

function skip_string :: "byte list \<Rightarrow> nat \<Rightarrow> int \<Rightarrow> (nat \<times> int) res" where
  "skip_string si data s =
     (if data \<ge> length si then Inl OutOfBounds
      else if si ! data \<noteq> 0 then skip_string si (data + 1) (s + 1)
      else Inr (data + 1, s + 1))"
  by pat_completeness auto

termination by (relation "measure (\<lambda>(si, data, s). length si - data)") auto

declare skip_string.simps [simp del]

text \<open>The loop that fills \<open>n\<close> cells with the strings that follow, and the pointers it writes.\<close>

fun string_ptrs :: "byte list \<Rightarrow> nat \<Rightarrow> nat \<Rightarrow> int \<Rightarrow> (nat list \<times> nat \<times> int) res" where
  "string_ptrs si 0 data s = Inr ([], data, s)"
| "string_ptrs si (Suc n) data s =
     rbind (skip_string si data s) (\<lambda>(data', s').
     rbind (string_ptrs si n data' s') (\<lambda>(ps, d, s).
     Inr (data # ps, d, s)))"

lemma skip_string_progress: "skip_string si data s = Inr (d, s') \<Longrightarrow> s < s'"
  by (induction si data s rule: skip_string.induct) (subst (asm) (2) skip_string.simps, auto split: if_splits)

text \<open>The loop that counts the strings up to the size of the block.\<close>

function count_strings :: "byte list \<Rightarrow> int \<Rightarrow> nat \<Rightarrow> int \<Rightarrow> int \<Rightarrow> (int \<times> int) res" where
  "count_strings si sisize edata s environc =
     (if s < sisize then
        (case skip_string si edata s of
           Inl e \<Rightarrow> Inl e
         | Inr (edata, s) \<Rightarrow> count_strings si sisize edata s (environc + 1))
      else Inr (environc, s))"
  by pat_completeness auto

termination by (relation "measure (\<lambda>(si, sisize, edata, s, environc). nat (sisize - s))") (auto dest: skip_string_progress)

declare count_strings.simps [simp del]

definition read_int :: "byte list \<Rightarrow> nat \<Rightarrow> int res" where
  "read_int si a =
     (if a + 4 \<le> length si
      then Inr (signed_take_bit 31 (\<Sum>i<4. uint (si ! (a + i)) * 256 ^ i))
      else Inl OutOfBounds)"

text \<open>The string a pointer into the block points to.\<close>

definition string_at :: "byte list \<Rightarrow> nat \<Rightarrow> byte list" where
  "string_at si a = takeWhile (\<lambda>b. b \<noteq> 0) (drop a si)"

subsection \<open>Blocks of strings\<close>

definition packed :: "byte list list \<Rightarrow> byte list" where
  "packed xs = concat (map (\<lambda>x. x @ [0]) xs)"

lemma packed_simps [simp]: "packed [] = []" "packed (x # xs) = x @ 0 # packed xs"
  by (simp_all add: packed_def)

lemma length_packed: "int (length (packed xs)) = (\<Sum>x\<leftarrow>xs. int (length x) + 1)"
  by (induction xs) simp_all

lemma skip_string_at:
  "0 \<notin> set a \<Longrightarrow> skip_string (pre @ a @ 0 # post) (length pre) s =
     Inr (length pre + length a + 1, s + int (length a) + 1)"
proof (induction a arbitrary: pre s)
  case Nil
  then show ?case by (subst skip_string.simps) simp
next
  case (Cons b a)
  have "skip_string (pre @ (b # a) @ 0 # post) (length pre) s = skip_string ((pre @ [b]) @ a @ 0 # post) (length (pre @ [b])) (s + 1)"
    using Cons.prems by (subst skip_string.simps) simp
  also have "\<dots> = Inr (length (pre @ [b]) + length a + 1, s + 1 + int (length a) + 1)"
    by (rule Cons.IH) (use Cons.prems in simp)
  finally show ?case by simp
qed

lemma string_at_string: "0 \<notin> set a \<Longrightarrow> string_at (pre @ a @ 0 # post) (length pre) = a"
  by (auto simp: string_at_def takeWhile_append)

lemma string_ptrs_packed:
  "\<forall>x \<in> set xs. 0 \<notin> set x \<Longrightarrow>
   \<exists>ps. string_ptrs (pre @ packed xs @ post) (length xs) (length pre) s =
       Inr (ps, length pre + length (packed xs), s + int (length (packed xs))) \<and>
     map (string_at (pre @ packed xs @ post)) ps = xs"
proof (induction xs arbitrary: pre s)
  case (Cons x xs)
  have x: "0 \<notin> set x" using Cons.prems by simp
  let ?si = "pre @ x @ 0 # packed xs @ post" and ?d = "length pre + length x + 1"
  have "\<forall>y \<in> set xs. 0 \<notin> set y" using Cons.prems by simp
  from Cons.IH [OF this, of "pre @ x @ [0]" "s + int (length x) + 1"]
  obtain ps where ps: "string_ptrs ?si (length xs) ?d (s + int (length x) + 1) =
      Inr (ps, ?d + length (packed xs), s + int (length x) + 1 + int (length (packed xs)))"
    "map (string_at ?si) ps = xs" by auto
  have si: "pre @ packed (x # xs) @ post = ?si" by simp
  have "string_ptrs ?si (Suc (length xs)) (length pre) s =
      Inr (length pre # ps, ?d + length (packed xs), s + int (length x) + 1 + int (length (packed xs)))"
    unfolding string_ptrs.simps skip_string_at [OF x] by (simp only: rbind_simps prod.case ps(1))
  moreover have "map (string_at ?si) (length pre # ps) = x # xs"
    using string_at_string [OF x, of pre "packed xs @ post"] ps(2) by simp
  ultimately show ?case unfolding si by (intro exI [of _ "length pre # ps"]) (simp add: algebra_simps)
qed simp

lemma count_strings_packed:
  "\<forall>x \<in> set xs. 0 \<notin> set x \<Longrightarrow>
   count_strings (pre @ packed xs) (s + int (length (packed xs))) (length pre) s c =
     Inr (c + int (length xs), s + int (length (packed xs)))"
proof (induction xs arbitrary: pre s c)
  case Nil
  then show ?case by (subst count_strings.simps) simp
next
  case (Cons x xs)
  have x: "0 \<notin> set x" using Cons.prems by simp
  have "count_strings (pre @ packed (x # xs)) (s + int (length (packed (x # xs)))) (length pre) s c =
      count_strings ((pre @ x @ [0]) @ packed xs) (s + int (length x) + 1 + int (length (packed xs))) (length (pre @ x @ [0]))
        (s + int (length x) + 1) (c + 1)"
    using skip_string_at [OF x, of pre "packed xs" s] by (subst count_strings.simps) (simp add: add_ac)
  also have "\<dots> = Inr (c + 1 + int (length xs), s + int (length x) + 1 + int (length (packed xs)))"
    by (rule Cons.IH) (use Cons.prems in simp)
  finally show ?case by (simp add: add_ac)
qed

subsection \<open>What packing keeps\<close>

text \<open>The arguments that are not options of the system; \<open>None\<close> when the last one lacks its value.\<close>

fun user_args :: "byte list list \<Rightarrow> byte list list option" where
  "user_args [] = Some []"
| "user_args (a # rest) =
     (if starts_with ebbos_cores a then (case rest of [] \<Rightarrow> None | v # rest' \<Rightarrow> user_args rest')
      else if starts_with ebbos_arg a then user_args rest
      else map_option ((#) a) (user_args rest))"

lemma cores_is_arg: "starts_with ebbos_cores a \<Longrightarrow> starts_with ebbos_arg a"
proof -
  assume "starts_with ebbos_cores a"
  then have "take 6 (take (length ebbos_cores) a) = take 6 ebbos_cores" by (simp add: starts_with_def)
  moreover have "take 6 ebbos_cores = ebbos_arg" "length ebbos_cores = 12" "length ebbos_arg = 6"
    by (simp_all add: ebbos_cores_def ebbos_arg_def str_def)
  ultimately show ?thesis by (simp add: starts_with_def)
qed

lemma pack_args_option:
  assumes "starts_with ebbos_arg a"
  shows "pack_args (a # rest) s n cur sa =
    (if starts_with ebbos_cores a then
       (case rest of [] \<Rightarrow> Inl NullDeref
        | v # rest' \<Rightarrow> pack_args rest' (s - (int (length a) + 1) - (int (length v) + 1)) (n - 2) cur
            (sa\<lparr>sa_cores := atoi v, sa_cores_to_start := atoi v - 1\<rparr>))
     else pack_args rest (s - (int (length a) + 1)) (n - 1) cur sa)"
  using assms by (simp add: parse_ebbos_arg_def Let_def algebra_simps split: list.splits)

lemma pack_args_none: "user_args argv = None \<Longrightarrow> pack_args argv s n cur sa = Inl NullDeref"
proof (induction argv arbitrary: s n cur sa rule: user_args.induct)
  case (2 a rest)
  show ?case
  proof (cases "starts_with ebbos_arg a")
    case True
    note arg = True
    show ?thesis
    proof (cases "starts_with ebbos_cores a")
      case True
      then show ?thesis
        using 2(1) [OF True] 2(4) unfolding pack_args_option [OF arg] by (cases rest) simp_all
    next
      case False
      then show ?thesis using 2(2) [OF False arg] 2(4) arg unfolding pack_args_option [OF arg] by simp
    qed
  next
    case False
    then have nc: "\<not> starts_with ebbos_cores a" using cores_is_arg by blast
    then have "user_args rest = None" using False 2(4) by simp
    then show ?thesis using False 2(3) [OF nc False] by simp
  qed
qed simp

lemma pack_args_some:
  "user_args argv = Some args \<Longrightarrow> \<exists>sa'. pack_args argv s n cur sa =
     Inr (s - int (length (packed argv)) + int (length (packed args)), n - int (length argv) + int (length args),
          cur @ packed args, sa')"
proof (induction argv arbitrary: s n cur sa args rule: user_args.induct)
  case (2 a rest)
  show ?case
  proof (cases "starts_with ebbos_arg a")
    case arg: True
    show ?thesis
    proof (cases "starts_with ebbos_cores a")
      case True
      then obtain v rest' where r: "rest = v # rest'" "user_args rest' = Some args"
        using 2(4) by (auto split: list.splits)
      let ?sa = "sa\<lparr>sa_cores := atoi v, sa_cores_to_start := atoi v - 1\<rparr>"
      obtain sa' where "pack_args rest' (s - (int (length a) + 1) - (int (length v) + 1)) (n - 2) cur ?sa =
          Inr (s - (int (length a) + 1) - (int (length v) + 1) - int (length (packed rest')) + int (length (packed args)),
            n - 2 - int (length rest') + int (length args), cur @ packed args, sa')"
        using 2(1) [OF True r(1,2)] by blast
      then have "pack_args (a # rest) s n cur sa =
          Inr (s - int (length (packed (a # rest))) + int (length (packed args)),
            n - int (length (a # rest)) + int (length args), cur @ packed args, sa')"
        unfolding pack_args_option [OF arg] using True r(1) by (simp add: algebra_simps)
      then show ?thesis by blast
    next
      case False
      then have r: "user_args rest = Some args" using 2(4) arg by simp
      obtain sa' where "pack_args rest (s - (int (length a) + 1)) (n - 1) cur sa =
          Inr (s - (int (length a) + 1) - int (length (packed rest)) + int (length (packed args)),
            n - 1 - int (length rest) + int (length args), cur @ packed args, sa')"
        using 2(2) [OF False arg r] by blast
      then have "pack_args (a # rest) s n cur sa =
          Inr (s - int (length (packed (a # rest))) + int (length (packed args)),
            n - int (length (a # rest)) + int (length args), cur @ packed args, sa')"
        unfolding pack_args_option [OF arg] using False by (simp add: algebra_simps)
      then show ?thesis by blast
    qed
  next
    case False
    then have nc: "\<not> starts_with ebbos_cores a" using cores_is_arg by blast
    then obtain args' where r: "user_args rest = Some args'" "args = a # args'" using False 2(4) by auto
    obtain sa' where "pack_args rest s n (cur @ a @ [0]) sa =
        Inr (s - int (length (packed rest)) + int (length (packed args')), n - int (length rest) + int (length args'),
          (cur @ a @ [0]) @ packed args', sa')"
      using 2(3) [OF nc False r(1)] by blast
    then have "pack_args (a # rest) s n cur sa =
        Inr (s - int (length (packed (a # rest))) + int (length (packed args)),
          n - int (length (a # rest)) + int (length args), cur @ packed args, sa')"
      using False r(2) by (simp add: algebra_simps)
    then show ?thesis by blast
  qed
qed simp

lemma startinfo_packs:
  "user_args argv = None \<Longrightarrow> startinfo True argv env sa = Inl NullDeref"
  "user_args argv = Some args \<Longrightarrow> \<exists>sa'. startinfo True argv env sa =
     Inr (le32 (int (length args)) @ packed args @ packed env, 4 + int (length (packed args)) + int (length (packed env)), sa')"
proof -
  have sz: "startinfo_size argv env = 4 + int (length (packed argv)) + int (length (packed env))"
    by (simp add: startinfo_size_def length_packed)
  have le: "length (le32 n) = 4" for n by (simp add: le32_def)
  show "user_args argv = None \<Longrightarrow> startinfo True argv env sa = Inl NullDeref"
    by (simp add: startinfo_def pack_args_none)
  assume u: "user_args argv = Some args"
  obtain sa' where "pack_args argv (startinfo_size argv env) (int (length argv)) [] sa =
      Inr (4 + int (length (packed args)) + int (length (packed env)), int (length args), packed args, sa')"
    using pack_args_some [OF u, of "startinfo_size argv env" "int (length argv)" "[]" sa] unfolding sz by auto
  then show "\<exists>sa'. startinfo True argv env sa =
      Inr (le32 (int (length args)) @ packed args @ packed env, 4 + int (length (packed args)) + int (length (packed env)), sa')"
    unfolding startinfo_def packed_def [of env, symmetric] by (simp add: le Let_def)
qed

lemma digits_sum: "(\<Sum>i<k. n div 256 ^ i mod 256 * 256 ^ i) = n mod (256 :: int) ^ k"
proof (induction k)
  case (Suc k)
  have "n mod 256 ^ Suc k = n mod (256 ^ k * 256)" by (simp add: mult.commute)
  also have "\<dots> = 256 ^ k * (n div 256 ^ k mod 256) + n mod 256 ^ k" by (rule zmod_zmult2_eq) simp
  finally show ?case using Suc by (simp add: mult.commute)
qed simp

lemma le32_read:
  assumes "0 \<le> n" "n < 2 ^ 31"
  shows "read_int (le32 n @ rest) 0 = Inr n"
proof -
  have "uint (le32 n ! i) = n div 256 ^ i mod 256" if "i < 4" for i
    using that by (simp add: le32_def uint_word_of_int)
  then have "(\<Sum>i<4. uint ((le32 n @ rest) ! i) * 256 ^ i) = (\<Sum>i<4. n div 256 ^ i mod 256 * 256 ^ i)"
    by (intro sum.cong) (simp_all add: nth_append le32_def)
  also have "\<dots> = n mod 256 ^ 4" by (rule digits_sum)
  also have "\<dots> = n" using assms by simp
  finally have "(\<Sum>i<4. uint ((le32 n @ rest) ! i) * 256 ^ i) = n" .
  moreover have "signed_take_bit 31 n = n"
    using assms by (simp add: signed_take_bit_int_eq_self)
  moreover have "length (le32 n) = 4" by (simp add: le32_def)
  ultimately show ?thesis by (simp add: read_int_def)
qed

end
