(* ===== verification/L1Prim.thy ===== *)
theory L1Prim
  imports MsgRecv StartInfo
begin

text \<open>
  Start-up above the managers: the Ebb of the first layer (\<open>l0/L0Prim.c\<close>), which turns the
  reset of a core into an event, the initialisation of a core (\<open>l0/l0_start.c\<close>), and the Ebb of the
  second layer (\<open>l1/L1Prim.c\<close>), which turns the start into a message, unpacks the start
  information and starts the application.
\<close>

subsection \<open>State\<close>

text \<open>
  \<open>l1_argv_cells\<close> and \<open>l1_environ_cells\<close> are the cells of the two arrays as written, pointers
  being offsets into the block \<open>l1_si\<close>; \<open>l1_environ_room\<close> is the number of cells that were
  allocated, so that a write past the allocation shows.
\<close>

record L1Prim =
  l1_argc :: int
  l1_environc :: int
  l1_argv :: u64
  l1_environ :: u64
  l1_argv_cells :: "nat list"
  l1_environ_cells :: "nat option list"
  l1_environ_room :: int
  l1_sisize :: int
  l1_si :: "byte list"
  l1_startMHId :: u64

record l1_state = msg_state +
  theL0Id :: u64
  theL1Id :: u64
  theAppId :: u64
  l0_startInfo :: "u64 \<Rightarrow> u64"
  l1rep :: "u64 \<Rightarrow> L1Prim"

definition sizeof_L0Prim :: u64 where "sizeof_L0Prim = 16"
definition sizeof_L1Prim :: u64 where "sizeof_L1Prim = 64"

definition startMH_of :: "u64 \<Rightarrow> u64" where "startMH_of a = a + 48"

definition upd_l1 :: "u64 \<Rightarrow> (L1Prim \<Rightarrow> L1Prim) \<Rightarrow> 'z l1_state_scheme \<Rightarrow> 'z l1_state_scheme" where
  "upd_l1 a f s = s\<lparr>l1rep := (l1rep s)(a := f (l1rep s a))\<rparr>"

subsection \<open>The start information\<close>

text \<open>
  Nothing happens for a block shorter than an \<open>int\<close>. The environment array is allocated with one
  cell per string, and then gets the strings and a null.
\<close>

definition initArgvAndEnv ::
    "'z l1_state_scheme malloc \<Rightarrow> nat \<Rightarrow> u64 \<Rightarrow> 'z l1_state_scheme \<Rightarrow> 'z l1_state_scheme res" where
  "initArgvAndEnv malloc myid self s =
     (let s = upd_l1 self (\<lambda>r. r\<lparr>l1_argc := 0, l1_environc := 0, l1_argv := 0, l1_environ := 0,
                l1_argv_cells := [], l1_environ_cells := [], l1_environ_room := 0\<rparr>) s;
          si = l1_si (l1rep s self); sisize = l1_sisize (l1rep s self)
      in if (word_of_int sisize :: u64) < 4 then Inr s
         else
           rbind (read_int si 0) (\<lambda>argc.
           rbind (malloc myid (word_of_int argc * 8) s) (\<lambda>(rc, a, s).
           rbind (lrt_assert (EBBRC_SUCCESS rc)) (\<lambda>_.
           if a = 0 \<and> 0 < argc then Inl NullDeref
           else
             rbind (string_ptrs si (nat argc) 4 4) (\<lambda>(argv, data, sz).
             rbind (count_strings si sisize data sz 0) (\<lambda>(environc, sz).
             rbind (malloc myid (word_of_int environc * 8) s) (\<lambda>(rc, b, s).
             rbind (lrt_assert (EBBRC_SUCCESS rc)) (\<lambda>_.
             if b = 0 then Inl NullDeref
             else
               rbind (string_ptrs si (nat environc) data 0) (\<lambda>(env, _, _).
               rbind (lrt_assert (sz = sisize \<and> int (length env) - 1 = environc - 1)) (\<lambda>_.
               Inr (upd_l1 self (\<lambda>r. r\<lparr>l1_argc := argc, l1_argv := a, l1_argv_cells := argv,
                      l1_environc := environc - 1, l1_environ := b, l1_environ_room := environc,
                      l1_environ_cells := map Some env @ [None]\<rparr>) s)))))))))))"

subsection \<open>The second layer\<close>

text \<open>\<open>invoke\<close> runs the \<open>start\<close> of the application; \<open>App_createRep\<close> is the application's.\<close>

type_synonym 's invoke_app = "fn \<Rightarrow> u64 \<Rightarrow> int \<Rightarrow> u64 \<Rightarrow> u64 \<Rightarrow> 's \<Rightarrow> (ebbrc \<times> 's) res"

definition L1_app_id ::
    "'z l1_state_scheme callmf \<Rightarrow> 'z l1_state_scheme malloc \<Rightarrow> nat \<Rightarrow> 'z l1_state_scheme \<Rightarrow> 'z l1_state_scheme res" where
  "L1_app_id callmf malloc myid s =
     (if theAppId s = 0 then
        let s = s\<lparr>theAppId := -1\<rparr>
        in rbind (CObjEBBRootMultiImpCreate malloc myid App_createRep_fp s) (\<lambda>(rc, root, s).
           rbind (lrt_assert (EBBRC_SUCCESS rc)) (\<lambda>_.
           rbind (EBBAllocPrimId callmf myid s) (\<lambda>(rc, i, s).
           rbind (lrt_assert (EBBRC_SUCCESS rc)) (\<lambda>_.
           rbind (CObjEBBBind callmf myid i root s) (\<lambda>(rc, s).
           rbind (lrt_assert (EBBRC_SUCCESS rc)) (\<lambda>_.
           Inr (s\<lparr>theAppId := i\<rparr>)))))))
      else if theAppId s = -1 then Inl Blocked
      else Inr s)"

definition L1Prim_MsgHandler_startMH ::
    "'z l1_state_scheme callmf \<Rightarrow> 'z l1_state_scheme malloc \<Rightarrow> 'z l1_state_scheme invoke_app \<Rightarrow> start_args_t \<Rightarrow> nat \<Rightarrow>
     u64 \<Rightarrow> u64 \<Rightarrow> 'z l1_state_scheme \<Rightarrow> (ebbrc \<times> 'z l1_state_scheme) res" where
  "L1Prim_MsgHandler_startMH callmf malloc invoke sa myid mh sinfo s =
     (let self = mh - 48;
          (_, s) = EBBDestroyPrimId (l1_startMHId (l1rep s self)) s
      in rbind (if sinfo \<noteq> 0 then
                  rbind (malloc myid (word_of_int (lrt_startinfo_size sa)) s) (\<lambda>(rc, a, s).
                  rbind (lrt_assert (EBBRC_SUCCESS rc)) (\<lambda>_.
                  if a = 0 \<and> 0 < lrt_startinfo_size sa then Inl NullDeref
                  else Inr (upd_l1 self (\<lambda>r. r\<lparr>l1_sisize := lrt_startinfo_size sa,
                         l1_si := take (nat (lrt_startinfo_size sa)) (lrt_startinfo sa)\<rparr>) s)))
                else Inr (upd_l1 self (\<lambda>r. r\<lparr>l1_si := [], l1_sisize := 0\<rparr>) s)) (\<lambda>s.
         rbind (initArgvAndEnv malloc myid self s) (\<lambda>s.
         rbind (L1_app_id callmf malloc myid s) (\<lambda>s.
         rbind (EBBCALL callmf myid (theAppId s) 0 s) (\<lambda>(c, s).
         case c of
           Failed rc \<Rightarrow> Inr (rc, s)
         | Called f r \<Rightarrow>
             invoke f r (l1_argc (l1rep s self)) (l1_argv (l1rep s self)) (l1_environ (l1rep s self)) s)))))"

text \<open>\<open>one\<close> is \<open>app_start_model == APP_START_ONE\<close>.\<close>

definition L1Prim_start ::
    "'z l1_state_scheme callmf \<Rightarrow> 'z l1_state_scheme malloc \<Rightarrow> bool \<Rightarrow> nat \<Rightarrow> u64 \<Rightarrow> u64 \<Rightarrow>
     'z l1_state_scheme \<Rightarrow> (ebbrc \<times> 'z l1_state_scheme) res" where
  "L1Prim_start callmf malloc one myid self sinfo s =
     rbind (MsgMgrPrim_Init callmf malloc myid s) (\<lambda>(rc, s).
     rbind (lrt_assert (EBBRC_SUCCESS rc)) (\<lambda>_.
     rbind (CObjEBBRootSharedCreate malloc myid (startMH_of self) s) (\<lambda>(rc, root, s).
     rbind (lrt_assert (EBBRC_SUCCESS rc)) (\<lambda>_.
     if one \<and> MyEL myid \<noteq> 0 then Inr (EBBRC_OK, s)
     else
       rbind (EBBAllocPrimId callmf myid s) (\<lambda>(rc, i, s).
       let s = upd_l1 self (\<lambda>r. r\<lparr>l1_startMHId := i\<rparr>) s
       in rbind (lrt_assert (EBBRC_SUCCESS rc)) (\<lambda>_.
          rbind (CObjEBBBind callmf myid (l1_startMHId (l1rep s self)) root s) (\<lambda>(rc, s).
          rbind (lrt_assert (EBBRC_SUCCESS rc)) (\<lambda>_.
          rbind (EBBCALL callmf myid (theMsgMgrId s) 1 s) (\<lambda>(c, s).
          rbind (case c of
                   Failed rc \<Rightarrow> Inr (rc, s)
                 | Called f r \<Rightarrow>
                     if f = Method FT_MsgMgrPrim 1
                     then MsgMgrPrim_msg1 callmf malloc myid r (MyEL myid) (l1_startMHId (l1rep s self)) sinfo s
                     else Inl NullDeref) (\<lambda>(rc, s).
          rbind (lrt_assert (EBBRC_SUCCESS rc)) (\<lambda>_.
          Inr (EBBRC_OK, s))))))))))))"

definition L1Prim_argc :: "u64 \<Rightarrow> 'z l1_state_scheme \<Rightarrow> ebbrc \<times> int" where
  "L1Prim_argc self s = (EBBRC_OK, l1_argc (l1rep s self))"

definition L1Prim_argv :: "u64 \<Rightarrow> 'z l1_state_scheme \<Rightarrow> ebbrc \<times> u64" where
  "L1Prim_argv self s = (EBBRC_OK, l1_argv (l1rep s self))"

definition L1Prim_environ :: "u64 \<Rightarrow> 'z l1_state_scheme \<Rightarrow> ebbrc \<times> u64" where
  "L1Prim_environ self s = (EBBRC_OK, l1_environ (l1rep s self))"

definition setL1PrimFT :: "u64 \<Rightarrow> 'z l1_state_scheme \<Rightarrow> 'z l1_state_scheme" where
  "setL1PrimFT a s = s\<lparr>repft := (repft s)(a := FT_L1Prim, startMH_of a := FT_L1PrimMH)\<rparr>"

definition L1Prim_createRep ::
    "'z l1_state_scheme malloc \<Rightarrow> nat \<Rightarrow> u64 \<Rightarrow> 'z l1_state_scheme \<Rightarrow> (u64 \<times> 'z l1_state_scheme) res" where
  "L1Prim_createRep malloc myid root s =
     rbind (malloc myid sizeof_L1Prim s) (\<lambda>(rc, a, s).
     rbind (lrt_assert (EBBRC_SUCCESS rc)) (\<lambda>_.
     if a = 0 then Inl NullDeref else Inr (a, setL1PrimFT a s)))"

definition L1PrimInit ::
    "'z l1_state_scheme callmf \<Rightarrow> 'z l1_state_scheme malloc \<Rightarrow> nat \<Rightarrow> 'z l1_state_scheme \<Rightarrow>
     (ebbrc \<times> 'z l1_state_scheme) res" where
  "L1PrimInit callmf malloc myid s =
     (if theL1Id s = 0 then
        let s = s\<lparr>theL1Id := -1\<rparr>
        in rbind (CObjEBBRootMultiImpCreate malloc myid L1Prim_createRep_fp s) (\<lambda>(rc, root, s).
           rbind (lrt_assert (EBBRC_SUCCESS rc)) (\<lambda>_.
           rbind (EBBAllocPrimId callmf myid s) (\<lambda>(rc, i, s).
           rbind (lrt_assert (EBBRC_SUCCESS rc)) (\<lambda>_.
           rbind (CObjEBBBind callmf myid i root s) (\<lambda>(rc, s).
           rbind (lrt_assert (EBBRC_SUCCESS rc)) (\<lambda>_.
           Inr (rc, s\<lparr>theL1Id := i\<rparr>)))))))
      else if theL1Id s = -1 then Inl Blocked
      else Inr (EBBRC_OK, s))"

subsection \<open>The first layer\<close>

text \<open>The eight bytes written through the pointer.\<close>

definition L0Prim_version :: "ebbrc \<times> byte list" where
  "L0Prim_version = (EBBRC_OK, str ''EbbOS00'' @ [0])"

definition L0Prim_startEvent ::
    "'z l1_state_scheme callmf \<Rightarrow> 'z l1_state_scheme malloc \<Rightarrow> bool \<Rightarrow> nat \<Rightarrow> u64 \<Rightarrow>
     'z l1_state_scheme \<Rightarrow> (ebbrc \<times> 'z l1_state_scheme) res" where
  "L0Prim_startEvent callmf malloc one myid self s =
     rbind (lrt_pic_ackipi myid s) (\<lambda>s.
     rbind (L1PrimInit callmf malloc myid s) (\<lambda>(rc, s).
     rbind (lrt_assert (EBBRC_SUCCESS rc)) (\<lambda>_.
     rbind (EBBCALL callmf myid (theL1Id s) 0 s) (\<lambda>(c, s).
     rbind (case c of
              Failed rc \<Rightarrow> Inr (rc, s)
            | Called f r \<Rightarrow>
                if f = Method FT_L1Prim 0
                then L1Prim_start callmf malloc one myid r (l0_startInfo s self) s
                else Inl NullDeref) (\<lambda>(rc, s).
     rbind (lrt_pic_enableipi myid s) (\<lambda>s.
     Inr (0, s)))))))"

text \<open>\<open>startEvent\<close> is function 2 of the table.\<close>

definition L0Prim_start ::
    "'z l1_state_scheme callmf \<Rightarrow> nat \<Rightarrow> u64 \<Rightarrow> u64 \<Rightarrow> 'z l1_state_scheme \<Rightarrow> (ebbrc \<times> 'z l1_state_scheme) res" where
  "L0Prim_start callmf myid self startInfo s =
     (let s = s\<lparr>l0_startInfo := (l0_startInfo s)(self := startInfo)\<rparr>
      in rbind (em_callrc callmf myid 3 (\<lambda>em s. EventMgrPrim_registerIPIHandler myid em (theL0Id s) 2 s) s) (\<lambda>(rc, s).
         rbind (lrt_assert (EBBRC_SUCCESS rc)) (\<lambda>_.
         rbind (em_callrc callmf myid 5 (\<lambda>em. EventMgrPrim_dispatchIPI (MyEL myid)) s) (\<lambda>(rc, s).
         rbind (lrt_assert (EBBRC_SUCCESS rc)) (\<lambda>_.
         Inr (0, s))))))"

definition L0Prim_createRep ::
    "'z l1_state_scheme malloc \<Rightarrow> nat \<Rightarrow> u64 \<Rightarrow> 'z l1_state_scheme \<Rightarrow> (u64 \<times> 'z l1_state_scheme) res" where
  "L0Prim_createRep malloc myid root s =
     rbind (malloc myid sizeof_L0Prim s) (\<lambda>(rc, a, s).
     if a = 0 then Inl NullDeref else Inr (a, s\<lparr>repft := (repft s)(a := FT_L0Prim)\<rparr>))"

definition L0PrimInit ::
    "'z l1_state_scheme callmf \<Rightarrow> 'z l1_state_scheme malloc \<Rightarrow> nat \<Rightarrow> 'z l1_state_scheme \<Rightarrow>
     (ebbrc \<times> 'z l1_state_scheme) res" where
  "L0PrimInit callmf malloc myid s =
     (if theL0Id s = 0 then
        let s = s\<lparr>theL0Id := -1\<rparr>
        in rbind (CObjEBBRootMultiImpCreate malloc myid L0Prim_createRep_fp s) (\<lambda>(rc, root, s).
           rbind (lrt_assert (EBBRC_SUCCESS rc)) (\<lambda>_.
           rbind (EBBAllocPrimId callmf myid s) (\<lambda>(rc, i, s).
           rbind (lrt_assert (EBBRC_SUCCESS rc)) (\<lambda>_.
           rbind (CObjEBBBind callmf myid i root s) (\<lambda>(rc, s).
           rbind (lrt_assert (EBBRC_SUCCESS rc)) (\<lambda>_.
           Inr (rc, s\<lparr>theL0Id := i\<rparr>)))))))
      else if theL0Id s = -1 then Inl Blocked
      else Inr (EBBRC_OK, s))"

text \<open>\<open>mmroot\<close> is the address of the static root of the memory manager.\<close>

definition EBB_init ::
    "memmgrprim \<Rightarrow> 'z l1_state_scheme callmf \<Rightarrow> u64 \<Rightarrow> nat \<Rightarrow> u64 \<Rightarrow> 'z l1_state_scheme \<Rightarrow> 'z l1_state_scheme res" where
  "EBB_init cfg callmf mmroot myid startInfo s =
     (let malloc = EBBPrimMalloc cfg callmf in
      rbind (EBBMemMgrPrimInit cfg callmf mmroot myid s) (\<lambda>(rc, s).
      rbind (lrt_assert (EBBRC_SUCCESS rc)) (\<lambda>_.
      rbind (EBBMgrPrimInit malloc myid s) (\<lambda>(rc, s).
      rbind (lrt_assert (EBBRC_SUCCESS rc)) (\<lambda>_.
      rbind (EventMgrPrimImpInit callmf malloc myid s) (\<lambda>(rc, s).
      rbind (lrt_assert (EBBRC_SUCCESS rc)) (\<lambda>_.
      rbind (L0PrimInit callmf malloc myid s) (\<lambda>(rc, s).
      rbind (lrt_assert (EBBRC_SUCCESS rc)) (\<lambda>_.
      rbind (EBBCALL callmf myid (theL0Id s) 1 s) (\<lambda>(c, s).
      rbind (case c of
               Failed rc \<Rightarrow> Inr (rc, s)
             | Called f r \<Rightarrow>
                 if f = Method FT_L0Prim 1 then L0Prim_start callmf myid r startInfo s else Inl NullDeref) (\<lambda>(rc, s).
      rbind (lrt_assert (EBBRC_SUCCESS rc)) (\<lambda>_. Inr s))))))))))))"

definition l0_start ::
    "memmgrprim \<Rightarrow> 'z l1_state_scheme callmf \<Rightarrow> u64 \<Rightarrow> nat \<Rightarrow> u64 \<Rightarrow> 'z l1_state_scheme \<Rightarrow> 'z l1_state_scheme res" where
  "l0_start cfg callmf mmroot myid startInfo s =
     rbind (trans_init myid s) (\<lambda>s. EBB_init cfg callmf mmroot myid startInfo s)"

end
