(* ===== verification/L1Props.thy ===== *)
theory L1Props
  imports L1Prim
begin

text \<open>The start information survives the way from the process to the application.\<close>

subsection \<open>Allocations leave the representatives of the second layer alone\<close>

lemma upd_l1_sel [simp]:
  "l1rep (upd_l1 a f s) = (l1rep s)(a := f (l1rep s a))" "bootMem (upd_l1 a f s) = bootMem s"
  "stupid_rep (upd_l1 a f s) = stupid_rep s" "theEBBMemMgrPrimId (upd_l1 a f s) = theEBBMemMgrPrimId s"
  "TransMem (upd_l1 a f s) = TransMem s" "ltab (upd_l1 a f s) = ltab s" "repft (upd_l1 a f s) = repft s"
  by (simp_all add: upd_l1_def)

lemma mem_funds_upd_l1: "mem_funds mm p k s \<Longrightarrow> mem_funds mm p k (upd_l1 a f s)"
  by (rule mem_funds_fields) simp_all

lemma bump_by_l1 [simp]: "l1rep (bump_by n p s) = l1rep s"
  by (simp add: bump_by_def Let_def)

lemma malloc_l1:
  assumes "mem_funds mm p k s" "unat n < k"
  shows "\<exists>a. EBBPrimMalloc Stupid callmf p n s = Inr (EBBRC_OK, a, bump_by n p s) \<and> a \<noteq> 0 \<and>
    mem_funds mm p (k - unat n) (bump_by n p s)"
proof -
  have "stupid_mem (stupid_rep s (mem_rep s p)) \<noteq> 0"
    using bump_avail [OF assms(1), of 1] assms(2) by simp
  then show ?thesis
    using bump_malloc [OF assms(1), of n callmf] bump_funds(1) [OF assms(1), of n] assms(2) by simp
qed

subsection \<open>The round trip\<close>

lemma small_size:
  assumes "0 \<le> n" "n < 2 ^ 60"
  shows "unat (word_of_int n * 8 :: u64) = nat (n * 8)"
proof -
  have e: "(word_of_int n * 8 :: u64) = word_of_int (n * 8)" by simp
  have "n * 8 < 2 ^ LENGTH(64)" using assms(2) by simp
  then have "uint (word_of_int (n * 8) :: u64) = n * 8"
    using assms(1) unfolding uint_word_of_int by (intro mod_pos_pos_trivial) simp_all
  then show ?thesis unfolding e unat_eq_nat_uint by (rule arg_cong)
qed

lemma initArgvAndEnv_packed:
  assumes f: "mem_funds mm p k s" and k: "8 * length args + 8 * length env < k"
    and z: "\<forall>x \<in> set args. 0 \<notin> set x" "\<forall>x \<in> set env. 0 \<notin> set x"
    and len: "length args < 2 ^ 31" "length env < 2 ^ 60"
    and data: "data = le32 (int (length args)) @ packed args @ packed env" "int (length data) < 2 ^ 63"
    and r: "l1_si (l1rep s self) = data" "l1_sisize (l1rep s self) = int (length data)"
  shows "\<exists>s'. initArgvAndEnv (EBBPrimMalloc Stupid callmf) p self s = Inr s' \<and>
    l1_argc (l1rep s' self) = int (length args) \<and> map (string_at data) (l1_argv_cells (l1rep s' self)) = args \<and>
    map (map_option (string_at data)) (l1_environ_cells (l1rep s' self)) = map Some env @ [None] \<and>
    l1_environ_room (l1rep s' self) = int (length env) \<and> l1_environc (l1rep s' self) = int (length env) - 1"
proof -
  let ?s0 = "upd_l1 self (\<lambda>r. r\<lparr>l1_argc := 0, l1_environc := 0, l1_argv := 0, l1_environ := 0,
                l1_argv_cells := [], l1_environ_cells := [], l1_environ_room := 0\<rparr>) s"
  let ?h = "le32 (int (length args))"
  have h4: "length ?h = 4" by (simp add: le32_def)
  have sz: "int (length data) = 4 + int (length (packed args)) + int (length (packed env))" using data(1) h4 by simp
  have "\<not> (word_of_int (int (length data)) :: u64) < 4"
  proof -
    have "unat (word_of_int (int (length data)) :: u64) = length data"
      using data(2) by (simp add: unat_of_nat take_bit_nat_eq_self)
    then show ?thesis using sz by (simp add: word_less_nat_alt)
  qed
  moreover have rd: "read_int data 0 = Inr (int (length args))"
    unfolding data(1) by (rule le32_read) (use len(1) in simp_all)
  moreover obtain ps where ps: "string_ptrs data (length args) 4 4 = Inr (ps, 4 + length (packed args), 4 + int (length (packed args)))"
    "map (string_at data) ps = args"
    using string_ptrs_packed [OF z(1), of ?h "packed env" 4] unfolding data(1) h4 by blast
  moreover have cnt: "count_strings data (int (length data)) (4 + length (packed args)) (4 + int (length (packed args))) 0 =
      Inr (int (length env), int (length data))"
    using count_strings_packed [OF z(2), of "?h @ packed args" "4 + int (length (packed args))" 0] h4
    unfolding data(1) by (simp add: algebra_simps)
  moreover obtain qs where qs: "string_ptrs data (length env) (4 + length (packed args)) 0 =
      Inr (qs, 4 + length (packed args) + length (packed env), int (length (packed env)))"
    "map (string_at data) qs = env"
    using string_ptrs_packed [OF z(2), of "?h @ packed args" "[]" 0] h4 unfolding data(1) by auto
  moreover have n1: "unat (word_of_int (int (length args)) * 8 :: u64) = 8 * length args"
    "unat (word_of_int (int (length env)) * 8 :: u64) = 8 * length env"
    using small_size [of "int (length args)"] small_size [of "int (length env)"] len by simp_all
  have f0: "mem_funds mm p k ?s0" by (rule mem_funds_upd_l1 [OF f])
  have k1: "8 * length args < k" "8 * length env < k - 8 * length args" using k by simp_all
  obtain a where a: "EBBPrimMalloc Stupid callmf p (word_of_int (int (length args)) * 8) ?s0 =
      Inr (EBBRC_OK, a, bump_by (word_of_int (int (length args)) * 8) p ?s0)" "a \<noteq> 0"
    "mem_funds mm p (k - 8 * length args) (bump_by (word_of_int (int (length args)) * 8) p ?s0)"
    using malloc_l1 [OF f0, where callmf = callmf and n = "word_of_int (int (length args)) * 8"] k1
    unfolding n1 by blast
  let ?s1 = "bump_by (word_of_int (int (length args)) * 8) p ?s0"
  obtain b where b: "EBBPrimMalloc Stupid callmf p (word_of_int (int (length env)) * 8) ?s1 =
      Inr (EBBRC_OK, b, bump_by (word_of_int (int (length env)) * 8) p ?s1)" "b \<noteq> 0"
    using malloc_l1 [OF a(3), where callmf = callmf and n = "word_of_int (int (length env)) * 8"] k1
    unfolding n1 by blast
  have lq: "length qs = length env" using qs(2) by (metis length_map)
  let ?s2 = "bump_by (word_of_int (int (length env)) * 8) p ?s1"
  let ?s' = "upd_l1 self (\<lambda>r. r\<lparr>l1_argc := int (length args), l1_argv := a, l1_argv_cells := ps,
      l1_environc := int (length env) - 1, l1_environ := b, l1_environ_room := int (length env),
      l1_environ_cells := map Some qs @ [None]\<rparr>) ?s2"
  have run: "initArgvAndEnv (EBBPrimMalloc Stupid callmf) p self s = Inr ?s'"
    unfolding initArgvAndEnv_def Let_def
    using calculation a b lq r by simp
  have "map (map_option (string_at data)) (map Some qs @ [None]) = map Some env @ [None]"
    using qs(2) by (simp add: map_map comp_def flip: qs(2))
  then show ?thesis using run ps(2) by (intro exI [of _ ?s']) simp
qed

lemma user_args_subset:
  "user_args argv = Some args \<Longrightarrow> set args \<subseteq> set argv \<and> length (packed args) \<le> length (packed argv)"
proof (induction argv arbitrary: args rule: user_args.induct)
  case (2 a rest)
  consider "starts_with ebbos_cores a" | "\<not> starts_with ebbos_cores a" "starts_with ebbos_arg a"
    | "\<not> starts_with ebbos_cores a" "\<not> starts_with ebbos_arg a" by blast
  then show ?case
  proof cases
    case 1
    then obtain v rest' where "rest = v # rest'" "user_args rest' = Some args" using 2(4) by (auto split: list.splits)
    then show ?thesis using 2(1) [OF 1] by fastforce
  next
    case 2
    then show ?thesis using "2.IH"(2) [OF 2] "2.prems" by fastforce
  next
    case 3
    then show ?thesis using "2.IH"(3) [OF 3] "2.prems" by fastforce
  qed
qed simp

lemma length_le_packed: "length xs \<le> length (packed xs)"
  by (induction xs) simp_all

text \<open>C38: the arguments and the environment survive the way from \<open>main\<close> to the second layer. What
  \<open>startinfo\<close> packs, without the options meant for the system, is what \<open>initArgvAndEnv\<close> finds: the
  argument count and pointers to the same strings, and pointers to the environment strings with a
  null at the end; that null is written one cell past the array that was allocated for them, and the
  count of the environment is one short. The sizes must be those of an \<open>int\<close> and the core must
  have the memory for the two arrays.\<close>

theorem start_info_roundtrip:
  assumes u: "user_args argv = Some args"
    and z: "\<forall>x \<in> set (argv @ env). 0 \<notin> set x" and size: "startinfo_size argv env < 2 ^ 31"
    and f: "mem_funds mm p k s" "8 * length args + 8 * length env < k"
  shows "\<exists>data sa'. startinfo True argv env sa = Inr (data, int (length data), sa') \<and>
    (\<exists>s'. initArgvAndEnv (EBBPrimMalloc Stupid callmf) p self
         (upd_l1 self (\<lambda>r. r\<lparr>l1_sisize := int (length data), l1_si := data\<rparr>) s) = Inr s' \<and>
       l1_argc (l1rep s' self) = int (length args) \<and>
       map (string_at data) (l1_argv_cells (l1rep s' self)) = args \<and>
       map (map_option (string_at data)) (l1_environ_cells (l1rep s' self)) = map Some env @ [None] \<and>
       l1_environ_room (l1rep s' self) = int (length env) \<and> l1_environc (l1rep s' self) = int (length env) - 1)"
proof -
  let ?d = "le32 (int (length args)) @ packed args @ packed env"
  have d: "int (length ?d) = 4 + int (length (packed args)) + int (length (packed env))" by (simp add: le32_def)
  have sz: "4 + int (length (packed argv)) + int (length (packed env)) < 2 ^ 31"
    using size by (simp add: startinfo_size_def length_packed)
  note sub = user_args_subset [OF u]
  have len: "length args < 2 ^ 31" "length env < 2 ^ 60" "int (length ?d) < 2 ^ 63"
    using sz sub length_le_packed [of args] length_le_packed [of env] d by simp_all
  have zz: "\<forall>x \<in> set args. 0 \<notin> set x" "\<forall>x \<in> set env. 0 \<notin> set x" using z sub by auto
  obtain sa' where "startinfo True argv env sa = Inr (?d, int (length ?d), sa')"
    using startinfo_packs(2) [OF u] unfolding d by blast
  moreover note initArgvAndEnv_packed [OF mem_funds_upd_l1 [OF f(1),
        of self "\<lambda>r. r\<lparr>l1_sisize := int (length ?d), l1_si := ?d\<rparr>"] f(2) zz len(1,2) refl len(3),
      where self = self and callmf = callmf]
  ultimately show ?thesis by (intro exI [of _ ?d] exI [of _ sa']) simp
qed

definition demo_l1 :: l1_state where
  "demo_l1 = msg_state.extend (event_state.extend (ebbmgr_state.extend demo_ebbmgr
      \<lparr>theEventMgrPrimId = 0, theEventMgrPrimMaster = 0, em_rootRef = 0, emrep = emrep demo_event\<rparr>)
      \<lparr>theMsgMgrId = 0, theMsgMgrEHId = 0, rootRefMM = 0, rootRefEH = 0, msgrep = demo_msgrep, msgstore = demo_msgstore\<rparr>)
      \<lparr>theL0Id = 0, theL1Id = 0, theAppId = 0, l0_startInfo = (\<lambda>a. 0),
       l1rep = (\<lambda>a. \<lparr>l1_argc = 0, l1_environc = 0, l1_argv = 0, l1_environ = 0, l1_argv_cells = [], l1_environ_cells = [],
         l1_environ_room = 0, l1_sisize = 0, l1_si = [], l1_startMHId = 0\<rparr>)\<rparr>"

lemma demo_l1_funds: "mem_funds 0 0 72 demo_l1"
proof -
  have "mem_state.truncate demo_l1 = mem_state.truncate demo_ebbmgr"
    by (simp add: demo_l1_def event_state.defs msg_state.defs ebbmgr_state.defs mem_state.defs)
  then show ?thesis
    using demo_up_funds [of 0] unfolding mem_funds_def
    by (simp add: mem_state.defs mem_rep_def boot_mem_ok_def arena_def is_ltrans_addr_def Let_def)
qed

text \<open>\<open>prog -ebbos_cores 4 x\<close> with one environment variable.\<close>

theorem start_info_roundtrip_witness:
  "\<exists>data sa' s'. startinfo True (map str [''prog'', ''-ebbos_cores'', ''4'', ''x'']) [str ''A=1'']
      \<lparr>sa_cores = 8, sa_cores_to_start = 7, sa_start_info = [], sa_start_info_size = 0\<rparr> =
      Inr (data, int (length data), sa') \<and>
    initArgvAndEnv (EBBPrimMalloc Stupid (\<lambda>m p o' l n a s. Inl NullDeref)) 0 0x900
      (upd_l1 0x900 (\<lambda>r. r\<lparr>l1_sisize := int (length data), l1_si := data\<rparr>) demo_l1) = Inr s' \<and>
    l1_argc (l1rep s' 0x900) = 2 \<and> map (string_at data) (l1_argv_cells (l1rep s' 0x900)) = map str [''prog'', ''x''] \<and>
    map (map_option (string_at data)) (l1_environ_cells (l1rep s' 0x900)) = [Some (str ''A=1''), None] \<and>
    l1_environ_room (l1rep s' 0x900) = 1"
proof -
  have u: "user_args (map str [''prog'', ''-ebbos_cores'', ''4'', ''x'']) = Some (map str [''prog'', ''x''])"
    by (simp add: str_def starts_with_def ebbos_arg_def ebbos_cores_def)
  have z: "\<forall>x \<in> set (map str [''prog'', ''-ebbos_cores'', ''4'', ''x''] @ [str ''A=1'']). 0 \<notin> set x"
    by (simp add: str_def)
  have n: "startinfo_size (map str [''prog'', ''-ebbos_cores'', ''4'', ''x'']) [str ''A=1''] < 2 ^ 31"
    by (simp add: startinfo_size_def str_def)
  have k: "8 * length (map str [''prog'', ''x'']) + 8 * length [str ''A=1''] < 72" by simp
  show ?thesis
    using start_info_roundtrip [OF u z n demo_l1_funds k, of "\<lparr>sa_cores = 8, sa_cores_to_start = 7, sa_start_info = [], sa_start_info_size = 0\<rparr>"
      "\<lambda>m p o' l n a s. Inl NullDeref" "0x900"] by auto
qed

end
