(* ===== verification/SpinOnce.thy ===== *)
theory SpinOnce
  imports EbbMgr
begin

text \<open>
  The two synchronisation protocols the managers share, as step relations in which the atomic
  accesses of the cores interleave freely: the compare-and-swap spin lock (\<open>lockReps\<close> of
  \<open>CObjEBBRootMultiImp.c\<close>, \<open>spin_lock\<close> of \<open>EventMgrPrimImp.c\<close>, \<open>spinLock\<close> of \<open>MsgMgrPrim.c\<close>)
  and the initialisation of a global id, which one core takes from 0 to -1 and publishes while
  the others wait (\<open>EBBMgrPrimInit\<close>, \<open>EventMgrPrimImpInit\<close>, \<open>MsgMgrPrim_Init\<close>, \<open>L1PrimInit\<close>).
\<close>

subsection \<open>Compare and swap\<close>

definition cas :: "u64 \<Rightarrow> u64 \<Rightarrow> u64 \<Rightarrow> bool \<times> u64" where
  "cas v old new = (if v = old then (True, new) else (False, v))"

subsection \<open>The spin lock\<close>

text \<open>
  A core is outside, spins in the loop of the lock operation, or holds the lock. \<open>unlock\<close> is a
  compare-and-swap too; \<open>unlockReps\<close> asserts that it succeeds.
\<close>

datatype lock_pc = Outside | Spinning | Holding | UnlockFailed

record spin_state =
  lock_word :: u64
  lock_pc :: "nat \<Rightarrow> lock_pc"

definition spin_call :: "nat \<Rightarrow> spin_state \<Rightarrow> spin_state" where
  "spin_call p s = s\<lparr>lock_pc := (lock_pc s)(p := Spinning)\<rparr>"

definition spin_try :: "nat \<Rightarrow> spin_state \<Rightarrow> spin_state" where
  "spin_try p s =
     (case cas (lock_word s) 0 1 of
        (True, w) \<Rightarrow> s\<lparr>lock_word := w, lock_pc := (lock_pc s)(p := Holding)\<rparr>
      | (False, w) \<Rightarrow> s)"

definition spin_release :: "nat \<Rightarrow> spin_state \<Rightarrow> spin_state" where
  "spin_release p s =
     (case cas (lock_word s) 1 0 of
        (True, w) \<Rightarrow> s\<lparr>lock_word := w, lock_pc := (lock_pc s)(p := Outside)\<rparr>
      | (False, w) \<Rightarrow> s\<lparr>lock_pc := (lock_pc s)(p := UnlockFailed)\<rparr>)"

inductive spin_step :: "spin_state \<Rightarrow> spin_state \<Rightarrow> bool" where
  call: "lock_pc s p = Outside \<Longrightarrow> spin_step s (spin_call p s)"
| attempt: "lock_pc s p = Spinning \<Longrightarrow> spin_step s (spin_try p s)"
| release: "lock_pc s p = Holding \<Longrightarrow> spin_step s (spin_release p s)"

inductive_cases spin_stepE: "spin_step s s'"

definition spin_init :: spin_state where
  "spin_init = \<lparr>lock_word = 0, lock_pc = (\<lambda>p. Outside)\<rparr>"

inductive spin_reachable :: "spin_state \<Rightarrow> bool" where
  init: "spin_reachable spin_init"
| step: "spin_reachable s \<Longrightarrow> spin_step s s' \<Longrightarrow> spin_reachable s'"

definition spin_inv :: "spin_state \<Rightarrow> bool" where
  "spin_inv s \<longleftrightarrow> (lock_word s = 0 \<and> (\<forall>p. lock_pc s p \<in> {Outside, Spinning}) \<or>
     lock_word s = 1 \<and> (\<exists>p. lock_pc s p = Holding \<and> (\<forall>q. q \<noteq> p \<longrightarrow> lock_pc s q \<in> {Outside, Spinning})))"

lemma spin_inv_cases:
  assumes "spin_inv s"
  obtains (Unheld) "lock_word s = 0" "\<And>p. lock_pc s p = Outside \<or> lock_pc s p = Spinning"
  | (Held) h where "lock_word s = 1" "lock_pc s h = Holding"
      "\<And>q. q \<noteq> h \<Longrightarrow> lock_pc s q = Outside \<or> lock_pc s q = Spinning"
  using assms unfolding spin_inv_def by blast

lemma spin_step_inv: "spin_step s s' \<Longrightarrow> spin_inv s \<Longrightarrow> spin_inv s'"
proof (erule spin_stepE)
  fix p assume a: "s' = spin_call p s" "lock_pc s p = Outside" "spin_inv s"
  from a(3) show "spin_inv s'"
  proof (cases rule: spin_inv_cases)
    case (Held h)
    then have "h \<noteq> p" using a(2) by auto
    then show ?thesis unfolding spin_inv_def
      by (intro disjI2 conjI exI [of _ h]) (use Held a in \<open>auto simp: spin_call_def\<close>)
  qed (use a in \<open>auto simp: spin_inv_def spin_call_def\<close>)
next
  fix p assume a: "s' = spin_try p s" "lock_pc s p = Spinning" "spin_inv s"
  from a(3) show "spin_inv s'"
  proof (cases rule: spin_inv_cases)
    case Unheld
    then show ?thesis unfolding spin_inv_def
      by (intro disjI2 conjI exI [of _ p]) (use a in \<open>auto simp: spin_try_def cas_def\<close>)
  qed (use a in \<open>auto simp: spin_inv_def spin_try_def cas_def\<close>)
next
  fix p assume a: "s' = spin_release p s" "lock_pc s p = Holding" "spin_inv s"
  from a(3) show "spin_inv s'"
  proof (cases rule: spin_inv_cases)
    case Unheld
    then show ?thesis using a(2) by (metis lock_pc.distinct(3,7))
  next
    case (Held h)
    have "h = p" using Held(3) [of p] a(2) by (cases "p = h") auto
    then show ?thesis using Held a by (auto simp: spin_inv_def spin_release_def cas_def)
  qed
qed

lemma spin_reachable_inv: "spin_reachable s \<Longrightarrow> spin_inv s"
proof (induction rule: spin_reachable.induct)
  case init
  show ?case by (simp add: spin_inv_def spin_init_def)
next
  case (step s s')
  then show ?case by (blast intro: spin_step_inv)
qed

text \<open>
  C20: the spin lock gives mutual exclusion: in every state the cores can reach, however their
  attempts interleave, at most one core holds the lock, exactly when the word is 1, no unlock
  ever finds the word free (the assertion of \<open>unlockReps\<close>), and when some core spins while none
  holds the lock, its next attempt takes it.
\<close>

theorem spin_mutual_exclusion:
  assumes "spin_reachable s"
  shows "(lock_pc s p = Holding \<longrightarrow> lock_pc s q = Holding \<longrightarrow> p = q) \<and> lock_pc s p \<noteq> UnlockFailed \<and>
    (lock_word s = 1 \<longleftrightarrow> (\<exists>p. lock_pc s p = Holding)) \<and>
    (lock_pc s p = Spinning \<longrightarrow> (\<forall>q. lock_pc s q \<noteq> Holding) \<longrightarrow> lock_pc (spin_try p s) p = Holding)"
proof -
  from spin_reachable_inv [OF assms] show ?thesis
  proof (cases rule: spin_inv_cases)
    case Unheld
    have "lock_pc s q \<noteq> Holding \<and> lock_pc s q \<noteq> UnlockFailed" for q using Unheld(2) [of q] by auto
    with Unheld(1) show ?thesis by (simp add: spin_try_def cas_def)
  next
    case (Held h)
    have "(lock_pc s q = Holding \<longrightarrow> q = h) \<and> lock_pc s q \<noteq> UnlockFailed" for q
      using Held(2) Held(3) [of q] by (cases "q = h") auto
    with Held(1,2) show ?thesis by metis
  qed
qed

theorem spin_mutual_exclusion_witness:
  "lock_pc (spin_try 3 (spin_call 3 spin_init)) 3 = Holding \<and>
   lock_pc (spin_try 5 (spin_call 5 (spin_try 3 (spin_call 3 spin_init)))) 5 \<noteq> Holding"
proof -
  let ?a = "spin_call 3 spin_init" and ?c = "spin_call 5 (spin_try 3 (spin_call 3 spin_init))"
  have a: "spin_reachable ?a"
    by (rule spin_reachable.step [OF spin_reachable.init]) (rule spin_step.call, simp add: spin_init_def)
  have b: "spin_reachable (spin_try 3 ?a)"
    by (rule spin_reachable.step [OF a]) (rule spin_step.attempt, simp add: spin_init_def spin_call_def)
  have c: "spin_reachable ?c"
    by (rule spin_reachable.step [OF b]) (rule spin_step.call, simp add: spin_init_def spin_call_def spin_try_def cas_def)
  have d: "spin_reachable (spin_try 5 ?c)"
    by (rule spin_reachable.step [OF c]) (rule spin_step.attempt, simp add: spin_init_def spin_call_def spin_try_def cas_def)
  show ?thesis
    using spin_mutual_exclusion [OF a, of 3] spin_mutual_exclusion [OF d, of 3 5]
    by (auto simp: spin_init_def spin_call_def spin_try_def cas_def)
qed

subsection \<open>Initialising a global id once\<close>

text \<open>
  \<open>the_id\<close> is the global variable, \<open>mm_id\<close> the memory manager's, \<open>made\<close> the cores that created
  the object. A step is one atomic access of the protocol; \<open>watched\<close> is the variable the loop of the
  losing cores reads.
\<close>

datatype once_pc = Entering | Making | Waiting | Passed u64

record once_state =
  the_id :: u64
  mm_id :: u64
  once_pc :: "nat \<Rightarrow> once_pc"
  made :: "nat list"

definition once_enter :: "nat \<Rightarrow> once_state \<Rightarrow> once_state" where
  "once_enter p s =
     (case cas (the_id s) 0 (-1) of
        (True, w) \<Rightarrow> s\<lparr>the_id := w, once_pc := (once_pc s)(p := Making), made := p # made s\<rparr>
      | (False, w) \<Rightarrow> s\<lparr>once_pc := (once_pc s)(p := Waiting)\<rparr>)"

definition once_publish :: "nat \<Rightarrow> u64 \<Rightarrow> once_state \<Rightarrow> once_state" where
  "once_publish p i s = s\<lparr>the_id := i, once_pc := (once_pc s)(p := Passed i)\<rparr>"

definition once_spin :: "(once_state \<Rightarrow> u64) \<Rightarrow> nat \<Rightarrow> once_state \<Rightarrow> once_state" where
  "once_spin watched p s = (if watched s = -1 then s else s\<lparr>once_pc := (once_pc s)(p := Passed (the_id s))\<rparr>)"

inductive once_step :: "(once_state \<Rightarrow> u64) \<Rightarrow> once_state \<Rightarrow> once_state \<Rightarrow> bool" for watched where
  enter: "once_pc s p = Entering \<Longrightarrow> once_step watched s (once_enter p s)"
| publish: "once_pc s p = Making \<Longrightarrow> i \<noteq> 0 \<Longrightarrow> i \<noteq> -1 \<Longrightarrow> once_step watched s (once_publish p i s)"
| spin: "once_pc s p = Waiting \<Longrightarrow> once_step watched s (once_spin watched p s)"

inductive_cases once_stepE: "once_step w s s'"

definition once_init :: "u64 \<Rightarrow> once_state" where
  "once_init mm = \<lparr>the_id = 0, mm_id = mm, once_pc = (\<lambda>p. Entering), made = []\<rparr>"

inductive once_reachable :: "(once_state \<Rightarrow> u64) \<Rightarrow> u64 \<Rightarrow> once_state \<Rightarrow> bool" for watched mm where
  init: "once_reachable watched mm (once_init mm)"
| step: "once_reachable watched mm s \<Longrightarrow> once_step watched s s' \<Longrightarrow> once_reachable watched mm s'"

definition once_inv :: "once_state \<Rightarrow> bool" where
  "once_inv s \<longleftrightarrow>
     the_id s = 0 \<and> made s = [] \<and> (\<forall>p. once_pc s p = Entering) \<or>
     (\<exists>m. made s = [m] \<and> (the_id s = -1 \<and> once_pc s m = Making \<and>
            (\<forall>p. p \<noteq> m \<longrightarrow> once_pc s p \<in> {Entering, Waiting}) \<or>
          the_id s \<notin> {0, -1} \<and> once_pc s m = Passed (the_id s) \<and>
            (\<forall>p. p \<noteq> m \<longrightarrow> once_pc s p \<in> {Entering, Waiting, Passed (the_id s)})))"

lemma once_inv_cases:
  assumes "once_inv s"
  obtains (Before) "the_id s = 0" "made s = []" "\<And>p. once_pc s p = Entering"
  | (During) m where "made s = [m]" "the_id s = -1" "once_pc s m = Making"
      "\<And>p. p \<noteq> m \<Longrightarrow> once_pc s p = Entering \<or> once_pc s p = Waiting"
  | (After) m where "made s = [m]" "the_id s \<noteq> 0" "the_id s \<noteq> -1" "once_pc s m = Passed (the_id s)"
      "\<And>p. p \<noteq> m \<Longrightarrow> once_pc s p = Entering \<or> once_pc s p = Waiting \<or> once_pc s p = Passed (the_id s)"
  using assms unfolding once_inv_def by blast

lemma once_step_inv: "once_step the_id s s' \<Longrightarrow> once_inv s \<Longrightarrow> once_inv s'"
proof (erule once_stepE)
  fix p assume a: "s' = once_enter p s" "once_pc s p = Entering" "once_inv s"
  from a(3) show "once_inv s'"
    by (cases rule: once_inv_cases) (use a(1,2) in \<open>auto simp: once_inv_def once_enter_def cas_def\<close>)
next
  fix p i assume a: "s' = once_publish p i s" "once_pc s p = Making" "i \<noteq> 0" "i \<noteq> -1" "once_inv s"
  from a(5) show "once_inv s'"
  proof (cases rule: once_inv_cases)
    case (During m)
    then have "m = p" using a(2) by (metis once_pc.distinct(1,7))
    with During a(1,3,4) show ?thesis by (auto simp: once_inv_def once_publish_def)
  next
    case Before
    then show ?thesis using a(2) by simp
  next
    case (After m)
    have "once_pc s p \<noteq> Making" using After(4) After(5) [of p] by (cases "p = m") auto
    then show ?thesis using a(2) by simp
  qed
next
  fix p assume a: "s' = once_spin the_id p s" "once_pc s p = Waiting" "once_inv s"
  from a(3) show "once_inv s'"
    by (cases rule: once_inv_cases) (use a(1,2) in \<open>auto simp: once_inv_def once_spin_def\<close>)
qed

lemma once_reachable_inv: "once_reachable the_id mm s \<Longrightarrow> once_inv s"
proof (induction rule: once_reachable.induct)
  case init
  show ?case by (simp add: once_inv_def once_init_def)
next
  case (step s s')
  then show ?case by (blast intro: once_step_inv)
qed

text \<open>
  C21: the initialisation of a global id, in which the losing cores wait on the id itself: in
  every reachable state at most one core makes the object, every core that has left the protocol
  holds the published id, never 0 or the marker -1, and the protocol is never stuck: when some
  core has not passed, a core that is making can publish, or a step of a core that is not yet
  through takes it further.
\<close>

theorem once_exactly_one:
  assumes "once_reachable the_id mm s"
  shows "length (made s) \<le> 1 \<and>
    (\<forall>p i. once_pc s p = Passed i \<longrightarrow> i = the_id s \<and> i \<notin> {0, -1} \<and> length (made s) = 1) \<and>
    ((\<exists>p. once_pc s p = Making) \<or>
     (\<forall>p. once_pc s p = Waiting \<longrightarrow> once_pc (once_spin the_id p s) p = Passed (the_id s)))"
  using once_reachable_inv [OF assms]
proof (cases rule: once_inv_cases)
  case (After m)
  have "once_pc s p = Passed i \<Longrightarrow> i = the_id s \<and> i \<notin> {0, -1}" for p i
    using After(2-4) After(5) [of p] by (cases "p = m") auto
  moreover have "once_pc (once_spin the_id p s) p = Passed (the_id s)" for p
    using After(3) by (simp add: once_spin_def)
  ultimately show ?thesis using After(1) by auto
next
  case (During m)
  have "once_pc s p \<noteq> Passed i" for p i using During(3) During(4) [of p] by (cases "p = m") auto
  with During(1,3) show ?thesis by auto
next
  case Before
  then show ?thesis by simp
qed

text \<open>
  C37: \<open>EBBMgrPrimInit\<close> makes the losing cores wait on the memory manager's id, which is
  published already. So a second core can leave the protocol while the first is still making the
  object, and then goes on with the id -1.
\<close>

theorem ebbmgr_init_race:
  assumes "mm \<noteq> -1"
  shows "\<exists>s. once_reachable mm_id mm s \<and> once_pc s 0 = Making \<and> once_pc s 1 = Passed (-1)"
proof -
  let ?a = "once_enter 0 (once_init mm)"
  let ?b = "once_enter 1 ?a"
  let ?c = "once_spin mm_id 1 ?b"
  have a: "once_reachable mm_id mm ?a"
    by (rule once_reachable.step [OF once_reachable.init]) (rule once_step.enter, simp add: once_init_def)
  have b: "once_reachable mm_id mm ?b"
    by (rule once_reachable.step [OF a]) (rule once_step.enter, simp add: once_init_def once_enter_def cas_def)
  have "once_reachable mm_id mm ?c"
    by (rule once_reachable.step [OF b]) (rule once_step.spin, simp add: once_init_def once_enter_def cas_def)
  moreover have "once_pc ?c 0 = Making" "once_pc ?c 1 = Passed (-1)"
    using assms by (simp_all add: once_init_def once_enter_def once_spin_def cas_def)
  ultimately show ?thesis by blast
qed

theorem once_exactly_one_witness:
  "made (once_publish 4 0x9000 (once_enter 4 (once_init 7))) = [4] \<and>
   once_pc (once_publish 4 0x9000 (once_enter 4 (once_init 7))) 4 = Passed 0x9000 \<and>
   length (made (once_publish 4 0x9000 (once_enter 4 (once_init 7)))) \<le> 1"
proof -
  have a: "once_reachable the_id 7 (once_enter 4 (once_init 7))"
    by (rule once_reachable.step [OF once_reachable.init]) (rule once_step.enter, simp add: once_init_def)
  have "once_reachable the_id 7 (once_publish 4 0x9000 (once_enter 4 (once_init 7)))"
    by (rule once_reachable.step [OF a]) (rule once_step.publish, simp_all add: once_init_def once_enter_def cas_def)
  from once_exactly_one [OF this] show ?thesis
    by (simp add: once_init_def once_enter_def once_publish_def cas_def)
qed

theorem ebbmgr_init_race_witness: "\<exists>s. once_reachable mm_id 7 s \<and> once_pc s 1 = Passed (-1)"
  using ebbmgr_init_race [of 7] by auto

end
