(* ===== verification/Stdio.thy ===== *)
theory Stdio
  imports StartInfo
begin

text \<open>
  The formatted output of the bare-metal runtimes, \<open>l0/lrt/bare/stdio.c\<close>. A stream is its
  \<open>write\<close> function with the cookie applied; strings are lists of bytes without their null. The
  arguments of a variadic call are the 64-bit slots they arrive in.
\<close>

type_synonym 's stream = "byte list \<Rightarrow> 's \<Rightarrow> int \<times> 's"

unbundle bit_operations_syntax

subsection \<open>Characters and strings\<close>

definition fputc :: "u32 \<Rightarrow> 's stream \<Rightarrow> 's \<Rightarrow> int \<times> 's" where
  "fputc c stream s = stream [ucast c] s"

definition fputs :: "byte list \<Rightarrow> 's stream \<Rightarrow> 's \<Rightarrow> int \<times> 's" where
  "fputs cs stream s = stream cs s"

definition putc :: "u32 \<Rightarrow> 's stream \<Rightarrow> 's \<Rightarrow> int \<times> 's" where
  "putc c stream s = fputc c stream s"

definition putchar :: "'s stream \<Rightarrow> u32 \<Rightarrow> 's \<Rightarrow> int \<times> 's" where
  "putchar stdout c s = putc c stdout s"

definition puts :: "'s stream \<Rightarrow> byte list \<Rightarrow> 's \<Rightarrow> int \<times> 's" where
  "puts stdout cs s = stdout (cs @ [10]) s"

definition JUST_LEFT :: byte where "JUST_LEFT = push_bit 0 1"
definition POSITIVE_SIGN :: byte where "POSITIVE_SIGN = push_bit 1 1"
definition NO_SIGN_SPACE :: byte where "NO_SIGN_SPACE = push_bit 2 1"
definition POUND_FLAG :: byte where "POUND_FLAG = push_bit 3 1"
definition PAD_WITH_ZEROES :: byte where "PAD_WITH_ZEROES = push_bit 4 1"
definition SHORT :: byte where "SHORT = push_bit 5 1"
definition LONG :: byte where "LONG = push_bit 6 1"
definition LONGLONG :: byte where "LONGLONG = push_bit 7 1"

lemmas print_flags = JUST_LEFT_def POSITIVE_SIGN_def NO_SIGN_SPACE_def POUND_FLAG_def PAD_WITH_ZEROES_def
  SHORT_def LONG_def LONGLONG_def

definition PRINT_BUF_LEN :: nat where "PRINT_BUF_LEN = 80"

subsection \<open>A padded string\<close>

text \<open>\<open>for(; width > 0; width--) { putc(pad, stream); count++; }\<close>, with the width that is left.\<close>

function pad_loop :: "byte \<Rightarrow> int \<Rightarrow> int \<Rightarrow> 's stream \<Rightarrow> 's \<Rightarrow> int \<times> int \<times> 's" where
  "pad_loop pad width count stream s =
     (if width > 0 then pad_loop pad (width - 1) (count + 1) stream (snd (putc (ucast pad) stream s))
      else (width, count, s))"
  by pat_completeness auto

termination by (relation "measure (\<lambda>(pad, width, _). nat width)") auto

declare pad_loop.simps [simp del]

text \<open>The length that is compared with the width.\<close>

fun width_scan :: "byte list \<Rightarrow> int \<Rightarrow> int \<Rightarrow> int" where
  "width_scan [] precision len = len"
| "width_scan (c # cs) precision len =
     (if precision = -1 \<or> len \<le> precision then width_scan cs precision (len + 1) else len)"

text \<open>\<open>for(; precision != 0 && *str != 0; str++, precision--)\<close>.\<close>

fun put_string :: "byte list \<Rightarrow> int \<Rightarrow> int \<Rightarrow> 's stream \<Rightarrow> 's \<Rightarrow> int \<times> 's" where
  "put_string [] precision count stream s = (count, s)"
| "put_string (c # cs) precision count stream s =
     (if precision \<noteq> 0 then put_string cs (precision - 1) (count + 1) stream (snd (putc (ucast c) stream s))
      else (count, s))"

definition prints :: "byte list \<Rightarrow> int \<Rightarrow> int \<Rightarrow> byte \<Rightarrow> 's stream \<Rightarrow> 's \<Rightarrow> int \<times> 's" where
  "prints cs width precision flags stream s =
     (let width = if precision \<noteq> -1 \<and> width > precision then precision else width;
          pad = if flags AND PAD_WITH_ZEROES \<noteq> 0 then 48 else 32;
          width = if width > 0 then
                    let len = width_scan cs precision 0
                    in if len \<ge> width then 0 else width - len
                  else width;
          (width, count, s) = if flags AND JUST_LEFT = 0 then pad_loop pad width 0 stream s else (width, 0, s);
          (count, s) = put_string cs precision count stream s;
          (width, count, s) = pad_loop pad width count stream s
      in (count, s))"

subsection \<open>A number\<close>

text \<open>
  The buffer is filled from its end: \<open>buf\<close> holds the bytes from \<open>s\<close> up to the null in the last
  place, and a write below the first place faults.
\<close>

definition push_char :: "byte \<Rightarrow> byte list \<Rightarrow> byte list res" where
  "push_char c buf = (if length buf < PRINT_BUF_LEN - 1 then Inr (c # buf) else Inl OutOfBounds)"

definition digit_char :: "byte \<Rightarrow> u64 \<Rightarrow> byte" where
  "digit_char cbase r = (if r \<ge> 10 then ucast (r + (ucast cbase - 10)) else ucast (r + 48))"

function digit_loop :: "u64 \<Rightarrow> u64 \<Rightarrow> byte \<Rightarrow> nat \<Rightarrow> byte list \<Rightarrow> (nat \<times> byte list) res" where
  "digit_loop uval base cbase pos buf =
     (if uval \<noteq> 0 then
        if base = 0 then Inl DivByZero
        else
          (case push_char (digit_char cbase (uval mod base)) buf of
             Inl e \<Rightarrow> Inl e
           | Inr buf \<Rightarrow> digit_loop (uval div base) base cbase (pos + 1) buf)
      else Inr (pos, buf))"
  by pat_completeness auto

termination
  by (relation "measure (\<lambda>(uval, base, cbase, pos, buf). PRINT_BUF_LEN - length buf)")
    (auto simp: push_char_def PRINT_BUF_LEN_def split: if_splits)

declare digit_loop.simps [simp del]

function zero_loop :: "int \<Rightarrow> nat \<Rightarrow> byte list \<Rightarrow> byte list res" where
  "zero_loop precision pos buf =
     (if precision > int pos then
        (case push_char 48 buf of Inl e \<Rightarrow> Inl e | Inr buf \<Rightarrow> zero_loop precision (pos + 1) buf)
      else Inr buf)"
  by pat_completeness auto

termination by (relation "measure (\<lambda>(precision, pos, buf). nat (precision - int pos))") auto

declare zero_loop.simps [simp del]

definition printi ::
    "u64 \<Rightarrow> u64 \<Rightarrow> int \<Rightarrow> int \<Rightarrow> int \<Rightarrow> byte \<Rightarrow> byte \<Rightarrow> 's stream \<Rightarrow> 's \<Rightarrow> (int \<times> 's) res" where
  "printi val base sign width precision flags cbase stream s =
     (if val = 0 then
        let sp = if flags AND NO_SIGN_SPACE \<noteq> 0 then [32] else [];
            print_buf = if precision = 0 then sp else sp @ [48]
        in Inr (prints print_buf width (-1) flags stream s)
      else
        let neg = (sign = 1 \<and> base = 10 \<and> sint val < 0);
            uval = if neg then - val else val
        in rbind (digit_loop uval base cbase 0 []) (\<lambda>(pos, buf).
           rbind (zero_loop precision pos buf) (\<lambda>buf.
           rbind (if base = 10 then
                    if neg then push_char 45 buf
                    else if flags AND POSITIVE_SIGN \<noteq> 0 then push_char 43 buf
                    else if flags AND NO_SIGN_SPACE \<noteq> 0 then push_char 32 buf
                    else Inr buf
                  else if base = 16 then
                    rbind (push_char (cbase - 65 + 88) buf) (\<lambda>buf. push_char 48 buf)
                  else Inr buf) (\<lambda>buf.
           Inr (prints buf width (-1) flags stream s)))))"

subsection \<open>The format\<close>

text \<open>\<open>*format\<close>: the format is followed by its null.\<close>

definition fmt_char :: "byte list \<Rightarrow> byte" where
  "fmt_char fmt = (case fmt of [] \<Rightarrow> 0 | c # _ \<Rightarrow> c)"

definition take_flag :: "byte \<Rightarrow> byte \<Rightarrow> byte list \<times> byte \<Rightarrow> byte list \<times> byte" where
  "take_flag c f = (\<lambda>(fmt, flags). if fmt_char fmt = c then (tl fmt, flags OR f) else (fmt, flags))"

text \<open>The digits of a width or a precision, in 32 bits.\<close>

fun take_number :: "u32 \<Rightarrow> byte list \<Rightarrow> u32 \<times> byte list" where
  "take_number n [] = (n, [])"
| "take_number n (c # fmt) = (if 48 \<le> c \<and> c \<le> 57 then take_number (n * 10 + (ucast c - 48)) fmt else (n, c # fmt))"

text \<open>\<open>va_arg\<close>: reading past the last argument is undefined.\<close>

definition va_arg :: "u64 list \<Rightarrow> (u64 \<times> u64 list) res" where
  "va_arg ap = (case ap of [] \<Rightarrow> Inl OutOfBounds | a # ap \<Rightarrow> Inr (a, ap))"

definition take_width :: "byte list \<Rightarrow> u64 list \<Rightarrow> (u32 \<times> byte list \<times> u64 list) res" where
  "take_width fmt ap =
     (if fmt_char fmt = 42 then rbind (va_arg ap) (\<lambda>(a, ap). Inr (ucast a, tl fmt, ap))
      else let (n, fmt) = take_number 0 fmt in Inr (n, fmt, ap))"

definition take_precision :: "byte list \<Rightarrow> u64 list \<Rightarrow> (u32 \<times> byte list \<times> u64 list) res" where
  "take_precision fmt ap =
     (if fmt_char fmt = 46 then take_width (tl fmt) ap else Inr (-1, fmt, ap))"

definition take_length :: "byte list \<times> byte \<Rightarrow> byte list \<times> byte" where
  "take_length = (\<lambda>(fmt, flags).
     if fmt_char fmt = 104 then (tl fmt, flags OR SHORT)
     else if fmt_char fmt = 108 then
       if fmt_char (tl fmt) = 108 then (tl (tl fmt), flags OR LONGLONG) else (tl fmt, flags OR LONG)
     else if fmt_char fmt = 76 then (tl fmt, flags OR LONG)
     else (fmt, flags))"

text \<open>\<open>va_arg\<close> with the type the length names, converted to \<open>long long\<close>.\<close>

definition signed_arg :: "byte \<Rightarrow> u64 list \<Rightarrow> (u64 \<times> u64 list) res" where
  "signed_arg flags ap = rbind (va_arg ap) (\<lambda>(a, ap).
     Inr (if flags AND SHORT \<noteq> 0 then scast (ucast a :: u32)
          else if flags AND LONG \<noteq> 0 then a
          else if flags AND LONGLONG \<noteq> 0 then a
          else scast (ucast a :: u32), ap))"

definition unsigned_arg :: "byte \<Rightarrow> bool \<Rightarrow> u64 list \<Rightarrow> (u64 \<times> u64 list) res" where
  "unsigned_arg flags pointer ap = rbind (va_arg ap) (\<lambda>(a, ap).
     Inr (if flags AND SHORT \<noteq> 0 then ucast (ucast a :: 16 word)
          else if flags AND LONG \<noteq> 0 \<or> pointer then a
          else if flags AND LONGLONG \<noteq> 0 then a
          else ucast (ucast a :: u32), ap))"

text \<open>\<open>mem\<close> is the string at an address. An unknown specifier prints nothing.\<close>

definition print_arg ::
    "(u64 \<Rightarrow> byte list) \<Rightarrow> byte \<Rightarrow> u32 \<Rightarrow> u32 \<Rightarrow> byte \<Rightarrow> u64 list \<Rightarrow> 's stream \<Rightarrow> 's \<Rightarrow> (int \<times> u64 list \<times> 's) res" where
  "print_arg mem c width precision flags ap stream s =
     (if c = 99 then
        rbind (va_arg ap) (\<lambda>(a, ap).
        let (n, s) = prints (takeWhile (\<lambda>b. b \<noteq> 0) [ucast a]) (sint width) 1 flags stream s in Inr (n, ap, s))
      else if c = 115 then
        rbind (va_arg ap) (\<lambda>(a, ap).
        let (n, s) = prints (if a \<noteq> 0 then mem a else str ''(null)'') (sint width) (sint precision) flags stream s
        in Inr (n, ap, s))
      else if c = 100 \<or> c = 105 then
        rbind (signed_arg flags ap) (\<lambda>(v, ap).
        rbind (printi v 10 1 (sint width) (sint precision) flags 97 stream s) (\<lambda>(n, s). Inr (n, ap, s)))
      else if c = 120 \<or> c = 112 then
        rbind (unsigned_arg flags (c = 112) ap) (\<lambda>(v, ap).
        rbind (printi v 16 1 (sint width) (sint precision) flags 97 stream s) (\<lambda>(n, s). Inr (n, ap, s)))
      else if c = 88 then
        rbind (unsigned_arg flags False ap) (\<lambda>(v, ap).
        rbind (printi v 16 1 (sint width) (sint precision) flags 65 stream s) (\<lambda>(n, s). Inr (n, ap, s)))
      else Inr (0, ap, s))"

text \<open>
  One conversion, from after the percent sign: what it prints, the format after it and the
  arguments that are left. A format that ends in a conversion is read past its null.
\<close>

definition conversion ::
    "(u64 \<Rightarrow> byte list) \<Rightarrow> byte list \<Rightarrow> u64 list \<Rightarrow> 's stream \<Rightarrow> 's \<Rightarrow> (int \<times> byte list \<times> u64 list \<times> 's) res" where
  "conversion mem fmt ap stream s =
     (let (fmt, flags) = take_flag 48 PAD_WITH_ZEROES (take_flag 35 POUND_FLAG (take_flag 32 NO_SIGN_SPACE
            (take_flag 43 POSITIVE_SIGN (take_flag 45 JUST_LEFT (fmt, 0)))))
      in rbind (take_width fmt ap) (\<lambda>(width, fmt, ap).
         rbind (take_precision fmt ap) (\<lambda>(precision, fmt, ap).
         let (fmt, flags) = take_length (fmt, flags)
         in rbind (print_arg mem (fmt_char fmt) width precision flags ap stream s) (\<lambda>(n, ap, s).
            if fmt = [] then Inl OutOfBounds else Inr (n, tl fmt, ap, s)))))"

lemma take_number_length: "length (snd (take_number n fmt)) \<le> length fmt"
  by (induction n fmt rule: take_number.induct) auto

lemma take_flag_length: "length (fst (take_flag c f x)) \<le> length (fst x)"
  by (auto simp: take_flag_def split: prod.splits)

lemma take_width_length: "take_width fmt ap = Inr (w, fmt', ap') \<Longrightarrow> length fmt' \<le> length fmt"
  using take_number_length [of 0 fmt] by (auto simp: take_width_def split: if_splits prod.splits)

lemma take_precision_length: "take_precision fmt ap = Inr (w, fmt', ap') \<Longrightarrow> length fmt' \<le> length fmt"
  using take_width_length [of "tl fmt" ap] by (fastforce simp: take_precision_def split: if_splits)

lemma take_length_length: "length (fst (take_length x)) \<le> length (fst x)"
  by (auto simp: take_length_def split: prod.splits)

lemma conversion_length: "conversion mem fmt ap stream s = Inr (n, fmt', ap', s') \<Longrightarrow> length fmt' < length fmt"
proof -
  assume c: "conversion mem fmt ap stream s = Inr (n, fmt', ap', s')"
  let ?f = "take_flag 48 PAD_WITH_ZEROES (take_flag 35 POUND_FLAG (take_flag 32 NO_SIGN_SPACE
            (take_flag 43 POSITIVE_SIGN (take_flag 45 JUST_LEFT (fmt, 0)))))"
  have f: "length (fst ?f) \<le> length fmt"
    using take_flag_length [of 48 PAD_WITH_ZEROES "take_flag 35 POUND_FLAG (take_flag 32 NO_SIGN_SPACE
            (take_flag 43 POSITIVE_SIGN (take_flag 45 JUST_LEFT (fmt, 0))))"]
      take_flag_length [of 35 POUND_FLAG "take_flag 32 NO_SIGN_SPACE (take_flag 43 POSITIVE_SIGN (take_flag 45 JUST_LEFT (fmt, 0)))"]
      take_flag_length [of 32 NO_SIGN_SPACE "take_flag 43 POSITIVE_SIGN (take_flag 45 JUST_LEFT (fmt, 0))"]
      take_flag_length [of 43 POSITIVE_SIGN "take_flag 45 JUST_LEFT (fmt, 0)"] take_flag_length [of 45 JUST_LEFT "(fmt, 0)"]
    by simp
  obtain fmt1 flags where f1: "?f = (fmt1, flags)" by (cases ?f)
  obtain w fmt2 ap2 where w: "take_width fmt1 ap = Inr (w, fmt2, ap2)"
    using c unfolding conversion_def f1 by (cases "take_width fmt1 ap") auto
  obtain p fmt3 ap3 where p: "take_precision fmt2 ap2 = Inr (p, fmt3, ap3)"
    using c unfolding conversion_def f1 by (cases "take_precision fmt2 ap2") (auto simp: w)
  obtain fmt4 flags4 where l: "take_length (fmt3, flags) = (fmt4, flags4)" by (cases "take_length (fmt3, flags)")
  have "fmt4 \<noteq> []" "fmt' = tl fmt4"
    using c unfolding conversion_def f1 by (auto simp: w p l split: if_splits)
  then show ?thesis
    using f f1 take_width_length [OF w] take_precision_length [OF p] take_length_length [of "(fmt3, flags)"] l
    by (cases fmt4) simp_all
qed

function vfprintf_loop ::
    "(u64 \<Rightarrow> byte list) \<Rightarrow> 's stream \<Rightarrow> byte list \<Rightarrow> u64 list \<Rightarrow> u32 \<Rightarrow> 's \<Rightarrow> (u32 \<times> 's) res" where
  "vfprintf_loop mem stream [] ap count s = Inr (count, s)"
| "vfprintf_loop mem stream (c # fmt) ap count s =
     (if c = 37 \<and> fmt_char fmt \<noteq> 37 then
        (case conversion mem fmt ap stream s of
           Inl e \<Rightarrow> Inl e
         | Inr (n, fmt, ap, s) \<Rightarrow> vfprintf_loop mem stream fmt ap (count + word_of_int n) s)
      else
        let fmt = (if c = 37 then tl fmt else fmt);
            (n, s) = prints [c] 0 1 0 stream s
        in vfprintf_loop mem stream fmt ap (count + word_of_int n) s)"
  by pat_completeness auto

termination
  by (relation "measure (\<lambda>(mem, stream, fmt, _). length fmt)") (auto dest: conversion_length split: if_splits)

definition vfprintf :: "(u64 \<Rightarrow> byte list) \<Rightarrow> 's stream \<Rightarrow> byte list \<Rightarrow> u64 list \<Rightarrow> 's \<Rightarrow> (int \<times> 's) res" where
  "vfprintf mem stream fmt ap s =
     rbind (vfprintf_loop mem stream fmt ap 0 s) (\<lambda>(count, s). Inr (sint count, s))"

definition vprintf :: "'s stream \<Rightarrow> (u64 \<Rightarrow> byte list) \<Rightarrow> byte list \<Rightarrow> u64 list \<Rightarrow> 's \<Rightarrow> (int \<times> 's) res" where
  "vprintf stdout mem fmt ap s = vfprintf mem stdout fmt ap s"

definition printf :: "'s stream \<Rightarrow> (u64 \<Rightarrow> byte list) \<Rightarrow> byte list \<Rightarrow> u64 list \<Rightarrow> 's \<Rightarrow> (int \<times> 's) res" where
  "printf stdout mem fmt ap s = vfprintf mem stdout fmt ap s"

end
