(* ===== verification/StdioProps.thy ===== *)
theory StdioProps
  imports Stdio
begin

text \<open>What the formatted output writes, on a stream that appends to what was written before.\<close>

definition app_stream :: "byte list stream" where
  "app_stream bs out = (int (length bs), out @ bs)"

subsection \<open>Padded strings\<close>

definition justify :: "byte \<Rightarrow> int \<Rightarrow> byte list \<Rightarrow> byte list" where
  "justify flags w xs =
     (let pad = replicate (nat (w - int (length xs))) (if flags AND PAD_WITH_ZEROES \<noteq> 0 then 48 else 32)
      in if flags AND JUST_LEFT = 0 then pad @ xs else xs @ pad)"

lemma putc_app [simp]: "putc (ucast c) app_stream out = (1, out @ [c])"
  by (simp add: putc_def fputc_def app_stream_def ucast_up_ucast_id is_up)

lemma pad_loop_app:
  "pad_loop pad w count app_stream out = (min w 0, count + int (nat w), out @ replicate (nat w) pad)"
proof (induction "nat w" arbitrary: w count out)
  case 0
  then show ?case by (subst pad_loop.simps) auto
next
  case (Suc n)
  then have n: "n = nat (w - 1)" "nat w = Suc n" "w > 0" by simp_all
  show ?case
    by (subst pad_loop.simps) (simp add: Suc(1) [OF n(1)] n(2,3) flip: n(1))
qed

lemma width_scan_le: "width_scan cs (-1) len = len + int (length cs)"
  by (induction cs arbitrary: len) simp_all

lemma width_scan_precision:
  "p \<noteq> -1 \<Longrightarrow> len \<le> p + 1 \<Longrightarrow> width_scan cs p len = min (len + int (length cs)) (p + 1)"
  by (induction cs arbitrary: len) auto

lemma put_string_app:
  "put_string cs p count app_stream out =
     (let xs = if p < 0 then cs else take (nat p) cs in (count + int (length xs), out @ xs))"
proof (induction cs arbitrary: p count out)
  case (Cons c cs)
  then show ?case by (cases "p = 0") (auto simp: Let_def take_Cons' nat_diff_distrib)
qed simp

text \<open>Printing a padded string writes the string, cut to the precision, justified in a field of
  the width, and returns the number of characters; a precision also cuts the width, so that a field
  is never wider than its precision.\<close>

lemma prints_spec:
  "prints cs width precision flags app_stream out =
    (let o' = justify flags (if precision = -1 then width else min width precision)
       (if precision < 0 then cs else take (nat precision) cs)
     in (int (length o'), out @ o'))"
proof -
  let ?w = "if precision = -1 then width else min width precision"
  let ?xs = "if precision < 0 then cs else take (nat precision) cs"
  let ?left = "if ?w > 0 then (let len = width_scan cs precision 0 in if len \<ge> ?w then 0 else ?w - len) else ?w"
  have w: "(if precision \<noteq> -1 \<and> width > precision then precision else width) = ?w" by auto
  have "nat ?left = nat (?w - int (length ?xs))"
  proof (cases "precision = -1")
    case True
    then show ?thesis by (simp add: width_scan_le Let_def)
  next
    case False
    then show ?thesis
      using width_scan_precision [of precision 0 cs] by (auto simp: Let_def min_def)
  qed
  moreover define l where "l = ?left"
  ultimately have l: "nat l = nat (?w - int (length ?xs))" by simp
  have min: "nat (min l 0) = 0" by simp
  show ?thesis
    unfolding prints_def w Let_def [of ?w] l_def [symmetric] justify_def l [symmetric]
    by (cases "flags AND JUST_LEFT = 0") (simp_all only: if_True if_False pad_loop_app put_string_app Let_def prod.case min
        nat_0 length_append length_replicate append_assoc replicate_0 append_Nil2 of_nat_add of_nat_0 add_0_left add_0_right add_ac not_True_eq_False simp_thms, simp?)
qed

subsection \<open>Numbers\<close>

text \<open>The digits of a number, most significant first; none for zero.\<close>

fun digits :: "byte \<Rightarrow> nat \<Rightarrow> nat \<Rightarrow> byte list" where
  "digits cbase b n =
     (if n = 0 \<or> b < 2 then [] else digits cbase b (n div b) @ [digit_char cbase (of_nat (n mod b))])"

declare digits.simps [simp del]

definition number_prefix :: "bool \<Rightarrow> u64 \<Rightarrow> byte \<Rightarrow> byte \<Rightarrow> byte list" where
  "number_prefix neg base flags cbase =
     (if base = 10 then
        if neg then [45] else if flags AND POSITIVE_SIGN \<noteq> 0 then [43]
        else if flags AND NO_SIGN_SPACE \<noteq> 0 then [32] else []
      else if base = 16 then [48, cbase - 65 + 88] else [])"

definition number_text :: "u64 \<Rightarrow> u64 \<Rightarrow> int \<Rightarrow> int \<Rightarrow> byte \<Rightarrow> byte \<Rightarrow> byte list" where
  "number_text val base sign precision flags cbase =
     (let neg = (sign = 1 \<and> base = 10 \<and> sint val < 0);
          ds = digits cbase (unat base) (unat (if neg then - val else val))
      in number_prefix neg base flags cbase @ replicate (nat precision - length ds) 48 @ ds)"

lemma digit_loop_digits:
  assumes "1 < base" "length buf \<le> 79"
  shows "digit_loop u base cb pos buf =
    (let ds = digits cb (unat base) (unat u)
     in if length ds + length buf \<le> 79 then Inr (pos + length ds, ds @ buf) else Inl OutOfBounds)"
  using assms
proof (induction u base cb pos buf rule: digit_loop.induct)
  case (1 u base cb pos buf)
  have b: "2 \<le> unat base" using 1(2) by (simp add: word_less_nat_alt)
  show ?case
  proof (cases "u = 0")
    case True
    then show ?thesis using 1(3) by (subst digit_loop.simps, subst digits.simps) simp
  next
    case False
    then have u: "unat u \<noteq> 0" by (simp add: unat_eq_0)
    have ds: "digits cb (unat base) (unat u) = digits cb (unat base) (unat (u div base)) @ [digit_char cb (u mod base)]"
      using u b by (subst digits.simps) (simp add: unat_div unat_mod flip: unat_mod)
    have b0: "base \<noteq> 0" using 1(2) by auto
    show ?thesis
    proof (cases "length buf < 79")
      case True
      then have pc: "push_char (digit_char cb (u mod base)) buf = Inr (digit_char cb (u mod base) # buf)"
        by (simp add: push_char_def PRINT_BUF_LEN_def)
      show ?thesis
        using 1(1) [OF False b0 pc 1(2)] True False b0 unfolding ds by (subst digit_loop.simps) (simp add: pc Let_def)
    next
      case nospace: False
      then show ?thesis
        using False b0 1(3) unfolding ds by (subst digit_loop.simps) (simp add: push_char_def PRINT_BUF_LEN_def Let_def)
    qed
  qed
qed

lemma zero_loop_zeros:
  assumes "length buf \<le> 79"
  shows "zero_loop p pos buf =
    (let k = nat p - pos in if k + length buf \<le> 79 then Inr (replicate k 48 @ buf) else Inl OutOfBounds)"
  using assms
proof (induction p pos buf rule: zero_loop.induct)
  case (1 p pos buf)
  show ?case
  proof (cases "int pos < p \<and> length buf < 79")
    case True
    then have pc: "push_char 48 buf = Inr (48 # buf)" and k: "nat p - pos = Suc (nat p - (pos + 1))"
      by (auto simp: push_char_def PRINT_BUF_LEN_def)
    show ?thesis
      using 1(1) [OF _ pc] True unfolding k
      by (subst zero_loop.simps) (simp add: pc Let_def replicate_append_same)
  next
    case False
    then show ?thesis
      using 1(2) by (subst zero_loop.simps) (auto simp: push_char_def PRINT_BUF_LEN_def Let_def)
  qed
qed

lemma push_prefix:
  assumes "length buf \<le> 79"
  shows "(if base = 10 then
            if neg then push_char 45 buf
            else if flags AND POSITIVE_SIGN \<noteq> 0 then push_char 43 buf
            else if flags AND NO_SIGN_SPACE \<noteq> 0 then push_char 32 buf
            else Inr buf
          else if base = 16 then rbind (push_char (cbase - 65 + 88) buf) (\<lambda>buf. push_char 48 buf)
          else Inr buf) =
    (let buf' = number_prefix neg base flags cbase @ buf in if length buf' \<le> 79 then Inr buf' else Inl OutOfBounds)"
  using assms by (auto simp: push_char_def PRINT_BUF_LEN_def number_prefix_def Let_def)

lemma printi_text:
  assumes "val \<noteq> 0" "1 < base"
  shows "printi val base sign width precision flags cbase stream s =
    (let text = number_text val base sign precision flags cbase
     in if length text \<le> 79 then Inr (prints text width (-1) flags stream s) else Inl OutOfBounds)"
proof -
  define neg where "neg \<longleftrightarrow> sign = 1 \<and> base = 10 \<and> sint val < 0"
  define ds where "ds = digits cbase (unat base) (unat (if neg then - val else val))"
  define zs where "zs = replicate (nat precision - length ds) (48::byte)"
  have dl: "digit_loop (if neg then - val else val) base cbase 0 [] = (if length ds \<le> 79 then Inr (length ds, ds) else Inl OutOfBounds)"
    using digit_loop_digits [OF assms(2), of "[]"] unfolding ds_def by (simp add: Let_def)
  have zl: "length ds \<le> 79 \<Longrightarrow> zero_loop precision (length ds) ds = (if length (zs @ ds) \<le> 79 then Inr (zs @ ds) else Inl OutOfBounds)"
    using zero_loop_zeros [of ds precision "length ds"] unfolding zs_def by (simp add: Let_def)
  show ?thesis
    unfolding printi_def number_text_def neg_def [symmetric] Let_def ds_def [symmetric] zs_def [symmetric] dl
    using assms(1) zl push_prefix [of "zs @ ds" base neg flags cbase]
    by (cases "length ds \<le> 79"; cases "length (zs @ ds) \<le> 79") (simp_all add: Let_def del: length_append split del: if_split, simp_all)
qed

text \<open>The conversion of a number in its 80-byte buffer is the padded text of the number: sign or
  \<open>0x\<close>, zeros up to the precision, digits; unless that text is longer than 79 bytes, when the buffer
  is written below its start. A precision from 80 on always is too long.\<close>

theorem printi_correct:
  assumes "val \<noteq> 0" "1 < base"
  shows "printi val base sign width precision flags cbase stream s =
    (let text = number_text val base sign precision flags cbase
     in if length text \<le> 79 then Inr (prints text width (-1) flags stream s) else Inl OutOfBounds)"
  by (rule printi_text [OF assms])

text \<open>\<open>-255\<close> in hexadecimal, as \<open>printf("%x")\<close> prints it, and a precision that is too large.\<close>

theorem printi_correct_witness:
  "printi (-255) 16 1 0 (-1) 0 97 app_stream [] = Inr (18, str ''0xffffffffffffff01'') \<and>
   printi 1 16 1 0 78 0 97 app_stream [] = Inl OutOfBounds"
proof -
  have d: "digits 97 16 18446744073709551361 = str ''ffffffffffffff01''" "digits 97 16 (Suc 0) = str ''1''"
    by (simp_all add: digits.simps digit_char_def str_def word_le_nat_alt)
  have "number_text (-255) 16 1 (-1) 0 97 = str ''0xffffffffffffff01''" "length (number_text 1 16 1 78 0 97) = 80"
    by (simp_all add: number_text_def number_prefix_def d str_def Let_def)
  then show ?thesis
    using printi_correct [of "-255" 16 1 0 "-1" 0 97 app_stream "[]"] printi_correct [of 1 16 1 0 78 0 97 app_stream "[]"]
    by (simp add: Let_def prints_spec justify_def str_def)
qed

subsection \<open>Decimal numbers\<close>

lemma digits_length: "n < b ^ k \<Longrightarrow> length (digits cb b n) \<le> k"
proof (induction k arbitrary: n)
  case 0
  then show ?case by (subst digits.simps) simp
next
  case (Suc k)
  show ?case
  proof (cases "n = 0 \<or> b < 2")
    case False
    then have "n div b < b ^ k" using Suc(2) by (simp add: less_mult_imp_div_less mult.commute)
    then show ?thesis using Suc(1) False by (subst digits.simps) simp
  qed (subst digits.simps, simp)
qed

lemma digit_char_decimal:
  assumes "m < 10"
  shows "unat (digit_char cb (of_nat m)) = m + 48" "is_digit (digit_char cb (of_nat m))"
proof -
  have "m = 0 \<or> m = 1 \<or> m = 2 \<or> m = 3 \<or> m = 4 \<or> m = 5 \<or> m = 6 \<or> m = 7 \<or> m = 8 \<or> m = 9"
    using assms by arith
  then show "unat (digit_char cb (of_nat m)) = m + 48" "is_digit (digit_char cb (of_nat m))"
    by (auto simp: digit_char_def is_digit_def word_le_nat_alt)
qed

lemma digits_decimal:
  "foldl (\<lambda>v d. 10 * v + (int (unat d) - 48)) 0 (digits cb 10 n) = int n"
  "\<forall>d \<in> set (digits cb 10 n). is_digit d"
proof (induction cb "10 :: nat" n rule: digits.induct)
  case (1 cb n)
  {
    case 1
    then show ?case
      using "1.hyps"(1) digit_char_decimal(1) [of "n mod 10" cb]
      by (subst digits.simps) (auto simp: zdiv_int zmod_int uint_nat simp del: of_nat_unat)
  next
    case 2
    then show ?case
      using "1.hyps"(2) digit_char_decimal(2) [of "n mod 10" cb] by (subst digits.simps) auto
  }
qed

lemma atoi_digits:
  assumes "\<forall>d \<in> set ds. is_digit d"
  shows "atoi ds = foldl (\<lambda>v d. 10 * v + (int (unat d) - 48)) 0 ds" "atoi (45 # ds) = - atoi ds"
proof -
  have nw: "\<not> (d = 32 \<or> 9 \<le> d \<and> d \<le> 13)" "d \<noteq> 45" "d \<noteq> 43" if "is_digit d" for d
    using that by (auto simp: is_digit_def word_le_nat_alt)
  have tw: "takeWhile is_digit xs = xs" if "\<forall>d \<in> set xs. is_digit d" for xs
    using that by (simp add: takeWhile_eq_all_conv)
  show a: "atoi ds = foldl (\<lambda>v d. 10 * v + (int (unat d) - 48)) 0 ds"
    using assms nw [of "hd ds"] by (cases ds) (auto simp: atoi_def Let_def tw)
  show "atoi (45 # ds) = - atoi ds"
    unfolding a using assms by (simp add: atoi_def Let_def tw)
qed

lemma number_text_decimal:
  assumes "flags AND POSITIVE_SIGN = 0" "flags AND NO_SIGN_SPACE = 0"
  shows "length (number_text val 10 1 (-1) flags 97) \<le> 21" "atoi (number_text val 10 1 (-1) flags 97) = sint val"
proof -
  have d: "number_text val 10 1 (-1) flags 97 =
      (if sint val < 0 then 45 # digits 97 10 (unat (- val)) else digits 97 10 (unat val))"
    using assms by (simp add: number_text_def number_prefix_def Let_def)
  have l: "length (digits 97 10 (unat (v :: u64))) \<le> 20" for v
    by (rule digits_length) (use unsigned_less [of v, where 'a = nat] in simp)
  show "length (number_text val 10 1 (-1) flags 97) \<le> 21"
    unfolding d using l [of val] l [of "- val"] by simp
  have "take_bit (Suc 63) (uint val) = uint val" using uint_bounded [of val] by (simp add: take_bit_int_eq_self)
  then have sv: "sint val = uint val - 2 ^ 64 * of_bool (bit (uint val) 63)"
    by (simp add: sint_uint signed_take_bit_eq_take_bit_minus)
  have "int (unat (- val)) = - sint val" if "sint val < 0"
  proof -
    have "uint val \<noteq> 0" using that by (metis sint_0 less_irrefl uint_0_eq word_uint_eqI)
    then have "int (unat (- val)) = 2 ^ 64 - uint val"
      by (simp add: uint_word_ariths zmod_zminus1_eq_if flip: uint_nat) (use uint_bounded [of val] in simp)
    moreover have "bit (uint val) 63" using sv that by (cases "bit (uint val) 63") simp_all
    ultimately show ?thesis using sv by simp
  qed
  moreover have "int (unat val) = sint val" if "\<not> sint val < 0"
    using sv that uint_bounded [of val] by (cases "bit (uint val) 63") simp_all
  ultimately show "atoi (number_text val 10 1 (-1) flags 97) = sint val"
    unfolding d using digits_decimal atoi_digits by simp
qed

subsection \<open>Formats\<close>

lemma prints_char: "prints [c] 0 1 0 app_stream out = (1, out @ [c])"
  by (simp add: prints_spec justify_def)

lemma vfprintf_plain:
  "37 \<notin> set pre \<Longrightarrow> vfprintf_loop mem app_stream (pre @ fmt) ap count out =
     vfprintf_loop mem app_stream fmt ap (count + of_nat (length pre)) (out @ pre)"
  by (induction pre arbitrary: count out) (auto simp: prints_char add_ac)

lemma conversion_ld:
  "\<exists>t. conversion mem (str ''ld'' @ post) [v] app_stream out = Inr (int (length t), post, [], out @ t) \<and>
     length t \<le> 21 \<and> atoi t = sint v"
proof -
  have c: "conversion mem (str ''ld'' @ post) [v] app_stream out =
      rbind (printi v 10 1 0 (-1) LONG 97 app_stream out) (\<lambda>(n, s). Inr (n, post, [], s))"
    by (simp add: conversion_def str_def take_flag_def fmt_char_def take_width_def take_precision_def take_length_def
        print_arg_def signed_arg_def va_arg_def print_flags rbind_assoc case_prod_unfold)
  have fl: "LONG AND POSITIVE_SIGN = 0" "LONG AND NO_SIGN_SPACE = 0" "LONG AND JUST_LEFT = 0"
    by (simp_all add: print_flags)
  show ?thesis
  proof (cases "v = 0")
    case True
    have "printi v 10 1 0 (-1) LONG 97 app_stream out = Inr (1, out @ [48])"
      unfolding printi_def True by (simp add: fl prints_spec justify_def Let_def)
    moreover have "atoi [48] = 0" by (simp add: atoi_def is_digit_def)
    ultimately show ?thesis using c True by (intro exI [of _ "[48]"]) simp
  next
    case False
    let ?t = "number_text v 10 1 (-1) LONG 97"
    note t = number_text_decimal [OF fl(1,2), of v]
    have "printi v 10 1 0 (-1) LONG 97 app_stream out = Inr (int (length ?t), out @ ?t)"
      using printi_text [OF False, of 10 1 0 "-1" LONG 97 app_stream out] t(1) fl(3) by (simp add: prints_spec justify_def Let_def)
    then show ?thesis unfolding c using t by (intro exI [of _ ?t]) simp
  qed
qed

lemma sint_of_nat_u32: "n < 2 ^ 31 \<Longrightarrow> sint (of_nat n :: u32) = int n"
  by (simp add: signed_of_nat signed_take_bit_int_eq_self)



end
