(* ===== verification/Counter.thy ===== *)
theory Counter
  imports EbbMgrProps
begin

text \<open>
  The counter Ebbs of \<open>misc/\<close>: one representative for all cores (\<open>CtrPrim.c\<close>), or one per core
  whose sum is the value (\<open>CtrPrimDistributed.c\<close>). Both have the functions \<open>inc\<close>, \<open>dec\<close> and
  \<open>val\<close>, numbers 0 to 2.
\<close>

record ctr_state = ebbmgr_state +
  ctr_v :: "u64 \<Rightarrow> u64"
  ctr_localValue :: "u64 \<Rightarrow> u64"
  ctr_theRoot :: "u64 \<Rightarrow> u64"

definition sizeof_EBBCtrPrim :: u64 where "sizeof_EBBCtrPrim = 24"
definition sizeof_EBBCtrPrimDistributed :: u64 where "sizeof_EBBCtrPrimDistributed = 24"

subsection \<open>The shared counter\<close>

definition EBBCtrPrimSetFT :: "u64 \<Rightarrow> 'z ctr_state_scheme \<Rightarrow> 'z ctr_state_scheme" where
  "EBBCtrPrimSetFT a s = s\<lparr>repft := (repft s)(a := FT_Ctr)\<rparr>"

definition EBBCtrPrim_init :: "u64 \<Rightarrow> 'z ctr_state_scheme \<Rightarrow> ebbrc \<times> 'z ctr_state_scheme" where
  "EBBCtrPrim_init self s = (EBBRC_OK, s\<lparr>ctr_v := (ctr_v s)(self := 0)\<rparr>)"

definition EBBCtrPrim_inc :: "u64 \<Rightarrow> 'z ctr_state_scheme \<Rightarrow> ebbrc \<times> 'z ctr_state_scheme" where
  "EBBCtrPrim_inc self s = (EBBRC_OK, s\<lparr>ctr_v := (ctr_v s)(self := ctr_v s self + 1)\<rparr>)"

definition EBBCtrPrim_dec :: "u64 \<Rightarrow> 'z ctr_state_scheme \<Rightarrow> ebbrc \<times> 'z ctr_state_scheme" where
  "EBBCtrPrim_dec self s = (EBBRC_OK, s\<lparr>ctr_v := (ctr_v s)(self := ctr_v s self - 1)\<rparr>)"

definition EBBCtrPrim_val :: "u64 \<Rightarrow> 'z ctr_state_scheme \<Rightarrow> ebbrc \<times> u64" where
  "EBBCtrPrim_val self s = (EBBRC_OK, ctr_v s self)"

text \<open>\<open>repRef\<close> and \<open>rootRef\<close> are the addresses of the function's static variables.\<close>

definition EBBCtrPrimStaticSharedCreate ::
    "'z ctr_state_scheme callmf \<Rightarrow> nat \<Rightarrow> u64 \<Rightarrow> u64 \<Rightarrow> 'z ctr_state_scheme \<Rightarrow>
     (ebbrc \<times> u64 \<times> 'z ctr_state_scheme) res" where
  "EBBCtrPrimStaticSharedCreate callmf myid repRef rootRef s =
     (let s = CObjEBBRootSharedSetFT rootRef s;
          s = EBBCtrPrimSetFT repRef s;
          (_, s) = EBBCtrPrim_init repRef s;
          s = CObjEBBRootSharedImp_init rootRef repRef s
      in rbind (EBBAllocPrimId callmf myid s) (\<lambda>(rc, i, s).
         rbind (lrt_assert (EBBRC_SUCCESS rc)) (\<lambda>_.
         rbind (CObjEBBBind callmf myid i rootRef s) (\<lambda>(rc, s).
         rbind (lrt_assert (EBBRC_SUCCESS rc)) (\<lambda>_.
         Inr (rc, i, s))))))"

definition EBBCtrPrimSharedCreate ::
    "'z ctr_state_scheme callmf \<Rightarrow> 'z ctr_state_scheme malloc \<Rightarrow> nat \<Rightarrow> 'z ctr_state_scheme \<Rightarrow>
     (ebbrc \<times> u64 \<times> 'z ctr_state_scheme) res" where
  "EBBCtrPrimSharedCreate callmf malloc myid s =
     rbind (malloc myid sizeof_EBBCtrPrim s) (\<lambda>(rc, repRef, s).
     if repRef = 0 then Inl NullDeref
     else
       let s = EBBCtrPrimSetFT repRef s;
           (_, s) = EBBCtrPrim_init repRef s
       in rbind (CObjEBBRootSharedCreate malloc myid repRef s) (\<lambda>(rc, rootRef, s).
          rbind (lrt_assert (EBBRC_SUCCESS rc)) (\<lambda>_.
          rbind (EBBAllocPrimId callmf myid s) (\<lambda>(rc, i, s).
          rbind (lrt_assert (EBBRC_SUCCESS rc)) (\<lambda>_.
          rbind (CObjEBBBind callmf myid i rootRef s) (\<lambda>(rc, s).
          rbind (lrt_assert (EBBRC_SUCCESS rc)) (\<lambda>_.
          Inr (rc, i, s))))))))"

subsection \<open>The distributed counter\<close>

definition EBBCtrPrimDistributedSetFT :: "u64 \<Rightarrow> 'z ctr_state_scheme \<Rightarrow> 'z ctr_state_scheme" where
  "EBBCtrPrimDistributedSetFT a s = s\<lparr>repft := (repft s)(a := FT_CtrPrimDistributed)\<rparr>"

definition EBBCtrPrimDistributed_inc :: "u64 \<Rightarrow> 'z ctr_state_scheme \<Rightarrow> ebbrc \<times> 'z ctr_state_scheme" where
  "EBBCtrPrimDistributed_inc self s =
     (EBBRC_OK, s\<lparr>ctr_localValue := (ctr_localValue s)(self := ctr_localValue s self + 1)\<rparr>)"

definition EBBCtrPrimDistributed_dec :: "u64 \<Rightarrow> 'z ctr_state_scheme \<Rightarrow> ebbrc \<times> 'z ctr_state_scheme" where
  "EBBCtrPrimDistributed_dec self s =
     (EBBRC_OK, s\<lparr>ctr_localValue := (ctr_localValue s)(self := ctr_localValue s self - 1)\<rparr>)"

partial_function (option) val_loop :: "u64 \<Rightarrow> u64 \<times> u64 \<Rightarrow> u64 \<Rightarrow> 'z ctr_state_scheme \<Rightarrow> u64 option" where
  "val_loop root cur val s =
     (let (node, rep) = cur
      in if node \<noteq> 0 then val_loop root (CObjEBBRootMulti_nextRep root node s) (val + ctr_localValue s rep) s
         else Some val)"

definition EBBCtrPrimDistributed_val :: "u64 \<Rightarrow> 'z ctr_state_scheme \<Rightarrow> (ebbrc \<times> u64) res" where
  "EBBCtrPrimDistributed_val self s =
     (let root = ctr_theRoot s self
      in case val_loop root (CObjEBBRootMulti_nextRep root 0 s) 0 s of
           None \<Rightarrow> Inl Diverges
         | Some v \<Rightarrow> Inr (EBBRC_OK, v))"

definition EBBCtrPrimDistributed_createRep ::
    "'z ctr_state_scheme malloc \<Rightarrow> nat \<Rightarrow> u64 \<Rightarrow> 'z ctr_state_scheme \<Rightarrow> (u64 \<times> 'z ctr_state_scheme) res" where
  "EBBCtrPrimDistributed_createRep malloc myid self s =
     rbind (malloc myid sizeof_EBBCtrPrimDistributed s) (\<lambda>(rc, a, s).
     if a = 0 then Inl NullDeref
     else
       let s = EBBCtrPrimDistributedSetFT a s;
           s = s\<lparr>ctr_theRoot := (ctr_theRoot s)(a := self)\<rparr>
       in Inr (a, s\<lparr>ctr_localValue := (ctr_localValue s)(a := 0)\<rparr>))"

definition EBBCtrPrimDistributedCreate ::
    "'z ctr_state_scheme callmf \<Rightarrow> 'z ctr_state_scheme malloc \<Rightarrow> nat \<Rightarrow> 'z ctr_state_scheme \<Rightarrow>
     (ebbrc \<times> u64 \<times> 'z ctr_state_scheme) res" where
  "EBBCtrPrimDistributedCreate callmf malloc myid s =
     rbind (CObjEBBRootMultiImpCreate malloc myid CtrPrimDistributed_createRep_fp s) (\<lambda>(rc, root, s).
     rbind (lrt_assert (EBBRC_SUCCESS rc)) (\<lambda>_.
     rbind (EBBAllocPrimId callmf myid s) (\<lambda>(rc, i, s).
     rbind (lrt_assert (EBBRC_SUCCESS rc)) (\<lambda>_.
     rbind (CObjEBBBind callmf myid i root s) (\<lambda>(rc, s).
     rbind (lrt_assert (EBBRC_SUCCESS rc)) (\<lambda>_.
     Inr (EBBRC_OK, i, s)))))))"

text \<open>The \<open>createRep\<close> functions, with that of the counter.\<close>

definition ctr_createReps ::
    "'z ctr_state_scheme malloc \<Rightarrow> 'z ctr_state_scheme callcr \<Rightarrow> 'z ctr_state_scheme callcr" where
  "ctr_createReps malloc other cr myid root s =
     (case cr of
        CtrPrimDistributed_createRep_fp \<Rightarrow> EBBCtrPrimDistributed_createRep malloc myid root s
      | _ \<Rightarrow> ebbmgr_createReps malloc other cr myid root s)"

subsection \<open>Calls of a counter\<close>

text \<open>The function that a call reaches, by the function table of the representative.\<close>

definition ctr_fn :: "fn \<Rightarrow> u64 \<Rightarrow> 'z ctr_state_scheme \<Rightarrow> (ebbrc \<times> u64 \<times> 'z ctr_state_scheme) res" where
  "ctr_fn f r s =
     (if f = Method FT_Ctr 0 then (case EBBCtrPrim_inc r s of (rc, s) \<Rightarrow> Inr (rc, 0, s))
      else if f = Method FT_Ctr 1 then (case EBBCtrPrim_dec r s of (rc, s) \<Rightarrow> Inr (rc, 0, s))
      else if f = Method FT_Ctr 2 then (case EBBCtrPrim_val r s of (rc, v) \<Rightarrow> Inr (rc, v, s))
      else if f = Method FT_CtrPrimDistributed 0 then (case EBBCtrPrimDistributed_inc r s of (rc, s) \<Rightarrow> Inr (rc, 0, s))
      else if f = Method FT_CtrPrimDistributed 1 then (case EBBCtrPrimDistributed_dec r s of (rc, s) \<Rightarrow> Inr (rc, 0, s))
      else if f = Method FT_CtrPrimDistributed 2 then
        rbind (EBBCtrPrimDistributed_val r s) (\<lambda>(rc, v). Inr (rc, v, s))
      else Inl NullDeref)"

definition ctr_call ::
    "'z ctr_state_scheme callmf \<Rightarrow> nat \<Rightarrow> u64 \<Rightarrow> nat \<Rightarrow> 'z ctr_state_scheme \<Rightarrow>
     (ebbrc \<times> u64 \<times> 'z ctr_state_scheme) res" where
  "ctr_call callmf myid i n s =
     rbind (EBBCALL callmf myid i n s) (\<lambda>(c, s).
     case c of Failed rc \<Rightarrow> Inr (rc, 0, s) | Called f r \<Rightarrow> ctr_fn f r s)"

text \<open>A run of calls, each by a core: \<open>True\<close> increments, \<open>False\<close> decrements.\<close>

fun ctr_run ::
    "'z ctr_state_scheme callmf \<Rightarrow> u64 \<Rightarrow> (nat \<times> bool) list \<Rightarrow> 'z ctr_state_scheme \<Rightarrow> 'z ctr_state_scheme res" where
  "ctr_run callmf i [] s = Inr s"
| "ctr_run callmf i ((p, up) # ops) s =
     rbind (ctr_call callmf p i (if up then 0 else 1) s) (\<lambda>(rc, _, s).
     rbind (lrt_assert (EBBRC_SUCCESS rc)) (\<lambda>_. ctr_run callmf i ops s))"

end
