(* ===== verification/CounterProps.thy ===== *)
theory CounterProps
  imports Counter
begin

text \<open>
  The distributed counter refines an atomic one: its representatives, wherever the calls come
  from, add up to the number of increments less the number of decrements.
\<close>

subsection \<open>The representatives of the counter\<close>

definition ctr_view :: "'z ctr_state_scheme \<Rightarrow> (u64 \<Rightarrow> u64) \<times> (u64 \<Rightarrow> u64)" where
  "ctr_view s = (ctr_localValue s, ctr_theRoot s)"

definition ctr_new :: "u64 \<Rightarrow> u64 \<Rightarrow> (u64 \<Rightarrow> u64) \<times> (u64 \<Rightarrow> u64) \<Rightarrow> (u64 \<Rightarrow> u64) \<times> (u64 \<Rightarrow> u64)" where
  "ctr_new root r = (\<lambda>(l, t). (l(r := 0), t(r := root)))"

lemma ctr_more: "mem_state.more s' = mem_state.more s \<Longrightarrow> ctr_view s' = ctr_view s"
  by (cases s; cases s') (simp add: ctr_view_def)

lemma ctr_maker:
  fixes root :: u64
  assumes f: "mem_funds mm p k s" and k: "24 \<le> k"
  defines "a \<equiv> stupid_mem (stupid_rep s (mem_rep s p))"
  shows "\<exists>s'. EBBCtrPrimDistributed_createRep (EBBPrimMalloc Stupid callmf) p root s = Inr (a, s') \<and>
    a \<noteq> 0 \<and> a \<in> mem_avail s \<and> a \<notin> mem_avail s' \<and> mem_avail s' \<subseteq> mem_avail s \<and> same_roots s s' \<and>
    repft s' a = FT_CtrPrimDistributed \<and> (\<forall>b. b \<notin> mem_avail s \<longrightarrow> repft s' b = repft s b) \<and>
    ctr_view s' = ctr_new root a (ctr_view s) \<and>
    mem_funds mm p (k - 24) s' \<and> (\<forall>q j. q \<noteq> p \<longrightarrow> mem_funds mm q j s \<longrightarrow> mem_funds mm q j s')"
proof -
  let ?n = sizeof_EBBCtrPrimDistributed
  define t where "t = bump_by ?n p s"
  define s' where "s' = t\<lparr>repft := (repft s)(a := FT_CtrPrimDistributed), ctr_theRoot := (ctr_theRoot s)(a := root),
    ctr_localValue := (ctr_localValue s)(a := 0)\<rparr>"
  have n: "0 < unat ?n" "unat ?n \<le> k" "unat ?n = 24" using k by (simp_all add: sizeof_EBBCtrPrimDistributed_def)
  have tv: "ctr_theRoot t = ctr_theRoot s" "ctr_localValue t = ctr_localValue s" "repft t = repft s"
    by (simp_all add: t_def bump_by_def Let_def)
  have sr: "same_roots (bump_by ?n p s) s'"
    by (simp add: s'_def t_def same_roots_def root_state.defs)
  note m = made_object [OF f n(1,2), of s', folded a_def, OF _ _ _ sr, unfolded n(3)]
  have "EBBCtrPrimDistributed_createRep (EBBPrimMalloc Stupid callmf) p root s = Inr (a, s')"
    using bump_malloc [OF f n(2), of callmf] bump_avail [OF f n(1,2)] tv
    by (simp add: EBBCtrPrimDistributed_createRep_def EBBCtrPrimDistributedSetFT_def Let_def a_def s'_def t_def)
  moreover have "repft s' a = FT_CtrPrimDistributed" "ctr_view s' = ctr_new root a (ctr_view s)"
    by (simp_all add: s'_def ctr_view_def ctr_new_def)
  ultimately show ?thesis using m by (intro exI [of _ s']) (simp add: s'_def t_def)
qed

interpretation dctr: rep_maker "EBBPrimMalloc Stupid callmf" mm mem_avail "mem_funds mm" mem_state.more
    "ctr_createReps (EBBPrimMalloc Stupid callmf) other" CtrPrimDistributed_createRep_fp root 24 FT_CtrPrimDistributed
    ctr_view "ctr_new root"
  for callmf mm other root
proof
  fix p k and s :: "'a ctr_state_scheme"
  assume f: "mem_funds mm p k s" "24 \<le> k"
  have "ctr_createReps (EBBPrimMalloc Stupid callmf) other CtrPrimDistributed_createRep_fp p root s =
      EBBCtrPrimDistributed_createRep (EBBPrimMalloc Stupid callmf) p root s"
    by (simp add: ctr_createReps_def)
  then show "\<exists>r s'. ctr_createReps (EBBPrimMalloc Stupid callmf) other CtrPrimDistributed_createRep_fp p root s = Inr (r, s') \<and>
      r \<noteq> 0 \<and> r \<in> mem_avail s \<and> r \<notin> mem_avail s' \<and> mem_avail s' \<subseteq> mem_avail s \<and> same_roots s s' \<and>
      repft s' r = FT_CtrPrimDistributed \<and> (\<forall>b. b \<notin> mem_avail s \<longrightarrow> repft s' b = repft s b) \<and>
      ctr_view s' = ctr_new root r (ctr_view s) \<and>
      mem_funds mm p (k - 24) s' \<and> (\<forall>q j. q \<noteq> p \<longrightarrow> mem_funds mm q j s \<longrightarrow> mem_funds mm q j s')"
    using ctr_maker [OF f, of callmf root] by metis
next
  fix s' s :: "'a ctr_state_scheme"
  assume "mem_state.more s' = mem_state.more s"
  then show "ctr_view s' = ctr_view s" by (rule ctr_more)
qed simp

subsection \<open>The abstraction\<close>

definition ctr_total :: "(nat \<Rightarrow> u64 option) \<Rightarrow> 'z ctr_state_scheme \<Rightarrow> u64" where
  "ctr_total f s = (\<Sum>p \<in> dom f. ctr_localValue s (the (f p)))"

definition dist_ok ::
    "nat \<Rightarrow> u64 \<Rightarrow> u64 list \<Rightarrow> (nat \<Rightarrow> u64 option) \<Rightarrow> 'z ctr_state_scheme \<Rightarrow> bool" where
  "dist_ok k root as f s \<longleftrightarrow>
     ebb_ok k root CtrPrimDistributed_createRep_fp FT_CtrPrimDistributed mem_avail as f s \<and>
     (\<forall>p r. f p = Some r \<longrightarrow> ctr_theRoot s r = root)"

lemma ebb_okD:
  assumes "ebb_ok k root cr ft av as f s"
  shows "finite (dom f)" "inj_on f (dom f)" "chain (repnode s) (rm_head (multi s root)) as"
    "f = map_of (map (node_entry (repnode s)) as)" "distinct (map (node_el \<circ> repnode s) as)"
proof -
  note a = assms [unfolded ebb_ok_def]
  show f: "f = map_of (map (node_entry (repnode s)) as)" using a by metis
  show "finite (dom f)" unfolding f by (rule finite_dom_map_of)
  show "inj_on f (dom f)" "chain (repnode s) (rm_head (multi s root)) as" "distinct (map (node_el \<circ> repnode s) as)"
    using a by blast+
qed

lemma ebb_ok_ctr_sel:
  "TransMem (s\<lparr>ctr_localValue := l\<rparr>) = TransMem s" "gtab (s\<lparr>ctr_localValue := l\<rparr>) = gtab s"
  "ltab (s\<lparr>ctr_localValue := l\<rparr>) = ltab s" "root_ft (s\<lparr>ctr_localValue := l\<rparr>) = root_ft s"
  "multi (s\<lparr>ctr_localValue := l\<rparr>) = multi s" "repnode (s\<lparr>ctr_localValue := l\<rparr>) = repnode s"
  by simp_all

lemma ebb_ok_ctr:
  "ebb_ok k root cr ft mem_avail as f (s\<lparr>ctr_localValue := l\<rparr>) = ebb_ok k root cr ft mem_avail as f s"
proof -
  have a: "mem_avail (s\<lparr>ctr_localValue := l\<rparr>) = mem_avail s" by (rule mem_avail_fields) simp_all
  have b: "rep_ft (s\<lparr>ctr_localValue := l\<rparr>) r = rep_ft s r" for r by (rule rep_ft_cong) simp_all
  have c: "uncached (s\<lparr>ctr_localValue := l\<rparr>) q k = uncached s q k" for q by (simp add: uncached_def)
  show ?thesis unfolding ebb_ok_def ebb_ok_ctr_sel a b c ..
qed

lemma sum_upd_at:
  fixes h :: "u64 \<Rightarrow> u64"
  assumes "finite D" "p \<in> D" "inj_on g D"
  shows "(\<Sum>q\<in>D. (h(g p := x)) (g q)) = (\<Sum>q\<in>D. h (g q)) - h (g p) + x"
proof -
  have "(\<Sum>q\<in>D - {p}. (h(g p := x)) (g q)) = (\<Sum>q\<in>D - {p}. h (g q))"
    using assms(2,3) by (intro sum.cong) (auto simp: inj_on_def)
  then show ?thesis
    using sum.remove [OF assms(1,2), of "\<lambda>q. (h(g p := x)) (g q)"] sum.remove [OF assms(1,2), of "\<lambda>q. h (g q)"] by simp
qed

lemma inj_the: "inj_on f (dom f) \<Longrightarrow> inj_on (\<lambda>p. the (f p)) (dom f)"
  by (auto simp: inj_on_def dom_def)

text \<open>Making a representative leaves the total as it is.\<close>

lemma ctr_total_new:
  assumes ok: "ebb_ok k root cr ft av as (f(p \<mapsto> r)) s'" and p: "f p = None"
    and v: "ctr_view s' = ctr_new root r (ctr_view s)"
  shows "ctr_total (f(p \<mapsto> r)) s' = ctr_total f s"
proof -
  have l: "ctr_localValue s' = (ctr_localValue s)(r := 0)" using v by (simp add: ctr_view_def ctr_new_def)
  note D = ebb_okD [OF ok]
  have fin: "finite (dom f)" using D(1) by simp
  have ne: "the (f q) \<noteq> r" if "q \<in> dom f" for q
  proof
    assume "the (f q) = r"
    moreover have "q \<noteq> p" using that p by auto
    ultimately have "(f(p \<mapsto> r)) q = (f(p \<mapsto> r)) p" "q \<in> dom (f(p \<mapsto> r))" "p \<in> dom (f(p \<mapsto> r))" using that by auto
    then show False using inj_onD [OF D(2)] \<open>q \<noteq> p\<close> by blast
  qed
  have "ctr_total (f(p \<mapsto> r)) s' = ctr_localValue s' r + (\<Sum>q\<in>dom f - {p}. ctr_localValue s' (the ((f(p \<mapsto> r)) q)))"
    using fin by (simp add: ctr_total_def sum.insert_remove)
  also have "(\<Sum>q\<in>dom f - {p}. ctr_localValue s' (the ((f(p \<mapsto> r)) q))) = (\<Sum>q\<in>dom f. ctr_localValue s (the (f q)))"
    using p ne l by (intro sum.cong) auto
  also have "ctr_localValue s' r = 0" using l by simp
  finally show ?thesis unfolding ctr_total_def [of f s] by (simp only: add_0_left)
qed

text \<open>The miss functions of a program with counters.\<close>

definition ctr_miss ::
    "'z ctr_state_scheme callmf \<Rightarrow> 'z ctr_state_scheme callcr \<Rightarrow> 'z ctr_state_scheme callmf \<Rightarrow> 'z ctr_state_scheme callmf" where
  "ctr_miss boot other mother =
     miss_functions (ctr_createReps (EBBPrimMalloc Stupid boot) other) (EBBPrimMalloc Stupid boot) mother"

lemma ctr_fn_step:
  "ctr_fn (Method FT_CtrPrimDistributed (if up then 0 else 1)) r s =
     Inr (EBBRC_OK, 0, s\<lparr>ctr_localValue := (ctr_localValue s)(r := ctr_localValue s r + (if up then 1 else -1))\<rparr>)"
  by (cases up) (simp_all only: ctr_fn_def EBBCtrPrimDistributed_inc_def EBBCtrPrimDistributed_dec_def if_True if_False fn.inject ftname.distinct simp_thms prod.case one_neq_zero zero_neq_one diff_conv_add_uminus)

text \<open>A call reaches the core's own representative; making it does not change the value.\<close>

lemma ctr_enter:
  assumes ok: "dist_ok k root as f s" and p: "p < LRT_PIC_MAX_PICS" and k: "k < num_ids" "k \<noteq> mm"
    and n: "n < EBB_TRANS_MAX_FUNCS" and funds: "f p = None \<Longrightarrow> mem_funds mm p 48 s"
  shows "\<exists>r as' s'. EBBCALL (ctr_miss boot other mother) p (id_of (TransMem s) k) n s =
      Inr (Called (Method FT_CtrPrimDistributed n) r, s') \<and>
    dist_ok k root as' (f(p \<mapsto> r)) s' \<and> ctr_total (f(p \<mapsto> r)) s' = ctr_total f s \<and> TransMem s' = TransMem s \<and>
    (\<forall>q j. q \<noteq> p \<longrightarrow> mem_funds mm q j s \<longrightarrow> mem_funds mm q j s')"
proof -
  have e: "ebb_ok k root CtrPrimDistributed_createRep_fp FT_CtrPrimDistributed mem_avail as f s"
    using ok by (simp add: dist_ok_def)
  have "f p = None \<Longrightarrow> mem_funds mm p (24 + 24) s" using funds by simp
  from dctr.call_dispatches [OF e p k n this, of boot other mother] obtain r as' s1 where
    c: "EBBCALL (ctr_miss boot other mother) p (id_of (TransMem s) k) n s = Inr (Called (Method FT_CtrPrimDistributed n) r, s1)"
    and fp: "f p = Some r \<or> f p = None"
    and ok1: "ebb_ok k root CtrPrimDistributed_createRep_fp FT_CtrPrimDistributed mem_avail as' (f(p \<mapsto> r)) s1"
    and tm: "TransMem s1 = TransMem s"
    and v: "ctr_view s1 = (if f p = None then ctr_new root r (ctr_view s) else ctr_view s)"
    and keep: "\<forall>q j. q \<noteq> p \<longrightarrow> mem_funds mm q j s \<longrightarrow> mem_funds mm q j s1"
    unfolding ctr_miss_def by blast
  have "ctr_theRoot s1 r' = root" if "(f(p \<mapsto> r)) q = Some r'" for q r'
    using v ok fp that by (cases "f p = None") (auto simp: dist_ok_def ctr_view_def ctr_new_def split: if_splits)
  then have "dist_ok k root as' (f(p \<mapsto> r)) s1" using ok1 by (simp add: dist_ok_def)
  moreover have "ctr_total (f(p \<mapsto> r)) s1 = ctr_total f s"
  proof (cases "f p")
    case None
    then show ?thesis using ctr_total_new [OF ok1 None, of s] v by simp
  next
    case (Some r')
    then have "f(p \<mapsto> r) = f" "ctr_view s1 = ctr_view s" using fp v by auto
    then show ?thesis by (simp add: ctr_total_def ctr_view_def)
  qed
  ultimately show ?thesis using c tm keep by (intro exI [of _ r] exI [of _ as'] exI [of _ s1] conjI)
qed

lemma ctr_step:
  assumes ok: "dist_ok k root as f s" and p: "p < LRT_PIC_MAX_PICS" and k: "k < num_ids" "k \<noteq> mm"
    and funds: "f p = None \<Longrightarrow> mem_funds mm p 48 s"
  shows "\<exists>as' f' s'. ctr_call (ctr_miss boot other mother) p (id_of (TransMem s) k) (if up then 0 else 1) s = Inr (EBBRC_OK, 0, s') \<and>
    dist_ok k root as' f' s' \<and> dom f' = insert p (dom f) \<and> TransMem s' = TransMem s \<and>
    ctr_total f' s' = ctr_total f s + (if up then 1 else -1) \<and>
    (\<forall>q j. q \<noteq> p \<longrightarrow> mem_funds mm q j s \<longrightarrow> mem_funds mm q j s')"
proof -
  let ?n = "if up then 0 else 1 :: nat" and ?d = "if up then 1 else -1 :: u64"
  have n: "?n < EBB_TRANS_MAX_FUNCS" by (simp add: EBB_TRANS_MAX_FUNCS_def)
  from ctr_enter [OF ok p k n funds, of boot other mother] obtain r as' s1 where
    c: "EBBCALL (ctr_miss boot other mother) p (id_of (TransMem s) k) ?n s = Inr (Called (Method FT_CtrPrimDistributed ?n) r, s1)"
    and ok1: "dist_ok k root as' (f(p \<mapsto> r)) s1" and t: "ctr_total (f(p \<mapsto> r)) s1 = ctr_total f s"
    and tm: "TransMem s1 = TransMem s" and keep: "\<forall>q j. q \<noteq> p \<longrightarrow> mem_funds mm q j s \<longrightarrow> mem_funds mm q j s1"
    by blast
  let ?f = "f(p \<mapsto> r)"
  let ?s = "s1\<lparr>ctr_localValue := (ctr_localValue s1)(r := ctr_localValue s1 r + ?d)\<rparr>"
  have "ctr_call (ctr_miss boot other mother) p (id_of (TransMem s) k) ?n s = Inr (EBBRC_OK, 0, ?s)"
    unfolding ctr_call_def c rbind_simps prod.case call_result.case by (rule ctr_fn_step)
  moreover have "dist_ok k root as' ?f ?s" using ok1 by (simp add: dist_ok_def ebb_ok_ctr)
  moreover have "ctr_total ?f ?s = ctr_total f s + ?d"
  proof -
    have D: "finite (dom ?f)" "inj_on ?f (dom ?f)" using ok1 ebb_okD(1,2) unfolding dist_ok_def by blast+
    show ?thesis
      using sum_upd_at [OF D(1) _ inj_the [OF D(2)], of p "ctr_localValue s1" "ctr_localValue s1 r + ?d"] t
      unfolding ctr_total_def by simp
  qed
  moreover have "mem_funds mm q j ?s" if "q \<noteq> p" "mem_funds mm q j s" for q j
    by (rule mem_funds_fields [of _ _ _ s1]) (use keep that in simp_all)
  ultimately show ?thesis
    using tm by (intro exI [of _ as'] exI [of _ ?f] exI [of _ ?s]) simp
qed

subsection \<open>Reading the value\<close>

lemma val_loop_chain:
  assumes "a \<noteq> 0" "chain (repnode s) (node_next (repnode s a)) bs"
  shows "val_loop root (a, node_rep (repnode s a)) v s =
    Some (v + (\<Sum>b\<leftarrow>a # bs. ctr_localValue s (node_rep (repnode s b))))"
  using assms
proof (induction bs arbitrary: a v)
  case Nil
  then show ?case
    using nextRep_next [OF Nil] by (subst val_loop.simps) (simp add: val_loop.simps)
next
  case (Cons b bs)
  then have b: "b \<noteq> 0" "chain (repnode s) (node_next (repnode s b)) bs" by auto
  show ?case
    using nextRep_next [OF Cons.prems] Cons.IH [OF b] Cons.prems(1) by (subst val_loop.simps) (simp add: add_ac)
qed

lemma val_total:
  assumes ok: "dist_ok k root as f s" and r: "f p = Some r"
  shows "EBBCtrPrimDistributed_val r s = Inr (EBBRC_OK, ctr_total f s)"
proof -
  have e: "ebb_ok k root CtrPrimDistributed_createRep_fp FT_CtrPrimDistributed mem_avail as f s"
    and rt: "ctr_theRoot s r = root" using ok r by (simp_all add: dist_ok_def)
  note D = ebb_okD [OF e]
  have "as \<noteq> []" using D(4) r by (cases as) auto
  then obtain a bs where as: "as = a # bs" by (cases as) auto
  have a: "a \<noteq> 0" "chain (repnode s) (node_next (repnode s a)) bs" "rm_head (multi s root) = a" using D(3) as by auto
  have "CObjEBBRootMulti_nextRep root 0 s = (a, node_rep (repnode s a))"
    using nextRep_first [OF D(3)] as by simp
  then have "EBBCtrPrimDistributed_val r s = Inr (EBBRC_OK, \<Sum>b\<leftarrow>as. ctr_localValue s (node_rep (repnode s b)))"
    using val_loop_chain [OF a(1,2), of root 0] rt as by (simp add: EBBCtrPrimDistributed_val_def)
  also have "(\<Sum>b\<leftarrow>as. ctr_localValue s (node_rep (repnode s b))) = ctr_total f s"
  proof -
    have k: "map fst (map (node_entry (repnode s)) as) = map (node_el \<circ> repnode s) as" by (simp add: node_entry_def)
    have dom: "dom f = set (map (node_el \<circ> repnode s) as)"
      unfolding D(4) dom_map_of_conv_image_fst set_map [symmetric] k ..
    have f: "f (node_el (repnode s b)) = Some (node_rep (repnode s b))" if "b \<in> set as" for b
    proof -
      have "(node_el (repnode s b), node_rep (repnode s b)) \<in> set (map (node_entry (repnode s)) as)"
        using that by (force simp: node_entry_def)
      moreover have "distinct (map fst (map (node_entry (repnode s)) as))" unfolding k by (rule D(5))
      ultimately show ?thesis unfolding D(4) by (rule map_of_is_SomeI [rotated])
    qed
    have "ctr_total f s = (\<Sum>q\<leftarrow>map (node_el \<circ> repnode s) as. ctr_localValue s (the (f q)))"
      unfolding ctr_total_def dom by (rule sum_list_distinct_conv_sum_set [OF D(5), symmetric])
    also have "\<dots> = (\<Sum>b\<leftarrow>as. ctr_localValue s (node_rep (repnode s b)))"
      unfolding map_map by (rule arg_cong [where f = sum_list], rule map_cong [OF refl]) (simp add: f)
    finally show ?thesis by simp
  qed
  finally show ?thesis .
qed

subsection \<open>Runs\<close>

text \<open>The atomic counter.\<close>

definition ctr_spec :: "(nat \<times> bool) list \<Rightarrow> u64 \<Rightarrow> u64" where
  "ctr_spec ops v = fold (\<lambda>(p, up) v. v + (if up then 1 else -1)) ops v"

lemma ctr_run_ok:
  assumes "dist_ok k root as f s" "\<forall>(p, up) \<in> set ops. p < LRT_PIC_MAX_PICS" "k < num_ids" "k \<noteq> mm"
    "\<forall>p \<in> P \<union> fst ` set ops. f p = None \<longrightarrow> mem_funds mm p 48 s"
  shows "\<exists>as' f' s'. ctr_run (ctr_miss boot other mother) (id_of (TransMem s) k) ops s = Inr s' \<and>
    dist_ok k root as' f' s' \<and> TransMem s' = TransMem s \<and> ctr_total f' s' = ctr_spec ops (ctr_total f s) \<and>
    (\<forall>p \<in> P. f' p = None \<longrightarrow> mem_funds mm p 48 s')"
  using assms
proof (induction ops arbitrary: as f s)
  case Nil
  then show ?case by (auto simp: ctr_spec_def)
next
  case (Cons op ops)
  obtain p up where op: "op = (p, up)" by (cases op)
  have p: "p < LRT_PIC_MAX_PICS" "f p = None \<Longrightarrow> mem_funds mm p 48 s" using Cons.prems(2,5) op by auto
  from ctr_step [OF Cons.prems(1) p(1) Cons.prems(3,4) p(2), of boot other mother up]
  obtain as1 f1 s1 where c: "ctr_call (ctr_miss boot other mother) p (id_of (TransMem s) k) (if up then 0 else 1) s = Inr (EBBRC_OK, 0, s1)"
    "dist_ok k root as1 f1 s1" "dom f1 = insert p (dom f)" "TransMem s1 = TransMem s"
    "ctr_total f1 s1 = ctr_total f s + (if up then 1 else -1)"
    "\<forall>q j. q \<noteq> p \<longrightarrow> mem_funds mm q j s \<longrightarrow> mem_funds mm q j s1" by blast
  have funds: "\<forall>q \<in> P \<union> fst ` set ops. f1 q = None \<longrightarrow> mem_funds mm q 48 s1"
  proof (intro ballI impI)
    fix q assume q: "q \<in> P \<union> fst ` set ops" "f1 q = None"
    then have "q \<notin> insert p (dom f)" using c(3) by (metis domIff)
    then have "q \<noteq> p" "f q = None" by (simp_all add: domIff)
    moreover have "f q = None \<longrightarrow> mem_funds mm q 48 s" using Cons.prems(5) q(1) by simp
    ultimately show "mem_funds mm q 48 s1" using c(6) by blast
  qed
  have ops: "\<forall>(p, up) \<in> set ops. p < LRT_PIC_MAX_PICS" using Cons.prems(2) by simp
  from Cons.IH [OF c(2) ops Cons.prems(3,4) funds] obtain as' f' s' where
    r: "ctr_run (ctr_miss boot other mother) (id_of (TransMem s1) k) ops s1 = Inr s'" "dist_ok k root as' f' s'"
    "TransMem s' = TransMem s1" "ctr_total f' s' = ctr_spec ops (ctr_total f1 s1)" "\<forall>p \<in> P. f' p = None \<longrightarrow> mem_funds mm p 48 s'"
    by blast
  have "ctr_run (ctr_miss boot other mother) (id_of (TransMem s) k) (op # ops) s = Inr s'"
    using r(1) c(4) by (simp add: op c(1))
  moreover have "ctr_total f' s' = ctr_spec (op # ops) (ctr_total f s)"
    using r(4) c(5) by (simp add: op ctr_spec_def)
  ultimately show ?case using r(2,3,5) c(4) by metis
qed

text \<open>C7: the distributed counter refines an atomic counter: after any sequence of increments and
  decrements by any cores, each through the id and so through the core's own representative, made
  at its first call, any core that asks for the value, one that never used the counter included, gets
  the value of the atomic counter after the same sequence, modulo the 64-bit wrap-around. The walk
  over the representatives ends. The counter is bound to its root, and a core that has no
  representative yet has 48 bytes.\<close>

theorem distributed_counter_refines:
  assumes "dist_ok k root as f s" "\<forall>(p, up) \<in> set ops. p < LRT_PIC_MAX_PICS" "q < LRT_PIC_MAX_PICS"
    "k < num_ids" "k \<noteq> mm" "\<forall>p \<in> insert q (fst ` set ops). f p = None \<longrightarrow> mem_funds mm p 48 s"
  shows "\<exists>s' s''. ctr_run (ctr_miss boot other mother) (id_of (TransMem s) k) ops s = Inr s' \<and>
    ctr_call (ctr_miss boot other mother) q (id_of (TransMem s) k) 2 s' = Inr (EBBRC_OK, ctr_spec ops (ctr_total f s), s'')"
proof -
  obtain as1 f1 s1 where r: "ctr_run (ctr_miss boot other mother) (id_of (TransMem s) k) ops s = Inr s1"
    "dist_ok k root as1 f1 s1" "TransMem s1 = TransMem s" "ctr_total f1 s1 = ctr_spec ops (ctr_total f s)"
    "\<forall>p \<in> {q}. f1 p = None \<longrightarrow> mem_funds mm p 48 s1"
    using ctr_run_ok [OF assms(1,2,4,5), of "{q}" boot other mother] assms(6) by auto
  from ctr_enter [OF r(2) assms(3-5), of 2 boot other mother] r(5)
  obtain rp as2 s2 where c: "EBBCALL (ctr_miss boot other mother) q (id_of (TransMem s1) k) 2 s1 =
      Inr (Called (Method FT_CtrPrimDistributed 2) rp, s2)"
    "dist_ok k root as2 (f1(q \<mapsto> rp)) s2" "ctr_total (f1(q \<mapsto> rp)) s2 = ctr_total f1 s1"
    by (auto simp: EBB_TRANS_MAX_FUNCS_def)
  have "ctr_call (ctr_miss boot other mother) q (id_of (TransMem s1) k) 2 s1 = Inr (EBBRC_OK, ctr_total f1 s1, s2)"
    using val_total [OF c(2), of q rp] c(3) by (simp add: ctr_call_def c(1) ctr_fn_def)
  then show ?thesis using r(1,3,4) by metis
qed

subsection \<open>Witness\<close>

text \<open>A counter bound to id number 5 on two cores that have not used it yet.\<close>

definition demo_ctr :: ctr_state where
  "demo_ctr = ebbmgr_state.extend (demo_ebbmgr
      \<lparr>gtab := (gtab demo_up)(entry_at 0x10000 5 := \<lparr>mf = CObjEBBMissFunc_fp, arg = 0x500, free = ALLOCATED, corebv = 0\<rparr>),
       root_ft := (\<lambda>a. CObjEBBRootMulti_ftable),
       multi := (\<lambda>a. \<lparr>rm_createRep = CtrPrimDistributed_createRep_fp, rm_head = 0, rm_lock = 0\<rparr>)\<rparr>)
     \<lparr>ctr_v = (\<lambda>a. 0), ctr_localValue = (\<lambda>a. 0), ctr_theRoot = (\<lambda>a. 0)\<rparr>"

lemma demo_ctr_sel:
  "TransMem demo_ctr = 0x10000" "ltab demo_ctr = ltab demo_up" "bootMem demo_ctr = demo_boot"
  "gtab demo_ctr = (gtab demo_up)(entry_at 0x10000 5 := \<lparr>mf = CObjEBBMissFunc_fp, arg = 0x500, free = ALLOCATED, corebv = 0\<rparr>)"
  "root_ft demo_ctr = (\<lambda>a. CObjEBBRootMulti_ftable)"
  "multi demo_ctr = (\<lambda>a. \<lparr>rm_createRep = CtrPrimDistributed_createRep_fp, rm_head = 0, rm_lock = 0\<rparr>)"
  by (simp_all add: demo_ctr_def ebbmgr_state.defs)

lemma demo_ctr_funds: "q \<in> {0, 1} \<Longrightarrow> mem_funds 0 q 48 demo_ctr"
proof -
  assume "q \<in> {0, 1}"
  then have "mem_funds 0 q 72 demo_ebbmgr" by (rule demo_up_funds)
  moreover have "theEBBMemMgrPrimId demo_ctr = theEBBMemMgrPrimId demo_ebbmgr" "repft demo_ctr = repft demo_ebbmgr"
    "stupid_rep demo_ctr = stupid_rep demo_ebbmgr"
    by (simp_all add: demo_ctr_def ebbmgr_state.defs)
  ultimately show ?thesis
    using demo_boot_mem_ok_cong [OF demo_ctr_sel(3,1)] by (simp add: mem_funds_def mem_rep_def demo_ctr_sel Let_def)
qed

lemma demo_ctr_ok: "dist_ok 5 0x500 [] Map.empty demo_ctr"
proof -
  have fit: "trans_mem_fits 0x10000" using demo_trans_fits by simp
  have "uncached demo_ctr q 5" if q: "q < LRT_PIC_MAX_PICS" for q
  proof -
    have "lrt_trans_id2lt 0x10000 q (id_of 0x10000 5) \<noteq> lrt_trans_id2lt 0x10000 c (id_of 0x10000 0)" if "c < 2" for c
      using local_entry_inj [OF fit q, of c 5 0] that by (auto simp: trans_size_values)
    from this [of 0] this [of 1] show ?thesis by (simp add: uncached_def demo_ctr_sel demo_up_def)
  qed
  then show ?thesis using fit by (simp add: dist_ok_def ebb_ok_def demo_ctr_sel)
qed

theorem distributed_counter_refines_witness:
  "\<exists>s' s''. ctr_run (ctr_miss (\<lambda>m p o' l n a s. Inl NullDeref) (\<lambda>c p r s. Inl NullDeref) (\<lambda>m p o' l n a s. Inl NullDeref))
      (id_of 0x10000 5) [(0, True), (1, True), (0, True), (1, False)] demo_ctr = Inr s' \<and>
    ctr_call (ctr_miss (\<lambda>m p o' l n a s. Inl NullDeref) (\<lambda>c p r s. Inl NullDeref) (\<lambda>m p o' l n a s. Inl NullDeref))
      1 (id_of 0x10000 5) 2 s' = Inr (EBBRC_OK, 2, s'')"
proof -
  have ops: "\<forall>(p, up) \<in> set [(0, True), (1, True), (0, True), (1, False)]. p < LRT_PIC_MAX_PICS"
    and q: "1 < LRT_PIC_MAX_PICS" and k: "5 < num_ids" "5 \<noteq> (0 :: nat)"
    by (simp_all add: trans_size_values)
  have funds: "\<forall>p \<in> insert 1 (fst ` set [(0, True), (1, True), (0, True), (1, False)]). Map.empty p = None \<longrightarrow> mem_funds 0 p 48 demo_ctr"
    using demo_ctr_funds by simp
  have v: "ctr_spec [(0, True), (1, True), (0, True), (1, False)] (ctr_total Map.empty demo_ctr) = 2"
    by (simp add: ctr_spec_def ctr_total_def)
  show ?thesis
    using distributed_counter_refines [OF demo_ctr_ok ops q k funds] unfolding v demo_ctr_sel(1) by blast
qed

end
