(* ===== verification/BitField.thy ===== *)
theory BitField
  imports Prelude
begin

text \<open>
  C bit fields of a word: a field is its lowest bit and its width. The hardware tables of the
  bare-metal runtimes are unions of a word and a structure of such fields.
\<close>

definition get_field :: "nat \<Rightarrow> nat \<Rightarrow> 'a::len word \<Rightarrow> 'a word" where
  "get_field lo n w = take_bit n (drop_bit lo w)"

definition set_field :: "nat \<Rightarrow> nat \<Rightarrow> 'a::len word \<Rightarrow> 'a word \<Rightarrow> 'a word" where
  "set_field lo n v w = (w AND NOT (push_bit lo (mask n))) OR push_bit lo (take_bit n v)"

lemma bit_set_field:
  fixes w :: "'a::len word"
  assumes "i < LENGTH('a)"
  shows "bit (set_field lo n v w) i = (if lo \<le> i \<and> i < lo + n then bit v (i - lo) else bit w i)"
  using assms
  by (auto simp: set_field_def bit_or_iff bit_and_iff bit_not_iff bit_push_bit_iff bit_mask_iff bit_take_bit_iff)

lemma bit_get_field:
  fixes w :: "'a::len word"
  shows "bit (get_field lo n w) i = (i < n \<and> bit w (lo + i))"
  by (auto simp: get_field_def bit_take_bit_iff bit_drop_bit_eq)

lemma get_set_same:
  fixes w :: "'a::len word"
  assumes "lo + n \<le> LENGTH('a)"
  shows "get_field lo n (set_field lo n v w) = take_bit n v"
proof (rule bit_word_eqI)
  fix i assume "i < LENGTH('a)"
  then show "bit (get_field lo n (set_field lo n v w)) i = bit (take_bit n v) i"
    using assms by (cases "i < n") (simp_all add: bit_get_field bit_set_field bit_take_bit_iff)
qed

lemma get_set_other:
  fixes w :: "'a::len word"
  assumes "lo + n \<le> LENGTH('a)" "lo + n \<le> lo' \<or> lo' + n' \<le> lo"
  shows "get_field lo n (set_field lo' n' v w) = get_field lo n w"
proof (rule bit_word_eqI)
  fix i assume "i < LENGTH('a)"
  then show "bit (get_field lo n (set_field lo' n' v w)) i = bit (get_field lo n w) i"
    using assms by (cases "i < n") (auto simp: bit_get_field bit_set_field)
qed

lemma get_field_0 [simp]: "get_field lo n 0 = 0"
  by (simp add: get_field_def)

text \<open>A bit of the rest of the word survives.\<close>

lemma bit_set_other:
  fixes w :: "'a::len word"
  shows "i < LENGTH('a) \<Longrightarrow> i < lo \<or> lo + n \<le> i \<Longrightarrow> bit (set_field lo n v w) i = bit w i"
  by (auto simp: bit_set_field)

end
