(* ===== verification/Amd64Paging.thy ===== *)
theory Amd64Paging
  imports BitField LrtTrans
begin

text \<open>
  Page tables of the bare-metal amd64 runtime: the identity map that \<open>init32.c\<close> builds for the
  first 4 GB before it turns paging on, and the two large pages that \<open>trans.c\<close> adds for the
  translation tables. Physical memory is a map from addresses to 64-bit words; a table is the
  physical address of its first entry.
\<close>

type_synonym phys = "nat \<Rightarrow> u64"

subsection \<open>Entries\<close>

text \<open>\<open>pml4_ent\<close>, \<open>pdpt_ent\<close>: \<open>present\<close> is bit 0, \<open>rw\<close> bit 1, \<open>ps\<close> bit 7, \<open>base\<close> bits 12 to 51;
  in a \<open>pd_2m_ent\<close> \<open>base\<close> is bits 21 to 51.\<close>

definition ent_present :: "u64 \<Rightarrow> u64 \<Rightarrow> u64" where "ent_present v e = set_field 0 1 v e"
definition ent_rw :: "u64 \<Rightarrow> u64 \<Rightarrow> u64" where "ent_rw v e = set_field 1 1 v e"
definition ent_ps :: "u64 \<Rightarrow> u64 \<Rightarrow> u64" where "ent_ps v e = set_field 7 1 v e"
definition ent_base :: "u64 \<Rightarrow> u64 \<Rightarrow> u64" where "ent_base v e = set_field 12 40 v e"
definition ent_base_2m :: "u64 \<Rightarrow> u64 \<Rightarrow> u64" where "ent_base_2m v e = set_field 21 31 v e"

definition PML4_INDEX :: "u64 \<Rightarrow> u64" where "PML4_INDEX addr = drop_bit 39 addr AND (push_bit 9 1 - 1)"
definition PDPT_INDEX :: "u64 \<Rightarrow> u64" where "PDPT_INDEX addr = drop_bit 30 addr AND (push_bit 9 1 - 1)"
definition PDIR_INDEX :: "u64 \<Rightarrow> u64" where "PDIR_INDEX addr = drop_bit 21 addr AND (push_bit 9 1 - 1)"

text \<open>\<open>table[i]\<close>, and an assignment to fields of it.\<close>

definition entry_addr :: "u64 \<Rightarrow> nat \<Rightarrow> nat" where "entry_addr table i = unat table + 8 * i"

definition upd_entry :: "u64 \<Rightarrow> nat \<Rightarrow> (u64 \<Rightarrow> u64) \<Rightarrow> phys \<Rightarrow> phys" where
  "upd_entry table i f m = m(entry_addr table i := f (m (entry_addr table i)))"

subsection \<open>The identity map\<close>

definition clear_table :: "u64 \<Rightarrow> phys \<Rightarrow> phys" where
  "clear_table table m = fold (\<lambda>i. upd_entry table i (\<lambda>_. 0)) [0..<512] m"

text \<open>\<open>pdir i\<close> is \<open>init_pdir[i]\<close>.\<close>

definition pdir_at :: "u64 \<Rightarrow> nat \<Rightarrow> u64" where "pdir_at pdir i = pdir + 4096 * of_nat i"

definition init32_tables :: "u64 \<Rightarrow> u64 \<Rightarrow> u64 \<Rightarrow> phys \<Rightarrow> phys" where
  "init32_tables pml4 pdpt pdir m =
     (let m = clear_table pml4 m;
          m = clear_table pdpt m;
          m = fold (\<lambda>i. clear_table (pdir_at pdir i)) [0..<4] m;
          m = upd_entry pml4 0 (\<lambda>e. ent_base (drop_bit 12 pdpt) (ent_rw 1 (ent_present 1 e))) m;
          m = fold (\<lambda>i. upd_entry pdpt i (\<lambda>e. ent_base (drop_bit 12 (pdir_at pdir i)) (ent_rw 1 (ent_present 1 e)))) [0..<4] m
      in fold (\<lambda>i m. fold (\<lambda>j. upd_entry (pdir_at pdir i) j
           (\<lambda>e. ent_base_2m (of_nat (i * 512 + j)) (ent_ps 1 (ent_rw 1 (ent_present 1 e))))) [0..<512] m) [0..<4] m)"

text \<open>
  The null code segment descriptor, and \<open>init32\<close>: without a multiboot loader or long mode, or
  when long mode does not come up, it panics, which loops for ever. The loops over the
  multiboot information have empty bodies. The result is the value of \<open>cr3\<close> and memory.
\<close>

definition init_gdt_code :: u64 where
  "init_gdt_code = set_field 53 1 1 (set_field 47 1 1 (set_field 44 1 1 (set_field 40 4 8 0)))"

definition MULTIBOOT_BOOTLOADER_MAGIC :: u32 where "MULTIBOOT_BOOTLOADER_MAGIC = 0x2BADB002"

definition init32 :: "u32 \<Rightarrow> bool \<Rightarrow> bool \<Rightarrow> u64 \<Rightarrow> u64 \<Rightarrow> u64 \<Rightarrow> phys \<Rightarrow> (u64 \<times> u64 list \<times> phys) res" where
  "init32 magic has_longmode longmode_active pml4 pdpt pdir m =
     (if magic \<noteq> MULTIBOOT_BOOTLOADER_MAGIC then Inl Diverges
      else if \<not> has_longmode then Inl Diverges
      else
        let m = init32_tables pml4 pdpt pdir m
        in if \<not> longmode_active then Inl Diverges
           else Inr (pml4, [0, init_gdt_code], m))"

subsection \<open>The translation tables\<close>

text \<open>\<open>trans_pdir\<close> is an array of two directories.\<close>

definition amd64_lrt_trans_init :: "u64 \<Rightarrow> u64 \<Rightarrow> u64 \<Rightarrow> u64 \<Rightarrow> u64 \<Rightarrow> phys \<Rightarrow> phys" where
  "amd64_lrt_trans_init theGMem BSPLMem trans_pdpt trans_pdir pml4 m =
     (let m = upd_entry (pdir_at trans_pdir 0) (unat (PDIR_INDEX amd64_GMem))
            (\<lambda>e. ent_base_2m (drop_bit 21 theGMem) (ent_ps 1 (ent_rw 1 (ent_present 1 e)))) m;
          m = upd_entry (pdir_at trans_pdir 1) (unat (PDIR_INDEX amd64_LMem))
            (\<lambda>e. ent_base_2m (drop_bit 21 BSPLMem) (ent_ps 1 (ent_rw 1 (ent_present 1 e)))) m;
          m = upd_entry trans_pdpt (unat (PDPT_INDEX amd64_GMem))
            (\<lambda>e. ent_base (drop_bit 12 (pdir_at trans_pdir 0)) (ent_rw 1 (ent_present 1 e))) m;
          m = upd_entry trans_pdpt (unat (PDPT_INDEX amd64_LMem))
            (\<lambda>e. ent_base (drop_bit 12 (pdir_at trans_pdir 1)) (ent_rw 1 (ent_present 1 e))) m
      in upd_entry pml4 (unat (PML4_INDEX amd64_GMem))
            (\<lambda>e. ent_base (drop_bit 12 trans_pdpt) (ent_rw 1 (ent_present 1 e))) m)"

definition amd64_trans_id2rlt :: "nat \<Rightarrow> nat \<Rightarrow> u64 \<Rightarrow> u64 res" where
  "amd64_trans_id2rlt myid picid oid =
     rbind (lrt_assert (picid = myid)) (\<lambda>_. Inr (amd64_trans_id2lt oid))"

subsection \<open>What the processor does with the tables\<close>

text \<open>
  The walk for an address in a 2 MB page: \<open>None\<close> is a page fault. An entry that maps a page at
  the second level, or points to a table of small pages, is not made by this code.
\<close>

definition walk :: "u64 \<Rightarrow> phys \<Rightarrow> u64 \<Rightarrow> u64 option" where
  "walk cr3 m va =
     (let e4 = m (entry_addr cr3 (unat (PML4_INDEX va)))
      in if get_field 0 1 e4 = 0 then None
         else let e3 = m (entry_addr (push_bit 12 (get_field 12 40 e4)) (unat (PDPT_INDEX va)))
         in if get_field 0 1 e3 = 0 \<or> get_field 7 1 e3 \<noteq> 0 then None
            else let e2 = m (entry_addr (push_bit 12 (get_field 12 40 e3)) (unat (PDIR_INDEX va)))
            in if get_field 0 1 e2 = 0 \<or> get_field 7 1 e2 = 0 then None
               else Some (push_bit 21 (get_field 21 31 e2) + take_bit 21 va))"

end
