(* ===== verification/Amd64PagingProps.thy ===== *)
theory Amd64PagingProps
  imports Amd64Paging
begin

text \<open>The address spaces that the page tables of the amd64 runtime give.\<close>

subsection \<open>Tables in memory\<close>

definition page_aligned :: "u64 \<Rightarrow> bool" where
  "page_aligned t \<longleftrightarrow> take_bit 12 t = 0 \<and> take_bit 52 t = t"

definition tables_ok :: "u64 list \<Rightarrow> bool" where
  "tables_ok ts \<longleftrightarrow> distinct ts \<and> (\<forall>t \<in> set ts. page_aligned t)"

lemma page_aligned_unat: "page_aligned t \<Longrightarrow> unat t mod 4096 = 0"
proof -
  assume "page_aligned t"
  then have "unat (take_bit 12 t) = 0" by (simp add: page_aligned_def)
  moreover have "unat (take_bit 12 t) = take_bit 12 (unat t)" by (rule unsigned_take_bit_eq)
  ultimately show ?thesis by (simp add: take_bit_eq_mod)
qed

lemma entry_addr_eq:
  assumes "page_aligned t" "page_aligned t'" "i < 512" "j < 512"
  shows "entry_addr t i = entry_addr t' j \<longleftrightarrow> t = t' \<and> i = j"
proof
  assume e: "entry_addr t i = entry_addr t' j"
  obtain a b where ab: "unat t = 4096 * a" "unat t' = 4096 * b"
    using page_aligned_unat [OF assms(1)] page_aligned_unat [OF assms(2)] by (auto simp: mod_eq_0_iff_dvd dvd_def)
  then have "a = b" using e assms(3,4) by (simp add: entry_addr_def)
  then have "unat t = unat t'" using ab by simp
  then have "t = t'" by (rule unsigned_word_eqI)
  then show "t = t' \<and> i = j" using e by (simp add: entry_addr_def)
qed (auto simp: entry_addr_def)

definition upd_table :: "u64 \<Rightarrow> nat \<Rightarrow> (nat \<Rightarrow> u64 \<Rightarrow> u64) \<Rightarrow> phys \<Rightarrow> phys" where
  "upd_table t n f m = fold (\<lambda>i. upd_entry t i (f i)) [0..<n] m"

lemma upd_entry_at:
  "page_aligned t \<Longrightarrow> page_aligned t' \<Longrightarrow> i < 512 \<Longrightarrow> j < 512 \<Longrightarrow>
   upd_entry t i f m (entry_addr t' j) = (if t' = t \<and> j = i then f (m (entry_addr t' j)) else m (entry_addr t' j))"
  using entry_addr_eq [of t' t j i] by (auto simp: upd_entry_def)

lemma upd_table_at:
  assumes "page_aligned t" "page_aligned t'" "n \<le> 512" "j < 512"
  shows "upd_table t n f m (entry_addr t' j) = (if t' = t \<and> j < n then f j (m (entry_addr t' j)) else m (entry_addr t' j))"
  using assms(3)
proof (induction n)
  case 0
  then show ?case by (simp add: upd_table_def)
next
  case (Suc n)
  have "upd_table t (Suc n) f m = upd_entry t n (f n) (upd_table t n f m)" by (simp add: upd_table_def)
  then show ?case using Suc upd_entry_at [OF assms(1,2) _ assms(4), of n "f n" "upd_table t n f m"] by auto
qed

subsection \<open>Entries\<close>

lemma base_of:
  assumes "page_aligned t"
  shows "push_bit 12 (take_bit 40 (drop_bit 12 t)) = t"
proof (rule bit_word_eqI)
  fix i assume i: "i < LENGTH(64)"
  have a: "\<not> bit t i" if "i < 12" for i
    using assms bit_take_bit_iff [of 12 t i] that by (simp add: page_aligned_def)
  have b: "\<not> bit t i" if "52 \<le> i" for i
    using assms bit_take_bit_iff [of 52 t i] that by (simp add: page_aligned_def)
  show "bit (push_bit 12 (take_bit 40 (drop_bit 12 t))) i = bit t i"
  proof (cases "i < 12 \<or> 52 \<le> i")
    case True
    then show ?thesis using a [of i] b [of i] by (auto simp: bit_push_bit_iff bit_take_bit_iff)
  next
    case False
    then have "12 + (i - 12) = i" "i - 12 < 40" "12 \<le> i" by auto
    then show ?thesis using i by (simp add: bit_push_bit_iff bit_take_bit_iff bit_drop_bit_eq)
  qed
qed

lemma table_entry:
  "get_field 0 1 (ent_base b (ent_rw 1 (ent_present 1 e))) = 1"
  "get_field 7 1 (ent_base b (ent_rw 1 (ent_present 1 e))) = get_field 7 1 e"
  "get_field 12 40 (ent_base b (ent_rw 1 (ent_present 1 e))) = take_bit 40 b"
  by (simp_all add: ent_base_def ent_rw_def ent_present_def get_set_same get_set_other)

lemma page_entry:
  "get_field 0 1 (ent_base_2m b (ent_ps 1 (ent_rw 1 (ent_present 1 e)))) = 1"
  "get_field 7 1 (ent_base_2m b (ent_ps 1 (ent_rw 1 (ent_present 1 e)))) = 1"
  "get_field 21 31 (ent_base_2m b (ent_ps 1 (ent_rw 1 (ent_present 1 e)))) = take_bit 31 b"
  by (simp_all add: ent_base_2m_def ent_ps_def ent_rw_def ent_present_def get_set_same get_set_other)

subsection \<open>Indices\<close>

lemma index_unat:
  "unat (PML4_INDEX va) = unat va div 2 ^ 39 mod 512"
  "unat (PDPT_INDEX va) = unat va div 2 ^ 30 mod 512"
  "unat (PDIR_INDEX va) = unat va div 2 ^ 21 mod 512"
proof -
  have m: "(push_bit 9 1 - 1 :: u64) = mask 9" by (simp add: mask_eq_exp_minus_1)
  have "unat (drop_bit k va AND mask 9) = unat va div 2 ^ k mod 512" for k
  proof -
    have "unat (drop_bit k va) = drop_bit k (take_bit LENGTH(64) (unat va))" by (rule unsigned_drop_bit_eq)
    then have d: "unat (drop_bit k va) = unat va div 2 ^ k"
      using unsigned_less [of va, where 'a = nat] by (simp add: drop_bit_eq_div take_bit_nat_eq_self)
    have "unat (take_bit 9 (drop_bit k va)) = take_bit 9 (unat (drop_bit k va))" by (rule unsigned_take_bit_eq)
    then show ?thesis unfolding take_bit_eq_mask [symmetric] d by (simp add: take_bit_eq_mod)
  qed
  then show "unat (PML4_INDEX va) = unat va div 2 ^ 39 mod 512" "unat (PDPT_INDEX va) = unat va div 2 ^ 30 mod 512"
    "unat (PDIR_INDEX va) = unat va div 2 ^ 21 mod 512"
    unfolding PML4_INDEX_def PDPT_INDEX_def PDIR_INDEX_def m by simp_all
qed

lemma index_less: "unat (PML4_INDEX va) < 512" "unat (PDPT_INDEX va) < 512" "unat (PDIR_INDEX va) < 512"
  by (simp_all add: index_unat)

subsection \<open>The identity map\<close>

definition init_tables :: "u64 \<Rightarrow> u64 \<Rightarrow> u64 \<Rightarrow> u64 list" where
  "init_tables pml4 pdpt pdir = [pml4, pdpt, pdir_at pdir 0, pdir_at pdir 1, pdir_at pdir 2, pdir_at pdir 3]"

definition table_ent :: "u64 \<Rightarrow> u64 \<Rightarrow> u64" where
  "table_ent t e = ent_base (drop_bit 12 t) (ent_rw 1 (ent_present 1 e))"
definition page_ent :: "u64 \<Rightarrow> u64 \<Rightarrow> u64" where
  "page_ent b e = ent_base_2m b (ent_ps 1 (ent_rw 1 (ent_present 1 e)))"

lemma fold4: "fold f [0..<4] m = f 3 (f 2 (f 1 (f (0::nat) m)))"
  by (simp add: upt_rec numeral_eq_Suc)

lemma init32_tables_eq:
  "init32_tables pml4 pdpt pdir m =
     (let z = \<lambda>t. upd_table t 512 (\<lambda>_ _. 0);
          d = \<lambda>i. upd_table (pdir_at pdir i) 512 (\<lambda>j. page_ent (of_nat (i * 512 + j)));
          m = z (pdir_at pdir 3) (z (pdir_at pdir 2) (z (pdir_at pdir 1) (z (pdir_at pdir 0) (z pdpt (z pml4 m)))))
      in d 3 (d 2 (d 1 (d 0 (upd_table pdpt 4 (\<lambda>i. table_ent (pdir_at pdir i)) (upd_entry pml4 0 (table_ent pdpt) m))))))"
  unfolding init32_tables_def clear_table_def upd_table_def table_ent_def page_ent_def Let_def fold4 ..

lemma init32_entries:
  assumes "tables_ok (init_tables pml4 pdpt pdir)" "j < 512"
  shows "init32_tables pml4 pdpt pdir m (entry_addr pml4 j) = (if j = 0 then table_ent pdpt 0 else 0)"
    "init32_tables pml4 pdpt pdir m (entry_addr pdpt j) = (if j < 4 then table_ent (pdir_at pdir j) 0 else 0)"
    "i < 4 \<Longrightarrow> init32_tables pml4 pdpt pdir m (entry_addr (pdir_at pdir i) j) = page_ent (of_nat (i * 512 + j)) 0"
proof -
  let ?p = "pdir_at pdir"
  have al: "page_aligned pml4" "page_aligned pdpt" "page_aligned (?p 0)" "page_aligned (?p 1)" "page_aligned (?p 2)"
    "page_aligned (?p 3)" using assms(1) by (simp_all add: tables_ok_def init_tables_def)
  have ne: "pml4 \<noteq> pdpt" "pml4 \<noteq> ?p 0" "pml4 \<noteq> ?p 1" "pml4 \<noteq> ?p 2" "pml4 \<noteq> ?p 3" "pdpt \<noteq> ?p 0" "pdpt \<noteq> ?p 1" "pdpt \<noteq> ?p 2"
    "pdpt \<noteq> ?p 3" "?p 0 \<noteq> ?p 1" "?p 0 \<noteq> ?p 2" "?p 0 \<noteq> ?p 3" "?p 1 \<noteq> ?p 2" "?p 1 \<noteq> ?p 3" "?p 2 \<noteq> ?p 3"
    using assms(1) by (simp_all add: tables_ok_def init_tables_def)
  note One_nat_def [simp del]
  note at = init32_tables_eq Let_def
  show "init32_tables pml4 pdpt pdir m (entry_addr pml4 j) = (if j = 0 then table_ent pdpt 0 else 0)"
    unfolding at using ne assms(2) by (simp add: upd_table_at upd_entry_at al)
  show "init32_tables pml4 pdpt pdir m (entry_addr pdpt j) = (if j < 4 then table_ent (?p j) 0 else 0)"
    unfolding at using ne ne [symmetric] assms(2) by (simp add: upd_table_at upd_entry_at al)
  show "init32_tables pml4 pdpt pdir m (entry_addr (?p i) j) = page_ent (of_nat (i * 512 + j)) 0" if "i < 4"
  proof -
    have "i = 0 \<or> i = 1 \<or> i = 2 \<or> i = 3" using that by presburger
    then consider "i = 0" | "i = 1" | "i = 2" | "i = 3" by blast
    then show ?thesis
    proof cases
      case 1
      show ?thesis unfolding at 1 using ne ne [symmetric] assms(2) by (simp add: upd_table_at upd_entry_at al)
    next
      case 2
      show ?thesis unfolding at 2 using ne ne [symmetric] assms(2) by (simp add: upd_table_at upd_entry_at al)
    next
      case 3
      show ?thesis unfolding at 3 using ne ne [symmetric] assms(2) by (simp add: upd_table_at upd_entry_at al)
    next
      case 4
      show ?thesis unfolding at 4 using ne ne [symmetric] assms(2) by (simp add: upd_table_at upd_entry_at al)
    qed
  qed
qed

lemma table_ent_fields:
  assumes "page_aligned t"
  shows "get_field 0 1 (table_ent t 0) = 1" "get_field 7 1 (table_ent t 0) = 0"
    "push_bit 12 (get_field 12 40 (table_ent t 0)) = t"
  unfolding table_ent_def table_entry using base_of [OF assms] by simp_all

lemma page_ent_fields:
  "get_field 0 1 (page_ent b e) = 1" "get_field 7 1 (page_ent b e) = 1" "get_field 21 31 (page_ent b e) = take_bit 31 b"
  unfolding page_ent_def by (rule page_entry)+

text \<open>An address of the identity map: its indices are those of the page it is in.\<close>

definition identity_map :: "u64 \<Rightarrow> u64 option" where
  "identity_map va = (if take_bit 48 va < 2 ^ 32 then Some (take_bit 48 va) else None)"

lemma unat_take48: "unat (take_bit 48 (va :: u64)) = unat va mod 2 ^ 48"
proof -
  have "unat (take_bit 48 va) = take_bit 48 (unat va)" by (rule unsigned_take_bit_eq)
  then show ?thesis by (simp add: take_bit_eq_mod)
qed

lemma split_address:
  fixes x :: nat
  shows "x mod 2 ^ 48 = 2 ^ 39 * (x div 2 ^ 39 mod 512) + x mod 2 ^ 39"
    "x mod 2 ^ 39 = 2 ^ 30 * (x div 2 ^ 30 mod 512) + x mod 2 ^ 30"
    "x mod 2 ^ 30 = 2 ^ 21 * (x div 2 ^ 21 mod 512) + x mod 2 ^ 21"
  using mod_mult2_eq [of x "2 ^ 39" 512] mod_mult2_eq [of x "2 ^ 30" 512] mod_mult2_eq [of x "2 ^ 21" 512]
  by simp_all

lemma below_4g:
  fixes a b x y z :: nat
  assumes "x = 2 ^ 39 * a + y" "y = 2 ^ 30 * b + z" "z < 2 ^ 30"
  shows "x < 2 ^ 32 \<longleftrightarrow> a = 0 \<and> b < 4"
proof
  assume l: "x < 2 ^ 32"
  then have "2 ^ 39 * a < 2 ^ 32" "2 ^ 30 * b < 2 ^ 32" using assms(1,2) by linarith+
  then show "a = 0 \<and> b < 4" by auto
next
  assume "a = 0 \<and> b < 4"
  then show "x < 2 ^ 32" using assms by simp
qed

lemma take_bit_small: "n < 2 ^ k \<Longrightarrow> take_bit k (of_nat n :: u64) = of_nat n"
  by (simp add: take_bit_of_nat take_bit_nat_eq_self)

lemma push_bit_small: "n < 2 ^ k \<Longrightarrow> push_bit 21 (take_bit k (of_nat n :: u64)) = of_nat (n * 2 ^ 21)"
  by (simp add: take_bit_small push_bit_eq_mult)

lemma low_indices:
  fixes va :: u64
  shows "take_bit 48 va < 2 ^ 32 \<longleftrightarrow> unat (PML4_INDEX va) = 0 \<and> unat (PDPT_INDEX va) < 4"
proof -
  have "take_bit 48 va < 2 ^ 32 \<longleftrightarrow> unat va mod 2 ^ 48 < 2 ^ 32"
    unfolding word_less_nat_alt unat_take48 by simp
  also have "\<dots> \<longleftrightarrow> unat va div 2 ^ 39 mod 512 = 0 \<and> unat va div 2 ^ 30 mod 512 < 4"
    by (rule below_4g [OF split_address(1,2)]) simp
  finally show ?thesis unfolding index_unat .
qed

lemma page_and_offset:
  fixes va :: u64
  assumes "take_bit 48 va < 2 ^ 32"
  shows "push_bit 21 (take_bit 31 (of_nat (unat (PDPT_INDEX va) * 512 + unat (PDIR_INDEX va)))) + take_bit 21 va
    = take_bit 48 va" (is "push_bit 21 (take_bit 31 (of_nat ?n)) + _ = _")
proof -
  have lt: "unat va mod 2 ^ 48 < 2 ^ 32"
    using assms unfolding word_less_nat_alt unat_take48 by simp
  have z: "unat va div 2 ^ 39 mod 512 = 0" using low_indices [of va] assms unfolding index_unat by simp
  have b: "unat va mod 2 ^ 21 < 2 ^ 21" by simp
  have e: "unat va mod 2 ^ 48 = ?n * 2 ^ 21 + unat va mod 2 ^ 21"
    unfolding index_unat using split_address [of "unat va"] z by simp
  have n: "?n = unat va mod 2 ^ 48 div 2 ^ 21" unfolding e using b by simp
  have n31: "?n < 2 ^ 31" using e lt by simp
  have "unat (take_bit 21 va) = take_bit 21 (unat va)" by (rule unsigned_take_bit_eq)
  then have o21: "unat (take_bit 21 va) = unat va mod 2 ^ 21" by (simp add: take_bit_eq_mod)
  have "push_bit 21 (take_bit 31 (of_nat ?n)) + take_bit 21 va = of_nat (?n * 2 ^ 21) + of_nat (unat (take_bit 21 va))"
    unfolding push_bit_small [OF n31] by simp
  also have "\<dots> = of_nat (?n * 2 ^ 21 + unat (take_bit 21 va))" by (simp only: of_nat_add)
  also have "?n * 2 ^ 21 + unat (take_bit 21 va) = unat (take_bit 48 va)"
    unfolding o21 unat_take48 by (rule e [symmetric])
  finally show ?thesis by simp
qed

lemma walk_page:
  assumes "m (entry_addr cr3 (unat (PML4_INDEX va))) = table_ent t3 0" "page_aligned t3"
    "m (entry_addr t3 (unat (PDPT_INDEX va))) = table_ent t2 0" "page_aligned t2"
    "m (entry_addr t2 (unat (PDIR_INDEX va))) = page_ent b 0"
  shows "walk cr3 m va = Some (push_bit 21 (take_bit 31 b) + take_bit 21 va)"
  using table_ent_fields [OF assms(2)] table_ent_fields [OF assms(4)] assms
  by (simp add: walk_def Let_def page_ent_fields page_ent_fields [unfolded One_nat_def])

lemma walk_absent3:
  assumes "m (entry_addr cr3 (unat (PML4_INDEX va))) = table_ent t3 0" "page_aligned t3"
    "m (entry_addr t3 (unat (PDPT_INDEX va))) = 0"
  shows "walk cr3 m va = None"
  using table_ent_fields [OF assms(2)] assms by (simp add: walk_def Let_def)

lemma walk_absent2:
  assumes "m (entry_addr cr3 (unat (PML4_INDEX va))) = table_ent t3 0" "page_aligned t3"
    "m (entry_addr t3 (unat (PDPT_INDEX va))) = table_ent t2 0" "page_aligned t2"
    "m (entry_addr t2 (unat (PDIR_INDEX va))) = 0"
  shows "walk cr3 m va = None"
  using table_ent_fields [OF assms(2)] table_ent_fields [OF assms(4)] assms by (simp add: walk_def Let_def)

lemma init_tables_aligned:
  assumes "tables_ok (init_tables pml4 pdpt pdir)"
  shows "page_aligned pml4" "page_aligned pdpt" "i < 4 \<Longrightarrow> page_aligned (pdir_at pdir i)"
proof -
  show "page_aligned pml4" "page_aligned pdpt" using assms by (simp_all add: tables_ok_def init_tables_def)
  assume "i < 4"
  then have "i = 0 \<or> i = 1 \<or> i = 2 \<or> i = 3" by presburger
  then show "page_aligned (pdir_at pdir i)" using assms by (auto simp: tables_ok_def init_tables_def)
qed

text \<open>The walk of an address whose first index is 0, in any memory that holds the identity map.\<close>

lemma walk_low:
  assumes t: "tables_ok (init_tables pml4 pdpt pdir)" and z: "unat (PML4_INDEX va) = 0"
    and e4: "m (entry_addr pml4 0) = table_ent pdpt 0"
    and e3: "\<And>j. j < 512 \<Longrightarrow> m (entry_addr pdpt j) = (if j < 4 then table_ent (pdir_at pdir j) 0 else 0)"
    and e2: "\<And>i j. i < 4 \<Longrightarrow> j < 512 \<Longrightarrow> m (entry_addr (pdir_at pdir i) j) = page_ent (of_nat (i * 512 + j)) 0"
  shows "walk pml4 m va = identity_map va"
proof (cases "unat (PDPT_INDEX va) < 4")
  case False
  have "walk pml4 m va = None"
    using walk_absent3 [of m pml4 va pdpt] e4 z e3 [OF index_less(2)] False init_tables_aligned(2) [OF t] by simp
  then show ?thesis using False low_indices [of va] by (simp add: identity_map_def)
next
  case P: True
  have lo: "take_bit 48 va < 2 ^ 32" using low_indices [of va] z P by blast
  have e: "m (entry_addr pml4 (unat (PML4_INDEX va))) = table_ent pdpt 0"
    "m (entry_addr pdpt (unat (PDPT_INDEX va))) = table_ent (pdir_at pdir (unat (PDPT_INDEX va))) 0"
    using e4 z e3 [OF index_less(2)] P by simp_all
  show ?thesis
    unfolding walk_page [OF e(1) init_tables_aligned(2) [OF t] e(2) init_tables_aligned(3) [OF t P] e2 [OF P index_less(3)]]
      page_and_offset [OF lo] using lo by (simp add: identity_map_def)
qed

lemma init32_tables_walk:
  assumes "tables_ok (init_tables pml4 pdpt pdir)"
  shows "walk pml4 (init32_tables pml4 pdpt pdir m) va = identity_map va"
proof (cases "unat (PML4_INDEX va) = 0")
  case False
  then show ?thesis using low_indices [of va] init32_entries(1) [OF assms index_less(1) [of va]]
    by (simp add: walk_def identity_map_def Let_def)
next
  case True
  show ?thesis
    by (rule walk_low [OF assms True]) (simp_all add: init32_entries [OF assms] del: of_nat_add of_nat_mult)
qed

subsection \<open>The windows of the translation tables\<close>

text \<open>The 2 MB page of an address, among the addresses the processor translates.\<close>

definition page_of :: "u64 \<Rightarrow> nat" where
  "page_of va = unat va mod 2 ^ 48 div 2 ^ 21"

lemma digit_div: "r < n \<Longrightarrow> (q * n + r) div n = (q::nat)"
  by simp

lemma two_digits:
  fixes q q' r r' n :: nat
  assumes "r < n" "r' < n"
  shows "q * n + r = q' * n + r' \<longleftrightarrow> q = q' \<and> r = r'"
proof
  assume e: "q * n + r = q' * n + r'"
  then have "(q * n + r) div n = (q' * n + r') div n" by simp
  then have "q = q'" unfolding digit_div [OF assms(1)] digit_div [OF assms(2)] .
  then show "q = q' \<and> r = r'" using e by simp
qed simp

lemma page_of_indices:
  "page_of va = 2 ^ 18 * unat (PML4_INDEX va) + 2 ^ 9 * unat (PDPT_INDEX va) + unat (PDIR_INDEX va)"
proof -
  have "unat va mod 2 ^ 21 < 2 ^ 21" by simp
  moreover have "unat va mod 2 ^ 48 = (2 ^ 18 * (unat va div 2 ^ 39 mod 512) + 2 ^ 9 * (unat va div 2 ^ 30 mod 512)
      + unat va div 2 ^ 21 mod 512) * 2 ^ 21 + unat va mod 2 ^ 21"
    using split_address [of "unat va"] by simp
  ultimately show ?thesis unfolding page_of_def index_unat by (simp only: digit_div)
qed

lemma three_digits:
  fixes a b c a' b' c' :: nat
  assumes "a < 512" "b < 512" "c < 512" "a' < 512" "b' < 512" "c' < 512"
  shows "2 ^ 18 * a + 2 ^ 9 * b + c = 2 ^ 18 * a' + 2 ^ 9 * b' + c' \<longleftrightarrow> a = a' \<and> b = b' \<and> c = c'"
proof -
  have "2 ^ 18 * a + 2 ^ 9 * b + c = (a * 512 + b) * 512 + c" "2 ^ 18 * a' + 2 ^ 9 * b' + c' = (a' * 512 + b') * 512 + c'"
    by simp_all
  then show ?thesis by (simp only: two_digits [OF assms(3,6)] two_digits [OF assms(2,5)] conj_assoc)
qed

lemma page_of_eq:
  "page_of va = page_of vb \<longleftrightarrow> unat (PML4_INDEX va) = unat (PML4_INDEX vb) \<and>
     unat (PDPT_INDEX va) = unat (PDPT_INDEX vb) \<and> unat (PDIR_INDEX va) = unat (PDIR_INDEX vb)"
  unfolding page_of_indices by (rule three_digits) (rule index_less)+

lemma window_indices:
  "unat (PML4_INDEX amd64_GMem) = 511" "unat (PDPT_INDEX amd64_GMem) = 508" "unat (PDIR_INDEX amd64_GMem) = 0"
  "unat (PML4_INDEX amd64_LMem) = 511" "unat (PDPT_INDEX amd64_LMem) = 504" "unat (PDIR_INDEX amd64_LMem) = 0"
  by (simp_all add: index_unat amd64_GMem_def amd64_LMem_def)

definition large_page :: "u64 \<Rightarrow> bool" where
  "large_page t \<longleftrightarrow> take_bit 21 t = 0 \<and> take_bit 52 t = t"

lemma large_base:
  assumes "large_page t"
  shows "push_bit 21 (take_bit 31 (drop_bit 21 t)) = t"
proof (rule bit_word_eqI)
  fix i assume i: "i < LENGTH(64)"
  have a: "\<not> bit t i" if "i < 21" for i
    using assms bit_take_bit_iff [of 21 t i] that by (simp add: large_page_def)
  have b: "\<not> bit t i" if "52 \<le> i" for i
    using assms bit_take_bit_iff [of 52 t i] that by (simp add: large_page_def)
  show "bit (push_bit 21 (take_bit 31 (drop_bit 21 t))) i = bit t i"
  proof (cases "i < 21 \<or> 52 \<le> i")
    case True
    then show ?thesis using a [of i] b [of i] by (auto simp: bit_push_bit_iff bit_take_bit_iff)
  next
    case False
    then have "21 + (i - 21) = i" "i - 21 < 31" "21 \<le> i" by auto
    then show ?thesis using i by (simp add: bit_push_bit_iff bit_take_bit_iff bit_drop_bit_eq)
  qed
qed

definition kernel_tables :: "u64 \<Rightarrow> u64 \<Rightarrow> u64 \<Rightarrow> u64 \<Rightarrow> u64 \<Rightarrow> u64 list" where
  "kernel_tables pml4 pdpt pdir trans_pdpt trans_pdir =
     init_tables pml4 pdpt pdir @ [trans_pdpt, pdir_at trans_pdir 0, pdir_at trans_pdir 1]"

definition address_space :: "u64 \<Rightarrow> u64 \<Rightarrow> u64 \<Rightarrow> u64 option" where
  "address_space theGMem BSPLMem va =
     (if page_of va = page_of amd64_GMem then Some (theGMem + take_bit 21 va)
      else if page_of va = page_of amd64_LMem then Some (BSPLMem + take_bit 21 va)
      else identity_map va)"

text \<open>The tables of \<open>trans.c\<close> are static and not initialised, so they start out zero.\<close>

definition zero_tables :: "u64 list \<Rightarrow> phys \<Rightarrow> bool" where
  "zero_tables ts m \<longleftrightarrow> (\<forall>t \<in> set ts. \<forall>j < 512. m (entry_addr t j) = 0)"

lemma init32_tables_other:
  assumes "tables_ok (init_tables pml4 pdpt pdir)" "page_aligned t" "t \<notin> set (init_tables pml4 pdpt pdir)" "j < 512"
  shows "init32_tables pml4 pdpt pdir m (entry_addr t j) = m (entry_addr t j)"
  using assms unfolding init32_tables_eq Let_def
  by (simp add: tables_ok_def init_tables_def upd_table_at upd_entry_at del: One_nat_def)

lemma trans_init_entries:
  fixes g b tp td pml4 :: u64
  defines "d0 \<equiv> pdir_at td 0" and "d1 \<equiv> pdir_at td 1"
  assumes "tables_ok [pml4, tp, d0, d1]" "page_aligned t" "j < 512"
  shows "amd64_lrt_trans_init g b tp td pml4 m (entry_addr t j) =
    (if t = pml4 \<and> j = 511 then table_ent tp (m (entry_addr t j))
     else if t = tp \<and> j = 508 then table_ent d0 (m (entry_addr t j))
     else if t = tp \<and> j = 504 then table_ent d1 (m (entry_addr t j))
     else if t = d0 \<and> j = 0 then page_ent (drop_bit 21 g) (m (entry_addr t j))
     else if t = d1 \<and> j = 0 then page_ent (drop_bit 21 b) (m (entry_addr t j))
     else m (entry_addr t j))"
proof -
  have al: "page_aligned pml4" "page_aligned tp" "page_aligned d0" "page_aligned d1"
    and ne: "pml4 \<noteq> tp" "pml4 \<noteq> d0" "pml4 \<noteq> d1" "tp \<noteq> d0" "tp \<noteq> d1" "d0 \<noteq> d1"
    using assms(3) by (simp_all add: tables_ok_def)
  have "amd64_lrt_trans_init g b tp td pml4 m = upd_entry pml4 511 (table_ent tp) (upd_entry tp 504 (table_ent d1)
     (upd_entry tp 508 (table_ent d0) (upd_entry d1 0 (page_ent (drop_bit 21 b)) (upd_entry d0 0 (page_ent (drop_bit 21 g)) m))))"
    unfolding amd64_lrt_trans_init_def Let_def window_indices table_ent_def page_ent_def d0_def d1_def ..
  then show ?thesis using al ne assms(4,5) by (simp add: upd_entry_at)
qed

lemma kernel_entries:
  fixes pml4 pdpt pdir tp td g b :: u64
  assumes t: "tables_ok (kernel_tables pml4 pdpt pdir tp td)"
    and z: "zero_tables [tp, pdir_at td 0, pdir_at td 1] m"
    and j: "j < 512"
  defines "M \<equiv> amd64_lrt_trans_init g b tp td pml4 (init32_tables pml4 pdpt pdir m)"
  shows "M (entry_addr pml4 j) = (if j = 0 then table_ent pdpt 0 else if j = 511 then table_ent tp 0 else 0)"
    "M (entry_addr tp j) = (if j = 508 then table_ent (pdir_at td 0) 0 else if j = 504 then table_ent (pdir_at td 1) 0 else 0)"
    "M (entry_addr (pdir_at td 0) j) = (if j = 0 then page_ent (drop_bit 21 g) 0 else 0)"
    "M (entry_addr (pdir_at td 1) j) = (if j = 0 then page_ent (drop_bit 21 b) 0 else 0)"
    "t \<in> set (init_tables pml4 pdpt pdir) \<Longrightarrow> t \<noteq> pml4 \<Longrightarrow>
       M (entry_addr t j) = init32_tables pml4 pdpt pdir m (entry_addr t j)"
proof -
  have ti: "tables_ok (init_tables pml4 pdpt pdir)" and tt: "tables_ok [pml4, tp, pdir_at td 0, pdir_at td 1]"
    using t by (auto simp: tables_ok_def kernel_tables_def init_tables_def)
  have al: "page_aligned pml4" "page_aligned tp" "page_aligned (pdir_at td 0)" "page_aligned (pdir_at td 1)"
    using tt by (simp_all add: tables_ok_def)
  have ni: "tp \<notin> set (init_tables pml4 pdpt pdir)" "pdir_at td 0 \<notin> set (init_tables pml4 pdpt pdir)"
    "pdir_at td 1 \<notin> set (init_tables pml4 pdpt pdir)"
    using t by (auto simp: tables_ok_def kernel_tables_def)
  have ne: "pml4 \<noteq> tp" "pml4 \<noteq> pdir_at td 0" "pml4 \<noteq> pdir_at td 1" "tp \<noteq> pdir_at td 0" "tp \<noteq> pdir_at td 1"
    "pdir_at td 0 \<noteq> pdir_at td 1" using tt by (auto simp: tables_ok_def)
  have old: "init32_tables pml4 pdpt pdir m (entry_addr tp j) = 0"
    "init32_tables pml4 pdpt pdir m (entry_addr (pdir_at td 0) j) = 0"
    "init32_tables pml4 pdpt pdir m (entry_addr (pdir_at td 1) j) = 0"
    using init32_tables_other [OF ti al(2) ni(1) j, of m] init32_tables_other [OF ti al(3) ni(2) j, of m]
      init32_tables_other [OF ti al(4) ni(3) j, of m] z j by (simp_all add: zero_tables_def)
  note new = trans_init_entries [OF tt _ j, of _ g b "init32_tables pml4 pdpt pdir m", folded M_def]
  show "M (entry_addr pml4 j) = (if j = 0 then table_ent pdpt 0 else if j = 511 then table_ent tp 0 else 0)"
    using new [OF al(1)] ne j by (cases "j = 511"; cases "j = 0") (simp_all add: init32_entries(1) [OF ti])
  show "M (entry_addr tp j) = (if j = 508 then table_ent (pdir_at td 0) 0 else if j = 504 then table_ent (pdir_at td 1) 0 else 0)"
    using new [OF al(2), unfolded old(1)] ne by simp
  show "M (entry_addr (pdir_at td 0) j) = (if j = 0 then page_ent (drop_bit 21 g) 0 else 0)"
    using new [OF al(3), unfolded old(2)] ne by simp
  show "M (entry_addr (pdir_at td 1) j) = (if j = 0 then page_ent (drop_bit 21 b) 0 else 0)"
    using new [OF al(4), unfolded old(3)] ne by simp
  assume a: "t \<in> set (init_tables pml4 pdpt pdir)" "t \<noteq> pml4"
  then have "page_aligned t" "t \<noteq> tp" "t \<noteq> pdir_at td 0" "t \<noteq> pdir_at td 1" using ti ni by (auto simp: tables_ok_def)
  then show "M (entry_addr t j) = init32_tables pml4 pdpt pdir m (entry_addr t j)" using new a by simp
qed

lemma kernel_walk:
  assumes t: "tables_ok (kernel_tables pml4 pdpt pdir tp td)"
    and z: "zero_tables [tp, pdir_at td 0, pdir_at td 1] m"
    and g: "large_page g" "large_page b"
  shows "walk pml4 (amd64_lrt_trans_init g b tp td pml4 (init32_tables pml4 pdpt pdir m)) va = address_space g b va"
proof -
  let ?M = "amd64_lrt_trans_init g b tp td pml4 (init32_tables pml4 pdpt pdir m)"
  have ti: "tables_ok (init_tables pml4 pdpt pdir)" and tp: "page_aligned tp"
    and td: "page_aligned (pdir_at td 0)" "page_aligned (pdir_at td 1)"
    using t by (auto simp: tables_ok_def kernel_tables_def init_tables_def)
  note e = kernel_entries [OF t z, where g = g and b = b]
  note i = page_of_eq [of va amd64_GMem] page_of_eq [of va amd64_LMem]
  note l = index_less [of va]
  consider "unat (PML4_INDEX va) = 0" | "unat (PML4_INDEX va) \<noteq> 0" "unat (PML4_INDEX va) \<noteq> 511"
    | "unat (PML4_INDEX va) = 511" by blast
  then show ?thesis
  proof cases
    case 1
    have "walk pml4 ?M va = identity_map va"
    proof (rule walk_low [OF ti 1])
      show "?M (entry_addr pml4 0) = table_ent pdpt 0" using e(1) [of 0] by simp
      show "?M (entry_addr pdpt j) = (if j < 4 then table_ent (pdir_at pdir j) 0 else 0)" if "j < 512" for j
        using e(5) [OF that, of pdpt] init32_entries(2) [OF ti that] ti by (auto simp: tables_ok_def init_tables_def)
      show "?M (entry_addr (pdir_at pdir i) j) = page_ent (of_nat (i * 512 + j)) 0" if "i < 4" "j < 512" for i j
      proof -
        have "i = 0 \<or> i = 1 \<or> i = 2 \<or> i = 3" using that(1) by presburger
        then have "pdir_at pdir i \<in> set (init_tables pml4 pdpt pdir)" "pdir_at pdir i \<noteq> pml4"
          using ti by (auto simp: tables_ok_def init_tables_def)
        then show ?thesis using e(5) [OF that(2)] init32_entries(3) [OF ti that(2,1)] by simp
      qed
    qed
    then show ?thesis using 1 i by (simp add: address_space_def window_indices)
  next
    case 2
    have "identity_map va = None" using low_indices [of va] 2 by (simp add: identity_map_def)
    then show ?thesis using 2 i e(1) [OF l(1)] by (simp add: address_space_def window_indices walk_def Let_def)
  next
    case 3
    have n: "identity_map va = None" using low_indices [of va] 3 by (simp add: identity_map_def)
    have e4: "?M (entry_addr pml4 (unat (PML4_INDEX va))) = table_ent tp 0" using e(1) [OF l(1)] 3 by simp
    note w3 = walk_absent3 [of ?M pml4 va, OF e4 tp] and w2 = walk_absent2 [of ?M pml4 va, OF e4 tp]
      and w1 = walk_page [of ?M pml4 va, OF e4 tp]
    consider "unat (PDPT_INDEX va) = 508" | "unat (PDPT_INDEX va) = 504"
      | "unat (PDPT_INDEX va) \<noteq> 508" "unat (PDPT_INDEX va) \<noteq> 504" by blast
    then show ?thesis
    proof cases
      case p: 1
      have e3: "?M (entry_addr tp (unat (PDPT_INDEX va))) = table_ent (pdir_at td 0) 0" using e(2) [OF l(2)] p by simp
      have e2: "?M (entry_addr (pdir_at td 0) (unat (PDIR_INDEX va))) =
          (if unat (PDIR_INDEX va) = 0 then page_ent (drop_bit 21 g) 0 else 0)" using e(3) [OF l(3)] by simp
      show ?thesis using w1 [OF e3 td(1)] w2 [OF e3 td(1)] e2 3 p i n
        by (auto simp: address_space_def window_indices large_base [OF g(1)])
    next
      case p: 2
      have e3: "?M (entry_addr tp (unat (PDPT_INDEX va))) = table_ent (pdir_at td 1) 0" using e(2) [OF l(2)] p by simp
      have e2: "?M (entry_addr (pdir_at td 1) (unat (PDIR_INDEX va))) =
          (if unat (PDIR_INDEX va) = 0 then page_ent (drop_bit 21 b) 0 else 0)" using e(4) [OF l(3)] by simp
      show ?thesis using w1 [OF e3 td(2)] w2 [OF e3 td(2)] e2 3 p i n
        by (auto simp: address_space_def window_indices large_base [OF g(2)])
    next
      case p: 3
      show ?thesis using w3 e(2) [OF l(2)] p i n by (simp add: address_space_def window_indices)
    qed
  qed
qed



end
