(* ===== verification/Amd64Pic.thy ===== *)
theory Amd64Pic
  imports BitField
begin

text \<open>
  Interrupts of the bare-metal amd64 runtime: the interrupt descriptor table and inter-processor
  interrupts of \<open>arch/amd64/pic.c\<close>, the I/O APIC (\<open>arch/amd64/ioapic.h\<close>), the local APIC
  (\<open>arch/amd64/apic.h\<close>), the legacy devices that are turned off, and the search of the ACPI
  table for the I/O APIC (\<open>acpi.c\<close>). Devices are modelled by what their registers hold: the
  I/O APIC answers the data register with the register that was selected, the local APIC sends an
  interrupt when the low half of the command is written.
\<close>

subsection \<open>Devices\<close>

record ioapic =
  IOREGSEL :: u32
  ioregs :: "u8 \<Rightarrow> u32"

record apic_state =
  idt :: "128 word list"
  idtr :: "(u16 \<times> u64) option"
  IOAPIC_BASE :: u64
  ioapics :: "u64 \<Rightarrow> ioapic"
  lir :: u32
  lih :: u32
  sent :: "(u32 \<times> u32) list"
  eois :: nat
  lapic_msr :: u64
  ports :: "(u16 \<times> u8) list"
  cmos_select :: u8
  cmos :: "u8 \<Rightarrow> u8"
  amd64_myid :: u32

text \<open>
  Writes to ports are recorded; port 0x70 selects a register of the clock, port 0x71 holds it.
\<close>

definition sysOut8 :: "u16 \<Rightarrow> u8 \<Rightarrow> apic_state \<Rightarrow> apic_state" where
  "sysOut8 port v s =
     (let s = s\<lparr>ports := ports s @ [(port, v)]\<rparr>
      in if port = 0x70 then s\<lparr>cmos_select := v\<rparr>
         else if port = 0x71 then s\<lparr>cmos := (cmos s)(cmos_select s := v)\<rparr> else s)"

definition cmos_in :: "apic_state \<Rightarrow> u8" where "cmos_in s = cmos s (cmos_select s)"

subsection \<open>The interrupt descriptor table\<close>

text \<open>
  An \<open>idtdesc\<close> is two 64-bit words; its fields are \<open>offset_low\<close> 0 to 15, \<open>selector\<close> 16 to 31,
  \<open>ist\<close> 32 to 34, \<open>zero\<close> 35 to 39, \<open>type\<close> 40 to 43, \<open>s\<close> 44, \<open>dpl\<close> 45 and 46, \<open>p\<close> 47, \<open>offset_high\<close>
  48 to 95.
\<close>

definition idt_desc :: "u64 \<Rightarrow> 128 word \<Rightarrow> 128 word" where
  "idt_desc h d =
     (let d = set_field 0 16 (ucast (h AND 0xFFFF)) d;
          d = set_field 48 48 (ucast (drop_bit 16 h)) d;
          d = set_field 16 16 0x8 d;
          d = set_field 32 3 0 d;
          d = set_field 40 4 0xe d
      in set_field 47 1 1 d)"

definition idt_map_vec :: "u8 \<Rightarrow> u64 \<Rightarrow> apic_state \<Rightarrow> apic_state res" where
  "idt_map_vec vec h s =
     rbind (arr_get (idt s) (unat vec)) (\<lambda>d.
     rbind (arr_set (idt s) (unat vec) (idt_desc h d)) (\<lambda>t. Inr (s\<lparr>idt := t\<rparr>)))"

text \<open>\<open>isrtbl\<close> holds the addresses of the 256 stubs; \<open>base\<close> is the address of the table.\<close>

definition load_idtr :: "u64 \<Rightarrow> u16 \<Rightarrow> apic_state \<Rightarrow> apic_state" where
  "load_idtr base limit s = s\<lparr>idtr := Some (limit - 1, base)\<rparr>"

definition init_idt :: "u64 list \<Rightarrow> u64 \<Rightarrow> apic_state \<Rightarrow> apic_state res" where
  "init_idt isrtbl base s =
     (let s = s\<lparr>idt := map (\<lambda>_. 0) (idt s)\<rparr>
      in rbind (fold (\<lambda>i r. rbind r (\<lambda>s. rbind (arr_get isrtbl i) (\<lambda>h. idt_map_vec (of_nat i) h s)))
           [0..<256] (Inr s)) (\<lambda>s.
         Inr (load_idtr base (256 * 16) s)))"

definition amd64_numvec :: nat where "amd64_numvec = 256"

definition amd64_enable :: "nat \<Rightarrow> apic_state \<Rightarrow> apic_state res" where
  "amd64_enable vec s =
     rbind (lrt_assert (vec < amd64_numvec)) (\<lambda>_.
     rbind (arr_get (idt s) vec) (\<lambda>d.
     rbind (arr_set (idt s) vec (set_field 47 1 1 d)) (\<lambda>t. Inr (s\<lparr>idt := t\<rparr>))))"

definition AMD64_IPI_VEC :: u8 where "AMD64_IPI_VEC = 32"

definition amd64_getIPIvec :: u8 where "amd64_getIPIvec = AMD64_IPI_VEC"

definition amd64_mapipi :: "u64 \<Rightarrow> apic_state \<Rightarrow> apic_state res" where
  "amd64_mapipi h = idt_map_vec amd64_getIPIvec h"

definition amd64_enableipi :: "apic_state \<Rightarrow> apic_state res" where
  "amd64_enableipi = amd64_enable (unat AMD64_IPI_VEC)"

subsection \<open>The local APIC\<close>

definition get_lapic_id :: "apic_state \<Rightarrow> u32" where "get_lapic_id s = get_field 24 8 (lir s)"

definition enable_lapic :: "apic_state \<Rightarrow> apic_state" where
  "enable_lapic s = s\<lparr>lapic_msr := lapic_msr s OR push_bit 11 1\<rparr>"

definition send_ipi :: "u32 \<Rightarrow> u32 \<Rightarrow> apic_state \<Rightarrow> apic_state" where
  "send_ipi icr_low icr_high s =
     (let s = s\<lparr>lih := icr_high\<rparr> in s\<lparr>sent := sent s @ [(icr_low, lih s)]\<rparr>)"

definition send_eoi :: "apic_state \<Rightarrow> apic_state" where
  "send_eoi s = s\<lparr>eois := eois s + 1\<rparr>"

text \<open>Fields of the command: \<open>vector\<close> 0 to 7, \<open>delivery_mode\<close> 8 to 10, \<open>level\<close> 14,
  \<open>destination_shorthand\<close> 18 and 19; of its high half \<open>destination\<close> 24 to 31.\<close>

definition amd64_pic_ipi :: "u64 \<Rightarrow> apic_state \<Rightarrow> int \<times> apic_state" where
  "amd64_pic_ipi i s =
     (let icr_low = 0;
          icr_low = set_field 0 8 (ucast amd64_getIPIvec) icr_low;
          icr_low = set_field 14 1 1 icr_low;
          icr_low = set_field 18 2 0 icr_low;
          icr_high = 0;
          icr_high = set_field 24 8 (ucast i) icr_high
      in (1, send_ipi icr_low icr_high s))"

definition amd64_ackipi :: "apic_state \<Rightarrow> apic_state" where "amd64_ackipi = send_eoi"

text \<open>Not implemented: these assert, or answer for one processor.\<close>

definition amd64_pic_NYI :: "int res" where "amd64_pic_NYI = Inl AssertFail"
definition amd64_getnumlpics :: nat where "amd64_getnumlpics = 1"
definition amd64_getnextlpic :: "u64 \<Rightarrow> u64" where "amd64_getnextlpic c = c"

subsection \<open>The I/O APIC\<close>

definition IOAPIC_VERSION :: u8 where "IOAPIC_VERSION = 1"
definition IOAPIC_REDTBL_START :: u8 where "IOAPIC_REDTBL_START = 0x10"

definition io_select :: "u32 \<Rightarrow> apic_state \<Rightarrow> apic_state" where
  "io_select r s = s\<lparr>ioapics := (ioapics s)(IOAPIC_BASE s := (ioapics s (IOAPIC_BASE s))\<lparr>IOREGSEL := r\<rparr>)\<rparr>"

definition io_read :: "apic_state \<Rightarrow> u32" where
  "io_read s = (let d = ioapics s (IOAPIC_BASE s) in ioregs d (ucast (IOREGSEL d)))"

definition io_write :: "u32 \<Rightarrow> apic_state \<Rightarrow> apic_state" where
  "io_write v s =
     (let d = ioapics s (IOAPIC_BASE s)
      in s\<lparr>ioapics := (ioapics s)(IOAPIC_BASE s := d\<lparr>ioregs := (ioregs d)(ucast (IOREGSEL d) := v)\<rparr>)\<rparr>)"

text \<open>An \<open>ioredirect\<close> is a pair of words: \<open>intvec\<close> is bits 0 to 7 and \<open>mask\<close> bit 16 of the first,
  \<open>destination\<close> bits 24 to 31 of the second.\<close>

definition ioapic_read_ioredirect :: "u8 \<Rightarrow> apic_state \<Rightarrow> ((u32 \<times> u32) \<times> apic_state) res" where
  "ioapic_read_ioredirect interrupt s =
     rbind (lrt_assert (interrupt \<le> 23)) (\<lambda>_.
     let reg = ucast IOAPIC_REDTBL_START + ucast interrupt * 2;
         s = io_select reg s; v0 = io_read s;
         s = io_select (reg + 1) s; v1 = io_read s
     in Inr ((v0, v1), s))"

definition ioapic_write_ioredirect :: "u8 \<Rightarrow> u32 \<times> u32 \<Rightarrow> apic_state \<Rightarrow> apic_state res" where
  "ioapic_write_ioredirect interrupt ior s =
     rbind (lrt_assert (interrupt \<le> 23)) (\<lambda>_.
     let reg = ucast IOAPIC_REDTBL_START + ucast interrupt * 2
     in Inr (io_write (snd ior) (io_select (reg + 1) (io_write (fst ior) (io_select reg s)))))"

definition ioapic_disable_interrupt :: "u8 \<Rightarrow> apic_state \<Rightarrow> apic_state res" where
  "ioapic_disable_interrupt interrupt s =
     rbind (ioapic_read_ioredirect interrupt s) (\<lambda>((v0, v1), s).
     ioapic_write_ioredirect interrupt (set_field 16 1 1 v0, v1) s)"

definition ioapic_enable_interrupt :: "u8 \<Rightarrow> apic_state \<Rightarrow> apic_state res" where
  "ioapic_enable_interrupt interrupt s =
     rbind (ioapic_read_ioredirect interrupt s) (\<lambda>((v0, v1), s).
     ioapic_write_ioredirect interrupt (set_field 16 1 0 v0, v1) s)"

definition ioapic_map_vec :: "u8 \<Rightarrow> u8 \<Rightarrow> apic_state \<Rightarrow> apic_state res" where
  "ioapic_map_vec interrupt vector s =
     rbind (lrt_assert (0x10 \<le> vector \<and> vector \<le> 0xFE)) (\<lambda>_.
     rbind (ioapic_read_ioredirect interrupt s) (\<lambda>((v0, v1), s).
     ioapic_write_ioredirect interrupt (v0, set_field 24 8 (ucast vector) v1) s))"

definition init_ioapic :: "u64 \<Rightarrow> apic_state \<Rightarrow> apic_state res" where
  "init_ioapic ioapic_addr s =
     (let s = s\<lparr>IOAPIC_BASE := ioapic_addr\<rparr>;
          s = io_select (ucast IOAPIC_VERSION) s; ver = io_read s
      in rbind (lrt_assert (get_field 0 8 ver = 0x11)) (\<lambda>_.
         fold (\<lambda>i r. rbind r (ioapic_disable_interrupt (of_nat i))) [0..<24] (Inr s)))"

subsection \<open>Legacy devices\<close>

definition disable_pic :: "apic_state \<Rightarrow> apic_state" where
  "disable_pic s = sysOut8 (0xa0 + 1) 0xFF (sysOut8 (0x20 + 1) 0xFF s)"

definition disable_pit :: "apic_state \<Rightarrow> apic_state" where
  "disable_pit s = sysOut8 0x43 0x30 (sysOut8 0x40 0x00 s)"

definition CMOS_STATUS_B :: u8 where "CMOS_STATUS_B = 0xB"
definition CMOS_STATUS_C :: u8 where "CMOS_STATUS_C = 0xC"

text \<open>The last read, of register C, only has its effect in the device.\<close>

definition disable_rtc :: "apic_state \<Rightarrow> apic_state" where
  "disable_rtc s =
     (let s = sysOut8 0x70 CMOS_STATUS_B s;
          status_b = cmos_in s;
          status_b = status_b AND NOT (push_bit 4 1 OR push_bit 5 1 OR push_bit 6 1);
          s = sysOut8 0x70 CMOS_STATUS_B s;
          s = sysOut8 0x71 status_b s
      in sysOut8 0x70 CMOS_STATUS_C s)"

subsection \<open>The search for the I/O APIC\<close>

definition PROCESSOR_LOCAL_APIC :: u8 where "PROCESSOR_LOCAL_APIC = 0"
definition IO_APIC :: u8 where "IO_APIC = 1"
definition INTERRUPT_SOURCE_OVERRIDE :: u8 where "INTERRUPT_SOURCE_OVERRIDE = 2"

definition read32 :: "(u64 \<Rightarrow> u8) \<Rightarrow> u64 \<Rightarrow> u32" where
  "read32 mem p = ucast (mem p) OR push_bit 8 (ucast (mem (p + 1))) OR push_bit 16 (ucast (mem (p + 2))) OR
     push_bit 24 (ucast (mem (p + 3)))"

definition ioapic_address :: "(u64 \<Rightarrow> u8) \<Rightarrow> u64 \<Rightarrow> u64" where
  "ioapic_address mem p = ucast (read32 mem (p + 4))"

text \<open>
  The loop over the structures of the table: \<open>length\<close> is the second byte of a structure. \<open>None\<close> is
  a loop that does not end.
\<close>

partial_function (option) madt_loop ::
    "(u64 \<Rightarrow> u8) \<Rightarrow> u64 \<Rightarrow> u32 \<Rightarrow> u8 \<Rightarrow> apic_state \<Rightarrow> apic_state res option" where
  "madt_loop mem ptr sz nio s =
     (let t = mem ptr; len = mem (ptr + 1);
          sz' = sz - ucast len; ptr' = ptr + ucast len
      in if t = PROCESSOR_LOCAL_APIC then
           (if sz' > 0 then madt_loop mem ptr' sz' nio s else Some (Inr s))
         else if t = IO_APIC then
           (case rbind (init_ioapic (ioapic_address mem ptr) s) (\<lambda>s.
              rbind (lrt_assert (nio + 1 < 2)) (\<lambda>_. Inr s)) of
              Inl e \<Rightarrow> Some (Inl e)
            | Inr s \<Rightarrow> if sz' > 0 then madt_loop mem ptr' sz' (nio + 1) s else Some (Inr s))
         else if t = INTERRUPT_SOURCE_OVERRIDE then
           (if sz' > 0 then madt_loop mem ptr' sz' nio s else Some (Inr s))
         else Some (Inl AssertFail))"

text \<open>
  \<open>acpi_init\<close>, given what ACPICA answers: whether the tables could be initialised, and the
  address of the table named APIC. Its header has 36 bytes, with the length of the table at
  offset 4; \<open>sizeof(madt)\<close> is 44.
\<close>

definition acpi_init :: "bool \<Rightarrow> u64 option \<Rightarrow> (u64 \<Rightarrow> u8) \<Rightarrow> apic_state \<Rightarrow> apic_state res" where
  "acpi_init tables madt mem s =
     rbind (lrt_assert tables) (\<lambda>_.
     case madt of
       None \<Rightarrow> Inl AssertFail
     | Some p \<Rightarrow> returns (madt_loop mem (p + 44) (read32 mem (p + 4) - 44) 0 s))"

subsection \<open>Initialisation\<close>

text \<open>The result of \<open>lrt_pic_loop\<close> is the state in which the processor halts with interrupts on.\<close>

definition amd64_pic_loop :: "apic_state \<Rightarrow> apic_state" where
  "amd64_pic_loop s = snd (amd64_pic_ipi (ucast (amd64_myid s)) s)"

definition amd64_pic_init ::
    "bool \<Rightarrow> u64 list \<Rightarrow> u64 \<Rightarrow> bool \<Rightarrow> u64 option \<Rightarrow> (u64 \<Rightarrow> u8) \<Rightarrow> u64 \<Rightarrow> apic_state \<Rightarrow> apic_state res" where
  "amd64_pic_init has_lapic isrtbl idt_base tables madt mem h s =
     rbind (lrt_assert has_lapic) (\<lambda>_.
     rbind (init_idt isrtbl idt_base s) (\<lambda>s.
     let s = disable_rtc (disable_pit (disable_pic s)) in
     rbind (acpi_init tables madt mem s) (\<lambda>s.
     let s = enable_lapic s; s = s\<lparr>amd64_myid := get_lapic_id s\<rparr> in
     rbind (amd64_mapipi h s) (\<lambda>s. Inr (amd64_pic_loop s)))))"

end
