(* ===== verification/Amd64PicProps.thy ===== *)
theory Amd64PicProps
  imports Amd64Pic
begin

text \<open>Which handler an interrupt of the amd64 runtime reaches, and what the I/O APIC lets through.\<close>

subsection \<open>Gates\<close>

text \<open>What the processor reads from a descriptor: the handler, if it is a usable interrupt gate.\<close>

definition gate_offset :: "128 word \<Rightarrow> u64" where
  "gate_offset d = ucast (get_field 0 16 d) OR push_bit 16 (ucast (get_field 48 48 d))"

definition gate :: "128 word \<Rightarrow> u64 option" where
  "gate d = (if get_field 47 1 d = 1 \<and> get_field 40 4 d = 0xe \<and> get_field 44 1 d = 0 \<and> get_field 16 16 d = 8
      \<and> get_field 32 3 d = 0 then Some (gate_offset d) else None)"

lemma gate_idt_desc:
  assumes "get_field 44 1 d = 0"
  shows "gate (idt_desc h d) = Some h"
proof -
  have m: "(0xFFFF :: u64) = mask 16" by (simp add: mask_eq_exp_minus_1)
  have "gate_offset (idt_desc h d) = h"
  proof (rule bit_word_eqI)
    fix i assume "i < LENGTH(64)"
    then show "bit (gate_offset (idt_desc h d)) i = bit h i"
      unfolding idt_desc_def m
      by (cases "i < 16")
        (auto simp: gate_offset_def Let_def get_set_same get_set_other bit_or_iff bit_ucast_iff
          bit_take_bit_iff bit_push_bit_iff bit_and_iff bit_mask_iff bit_drop_bit_eq)
  qed
  then show ?thesis using assms
    by (simp add: gate_def idt_desc_def Let_def get_set_same get_set_other take_bit_eq_mod)
qed

lemma idt_map_vec_ok:
  "length (idt s) = 256 \<Longrightarrow>
   idt_map_vec vec h s = Inr (s\<lparr>idt := (idt s)[unat vec := idt_desc h (idt s ! unat vec)]\<rparr>)"
  using unsigned_less [of vec, where 'a = nat] by (simp add: idt_map_vec_def)

lemma init_idt_loop:
  assumes "length (idt s) = 256" "length isrtbl = 256" "n \<le> 256"
  shows "fold (\<lambda>i r. rbind r (\<lambda>s. rbind (arr_get isrtbl i) (\<lambda>h. idt_map_vec (of_nat i) h s))) [0..<n] (Inr s) =
    Inr (s\<lparr>idt := map (\<lambda>i. if i < n then idt_desc (isrtbl ! i) (idt s ! i) else idt s ! i) [0..<256]\<rparr>)"
  using assms(3)
proof (induction n)
  case 0
  have "map (\<lambda>i. idt s ! i) [0..<256] = idt s" using map_nth [of "idt s"] assms(1) by simp
  then show ?case by simp
next
  case (Suc n)
  have u: "unat (of_nat n :: u8) = n" using Suc.prems by (simp add: unat_of_nat)
  have l: "(map (\<lambda>i. if i < n then f i else g i) [0..<256])[n := f n] = map (\<lambda>i. if i < Suc n then f i else g i) [0..<256]"
    for f g :: "nat \<Rightarrow> 128 word" by (auto intro!: nth_equalityI simp: nth_list_update less_Suc_eq)
  show ?case using Suc assms(2) unfolding upt_Suc_append [OF le0]
    using l [of "\<lambda>i. idt_desc (isrtbl ! i) (idt s ! i)" "\<lambda>i. idt s ! i"] by (simp add: idt_map_vec_ok u)
qed

lemma init_idt_ok:
  assumes "length (idt s) = 256" "length isrtbl = 256"
  shows "init_idt isrtbl base s =
    Inr (s\<lparr>idt := map (\<lambda>i. idt_desc (isrtbl ! i) 0) [0..<256], idtr := Some (4095, base)\<rparr>)"
proof -
  have "map (\<lambda>i. if i < 256 then idt_desc (isrtbl ! i) (map (\<lambda>_. 0) (idt s) ! i) else map (\<lambda>_. 0) (idt s) ! i) [0..<256] =
      map (\<lambda>i. idt_desc (isrtbl ! i) 0) [0..<256]"
    using assms(1) by simp
  then show ?thesis
    using init_idt_loop [of "s\<lparr>idt := map (\<lambda>_. 0) (idt s)\<rparr>" isrtbl 256] assms
    by (simp add: init_idt_def load_idtr_def)
qed

subsection \<open>The I/O APIC\<close>

abbreviation the_ioapic :: "apic_state \<Rightarrow> ioapic" where "the_ioapic s \<equiv> ioapics s (IOAPIC_BASE s)"

text \<open>The two registers of an input.\<close>

definition redir :: "ioapic \<Rightarrow> nat \<Rightarrow> u32 \<times> u32" where
  "redir d i = (ioregs d (0x10 + 2 * of_nat i), ioregs d (0x11 + 2 * of_nat i))"

definition masked :: "ioapic \<Rightarrow> nat \<Rightarrow> bool" where
  "masked d i \<longleftrightarrow> get_field 16 1 (fst (redir d i)) = 1"

definition set_ioapic :: "ioapic \<Rightarrow> apic_state \<Rightarrow> apic_state" where
  "set_ioapic d s = s\<lparr>ioapics := (ioapics s)(IOAPIC_BASE s := d)\<rparr>"

lemma io_registers:
  assumes "n < 24"
  shows "ucast (0x10 + ucast (of_nat n :: u8) * 2 :: u32) = (0x10 + 2 * of_nat n :: u8)"
    "ucast (0x10 + ucast (of_nat n :: u8) * 2 + 1 :: u32) = (0x11 + 2 * of_nat n :: u8)"
    "(of_nat n :: u8) \<le> 23"
proof -
  have "\<forall>n \<in> set [0..<24]. ucast (0x10 + ucast (of_nat n :: u8) * 2 :: u32) = (0x10 + 2 * of_nat n :: u8) \<and>
      ucast (0x10 + ucast (of_nat n :: u8) * 2 + 1 :: u32) = (0x11 + 2 * of_nat n :: u8) \<and> (of_nat n :: u8) \<le> 23"
    by (simp add: upt_rec)
  then show "ucast (0x10 + ucast (of_nat n :: u8) * 2 :: u32) = (0x10 + 2 * of_nat n :: u8)"
    "ucast (0x10 + ucast (of_nat n :: u8) * 2 + 1 :: u32) = (0x11 + 2 * of_nat n :: u8)" "(of_nat n :: u8) \<le> 23"
    using assms by simp_all
qed

lemma read_ioredirect:
  assumes "n < 24"
  shows "\<exists>r. ioapic_read_ioredirect (of_nat n) s = Inr (redir (the_ioapic s) n, set_ioapic ((the_ioapic s)\<lparr>IOREGSEL := r\<rparr>) s)"
  using io_registers [OF assms]
  by (auto simp: ioapic_read_ioredirect_def Let_def io_select_def io_read_def set_ioapic_def redir_def IOAPIC_REDTBL_START_def)

lemma modify_ioredirect:
  assumes "n < 24"
  shows "\<exists>r. rbind (ioapic_read_ioredirect (of_nat n) s) (\<lambda>((v0, v1), s). ioapic_write_ioredirect (of_nat n) (f v0, g v1) s) =
    Inr (set_ioapic ((the_ioapic s)\<lparr>IOREGSEL := r, ioregs := (ioregs (the_ioapic s))
      (0x10 + 2 * of_nat n := f (fst (redir (the_ioapic s) n)), 0x11 + 2 * of_nat n := g (snd (redir (the_ioapic s) n)))\<rparr>) s)"
proof -
  obtain r where r: "ioapic_read_ioredirect (of_nat n) s = Inr (redir (the_ioapic s) n, set_ioapic ((the_ioapic s)\<lparr>IOREGSEL := r\<rparr>) s)"
    using read_ioredirect [OF assms] by blast
  show ?thesis unfolding r using io_registers [OF assms]
    by (auto simp: ioapic_write_ioredirect_def Let_def io_select_def io_write_def set_ioapic_def redir_def IOAPIC_REDTBL_START_def)
qed

text \<open>Registers of different inputs differ.\<close>

lemma io_register_inj:
  assumes "n < 24" "k < 24"
  shows "(0x10 + 2 * of_nat n :: u8) = 0x10 + 2 * of_nat k \<longleftrightarrow> n = k" "(0x11 + 2 * of_nat n :: u8) = 0x11 + 2 * of_nat k \<longleftrightarrow> n = k"
    "(0x10 + 2 * of_nat n :: u8) \<noteq> 0x11 + 2 * of_nat k"
proof -
  have u: "unat (0x10 + 2 * of_nat j :: u8) = 16 + 2 * j" "unat (0x11 + 2 * of_nat j :: u8) = 17 + 2 * j" if "j < 24" for j
    using that by (simp_all add: unat_word_ariths unat_of_nat)
  show "(0x10 + 2 * of_nat n :: u8) = 0x10 + 2 * of_nat k \<longleftrightarrow> n = k" "(0x11 + 2 * of_nat n :: u8) = 0x11 + 2 * of_nat k \<longleftrightarrow> n = k"
    unfolding word_eq_iff_unsigned [where 'a = nat] using u [OF assms(1)] u [OF assms(2)] by simp_all
  have "16 + 2 * n \<noteq> 17 + 2 * k" by presburger
  then show "(0x10 + 2 * of_nat n :: u8) \<noteq> 0x11 + 2 * of_nat k"
    unfolding word_eq_iff_unsigned [where 'a = nat] using u [OF assms(1)] u [OF assms(2)] by simp
qed

lemma masked_other: "masked d n \<longleftrightarrow> get_field 16 1 (ioregs d (0x10 + 2 * of_nat n)) = 1"
  by (simp add: masked_def redir_def)

text \<open>What masking the inputs below \<open>n\<close> makes of the registers.\<close>

definition mask_below :: "nat \<Rightarrow> (u8 \<Rightarrow> u32) \<Rightarrow> u8 \<Rightarrow> u32" where
  "mask_below n rs r = (if \<exists>i < n. r = 0x10 + 2 * of_nat i then set_field 16 1 1 (rs r) else rs r)"

lemma mask_step:
  assumes "n < 24"
  shows "(mask_below n rs)(0x10 + 2 * of_nat n := set_field 16 1 1 (mask_below n rs (0x10 + 2 * of_nat n)),
    0x11 + 2 * of_nat n := mask_below n rs (0x11 + 2 * of_nat n)) = mask_below (Suc n) rs"
proof
  fix r
  have "\<not> (\<exists>i < n. (0x10 + 2 * of_nat n :: u8) = 0x10 + 2 * of_nat i)" using io_register_inj(1) assms by auto
  then show "((mask_below n rs)(0x10 + 2 * of_nat n := set_field 16 1 1 (mask_below n rs (0x10 + 2 * of_nat n)),
    0x11 + 2 * of_nat n := mask_below n rs (0x11 + 2 * of_nat n))) r = mask_below (Suc n) rs r"
    using io_register_inj(3) [OF _ assms] assms
    by (cases "r = 0x11 + 2 * of_nat n") (auto simp: mask_below_def less_Suc_eq)
qed

lemma mask_loop:
  "n \<le> 24 \<Longrightarrow> \<exists>r. fold (\<lambda>i r. rbind r (ioapic_disable_interrupt (of_nat i))) [0..<n] (Inr s) =
     Inr (set_ioapic \<lparr>IOREGSEL = r, ioregs = mask_below n (ioregs (the_ioapic s))\<rparr> s)"
proof (induction n)
  case 0
  have "\<lparr>IOREGSEL = IOREGSEL (the_ioapic s), ioregs = mask_below 0 (ioregs (the_ioapic s))\<rparr> = the_ioapic s"
    by (cases "the_ioapic s") (simp add: mask_below_def fun_eq_iff)
  then have "s = set_ioapic \<lparr>IOREGSEL = IOREGSEL (the_ioapic s), ioregs = mask_below 0 (ioregs (the_ioapic s))\<rparr> s"
    by (simp add: set_ioapic_def)
  then show ?case by auto
next
  case (Suc n)
  let ?rs = "ioregs (the_ioapic s)"
  obtain r where r: "fold (\<lambda>i r. rbind r (ioapic_disable_interrupt (of_nat i))) [0..<n] (Inr s) =
      Inr (set_ioapic \<lparr>IOREGSEL = r, ioregs = mask_below n ?rs\<rparr> s)" using Suc by auto
  let ?s = "set_ioapic \<lparr>IOREGSEL = r, ioregs = mask_below n ?rs\<rparr> s"
  have n: "n < 24" using Suc.prems by simp
  obtain r' where r': "ioapic_disable_interrupt (of_nat n) ?s = Inr (set_ioapic ((the_ioapic ?s)\<lparr>IOREGSEL := r',
      ioregs := (ioregs (the_ioapic ?s))(0x10 + 2 * of_nat n := set_field 16 1 1 (fst (redir (the_ioapic ?s) n)),
        0x11 + 2 * of_nat n := snd (redir (the_ioapic ?s) n))\<rparr>) ?s)"
    using modify_ioredirect [OF n, of ?s "set_field 16 1 1" "\<lambda>v. v"] unfolding ioapic_disable_interrupt_def by auto
  have "ioapic_disable_interrupt (of_nat n) ?s = Inr (set_ioapic \<lparr>IOREGSEL = r', ioregs = mask_below (Suc n) ?rs\<rparr> s)"
    unfolding r' mask_step [OF n, symmetric] by (simp add: set_ioapic_def redir_def)
  then show ?case using r unfolding upt_Suc_append [OF le0] by auto
qed

lemma init_ioapic_ok:
  assumes "get_field 0 8 (ioregs (ioapics s addr) 1) = 0x11"
  shows "\<exists>r. init_ioapic addr s =
    Inr (s\<lparr>IOAPIC_BASE := addr, ioapics := (ioapics s)(addr := \<lparr>IOREGSEL = r, ioregs = mask_below 24 (ioregs (ioapics s addr))\<rparr>)\<rparr>)"
proof -
  let ?s = "io_select 1 (s\<lparr>IOAPIC_BASE := addr\<rparr>)"
  have v: "io_read ?s = ioregs (ioapics s addr) 1" by (simp add: io_read_def io_select_def Let_def)
  obtain r where "fold (\<lambda>i r. rbind r (ioapic_disable_interrupt (of_nat i))) [0..<24] (Inr ?s) =
      Inr (set_ioapic \<lparr>IOREGSEL = r, ioregs = mask_below 24 (ioregs (the_ioapic ?s))\<rparr> ?s)" using mask_loop [of 24 ?s] by auto
  then have "init_ioapic addr s = Inr (set_ioapic \<lparr>IOREGSEL = r, ioregs = mask_below 24 (ioregs (the_ioapic ?s))\<rparr> ?s)"
    using assms v by (simp add: init_ioapic_def Let_def IOAPIC_VERSION_def)
  then show ?thesis by (auto simp: set_ioapic_def io_select_def)
qed

lemma init_ioapic_bad:
  "get_field 0 8 (ioregs (ioapics s addr) 1) \<noteq> 0x11 \<Longrightarrow> init_ioapic addr s = Inl AssertFail"
  by (simp add: init_ioapic_def Let_def IOAPIC_VERSION_def io_read_def io_select_def)

lemma masked_below: "i < n \<Longrightarrow> n \<le> 24 \<Longrightarrow> masked \<lparr>IOREGSEL = r, ioregs = mask_below n rs\<rparr> i"
  by (auto simp: masked_other mask_below_def get_set_same)

subsection \<open>The ACPI table\<close>

text \<open>The structures of a table, as types and lengths, from an address on.\<close>

fun structures_at :: "(u64 \<Rightarrow> u8) \<Rightarrow> u64 \<Rightarrow> (u8 \<times> u8) list \<Rightarrow> bool" where
  "structures_at mem p [] = True"
| "structures_at mem p ((t, l) # es) = (mem p = t \<and> mem (p + 1) = l \<and> structures_at mem (p + ucast l) es)"

text \<open>The reference: the structures in order, with a table that has at most one I/O APIC.\<close>

fun madt_spec :: "(u64 \<Rightarrow> u8) \<Rightarrow> u64 \<Rightarrow> (u8 \<times> u8) list \<Rightarrow> bool \<Rightarrow> apic_state \<Rightarrow> apic_state res" where
  "madt_spec mem p [] seen s = Inr s"
| "madt_spec mem p ((t, l) # es) seen s =
     (if t = 0 \<or> t = 2 then madt_spec mem (p + ucast l) es seen s
      else if t = 1 then
        rbind (init_ioapic (ioapic_address mem p) s) (\<lambda>s.
        if seen then Inl AssertFail else madt_spec mem (p + ucast l) es True s)
      else Inl AssertFail)"

lemma madt_types: "PROCESSOR_LOCAL_APIC = 0" "IO_APIC = 1" "INTERRUPT_SOURCE_OVERRIDE = 2"
  by (simp_all add: PROCESSOR_LOCAL_APIC_def IO_APIC_def INTERRUPT_SOURCE_OVERRIDE_def)

lemma remaining_size:
  assumes "sum_list (map (\<lambda>(t, l). unat (l :: u8)) ((t, l) # es)) = unat (sz :: u32)" "\<forall>(t, l) \<in> set es. l > 0"
  shows "unat (sz - ucast l) = sum_list (map (\<lambda>(t, l). unat l) es)" "sz - ucast l > 0 \<longleftrightarrow> es \<noteq> []"
proof -
  have u: "unat (ucast l :: u32) = unat l"
  proof -
    have "unat (ucast l :: u32) = take_bit LENGTH(32) (unat l)" by (rule unsigned_ucast_eq)
    moreover have "unat l < 256" using unsigned_less [of l, where 'a = nat] by simp
    ultimately show ?thesis by (simp add: take_bit_nat_eq_self)
  qed
  then have "(ucast l :: u32) \<le> sz" using assms(1) by (simp add: word_le_nat_alt)
  then show e: "unat (sz - ucast l) = sum_list (map (\<lambda>(t, l). unat l) es)"
    using assms(1) u by (simp add: unat_sub)
  show "sz - ucast l > 0 \<longleftrightarrow> es \<noteq> []"
  proof (cases es)
    case Nil
    then show ?thesis using e by (simp add: unsigned_eq_0_iff)
  next
    case (Cons a es')
    then have "unat (snd a) > 0" using assms(2) by (auto simp: word_less_nat_alt)
    then have "unat (sz - ucast l) > 0" unfolding e Cons by (simp add: case_prod_beta)
    then show ?thesis using Cons by (simp add: word_less_nat_alt)
  qed
qed

lemma madt_loop_spec:
  assumes "structures_at mem p es" "es \<noteq> []" "\<forall>(t, l) \<in> set es. l > 0"
    "sum_list (map (\<lambda>(t, l). unat l) es) = unat sz"
  shows "madt_loop mem p sz (if seen then 1 else 0) s = Some (madt_spec mem p es seen s)"
  using assms
proof (induction es arbitrary: p sz seen s)
  case (Cons e es)
  obtain t l where e: "e = (t, l)" by (cases e)
  have h: "mem p = t" "mem (p + 1) = l" "structures_at mem (p + ucast l) es" "\<forall>(t, l) \<in> set es. l > 0"
    "sum_list (map (\<lambda>(t, l). unat l) ((t, l) # es)) = unat sz" using Cons.prems e by auto
  note rs = remaining_size [OF h(5,4)]
  have next': "(if sz - ucast l > 0 then madt_loop mem (p + ucast l) (sz - ucast l) (if seen' then 1 else 0) s' else Some (Inr s')) =
      Some (madt_spec mem (p + ucast l) es seen' s')" for seen' s'
    using Cons.IH [OF h(3) _ h(4) rs(1) [symmetric], of seen' s'] rs(2) by (cases "es = []") simp_all
  note n1 = next' [of True, unfolded if_True] and n2 = next' [of seen]
  show ?case
  proof (cases "t = 0 \<or> t = 2")
    case True
    then show ?thesis using n2 [of s] h(1,2) e by (subst madt_loop.simps) (auto simp: madt_types Let_def)
  next
    case nt: False
    show ?thesis
    proof (cases "t = 1")
      case True
      show ?thesis
      proof (cases "init_ioapic (ioapic_address mem p) s")
        case (Inl a)
        then show ?thesis using True h(1) e by (subst madt_loop.simps) (simp add: madt_types Let_def)
      next
        case (Inr s1)
        have "madt_loop mem p sz (if seen then 1 else 0) s = (if seen then Some (Inl AssertFail)
            else if sz - ucast l > 0 then madt_loop mem (p + ucast l) (sz - ucast l) 1 s1 else Some (Inr s1))"
          using True h(1,2) Inr by (subst madt_loop.simps) (simp add: madt_types Let_def)
        then show ?thesis unfolding n1 using True e Inr by simp
      qed
    next
      case False
      then show ?thesis using nt h(1) e by (subst madt_loop.simps) (simp add: madt_types Let_def)
    qed
  qed
qed simp

text \<open>A structure of length 0 keeps the loop where it is.\<close>

lemma madt_zero_length:
  assumes "mem ptr = 0 \<or> mem ptr = 2" "mem (ptr + 1) = 0" "sz > 0"
  shows "madt_loop mem ptr sz n s = None"
proof -
  have "\<not> ((m p = 0 \<or> m p = 2) \<and> m (p + 1) = 0 \<and> z > 0)" if "madt_loop m p z k t = Some r" for m p z k t r
  proof (rule madt_loop.raw_induct [of "\<lambda>m p z k t r. \<not> ((m p = 0 \<or> m p = 2) \<and> m (p + 1) = 0 \<and> z > 0)", OF _ that])
    fix loop m p z k t r
    assume IH: "\<And>m p z k t r. loop m p z k t = Some r \<Longrightarrow> \<not> ((m p = 0 \<or> m p = 2) \<and> m (p + 1) = 0 \<and> z > 0)"
      and run: "(let ty = m p; len = m (p + 1); z' = z - ucast len; p' = p + ucast len
        in if ty = PROCESSOR_LOCAL_APIC then (if z' > 0 then loop m p' z' k t else Some (Inr t))
           else if ty = IO_APIC then
             (case rbind (init_ioapic (ioapic_address m p) t) (\<lambda>s. rbind (lrt_assert (k + 1 < 2)) (\<lambda>_. Inr s)) of
                Inl e \<Rightarrow> Some (Inl e) | Inr s \<Rightarrow> if z' > 0 then loop m p' z' (k + 1) s else Some (Inr s))
           else if ty = INTERRUPT_SOURCE_OVERRIDE then (if z' > 0 then loop m p' z' k t else Some (Inr t))
           else Some (Inl AssertFail)) = Some r"
    show "\<not> ((m p = 0 \<or> m p = 2) \<and> m (p + 1) = 0 \<and> z > 0)"
    proof
      assume a: "(m p = 0 \<or> m p = 2) \<and> m (p + 1) = 0 \<and> z > 0"
      then have "loop m p z k t = Some r" using run by (auto simp: madt_types Let_def)
      then show False using IH a by blast
    qed
  qed
  then show ?thesis using assms by (cases "madt_loop mem ptr sz n s") blast+
qed

text \<open>
  The search of the ACPI table, against a reference that reads the structures as a list. For a
  table that is not empty, whose structures have positive lengths that add up to the size in the
  header, the loop with its 32-bit counter ends and does what the reference does: it sets up the
  I/O APIC it finds, and fails an assertion for a second one or for a structure of another type.
\<close>

theorem madt_search_refines:
  assumes "structures_at mem (p + 44) es" "es \<noteq> []" "\<forall>(t, l) \<in> set es. l > 0"
    and "unat (read32 mem (p + 4)) = 44 + sum_list (map (\<lambda>(t, l). unat l) es)"
  shows "acpi_init True (Some p) mem s = madt_spec mem (p + 44) es False s"
proof -
  have "unat (read32 mem (p + 4) - 44) = sum_list (map (\<lambda>(t, l). unat l) es)"
    using assms(4) by (simp add: unat_sub word_le_nat_alt)
  then show ?thesis using madt_loop_spec [OF assms(1-3), of "read32 mem (p + 4) - 44" False s]
    by (simp add: acpi_init_def)
qed

subsection \<open>Initialisation\<close>

definition skip :: "u64 \<Rightarrow> (u8 \<times> u8) list \<Rightarrow> u64" where
  "skip p es = foldl (\<lambda>p (t, l). p + ucast l) p es"

lemma madt_spec_skip:
  "\<forall>(t, l) \<in> set pre. t = 0 \<or> t = 2 \<Longrightarrow> madt_spec mem p (pre @ es) seen s = madt_spec mem (skip p pre) es seen s"
  by (induction pre arbitrary: p) (auto simp: skip_def)

lemma madt_spec_one:
  assumes "\<forall>(t, l) \<in> set (pre @ post). t = 0 \<or> t = 2"
  shows "madt_spec mem p (pre @ (1, l) # post) False s = init_ioapic (ioapic_address mem (skip p pre)) s"
proof -
  have "madt_spec mem q post True s' = Inr s'" for q s'
    using madt_spec_skip [of post mem q "[]" True s'] assms by auto
  then show ?thesis using madt_spec_skip [of pre mem p "(1, l) # post" False s] assms
    by (cases "init_ioapic (ioapic_address mem (skip p pre)) s") auto
qed

text \<open>The registers of the I/O APIC and the local APIC that the legacy devices do not touch.\<close>

lemma legacy_devices:
  fixes s :: apic_state
  defines "s' \<equiv> disable_rtc (disable_pit (disable_pic s))"
  shows "s' = s\<lparr>ports := ports s', cmos_select := cmos_select s', cmos := cmos s'\<rparr>"
    and "cmos s' = (cmos s)(CMOS_STATUS_B := cmos s CMOS_STATUS_B AND NOT 0x70)"
    and "set (take 4 (drop (length (ports s)) (ports s'))) = {(0x21, 0xFF), (0xa1, 0xFF), (0x40, 0), (0x43, 0x30)}"
  by (auto simp: s'_def disable_rtc_def disable_pit_def disable_pic_def sysOut8_def cmos_in_def Let_def CMOS_STATUS_B_def
      CMOS_STATUS_C_def)

lemma ipi_command:
  "\<exists>lo hi. amd64_pic_ipi i s = (1, s\<lparr>lih := hi, sent := sent s @ [(lo, hi)]\<rparr>) \<and> get_field 0 8 lo = ucast AMD64_IPI_VEC \<and>
     get_field 8 3 lo = 0 \<and> get_field 14 1 lo = 1 \<and> get_field 18 2 lo = 0 \<and> get_field 24 8 hi = take_bit 8 (ucast i)"
proof (intro exI conjI)
  show "amd64_pic_ipi i s = (1, s\<lparr>lih := set_field 24 8 (ucast i) 0, sent := sent s @
      [(set_field 18 2 0 (set_field 14 1 1 (set_field 0 8 (ucast AMD64_IPI_VEC) 0)), set_field 24 8 (ucast i) 0)]\<rparr>)"
    by (simp add: amd64_pic_ipi_def Let_def send_ipi_def amd64_getIPIvec_def)
qed (simp_all add: get_set_same get_set_other AMD64_IPI_VEC_def take_bit_eq_mod)


lemma redir_upd:
  assumes "n < 24" "k < 24"
  shows "redir (d\<lparr>IOREGSEL := r, ioregs := (ioregs d)(0x10 + 2 * of_nat n := a, 0x11 + 2 * of_nat n := b)\<rparr>) k =
    (if k = n then (a, b) else redir d k)"
  using io_register_inj [OF assms(2,1)] io_register_inj(3) [OF assms] by (auto simp: redir_def)

text \<open>
  \<open>ioapic_map_vec\<close> is meant to give an input its vector, but it writes the vector into the field of
  the destination processor and leaves the vector as it was.
\<close>

lemma ioapic_map_vec_writes_destination:
  assumes "n < 24" "0x10 \<le> v" "v \<le> 0xFE"
  shows "\<exists>s'. ioapic_map_vec (of_nat n) v s = Inr s' \<and>
    fst (redir (the_ioapic s') n) = fst (redir (the_ioapic s) n) \<and> get_field 24 8 (snd (redir (the_ioapic s') n)) = take_bit 8 (ucast v)"
proof -
  obtain r where r: "ioapic_map_vec (of_nat n) v s = Inr (set_ioapic ((the_ioapic s)\<lparr>IOREGSEL := r, ioregs := (ioregs (the_ioapic s))
      (0x10 + 2 * of_nat n := fst (redir (the_ioapic s) n),
       0x11 + 2 * of_nat n := set_field 24 8 (ucast v) (snd (redir (the_ioapic s) n)))\<rparr>) s)"
    using modify_ioredirect [OF assms(1), of s "\<lambda>v. v" "set_field 24 8 (ucast v)"] assms(2,3)
    unfolding ioapic_map_vec_def by auto
  show ?thesis unfolding r set_ioapic_def by (simp add: redir_upd [OF assms(1,1)] get_set_same)
qed

lemma ioapic_enable_unmasks:
  assumes "n < 24"
  shows "\<exists>s'. ioapic_enable_interrupt (of_nat n) s = Inr s' \<and> \<not> masked (the_ioapic s') n \<and>
    (\<forall>k < 24. k \<noteq> n \<longrightarrow> redir (the_ioapic s') k = redir (the_ioapic s) k)"
proof -
  obtain r where r: "ioapic_enable_interrupt (of_nat n) s = Inr (set_ioapic ((the_ioapic s)\<lparr>IOREGSEL := r, ioregs := (ioregs (the_ioapic s))
      (0x10 + 2 * of_nat n := set_field 16 1 0 (fst (redir (the_ioapic s) n)), 0x11 + 2 * of_nat n := snd (redir (the_ioapic s) n))\<rparr>) s)"
    using modify_ioredirect [OF assms, of s "set_field 16 1 0" "\<lambda>v. v"] unfolding ioapic_enable_interrupt_def by auto
  show ?thesis unfolding r set_ioapic_def using assms by (simp add: redir_upd masked_def get_set_same)
qed

subsection \<open>A machine\<close>

text \<open>A table with a processor, an I/O APIC at 0xFEC00000 and an override.\<close>

definition demo_madt :: "u64 \<Rightarrow> u8" where
  "demo_madt = (\<lambda>_. 0)(0x1004 := 74, 0x102C := 0, 0x102D := 8, 0x1034 := 1, 0x1035 := 12, 0x103A := 0xC0, 0x103B := 0xFE,
     0x1040 := 2, 0x1041 := 10)"

definition demo_apic :: apic_state where
  "demo_apic = \<lparr>idt = replicate 256 0xFFFF, idtr = None, IOAPIC_BASE = 0,
     ioapics = (\<lambda>_. \<lparr>IOREGSEL = 0, ioregs = (\<lambda>r. if r = 1 then 0x170011 else 0)\<rparr>), lir = 0x05000000, lih = 0, sent = [], eois = 0,
     lapic_msr = 0xFEE00100, ports = [], cmos_select = 0, cmos = (\<lambda>_. 0xFF), amd64_myid = 0\<rparr>"

lemma demo_madt_ok:
  "structures_at demo_madt (0x1000 + 44) ([(0, 8)] @ (1, 12) # [(2, 10)])" "unat (read32 demo_madt (0x1000 + 4)) = 74"
  "ioapic_address demo_madt (skip (0x1000 + 44) [(0, 8)]) = 0xFEC00000"
  by (simp_all add: demo_madt_def read32_def skip_def ioapic_address_def)

lemma madt_search_refines_witness:
  "acpi_init True (Some 0x1000) demo_madt demo_apic = madt_spec demo_madt (0x1000 + 44) [(0, 8), (1, 12), (2, 10)] False demo_apic"
  by (rule madt_search_refines) (use demo_madt_ok in simp_all)


end
