(* ===== verification/PpcBic.thy ===== *)
theory PpcBic
  imports BitField
begin

text \<open>
  The interrupt controller of Blue Gene/P (\<open>arch/ppc32/bic.c\<close>) and the interrupt interface of the
  bare-metal ppc32 runtime on top of it (\<open>arch/ppc32/pic.c\<close>, the event manager's part in
  \<open>arch/ppc32/EventMgrPrimImp.c\<close>). The controller is modelled by what its registers hold: a write
  to \<open>status_set\<close> sets bits of \<open>status\<close> and a write to \<open>status_clr\<close> clears them.
\<close>

subsection \<open>Registers\<close>

record bg_irqctrl_group =
  status :: u32
  target_irq :: "u32 list"

definition BIC_NUM_GROUPS :: nat where "BIC_NUM_GROUPS = 15"
definition BIC_NUM_IRQS :: nat where "BIC_NUM_IRQS = 32"
definition BIC_IPI_GROUP :: nat where "BIC_IPI_GROUP = 0"

datatype bic_int_type = NONCRIT | CRIT | MACHINECHECK

definition int_type_val :: "bic_int_type \<Rightarrow> u8" where
  "int_type_val t = (case t of NONCRIT \<Rightarrow> 0 | CRIT \<Rightarrow> 1 | MACHINECHECK \<Rightarrow> 2)"

type_synonym bic = "bg_irqctrl_group list"

definition irq_to_target_index :: "u8 \<Rightarrow> nat" where
  "irq_to_target_index irq = unat irq div 8"

text \<open>\<open>a << n\<close> on a 32-bit value; a shift by 32 or more is undefined.\<close>

definition shl32 :: "u32 \<Rightarrow> nat \<Rightarrow> u32 res" where
  "shl32 a n = (if n < 32 then Inr (push_bit n a) else Inl BadShift)"

definition set_target :: "nat \<Rightarrow> u8 \<Rightarrow> u8 \<Rightarrow> bic \<Rightarrow> bic res" where
  "set_target grp irq tgt s =
     (let offset = unat (28 - irq * 4) in
     rbind (arr_get s grp) (\<lambda>g.
     rbind (arr_get (target_irq g) (irq_to_target_index irq)) (\<lambda>val.
     rbind (shl32 0xf offset) (\<lambda>m.
     rbind (shl32 (ucast (tgt AND 0xf)) offset) (\<lambda>t.
     rbind (arr_set (target_irq g) (irq_to_target_index irq) ((val AND NOT m) OR t)) (\<lambda>ts.
     arr_set s grp (g\<lparr>target_irq := ts\<rparr>)))))))"

subsection \<open>Operations of the controller\<close>

definition bic_disable_and_clear_all :: "bic \<Rightarrow> bic" where
  "bic_disable_and_clear_all s = map (\<lambda>g. g\<lparr>status := 0, target_irq := replicate 4 0\<rparr>) s"

definition bic_disable_irq :: "nat \<Rightarrow> u8 \<Rightarrow> bic \<Rightarrow> bic res" where
  "bic_disable_irq grp irq s =
     rbind (lrt_assert (grp < BIC_NUM_GROUPS)) (\<lambda>_.
     rbind (lrt_assert (unat irq < BIC_NUM_IRQS)) (\<lambda>_.
     set_target grp irq 0 s))"

definition bic_enable_irq :: "nat \<Rightarrow> u8 \<Rightarrow> bic_int_type \<Rightarrow> u8 \<Rightarrow> bic \<Rightarrow> bic res" where
  "bic_enable_irq grp irq type loc s =
     rbind (lrt_assert (grp < BIC_NUM_GROUPS)) (\<lambda>_.
     rbind (lrt_assert (unat irq < BIC_NUM_IRQS)) (\<lambda>_.
     rbind (lrt_assert (-1 \<le> sint loc \<and> sint loc \<le> 3)) (\<lambda>_.
     let t = int_type_val type + 1;
         t = (if sint loc \<noteq> -1 then push_bit 2 t OR loc else t)
     in set_target grp irq t s)))"

definition bic_raise_irq :: "nat \<Rightarrow> u8 \<Rightarrow> bic \<Rightarrow> bic res" where
  "bic_raise_irq grp irq s =
     rbind (lrt_assert (grp < BIC_NUM_GROUPS)) (\<lambda>_.
     rbind (lrt_assert (unat irq < BIC_NUM_IRQS)) (\<lambda>_.
     rbind (arr_get s grp) (\<lambda>g.
     arr_set s grp (g\<lparr>status := status g OR push_bit (31 - unat irq) 1\<rparr>))))"

definition bic_clear_irq :: "nat \<Rightarrow> u8 \<Rightarrow> bic \<Rightarrow> bic res" where
  "bic_clear_irq grp irq s =
     rbind (lrt_assert (grp < BIC_NUM_GROUPS)) (\<lambda>_.
     rbind (lrt_assert (unat irq < BIC_NUM_IRQS)) (\<lambda>_.
     rbind (arr_get s grp) (\<lambda>g.
     arr_set s grp (g\<lparr>status := status g AND NOT (push_bit (31 - unat irq) 1)\<rparr>))))"

subsection \<open>The interrupt interface\<close>

definition NUM_INTS :: nat where "NUM_INTS = 16"
definition IV_external :: nat where "IV_external = 5"

datatype ppc_handler = Isr nat | Handler nat | External_interrupt_handler

record ppc_state =
  bg_irqctrl :: bic
  int_table :: "ppc_handler list"
  ppc_myid :: u32
  tcr :: u32
  IPI_handler :: u32
  IPI_fn :: u32

definition ppc_int_table :: "ppc_handler list" where "ppc_int_table = map Isr [0..<NUM_INTS]"

definition ppc_pic_mapvec :: "nat \<Rightarrow> ppc_handler \<Rightarrow> ppc_state \<Rightarrow> ppc_state res" where
  "ppc_pic_mapvec vec h s =
     rbind (lrt_assert (vec < NUM_INTS)) (\<lambda>_.
     rbind (arr_set (int_table s) vec h) (\<lambda>t. Inr (s\<lparr>int_table := t\<rparr>)))"

definition with_bic :: "(bic \<Rightarrow> bic res) \<Rightarrow> ppc_state \<Rightarrow> ppc_state res" where
  "with_bic f s = rbind (f (bg_irqctrl s)) (\<lambda>b. Inr (s\<lparr>bg_irqctrl := b\<rparr>))"

text \<open>The \<open>irq\<close> arguments are of type \<open>uintptr_t\<close> and passed on as \<open>uint8_t\<close>.\<close>

definition ppc_pic_ipi :: "u32 \<Rightarrow> ppc_state \<Rightarrow> ppc_state res" where
  "ppc_pic_ipi irq = with_bic (bic_raise_irq BIC_IPI_GROUP (ucast irq))"

definition ppc_pic_ackipi :: "ppc_state \<Rightarrow> ppc_state res" where
  "ppc_pic_ackipi s = with_bic (bic_clear_irq BIC_IPI_GROUP (ucast (ppc_myid s))) s"

definition ppc_pic_enableipi :: "ppc_state \<Rightarrow> ppc_state res" where
  "ppc_pic_enableipi s =
     with_bic (bic_enable_irq BIC_IPI_GROUP (ucast (ppc_myid s)) NONCRIT (ucast (ppc_myid s))) s"

text \<open>The result of \<open>lrt_pic_loop\<close> is the state in which the core waits with interrupts on.\<close>

definition ppc_pic_loop :: "ppc_state \<Rightarrow> ppc_state res" where
  "ppc_pic_loop s = ppc_pic_ipi (ppc_myid s) s"

definition ppc_pic_init :: "u32 \<Rightarrow> ppc_handler \<Rightarrow> ppc_state \<Rightarrow> ppc_state res" where
  "ppc_pic_init pir h s =
     (let s = s\<lparr>ppc_myid := pir\<rparr>;
          s = s\<lparr>tcr := tcr s AND NOT 0x0c000000\<rparr>;
          s = s\<lparr>bg_irqctrl := bic_disable_and_clear_all (bg_irqctrl s)\<rparr>
      in rbind (with_bic (bic_enable_irq BIC_IPI_GROUP 0 NONCRIT 0) s) (\<lambda>s.
         rbind (with_bic (bic_enable_irq BIC_IPI_GROUP 1 NONCRIT 1) s) (\<lambda>s.
         rbind (with_bic (bic_enable_irq BIC_IPI_GROUP 2 NONCRIT 2) s) (\<lambda>s.
         rbind (with_bic (bic_enable_irq BIC_IPI_GROUP 3 NONCRIT 3) s) (\<lambda>s.
         rbind (ppc_pic_mapvec IV_external h s) (\<lambda>s.
         ppc_pic_loop s))))))"

text \<open>\<open>lrt_pic_getnumlpics\<close> and \<open>lrt_pic_getnextlpic\<close> only assert.\<close>

definition ppc_pic_getnumlpics :: "nat res" where "ppc_pic_getnumlpics = Inl AssertFail"
definition ppc_pic_getnextlpic :: "u32 \<Rightarrow> nat res" where "ppc_pic_getnextlpic c = Inl AssertFail"

subsection \<open>The event manager\<close>

text \<open>
  Of the event manager of ppc32 only the inter-processor interrupt works: there is one handler
  for it, in two static variables. The other operations only assert.
\<close>

definition ppc_dispatchIPI :: "u32 \<Rightarrow> ppc_state \<Rightarrow> (ebbrc \<times> ppc_state) res" where
  "ppc_dispatchIPI el s = rbind (ppc_pic_ipi el s) (\<lambda>s. Inr (EBBRC_OK, s))"

definition ppc_ackIPI :: "ppc_state \<Rightarrow> (ebbrc \<times> ppc_state) res" where
  "ppc_ackIPI s = rbind (ppc_pic_ackipi s) (\<lambda>s. Inr (EBBRC_OK, s))"

definition ppc_enableIPI :: "ppc_state \<Rightarrow> (ebbrc \<times> ppc_state) res" where
  "ppc_enableIPI s = rbind (ppc_pic_enableipi s) (\<lambda>s. Inr (EBBRC_OK, s))"

definition ppc_registerIPIHandler :: "u32 \<Rightarrow> u32 \<Rightarrow> ppc_state \<Rightarrow> ebbrc \<times> ppc_state" where
  "ppc_registerIPIHandler handler fn s = (EBBRC_OK, s\<lparr>IPI_handler := handler, IPI_fn := fn\<rparr>)"

definition ppc_event_NYI :: "(ebbrc \<times> ppc_state) res" where
  "ppc_event_NYI = Inl AssertFail"

text \<open>The id and the number of the function that the interrupt calls; \<open>NOFUNCNUM\<close> is -1 and
  \<open>handleEvent\<close> is function 0.\<close>

definition ppc_external_interrupt :: "ppc_state \<Rightarrow> (u32 \<times> nat) res" where
  "ppc_external_interrupt s =
     rbind (lrt_assert (IPI_handler s \<noteq> 0)) (\<lambda>_.
     Inr (IPI_handler s, if IPI_fn s = -1 then 0 else unat (IPI_fn s)))"

end
