(* ===== verification/PpcBicProps.thy ===== *)
theory PpcBicProps
  imports PpcBic
begin

text \<open>Where the interrupts of the Blue Gene/P controller go.\<close>

subsection \<open>Routes\<close>

definition bic_wf :: "bic \<Rightarrow> bool" where
  "bic_wf s \<longleftrightarrow> length s = BIC_NUM_GROUPS \<and> (\<forall>g \<in> set s. length (target_irq g) = 4)"

text \<open>
  The four bits of an interrupt: 0 for none, a type for all cores, or a type and a core. There
  are eight interrupts to a register, the first one in the highest bits.
\<close>

definition target_field :: "bic \<Rightarrow> nat \<Rightarrow> nat \<Rightarrow> u32" where
  "target_field s g i = get_field (28 - 4 * (i mod 8)) 4 (target_irq (s ! g) ! (i div 8))"

definition type_of :: "nat \<Rightarrow> bic_int_type option" where
  "type_of n = (if n = 1 then Some NONCRIT else if n = 2 then Some CRIT else if n = 3 then Some MACHINECHECK else None)"

definition route :: "bic \<Rightarrow> nat \<Rightarrow> nat \<Rightarrow> (bic_int_type \<times> nat option) option" where
  "route s g i =
     (let n = unat (target_field s g i)
      in if n < 4 then map_option (\<lambda>t. (t, None)) (type_of n)
         else map_option (\<lambda>t. (t, Some (n mod 4))) (type_of (n div 4)))"

definition raised :: "bic \<Rightarrow> nat \<Rightarrow> nat \<Rightarrow> bool" where
  "raised s g i \<longleftrightarrow> bit (status (s ! g)) (31 - i)"

text \<open>The cores that see an external interrupt.\<close>

definition ipi_cores :: "bic \<Rightarrow> nat set" where
  "ipi_cores s = {c. c < 4 \<and> (\<exists>g < BIC_NUM_GROUPS. \<exists>i < BIC_NUM_IRQS.
     raised s g i \<and> (route s g i = Some (NONCRIT, Some c) \<or> route s g i = Some (NONCRIT, None)))}"

subsection \<open>Setting a target\<close>

lemma bic_wfD:
  "bic_wf s \<Longrightarrow> length s = 15" "bic_wf s \<Longrightarrow> g < 15 \<Longrightarrow> length (target_irq (s ! g)) = 4"
  by (auto simp: bic_wf_def BIC_NUM_GROUPS_def)

lemma bic_wf_upd: "bic_wf s \<Longrightarrow> length (target_irq g) = 4 \<Longrightarrow> bic_wf (s[k := g])"
  unfolding bic_wf_def using set_update_subset_insert [of s k g] by auto

lemma offset_low: "unat (irq :: u8) < 8 \<Longrightarrow> unat (28 - irq * 4) = 28 - 4 * unat irq"
  by (simp add: unat_sub_if_size unat_word_ariths size_word_def)

lemma offset_high:
  assumes "8 \<le> unat (irq :: u8)" "unat irq < 32"
  shows "\<not> unat (28 - irq * 4) < 32"
  using assms by (simp add: unat_sub_if_size unat_word_ariths size_word_def)

lemma set_target_field:
  "(val AND NOT (push_bit k 0xf)) OR push_bit k (ucast (t AND 0xf)) = set_field k 4 (ucast (t :: u8)) (val :: u32)"
proof -
  have m: "(0xf :: u32) = mask 4" "(0xf :: u8) = mask 4" by (simp_all add: mask_eq_exp_minus_1)
  have "ucast (t AND mask 4) = take_bit 4 (ucast t :: u32)"
    by (rule bit_word_eqI) (auto simp: bit_ucast_iff bit_take_bit_iff bit_and_iff bit_mask_iff)
  then show ?thesis unfolding set_field_def m by simp
qed

lemma set_target_low:
  assumes "bic_wf s" "g < 15" "unat irq < 8"
  shows "set_target g irq t s = Inr (s[g := (s ! g)\<lparr>target_irq := (target_irq (s ! g))[0 :=
    set_field (28 - 4 * unat irq) 4 (ucast t) (target_irq (s ! g) ! 0)]\<rparr>])"
proof -
  have i: "irq_to_target_index irq = 0" using assms(3) by (simp add: irq_to_target_index_def)
  show ?thesis
    using bic_wfD [OF assms(1)] assms(2)
    by (simp add: set_target_def Let_def offset_low [OF assms(3)] i shl32_def set_target_field)
qed

lemma set_target_high:
  assumes "bic_wf s" "g < 15" "8 \<le> unat irq" "unat irq < 32"
  shows "set_target g irq t s = Inl BadShift"
proof -
  have i: "irq_to_target_index irq < 4" using assms(4) by (simp add: irq_to_target_index_def)
  show ?thesis using bic_wfD [OF assms(1)] assms(2) i offset_high [OF assms(3,4)]
    by (simp add: set_target_def Let_def shl32_def)
qed

lemma target_field_set:
  assumes "bic_wf s" "g < 15" "irq < 8" "g' < 15" "i < 32"
  shows "target_field (s[g := (s ! g)\<lparr>target_irq := (target_irq (s ! g))[0 :=
      set_field (28 - 4 * irq) 4 t (target_irq (s ! g) ! 0)]\<rparr>]) g' i =
    (if g' = g \<and> i = irq then take_bit 4 t else target_field s g' i)"
proof (cases "g' = g \<and> i < 8")
  case True
  have l: "length s = 15" "length (target_irq (s ! g)) = 4" using bic_wfD [OF assms(1)] assms(2) by auto
  show ?thesis
  proof (cases "i = irq")
    case i: True
    then show ?thesis using True assms(3) l assms(2) by (simp add: target_field_def get_set_same)
  next
    case i: False
    then have "28 - 4 * i + 4 \<le> 28 - 4 * irq \<or> 28 - 4 * irq + 4 \<le> 28 - 4 * i" using True assms(3) by linarith
    then show ?thesis using True i l assms(2) by (simp add: target_field_def get_set_other)
  qed
next
  case False
  then consider "g' \<noteq> g" | "g' = g" "i div 8 \<noteq> 0" by (cases "g' = g") auto
  then show ?thesis using bic_wfD [OF assms(1)] assms False by cases (auto simp: target_field_def)
qed

definition loc_of :: "u8 \<Rightarrow> nat option" where
  "loc_of loc = (if sint loc = -1 then None else Some (unat loc))"

lemma locs:
  assumes "-1 \<le> sint (loc :: u8)" "sint loc \<le> 3"
  shows "loc = -1 \<or> loc = 0 \<or> loc = 1 \<or> loc = 2 \<or> loc = 3"
proof -
  have "sint loc = -1 \<or> sint loc = 0 \<or> sint loc = 1 \<or> sint loc = 2 \<or> sint loc = 3" using assms by presburger
  moreover have "loc = word_of_int (sint loc)" by simp
  ultimately have "loc = word_of_int (-1) \<or> loc = word_of_int 0 \<or> loc = word_of_int 1 \<or> loc = word_of_int 2 \<or>
    loc = word_of_int 3" by metis
  then show ?thesis by simp
qed

lemma route_set:
  assumes "bic_wf s" "g < 15" "irq < 8" "-1 \<le> sint loc" "sint loc \<le> 3"
    and t: "t = (if sint loc \<noteq> -1 then push_bit 2 (int_type_val type + 1) OR loc else int_type_val type + 1)"
  shows "route (s[g := (s ! g)\<lparr>target_irq := (target_irq (s ! g))[0 :=
      set_field (28 - 4 * irq) 4 (ucast t) (target_irq (s ! g) ! 0)]\<rparr>]) g irq = Some (type, loc_of loc)"
proof -
  have f: "target_field (s[g := (s ! g)\<lparr>target_irq := (target_irq (s ! g))[0 :=
      set_field (28 - 4 * irq) 4 (ucast t) (target_irq (s ! g) ! 0)]\<rparr>]) g irq = take_bit 4 (ucast t)"
    using target_field_set [OF assms(1-3) assms(2), of irq] assms(3) by simp
  show ?thesis unfolding route_def f Let_def unfolding t using locs [OF assms(4,5)]
    by (elim disjE; cases type) (simp_all add: int_type_val_def type_of_def loc_of_def take_bit_eq_mod)
qed

lemma route_other:
  assumes "bic_wf s" "g < 15" "irq < 8" "g' < 15" "i < 32" "\<not> (g' = g \<and> i = irq)"
  shows "route (s[g := (s ! g)\<lparr>target_irq := (target_irq (s ! g))[0 :=
      set_field (28 - 4 * irq) 4 t (target_irq (s ! g) ! 0)]\<rparr>]) g' i = route s g' i"
  using target_field_set [OF assms(1-5)] assms(6) by (simp add: route_def)

lemma raised_upd:
  "raised (s[g := (s ! g)\<lparr>target_irq := ts\<rparr>]) g' i = raised s g' i"
  by (cases "g < length s"; cases "g' = g") (simp_all add: raised_def list_update_beyond)

lemma bic_enable:
  assumes "bic_wf s" "g < 15" "-1 \<le> sint loc" "sint loc \<le> 3"
  shows "unat irq < 8 \<Longrightarrow> \<exists>s'. bic_enable_irq g irq type loc s = Inr s' \<and> bic_wf s' \<and>
      route s' g (unat irq) = Some (type, loc_of loc) \<and>
      (\<forall>g' < BIC_NUM_GROUPS. \<forall>i < BIC_NUM_IRQS. (g' \<noteq> g \<or> i \<noteq> unat irq \<longrightarrow> route s' g' i = route s g' i) \<and>
         raised s' g' i = raised s g' i)"
    "8 \<le> unat irq \<Longrightarrow> unat irq < 32 \<Longrightarrow> bic_enable_irq g irq type loc s = Inl BadShift"
proof -
  let ?t = "if sint loc \<noteq> -1 then push_bit 2 (int_type_val type + 1) OR loc else int_type_val type + 1"
  have e: "bic_enable_irq g irq type loc s = set_target g irq ?t s" if "unat irq < 32"
    using assms that by (simp add: bic_enable_irq_def Let_def BIC_NUM_GROUPS_def BIC_NUM_IRQS_def)
  show "bic_enable_irq g irq type loc s = Inl BadShift" if "8 \<le> unat irq" "unat irq < 32"
    unfolding e [OF that(2)] by (rule set_target_high [OF assms(1,2) that])
  assume l: "unat irq < 8"
  then have "bic_enable_irq g irq type loc s = set_target g irq ?t s" using e by simp
  then show "\<exists>s'. bic_enable_irq g irq type loc s = Inr s' \<and> bic_wf s' \<and>
      route s' g (unat irq) = Some (type, loc_of loc) \<and>
      (\<forall>g' < BIC_NUM_GROUPS. \<forall>i < BIC_NUM_IRQS. (g' \<noteq> g \<or> i \<noteq> unat irq \<longrightarrow> route s' g' i = route s g' i) \<and>
         raised s' g' i = raised s g' i)"
    unfolding set_target_low [OF assms(1,2) l]
    using route_set [OF assms(1,2) l assms(3,4) refl] route_other [OF assms(1,2) l]
      bic_wf_upd [OF assms(1)] bic_wfD [OF assms(1)] assms(2)
    by (auto simp: raised_upd BIC_NUM_GROUPS_def BIC_NUM_IRQS_def)
qed

text \<open>
  \<open>bic_enable_irq\<close> with arguments that pass its assertions. For the first eight interrupts of a
  group it gives the interrupt exactly the type and the core (or all cores) that were asked for,
  and leaves the route of every other interrupt and all pending interrupts as they are. For the
  other 24 interrupts the shift distance, computed in eight bits, wraps around to 160 or more.
\<close>

theorem bic_enable_irq_correct:
  assumes "bic_wf s" "g < BIC_NUM_GROUPS" "unat irq < BIC_NUM_IRQS" "-1 \<le> sint loc" "sint loc \<le> 3"
  shows "if unat irq < 8
    then \<exists>s'. bic_enable_irq g irq type loc s = Inr s' \<and> bic_wf s' \<and>
      route s' g (unat irq) = Some (type, loc_of loc) \<and>
      (\<forall>g' < BIC_NUM_GROUPS. \<forall>i < BIC_NUM_IRQS. (g' \<noteq> g \<or> i \<noteq> unat irq \<longrightarrow> route s' g' i = route s g' i) \<and>
         raised s' g' i = raised s g' i)
    else bic_enable_irq g irq type loc s = Inl BadShift"
  using assms bic_enable [of s g loc irq type] unfolding BIC_NUM_GROUPS_def BIC_NUM_IRQS_def
  by (cases "unat irq < 8") (simp_all add: BIC_NUM_GROUPS_def BIC_NUM_IRQS_def)

subsection \<open>Inter-processor interrupts\<close>

lemma bic_clear_all_wf: "bic_wf s \<Longrightarrow> bic_wf (bic_disable_and_clear_all s)"
  by (auto simp: bic_wf_def bic_disable_and_clear_all_def)

lemma bic_clear_all:
  assumes "bic_wf s" "g < BIC_NUM_GROUPS" "i < BIC_NUM_IRQS"
  shows "route (bic_disable_and_clear_all s) g i = None" "\<not> raised (bic_disable_and_clear_all s) g i"
  using assms bic_wfD(1) [OF assms(1)]
  by (simp_all add: route_def target_field_def raised_def bic_disable_and_clear_all_def type_of_def
      BIC_NUM_GROUPS_def BIC_NUM_IRQS_def)

text \<open>The routes that \<open>lrt_pic_init\<close> sets up: interrupt \<open>c\<close> of group 0 goes to core \<open>c\<close>.\<close>

definition ipi_routes :: "bic \<Rightarrow> bool" where
  "ipi_routes s \<longleftrightarrow> (\<forall>g < BIC_NUM_GROUPS. \<forall>i < BIC_NUM_IRQS.
     route s g i = (if g = BIC_IPI_GROUP \<and> i < 4 then Some (NONCRIT, Some i) else None))"

lemma bic_raise:
  assumes "bic_wf s" "unat irq < 32"
  shows "bic_raise_irq BIC_IPI_GROUP irq s = Inr (s[0 := (s ! 0)\<lparr>status := status (s ! 0) OR push_bit (31 - unat irq) 1\<rparr>])"
  using assms bic_wfD(1) [OF assms(1)]
  by (simp add: bic_raise_irq_def BIC_IPI_GROUP_def BIC_NUM_GROUPS_def BIC_NUM_IRQS_def)

lemma bic_clear:
  assumes "bic_wf s" "unat irq < 32"
  shows "bic_clear_irq BIC_IPI_GROUP irq s =
    Inr (s[0 := (s ! 0)\<lparr>status := status (s ! 0) AND NOT (push_bit (31 - unat irq) 1)\<rparr>])"
  using assms bic_wfD(1) [OF assms(1)]
  by (simp add: bic_clear_irq_def BIC_IPI_GROUP_def BIC_NUM_GROUPS_def BIC_NUM_IRQS_def)

lemma status_upd:
  assumes "bic_wf s"
  shows "bic_wf (s[0 := (s ! 0)\<lparr>status := x\<rparr>])" "route (s[0 := (s ! 0)\<lparr>status := x\<rparr>]) g i = route s g i"
    "g \<noteq> 0 \<Longrightarrow> raised (s[0 := (s ! 0)\<lparr>status := x\<rparr>]) g i = raised s g i"
    "raised (s[0 := (s ! 0)\<lparr>status := x\<rparr>]) 0 i = bit x (31 - i)"
proof -
  have l: "length s = 15" "length (target_irq (s ! 0)) = 4" using bic_wfD [OF assms] by auto
  then show "bic_wf (s[0 := (s ! 0)\<lparr>status := x\<rparr>])" using bic_wf_upd [OF assms, of "(s ! 0)\<lparr>status := x\<rparr>" 0] by simp
  show "route (s[0 := (s ! 0)\<lparr>status := x\<rparr>]) g i = route s g i"
    using l by (cases "g = 0") (simp_all add: route_def target_field_def)
  show "g \<noteq> 0 \<Longrightarrow> raised (s[0 := (s ! 0)\<lparr>status := x\<rparr>]) g i = raised s g i"
    "raised (s[0 := (s ! 0)\<lparr>status := x\<rparr>]) 0 i = bit x (31 - i)" using l by (simp_all add: raised_def)
qed

lemma ipi_cores_raised:
  assumes "ipi_routes s"
  shows "ipi_cores s = {c. c < 4 \<and> raised s 0 c}"
proof -
  have r: "route s g i = (if g = 0 \<and> i < 4 then Some (NONCRIT, Some i) else None)"
    if "g < BIC_NUM_GROUPS" "i < BIC_NUM_IRQS" for g i
    using assms that by (simp add: ipi_routes_def BIC_IPI_GROUP_def)
  have "(\<exists>g < BIC_NUM_GROUPS. \<exists>i < BIC_NUM_IRQS.
     raised s g i \<and> (route s g i = Some (NONCRIT, Some c) \<or> route s g i = Some (NONCRIT, None))) = raised s 0 c"
    if c: "c < 4" for c
  proof
    assume "raised s 0 c"
    then show "\<exists>g < BIC_NUM_GROUPS. \<exists>i < BIC_NUM_IRQS.
     raised s g i \<and> (route s g i = Some (NONCRIT, Some c) \<or> route s g i = Some (NONCRIT, None))"
      using r [of 0 c] c by (intro exI [of _ 0] conjI exI [of _ c]) (simp_all add: BIC_NUM_GROUPS_def BIC_NUM_IRQS_def)
  next
    assume "\<exists>g < BIC_NUM_GROUPS. \<exists>i < BIC_NUM_IRQS.
     raised s g i \<and> (route s g i = Some (NONCRIT, Some c) \<or> route s g i = Some (NONCRIT, None))"
    then obtain g i where gi: "g < BIC_NUM_GROUPS" "i < BIC_NUM_IRQS" "raised s g i"
      "route s g i = Some (NONCRIT, Some c) \<or> route s g i = Some (NONCRIT, None)" by blast
    then show "raised s 0 c" using r [OF gi(1,2)] by (auto split: if_splits)
  qed
  then show ?thesis unfolding ipi_cores_def by blast
qed

text \<open>The first \<open>n\<close> routes are set up, nothing is raised.\<close>

definition routes_upto :: "nat \<Rightarrow> bic \<Rightarrow> bool" where
  "routes_upto n s \<longleftrightarrow> bic_wf s \<and> (\<forall>g < BIC_NUM_GROUPS. \<forall>i < BIC_NUM_IRQS. \<not> raised s g i \<and>
     route s g i = (if g = BIC_IPI_GROUP \<and> i < n then Some (NONCRIT, Some i) else None))"

lemma routes_upto_step:
  assumes "routes_upto n s" "n < 4"
  shows "\<exists>s'. bic_enable_irq BIC_IPI_GROUP (of_nat n) NONCRIT (of_nat n) s = Inr s' \<and> routes_upto (Suc n) s'"
proof -
  have w: "bic_wf s" and n: "n = 0 \<or> n = 1 \<or> n = 2 \<or> n = 3" using assms by (auto simp: routes_upto_def)
  have l: "-1 \<le> sint (of_nat n :: u8)" "sint (of_nat n :: u8) \<le> 3" "unat (of_nat n :: u8) = n"
    "loc_of (of_nat n :: u8) = Some n" using n by (auto simp: loc_of_def)
  obtain s' where s': "bic_enable_irq 0 (of_nat n) NONCRIT (of_nat n) s = Inr s'" "bic_wf s'"
      "route s' 0 n = Some (NONCRIT, Some n)"
      "\<forall>g' < BIC_NUM_GROUPS. \<forall>i < BIC_NUM_IRQS. (g' \<noteq> 0 \<or> i \<noteq> n \<longrightarrow> route s' g' i = route s g' i) \<and> raised s' g' i = raised s g' i"
    using bic_enable(1) [OF w _ l(1,2), of 0 "of_nat n" NONCRIT] assms(2) unfolding l(3,4) by auto
  have "routes_upto (Suc n) s'"
    using assms s'(2-4) unfolding routes_upto_def BIC_IPI_GROUP_def by (auto simp: less_Suc_eq)
  then show ?thesis using s'(1) by (auto simp: BIC_IPI_GROUP_def)
qed

lemma routes_upto_4: "routes_upto 4 s \<Longrightarrow> bic_wf s \<and> ipi_routes s \<and> (\<forall>c < 4. \<not> raised s 0 c)"
  by (auto simp: routes_upto_def ipi_routes_def BIC_NUM_GROUPS_def BIC_NUM_IRQS_def)

definition ppc_ok :: "ppc_state \<Rightarrow> bool" where
  "ppc_ok s \<longleftrightarrow> bic_wf (bg_irqctrl s) \<and> ipi_routes (bg_irqctrl s) \<and> unat (ppc_myid s) < 4"

lemma unat_ucast8:
  assumes "unat (w :: u32) < 256"
  shows "unat (ucast w :: u8) = unat w"
proof -
  have "unat (ucast w :: u8) = take_bit LENGTH(8) (unat w)" by (rule unsigned_ucast_eq)
  then show ?thesis using assms by (simp add: take_bit_nat_eq_self)
qed

lemma irq_bit: "c < 32 \<Longrightarrow> d < 32 \<Longrightarrow> bit (2 ^ (31 - c) :: u32) (31 - d) \<longleftrightarrow> d = c"
  by (auto simp: bit_exp_iff)

lemma ipi_step:
  assumes "ppc_ok s" "unat c < 4"
  shows "\<exists>s'. ppc_pic_ipi c s = Inr s' \<and> ppc_ok s' \<and> ppc_myid s' = ppc_myid s \<and> int_table s' = int_table s \<and>
    ipi_cores (bg_irqctrl s') = insert (unat c) (ipi_cores (bg_irqctrl s))"
proof -
  let ?b = "bg_irqctrl s" and ?x = "status (bg_irqctrl s ! 0) OR push_bit (31 - unat c) 1"
  let ?b' = "?b[0 := (?b ! 0)\<lparr>status := ?x\<rparr>]"
  have w: "bic_wf ?b" "ipi_routes ?b" using assms(1) by (auto simp: ppc_ok_def)
  have c: "unat (ucast c :: u8) = unat c" using unat_ucast8 assms(2) by simp
  have run: "ppc_pic_ipi c s = Inr (s\<lparr>bg_irqctrl := ?b'\<rparr>)"
    using bic_raise [OF w(1), of "ucast c"] assms(2) unfolding c by (simp add: ppc_pic_ipi_def with_bic_def)
  have ok: "ipi_routes ?b'" using w(2) status_upd(2) [OF w(1)] by (simp add: ipi_routes_def)
  have "raised ?b' 0 d \<longleftrightarrow> d = unat c \<or> raised ?b 0 d" if "d < 4" for d
    unfolding status_upd(4) [OF w(1)] using assms(2) that
    by (auto simp: raised_def bit_or_iff irq_bit)
  then have "ipi_cores ?b' = insert (unat c) (ipi_cores ?b)"
    unfolding ipi_cores_raised [OF ok] ipi_cores_raised [OF w(2)] using assms(2) by auto
  then show ?thesis using run ok status_upd(1) [OF w(1)] assms(1) by (simp add: ppc_ok_def)
qed

lemma ack_step:
  assumes "ppc_ok s"
  shows "\<exists>s'. ppc_pic_ackipi s = Inr s' \<and> ppc_ok s' \<and> ppc_myid s' = ppc_myid s \<and> int_table s' = int_table s \<and>
    ipi_cores (bg_irqctrl s') = ipi_cores (bg_irqctrl s) - {unat (ppc_myid s)}"
proof -
  let ?b = "bg_irqctrl s" and ?c = "unat (ppc_myid s)"
  let ?x = "status (bg_irqctrl s ! 0) AND NOT (push_bit (31 - ?c) 1)"
  let ?b' = "?b[0 := (?b ! 0)\<lparr>status := ?x\<rparr>]"
  have w: "bic_wf ?b" "ipi_routes ?b" "?c < 4" using assms(1) by (auto simp: ppc_ok_def)
  have c: "unat (ucast (ppc_myid s) :: u8) = ?c" using unat_ucast8 w(3) by simp
  have run: "ppc_pic_ackipi s = Inr (s\<lparr>bg_irqctrl := ?b'\<rparr>)"
    using bic_clear [OF w(1), of "ucast (ppc_myid s)"] w(3) unfolding c by (simp add: ppc_pic_ackipi_def with_bic_def)
  have ok: "ipi_routes ?b'" using w(2) status_upd(2) [OF w(1)] by (simp add: ipi_routes_def)
  have "raised ?b' 0 d \<longleftrightarrow> d \<noteq> ?c \<and> raised ?b 0 d" if "d < 4" for d
    unfolding status_upd(4) [OF w(1)] using w(3) that
    by (auto simp: raised_def bit_and_iff bit_not_iff irq_bit)
  then have "ipi_cores ?b' = ipi_cores ?b - {?c}"
    unfolding ipi_cores_raised [OF ok] ipi_cores_raised [OF w(2)] by auto
  then show ?thesis using run ok status_upd(1) [OF w(1)] assms(1) by (simp add: ppc_ok_def)
qed

lemma small_loc:
  assumes "unat (w :: u8) < 4"
  shows "-1 \<le> sint w \<and> sint w \<le> 3 \<and> loc_of w = Some (unat w)"
proof -
  have "unat w = 0 \<or> unat w = 1 \<or> unat w = 2 \<or> unat w = 3" using assms by linarith
  then have "w = 0 \<or> w = 1 \<or> w = 2 \<or> w = 3" by (simp add: word_eq_iff_unsigned [where 'a = nat])
  then show ?thesis by (auto simp: loc_of_def)
qed

lemma enable_step:
  assumes "ppc_ok s"
  shows "\<exists>s'. ppc_pic_enableipi s = Inr s' \<and> ppc_ok s' \<and> ppc_myid s' = ppc_myid s \<and> int_table s' = int_table s \<and>
    ipi_cores (bg_irqctrl s') = ipi_cores (bg_irqctrl s)"
proof -
  let ?c = "unat (ppc_myid s)" and ?w = "ucast (ppc_myid s) :: u8"
  have w: "bic_wf (bg_irqctrl s)" "ipi_routes (bg_irqctrl s)" "?c < 4" using assms(1) by (auto simp: ppc_ok_def)
  have c: "unat ?w = ?c" using unat_ucast8 w(3) by simp
  then have l: "-1 \<le> sint ?w" "sint ?w \<le> 3" "loc_of ?w = Some ?c" using small_loc [of ?w] w(3) by simp_all
  obtain b where b: "bic_enable_irq 0 ?w NONCRIT ?w (bg_irqctrl s) = Inr b" "bic_wf b"
      "route b 0 ?c = Some (NONCRIT, Some ?c)"
      "\<forall>g' < BIC_NUM_GROUPS. \<forall>i < BIC_NUM_IRQS. (g' \<noteq> 0 \<or> i \<noteq> ?c \<longrightarrow> route b g' i = route (bg_irqctrl s) g' i) \<and>
         raised b g' i = raised (bg_irqctrl s) g' i"
    using bic_enable(1) [OF w(1) _ l(1,2), of 0 ?w NONCRIT] w(3) unfolding c l(3) by auto
  have r: "ipi_routes b"
    unfolding ipi_routes_def
  proof (intro allI impI)
    fix g i assume gi: "g < BIC_NUM_GROUPS" "i < BIC_NUM_IRQS"
    show "route b g i = (if g = BIC_IPI_GROUP \<and> i < 4 then Some (NONCRIT, Some i) else None)"
    proof (cases "g = 0 \<and> i = ?c")
      case True
      then show ?thesis using b(3) w(3) by (simp add: BIC_IPI_GROUP_def)
    next
      case False
      then have "g \<noteq> 0 \<or> i \<noteq> ?c" by simp
      then have "route b g i = route (bg_irqctrl s) g i" using b(4) gi by blast
      then show ?thesis using w(2) gi unfolding ipi_routes_def by simp
    qed
  qed
  have "raised b 0 d = raised (bg_irqctrl s) 0 d" if "d < 4" for d
    using b(4) that by (simp add: BIC_NUM_GROUPS_def BIC_NUM_IRQS_def)
  then have "ipi_cores b = ipi_cores (bg_irqctrl s)"
    unfolding ipi_cores_raised [OF r] ipi_cores_raised [OF w(2)] by auto
  then show ?thesis using b(1,2) r w(3)
    by (simp add: ppc_pic_enableipi_def with_bic_def BIC_IPI_GROUP_def ppc_ok_def)
qed

subsection \<open>Runs\<close>

datatype ppc_op = Ipi u32 | AckIpi | EnableIpi

fun ppc_step :: "ppc_op \<Rightarrow> ppc_state \<Rightarrow> ppc_state res" where
  "ppc_step (Ipi c) s = ppc_pic_ipi c s"
| "ppc_step AckIpi s = ppc_pic_ackipi s"
| "ppc_step EnableIpi s = ppc_pic_enableipi s"

fun ppc_run :: "ppc_op list \<Rightarrow> ppc_state \<Rightarrow> ppc_state res" where
  "ppc_run [] s = Inr s"
| "ppc_run (a # as) s = rbind (ppc_step a s) (ppc_run as)"

text \<open>What a run on core \<open>me\<close> does to the set of interrupted cores.\<close>

fun ipi_effect :: "nat \<Rightarrow> ppc_op \<Rightarrow> nat set \<Rightarrow> nat set" where
  "ipi_effect me (Ipi c) C = insert (unat c) C"
| "ipi_effect me AckIpi C = C - {me}"
| "ipi_effect me EnableIpi C = C"

definition op_ok :: "ppc_op \<Rightarrow> bool" where
  "op_ok a = (case a of Ipi c \<Rightarrow> unat c < 4 | _ \<Rightarrow> True)"

lemma step_ok:
  assumes "ppc_ok s" "op_ok a"
  shows "\<exists>s'. ppc_step a s = Inr s' \<and> ppc_ok s' \<and> ppc_myid s' = ppc_myid s \<and> int_table s' = int_table s \<and>
    ipi_cores (bg_irqctrl s') = ipi_effect (unat (ppc_myid s)) a (ipi_cores (bg_irqctrl s))"
  using assms ipi_step ack_step enable_step by (cases a) (simp_all add: op_ok_def)

lemma run_ok:
  "ppc_ok s \<Longrightarrow> \<forall>a \<in> set as. op_ok a \<Longrightarrow>
   \<exists>s'. ppc_run as s = Inr s' \<and> ppc_ok s' \<and> ppc_myid s' = ppc_myid s \<and> int_table s' = int_table s \<and>
     ipi_cores (bg_irqctrl s') = fold (ipi_effect (unat (ppc_myid s))) as (ipi_cores (bg_irqctrl s))"
proof (induction as arbitrary: s)
  case (Cons a as)
  obtain s1 where s1: "ppc_step a s = Inr s1" "ppc_ok s1" "ppc_myid s1 = ppc_myid s" "int_table s1 = int_table s"
    "ipi_cores (bg_irqctrl s1) = ipi_effect (unat (ppc_myid s)) a (ipi_cores (bg_irqctrl s))"
    using step_ok [OF Cons.prems(1), of a] Cons.prems(2) by auto
  then show ?case using Cons.IH [OF s1(2)] Cons.prems(2) by auto
qed simp

lemma ppc_init_runs:
  assumes "bic_wf (bg_irqctrl s)" "length (int_table s) = NUM_INTS" "unat pir < 4"
  shows "\<exists>s'. ppc_pic_init pir h s = Inr s' \<and> ppc_ok s' \<and> ppc_myid s' = pir \<and>
    int_table s' = (int_table s)[IV_external := h] \<and> ipi_cores (bg_irqctrl s') = {unat pir}"
proof -
  have "routes_upto 0 (bic_disable_and_clear_all (bg_irqctrl s))"
    using assms(1) bic_clear_all_wf bic_clear_all by (simp add: routes_upto_def)
  then obtain b1 where b1: "bic_enable_irq BIC_IPI_GROUP 0 NONCRIT 0 (bic_disable_and_clear_all (bg_irqctrl s)) = Inr b1"
      "routes_upto 1 b1" using routes_upto_step [of 0] by auto
  obtain b2 where b2: "bic_enable_irq BIC_IPI_GROUP 1 NONCRIT 1 b1 = Inr b2" "routes_upto 2 b2"
    using routes_upto_step [OF b1(2)] by (auto simp: numeral_2_eq_2)
  obtain b3 where b3: "bic_enable_irq BIC_IPI_GROUP 2 NONCRIT 2 b2 = Inr b3" "routes_upto 3 b3"
    using routes_upto_step [OF b2(2)] by (auto simp: numeral_3_eq_3)
  obtain b4 where b4: "bic_enable_irq BIC_IPI_GROUP 3 NONCRIT 3 b3 = Inr b4" "routes_upto 4 b4"
    using routes_upto_step [OF b3(2)] by auto
  note r = routes_upto_4 [OF b4(2)]
  let ?s = "s\<lparr>ppc_myid := pir, tcr := tcr s AND NOT 0x0c000000, bg_irqctrl := b4, int_table := (int_table s)[IV_external := h]\<rparr>"
  have run: "ppc_pic_init pir h s = ppc_pic_ipi pir ?s"
    using assms(2) b1(1) b2(1) b3(1) b4(1)
    by (simp add: ppc_pic_init_def with_bic_def ppc_pic_mapvec_def ppc_pic_loop_def IV_external_def NUM_INTS_def)
  have "ppc_ok ?s" "ipi_cores (bg_irqctrl ?s) = {}"
    using r assms(3) ipi_cores_raised [of b4] by (auto simp: ppc_ok_def)
  then show ?thesis unfolding run using ipi_step [of ?s pir] assms(3) by auto
qed

text \<open>
  C27: inter-processor interrupts on ppc32. From any register contents, \<open>lrt_pic_init\<close> on one of the
  four cores installs the handler and leaves exactly an interrupt of this core pending; after
  any sequence of \<open>lrt_pic_ipi\<close> to cores, \<open>lrt_pic_ackipi\<close> and \<open>lrt_pic_enableipi\<close> by it the cores
  that are interrupted are those of the abstract set: an interrupt adds its target, an
  acknowledgement removes the core itself, enabling changes nothing.
\<close>

theorem ppc_ipi_delivery:
  assumes "bic_wf (bg_irqctrl s)" "length (int_table s) = NUM_INTS" "unat pir < 4" "\<forall>a \<in> set ops. op_ok a"
  shows "\<exists>s'. rbind (ppc_pic_init pir h s) (ppc_run ops) = Inr s' \<and> int_table s' ! IV_external = h \<and>
    ipi_cores (bg_irqctrl s') = fold (ipi_effect (unat pir)) ops {unat pir}"
proof -
  obtain s1 where s1: "ppc_pic_init pir h s = Inr s1" "ppc_ok s1" "ppc_myid s1 = pir"
      "int_table s1 = (int_table s)[IV_external := h]" "ipi_cores (bg_irqctrl s1) = {unat pir}"
    using ppc_init_runs [OF assms(1-3)] by blast
  then show ?thesis using run_ok [OF s1(2) assms(4)] assms(2) by (auto simp: IV_external_def NUM_INTS_def)
qed

definition bic_reset :: bic where
  "bic_reset = replicate 15 \<lparr>status = 0x80000001, target_irq = [0xffffffff, 0, 0, 0]\<rparr>"

lemma ppc_ipi_delivery_witness:
  "\<exists>s'. rbind (ppc_pic_init 1 External_interrupt_handler
        \<lparr>bg_irqctrl = bic_reset, int_table = ppc_int_table, ppc_myid = 0, tcr = 0xffffffff, IPI_handler = 0, IPI_fn = 0\<rparr>)
      (ppc_run [AckIpi, Ipi 3, Ipi 0, EnableIpi]) = Inr s' \<and>
    int_table s' ! IV_external = External_interrupt_handler \<and>
    ipi_cores (bg_irqctrl s') = fold (ipi_effect 1) [AckIpi, Ipi 3, Ipi 0, EnableIpi] {1}"
  using ppc_ipi_delivery [of "\<lparr>bg_irqctrl = bic_reset, int_table = ppc_int_table, ppc_myid = 0, tcr = 0xffffffff,
      IPI_handler = 0, IPI_fn = 0\<rparr>" 1 "[AckIpi, Ipi 3, Ipi 0, EnableIpi]" External_interrupt_handler]
  by (simp add: bic_reset_def bic_wf_def BIC_NUM_GROUPS_def ppc_int_table_def op_ok_def)

lemma bic_enable_irq_correct_witness:
  "(\<exists>s'. bic_enable_irq 2 5 CRIT 3 bic_reset = Inr s' \<and> bic_wf s' \<and> route s' 2 5 = Some (CRIT, Some 3) \<and>
      (\<forall>g' < BIC_NUM_GROUPS. \<forall>i < BIC_NUM_IRQS. (g' \<noteq> 2 \<or> i \<noteq> 5 \<longrightarrow> route s' g' i = route bic_reset g' i) \<and>
         raised s' g' i = raised bic_reset g' i)) \<and>
   bic_enable_irq 2 9 CRIT 3 bic_reset = Inl BadShift"
proof -
  have w: "bic_wf bic_reset" by (simp add: bic_reset_def bic_wf_def BIC_NUM_GROUPS_def)
  show ?thesis
    using bic_enable_irq_correct [OF w, of 2 5 3 CRIT] bic_enable_irq_correct [OF w, of 2 9 3 CRIT]
    by (simp add: BIC_NUM_GROUPS_def BIC_NUM_IRQS_def loc_of_def)
qed

end
