(* ===== verification/PpcTlb.thy ===== *)
theory PpcTlb
  imports BitField LrtTrans
begin

text \<open>
  The mapping of the translation tables on ppc32 (\<open>arch/ppc32/trans.c\<close>): two entries of the
  translation lookaside buffer. Bit fields on PowerPC start at the highest bit of the word
  (\<open>arch/powerpc/450/mmu.h\<close>): in word 0 \<open>epn\<close> is bits 10 to 31, \<open>v\<close> bit 9, \<open>ts\<close> bit 8, \<open>size\<close> bits 4
  to 7; in word 1 \<open>rpn\<close> is bits 10 to 31 and \<open>erpn\<close> bits 0 to 3; in word 2 \<open>wl1\<close> is bit 20, \<open>m\<close>
  bit 13, \<open>sx\<close>, \<open>sw\<close> and \<open>sr\<close> bits 2, 1 and 0.
\<close>

type_synonym tlb_entry = "u32 \<times> u32 \<times> u32"

record tlb_state =
  tlb :: "nat \<Rightarrow> tlb_entry"
  next_entry :: u8
  mmucr :: u32

subsection \<open>Operations\<close>

text \<open>\<open>while (val >>= 1) ret++\<close>\<close>

fun ilog2_loop :: "nat \<Rightarrow> u32 \<Rightarrow> u32 \<Rightarrow> u32" where
  "ilog2_loop 0 val ret = ret"
| "ilog2_loop (Suc k) val ret =
     (let val = drop_bit 1 val in if val \<noteq> 0 then ilog2_loop k val (ret + 1) else ret)"

text \<open>A shift of a 32-bit value reaches 0 within 32 steps.\<close>

definition ilog2 :: "u32 \<Rightarrow> u32" where "ilog2 val = ilog2_loop 32 val 0"

definition tlb_words :: "u32 \<Rightarrow> u64 \<Rightarrow> u32 \<Rightarrow> tlb_entry" where
  "tlb_words vaddr paddr sz =
     (let t0 = 0;
          t0 = set_field 10 22 (drop_bit 10 vaddr) t0;
          t0 = set_field 9 1 1 t0;
          t0 = set_field 4 4 (ilog2 (drop_bit 10 sz) div 2) t0;
          t1 = 0;
          t1 = set_field 10 22 (ucast (drop_bit 10 paddr AND 0x3fffff)) t1;
          t1 = set_field 0 4 (ucast (drop_bit 32 paddr AND 0xf)) t1;
          t2 = 0;
          t2 = set_field 20 1 1 t2;
          t2 = set_field 13 1 1 t2;
          t2 = set_field 2 1 1 t2;
          t2 = set_field 1 1 1 t2;
          t2 = set_field 0 1 1 t2
      in (t0, t1, t2))"

text \<open>\<open>entry\<close> is a static variable of the function, 23 at first.\<close>

definition map_addr :: "u32 \<Rightarrow> u64 \<Rightarrow> u32 \<Rightarrow> tlb_state \<Rightarrow> tlb_state res" where
  "map_addr vaddr paddr sz s =
     rbind (lrt_assert (next_entry s < 63)) (\<lambda>_.
     Inr (s\<lparr>tlb := (tlb s)(unat (next_entry s) := tlb_words vaddr paddr sz), next_entry := next_entry s + 1\<rparr>))"

definition SUPPORTED_TLB_PAGE_SIZE :: u32 where
  "SUPPORTED_TLB_PAGE_SIZE = push_bit 0 1 OR push_bit 1 1 OR push_bit 2 1 OR push_bit 3 1 OR push_bit 4 1 OR push_bit 5 1 OR
     push_bit 6 1 OR push_bit 9 1 OR push_bit 10 1"

definition popcount :: "u32 \<Rightarrow> nat" where "popcount w = length (filter (bit w) [0..<32])"

text \<open>The number of low zero bits of a number that is not 0.\<close>

definition ctz :: "u32 \<Rightarrow> nat" where "ctz w = length (takeWhile (\<lambda>i. \<not> bit w i) [0..<32])"

definition ppc32_TBLSIZE :: u32 where "ppc32_TBLSIZE = push_bit 12 1 * 4"

definition ppc32_trans_checks :: "u32 \<Rightarrow> u8 res" where
  "ppc32_trans_checks tblsize =
     rbind (lrt_assert (popcount tblsize = 1)) (\<lambda>_.
     rbind (lrt_assert (ctz tblsize \<ge> 10)) (\<lambda>_.
     rbind (lrt_assert (ctz tblsize mod 2 = 0)) (\<lambda>_.
     let sz = ucast (ilog2 (drop_bit 10 tblsize) div 2) :: u8
     in rbind (lrt_assert (SUPPORTED_TLB_PAGE_SIZE AND ucast sz \<noteq> 0)) (\<lambda>_. Inr sz))))"

definition ppc32_lrt_trans_init :: "u32 \<Rightarrow> u32 \<Rightarrow> tlb_state \<Rightarrow> tlb_state res" where
  "ppc32_lrt_trans_init theGMem BSPLMem s =
     rbind (ppc32_trans_checks ppc32_TBLSIZE) (\<lambda>_.
     let s = s\<lparr>mmucr := set_field 0 8 0 (mmucr s)\<rparr>
     in rbind (map_addr ppc32_GMem (ucast theGMem) ppc32_TBLSIZE s) (\<lambda>s.
        map_addr ppc32_LMem (ucast BSPLMem) ppc32_TBLSIZE s))"

subsection \<open>What the processor does with an entry\<close>

text \<open>A page of size \<open>k\<close> has \<open>4 ^ k\<close> KB: the low \<open>10 + 2 * k\<close> bits are the offset.\<close>

definition tlb_lookup :: "tlb_entry \<Rightarrow> u32 \<Rightarrow> u64 option" where
  "tlb_lookup e va =
     (case e of (t0, t1, t2) \<Rightarrow>
        let k = 2 * unat (get_field 4 4 t0)
        in if get_field 9 1 t0 = 1 \<and> drop_bit (10 + k) va = drop_bit k (get_field 10 22 t0)
           then Some (push_bit 32 (ucast (get_field 0 4 t1)) OR
             push_bit (10 + k) (ucast (drop_bit k (get_field 10 22 t1))) OR ucast (take_bit (10 + k) va))
           else None)"

end
