(* ===== verification/PpcTlbProps.thy ===== *)
theory PpcTlbProps
  imports PpcTlb
begin

text \<open>The windows that the two entries of ppc32 open, and the logarithm that sizes them.\<close>

subsection \<open>The logarithm\<close>

lemma ilog2_loop_spec:
  "v \<noteq> 0 \<Longrightarrow> unat v < 2 ^ Suc k \<Longrightarrow>
   \<exists>n. ilog2_loop k v ret = ret + of_nat n \<and> n \<le> k \<and> 2 ^ n \<le> unat v \<and> unat v < 2 ^ Suc n"
proof (induction k arbitrary: v ret)
  case 0
  then have "unat v \<noteq> 0" by (simp add: unsigned_eq_0_iff)
  then show ?case using 0 by (intro exI [of _ 0]) simp
next
  case (Suc k)
  have "unat (drop_bit 1 v) = drop_bit 1 (take_bit LENGTH(32) (unat v))" by (rule unsigned_drop_bit_eq)
  then have h: "unat (drop_bit 1 v) = unat v div 2"
    using unsigned_less [of v, where 'a = nat] by (simp add: drop_bit_eq_div take_bit_nat_eq_self)
  show ?case
  proof (cases "drop_bit 1 v = 0")
    case True
    then have "unat v div 2 = 0" using h by simp
    moreover have "unat v \<noteq> 0" using Suc.prems(1) by (simp add: unsigned_eq_0_iff)
    ultimately have "unat v = 1" by linarith
    then show ?thesis using True by (intro exI [of _ 0]) simp
  next
    case False
    have "unat v div 2 < 2 ^ Suc k" using Suc.prems(2) by (intro less_mult_imp_div_less) simp
    then obtain n where n: "ilog2_loop k (drop_bit 1 v) (ret + 1) = ret + 1 + of_nat n" "n \<le> k" "2 ^ n \<le> unat v div 2"
        "unat v div 2 < 2 ^ Suc n"
      using Suc.IH [of "drop_bit 1 v" "ret + 1"] Suc.prems False h by auto
    then show ?thesis using False by (intro exI [of _ "Suc n"]) (auto simp: Let_def)
  qed
qed

lemma ilog2_spec:
  assumes "v \<noteq> 0"
  shows "2 ^ unat (ilog2 v) \<le> unat v \<and> unat v < 2 ^ Suc (unat (ilog2 v))"
proof -
  have "unat v < 2 ^ Suc 32" using unsigned_less [of v, where 'a = nat] by simp
  then obtain n where n: "ilog2 v = of_nat n" "n \<le> 32" "2 ^ n \<le> unat v" "unat v < 2 ^ Suc n"
    using ilog2_loop_spec [OF assms, of 32 0] by (auto simp: ilog2_def)
  then have "unat (ilog2 v) = n" by (simp add: unat_of_nat)
  then show ?thesis using n by simp
qed

lemma unat_exp: "n < 32 \<Longrightarrow> unat (2 ^ n :: u32) = 2 ^ n"
proof -
  assume n: "n < 32"
  have "unat (push_bit n (1 :: u32)) = take_bit LENGTH(32) (push_bit n (unat (1 :: u32)))" by (rule unsigned_push_bit_eq)
  moreover have "(2 :: nat) ^ n < 2 ^ 32" using n by (intro power_strict_increasing) simp_all
  ultimately show ?thesis using n by (simp add: take_bit_nat_eq_self)
qed

lemma ilog2_power:
  assumes "n < 32"
  shows "unat (ilog2 (2 ^ n)) = n"
proof -
  have "(2 ^ n :: u32) \<noteq> 0" using unat_exp [OF assms] by (metis power_not_zero unsigned_0 zero_neq_numeral)
  then have b: "(2 :: nat) ^ unat (ilog2 (2 ^ n)) \<le> 2 ^ n" "(2 :: nat) ^ n < 2 ^ Suc (unat (ilog2 (2 ^ n)))"
    using ilog2_spec [of "2 ^ n"] unat_exp [OF assms] by auto
  have "unat (ilog2 (2 ^ n)) \<le> n" using b(1) by (rule power_le_imp_le_exp [rotated]) simp
  moreover have "n < Suc (unat (ilog2 (2 ^ n)))" using b(2) by (rule power_less_imp_less_exp [rotated]) simp
  ultimately show ?thesis by simp
qed

subsection \<open>A page\<close>

text \<open>The entry for a page of \<open>4 ^ k\<close> KB.\<close>

lemma tlb_words_lookup:
  fixes vaddr :: u32 and paddr :: u64
  assumes k: "k \<le> 10" and p: "take_bit (10 + 2 * k) paddr = 0" "take_bit 36 paddr = paddr"
  shows "tlb_lookup (tlb_words vaddr paddr (2 ^ (10 + 2 * k))) va =
    (if drop_bit (10 + 2 * k) va = drop_bit (10 + 2 * k) vaddr then Some (paddr OR ucast (take_bit (10 + 2 * k) va)) else None)"
proof -
  let ?n = "10 + 2 * k"
  obtain t0 t1 t2 where t: "tlb_words vaddr paddr (2 ^ ?n) = (t0, t1, t2)" by (metis prod_cases3)
  have lg: "drop_bit 10 (2 ^ ?n :: u32) = 2 ^ (2 * k)"
    using k by (intro bit_word_eqI) (auto simp: bit_drop_bit_eq bit_exp_iff)
  have f0: "get_field 9 1 t0 = 1" "get_field 4 4 t0 = take_bit 4 (ilog2 (2 ^ (2 * k)) div 2)" "get_field 10 22 t0 = take_bit 22 (drop_bit 10 vaddr)"
    and f1: "get_field 0 4 t1 = take_bit 4 (ucast (drop_bit 32 paddr AND 0xf))"
      "get_field 10 22 t1 = take_bit 22 (ucast (drop_bit 10 paddr AND 0x3fffff))"
    using t by (auto simp: tlb_words_def Let_def get_set_same get_set_other lg)
  have "unat (ilog2 (2 ^ (2 * k)) div 2) = k" using ilog2_power [of "2 * k"] k by (simp add: unat_div)
  then have sz: "unat (get_field 4 4 t0) = k"
  proof -
    have "unat (take_bit 4 (ilog2 (2 ^ (2 * k)) div 2)) = take_bit 4 (unat (ilog2 (2 ^ (2 * k)) div 2))" by (rule unsigned_take_bit_eq)
    then show ?thesis unfolding f0(2) using \<open>unat (ilog2 (2 ^ (2 * k)) div 2) = k\<close> k by (simp add: take_bit_nat_eq_self)
  qed
  have m: "(0xf :: u64) = mask 4" "(0x3fffff :: u64) = mask 22" by (simp_all add: mask_eq_exp_minus_1)
  have tag: "drop_bit (2 * k) (get_field 10 22 t0) = drop_bit ?n vaddr"
    unfolding f0(3) by (rule bit_word_eqI) (auto simp: bit_drop_bit_eq bit_take_bit_iff add_ac dest: bit_imp_le_length)
  have pa: "push_bit 32 (ucast (get_field 0 4 t1)) OR push_bit ?n (ucast (drop_bit (2 * k) (get_field 10 22 t1))) = paddr"
  proof (rule bit_word_eqI)
    fix i assume i: "i < LENGTH(64)"
    have lo: "\<not> bit paddr i" if "i < ?n" for i using p(1) that bit_take_bit_iff [of ?n paddr i] by simp
    have hi: "\<not> bit paddr i" if "36 \<le> i" for i using p(2) that bit_take_bit_iff [of 36 paddr i] by simp
    let ?pa = "push_bit 32 (ucast (take_bit 4 (ucast (drop_bit 32 paddr AND mask 4) :: u32))) OR push_bit ?n
        (ucast (drop_bit (2 * k) (take_bit 22 (ucast (drop_bit 10 paddr AND mask 22) :: u32)))) :: u64"
    note bits = bit_or_iff bit_push_bit_iff bit_ucast_iff bit_take_bit_iff bit_drop_bit_eq bit_and_iff bit_mask_iff
    consider "i < ?n" | "?n \<le> i" "i < 32" | "32 \<le> i" "i < 36" | "36 \<le> i" by linarith
    then show "bit (push_bit 32 (ucast (get_field 0 4 t1)) OR push_bit ?n (ucast (drop_bit (2 * k) (get_field 10 22 t1))) :: u64) i = bit paddr i"
      unfolding f1 m
    proof cases
      case 1
      then show "bit ?pa i = bit paddr i"
        using lo k by (simp add: bits)
    next
      case 2
      then have "10 + (2 * k + (i - ?n)) = i" "2 * k + (i - ?n) < 22" "i - ?n < 64" by linarith+
      then show "bit ?pa i = bit paddr i"
        using 2 k by (simp add: bits)
    next
      case 3
      then have "32 + (i - 32) = i" "i - 32 < 4" "\<not> 2 * k + (i - ?n) < 22" using k by linarith+
      then show "bit ?pa i = bit paddr i"
        using 3 k i by (simp add: bits)
    next
      case 4
      then have "\<not> i - 32 < 4" "\<not> 2 * k + (i - ?n) < 22" using k by linarith+
      then show "bit ?pa i = bit paddr i"
        using hi [OF 4] by (simp add: bits)
    qed
  qed
  show ?thesis unfolding t tlb_lookup_def using sz f0(1) tag pa by (simp add: Let_def or.assoc [symmetric])
qed

subsection \<open>The checks and the windows\<close>

text \<open>
  The last check takes the page size itself for a set of page sizes: it refuses a table of 1 KB,
  which the processor can map, and accepts one of 64 MB, which it cannot.
\<close>

lemma ppc32_checks_confuse_sizes:
  "\<not> bit SUPPORTED_TLB_PAGE_SIZE 8" "bit SUPPORTED_TLB_PAGE_SIZE 0"
  "SUPPORTED_TLB_PAGE_SIZE AND 8 \<noteq> 0" "SUPPORTED_TLB_PAGE_SIZE AND 0 = 0"
  by (simp_all add: SUPPORTED_TLB_PAGE_SIZE_def bit_or_iff bit_exp_iff)

lemma ppc32_checks_ok: "ppc32_trans_checks ppc32_TBLSIZE = Inr 2"
proof -
  have t: "ppc32_TBLSIZE = 2 ^ 14" by (simp add: ppc32_TBLSIZE_def)
  have "popcount (2 ^ 14) = 1" "ctz (2 ^ 14) = 14"
    by (simp_all add: popcount_def ctz_def bit_exp_iff upt_rec del: power_numeral)
  moreover have "drop_bit 10 (2 ^ 14 :: u32) = 2 ^ 4" by (simp add: drop_bit_eq_div)
  moreover have "ilog2 (2 ^ 4) div 2 = 2" 
  proof -
    have "unat (ilog2 (2 ^ 4) div 2) = 2" using ilog2_power [of 4] by (simp add: unat_div)
    then show ?thesis by (simp add: word_eq_iff_unsigned [where 'a = nat])
  qed
  moreover have "SUPPORTED_TLB_PAGE_SIZE AND 2 \<noteq> 0" by (simp add: SUPPORTED_TLB_PAGE_SIZE_def)
  ultimately show ?thesis unfolding ppc32_trans_checks_def t by (simp add: Let_def del: power_numeral)
qed

definition in_window :: "u32 \<Rightarrow> u32 \<Rightarrow> bool" where
  "in_window base va \<longleftrightarrow> drop_bit 14 va = drop_bit 14 base"

lemma table_entry_lookup:
  assumes "take_bit 14 (real :: u32) = 0"
  shows "tlb_lookup (tlb_words base (ucast real) ppc32_TBLSIZE) va =
    (if in_window base va then Some (ucast (real OR take_bit 14 va)) else None)"
proof -
  have "take_bit 14 (ucast real :: u64) = ucast (take_bit 14 real)" "take_bit 36 (ucast real :: u64) = ucast real"
    by (rule bit_word_eqI; auto simp: bit_take_bit_iff bit_ucast_iff dest: bit_imp_le_length)+
  moreover have "ppc32_TBLSIZE = 2 ^ (10 + 2 * 2)" by (simp add: ppc32_TBLSIZE_def)
  moreover have "ucast real OR ucast (take_bit 14 va) = (ucast (real OR take_bit 14 va) :: u64)"
    by (rule bit_word_eqI) (auto simp: bit_or_iff bit_ucast_iff)
  ultimately show ?thesis using tlb_words_lookup [of 2 "ucast real" base va] assms by (simp add: in_window_def)
qed



end
