(* ===== verification/Ppc64Tlb.thy ===== *)
theory Ppc64Tlb
  imports BitField LrtTrans
begin

text \<open>
  The mapping of the translation tables on ppc64 (\<open>l0/lrt/bare/arch/ppc64/trans.c\<close>) and its doorbell
  interrupts (\<open>pic.c\<close>). The lookaside buffer has congruence classes of four ways. Bit fields start
  at the highest bit (\<open>arch/ppc64/mmu.h\<close>): in MAS1 \<open>v\<close> is bit 31, \<open>tid\<close> bits 16 to 29, \<open>ts\<close> bit 12, \<open>tsize\<close>
  bits 8 to 11; in MAS2 \<open>epn\<close> is bits 12 to 63, \<open>m\<close> bit 2; in MAS3 \<open>rpnl\<close> is bits 11 to 31, \<open>sw\<close> bit 2, \<open>sr\<close>
  bit 0; in MAS7 \<open>rpnu\<close> is bits 0 to 9. The class of a page is a parameter of the processor.
\<close>

subsection \<open>The lookaside buffer\<close>

record tlb64_entry =
  e_mas1 :: u32
  e_mas2 :: u64
  e_mas3 :: u32
  e_mas7 :: u32

record tlb64_state =
  classes :: nat
  ways :: "nat \<Rightarrow> nat \<Rightarrow> tlb64_entry"
  spr_pid :: u32
  spr_tlb0ps :: u32
  spr_mas5 :: u32
  spr_mas6 :: u32
  spr_mmucr3 :: u32

text \<open>A page of size \<open>k\<close> has \<open>4 ^ k\<close> KB.\<close>

definition page_bits :: "tlb64_entry \<Rightarrow> nat" where "page_bits e = 10 + 2 * unat (get_field 8 4 (e_mas1 e))"

definition entry_valid :: "tlb64_entry \<Rightarrow> bool" where "entry_valid e \<longleftrightarrow> get_field 31 1 (e_mas1 e) = 1"

definition tlb64_hits :: "u32 \<Rightarrow> tlb64_entry \<Rightarrow> u64 \<Rightarrow> bool" where
  "tlb64_hits p e ea \<longleftrightarrow>
     entry_valid e \<and> get_field 12 1 (e_mas1 e) = 0 \<and> (get_field 16 14 (e_mas1 e) = 0 \<or> get_field 16 14 (e_mas1 e) = p) \<and>
     drop_bit (page_bits e) ea = drop_bit (page_bits e) (e_mas2 e)"

definition tlb64_lookup :: "u32 \<Rightarrow> tlb64_entry \<Rightarrow> u64 \<Rightarrow> u64 option" where
  "tlb64_lookup p e ea =
     (if tlb64_hits p e ea
      then Some (push_bit (page_bits e) (drop_bit (page_bits e)
             (push_bit 32 (ucast (get_field 0 10 (e_mas7 e))) OR push_bit 11 (ucast (get_field 11 21 (e_mas3 e))))) OR
           take_bit (page_bits e) ea)
      else None)"

text \<open>\<open>tlbsx\<close> sets \<open>v\<close> of MAS1 when an entry matches, for the process id in MAS6.\<close>

definition tlbsx_found :: "tlb64_state \<Rightarrow> u64 \<Rightarrow> bool" where
  "tlbsx_found s ea \<longleftrightarrow> (\<exists>c < classes s. \<exists>w < 4. tlb64_hits (get_field 16 14 (spr_mas6 s)) (ways s c w) ea)"

subsection \<open>Mapping\<close>

text \<open>The loop over the pages of the window, and that over the ways of the class.\<close>

partial_function (option) probe_loop :: "tlb64_state \<Rightarrow> u64 \<Rightarrow> u64 \<Rightarrow> unit res option" where
  "probe_loop s end' addr =
     (if addr < end' then
        (if tlbsx_found s addr then Some (Inl AssertFail) else probe_loop s end' (addr + push_bit 12 1))
      else Some (Inr ()))"

definition way_of :: "(u64 \<Rightarrow> nat) \<Rightarrow> tlb64_state \<Rightarrow> u64 \<Rightarrow> nat \<Rightarrow> tlb64_entry" where
  "way_of cls s virt i = ways s (cls (drop_bit 12 virt)) i"

fun free_way :: "nat \<Rightarrow> (u64 \<Rightarrow> nat) \<Rightarrow> tlb64_state \<Rightarrow> u64 \<Rightarrow> u64 \<Rightarrow> nat \<Rightarrow> nat res" where
  "free_way 0 cls s virt sz i = Inr i"
| "free_way (Suc n) cls s virt sz i =
     rbind (lrt_assert (sz = push_bit 20 1)) (\<lambda>_.
     if \<not> entry_valid (way_of cls s virt i) then Inr i else free_way n cls s virt sz (i + 1))"

definition window_entry :: "u64 \<Rightarrow> u64 \<Rightarrow> u32 \<Rightarrow> tlb64_entry" where
  "window_entry virt real p =
     (let m1 = 0;
          m1 = set_field 31 1 1 m1;
          m1 = set_field 16 14 p m1;
          m1 = set_field 8 4 5 m1;
          m2 = 0;
          m2 = set_field 2 1 1 m2;
          m2 = set_field 12 52 (drop_bit 12 virt) m2;
          m3 = 0;
          m3 = set_field 11 21 (ucast (drop_bit 11 real AND (push_bit 21 1 - 1))) m3;
          m3 = set_field 2 1 1 m3;
          m3 = set_field 0 1 1 m3;
          m7 = 0;
          m7 = set_field 0 10 (ucast (drop_bit 32 real AND (push_bit 10 1 - 1))) m7
      in \<lparr>e_mas1 = m1, e_mas2 = m2, e_mas3 = m3, e_mas7 = m7\<rparr>)"

definition ppc64_map_addr :: "(u64 \<Rightarrow> nat) \<Rightarrow> u64 \<Rightarrow> u64 \<Rightarrow> u64 \<Rightarrow> tlb64_state \<Rightarrow> tlb64_state res" where
  "ppc64_map_addr cls virt real sz s =
     (let s = s\<lparr>spr_mas5 := 0\<rparr>;
          s = s\<lparr>spr_mas6 := 0\<rparr>
      in rbind (returns (probe_loop s (virt + sz) virt)) (\<lambda>_.
         rbind (free_way 4 cls s virt sz 0) (\<lambda>i.
         rbind (lrt_assert (i < 4)) (\<lambda>_.
         rbind (lrt_assert (sz = push_bit 20 1)) (\<lambda>_.
         let c = cls (drop_bit 12 virt);
             s = s\<lparr>spr_mmucr3 := set_field 0 4 0xf 0\<rparr>
         in Inr (s\<lparr>ways := (ways s)(c := (ways s c)(i := window_entry virt real (spr_pid s)))\<rparr>))))))"

definition ppc64_TBLSIZE :: u64 where "ppc64_TBLSIZE = push_bit 12 1 * 256"

definition ppc64_lrt_trans_init :: "(u64 \<Rightarrow> nat) \<Rightarrow> u64 \<Rightarrow> u64 \<Rightarrow> tlb64_state \<Rightarrow> tlb64_state res" where
  "ppc64_lrt_trans_init cls theGMem BSPLMem s =
     rbind (lrt_assert (length (filter (bit ppc64_TBLSIZE) [0..<32]) = 1)) (\<lambda>_.
     rbind (lrt_assert (spr_tlb0ps s AND ucast ppc64_TBLSIZE \<noteq> 0)) (\<lambda>_.
     rbind (ppc64_map_addr cls ppc64_GMem theGMem ppc64_TBLSIZE s) (\<lambda>s.
     ppc64_map_addr cls ppc64_LMem BSPLMem ppc64_TBLSIZE s)))"

text \<open>Only the core itself has a local entry on this machine.\<close>

definition ppc64_trans_id2rlt :: "nat \<Rightarrow> nat \<Rightarrow> u64 \<Rightarrow> u64 res" where
  "ppc64_trans_id2rlt myid picid oid = rbind (lrt_assert (picid = myid)) (\<lambda>_. Inr (ppc64_trans_id2lt oid))"

subsection \<open>Doorbells\<close>

text \<open>
  The message of \<open>msgsnd\<close>: \<open>pirtag\<close> is bits 0 to 13, \<open>type\<close> bits 27 to 31 and \<open>broadcast\<close> bit 26. The
  processor with that number takes a doorbell, type 0, if it has enabled them.
\<close>

definition doorbell :: "u64 \<Rightarrow> u32" where "doorbell i = set_field 0 14 (ucast i) 0"

datatype ppc64_isr = Attn | Isr nat

record ppc64_pic =
  int_table :: "ppc64_isr list"
  lrt_myid :: u64
  doorbells_on :: bool
  sent :: "u32 list"

definition PPC64_NUM_INTS :: nat where "PPC64_NUM_INTS = 27"
definition IV_processor_dbell :: nat where "IV_processor_dbell = 20"

definition ppc64_mapipi :: "ppc64_isr \<Rightarrow> ppc64_pic \<Rightarrow> ppc64_pic res" where
  "ppc64_mapipi h s = rbind (arr_set (int_table s) IV_processor_dbell h) (\<lambda>t. Inr (s\<lparr>int_table := t\<rparr>))"

definition ppc64_ipi :: "u64 \<Rightarrow> ppc64_pic \<Rightarrow> ppc64_pic" where
  "ppc64_ipi i s = s\<lparr>sent := sent s @ [doorbell i]\<rparr>"

text \<open>
  \<open>lrt_pic_init\<close> and the part of \<open>lrt_pic_loop\<close> before the processor waits; \<open>pir\<close> is the number of the
  processor.
\<close>

definition ppc64_pic_init :: "u64 \<Rightarrow> ppc64_isr \<Rightarrow> ppc64_pic \<Rightarrow> ppc64_pic res" where
  "ppc64_pic_init pir h s =
     (let s = s\<lparr>int_table := replicate PPC64_NUM_INTS Attn\<rparr>;
          s = s\<lparr>lrt_myid := pir\<rparr>;
          s = s\<lparr>doorbells_on := True\<rparr>
      in rbind (ppc64_mapipi h s) (\<lambda>s. Inr (ppc64_ipi (lrt_myid s) s)))"

end
