(* ===== verification/Ppc64TlbProps.thy ===== *)
theory Ppc64TlbProps
  imports Ppc64Tlb
begin

text \<open>The windows that the two entries of ppc64 open, without evicting an entry.\<close>

subsection \<open>One window\<close>

definition in_window64 :: "u64 \<Rightarrow> u64 \<Rightarrow> bool" where "in_window64 virt va \<longleftrightarrow> drop_bit 20 va = drop_bit 20 virt"

lemma probe_loop_free:
  "unat a + n * 4096 < 2 ^ 64 \<Longrightarrow> (\<And>i. i < n \<Longrightarrow> \<not> tlbsx_found s (a + of_nat (i * 4096))) \<Longrightarrow>
   probe_loop s (a + of_nat (n * 4096)) a = Some (Inr ())"
proof (induction n arbitrary: a)
  case 0
  then show ?case by (simp add: probe_loop.simps)
next
  case (Suc n)
  have u: "unat (a + 4096) = unat a + 4096"
    using Suc.prems(1) by (subst unat_add_lem [THEN iffD1]) simp_all
  have l: "unat (a + of_nat (Suc n * 4096)) = unat a + Suc n * 4096"
  proof -
    have "unat (of_nat (Suc n * 4096) :: u64) = Suc n * 4096" using Suc.prems(1) by (intro unat_of_nat_u64) simp
    then show ?thesis using Suc.prems(1) by (subst unat_add_lem [THEN iffD1]) simp_all
  qed
  then have less: "a < a + of_nat (Suc n * 4096)" by (simp add: word_less_nat_alt)
  have "\<not> tlbsx_found s a" using Suc.prems(2) [of 0] by simp
  moreover have "probe_loop s ((a + 4096) + of_nat (n * 4096)) (a + 4096) = Some (Inr ())"
  proof (rule Suc.IH)
    show "unat (a + 4096) + n * 4096 < 2 ^ 64" using u Suc.prems(1) by simp
    show "\<not> tlbsx_found s (a + 4096 + of_nat (i * 4096))" if "i < n" for i
      using Suc.prems(2) [of "Suc i"] that by (simp add: algebra_simps)
  qed
  ultimately show ?case using less by (subst probe_loop.simps) (simp add: push_bit_eq_mult algebra_simps)
qed

lemma free_way_found:
  "\<exists>k < i + n. i \<le> k \<and> \<not> entry_valid (way_of cls s virt k) \<Longrightarrow>
   \<exists>k < i + n. free_way n cls s virt (push_bit 20 1) i = Inr k \<and> i \<le> k \<and> \<not> entry_valid (way_of cls s virt k)"
proof (induction n arbitrary: i)
  case (Suc n)
  show ?case
  proof (cases "entry_valid (way_of cls s virt i)")
    case True
    obtain k where k: "k < i + Suc n" "i \<le> k" "\<not> entry_valid (way_of cls s virt k)" using Suc.prems by blast
    with True have "k \<noteq> i" by blast
    with k have "\<exists>k < (i + 1) + n. i + 1 \<le> k \<and> \<not> entry_valid (way_of cls s virt k)" by (intro exI [of _ k]) simp
    from Suc.IH [OF this] obtain k where "k < (i + 1) + n" "free_way n cls s virt (push_bit 20 1) (i + 1) = Inr k" "i + 1 \<le> k"
      "\<not> entry_valid (way_of cls s virt k)" by blast
    with True show ?thesis by (intro exI [of _ k]) simp
  qed (intro exI [of _ i], simp)
qed auto

lemma window_entry_sel:
  "entry_valid (window_entry virt real p)" "page_bits (window_entry virt real p) = 20"
  "get_field 12 1 (e_mas1 (window_entry virt real p)) = 0"
  "get_field 16 14 (e_mas1 (window_entry virt real p)) = take_bit 14 p"
proof -
  have e: "e_mas1 (window_entry virt real p) = set_field 8 4 5 (set_field 16 14 p (set_field 31 1 1 0))"
    by (simp add: window_entry_def Let_def)
  show "entry_valid (window_entry virt real p)" "get_field 12 1 (e_mas1 (window_entry virt real p)) = 0"
    "get_field 16 14 (e_mas1 (window_entry virt real p)) = take_bit 14 p"
    unfolding entry_valid_def e by (simp_all add: get_set_same get_set_other)
  show "page_bits (window_entry virt real p) = 20"
    unfolding page_bits_def e by (simp add: get_set_same)
qed

lemma window_entry_page: "drop_bit 20 (e_mas2 (window_entry virt real p)) = drop_bit 20 virt"
proof (rule bit_word_eqI)
  fix i assume "i < LENGTH(64)"
  then show "bit (drop_bit 20 (e_mas2 (window_entry virt real p))) i = bit (drop_bit 20 virt) i"
    by (cases "20 + i < 64") (auto simp: window_entry_def Let_def bit_drop_bit_eq bit_set_field dest: bit_imp_le_length)
qed

lemma window_entry_real:
  assumes "take_bit 20 real = 0" "take_bit 42 real = real"
  shows "push_bit 32 (ucast (get_field 0 10 (e_mas7 (window_entry virt real p)))) OR
    push_bit 11 (ucast (get_field 11 21 (e_mas3 (window_entry virt real p)))) = real"
proof -
  have m: "(push_bit 21 1 - 1 :: u64) = mask 21" "(push_bit 10 1 - 1 :: u64) = mask 10" by (simp_all add: mask_eq_exp_minus_1 push_bit_eq_mult)
  have e: "e_mas7 (window_entry virt real p) = set_field 0 10 (ucast (drop_bit 32 real AND (push_bit 10 1 - 1))) 0"
    "e_mas3 (window_entry virt real p) =
      set_field 0 1 1 (set_field 2 1 1 (set_field 11 21 (ucast (drop_bit 11 real AND (push_bit 21 1 - 1))) 0))"
    by (simp_all only: window_entry_def Let_def tlb64_entry.simps)
  have t: "take_bit 10 (ucast (x AND mask 10) :: u32) = take_bit 10 (ucast x)"
    "take_bit 21 (ucast (x AND mask 21) :: u32) = take_bit 21 (ucast x)" for x :: u64
    by (rule bit_word_eqI, auto simp: bit_take_bit_iff bit_ucast_iff bit_and_iff bit_mask_iff)+
  have r7: "get_field 0 10 (e_mas7 (window_entry virt real p)) = take_bit 10 (ucast (drop_bit 32 real))"
    unfolding e m by (simp add: get_set_same t)
  have r3: "get_field 11 21 (e_mas3 (window_entry virt real p)) = take_bit 21 (ucast (drop_bit 11 real))"
    unfolding e m by (simp add: get_set_same get_set_other t)
  have low: "\<not> bit real i" if "i < 20" for i
    using assms(1) that by (metis bit_0_eq bit_take_bit_iff bot_apply bot_bool_def)
  have high: "\<not> bit real i" if "42 \<le> i" for i
    using assms(2) that by (metis bit_take_bit_iff not_less)
  show ?thesis unfolding r7 r3
  proof (rule bit_word_eqI)
    fix i assume "i < LENGTH(64)"
    then show "bit (push_bit 32 (ucast (take_bit 10 (ucast (drop_bit 32 real) :: u32))) OR
        push_bit 11 (ucast (take_bit 21 (ucast (drop_bit 11 real) :: u32))) :: u64) i = bit real i"
      using low [of i] high [of i]
      by (cases "i < 11"; cases "i < 32"; cases "i < 42")
        (auto simp: bit_or_iff bit_push_bit_iff bit_ucast_iff bit_take_bit_iff bit_drop_bit_eq)
  qed
qed

lemma window_entry_lookup:
  assumes "take_bit 20 real = 0" "take_bit 42 real = real"
  shows "tlb64_lookup (take_bit 14 p) (window_entry virt real p) va =
    (if in_window64 virt va then Some (real OR take_bit 20 va) else None)"
proof -
  have "push_bit 20 (drop_bit 20 real) = real"
    using assms(1) by (metis add_0_right bits_ident)
  then show ?thesis
    by (simp add: tlb64_lookup_def tlb64_hits_def window_entry_sel window_entry_page window_entry_real [OF assms] in_window64_def
      del: One_nat_def)
qed

subsection \<open>Both windows\<close>

text \<open>No entry maps a page of the window, for process id 0.\<close>

definition window_unmapped :: "u64 \<Rightarrow> tlb64_state \<Rightarrow> bool" where
  "window_unmapped virt s \<longleftrightarrow>
     (\<forall>i < 256. \<forall>c < classes s. \<forall>w < 4. \<not> tlb64_hits 0 (ways s c w) (virt + of_nat (i * 4096)))"

definition with_window :: "nat \<Rightarrow> nat \<Rightarrow> tlb64_entry \<Rightarrow> tlb64_state \<Rightarrow> tlb64_state" where
  "with_window c w e s = s\<lparr>spr_mas5 := 0, spr_mas6 := 0, spr_mmucr3 := set_field 0 4 0xf 0,
     ways := (ways s)(c := (ways s c)(w := e))\<rparr>"

lemma with_window_sel [simp]:
  "classes (with_window c w e s) = classes s" "spr_pid (with_window c w e s) = spr_pid s"
  "ways (with_window c w e s) = (ways s)(c := (ways s c)(w := e))"
  by (simp_all add: with_window_def)

lemma tblsize64: "ppc64_TBLSIZE = push_bit 20 1" by (simp add: ppc64_TBLSIZE_def push_bit_eq_mult)

lemma ppc64_TBLSIZE_bits: "bit ppc64_TBLSIZE i \<longleftrightarrow> i = 20"
  unfolding tblsize64 bit_push_bit_iff by (auto simp: bit_1_iff)

lemma map_window:
  assumes "window_unmapped virt s" "unat virt + 2 ^ 20 < 2 ^ 64"
    "\<exists>w < 4. \<not> entry_valid (ways s (cls (drop_bit 12 virt)) w)"
  shows "\<exists>w < 4. \<not> entry_valid (ways s (cls (drop_bit 12 virt)) w) \<and>
    ppc64_map_addr cls virt real ppc64_TBLSIZE s =
      Inr (with_window (cls (drop_bit 12 virt)) w (window_entry virt real (spr_pid s)) s)"
proof -
  let ?s = "s\<lparr>spr_mas5 := 0, spr_mas6 := 0\<rparr>"
  have "\<not> tlbsx_found ?s (virt + of_nat (i * 4096))" if "i < 256" for i
    using assms(1) that unfolding window_unmapped_def tlbsx_found_def by simp
  from probe_loop_free [of virt 256, OF _ this] assms(2)
  have probe: "probe_loop ?s (virt + ppc64_TBLSIZE) virt = Some (Inr ())" by (simp add: tblsize64 push_bit_eq_mult)
  have "\<exists>k < 0 + 4. 0 \<le> k \<and> \<not> entry_valid (way_of cls ?s virt k)" using assms(3) by (simp add: way_of_def)
  from free_way_found [OF this] obtain w where w: "w < 4" "free_way 4 cls ?s virt (push_bit 20 1) 0 = Inr w"
    "\<not> entry_valid (ways s (cls (drop_bit 12 virt)) w)" by (auto simp: way_of_def)
  have sz: "(push_bit 20 1 :: u64) = 1048576" by simp
  have "ppc64_map_addr cls virt real ppc64_TBLSIZE s =
      Inr (with_window (cls (drop_bit 12 virt)) w (window_entry virt real (spr_pid s)) s)"
    using w(1) probe [unfolded tblsize64 sz] w(2) [unfolded sz] by (simp add: ppc64_map_addr_def Let_def tblsize64 with_window_def)
  then show ?thesis using w by blast
qed

text \<open>
  \<open>lrt_trans_init\<close> on ppc64 maps the two translation tables and evicts nothing. When no entry
  maps a page of the windows at \<open>GMem\<close> and \<open>LMem\<close>, the classes of the windows have free ways and the
  page size is reported as supported, it ends without fault; every valid entry of the lookaside
  buffer is still there, and two entries that were not valid translate exactly the 1 MB windows, to
  the global table and to the local table of the processor, byte by byte.
\<close>

theorem ppc64_windows:
  assumes free: "window_unmapped ppc64_GMem s" "window_unmapped ppc64_LMem s"
    and ways: "\<exists>w < 4. \<not> entry_valid (ways s (cls (drop_bit 12 ppc64_GMem)) w)"
      "\<exists>w < 4. \<exists>w' < 4. w \<noteq> w' \<and> \<not> entry_valid (ways s (cls (drop_bit 12 ppc64_LMem)) w) \<and> \<not> entry_valid (ways s (cls (drop_bit 12 ppc64_LMem)) w')"
    and sup: "bit (spr_tlb0ps s) 20"
    and tables: "take_bit 20 theGMem = 0" "take_bit 42 theGMem = theGMem" "take_bit 20 BSPLMem = 0" "take_bit 42 BSPLMem = BSPLMem"
  shows "\<exists>s' cg wg cl wl. ppc64_lrt_trans_init cls theGMem BSPLMem s = Inr s' \<and>
    (\<forall>c w. entry_valid (ways s c w) \<longrightarrow> ways s' c w = ways s c w) \<and>
    \<not> entry_valid (ways s cg wg) \<and> \<not> entry_valid (ways s cl wl) \<and>
    (\<forall>va. tlb64_lookup (take_bit 14 (spr_pid s)) (ways s' cg wg) va = (if in_window64 ppc64_GMem va then Some (theGMem OR take_bit 20 va) else None)) \<and>
    (\<forall>va. tlb64_lookup (take_bit 14 (spr_pid s)) (ways s' cl wl) va = (if in_window64 ppc64_LMem va then Some (BSPLMem OR take_bit 20 va) else None))"
proof -
  let ?cg = "cls (drop_bit 12 ppc64_GMem)" and ?cl = "cls (drop_bit 12 ppc64_LMem)"
  define eg where "eg = window_entry ppc64_GMem theGMem (spr_pid s)"
  define el where "el = window_entry ppc64_LMem BSPLMem (spr_pid s)"
  obtain wg where g: "wg < 4" "\<not> entry_valid (ways s ?cg wg)"
    "ppc64_map_addr cls ppc64_GMem theGMem ppc64_TBLSIZE s = Inr (with_window ?cg wg eg s)"
    using map_window [where cls = cls, OF free(1) _ ways(1), of theGMem] by (auto simp: ppc64_GMem_def eg_def)
  let ?s1 = "with_window ?cg wg eg s"
  have eg_misses: "\<not> tlb64_hits 0 eg (ppc64_LMem + of_nat (i * 4096))" if i: "i < 256" for i
  proof -
    have "unat (of_nat (i * 4096) :: u64) = i * 4096" using i by (intro unat_of_nat_u64) simp
    then have "unat (ppc64_LMem + of_nat (i * 4096)) = 0xFFFFFFFE00000000 + i * 4096"
      using i by (subst unat_add_lem [THEN iffD1]) (simp_all add: ppc64_LMem_def)
    then have "unat (drop_bit 20 (ppc64_LMem + of_nat (i * 4096))) = (0xFFFFFFFE00000000 + i * 4096) div 2 ^ 20"
      by (simp only: unat_drop_bit_eq) (simp only: drop_bit_eq_div)
    also have "\<dots> = 0xFFFFFFFE000" using i by simp
    finally have "drop_bit 20 (ppc64_LMem + of_nat (i * 4096)) \<noteq> drop_bit 20 ppc64_GMem"
      by (auto simp: ppc64_GMem_def)
    then show ?thesis by (simp add: eg_def tlb64_hits_def window_entry_sel window_entry_page)
  qed
  have f1: "window_unmapped ppc64_LMem ?s1"
    unfolding window_unmapped_def
  proof (intro allI impI)
    fix i c w :: nat assume "i < 256" "c < classes ?s1" "w < 4"
    then show "\<not> tlb64_hits 0 (ways ?s1 c w) (ppc64_LMem + of_nat (i * 4096))"
      using free(2) eg_misses [of i] unfolding window_unmapped_def by (cases "c = ?cg \<and> w = wg") auto
  qed
  have w1: "\<exists>w < 4. \<not> entry_valid (ways ?s1 ?cl w)"
  proof -
    obtain w w' where w: "w < 4" "w' < 4" "w \<noteq> w'" "\<not> entry_valid (ways s ?cl w)" "\<not> entry_valid (ways s ?cl w')"
      using ways(2) by blast
    have same: "ways ?s1 ?cl v = ways s ?cl v" if "v \<noteq> wg" for v using that by simp
    show ?thesis
    proof (cases "w = wg")
      case True
      with w(3) have "w' \<noteq> wg" by simp
      from same [OF this] have "\<not> entry_valid (ways ?s1 ?cl w')" by (metis w(5))
      with w(2) show ?thesis by blast
    next
      case False
      from same [OF this] have "\<not> entry_valid (ways ?s1 ?cl w)" by (metis w(4))
      with w(1) show ?thesis by blast
    qed
  qed
  obtain wl where l: "wl < 4" "\<not> entry_valid (ways ?s1 ?cl wl)"
    "ppc64_map_addr cls ppc64_LMem BSPLMem ppc64_TBLSIZE ?s1 = Inr (with_window ?cl wl el ?s1)"
    using map_window [where cls = cls, OF f1 _ w1, of BSPLMem] by (auto simp: ppc64_LMem_def el_def)
  have ne: "\<not> (?cl = ?cg \<and> wl = wg)" using l(2) by (auto simp: eg_def window_entry_sel)
  then have l2: "\<not> entry_valid (ways s ?cl wl)" using l(2) by (auto split: if_splits)
  let ?s2 = "with_window ?cl wl el ?s1"
  have checks: "length (filter (bit ppc64_TBLSIZE) [0..<32]) = 1" "spr_tlb0ps s AND ucast ppc64_TBLSIZE \<noteq> 0"
  proof -
    show "length (filter (bit ppc64_TBLSIZE) [0..<32]) = 1" by (simp add: ppc64_TBLSIZE_bits upt_conv_Cons)
    have "bit (spr_tlb0ps s AND ucast ppc64_TBLSIZE) 20"
      using sup by (simp add: bit_and_iff bit_ucast_iff ppc64_TBLSIZE_bits)
    then show "spr_tlb0ps s AND ucast ppc64_TBLSIZE \<noteq> 0" by auto
  qed
  have init: "ppc64_lrt_trans_init cls theGMem BSPLMem s = Inr ?s2"
    using checks by (simp add: ppc64_lrt_trans_init_def g(3) l(3))
  have keep: "ways ?s2 c w = ways s c w" if "entry_valid (ways s c w)" for c w
    using that g(2) l2 by (cases "c = ?cl \<and> w = wl"; cases "c = ?cg \<and> w = wg") auto
  have eg2: "ways ?s2 ?cg wg = eg" and el2: "ways ?s2 ?cl wl = el" using ne by auto
  have look: "tlb64_lookup (take_bit 14 (spr_pid s)) (ways ?s2 ?cg wg) va =
      (if in_window64 ppc64_GMem va then Some (theGMem OR take_bit 20 va) else None)"
    "tlb64_lookup (take_bit 14 (spr_pid s)) (ways ?s2 ?cl wl) va =
      (if in_window64 ppc64_LMem va then Some (BSPLMem OR take_bit 20 va) else None)" for va
    unfolding eg2 el2 unfolding eg_def el_def
    by (rule window_entry_lookup [OF tables(1,2)], rule window_entry_lookup [OF tables(3,4)])
  from init keep g(2) l2 look show ?thesis by blast
qed

end
