(* ===== verification/BareString.thy ===== *)
theory BareString
  imports Prelude
begin

text \<open>
  The string functions of the bare-metal runtimes (\<open>l0/lrt/bare/string.c\<close>, \<open>lrt/bare/string.c\<close>,
  \<open>arch/ppc64/string.c\<close>) and the output devices that take a string: the mailbox of Blue Gene/P
  (\<open>arch/ppc32/mailbox.c\<close>) and the serial lines (\<open>arch/amd64/serial.c\<close>, \<open>uart.c\<close>). Memory is a map
  from addresses to bytes; a loop over a string that is not terminated may not end.
\<close>

type_synonym bytes = "u64 \<Rightarrow> u8"

subsection \<open>Strings in memory\<close>

partial_function (option) strlen_loop :: "bytes \<Rightarrow> u64 \<Rightarrow> u64 \<Rightarrow> u64 option" where
  "strlen_loop m s rc = (if m (s + rc) \<noteq> 0 then strlen_loop m s (rc + 1) else Some rc)"

definition strlen :: "bytes \<Rightarrow> u64 \<Rightarrow> u64 option" where
  "strlen m s = strlen_loop m s 0"

partial_function (option) strcpy_loop :: "u64 \<Rightarrow> u64 \<Rightarrow> bytes \<Rightarrow> bytes option" where
  "strcpy_loop s1 s2 m =
     (let c = m s2; m = m(s1 := c)
      in if c \<noteq> 0 then strcpy_loop (s1 + 1) (s2 + 1) m else Some m)"

definition strcpy :: "u64 \<Rightarrow> u64 \<Rightarrow> bytes \<Rightarrow> (u64 \<times> bytes) option" where
  "strcpy s1 s2 m = map_option (\<lambda>m. (s1, m)) (strcpy_loop s1 s2 m)"

text \<open>\<open>while (n--)\<close>: the body runs \<open>n\<close> times.\<close>

fun bzero_loop :: "u64 \<Rightarrow> nat \<Rightarrow> bytes \<Rightarrow> bytes" where
  "bzero_loop p 0 m = m"
| "bzero_loop p (Suc n) m = bzero_loop (p + 1) n (m(p := 0))"

definition bzero :: "u64 \<Rightarrow> u64 \<Rightarrow> bytes \<Rightarrow> bytes" where
  "bzero s n m = bzero_loop s (unat n) m"

fun memcpy_loop :: "u64 \<Rightarrow> u64 \<Rightarrow> nat \<Rightarrow> bytes \<Rightarrow> bytes" where
  "memcpy_loop d s 0 m = m"
| "memcpy_loop d s (Suc n) m = memcpy_loop (d + 1) (s + 1) n (m(d := m s))"

definition memcpy :: "u64 \<Rightarrow> u64 \<Rightarrow> u64 \<Rightarrow> bytes \<Rightarrow> u64 \<times> bytes" where
  "memcpy dest src n m = (dest, memcpy_loop dest src (unat n) m)"

text \<open>The variant of ppc64 counts up.\<close>

definition ppc64_bzero :: "u64 \<Rightarrow> u64 \<Rightarrow> bytes \<Rightarrow> bytes" where
  "ppc64_bzero p n m = fold (\<lambda>i m. m(p + of_nat i := 0)) [0..<unat n] m"

subsection \<open>The mailbox\<close>

text \<open>
  The buffer holds at most \<open>BGP_MBOX_SIZE\<close> characters; the reader of the mailbox gets the messages
  in the order they are sent and acknowledges each (the wait for it is not modelled).
\<close>

definition BGP_MBOX_SIZE :: nat where "BGP_MBOX_SIZE = 0xf8"

record mailbox =
  mbox_buffer :: "u8 list"
  mbox_len :: nat
  mbox_sent :: "u8 list list"

definition mailbox_putc :: "u8 \<Rightarrow> mailbox \<Rightarrow> mailbox res" where
  "mailbox_putc c s =
     rbind (arr_set (mbox_buffer s) (mbox_len s) c) (\<lambda>b.
     let s = s\<lparr>mbox_buffer := b, mbox_len := mbox_len s + 1\<rparr>
     in if mbox_len s \<ge> BGP_MBOX_SIZE \<or> c = 10
        then Inr (s\<lparr>mbox_sent := mbox_sent s @ [take (mbox_len s) (mbox_buffer s)], mbox_len := 0\<rparr>)
        else Inr s)"

definition mailbox_write :: "u8 list \<Rightarrow> mailbox \<Rightarrow> (int \<times> mailbox) res" where
  "mailbox_write str s =
     rbind (fold (\<lambda>c r. rbind r (mailbox_putc c)) str (Inr s)) (\<lambda>s. Inr (0, s))"

definition mailbox_init :: mailbox where
  "mailbox_init = \<lparr>mbox_buffer = replicate BGP_MBOX_SIZE 0, mbox_len = 0, mbox_sent = []\<rparr>"

subsection \<open>Serial lines\<close>

text \<open>
  A serial line as the list of status reads it will answer and the characters written: a wait
  consumes status bytes until the bit that says that the transmitter is empty. The function of
  the amd64 runtime returns its last character.
\<close>

fun wait_bit :: "nat \<Rightarrow> u8 list \<Rightarrow> u8 list option" where
  "wait_bit k [] = None"
| "wait_bit k (v # vs) = (if bit v k then Some vs else wait_bit k vs)"

fun serial_loop :: "nat \<Rightarrow> u8 list \<Rightarrow> u8 list \<Rightarrow> u8 list \<Rightarrow> (u8 list \<times> u8 list) option" where
  "serial_loop k [] status out = Some (status, out)"
| "serial_loop k (c # cs) status out =
     (case wait_bit k status of None \<Rightarrow> None | Some status \<Rightarrow> serial_loop k cs status (out @ [c]))"

definition serial_write :: "u8 list \<Rightarrow> u8 list \<Rightarrow> u8 list \<Rightarrow> (int \<times> u8 list \<times> u8 list) res" where
  "serial_write str status out =
     (case serial_loop 5 str status out of
        None \<Rightarrow> Inl Diverges
      | Some (status, out) \<Rightarrow>
          if str = [] then Inl OutOfBounds else Inr (sint (last str), status, out))"

definition uart_write :: "u8 list \<Rightarrow> u8 list \<Rightarrow> u8 list \<Rightarrow> (u8 list \<times> u8 list) res" where
  "uart_write str status out =
     (case serial_loop 5 str status out of None \<Rightarrow> Inl Diverges | Some r \<Rightarrow> Inr r)"

text \<open>What \<open>serial_init\<close> writes to the ports from \<open>out\<close> on: no interrupts, divisor 3, eight data
  bits, no parity, one stop bit.\<close>

definition serial_init :: "u16 \<Rightarrow> (u16 \<times> u8) list" where
  "serial_init out =
     (let linectl = 0; linectl = linectl OR 3
      in [(out + 1, 0), (out + 3, push_bit 7 1), (out + 0, 3), (out + 1, 0), (out + 3, linectl)])"

end
