(* ===== verification/BareStringProps.thy ===== *)
theory BareStringProps
  imports BareString
begin

text \<open>What the string functions do to memory, and the order of output through the mailbox.\<close>

subsection \<open>Strings\<close>

fun cstring_at :: "bytes \<Rightarrow> u64 \<Rightarrow> u8 list \<Rightarrow> bool" where
  "cstring_at m s [] = (m s = 0)"
| "cstring_at m s (c # cs) = (m s = c \<and> c \<noteq> 0 \<and> cstring_at m (s + 1) cs)"

definition addrs :: "u64 \<Rightarrow> nat \<Rightarrow> u64 set" where
  "addrs p n = (\<lambda>i. p + of_nat i) ` {..<n}"

lemma addrs_0 [simp]: "addrs p 0 = {}"
  by (simp add: addrs_def)

lemma addrs_Suc: "addrs p (Suc n) = insert p (addrs (p + 1) n)"
proof -
  have "addrs p (Suc n) = (\<lambda>i. p + of_nat i) ` insert 0 (Suc ` {..<n})" by (simp add: addrs_def lessThan_Suc_eq_insert_0)
  also have "\<dots> = insert p ((\<lambda>i. p + 1 + of_nat i) ` {..<n})" by (simp add: image_image add.assoc add.left_commute)
  finally show ?thesis by (simp add: addrs_def)
qed

lemma addrs_fresh: "n < 2 ^ 64 \<Longrightarrow> p \<notin> addrs (p + 1) n"
proof
  assume n: "n < 2 ^ 64" and "p \<in> addrs (p + 1) n"
  then obtain i where i: "i < n" "p = p + 1 + of_nat i" by (auto simp: addrs_def)
  then have "(of_nat (Suc i) :: u64) = 0" by (metis add.assoc add_cancel_right_right of_nat_Suc)
  then have "2 ^ 64 dvd Suc i" by (simp add: word_of_nat_eq_0_iff del: of_nat_Suc)
  then show False using i(1) n by (auto dest: dvd_imp_le)
qed

lemma cstring_at_cong:
  "(\<And>a. a \<in> addrs s (Suc (length cs)) \<Longrightarrow> m' a = m a) \<Longrightarrow> cstring_at m' s cs = cstring_at m s cs"
proof (induction cs arbitrary: s)
  case (Cons c cs)
  have "cstring_at m' (s + 1) cs = cstring_at m (s + 1) cs" "m' s = m s"
    using Cons.IH [of "s + 1"] Cons.prems addrs_Suc [of s "Suc (length cs)"] by auto
  then show ?case by simp
qed (simp add: addrs_Suc)

lemma strlen_loop_at:
  "cstring_at m (s + rc) cs \<Longrightarrow> strlen_loop m s rc = Some (rc + of_nat (length cs))"
proof (induction cs arbitrary: rc)
  case Nil
  then show ?case by (subst strlen_loop.simps) simp
next
  case (Cons c cs)
  then show ?case using Cons.IH [of "rc + 1"] by (subst strlen_loop.simps) (simp add: add.assoc)
qed

lemma strcpy_loop_at:
  assumes "cstring_at m s cs" "addrs d (Suc (length cs)) \<inter> addrs s (Suc (length cs)) = {}" "Suc (length cs) \<le> 2 ^ 64"
  shows "\<exists>m'. strcpy_loop d s m = Some m' \<and> cstring_at m' d cs \<and> (\<forall>a. a \<notin> addrs d (Suc (length cs)) \<longrightarrow> m' a = m a)"
  using assms
proof (induction cs arbitrary: d s m)
  case Nil
  then show ?case by (subst strcpy_loop.simps) (simp add: addrs_Suc)
next
  case (Cons c cs)
  define m1 where "m1 = m(d := c)"
  have m1: "m1 d = c" "\<And>a. a \<noteq> d \<Longrightarrow> m1 a = m a" by (simp_all add: m1_def)
  have dis: "addrs (d + 1) (Suc (length cs)) \<inter> addrs (s + 1) (Suc (length cs)) = {}" "d \<notin> addrs (s + 1) (Suc (length cs))"
    using Cons.prems(2) by (auto simp: addrs_Suc [of _ "Suc (length cs)"])
  have "\<And>a. a \<in> addrs (s + 1) (Suc (length cs)) \<Longrightarrow> m1 a = m a" using dis(2) m1(2) by metis
  then have "cstring_at m1 (s + 1) cs" using Cons.prems(1) cstring_at_cong [of "s + 1" cs m1 m] by simp
  then obtain m' where m': "strcpy_loop (d + 1) (s + 1) m1 = Some m'" "cstring_at m' (d + 1) cs"
      "\<forall>a. a \<notin> addrs (d + 1) (Suc (length cs)) \<longrightarrow> m' a = m1 a"
    using Cons.IH [OF _ dis(1), of m1] Cons.prems(3) by auto
  have "d \<notin> addrs (d + 1) (Suc (length cs))" using addrs_fresh Cons.prems(3) by simp
  then have "m' d = c" using m'(3) m1(1) by simp
  moreover have "strcpy_loop d s m = Some m'"
    using Cons.prems(1) m'(1) by (subst strcpy_loop.simps) (simp add: Let_def m1_def)
  ultimately show ?case using m' m1(2) Cons.prems(1) by (auto simp: addrs_Suc [of d "Suc (length cs)"])
qed

lemma memcpy_loop_at:
  assumes "\<forall>j < n. \<forall>i < j. d + of_nat i \<noteq> s + of_nat j" "n \<le> 2 ^ 64"
  shows "(\<forall>i < n. memcpy_loop d s n m (d + of_nat i) = m (s + of_nat i)) \<and> (\<forall>a. a \<notin> addrs d n \<longrightarrow> memcpy_loop d s n m a = m a)"
  using assms
proof (induction n arbitrary: d s m)
  case (Suc n)
  define m1 where "m1 = m(d := m s)"
  have m1: "m1 d = m s" "\<And>a. a \<noteq> d \<Longrightarrow> m1 a = m a" by (simp_all add: m1_def)
  have run: "memcpy_loop d s (Suc n) m = memcpy_loop (d + 1) (s + 1) n m1" by (simp add: m1_def)
  have "\<forall>j < n. \<forall>i < j. d + 1 + of_nat i \<noteq> s + 1 + of_nat j"
  proof (intro allI impI)
    fix j i assume "j < n" "i < j"
    then have "d + of_nat (Suc i) \<noteq> s + of_nat (Suc j)" using Suc.prems(1) by blast
    then show "d + 1 + of_nat i \<noteq> s + 1 + of_nat j" by (simp add: add.assoc)
  qed
  then have IH: "\<forall>i < n. memcpy_loop (d + 1) (s + 1) n m1 (d + 1 + of_nat i) = m1 (s + 1 + of_nat i)"
    "\<forall>a. a \<notin> addrs (d + 1) n \<longrightarrow> memcpy_loop (d + 1) (s + 1) n m1 a = m1 a"
    using Suc.IH [of "d + 1" "s + 1" m1] Suc.prems(2) by auto
  have fresh: "d \<notin> addrs (d + 1) n" using addrs_fresh Suc.prems(2) by simp
  have "memcpy_loop d s (Suc n) m (d + of_nat i) = m (s + of_nat i)" if "i < Suc n" for i
  proof (cases i)
    case 0
    then show ?thesis using IH(2) fresh m1(1) unfolding run by simp
  next
    case (Suc k)
    then have "d \<noteq> s + of_nat i" using Suc.prems(1) [rule_format, of i 0] that by simp
    moreover have "k < n" using Suc that by simp
    ultimately show ?thesis using IH(1) m1(2) [of "s + of_nat i"] unfolding run Suc by (simp add: add.assoc)
  qed
  then show ?case using IH(2) m1(2) unfolding run by (auto simp: addrs_Suc)
qed simp

lemma memcpy_loop_other: "a \<notin> addrs d n \<Longrightarrow> memcpy_loop d s n m a = m a"
  by (induction n arbitrary: d s m) (auto simp: addrs_Suc)

text \<open>A copy onto itself, one address up, fills the area with the first byte.\<close>

lemma memcpy_overlap:
  "n < 2 ^ 64 \<Longrightarrow> i < n \<Longrightarrow> memcpy_loop (s + 1) s n m (s + 1 + of_nat i) = m s"
proof (induction n arbitrary: s m i)
  case (Suc n)
  define m1 where "m1 = m(s + 1 := m s)"
  have run: "memcpy_loop (s + 1) s (Suc n) m = memcpy_loop (s + 1 + 1) (s + 1) n m1" by (simp add: m1_def)
  show ?case
  proof (cases i)
    case 0
    then show ?thesis using memcpy_loop_other [OF addrs_fresh [of n "s + 1"]] Suc.prems(1) unfolding run by (simp add: m1_def)
  next
    case (Suc k)
    then have "memcpy_loop (s + 1 + 1) (s + 1) n m1 (s + 1 + 1 + of_nat k) = m1 (s + 1)"
      using Suc.prems by (intro Suc.IH) simp_all
    then show ?thesis unfolding run Suc by (simp add: m1_def add.assoc)
  qed
qed simp

lemma strcpy_is_memcpy:
  assumes "cstring_at m s cs" "addrs d (Suc (length cs)) \<inter> addrs s (Suc (length cs)) = {}"
  shows "strcpy_loop d s m = Some (memcpy_loop d s (Suc (length cs)) m)"
  using assms
proof (induction cs arbitrary: d s m)
  case Nil
  then show ?case by (subst strcpy_loop.simps) simp
next
  case (Cons c cs)
  have dis: "addrs (d + 1) (Suc (length cs)) \<inter> addrs (s + 1) (Suc (length cs)) = {}" "d \<notin> addrs (s + 1) (Suc (length cs))"
    using Cons.prems(2) by (auto simp: addrs_Suc [of _ "Suc (length cs)"])
  then have "\<And>a. a \<in> addrs (s + 1) (Suc (length cs)) \<Longrightarrow> (m(d := c)) a = m a" by auto
  then have "cstring_at (m(d := c)) (s + 1) cs" using Cons.prems(1) cstring_at_cong [of "s + 1" cs "m(d := c)" m] by simp
  then have "strcpy_loop (d + 1) (s + 1) (m(d := c)) = Some (memcpy_loop (d + 1) (s + 1) (Suc (length cs)) (m(d := c)))"
    by (rule Cons.IH [OF _ dis(1)])
  moreover have "strcpy_loop d s m = strcpy_loop (d + 1) (s + 1) (m(d := c))"
    using Cons.prems(1) by (subst strcpy_loop.simps) (simp add: Let_def)
  moreover have "memcpy_loop d s (Suc (length (c # cs))) m = memcpy_loop (d + 1) (s + 1) (Suc (length cs)) (m(d := c))"
    using Cons.prems(1) by simp
  ultimately show ?case by (simp only:)
qed

lemma bzero_at: "n \<le> 2 ^ 64 \<Longrightarrow> bzero_loop p n m a = (if a \<in> addrs p n then 0 else m a)"
  by (induction n arbitrary: p m) (auto simp: addrs_Suc)

lemma ppc64_bzero_at: "fold (\<lambda>i m. m(p + of_nat i := 0)) [0..<n] m a = (if a \<in> addrs p n then 0 else m a)"
  by (induction n) (auto simp: addrs_def less_Suc_eq)

lemma bzero_variants: "ppc64_bzero p n m = bzero p n m"
proof
  fix a
  have "unat n \<le> 2 ^ 64" using unsigned_less [of n, where 'a = nat] by simp
  then show "ppc64_bzero p n m a = bzero p n m a" by (simp add: ppc64_bzero_def bzero_def ppc64_bzero_at bzero_at)
qed

text \<open>
  For a terminated string and a destination that does not overlap it, \<open>strlen\<close> ends with
  the number of characters, \<open>strcpy\<close> ends with exactly what \<open>memcpy\<close> of one byte more makes of the
  memory, the copy is the string, and no other byte changes.
\<close>

theorem strcpy_correct:
  assumes "cstring_at m s cs" "addrs d (Suc (length cs)) \<inter> addrs s (Suc (length cs)) = {}" "Suc (length cs) < 2 ^ 64"
  shows "\<exists>n m'. strlen m s = Some n \<and> unat n = length cs \<and> strcpy d s m = Some (d, m') \<and> memcpy d s (n + 1) m = (d, m') \<and>
    cstring_at m' d cs \<and> (\<forall>a. a \<notin> addrs d (Suc (length cs)) \<longrightarrow> m' a = m a)"
proof -
  obtain m' where m': "strcpy_loop d s m = Some m'" "cstring_at m' d cs" "\<forall>a. a \<notin> addrs d (Suc (length cs)) \<longrightarrow> m' a = m a"
    using strcpy_loop_at [OF assms(1,2)] assms(3) by auto
  have u: "unat (of_nat (length cs) :: u64) = length cs" "unat (of_nat (length cs) + 1 :: u64) = Suc (length cs)"
    using assms(3) by (simp_all add: unat_of_nat unat_word_ariths)
  have "memcpy d s (of_nat (length cs) + 1) m = (d, m')"
    using strcpy_is_memcpy [OF assms(1,2)] m'(1) unfolding memcpy_def u by simp
  then show ?thesis using strlen_loop_at [of m s 0 cs] assms(1) m' u by (auto simp: strlen_def strcpy_def)
qed

lemma strcpy_correct_witness:
  "let m = (\<lambda>a. if a = 0x100 then 72 else if a = 0x101 then 105 else 0) :: bytes in
   \<exists>n m'. strlen m 0x100 = Some n \<and> unat n = length [72, 105 :: u8] \<and> strcpy 0x200 0x100 m = Some (0x200, m') \<and>
     memcpy 0x200 0x100 (n + 1) m = (0x200, m') \<and> cstring_at m' 0x200 [72, 105] \<and>
     (\<forall>a. a \<notin> addrs 0x200 (Suc (length [72, 105 :: u8])) \<longrightarrow> m' a = m a)"
  unfolding Let_def by (rule strcpy_correct) (simp_all add: addrs_Suc)

subsection \<open>The mailbox\<close>

definition mailbox_ok :: "mailbox \<Rightarrow> bool" where
  "mailbox_ok s \<longleftrightarrow> length (mbox_buffer s) = BGP_MBOX_SIZE \<and> mbox_len s < BGP_MBOX_SIZE \<and>
     (\<forall>x \<in> set (mbox_sent s). x \<noteq> [] \<and> length x \<le> BGP_MBOX_SIZE)"

definition pending :: "mailbox \<Rightarrow> u8 list" where "pending s = take (mbox_len s) (mbox_buffer s)"

lemma mailbox_putc_ok:
  assumes "mailbox_ok s"
  shows "\<exists>s'. mailbox_putc c s = Inr s' \<and> mailbox_ok s' \<and> concat (mbox_sent s') @ pending s' = concat (mbox_sent s) @ pending s @ [c] \<and>
    (c = 10 \<longrightarrow> pending s' = [])"
proof -
  let ?b = "(mbox_buffer s)[mbox_len s := c]"
  have l: "length (mbox_buffer s) = BGP_MBOX_SIZE" "mbox_len s < BGP_MBOX_SIZE" using assms by (simp_all add: mailbox_ok_def)
  then have t: "take (Suc (mbox_len s)) ?b = pending s @ [c]" by (simp add: pending_def take_Suc_conv_app_nth)
  show ?thesis
  proof (cases "Suc (mbox_len s) \<ge> BGP_MBOX_SIZE \<or> c = 10")
    case True
    then have "mailbox_putc c s = Inr (s\<lparr>mbox_buffer := ?b, mbox_len := 0, mbox_sent := mbox_sent s @ [pending s @ [c]]\<rparr>)"
      using l t by (simp add: mailbox_putc_def Let_def)
    then show ?thesis using assms l by (auto simp: mailbox_ok_def pending_def)
  next
    case False
    then have "mailbox_putc c s = Inr (s\<lparr>mbox_buffer := ?b, mbox_len := Suc (mbox_len s)\<rparr>)"
      using l by (simp add: mailbox_putc_def Let_def)
    then show ?thesis using assms False l t by (auto simp: mailbox_ok_def pending_def)
  qed
qed

lemma mailbox_loop_ok:
  "mailbox_ok s \<Longrightarrow> \<exists>s'. fold (\<lambda>c r. rbind r (mailbox_putc c)) str (Inr s) = Inr s' \<and> mailbox_ok s' \<and>
     concat (mbox_sent s') @ pending s' = concat (mbox_sent s) @ pending s @ str \<and> (str \<noteq> [] \<and> last str = 10 \<longrightarrow> pending s' = [])"
proof (induction str rule: rev_induct)
  case (snoc c str)
  obtain s1 where s1: "fold (\<lambda>c r. rbind r (mailbox_putc c)) str (Inr s) = Inr s1" "mailbox_ok s1"
      "concat (mbox_sent s1) @ pending s1 = concat (mbox_sent s) @ pending s @ str" using snoc by blast
  obtain s2 where s2: "mailbox_putc c s1 = Inr s2" "mailbox_ok s2"
      "concat (mbox_sent s2) @ pending s2 = concat (mbox_sent s1) @ pending s1 @ [c]" "c = 10 \<longrightarrow> pending s2 = []"
    using mailbox_putc_ok [OF s1(2)] by blast
  have "concat (mbox_sent s2) @ pending s2 = concat (mbox_sent s) @ pending s @ str @ [c]"
    using s2(3) s1(3) by (metis append.assoc)
  then show ?case using s1(1) s2 by simp
qed simp

text \<open>
  C40: text written to the mailbox of Blue Gene/P. From a state with room in the buffer, as at the
  start, \<open>mailbox_write\<close> never writes outside the buffer, sends messages that are not empty and no
  longer than the mailbox, and loses and reorders nothing: the messages followed by the buffer
  are the old ones followed by the text. A text that ends in a newline leaves nothing behind.
\<close>

theorem mailbox_write_correct:
  assumes "mailbox_ok s"
  shows "\<exists>s'. mailbox_write str s = Inr (0, s') \<and> mailbox_ok s' \<and>
    concat (mbox_sent s') @ pending s' = concat (mbox_sent s) @ pending s @ str \<and>
    (str \<noteq> [] \<and> last str = 10 \<longrightarrow> pending s' = [])"
proof -
  obtain s' where "fold (\<lambda>c r. rbind r (mailbox_putc c)) str (Inr s) = Inr s'" "mailbox_ok s'"
     "concat (mbox_sent s') @ pending s' = concat (mbox_sent s) @ pending s @ str" "str \<noteq> [] \<and> last str = 10 \<longrightarrow> pending s' = []"
    using mailbox_loop_ok [OF assms, of str] by blast
  then show ?thesis by (auto simp: mailbox_write_def)
qed

lemma mailbox_write_correct_witness:
  "\<exists>s'. mailbox_write (replicate 300 65 @ [10]) mailbox_init = Inr (0, s') \<and> mailbox_ok s' \<and>
    concat (mbox_sent s') @ pending s' = concat (mbox_sent mailbox_init) @ pending mailbox_init @ (replicate 300 65 @ [10]) \<and>
    (replicate 300 65 @ [10 :: u8] \<noteq> [] \<and> last (replicate 300 65 @ [10 :: u8]) = 10 \<longrightarrow> pending s' = [])"
  by (rule mailbox_write_correct) (simp add: mailbox_ok_def mailbox_init_def BGP_MBOX_SIZE_def)

end
