(* ===== verification/Console.thy ===== *)
theory Console
  imports PicState
begin

text \<open>
  The console of the hosted runtime (\<open>io/lrt/ulnx/LRTConsole.c\<close>): the terminal is put into a mode
  without echo and line editing and is put back when the process leaves. The terminal driver and
  \<open>read\<close> and \<open>write\<close> are parameters: the model keeps the settings of the terminal, and each call of
  \<open>tcgetattr\<close> or \<open>tcsetattr\<close> is given whether it succeeds. There is one terminal, which every
  descriptor given to these functions refers to.
\<close>

subsection \<open>Terminal settings\<close>

text \<open>The flag words of \<open>struct termios\<close> as sets of named flags; \<open>CSIZE\<close> covers the four sizes.\<close>

datatype tflag = ECHO | ICANON | IEXTEN | ISIG | BRKINT | ICRNL | INPCK | ISTRIP | IXON | CS5 | CS6 | CS7 | CS8 | PARENB | OPOST
  | Other nat

definition CSIZE :: "tflag set" where "CSIZE = {CS5, CS6, CS7, CS8}"

datatype cc = VMIN | VTIME | Other_cc nat

record termios =
  c_lflag :: "tflag set"
  c_iflag :: "tflag set"
  c_cflag :: "tflag set"
  c_oflag :: "tflag set"
  c_cc :: "cc \<Rightarrow> nat"

datatype tty_mode = RESET | RAW | CBREAK

record tty =
  termdev :: termios
  save_termios :: termios
  ttysavefd :: int
  ttystate :: tty_mode

subsection \<open>Modes\<close>

definition cbreak_settings :: "termios \<Rightarrow> termios" where
  "cbreak_settings b =
     (let b = b\<lparr>c_lflag := c_lflag b - {ECHO, ICANON}\<rparr>
      in b\<lparr>c_cc := (c_cc b)(VMIN := 1, VTIME := 0)\<rparr>)"

definition raw_settings :: "termios \<Rightarrow> termios" where
  "raw_settings b =
     (let b = b\<lparr>c_lflag := c_lflag b - {ECHO, ICANON, IEXTEN, ISIG}\<rparr>;
          b = b\<lparr>c_iflag := c_iflag b - {BRKINT, ICRNL, INPCK, ISTRIP, IXON}\<rparr>;
          b = b\<lparr>c_cflag := c_cflag b - (CSIZE \<union> {PARENB})\<rparr>;
          b = b\<lparr>c_cflag := c_cflag b \<union> {CS8}\<rparr>;
          b = b\<lparr>c_oflag := c_oflag b - {OPOST}\<rparr>
      in b\<lparr>c_cc := (c_cc b)(VMIN := 1, VTIME := 0)\<rparr>)"

text \<open>\<open>get\<close> and \<open>set\<close>: whether \<open>tcgetattr\<close> and \<open>tcsetattr\<close> succeed.\<close>

definition tty_enter :: "(termios \<Rightarrow> termios) \<Rightarrow> tty_mode \<Rightarrow> bool \<Rightarrow> bool \<Rightarrow> int \<Rightarrow> tty \<Rightarrow> int \<times> tty" where
  "tty_enter settings mode getok setok fd s =
     (if \<not> getok then (-1, s)
      else
        let s = s\<lparr>save_termios := termdev s\<rparr>;
            buf = settings (save_termios s)
        in if \<not> setok then (-1, s)
           else (0, s\<lparr>termdev := buf, ttystate := mode, ttysavefd := fd\<rparr>))"

definition tty_cbreak :: "bool \<Rightarrow> bool \<Rightarrow> int \<Rightarrow> tty \<Rightarrow> int \<times> tty" where
  "tty_cbreak = tty_enter cbreak_settings CBREAK"

definition tty_raw :: "bool \<Rightarrow> bool \<Rightarrow> int \<Rightarrow> tty \<Rightarrow> int \<times> tty" where
  "tty_raw = tty_enter raw_settings RAW"

definition tty_reset :: "bool \<Rightarrow> tty \<Rightarrow> int \<times> tty" where
  "tty_reset setok s =
     (if ttystate s \<noteq> CBREAK \<and> ttystate s \<noteq> RAW then (0, s)
      else if \<not> setok then (-1, s)
      else (0, s\<lparr>termdev := save_termios s, ttystate := RESET\<rparr>))"

definition tty_atexit :: "bool \<Rightarrow> tty \<Rightarrow> tty" where
  "tty_atexit setok s = (if ttysavefd s \<ge> 0 then snd (tty_reset setok s) else s)"

text \<open>A signal resets the terminal and leaves through \<open>exit\<close>, which runs \<open>tty_atexit\<close>.\<close>

definition sig_catch :: "bool \<Rightarrow> bool \<Rightarrow> tty \<Rightarrow> tty" where
  "sig_catch setok setok' s = tty_atexit setok' (snd (tty_reset setok s))"

text \<open>\<open>None\<close>: a handler could not be installed, the process leaves.\<close>

definition tty_init :: "bool \<Rightarrow> bool \<Rightarrow> bool \<Rightarrow> bool \<Rightarrow> int \<Rightarrow> tty \<Rightarrow> tty option" where
  "tty_init sigterm sigquit getok setok fd s =
     (if \<not> sigterm then None
      else if \<not> sigquit then None
      else Some (snd (tty_cbreak getok setok fd s)))"

subsection \<open>The console\<close>

text \<open>\<open>n\<close> is what \<open>read\<close> or \<open>write\<close> returned.\<close>

definition LRTConsoleRead :: "int \<Rightarrow> ebbrc \<times> int" where
  "LRTConsoleRead n = (if n \<ge> 0 then EBBRC_OK else EBBRC_GENERIC_FAILURE, n)"

definition LRTConsoleWrite :: "int \<Rightarrow> ebbrc \<times> int" where
  "LRTConsoleWrite n = (if n \<ge> 0 then EBBRC_OK else EBBRC_GENERIC_FAILURE, n)"

definition STDIN_FILENO :: int where "STDIN_FILENO = 0"
definition STDOUT_FILENO :: int where "STDOUT_FILENO = 1"
definition STDERR_FILENO :: int where "STDERR_FILENO = 2"

text \<open>
  \<open>LRTConsoleInit\<close>: the terminal, non-blocking descriptors, and the sources of the three streams.
  The result of \<open>ioctl\<close> is not looked at.
\<close>

definition LRTConsoleInit ::
    "bool \<Rightarrow> bool \<Rightarrow> bool \<Rightarrow> bool \<Rightarrow> tty \<Rightarrow> (ebbrc \<times> lrt_pic_src \<times> lrt_pic_src \<times> lrt_pic_src \<times> int set \<times> tty) option" where
  "LRTConsoleInit sigterm sigquit getok setok s =
     (case tty_init sigterm sigquit getok setok STDIN_FILENO s of
        None \<Rightarrow> None
      | Some s \<Rightarrow>
          let in_src = \<lparr>src_fd = nat STDIN_FILENO, src_flags = LRT_ULNX_PICFLAG_READ OR LRT_ULNX_PICFLAG_ERROR\<rparr>;
              out = \<lparr>src_fd = nat STDOUT_FILENO, src_flags = LRT_ULNX_PICFLAG_WRITE OR LRT_ULNX_PICFLAG_ERROR\<rparr>;
              err = \<lparr>src_fd = nat STDERR_FILENO, src_flags = LRT_ULNX_PICFLAG_WRITE OR LRT_ULNX_PICFLAG_ERROR\<rparr>
          in Some (EBBRC_OK, in_src, out, err, {STDIN_FILENO, STDOUT_FILENO, STDERR_FILENO}, s))"

text \<open>The console of the bare-metal runtimes only asserts, in each of its three functions.\<close>

definition bare_LRTConsole :: "ebbrc res" where "bare_LRTConsole = Inl AssertFail"

subsection \<open>Runs of a process\<close>

text \<open>
  What can happen to the terminal of a process that starts the console once: the console is
  started, raw mode is entered, or the terminal is reset; any system call may fail. A mode is
  entered only from the mode the terminal had at first.
\<close>

inductive tty_step :: "tty \<Rightarrow> tty \<Rightarrow> bool" where
  cbreak: "ttystate s = RESET \<Longrightarrow> fd \<ge> 0 \<Longrightarrow> tty_step s (snd (tty_cbreak getok setok fd s))"
| raw: "ttystate s = RESET \<Longrightarrow> fd \<ge> 0 \<Longrightarrow> tty_step s (snd (tty_raw getok setok fd s))"
| reset: "tty_step s (snd (tty_reset setok s))"
| atexit: "tty_step s (tty_atexit setok s)"

inductive_cases tty_stepE: "tty_step s s'"

inductive tty_reachable :: "termios \<Rightarrow> tty \<Rightarrow> bool" for orig where
  start: "tty_reachable orig \<lparr>termdev = orig, save_termios = t, ttysavefd = -1, ttystate = RESET\<rparr>"
| step: "tty_reachable orig s \<Longrightarrow> tty_step s s' \<Longrightarrow> tty_reachable orig s'"

definition tty_inv :: "termios \<Rightarrow> tty \<Rightarrow> bool" where
  "tty_inv orig s \<longleftrightarrow> (if ttystate s = RESET then termdev s = orig else save_termios s = orig \<and> ttysavefd s \<ge> 0)"

lemma tty_enter_inv:
  "tty_inv orig s \<Longrightarrow> ttystate s = RESET \<Longrightarrow> mode \<noteq> RESET \<Longrightarrow> fd \<ge> 0 \<Longrightarrow>
   tty_inv orig (snd (tty_enter f mode getok setok fd s))"
  by (simp add: tty_enter_def tty_inv_def Let_def)

lemma tty_reset_inv: "tty_inv orig s \<Longrightarrow> tty_inv orig (snd (tty_reset setok s))"
  by (cases "ttystate s") (simp_all add: tty_reset_def tty_inv_def)

lemma tty_step_inv: "tty_step s s' \<Longrightarrow> tty_inv orig s \<Longrightarrow> tty_inv orig s'"
  by (erule tty_stepE) (simp_all add: tty_cbreak_def tty_raw_def tty_atexit_def tty_enter_inv tty_reset_inv)

lemma tty_reachable_inv: "tty_reachable orig s \<Longrightarrow> tty_inv orig s"
  by (induction rule: tty_reachable.induct) (simp_all add: tty_inv_def [of _ "_\<lparr>termdev := _\<rparr>"] tty_step_inv, simp add: tty_inv_def)


definition cooked :: termios where
  "cooked = \<lparr>c_lflag = {ECHO, ICANON, ISIG}, c_iflag = {ICRNL}, c_cflag = {CS8}, c_oflag = {OPOST}, c_cc = (\<lambda>_. 0)\<rparr>"

definition cooked_tty :: tty where
  "cooked_tty = \<lparr>termdev = cooked, save_termios = cooked, ttysavefd = -1, ttystate = RESET\<rparr>"


text \<open>
  The restriction to one start matters: a second start saves the settings of the first as the
  original ones, and leaving keeps them.
\<close>

lemma tty_started_twice:
  "termdev (tty_atexit True (snd (tty_cbreak True True fd' (snd (tty_cbreak True True fd s))))) =
     (if fd' \<ge> 0 then cbreak_settings (termdev s) else cbreak_settings (cbreak_settings (termdev s)))"
  by (simp add: tty_cbreak_def tty_enter_def tty_atexit_def tty_reset_def Let_def)

end
