(* ===== verification/EthMgr.thy ===== *)
theory EthMgr
  imports EventReg
begin

text \<open>
  The Ethernet Ebb (\<open>net/EthMgrPrim.c\<close>) and the packet library of the hosted runtime
  (\<open>net/lrt/ulnx/ethlib.c\<close>). The functions of the Ebb are \<open>init\<close>, \<open>bind\<close> and \<open>inEvent\<close>, numbers 0 to
  2. The pcap library is a parameter: what its functions answer.
\<close>

definition NUMETHTYPES :: nat where "NUMETHTYPES = 2 ^ 16"

record eth_state = event_state +
  eth_typeMgrs :: "u64 \<Rightarrow> u64 list"
  eth_ev :: "u64 \<Rightarrow> nat"
  eth_rcnt :: "u64 \<Rightarrow> u64"
  eth_hdl :: u64
  eth_dispatched :: nat

subsection \<open>The packet library\<close>

text \<open>
  \<open>pc_failed\<close>: the devices could not be listed; \<open>pc_devs\<close>: their number; \<open>pc_open\<close>: the handle or
  null; \<open>pc_nonblock\<close>: the result of \<open>pcap_setnonblock\<close>; \<open>pc_fd\<close>: the descriptor or -1.
\<close>

record pcap =
  pc_failed :: bool
  pc_devs :: nat
  pc_open :: u64
  pc_nonblock :: int
  pc_fd :: int

definition ethlib_nic_readpkt :: "'z eth_state_scheme \<Rightarrow> (int \<times> 'z eth_state_scheme) res" where
  "ethlib_nic_readpkt s =
     (if eth_hdl s = 0 then Inl NullDeref else Inr (1, s\<lparr>eth_dispatched := eth_dispatched s + 1\<rparr>))"

text \<open>The result, the sources for input and output when they are set, and the state.\<close>

definition ethlib_nic_init ::
    "pcap \<Rightarrow> 'z eth_state_scheme \<Rightarrow> (int \<times> (lrt_pic_src \<times> lrt_pic_src) option \<times> 'z eth_state_scheme) res" where
  "ethlib_nic_init pc s =
     (if pc_failed pc \<or> pc_devs pc = 0 then Inr (-1, None, s)
      else
        let s = s\<lparr>eth_hdl := pc_open pc\<rparr>
        in if eth_hdl s = 0 then Inr (-1, None, s)
           else if pc_nonblock pc = 1 then Inr (-1, None, s)
           else
             rbind (lrt_assert (pc_fd pc \<noteq> -1)) (\<lambda>_.
             Inr (0, Some (\<lparr>src_fd = nat (pc_fd pc), src_flags = LRT_ULNX_PICFLAG_READ OR LRT_ULNX_PICFLAG_ERROR\<rparr>,
                \<lparr>src_fd = nat (pc_fd pc), src_flags = LRT_ULNX_PICFLAG_WRITE OR LRT_ULNX_PICFLAG_ERROR\<rparr>), s)))"

text \<open>The library of the bare-metal runtimes only asserts.\<close>

definition bare_ethlib :: "int res" where "bare_ethlib = Inl AssertFail"

subsection \<open>Functions of the Ebb\<close>

definition EthMgrPrim_init :: "u64 \<Rightarrow> ebbrc" where "EthMgrPrim_init self = EBBRC_GENERIC_FAILURE"

definition EthMgrPrim_bind :: "u64 \<Rightarrow> u16 \<Rightarrow> u64 \<Rightarrow> ebbrc" where
  "EthMgrPrim_bind self type i = EBBRC_GENERIC_FAILURE"

definition EthMgrPrim_inEvent :: "u64 \<Rightarrow> 'z eth_state_scheme \<Rightarrow> (ebbrc \<times> 'z eth_state_scheme) res" where
  "EthMgrPrim_inEvent self s =
     rbind (ethlib_nic_readpkt s) (\<lambda>(_, s).
     Inr (EBBRC_OK, s\<lparr>eth_rcnt := (eth_rcnt s)(self := eth_rcnt s self + 1)\<rparr>))"

definition EthMgrPrimSetFT :: "u64 \<Rightarrow> 'z eth_state_scheme \<Rightarrow> 'z eth_state_scheme" where
  "EthMgrPrimSetFT a s = s\<lparr>repft := (repft s)(a := FT_EthMgr)\<rparr>"

text \<open>The code that a call through the function table runs; the first two have no effect.\<close>

definition eth_invoke :: "'z eth_state_scheme invoke" where
  "eth_invoke f r s =
     (if f = Method FT_EthMgr 0 \<or> f = Method FT_EthMgr 1 then Inr s
      else if f = Method FT_EthMgr 2 then rbind (EthMgrPrim_inEvent r s) (\<lambda>(_, s). Inr s)
      else Inl NullDeref)"

definition sizeof_EthMgrPrim :: u64 where "sizeof_EthMgrPrim = 8 + 65536 * 8 + 8 + 8"

subsection \<open>Creation\<close>

text \<open>
  The event of the card: a number is allocated, and when the card could be opened the Ebb is
  registered for it with \<open>inEvent\<close> and the event is enabled. An assertion failure of a failed
  call is \<open>AssertFail\<close>.
\<close>

definition eth_listen ::
    "'z eth_state_scheme callmf \<Rightarrow> (nat \<Rightarrow> nat \<Rightarrow> int) \<Rightarrow> pcap option \<Rightarrow> nat \<Rightarrow> u64 \<Rightarrow> u64 \<Rightarrow> 'z eth_state_scheme \<Rightarrow>
     'z eth_state_scheme res" where
  "eth_listen callmf dup2 nic myid i repRef s =
     (let fail = \<lambda>rc s. Inl AssertFail
      in rbind (em_call callmf myid 4 fail (\<lambda>_ s.
           rbind (EventMgrPrim_allocEventNo s) (\<lambda>(rc, v, s).
           rbind (lrt_assert (EBBRC_SUCCESS rc)) (\<lambda>_.
           Inr (case v of None \<Rightarrow> s | Some e \<Rightarrow> s\<lparr>eth_ev := (eth_ev s)(repRef := e)\<rparr>)))) s) (\<lambda>s.
         case nic of
           None \<Rightarrow> Inr s
         | Some pc \<Rightarrow>
             rbind (ethlib_nic_init pc s) (\<lambda>(rc, srcs, s).
             case srcs of
               None \<Rightarrow> Inr s
             | Some (isrc, _) \<Rightarrow>
                 if EBBRC_SUCCESS rc then
                   rbind (em_call callmf myid 0 fail (\<lambda>a s.
                     rbind (EventMgrPrim_registerHandler dup2 myid a (eth_ev s repRef) i 2 isrc s) (\<lambda>(rc, s).
                     rbind (lrt_assert (EBBRC_SUCCESS rc)) (\<lambda>_. Inr s))) s) (\<lambda>s.
                   em_call callmf myid 1 fail (\<lambda>a s.
                     rbind (EventMgrPrim_eventEnable (eth_ev s repRef) s) (\<lambda>(rc, s).
                     rbind (lrt_assert (EBBRC_SUCCESS rc)) (\<lambda>_. Inr s))) s)
                 else Inr s)))"

definition EthMgrPrimCreate ::
    "'z eth_state_scheme callmf \<Rightarrow> 'z eth_state_scheme malloc \<Rightarrow> (nat \<Rightarrow> nat \<Rightarrow> int) \<Rightarrow> pcap option \<Rightarrow> nat \<Rightarrow>
     'z eth_state_scheme \<Rightarrow> (ebbrc \<times> u64 \<times> 'z eth_state_scheme) res" where
  "EthMgrPrimCreate callmf malloc dup2 nic myid s =
     rbind (malloc myid sizeof_EthMgrPrim s) (\<lambda>(rc, repRef, s).
     rbind (lrt_assert (EBBRC_SUCCESS rc)) (\<lambda>_.
     if repRef = 0 then Inl NullDeref
     else
       let s = EthMgrPrimSetFT repRef s;
           s = s\<lparr>eth_typeMgrs := (eth_typeMgrs s)(repRef := replicate NUMETHTYPES 0)\<rparr>;
           s = s\<lparr>eth_rcnt := (eth_rcnt s)(repRef := 0)\<rparr>
       in rbind (CObjEBBRootSharedCreate malloc myid repRef s) (\<lambda>(rc, rootRef, s).
          rbind (lrt_assert (EBBRC_SUCCESS rc)) (\<lambda>_.
          rbind (EBBAllocPrimId callmf myid s) (\<lambda>(rc, i, s).
          rbind (lrt_assert (EBBRC_SUCCESS rc)) (\<lambda>_.
          rbind (CObjEBBBind callmf myid i rootRef s) (\<lambda>(rc, s).
          rbind (lrt_assert (EBBRC_SUCCESS rc)) (\<lambda>_.
          rbind (eth_listen callmf dup2 nic myid i repRef s) (\<lambda>s.
          Inr (EBBRC_OK, i, s))))))))))"

subsection \<open>Frames\<close>

lemma registered_eth [simp]:
  "eth_hdl (registered m as e h fn u s) = eth_hdl s" "eth_hdl (enabled_on p e s) = eth_hdl s" "eth_hdl (disabled_on p e s) = eth_hdl s"
  "eth_dispatched (registered m as e h fn u s) = eth_dispatched s" "eth_dispatched (enabled_on p e s) = eth_dispatched s"
  "eth_dispatched (disabled_on p e s) = eth_dispatched s" "eth_rcnt (registered m as e h fn u s) = eth_rcnt s" "eth_rcnt (enabled_on p e s) = eth_rcnt s" "eth_rcnt (disabled_on p e s) = eth_rcnt s"
  by (simp_all add: registered_def enabled_on_def disabled_on_def locked_em_def upd_em_def mapped_def with_handler_def)


text \<open>The machine of the event manager's examples, with the Ebb behind id 6.\<close>

definition demo_eth :: eth_state where
  "demo_eth = event_state.extend (demo_event\<lparr>repft := (\<lambda>a. if a = 0x900 then FT_EthMgr else FT_EventMgrPrim)\<rparr>)
     \<lparr>eth_typeMgrs = (\<lambda>_. []), eth_ev = (\<lambda>_. 1), eth_rcnt = (\<lambda>_. 0), eth_hdl = 0x7000, eth_dispatched = 0\<rparr>"

lemma demo_eth_sel:
  "numlpics demo_eth = numlpics demo_event" "gvecs demo_eth = gvecs demo_event" "lpics demo_eth = lpics demo_event"
  "pic_lock demo_eth = pic_lock demo_event" "pic_free demo_eth = pic_free demo_event" "upic demo_eth = upic demo_event"
  "lrt_pic_firstid demo_eth = lrt_pic_firstid demo_event" "lrt_pic_lastid demo_eth = lrt_pic_lastid demo_event"
  "repnode demo_eth = repnode demo_event" "multi demo_eth = multi demo_event" "TransMem demo_eth = TransMem demo_event"
  "ltab demo_eth = ltab demo_event" "theEventMgrPrimId demo_eth = theEventMgrPrimId demo_event" "emrep demo_eth = emrep demo_event"
  "repft demo_eth = (\<lambda>a. if a = 0x900 then FT_EthMgr else FT_EventMgrPrim)" "eth_hdl demo_eth = 0x7000" "eth_rcnt demo_eth = (\<lambda>_. 0)"
  "eth_dispatched demo_eth = 0"
  by (simp_all add: demo_eth_def event_state.defs)

lemma demo_eth_ready: "em_ready 0x40 [0x600, 0x700] demo_eth" "em_reps [0x600, 0x700] demo_eth = {0x40, 0x80}"
proof -
  have "pic_inv demo_eth"
    using demo_event_inv
    by (simp add: pic_inv_def pic_ok_def pic_shape_def cores_ok_def vecs_agree_def demo_eth_sel)
  then show "em_ready 0x40 [0x600, 0x700] demo_eth" "em_reps [0x600, 0x700] demo_eth = {0x40, 0x80}"
    using demo_event_ready demo_event_reps by (simp_all add: em_ready_def em_shape_def em_reps_def demo_eth_sel demo_event_sel demo_list_def)
qed


end
