(* ===== verification/Ssac.thy ===== *)
theory Ssac
  imports EbbMgr
begin

text \<open>
  The set-associative cache written in C++ against this library
  (\<open>contrib/jmcddn/ssac_cpp\<close>: \<open>SSACSimpleSharedArray.C\<close>, \<open>CacheSimple.C\<close> and their headers). An
  object with identifier \<open>i\<close> is cached in one of the \<open>associativity\<close> entries of hash queue
  \<open>i mod numhashqs\<close>. A pointer to an entry is the pair of the number of its queue and its place
  there. The lock of a queue has empty methods, so it leaves no trace in the state; what other
  threads do to a queue while a thread sleeps is a parameter. The array that \<open>new\<close> makes for a
  queue has \<open>associativity\<close> elements, and the loops over it run over exactly these.
\<close>

subsection \<open>Objects and entries\<close>

definition SSAC_INVALID :: u32 where "SSAC_INVALID = 0xffffffff"

definition oid_valid :: "u32 \<Rightarrow> bool" where "oid_valid i \<longleftrightarrow> i \<noteq> SSAC_INVALID"

definition oid_index :: "u32 \<Rightarrow> nat \<Rightarrow> nat res" where
  "oid_index i n = (if n = 0 then Inl DivByZero else Inr (unat i mod n))"

text \<open>\<open>load\<close> and \<open>save\<close> spin for a while; the first makes the data from the identifier.\<close>

definition oid_load :: "u32 \<Rightarrow> u64" where "oid_load i = ucast i"

definition oid_save :: "u32 \<Rightarrow> u64 \<Rightarrow> ebbrc" where "oid_save i d = 0"

definition BUSY :: u32 where "BUSY = 1"
definition DIRTY :: u32 where "DIRTY = 2"

record cache_entry =
  e_id :: u32
  e_flags :: u32
  e_lastused :: u64
  e_data :: u64

definition new_entry :: cache_entry where
  "new_entry = \<lparr>e_id = SSAC_INVALID, e_flags = 0, e_lastused = 0, e_data = 0\<rparr>"

definition busy :: "cache_entry \<Rightarrow> bool" where "busy e \<longleftrightarrow> e_flags e AND BUSY \<noteq> 0"
definition dirty :: "cache_entry \<Rightarrow> bool" where "dirty e \<longleftrightarrow> e_flags e AND DIRTY \<noteq> 0"

definition entry_dirty :: "cache_entry \<Rightarrow> cache_entry" where
  "entry_dirty e = e\<lparr>e_flags := e_flags e OR DIRTY\<rparr>"

subsection \<open>Hash queues\<close>

record hashq =
  hq_count :: u64
  hq_entries :: "cache_entry list option"

definition new_hashq :: hashq where "new_hashq = \<lparr>hq_count = 0, hq_entries = None\<rparr>"

record ssac =
  hashqs :: "hashq list"
  numhashqs :: nat
  associativity :: nat

definition hq_init :: "nat \<Rightarrow> hashq \<Rightarrow> hashq res" where
  "hq_init n q = rbind (lrt_assert (hq_entries q = None)) (\<lambda>_. Inr (q\<lparr>hq_entries := Some (replicate n new_entry)\<rparr>))"

text \<open>The loops of \<open>search\<close> and \<open>lruentry\<close> from element \<open>k\<close> on.\<close>

fun hq_search :: "u32 \<Rightarrow> cache_entry list \<Rightarrow> nat \<Rightarrow> nat option" where
  "hq_search i [] k = None"
| "hq_search i (e # es) k = (if i = e_id e then Some k else hq_search i es (k + 1))"

fun hq_lruentry :: "cache_entry list \<Rightarrow> nat \<Rightarrow> (nat \<times> cache_entry) option \<Rightarrow> nat option" where
  "hq_lruentry [] k ep = map_option fst ep"
| "hq_lruentry (e # es) k ep =
     (if \<not> busy e then
        (case ep of
           None \<Rightarrow> if \<not> oid_valid (e_id e) then Some k else hq_lruentry es (k + 1) (Some (k, e))
         | Some (_, m) \<Rightarrow>
             if e_lastused e < e_lastused m then hq_lruentry es (k + 1) (Some (k, e)) else hq_lruentry es (k + 1) ep)
      else hq_lruentry es (k + 1) ep)"

definition hq_rollover :: "hashq \<Rightarrow> hashq res" where
  "hq_rollover q = rbind (lrt_assert False) (\<lambda>_. Inr q)"

subsection \<open>get\<close>

datatype gettype = GETFORREAD | GETFORWRITE

text \<open>The end that a hit and a miss share: count, age, and keep the entry for the writer.\<close>

definition hq_touch :: "nat \<Rightarrow> cache_entry \<Rightarrow> cache_entry list \<Rightarrow> gettype \<Rightarrow> hashq \<Rightarrow> hashq res" where
  "hq_touch j e es ty q =
     (let q = q\<lparr>hq_count := hq_count q + 1\<rparr>
      in rbind (if hq_count q = 0 then hq_rollover q else Inr q) (\<lambda>q.
         let e = e\<lparr>e_lastused := hq_count q\<rparr>;
             e = (if ty = GETFORWRITE then e\<lparr>e_flags := e_flags e OR BUSY\<rparr> else e)
         in Inr (q\<lparr>hq_entries := Some (es[j := e])\<rparr>)))"

text \<open>One pass from \<open>again\<close> on: sleep and try again, an entry, or no entry that could be evicted.\<close>

datatype got = Again | Got nat | NoFree

definition hq_try :: "u32 \<Rightarrow> gettype \<Rightarrow> hashq \<Rightarrow> (got \<times> hashq) res" where
  "hq_try i ty q =
     (case hq_entries q of
        None \<Rightarrow> Inl NullDeref
      | Some es \<Rightarrow>
          (case hq_search i es 0 of
             Some j \<Rightarrow>
               if busy (es ! j) then Inr (Again, q)
               else rbind (hq_touch j (es ! j) es ty q) (\<lambda>q. Inr (Got j, q))
           | None \<Rightarrow>
               (case hq_lruentry es 0 None of
                  Some j \<Rightarrow>
                    let e = es ! j;
                        e = (if dirty e then e\<lparr>e_flags := e_flags e AND NOT DIRTY\<rparr> else e);
                        e = e\<lparr>e_id := i\<rparr>;
                        e = e\<lparr>e_data := oid_load i\<rparr>
                    in rbind (hq_touch j e es ty q) (\<lambda>q. Inr (Got j, q))
                | None \<Rightarrow> Inr (NoFree, q))))"

text \<open>\<open>env k\<close>: what the other threads do to the queue during the \<open>k\<close>-th sleep.\<close>

partial_function (option) hq_get ::
    "(nat \<Rightarrow> hashq \<Rightarrow> hashq) \<Rightarrow> u32 \<Rightarrow> gettype \<Rightarrow> nat \<Rightarrow> hashq \<Rightarrow> (got \<times> hashq) res option" where
  "hq_get env i ty k q =
     (case hq_try i ty q of
        Inl f \<Rightarrow> Some (Inl f)
      | Inr (g, q') \<Rightarrow> if g = Again then hq_get env i ty (k + 1) (env k q') else Some (Inr (g, q')))"

text \<open>\<open>SET_CLSCD\<close> expands to nothing, so the result is 0 whether or not there is an entry.\<close>

definition ssac_get ::
    "(nat \<Rightarrow> hashq \<Rightarrow> hashq) \<Rightarrow> u32 \<Rightarrow> (nat \<times> nat) option \<Rightarrow> gettype \<Rightarrow> ssac \<Rightarrow> (ebbrc \<times> (nat \<times> nat) option \<times> ssac) res" where
  "ssac_get env i ce ty s =
     rbind (lrt_assert (oid_valid i)) (\<lambda>_.
     rbind (oid_index i (numhashqs s)) (\<lambda>h.
     rbind (arr_get (hashqs s) h) (\<lambda>q.
     rbind (if hq_entries q = None then hq_init (associativity s) q else Inr q) (\<lambda>q.
     rbind (returns (hq_get env i ty 0 q)) (\<lambda>(g, q).
     Inr (0, (case g of Got j \<Rightarrow> Some (h, j) | _ \<Rightarrow> ce), s\<lparr>hashqs := (hashqs s)[h := q]\<rparr>))))))"

subsection \<open>putback, flush and the client\<close>

datatype putflag = KEEP | DISCARD

definition entry_of :: "ssac \<Rightarrow> nat \<times> nat \<Rightarrow> cache_entry res" where
  "entry_of s p =
     rbind (arr_get (hashqs s) (fst p)) (\<lambda>q.
     case hq_entries q of None \<Rightarrow> Inl NullDeref | Some es \<Rightarrow> arr_get es (snd p))"

definition set_entry :: "nat \<times> nat \<Rightarrow> cache_entry \<Rightarrow> ssac \<Rightarrow> ssac" where
  "set_entry p e s =
     (let q = hashqs s ! fst p
      in s\<lparr>hashqs := (hashqs s)[fst p := q\<lparr>hq_entries := map_option (\<lambda>es. es[snd p := e]) (hq_entries q)\<rparr>]\<rparr>)"

text \<open>The queue is computed from the entry before the entry is compared with null.\<close>

definition ssac_putback :: "(nat \<times> nat) option \<Rightarrow> putflag \<Rightarrow> ssac \<Rightarrow> (ebbrc \<times> ssac) res" where
  "ssac_putback ce flag s =
     (case ce of
        None \<Rightarrow> Inl NullDeref
      | Some p \<Rightarrow>
          rbind (entry_of s p) (\<lambda>e.
          rbind (oid_index (e_id e) (numhashqs s)) (\<lambda>h.
          rbind (arr_get (hashqs s) h) (\<lambda>q.
          rbind (lrt_assert (hq_entries q \<noteq> None)) (\<lambda>_.
          let e = (if flag = KEEP then e\<lparr>e_lastused := hq_count q\<rparr> else e\<lparr>e_lastused := 0\<rparr>);
              e = e\<lparr>e_flags := e_flags e AND NOT BUSY\<rparr>
          in Inr (0, set_entry p e s))))))"

text \<open>A client writes the data of an entry it was given and marks it.\<close>

definition ssac_write :: "nat \<times> nat \<Rightarrow> u64 \<Rightarrow> ssac \<Rightarrow> ssac res" where
  "ssac_write p v s = rbind (entry_of s p) (\<lambda>e. Inr (set_entry p (entry_dirty (e\<lparr>e_data := v\<rparr>)) s))"

fun first_dirty :: "cache_entry list \<Rightarrow> nat \<Rightarrow> nat option" where
  "first_dirty [] k = None"
| "first_dirty (e # es) k = (if \<not> busy e \<and> oid_valid (e_id e) \<and> dirty e then Some k else first_dirty es (k + 1))"

text \<open>An entry is kept busy while it is saved without the lock, and both flags are cleared after.\<close>

definition save_entry :: "cache_entry \<Rightarrow> cache_entry" where
  "save_entry e =
     (let e = e\<lparr>e_flags := e_flags e OR BUSY\<rparr>
      in e\<lparr>e_flags := e_flags e AND (NOT DIRTY AND NOT BUSY)\<rparr>)"

lemma first_dirty_Some:
  "first_dirty es k = Some j \<Longrightarrow>
   k \<le> j \<and> j - k < length es \<and> \<not> busy (es ! (j - k)) \<and> oid_valid (e_id (es ! (j - k))) \<and> dirty (es ! (j - k))"
proof (induction es arbitrary: k)
  case (Cons e es)
  show ?case
  proof (cases "\<not> busy e \<and> oid_valid (e_id e) \<and> dirty e")
    case True
    then show ?thesis using Cons.prems by auto
  next
    case False
    then have "first_dirty es (k + 1) = Some j" using Cons.prems by auto
    from Cons.IH [OF this] show ?thesis by (auto simp: nth_Cons' Suc_diff_le)
  qed
qed simp

lemma save_entry_clean [simp]: "\<not> dirty (save_entry e)" "\<not> busy (save_entry e)" "e_id (save_entry e) = e_id e"
  "e_data (save_entry e) = e_data e" "e_lastused (save_entry e) = e_lastused e"
proof -
  have "(x OR BUSY) AND (NOT DIRTY AND NOT BUSY) AND DIRTY = 0" for x
    by (rule bit_eqI) (auto simp: bit_simps)
  moreover have "(x OR BUSY) AND (NOT DIRTY AND NOT BUSY) AND BUSY = 0" for x
    by (rule bit_eqI) (auto simp: bit_simps)
  moreover have "e_flags (save_entry e) = (e_flags e OR BUSY) AND (NOT DIRTY AND NOT BUSY)" by (simp add: save_entry_def Let_def)
  ultimately show "\<not> dirty (save_entry e)" "\<not> busy (save_entry e)"
    unfolding dirty_def busy_def by (simp_all only: and.assoc not_not)
qed (simp_all add: save_entry_def Let_def)

lemma sum_list_update_less:
  fixes f :: "'a \<Rightarrow> nat"
  shows "j < length es \<Longrightarrow> f e < f (es ! j) \<Longrightarrow> sum_list (map f (es[j := e])) < sum_list (map f es)"
  by (induction es arbitrary: j) (auto split: nat.splits)

function flush_queue :: "cache_entry list \<Rightarrow> cache_entry list" where
  "flush_queue es =
     (case first_dirty es 0 of
        None \<Rightarrow> es
      | Some j \<Rightarrow> flush_queue (es[j := save_entry (es ! j)]))"
  by auto

termination
proof (relation "measure (\<lambda>es. sum_list (map (\<lambda>e. of_bool (dirty e)) es))")
  fix es j
  assume "first_dirty es 0 = Some j"
  then have "j < length es" "dirty (es ! j)" using first_dirty_Some [of es 0 j] by auto
  then show "(es[j := save_entry (es ! j)], es) \<in> measure (\<lambda>es. sum_list (map (\<lambda>e. of_bool (dirty e)) es))"
    by (simp add: sum_list_update_less)
qed simp

declare flush_queue.simps [simp del]

definition ssac_flush :: "ssac \<Rightarrow> ebbrc \<times> ssac" where
  "ssac_flush s =
     (0, s\<lparr>hashqs := map (\<lambda>q. q\<lparr>hq_entries := map_option flush_queue (hq_entries q)\<rparr>) (hashqs s)\<rparr>)"

subsection \<open>Creation\<close>

definition SSACSimpleSharedArray_new :: "nat \<Rightarrow> nat \<Rightarrow> ssac" where
  "SSACSimpleSharedArray_new numq assoc =
     \<lparr>hashqs = replicate numq new_hashq, numhashqs = numq, associativity = assoc\<rparr>"

text \<open>
  \<open>Create\<close> inside this library: a representative and a shared C++ root in the memory of the
  library, and an id bound to the root. The result is the id, the address of the representative
  and its contents.
\<close>

definition sizeof_SSACSimpleSharedArray :: u64 where "sizeof_SSACSimpleSharedArray = 8 + 8 + 4 + 4"
definition sizeof_CPlusEBBRootShared :: u64 where "sizeof_CPlusEBBRootShared = 8 + 8"

definition SSACSimpleSharedArray_Create ::
    "'z ebbmgr_state_scheme callmf \<Rightarrow> 'z ebbmgr_state_scheme malloc \<Rightarrow> nat \<Rightarrow> nat \<Rightarrow> nat \<Rightarrow> 'z ebbmgr_state_scheme \<Rightarrow>
     (ebbrc \<times> u64 \<times> u64 \<times> ssac \<times> 'z ebbmgr_state_scheme) res" where
  "SSACSimpleSharedArray_Create callmf malloc myid numq assoc s =
     rbind (malloc myid sizeof_SSACSimpleSharedArray s) (\<lambda>(rc, rep, s).
     rbind (lrt_assert (EBBRC_SUCCESS rc)) (\<lambda>_.
     if rep = 0 then Inl NullDeref
     else
     let c = SSACSimpleSharedArray_new numq assoc
     in rbind (CPlusEBBRootShared_new malloc myid sizeof_CPlusEBBRootShared s) (\<lambda>(root, s).
        if root = 0 then Inl NullDeref
        else
        let s = s\<lparr>root_ft := (root_ft s)(root := CPlusEBBRootShared_vtbl)\<rparr>;
            (_, s) = CPlusEBBRootShared_init root rep s
        in rbind (EBBAllocPrimId callmf myid s) (\<lambda>(rc, i, s).
           rbind (lrt_assert (EBBRC_SUCCESS rc)) (\<lambda>_.
           rbind (CPlusEBBBind callmf myid i root s) (\<lambda>(rc, s).
           rbind (lrt_assert (EBBRC_SUCCESS rc)) (\<lambda>_.
           Inr (EBBRC_OK, i, rep, c, s))))))))"

end
