(* ===== verification/SsacProps.thy ===== *)
theory SsacProps
  imports Ssac
begin

text \<open>
  What the set-associative cache promises: a lookup refines a map from identifiers to entries
  with eviction of the least recently used entry of the set, flushing cleans exactly the entries
  that are dirty and not in use, and every operation keeps the invariant of the hash queues.
\<close>

subsection \<open>The invariant\<close>

definition entry_ok :: "nat \<Rightarrow> nat \<Rightarrow> u64 \<Rightarrow> cache_entry \<Rightarrow> bool" where
  "entry_ok h n c e \<longleftrightarrow>
     (oid_valid (e_id e) \<longrightarrow> unat (e_id e) mod n = h) \<and>
     (\<not> oid_valid (e_id e) \<longrightarrow> e_lastused e = 0 \<and> e_flags e = 0) \<and>
     e_lastused e \<le> c \<and> e_flags e \<in> {0, 1, 2, 3}"

definition ids_distinct :: "cache_entry list \<Rightarrow> bool" where
  "ids_distinct es \<longleftrightarrow>
     (\<forall>i < length es. \<forall>j < length es. e_id (es ! i) = e_id (es ! j) \<longrightarrow> oid_valid (e_id (es ! i)) \<longrightarrow> i = j)"

lemma ids_distinctD:
  "ids_distinct es \<Longrightarrow> i < length es \<Longrightarrow> j < length es \<Longrightarrow> e_id (es ! i) = e_id (es ! j) \<Longrightarrow>
   oid_valid (e_id (es ! i)) \<Longrightarrow> i = j"
  by (simp add: ids_distinct_def)

definition entries_ok :: "nat \<Rightarrow> nat \<Rightarrow> nat \<Rightarrow> u64 \<Rightarrow> cache_entry list \<Rightarrow> bool" where
  "entries_ok h n a c es \<longleftrightarrow> length es = a \<and> (\<forall>e \<in> set es. entry_ok h n c e) \<and> ids_distinct es"

definition queue_ok :: "nat \<Rightarrow> nat \<Rightarrow> nat \<Rightarrow> hashq \<Rightarrow> bool" where
  "queue_ok h n a q \<longleftrightarrow> (case hq_entries q of None \<Rightarrow> True | Some es \<Rightarrow> entries_ok h n a (hq_count q) es)"

definition ssac_inv :: "ssac \<Rightarrow> bool" where
  "ssac_inv s \<longleftrightarrow> 0 < numhashqs s \<and> length (hashqs s) = numhashqs s \<and>
     (\<forall>h < numhashqs s. queue_ok h (numhashqs s) (associativity s) (hashqs s ! h))"

text \<open>The set of entries an identifier can be in; one that was never used is made at the first lookup.\<close>

definition oid_set :: "ssac \<Rightarrow> u32 \<Rightarrow> nat" where "oid_set s i = unat i mod numhashqs s"

definition slots :: "ssac \<Rightarrow> nat \<Rightarrow> cache_entry list" where
  "slots s h = (case hq_entries (hashqs s ! h) of None \<Rightarrow> replicate (associativity s) new_entry | Some es \<Rightarrow> es)"

subsection \<open>The map a set of entries stands for\<close>

definition cached_in :: "cache_entry list \<Rightarrow> u32 \<Rightarrow> cache_entry option" where
  "cached_in es i = (if oid_valid i then find (\<lambda>e. e_id e = i) es else None)"

definition cached :: "ssac \<Rightarrow> u32 \<Rightarrow> cache_entry option" where
  "cached s i = cached_in (slots s (oid_set s i)) i"

lemma cached_in_None: "oid_valid i \<Longrightarrow> cached_in es i = None \<longleftrightarrow> (\<forall>e \<in> set es. e_id e \<noteq> i)"
  by (auto simp: cached_in_def find_None_iff)

lemma cached_in_Some:
  assumes "ids_distinct es"
  shows "cached_in es i = Some e \<longleftrightarrow> oid_valid i \<and> (\<exists>j < length es. es ! j = e \<and> e_id e = i)"
proof (cases "oid_valid i")
  case True
  show ?thesis
  proof
    assume "cached_in es i = Some e"
    then show "oid_valid i \<and> (\<exists>j < length es. es ! j = e \<and> e_id e = i)"
      using True by (auto simp: cached_in_def find_Some_iff)
  next
    assume "oid_valid i \<and> (\<exists>j < length es. es ! j = e \<and> e_id e = i)"
    then obtain j where j: "j < length es" "es ! j = e" "e_id e = i" by blast
    have "\<not> e_id (es ! k) = i" if "k < j" for k
    proof
      assume k: "e_id (es ! k) = i"
      have "k < length es" using that j(1) by simp
      then have "k = j" by (rule ids_distinctD [OF assms _ j(1)]) (use j k True in simp_all)
      with that show False by simp
    qed
    then show "cached_in es i = Some e" using True j by (auto simp: cached_in_def find_Some_iff)
  qed
qed (simp add: cached_in_def)

lemma ids_distinct_update:
  assumes "ids_distinct es" "j < length es"
    and "\<forall>k < length es. k \<noteq> j \<longrightarrow> oid_valid (e_id e) \<longrightarrow> e_id (es ! k) \<noteq> e_id e"
  shows "ids_distinct (es[j := e])"
proof (unfold ids_distinct_def length_list_update, intro allI impI)
  fix a b
  assume ab: "a < length es" "b < length es" "e_id (es[j := e] ! a) = e_id (es[j := e] ! b)" "oid_valid (e_id (es[j := e] ! a))"
  consider "a = j" "b = j" | "a = j" "b \<noteq> j" | "a \<noteq> j" "b = j" | "a \<noteq> j" "b \<noteq> j" by blast
  then show "a = b"
  proof cases
    case 2
    then have "e_id (es ! b) = e_id e" "oid_valid (e_id e)" using ab assms(2) by auto
    then show ?thesis using assms(3) ab(2) 2(2) by simp
  next
    case 3
    then have "e_id (es ! a) = e_id e" "oid_valid (e_id e)" using ab assms(2) by auto
    then show ?thesis using assms(3) ab(1) 3(1) by simp
  next
    case 4
    then show ?thesis using ids_distinctD [OF assms(1) ab(1,2)] ab(3,4) by simp
  qed simp
qed

lemma cached_in_update:
  assumes d: "ids_distinct es" and j: "j < length es" and v: "oid_valid (e_id e)"
    and n: "\<forall>k < length es. k \<noteq> j \<longrightarrow> e_id (es ! k) \<noteq> e_id e"
  shows "cached_in (es[j := e]) = (cached_in es)(e_id (es ! j) := None, e_id e \<mapsto> e)"
proof
  fix i
  have d': "ids_distinct (es[j := e])" by (rule ids_distinct_update [OF d j]) (use n in blast)
  have "cached_in (es[j := e]) i = Some x \<longleftrightarrow> ((cached_in es)(e_id (es ! j) := None, e_id e \<mapsto> e)) i = Some x" for x
  proof -
    consider (new) "i = e_id e" | (old) "i \<noteq> e_id e" "i = e_id (es ! j)" | (same) "i \<noteq> e_id e" "i \<noteq> e_id (es ! j)" by blast
    then show ?thesis
    proof cases
      case new
      then show ?thesis using v j n by (auto simp: cached_in_Some [OF d'] nth_list_update)
    next
      case old
      have "e_id (es[j := e] ! k) \<noteq> i" if "k < length es" "oid_valid i" for k
        using old that ids_distinctD [OF d that(1) j] by (cases "k = j") auto
      with old show ?thesis by (auto simp: cached_in_Some [OF d'])
    next
      case same
      then show ?thesis using j by (auto simp: cached_in_Some [OF d'] cached_in_Some [OF d] nth_list_update)
    qed
  qed
  then show "cached_in (es[j := e]) i = ((cached_in es)(e_id (es ! j) := None, e_id e \<mapsto> e)) i"
    by (cases "cached_in (es[j := e]) i") (metis not_None_eq, metis)
qed

subsection \<open>Searching a set\<close>

lemma hq_search_None: "hq_search i es k = None \<longleftrightarrow> (\<forall>e \<in> set es. e_id e \<noteq> i)"
  by (induction es arbitrary: k) auto

lemma hq_search_Some: "hq_search i es k = Some j \<Longrightarrow> k \<le> j \<and> j - k < length es \<and> e_id (es ! (j - k)) = i"
proof (induction es arbitrary: k)
  case (Cons e es)
  show ?case
  proof (cases "i = e_id e")
    case False
    then have "hq_search i es (k + 1) = Some j" using Cons.prems by simp
    from Cons.IH [OF this] show ?thesis by (auto simp: nth_Cons' Suc_diff_le)
  qed (use Cons.prems in simp)
qed simp

definition least_used :: "cache_entry list \<Rightarrow> cache_entry \<Rightarrow> bool" where
  "least_used es m \<longleftrightarrow> \<not> busy m \<and> (\<forall>e \<in> set es. \<not> busy e \<longrightarrow> e_lastused m \<le> e_lastused e)"

lemma hq_lruentry_from:
  assumes "\<not> busy m"
  shows "\<exists>j. hq_lruentry es k (Some (i, m)) = Some j \<and>
    (j = i \<and> least_used es m \<or>
     (\<exists>d < length es. j = k + d \<and> least_used es (es ! d) \<and> e_lastused (es ! d) \<le> e_lastused m))"
  using assms
proof (induction es arbitrary: k i m)
  case Nil
  then show ?case by (simp add: least_used_def)
next
  case (Cons e es)
  show ?case
  proof (cases "\<not> busy e \<and> e_lastused e < e_lastused m")
    case True
    then have "\<not> busy e" by simp
    from Cons.IH [OF this, of "k + 1" k] obtain j where j: "hq_lruentry es (k + 1) (Some (k, e)) = Some j"
      "j = k \<and> least_used es e \<or> (\<exists>d < length es. j = (k + 1) + d \<and> least_used es (es ! d) \<and> e_lastused (es ! d) \<le> e_lastused e)"
      by blast
    have "\<exists>d < length (e # es). j = k + d \<and> least_used (e # es) ((e # es) ! d) \<and> e_lastused ((e # es) ! d) \<le> e_lastused m"
      using j(2)
    proof
      assume "j = k \<and> least_used es e"
      with True show ?thesis by (intro exI [of _ 0]) (auto simp: least_used_def)
    next
      assume "\<exists>d < length es. j = (k + 1) + d \<and> least_used es (es ! d) \<and> e_lastused (es ! d) \<le> e_lastused e"
      then obtain d where "d < length es" "j = (k + 1) + d" "least_used es (es ! d)" "e_lastused (es ! d) \<le> e_lastused e" by blast
      with True show ?thesis by (intro exI [of _ "Suc d"]) (auto simp: least_used_def)
    qed
    with j(1) True show ?thesis by simp
  next
    case False
    then have "hq_lruentry (e # es) k (Some (i, m)) = hq_lruentry es (k + 1) (Some (i, m))" by auto
    moreover from Cons.IH [OF Cons.prems, of "k + 1" i] obtain j where j: "hq_lruentry es (k + 1) (Some (i, m)) = Some j"
      "j = i \<and> least_used es m \<or> (\<exists>d < length es. j = (k + 1) + d \<and> least_used es (es ! d) \<and> e_lastused (es ! d) \<le> e_lastused m)"
      by blast
    have "j = i \<and> least_used (e # es) m \<or>
      (\<exists>d < length (e # es). j = k + d \<and> least_used (e # es) ((e # es) ! d) \<and> e_lastused ((e # es) ! d) \<le> e_lastused m)"
      using j(2)
    proof
      assume "j = i \<and> least_used es m"
      with False show ?thesis by (auto simp: least_used_def)
    next
      assume "\<exists>d < length es. j = (k + 1) + d \<and> least_used es (es ! d) \<and> e_lastused (es ! d) \<le> e_lastused m"
      then obtain d where "d < length es" "j = (k + 1) + d" "least_used es (es ! d)" "e_lastused (es ! d) \<le> e_lastused m" by blast
      with False show ?thesis by (intro disjI2 exI [of _ "Suc d"]) (auto simp: least_used_def)
    qed
    ultimately show ?thesis using j(1) by simp
  qed
qed

lemma hq_lruentry_None: "(\<forall>e \<in> set es. busy e) \<Longrightarrow> hq_lruentry es k None = None"
  by (induction es arbitrary: k) auto

text \<open>The early end of the loop at an unused entry does no harm: such an entry is the oldest.\<close>

lemma hq_lruentry_Some:
  assumes "\<exists>e \<in> set es. \<not> busy e" "\<forall>e \<in> set es. \<not> oid_valid (e_id e) \<longrightarrow> e_lastused e = 0"
  shows "\<exists>d < length es. hq_lruentry es k None = Some (k + d) \<and> least_used es (es ! d)"
  using assms
proof (induction es arbitrary: k)
  case (Cons e es)
  show ?case
  proof (cases "busy e")
    case True
    then obtain d where "d < length es" "hq_lruentry es (k + 1) None = Some (k + 1 + d)" "least_used es (es ! d)"
      using Cons.IH [of "k + 1"] Cons.prems by auto
    with True show ?thesis by (intro exI [of _ "Suc d"]) (auto simp: least_used_def)
  next
    case free: False
    show ?thesis
    proof (cases "oid_valid (e_id e)")
      case False
      with free Cons.prems show ?thesis by (intro exI [of _ 0]) (auto simp: least_used_def)
    next
      case True
      from hq_lruentry_from [OF free, of es "k + 1" k] obtain j where j: "hq_lruentry es (k + 1) (Some (k, e)) = Some j"
        "j = k \<and> least_used es e \<or> (\<exists>d < length es. j = (k + 1) + d \<and> least_used es (es ! d) \<and> e_lastused (es ! d) \<le> e_lastused e)"
        by blast
      from j(2) show ?thesis
      proof
        assume "j = k \<and> least_used es e"
        with j(1) True free show ?thesis by (intro exI [of _ 0]) (auto simp: least_used_def)
      next
        assume "\<exists>d < length es. j = (k + 1) + d \<and> least_used es (es ! d) \<and> e_lastused (es ! d) \<le> e_lastused e"
        then obtain d where "d < length es" "j = (k + 1) + d" "least_used es (es ! d)" "e_lastused (es ! d) \<le> e_lastused e" by blast
        with j(1) True free show ?thesis by (intro exI [of _ "Suc d"]) (auto simp: least_used_def)
      qed
    qed
  qed
qed simp

subsection \<open>One set\<close>

definition used_entry :: "u64 \<Rightarrow> gettype \<Rightarrow> cache_entry \<Rightarrow> cache_entry" where
  "used_entry c ty e = e\<lparr>e_lastused := c, e_flags := (if ty = GETFORWRITE then e_flags e OR BUSY else e_flags e)\<rparr>"

definition loaded_entry :: "u32 \<Rightarrow> cache_entry \<Rightarrow> cache_entry" where
  "loaded_entry i e = e\<lparr>e_id := i, e_flags := 0, e_data := oid_load i\<rparr>"

lemma used_loaded_sel [simp]:
  "e_id (used_entry c ty e) = e_id e" "e_data (used_entry c ty e) = e_data e" "e_lastused (used_entry c ty e) = c"
  "e_id (loaded_entry i e) = i" "e_data (loaded_entry i e) = oid_load i" "e_flags (loaded_entry i e) = 0"
  by (simp_all add: used_entry_def loaded_entry_def)

lemma hq_touch_eq:
  "hq_count q + 1 \<noteq> 0 \<Longrightarrow>
   hq_touch j e es ty q =
     Inr (q\<lparr>hq_count := hq_count q + 1, hq_entries := Some (es[j := used_entry (hq_count q + 1) ty e])\<rparr>)"
  by (simp add: hq_touch_def used_entry_def Let_def)

lemma clean_flags:
  assumes "entry_ok h n c e" "\<not> busy e"
  shows "(if dirty e then e\<lparr>e_flags := e_flags e AND NOT DIRTY\<rparr> else e)\<lparr>e_id := i, e_data := oid_load i\<rparr> = loaded_entry i e"
proof -
  have "e_flags e = 0 \<or> e_flags e = 2"
    using assms by (auto simp: entry_ok_def busy_def BUSY_def)
  then show ?thesis by (auto simp: loaded_entry_def dirty_def DIRTY_def)
qed

lemma hq_try_hit:
  assumes "hq_entries q = Some es" "ids_distinct es" "cached_in es i = Some e" "\<not> busy e" "hq_count q + 1 \<noteq> 0"
  shows "\<exists>j < length es. es ! j = e \<and>
    hq_try i ty q =
      Inr (Got j, q\<lparr>hq_count := hq_count q + 1, hq_entries := Some (es[j := used_entry (hq_count q + 1) ty e])\<rparr>)"
proof -
  obtain k where k: "oid_valid i" "k < length es" "es ! k = e" "e_id e = i" using assms(3) by (auto simp: cached_in_Some [OF assms(2)])
  then obtain j where j: "hq_search i es 0 = Some j" using hq_search_None [of i es 0] nth_mem by fastforce
  have "j < length es" "e_id (es ! j) = i" using hq_search_Some [OF j] by simp_all
  moreover from this have "j = k" using ids_distinctD [OF assms(2) _ k(2)] k by simp
  ultimately show ?thesis using k j assms(1,4,5) by (intro exI [of _ j]) (simp add: hq_try_def hq_touch_eq)
qed

lemma hq_try_busy:
  assumes "hq_entries q = Some es" "ids_distinct es" "cached_in es i = Some e" "busy e"
  shows "hq_try i ty q = Inr (Again, q)"
proof -
  obtain k where k: "oid_valid i" "k < length es" "es ! k = e" "e_id e = i" using assms(3) by (auto simp: cached_in_Some [OF assms(2)])
  then obtain j where j: "hq_search i es 0 = Some j" using hq_search_None [of i es 0] nth_mem by fastforce
  have "j < length es" "e_id (es ! j) = i" using hq_search_Some [OF j] by simp_all
  moreover from this have "j = k" using ids_distinctD [OF assms(2) _ k(2)] k by simp
  ultimately show ?thesis using k j assms(1,4) by (simp add: hq_try_def)
qed

lemma hq_try_miss:
  assumes q: "hq_entries q = Some es" "entries_ok h n a (hq_count q) es" and i: "oid_valid i" "cached_in es i = None"
    and c: "hq_count q + 1 \<noteq> 0" and free: "\<exists>e \<in> set es. \<not> busy e"
  shows "\<exists>j < length es. least_used es (es ! j) \<and>
    hq_try i ty q =
      Inr (Got j, q\<lparr>hq_count := hq_count q + 1,
        hq_entries := Some (es[j := used_entry (hq_count q + 1) ty (loaded_entry i (es ! j))])\<rparr>)"
proof -
  have "\<forall>e \<in> set es. \<not> oid_valid (e_id e) \<longrightarrow> e_lastused e = 0" using q(2) by (simp add: entries_ok_def entry_ok_def)
  from hq_lruentry_Some [OF free this, of 0] obtain j where j: "j < length es" "hq_lruentry es 0 None = Some j" "least_used es (es ! j)"
    by auto
  have "entry_ok h n (hq_count q) (es ! j)" using q(2) j(1) by (simp add: entries_ok_def)
  moreover have "\<not> busy (es ! j)" using j(3) by (simp add: least_used_def)
  moreover have "hq_search i es 0 = None" using i by (simp add: hq_search_None cached_in_None)
  ultimately show ?thesis
    using q(1) j c clean_flags [of h n "hq_count q" "es ! j" i] by (intro exI [of _ j]) (simp add: hq_try_def hq_touch_eq Let_def)
qed

lemma hq_try_full:
  assumes "hq_entries q = Some es" "oid_valid i" "cached_in es i = None" "\<forall>e \<in> set es. busy e"
  shows "hq_try i ty q = Inr (NoFree, q)"
  using assms by (simp add: hq_try_def cached_in_None hq_search_None [THEN iffD2] hq_lruentry_None)

lemma hq_get_now: "hq_try i ty q = Inr (g, q') \<Longrightarrow> g \<noteq> Again \<Longrightarrow> hq_get env i ty k q = Some (Inr (g, q'))"
  by (subst hq_get.simps) simp

lemma hq_get_later: "hq_try i ty q = Inr (Again, q') \<Longrightarrow> hq_get env i ty k q = hq_get env i ty (k + 1) (env k q')"
  by (subst hq_get.simps) simp

text \<open>Nobody else releases the entry: the loop does not end.\<close>

lemma hq_get_stuck:
  assumes "hq_try i ty q = Inr (Again, q)"
  shows "hq_get (\<lambda>_ q. q) i ty k q = None"
proof (rule ccontr)
  assume "hq_get (\<lambda>_ q. q) i ty k q \<noteq> None"
  then obtain r where r: "hq_get (\<lambda>_ q. q) i ty k q = Some r" by blast
  have "q' \<noteq> q \<or> env \<noteq> (\<lambda>_ q. q) \<or> i' \<noteq> i \<or> ty' \<noteq> ty" if "hq_get env i' ty' k' q' = Some r'" for env i' ty' k' q' r'
    using that
  proof (rule hq_get.raw_induct [of "\<lambda>env i' ty' k' q' r'. q' \<noteq> q \<or> env \<noteq> (\<lambda>_ q. q) \<or> i' \<noteq> i \<or> ty' \<noteq> ty", rotated])
    fix f :: "(nat \<Rightarrow> hashq \<Rightarrow> hashq) \<Rightarrow> u32 \<Rightarrow> gettype \<Rightarrow> nat \<Rightarrow> hashq \<Rightarrow> (got \<times> hashq) res option" and env i' ty' k' q' r'
    assume IH: "\<And>env i' ty' k' q' r'. f env i' ty' k' q' = Some r' \<Longrightarrow> q' \<noteq> q \<or> env \<noteq> (\<lambda>_ q. q) \<or> i' \<noteq> i \<or> ty' \<noteq> ty"
      and run: "(case hq_try i' ty' q' of Inl f \<Rightarrow> Some (Inl f)
        | Inr (g, q') \<Rightarrow> if g = Again then f env i' ty' (k' + 1) (env k' q') else Some (Inr (g, q'))) = Some r'"
    show "q' \<noteq> q \<or> env \<noteq> (\<lambda>_ q. q) \<or> i' \<noteq> i \<or> ty' \<noteq> ty"
    proof (rule ccontr)
      assume "\<not> (q' \<noteq> q \<or> env \<noteq> (\<lambda>_ q. q) \<or> i' \<noteq> i \<or> ty' \<noteq> ty)"
      then have eq: "q' = q" "env = (\<lambda>_ q. q)" "i' = i" "ty' = ty" by simp_all
      then have "f (\<lambda>_ q. q) i ty (k' + 1) q = Some r'" using run assms by simp
      from IH [OF this] show False by simp
    qed
  qed
  from this [OF r] show False by simp
qed

subsection \<open>The cache\<close>

lemma word_less_Suc: "(c :: u64) + 1 \<noteq> 0 \<Longrightarrow> c \<le> c + 1"
  using unatSuc [of c] by (simp add: word_le_nat_alt add.commute)

definition made_queue :: "ssac \<Rightarrow> nat \<Rightarrow> hashq" where
  "made_queue s h = (hashqs s ! h)\<lparr>hq_entries := Some (slots s h)\<rparr>"

lemma made_queue_sel [simp]: "hq_entries (made_queue s h) = Some (slots s h)" "hq_count (made_queue s h) = hq_count (hashqs s ! h)"
  by (simp_all add: made_queue_def)

lemma new_entries_ok: "entries_ok h n a c (replicate a new_entry)"
  by (simp add: entries_ok_def entry_ok_def ids_distinct_def new_entry_def oid_valid_def)

lemma slots_ok:
  assumes "ssac_inv s" "h < numhashqs s"
  shows "entries_ok h (numhashqs s) (associativity s) (hq_count (hashqs s ! h)) (slots s h)"
proof -
  have "queue_ok h (numhashqs s) (associativity s) (hashqs s ! h)" using assms by (simp add: ssac_inv_def)
  then show ?thesis by (auto simp: queue_ok_def slots_def new_entries_ok split: option.splits)
qed

lemma oid_set_less: "ssac_inv s \<Longrightarrow> oid_set s i < numhashqs s"
  by (simp add: ssac_inv_def oid_set_def)

lemma ssac_get_run:
  assumes "ssac_inv s" "oid_valid i"
  shows "ssac_get env i ce ty s =
    rbind (returns (hq_get env i ty 0 (made_queue s (oid_set s i)))) (\<lambda>(g, q).
      Inr (0, (case g of Got j \<Rightarrow> Some (oid_set s i, j) | _ \<Rightarrow> ce), s\<lparr>hashqs := (hashqs s)[oid_set s i := q]\<rparr>))"
proof -
  let ?h = "oid_set s i"
  have h: "?h < length (hashqs s)" "numhashqs s \<noteq> 0" using oid_set_less [OF assms(1)] assms(1) by (simp_all add: ssac_inv_def)
  have made: "(if hq_entries (hashqs s ! ?h) = None then hq_init (associativity s) (hashqs s ! ?h) else Inr (hashqs s ! ?h)) =
    Inr (made_queue s ?h)"
    by (cases "hashqs s ! ?h") (auto simp: made_queue_def slots_def hq_init_def)
  have "oid_index i (numhashqs s) = Inr ?h" "arr_get (hashqs s) ?h = Inr (hashqs s ! ?h)"
    using h by (simp_all add: oid_index_def oid_set_def arr_get_def)
  then show ?thesis using assms(2) by (simp only: ssac_get_def made rbind_simps lrt_assert_simps)
qed

text \<open>A set in which one entry is replaced by an entry for an identifier that no other entry has.\<close>

lemma entries_ok_update:
  assumes "entries_ok h n a c es" "j < length es" "c \<le> c'" "entry_ok h n c' e"
    and "\<forall>k < length es. k \<noteq> j \<longrightarrow> oid_valid (e_id e) \<longrightarrow> e_id (es ! k) \<noteq> e_id e"
  shows "entries_ok h n a c' (es[j := e])"
proof -
  have "entry_ok h n c' x" if "x \<in> set es" for x
    using assms(1,3) that by (auto simp: entries_ok_def entry_ok_def)
  then have "\<forall>x \<in> set (es[j := e]). entry_ok h n c' x" using assms(4) by (auto dest!: set_update_subset_insert [THEN subsetD])
  then show ?thesis using assms ids_distinct_update [of es j e] by (simp add: entries_ok_def)
qed

lemma ssac_inv_update:
  assumes "ssac_inv s" "h < numhashqs s" "queue_ok h (numhashqs s) (associativity s) q"
  shows "ssac_inv (s\<lparr>hashqs := (hashqs s)[h := q]\<rparr>)"
  using assms by (auto simp: ssac_inv_def nth_list_update)

lemma cached_update:
  assumes s: "ssac_inv s" and h: "h < numhashqs s" "j < length (slots s h)"
    and q: "hq_entries q = Some ((slots s h)[j := e])" and e: "oid_valid (e_id e)" "oid_set s (e_id e) = h"
    and n: "\<forall>k < length (slots s h). k \<noteq> j \<longrightarrow> e_id (slots s h ! k) \<noteq> e_id e"
  shows "cached (s\<lparr>hashqs := (hashqs s)[h := q]\<rparr>) = (cached s)(e_id (slots s h ! j) := None, e_id e \<mapsto> e)"
proof
  fix i
  let ?s = "s\<lparr>hashqs := (hashqs s)[h := q]\<rparr>" and ?v = "e_id (slots s h ! j)"
  have ok: "entries_ok h (numhashqs s) (associativity s) (hq_count (hashqs s ! h)) (slots s h)" by (rule slots_ok [OF s h(1)])
  have len: "h < length (hashqs s)" using s h by (simp add: ssac_inv_def)
  have sl: "slots ?s k = (if k = h then (slots s h)[j := e] else slots s k)" for k
    using len q by (cases "k = h") (simp_all add: slots_def split: option.splits)
  have set: "oid_set ?s k = oid_set s k" for k by (simp add: oid_set_def)
  show "cached ?s i = ((cached s)(?v := None, e_id e \<mapsto> e)) i"
  proof (cases "oid_set s i = h")
    case True
    have "ids_distinct (slots s h)" using ok by (simp add: entries_ok_def)
    from cached_in_update [OF this h(2) e(1) n] True e(2) show ?thesis
      unfolding cached_def set sl by (auto simp: cached_def)
  next
    case False
    have "cached s i = None" if "i = ?v"
    proof (cases "oid_valid ?v")
      case True
      moreover have "entry_ok h (numhashqs s) (hq_count (hashqs s ! h)) (slots s h ! j)" using ok h(2) by (simp add: entries_ok_def)
      ultimately have "oid_set s i = h" using that by (simp add: entry_ok_def oid_set_def)
      with False show ?thesis by simp
    qed (simp add: that cached_def cached_in_def)
    moreover have "i \<noteq> e_id e" using False e(2) by blast
    moreover have "cached ?s i = cached s i" using False unfolding cached_def set sl by simp
    ultimately show ?thesis by simp
  qed
qed

lemma used_entry_ok:
  assumes "entry_ok h n c e" "oid_valid (e_id e)"
  shows "entry_ok h n c' (used_entry c' ty e)"
  using assms by (auto simp: entry_ok_def used_entry_def BUSY_def)

lemma cached_in_mem: "cached_in es i = Some e \<Longrightarrow> oid_valid i \<and> e_id e = i \<and> e \<in> set es"
  by (auto simp: cached_in_def find_Some_iff split: if_splits)

lemma cached_id: "cached s i = Some e \<Longrightarrow> oid_valid i \<and> e_id e = i"
  by (auto simp: cached_def dest: cached_in_mem)

lemma id_free:
  assumes "oid_valid i" "cached_in es i = None"
  shows "\<forall>k < length es. k \<noteq> j \<longrightarrow> e_id (es ! k) \<noteq> i"
  using assms by (auto simp: cached_in_None)

text \<open>
  The three ways a lookup can end, with the state it leaves: a hit, a miss that replaces the
  least recently used free entry, and a set in which every entry is in use.
\<close>

lemma ssac_get_hit:
  assumes s: "ssac_inv s" and i: "oid_valid i" and e: "cached s i = Some e" "\<not> busy e"
    and c: "hq_count (hashqs s ! oid_set s i) + 1 \<noteq> 0"
  defines "c' \<equiv> hq_count (hashqs s ! oid_set s i) + 1"
  shows "\<exists>p s'. ssac_get env i ce ty s = Inr (0, Some p, s') \<and> entry_of s' p = Inr (used_entry c' ty e) \<and>
    cached s' = (cached s)(i \<mapsto> used_entry c' ty e) \<and> ssac_inv s' \<and>
    hq_count (hashqs s' ! oid_set s i) = c' \<and> numhashqs s' = numhashqs s"
proof -
  let ?h = "oid_set s i" and ?es = "slots s (oid_set s i)"
  have h: "?h < numhashqs s" by (rule oid_set_less [OF s])
  have ok: "entries_ok ?h (numhashqs s) (associativity s) (hq_count (hashqs s ! ?h)) ?es" by (rule slots_ok [OF s h])
  then have d: "ids_distinct ?es" by (simp add: entries_ok_def)
  have ce: "cached_in ?es i = Some e" using e(1) by (simp add: cached_def)
  obtain j where j: "j < length ?es" "?es ! j = e"
    "hq_try i ty (made_queue s ?h) =
      Inr (Got j, (made_queue s ?h)\<lparr>hq_count := c', hq_entries := Some (?es[j := used_entry c' ty e])\<rparr>)"
    using hq_try_hit [of "made_queue s ?h" ?es i e ty] d ce e(2) c by (auto simp: c'_def)
  define q where "q = (made_queue s ?h)\<lparr>hq_count := c', hq_entries := Some (?es[j := used_entry c' ty e])\<rparr>"
  have id: "e_id e = i" using cached_in_mem [OF ce] by simp
  have n: "\<forall>k < length ?es. k \<noteq> j \<longrightarrow> e_id (?es ! k) \<noteq> i"
    using ids_distinctD [OF d j(1)] j(2) id i by metis
  have run: "ssac_get env i ce ty s = Inr (0, Some (?h, j), s\<lparr>hashqs := (hashqs s)[?h := q]\<rparr>)"
    using hq_get_now [OF j(3)] by (simp add: ssac_get_run [OF s i] q_def)
  have eok: "entry_ok ?h (numhashqs s) (hq_count (hashqs s ! ?h)) e" using ok j by (auto simp: entries_ok_def)
  have "entries_ok ?h (numhashqs s) (associativity s) c' (?es[j := used_entry c' ty e])"
    by (rule entries_ok_update [OF ok j(1)]) (use n id i used_entry_ok [OF eok] word_less_Suc [OF c] in \<open>simp_all add: c'_def\<close>)
  then have inv: "ssac_inv (s\<lparr>hashqs := (hashqs s)[?h := q]\<rparr>)"
    by (intro ssac_inv_update [OF s h]) (simp add: queue_ok_def q_def)
  have "cached (s\<lparr>hashqs := (hashqs s)[?h := q]\<rparr>) = (cached s)(e_id (?es ! j) := None, e_id (used_entry c' ty e) \<mapsto> used_entry c' ty e)"
    by (rule cached_update [OF s h j(1)]) (use n id i in \<open>simp_all add: q_def\<close>)
  then have m: "cached (s\<lparr>hashqs := (hashqs s)[?h := q]\<rparr>) = (cached s)(i \<mapsto> used_entry c' ty e)" using j(2) id by simp
  have "entry_of (s\<lparr>hashqs := (hashqs s)[?h := q]\<rparr>) (?h, j) = Inr (used_entry c' ty e)"
    using s h j(1) by (simp add: entry_of_def arr_get_def q_def ssac_inv_def)
  moreover have cnt: "hq_count (hashqs (s\<lparr>hashqs := (hashqs s)[?h := q]\<rparr>) ! ?h) = c'" using s h by (simp add: q_def ssac_inv_def)
  moreover have "numhashqs (s\<lparr>hashqs := (hashqs s)[?h := q]\<rparr>) = numhashqs s" by simp
  ultimately show ?thesis using run inv m by blast
qed

lemma ssac_get_miss:
  assumes s: "ssac_inv s" and i: "oid_valid i" "cached s i = None"
    and c: "hq_count (hashqs s ! oid_set s i) + 1 \<noteq> 0" and free: "\<exists>e \<in> set (slots s (oid_set s i)). \<not> busy e"
  defines "c' \<equiv> hq_count (hashqs s ! oid_set s i) + 1"
  shows "\<exists>v \<in> set (slots s (oid_set s i)). \<exists>p s'. least_used (slots s (oid_set s i)) v \<and>
    ssac_get env i ce ty s = Inr (0, Some p, s') \<and> entry_of s' p = Inr (used_entry c' ty (loaded_entry i v)) \<and>
    cached s' = (cached s)(e_id v := None, i \<mapsto> used_entry c' ty (loaded_entry i v)) \<and> ssac_inv s' \<and>
    hq_count (hashqs s' ! oid_set s i) = c' \<and> numhashqs s' = numhashqs s"
proof -
  let ?h = "oid_set s i" and ?es = "slots s (oid_set s i)"
  have h: "?h < numhashqs s" by (rule oid_set_less [OF s])
  have ok: "entries_ok ?h (numhashqs s) (associativity s) (hq_count (hashqs s ! ?h)) ?es" by (rule slots_ok [OF s h])
  have ce: "cached_in ?es i = None" using i(2) by (simp add: cached_def)
  obtain j where j: "j < length ?es" "least_used ?es (?es ! j)"
    "hq_try i ty (made_queue s ?h) =
      Inr (Got j, (made_queue s ?h)\<lparr>hq_count := c', hq_entries := Some (?es[j := used_entry c' ty (loaded_entry i (?es ! j))])\<rparr>)"
    using hq_try_miss [of "made_queue s ?h" ?es ?h "numhashqs s" "associativity s" i ty] ok ce i(1) c free by (auto simp: c'_def)
  define e where "e = used_entry c' ty (loaded_entry i (?es ! j))"
  define q where "q = (made_queue s ?h)\<lparr>hq_count := c', hq_entries := Some (?es[j := e])\<rparr>"
  have id: "e_id e = i" by (simp add: e_def)
  note n = id_free [OF i(1) ce, of j]
  have run: "ssac_get env i ce ty s = Inr (0, Some (?h, j), s\<lparr>hashqs := (hashqs s)[?h := q]\<rparr>)"
    using hq_get_now [OF j(3)] by (simp add: ssac_get_run [OF s i(1)] q_def e_def)
  have "entry_ok ?h (numhashqs s) c' e"
    using i(1) by (simp add: entry_ok_def e_def used_entry_def loaded_entry_def oid_set_def BUSY_def)
  then have "entries_ok ?h (numhashqs s) (associativity s) c' (?es[j := e])"
    by (intro entries_ok_update [OF ok j(1)]) (use n id i word_less_Suc [OF c] in \<open>simp_all add: c'_def\<close>)
  then have inv: "ssac_inv (s\<lparr>hashqs := (hashqs s)[?h := q]\<rparr>)"
    by (intro ssac_inv_update [OF s h]) (simp add: queue_ok_def q_def)
  have m: "cached (s\<lparr>hashqs := (hashqs s)[?h := q]\<rparr>) = (cached s)(e_id (?es ! j) := None, i \<mapsto> e)"
    using cached_update [OF s h j(1), of q e] n id i(1) by (simp add: q_def)
  have "entry_of (s\<lparr>hashqs := (hashqs s)[?h := q]\<rparr>) (?h, j) = Inr e"
    using s h j(1) by (simp add: entry_of_def arr_get_def q_def ssac_inv_def)
  moreover have cnt: "hq_count (hashqs (s\<lparr>hashqs := (hashqs s)[?h := q]\<rparr>) ! ?h) = c'" using s h by (simp add: q_def ssac_inv_def)
  moreover have "numhashqs (s\<lparr>hashqs := (hashqs s)[?h := q]\<rparr>) = numhashqs s" by simp
  moreover have "?es ! j \<in> set ?es" using j(1) by simp
  ultimately show ?thesis using run inv m j(2) unfolding e_def by blast
qed

lemma cached_made: "ssac_inv s \<Longrightarrow> h < numhashqs s \<Longrightarrow> cached (s\<lparr>hashqs := (hashqs s)[h := made_queue s h]\<rparr>) = cached s"
proof -
  assume "ssac_inv s" "h < numhashqs s"
  then have "slots (s\<lparr>hashqs := (hashqs s)[h := made_queue s h]\<rparr>) k = slots s k" for k
    by (cases "k = h") (simp_all add: slots_def made_queue_def ssac_inv_def split: option.splits)
  then show ?thesis by (intro ext) (simp add: cached_def oid_set_def)
qed

lemma ssac_get_full:
  assumes s: "ssac_inv s" and i: "oid_valid i" "cached s i = None" and full: "\<forall>e \<in> set (slots s (oid_set s i)). busy e"
  shows "\<exists>s'. ssac_get env i ce ty s = Inr (0, ce, s') \<and> cached s' = cached s \<and> ssac_inv s'"
proof -
  let ?h = "oid_set s i"
  have h: "?h < numhashqs s" by (rule oid_set_less [OF s])
  have "hq_try i ty (made_queue s ?h) = Inr (NoFree, made_queue s ?h)"
    by (rule hq_try_full [of _ "slots s ?h"]) (use i full in \<open>simp_all add: cached_def\<close>)
  from hq_get_now [OF this, of env 0] have "ssac_get env i ce ty s = Inr (0, ce, s\<lparr>hashqs := (hashqs s)[?h := made_queue s ?h]\<rparr>)"
    by (simp add: ssac_get_run [OF s i(1)])
  moreover have "ssac_inv (s\<lparr>hashqs := (hashqs s)[?h := made_queue s ?h]\<rparr>)"
    by (rule ssac_inv_update [OF s h]) (simp add: queue_ok_def slots_ok [OF s h])
  ultimately show ?thesis using cached_made [OF s h] by blast
qed

lemma ssac_get_busy:
  assumes s: "ssac_inv s" and i: "oid_valid i" and e: "cached s i = Some e" "busy e"
  shows "ssac_get (\<lambda>_ q. q) i ce ty s = Inl Diverges"
proof -
  let ?h = "oid_set s i"
  have "ids_distinct (slots s ?h)" using slots_ok [OF s oid_set_less [OF s]] by (simp add: entries_ok_def)
  then have "hq_try i ty (made_queue s ?h) = Inr (Again, made_queue s ?h)"
    by (intro hq_try_busy [of _ "slots s ?h"]) (use e in \<open>simp_all add: cached_def\<close>)
  from hq_get_stuck [OF this, of 0] show ?thesis by (simp add: ssac_get_run [OF s i])
qed

subsection \<open>Releasing and writing an entry\<close>

lemma entry_of_Inr:
  assumes "ssac_inv s" "entry_of s p = Inr e"
  shows "fst p < numhashqs s \<and> snd p < length (slots s (fst p)) \<and> slots s (fst p) ! snd p = e \<and>
    hq_entries (hashqs s ! fst p) = Some (slots s (fst p))"
  using assms by (auto simp: entry_of_def arr_get_def ssac_inv_def slots_def split: if_splits option.splits)

lemma set_entry_eq:
  assumes "ssac_inv s" "entry_of s p = Inr e"
  shows "set_entry p e' s =
    s\<lparr>hashqs := (hashqs s)[fst p := (hashqs s ! fst p)\<lparr>hq_entries := Some ((slots s (fst p))[snd p := e'])\<rparr>]\<rparr>"
  using entry_of_Inr [OF assms] by (simp add: set_entry_def Let_def)

lemma set_entry_correct:
  assumes s: "ssac_inv s" and e: "entry_of s p = Inr e" "oid_valid (e_id e)"
    and e': "e_id e' = e_id e" "e_lastused e' \<le> hq_count (hashqs s ! fst p)" "e_flags e' \<in> {0, 1, 2, 3}"
  shows "fst p = oid_set s (e_id e) \<and> cached (set_entry p e' s) = (cached s)(e_id e \<mapsto> e') \<and> ssac_inv (set_entry p e' s) \<and>
    entry_of (set_entry p e' s) p = Inr e'"
proof -
  let ?h = "fst p" and ?es = "slots s (fst p)"
  note at = entry_of_Inr [OF s e(1)]
  then have h: "?h < numhashqs s" and j: "snd p < length ?es" "?es ! snd p = e" by simp_all
  have ok: "entries_ok ?h (numhashqs s) (associativity s) (hq_count (hashqs s ! ?h)) ?es" by (rule slots_ok [OF s h])
  then have d: "ids_distinct ?es" and eok: "entry_ok ?h (numhashqs s) (hq_count (hashqs s ! ?h)) e"
    using j by (auto simp: entries_ok_def)
  have set: "oid_set s (e_id e) = ?h" using eok e(2) by (simp add: entry_ok_def oid_set_def)
  have n: "\<forall>k < length ?es. k \<noteq> snd p \<longrightarrow> e_id (?es ! k) \<noteq> e_id e"
    using ids_distinctD [OF d j(1)] j(2) e(2) by metis
  let ?q = "(hashqs s ! ?h)\<lparr>hq_entries := Some (?es[snd p := e'])\<rparr>"
  have eok': "entry_ok ?h (numhashqs s) (hq_count (hashqs s ! ?h)) e'" using eok e(2) e' by (simp add: entry_ok_def)
  have "entries_ok ?h (numhashqs s) (associativity s) (hq_count (hashqs s ! ?h)) (?es[snd p := e'])"
    by (rule entries_ok_update [OF ok j(1) order.refl eok']) (use n e'(1) in simp)
  then have "ssac_inv (set_entry p e' s)" unfolding set_entry_eq [OF s e(1)]
    by (intro ssac_inv_update [OF s h]) (simp add: queue_ok_def)
  moreover have "cached (set_entry p e' s) = (cached s)(e_id e \<mapsto> e')"
    unfolding set_entry_eq [OF s e(1)] using cached_update [OF s h j(1), of ?q e'] n e'(1) e(2) set j(2) by simp
  moreover have "entry_of (set_entry p e' s) p = Inr e'"
    unfolding set_entry_eq [OF s e(1)] using s h j(1) by (simp add: entry_of_def arr_get_def ssac_inv_def)
  ultimately show ?thesis using set by simp
qed

definition released_entry :: "u64 \<Rightarrow> putflag \<Rightarrow> cache_entry \<Rightarrow> cache_entry" where
  "released_entry c flag e = e\<lparr>e_lastused := (if flag = KEEP then c else 0), e_flags := e_flags e AND NOT BUSY\<rparr>"

lemma entry_of_flags: "ssac_inv s \<Longrightarrow> entry_of s p = Inr e \<Longrightarrow> e_flags e \<in> {0, 1, 2, 3} \<and> e_lastused e \<le> hq_count (hashqs s ! fst p)"
  using entry_of_Inr [of s p e] slots_ok [of s "fst p"] by (auto simp: entries_ok_def entry_ok_def)

lemma ssac_putback_run:
  fixes flag :: putflag
  assumes s: "ssac_inv s" and e: "entry_of s p = Inr e" "oid_valid (e_id e)"
  defines "e' \<equiv> released_entry (hq_count (hashqs s ! fst p)) flag e"
  shows "\<exists>s'. ssac_putback (Some p) flag s = Inr (0, s') \<and> cached s' = (cached s)(e_id e \<mapsto> e') \<and> ssac_inv s' \<and>
    entry_of s' p = Inr e' \<and> hq_count (hashqs s' ! fst p) = hq_count (hashqs s ! fst p) \<and> numhashqs s' = numhashqs s"
proof -
  have f: "e_flags e' \<in> {0, 1, 2, 3}" using entry_of_flags [OF s e(1)] by (auto simp: e'_def released_entry_def BUSY_def)
  have c: "e_id e' = e_id e" "e_lastused e' \<le> hq_count (hashqs s ! fst p)" by (simp_all add: e'_def released_entry_def)
  note r = set_entry_correct [OF s e c f]
  have h: "oid_index (e_id e) (numhashqs s) = Inr (fst p)" "arr_get (hashqs s) (fst p) = Inr (hashqs s ! fst p)"
    using r s entry_of_Inr [OF s e(1)] by (simp_all add: oid_index_def oid_set_def ssac_inv_def arr_get_def)
  have "ssac_putback (Some p) flag s = Inr (0, set_entry p e' s)"
    using e(1) h entry_of_Inr [OF s e(1)] by (simp add: ssac_putback_def e'_def released_entry_def Let_def)
  moreover have "hq_count (hashqs (set_entry p e' s) ! fst p) = hq_count (hashqs s ! fst p)"
    unfolding set_entry_eq [OF s e(1)] using s entry_of_Inr [OF s e(1)] by (simp add: ssac_inv_def)
  moreover have "numhashqs (set_entry p e' s) = numhashqs s" by (simp add: set_entry_def Let_def)
  ultimately show ?thesis using r by blast
qed

lemma ssac_write_run:
  fixes v :: u64
  assumes s: "ssac_inv s" and e: "entry_of s p = Inr e" "oid_valid (e_id e)"
  defines "e' \<equiv> entry_dirty (e\<lparr>e_data := v\<rparr>)"
  shows "\<exists>s'. ssac_write p v s = Inr s' \<and> cached s' = (cached s)(e_id e \<mapsto> e') \<and> ssac_inv s' \<and> entry_of s' p = Inr e' \<and>
    hq_count (hashqs s' ! fst p) = hq_count (hashqs s ! fst p) \<and> numhashqs s' = numhashqs s"
proof -
  have f: "e_flags e' \<in> {0, 1, 2, 3}" using entry_of_flags [OF s e(1)] by (auto simp: e'_def entry_dirty_def DIRTY_def)
  have c: "e_id e' = e_id e" "e_lastused e' \<le> hq_count (hashqs s ! fst p)"
    using entry_of_flags [OF s e(1)] by (simp_all add: e'_def entry_dirty_def)
  note r = set_entry_correct [OF s e c f]
  have "hq_count (hashqs (set_entry p e' s) ! fst p) = hq_count (hashqs s ! fst p)"
    unfolding set_entry_eq [OF s e(1)] using s entry_of_Inr [OF s e(1)] by (simp add: ssac_inv_def)
  moreover have "numhashqs (set_entry p e' s) = numhashqs s" by (simp add: set_entry_def Let_def)
  moreover have "ssac_write p v s = Inr (set_entry p e' s)" using e(1) by (simp add: ssac_write_def e'_def)
  ultimately show ?thesis using r by blast
qed

subsection \<open>Flushing\<close>

definition flushed :: "cache_entry \<Rightarrow> cache_entry" where
  "flushed e = (if \<not> busy e \<and> oid_valid (e_id e) \<and> dirty e then save_entry e else e)"

lemma first_dirty_None: "first_dirty es k = None \<longleftrightarrow> (\<forall>e \<in> set es. \<not> (\<not> busy e \<and> oid_valid (e_id e) \<and> dirty e))"
  by (induction es arbitrary: k) auto

lemma flushed_save [simp]: "flushed (save_entry e) = save_entry e"
  by (simp add: flushed_def)

lemma flush_queue_eq: "flush_queue es = map flushed es"
proof (induction es rule: flush_queue.induct)
  case (1 es)
  show ?case
  proof (cases "first_dirty es 0")
    case None
    then have "map flushed es = es" by (intro map_idI) (auto simp: first_dirty_None flushed_def)
    with None show ?thesis by (simp add: flush_queue.simps [of es])
  next
    case (Some j)
    then have j: "j < length es" "flushed (es ! j) = save_entry (es ! j)"
      using first_dirty_Some [OF Some] by (simp_all add: flushed_def)
    have "flush_queue es = map flushed (es[j := save_entry (es ! j)])"
      using 1 [OF Some] Some by (simp add: flush_queue.simps [of es])
    also have "\<dots> = (map flushed es)[j := map flushed es ! j]" using j by (simp add: map_update)
    finally show ?thesis by simp
  qed
qed

lemma flushed_sel [simp]: "e_id (flushed e) = e_id e" "e_data (flushed e) = e_data e" "e_lastused (flushed e) = e_lastused e"
  by (simp_all add: flushed_def)

lemma flushed_ok: "entry_ok h n c e \<Longrightarrow> entry_ok h n c (flushed e)"
proof -
  assume e: "entry_ok h n c e"
  have "e_flags (flushed e) \<in> {0, 1, 2, 3}"
    using e by (auto simp: entry_ok_def flushed_def save_entry_def busy_def dirty_def BUSY_def DIRTY_def Let_def)
  moreover have "\<not> oid_valid (e_id e) \<Longrightarrow> flushed e = e" by (simp add: flushed_def)
  ultimately show ?thesis using e by (auto simp: entry_ok_def)
qed

lemma find_map_id: "find (\<lambda>e. e_id e = i) (map flushed es) = map_option flushed (find (\<lambda>e. e_id e = i) es)"
  by (induction es) simp_all

lemma slots_flush: "h < length (hashqs s) \<Longrightarrow> slots (snd (ssac_flush s)) h = map flushed (slots s h)"
  by (auto simp: slots_def ssac_flush_def flush_queue_eq flushed_def new_entry_def oid_valid_def split: option.splits)

lemma ssac_flush_inv: "ssac_inv s \<Longrightarrow> ssac_inv (snd (ssac_flush s))"
proof -
  assume s: "ssac_inv s"
  have "queue_ok h n a (q\<lparr>hq_entries := map_option flush_queue (hq_entries q)\<rparr>)" if "queue_ok h n a q" for h n a q
    using that by (auto simp: queue_ok_def entries_ok_def flush_queue_eq flushed_ok ids_distinct_def split: option.splits)
  then show ?thesis using s by (simp add: ssac_inv_def ssac_flush_def)
qed

end
