(* ===== verification/SsacRuns.thy ===== *)
theory SsacRuns
  imports SsacProps
begin

text \<open>
  Runs of the set-associative cache: lookups (with whatever other threads do to a queue while a
  thread sleeps, as long as they keep the invariant of the queue), writes and releases of entries,
  and flushes, in any order; and the theorems about them.
\<close>

subsection \<open>Lookups with other threads\<close>

lemma hq_touch_Inr: "hq_touch j e es ty q = Inr q' \<Longrightarrow> hq_count q + 1 \<noteq> 0"
  by (auto simp: hq_touch_def hq_rollover_def Let_def split: if_splits)

lemma hq_try_moved: "hq_try i ty q = Inr (g, q') \<Longrightarrow> q' \<noteq> q \<Longrightarrow> hq_count q + 1 \<noteq> 0"
  by (auto simp: hq_try_def Let_def split: option.splits if_splits dest: hq_touch_Inr)

lemma hq_try_ok:
  assumes q: "queue_ok h n a q" and i: "oid_valid i" "unat i mod n = h" and run: "hq_try i ty q = Inr (g, q')"
  shows "queue_ok h n a q'"
proof (cases "q' = q \<or> hq_entries q = None")
  case True
  then show ?thesis using q run by (auto simp: hq_try_def)
next
  case False
  then obtain es where es: "hq_entries q = Some es" by blast
  have ok: "entries_ok h n a (hq_count q) es" using q es by (simp add: queue_ok_def)
  then have d: "ids_distinct es" by (simp add: entries_ok_def)
  have c: "hq_count q + 1 \<noteq> 0" using hq_try_moved [OF run] False by blast
  let ?c = "hq_count q + 1"
  have upd: "queue_ok h n a (q\<lparr>hq_count := ?c, hq_entries := Some (es[j := e])\<rparr>)"
    if "j < length es" "entry_ok h n ?c e" "e_id e = i" "\<forall>k < length es. k \<noteq> j \<longrightarrow> e_id (es ! k) \<noteq> i" for j e
  proof -
    have "entries_ok h n a ?c (es[j := e])"
      by (rule entries_ok_update [OF ok that(1) word_less_Suc [OF c] that(2)]) (use that in simp)
    then show ?thesis by (simp add: queue_ok_def)
  qed
  show ?thesis
  proof (cases "cached_in es i")
    case (Some e)
    have free: "\<not> busy e"
    proof
      assume "busy e"
      from hq_try_busy [OF es d Some this, of ty] show False using run False by simp
    qed
    obtain j where j: "j < length es" "es ! j = e"
      "hq_try i ty q = Inr (Got j, q\<lparr>hq_count := ?c, hq_entries := Some (es[j := used_entry ?c ty e])\<rparr>)"
      using hq_try_hit [OF es d Some free c, of ty] by blast
    have id: "e_id e = i" and m: "e \<in> set es" using cached_in_mem [OF Some] by simp_all
    have "entry_ok h n ?c (used_entry ?c ty e)"
      by (rule used_entry_ok [of _ _ "hq_count q"]) (use ok m id i in \<open>simp_all add: entries_ok_def\<close>)
    moreover have "\<forall>k < length es. k \<noteq> j \<longrightarrow> e_id (es ! k) \<noteq> i"
      using ids_distinctD [OF d j(1)] j(2) id i(1) by metis
    ultimately show ?thesis using upd [OF j(1), of "used_entry ?c ty e"] id j(3) run by simp
  next
    case None
    have "\<exists>e \<in> set es. \<not> busy e"
    proof (rule ccontr)
      assume "\<not> (\<exists>e \<in> set es. \<not> busy e)"
      then have "hq_try i ty q = Inr (NoFree, q)" by (intro hq_try_full [OF es i(1) None]) blast
      with run False show False by simp
    qed
    from hq_try_miss [OF es ok i(1) None c this, of ty] obtain j where j: "j < length es"
      "hq_try i ty q = Inr (Got j, q\<lparr>hq_count := ?c, hq_entries := Some (es[j := used_entry ?c ty (loaded_entry i (es ! j))])\<rparr>)"
      by blast
    have "entry_ok h n ?c (used_entry ?c ty (loaded_entry i (es ! j)))"
      using i by (simp add: entry_ok_def used_entry_def loaded_entry_def BUSY_def)
    then show ?thesis using upd [OF j(1), of "used_entry ?c ty (loaded_entry i (es ! j))"] id_free [OF i(1) None] j(2) run by simp
  qed
qed

definition keeps_queues :: "nat \<Rightarrow> nat \<Rightarrow> (nat \<Rightarrow> hashq \<Rightarrow> hashq) \<Rightarrow> bool" where
  "keeps_queues n a env \<longleftrightarrow> (\<forall>k h q. queue_ok h n a q \<longrightarrow> queue_ok h n a (env k q))"

lemma hq_get_ok:
  assumes "keeps_queues n a env" "oid_valid i" "hq_get env i ty k q = Some r"
  shows "queue_ok (unat i mod n) n a q \<Longrightarrow> r = Inr (g, q') \<Longrightarrow> queue_ok (unat i mod n) n a q'"
proof -
  have "keeps_queues n a env \<longrightarrow> oid_valid i \<longrightarrow> queue_ok (unat i mod n) n a q \<longrightarrow> (\<forall>g q'. r = Inr (g, q') \<longrightarrow> queue_ok (unat i mod n) n a q')"
    using assms(3)
  proof (rule hq_get.raw_induct [of "\<lambda>env i ty k q r. keeps_queues n a env \<longrightarrow> oid_valid i \<longrightarrow> queue_ok (unat i mod n) n a q \<longrightarrow>
      (\<forall>g q'. r = Inr (g, q') \<longrightarrow> queue_ok (unat i mod n) n a q')", rotated])
    fix f :: "(nat \<Rightarrow> hashq \<Rightarrow> hashq) \<Rightarrow> u32 \<Rightarrow> gettype \<Rightarrow> nat \<Rightarrow> hashq \<Rightarrow> (got \<times> hashq) res option" and env i ty k q r
    assume IH: "\<And>env i ty k q r. f env i ty k q = Some r \<Longrightarrow> keeps_queues n a env \<longrightarrow> oid_valid i \<longrightarrow>
        queue_ok (unat i mod n) n a q \<longrightarrow> (\<forall>g q'. r = Inr (g, q') \<longrightarrow> queue_ok (unat i mod n) n a q')"
      and run: "(case hq_try i ty q of Inl f \<Rightarrow> Some (Inl f)
        | Inr (g, q') \<Rightarrow> if g = Again then f env i ty (k + 1) (env k q') else Some (Inr (g, q'))) = Some r"
    show "keeps_queues n a env \<longrightarrow> oid_valid i \<longrightarrow> queue_ok (unat i mod n) n a q \<longrightarrow>
        (\<forall>g q'. r = Inr (g, q') \<longrightarrow> queue_ok (unat i mod n) n a q')"
    proof (intro impI allI)
      fix g q'
      assume e: "keeps_queues n a env" and i: "oid_valid i" and q: "queue_ok (unat i mod n) n a q" and r: "r = Inr (g, q')"
      from run r obtain g1 q1 where t: "hq_try i ty q = Inr (g1, q1)" by (auto split: sum.splits)
      have q1: "queue_ok (unat i mod n) n a q1" by (rule hq_try_ok [OF q i refl t])
      show "queue_ok (unat i mod n) n a q'"
      proof (cases "g1 = Again")
        case True
        then have "f env i ty (k + 1) (env k q1) = Some r" using run t by simp
        from IH [OF this] show ?thesis using e i q1 r by (simp add: keeps_queues_def)
      next
        case False
        then show ?thesis using run t r q1 by simp
      qed
    qed
  qed
  then show "queue_ok (unat i mod n) n a q \<Longrightarrow> r = Inr (g, q') \<Longrightarrow> queue_ok (unat i mod n) n a q'"
    using assms(1,2) by blast
qed

lemma ssac_get_inv:
  assumes s: "ssac_inv s" and env: "keeps_queues (numhashqs s) (associativity s) env" and run: "ssac_get env i ce ty s = Inr (rc, ce', s')"
  shows "ssac_inv s' \<and> numhashqs s' = numhashqs s \<and> associativity s' = associativity s"
proof -
  let ?h = "oid_set s i"
  have i: "oid_valid i" using run by (auto simp: ssac_get_def)
  have h: "?h < numhashqs s" by (rule oid_set_less [OF s])
  from run obtain g q where q: "returns (hq_get env i ty 0 (made_queue s ?h)) = Inr (g, q)" "s' = s\<lparr>hashqs := (hashqs s)[?h := q]\<rparr>"
    by (auto simp: ssac_get_run [OF s i])
  then have get: "hq_get env i ty 0 (made_queue s ?h) = Some (Inr (g, q))" by (auto simp: returns_def split: option.splits)
  have "queue_ok ?h (numhashqs s) (associativity s) (made_queue s ?h)" by (simp add: queue_ok_def slots_ok [OF s h])
  then have "queue_ok ?h (numhashqs s) (associativity s) q"
    using hq_get_ok [OF env i get, of g q] by (simp add: oid_set_def)
  from ssac_inv_update [OF s h this] show ?thesis by (simp add: q(2))
qed

subsection \<open>Reachable states\<close>

inductive ssac_reachable :: "nat \<Rightarrow> nat \<Rightarrow> ssac \<Rightarrow> bool" for n a where
  start: "0 < n \<Longrightarrow> ssac_reachable n a (SSACSimpleSharedArray_new n a)"
| lookup: "ssac_reachable n a s \<Longrightarrow> keeps_queues n a env \<Longrightarrow> ssac_get env i ce ty s = Inr (rc, ce', s') \<Longrightarrow> ssac_reachable n a s'"
| release: "ssac_reachable n a s \<Longrightarrow> entry_of s p = Inr e \<Longrightarrow> oid_valid (e_id e) \<Longrightarrow> ssac_putback (Some p) flag s = Inr (rc, s') \<Longrightarrow>
    ssac_reachable n a s'"
| store: "ssac_reachable n a s \<Longrightarrow> entry_of s p = Inr e \<Longrightarrow> oid_valid (e_id e) \<Longrightarrow> ssac_write p v s = Inr s' \<Longrightarrow> ssac_reachable n a s'"
| flush: "ssac_reachable n a s \<Longrightarrow> ssac_reachable n a (snd (ssac_flush s))"

lemma set_entry_sizes [simp]: "numhashqs (set_entry p e s) = numhashqs s" "associativity (set_entry p e s) = associativity s"
  by (simp_all add: set_entry_def Let_def)

lemma ssac_sizes:
  "ssac_putback ce flag s = Inr (rc, s') \<Longrightarrow> numhashqs s' = numhashqs s \<and> associativity s' = associativity s"
  "ssac_write p v s = Inr s' \<Longrightarrow> numhashqs s' = numhashqs s \<and> associativity s' = associativity s"
  "numhashqs (snd (ssac_flush s)) = numhashqs s" "associativity (snd (ssac_flush s)) = associativity s"
  by (auto simp: ssac_putback_def ssac_write_def ssac_flush_def Let_def split: option.splits)

lemma new_inv: "0 < n \<Longrightarrow> ssac_inv (SSACSimpleSharedArray_new n a)"
  by (simp add: ssac_inv_def SSACSimpleSharedArray_new_def queue_ok_def new_hashq_def)

lemma reachable_inv: "ssac_reachable n a s \<Longrightarrow> ssac_inv s \<and> numhashqs s = n \<and> associativity s = a"
proof (induction rule: ssac_reachable.induct)
  case start
  then show ?case using new_inv by (simp add: SSACSimpleSharedArray_new_def)
next
  case (lookup s env i ce ty rc ce' s')
  then show ?case using ssac_get_inv [of s env i ce ty rc ce' s'] by simp
next
  case (release s p e flag rc s')
  then show ?case using ssac_putback_run [of s p e flag] ssac_sizes(1) [of "Some p" flag s rc s'] by auto
next
  case (store s p e v s')
  then show ?case using ssac_write_run [of s p e v] ssac_sizes(2) [of p v s s'] by auto
next
  case (flush s)
  then show ?case using ssac_flush_inv by (simp add: ssac_sizes)
qed

lemma alone_keeps: "keeps_queues n a (\<lambda>_ q. q)"
  by (simp add: keeps_queues_def)

lemma ssac_get_ok:
  assumes s: "ssac_inv s" and i: "oid_valid i" and c: "hq_count (hashqs s ! oid_set s i) + 1 \<noteq> 0"
    and free: "case cached s i of Some e \<Rightarrow> \<not> busy e | None \<Rightarrow> \<exists>e \<in> set (slots s (oid_set s i)). \<not> busy e"
  shows "\<exists>p s' e'. ssac_get env i ce ty s = Inr (0, Some p, s') \<and> entry_of s' p = Inr e' \<and> e_id e' = i \<and>
    e_data e' = (case cached s i of Some e \<Rightarrow> e_data e | None \<Rightarrow> oid_load i) \<and>
    (case cached s i of Some e \<Rightarrow> dirty e \<longrightarrow> dirty e' | None \<Rightarrow> True) \<and> (ty = GETFORWRITE \<longrightarrow> busy e') \<and>
    cached s' i = Some e' \<and> ssac_inv s' \<and>
    hq_count (hashqs s' ! oid_set s i) = hq_count (hashqs s ! oid_set s i) + 1 \<and> numhashqs s' = numhashqs s"
proof -
  have b: "(x OR BUSY) AND BUSY \<noteq> 0" for x
  proof -
    have "(x OR BUSY) AND BUSY = BUSY" by (rule bit_eqI) (auto simp: bit_simps)
    then show ?thesis by (simp add: BUSY_def)
  qed
  have d: "x AND DIRTY \<noteq> 0 \<Longrightarrow> (x OR BUSY) AND DIRTY \<noteq> 0" for x
  proof -
    have "(x OR BUSY) AND DIRTY = x AND DIRTY" by (rule bit_eqI) (auto simp: bit_simps BUSY_def DIRTY_def)
    then show "x AND DIRTY \<noteq> 0 \<Longrightarrow> (x OR BUSY) AND DIRTY \<noteq> 0" by simp
  qed
  show ?thesis
  proof (cases "cached s i")
    case (Some e)
    then have "\<not> busy e" using free by simp
    from ssac_get_hit [OF s i Some this c, of env ce ty] show ?thesis
      using Some b d cached_id [OF Some] by (auto simp: used_entry_def busy_def dirty_def)
  next
    case None
    then have "\<exists>e \<in> set (slots s (oid_set s i)). \<not> busy e" using free by simp
    from ssac_get_miss [OF s i None c this, of env ce ty] show ?thesis using None b by (auto simp: used_entry_def busy_def)
  qed
qed

subsection \<open>Properties\<close>


text \<open>
  C11: a lookup of a valid identifier, on its own, refines a map from identifiers to entries. If the
  object is cached and free, its entry is returned, only made younger (and kept busy for a writer);
  if it is in use the lookup waits for ever. If it is not cached, the least recently used of the
  free entries of its set is returned, holding the data of the object, and nothing else changes
  but that the object that was in the entry is no longer cached; if all entries of the set are in
  use, the result is 0 all the same, the caller's pointer keeps its old value, and the map is
  unchanged.
\<close>

theorem ssac_get_refines:
  assumes "ssac_reachable n a s" "oid_valid i" and c: "c' = hq_count (hashqs s ! oid_set s i) + 1" "c' \<noteq> 0"
  shows "case cached s i of
      Some e \<Rightarrow>
        if busy e then ssac_get (\<lambda>_ q. q) i ce ty s = Inl Diverges
        else \<exists>p s'. ssac_get (\<lambda>_ q. q) i ce ty s = Inr (0, Some p, s') \<and> entry_of s' p = Inr (used_entry c' ty e) \<and>
          cached s' = (cached s)(i \<mapsto> used_entry c' ty e)
    | None \<Rightarrow>
        if \<forall>e \<in> set (slots s (oid_set s i)). busy e then
          \<exists>s'. ssac_get (\<lambda>_ q. q) i ce ty s = Inr (0, ce, s') \<and> cached s' = cached s
        else \<exists>v \<in> set (slots s (oid_set s i)). \<exists>p s'. least_used (slots s (oid_set s i)) v \<and>
          ssac_get (\<lambda>_ q. q) i ce ty s = Inr (0, Some p, s') \<and> entry_of s' p = Inr (used_entry c' ty (loaded_entry i v)) \<and>
          cached s' = (cached s)(e_id v := None, i \<mapsto> used_entry c' ty (loaded_entry i v))"
proof -
  have s: "ssac_inv s" using reachable_inv [OF assms(1)] by simp
  note i = assms(2) and c' = c(2) [unfolded c(1)]
  show ?thesis
  proof (cases "cached s i")
    case (Some e)
    then show ?thesis using ssac_get_busy [OF s i Some] ssac_get_hit [OF s i Some _ c', of "\<lambda>_ q. q" ce ty] c(1) by auto
  next
    case None
    then show ?thesis
      using ssac_get_full [OF s i None, of "\<lambda>_ q. q" ce ty] ssac_get_miss [OF s i None c', of "\<lambda>_ q. q" ce ty] c(1) by auto
  qed
qed

text \<open>
  C19: a flush ends, returns 0, and is the same as clearing the dirty mark of every entry that is not
  in use: all objects stay cached with their data, and afterwards only entries in use are dirty.
\<close>

theorem ssac_flush_correct:
  assumes "ssac_reachable n a s"
  shows "\<exists>s'. ssac_flush s = (0, s') \<and>
    cached s' = map_option (\<lambda>e. if busy e then e else e\<lparr>e_flags := e_flags e AND NOT DIRTY\<rparr>) \<circ> cached s \<and>
    (\<forall>p e. entry_of s' p = Inr e \<and> oid_valid (e_id e) \<and> dirty e \<longrightarrow> busy e)"
proof (intro exI conjI allI impI)
  let ?s = "snd (ssac_flush s)"
  have s: "ssac_inv s" using reachable_inv [OF assms] by simp
  show "ssac_flush s = (0, ?s)" by (simp add: ssac_flush_def)
  show "cached ?s = map_option (\<lambda>e. if busy e then e else e\<lparr>e_flags := e_flags e AND NOT DIRTY\<rparr>) \<circ> cached s"
  proof
    fix i
    have h: "oid_set s i < numhashqs s" by (rule oid_set_less [OF s])
    have set: "oid_set ?s i = oid_set s i" by (simp add: oid_set_def ssac_sizes)
    have "slots ?s (oid_set s i) = map flushed (slots s (oid_set s i))" using slots_flush h s by (simp add: ssac_inv_def)
    then have "cached ?s i = map_option flushed (cached s i)"
      unfolding cached_def set by (simp add: cached_in_def find_map_id)
    moreover have "flushed e = (if busy e then e else e\<lparr>e_flags := e_flags e AND NOT DIRTY\<rparr>)" if "cached s i = Some e" for e
    proof -
      have "e_flags e \<in> {0, 1, 2, 3}"
        using that slots_ok [OF s h] cached_in_mem [of "slots s (oid_set s i)" i e] by (auto simp: cached_def entries_ok_def entry_ok_def)
      then show ?thesis using cached_id [OF that]
        by (auto simp: flushed_def save_entry_def busy_def dirty_def BUSY_def DIRTY_def Let_def)
    qed
    ultimately show "cached ?s i = (map_option (\<lambda>e. if busy e then e else e\<lparr>e_flags := e_flags e AND NOT DIRTY\<rparr>) \<circ> cached s) i"
      by (cases "cached s i") simp_all
  qed
  fix p e
  assume e: "entry_of ?s p = Inr e \<and> oid_valid (e_id e) \<and> dirty e"
  note at = entry_of_Inr [OF ssac_flush_inv [OF s], of p e]
  have "slots ?s (fst p) = map flushed (slots s (fst p))" using at e s slots_flush [of "fst p" s] by (simp add: ssac_sizes ssac_inv_def)
  then obtain x where "e = flushed x" using at e by auto
  then show "busy e" using e by (auto simp: flushed_def split: if_splits)
qed

text \<open>
  C17: what a writer stores is what the next reader gets. A writer looks an object up (cached, or
  with a free entry in its set), meanwhile every other lookup of it waits, writes \<open>v\<close> and releases
  the entry; the next lookup then returns an entry with data \<open>v\<close> that is marked dirty.
\<close>

theorem ssac_write_roundtrip:
  assumes "ssac_reachable n a s" "oid_valid i"
    and c: "hq_count (hashqs s ! oid_set s i) + 1 \<noteq> 0" "hq_count (hashqs s ! oid_set s i) + 2 \<noteq> 0"
    and free: "case cached s i of Some e \<Rightarrow> \<not> busy e | None \<Rightarrow> \<exists>e \<in> set (slots s (oid_set s i)). \<not> busy e"
  shows "\<exists>p s1 s2 s3 p' s4 e.
    ssac_get (\<lambda>_ q. q) i ce GETFORWRITE s = Inr (0, Some p, s1) \<and> ssac_get (\<lambda>_ q. q) i ce' ty s1 = Inl Diverges \<and>
    ssac_write p v s1 = Inr s2 \<and> ssac_putback (Some p) flag s2 = Inr (0, s3) \<and>
    ssac_get (\<lambda>_ q. q) i ce'' ty s3 = Inr (0, Some p', s4) \<and> entry_of s4 p' = Inr e \<and> e_id e = i \<and> e_data e = v \<and> dirty e"
proof -
  note i = assms(2)
  have s: "ssac_inv s" using reachable_inv [OF assms(1)] by simp
  obtain p s1 e1 where g: "ssac_get (\<lambda>_ q. q) i ce GETFORWRITE s = Inr (0, Some p, s1)" "entry_of s1 p = Inr e1" "e_id e1 = i"
    "busy e1" "cached s1 i = Some e1" "ssac_inv s1"
    "hq_count (hashqs s1 ! oid_set s i) = hq_count (hashqs s ! oid_set s i) + 1" "numhashqs s1 = numhashqs s"
    using ssac_get_ok [OF s i c(1) free, of "\<lambda>_ q. q" ce GETFORWRITE] by auto
  have wait: "ssac_get (\<lambda>_ q. q) i ce' ty s1 = Inl Diverges" by (rule ssac_get_busy [OF g(6) i g(5,4)])
  have v1: "oid_valid (e_id e1)" using i g(3) by simp
  define e2 where "e2 = entry_dirty (e1\<lparr>e_data := v\<rparr>)"
  obtain s2 where w: "ssac_write p v s1 = Inr s2" "cached s2 = (cached s1)(i \<mapsto> e2)" "ssac_inv s2" "entry_of s2 p = Inr e2"
    "hq_count (hashqs s2 ! fst p) = hq_count (hashqs s1 ! fst p)" "numhashqs s2 = numhashqs s1"
    using ssac_write_run [OF g(6,2) v1, of v] g(3) unfolding e2_def by blast
  have id2: "e_id e2 = i" by (simp add: e2_def entry_dirty_def g(3))
  then have v2: "oid_valid (e_id e2)" using i by simp
  define e3 where "e3 = released_entry (hq_count (hashqs s2 ! fst p)) flag e2"
  obtain s3 where r: "ssac_putback (Some p) flag s2 = Inr (0, s3)" "cached s3 = (cached s2)(i \<mapsto> e3)" "ssac_inv s3"
    "hq_count (hashqs s3 ! fst p) = hq_count (hashqs s2 ! fst p)" "numhashqs s3 = numhashqs s2"
    using ssac_putback_run [OF w(3,4) v2, of flag] id2 unfolding e3_def by blast
  have "cached s3 i = Some e3" using r(2) by simp
  moreover have "\<not> busy e3"
  proof -
    have "x AND NOT BUSY AND BUSY = 0" for x by (rule bit_eqI) (auto simp: bit_simps)
    then show ?thesis by (simp add: e3_def released_entry_def busy_def and.assoc)
  qed
  moreover have "fst p = oid_set s i"
  proof -
    note at = entry_of_Inr [OF g(6,2)]
    then have "e1 \<in> set (slots s1 (fst p))" using nth_mem by metis
    then have "entry_ok (fst p) (numhashqs s1) (hq_count (hashqs s1 ! fst p)) e1"
      using slots_ok [OF g(6)] at by (auto simp: entries_ok_def)
    then show ?thesis using v1 g(3,8) by (simp add: entry_ok_def oid_set_def)
  qed
  moreover from this have "oid_set s3 i = fst p" "hq_count (hashqs s3 ! fst p) + 1 \<noteq> 0"
    using r(4,5) w(5,6) g(7,8) c(2) by (simp_all add: oid_set_def add.assoc)
  ultimately obtain p' s4 e4 where l: "ssac_get (\<lambda>_ q. q) i ce'' ty s3 = Inr (0, Some p', s4)" "entry_of s4 p' = Inr e4"
    "e_id e4 = i" "e_data e4 = e_data e3" "dirty e3 \<longrightarrow> dirty e4"
    using ssac_get_ok [OF r(3) i, of "\<lambda>_ q. q" ce'' ty] by auto
  have "e_data e3 = v" by (simp add: e3_def e2_def released_entry_def entry_dirty_def)
  moreover have "dirty e3"
  proof -
    have "(x OR DIRTY) AND NOT BUSY AND DIRTY = DIRTY" for x
      by (rule bit_eqI) (auto simp: bit_simps BUSY_def DIRTY_def)
    then show ?thesis by (simp add: e3_def e2_def released_entry_def entry_dirty_def dirty_def DIRTY_def and.assoc)
  qed
  ultimately show ?thesis using g(1) wait w(1) r(1) l by blast
qed

subsection \<open>Examples\<close>

text \<open>Four queues of two entries; object 6 belongs to queue 2.\<close>

definition demo_ssac :: ssac where "demo_ssac = SSACSimpleSharedArray_new 4 2"

lemma demo_ssac_reachable: "ssac_reachable 4 2 demo_ssac"
  unfolding demo_ssac_def by (rule ssac_reachable.start) simp

lemma demo_ssac_values:
  "oid_valid 6" "oid_set demo_ssac 6 = 2" "hq_count (hashqs demo_ssac ! 2) = 0" "slots demo_ssac 2 = replicate 2 new_entry"
  "cached demo_ssac 6 = None" "\<not> busy new_entry"
  by (simp_all add: oid_valid_def SSAC_INVALID_def demo_ssac_def SSACSimpleSharedArray_new_def oid_set_def slots_def
      new_hashq_def cached_def cached_in_def new_entry_def busy_def find_None_iff)

theorem ssac_write_roundtrip_witness:
  "\<exists>p s1 s2 s3 p' s4 e.
    ssac_get (\<lambda>_ q. q) 6 None GETFORWRITE demo_ssac = Inr (0, Some p, s1) \<and> ssac_get (\<lambda>_ q. q) 6 None GETFORREAD s1 = Inl Diverges \<and>
    ssac_write p 0x77 s1 = Inr s2 \<and> ssac_putback (Some p) KEEP s2 = Inr (0, s3) \<and>
    ssac_get (\<lambda>_ q. q) 6 None GETFORREAD s3 = Inr (0, Some p', s4) \<and> entry_of s4 p' = Inr e \<and> e_id e = 6 \<and> e_data e = 0x77 \<and> dirty e"
  by (rule ssac_write_roundtrip [OF demo_ssac_reachable]) (simp_all add: demo_ssac_values)

theorem ssac_get_refines_witness:
  "\<exists>p s' e. ssac_get (\<lambda>_ q. q) 6 None GETFORREAD demo_ssac = Inr (0, Some p, s') \<and> entry_of s' p = Inr e \<and>
    e_id e = 6 \<and> e_data e = 6 \<and> e_lastused e = 1 \<and> cached s' 6 = Some e"
proof -
  have "\<exists>v \<in> set (slots demo_ssac 2). \<exists>p s'. least_used (slots demo_ssac 2) v \<and>
      ssac_get (\<lambda>_ q. q) 6 None GETFORREAD demo_ssac = Inr (0, Some p, s') \<and> entry_of s' p = Inr (used_entry 1 GETFORREAD (loaded_entry 6 v)) \<and>
      cached s' = (cached demo_ssac)(e_id v := None, 6 \<mapsto> used_entry 1 GETFORREAD (loaded_entry 6 v))"
    using ssac_get_refines [OF demo_ssac_reachable demo_ssac_values(1), of 1 None GETFORREAD] demo_ssac_values by simp
  then show ?thesis by (auto simp: oid_load_def)
qed


theorem ssac_flush_correct_witness:
  "\<exists>s s'. ssac_reachable 4 2 s \<and> ssac_flush s = (0, s') \<and> (\<exists>e. cached s 6 = Some e \<and> dirty e \<and> e_data e = 0x77) \<and>
    (\<exists>e. cached s' 6 = Some e \<and> \<not> dirty e \<and> e_data e = 0x77)"
proof -
  define st where "st = demo_ssac"
  obtain p s1 e1 where g: "ssac_get (\<lambda>_ q. q) 6 None GETFORREAD demo_ssac = Inr (0, Some p, s1)" "entry_of s1 p = Inr e1" "e_id e1 = 6"
    "\<not> busy e1"
  proof -
    obtain v p s' where "v \<in> set (slots demo_ssac 2)" "ssac_get (\<lambda>_ q. q) 6 None GETFORREAD demo_ssac = Inr (0, Some p, s')"
      "entry_of s' p = Inr (used_entry 1 GETFORREAD (loaded_entry 6 v))"
      using ssac_get_miss [of demo_ssac 6 "\<lambda>_ q. q" None GETFORREAD] reachable_inv [OF demo_ssac_reachable] demo_ssac_values by auto
    then show ?thesis by (intro that) (auto simp: used_entry_def busy_def)
  qed
  have r1: "ssac_reachable 4 2 s1" by (rule ssac_reachable.lookup [OF demo_ssac_reachable alone_keeps g(1)])
  have v: "oid_valid (e_id e1)" using g(3) demo_ssac_values by simp
  have inv: "ssac_inv s1" using reachable_inv [OF r1] by simp
  define e2 where "e2 = entry_dirty (e1\<lparr>e_data := 0x77\<rparr>)"
  obtain s2 where w: "ssac_write p 0x77 s1 = Inr s2" "cached s2 = (cached s1)(6 \<mapsto> e2)"
    using ssac_write_run [OF inv g(2) v, of "0x77"] g(3) unfolding e2_def by auto
  have r2: "ssac_reachable 4 2 s2" by (rule ssac_reachable.store [OF r1 g(2) v w(1)])
  have f: "e_flags e1 = 0 \<or> e_flags e1 = 2" using entry_of_flags [OF inv g(2)] g(4) by (auto simp: busy_def BUSY_def)
  have c2: "cached s2 6 = Some e2" using w(2) by simp
  have e2: "\<not> busy e2" "dirty e2" "e_data e2 = 0x77"
    using f by (auto simp: e2_def entry_dirty_def busy_def dirty_def BUSY_def DIRTY_def)
  obtain s' where "ssac_flush s2 = (0, s')"
    "cached s' = map_option (\<lambda>e. if busy e then e else e\<lparr>e_flags := e_flags e AND NOT DIRTY\<rparr>) \<circ> cached s2"
    using ssac_flush_correct [OF r2] by blast
  then show ?thesis using r2 c2 e2 f
    by (intro exI [of _ s2] exI [of _ s']) (auto simp: dirty_def and.assoc)
qed

end
