(* ===== verification/Barrier.thy ===== *)
theory Barrier
  imports Prelude
begin

text \<open>
  The spinning barrier of the cache tests (\<open>class Barrier\<close> in \<open>contrib/jmcddn/ssac_cpp/Test.H\<close>) as a
  program of one memory access per step; the threads take their steps in any order. A schedule is
  the list of the threads that step, and \<open>k\<close> is the number of times each thread enters the barrier.
\<close>

text \<open>Where a thread is in \<open>enter\<close>, \<open>leave\<close> and \<open>reset\<close>; a loop that goes on is a step to itself.\<close>

datatype bar_pc = Ready | WaitEmpty | SubEnter | WaitAll | SubLeave | TestLast | ResetLeave | ResetEnter

record barrier =
  bar_size :: int
  enterCount :: int
  leaveCount :: int
  bar_pc :: "nat \<Rightarrow> bar_pc"
  bar_round :: "nat \<Rightarrow> nat"

definition bar_init :: "nat \<Rightarrow> barrier" where
  "bar_init n = \<lparr>bar_size = int n, enterCount = int n, leaveCount = int n, bar_pc = (\<lambda>_. Ready), bar_round = (\<lambda>_. 0)\<rparr>"

definition bar_goto :: "nat \<Rightarrow> bar_pc \<Rightarrow> barrier \<Rightarrow> barrier" where
  "bar_goto p c s = s\<lparr>bar_pc := (bar_pc s)(p := c)\<rparr>"

definition bar_return :: "nat \<Rightarrow> barrier \<Rightarrow> barrier" where
  "bar_return p s = s\<lparr>bar_pc := (bar_pc s)(p := Ready), bar_round := (bar_round s)(p := bar_round s p + 1)\<rparr>"

definition bar_step :: "nat \<Rightarrow> nat \<Rightarrow> barrier \<Rightarrow> barrier" where
  "bar_step k p s =
     (case bar_pc s p of
        Ready \<Rightarrow> if bar_round s p < k then bar_goto p WaitEmpty s else s
      | WaitEmpty \<Rightarrow> if leaveCount s \<noteq> bar_size s then s else bar_goto p SubEnter s
      | SubEnter \<Rightarrow> bar_goto p WaitAll (s\<lparr>enterCount := enterCount s - 1\<rparr>)
      | WaitAll \<Rightarrow> if enterCount s \<noteq> 0 then s else bar_goto p SubLeave s
      | SubLeave \<Rightarrow> bar_goto p TestLast (s\<lparr>leaveCount := leaveCount s - 1\<rparr>)
      | TestLast \<Rightarrow> if leaveCount s = 0 then bar_goto p ResetLeave s else bar_return p s
      | ResetLeave \<Rightarrow> bar_goto p ResetEnter (s\<lparr>leaveCount := bar_size s\<rparr>)
      | ResetEnter \<Rightarrow> bar_return p (s\<lparr>enterCount := bar_size s\<rparr>))"

definition bar_run :: "nat \<Rightarrow> nat list \<Rightarrow> barrier \<Rightarrow> barrier" where
  "bar_run k ps s = fold (bar_step k) ps s"

subsection \<open>The first use\<close>

definition left_bar :: "barrier \<Rightarrow> nat \<Rightarrow> bool" where
  "left_bar s p \<longleftrightarrow> bar_round s p > 0 \<or> bar_pc s p \<in> {TestLast, ResetLeave, ResetEnter}"

definition passed :: "barrier \<Rightarrow> nat \<Rightarrow> bool" where
  "passed s p \<longleftrightarrow> left_bar s p \<or> bar_pc s p = SubLeave"

definition arrived :: "barrier \<Rightarrow> nat \<Rightarrow> bool" where
  "arrived s p \<longleftrightarrow> passed s p \<or> bar_pc s p = WaitAll"

definition once_ok :: "barrier \<Rightarrow> nat \<Rightarrow> bool" where
  "once_ok s p \<longleftrightarrow> bar_round s p = 0 \<or> bar_round s p = 1 \<and> bar_pc s p = Ready"

definition counting :: "nat \<Rightarrow> barrier \<Rightarrow> bool" where
  "counting n s \<longleftrightarrow>
     leaveCount s = int n - int (card {p. p < n \<and> left_bar s p}) \<and> enterCount s = int n - int (card {p. p < n \<and> arrived s p}) \<and>
     ((\<exists>p < n. passed s p) \<longrightarrow> (\<forall>p < n. arrived s p)) \<and> (\<forall>p < n. bar_pc s p \<notin> {ResetLeave, ResetEnter})"

definition bar_inv :: "nat \<Rightarrow> barrier \<Rightarrow> bool" where
  "bar_inv n s \<longleftrightarrow> bar_size s = int n \<and> (\<forall>p. once_ok s p) \<and> ((\<forall>p < n. left_bar s p) \<or> counting n s)"

lemma bar_init_inv: "bar_inv n (bar_init n)"
  by (simp add: bar_inv_def bar_init_def once_ok_def counting_def left_bar_def arrived_def passed_def)

lemma left_mono: "left_bar s q \<Longrightarrow> once_ok s p \<Longrightarrow> left_bar (bar_step 1 p s) q"
  by (cases "bar_pc s p") (auto simp: left_bar_def bar_step_def bar_goto_def bar_return_def once_ok_def)

lemma once_mono: "once_ok s q \<Longrightarrow> once_ok s p \<Longrightarrow> once_ok (bar_step 1 p s) q"
  by (cases "bar_pc s p") (auto simp: once_ok_def bar_step_def bar_goto_def bar_return_def)

lemma size_step [simp]: "bar_size (bar_step k p s) = bar_size s"
  by (simp add: bar_step_def bar_goto_def bar_return_def split: bar_pc.splits)

lemma card_all: "(\<forall>p < (n :: nat). P p) \<Longrightarrow> card {p. p < n \<and> P p} = n"
proof -
  assume "\<forall>p < n. P p"
  then have "{p. p < n \<and> P p} = {..<n}" by auto
  then show ?thesis by simp
qed

lemma card_all_iff: "card {p. p < (n :: nat) \<and> P p} = n \<longleftrightarrow> (\<forall>p < n. P p)"
proof
  assume c: "card {p. p < n \<and> P p} = n"
  have "{p. p < n \<and> P p} = {..<n}" by (rule card_subset_eq) (use c in auto)
  then show "\<forall>p < n. P p" by auto
qed (rule card_all)

lemma card_insert_one:
  fixes n :: nat
  assumes "p < n" "\<not> P p" "\<And>q. Q q \<longleftrightarrow> P q \<or> q = p"
  shows "card {q. q < n \<and> Q q} = card {q. q < n \<and> P q} + 1"
proof -
  have "{q. q < n \<and> Q q} = insert p {q. q < n \<and> P q}" using assms by auto
  moreover have "finite {q. q < n \<and> P q}" by (rule finite_subset [OF _ finite_lessThan [of n]]) auto
  ultimately show ?thesis using assms(2) by simp
qed

lemma bar_step_inv:
  assumes inv: "bar_inv n s" and p: "p < n"
  shows "bar_inv n (bar_step 1 p s)"
proof -
  let ?s = "bar_step 1 p s"
  have once: "once_ok s q" for q using inv by (simp add: bar_inv_def)
  have o: "\<forall>q. once_ok ?s q" using once once_mono by blast
  have "(\<forall>q < n. left_bar ?s q) \<or> counting n ?s"
  proof (cases "\<forall>q < n. left_bar s q")
    case True
    then show ?thesis using left_mono [OF _ once] by blast
  next
    case notall: False
    then have c: "counting n s" using inv by (auto simp: bar_inv_def)
    show ?thesis
    proof (cases "bar_pc s p")
      case Ready
      then have "left_bar ?s = left_bar s" "arrived ?s = arrived s" "passed ?s = passed s"
        "leaveCount ?s = leaveCount s" "enterCount ?s = enterCount s" "\<forall>q. bar_pc s q \<notin> {ResetLeave, ResetEnter} \<longrightarrow> bar_pc ?s q \<notin> {ResetLeave, ResetEnter}"
        using once [of p] by (auto simp: fun_eq_iff left_bar_def arrived_def passed_def bar_step_def bar_goto_def once_ok_def)
      then show ?thesis using c by (simp add: counting_def)
    next
      case WaitEmpty
      then have "left_bar ?s = left_bar s" "arrived ?s = arrived s" "passed ?s = passed s"
        "leaveCount ?s = leaveCount s" "enterCount ?s = enterCount s" "\<forall>q. bar_pc s q \<notin> {ResetLeave, ResetEnter} \<longrightarrow> bar_pc ?s q \<notin> {ResetLeave, ResetEnter}"
        using once [of p] by (auto simp: fun_eq_iff left_bar_def arrived_def passed_def bar_step_def bar_goto_def once_ok_def)
      then show ?thesis using c by (simp add: counting_def)
    next
      case SubEnter
      then have eq: "left_bar ?s = left_bar s" "passed ?s = passed s" "leaveCount ?s = leaveCount s" "enterCount ?s = enterCount s - 1"
        "\<And>q. arrived ?s q \<longleftrightarrow> arrived s q \<or> q = p" "\<forall>q. bar_pc s q \<notin> {ResetLeave, ResetEnter} \<longrightarrow> bar_pc ?s q \<notin> {ResetLeave, ResetEnter}"
        using once [of p] by (auto simp: fun_eq_iff left_bar_def arrived_def passed_def bar_step_def bar_goto_def once_ok_def)
      have "\<not> arrived s p" using SubEnter once [of p] by (auto simp: arrived_def passed_def left_bar_def once_ok_def)
      from card_insert_one [where P = "arrived s" and Q = "arrived ?s", OF p this eq(5)]
      have "card {q. q < n \<and> arrived ?s q} = card {q. q < n \<and> arrived s q} + 1" .
      then show ?thesis using c eq by (simp add: counting_def)
    next
      case WaitAll
      show ?thesis
      proof (cases "enterCount s = 0")
        case True
        then have "card {q. q < n \<and> arrived s q} = n" using c by (simp add: counting_def)
        then have all: "\<forall>q < n. arrived s q" by (simp add: card_all_iff)
        have eq: "left_bar ?s = left_bar s" "arrived ?s = arrived s" "leaveCount ?s = leaveCount s" "enterCount ?s = enterCount s"
          "\<forall>q. bar_pc s q \<notin> {ResetLeave, ResetEnter} \<longrightarrow> bar_pc ?s q \<notin> {ResetLeave, ResetEnter}"
          using WaitAll True once [of p]
          by (auto simp: fun_eq_iff left_bar_def arrived_def passed_def bar_step_def bar_goto_def once_ok_def)
        then show ?thesis using c all by (simp add: counting_def)
      next
        case False
        then have "?s = s" using WaitAll by (simp add: bar_step_def)
        then show ?thesis using c by simp
      qed
    next
      case SubLeave
      then have eq: "arrived ?s = arrived s" "leaveCount ?s = leaveCount s - 1" "enterCount ?s = enterCount s"
        "\<And>q. left_bar ?s q \<longleftrightarrow> left_bar s q \<or> q = p" "\<forall>q. bar_pc s q \<notin> {ResetLeave, ResetEnter} \<longrightarrow> bar_pc ?s q \<notin> {ResetLeave, ResetEnter}"
        "passed s p"
        using once [of p] by (auto simp: fun_eq_iff left_bar_def arrived_def passed_def bar_step_def bar_goto_def once_ok_def)
      have "\<not> left_bar s p" using SubLeave once [of p] by (auto simp: left_bar_def once_ok_def)
      from card_insert_one [where P = "left_bar s" and Q = "left_bar ?s", OF p this eq(4)]
      have "card {q. q < n \<and> left_bar ?s q} = card {q. q < n \<and> left_bar s q} + 1" .
      then show ?thesis using c eq p by (auto simp: counting_def)
    next
      case TestLast
      have "card {q. q < n \<and> left_bar s q} \<noteq> n" using notall by (simp add: card_all_iff)
      then have "leaveCount s \<noteq> 0" using c by (simp add: counting_def)
      then have "left_bar ?s = left_bar s" "arrived ?s = arrived s" "passed ?s = passed s"
        "leaveCount ?s = leaveCount s" "enterCount ?s = enterCount s" "\<forall>q. bar_pc s q \<notin> {ResetLeave, ResetEnter} \<longrightarrow> bar_pc ?s q \<notin> {ResetLeave, ResetEnter}"
        using TestLast by (auto simp: fun_eq_iff left_bar_def arrived_def passed_def bar_step_def bar_goto_def bar_return_def)
      then show ?thesis using c by (simp add: counting_def)
    qed (use c p in \<open>auto simp: counting_def\<close>)
  qed
  then show ?thesis using inv o by (simp add: bar_inv_def)
qed

lemma bar_run_inv: "set ps \<subseteq> {..<n} \<Longrightarrow> bar_inv n s \<Longrightarrow> bar_inv n (bar_run 1 ps s)"
  unfolding bar_run_def by (induction ps arbitrary: s) (auto simp del: One_nat_def simp: bar_step_inv)

text \<open>A thread that is not done can step, or waits for one that has not arrived, which can step.\<close>

lemma bar_moves:
  assumes inv: "bar_inv n s" and p: "p < n" "\<not> arrived s p"
  shows "bar_step 1 p s \<noteq> s"
proof -
  have c: "counting n s" using inv p by (auto simp: bar_inv_def arrived_def passed_def)
  then have "\<forall>q < n. \<not> passed s q" using p by (auto simp: counting_def)
  then have "{q. q < n \<and> left_bar s q} = {}" by (auto simp: passed_def)
  then have "leaveCount s = bar_size s" using c inv by (simp add: counting_def bar_inv_def)
  then have "bar_pc (bar_step 1 p s) p \<noteq> bar_pc s p"
    using p(2) by (cases "bar_pc s p") (auto simp: arrived_def passed_def left_bar_def bar_step_def bar_goto_def)
  then show ?thesis by metis
qed

text \<open>
  the barrier works once. However the threads are scheduled, when each of the \<open>n\<close> threads
  enters a fresh barrier once, no thread gets past the barrier before all have entered it, and
  the threads never block each other: as long as some thread has not returned, some thread can step.
\<close>

theorem barrier_first_use:
  assumes "set ps \<subseteq> {..<n}" "s = bar_run 1 ps (bar_init n)"
  shows "(\<forall>p < n. \<forall>q < n. passed s p \<longrightarrow> arrived s q) \<and>
    ((\<exists>p < n. bar_round s p = 0) \<longrightarrow> (\<exists>p < n. bar_step 1 p s \<noteq> s))"
proof (intro conjI impI allI)
  have inv: "bar_inv n s" using bar_run_inv [OF assms(1) bar_init_inv] assms(2) by simp
  fix p q
  show "p < n \<Longrightarrow> q < n \<Longrightarrow> passed s p \<Longrightarrow> arrived s q"
    using inv by (auto simp: bar_inv_def counting_def arrived_def passed_def)
  assume "\<exists>p < n. bar_round s p = 0"
  then obtain p where p: "p < n" "bar_round s p = 0" by blast
  show "\<exists>p < n. bar_step 1 p s \<noteq> s"
  proof (cases "\<forall>q < n. arrived s q")
    case False
    then show ?thesis using bar_moves [OF inv] by blast
  next
    case True
    have "bar_pc (bar_step 1 p s) p \<noteq> bar_pc s p"
    proof (cases "bar_pc s p = WaitAll")
      case w: True
      then have "counting n s" using inv p by (auto simp: bar_inv_def left_bar_def)
      then have "enterCount s = 0" using True by (simp add: counting_def card_all)
      then show ?thesis using w by (simp add: bar_step_def bar_goto_def)
    next
      case False
      have "arrived s p" using True p by blast
      then show ?thesis using False p(2)
        by (cases "bar_pc s p") (auto simp: arrived_def passed_def left_bar_def bar_step_def bar_goto_def bar_return_def)
    qed
    then show ?thesis using p(1) by metis
  qed
qed

theorem barrier_first_use_witness:
  "(let s = bar_run 1 [0, 0, 0, 1, 1, 1, 1, 1] (bar_init 2) in passed s 1 \<and> arrived s 0 \<and> (\<exists>p < 2. bar_step 1 p s \<noteq> s))"
proof -
  have "bar_round (bar_run 1 [0, 0, 0, 1, 1, 1, 1, 1] (bar_init 2)) 0 = 0" "passed (bar_run 1 [0, 0, 0, 1, 1, 1, 1, 1] (bar_init 2)) 1"
    by (simp_all add: bar_run_def bar_step_def bar_goto_def bar_init_def passed_def left_bar_def)
  then show ?thesis
    using barrier_first_use [of "[0, 0, 0, 1, 1, 1, 1, 1]" 2 "bar_run 1 [0, 0, 0, 1, 1, 1, 1, 1] (bar_init 2)"]
    unfolding Let_def by (auto simp: numeral_2_eq_2)
qed

text \<open>
  C36: the barrier cannot be used again without care. The last thread to leave sets \<open>leaveCount\<close>
  before \<open>enterCount\<close>; a thread that enters again in between has its decrement overwritten. There
  is a schedule of two threads that enter twice after which both wait in the second use for ever.
\<close>

theorem barrier_reuse_deadlocks:
  "\<exists>ps. set ps \<subseteq> {0, 1} \<and>
    (let s = bar_run 2 ps (bar_init 2)
     in bar_pc s 0 = WaitAll \<and> bar_pc s 1 = WaitAll \<and> bar_round s 0 = 1 \<and> bar_round s 1 = 1 \<and>
       bar_step 2 0 s = s \<and> bar_step 2 1 s = s)"
proof -
  define ps where "ps = [0, 0, 0, 1, 1, 1, 0, 1, 0, 1, 1, 1, 0, 0, 0, 0, 1, 1, 1, 1 :: nat]"
  have "let s = bar_run 2 ps (bar_init 2) in
      bar_pc s 0 = WaitAll \<and> bar_pc s 1 = WaitAll \<and> bar_round s 0 = 1 \<and> bar_round s 1 = 1 \<and> bar_step 2 0 s = s \<and> bar_step 2 1 s = s"
    by (simp add: ps_def bar_run_def bar_step_def bar_goto_def bar_return_def bar_init_def Let_def)
  moreover have "set ps \<subseteq> {0, 1}" by (simp add: ps_def)
  ultimately show ?thesis by (intro exI [of _ ps] conjI)
qed

end
