(* ===== verification/CtrCPlus.thy ===== *)
theory CtrCPlus
  imports EbbMgrProps
begin

text \<open>
  The C++ counter Ebb (\<open>misc/CtrCPlus.C\<close>): one representative for all cores, behind the shared C++
  root. A virtual call goes through the virtual table of the representative; the functions are
  numbered as there, after \<open>func0\<close> of \<open>CPlusEBB\<close>: \<open>init\<close>, \<open>inc\<close>, \<open>dec\<close> and \<open>val\<close> are 1 to 4. The test at
  the end of the file is modelled too.
\<close>

definition FT_CtrCPlus :: ftname where "FT_CtrCPlus = FT_other 0"

record cplus_state = ebbmgr_state +
  cplus_v :: "u64 \<Rightarrow> u64"

definition sizeof_CtrCPlus :: u64 where "sizeof_CtrCPlus = 8 + 8"
definition sizeof_SharedRoot :: u64 where "sizeof_SharedRoot = 8 + 8"

definition CtrCPlus_init :: "u64 \<Rightarrow> 'z cplus_state_scheme \<Rightarrow> ebbrc \<times> 'z cplus_state_scheme" where
  "CtrCPlus_init this s = (EBBRC_OK, s\<lparr>cplus_v := (cplus_v s)(this := 0)\<rparr>)"

definition CtrCPlus_inc :: "u64 \<Rightarrow> 'z cplus_state_scheme \<Rightarrow> ebbrc \<times> 'z cplus_state_scheme" where
  "CtrCPlus_inc this s = (EBBRC_OK, s\<lparr>cplus_v := (cplus_v s)(this := cplus_v s this + 1)\<rparr>)"

definition CtrCPlus_dec :: "u64 \<Rightarrow> 'z cplus_state_scheme \<Rightarrow> ebbrc \<times> 'z cplus_state_scheme" where
  "CtrCPlus_dec this s = (EBBRC_OK, s\<lparr>cplus_v := (cplus_v s)(this := cplus_v s this - 1)\<rparr>)"

definition CtrCPlus_val :: "u64 \<Rightarrow> 'z cplus_state_scheme \<Rightarrow> ebbrc \<times> u64" where
  "CtrCPlus_val this s = (EBBRC_OK, cplus_v s this)"

text \<open>\<open>new\<close>: memory from \<open>operator new\<close>, then the constructor sets the virtual table.\<close>

definition CtrCPlus_new ::
    "'z cplus_state_scheme malloc \<Rightarrow> nat \<Rightarrow> 'z cplus_state_scheme \<Rightarrow> (u64 \<times> 'z cplus_state_scheme) res" where
  "CtrCPlus_new malloc myid s =
     rbind (malloc myid sizeof_CtrCPlus s) (\<lambda>(rc, a, s).
     rbind (lrt_assert (EBBRC_SUCCESS rc)) (\<lambda>_.
     if a = 0 then Inl NullDeref else Inr (a, s\<lparr>repft := (repft s)(a := FT_CtrCPlus)\<rparr>)))"

definition CtrCPlus_Create ::
    "'z cplus_state_scheme callmf \<Rightarrow> 'z cplus_state_scheme malloc \<Rightarrow> nat \<Rightarrow> 'z cplus_state_scheme \<Rightarrow>
     (ebbrc \<times> u64 \<times> 'z cplus_state_scheme) res" where
  "CtrCPlus_Create callmf malloc myid s =
     rbind (CtrCPlus_new malloc myid s) (\<lambda>(rep, s).
     rbind (CPlusEBBRootShared_new malloc myid sizeof_SharedRoot s) (\<lambda>(root, s).
     if root = 0 then Inl NullDeref
     else
       let s = s\<lparr>root_ft := (root_ft s)(root := CPlusEBBRootShared_vtbl)\<rparr>;
           (_, s) = CtrCPlus_init rep s;
           (_, s) = CPlusEBBRootShared_init root rep s
       in rbind (EBBAllocPrimId callmf myid s) (\<lambda>(rc, i, s).
          rbind (lrt_assert (EBBRC_SUCCESS rc)) (\<lambda>_.
          rbind (CPlusEBBBind callmf myid i root s) (\<lambda>(rc, s).
          rbind (lrt_assert (EBBRC_SUCCESS rc)) (\<lambda>_.
          Inr (EBBRC_OK, i, s)))))))"

text \<open>\<open>CPLUS_EBBCALL(id, method)\<close>; \<open>val\<close> gives its result in the second component.\<close>

definition cplus_call ::
    "'z cplus_state_scheme callmf \<Rightarrow> nat \<Rightarrow> u64 \<Rightarrow> nat \<Rightarrow> 'z cplus_state_scheme \<Rightarrow> (ebbrc \<times> u64 \<times> 'z cplus_state_scheme) res" where
  "cplus_call callmf myid i n s =
     rbind (EBBCALL callmf myid i n s) (\<lambda>(c, s).
     case c of
       Failed rc \<Rightarrow> Inr (rc, 0, s)
     | Called f this \<Rightarrow>
         if f = Method FT_CtrCPlus 1 then (case CtrCPlus_init this s of (rc, s) \<Rightarrow> Inr (rc, 0, s))
         else if f = Method FT_CtrCPlus 2 then (case CtrCPlus_inc this s of (rc, s) \<Rightarrow> Inr (rc, 0, s))
         else if f = Method FT_CtrCPlus 3 then (case CtrCPlus_dec this s of (rc, s) \<Rightarrow> Inr (rc, 0, s))
         else if f = Method FT_CtrCPlus 4 then (case CtrCPlus_val this s of (rc, v) \<Rightarrow> Inr (rc, v, s))
         else Inl NullDeref)"

text \<open>The results of \<open>inc\<close> and \<open>val\<close> in the test are not looked at; \<open>res\<close> is.\<close>

definition test_cplus_counter ::
    "'z cplus_state_scheme callmf \<Rightarrow> 'z cplus_state_scheme malloc \<Rightarrow> nat \<Rightarrow> 'z cplus_state_scheme \<Rightarrow> 'z cplus_state_scheme res" where
  "test_cplus_counter callmf malloc myid s =
     rbind (CtrCPlus_Create callmf malloc myid s) (\<lambda>(_, ctr, s).
     rbind (cplus_call callmf myid ctr 2 s) (\<lambda>(_, _, s).
     rbind (cplus_call callmf myid ctr 2 s) (\<lambda>(_, _, s).
     rbind (cplus_call callmf myid ctr 2 s) (\<lambda>(_, _, s).
     rbind (cplus_call callmf myid ctr 4 s) (\<lambda>(_, res, s).
     rbind (lrt_assert (res = 3)) (\<lambda>_.
     rbind (cplus_call callmf myid ctr 2 s) (\<lambda>(_, _, s).
     rbind (cplus_call callmf myid ctr 4 s) (\<lambda>(_, res, s).
     rbind (lrt_assert (res = 4)) (\<lambda>_. Inr s)))))))))"

subsection \<open>Through the Ebb manager\<close>

text \<open>
  The Ebb manager is id number \<open>e\<close> and its representative on core \<open>p\<close> is \<open>r\<close>, an object outside the
  free memory.
\<close>

definition ebbmgr_on :: "nat \<Rightarrow> nat \<Rightarrow> u64 \<Rightarrow> 'z ebbmgr_state_scheme \<Rightarrow> bool" where
  "ebbmgr_on e p r s \<longleftrightarrow> e < num_ids \<and> theEBBMgrPrimId s = id_of (TransMem s) e \<and> EBBId_DREF s p (theEBBMgrPrimId s) = r \<and>
     \<not> is_ltrans_addr s (r - 8) \<and> r \<notin> mem_avail s \<and> repft s r = FT_EBBMgrPrim"

lemma ebbmgr_on_call: "ebbmgr_on e p r s \<Longrightarrow> EBBCALL callmf p (theEBBMgrPrimId s) n s = Inr (Called (Method FT_EBBMgrPrim n) r, s)"
  unfolding ebbmgr_on_def by (elim conjE, rule EBBCALL_hit) (assumption, simp_all add: rep_ft_def)

lemma ebbmgr_on_cong:
  assumes "ebbmgr_on e p r s" "theEBBMgrPrimId s' = theEBBMgrPrimId s" "TransMem s' = TransMem s"
    "ltab s' (local_entry s p (id_of (TransMem s) e)) = ltab s (local_entry s p (id_of (TransMem s) e))"
    "mem_avail s' \<subseteq> mem_avail s" "repft s' r = repft s r"
  shows "ebbmgr_on e p r s'"
  using assms by (auto simp: ebbmgr_on_def EBBId_DREF_def EBBIdToLTrans_def is_ltrans_addr_def)

text \<open>An id that is allocated and bound through the manager to a shared C++ root.\<close>

lemma cplus_bound:
  fixes s :: "'z cplus_state_scheme"
  assumes m: "ebbmgr_on e p r s" and tm: "trans_mem_fits (TransMem s)" "numlpics s \<le> LRT_PIC_MAX_PICS" "p < numlpics s"
    and j: "j < myNumGTrans" "\<not> allocated s (p * myNumGTrans + j)" and e: "allocated s e"
    and a: "root_ft s root = CPlusEBBRootShared_vtbl" "theRep s root = a" "\<not> is_ltrans_addr s (a - 8)" "repft s a = ft" "ft \<noteq> EBBDefFT"
  shows "\<exists>k s1 s2. EBBAllocPrimId callmf p s = Inr (EBBRC_OK, id_of (TransMem s) k, s1) \<and>
    CPlusEBBBind callmf p (id_of (TransMem s) k) root s1 = Inr (EBBRC_OK, s2) \<and> k < num_ids \<and> TransMem s2 = TransMem s \<and>
    (\<forall>n < EBB_TRANS_MAX_FUNCS. \<exists>s3. EBBCALL (miss_functions callcr malloc other) p (id_of (TransMem s) k) n s2 = Inr (Called (Method ft n) a, s3) \<and>
      TransMem s3 = TransMem s \<and> EBBId_DREF s3 p (id_of (TransMem s) k) = a \<and> rep_ft s3 a = ft \<and> cplus_v s3 = cplus_v s)"
proof -
  have p: "p < LRT_PIC_MAX_PICS" using tm by simp
  obtain i where i: "i < myNumGTrans" "\<not> allocated s (p * myNumGTrans + i)"
    "TransEBBIdAlloc p s = (id_of (TransMem s) (p * myNumGTrans + i),
      upd_gt (entry_at (TransMem s) (p * myNumGTrans + i)) (\<lambda>g. g\<lparr>free := ALLOCATED\<rparr>) s)"
    using TransEBBIdAlloc_some [OF j] .
  define k where "k = p * myNumGTrans + i"
  have k: "k < num_ids" unfolding k_def by (rule portion_in_range [OF p i(1)])
  have ke: "k \<noteq> e" using i(2) e by (auto simp: k_def)
  have en: "e < num_ids" using m by (simp add: ebbmgr_on_def)
  define s1 where "s1 = upd_gt (entry_at (TransMem s) k) (\<lambda>g. g\<lparr>free := ALLOCATED\<rparr>) s"
  have s1: "TransMem s1 = TransMem s" "ltab s1 = ltab s" "numlpics s1 = numlpics s" "theEBBMgrPrimId s1 = theEBBMgrPrimId s"
    "mem_avail s1 = mem_avail s" "repft s1 = repft s" "root_ft s1 = root_ft s" "theRep s1 = theRep s" "cplus_v s1 = cplus_v s"
    by (simp_all add: s1_def upd_gt_def mem_avail_def arena_def mem_rep_def)
  have alloc: "EBBAllocPrimId callmf p s = Inr (EBBRC_OK, id_of (TransMem s) k, s1)"
    using i(3) by (simp add: EBBAllocPrimId_def ebbmgr_on_call [OF m] AllocId_def k_def s1_def)
  have m1: "ebbmgr_on e p r s1" by (rule ebbmgr_on_cong [OF m]) (simp_all add: s1)
  let ?g = "\<lambda>g. g\<lparr>mf := CPlusEBBMissFunc_fp, arg := root\<rparr>"
  define t where "t = upd_gt (entry_at (TransMem s1) k) ?g s1"
  define s2 where "s2 = invalidated (id_of (TransMem t) k) {..<numlpics t} t"
  have t: "TransMem t = TransMem s" "numlpics t = numlpics s" "repft t = repft s" "root_ft t = root_ft s" "theRep t = theRep s"
    "cplus_v t = cplus_v s"
    by (simp_all add: t_def upd_gt_def s1)
  have s2: "TransMem s2 = TransMem s" "repft s2 = repft s" "root_ft s2 = root_ft s" "theRep s2 = theRep s" "cplus_v s2 = cplus_v s"
    by (simp_all add: s2_def t invalidated_def)
  have bind: "CPlusEBBBind callmf p (id_of (TransMem s) k) root s1 = Inr (EBBRC_OK, s2)"
    using TransEBBIdBind_eq [of s1 p k CPlusEBBMissFunc_fp root] tm k
    by (simp add: CPlusEBBBind_def EBBBindPrimId_def ebbmgr_on_call [OF m1, unfolded s1(4)] BindId_def s1 s2_def t_def t)
  have unc: "uncached s2 p k"
    using ltab_invalidated [of t "numlpics t" p k k] tm p k by (simp add: uncached_def s2_def t)
  let ?lt = "local_entry s2 p (id_of (TransMem s2) k)"
  define s3 where "s3 = EBBCacheObj p ?lt a s2"
  have rep: "rep_ft s2 a = ft" using a(3,4) by (simp add: rep_ft_def is_ltrans_addr_def s2)
  have rep3: "rep_ft s3 a = ft" using rep by (simp add: s3_def)
  have v3: "cplus_v s3 = cplus_v s" by (simp add: s3_def EBBCacheObj_def trans_mark_core_used_def upd_gt_def upd_lt_def Let_def s2)
  have tm3: "TransMem s3 = TransMem s" by (simp add: s3_def s2)
  have dref: "EBBId_DREF s3 p (id_of (TransMem s) k) = a"
    by (simp add: EBBId_DREF_def EBBIdToLTrans_def s3_def s2)
  have g: "mf (gtab s2 (entry_at (TransMem s2) k)) = CPlusEBBMissFunc_fp" "arg (gtab s2 (entry_at (TransMem s2) k)) = root"
    by (simp_all add: s2_def t_def s1)
  have call: "EBBCALL (miss_functions callcr malloc other) p (id_of (TransMem s) k) n s2 = Inr (Called (Method ft n) a, s3)"
    if n: "n < EBB_TRANS_MAX_FUNCS" for n
    using EBBCALL_miss [of s2 p k n "miss_functions callcr malloc other"] n tm(1) p k unc g a rep3
    by (simp add: s2 miss_functions_def CPlusEBBMissFunc_def CPlusEBBRootShared_handleMiss_def ft_lookup_def Let_def s3_def)
  show ?thesis using alloc bind k s2(1) call tm3 dref rep3 v3 by blast
qed

lemma cplus_calls:
  assumes "EBBId_DREF s p i = a" "rep_ft s a = FT_CtrCPlus"
  shows "cplus_call callmf p i 2 s = Inr (EBBRC_OK, 0, s\<lparr>cplus_v := (cplus_v s)(a := cplus_v s a + 1)\<rparr>)"
    "cplus_call callmf p i 4 s = Inr (EBBRC_OK, cplus_v s a, s)"
  using EBBCALL_hit [OF assms, of callmf] by (simp_all add: cplus_call_def CtrCPlus_inc_def CtrCPlus_val_def FT_CtrCPlus_def)


text \<open>The machine of the Ebb manager's example, with the manager behind id 2 and cached on core 0.\<close>

definition demo_cplus :: cplus_state where
  "demo_cplus = ebbmgr_state.extend (demo_ebbmgr
      \<lparr>theEBBMgrPrimId := id_of 0x10000 2,
       gtab := (gtab demo_up)(entry_at 0x10000 2 := gtrans_zero\<lparr>free := ALLOCATED\<rparr>),
       ltab := (ltab demo_up)(lrt_trans_id2lt 0x10000 0 (id_of 0x10000 2) := \<lparr>obj = 0x40, ftable = EBBDefFT\<rparr>),
       repft := (\<lambda>a. if a = 0x40 then FT_EBBMgrPrim else FT_MemMgrPrim)\<rparr>)
     \<lparr>cplus_v = (\<lambda>_. 0)\<rparr>"

lemma demo_cplus_sel:
  "TransMem demo_cplus = 0x10000" "numlpics demo_cplus = 2" "theEBBMgrPrimId demo_cplus = id_of 0x10000 2"
  "gtab demo_cplus = (gtab demo_up)(entry_at 0x10000 2 := gtrans_zero\<lparr>free := ALLOCATED\<rparr>)"
  "ltab demo_cplus = (ltab demo_up)(lrt_trans_id2lt 0x10000 0 (id_of 0x10000 2) := \<lparr>obj = 0x40, ftable = EBBDefFT\<rparr>)"
  "repft demo_cplus = (\<lambda>a. if a = 0x40 then FT_EBBMgrPrim else FT_MemMgrPrim)" "bootMem demo_cplus = demo_boot"
  "stupid_rep demo_cplus = stupid_rep demo_ebbmgr" "theEBBMemMgrPrimId demo_cplus = id_of 0x10000 0"
  by (simp_all add: demo_cplus_def ebbmgr_state.defs)

lemma demo_cplus_funds: "mem_funds 0 0 32 demo_cplus"
proof -
  have f: "mem_funds 0 0 72 demo_ebbmgr" by (rule demo_up_funds) simp
  have fit: "trans_mem_fits 0x10000" using demo_trans_fits by simp
  have "lrt_trans_id2lt 0x10000 0 (id_of 0x10000 2) \<noteq> lrt_trans_id2lt 0x10000 0 (id_of 0x10000 0)"
    using local_entry_inj [OF fit, of 0 0 2 0] by (auto simp: trans_size_values)
  then have "mem_funds 0 0 72 demo_cplus"
    using f demo_boot_mem_ok_cong [OF demo_cplus_sel(7,1)] by (simp add: mem_funds_def mem_rep_def demo_cplus_sel Let_def demo_boot_nth)
  then show ?thesis by (rule mem_funds_mono) simp
qed

lemma demo_cplus_on: "ebbmgr_on 2 0 0x40 demo_cplus"
proof -
  have "unat a \<ge> 4294967296" if "unat a \<in> arena demo_cplus q" "q < LRT_PIC_MAX_PICS" for a :: u64 and q
  proof -
    have "arena demo_cplus q = arena demo_mem q" by (simp add: arena_def demo_cplus_sel)
    then show ?thesis using that demo_arena [of q] by (auto simp: trans_size_values split: if_splits)
  qed
  from this [of "0x40"] have "0x40 \<notin> mem_avail demo_cplus" by (auto simp: mem_avail_def)
  then show ?thesis
    by (simp add: ebbmgr_on_def demo_cplus_sel EBBId_DREF_def EBBIdToLTrans_def is_ltrans_addr_def trans_size_values TransMem_LMem_def)
qed


end
