(* ===== verification/NetIo.thy ===== *)
theory NetIo
  imports Prelude
begin

text \<open>
  The socket functions of the hosted runtime (\<open>lrt/ulnx/io.c\<close>) that move a whole buffer with calls
  that move part of it: \<open>net_writen\<close> and \<open>net_readn\<close>. The calls \<open>send\<close> and \<open>recv\<close> are parameters: the
  \<open>k\<close>-th call gets the bytes left (or their number) and the state of the channel, and answers with
  its result and the new state; \<open>eintr k\<close> tells whether a failure was an interruption.
\<close>

type_synonym 'c send = "nat \<Rightarrow> u8 list \<Rightarrow> 'c \<Rightarrow> int \<times> 'c"
type_synonym 'c recv = "nat \<Rightarrow> nat \<Rightarrow> 'c \<Rightarrow> int \<times> u8 list \<times> 'c"

text \<open>The loop of \<open>net_writen\<close> with the bytes from \<open>ptr\<close> on; \<open>n\<close> is the number at the start.\<close>

partial_function (option) writen_loop ::
    "'c send \<Rightarrow> (nat \<Rightarrow> bool) \<Rightarrow> int \<Rightarrow> nat \<Rightarrow> u8 list \<Rightarrow> 'c \<Rightarrow> (int \<times> 'c) option" where
  "writen_loop send eintr n k bs c =
     (if length bs > 0 then
        let (nwritten, c) = send k bs c
        in if nwritten \<le> 0 then
             if nwritten < 0 \<and> eintr k then writen_loop send eintr n (k + 1) bs c else Some (-1, c)
           else writen_loop send eintr n (k + 1) (drop (nat nwritten) bs) c
      else Some (n, c))"

definition net_writen :: "'c send \<Rightarrow> (nat \<Rightarrow> bool) \<Rightarrow> u8 list \<Rightarrow> 'c \<Rightarrow> (int \<times> 'c) option" where
  "net_writen send eintr bs c = writen_loop send eintr (int (length bs)) 0 bs c"

text \<open>The loop of \<open>net_readn\<close>: \<open>nleft\<close> bytes are missing, \<open>buf\<close> has been read.\<close>

partial_function (option) readn_loop ::
    "'c recv \<Rightarrow> (nat \<Rightarrow> bool) \<Rightarrow> nat \<Rightarrow> nat \<Rightarrow> nat \<Rightarrow> u8 list \<Rightarrow> 'c \<Rightarrow> (int \<times> u8 list \<times> 'c) option" where
  "readn_loop recv eintr n k nleft buf c =
     (if nleft > 0 then
        let (nread, bs, c) = recv k nleft c
        in if nread < 0 then
             if eintr k then readn_loop recv eintr n (k + 1) nleft buf c else Some (-1, buf, c)
           else if nread = 0 then Some (int n - int nleft, buf, c)
           else readn_loop recv eintr n (k + 1) (nleft - nat nread) (buf @ bs) c
      else Some (int n - int nleft, buf, c))"

definition net_readn :: "'c recv \<Rightarrow> (nat \<Rightarrow> bool) \<Rightarrow> nat \<Rightarrow> 'c \<Rightarrow> (int \<times> u8 list \<times> 'c) option" where
  "net_readn recv eintr n c = readn_loop recv eintr n 0 n [] c"

subsection \<open>A byte stream\<close>

text \<open>
  What a stream socket promises: a call moves between one byte and as many as were asked for, in
  order, or is interrupted; a stretch of interruptions ends; \<open>recv\<close> answers 0 at the end only.
\<close>

definition stream_send :: "'c send \<Rightarrow> ('c \<Rightarrow> u8 list) \<Rightarrow> (nat \<Rightarrow> bool) \<Rightarrow> bool" where
  "stream_send send chan eintr \<longleftrightarrow>
     (\<forall>k bs c. bs \<noteq> [] \<longrightarrow>
       (case send k bs c of (w, c') \<Rightarrow>
          if eintr k then w < 0 \<and> chan c' = chan c
          else 0 < w \<and> w \<le> int (length bs) \<and> chan c' = chan c @ take (nat w) bs)) \<and>
     (\<forall>k. \<exists>j \<ge> k. \<not> eintr j)"

definition stream_recv :: "'c recv \<Rightarrow> ('c \<Rightarrow> u8 list) \<Rightarrow> (nat \<Rightarrow> bool) \<Rightarrow> bool" where
  "stream_recv recv chan eintr \<longleftrightarrow>
     (\<forall>k n c. 0 < n \<longrightarrow>
       (case recv k n c of (r, bs, c') \<Rightarrow>
          if eintr k then r < 0 \<and> chan c' = chan c
          else r = int (length bs) \<and> length bs \<le> n \<and> chan c = bs @ chan c' \<and> (bs = [] \<longrightarrow> chan c = []))) \<and>
     (\<forall>k. \<exists>j \<ge> k. \<not> eintr j)"

text \<open>One call that is not interrupted happens after finitely many that are.\<close>

lemma until_not_interrupted:
  fixes eintr :: "nat \<Rightarrow> bool"
  assumes "\<forall>k. \<exists>j \<ge> k. \<not> eintr j" "\<And>k c. eintr k \<Longrightarrow> I c \<Longrightarrow> \<exists>c'. I c' \<and> P k c = P (k + 1) c'"
    and "\<And>k c. \<not> eintr k \<Longrightarrow> I c \<Longrightarrow> G (P k c)" "I c"
  shows "G (P k c)"
proof -
  obtain j where j: "k \<le> j" "\<not> eintr j" using assms(1) by blast
  then show ?thesis using assms(4)
  proof (induction "j - k" arbitrary: k c)
    case 0
    then show ?case using assms(3) by simp
  next
    case (Suc d)
    show ?case
    proof (cases "eintr k")
      case True
      then obtain c' where c': "I c'" "P k c = P (k + 1) c'" using assms(2) Suc.prems by blast
      have "k \<noteq> j" using True Suc.prems by blast
      then have "G (P (k + 1) c')" using Suc.hyps(1) [of "k + 1" c'] Suc.hyps(2) Suc.prems c'(1) by simp
      then show ?thesis using c'(2) by simp
    qed (use assms(3) Suc.prems in blast)
  qed
qed

lemma writen_loop_sends:
  assumes "stream_send send chan eintr"
  shows "\<exists>c'. writen_loop send eintr n k bs c = Some (n, c') \<and> chan c' = chan c @ bs"
proof (induction "length bs" arbitrary: k bs c rule: less_induct)
  case less
  show ?case
  proof (cases "bs = []")
    case True
    then show ?thesis by (simp add: writen_loop.simps)
  next
    case False
    let ?G = "\<lambda>r. \<exists>c'. r = Some (n, c') \<and> chan c' = chan c @ bs"
    note laws = assms [unfolded stream_send_def]
    note inf = conjunct2 [OF laws]
    have law: "case send k bs c of (w, c') \<Rightarrow> if eintr k then w < 0 \<and> chan c' = chan c
          else 0 < w \<and> w \<le> int (length bs) \<and> chan c' = chan c @ take (nat w) bs" for k c
      by (rule conjunct1 [OF laws, rule_format, OF False])
    have "?G (writen_loop send eintr n k bs c)"
    proof (rule until_not_interrupted [where eintr = eintr and I = "\<lambda>d. chan d = chan c" and P = "\<lambda>k c. writen_loop send eintr n k bs c"])
      show "\<forall>k. \<exists>j \<ge> k. \<not> eintr j" by (rule inf)
    next
      fix k d assume e: "eintr k" "chan d = chan c"
      obtain w d' where s: "send k bs d = (w, d')" by (cases "send k bs d")
      then have "w < 0" "chan d' = chan c" using law [of k d] e by simp_all
      then show "\<exists>c'. chan c' = chan c \<and> writen_loop send eintr n k bs d = writen_loop send eintr n (k + 1) bs c'"
        using s e(1) False by (intro exI [of _ d']) (simp add: writen_loop.simps [of send eintr n k])
    next
      fix k d assume e: "\<not> eintr k" "chan d = chan c"
      obtain w d' where s: "send k bs d = (w, d')" by (cases "send k bs d")
      then have w: "0 < w" "w \<le> int (length bs)" "chan d' = chan c @ take (nat w) bs" using law [of k d] e by simp_all
      have "length (drop (nat w) bs) < length bs" using w False by simp
      from less [OF this, of "k + 1" d'] w(3) show "?G (writen_loop send eintr n k bs d)"
        using s w(1) False by (simp add: writen_loop.simps [of send eintr n k])
    qed simp
    then show ?thesis .
  qed
qed

lemma readn_loop_reads:
  assumes "stream_recv recv chan eintr" "nleft \<le> n"
  shows "\<exists>c'. readn_loop recv eintr n k nleft buf c =
      Some (int n - int (nleft - length (take nleft (chan c))), buf @ take nleft (chan c), c') \<and> chan c' = drop nleft (chan c)"
  using assms(2)
proof (induction nleft arbitrary: k buf c rule: less_induct)
  case (less nleft)
  show ?case
  proof (cases "nleft = 0")
    case True
    then show ?thesis by (simp add: readn_loop.simps)
  next
    case False
    let ?G = "\<lambda>r. \<exists>c'. r = Some (int n - int (nleft - length (take nleft (chan c))), buf @ take nleft (chan c), c') \<and>
        chan c' = drop nleft (chan c)"
    note laws = assms(1) [unfolded stream_recv_def]
    note inf = conjunct2 [OF laws]
    have pos: "0 < nleft" using False by simp
    have law: "case recv k nleft c of (r, bs, c') \<Rightarrow> if eintr k then r < 0 \<and> chan c' = chan c
          else r = int (length bs) \<and> length bs \<le> nleft \<and> chan c = bs @ chan c' \<and> (bs = [] \<longrightarrow> chan c = [])" for k c
      by (rule conjunct1 [OF laws, rule_format, OF pos])
    have "?G (readn_loop recv eintr n k nleft buf c)"
    proof (rule until_not_interrupted [where eintr = eintr and I = "\<lambda>d. chan d = chan c" and P = "\<lambda>k c. readn_loop recv eintr n k nleft buf c"])
      show "\<forall>k. \<exists>j \<ge> k. \<not> eintr j" by (rule inf)
    next
      fix k d assume e: "eintr k" "chan d = chan c"
      obtain r bs d' where s: "recv k nleft d = (r, bs, d')" by (cases "recv k nleft d")
      then have "r < 0" "chan d' = chan c" using law [of k d] e by simp_all
      then show "\<exists>c'. chan c' = chan c \<and> readn_loop recv eintr n k nleft buf d = readn_loop recv eintr n (k + 1) nleft buf c'"
        using s e(1) False by (intro exI [of _ d']) (simp add: readn_loop.simps [of recv eintr n k])
    next
      fix k d assume e: "\<not> eintr k" "chan d = chan c"
      obtain r bs d' where s: "recv k nleft d = (r, bs, d')" by (cases "recv k nleft d")
      then have r: "r = int (length bs)" "length bs \<le> nleft" "chan c = bs @ chan d'" "bs = [] \<longrightarrow> chan c = []"
        using law [of k d] e by auto
      show "?G (readn_loop recv eintr n k nleft buf d)"
      proof (cases "bs = []")
        case True
        then have ch: "chan c = []" using r(4) True by blast
        moreover have "chan d' = []" using r(3) True ch by simp
        moreover have "r = 0" using r(1) True by simp
        ultimately show ?thesis using s False True by (simp add: readn_loop.simps [of recv eintr n k])
      next
        case bs: False
        have "nleft - length bs < nleft" "nleft - length bs \<le> n" using bs False less.prems by auto
        from less.IH [OF this, of "k + 1" "buf @ bs" d'] show ?thesis
          using s r bs False by (simp add: readn_loop.simps [of recv eintr n k])
      qed
    qed simp
    then show ?thesis .
  qed
qed

text \<open>
  C25: what is written arrives. Over a byte stream whose calls move any positive number of bytes at
  a time and are interrupted any finite number of times in a row, \<open>net_writen\<close> ends and returns the
  number of bytes, all of which are then in the stream behind what was there; \<open>net_readn\<close> of \<open>n\<close>
  bytes ends, returns the first \<open>n\<close> bytes of the stream (fewer only if there are fewer) and their
  number, and leaves the rest.
\<close>

theorem net_write_read:
  assumes "stream_send send chan eintr" "stream_recv recv chan eintr'"
  shows "\<exists>c1. net_writen send eintr bs c = Some (int (length bs), c1) \<and>
    (\<exists>c2. net_readn recv eintr' n c1 = Some (int (min n (length (chan c @ bs))), take n (chan c @ bs), c2) \<and>
      chan c2 = drop n (chan c @ bs))"
proof -
  obtain c1 where w: "net_writen send eintr bs c = Some (int (length bs), c1)" "chan c1 = chan c @ bs"
    using writen_loop_sends [OF assms(1)] unfolding net_writen_def by blast
  have "int n - int (n - length (take n (chan c1))) = int (min n (length (chan c1)))" by (simp add: min_def)
  then show ?thesis using w readn_loop_reads [OF assms(2), of n n 0 "[]" c1] unfolding net_readn_def by auto
qed

text \<open>A stream that moves at most two bytes at a time; every third call is interrupted.\<close>

definition demo_send :: "u8 list send" where
  "demo_send k bs c = (if k mod 3 = 0 then (-1, c) else (int (length (take 2 bs)), c @ take 2 bs))"

definition demo_recv :: "u8 list recv" where
  "demo_recv k n c = (if k mod 3 = 0 then (-1, [], c) else (int (length (take (min n 2) c)), take (min n 2) c, drop (min n 2) c))"

lemma demo_stream: "stream_send demo_send (\<lambda>c. c) (\<lambda>k. k mod 3 = 0)" "stream_recv demo_recv (\<lambda>c. c) (\<lambda>k. k mod 3 = 0)"
proof -
  have inf: "\<exists>j \<ge> k. \<not> j mod 3 = 0" for k :: nat
    by (intro exI [of _ "3 * k + 1"]) simp
  then show "stream_send demo_send (\<lambda>c. c) (\<lambda>k. k mod 3 = 0)"
    by (auto simp: stream_send_def demo_send_def min_def)
  show "stream_recv demo_recv (\<lambda>c. c) (\<lambda>k. k mod 3 = 0)"
    using inf by (auto simp: stream_recv_def demo_recv_def)
qed

theorem net_write_read_witness:
  "\<exists>c1 c2. net_writen demo_send (\<lambda>k. k mod 3 = 0) [1, 2, 3, 4, 5] [9] = Some (5, c1) \<and>
    net_readn demo_recv (\<lambda>k. k mod 3 = 0) 4 c1 = Some (4, [9, 1, 2, 3], c2) \<and> c2 = [4, 5]"
  using net_write_read [OF demo_stream, of "[1, 2, 3, 4, 5]" "[9]" 4] by simp

end
