(* ===== verification/ConsTst.thy ===== *)
theory ConsTst
  imports EventReg Console
begin

text \<open>
  The console Ebb of the application \<open>apps/contst/contst.c\<close>: a character stream with an input and an
  output buffer on top of the event manager and of \<open>LRTConsole.c\<close>. Its functions are \<open>putChar\<close>,
  \<open>getChar\<close>, \<open>inEvent\<close> and \<open>outEvent\<close>, numbers 0 to 3. The device is what \<open>read\<close> and \<open>write\<close> answer:
  \<open>None\<close> is an error, \<open>Some bs\<close> the bytes that are there to read, \<open>Some k\<close> the number of bytes it takes at
  most; \<open>dev_out\<close> collects the bytes it has taken.
\<close>

definition BUFSIZE :: nat where "BUFSIZE = 4096"

text \<open>The \<open>action\<close> is a function pointer: the only function used is \<open>UglyEcho\<close>.\<close>

datatype in_action = NoAction | Echo

record cons_rep =
  indev :: lrt_pic_src
  outdev :: lrt_pic_src
  inEV :: nat
  outEV :: nat
  inlen :: int
  outlen :: int
  outstart :: int
  in_c :: "u8 list"
  out_c :: "u8 list"
  actionId :: u64
  action :: in_action

record cons_state = event_state +
  consrep :: "u64 \<Rightarrow> cons_rep"
  dev_out :: "u8 list"

abbreviation upd_cons :: "u64 \<Rightarrow> (cons_rep \<Rightarrow> cons_rep) \<Rightarrow> 'z cons_state_scheme \<Rightarrow> 'z cons_state_scheme" where
  "upd_cons a f s \<equiv> s\<lparr>consrep := (consrep s)(a := f (consrep s a))\<rparr>"

subsection \<open>Functions of the Ebb\<close>

definition Console_putChar ::
    "'z cons_state_scheme callmf \<Rightarrow> nat \<Rightarrow> u64 \<Rightarrow> u8 \<Rightarrow> 'z cons_state_scheme \<Rightarrow> (ebbrc \<times> 'z cons_state_scheme) res" where
  "Console_putChar callmf myid self c s =
     (let rc = EBBRC_RETRY;
          end' = outstart (consrep s self) + outlen (consrep s self)
      in if end' < int BUFSIZE then
           rbind (if end' < 0 then Inl OutOfBounds else arr_set (out_c (consrep s self)) (nat end') c) (\<lambda>buf.
           let s = upd_cons self (\<lambda>r. r\<lparr>out_c := buf\<rparr>) s;
               s = upd_cons self (\<lambda>r. r\<lparr>outlen := outlen r + 1\<rparr>) s
           in rbind (if outlen (consrep s self) = 1
                     then em_call callmf myid 1 (\<lambda>_. Inr) (\<lambda>_ s. rbind (EventMgrPrim_eventEnable (outEV (consrep s self)) s) (\<lambda>(_, s). Inr s)) s
                     else Inr s) (\<lambda>s. Inr (EBBRC_OK, s)))
         else Inr (rc, s))"

definition Console_getChar :: "u64 \<Rightarrow> 'z cons_state_scheme \<Rightarrow> (ebbrc \<times> u8 option \<times> 'z cons_state_scheme) res" where
  "Console_getChar self s =
     (if inlen (consrep s self) > 0 then
        rbind (arr_get (in_c (consrep s self)) (nat (inlen (consrep s self) - 1))) (\<lambda>c.
        Inr (EBBRC_OK, Some c, upd_cons self (\<lambda>r. r\<lparr>inlen := inlen r - 1\<rparr>) s))
      else Inr (EBBRC_RETRY, None, s))"

text \<open>Bytes read into a buffer from an index on.\<close>

definition read_into :: "u8 list \<Rightarrow> nat \<Rightarrow> u8 list \<Rightarrow> u8 list" where
  "read_into buf i bs = take i buf @ bs @ drop (i + length bs) buf"

definition read_console :: "u8 list option \<Rightarrow> u64 \<Rightarrow> 'z cons_state_scheme \<Rightarrow> (ebbrc \<times> 'z cons_state_scheme) res" where
  "read_console rd self s =
     (if inlen (consrep s self) < int BUFSIZE then
        let len = nat (int BUFSIZE - inlen (consrep s self));
            got = (case rd of None \<Rightarrow> [] | Some bs \<Rightarrow> take len bs);
            (rc, n) = LRTConsoleRead (if rd = None then -1 else int (length got));
            s = upd_cons self (\<lambda>r. r\<lparr>in_c := read_into (in_c r) (nat (inlen r)) got\<rparr>) s
        in rbind (lrt_assert (EBBRC_SUCCESS rc)) (\<lambda>_.
           Inr (rc, if n > 0 then upd_cons self (\<lambda>r. r\<lparr>inlen := inlen r + n\<rparr>) s else s))
      else Inr (EBBRC_OK, s))"

definition Console_outEvent ::
    "'z cons_state_scheme callmf \<Rightarrow> nat option \<Rightarrow> nat \<Rightarrow> u64 \<Rightarrow> 'z cons_state_scheme \<Rightarrow> (ebbrc \<times> 'z cons_state_scheme) res" where
  "Console_outEvent callmf wr myid self s =
     (let r = consrep s self
      in if outlen r > 0 then
           let took = (case wr of None \<Rightarrow> [] | Some k \<Rightarrow> take (min k (nat (outlen r))) (drop (nat (outstart r)) (out_c r)));
               (rc, n) = LRTConsoleWrite (if wr = None then -1 else int (length took));
               s = s\<lparr>dev_out := dev_out s @ took\<rparr>
           in rbind (lrt_assert (EBBRC_SUCCESS rc)) (\<lambda>_.
              if n > 0 then
                let s = upd_cons self (\<lambda>r. r\<lparr>outlen := outlen r - n\<rparr>) s;
                    s = upd_cons self (\<lambda>r. r\<lparr>outstart := outstart r + n\<rparr>) s
                in if outlen (consrep s self) = 0 then
                     let s = upd_cons self (\<lambda>r. r\<lparr>outstart := 0\<rparr>) s
                     in rbind (em_call callmf myid 2 (\<lambda>_. Inr)
                          (\<lambda>_ s. rbind (EventMgrPrim_eventDisable (outEV (consrep s self)) s) (\<lambda>(_, s). Inr s)) s) (\<lambda>s.
                        Inr (EBBRC_OK, s))
                   else Inr (EBBRC_OK, s)
              else Inr (EBBRC_OK, s))
         else Inr (EBBRC_OK, s))"

text \<open>Calls of \<open>putChar\<close> and \<open>getChar\<close> through the id of a stream.\<close>

definition put_call ::
    "'z cons_state_scheme callmf \<Rightarrow> nat \<Rightarrow> u64 \<Rightarrow> u8 \<Rightarrow> 'z cons_state_scheme \<Rightarrow> (ebbrc \<times> 'z cons_state_scheme) res" where
  "put_call callmf myid i c s =
     rbind (EBBCALL callmf myid i 0 s) (\<lambda>(f, s).
     case f of
       Failed rc \<Rightarrow> Inr (rc, s)
     | Called m self \<Rightarrow> if m = Method FT_Console 0 then Console_putChar callmf myid self c s else Inl NullDeref)"

definition get_call ::
    "'z cons_state_scheme callmf \<Rightarrow> nat \<Rightarrow> u64 \<Rightarrow> 'z cons_state_scheme \<Rightarrow> (ebbrc \<times> u8 option \<times> 'z cons_state_scheme) res" where
  "get_call callmf myid i s =
     rbind (EBBCALL callmf myid i 1 s) (\<lambda>(f, s).
     case f of
       Failed rc \<Rightarrow> Inr (rc, None, s)
     | Called m self \<Rightarrow> if m = Method FT_Console 1 then Console_getChar self s else Inl NullDeref)"

fun UglyPrintStr ::
    "'z cons_state_scheme callmf \<Rightarrow> nat \<Rightarrow> u64 \<Rightarrow> u8 list \<Rightarrow> 'z cons_state_scheme \<Rightarrow> (ebbrc \<times> 'z cons_state_scheme) res" where
  "UglyPrintStr callmf myid i [] s = Inl OutOfBounds"
| "UglyPrintStr callmf myid i (c # buf) s =
     (if c = 0 then Inr (EBBRC_OK, s)
      else rbind (put_call callmf myid i c s) (\<lambda>(rc, s).
           rbind (lrt_assert (EBBRC_SUCCESS rc)) (\<lambda>_. UglyPrintStr callmf myid i buf s)))"

text \<open>The result of \<open>putChar\<close> in the echo is not looked at.\<close>

partial_function (option) UglyEcho_loop ::
    "'z cons_state_scheme callmf \<Rightarrow> nat \<Rightarrow> u64 \<Rightarrow> 'z cons_state_scheme \<Rightarrow> 'z cons_state_scheme res option" where
  "UglyEcho_loop callmf myid i s =
     (case get_call callmf myid i s of
        Inl e \<Rightarrow> Some (Inl e)
      | Inr (rc, c, s) \<Rightarrow>
          if rc = EBBRC_OK then
            (case put_call callmf myid i (the c) s of
               Inl e \<Rightarrow> Some (Inl e)
             | Inr (_, s) \<Rightarrow> UglyEcho_loop callmf myid i s)
          else Some (Inr s))"

definition UglyEcho :: "'z cons_state_scheme callmf \<Rightarrow> nat \<Rightarrow> u64 \<Rightarrow> 'z cons_state_scheme \<Rightarrow> (ebbrc \<times> 'z cons_state_scheme) res" where
  "UglyEcho callmf myid i s = rbind (returns (UglyEcho_loop callmf myid i s)) (\<lambda>s. Inr (EBBRC_OK, s))"

definition Console_inEvent ::
    "'z cons_state_scheme callmf \<Rightarrow> u8 list option \<Rightarrow> nat \<Rightarrow> u64 \<Rightarrow> 'z cons_state_scheme \<Rightarrow> (ebbrc \<times> 'z cons_state_scheme) res" where
  "Console_inEvent callmf rd myid self s =
     rbind (read_console rd self s) (\<lambda>(rc, s).
     case action (consrep s self) of
       NoAction \<Rightarrow> Inr (rc, s)
     | Echo \<Rightarrow> UglyEcho callmf myid (actionId (consrep s self)) s)"

text \<open>The code behind the function table that the event manager calls; \<open>rd\<close> and \<open>wr\<close> are the device.\<close>

definition cons_invoke ::
    "'z cons_state_scheme callmf \<Rightarrow> nat \<Rightarrow> u8 list option \<Rightarrow> nat option \<Rightarrow> 'z cons_state_scheme invoke" where
  "cons_invoke callmf myid rd wr f r s =
     (if f = Method FT_Console 2 then rbind (Console_inEvent callmf rd myid r s) (\<lambda>(_, s). Inr s)
      else if f = Method FT_Console 3 then rbind (Console_outEvent callmf wr myid r s) (\<lambda>(_, s). Inr s)
      else Inl NullDeref)"

subsection \<open>Creation\<close>

text \<open>The buffers of a new console hold what the memory held.\<close>

definition AllocAndBind ::
    "'z cons_state_scheme callmf \<Rightarrow> 'z cons_state_scheme malloc \<Rightarrow> nat \<Rightarrow> u64 \<Rightarrow> 'z cons_state_scheme \<Rightarrow>
     (ebbrc \<times> u64 \<times> 'z cons_state_scheme) res" where
  "AllocAndBind callmf malloc myid repRef s =
     rbind (CObjEBBRootSharedCreate malloc myid repRef s) (\<lambda>(rc, rootRef, s).
     rbind (lrt_assert (EBBRC_SUCCESS rc)) (\<lambda>_.
     rbind (EBBAllocPrimId callmf myid s) (\<lambda>(rc, i, s).
     rbind (lrt_assert (EBBRC_SUCCESS rc)) (\<lambda>_.
     rbind (CObjEBBBind callmf myid i rootRef s) (\<lambda>(rc, s).
     rbind (lrt_assert (EBBRC_SUCCESS rc)) (\<lambda>_.
     Inr (EBBRC_OK, i, s)))))))"

definition ConsoleSetFT :: "u64 \<Rightarrow> 'z cons_state_scheme \<Rightarrow> 'z cons_state_scheme" where
  "ConsoleSetFT a s = s\<lparr>repft := (repft s)(a := FT_Console)\<rparr>"

definition sizeof_Console :: u64 where "sizeof_Console = 10 * 8 + 2 * 4096"

text \<open>
  Calls of the event manager whose failure is an assertion: a number for an event is allocated and
  stored by \<open>put\<close>; function \<open>fn\<close> of the console \<open>i\<close> is registered for the event \<open>ev\<close>.
\<close>

definition cons_alloc_event ::
    "'z cons_state_scheme callmf \<Rightarrow> nat \<Rightarrow> (nat \<Rightarrow> 'z cons_state_scheme \<Rightarrow> 'z cons_state_scheme) \<Rightarrow> 'z cons_state_scheme \<Rightarrow>
     'z cons_state_scheme res" where
  "cons_alloc_event callmf myid put s =
     em_call callmf myid 4 (\<lambda>rc s. Inl AssertFail) (\<lambda>_ s.
       rbind (EventMgrPrim_allocEventNo s) (\<lambda>(rc, v, s).
       rbind (lrt_assert (EBBRC_SUCCESS rc)) (\<lambda>_.
       Inr (case v of None \<Rightarrow> s | Some e \<Rightarrow> put e s)))) s"

definition cons_register ::
    "'z cons_state_scheme callmf \<Rightarrow> (nat \<Rightarrow> nat \<Rightarrow> int) \<Rightarrow> nat \<Rightarrow> (cons_rep \<Rightarrow> nat) \<Rightarrow> u64 \<Rightarrow> u64 \<Rightarrow> u64 \<Rightarrow> lrt_pic_src \<Rightarrow>
     'z cons_state_scheme \<Rightarrow> 'z cons_state_scheme res" where
  "cons_register callmf dup2 myid ev repRef i fn src s =
     em_call callmf myid 0 (\<lambda>rc s. Inl AssertFail) (\<lambda>a s.
       rbind (EventMgrPrim_registerHandler dup2 myid a (ev (consrep s repRef)) i fn src s) (\<lambda>(rc, s).
       rbind (lrt_assert (EBBRC_SUCCESS rc)) (\<lambda>_. Inr s))) s"

definition ConsoleCreate ::
    "'z cons_state_scheme callmf \<Rightarrow> 'z cons_state_scheme malloc \<Rightarrow> (nat \<Rightarrow> nat \<Rightarrow> int) \<Rightarrow> nat \<Rightarrow> lrt_pic_src \<Rightarrow> lrt_pic_src \<Rightarrow>
     in_action \<Rightarrow> 'z cons_state_scheme \<Rightarrow> (ebbrc \<times> u64 \<times> 'z cons_state_scheme) res" where
  "ConsoleCreate callmf malloc dup2 myid in_src out_src act s =
     rbind (malloc myid sizeof_Console s) (\<lambda>(rc, repRef, s).
     rbind (lrt_assert (EBBRC_SUCCESS rc)) (\<lambda>_.
     if repRef = 0 then Inl NullDeref
     else
       let s = ConsoleSetFT repRef s;
           s = upd_cons repRef (\<lambda>r. r\<lparr>inlen := 0\<rparr>) s;
           s = upd_cons repRef (\<lambda>r. r\<lparr>outlen := 0\<rparr>) s;
           s = upd_cons repRef (\<lambda>r. r\<lparr>outstart := 0\<rparr>) s;
           s = upd_cons repRef (\<lambda>r. r\<lparr>indev := in_src\<rparr>) s;
           s = upd_cons repRef (\<lambda>r. r\<lparr>outdev := out_src\<rparr>) s
       in rbind (AllocAndBind callmf malloc myid repRef s) (\<lambda>(rc, i, s).
          rbind (lrt_assert (EBBRC_SUCCESS rc)) (\<lambda>_.
          let s = upd_cons repRef (\<lambda>r. r\<lparr>action := act\<rparr>) s;
              s = upd_cons repRef (\<lambda>r. r\<lparr>actionId := i\<rparr>) s
          in rbind (cons_alloc_event callmf myid (\<lambda>e. upd_cons repRef (\<lambda>r. r\<lparr>inEV := e\<rparr>)) s) (\<lambda>s.
             rbind (cons_register callmf dup2 myid inEV repRef i 2 in_src s) (\<lambda>s.
             rbind (cons_alloc_event callmf myid (\<lambda>e. upd_cons repRef (\<lambda>r. r\<lparr>outEV := e\<rparr>)) s) (\<lambda>s.
             rbind (cons_register callmf dup2 myid outEV repRef i 3 out_src s) (\<lambda>s.
             rbind (em_call callmf myid 1 (\<lambda>rc s. Inl AssertFail) (\<lambda>_ s.
               rbind (EventMgrPrim_eventEnable (inEV (consrep s repRef)) s) (\<lambda>(rc, s).
               rbind (lrt_assert (EBBRC_SUCCESS rc)) (\<lambda>_. Inr s))) s) (\<lambda>s.
             Inr (EBBRC_OK, i, s))))))))))"

text \<open>The greeting; \<open>con\<close> is what \<open>LRTConsoleInit\<close> returned.\<close>

definition greeting :: "u8 list" where
  "greeting = map (\<lambda>c. of_nat (of_char c)) (''ConsTst: Hello World!!!!'' @ [CHR 0x0A] @
     ''Will now continue to echo keystrokes from console input'' @ '' to output:'' @ [CHR 0x0A]) @ [0]"

definition ConsTst_start ::
    "'z cons_state_scheme callmf \<Rightarrow> 'z cons_state_scheme malloc \<Rightarrow> (nat \<Rightarrow> nat \<Rightarrow> int) \<Rightarrow> nat \<Rightarrow>
     ebbrc \<times> lrt_pic_src \<times> lrt_pic_src \<times> lrt_pic_src \<Rightarrow> 'z cons_state_scheme \<Rightarrow> (ebbrc \<times> 'z cons_state_scheme) res" where
  "ConsTst_start callmf malloc dup2 myid con s =
     (case con of (rc, in_src, out_src, _) \<Rightarrow>
        rbind (lrt_assert (EBBRC_SUCCESS rc)) (\<lambda>_.
        rbind (ConsoleCreate callmf malloc dup2 myid in_src out_src Echo s) (\<lambda>(rc, i, s).
        rbind (lrt_assert (EBBRC_SUCCESS rc)) (\<lambda>_.
        rbind (UglyPrintStr callmf myid i greeting s) (\<lambda>(_, s).
        Inr (EBBRC_OK, s))))))"

end
