(* ===== verification/ConsProps.thy ===== *)
theory ConsProps
  imports ConsTst
begin

text \<open>
  The console Ebb refines two sequences of bytes: the output is a queue of bounded room, the input
  a stack. Every operation is the operation of the specification and keeps the output event on
  exactly while bytes wait.
\<close>

subsection \<open>Specification\<close>

text \<open>\<open>a_used\<close>: room that bytes taken by the device still occupy.\<close>

record cons_spec =
  a_sent :: "u8 list"
  a_queue :: "u8 list"
  a_used :: nat
  a_held :: "u8 list"

datatype cons_op = Put u8 | Get | Read "u8 list" | Write nat

definition a_room :: "cons_spec \<Rightarrow> nat" where "a_room a = BUFSIZE - (a_used a + length (a_queue a))"

definition a_put :: "u8 \<Rightarrow> cons_spec \<Rightarrow> ebbrc \<times> cons_spec" where
  "a_put c a = (if a_room a > 0 then (EBBRC_OK, a\<lparr>a_queue := a_queue a @ [c]\<rparr>) else (EBBRC_RETRY, a))"

definition a_get :: "cons_spec \<Rightarrow> ebbrc \<times> u8 option \<times> cons_spec" where
  "a_get a = (if a_held a = [] then (EBBRC_RETRY, None, a)
     else (EBBRC_OK, Some (last (a_held a)), a\<lparr>a_held := butlast (a_held a)\<rparr>))"

text \<open>An input event: the bytes that fit are taken, then everything is echoed, the last byte first.\<close>

definition a_read :: "u8 list \<Rightarrow> cons_spec \<Rightarrow> cons_spec" where
  "a_read bs a =
     (let held = a_held a @ take (BUFSIZE - length (a_held a)) bs
      in a\<lparr>a_held := [], a_queue := a_queue a @ take (a_room a) (rev held)\<rparr>)"

definition a_write :: "nat \<Rightarrow> cons_spec \<Rightarrow> cons_spec" where
  "a_write k a = a\<lparr>a_sent := a_sent a @ take k (a_queue a), a_queue := drop k (a_queue a),
     a_used := (if length (a_queue a) \<le> k then 0 else a_used a + k)\<rparr>"

fun spec_op :: "cons_op \<Rightarrow> cons_spec \<Rightarrow> (ebbrc \<times> u8 option) \<times> cons_spec" where
  "spec_op (Put c) a = (case a_put c a of (rc, a) \<Rightarrow> ((rc, None), a))"
| "spec_op Get a = (case a_get a of (rc, c, a) \<Rightarrow> ((rc, c), a))"
| "spec_op (Read bs) a = ((EBBRC_OK, None), a_read bs a)"
| "spec_op (Write k) a = ((EBBRC_OK, None), a_write k a)"

fun spec_run :: "cons_op list \<Rightarrow> cons_spec \<Rightarrow> (ebbrc \<times> u8 option) list \<times> cons_spec" where
  "spec_run [] a = ([], a)"
| "spec_run (x # xs) a = (case spec_op x a of (r, a) \<Rightarrow> case spec_run xs a of (rs, a) \<Rightarrow> (r # rs, a))"

subsection \<open>The operations of the Ebb\<close>

fun cons_exec ::
    "'z cons_state_scheme callmf \<Rightarrow> nat \<Rightarrow> u64 \<Rightarrow> cons_op \<Rightarrow> 'z cons_state_scheme \<Rightarrow>
     ((ebbrc \<times> u8 option) \<times> 'z cons_state_scheme) res" where
  "cons_exec callmf p self (Put c) s = rbind (Console_putChar callmf p self c s) (\<lambda>(rc, s). Inr ((rc, None), s))"
| "cons_exec callmf p self Get s = rbind (Console_getChar self s) (\<lambda>(rc, c, s). Inr ((rc, c), s))"
| "cons_exec callmf p self (Read bs) s = rbind (Console_inEvent callmf (Some bs) p self s) (\<lambda>(rc, s). Inr ((rc, None), s))"
| "cons_exec callmf p self (Write k) s = rbind (Console_outEvent callmf (Some k) p self s) (\<lambda>(rc, s). Inr ((rc, None), s))"

fun cons_run ::
    "'z cons_state_scheme callmf \<Rightarrow> nat \<Rightarrow> u64 \<Rightarrow> cons_op list \<Rightarrow> 'z cons_state_scheme \<Rightarrow>
     ((ebbrc \<times> u8 option) list \<times> 'z cons_state_scheme) res" where
  "cons_run callmf p self [] s = Inr ([], s)"
| "cons_run callmf p self (x # xs) s =
     rbind (cons_exec callmf p self x s) (\<lambda>(r, s). rbind (cons_run callmf p self xs s) (\<lambda>(rs, s). Inr (r # rs, s)))"

definition pending :: "cons_rep \<Rightarrow> u8 list" where
  "pending r = take (nat (outlen r)) (drop (nat (outstart r)) (out_c r))"

definition rep_abs :: "u8 list \<Rightarrow> cons_rep \<Rightarrow> cons_spec" where
  "rep_abs sent r = \<lparr>a_sent = sent, a_queue = pending r, a_used = nat (outstart r), a_held = take (nat (inlen r)) (in_c r)\<rparr>"

definition cons_abs :: "u64 \<Rightarrow> 'z cons_state_scheme \<Rightarrow> cons_spec" where
  "cons_abs self s = rep_abs (dev_out s) (consrep s self)"

text \<open>
  A console in use on core \<open>p\<close>: its buffers are within their bounds, its output event has been
  allocated, and the core has representatives of the event manager and of the console.
\<close>

definition rep_ok :: "cons_rep \<Rightarrow> bool" where
  "rep_ok r \<longleftrightarrow> 0 \<le> inlen r \<and> inlen r \<le> int BUFSIZE \<and> 0 \<le> outlen r \<and> 0 \<le> outstart r \<and> outstart r + outlen r \<le> int BUFSIZE \<and>
     (outlen r = 0 \<longrightarrow> outstart r = 0) \<and> length (in_c r) = BUFSIZE \<and> length (out_c r) = BUFSIZE"

definition cons_ok :: "nat \<Rightarrow> u64 \<Rightarrow> u64 \<Rightarrow> 'z cons_state_scheme \<Rightarrow> bool" where
  "cons_ok p self i s \<longleftrightarrow> pic_inv s \<and> rep_ok (consrep s self) \<and>
     outEV (consrep s self) < NUM_VEC \<and> gvecs s ! outEV (consrep s self) \<noteq> H_NULL \<and>
     rep_ft s (EBBId_DREF s p (theEventMgrPrimId s)) = FT_EventMgrPrim \<and>
     EBBId_DREF s p i = self \<and> rep_ft s self = FT_Console \<and>
     action (consrep s self) = Echo \<and> actionId (consrep s self) = i \<and>
     (outlen (consrep s self) > 0 \<longleftrightarrow> outEV (consrep s self) + FIRST_VECFD \<in> fd_enabled (upic s))"

lemma cons_okD:
  assumes "cons_ok p self i s"
  shows "pic_inv s" "rep_ok (consrep s self)" "outEV (consrep s self) < NUM_VEC" "gvecs s ! outEV (consrep s self) \<noteq> H_NULL"
    "rep_ft s (EBBId_DREF s p (theEventMgrPrimId s)) = FT_EventMgrPrim" "EBBId_DREF s p i = self" "rep_ft s self = FT_Console"
    "action (consrep s self) = Echo" "actionId (consrep s self) = i"
    "outlen (consrep s self) > 0 \<longleftrightarrow> outEV (consrep s self) + FIRST_VECFD \<in> fd_enabled (upic s)"
  using assms unfolding cons_ok_def by blast+

text \<open>Changes of a state that the operations make: the record of the console, the device, the set of events.\<close>

definition moved :: "u64 \<Rightarrow> cons_rep \<Rightarrow> u8 list \<Rightarrow> unix_pic \<Rightarrow> u64 list \<Rightarrow> 'z cons_state_scheme \<Rightarrow> 'z cons_state_scheme" where
  "moved self r d u w s = s\<lparr>upic := u, wakeups := w, consrep := (consrep s)(self := r), dev_out := d\<rparr>"

lemma moved_sel [simp]:
  "upic (moved self r d u w s) = u" "consrep (moved self r d u w s) = (consrep s)(self := r)" "dev_out (moved self r d u w s) = d"
  "gvecs (moved self r d u w s) = gvecs s" "theEventMgrPrimId (moved self r d u w s) = theEventMgrPrimId s"
  "EBBId_DREF (moved self r d u w s) p j = EBBId_DREF s p j" "rep_ft (moved self r d u w s) a = rep_ft s a"
  by (simp_all add: moved_def EBBId_DREF_def EBBIdToLTrans_def rep_ft_def is_ltrans_addr_def)

lemma moved_inv: "pic_inv s \<Longrightarrow> upic_ok u \<Longrightarrow> pic_inv (moved self r d u w s)"
  by (simp add: moved_def pic_inv_def pic_ok_def pic_shape_def cores_ok_def vecs_agree_def)

lemma cons_ok_moved:
  assumes "cons_ok p self i s" "upic_ok u" "rep_ok r" "outEV r = outEV (consrep s self)" "action r = Echo" "actionId r = i"
    "outlen r > 0 \<longleftrightarrow> outEV r + FIRST_VECFD \<in> fd_enabled u"
  shows "cons_ok p self i (moved self r d u w s)"
  using cons_okD [OF assms(1)] assms(2-7) unfolding cons_ok_def by (simp add: moved_inv)

lemma upd_cons_moved:
  "s\<lparr>consrep := (consrep s)(self := r)\<rparr> = moved self r (dev_out s) (upic s) (wakeups s) s"
  "s\<lparr>dev_out := d, consrep := (consrep s)(self := r)\<rparr> = moved self r d (upic s) (wakeups s) s"
  by (simp_all add: moved_def)

lemma cons_upic_ok: "cons_ok p self i s \<Longrightarrow> upic_ok (upic s)"
  using cons_okD(1) by (auto simp: pic_inv_def pic_ok_def)

text \<open>Turning the output event on and off.\<close>

lemma em_call_hit:
  "rep_ft s (EBBId_DREF s p (theEventMgrPrimId s)) = FT_EventMgrPrim \<Longrightarrow>
   em_call callmf p n f k s = k (EBBId_DREF s p (theEventMgrPrimId s)) s"
  by (simp add: em_call_def EBBCALL_def ft_lookup_def Let_def)

lemma event_on_off:
  assumes "pic_inv s" "e < NUM_VEC" "gvecs s ! e \<noteq> H_NULL"
  shows "\<exists>u w. EventMgrPrim_eventEnable e s = Inr (EBBRC_OK, s\<lparr>upic := u, wakeups := w\<rparr>) \<and> upic_ok u \<and> e + FIRST_VECFD \<in> fd_enabled u"
    and "\<exists>u w. EventMgrPrim_eventDisable e s = Inr (EBBRC_OK, s\<lparr>upic := u, wakeups := w\<rparr>) \<and> upic_ok u \<and> e + FIRST_VECFD \<notin> fd_enabled u"
proof -
  let ?w = "wakeups s @ core_threads s"
  obtain u u' where u: "lrt_pic_vecon e s = Inr (1, s\<lparr>upic := u, wakeups := ?w\<rparr>)"
      "fd_enabled u = insert (e + FIRST_VECFD) (fd_enabled (upic s))" "upic_ok u"
    "lrt_pic_vecoff e s = Inr (1, s\<lparr>upic := u', wakeups := ?w\<rparr>)"
      "fd_enabled u' = fd_enabled (upic s) - {e + FIRST_VECFD}" "upic_ok u'"
    using vecon_vecoff_spec [OF assms(1,2)] assms(3) by auto
  show "\<exists>u w. EventMgrPrim_eventEnable e s = Inr (EBBRC_OK, s\<lparr>upic := u, wakeups := w\<rparr>) \<and> upic_ok u \<and> e + FIRST_VECFD \<in> fd_enabled u"
    by (rule exI [of _ u], rule exI [of _ ?w]) (simp add: EventMgrPrim_eventEnable_def u)
  show "\<exists>u w. EventMgrPrim_eventDisable e s = Inr (EBBRC_OK, s\<lparr>upic := u, wakeups := w\<rparr>) \<and> upic_ok u \<and> e + FIRST_VECFD \<notin> fd_enabled u"
    by (rule exI [of _ u'], rule exI [of _ ?w]) (simp add: EventMgrPrim_eventDisable_def u)
qed

lemma cons_event_on_off:
  assumes "cons_ok p self i s" "upic_ok (upic s)" and e: "outEV r = outEV (consrep s self)"
  shows "\<exists>u w. em_call callmf p 1 f (\<lambda>_ s. rbind (EventMgrPrim_eventEnable (outEV (consrep s self)) s) (\<lambda>(_, s). Inr s))
        (moved self r d (upic s) (wakeups s) s) = Inr (moved self r d u w s) \<and> upic_ok u \<and> outEV r + FIRST_VECFD \<in> fd_enabled u"
    and "\<exists>u w. em_call callmf p 2 f (\<lambda>_ s. rbind (EventMgrPrim_eventDisable (outEV (consrep s self)) s) (\<lambda>(_, s). Inr s))
        (moved self r d (upic s) (wakeups s) s) = Inr (moved self r d u w s) \<and> upic_ok u \<and> outEV r + FIRST_VECFD \<notin> fd_enabled u"
proof -
  let ?t = "moved self r d (upic s) (wakeups s) s"
  note ok = cons_okD [OF assms(1)]
  have inv: "pic_inv ?t" by (rule moved_inv [OF ok(1) assms(2)])
  have ft: "rep_ft ?t (EBBId_DREF ?t p (theEventMgrPrimId ?t)) = FT_EventMgrPrim" using ok(5) by simp
  have again: "?t\<lparr>upic := u, wakeups := w\<rparr> = moved self r d u w s" for u w by (simp add: moved_def)
  have ev: "outEV (consrep ?t self) = outEV r" by simp
  show "\<exists>u w. em_call callmf p 1 f (\<lambda>_ s. rbind (EventMgrPrim_eventEnable (outEV (consrep s self)) s) (\<lambda>(_, s). Inr s)) ?t =
      Inr (moved self r d u w s) \<and> upic_ok u \<and> outEV r + FIRST_VECFD \<in> fd_enabled u"
    using event_on_off(1) [OF inv, of "outEV r"] ok(3,4) e unfolding em_call_hit [OF ft] ev again by auto
  show "\<exists>u w. em_call callmf p 2 f (\<lambda>_ s. rbind (EventMgrPrim_eventDisable (outEV (consrep s self)) s) (\<lambda>(_, s). Inr s)) ?t =
      Inr (moved self r d u w s) \<and> upic_ok u \<and> outEV r + FIRST_VECFD \<notin> fd_enabled u"
    using event_on_off(2) [OF inv, of "outEV r"] ok(3,4) e unfolding em_call_hit [OF ft] ev again by auto
qed

subsection \<open>Output\<close>

text \<open>The numbers of a console as natural numbers.\<close>

lemma rep_okE:
  assumes "rep_ok r"
  obtains k n l where "outstart r = int k" "outlen r = int n" "inlen r = int l" "k + n \<le> BUFSIZE" "l \<le> BUFSIZE" "n = 0 \<longrightarrow> k = 0"
    "length (in_c r) = BUFSIZE" "length (out_c r) = BUFSIZE"
proof -
  note b = assms [unfolded rep_ok_def]
  obtain k n l where e: "outstart r = int k" "outlen r = int n" "inlen r = int l"
    using b by (metis nonneg_int_cases)
  moreover have "k + n \<le> BUFSIZE" "l \<le> BUFSIZE" "n = 0 \<longrightarrow> k = 0" using b e by auto
  ultimately show ?thesis using that b by blast
qed

lemma rep_okI:
  assumes "outstart r = int k" "outlen r = int n" "inlen r = int l" "k + n \<le> BUFSIZE" "l \<le> BUFSIZE" "n = 0 \<longrightarrow> k = 0"
    "length (in_c r) = BUFSIZE" "length (out_c r) = BUFSIZE"
  shows "rep_ok r"
  using assms by (auto simp: rep_ok_def)

lemma length_pending: "rep_ok r \<Longrightarrow> length (pending r) = nat (outlen r)"
  by (erule rep_okE) (simp add: pending_def)

lemma take_drop_put: "k + n < length xs \<Longrightarrow> take (Suc n) (drop k (xs[k + n := c])) = take n (drop k xs) @ [c]"
  by (simp add: take_Suc_conv_app_nth drop_update_swap)

lemma putChar_refines:
  assumes "cons_ok p self i s"
  shows "\<exists>rc s'. Console_putChar callmf p self c s = Inr (rc, s') \<and> cons_ok p self i s' \<and> (rc, cons_abs self s') = a_put c (cons_abs self s)"
proof -
  let ?r = "consrep s self"
  note ok = cons_okD [OF assms]
  obtain k n l where b: "outstart ?r = int k" "outlen ?r = int n" "inlen ?r = int l" "k + n \<le> BUFSIZE" "l \<le> BUFSIZE" "n = 0 \<longrightarrow> k = 0"
    "length (in_c ?r) = BUFSIZE" "length (out_c ?r) = BUFSIZE" by (rule rep_okE [OF ok(2)])
  have room: "a_room (cons_abs self s) = BUFSIZE - (k + n)"
    using b by (simp add: a_room_def cons_abs_def rep_abs_def pending_def)
  show ?thesis
  proof (cases "k + n < BUFSIZE")
    case False
    then show ?thesis using assms room b by (simp add: Console_putChar_def a_put_def)
  next
    case True
    define r where "r = ?r\<lparr>out_c := (out_c ?r)[k + n := c], outlen := outlen ?r + 1\<rparr>"
    have rok: "rep_ok r" "outEV r = outEV ?r" "action r = Echo" "actionId r = i" "outlen r > 0"
      using b True ok(8,9) by (simp_all add: r_def rep_okI [where k = k and n = "Suc n" and l = l])
    have "pending r = pending ?r @ [c]"
      using take_drop_put [of k n "out_c ?r" c] b True by (simp add: pending_def r_def nat_add_distrib)
    then have ab: "rep_abs d r = (rep_abs d ?r)\<lparr>a_queue := pending ?r @ [c]\<rparr>" for d by (simp add: rep_abs_def r_def)
    have spec: "a_put c (cons_abs self s) = (EBBRC_OK, rep_abs (dev_out s) r)"
      using True room ab by (simp add: a_put_def cons_abs_def) (simp add: rep_abs_def)
    have idx: "nat (int k + int n) = k + n" by simp
    have run: "Console_putChar callmf p self c s =
        rbind (if outlen r = 1
               then em_call callmf p 1 (\<lambda>_. Inr) (\<lambda>_ s. rbind (EventMgrPrim_eventEnable (outEV (consrep s self)) s) (\<lambda>(_, s). Inr s))
                 (moved self r (dev_out s) (upic s) (wakeups s) s)
               else Inr (moved self r (dev_out s) (upic s) (wakeups s) s)) (\<lambda>s. Inr (EBBRC_OK, s))"
      using True b unfolding Console_putChar_def upd_cons_moved(1) [symmetric] r_def
      by (simp add: arr_set_def Let_def idx)
    show ?thesis
    proof (cases "outlen r = 1")
      case on: True
      obtain u w where u: "em_call callmf p 1 (\<lambda>_. Inr) (\<lambda>_ s. rbind (EventMgrPrim_eventEnable (outEV (consrep s self)) s) (\<lambda>(_, s). Inr s))
          (moved self r (dev_out s) (upic s) (wakeups s) s) = Inr (moved self r (dev_out s) u w s)" "upic_ok u"
        "outEV r + FIRST_VECFD \<in> fd_enabled u"
        using cons_event_on_off(1) [OF assms cons_upic_ok [OF assms] rok(2), where f = "\<lambda>_. Inr"] by blast
      have "cons_ok p self i (moved self r (dev_out s) u w s)" by (rule cons_ok_moved [OF assms u(2) rok(1-4)]) (use rok(5) u(3) in simp)
      then show ?thesis using run on u(1) spec by (simp add: cons_abs_def)
    next
      case off: False
      then have "outlen ?r > 0" using b by (simp add: r_def)
      then have "cons_ok p self i (moved self r (dev_out s) (upic s) (wakeups s) s)"
        using rok(2,5) ok(10) by (intro cons_ok_moved [OF assms cons_upic_ok [OF assms] rok(1-4)]) simp
      then show ?thesis using run off spec by (simp add: cons_abs_def)
    qed
  qed
qed

lemma outEvent_refines:
  assumes "cons_ok p self i s"
  shows "\<exists>s'. Console_outEvent callmf (Some j) p self s = Inr (EBBRC_OK, s') \<and> cons_ok p self i s' \<and> cons_abs self s' = a_write j (cons_abs self s)"
proof -
  let ?r = "consrep s self"
  note ok = cons_okD [OF assms]
  obtain k n l where b: "outstart ?r = int k" "outlen ?r = int n" "inlen ?r = int l" "k + n \<le> BUFSIZE" "l \<le> BUFSIZE" "n = 0 \<longrightarrow> k = 0"
    "length (in_c ?r) = BUFSIZE" "length (out_c ?r) = BUFSIZE" by (rule rep_okE [OF ok(2)])
  have q: "pending ?r = take n (drop k (out_c ?r))" "length (pending ?r) = n" using b by (simp_all add: pending_def)
  define m where "m = min j n"
  define took where "took = take m (drop k (out_c ?r))"
  have took: "took = take j (pending ?r)" "length took = m" using b by (simp_all add: took_def m_def q(1))
  show ?thesis
  proof (cases "m = 0")
    case True
    then have "n = 0 \<or> j = 0" by (simp add: m_def min_def split: if_splits)
    then have "a_write j (cons_abs self s) = cons_abs self s" using b q by (auto simp: a_write_def cons_abs_def rep_abs_def)
    moreover have "Console_outEvent callmf (Some j) p self s = Inr (EBBRC_OK, s)"
      using \<open>n = 0 \<or> j = 0\<close> b by (auto simp: Console_outEvent_def LRTConsoleWrite_def Let_def)
    ultimately show ?thesis using assms by simp
  next
    case False
    define r where "r = ?r\<lparr>outlen := int (n - m), outstart := (if n = m then 0 else int (k + m))\<rparr>"
    let ?d = "dev_out s @ took"
    have ne: "took \<noteq> []" using took(2) False by auto
    have mn: "m \<le> n" "0 < n" using False by (simp_all add: m_def)
    have rok: "rep_ok r" "outEV r = outEV ?r" "action r = Echo" "actionId r = i"
      using b mn ok(8,9) by (simp_all add: r_def rep_okI [where k = "if n = m then 0 else k + m" and n = "n - m" and l = l])
    have nm: "nat (int x - int y) = x - y" for x y by arith
    have "pending r = drop j (pending ?r)"
      using q mn by (auto simp: nm pending_def r_def drop_take m_def min_def add.commute nat_add_distrib)
    then have spec: "rep_abs ?d r = a_write j (cons_abs self s)"
      using b mn q by (auto simp: rep_abs_def cons_abs_def a_write_def r_def took(1) m_def min_def)
    have run: "Console_outEvent callmf (Some j) p self s =
        (if n = m then rbind (em_call callmf p 2 (\<lambda>_. Inr) (\<lambda>_ s. rbind (EventMgrPrim_eventDisable (outEV (consrep s self)) s) (\<lambda>(_, s). Inr s))
             (moved self r ?d (upic s) (wakeups s) s)) (\<lambda>s. Inr (EBBRC_OK, s))
         else Inr (EBBRC_OK, moved self r ?d (upic s) (wakeups s) s))"
      using False mn b took(2) ne unfolding Console_outEvent_def upd_cons_moved(2) [symmetric] r_def
      by (simp add: LRTConsoleWrite_def Let_def took_def [symmetric] m_def [symmetric] of_nat_diff)
    show ?thesis
    proof (cases "n = m")
      case off: True
      obtain u w where u: "em_call callmf p 2 (\<lambda>_. Inr) (\<lambda>_ s. rbind (EventMgrPrim_eventDisable (outEV (consrep s self)) s) (\<lambda>(_, s). Inr s))
          (moved self r ?d (upic s) (wakeups s) s) = Inr (moved self r ?d u w s)" "upic_ok u"
        "outEV r + FIRST_VECFD \<notin> fd_enabled u"
        using cons_event_on_off(2) [OF assms cons_upic_ok [OF assms] rok(2), where f = "\<lambda>_. Inr"] by blast
      have "cons_ok p self i (moved self r ?d u w s)"
        by (rule cons_ok_moved [OF assms u(2) rok(1-4)]) (use off u(3) in \<open>simp add: r_def\<close>)
      then show ?thesis using run off u(1) spec by (simp add: cons_abs_def)
    next
      case on: False
      then have "cons_ok p self i (moved self r ?d (upic s) (wakeups s) s)"
        using rok(2) ok(10) mn b by (intro cons_ok_moved [OF assms cons_upic_ok [OF assms] rok(1-4)]) (simp add: r_def)
      then show ?thesis using run on spec by (simp add: cons_abs_def)
    qed
  qed
qed

subsection \<open>Input\<close>

lemma getChar_refines:
  assumes "cons_ok p self i s"
  shows "\<exists>rc c s'. Console_getChar self s = Inr (rc, c, s') \<and> cons_ok p self i s' \<and> (rc, c, cons_abs self s') = a_get (cons_abs self s)"
proof -
  let ?r = "consrep s self"
  note ok = cons_okD [OF assms]
  obtain k n l where b: "outstart ?r = int k" "outlen ?r = int n" "inlen ?r = int l" "k + n \<le> BUFSIZE" "l \<le> BUFSIZE" "n = 0 \<longrightarrow> k = 0"
    "length (in_c ?r) = BUFSIZE" "length (out_c ?r) = BUFSIZE" by (rule rep_okE [OF ok(2)])
  show ?thesis
  proof (cases l)
    case 0
    then show ?thesis using assms b by (simp add: Console_getChar_def a_get_def cons_abs_def rep_abs_def)
  next
    case (Suc l')
    define r where "r = ?r\<lparr>inlen := int l'\<rparr>"
    have rok: "rep_ok r" "outEV r = outEV ?r" "action r = Echo" "actionId r = i"
      using b Suc ok(8,9) by (simp_all add: r_def rep_okI [where k = k and n = n and l = l'])
    have t: "take (Suc l') (in_c ?r) = take l' (in_c ?r) @ [in_c ?r ! l']" using b Suc by (simp add: take_Suc_conv_app_nth)
    have "Console_getChar self s = Inr (EBBRC_OK, Some (in_c ?r ! l'), moved self r (dev_out s) (upic s) (wakeups s) s)"
      using b Suc unfolding Console_getChar_def upd_cons_moved(1) [symmetric] r_def by (simp add: arr_get_def)
    moreover have "cons_ok p self i (moved self r (dev_out s) (upic s) (wakeups s) s)"
      using rok(2) ok(10) by (intro cons_ok_moved [OF assms cons_upic_ok [OF assms] rok]) (simp add: r_def)
    moreover have "a_get (cons_abs self s) = (EBBRC_OK, Some (in_c ?r ! l'), rep_abs (dev_out s) r)"
      using b Suc t by (auto simp: a_get_def cons_abs_def rep_abs_def r_def pending_def simp del: of_nat_Suc)
    ultimately show ?thesis by (simp add: cons_abs_def)
  qed
qed

lemma cons_calls:
  assumes "cons_ok p self i s"
  shows "put_call callmf p i c s = Console_putChar callmf p self c s" "get_call callmf p i s = Console_getChar self s"
  using cons_okD(6,7) [OF assms] by (simp_all add: put_call_def get_call_def EBBCALL_def ft_lookup_def Let_def)

text \<open>The echo takes the last byte first and stops when none is left.\<close>

definition a_echo :: "cons_spec \<Rightarrow> cons_spec" where
  "a_echo a = a\<lparr>a_held := [], a_queue := a_queue a @ take (a_room a) (rev (a_held a))\<rparr>"

lemma a_echo_step:
  "a_held a = [] \<Longrightarrow> a_echo a = a"
  "a_held a \<noteq> [] \<Longrightarrow> a_echo a = a_echo (snd (a_put (last (a_held a)) (a\<lparr>a_held := butlast (a_held a)\<rparr>)))"
proof -
  show "a_held a = [] \<Longrightarrow> a_echo a = a" by (simp add: a_echo_def)
  assume ne: "a_held a \<noteq> []"
  then have rv: "rev (a_held a) = last (a_held a) # rev (butlast (a_held a))"
    by (metis append_butlast_last_id rev.simps(2) rev_append rev_rev_ident rev_singleton_conv append_Cons append_Nil)
  show "a_echo a = a_echo (snd (a_put (last (a_held a)) (a\<lparr>a_held := butlast (a_held a)\<rparr>)))"
  proof (cases "a_room a")
    case 0
    then show ?thesis by (simp add: a_echo_def a_put_def a_room_def)
  next
    case (Suc n)
    moreover have "a_room (a\<lparr>a_held := h, a_queue := a_queue a @ [c]\<rparr>) = n" for h c using Suc by (simp add: a_room_def)
    moreover have "a_room (a\<lparr>a_held := h\<rparr>) = Suc n" for h using Suc by (simp add: a_room_def)
    ultimately show ?thesis by (simp add: a_echo_def a_put_def rv)
  qed
qed

lemma echo_refines:
  "cons_ok p self i s \<Longrightarrow> length (a_held (cons_abs self s)) = n \<Longrightarrow>
   \<exists>s'. UglyEcho_loop callmf p i s = Some (Inr s') \<and> cons_ok p self i s' \<and> cons_abs self s' = a_echo (cons_abs self s)"
proof (induction n arbitrary: s)
  case 0
  obtain rc c s' where g: "Console_getChar self s = Inr (rc, c, s')" "cons_ok p self i s'" "(rc, c, cons_abs self s') = a_get (cons_abs self s)"
    using getChar_refines [OF 0(1)] by blast
  have h: "a_held (cons_abs self s) = []" using 0(2) by simp
  then have "rc = EBBRC_RETRY" "cons_abs self s' = cons_abs self s" using g(3) by (simp_all add: a_get_def)
  then show ?case using g(1,2) h a_echo_step(1)
    by (subst UglyEcho_loop.simps) (simp add: cons_calls(2) [OF 0(1)] ebbrc_defs)
next
  case (Suc n)
  obtain rc c s1 where g: "Console_getChar self s = Inr (rc, c, s1)" "cons_ok p self i s1" "(rc, c, cons_abs self s1) = a_get (cons_abs self s)"
    using getChar_refines [OF Suc(2)] by blast
  have h: "a_held (cons_abs self s) \<noteq> []" using Suc(3) by auto
  then have c: "rc = EBBRC_OK" "c = Some (last (a_held (cons_abs self s)))"
    "cons_abs self s1 = cons_abs self s\<lparr>a_held := butlast (a_held (cons_abs self s))\<rparr>" using g(3) by (simp_all add: a_get_def)
  obtain rc' s2 where q: "Console_putChar callmf p self (the c) s1 = Inr (rc', s2)" "cons_ok p self i s2"
    "(rc', cons_abs self s2) = a_put (the c) (cons_abs self s1)" using putChar_refines [OF g(2)] by blast
  have s2: "cons_abs self s2 = snd (a_put (the c) (cons_abs self s1))" using q(3) by (metis snd_conv)
  then have "length (a_held (cons_abs self s2)) = n" using c(3) Suc(3) by (simp add: a_put_def)
  from Suc.IH [OF q(2) this] obtain s' where s': "UglyEcho_loop callmf p i s2 = Some (Inr s')" "cons_ok p self i s'"
    "cons_abs self s' = a_echo (cons_abs self s2)" by blast
  have "UglyEcho_loop callmf p i s = Some (Inr s')"
    using g(1) c(1) q(1) s'(1) by (subst UglyEcho_loop.simps) (simp add: cons_calls(2) [OF Suc(2)] cons_calls(1) [OF g(2)])
  moreover have "a_echo (cons_abs self s2) = a_echo (cons_abs self s)" using a_echo_step(2) [OF h] c s2 by simp
  ultimately show ?case using s' by auto
qed

lemma read_refines:
  assumes "cons_ok p self i s"
  shows "\<exists>s'. read_console (Some bs) self s = Inr (EBBRC_OK, s') \<and> cons_ok p self i s' \<and>
    cons_abs self s' = (cons_abs self s)\<lparr>a_held := a_held (cons_abs self s) @ take (BUFSIZE - length (a_held (cons_abs self s))) bs\<rparr>"
proof -
  let ?r = "consrep s self"
  note ok = cons_okD [OF assms]
  obtain k n l where b: "outstart ?r = int k" "outlen ?r = int n" "inlen ?r = int l" "k + n \<le> BUFSIZE" "l \<le> BUFSIZE" "n = 0 \<longrightarrow> k = 0"
    "length (in_c ?r) = BUFSIZE" "length (out_c ?r) = BUFSIZE" by (rule rep_okE [OF ok(2)])
  have held: "a_held (cons_abs self s) = take l (in_c ?r)" "length (a_held (cons_abs self s)) = l"
    using b by (simp_all add: cons_abs_def rep_abs_def)
  show ?thesis
  proof (cases "l < BUFSIZE")
    case False
    then show ?thesis using assms b held by (simp add: read_console_def)
  next
    case True
    define got where "got = take (BUFSIZE - l) bs"
    define r where "r = ?r\<lparr>in_c := read_into (in_c ?r) l got, inlen := int (l + length got)\<rparr>"
    have len: "l + length got \<le> BUFSIZE" "length (read_into (in_c ?r) l got) = BUFSIZE"
      using True b by (auto simp: got_def read_into_def)
    have rok: "rep_ok r" "outEV r = outEV ?r" "action r = Echo" "actionId r = i"
      using b len ok(8,9) by (simp_all add: r_def rep_okI [where k = k and n = n and l = "l + length got"])
    have nm: "nat (int x - int y) = x - y" for x y by arith
    have "read_console (Some bs) self s = Inr (EBBRC_OK, moved self r (dev_out s) (upic s) (wakeups s) s)"
    proof (cases "got = []")
      case True
      have "?r\<lparr>in_c := x, inlen := int l\<rparr> = ?r\<lparr>in_c := x\<rparr>" for x by (rule cons_rep.equality) (simp_all add: b(3))
      with True \<open>l < BUFSIZE\<close> show ?thesis unfolding read_console_def upd_cons_moved(1) [symmetric] r_def b(3)
        by (simp add: LRTConsoleRead_def Let_def nm flip: got_def)
    next
      case False
      then have "bs \<noteq> []" by (auto simp: got_def)
      with False True show ?thesis unfolding read_console_def upd_cons_moved(1) [symmetric] r_def b(3)
        by (simp add: LRTConsoleRead_def Let_def nm b(3) flip: got_def)
    qed
    moreover have "cons_ok p self i (moved self r (dev_out s) (upic s) (wakeups s) s)"
      using rok(2) ok(10) by (intro cons_ok_moved [OF assms cons_upic_ok [OF assms] rok]) (simp add: r_def)
    moreover have "take (l + length got) (read_into (in_c ?r) l got) = take l (in_c ?r) @ got"
      using b by (simp add: read_into_def)
    moreover have "nat (int l + int (length got)) = l + length got" by simp
    ultimately show ?thesis using held b
      by (simp add: cons_abs_def rep_abs_def pending_def r_def flip: got_def)
  qed
qed

lemma inEvent_refines:
  assumes "cons_ok p self i s"
  shows "\<exists>s'. Console_inEvent callmf (Some bs) p self s = Inr (EBBRC_OK, s') \<and> cons_ok p self i s' \<and> cons_abs self s' = a_read bs (cons_abs self s)"
proof -
  obtain s1 where r: "read_console (Some bs) self s = Inr (EBBRC_OK, s1)" "cons_ok p self i s1"
    "cons_abs self s1 = (cons_abs self s)\<lparr>a_held := a_held (cons_abs self s) @ take (BUFSIZE - length (a_held (cons_abs self s))) bs\<rparr>"
    using read_refines [OF assms] by blast
  obtain s2 where e: "UglyEcho_loop callmf p i s1 = Some (Inr s2)" "cons_ok p self i s2" "cons_abs self s2 = a_echo (cons_abs self s1)"
    using echo_refines [OF r(2) refl] by blast
  have "a_echo (cons_abs self s1) = a_read bs (cons_abs self s)"
    by (simp add: r(3) a_echo_def a_read_def Let_def a_room_def)
  then show ?thesis using r(1) e cons_okD(8,9) [OF r(2)] by (simp add: Console_inEvent_def UglyEcho_def)
qed

subsection \<open>Runs\<close>

lemma cons_exec_refines:
  assumes "cons_ok p self i s"
  shows "\<exists>r s'. cons_exec callmf p self x s = Inr (r, s') \<and> cons_ok p self i s' \<and> spec_op x (cons_abs self s) = (r, cons_abs self s')"
proof (cases x)
  case (Put c)
  obtain rc s' where "Console_putChar callmf p self c s = Inr (rc, s')" "cons_ok p self i s'" "(rc, cons_abs self s') = a_put c (cons_abs self s)"
    using putChar_refines [OF assms] by blast
  then show ?thesis using Put by (intro exI [of _ "(rc, None)"] exI [of _ s']) (simp flip: \<open>_ = a_put c _\<close>)
next
  case Get
  obtain rc c s' where "Console_getChar self s = Inr (rc, c, s')" "cons_ok p self i s'" "(rc, c, cons_abs self s') = a_get (cons_abs self s)"
    using getChar_refines [OF assms] by blast
  then show ?thesis using Get by (intro exI [of _ "(rc, c)"] exI [of _ s']) (simp flip: \<open>_ = a_get _\<close>)
next
  case (Read bs)
  then show ?thesis using inEvent_refines [OF assms, of callmf bs] by auto
next
  case (Write k)
  then show ?thesis using outEvent_refines [OF assms, of callmf k] by auto
qed

lemma cons_run_refines:
  "cons_ok p self i s \<Longrightarrow>
   \<exists>rs s'. cons_run callmf p self xs s = Inr (rs, s') \<and> cons_ok p self i s' \<and> spec_run xs (cons_abs self s) = (rs, cons_abs self s')"
proof (induction xs arbitrary: s)
  case (Cons x xs)
  obtain r s1 where s1: "cons_exec callmf p self x s = Inr (r, s1)" "cons_ok p self i s1" "spec_op x (cons_abs self s) = (r, cons_abs self s1)"
    using cons_exec_refines [OF Cons.prems] by blast
  obtain rs s2 where "cons_run callmf p self xs s1 = Inr (rs, s2)" "cons_ok p self i s2" "spec_run xs (cons_abs self s1) = (rs, cons_abs self s2)"
    using Cons.IH [OF s1(2)] by blast
  then show ?case using s1 by simp
qed simp


text \<open>
  What the application sees: bytes that arrive in one event are echoed in the opposite order.
\<close>

definition typed :: "u8 list \<Rightarrow> cons_spec \<Rightarrow> u8 list" where
  "typed bs a = a_sent (snd (spec_run [Read bs, Write (length bs)] a))"

lemma echo_reverses: "a_held a = [] \<Longrightarrow> a_queue a = [] \<Longrightarrow> a_used a = 0 \<Longrightarrow> length bs \<le> BUFSIZE \<Longrightarrow> typed bs a = a_sent a @ rev bs"
  by (simp add: typed_def a_read_def a_write_def a_room_def)

text \<open>The machine of the event manager's examples, with a console behind id 6.\<close>

definition demo_cons :: cons_state where
  "demo_cons = event_state.extend (demo_event\<lparr>repft := (\<lambda>a. if a = 0x900 then FT_Console else FT_EventMgrPrim)\<rparr>)
     \<lparr>consrep = (\<lambda>_. \<lparr>indev = \<lparr>src_fd = 0, src_flags = 5\<rparr>, outdev = \<lparr>src_fd = 1, src_flags = 6\<rparr>, inEV = 1, outEV = 1, inlen = 0, outlen = 0,
        outstart = 0, in_c = replicate BUFSIZE 0, out_c = replicate BUFSIZE 0, actionId = id_of 0x10000 6, action = Echo\<rparr>), dev_out = []\<rparr>"

lemma demo_cons_sel:
  "numlpics demo_cons = numlpics demo_event" "gvecs demo_cons = gvecs demo_event" "lpics demo_cons = lpics demo_event"
  "pic_lock demo_cons = pic_lock demo_event" "pic_free demo_cons = pic_free demo_event" "upic demo_cons = upic demo_event"
  "lrt_pic_firstid demo_cons = lrt_pic_firstid demo_event" "lrt_pic_lastid demo_cons = lrt_pic_lastid demo_event"
  "TransMem demo_cons = TransMem demo_event" "ltab demo_cons = ltab demo_event" "theEventMgrPrimId demo_cons = theEventMgrPrimId demo_event"
  "repft demo_cons = (\<lambda>a. if a = 0x900 then FT_Console else FT_EventMgrPrim)"
  "outEV (consrep demo_cons a) = 1" "inlen (consrep demo_cons a) = 0" "outlen (consrep demo_cons a) = 0" "outstart (consrep demo_cons a) = 0"
  "in_c (consrep demo_cons a) = replicate BUFSIZE 0" "out_c (consrep demo_cons a) = replicate BUFSIZE 0"
  "actionId (consrep demo_cons a) = id_of 0x10000 6" "action (consrep demo_cons a) = Echo" "dev_out demo_cons = []"
  by (simp_all add: demo_cons_def event_state.defs)

lemma demo_cons_ok: "cons_ok 0 0x900 (id_of 0x10000 6) demo_cons"
proof -
  have "pic_inv demo_cons"
    using demo_event_inv by (simp add: pic_inv_def pic_ok_def pic_shape_def cores_ok_def vecs_agree_def demo_cons_sel)
  moreover have "EBBId_DREF demo_cons 0 (theEventMgrPrimId demo_cons) = 0x40" "EBBId_DREF demo_cons 0 (id_of 0x10000 6) = 0x900"
    using demo_event_ids by (simp_all add: EBBId_DREF_def EBBIdToLTrans_def demo_cons_sel)
  moreover have "rep_ft demo_cons 0x40 = FT_EventMgrPrim" "rep_ft demo_cons 0x900 = FT_Console"
    by (simp_all add: rep_ft_def demo_cons_sel demo_event_sel is_ltrans_addr_def lrt_trans_defs trans_size_values)
  moreover have "gvecs demo_cons ! 1 \<noteq> H_NULL" "(1 :: nat) < NUM_VEC" "fd_enabled (upic demo_cons) = {}"
    using demo_event_args by (simp_all add: demo_cons_sel pic_values demo_event_pic unix_pic_zero_def)
  ultimately show ?thesis by (simp add: cons_ok_def demo_cons_sel rep_ok_def)
qed


end
