(* ===== verification/SenseBarrier.thy ===== *)
theory SenseBarrier
  imports Barrier
begin

text \<open>
  The barrier of the application \<open>apps/bindtst/bindtst.c\<close>, which the cores of the test use again and
  again, with the start of the test: core 0 makes the barrier and then publishes the number of
  cores, for which the others wait. One step is one access of a shared variable; the cores take their
  steps in any order. The flags \<open>sense\<close> and \<open>thrsense\<close> are 0 or 1. The number of barriers a core has
  left, \<open>rounds\<close>, is not a variable of the program.
\<close>

datatype sb_pc = Start | SetCores | Between | Decrement | Spinning | ResetCount | FlipSense

record barrier_type =
  parties :: int
  count :: int
  sense :: bool
  cores :: nat
  sb_pc :: "nat \<Rightarrow> sb_pc"
  thrsense :: "nat \<Rightarrow> bool"
  rounds :: "nat \<Rightarrow> nat"

definition init_barrier :: "int \<Rightarrow> barrier_type \<Rightarrow> barrier_type" where
  "init_barrier c s = s\<lparr>parties := c, count := c, sense := False\<rparr>"

definition sb_goto :: "nat \<Rightarrow> sb_pc \<Rightarrow> barrier_type \<Rightarrow> barrier_type" where
  "sb_goto p c s = s\<lparr>sb_pc := (sb_pc s)(p := c)\<rparr>"

definition sb_return :: "nat \<Rightarrow> barrier_type \<Rightarrow> barrier_type" where
  "sb_return p s = s\<lparr>sb_pc := (sb_pc s)(p := Between), rounds := (rounds s)(p := rounds s p + 1)\<rparr>"

definition sb_step :: "nat \<Rightarrow> nat \<Rightarrow> barrier_type \<Rightarrow> barrier_type" where
  "sb_step n p s =
     (case sb_pc s p of
        Start \<Rightarrow>
          if p = 0 then sb_goto p SetCores (init_barrier (int n) s)
          else if cores s = 0 then s else sb_goto p Between s
      | SetCores \<Rightarrow> sb_goto p Between (s\<lparr>cores := n\<rparr>)
      | Between \<Rightarrow>
          let mysense = \<not> thrsense s p
          in sb_goto p Decrement (s\<lparr>thrsense := (thrsense s)(p := mysense)\<rparr>)
      | Decrement \<Rightarrow>
          sb_goto p (if count s = 1 then ResetCount else Spinning) (s\<lparr>count := count s - 1\<rparr>)
      | ResetCount \<Rightarrow> sb_goto p FlipSense (s\<lparr>count := parties s\<rparr>)
      | FlipSense \<Rightarrow> sb_return p (s\<lparr>sense := thrsense s p\<rparr>)
      | Spinning \<Rightarrow> if sense s \<noteq> thrsense s p then s else sb_return p s)"

definition sb_start :: "barrier_type \<Rightarrow> bool" where
  "sb_start s \<longleftrightarrow> cores s = 0 \<and> (\<forall>p. sb_pc s p = Start \<and> \<not> thrsense s p \<and> rounds s p = 0)"

inductive sb_reachable :: "nat \<Rightarrow> barrier_type \<Rightarrow> bool" for n where
  start: "sb_start s \<Longrightarrow> sb_reachable n s"
| step: "sb_reachable n s \<Longrightarrow> p < n \<Longrightarrow> sb_reachable n (sb_step n p s)"

subsection \<open>Invariant\<close>

text \<open>
  In round \<open>k\<close> the flag is the parity of \<open>k\<close>. A core has not yet entered its barrier number \<open>k\<close>, or is
  in it, or has not yet noticed that barrier \<open>k - 1\<close> is open.
\<close>

definition outside :: "nat \<Rightarrow> barrier_type \<Rightarrow> nat \<Rightarrow> bool" where
  "outside k s p \<longleftrightarrow> rounds s p = k \<and> thrsense s p = odd k \<and> (sb_pc s p = Between \<or> sb_pc s p = Start \<and> p \<noteq> 0)"

definition coming :: "nat \<Rightarrow> barrier_type \<Rightarrow> nat \<Rightarrow> bool" where
  "coming k s p \<longleftrightarrow> rounds s p = k \<and> thrsense s p = even k \<and> sb_pc s p = Decrement"

definition waiting :: "nat \<Rightarrow> barrier_type \<Rightarrow> nat \<Rightarrow> bool" where
  "waiting k s p \<longleftrightarrow> rounds s p = k \<and> thrsense s p = even k \<and> sb_pc s p = Spinning"

definition released :: "nat \<Rightarrow> barrier_type \<Rightarrow> nat \<Rightarrow> bool" where
  "released k s p \<longleftrightarrow> Suc (rounds s p) = k \<and> thrsense s p = odd k \<and> sb_pc s p = Spinning"

definition filling :: "nat \<Rightarrow> nat \<Rightarrow> barrier_type \<Rightarrow> bool" where
  "filling n k s \<longleftrightarrow> (\<forall>p < n. outside k s p \<or> coming k s p \<or> waiting k s p \<or> released k s p) \<and>
     count s = int n - int (card {p. p < n \<and> waiting k s p}) \<and> 0 < count s"

definition flipping :: "nat \<Rightarrow> nat \<Rightarrow> barrier_type \<Rightarrow> bool" where
  "flipping n k s \<longleftrightarrow> (\<exists>l < n. rounds s l = k \<and> thrsense s l = even k \<and>
     (sb_pc s l = ResetCount \<or> sb_pc s l = FlipSense \<and> count s = int n) \<and> (\<forall>p < n. p \<noteq> l \<longrightarrow> waiting k s p))"

definition starting :: "nat \<Rightarrow> barrier_type \<Rightarrow> bool" where
  "starting n s \<longleftrightarrow> cores s = 0 \<and> (\<forall>p. \<not> thrsense s p \<and> rounds s p = 0) \<and> (\<forall>p. p \<noteq> 0 \<longrightarrow> sb_pc s p = Start) \<and>
     (sb_pc s 0 = Start \<or> sb_pc s 0 = SetCores \<and> parties s = int n \<and> count s = int n \<and> \<not> sense s)"

definition sb_inv :: "nat \<Rightarrow> barrier_type \<Rightarrow> bool" where
  "sb_inv n s \<longleftrightarrow> starting n s \<or>
     cores s = n \<and> parties s = int n \<and> (\<exists>k. sense s = odd k \<and> (filling n k s \<or> flipping n k s))"

lemmas where_defs = outside_def coming_def waiting_def released_def
lemmas sb_step_defs = sb_step_def sb_goto_def sb_return_def init_barrier_def

lemma sb_start_inv: "sb_start s \<Longrightarrow> sb_inv n s"
  by (simp add: sb_start_def sb_inv_def starting_def)

lemma starting_step:
  assumes "starting n s" "p < n"
  shows "sb_inv n (sb_step n p s)"
proof (cases "p = 0 \<and> sb_pc s 0 = SetCores")
  case True
  let ?s = "sb_step n p s"
  have "outside 0 ?s q" for q using assms True by (auto simp: starting_def outside_def sb_step_defs)
  moreover from this have "{q. q < n \<and> waiting 0 ?s q} = {}" by (auto simp: outside_def waiting_def)
  ultimately have "filling n 0 ?s" using assms True by (simp add: filling_def starting_def sb_step_defs)
  then have "cores ?s = n \<and> parties ?s = int n \<and> sense ?s = odd 0 \<and> filling n 0 ?s"
    using assms True by (simp add: starting_def sb_step_defs)
  then show ?thesis unfolding sb_inv_def by blast
next
  case False
  then have "starting n (sb_step n p s)" using assms by (auto simp: starting_def sb_step_defs)
  then show ?thesis by (simp add: sb_inv_def)
qed

text \<open>A step of a core changes nothing for the others.\<close>

lemma others:
  assumes "q \<noteq> p"
  shows "outside k (sb_step n p s) q = outside k s q" "coming k (sb_step n p s) q = coming k s q"
    "waiting k (sb_step n p s) q = waiting k s q" "released k (sb_step n p s) q = released k s q"
  using assms by (auto simp: where_defs sb_step_defs Let_def split: sb_pc.splits)

lemma waiting_same:
  "(waiting k (sb_step n p s) p \<longleftrightarrow> waiting k s p) \<Longrightarrow>
   {q. q < n \<and> waiting k (sb_step n p s) q} = {q. q < n \<and> waiting k s q}"
  by (metis (no_types, lifting) others(3))

lemma filling_step:
  assumes "filling n k s" "sense s = odd k" "p < n" "parties s = int n" "cores s = n"
  shows "filling n k (sb_step n p s) \<or> flipping n k (sb_step n p s)"
proof -
  let ?s = "sb_step n p s"
  note f = assms(1) [unfolded filling_def]
  have rest: "\<forall>q < n. q \<noteq> p \<longrightarrow> outside k ?s q \<or> coming k ?s q \<or> waiting k ?s q \<or> released k ?s q"
    using f others by metis
  have keep: "filling n k ?s" if "outside k ?s p \<or> coming k ?s p \<or> released k ?s p" "\<not> waiting k s p" "count ?s = count s"
  proof -
    have "\<not> waiting k ?s p" using that(1) by (auto simp: where_defs)
    then have "{q. q < n \<and> waiting k ?s q} = {q. q < n \<and> waiting k s q}" using that(2) by (intro waiting_same) simp
    then show ?thesis using f rest that unfolding filling_def by metis
  qed
  consider (outside) "outside k s p" | (coming) "coming k s p" | (waiting) "waiting k s p" | (released) "released k s p"
    using f assms(3) by blast
  then show ?thesis
  proof cases
    case outside
    have "outside k ?s p \<or> coming k ?s p" "count ?s = count s"
      using outside assms(5,3) by (auto simp: where_defs sb_step_defs Let_def)
    moreover have "\<not> waiting k s p" using outside by (auto simp: where_defs)
    ultimately show ?thesis using keep by blast
  next
    case released
    have "outside k ?s p" "count ?s = count s" using released assms(2) by (auto simp: where_defs sb_step_defs)
    moreover have "\<not> waiting k s p" using released by (auto simp: where_defs)
    ultimately show ?thesis using keep by blast
  next
    case waiting
    then have "?s = s" using assms(2) by (auto simp: where_defs sb_step_defs)
    then show ?thesis using assms(1) by simp
  next
    case coming
    have nw: "\<not> waiting k s p" using coming by (auto simp: where_defs)
    show ?thesis
    proof (cases "count s = 1")
      case True
      have fin: "finite {q. q < n \<and> waiting k s q}" by simp
      have "{q. q < n \<and> waiting k s q} = {..<n} - {p}"
      proof (rule card_subset_eq)
        show "{q. q < n \<and> waiting k s q} \<subseteq> {..<n} - {p}" using nw by auto
        show "card {q. q < n \<and> waiting k s q} = card ({..<n} - {p})" 
        proof -
          have "int n - int (card {q. q < n \<and> waiting k s q}) = 1" using f True by simp
          then have "card {q. q < n \<and> waiting k s q} = n - 1" by linarith
          then show ?thesis using assms(3) by simp
        qed
      qed simp
      then have "\<forall>q < n. q \<noteq> p \<longrightarrow> waiting k s q" by blast
      then have "\<forall>q < n. q \<noteq> p \<longrightarrow> waiting k ?s q" using others(3) by metis
      moreover have "rounds ?s p = k" "thrsense ?s p = even k" "sb_pc ?s p = ResetCount"
        using coming True by (auto simp: where_defs sb_step_defs)
      ultimately show ?thesis using assms(3) unfolding flipping_def by blast
    next
      case False
      have w: "waiting k ?s p" and c: "count ?s = count s - 1" using coming False by (auto simp: where_defs sb_step_defs)
      have "card {q. q < n \<and> waiting k ?s q} = card {q. q < n \<and> waiting k s q} + 1"
        by (rule card_insert_one [where P = "waiting k s" and Q = "waiting k ?s", OF assms(3) nw]) (use w others(3) in metis)
      then have "filling n k ?s" using f rest w c False unfolding filling_def by (auto simp del: One_nat_def)
      then show ?thesis ..
    qed
  qed
qed

lemma flipping_step:
  assumes "flipping n k s" "sense s = odd k" "p < n" "parties s = int n"
  shows "(sense (sb_step n p s) = odd k \<and> flipping n k (sb_step n p s)) \<or>
    (sense (sb_step n p s) = odd (Suc k) \<and> filling n (Suc k) (sb_step n p s))"
proof -
  let ?s = "sb_step n p s"
  obtain l where l: "l < n" "rounds s l = k" "thrsense s l = even k"
    "sb_pc s l = ResetCount \<or> sb_pc s l = FlipSense \<and> count s = int n" "\<forall>p < n. p \<noteq> l \<longrightarrow> waiting k s p"
    using assms(1) unfolding flipping_def by blast
  show ?thesis
  proof (cases "p = l")
    case False
    then have "?s = s" using l assms(2,3) by (auto simp: where_defs sb_step_defs)
    then show ?thesis using assms(1,2) by simp
  next
    case True
    have w: "\<forall>q < n. q \<noteq> l \<longrightarrow> waiting k ?s q" using l(5) True others(3) by metis
    show ?thesis
    proof (cases "sb_pc s l = ResetCount")
      case reset: True
      have "rounds ?s l = k" "thrsense ?s l = even k" "sb_pc ?s l = FlipSense" "count ?s = int n" "sense ?s = sense s"
        using reset True l assms(4) by (auto simp: sb_step_defs)
      then show ?thesis using w l(1) assms(2) unfolding flipping_def by blast
    next
      case flip: False
      then have e: "rounds ?s l = Suc k" "thrsense ?s l = even k" "sb_pc ?s l = Between" "count ?s = int n" "sense ?s = even k"
        using True l by (auto simp: sb_step_defs)
      have "outside (Suc k) ?s l" using e by (simp add: outside_def)
      moreover have "\<forall>q < n. q \<noteq> l \<longrightarrow> released (Suc k) ?s q" using w by (simp add: where_defs)
      moreover have "{q. q < n \<and> waiting (Suc k) ?s q} = {}"
        using calculation e w by (auto simp: where_defs)
      moreover have "0 < count ?s" using e assms(3) by simp
      ultimately have "filling n (Suc k) ?s" 
      proof -
        assume o: "outside (Suc k) ?s l" and r: "\<forall>q < n. q \<noteq> l \<longrightarrow> released (Suc k) ?s q"
          and w0: "{q. q < n \<and> waiting (Suc k) ?s q} = {}" and c: "0 < count ?s"
        have "\<forall>q < n. outside (Suc k) ?s q \<or> coming (Suc k) ?s q \<or> waiting (Suc k) ?s q \<or> released (Suc k) ?s q"
          using o r by blast
        moreover have "count ?s = int n - int (card {q. q < n \<and> waiting (Suc k) ?s q})" using e(4) by (simp add: w0)
        ultimately show ?thesis using c unfolding filling_def by blast
      qed
      then show ?thesis using e by simp
    qed
  qed
qed

lemma sb_step_frame: "cores s = n \<Longrightarrow> sb_pc s p \<noteq> Start \<or> p \<noteq> 0 \<Longrightarrow> cores (sb_step n p s) = n \<and> parties (sb_step n p s) = parties s"
  by (auto simp: sb_step_defs Let_def split: sb_pc.splits)

lemma sb_step_inv:
  assumes "sb_inv n s" "p < n"
  shows "sb_inv n (sb_step n p s)"
proof (cases "starting n s")
  case True
  then show ?thesis using assms(2) by (rule starting_step)
next
  case False
  then obtain k where k: "cores s = n" "parties s = int n" "sense s = odd k" "filling n k s \<or> flipping n k s"
    using assms(1) unfolding sb_inv_def by blast
  have "sb_pc s p \<noteq> Start \<or> p \<noteq> 0"
    using k(4) assms(2) unfolding filling_def flipping_def where_defs by (cases "p = 0") fastforce+
  then have fr: "cores (sb_step n p s) = n" "parties (sb_step n p s) = int n" using sb_step_frame [OF k(1)] k(2) by auto
  from k(4) show ?thesis
  proof
    assume f: "filling n k s"
    then have "sense (sb_step n p s) = odd k"
      using k(3) assms(2) unfolding filling_def where_defs by (auto simp: sb_step_defs Let_def split: sb_pc.splits)
    then show ?thesis using filling_step [OF f k(3) assms(2) k(2,1)] fr unfolding sb_inv_def by blast
  next
    assume "flipping n k s"
    from flipping_step [OF this k(3) assms(2) k(2)] show ?thesis using fr unfolding sb_inv_def by blast
  qed
qed

lemma sb_reachable_inv: "sb_reachable n s \<Longrightarrow> sb_inv n s"
  by (induction rule: sb_reachable.induct) (simp_all add: sb_start_inv sb_step_inv)

subsection \<open>The barrier separates the rounds\<close>

definition entered :: "barrier_type \<Rightarrow> nat \<Rightarrow> nat" where
  "entered s p = rounds s p + (if sb_pc s p \<in> {Decrement, Spinning, ResetCount, FlipSense} then 1 else 0)"

lemma round_bounds:
  assumes "sb_inv n s"
  obtains k where "\<forall>p < n. rounds s p \<le> k \<and> k \<le> entered s p"
proof (cases "starting n s")
  case True
  then have "\<forall>p < n. rounds s p \<le> 0 \<and> 0 \<le> entered s p" by (simp add: starting_def)
  then show ?thesis using that by blast
next
  case False
  then obtain k where "filling n k s \<or> flipping n k s" using assms unfolding sb_inv_def by blast
  then have "\<forall>p < n. rounds s p \<le> k \<and> k \<le> entered s p"
  proof
    assume "filling n k s"
    then have "outside k s p \<or> coming k s p \<or> waiting k s p \<or> released k s p" if "p < n" for p
      using that unfolding filling_def by blast
    then show ?thesis unfolding entered_def by (fastforce simp: where_defs)
  next
    assume "flipping n k s"
    then obtain l where "rounds s l = k" "\<forall>p < n. p \<noteq> l \<longrightarrow> waiting k s p" unfolding flipping_def by blast
    then have "rounds s p = k" if "p < n" for p using that by (cases "p = l") (auto simp: waiting_def)
    then show ?thesis by (simp add: entered_def)
  qed
  then show ?thesis using that by blast
qed

lemma sb_moves:
  assumes "sb_inv n s" "0 < n"
  shows "\<exists>p < n. sb_step n p s \<noteq> s"
proof (rule ccontr)
  assume "\<not> ?thesis"
  then have stuck: "sb_step n p s = s" if "p < n" for p using that by blast
  have pc: "sb_pc s p = Spinning \<and> sense s \<noteq> thrsense s p \<or> sb_pc s p = Start \<and> p \<noteq> 0 \<and> cores s = 0" if "p < n" for p
  proof -
    have "sb_pc (sb_step n p s) p = sb_pc s p" "rounds (sb_step n p s) p = rounds s p" using stuck [OF that] by simp_all
    then show ?thesis by (auto simp: sb_step_defs Let_def split: sb_pc.splits if_splits)
  qed
  show False
  proof (cases "starting n s")
    case True
    then show False using pc [OF assms(2)] by (auto simp: starting_def)
  next
    case False
    then obtain k where k: "cores s = n" "sense s = odd k" "filling n k s \<or> flipping n k s" using assms(1) unfolding sb_inv_def by blast
    have spin: "sb_pc s p = Spinning" "thrsense s p = even k" if "p < n" for p using pc [OF that] k(1,2) assms(2) by auto
    have "\<not> flipping n k s" using spin by (auto simp: flipping_def)
    then have f: "filling n k s" using k(3) by blast
    have "waiting k s p" if "p < n" for p
    proof -
      have "outside k s p \<or> coming k s p \<or> waiting k s p \<or> released k s p" using f that unfolding filling_def by blast
      then show ?thesis using spin [OF that] by (auto simp: where_defs)
    qed
    then have "card {p. p < n \<and> waiting k s p} = n" by (intro card_all) blast
    then show False using f unfolding filling_def by linarith
  qed
qed

text \<open>
  C22: the barrier can be used again and again. However the steps of \<open>n\<close> cores are interleaved, from
  the start of the test on, no core has left more barriers than any other core has entered, so all
  that the cores do before a barrier happens before anything they do after it; and some core can
  always move.
\<close>

theorem sense_barrier_separates:
  assumes "sb_reachable n s" "p < n" "q < n"
  shows "rounds s p \<le> entered s q \<and> (\<exists>r < n. sb_step n r s \<noteq> s)"
proof -
  note inv = sb_reachable_inv [OF assms(1)]
  obtain k where "\<forall>p < n. rounds s p \<le> k \<and> k \<le> entered s p" by (rule round_bounds [OF inv])
  then have "rounds s p \<le> entered s q" using assms(2,3) le_trans by blast
  then show ?thesis using sb_moves [OF inv] assms(2) by auto
qed

definition demo_sb :: barrier_type where
  "demo_sb = \<lparr>parties = 0, count = 0, sense = False, cores = 0, sb_pc = (\<lambda>_. Start), thrsense = (\<lambda>_. False), rounds = (\<lambda>_. 0)\<rparr>"

definition demo_sb_run :: "nat list \<Rightarrow> barrier_type" where "demo_sb_run ps = fold (sb_step 2) ps demo_sb"

lemma demo_sb_reachable: "set ps \<subseteq> {..<2} \<Longrightarrow> sb_reachable 2 (demo_sb_run ps)"
proof (induction ps rule: rev_induct)
  case Nil
  then show ?case by (auto simp: demo_sb_run_def demo_sb_def sb_start_def intro: sb_reachable.start)
next
  case (snoc p ps)
  then have "sb_reachable 2 (sb_step 2 p (demo_sb_run ps))" by (intro sb_reachable.step) auto
  then show ?case by (simp add: demo_sb_run_def)
qed

text \<open>Core 0 is in its second barrier and core 1 has not yet left the first one.\<close>

definition demo_sb_schedule :: "nat list" where "demo_sb_schedule = [0, 0, 1, 1, 0, 1, 0, 0, 0, 0]"

lemma sense_barrier_separates_witness:
  "rounds (demo_sb_run demo_sb_schedule) 0 = 1 \<and> entered (demo_sb_run demo_sb_schedule) 0 = 2 \<and>
   rounds (demo_sb_run demo_sb_schedule) 1 = 0 \<and> rounds (demo_sb_run demo_sb_schedule) 0 \<le> entered (demo_sb_run demo_sb_schedule) 1"
proof -
  have "sb_reachable 2 (demo_sb_run demo_sb_schedule)" by (rule demo_sb_reachable) (simp add: demo_sb_schedule_def)
  from sense_barrier_separates [OF this, of 0 1]
  have "rounds (demo_sb_run demo_sb_schedule) 0 \<le> entered (demo_sb_run demo_sb_schedule) 1" by simp
  then show ?thesis by (simp add: demo_sb_run_def demo_sb_def demo_sb_schedule_def sb_step_defs entered_def)
qed

end
