(* ===== verification/BindTst.thy ===== *)
theory BindTst
  imports CtrCPlus SenseBarrier
begin

text \<open>
  The application \<open>apps/bindtst/bindtst.c\<close>: all cores call one id while core 0 binds it to the null
  instance, to a first and to a second implementation of a service; barriers keep the cores in step
  (\<open>SenseBarrier\<close>). The function of the service is number 0 and its results are 100 and 200.
\<close>

definition FT_SrvImp0 :: ftname where "FT_SrvImp0 = FT_other 1"
definition FT_SrvImp1 :: ftname where "FT_SrvImp1 = FT_other 2"

definition NULLID :: u64 where "NULLID = 0"
definition EBBRC_NULL :: ebbrc where "EBBRC_NULL = -6"

record EBBInstance =
  inst_mf :: missfn
  inst_arg :: u64

text \<open>\<open>bt_passed\<close> is the variable \<open>passed\<close> of each core.\<close>

record bind_state = ebbmgr_state +
  bt_NULLId :: u64
  bt_theId :: u64
  bt_s0Inst :: EBBInstance
  bt_s1Inst :: EBBInstance
  bt_passed :: "nat \<Rightarrow> bool"

subsection \<open>The null instance\<close>

definition nullmissmf :: "nat \<Rightarrow> u64 \<Rightarrow> u64 \<Rightarrow> nat \<Rightarrow> u64 \<Rightarrow> 's \<Rightarrow> (ebbrc \<times> u64 \<times> 's) res" where
  "nullmissmf myid obj' lt fnum a s = Inr (EBBRC_NULL, obj', s)"

definition NULLInst :: EBBInstance where "NULLInst = \<lparr>inst_mf = nullmissmf_fp, inst_arg = 0\<rparr>"

definition bt_missfns :: "'z root_state_scheme callcr \<Rightarrow> 'z root_state_scheme malloc \<Rightarrow> 'z root_state_scheme callmf \<Rightarrow> 'z root_state_scheme callmf" where
  "bt_missfns callcr malloc other = miss_functions callcr malloc (\<lambda>m. if m = nullmissmf_fp then nullmissmf else other m)"

definition Bind :: "'z ebbmgr_state_scheme callmf \<Rightarrow> nat \<Rightarrow> u64 \<Rightarrow> EBBInstance \<Rightarrow> 'z ebbmgr_state_scheme \<Rightarrow> (ebbrc \<times> 'z ebbmgr_state_scheme) res" where
  "Bind callmf myid i inst s = EBBBindPrimId callmf myid i (inst_mf inst) (inst_arg inst) s"

definition L0InfoInit :: "'z bind_state_scheme callmf \<Rightarrow> nat \<Rightarrow> 'z bind_state_scheme \<Rightarrow> (ebbrc \<times> 'z bind_state_scheme) res" where
  "L0InfoInit callmf myid s =
     rbind (EBBAllocPrimId callmf myid s) (\<lambda>(rc, i, s).
     let s = s\<lparr>bt_NULLId := i\<rparr>
     in rbind (lrt_assert (EBBRC_SUCCESS rc)) (\<lambda>_.
     rbind (Bind callmf myid (bt_NULLId s) NULLInst s) (\<lambda>(rc, s).
     rbind (lrt_assert (EBBRC_SUCCESS rc)) (\<lambda>_. Inr (EBBRC_OK, s)))))"

definition CObjEBBInstance :: "u64 \<Rightarrow> EBBInstance" where
  "CObjEBBInstance root = \<lparr>inst_mf = CObjEBBMissFunc_fp, inst_arg = root\<rparr>"

subsection \<open>The service\<close>

definition sizeof_SrvImp :: u64 where "sizeof_SrvImp = 8"

definition SrvImpSetFT :: "ftname \<Rightarrow> u64 \<Rightarrow> 'z bind_state_scheme \<Rightarrow> 'z bind_state_scheme" where
  "SrvImpSetFT ft a s = s\<lparr>repft := (repft s)(a := ft)\<rparr>"

definition SrvImpCreate ::
    "ftname \<Rightarrow> 'z bind_state_scheme malloc \<Rightarrow> nat \<Rightarrow> 'z bind_state_scheme \<Rightarrow> (ebbrc \<times> EBBInstance \<times> 'z bind_state_scheme) res" where
  "SrvImpCreate ft malloc myid s =
     rbind (malloc myid sizeof_SrvImp s) (\<lambda>(rc, repRef, s).
     rbind (lrt_assert (EBBRC_SUCCESS rc)) (\<lambda>_.
     if repRef = 0 then Inl NullDeref
     else
       let s = SrvImpSetFT ft repRef s
       in rbind (CObjEBBRootSharedCreate malloc myid repRef s) (\<lambda>(rc, rootRef, s).
          rbind (lrt_assert (EBBRC_SUCCESS rc)) (\<lambda>_.
          Inr (EBBRC_OK, CObjEBBInstance rootRef, s)))))"

definition SrvImp0Create where "SrvImp0Create = SrvImpCreate FT_SrvImp0"
definition SrvImp1Create where "SrvImp1Create = SrvImpCreate FT_SrvImp1"

definition SrvImp0_op :: "u64 \<Rightarrow> ebbrc" where "SrvImp0_op self = 100"
definition SrvImp1_op :: "u64 \<Rightarrow> ebbrc" where "SrvImp1_op self = 200"

definition op_call :: "'z bind_state_scheme callmf \<Rightarrow> nat \<Rightarrow> u64 \<Rightarrow> 'z bind_state_scheme \<Rightarrow> (ebbrc \<times> 'z bind_state_scheme) res" where
  "op_call callmf myid i s =
     rbind (EBBCALL callmf myid i 0 s) (\<lambda>(c, s).
     case c of
       Failed rc \<Rightarrow> Inr (rc, s)
     | Called f self \<Rightarrow>
         if f = Method FT_SrvImp0 0 then Inr (SrvImp0_op self, s)
         else if f = Method FT_SrvImp1 0 then Inr (SrvImp1_op self, s)
         else Inl NullDeref)"

subsection \<open>The test\<close>

text \<open>What core \<open>myid\<close> does between two barriers; core 0 is the master.\<close>

definition bt_check :: "'z bind_state_scheme callmf \<Rightarrow> nat \<Rightarrow> ebbrc \<Rightarrow> 'z bind_state_scheme \<Rightarrow> 'z bind_state_scheme res" where
  "bt_check callmf myid r s =
     rbind (op_call callmf myid (bt_theId s) s) (\<lambda>(rc, s).
     Inr (if \<not> (bt_passed s myid \<and> rc = r) then s\<lparr>bt_passed := (bt_passed s)(myid := False)\<rparr> else s))"

definition bt_setup ::
    "'z bind_state_scheme callmf \<Rightarrow> 'z bind_state_scheme malloc \<Rightarrow> nat \<Rightarrow> 'z bind_state_scheme \<Rightarrow> 'z bind_state_scheme res" where
  "bt_setup callmf malloc myid s =
     rbind (SrvImp0Create malloc myid s) (\<lambda>(rc, inst, s).
     let s = s\<lparr>bt_s0Inst := inst\<rparr>
     in rbind (lrt_assert (EBBRC_SUCCESS rc)) (\<lambda>_.
     rbind (SrvImp1Create malloc myid s) (\<lambda>(rc, inst, s).
     let s = s\<lparr>bt_s1Inst := inst\<rparr>
     in rbind (lrt_assert (EBBRC_SUCCESS rc)) (\<lambda>_.
     rbind (EBBAllocPrimId callmf myid s) (\<lambda>(rc, i, s).
     let s = s\<lparr>bt_theId := i\<rparr>
     in rbind (lrt_assert (EBBRC_SUCCESS rc)) (\<lambda>_.
     rbind (Bind callmf myid (bt_theId s) NULLInst s) (\<lambda>(rc, s).
     rbind (lrt_assert (EBBRC_SUCCESS rc)) (\<lambda>_. Inr s))))))))"

definition bt_bind :: "'z bind_state_scheme callmf \<Rightarrow> nat \<Rightarrow> ('z bind_state_scheme \<Rightarrow> EBBInstance) \<Rightarrow> 'z bind_state_scheme \<Rightarrow> 'z bind_state_scheme res" where
  "bt_bind callmf myid inst s =
     rbind (Bind callmf myid (bt_theId s) (inst s) s) (\<lambda>(rc, s).
     rbind (lrt_assert (EBBRC_SUCCESS rc)) (\<lambda>_. Inr s))"

definition bt_null_call :: "'z bind_state_scheme callmf \<Rightarrow> nat \<Rightarrow> 'z bind_state_scheme \<Rightarrow> 'z bind_state_scheme res" where
  "bt_null_call callmf myid s =
     rbind (op_call callmf myid (bt_NULLId s) s) (\<lambda>(rc, s).
     rbind (lrt_assert (rc = EBBRC_NULL)) (\<lambda>_. Inr s))"

datatype bt_phase = InitInfo | CallNull | Check1 | BindS0 | Check2 | BindS1 | Check3

fun bt_core ::
    "'z bind_state_scheme callmf \<Rightarrow> 'z bind_state_scheme malloc \<Rightarrow> bt_phase \<Rightarrow> nat \<Rightarrow> 'z bind_state_scheme \<Rightarrow> 'z bind_state_scheme res" where
  "bt_core callmf malloc InitInfo myid s =
     (if myid = 0 then rbind (L0InfoInit callmf myid s) (\<lambda>(rc, s). rbind (lrt_assert (EBBRC_SUCCESS rc)) (\<lambda>_. Inr s)) else Inr s)"
| "bt_core callmf malloc CallNull myid s =
     rbind (bt_null_call callmf myid s) (\<lambda>s. if myid = 0 then bt_setup callmf malloc myid s else Inr s)"
| "bt_core callmf malloc Check1 myid s = bt_check callmf myid EBBRC_NULL s"
| "bt_core callmf malloc BindS0 myid s = (if myid = 0 then bt_bind callmf myid bt_s0Inst s else Inr s)"
| "bt_core callmf malloc Check2 myid s = bt_check callmf myid 100 s"
| "bt_core callmf malloc BindS1 myid s = (if myid = 0 then bt_bind callmf myid bt_s1Inst s else Inr s)"
| "bt_core callmf malloc Check3 myid s = bt_check callmf myid 200 s"

text \<open>
  In each phase every core runs its part once; the schedule says in which order. All cores start with
  \<open>passed\<close> set.
\<close>

definition bt_run_phase ::
    "'z bind_state_scheme callmf \<Rightarrow> 'z bind_state_scheme malloc \<Rightarrow> bt_phase \<times> nat list \<Rightarrow> 'z bind_state_scheme res \<Rightarrow> 'z bind_state_scheme res" where
  "bt_run_phase callmf malloc x r = fold (\<lambda>p r. rbind r (bt_core callmf malloc (fst x) p)) (snd x) r"

definition bt_phases :: "bt_phase list" where "bt_phases = [InitInfo, CallNull, Check1, BindS0, Check2, BindS1, Check3]"

definition BindTst_run ::
    "'z bind_state_scheme callmf \<Rightarrow> 'z bind_state_scheme malloc \<Rightarrow> nat list list \<Rightarrow> 'z bind_state_scheme \<Rightarrow> 'z bind_state_scheme res" where
  "BindTst_run callmf malloc orders s =
     fold (bt_run_phase callmf malloc) (zip bt_phases orders) (Inr (s\<lparr>bt_passed := (\<lambda>_. True)\<rparr>))"

end
