(* ===== verification/BindProps.thy ===== *)
theory BindProps
  imports BindTst
begin

text \<open>
  The test \<open>bindtst\<close> passes: every core sees, in each phase, the binding that core 0 has made last,
  whatever it had cached before.
\<close>

subsection \<open>Changes that concern one id\<close>

text \<open>Only the entries of id number \<open>k\<close> differ.\<close>

definition touched :: "nat \<Rightarrow> 'z bind_state_scheme \<Rightarrow> 'z bind_state_scheme \<Rightarrow> bool" where
  "touched k s s' \<longleftrightarrow> (\<exists>L G. s' = s\<lparr>ltab := L, gtab := G\<rparr> \<and>
     (\<forall>p < LRT_PIC_MAX_PICS. \<forall>j < num_ids. j \<noteq> k \<longrightarrow>
        L (local_entry s p (id_of (TransMem s) j)) = ltab s (local_entry s p (id_of (TransMem s) j))) \<and>
     (\<forall>j < num_ids. j \<noteq> k \<longrightarrow> G (entry_at (TransMem s) j) = gtab s (entry_at (TransMem s) j)))"

lemma touchedD:
  assumes "touched k s s'"
  shows "TransMem s' = TransMem s" "numlpics s' = numlpics s" "repft s' = repft s" "root_ft s' = root_ft s" "theRep s' = theRep s"
    "theEBBMgrPrimId s' = theEBBMgrPrimId s" "theEBBMemMgrPrimId s' = theEBBMemMgrPrimId s" "bootMem s' = bootMem s"
    "stupid_rep s' = stupid_rep s" "bt_NULLId s' = bt_NULLId s" "bt_theId s' = bt_theId s" "bt_s0Inst s' = bt_s0Inst s"
    "bt_s1Inst s' = bt_s1Inst s" "bt_passed s' = bt_passed s"
    "p < LRT_PIC_MAX_PICS \<Longrightarrow> j < num_ids \<Longrightarrow> j \<noteq> k \<Longrightarrow>
     ltab s' (local_entry s p (id_of (TransMem s) j)) = ltab s (local_entry s p (id_of (TransMem s) j))"
    "j < num_ids \<Longrightarrow> j \<noteq> k \<Longrightarrow> gtab s' (entry_at (TransMem s) j) = gtab s (entry_at (TransMem s) j)"
  using assms unfolding touched_def by auto

lemma touched_avail: "touched k s s' \<Longrightarrow> mem_avail s' = mem_avail s"
  using touchedD [of k s s'] by (simp add: mem_avail_def arena_def mem_rep_def)

lemma touched_mgr:
  assumes t: "touched k s s'" and m: "ebbmgr_on e 0 r s" and ne: "e \<noteq> k"
  shows "ebbmgr_on e 0 r s'"
proof (rule ebbmgr_on_cong [OF m])
  have "e < num_ids" using m by (simp add: ebbmgr_on_def)
  then show "ltab s' (local_entry s 0 (id_of (TransMem s) e)) = ltab s (local_entry s 0 (id_of (TransMem s) e))"
    using touchedD(15) [OF t _ _ ne, of 0] by (simp add: trans_size_values)
qed (simp_all add: touchedD [OF t] touched_avail [OF t])

lemma touched_funds:
  assumes t: "touched k s s'" and m: "mem_funds mm 0 n s" and ne: "mm \<noteq> k"
  shows "mem_funds mm 0 n s'"
proof (rule mem_funds_fields [OF m])
  show "ltab s' (local_entry s 0 (id_of (TransMem s) mm)) = ltab s (local_entry s 0 (id_of (TransMem s) mm))"
    using touchedD(15) [OF t fundsD(3,4) [OF m] ne] .
qed (simp_all add: touchedD [OF t])

lemma touched_alloc: "touched k s s' \<Longrightarrow> j < num_ids \<Longrightarrow> j \<noteq> k \<Longrightarrow> allocated s' j = allocated s j"
  by (simp add: allocated_def touchedD)

text \<open>Id number \<open>k\<close> is bound to the instance: each core has cached its representative or nothing.\<close>

definition bound_to :: "nat \<Rightarrow> EBBInstance \<Rightarrow> 'z bind_state_scheme \<Rightarrow> bool" where
  "bound_to k inst s \<longleftrightarrow> k < num_ids \<and> mf (gtab s (entry_at (TransMem s) k)) = inst_mf inst \<and>
     arg (gtab s (entry_at (TransMem s) k)) = inst_arg inst \<and>
     (\<forall>p < numlpics s. uncached s p k \<or>
        inst_mf inst = CObjEBBMissFunc_fp \<and> EBBId_DREF s p (id_of (TransMem s) k) = theRep s (inst_arg inst))"

definition offers :: "EBBInstance \<Rightarrow> ftname \<Rightarrow> 'z bind_state_scheme \<Rightarrow> bool" where
  "offers inst ft s \<longleftrightarrow> inst_mf inst = CObjEBBMissFunc_fp \<and> root_ft s (inst_arg inst) = CObjEBBRootSharedImp_ftable \<and>
     repft s (theRep s (inst_arg inst)) = ft \<and> \<not> is_ltrans_addr s (theRep s (inst_arg inst) - 8) \<and>
     inst_arg inst \<notin> mem_avail s \<and> theRep s (inst_arg inst) \<notin> mem_avail s"

lemma touched_bound: "touched k s s' \<Longrightarrow> bound_to j inst s \<Longrightarrow> j \<noteq> k \<Longrightarrow> numlpics s \<le> LRT_PIC_MAX_PICS \<Longrightarrow> bound_to j inst s'"
  by (auto simp: bound_to_def touchedD uncached_def EBBId_DREF_def EBBIdToLTrans_def)

lemma touched_offers: "touched k s s' \<Longrightarrow> offers inst ft s \<Longrightarrow> offers inst ft s'"
  by (simp add: offers_def touchedD touched_avail is_ltrans_addr_def)

subsection \<open>Calls\<close>

lemma null_call:
  assumes "bound_to k NULLInst s" "trans_mem_fits (TransMem s)" "p < numlpics s" "numlpics s \<le> LRT_PIC_MAX_PICS"
  shows "op_call (bt_missfns callcr malloc other) p (id_of (TransMem s) k) s = Inr (EBBRC_NULL, s)"
proof -
  have b: "k < num_ids" "uncached s p k" "mf (gtab s (entry_at (TransMem s) k)) = nullmissmf_fp"
    using assms(1,3) by (auto simp: bound_to_def NULLInst_def)
  have n: "0 < EBB_TRANS_MAX_FUNCS" by (simp add: EBB_TRANS_MAX_FUNCS_def)
  have "EBBCALL (bt_missfns callcr malloc other) p (id_of (TransMem s) k) 0 s = Inr (Failed EBBRC_NULL, s)"
    using EBBCALL_miss [OF assms(2) _ b(1) n b(2), of "bt_missfns callcr malloc other"] assms(3,4) b(3)
    by (simp add: bt_missfns_def miss_functions_def nullmissmf_def EBBRC_NULL_def EBBRC_SUCCESS_def)
  then show ?thesis by (simp add: op_call_def)
qed

lemma touched_cache:
  assumes "trans_mem_fits (TransMem s)" "p < LRT_PIC_MAX_PICS" "k < num_ids"
  shows "touched k s (EBBCacheObj p (local_entry s p (id_of (TransMem s) k)) r s)"
proof -
  have "local_entry s q (id_of (TransMem s) j) \<noteq> local_entry s p (id_of (TransMem s) k)" if "q < LRT_PIC_MAX_PICS" "j < num_ids" "j \<noteq> k" for q j
    using local_entry_inj [OF assms(1) that(1) assms(2) that(2) assms(3)] that(3) by blast
  moreover have "entry_at (TransMem s) j \<noteq> entry_at (TransMem s) k" if "j < num_ids" "j \<noteq> k" for j
    using entry_at_inj [OF that(1) assms(3)] that(2) by simp
  ultimately show ?thesis
    unfolding touched_def EBBCacheObj_eq upd_gt_def upd_lt_def by (intro exI conjI) auto
qed

lemma service_call:
  assumes b: "bound_to k inst s" and o: "offers inst ft s" and fit: "trans_mem_fits (TransMem s)"
    and p: "p < numlpics s" "numlpics s \<le> LRT_PIC_MAX_PICS" and ft: "ft \<noteq> EBBDefFT"
  shows "\<exists>s'. EBBCALL (bt_missfns callcr malloc other) p (id_of (TransMem s) k) 0 s = Inr (Called (Method ft 0) (theRep s (inst_arg inst)), s') \<and>
    touched k s s' \<and> bound_to k inst s'"
proof -
  let ?cm = "bt_missfns callcr malloc other" and ?r = "theRep s (inst_arg inst)"
  note bD = b [unfolded bound_to_def] and oD = o [unfolded offers_def]
  have rep: "rep_ft s ?r = ft" using oD by (simp add: rep_ft_def)
  have k: "k < num_ids" using bD by blast
  have pm: "p < LRT_PIC_MAX_PICS" using p by simp
  show ?thesis
  proof (cases "uncached s p k")
    case False
    then have "EBBId_DREF s p (id_of (TransMem s) k) = ?r" using bD p(1) by blast
    then have "EBBCALL ?cm p (id_of (TransMem s) k) 0 s = Inr (Called (Method ft 0) ?r, s)" by (rule EBBCALL_hit [OF _ rep ft])
    moreover have "touched k s s" unfolding touched_def by (intro exI [of _ "ltab s"] exI [of _ "gtab s"]) simp
    ultimately show ?thesis using b by blast
  next
    case True
    let ?s = "EBBCacheObj p (local_entry s p (id_of (TransMem s) k)) ?r s"
    have n: "0 < EBB_TRANS_MAX_FUNCS" by (simp add: EBB_TRANS_MAX_FUNCS_def)
    have call: "EBBCALL ?cm p (id_of (TransMem s) k) 0 s = Inr (Called (Method ft 0) ?r, ?s)"
      using EBBCALL_miss [OF fit pm k n True, of ?cm] bD oD rep ft
      by (simp add: bt_missfns_def miss_functions_def CObjEBBMissFunc_def CObjEBBRootSharedImp_handleMiss_def ft_lookup_def Let_def)
    have t: "touched k s ?s" by (rule touched_cache [OF fit pm k])
    have "uncached ?s q k \<or> EBBId_DREF ?s q (id_of (TransMem s) k) = ?r" if q: "q < numlpics s" for q
    proof (cases "q = p")
      case True
      then show ?thesis by (simp add: EBBCacheObj_eq EBBId_DREF_def EBBIdToLTrans_def)
    next
      case False
      have "local_entry s q (id_of (TransMem s) k) \<noteq> local_entry s p (id_of (TransMem s) k)"
        using local_entry_inj [OF fit _ pm k k, of q] False q p by auto
      then have "ltab ?s (local_entry s q (id_of (TransMem s) k)) = ltab s (local_entry s q (id_of (TransMem s) k))"
        by (simp add: EBBCacheObj_eq)
      then show ?thesis using bD q by (auto simp: uncached_def EBBId_DREF_def EBBIdToLTrans_def touchedD(1) [OF t])
    qed
    then have "bound_to k inst ?s"
      using bD oD unfolding bound_to_def by (simp add: touchedD [OF t])
    then show ?thesis using call t by blast
  qed
qed

subsection \<open>Binding and creating\<close>

lemma bind_to:
  assumes m: "ebbmgr_on e 0 r s" and fit: "trans_mem_fits (TransMem s)" and n: "0 < numlpics s" "numlpics s \<le> LRT_PIC_MAX_PICS"
    and k: "k < num_ids"
  shows "\<exists>s'. Bind callmf 0 (id_of (TransMem s) k) inst s = Inr (EBBRC_OK, s') \<and> touched k s s' \<and> bound_to k inst s' \<and>
    allocated s' k = allocated s k"
proof -
  let ?t = "upd_gt (entry_at (TransMem s) k) (\<lambda>g. g\<lparr>mf := inst_mf inst, arg := inst_arg inst\<rparr>) s"
  let ?s = "invalidated (id_of (TransMem s) k) {..<numlpics s} ?t"
  have bind: "Bind callmf 0 (id_of (TransMem s) k) inst s = Inr (EBBRC_OK, ?s)"
    using TransEBBIdBind_eq [OF fit n(2,1) k, of "inst_mf inst" "inst_arg inst"]
    by (simp add: Bind_def EBBBindPrimId_def ebbmgr_on_call [OF m] BindId_def)
  have lt: "ltab ?s (local_entry s p (id_of (TransMem s) j)) =
      (if p < numlpics s \<and> j = k then default_lt (local_entry s p (id_of (TransMem s) j)) else ltab s (local_entry s p (id_of (TransMem s) j)))"
    if "p < LRT_PIC_MAX_PICS" "j < num_ids" for p j
    using ltab_invalidated [of ?t "numlpics s" p k j] fit n(2) k that by simp
  have "entry_at (TransMem s) j \<noteq> entry_at (TransMem s) k" if "j < num_ids" "j \<noteq> k" for j
    using entry_at_inj [OF that(1) k] that(2) by simp
  moreover have "?s = s\<lparr>ltab := ltab ?s, gtab := gtab ?s\<rparr>" by (simp add: invalidated_def upd_gt_def)
  ultimately have "touched k s ?s"
    unfolding touched_def by (intro exI [of _ "ltab ?s"] exI [of _ "gtab ?s"]) (simp add: lt)
  moreover have "bound_to k inst ?s" using k n lt by (simp add: bound_to_def uncached_def)
  moreover have "allocated ?s k = allocated s k" by (simp add: allocated_def)
  ultimately show ?thesis using bind by blast
qed

lemma alloc_id:
  assumes m: "ebbmgr_on e 0 r s" and i: "i < myNumGTrans" "\<not> allocated s i"
  shows "\<exists>k s'. EBBAllocPrimId callmf 0 s = Inr (EBBRC_OK, id_of (TransMem s) k, s') \<and> touched k s s' \<and> k < num_ids \<and>
    k < myNumGTrans \<and> \<not> allocated s k \<and> allocated s' k"
proof -
  obtain k where k: "k < myNumGTrans" "\<not> allocated s k"
    "TransEBBIdAlloc 0 s = (id_of (TransMem s) k, upd_gt (entry_at (TransMem s) k) (\<lambda>g. g\<lparr>free := ALLOCATED\<rparr>) s)"
    using TransEBBIdAlloc_some [of i s 0] i by auto
  have n: "k < num_ids" using portion_in_range [of 0 k] k(1) by (simp add: trans_size_values)
  let ?s = "upd_gt (entry_at (TransMem s) k) (\<lambda>g. g\<lparr>free := ALLOCATED\<rparr>) s"
  have "entry_at (TransMem s) j \<noteq> entry_at (TransMem s) k" if "j < num_ids" "j \<noteq> k" for j
    using entry_at_inj [OF that(1) n] that(2) by simp
  then have "touched k s ?s" unfolding touched_def by (intro exI [of _ "ltab s"] exI [of _ "gtab ?s"]) (simp add: upd_gt_def)
  moreover have "allocated ?s k" by (simp add: allocated_def)
  ultimately show ?thesis using k n by (auto simp: EBBAllocPrimId_def ebbmgr_on_call [OF m] AllocId_def)
qed

text \<open>An instance of the service is made; nothing that existed before changes.\<close>

definition kept :: "'z bind_state_scheme \<Rightarrow> 'z bind_state_scheme \<Rightarrow> bool" where
  "kept s s' \<longleftrightarrow> TransMem s' = TransMem s \<and> gtab s' = gtab s \<and> ltab s' = ltab s \<and> numlpics s' = numlpics s \<and>
     theEBBMgrPrimId s' = theEBBMgrPrimId s \<and> bt_NULLId s' = bt_NULLId s \<and> bt_passed s' = bt_passed s \<and> mem_avail s' \<subseteq> mem_avail s \<and>
     (\<forall>b. b \<notin> mem_avail s \<longrightarrow> repft s' b = repft s b \<and> root_ft s' b = root_ft s b \<and> theRep s' b = theRep s b)"

lemma keptD:
  assumes "kept s s'"
  shows "TransMem s' = TransMem s" "gtab s' = gtab s" "ltab s' = ltab s" "numlpics s' = numlpics s"
    "theEBBMgrPrimId s' = theEBBMgrPrimId s" "bt_NULLId s' = bt_NULLId s" "bt_passed s' = bt_passed s" "mem_avail s' \<subseteq> mem_avail s"
    "b \<notin> mem_avail s \<Longrightarrow> repft s' b = repft s b" "b \<notin> mem_avail s \<Longrightarrow> root_ft s' b = root_ft s b" "b \<notin> mem_avail s \<Longrightarrow> theRep s' b = theRep s b"
  using assms unfolding kept_def by blast+

lemma kept_mgr:
  assumes k: "kept s s'" and m: "ebbmgr_on e 0 r s"
  shows "ebbmgr_on e 0 r s'"
proof -
  have "r \<notin> mem_avail s" using m by (simp add: ebbmgr_on_def)
  then show ?thesis by (intro ebbmgr_on_cong [OF m]) (simp_all add: keptD [OF k])
qed

lemma kept_offers:
  assumes k: "kept s s'" and o: "offers inst ft s"
  shows "offers inst ft s'"
proof -
  note oD = o [unfolded offers_def]
  have "inst_arg inst \<notin> mem_avail s'" "theRep s (inst_arg inst) \<notin> mem_avail s'" using oD keptD(8) [OF k] by blast+
  then show ?thesis using oD by (simp add: offers_def keptD [OF k] is_ltrans_addr_def)
qed

lemma kept_null: "kept s s' \<Longrightarrow> bound_to k NULLInst s \<Longrightarrow> bound_to k NULLInst s'"
  by (simp add: bound_to_def keptD uncached_def NULLInst_def)

lemma create_offers:
  assumes f: "mem_funds mm 0 (24 + j) s"
  shows "\<exists>inst s'. SrvImpCreate ft (EBBPrimMalloc Stupid callmf) 0 s = Inr (EBBRC_OK, inst, s') \<and> offers inst ft s' \<and> kept s s' \<and>
    mem_funds mm 0 j s' \<and> bt_s0Inst s' = bt_s0Inst s"
proof -
  have sz: "unat sizeof_SrvImp = 8" "unat sizeof_CObjEBBRootSharedImp = 16" by (simp_all add: sizeof_SrvImp_def sizeof_CObjEBBRootSharedImp_def)
  define a where "a = stupid_mem (stupid_rep s (mem_rep s 0))"
  define s1 where "s1 = (bump_by sizeof_SrvImp 0 s)\<lparr>repft := (repft s)(a := ft)\<rparr>"
  have r1: "same_roots (bump_by sizeof_SrvImp 0 s) s1" by (simp add: s1_def same_roots_def root_state.defs)
  have o1: "a \<noteq> 0 \<and> a \<in> mem_avail s \<and> a \<notin> mem_avail s1 \<and> mem_avail s1 \<subseteq> mem_avail s \<and> mem_funds mm 0 (16 + j) s1"
    using made_object [OF f, of sizeof_SrvImp s1, folded a_def, OF _ _ _ _ _ r1] sz by (simp add: s1_def)
  define root where "root = stupid_mem (stupid_rep s1 (mem_rep s1 0))"
  define s2 where "s2 = bump_by sizeof_CObjEBBRootSharedImp 0 s1"
  have f1: "mem_funds mm 0 (16 + j) s1" using o1 by blast
  have o2: "root \<noteq> 0 \<and> root \<in> mem_avail s1 \<and> root \<notin> mem_avail s2 \<and> mem_avail s2 \<subseteq> mem_avail s1"
    using bump_avail [OF f1, of sizeof_CObjEBBRootSharedImp] sz by (simp add: root_def s2_def)
  have f2: "mem_funds mm 0 j s2" using bump_funds(1) [OF f1, of sizeof_CObjEBBRootSharedImp] sz by (simp add: s2_def)
  define s3 where "s3 = s2\<lparr>root_ft := (root_ft s2)(root := CObjEBBRootSharedImp_ftable), theRep := (theRep s2)(root := a)\<rparr>"
  have run: "SrvImpCreate ft (EBBPrimMalloc Stupid callmf) 0 s = Inr (EBBRC_OK, CObjEBBInstance root, s3)"
    using bump_malloc [OF f, of sizeof_SrvImp callmf] bump_malloc [OF f1, of sizeof_CObjEBBRootSharedImp callmf] sz o1 o2
    by (simp add: SrvImpCreate_def SrvImpSetFT_def CObjEBBRootSharedCreate_def CObjEBBRootSharedSetFT_def CObjEBBRootSharedImp_init_def
      a_def [symmetric] s1_def [symmetric] root_def [symmetric] s2_def [symmetric] s3_def)
  have t: "TransMem s3 = TransMem s" "gtab s3 = gtab s" "ltab s3 = ltab s" "numlpics s3 = numlpics s" "theEBBMgrPrimId s3 = theEBBMgrPrimId s"
    "bt_NULLId s3 = bt_NULLId s" "bt_passed s3 = bt_passed s" "bt_s0Inst s3 = bt_s0Inst s" "repft s3 = (repft s)(a := ft)"
    "root_ft s3 = (root_ft s)(root := CObjEBBRootSharedImp_ftable)" "theRep s3 = (theRep s)(root := a)"
    by (simp_all add: s3_def s2_def s1_def bump_by_def Let_def)
  have av: "mem_avail s3 = mem_avail s2" by (simp add: s3_def mem_avail_def arena_def mem_rep_def)
  have na: "\<not> is_ltrans_addr s3 (a - 8)" using bump.avail_objects [OF f, of a] o1 by (simp add: is_ltrans_addr_def t)
  have "kept s s3" using o1 o2 by (auto simp: kept_def t av)
  moreover have "offers (CObjEBBInstance root) ft s3" using o1 o2 na by (auto simp: offers_def CObjEBBInstance_def t av)
  moreover have "mem_funds mm 0 j s3" by (rule mem_funds_fields [OF f2]) (simp_all add: s3_def)
  ultimately show ?thesis using run t(8) by blast
qed

subsection \<open>Phases\<close>

lemma phase_all:
  assumes "P s" "\<And>p s. p \<in> set ps \<Longrightarrow> P s \<Longrightarrow> \<exists>s'. f p s = Inr s' \<and> P s'"
  shows "\<exists>s'. fold (\<lambda>p r. rbind r (f p)) ps (Inr s) = Inr s' \<and> P s'"
  using assms
proof (induction ps arbitrary: s)
  case (Cons z zs)
  obtain s1 where "f z s = Inr s1" "P s1" using Cons.prems(2) [OF _ Cons.prems(1), of z] by auto
  then show ?case using Cons.IH [of s1] Cons.prems(2) by simp
qed simp

text \<open>
  A phase in which only core 0 changes more than its own cache: the others keep what holds before and
  what holds after.
\<close>

lemma phase_master:
  assumes "distinct ps" "(0 :: nat) \<in> set ps" "P s"
    and "\<And>p s. p \<in> set ps \<Longrightarrow> p \<noteq> 0 \<Longrightarrow> P s \<Longrightarrow> \<exists>s'. f p s = Inr s' \<and> P s'"
    and "\<And>p s. p \<in> set ps \<Longrightarrow> p \<noteq> 0 \<Longrightarrow> Q s \<Longrightarrow> \<exists>s'. f p s = Inr s' \<and> Q s'"
    and "\<And>s. P s \<Longrightarrow> \<exists>s'. f 0 s = Inr s' \<and> Q s'"
  shows "\<exists>s'. fold (\<lambda>p r. rbind r (f p)) ps (Inr s) = Inr s' \<and> Q s'"
proof -
  obtain xs ys where ps: "ps = xs @ 0 # ys" using split_list [OF assms(2)] by blast
  have "\<exists>s1. fold (\<lambda>p r. rbind r (f p)) xs (Inr s) = Inr s1 \<and> P s1"
    by (rule phase_all [where P = P and f = f, OF assms(3)]) (use assms(1,4) ps in auto)
  then obtain s1 where s1: "fold (\<lambda>p r. rbind r (f p)) xs (Inr s) = Inr s1" "P s1" by blast
  obtain s2 where s2: "f 0 s1 = Inr s2" "Q s2" using assms(6) [OF s1(2)] by blast
  have "\<exists>s3. fold (\<lambda>p r. rbind r (f p)) ys (Inr s2) = Inr s3 \<and> Q s3"
    by (rule phase_all [where P = Q and f = f, OF s2(2)]) (use assms(1,5) ps in auto)
  then show ?thesis using ps s1 s2 by simp
qed

text \<open>A machine of \<open>n\<close> cores with the Ebb manager cached on core 0.\<close>

definition bt_base :: "nat \<Rightarrow> u64 \<Rightarrow> nat \<Rightarrow> 'z bind_state_scheme \<Rightarrow> bool" where
  "bt_base e r n s \<longleftrightarrow> ebbmgr_on e 0 r s \<and> trans_mem_fits (TransMem s) \<and> numlpics s = n \<and> 0 < n \<and> n \<le> LRT_PIC_MAX_PICS \<and>
     allocated s e \<and> (\<forall>p. bt_passed s p)"

text \<open>At the start, after the null instance has been made, and when the service has been made.\<close>

definition bt_fresh :: "nat \<Rightarrow> nat \<Rightarrow> u64 \<Rightarrow> nat \<Rightarrow> 'z bind_state_scheme \<Rightarrow> bool" where
  "bt_fresh mm e r n s \<longleftrightarrow> bt_base e r n s \<and> mem_funds mm 0 48 s \<and> allocated s mm \<and>
     (\<exists>i j. i < myNumGTrans \<and> j < myNumGTrans \<and> i \<noteq> j \<and> \<not> allocated s i \<and> \<not> allocated s j)"

definition bt_null :: "nat \<Rightarrow> nat \<Rightarrow> u64 \<Rightarrow> nat \<Rightarrow> 'z bind_state_scheme \<Rightarrow> bool" where
  "bt_null mm e r n s \<longleftrightarrow> bt_base e r n s \<and> mem_funds mm 0 48 s \<and> allocated s mm \<and>
     (\<exists>k. bt_NULLId s = id_of (TransMem s) k \<and> bound_to k NULLInst s \<and> allocated s k) \<and> (\<exists>j < myNumGTrans. \<not> allocated s j)"

definition bt_service :: "nat \<Rightarrow> u64 \<Rightarrow> nat \<Rightarrow> (EBBInstance \<Rightarrow> EBBInstance \<Rightarrow> EBBInstance) \<Rightarrow> 'z bind_state_scheme \<Rightarrow> bool" where
  "bt_service e r n pick s \<longleftrightarrow> bt_base e r n s \<and> offers (bt_s0Inst s) FT_SrvImp0 s \<and> offers (bt_s1Inst s) FT_SrvImp1 s \<and>
     (\<exists>k j. k \<noteq> e \<and> j \<noteq> k \<and> bt_theId s = id_of (TransMem s) k \<and> bound_to k (pick (bt_s0Inst s) (bt_s1Inst s)) s \<and>
        bt_NULLId s = id_of (TransMem s) j \<and> bound_to j NULLInst s)"

lemma base_id: "bt_base e r n s \<Longrightarrow> e < num_ids" by (simp add: bt_base_def ebbmgr_on_def)

lemma touched_base:
  assumes t: "touched k s s'" and b: "bt_base e r n s" and ne: "e \<noteq> k"
  shows "bt_base e r n s'"
proof -
  note bD = b [unfolded bt_base_def]
  have "ebbmgr_on e 0 r s'" using touched_mgr [OF t _ ne] bD by blast
  moreover have "allocated s' e" using touched_alloc [OF t base_id [OF b] ne] bD by blast
  ultimately show ?thesis using bD by (simp add: bt_base_def touchedD(1,2,14) [OF t])
qed

lemma init_info:
  assumes "bt_fresh mm e r n s"
  shows "\<exists>s'. L0InfoInit callmf 0 s = Inr (EBBRC_OK, s') \<and> bt_null mm e r n s'"
proof -
  note fD = assms [unfolded bt_fresh_def]
  note bD = conjunct1 [OF fD, unfolded bt_base_def]
  have m: "ebbmgr_on e 0 r s" and mm: "mem_funds mm 0 48 s" "allocated s mm" "mm < num_ids" using fD bD fundsD(4) by blast+
  obtain i j where ij: "i < myNumGTrans" "j < myNumGTrans" "i \<noteq> j" "\<not> allocated s i" "\<not> allocated s j" using fD by blast
  obtain k s1 where k: "EBBAllocPrimId callmf 0 s = Inr (EBBRC_OK, id_of (TransMem s) k, s1)" "touched k s s1" "k < num_ids"
    "k < myNumGTrans" "\<not> allocated s k" "allocated s1 k" using alloc_id [OF m ij(1,4)] by blast
  have ne: "e \<noteq> k" "mm \<noteq> k" using k(5) bD mm(2) by blast+
  let ?s1 = "s1\<lparr>bt_NULLId := id_of (TransMem s) k\<rparr>"
  have b1: "bt_base e r n s1" by (rule touched_base [OF k(2) conjunct1 [OF fD] ne(1)])
  have m1: "ebbmgr_on e 0 r ?s1" and f1: "trans_mem_fits (TransMem ?s1)" "0 < numlpics ?s1" "numlpics ?s1 \<le> LRT_PIC_MAX_PICS"
    using b1 by (auto simp: bt_base_def ebbmgr_on_def EBBId_DREF_def EBBIdToLTrans_def is_ltrans_addr_def mem_avail_def arena_def mem_rep_def)
  obtain s2 where s2: "Bind callmf 0 (id_of (TransMem ?s1) k) NULLInst ?s1 = Inr (EBBRC_OK, s2)" "touched k ?s1 s2" "bound_to k NULLInst s2"
    "allocated s2 k = allocated ?s1 k" using bind_to [OF m1 f1 k(3)] by blast
  have tm: "TransMem ?s1 = TransMem s" "TransMem s2 = TransMem s" using touchedD(1) [OF k(2)] touchedD(1) [OF s2(2)] by simp_all
  have "bt_base e r n ?s1" using b1 m1 by (simp add: bt_base_def allocated_def)
  then have base: "bt_base e r n s2" by (rule touched_base [OF s2(2) _ ne(1)])
  have "mem_funds mm 0 48 ?s1"
    by (rule mem_funds_fields [OF touched_funds [OF k(2) mm(1) ne(2)]]) simp_all
  then have funds: "mem_funds mm 0 48 s2" by (rule touched_funds [OF s2(2) _ ne(2)])
  have al: "allocated s2 l = allocated s l" if "l < num_ids" "l \<noteq> k" for l
    using touched_alloc [OF k(2) that] touched_alloc [OF s2(2) that] by (simp add: allocated_def)
  have lt: "l < num_ids" if "l < myNumGTrans" for l using portion_in_range [of 0 l] that by (simp add: trans_size_values)
  have "\<exists>l < myNumGTrans. \<not> allocated s2 l" using ij al lt by (metis)
  moreover have "allocated s2 mm" using al [OF mm(3) ne(2)] mm(2) by simp
  moreover have "allocated s2 k" using s2(4) k(6) by (simp add: allocated_def)
  ultimately have "bt_null mm e r n s2" using base funds s2(3) touchedD(10) [OF s2(2)] tm by (auto simp: bt_null_def)
  then show ?thesis using k(1) s2(1) tm by (simp add: L0InfoInit_def)
qed

lemma bt_serviceI:
  assumes "bt_base e r n s" "offers (bt_s0Inst s) FT_SrvImp0 s" "offers (bt_s1Inst s) FT_SrvImp1 s" "k \<noteq> e" "j \<noteq> k"
    "bt_theId s = id_of (TransMem s) k" "bound_to k (pick (bt_s0Inst s) (bt_s1Inst s)) s"
    "bt_NULLId s = id_of (TransMem s) j" "bound_to j NULLInst s"
  shows "bt_service e r n pick s"
  using assms unfolding bt_service_def by blast

lemma bt_null_stays:
  assumes "bt_null mm e r n s" "p < n"
  shows "bt_null_call (bt_missfns callcr malloc other) p s = Inr s"
proof -
  obtain k where k: "bt_NULLId s = id_of (TransMem s) k" "bound_to k NULLInst s" using assms(1) unfolding bt_null_def by blast
  have b: "trans_mem_fits (TransMem s)" "p < numlpics s" "numlpics s \<le> LRT_PIC_MAX_PICS"
    using assms unfolding bt_null_def bt_base_def by auto
  show ?thesis using null_call [OF k(2) b] k(1) by (simp add: bt_null_call_def)
qed

lemma bt_service_null:
  assumes "bt_service e r n pick s" "p < n"
  shows "bt_null_call (bt_missfns callcr malloc other) p s = Inr s"
proof -
  obtain k where k: "bt_NULLId s = id_of (TransMem s) k" "bound_to k NULLInst s" using assms(1) unfolding bt_service_def by blast
  have b: "trans_mem_fits (TransMem s)" "p < numlpics s" "numlpics s \<le> LRT_PIC_MAX_PICS"
    using assms unfolding bt_service_def bt_base_def by auto
  show ?thesis using null_call [OF k(2) b] k(1) by (simp add: bt_null_call_def)
qed

text \<open>The assignments to the variables of the program change nothing else.\<close>

lemma bt_vars [simp]:
  "trans_mem_fits (TransMem (s\<lparr>bt_s0Inst := x\<rparr>)) = trans_mem_fits (TransMem s)"
  "ebbmgr_on e q r (s\<lparr>bt_s0Inst := x\<rparr>) = ebbmgr_on e q r s" "ebbmgr_on e q r (s\<lparr>bt_s1Inst := x\<rparr>) = ebbmgr_on e q r s"
  "ebbmgr_on e q r (s\<lparr>bt_theId := i\<rparr>) = ebbmgr_on e q r s"
  "offers y ft (s\<lparr>bt_s0Inst := x\<rparr>) = offers y ft s" "offers y ft (s\<lparr>bt_s1Inst := x\<rparr>) = offers y ft s"
  "offers y ft (s\<lparr>bt_theId := i\<rparr>) = offers y ft s"
  "bound_to k y (s\<lparr>bt_s0Inst := x\<rparr>) = bound_to k y s" "bound_to k y (s\<lparr>bt_s1Inst := x\<rparr>) = bound_to k y s"
  "bound_to k y (s\<lparr>bt_theId := i\<rparr>) = bound_to k y s"
  "mem_funds mm q j (s\<lparr>bt_s0Inst := x\<rparr>) = mem_funds mm q j s" "mem_funds mm q j (s\<lparr>bt_s1Inst := x\<rparr>) = mem_funds mm q j s"
  "allocated (s\<lparr>bt_s0Inst := x\<rparr>) j = allocated s j" "allocated (s\<lparr>bt_s1Inst := x\<rparr>) j = allocated s j"
  "allocated (s\<lparr>bt_theId := i\<rparr>) j = allocated s j"
  by (simp_all add: ebbmgr_on_def offers_def bound_to_def allocated_def EBBId_DREF_def EBBIdToLTrans_def is_ltrans_addr_def mem_avail_def
    arena_def mem_rep_def uncached_def mem_funds_def boot_mem_ok_def cong: conj_cong)

lemma setup_service:
  assumes "bt_null mm e r n s"
  shows "\<exists>s'. bt_setup callmf (EBBPrimMalloc Stupid callmf') 0 s = Inr s' \<and> bt_service e r n (\<lambda>_ _. NULLInst) s'"
proof -
  note fD = assms [unfolded bt_null_def]
  note bD = conjunct1 [OF fD, unfolded bt_base_def]
  obtain kn j where kn: "bt_NULLId s = id_of (TransMem s) kn" "bound_to kn NULLInst s" "allocated s kn" and j: "j < myNumGTrans" "\<not> allocated s j"
    using fD by blast
  have f48: "mem_funds mm 0 (24 + 24) s" using fD by simp
  obtain i0 s1 where i0: "SrvImpCreate FT_SrvImp0 (EBBPrimMalloc Stupid callmf') 0 s = Inr (EBBRC_OK, i0, s1)" "offers i0 FT_SrvImp0 s1"
    "kept s s1" "mem_funds mm 0 24 s1" using create_offers [OF f48] by blast
  let ?s1 = "s1\<lparr>bt_s0Inst := i0\<rparr>"
  have f24: "mem_funds mm 0 (24 + 0) ?s1" using i0(4) by simp
  obtain i1 s2 where i1: "SrvImpCreate FT_SrvImp1 (EBBPrimMalloc Stupid callmf') 0 ?s1 = Inr (EBBRC_OK, i1, s2)" "offers i1 FT_SrvImp1 s2"
    "kept ?s1 s2" "bt_s0Inst s2 = i0" using create_offers [OF f24] by force
  let ?s2 = "s2\<lparr>bt_s1Inst := i1\<rparr>"
  have off0: "offers i0 FT_SrvImp0 ?s2" using kept_offers [OF i1(3), of i0] i0(2) by simp
  have m2: "ebbmgr_on e 0 r ?s2" using kept_mgr [OF i1(3)] kept_mgr [OF i0(3)] bD by simp
  have n2: "bound_to kn NULLInst ?s2" using kept_null [OF i1(3)] kept_null [OF i0(3) kn(2)] by simp
  have t2: "TransMem ?s2 = TransMem s" "numlpics ?s2 = numlpics s" "bt_NULLId ?s2 = bt_NULLId s" "bt_passed ?s2 = bt_passed s"
    "gtab ?s2 = gtab s" using keptD [OF i0(3)] keptD [OF i1(3)] by simp_all
  have al2: "allocated ?s2 l = allocated s l" for l using t2 by (simp add: allocated_def)
  obtain k s3 where k: "EBBAllocPrimId callmf 0 ?s2 = Inr (EBBRC_OK, id_of (TransMem ?s2) k, s3)" "touched k ?s2 s3" "k < num_ids"
    "\<not> allocated ?s2 k" using alloc_id [OF m2 j(1)] j(2) al2 by blast
  have ne: "e \<noteq> k" "kn \<noteq> k" using k(4) al2 bD kn(3) by auto
  let ?s3 = "s3\<lparr>bt_theId := id_of (TransMem ?s2) k\<rparr>"
  have m3: "ebbmgr_on e 0 r ?s3" using touched_mgr [OF k(2) m2 ne(1)] by simp
  have t3: "TransMem s3 = TransMem s" "numlpics s3 = numlpics s" "bt_NULLId s3 = bt_NULLId s" "bt_passed s3 = bt_passed s"
    "bt_s0Inst s3 = i0" "bt_s1Inst s3 = i1"
    using touchedD [OF k(2)] t2 i1(4) by simp_all
  have b3: "trans_mem_fits (TransMem ?s3)" "0 < numlpics ?s3" "numlpics ?s3 \<le> LRT_PIC_MAX_PICS" using bD t3 by auto
  obtain s4 where s4: "Bind callmf 0 (id_of (TransMem ?s3) k) NULLInst ?s3 = Inr (EBBRC_OK, s4)" "touched k ?s3 s4" "bound_to k NULLInst s4"
    using bind_to [OF m3 b3 k(3)] by blast
  note t4 = touchedD [OF s4(2)]
  have o4: "offers i0 FT_SrvImp0 s4" "offers i1 FT_SrvImp1 s4"
    using touched_offers [OF s4(2)] touched_offers [OF k(2)] off0 i1(2) by simp_all
  have "bound_to kn NULLInst s3" by (rule touched_bound [OF k(2) n2 ne(2)]) (use bD t2 in simp)
  then have n4: "bound_to kn NULLInst s4" by (intro touched_bound [OF s4(2) _ ne(2) b3(3)]) simp
  have e4: "allocated s4 e"
    using touched_alloc [OF s4(2) base_id [OF conjunct1 [OF fD]] ne(1)] touched_alloc [OF k(2) base_id [OF conjunct1 [OF fD]] ne(1)] al2 bD by simp
  have "bt_base e r n s4" using bD e4 touched_mgr [OF s4(2) m3 ne(1)] t4 t3 by (simp add: bt_base_def)
  then have "bt_service e r n (\<lambda>_ _. NULLInst) s4"
    by (rule bt_serviceI [where k = k and j = kn]) (use o4 n4 s4(3) ne t4 t3 kn(1) t2 in simp_all)
  moreover have "bt_setup callmf (EBBPrimMalloc Stupid callmf') 0 s = Inr s4"
    using i0(1) i1(1) k(1) s4(1) t3 t2 by (simp add: bt_setup_def SrvImp0Create_def SrvImp1Create_def)
  ultimately show ?thesis by blast
qed

lemma bt_rebind:
  assumes "bt_service e r n pick s" "inst = (\<lambda>s. pick' (bt_s0Inst s) (bt_s1Inst s))"
  shows "\<exists>s'. bt_bind callmf 0 inst s = Inr s' \<and> bt_service e r n pick' s'"
proof -
  note sD = assms(1) [unfolded bt_service_def]
  note bD = conjunct1 [OF sD, unfolded bt_base_def]
  obtain k j where k: "k \<noteq> e" "bt_theId s = id_of (TransMem s) k" "bound_to k (pick (bt_s0Inst s) (bt_s1Inst s)) s"
    and j: "j \<noteq> k" "bt_NULLId s = id_of (TransMem s) j" "bound_to j NULLInst s" using sD by blast
  have kn: "k < num_ids" using k(3) by (simp add: bound_to_def)
  have b: "ebbmgr_on e 0 r s" "trans_mem_fits (TransMem s)" "0 < numlpics s" "numlpics s \<le> LRT_PIC_MAX_PICS" using bD by auto
  obtain s' where s': "Bind callmf 0 (id_of (TransMem s) k) (inst s) s = Inr (EBBRC_OK, s')" "touched k s s'" "bound_to k (inst s) s'"
    using bind_to [OF b kn] by blast
  note t = touchedD [OF s'(2)]
  have "bound_to j NULLInst s'" by (rule touched_bound [OF s'(2) j(3,1) b(4)])
  then have "bt_service e r n pick' s'"
    using touched_base [OF s'(2) conjunct1 [OF sD] k(1) [symmetric]] touched_offers [OF s'(2)] sD s'(3) k(1,2) j(1,2)
    by (intro bt_serviceI [where k = k and j = j]) (simp_all add: t assms(2))
  then show ?thesis using s'(1) k(2) by (auto simp: bt_bind_def)
qed

text \<open>A core checks the result.\<close>

definition op_result :: "EBBInstance \<Rightarrow> 'z bind_state_scheme \<Rightarrow> ebbrc" where
  "op_result inst s = (if inst = NULLInst then EBBRC_NULL else if repft s (theRep s (inst_arg inst)) = FT_SrvImp0 then 100 else 200)"

lemma service_answers:
  assumes "bound_to k inst s" "inst = NULLInst \<or> offers inst FT_SrvImp0 s \<or> offers inst FT_SrvImp1 s"
    and b: "trans_mem_fits (TransMem s)" "p < numlpics s" "numlpics s \<le> LRT_PIC_MAX_PICS"
  shows "\<exists>s'. op_call (bt_missfns callcr malloc other) p (id_of (TransMem s) k) s = Inr (op_result inst s, s') \<and>
    touched k s s' \<and> bound_to k inst s'"
  using assms(2)
proof (elim disjE)
  assume n: "inst = NULLInst"
  have "touched k s s" unfolding touched_def by (intro exI [of _ "ltab s"] exI [of _ "gtab s"]) simp
  then show ?thesis using null_call [OF _ b, of k] assms(1) n by (auto simp: op_result_def)
next
  assume o: "offers inst FT_SrvImp0 s"
  then have "inst \<noteq> NULLInst" by (auto simp: offers_def NULLInst_def)
  then show ?thesis
    using service_call [OF assms(1) o b(1-3), of callcr malloc other] o
    by (auto simp: op_call_def op_result_def offers_def SrvImp0_op_def FT_SrvImp0_def)
next
  assume o: "offers inst FT_SrvImp1 s"
  then have "inst \<noteq> NULLInst" by (auto simp: offers_def NULLInst_def)
  then show ?thesis
    using service_call [OF assms(1) o b(1-3), of callcr malloc other] o
    by (auto simp: op_call_def op_result_def offers_def SrvImp1_op_def FT_SrvImp0_def FT_SrvImp1_def)
qed

lemma bt_check_passes:
  assumes "bt_service e r n pick s" "p < n"
    and pick: "pick = (\<lambda>_ _. NULLInst) \<and> res = EBBRC_NULL \<or> pick = (\<lambda>x _. x) \<and> res = 100 \<or> pick = (\<lambda>_ y. y) \<and> res = 200"
  shows "\<exists>s'. bt_check (bt_missfns callcr malloc other) p res s = Inr s' \<and> bt_service e r n pick s'"
proof -
  note sD = assms(1) [unfolded bt_service_def]
  note bD = conjunct1 [OF sD, unfolded bt_base_def]
  let ?inst = "pick (bt_s0Inst s) (bt_s1Inst s)"
  obtain k j where k: "k \<noteq> e" "bt_theId s = id_of (TransMem s) k" "bound_to k ?inst s"
    and j: "j \<noteq> k" "bt_NULLId s = id_of (TransMem s) j" "bound_to j NULLInst s" using sD by blast
  have b: "trans_mem_fits (TransMem s)" "p < numlpics s" "numlpics s \<le> LRT_PIC_MAX_PICS" using bD assms(2) by auto
  have "?inst = NULLInst \<or> offers ?inst FT_SrvImp0 s \<or> offers ?inst FT_SrvImp1 s" using pick sD by auto
  from service_answers [OF k(3) this b] obtain s' where
    s': "op_call (bt_missfns callcr malloc other) p (id_of (TransMem s) k) s = Inr (op_result ?inst s, s')" "touched k s s'" "bound_to k ?inst s'"
    by blast
  note t = touchedD [OF s'(2)]
  have "op_result ?inst s = res"
    using pick sD by (auto simp: op_result_def offers_def FT_SrvImp0_def FT_SrvImp1_def NULLInst_def)
  moreover have "bound_to j NULLInst s'" by (rule touched_bound [OF s'(2) j(3,1) b(3)])
  then have "bt_service e r n pick s'"
    using touched_base [OF s'(2) conjunct1 [OF sD] k(1) [symmetric]] touched_offers [OF s'(2)] sD s'(3) k(1,2) j(1,2)
    by (intro bt_serviceI [where k = k and j = j]) (simp_all add: t)
  moreover have "bt_passed s' p" using bD by (simp add: t)
  ultimately show ?thesis using s'(1) k(2) by (simp add: bt_check_def)
qed

subsection \<open>The test passes\<close>

definition bt_order :: "nat \<Rightarrow> nat list \<Rightarrow> bool" where "bt_order n ps \<longleftrightarrow> distinct ps \<and> set ps = {..<n}"

lemma bt_phases_run:
  fixes s :: "'z bind_state_scheme" and other callmf :: "'z bind_state_scheme callmf" and callcr :: "'z bind_state_scheme callcr"
  assumes o: "bt_order n ps"
  defines "malloc \<equiv> EBBPrimMalloc Stupid callmf" and "cm \<equiv> bt_missfns callcr (EBBPrimMalloc Stupid callmf) other"
  shows "bt_fresh mm e r n s \<Longrightarrow> \<exists>s'. bt_run_phase cm malloc (InitInfo, ps) (Inr s) = Inr s' \<and> bt_null mm e r n s'"
    and "bt_null mm e r n s \<Longrightarrow> \<exists>s'. bt_run_phase cm malloc (CallNull, ps) (Inr s) = Inr s' \<and> bt_service e r n (\<lambda>_ _. NULLInst) s'"
    and "bt_service e r n (\<lambda>_ _. NULLInst) s \<Longrightarrow> \<exists>s'. bt_run_phase cm malloc (Check1, ps) (Inr s) = Inr s' \<and> bt_service e r n (\<lambda>_ _. NULLInst) s'"
    and "bt_service e r n (\<lambda>_ _. NULLInst) s \<Longrightarrow> \<exists>s'. bt_run_phase cm malloc (BindS0, ps) (Inr s) = Inr s' \<and> bt_service e r n (\<lambda>x _. x) s'"
    and "bt_service e r n (\<lambda>x _. x) s \<Longrightarrow> \<exists>s'. bt_run_phase cm malloc (Check2, ps) (Inr s) = Inr s' \<and> bt_service e r n (\<lambda>x _. x) s'"
    and "bt_service e r n (\<lambda>x _. x) s \<Longrightarrow> \<exists>s'. bt_run_phase cm malloc (BindS1, ps) (Inr s) = Inr s' \<and> bt_service e r n (\<lambda>_ y. y) s'"
    and "bt_service e r n (\<lambda>_ y. y) s \<Longrightarrow> \<exists>s'. bt_run_phase cm malloc (Check3, ps) (Inr s) = Inr s' \<and> bt_service e r n (\<lambda>_ y. y) s'"
proof -
  have d: "distinct ps" using o by (simp add: bt_order_def)
  have n: "p \<in> set ps \<Longrightarrow> p < n" for p using o by (auto simp: bt_order_def)
  have z: "0 \<in> set ps" if "0 < n" using o that by (auto simp: bt_order_def)
  have pos: "bt_service e r n pick s \<Longrightarrow> 0 < n" for pick by (auto simp: bt_service_def bt_base_def)
  show "\<exists>s'. bt_run_phase cm malloc (InitInfo, ps) (Inr s) = Inr s' \<and> bt_null mm e r n s'" if "bt_fresh mm e r n s"
    unfolding bt_run_phase_def fst_conv snd_conv
  proof (rule phase_master [where P = "bt_fresh mm e r n" and f = "bt_core cm malloc InitInfo", OF d _ that])
    show "0 \<in> set ps" using that z by (auto simp: bt_fresh_def bt_base_def)
    show "\<exists>s'. bt_core cm malloc InitInfo 0 s = Inr s' \<and> bt_null mm e r n s'" if "bt_fresh mm e r n s" for s :: "'z bind_state_scheme"
      using init_info [OF that, of cm] by auto
  qed simp_all
  show "\<exists>s'. bt_run_phase cm malloc (CallNull, ps) (Inr s) = Inr s' \<and> bt_service e r n (\<lambda>_ _. NULLInst) s'" if "bt_null mm e r n s"
    unfolding bt_run_phase_def fst_conv snd_conv
  proof (rule phase_master [where P = "bt_null mm e r n" and f = "bt_core cm malloc CallNull", OF d _ that])
    show "0 \<in> set ps" using that z by (auto simp: bt_null_def bt_base_def)
    show "\<exists>s'. bt_core cm malloc CallNull p s = Inr s' \<and> bt_null mm e r n s'" if "p \<in> set ps" "p \<noteq> 0" "bt_null mm e r n s"
      for p and s :: "'z bind_state_scheme"
      using bt_null_stays [OF that(3) n [OF that(1)]] that(2,3) by (simp add: cm_def)
    show "\<exists>s'. bt_core cm malloc CallNull p s = Inr s' \<and> bt_service e r n (\<lambda>_ _. NULLInst) s'"
      if "p \<in> set ps" "p \<noteq> 0" "bt_service e r n (\<lambda>_ _. NULLInst) s" for p and s :: "'z bind_state_scheme"
      using bt_service_null [OF that(3) n [OF that(1)]] that(2,3) by (simp add: cm_def)
    show "\<exists>s'. bt_core cm malloc CallNull 0 s = Inr s' \<and> bt_service e r n (\<lambda>_ _. NULLInst) s'" if "bt_null mm e r n s"
      for s :: "'z bind_state_scheme"
    proof -
      have "0 < n" using that by (auto simp: bt_null_def bt_base_def)
      then show ?thesis using bt_null_stays [OF that] setup_service [OF that, of cm callmf] by (simp add: cm_def malloc_def)
    qed
  qed
  have check: "\<exists>s'. bt_run_phase cm malloc (ph, ps) (Inr s) = Inr s' \<and> bt_service e r n pick s'"
    if "bt_service e r n pick s" "\<And>p s. bt_core cm malloc ph p s = bt_check cm p res s"
      "pick = (\<lambda>_ _. NULLInst) \<and> res = EBBRC_NULL \<or> pick = (\<lambda>x _. x) \<and> res = 100 \<or> pick = (\<lambda>_ y. y) \<and> res = 200" for ph pick res
    unfolding bt_run_phase_def fst_conv snd_conv that(2)
    by (rule phase_all [where P = "bt_service e r n pick", OF that(1)]) (use bt_check_passes [OF _ n that(3)] in \<open>simp add: cm_def\<close>)
  show "\<exists>s'. bt_run_phase cm malloc (Check1, ps) (Inr s) = Inr s' \<and> bt_service e r n (\<lambda>_ _. NULLInst) s'" if "bt_service e r n (\<lambda>_ _. NULLInst) s"
    by (rule check [OF that, of Check1 EBBRC_NULL]) simp_all
  show "\<exists>s'. bt_run_phase cm malloc (Check2, ps) (Inr s) = Inr s' \<and> bt_service e r n (\<lambda>x _. x) s'" if "bt_service e r n (\<lambda>x _. x) s"
    by (rule check [OF that, of Check2 100]) simp_all
  show "\<exists>s'. bt_run_phase cm malloc (Check3, ps) (Inr s) = Inr s' \<and> bt_service e r n (\<lambda>_ y. y) s'" if "bt_service e r n (\<lambda>_ y. y) s"
    by (rule check [OF that, of Check3 200]) simp_all
  have rebind: "\<exists>s'. bt_run_phase cm malloc (ph, ps) (Inr s) = Inr s' \<and> bt_service e r n pick' s'"
    if "bt_service e r n pick s" "\<And>p s. bt_core cm malloc ph p s = (if p = 0 then bt_bind cm p inst s else Inr s)"
      "inst = (\<lambda>s. pick' (bt_s0Inst s) (bt_s1Inst s))" for ph pick pick' inst
    unfolding bt_run_phase_def fst_conv snd_conv that(2)
    by (rule phase_master [where P = "bt_service e r n pick", OF d z [OF pos [OF that(1)]] that(1)])
      (use bt_rebind [OF _ that(3), of e r n pick] in simp_all)
  show "\<exists>s'. bt_run_phase cm malloc (BindS0, ps) (Inr s) = Inr s' \<and> bt_service e r n (\<lambda>x _. x) s'" if "bt_service e r n (\<lambda>_ _. NULLInst) s"
    by (rule rebind [OF that, of BindS0 bt_s0Inst]) (simp_all add: fun_eq_iff)
  show "\<exists>s'. bt_run_phase cm malloc (BindS1, ps) (Inr s) = Inr s' \<and> bt_service e r n (\<lambda>_ y. y) s'" if "bt_service e r n (\<lambda>x _. x) s"
    by (rule rebind [OF that, of BindS1 bt_s1Inst]) (simp_all add: fun_eq_iff)
qed

text \<open>
  C9: the test \<open>bindtst\<close> passes. On a machine of \<open>n\<close> cores whose Ebb manager is cached on core 0, with 48
  bytes of memory and two ids left, and whatever order the cores take in each of the seven phases,
  the test runs without a failed assertion, every call of the null id fails with \<open>EBBRC_NULL\<close>, and
  every core sees the null instance, the first and then the second implementation, although it has
  cached the representative of the binding before: \<open>passed\<close> is set on every core.
\<close>

theorem bindtst_passes:
  fixes s :: "'z bind_state_scheme" and callmf other :: "'z bind_state_scheme callmf" and callcr :: "'z bind_state_scheme callcr"
  assumes "bt_fresh mm e r n (s\<lparr>bt_passed := (\<lambda>_. True)\<rparr>)" "length orders = 7" "\<forall>ps \<in> set orders. bt_order n ps"
  shows "\<exists>s'. BindTst_run (bt_missfns callcr (EBBPrimMalloc Stupid callmf) other) (EBBPrimMalloc Stupid callmf) orders s = Inr s' \<and>
    (\<forall>p. bt_passed s' p)"
proof -
  let ?malloc = "EBBPrimMalloc Stupid callmf"
  let ?run = "bt_run_phase (bt_missfns callcr ?malloc other) ?malloc"
  obtain o1 o2 o3 o4 o5 o6 o7 where os: "orders = [o1, o2, o3, o4, o5, o6, o7]"
    using assms(2) by (auto simp: numeral_eq_Suc length_Suc_conv)
  note o = assms(3) [unfolded os, simplified]
  note ph = bt_phases_run [where callcr = callcr and callmf = callmf and other = other]
  obtain s1 where s1: "?run (InitInfo, o1) (Inr (s\<lparr>bt_passed := (\<lambda>_. True)\<rparr>)) = Inr s1" "bt_null mm e r n s1"
    using ph(1) [OF _ assms(1)] o by blast
  obtain s2 where s2: "?run (CallNull, o2) (Inr s1) = Inr s2" "bt_service e r n (\<lambda>_ _. NULLInst) s2" using ph(2) [OF _ s1(2)] o by blast
  obtain s3 where s3: "?run (Check1, o3) (Inr s2) = Inr s3" "bt_service e r n (\<lambda>_ _. NULLInst) s3" using ph(3) [OF _ s2(2)] o by blast
  obtain s4 where s4: "?run (BindS0, o4) (Inr s3) = Inr s4" "bt_service e r n (\<lambda>x _. x) s4" using ph(4) [OF _ s3(2)] o by blast
  obtain s5 where s5: "?run (Check2, o5) (Inr s4) = Inr s5" "bt_service e r n (\<lambda>x _. x) s5" using ph(5) [OF _ s4(2)] o by blast
  obtain s6 where s6: "?run (BindS1, o6) (Inr s5) = Inr s6" "bt_service e r n (\<lambda>_ y. y) s6" using ph(6) [OF _ s5(2)] o by blast
  obtain s7 where s7: "?run (Check3, o7) (Inr s6) = Inr s7" "bt_service e r n (\<lambda>_ y. y) s7" using ph(7) [OF _ s6(2)] o by blast
  have "\<forall>p. bt_passed s7 p" using s7(2) by (simp add: bt_service_def bt_base_def)
  then show ?thesis using s1(1) s2(1) s3(1) s4(1) s5(1) s6(1) s7(1) by (simp add: BindTst_run_def os bt_phases_def)
qed

text \<open>The machine of the Ebb manager's example, two cores, with the manager behind id 2.\<close>

definition demo_bind :: bind_state where
  "demo_bind = ebbmgr_state.extend (ebbmgr_state.truncate demo_cplus)
     \<lparr>bt_NULLId = 0, bt_theId = 0, bt_s0Inst = NULLInst, bt_s1Inst = NULLInst, bt_passed = (\<lambda>_. True)\<rparr>"

lemma demo_bind_sel:
  "TransMem demo_bind = TransMem demo_cplus" "numlpics demo_bind = 2" "theEBBMgrPrimId demo_bind = theEBBMgrPrimId demo_cplus"
  "gtab demo_bind = gtab demo_cplus" "ltab demo_bind = ltab demo_cplus" "repft demo_bind = repft demo_cplus"
  "bootMem demo_bind = bootMem demo_cplus" "stupid_rep demo_bind = stupid_rep demo_cplus"
  "theEBBMemMgrPrimId demo_bind = theEBBMemMgrPrimId demo_cplus" "bt_passed demo_bind = (\<lambda>_. True)"
  using demo_cplus_sel(2) by (simp_all add: demo_bind_def ebbmgr_state.defs)

lemma demo_bind_fresh: "bt_fresh 0 2 0x40 2 demo_bind"
proof -
  have a: "allocated demo_bind k = allocated demo_cplus k" for k by (simp add: allocated_def demo_bind_sel)
  have "\<not> allocated demo_cplus 5" "\<not> allocated demo_cplus 6" "allocated demo_cplus 2" "allocated demo_cplus 0"
    using entry_at_inj [of 5 0 "0x10000"] entry_at_inj [of 5 2 "0x10000"] entry_at_inj [of 6 0 "0x10000"] entry_at_inj [of 6 2 "0x10000"]
      entry_at_inj [of 2 0 "0x10000"]
    by (simp_all add: allocated_def demo_cplus_sel demo_up_def gtrans_zero_def ALLOCATED_def sys_trans_values trans_size_values)
  then have al: "allocated demo_bind 2" "allocated demo_bind 0" "\<exists>i j. i < myNumGTrans \<and> j < myNumGTrans \<and> i \<noteq> j \<and> \<not> allocated demo_bind i \<and> \<not> allocated demo_bind j"
    unfolding a by (blast, blast, intro exI [of _ 5] exI [of _ 6]) (simp add: sys_trans_values)
  have m: "ebbmgr_on 2 0 0x40 demo_bind"
    using demo_cplus_on by (auto simp: ebbmgr_on_def demo_bind_sel EBBId_DREF_def EBBIdToLTrans_def is_ltrans_addr_def mem_avail_def arena_def mem_rep_def)
  have f: "mem_funds 0 0 72 demo_ebbmgr" by (rule demo_up_funds) simp
  have fit: "trans_mem_fits 0x10000" using demo_trans_fits by simp
  have "lrt_trans_id2lt 0x10000 0 (id_of 0x10000 2) \<noteq> lrt_trans_id2lt 0x10000 0 (id_of 0x10000 0)"
    using local_entry_inj [OF fit, of 0 0 2 0] by (auto simp: trans_size_values)
  then have "mem_funds 0 0 72 demo_cplus"
    using f demo_boot_mem_ok_cong [OF demo_cplus_sel(7,1)] by (simp add: mem_funds_def mem_rep_def demo_cplus_sel Let_def demo_boot_nth)
  then have "mem_funds 0 0 72 demo_bind"
    by (simp add: mem_funds_def boot_mem_ok_def arena_def mem_rep_def is_ltrans_addr_def demo_bind_sel Let_def)
  then have "mem_funds 0 0 48 demo_bind" by (rule mem_funds_mono) simp
  then show ?thesis using m fit al
    by (simp add: bt_fresh_def bt_base_def demo_bind_sel demo_cplus_sel(1) trans_size_values)
qed

text \<open>The two cores take turns in different orders.\<close>

lemma bindtst_passes_witness:
  "\<exists>s'. BindTst_run (bt_missfns (\<lambda>c p r s. Inl NullDeref) (EBBPrimMalloc Stupid (\<lambda>m p o' l n a s. Inl NullDeref))
      (\<lambda>m p o' l n a s. Inl NullDeref)) (EBBPrimMalloc Stupid (\<lambda>m p o' l n a s. Inl NullDeref))
      [[0, 1], [1, 0], [0, 1], [1, 0], [0, 1], [0, 1], [1, 0]] demo_bind = Inr s' \<and> (\<forall>p. bt_passed s' p)"
proof (rule bindtst_passes)
  have "demo_bind\<lparr>bt_passed := (\<lambda>_. True)\<rparr> = demo_bind" by (rule bind_state.equality) (simp_all add: demo_bind_sel)
  then show "bt_fresh 0 2 0x40 2 (demo_bind\<lparr>bt_passed := (\<lambda>_. True)\<rparr>)" using demo_bind_fresh by simp
qed (auto simp: bt_order_def)

end
