(* ===== verification/SsacRep.thy ===== *)
theory SsacRep
  imports SsacProps
begin

text \<open>
  The replicated cache of \<open>contrib/jmcddn/ssac_tornado\<close> (\<open>SSACSimpleReplicatedArray.C\<close> and its
  header). Every processor has a representative with its own hash queues, so an object may be cached
  on several processors; the directory line of a queue, kept by the representative of processor
  \<open>index mod NUMPROC\<close>, says on which, and whether a writer holds it.

  Identifiers, entries and the search of a queue are those of \<open>Ssac\<close>. The miss handler of Tornado is
  the map \<open>reps\<close> (its \<open>findRepOn\<close>) and the argument \<open>mk\<close> (its \<open>createRepOn\<close>). A directory line is
  given by the number of its queue. A call holds the locks of what it reads and writes, so one pass
  of a call is one step. \<open>saved\<close> are the calls of \<open>save\<close>, the last one first; what \<open>load\<close> answers is
  an argument (\<open>CacheSimple.C\<close> has stand-ins for both, which spin).
\<close>

subsection \<open>The directory\<close>

definition D_BUSY :: u32 where "D_BUSY = 1"
definition D_MODIFIED :: u32 where "D_MODIFIED = 2"

record dir_entry =
  d_id :: u32
  d_flags :: u32
  d_vpmask :: u64

definition new_direntry :: dir_entry where
  "new_direntry = \<lparr>d_id = SSAC_INVALID, d_flags = 0, d_vpmask = 0\<rparr>"

definition d_busy :: "dir_entry \<Rightarrow> bool" where "d_busy d \<longleftrightarrow> d_flags d AND D_BUSY \<noteq> 0"
definition d_modified :: "dir_entry \<Rightarrow> bool" where "d_modified d \<longleftrightarrow> d_flags d AND D_MODIFIED \<noteq> 0"
definition d_setbusy :: "dir_entry \<Rightarrow> dir_entry" where "d_setbusy d = d\<lparr>d_flags := d_flags d OR D_BUSY\<rparr>"
definition d_clearbusy :: "dir_entry \<Rightarrow> dir_entry" where "d_clearbusy d = d\<lparr>d_flags := d_flags d AND NOT D_BUSY\<rparr>"
definition d_setmodified :: "dir_entry \<Rightarrow> dir_entry" where
  "d_setmodified d = d\<lparr>d_flags := d_flags d OR D_MODIFIED\<rparr>"
definition d_clearall :: "dir_entry \<Rightarrow> dir_entry" where "d_clearall d = d\<lparr>d_flags := 0\<rparr>"

text \<open>\<open>1 << vp\<close> is an \<open>int\<close>, extended to the 64 bits of the mask.\<close>

definition vp_bit :: "nat \<Rightarrow> u64" where "vp_bit vp = scast (push_bit vp (1 :: u32))"

definition d_addvp :: "nat \<Rightarrow> dir_entry \<Rightarrow> dir_entry" where
  "d_addvp vp d = d\<lparr>d_vpmask := d_vpmask d OR vp_bit vp\<rparr>"
definition d_removevp :: "nat \<Rightarrow> dir_entry \<Rightarrow> dir_entry" where
  "d_removevp vp d = d\<lparr>d_vpmask := d_vpmask d AND NOT (vp_bit vp)\<rparr>"

fun lookupid :: "u32 \<Rightarrow> dir_entry list \<Rightarrow> nat \<Rightarrow> nat option" where
  "lookupid i [] k = None"
| "lookupid i (d # ds) k = (if i = d_id d then Some k else lookupid i ds (k + 1))"

fun free_direntry :: "dir_entry list \<Rightarrow> nat \<Rightarrow> nat option" where
  "free_direntry [] k = None"
| "free_direntry (d # ds) k = (if \<not> oid_valid (d_id d) then Some k else free_direntry ds (k + 1))"

definition adddirentry :: "u32 \<Rightarrow> nat \<Rightarrow> dir_entry list \<Rightarrow> dir_entry list res" where
  "adddirentry i vp ds =
     (case free_direntry ds 0 of
        None \<Rightarrow> Inl AssertFail
      | Some k \<Rightarrow> Inr (ds[k := d_addvp vp (d_clearall ((ds ! k)\<lparr>d_id := i\<rparr>))]))"

text \<open>The processors that the loops over a mask visit, \<open>vp\<close> being the one of the lowest bit.\<close>

function mask_vps :: "u64 \<Rightarrow> nat \<Rightarrow> nat list" where
  "mask_vps m vp =
     (if m = 0 then []
      else if m AND 1 \<noteq> 0 then vp # mask_vps (drop_bit 1 m) (vp + 1) else mask_vps (drop_bit 1 m) (vp + 1))"
  by auto

termination
proof (relation "measure (\<lambda>(m, _). unat m)")
  have less: "unat (drop_bit 1 m) < unat m" if "m \<noteq> 0" for m :: u64
    using that by (simp add: unat_drop_bit_eq drop_bit_eq_div unat_gt_0 unat_div)
  fix m :: u64 and vp :: nat
  assume "m \<noteq> 0"
  then show "((drop_bit 1 m, vp + 1), m, vp) \<in> measure (\<lambda>(m, _). unat m)"
    "((drop_bit 1 m, vp + 1), m, vp) \<in> measure (\<lambda>(m, _). unat m)"
    by (simp_all add: less del: One_nat_def)
qed auto

declare mask_vps.simps [simp del]

subsection \<open>Representatives\<close>

record srep =
  r_hashqs :: "hashq list"
  r_dirlines :: "dir_entry list list"

text \<open>The clustered object: the numbers of its miss handler, which each representative copies.\<close>

record ssac_co =
  numproc :: nat
  co_numhashqs :: nat
  co_associativity :: nat
  reps :: "nat \<Rightarrow> srep option"
  saved :: "(u32 \<times> u64) list"

definition SSACSimpleReplicatedArray_new :: "nat \<Rightarrow> nat \<Rightarrow> nat \<Rightarrow> nat \<Rightarrow> srep" where
  "SSACSimpleReplicatedArray_new np myvp numq assoc =
     \<lparr>r_hashqs = replicate numq new_hashq,
      r_dirlines = replicate (if myvp < numq mod np then numq div np + 1 else numq div np)
                     (replicate (assoc * np) new_direntry)\<rparr>"

definition queue_on :: "ssac_co \<Rightarrow> nat \<Rightarrow> nat \<Rightarrow> hashq res" where
  "queue_on s vp h = (case reps s vp of None \<Rightarrow> Inl AssertFail | Some r \<Rightarrow> arr_get (r_hashqs r) h)"

definition set_queue :: "nat \<Rightarrow> nat \<Rightarrow> hashq \<Rightarrow> ssac_co \<Rightarrow> ssac_co" where
  "set_queue vp h q s =
     s\<lparr>reps := (reps s)(vp := map_option (\<lambda>r. r\<lparr>r_hashqs := (r_hashqs r)[h := q]\<rparr>) (reps s vp))\<rparr>"

definition entries_on :: "ssac_co \<Rightarrow> nat \<Rightarrow> nat \<Rightarrow> cache_entry list res" where
  "entries_on s vp h =
     rbind (queue_on s vp h) (\<lambda>q. case hq_entries q of None \<Rightarrow> Inl NullDeref | Some es \<Rightarrow> Inr es)"

definition set_entries :: "nat \<Rightarrow> nat \<Rightarrow> cache_entry list \<Rightarrow> ssac_co \<Rightarrow> ssac_co" where
  "set_entries vp h es s =
     s\<lparr>reps := (reps s)(vp := map_option (\<lambda>r. r\<lparr>r_hashqs := (r_hashqs r)[h := (r_hashqs r ! h)\<lparr>hq_entries := Some es\<rparr>]\<rparr>) (reps s vp))\<rparr>"

definition line_vp :: "ssac_co \<Rightarrow> nat \<Rightarrow> nat" where "line_vp s h = h mod numproc s"
definition line_no :: "ssac_co \<Rightarrow> nat \<Rightarrow> nat" where "line_no s h = (h - line_vp s h) div numproc s"

text \<open>\<open>finddirline\<close>: the line exists afterwards.\<close>

definition finddirline :: "(nat \<Rightarrow> ssac_co \<Rightarrow> ssac_co) \<Rightarrow> nat \<Rightarrow> ssac_co \<Rightarrow> ssac_co res" where
  "finddirline mk h s =
     (if numproc s = 0 then Inl DivByZero
      else
      let s = (if reps s (line_vp s h) = None then mk (line_vp s h) s else s)
      in case reps s (line_vp s h) of
           None \<Rightarrow> Inl NullDeref
         | Some r \<Rightarrow> rbind (arr_get (r_dirlines r) (line_no s h)) (\<lambda>_. Inr s))"

definition dirline :: "ssac_co \<Rightarrow> nat \<Rightarrow> dir_entry list res" where
  "dirline s h =
     (case reps s (line_vp s h) of None \<Rightarrow> Inl NullDeref | Some r \<Rightarrow> arr_get (r_dirlines r) (line_no s h))"

definition set_dirline :: "nat \<Rightarrow> dir_entry list \<Rightarrow> ssac_co \<Rightarrow> ssac_co" where
  "set_dirline h ds s =
     s\<lparr>reps := (reps s)(line_vp s h := map_option (\<lambda>r. r\<lparr>r_dirlines := (r_dirlines r)[line_no s h := ds]\<rparr>) (reps s (line_vp s h)))\<rparr>"

subsection \<open>Operations on all copies\<close>

definition copy_on :: "ssac_co \<Rightarrow> nat \<Rightarrow> nat \<Rightarrow> u32 \<Rightarrow> nat res" where
  "copy_on s vp h i =
     rbind (entries_on s vp h) (\<lambda>es. case hq_search i es 0 of None \<Rightarrow> Inl AssertFail | Some j \<Rightarrow> Inr j)"

definition change_entry :: "nat \<Rightarrow> nat \<Rightarrow> nat \<Rightarrow> (cache_entry \<Rightarrow> cache_entry) \<Rightarrow> ssac_co \<Rightarrow> ssac_co res" where
  "change_entry vp h j f s =
     rbind (entries_on s vp h) (\<lambda>es.
     rbind (arr_get es j) (\<lambda>e. Inr (set_entries vp h (es[j := f e]) s)))"

fun change_copies :: "nat list \<Rightarrow> nat \<Rightarrow> u32 \<Rightarrow> (cache_entry \<Rightarrow> cache_entry) \<Rightarrow> ssac_co \<Rightarrow> ssac_co res" where
  "change_copies [] h i f s = Inr s"
| "change_copies (vp # vps) h i f s =
     rbind (copy_on s vp h i) (\<lambda>j. rbind (change_entry vp h j f s) (change_copies vps h i f))"

definition set_busy :: "cache_entry \<Rightarrow> cache_entry" where "set_busy e = e\<lparr>e_flags := e_flags e OR BUSY\<rparr>"
definition clear_busy :: "cache_entry \<Rightarrow> cache_entry" where "clear_busy e = e\<lparr>e_flags := e_flags e AND NOT BUSY\<rparr>"

text \<open>
  Entry \<open>k\<close> of the line, and the local copy \<open>j\<close>, which both callers have. The assertion about the
  directory entry uses \<open>~\<close> for \<open>!\<close>. The queue is that of the directory entry's identifier.
\<close>

definition setbusyonallcopiesindir :: "nat \<Rightarrow> nat \<Rightarrow> nat \<Rightarrow> nat \<Rightarrow> ssac_co \<Rightarrow> ssac_co res" where
  "setbusyonallcopiesindir me h k j s =
     rbind (dirline s h) (\<lambda>ds.
     rbind (arr_get ds k) (\<lambda>d.
     rbind (lrt_assert (NOT (d_flags d AND D_BUSY) \<noteq> 0)) (\<lambda>_.
     rbind (oid_index (d_id d) (co_numhashqs s)) (\<lambda>ix.
     rbind (change_copies (mask_vps (d_vpmask d AND NOT (vp_bit me)) 0) ix (d_id d) set_busy s) (\<lambda>s.
     rbind (change_entry me h j set_busy s) (\<lambda>s.
     Inr (set_dirline h (ds[k := d_setbusy d]) s)))))))"

text \<open>Here the local copy is entry \<open>j\<close> of queue \<open>p\<close>.\<close>

definition updateandclearbusyonallcopiesindir :: "nat \<Rightarrow> nat \<Rightarrow> nat \<Rightarrow> nat \<Rightarrow> nat \<Rightarrow> ssac_co \<Rightarrow> ssac_co res" where
  "updateandclearbusyonallcopiesindir me h k p j s =
     rbind (dirline s h) (\<lambda>ds.
     rbind (arr_get ds k) (\<lambda>d.
     rbind (lrt_assert (NOT (d_flags d AND D_BUSY) \<noteq> 0)) (\<lambda>_.
     rbind (oid_index (d_id d) (co_numhashqs s)) (\<lambda>ix.
     rbind (entries_on s me p) (\<lambda>es.
     rbind (arr_get es j) (\<lambda>local.
     rbind (change_copies (mask_vps (d_vpmask d AND NOT (vp_bit me)) 0) ix (d_id d)
              (\<lambda>e. clear_busy (e\<lparr>e_data := e_data local\<rparr>)) s) (\<lambda>s.
     rbind (change_entry me p j clear_busy s) (\<lambda>s.
     Inr (set_dirline h (ds[k := d_clearbusy d]) s)))))))))"

text \<open>The data of the copy on the first processor of the mask.\<close>

definition getremotecopyfromdir :: "nat \<Rightarrow> dir_entry \<Rightarrow> ssac_co \<Rightarrow> u64 res" where
  "getremotecopyfromdir me d s =
     rbind (oid_index (d_id d) (co_numhashqs s)) (\<lambda>ix.
     case mask_vps (d_vpmask d) 0 of
       [] \<Rightarrow> Inl NullDeref
     | vp # _ \<Rightarrow>
         rbind (lrt_assert (vp \<noteq> me)) (\<lambda>_.
         rbind (copy_on s vp ix (d_id d)) (\<lambda>j.
         rbind (entries_on s vp ix) (\<lambda>es.
         rbind (arr_get es j) (\<lambda>e. Inr (e_data e))))))"

text \<open>The result says whether the object has to be saved: the last copy of a modified object goes.\<close>

definition removefromdir :: "(nat \<Rightarrow> ssac_co \<Rightarrow> ssac_co) \<Rightarrow> u32 \<Rightarrow> nat \<Rightarrow> bool \<Rightarrow> ssac_co \<Rightarrow> (bool \<times> ssac_co) res" where
  "removefromdir mk i vp drt s =
     rbind (oid_index i (co_numhashqs s)) (\<lambda>h.
     rbind (finddirline mk h s) (\<lambda>s.
     rbind (dirline s h) (\<lambda>ds.
     case lookupid i ds 0 of
       None \<Rightarrow> Inl AssertFail
     | Some k \<Rightarrow>
         let d = ds ! k;
             d = (if drt then d_setmodified d else d);
             d = d_removevp vp d
         in if d_vpmask d = 0
            then Inr (d_modified d, set_dirline h (ds[k := d_clearall (d\<lparr>d_id := SSAC_INVALID\<rparr>)]) s)
            else Inr (False, set_dirline h (ds[k := d]) s))))"

subsection \<open>get\<close>

text \<open>
  How a pass ends: wait and go to \<open>again1\<close> or \<open>again2\<close>, an entry of the queue, or no free entry. At
  \<open>again2\<close> the variable \<open>direntry\<close> has the value of the pass before.
\<close>

datatype rgot = Again1 | Again2 "nat option" | RGot nat | RNoFree

text \<open>The end that a hit and a miss share; \<open>k\<close> is \<open>direntry\<close>.\<close>

definition rep_finish :: "gettype \<Rightarrow> nat \<Rightarrow> nat \<Rightarrow> nat option \<Rightarrow> nat \<Rightarrow> ssac_co \<Rightarrow> (rgot \<times> ssac_co) res" where
  "rep_finish ty me h k j s =
     rbind (if ty = GETFORWRITE
            then (case k of None \<Rightarrow> Inl NullDeref | Some k \<Rightarrow> setbusyonallcopiesindir me h k j s)
            else Inr s) (\<lambda>s.
     rbind (queue_on s me h) (\<lambda>q.
     let q = q\<lparr>hq_count := hq_count q + 1\<rparr>
     in rbind (if hq_count q = 0 then hq_rollover q else Inr q) (\<lambda>q.
        rbind (change_entry me h j (\<lambda>e. e\<lparr>e_lastused := hq_count q\<rparr>) (set_queue me h q s)) (\<lambda>s.
        Inr (RGot j, s)))))"

definition rep_evict :: "(nat \<Rightarrow> ssac_co \<Rightarrow> ssac_co) \<Rightarrow> nat \<Rightarrow> cache_entry \<Rightarrow> ssac_co \<Rightarrow> ssac_co res" where
  "rep_evict mk me e s =
     (if oid_valid (e_id e) then
        rbind (removefromdir mk (e_id e) me (dirty e) s) (\<lambda>(clean, s).
        Inr (if clean then s\<lparr>saved := (e_id e, e_data e) # saved s\<rparr> else s))
      else Inr s)"

definition rep_miss ::
    "(nat \<Rightarrow> ssac_co \<Rightarrow> ssac_co) \<Rightarrow> ((u32 \<times> u64) list \<Rightarrow> u32 \<Rightarrow> u64) \<Rightarrow> u32 \<Rightarrow> gettype \<Rightarrow> nat \<Rightarrow> nat \<Rightarrow> ssac_co \<Rightarrow> (rgot \<times> ssac_co) res" where
  "rep_miss mk load i ty me h s =
     rbind (dirline s h) (\<lambda>ds.
     let k = lookupid i ds 0
     in if (case k of None \<Rightarrow> False | Some k \<Rightarrow> d_busy (ds ! k)) then Inr (Again2 k, s)
        else
        rbind (entries_on s me h) (\<lambda>es.
        case hq_lruentry es 0 None of
          None \<Rightarrow> Inr (RNoFree, s)
        | Some j \<Rightarrow>
            rbind (rep_evict mk me (es ! j) s) (\<lambda>s.
            rbind (change_entry me h j (\<lambda>e. e\<lparr>e_flags := 0, e_id := i\<rparr>) s) (\<lambda>s.
            rbind (dirline s h) (\<lambda>ds.
            rbind (case k of
                     Some k \<Rightarrow>
                       rbind (getremotecopyfromdir me (ds ! k) s) (\<lambda>v. Inr (v, ds[k := d_addvp me (ds ! k)]))
                   | None \<Rightarrow> rbind (adddirentry i me ds) (\<lambda>ds. Inr (load (saved s) i, ds))) (\<lambda>(v, ds).
            rbind (change_entry me h j (\<lambda>e. e\<lparr>e_data := v\<rparr>) (set_dirline h ds s)) (\<lambda>s.
            rep_finish ty me h (case k of Some k \<Rightarrow> Some k | None \<Rightarrow> lookupid i ds 0) j s)))))))"

text \<open>The pass from \<open>again1\<close>. A reader that misses lets the queue go before it takes the line.\<close>

definition rep_first ::
    "(nat \<Rightarrow> ssac_co \<Rightarrow> ssac_co) \<Rightarrow> ((u32 \<times> u64) list \<Rightarrow> u32 \<Rightarrow> u64) \<Rightarrow> u32 \<Rightarrow> gettype \<Rightarrow> nat \<Rightarrow> nat \<Rightarrow> ssac_co \<Rightarrow> (rgot \<times> ssac_co) res" where
  "rep_first mk load i ty me h s =
     rbind (entries_on s me h) (\<lambda>es.
     case hq_search i es 0 of
       Some j \<Rightarrow>
         if busy (es ! j) then Inr (Again1, s)
         else
         rbind (if ty = GETFORWRITE then rbind (dirline s h) (\<lambda>ds. Inr (lookupid i ds 0)) else Inr None) (\<lambda>k.
         rep_finish ty me h k j s)
     | None \<Rightarrow>
         if ty = GETFORREAD then rbind (finddirline mk h s) (\<lambda>s. Inr (Again2 None, s))
         else rep_miss mk load i ty me h s)"

text \<open>The pass from \<open>again2\<close>. After a hit a writer looks the object up only if \<open>direntry\<close> is null.\<close>

definition rep_second ::
    "(nat \<Rightarrow> ssac_co \<Rightarrow> ssac_co) \<Rightarrow> ((u32 \<times> u64) list \<Rightarrow> u32 \<Rightarrow> u64) \<Rightarrow> nat option \<Rightarrow> u32 \<Rightarrow> gettype \<Rightarrow> nat \<Rightarrow> nat \<Rightarrow> ssac_co \<Rightarrow>
     (rgot \<times> ssac_co) res" where
  "rep_second mk load k i ty me h s =
     rbind (entries_on s me h) (\<lambda>es.
     case hq_search i es 0 of
       Some j \<Rightarrow>
         if busy (es ! j) then Inr (Again2 k, s)
         else
         rbind (dirline s h) (\<lambda>ds.
         rep_finish ty me h (case k of Some k \<Rightarrow> Some k | None \<Rightarrow> lookupid i ds 0) j s)
     | None \<Rightarrow> rep_miss mk load i ty me h s)"

text \<open>What comes before \<open>again1\<close>.\<close>

definition rep_enter :: "(nat \<Rightarrow> ssac_co \<Rightarrow> ssac_co) \<Rightarrow> u32 \<Rightarrow> gettype \<Rightarrow> nat \<Rightarrow> ssac_co \<Rightarrow> (nat \<times> ssac_co) res" where
  "rep_enter mk i ty me s =
     rbind (lrt_assert (oid_valid i)) (\<lambda>_.
     rbind (oid_index i (co_numhashqs s)) (\<lambda>h.
     rbind (queue_on s me h) (\<lambda>q.
     rbind (if hq_entries q = None then hq_init (co_associativity s) q else Inr q) (\<lambda>q.
     let s = set_queue me h q s
     in rbind (if ty = GETFORWRITE then finddirline mk h s else Inr s) (\<lambda>s. Inr (h, s))))))"

subsection \<open>putback, flush and the client\<close>

definition rep_putback ::
    "(nat \<Rightarrow> ssac_co \<Rightarrow> ssac_co) \<Rightarrow> (nat \<times> nat) option \<Rightarrow> putflag \<Rightarrow> nat \<Rightarrow> ssac_co \<Rightarrow> (ebbrc \<times> ssac_co) res" where
  "rep_putback mk ce flag me s =
     (case ce of
        None \<Rightarrow> Inl NullDeref
      | Some (p, j) \<Rightarrow>
          rbind (entries_on s me p) (\<lambda>es.
          rbind (arr_get es j) (\<lambda>e.
          rbind (oid_index (e_id e) (co_numhashqs s)) (\<lambda>h.
          rbind (queue_on s me h) (\<lambda>q.
          rbind (lrt_assert (hq_entries q \<noteq> None)) (\<lambda>_.
          rbind (finddirline mk h s) (\<lambda>s.
          rbind (change_entry me p j (\<lambda>e. e\<lparr>e_lastused := if flag = KEEP then hq_count q else 0\<rparr>) s) (\<lambda>s.
          rbind (dirline s h) (\<lambda>ds.
          case lookupid (e_id e) ds 0 of
            None \<Rightarrow> Inl NullDeref
          | Some k \<Rightarrow> rbind (updateandclearbusyonallcopiesindir me h k p j s) (\<lambda>s. Inr (0, s)))))))))))"

function flush_loop :: "cache_entry list \<Rightarrow> (u32 \<times> u64) list \<Rightarrow> cache_entry list \<times> (u32 \<times> u64) list" where
  "flush_loop es l =
     (case first_dirty es 0 of
        None \<Rightarrow> (es, l)
      | Some j \<Rightarrow> flush_loop (es[j := save_entry (es ! j)]) ((e_id (es ! j), e_data (es ! j)) # l))"
  by auto

termination
proof (relation "measure (\<lambda>(es, _). sum_list (map (\<lambda>e. of_bool (dirty e)) es))")
  fix es :: "cache_entry list" and l j
  assume "first_dirty es 0 = Some j"
  then have "j < length es" "dirty (es ! j)" using first_dirty_Some [of es 0 j] by auto
  then show "((es[j := save_entry (es ! j)], (e_id (es ! j), e_data (es ! j)) # l), es, l) \<in>
             measure (\<lambda>(es, _). sum_list (map (\<lambda>e. of_bool (dirty e)) es))"
    by (simp add: sum_list_update_less)
qed simp

declare flush_loop.simps [simp del]

fun flush_queues :: "nat \<Rightarrow> nat list \<Rightarrow> ssac_co \<Rightarrow> ssac_co res" where
  "flush_queues me [] s = Inr s"
| "flush_queues me (h # hs) s =
     rbind (queue_on s me h) (\<lambda>q.
     flush_queues me hs
       (case hq_entries q of
          None \<Rightarrow> s
        | Some es \<Rightarrow> (let (es, l) = flush_loop es (saved s) in (set_entries me h es s)\<lparr>saved := l\<rparr>)))"

definition rep_flush :: "nat \<Rightarrow> ssac_co \<Rightarrow> (ebbrc \<times> ssac_co) res" where
  "rep_flush me s = rbind (flush_queues me [0..<co_numhashqs s] s) (\<lambda>s. Inr (0, s))"

text \<open>The client of \<open>SSACtest.C\<close> writes the entry it was given, marks it, and then puts it back.\<close>

definition rep_write :: "nat \<times> nat \<Rightarrow> u64 \<Rightarrow> nat \<Rightarrow> ssac_co \<Rightarrow> ssac_co res" where
  "rep_write p v me s = change_entry me (fst p) (snd p) (\<lambda>e. entry_dirty (e\<lparr>e_data := v\<rparr>)) s"

end
