(* ===== verification/SsacRepInv.thy ===== *)
theory SsacRepInv
  imports SsacRep
begin

text \<open>
  The shape of the replicated cache and what its elementary operations do to the copies and to the
  directory, seen as maps from identifiers.
\<close>

subsection \<open>Lists with keys\<close>

text \<open>Entries of a queue and of a directory line: every valid identifier occurs once.\<close>

definition keys_distinct :: "('a \<Rightarrow> u32) \<Rightarrow> 'a list \<Rightarrow> bool" where
  "keys_distinct key xs \<longleftrightarrow>
     (\<forall>i < length xs. \<forall>j < length xs. key (xs ! i) = key (xs ! j) \<longrightarrow> oid_valid (key (xs ! i)) \<longrightarrow> i = j)"

definition find_key :: "('a \<Rightarrow> u32) \<Rightarrow> 'a list \<Rightarrow> u32 \<Rightarrow> 'a option" where
  "find_key key xs i = (if oid_valid i then find (\<lambda>x. key x = i) xs else None)"

lemma keys_distinctD:
  "keys_distinct key xs \<Longrightarrow> i < length xs \<Longrightarrow> j < length xs \<Longrightarrow> key (xs ! i) = key (xs ! j) \<Longrightarrow>
   oid_valid (key (xs ! i)) \<Longrightarrow> i = j"
  by (simp add: keys_distinct_def)

lemma find_key_None: "oid_valid i \<Longrightarrow> find_key key xs i = None \<longleftrightarrow> (\<forall>x \<in> set xs. key x \<noteq> i)"
  by (auto simp: find_key_def find_None_iff)

lemma find_key_invalid [simp]: "\<not> oid_valid i \<Longrightarrow> find_key key xs i = None"
  by (simp add: find_key_def)

lemma find_key_Some:
  assumes "keys_distinct key xs"
  shows "find_key key xs i = Some x \<longleftrightarrow> oid_valid i \<and> (\<exists>j < length xs. xs ! j = x \<and> key x = i)"
proof (cases "oid_valid i")
  case True
  show ?thesis
  proof
    assume "find_key key xs i = Some x"
    then show "oid_valid i \<and> (\<exists>j < length xs. xs ! j = x \<and> key x = i)"
      using True by (auto simp: find_key_def find_Some_iff)
  next
    assume "oid_valid i \<and> (\<exists>j < length xs. xs ! j = x \<and> key x = i)"
    then obtain j where j: "j < length xs" "xs ! j = x" "key x = i" by blast
    have "key (xs ! k) \<noteq> i" if "k < j" for k
      using keys_distinctD [OF assms, of k j] that j True by auto
    then show "find_key key xs i = Some x" using True j by (auto simp: find_key_def find_Some_iff)
  qed
qed simp

lemma find_key_nth: "keys_distinct key xs \<Longrightarrow> j < length xs \<Longrightarrow> oid_valid (key (xs ! j)) \<Longrightarrow> find_key key xs (key (xs ! j)) = Some (xs ! j)"
  by (auto simp: find_key_Some)

lemma find_key_update:
  assumes d: "keys_distinct key xs" and j: "j < length xs"
    and n: "\<And>k. k < length xs \<Longrightarrow> k \<noteq> j \<Longrightarrow> oid_valid (key x) \<Longrightarrow> key (xs ! k) \<noteq> key x"
  shows "keys_distinct key (xs[j := x])"
    and "find_key key (xs[j := x]) = (if oid_valid (key x) then (find_key key xs)(key (xs ! j) := None, key x \<mapsto> x)
       else (find_key key xs)(key (xs ! j) := None))"
proof -
  show d': "keys_distinct key (xs[j := x])"
    unfolding keys_distinct_def length_list_update
  proof (intro allI impI)
    fix a b
    assume ab: "a < length xs" "b < length xs" "key (xs[j := x] ! a) = key (xs[j := x] ! b)" "oid_valid (key (xs[j := x] ! a))"
    show "a = b"
      using ab n [OF ab(1)] n [OF ab(2)] keys_distinctD [OF d ab(1,2)] by (auto simp: nth_list_update j split: if_splits)
  qed
  have "find_key key (xs[j := x]) i = (if oid_valid (key x) then (find_key key xs)(key (xs ! j) := None, key x \<mapsto> x)
       else (find_key key xs)(key (xs ! j) := None)) i" for i
  proof (cases "oid_valid i")
    case True
    have "find_key key (xs[j := x]) i = Some y \<longleftrightarrow> (if oid_valid (key x) then (find_key key xs)(key (xs ! j) := None, key x \<mapsto> x)
       else (find_key key xs)(key (xs ! j) := None)) i = Some y" for y
    proof -
      consider (new) "i = key x" | (old) "i \<noteq> key x" "i = key (xs ! j)" | (same) "i \<noteq> key x" "i \<noteq> key (xs ! j)" by blast
      then show ?thesis
      proof cases
        case new
        then show ?thesis using True j n by (auto simp: find_key_Some [OF d'] nth_list_update)
      next
        case old
        have "key (xs[j := x] ! k) \<noteq> i" if "k < length xs" for k
          using old keys_distinctD [OF d that j] True j by (cases "k = j") auto
        with old True show ?thesis by (auto simp: find_key_Some [OF d'])
      next
        case same
        then show ?thesis using j True by (auto simp: find_key_Some [OF d'] find_key_Some [OF d] nth_list_update)
      qed
    qed
    then show ?thesis
      by (cases "find_key key (xs[j := x]) i") (metis not_None_eq, metis)
  next
    case False
    then show ?thesis by auto
  qed
  then show "find_key key (xs[j := x]) = (if oid_valid (key x) then (find_key key xs)(key (xs ! j) := None, key x \<mapsto> x)
       else (find_key key xs)(key (xs ! j) := None))" by blast
qed

lemma find_key_same:
  assumes d: "keys_distinct key xs" and j: "j < length xs" and x: "key x = key (xs ! j)"
  shows "keys_distinct key (xs[j := x])"
    and "find_key key (xs[j := x]) = (if oid_valid (key x) then (find_key key xs)(key x \<mapsto> x) else find_key key xs)"
proof -
  have n: "key (xs ! k) \<noteq> key x" if "k < length xs" "k \<noteq> j" "oid_valid (key x)" for k
    using keys_distinctD [OF d that(1) j] that x by auto
  show "keys_distinct key (xs[j := x])" by (rule find_key_update(1) [OF d j n])
  have "find_key key (xs[j := x]) = (if oid_valid (key x) then (find_key key xs)(key (xs ! j) := None, key x \<mapsto> x)
       else (find_key key xs)(key (xs ! j) := None))" by (rule find_key_update(2) [OF d j n])
  then show "find_key key (xs[j := x]) = (if oid_valid (key x) then (find_key key xs)(key x \<mapsto> x) else find_key key xs)"
    by (auto simp: x)
qed

lemma find_key_map:
  assumes "\<And>x. key (f x) = key x"
  shows "find_key key (map f xs) i = map_option f (find_key key xs i)"
  by (induction xs) (auto simp: find_key_def assms)

lemma keys_distinct_map: "(\<And>x. key (f x) = key x) \<Longrightarrow> keys_distinct key (map f xs) = keys_distinct key xs"
  by (simp add: keys_distinct_def)

lemma keys_distinct_replicate: "\<not> oid_valid (key x) \<Longrightarrow> keys_distinct key (replicate n x)"
  by (simp add: keys_distinct_def)

lemma find_key_replicate: "\<not> oid_valid (key x) \<Longrightarrow> find_key key (replicate n x) = Map.empty"
  by (rule ext) (auto simp: find_key_def find_None_iff)

lemma invalid_new [simp]: "\<not> oid_valid (e_id new_entry)" "\<not> oid_valid (d_id new_direntry)" "\<not> oid_valid SSAC_INVALID"
  by (simp_all add: oid_valid_def new_entry_def new_direntry_def)

lemma search_key:
  assumes "keys_distinct e_id es" "oid_valid i"
  shows "hq_search i es 0 = Some j \<longleftrightarrow> j < length es \<and> e_id (es ! j) = i"
proof
  show "hq_search i es 0 = Some j \<Longrightarrow> j < length es \<and> e_id (es ! j) = i" using hq_search_Some [of i es 0 j] by simp
next
  assume j: "j < length es \<and> e_id (es ! j) = i"
  then obtain k where k: "hq_search i es 0 = Some k" using hq_search_None [of i es 0] by (cases "hq_search i es 0") auto
  then have "k < length es" "e_id (es ! k) = i" using hq_search_Some [of i es 0 k] by simp_all
  with j keys_distinctD [OF assms(1), of k j] assms(2) k show "hq_search i es 0 = Some j" by simp
qed

lemma lookupid_None: "lookupid i ds k = None \<longleftrightarrow> (\<forall>d \<in> set ds. d_id d \<noteq> i)"
  by (induction ds arbitrary: k) auto

lemma lookupid_Some: "lookupid i ds k = Some j \<Longrightarrow> k \<le> j \<and> j - k < length ds \<and> d_id (ds ! (j - k)) = i"
proof (induction ds arbitrary: k)
  case (Cons d ds)
  show ?case
  proof (cases "i = d_id d")
    case False
    then have "lookupid i ds (k + 1) = Some j" using Cons.prems by simp
    from Cons.IH [OF this] show ?thesis by (auto simp: nth_Cons' Suc_diff_le)
  qed (use Cons.prems in simp)
qed simp

lemma lookup_key:
  assumes "keys_distinct d_id ds" "oid_valid i"
  shows "lookupid i ds 0 = Some j \<longleftrightarrow> j < length ds \<and> d_id (ds ! j) = i"
proof
  show "lookupid i ds 0 = Some j \<Longrightarrow> j < length ds \<and> d_id (ds ! j) = i" using lookupid_Some [of i ds 0 j] by simp
next
  assume j: "j < length ds \<and> d_id (ds ! j) = i"
  then obtain k where k: "lookupid i ds 0 = Some k" using lookupid_None [of i ds 0] by (cases "lookupid i ds 0") auto
  then have "k < length ds" "d_id (ds ! k) = i" using lookupid_Some [of i ds 0 k] by simp_all
  with j keys_distinctD [OF assms(1), of k j] assms(2) k show "lookupid i ds 0 = Some j" by simp
qed

lemma lookup_find:
  assumes "keys_distinct d_id ds" "oid_valid i"
  shows "find_key d_id ds i = (case lookupid i ds 0 of None \<Rightarrow> None | Some k \<Rightarrow> Some (ds ! k))"
proof (cases "lookupid i ds 0")
  case None
  then have "find_key d_id ds i = None" using assms(2) by (simp add: find_key_None lookupid_None)
  with None show ?thesis by simp
next
  case (Some k)
  then have "k < length ds" "d_id (ds ! k) = i" using lookup_key [OF assms] by simp_all
  then show ?thesis using Some find_key_nth [OF assms(1), of k] assms(2) by simp
qed

lemma free_direntry_Some: "free_direntry ds k = Some j \<Longrightarrow> k \<le> j \<and> j - k < length ds \<and> \<not> oid_valid (d_id (ds ! (j - k)))"
proof (induction ds arbitrary: k)
  case (Cons d ds)
  show ?case
  proof (cases "oid_valid (d_id d)")
    case True
    then have "free_direntry ds (k + 1) = Some j" using Cons.prems by simp
    from Cons.IH [OF this] show ?thesis by (auto simp: nth_Cons' Suc_diff_le)
  qed (use Cons.prems in simp)
qed simp

lemma free_direntry_None: "free_direntry ds k = None \<longleftrightarrow> (\<forall>d \<in> set ds. oid_valid (d_id d))"
  by (induction ds arbitrary: k) auto

lemma lru_free: "hq_lruentry es k ep = Some j \<Longrightarrow>
   (\<exists>d < length es. j = k + d \<and> \<not> busy (es ! d)) \<or> (\<exists>e. ep = Some (j, e))"
proof (induction es arbitrary: k ep)
  case (Cons e es)
  have later: "\<exists>d < length (e # es). j = k + d \<and> \<not> busy ((e # es) ! d)" if "\<exists>d < length es. j = (k + 1) + d \<and> \<not> busy (es ! d)"
  proof -
    from that obtain d where "d < length es" "j = (k + 1) + d" "\<not> busy (es ! d)" by blast
    then show ?thesis by (intro exI [of _ "Suc d"]) simp
  qed
  have here: "\<exists>d < length (e # es). j = k + d \<and> \<not> busy ((e # es) ! d)" if "\<not> busy e" "j = k"
    using that by (intro exI [of _ 0]) simp
  have kept: ?case if "hq_lruentry es (k + 1) ep = Some j" using Cons.IH [OF that] later by blast
  have taken: ?case if "\<not> busy e" "hq_lruentry es (k + 1) (Some (k, e)) = Some j"
    using Cons.IH [OF that(2)] later here [OF that(1)] by blast
  show ?case
  proof (cases "busy e")
    case True
    then show ?thesis using Cons.prems kept by simp
  next
    case False
    then show ?thesis using Cons.prems kept taken here by (cases ep) (auto split: if_splits simp del: length_Cons nth_Cons_Suc)
  qed
qed simp

lemma lru_index:
  assumes "hq_lruentry es 0 None = Some j"
  shows "j < length es" "\<not> busy (es ! j)"
  using lru_free [OF assms] by auto

end
