(* ===== verification/SsacRepView.thy ===== *)
theory SsacRepView
  imports SsacRepInv
begin

text \<open>
  Copies and directory of the replicated cache as maps: \<open>copy s vp i\<close> is the copy of object \<open>i\<close> on
  processor \<open>vp\<close>, \<open>entry_of_dir s i\<close> its directory entry. Each elementary update changes them at one
  place and keeps the shape of the cache.
\<close>

subsection \<open>Masks\<close>

lemma vp_bits: "\<forall>vp \<in> set [0..<31]. vp_bit vp = push_bit vp 1"
  by code_simp

lemma bit_vp_bit: "vp < 31 \<Longrightarrow> bit (vp_bit vp) k \<longleftrightarrow> k = vp"
  using vp_bits by (auto simp: bit_simps)

lemma bit_addvp: "vp < 31 \<Longrightarrow> bit (d_vpmask (d_addvp vp d)) k \<longleftrightarrow> bit (d_vpmask d) k \<or> k = vp"
  by (simp add: d_addvp_def bit_or_iff bit_vp_bit)

lemma bit_without: "vp < 31 \<Longrightarrow> bit (m AND NOT (vp_bit vp)) k \<longleftrightarrow> bit m k \<and> k \<noteq> vp"
  using bit_imp_le_length [of m k] by (auto simp: bit_and_iff bit_not_iff bit_vp_bit)

lemma mask_vps_set: "set (mask_vps m v) = {v + k |k. bit m k} \<and> distinct (mask_vps m v)"
proof (induction m v rule: mask_vps.induct)
  case (1 m v)
  have low: "m AND 1 \<noteq> 0 \<longleftrightarrow> bit m 0" by (simp add: and_one_eq bit_0 odd_iff_mod_2_eq_one)
  have up: "{v + k |k. bit m k} = (if bit m 0 then {v} else {}) \<union> {(v + 1) + k |k. bit (drop_bit 1 m) k}"
  proof (intro equalityI subsetI)
    fix x assume "x \<in> {v + k |k. bit m k}"
    then obtain k where k: "x = v + k" "bit m k" by blast
    show "x \<in> (if bit m 0 then {v} else {}) \<union> {(v + 1) + k |k. bit (drop_bit 1 m) k}"
    proof (cases k)
      case (Suc l)
      then have "bit (drop_bit 1 m) l" using k by (simp add: bit_drop_bit_eq)
      then show ?thesis using k Suc by auto
    qed (use k in simp)
  next
    fix x assume "x \<in> (if bit m 0 then {v} else {}) \<union> {(v + 1) + k |k. bit (drop_bit 1 m) k}"
    then consider "bit m 0" "x = v" | k where "x = (v + 1) + k" "bit (drop_bit 1 m) k" by (auto split: if_splits)
    then show "x \<in> {v + k |k. bit m k}"
    proof cases
      case 2
      then have "bit m (Suc k)" by (simp add: bit_drop_bit_eq)
      then show ?thesis using 2 by (intro CollectI exI [of _ "Suc k"]) simp
    qed auto
  qed
  show ?case
  proof (cases "m = 0")
    case False
    then show ?thesis using 1 low up unfolding mask_vps.simps [of m v] by auto
  qed (simp add: mask_vps.simps)
qed

lemma mask_vps_0: "set (mask_vps m 0) = {k. bit m k}" "distinct (mask_vps m 0)"
  using mask_vps_set [of m 0] by auto

lemma mask_vps_Nil: "mask_vps m v = [] \<longleftrightarrow> m = 0"
proof
  assume e: "mask_vps m v = []"
  show "m = 0"
  proof (rule bit_eqI)
    fix k show "bit m k = bit 0 k" using mask_vps_set [of m v] e by auto
  qed
qed (simp add: mask_vps.simps)

subsection \<open>Views\<close>

definition copies :: "ssac_co \<Rightarrow> nat \<Rightarrow> nat \<Rightarrow> cache_entry list" where
  "copies s h vp =
     (case reps s vp of
        None \<Rightarrow> replicate (co_associativity s) new_entry
      | Some r \<Rightarrow> (case hq_entries (r_hashqs r ! h) of None \<Rightarrow> replicate (co_associativity s) new_entry | Some es \<Rightarrow> es))"

definition dirl :: "ssac_co \<Rightarrow> nat \<Rightarrow> dir_entry list" where
  "dirl s h =
     (case reps s (line_vp s h) of
        None \<Rightarrow> replicate (co_associativity s * numproc s) new_direntry
      | Some r \<Rightarrow> r_dirlines r ! line_no s h)"

definition qcount :: "ssac_co \<Rightarrow> nat \<Rightarrow> nat \<Rightarrow> u64" where
  "qcount s vp h = (case reps s vp of None \<Rightarrow> 0 | Some r \<Rightarrow> hq_count (r_hashqs r ! h))"

definition made :: "ssac_co \<Rightarrow> nat \<Rightarrow> nat \<Rightarrow> bool" where
  "made s vp h \<longleftrightarrow> (\<exists>r es. reps s vp = Some r \<and> hq_entries (r_hashqs r ! h) = Some es)"

definition ix :: "ssac_co \<Rightarrow> u32 \<Rightarrow> nat" where "ix s i = unat i mod co_numhashqs s"

definition copy :: "ssac_co \<Rightarrow> nat \<Rightarrow> u32 \<Rightarrow> cache_entry option" where
  "copy s vp i = find_key e_id (copies s (ix s i) vp) i"

definition entry_of_dir :: "ssac_co \<Rightarrow> u32 \<Rightarrow> dir_entry option" where
  "entry_of_dir s i = find_key d_id (dirl s (ix s i)) i"

subsection \<open>Shape\<close>

definition slots_ok :: "nat \<Rightarrow> nat \<Rightarrow> nat \<Rightarrow> cache_entry list \<Rightarrow> bool" where
  "slots_ok a n h es \<longleftrightarrow> length es = a \<and> keys_distinct e_id es \<and>
     (\<forall>e \<in> set es. e_flags e \<in> {0, 1, 2, 3} \<and> (oid_valid (e_id e) \<longrightarrow> unat (e_id e) mod n = h) \<and> (\<not> oid_valid (e_id e) \<longrightarrow> e_flags e = 0))"

definition line_ok :: "nat \<Rightarrow> nat \<Rightarrow> nat \<Rightarrow> nat \<Rightarrow> dir_entry list \<Rightarrow> bool" where
  "line_ok a p n h ds \<longleftrightarrow> length ds = a * p \<and> keys_distinct d_id ds \<and>
     (\<forall>d \<in> set ds. d_flags d \<in> {0, 1, 2, 3} \<and> (\<forall>k. bit (d_vpmask d) k \<longrightarrow> k < p) \<and>
        (oid_valid (d_id d) \<longrightarrow> unat (d_id d) mod n = h) \<and> (\<not> oid_valid (d_id d) \<longrightarrow> d_vpmask d = 0))"

definition lines_of :: "nat \<Rightarrow> nat \<Rightarrow> nat \<Rightarrow> nat" where
  "lines_of p n vp = (if vp < n mod p then n div p + 1 else n div p)"

definition co_shape :: "ssac_co \<Rightarrow> bool" where
  "co_shape s \<longleftrightarrow> 0 < numproc s \<and> numproc s \<le> 31 \<and> 0 < co_numhashqs s \<and>
     (\<forall>vp r. reps s vp = Some r \<longrightarrow> vp < numproc s \<and> length (r_hashqs r) = co_numhashqs s \<and>
        length (r_dirlines r) = lines_of (numproc s) (co_numhashqs s) vp) \<and>
     (\<forall>h < co_numhashqs s. \<forall>vp. slots_ok (co_associativity s) (co_numhashqs s) h (copies s h vp)) \<and>
     (\<forall>h < co_numhashqs s. line_ok (co_associativity s) (numproc s) (co_numhashqs s) h (dirl s h))"

lemma co_shapeD:
  assumes "co_shape s"
  shows "0 < numproc s" "numproc s \<le> 31" "0 < co_numhashqs s"
    and "reps s vp = Some r \<Longrightarrow> vp < numproc s"
    and "reps s vp = Some r \<Longrightarrow> length (r_hashqs r) = co_numhashqs s"
    and "reps s vp = Some r \<Longrightarrow> length (r_dirlines r) = lines_of (numproc s) (co_numhashqs s) vp"
    and "h < co_numhashqs s \<Longrightarrow> slots_ok (co_associativity s) (co_numhashqs s) h (copies s h vp)"
    and "h < co_numhashqs s \<Longrightarrow> line_ok (co_associativity s) (numproc s) (co_numhashqs s) h (dirl s h)"
  using assms unfolding co_shape_def by blast+

lemma ix_less: "co_shape s \<Longrightarrow> ix s i < co_numhashqs s"
  by (simp add: ix_def co_shapeD)

lemma line_place:
  assumes "co_shape s" "h < co_numhashqs s"
  shows "line_vp s h < numproc s" "line_no s h < lines_of (numproc s) (co_numhashqs s) (line_vp s h)"
proof -
  let ?p = "numproc s" and ?n = "co_numhashqs s"
  have p: "0 < ?p" using co_shapeD [OF assms(1)] by simp
  then show "line_vp s h < ?p" by (simp add: line_vp_def)
  have no: "line_no s h = h div ?p" by (simp add: line_no_def line_vp_def minus_mod_eq_mult_div)
  show "line_no s h < lines_of ?p ?n (line_vp s h)"
  proof (cases "h div ?p < ?n div ?p")
    case False
    then have eq: "h div ?p = ?n div ?p" using assms(2) div_le_mono [of h ?n ?p] by simp
    then have "h mod ?p < ?n mod ?p" by (metis add_less_cancel_left assms(2) mult_div_mod_eq)
    with eq show ?thesis by (simp add: no lines_of_def line_vp_def)
  qed (simp add: no lines_of_def)
qed

lemma line_inj:
  assumes "0 < numproc s" "line_vp s h = line_vp s h'" "line_no s h = line_no s h'"
  shows "h = h'"
proof -
  have "h = line_no s h * numproc s + line_vp s h" for h
    by (simp add: line_no_def line_vp_def minus_mod_eq_mult_div)
  then show ?thesis using assms by metis
qed

text \<open>What no update changes, and what is made stays.\<close>

definition co_frame :: "ssac_co \<Rightarrow> ssac_co \<Rightarrow> bool" where
  "co_frame s s' \<longleftrightarrow> numproc s' = numproc s \<and> co_numhashqs s' = co_numhashqs s \<and> co_associativity s' = co_associativity s \<and>
     (\<forall>vp. reps s vp \<noteq> None \<longrightarrow> reps s' vp \<noteq> None) \<and> (\<forall>vp h. made s vp h \<longrightarrow> made s' vp h)"

lemma co_frame_refl [simp]: "co_frame s s" by (simp add: co_frame_def)
lemma co_frame_trans [trans]: "co_frame s s' \<Longrightarrow> co_frame s' s'' \<Longrightarrow> co_frame s s''" by (simp add: co_frame_def)

lemma co_frameD:
  assumes "co_frame s s'"
  shows "numproc s' = numproc s" "co_numhashqs s' = co_numhashqs s" "co_associativity s' = co_associativity s"
    "reps s vp \<noteq> None \<Longrightarrow> reps s' vp \<noteq> None" "made s vp h \<Longrightarrow> made s' vp h" "ix s' i = ix s i"
    "line_vp s' h = line_vp s h"
  using assms by (simp_all add: co_frame_def ix_def line_vp_def)

end
