(* ===== verification/SsacRepUpd.thy ===== *)
theory SsacRepUpd
  imports SsacRepView
begin

text \<open>
  The elementary updates of the replicated cache: making a representative or a queue, and changing an
  entry or a directory entry.
\<close>

subsection \<open>Making what is missing\<close>

text \<open>\<open>createRepOn\<close> makes a representative with the constructor; the first call on a processor does it too.\<close>

definition mh_creates :: "(nat \<Rightarrow> ssac_co \<Rightarrow> ssac_co) \<Rightarrow> bool" where
  "mh_creates mk \<longleftrightarrow> (\<forall>vp s. vp < numproc s \<longrightarrow> reps s vp = None \<longrightarrow>
     mk vp s = s\<lparr>reps := (reps s)(vp \<mapsto> SSACSimpleReplicatedArray_new (numproc s) vp (co_numhashqs s) (co_associativity s))\<rparr>)"

definition same_views :: "ssac_co \<Rightarrow> ssac_co \<Rightarrow> bool" where
  "same_views s s' \<longleftrightarrow> co_shape s' \<and> co_frame s s' \<and> saved s' = saved s \<and>
     (\<forall>h < co_numhashqs s. dirl s' h = dirl s h \<and> (\<forall>vp. copies s' h vp = copies s h vp \<and> qcount s' vp h = qcount s vp h))"

lemma same_views_refl: "co_shape s \<Longrightarrow> same_views s s" by (simp add: same_views_def)

lemma same_views_trans [trans]: "same_views s s' \<Longrightarrow> same_views s' s'' \<Longrightarrow> same_views s s''"
  by (auto simp: same_views_def dest: co_frame_trans co_frameD(2))

lemma same_viewsD:
  assumes "same_views s s'"
  shows "co_shape s'" "co_frame s s'" "saved s' = saved s" "h < co_numhashqs s \<Longrightarrow> dirl s' h = dirl s h"
    "h < co_numhashqs s \<Longrightarrow> copies s' h vp = copies s h vp" "h < co_numhashqs s \<Longrightarrow> qcount s' vp h = qcount s vp h"
  using assms by (simp_all add: same_views_def)

lemma same_views_maps:
  assumes "same_views s s'" "co_shape s"
  shows "copy s' = copy s" "entry_of_dir s' = entry_of_dir s"
  using same_viewsD [OF assms(1)] ix_less [OF assms(2)] co_frameD(6) [OF same_viewsD(2) [OF assms(1)]]
  by (auto simp: copy_def entry_of_dir_def fun_eq_iff)

lemma create_views:
  assumes mk: "mh_creates mk" and s: "co_shape s" and vp: "vp < numproc s" "reps s vp = None"
  shows "same_views s (mk vp s)" "reps (mk vp s) vp \<noteq> None"
proof -
  let ?new = "SSACSimpleReplicatedArray_new (numproc s) vp (co_numhashqs s) (co_associativity s)"
  have e: "mk vp s = s\<lparr>reps := (reps s)(vp \<mapsto> ?new)\<rparr>" using mk vp by (simp add: mh_creates_def)
  show "reps (mk vp s) vp \<noteq> None" by (simp add: e)
  have new: "length (r_hashqs ?new) = co_numhashqs s" "length (r_dirlines ?new) = lines_of (numproc s) (co_numhashqs s) vp"
    by (simp_all add: SSACSimpleReplicatedArray_new_def lines_of_def)
  have q: "r_hashqs ?new ! h = new_hashq" if "h < co_numhashqs s" for h
    using that by (simp add: SSACSimpleReplicatedArray_new_def)
  have d: "r_dirlines ?new ! l = replicate (co_associativity s * numproc s) new_direntry" if "l < lines_of (numproc s) (co_numhashqs s) vp" for l
    using that by (auto simp: SSACSimpleReplicatedArray_new_def lines_of_def split: if_splits)
  have copies: "copies (mk vp s) h x = copies s h x" if "h < co_numhashqs s" for h x
    using q [OF that] vp by (auto simp: copies_def e new_hashq_def cong: option.case_cong)
  have count: "qcount (mk vp s) x h = qcount s x h" if "h < co_numhashqs s" for h x
    using q [OF that] vp by (auto simp: qcount_def e new_hashq_def)
  have dirs: "dirl (mk vp s) h = dirl s h" if "h < co_numhashqs s" for h
  proof (cases "line_vp s h = vp")
    case True
    then have "line_no s h < lines_of (numproc s) (co_numhashqs s) vp" using line_place(2) [OF s that] by simp
    from d [OF this] True vp(2) show ?thesis by (simp add: dirl_def e line_vp_def line_no_def)
  qed (simp add: dirl_def e line_vp_def line_no_def cong: option.case_cong)
  have frame: "co_frame s (mk vp s)" using vp(2) by (auto simp: co_frame_def made_def e)
  have "co_shape (mk vp s)"
    unfolding co_shape_def
  proof (intro conjI allI impI)
    fix x r assume "reps (mk vp s) x = Some r"
    then have "(x = vp \<and> r = ?new) \<or> reps s x = Some r" by (auto simp: e split: if_splits)
    then show "x < numproc (mk vp s)" "length (r_hashqs r) = co_numhashqs (mk vp s)"
      "length (r_dirlines r) = lines_of (numproc (mk vp s)) (co_numhashqs (mk vp s)) x"
      using vp(1) new co_shapeD(4,5,6) [OF s, of x r] by (auto simp: e)
  next
    fix h x assume h: "h < co_numhashqs (mk vp s)"
    then show "slots_ok (co_associativity (mk vp s)) (co_numhashqs (mk vp s)) h (copies (mk vp s) h x)"
      using co_shapeD(7) [OF s, of h x] copies by (simp add: e)
  next
    fix h assume h: "h < co_numhashqs (mk vp s)"
    then show "line_ok (co_associativity (mk vp s)) (numproc (mk vp s)) (co_numhashqs (mk vp s)) h (dirl (mk vp s) h)"
      using co_shapeD(8) [OF s, of h] dirs by (simp add: e)
  qed (use co_shapeD(1,2,3) [OF s] in \<open>simp_all add: e\<close>)
  with frame copies count dirs show "same_views s (mk vp s)" by (simp add: same_views_def e)
qed

lemma finddirline_views:
  assumes mk: "mh_creates mk" and s: "co_shape s" and h: "h < co_numhashqs s"
  shows "\<exists>s'. finddirline mk h s = Inr s' \<and> same_views s s' \<and> reps s' (line_vp s h) \<noteq> None"
proof -
  let ?v = "line_vp s h"
  let ?s = "if reps s ?v = None then mk ?v s else s"
  have v: "same_views s ?s" "reps ?s ?v \<noteq> None"
    using create_views [OF mk s line_place(1) [OF s h]] same_views_refl [OF s] by auto
  have p: "numproc s \<noteq> 0" using co_shapeD(1) [OF s] by simp
  have fr: "line_vp ?s h = ?v" "line_no ?s h = line_no s h" "co_numhashqs ?s = co_numhashqs s" "numproc ?s = numproc s"
    using co_frameD [OF same_viewsD(2) [OF v(1)]] by (simp_all add: line_no_def line_vp_def)
  from v(2) obtain r where r: "reps ?s ?v = Some r" by blast
  have "line_no s h < length (r_dirlines r)"
    using co_shapeD(6) [OF same_viewsD(1) [OF v(1)] r] line_place(2) [OF s h] fr by simp
  then have "finddirline mk h s = Inr ?s"
    using p r fr by (simp add: finddirline_def Let_def arr_get_def)
  with v show ?thesis by blast
qed

lemma dirline_eq:
  assumes "co_shape s" "h < co_numhashqs s" "reps s (line_vp s h) \<noteq> None"
  shows "dirline s h = Inr (dirl s h)"
proof -
  from assms(3) obtain r where r: "reps s (line_vp s h) = Some r" by blast
  then show ?thesis
    using co_shapeD(6) [OF assms(1) r] line_place(2) [OF assms(1,2)] by (simp add: dirline_def dirl_def arr_get_def)
qed

lemma queue_on_eq:
  assumes "co_shape s" "h < co_numhashqs s" "reps s vp = Some r"
  shows "queue_on s vp h = Inr (r_hashqs r ! h)"
  using assms co_shapeD(5) [OF assms(1,3)] by (simp add: queue_on_def arr_get_def)

lemma entries_on_eq:
  assumes "co_shape s" "h < co_numhashqs s" "made s vp h"
  shows "entries_on s vp h = Inr (copies s h vp)"
proof -
  from assms(3) obtain r es where r: "reps s vp = Some r" "hq_entries (r_hashqs r ! h) = Some es" by (auto simp: made_def)
  then show ?thesis using queue_on_eq [OF assms(1,2) r(1)] by (simp add: entries_on_def copies_def)
qed

lemma copy_made:
  assumes "copy s vp i = Some e"
  shows "made s vp (ix s i)"
proof -
  have no: "copies s (ix s i) vp \<noteq> replicate (co_associativity s) new_entry"
    using assms find_key_replicate [of e_id new_entry] by (auto simp: copy_def)
  then obtain r where r: "reps s vp = Some r" by (cases "reps s vp") (auto simp: copies_def)
  then obtain es where "hq_entries (r_hashqs r ! ix s i) = Some es"
    using no by (cases "hq_entries (r_hashqs r ! ix s i)") (auto simp: copies_def)
  with r show ?thesis by (auto simp: made_def)
qed

subsection \<open>Changing the queue of a processor\<close>

lemma set_queue_views:
  assumes s: "co_shape s" and h: "h < co_numhashqs s" and r: "reps s vp = Some r"
    and q: "slots_ok (co_associativity s) (co_numhashqs s) h (case hq_entries q of None \<Rightarrow> replicate (co_associativity s) new_entry | Some es \<Rightarrow> es)"
    and m: "hq_entries (r_hashqs r ! h) \<noteq> None \<longrightarrow> hq_entries q \<noteq> None"
  defines "s' \<equiv> set_queue vp h q s"
  shows "co_shape s'" "co_frame s s'" "saved s' = saved s" "dirl s' = dirl s"
    "copies s' = (\<lambda>h' vp'. if h' = h \<and> vp' = vp then (case hq_entries q of None \<Rightarrow> replicate (co_associativity s) new_entry | Some es \<Rightarrow> es)
       else copies s h' vp')"
    "qcount s' = (\<lambda>vp' h'. if h' = h \<and> vp' = vp then hq_count q else qcount s vp' h')"
    "hq_entries q \<noteq> None \<Longrightarrow> made s' vp h"
proof -
  have l: "length (r_hashqs r) = co_numhashqs s" using co_shapeD(5) [OF s r] .
  have reps: "reps s' = (reps s)(vp \<mapsto> r\<lparr>r_hashqs := (r_hashqs r)[h := q]\<rparr>)" by (simp add: s'_def set_queue_def r)
  have sel: "numproc s' = numproc s" "co_numhashqs s' = co_numhashqs s" "co_associativity s' = co_associativity s" "saved s' = saved s"
    by (simp_all add: s'_def set_queue_def)
  show "saved s' = saved s" by (rule sel(4))
  show copies: "copies s' = (\<lambda>h' vp'. if h' = h \<and> vp' = vp then (case hq_entries q of None \<Rightarrow> replicate (co_associativity s) new_entry | Some es \<Rightarrow> es)
       else copies s h' vp')"
    using r l h by (auto simp: copies_def reps sel fun_eq_iff nth_list_update cong: option.case_cong)
  show "qcount s' = (\<lambda>vp' h'. if h' = h \<and> vp' = vp then hq_count q else qcount s vp' h')"
    using r l h by (auto simp: qcount_def reps fun_eq_iff nth_list_update)
  show dirs: "dirl s' = dirl s"
    using r by (auto simp: dirl_def reps sel line_vp_def line_no_def fun_eq_iff cong: option.case_cong)
  show "co_frame s s'"
  proof -
    have "made s' x k" if "made s x k" for x k
      using that r l h m by (cases "x = vp"; cases "k = h") (auto simp: made_def reps nth_list_update)
    then show ?thesis by (auto simp: co_frame_def sel reps)
  qed
  show "hq_entries q \<noteq> None \<Longrightarrow> made s' vp h" using l h by (auto simp: made_def reps)
  show "co_shape s'"
    unfolding co_shape_def
  proof (intro conjI allI impI)
    fix x r' assume "reps s' x = Some r'"
    then have "(x = vp \<and> r' = r\<lparr>r_hashqs := (r_hashqs r)[h := q]\<rparr>) \<or> reps s x = Some r'" by (auto simp: reps split: if_splits)
    then show "x < numproc s'" "length (r_hashqs r') = co_numhashqs s'" "length (r_dirlines r') = lines_of (numproc s') (co_numhashqs s') x"
      using co_shapeD(4,5,6) [OF s r] co_shapeD(4,5,6) [OF s, of x r'] by (auto simp: sel)
  next
    fix h' x assume "h' < co_numhashqs s'"
    then show "slots_ok (co_associativity s') (co_numhashqs s') h' (copies s' h' x)"
      using co_shapeD(7) [OF s, of h' x] q by (simp add: copies sel)
  next
    fix h' assume "h' < co_numhashqs s'"
    then show "line_ok (co_associativity s') (numproc s') (co_numhashqs s') h' (dirl s' h')"
      using co_shapeD(8) [OF s, of h'] by (simp add: dirs sel)
  qed (use co_shapeD(1,2,3) [OF s] in \<open>simp_all add: sel\<close>)
qed

lemma set_entries_queue: "reps s vp = Some r \<Longrightarrow> set_entries vp h es s = set_queue vp h ((r_hashqs r ! h)\<lparr>hq_entries := Some es\<rparr>) s"
  by (simp add: set_entries_def set_queue_def)

lemma set_entries_views:
  assumes s: "co_shape s" and h: "h < co_numhashqs s" and m: "made s vp h"
    and es: "slots_ok (co_associativity s) (co_numhashqs s) h es"
  defines "s' \<equiv> set_entries vp h es s"
  shows "co_shape s'" "co_frame s s'" "saved s' = saved s" "dirl s' = dirl s" "qcount s' = qcount s"
    "copies s' = (\<lambda>h' vp'. if h' = h \<and> vp' = vp then es else copies s h' vp')"
proof -
  from m obtain r es0 where r: "reps s vp = Some r" "hq_entries (r_hashqs r ! h) = Some es0" by (auto simp: made_def)
  let ?q = "(r_hashqs r ! h)\<lparr>hq_entries := Some es\<rparr>"
  have e: "s' = set_queue vp h ?q s" using set_entries_queue [OF r(1)] by (simp add: s'_def)
  note v = set_queue_views [OF s h r(1), of ?q, folded e]
  show "co_shape s'" "co_frame s s'" "saved s' = saved s" "dirl s' = dirl s"
    "copies s' = (\<lambda>h' vp'. if h' = h \<and> vp' = vp then es else copies s h' vp')"
    using v es by (simp_all cong: option.case_cong if_cong)
  have "qcount s' = (\<lambda>vp' h'. if h' = h \<and> vp' = vp then hq_count ?q else qcount s vp' h')" using v(6) es by simp
  then show "qcount s' = qcount s" using r by (auto simp: qcount_def fun_eq_iff)
qed

subsection \<open>Changing a directory line\<close>

lemma set_dirline_views:
  assumes s: "co_shape s" and h: "h < co_numhashqs s" and m: "reps s (line_vp s h) \<noteq> None"
    and ds: "line_ok (co_associativity s) (numproc s) (co_numhashqs s) h ds"
  defines "s' \<equiv> set_dirline h ds s"
  shows "co_shape s'" "co_frame s s'" "saved s' = saved s" "copies s' = copies s" "qcount s' = qcount s"
    "dirl s' = (dirl s)(h := ds)"
proof -
  from m obtain r where r: "reps s (line_vp s h) = Some r" by blast
  let ?v = "line_vp s h" and ?l = "line_no s h"
  have l: "?l < length (r_dirlines r)" using co_shapeD(6) [OF s r] line_place(2) [OF s h] by simp
  have reps: "reps s' = (reps s)(?v \<mapsto> r\<lparr>r_dirlines := (r_dirlines r)[?l := ds]\<rparr>)" by (simp add: s'_def set_dirline_def r)
  have sel: "numproc s' = numproc s" "co_numhashqs s' = co_numhashqs s" "co_associativity s' = co_associativity s" "saved s' = saved s"
    by (simp_all add: s'_def set_dirline_def)
  have place: "line_vp s' = line_vp s" "line_no s' = line_no s" by (simp_all add: line_vp_def line_no_def sel fun_eq_iff)
  show "saved s' = saved s" by (rule sel(4))
  show copies: "copies s' = copies s" using r by (auto simp: copies_def reps sel fun_eq_iff cong: option.case_cong)
  show "qcount s' = qcount s" using r by (auto simp: qcount_def reps fun_eq_iff)
  show dirs: "dirl s' = (dirl s)(h := ds)"
  proof
    fix h'
    have p: "0 < numproc s" using co_shapeD(1) [OF s] .
    show "dirl s' h' = ((dirl s)(h := ds)) h'"
    proof (cases "line_vp s h' = ?v")
      case True
      show ?thesis
      proof (cases "h' = h")
        case False
        then have "line_no s h' \<noteq> ?l" using line_inj [OF p True] by blast
        then show ?thesis using True r False by (simp add: dirl_def place reps sel)
      qed (use r l in \<open>simp add: dirl_def place reps sel\<close>)
    next
      case False
      then show ?thesis by (auto simp: dirl_def place reps sel cong: option.case_cong)
    qed
  qed
  show "co_frame s s'"
    using r by (auto simp: co_frame_def sel reps made_def)
  show "co_shape s'"
    unfolding co_shape_def
  proof (intro conjI allI impI)
    fix x r' assume "reps s' x = Some r'"
    then have "(x = ?v \<and> r' = r\<lparr>r_dirlines := (r_dirlines r)[?l := ds]\<rparr>) \<or> reps s x = Some r'" by (auto simp: reps split: if_splits)
    then show "x < numproc s'" "length (r_hashqs r') = co_numhashqs s'" "length (r_dirlines r') = lines_of (numproc s') (co_numhashqs s') x"
      using co_shapeD(4,5,6) [OF s r] co_shapeD(4,5,6) [OF s, of x r'] by (auto simp: sel)
  next
    fix h' x assume "h' < co_numhashqs s'"
    then show "slots_ok (co_associativity s') (co_numhashqs s') h' (copies s' h' x)"
      using co_shapeD(7) [OF s, of h' x] by (simp add: copies sel)
  next
    fix h' assume "h' < co_numhashqs s'"
    then show "line_ok (co_associativity s') (numproc s') (co_numhashqs s') h' (dirl s' h')"
      using co_shapeD(8) [OF s, of h'] ds by (simp add: dirs sel)
  qed (use co_shapeD(1,2,3) [OF s] in \<open>simp_all add: sel\<close>)
qed

end
