(* ===== verification/SsacRepOps.thy ===== *)
theory SsacRepOps
  imports SsacRepUpd
begin

text \<open>
  The operations of the replicated cache on all copies of an object: marking them busy, giving them
  the writer's data, and the end of \<open>get\<close>. None of the assertions in them fails.
\<close>

subsection \<open>Entries and identifiers\<close>

definition on_id :: "u32 \<Rightarrow> (cache_entry \<Rightarrow> cache_entry) \<Rightarrow> cache_entry \<Rightarrow> cache_entry" where
  "on_id i f e = (if e_id e = i then f e else e)"

definition keeps_entry :: "(cache_entry \<Rightarrow> cache_entry) \<Rightarrow> bool" where
  "keeps_entry f \<longleftrightarrow> (\<forall>e. e_id (f e) = e_id e \<and> (e_flags e \<in> {0, 1, 2, 3} \<longrightarrow> e_flags (f e) \<in> {0, 1, 2, 3}))"

lemma on_id_id: "keeps_entry f \<Longrightarrow> e_id (on_id i f e) = e_id e"
  by (simp add: on_id_def keeps_entry_def)

lemma flags_cases: "(x :: u32) \<in> {0, 1, 2, 3} \<Longrightarrow> (x OR 1 \<in> {0, 1, 2, 3}) \<and> (x OR 2 \<in> {0, 1, 2, 3}) \<and> (x AND NOT 1 \<in> {0, 1, 2, 3})"
  by auto

lemma keeps_entry_intros [simp]:
  "keeps_entry set_busy" "keeps_entry clear_busy" "keeps_entry (\<lambda>e. e\<lparr>e_lastused := c\<rparr>)"
  "keeps_entry (\<lambda>e. clear_busy (e\<lparr>e_data := v\<rparr>))" "keeps_entry (\<lambda>e. entry_dirty (e\<lparr>e_data := v\<rparr>))" "keeps_entry flushed"
proof -
  show "keeps_entry set_busy" "keeps_entry clear_busy" "keeps_entry (\<lambda>e. clear_busy (e\<lparr>e_data := v\<rparr>))"
    "keeps_entry (\<lambda>e. entry_dirty (e\<lparr>e_data := v\<rparr>))"
    using flags_cases unfolding keeps_entry_def set_busy_def clear_busy_def entry_dirty_def BUSY_def DIRTY_def
    by (simp_all del: insert_iff)
  show "keeps_entry flushed"
    by (auto simp: keeps_entry_def flushed_def save_entry_def busy_def dirty_def BUSY_def DIRTY_def Let_def)
qed (simp add: keeps_entry_def)

lemma bit_nonzero: "bit w k \<Longrightarrow> w \<noteq> 0" for w :: u32
  by auto

lemma flag_updates [simp]:
  "busy (set_busy e)" "dirty (set_busy e) = dirty e" "e_data (set_busy e) = e_data e"
  "\<not> busy (clear_busy e)" "dirty (clear_busy e) = dirty e" "e_data (clear_busy e) = e_data e"
  "busy (entry_dirty e) = busy e" "dirty (entry_dirty e)" "e_data (entry_dirty e) = e_data e"
  "busy (e\<lparr>e_lastused := c\<rparr>) = busy e" "dirty (e\<lparr>e_lastused := c\<rparr>) = dirty e"
  "busy (e\<lparr>e_data := v\<rparr>) = busy e" "dirty (e\<lparr>e_data := v\<rparr>) = dirty e"
proof -
  have "(x OR 1) AND 1 \<noteq> 0" "(x OR 1) AND 2 = x AND 2" "(x AND - 2) AND 1 = 0" "(x AND - 2) AND 2 = x AND 2"
    "(x OR 2) AND 1 = x AND 1" "(x OR 2) AND 2 \<noteq> 0" for x :: u32
  proof -
    have m: "- 2 = NOT (1 :: u32)" by simp
    show "(x OR 1) AND 2 = x AND 2" "(x AND - 2) AND 1 = 0" "(x AND - 2) AND 2 = x AND 2" "(x OR 2) AND 1 = x AND 1"
      unfolding m by (rule bit_eqI; auto simp: bit_simps bit_1_iff simp del: bit.compl_one not_one_eq)+
    have b: "bit ((x OR 1) AND 1) 0" "bit ((x OR 2) AND 2) 1" by (simp_all add: bit_simps)
    show "(x OR 1) AND 1 \<noteq> 0" by (rule bit_nonzero [OF b(1)])
    show "(x OR 2) AND 2 \<noteq> 0" by (rule bit_nonzero [OF b(2)])
  qed
  then show "busy (set_busy e)" "dirty (set_busy e) = dirty e" "e_data (set_busy e) = e_data e"
    "\<not> busy (clear_busy e)" "dirty (clear_busy e) = dirty e" "e_data (clear_busy e) = e_data e"
    "busy (entry_dirty e) = busy e" "dirty (entry_dirty e)" "e_data (entry_dirty e) = e_data e"
    "busy (e\<lparr>e_lastused := c\<rparr>) = busy e" "dirty (e\<lparr>e_lastused := c\<rparr>) = dirty e"
    "busy (e\<lparr>e_data := v\<rparr>) = busy e" "dirty (e\<lparr>e_data := v\<rparr>) = dirty e"
    unfolding busy_def dirty_def set_busy_def clear_busy_def entry_dirty_def BUSY_def DIRTY_def by simp_all
qed

lemma update_on_id:
  assumes "keys_distinct e_id es" "j < length es" "oid_valid (e_id (es ! j))"
  shows "es[j := f (es ! j)] = map (on_id (e_id (es ! j)) f) es"
proof (rule nth_equalityI)
  fix k assume k: "k < length (es[j := f (es ! j)])"
  then show "es[j := f (es ! j)] ! k = map (on_id (e_id (es ! j)) f) es ! k"
    using keys_distinctD [OF assms(1), of j k] assms(2,3) by (cases "k = j") (auto simp: on_id_def)
qed simp

lemma on_id_ids [simp]: "keeps_entry f \<Longrightarrow> map e_id (map (on_id i f) es) = map e_id es"
  by (simp add: on_id_id)

lemma on_id_absent: "i \<notin> e_id ` set es \<Longrightarrow> map (on_id i f) es = es"
  by (rule map_idI) (auto simp: on_id_def)

lemma slots_on_id:
  assumes "slots_ok a n h es" "keeps_entry f" "oid_valid i"
  shows "slots_ok a n h (map (on_id i f) es)"
  using assms keys_distinct_map [of e_id "on_id i f"] by (auto simp: slots_ok_def on_id_id) (auto simp: on_id_def keeps_entry_def)

subsection \<open>Changing entries\<close>

definition upd_rel :: "ssac_co \<Rightarrow> ssac_co \<Rightarrow> bool" where
  "upd_rel s s' \<longleftrightarrow> co_shape s' \<and> co_frame s s' \<and> saved s' = saved s \<and> qcount s' = qcount s"

lemma upd_rel_trans [trans]: "upd_rel s s' \<Longrightarrow> upd_rel s' s'' \<Longrightarrow> upd_rel s s''"
  by (auto simp: upd_rel_def dest: co_frame_trans)

lemma upd_relD:
  assumes "upd_rel s s'"
  shows "co_shape s'" "co_frame s s'" "saved s' = saved s" "qcount s' = qcount s" "numproc s' = numproc s"
    "co_numhashqs s' = co_numhashqs s" "co_associativity s' = co_associativity s" "ix s' = ix s" "line_vp s' = line_vp s"
  using assms co_frameD [of s s'] by (auto simp: upd_rel_def fun_eq_iff)

lemma slots_okD:
  assumes "co_shape s" "h < co_numhashqs s"
  shows "length (copies s h vp) = co_associativity s" "keys_distinct e_id (copies s h vp)"
  using co_shapeD(7) [OF assms] by (simp_all add: slots_ok_def)

lemma change_entry_eq:
  assumes "co_shape s" "h < co_numhashqs s" "made s vp h" "j < co_associativity s"
  shows "change_entry vp h j f s = Inr (set_entries vp h ((copies s h vp)[j := f (copies s h vp ! j)]) s)"
  using entries_on_eq [OF assms(1-3)] assms(4) slots_okD [OF assms(1,2)] by (simp add: change_entry_def arr_get_def)

text \<open>Entry \<open>j\<close> of queue \<open>h\<close> on processor \<open>p\<close> is a copy of \<open>i\<close>.\<close>

definition holds :: "ssac_co \<Rightarrow> nat \<Rightarrow> nat \<Rightarrow> nat \<Rightarrow> u32 \<Rightarrow> bool" where
  "holds s p h j i \<longleftrightarrow> oid_valid i \<and> h = ix s i \<and> made s p h \<and> j < co_associativity s \<and> e_id (copies s h p ! j) = i"

lemma holds_copy: "co_shape s \<Longrightarrow> holds s p h j i \<Longrightarrow> copy s p i = Some (copies s h p ! j)"
  using slots_okD [of s h p] ix_less [of s i] find_key_nth [of e_id "copies s h p" j] by (auto simp: holds_def copy_def)

lemma copy_holds:
  assumes "co_shape s" "copy s p i = Some e"
  shows "\<exists>j. holds s p (ix s i) j i \<and> copies s (ix s i) p ! j = e \<and> hq_search i (copies s (ix s i) p) 0 = Some j"
proof -
  note d = slots_okD [OF assms(1) ix_less [OF assms(1)], of i p]
  from assms(2) obtain j where j: "oid_valid i" "j < co_associativity s" "copies s (ix s i) p ! j = e" "e_id e = i"
    by (auto simp: copy_def find_key_Some [OF d(2)] d(1))
  moreover have "hq_search i (copies s (ix s i) p) 0 = Some j" using search_key [OF d(2) j(1)] j d(1) by simp
  ultimately show ?thesis using copy_made [OF assms(2)] by (auto simp: holds_def)
qed

lemma change_entry_views:
  assumes s: "co_shape s" and p: "holds s p h j i" and f: "keeps_entry f"
  shows "\<exists>s'. change_entry p h j f s = Inr s' \<and> upd_rel s s' \<and> dirl s' = dirl s \<and>
     copies s' = (\<lambda>h' vp. if h' = h \<and> vp = p then map (on_id i f) (copies s h p) else copies s h' vp)"
proof -
  have h: "h < co_numhashqs s" "made s p h" "j < co_associativity s" "oid_valid i" "e_id (copies s h p ! j) = i"
    using p ix_less [OF s] by (auto simp: holds_def)
  note d = slots_okD [OF s h(1), of p]
  have e: "(copies s h p)[j := f (copies s h p ! j)] = map (on_id i f) (copies s h p)"
    using update_on_id [OF d(2), of j f] h d(1) by simp
  have ok: "slots_ok (co_associativity s) (co_numhashqs s) h (map (on_id i f) (copies s h p))"
    by (rule slots_on_id [OF co_shapeD(7) [OF s h(1)] f h(4)])
  show ?thesis
    using change_entry_eq [OF s h(1,2,3), of f] set_entries_views [OF s h(1,2) ok] unfolding e by (simp add: upd_rel_def)
qed

lemma copy_on_eq:
  assumes "co_shape s" "holds s p h j i"
  shows "copy_on s p h i = Inr j"
proof -
  have h: "h < co_numhashqs s" "made s p h" "j < co_associativity s" "oid_valid i" "e_id (copies s h p ! j) = i"
    using assms ix_less [OF assms(1)] by (auto simp: holds_def)
  then have "hq_search i (copies s h p) 0 = Some j" using search_key [of "copies s h p" i j] slots_okD [OF assms(1) h(1)] by simp
  then show ?thesis using entries_on_eq [OF assms(1) h(1,2)] by (simp add: copy_on_def)
qed

lemma change_copies_views:
  assumes "co_shape s" "distinct vps" "\<forall>vp \<in> set vps. copy s vp i \<noteq> None" "keeps_entry f"
  shows "\<exists>s'. change_copies vps (ix s i) i f s = Inr s' \<and> upd_rel s s' \<and> dirl s' = dirl s \<and>
     copies s' = (\<lambda>h' vp. if h' = ix s i \<and> vp \<in> set vps then map (on_id i f) (copies s h' vp) else copies s h' vp)"
  using assms
proof (induction vps arbitrary: s)
  case Nil
  then show ?case by (simp add: upd_rel_def)
next
  case (Cons v vps)
  from Cons.prems(3) obtain e where "copy s v i = Some e" by auto
  from copy_holds [OF Cons.prems(1) this] obtain j where j: "holds s v (ix s i) j i" by blast
  from change_entry_views [OF Cons.prems(1) j Cons.prems(4)] obtain s1 where s1:
    "change_entry v (ix s i) j f s = Inr s1" "upd_rel s s1" "dirl s1 = dirl s"
    "copies s1 = (\<lambda>h' vp. if h' = ix s i \<and> vp = v then map (on_id i f) (copies s (ix s i) v) else copies s h' vp)" by blast
  have "copy s1 vp i \<noteq> None" if "vp \<in> set vps" for vp
  proof -
    have "vp \<noteq> v" using that Cons.prems(2) by auto
    then have "copies s1 (ix s i) vp = copies s (ix s i) vp" by (simp add: s1(4))
    then show ?thesis using that Cons.prems(3) upd_relD(8) [OF s1(2)] by (simp add: copy_def)
  qed
  then obtain s' where s': "change_copies vps (ix s1 i) i f s1 = Inr s'" "upd_rel s1 s'" "dirl s' = dirl s1"
    "copies s' = (\<lambda>h' vp. if h' = ix s1 i \<and> vp \<in> set vps then map (on_id i f) (copies s1 h' vp) else copies s1 h' vp)"
    using Cons.IH [of s1] Cons.prems(2,4) upd_relD(1) [OF s1(2)] by auto
  have "change_copies (v # vps) (ix s i) i f s = Inr s'"
    using copy_on_eq [OF Cons.prems(1) j] s1(1) s'(1) upd_relD(8) [OF s1(2)] by simp
  moreover have "upd_rel s s'" using s1(2) s'(2) by (rule upd_rel_trans)
  moreover have "copies s' = (\<lambda>h' vp. if h' = ix s i \<and> vp \<in> set (v # vps) then map (on_id i f) (copies s h' vp) else copies s h' vp)"
    using Cons.prems(2) upd_relD(8) [OF s1(2)] by (auto simp: s'(4) s1(4) fun_eq_iff)
  ultimately show ?case using s1(3) s'(3) by auto
qed

end
