(* ===== verification/SsacRepDir.thy ===== *)
theory SsacRepDir
  imports SsacRepOps
begin

text \<open>Operations that change all copies of an object and its directory entry together.\<close>

subsection \<open>The directory entry of an object\<close>

lemma line_okD:
  assumes "co_shape s" "h < co_numhashqs s"
  shows "length (dirl s h) = co_associativity s * numproc s" "keys_distinct d_id (dirl s h)"
    "d \<in> set (dirl s h) \<Longrightarrow> d_flags d \<in> {0, 1, 2, 3}" "d \<in> set (dirl s h) \<Longrightarrow> bit (d_vpmask d) k \<Longrightarrow> k < numproc s"
    "d \<in> set (dirl s h) \<Longrightarrow> \<not> oid_valid (d_id d) \<Longrightarrow> d_vpmask d = 0"
  using co_shapeD(8) [OF assms] by (auto simp: line_ok_def)

text \<open>Directory entry \<open>k\<close> of the line of \<open>i\<close> is \<open>d\<close>, for \<open>i\<close>.\<close>

definition listed :: "ssac_co \<Rightarrow> u32 \<Rightarrow> nat \<Rightarrow> dir_entry \<Rightarrow> bool" where
  "listed s i k d \<longleftrightarrow> oid_valid i \<and> reps s (line_vp s (ix s i)) \<noteq> None \<and> k < length (dirl s (ix s i)) \<and>
     dirl s (ix s i) ! k = d \<and> d_id d = i"

lemma listed_entry: "co_shape s \<Longrightarrow> listed s i k d \<Longrightarrow> entry_of_dir s i = Some d"
  using line_okD(2) [of s "ix s i"] ix_less [of s i] find_key_nth [of d_id "dirl s (ix s i)" k]
  by (auto simp: listed_def entry_of_dir_def)

lemma listed_lookup: "co_shape s \<Longrightarrow> listed s i k d \<Longrightarrow> lookupid i (dirl s (ix s i)) 0 = Some k"
  using lookup_key [OF line_okD(2) [of s "ix s i"], of i k] ix_less [of s i] by (auto simp: listed_def)

lemma entry_listed:
  assumes s: "co_shape s" and d: "entry_of_dir s i = Some d"
  shows "\<exists>k. listed s i k d"
proof -
  note l = line_okD [OF s ix_less [OF s, of i]]
  from d obtain k where k: "oid_valid i" "k < length (dirl s (ix s i))" "dirl s (ix s i) ! k = d" "d_id d = i"
    by (auto simp: entry_of_dir_def find_key_Some [OF l(2)])
  have "reps s (line_vp s (ix s i)) \<noteq> None"
  proof
    assume "reps s (line_vp s (ix s i)) = None"
    then have "\<not> oid_valid (d_id d)" using k(2,3) by (auto simp: dirl_def)
    with k show False by simp
  qed
  with k show ?thesis by (auto simp: listed_def)
qed

lemma entry_lookup_None:
  assumes "co_shape s" "oid_valid i"
  shows "lookupid i (dirl s (ix s i)) 0 = None \<longleftrightarrow> entry_of_dir s i = None"
  using lookup_find [OF line_okD(2) [OF assms(1) ix_less [OF assms(1)]] assms(2), of i]
  by (auto simp: entry_of_dir_def split: option.splits)

lemma set_direntry_views:
  assumes s: "co_shape s" and l: "listed s i k d"
    and d': "d_id d' = i" "d_flags d' \<in> {0, 1, 2, 3}" "\<And>x. bit (d_vpmask d') x \<Longrightarrow> x < numproc s"
  defines "s' \<equiv> set_dirline (ix s i) ((dirl s (ix s i))[k := d']) s"
  shows "upd_rel s s'" "copies s' = copies s" "entry_of_dir s' = (entry_of_dir s)(i \<mapsto> d')"
    "dirl s' = (dirl s)(ix s i := (dirl s (ix s i))[k := d'])"
proof -
  let ?h = "ix s i" and ?ds = "dirl s (ix s i)"
  have h: "?h < co_numhashqs s" by (rule ix_less [OF s])
  note ok = line_okD [OF s h]
  have k: "oid_valid i" "reps s (line_vp s ?h) \<noteq> None" "k < length ?ds" "d_id (?ds ! k) = i" using l by (auto simp: listed_def)
  have kd: "keys_distinct d_id (?ds[k := d'])" "find_key d_id (?ds[k := d']) = (find_key d_id ?ds)(i \<mapsto> d')"
    using find_key_same [OF ok(2) k(3), of d'] d'(1) k by simp_all
  have "\<forall>x \<in> set (?ds[k := d']). x \<in> set ?ds \<or> x = d'" using set_update_subset_insert [of ?ds k d'] by blast
  then have new: "line_ok (co_associativity s) (numproc s) (co_numhashqs s) ?h (?ds[k := d'])"
    using co_shapeD(8) [OF s h] kd(1) d' k(1) unfolding line_ok_def length_list_update ix_def [symmetric]
    by (auto simp: ix_def)
  note v = set_dirline_views [OF s h k(2) new, folded s'_def]
  show "upd_rel s s'" "copies s' = copies s" "dirl s' = (dirl s)(?h := ?ds[k := d'])" using v by (simp_all add: upd_rel_def)
  have "entry_of_dir s' x = ((entry_of_dir s)(i \<mapsto> d')) x" for x
  proof (cases "ix s x = ?h")
    case True
    then show ?thesis using kd(2) v(6) co_frameD(6) [OF v(2)] by (simp add: entry_of_dir_def)
  next
    case False
    then have "x \<noteq> i" by auto
    then show ?thesis using False v(6) co_frameD(6) [OF v(2)] by (simp add: entry_of_dir_def)
  qed
  then show "entry_of_dir s' = (entry_of_dir s)(i \<mapsto> d')" by blast
qed

subsection \<open>All copies\<close>

text \<open>The directory entry names exactly the processors that have a copy.\<close>

definition exact :: "ssac_co \<Rightarrow> u32 \<Rightarrow> dir_entry \<Rightarrow> bool" where
  "exact s i d \<longleftrightarrow> (\<forall>vp. copy s vp i \<noteq> None \<longleftrightarrow> bit (d_vpmask d) vp)"

definition map_copies :: "ssac_co \<Rightarrow> u32 \<Rightarrow> (cache_entry \<Rightarrow> cache_entry) \<Rightarrow> nat \<Rightarrow> nat \<Rightarrow> cache_entry list" where
  "map_copies s i f h vp = (if h = ix s i then map (on_id i f) (copies s h vp) else copies s h vp)"

lemma no_copy: "oid_valid i \<Longrightarrow> copy s vp i = None \<Longrightarrow> map (on_id i f) (copies s (ix s i) vp) = copies s (ix s i) vp"
  by (rule on_id_absent) (auto simp: copy_def find_key_None)

lemma all_copies_views:
  assumes s: "co_shape s" and p: "holds s me (ix s i) j i" and x: "exact s i d"
    and me: "me < 31" and f: "keeps_entry f" "keeps_entry g" "g (copies s (ix s i) me ! j) = f (copies s (ix s i) me ! j)"
  shows "\<exists>s1 s2. change_copies (mask_vps (d_vpmask d AND NOT (vp_bit me)) 0) (ix s i) i f s = Inr s1 \<and>
     co_numhashqs s1 = co_numhashqs s \<and> change_entry me (ix s i) j g s1 = Inr s2 \<and> upd_rel s s2 \<and> dirl s2 = dirl s \<and> copies s2 = map_copies s i f"
proof -
  let ?vps = "mask_vps (d_vpmask d AND NOT (vp_bit me)) 0" and ?h = "ix s i"
  have v: "set ?vps = {vp. copy s vp i \<noteq> None \<and> vp \<noteq> me}" "distinct ?vps"
    using x by (auto simp: mask_vps_0 bit_without [OF me] exact_def)
  have h: "?h < co_numhashqs s" by (rule ix_less [OF s])
  obtain s1 where s1: "change_copies ?vps ?h i f s = Inr s1" "upd_rel s s1" "dirl s1 = dirl s"
    "copies s1 = (\<lambda>h' vp. if h' = ?h \<and> vp \<in> set ?vps then map (on_id i f) (copies s h' vp) else copies s h' vp)"
    using change_copies_views [OF s v(2) _ f(1), of i] v(1) by auto
  note r1 = upd_relD [OF s1(2)]
  have "holds s1 me ?h j i" using p v(1) r1 co_frameD(5) [OF r1(2)] by (simp add: holds_def s1(4))
  from change_entry_views [OF r1(1) this f(2)] obtain s2 where s2:
    "change_entry me ?h j g s1 = Inr s2" "upd_rel s1 s2" "dirl s2 = dirl s1"
    "copies s2 = (\<lambda>h' vp. if h' = ?h \<and> vp = me then map (on_id i g) (copies s1 ?h me) else copies s1 h' vp)" by blast
  have val: "oid_valid i" and j: "j < length (copies s ?h me)" "e_id (copies s ?h me ! j) = i"
    using p slots_okD [OF s h] by (auto simp: holds_def)
  have mine: "map (on_id i g) (copies s ?h me) = map (on_id i f) (copies s ?h me)"
    using update_on_id [OF slots_okD(2) [OF s h] j(1), of g] update_on_id [OF slots_okD(2) [OF s h] j(1), of f] j(2) val f(3) by simp
  have "copies s2 h' vp = map_copies s i f h' vp" for h' vp
  proof (cases "h' = ?h")
    case True
    consider "vp = me" | "vp \<noteq> me" "copy s vp i \<noteq> None" | "vp \<noteq> me" "copy s vp i = None" by blast
    then show ?thesis
    proof cases
      case 1
      then show ?thesis using True mine v(1) by (simp add: s2(4) s1(4) map_copies_def)
    next
      case 2
      then show ?thesis using True v(1) by (simp add: s2(4) s1(4) map_copies_def)
    next
      case 3
      then show ?thesis using True v(1) no_copy [OF val 3(2), of f] by (simp add: s2(4) s1(4) map_copies_def)
    qed
  qed (simp add: s2(4) s1(4) map_copies_def)
  moreover have "upd_rel s s2" using s1(2) s2(2) by (rule upd_rel_trans)
  ultimately show ?thesis using s1(1,3) s2(1,3) r1(6) by (intro exI [of _ s1] exI [of _ s2]) auto
qed

lemma copy_id: "copy s vp x = Some e \<Longrightarrow> e_id e = x \<and> oid_valid x"
  by (auto simp: copy_def find_key_def find_Some_iff split: if_splits)

lemma map_copies_copy:
  assumes "copies s' = map_copies s i f" "ix s' = ix s" "keeps_entry f"
  shows "copy s' = (\<lambda>vp x. if x = i then map_option f (copy s vp i) else copy s vp x)"
proof (intro ext)
  fix vp x
  show "copy s' vp x = (if x = i then map_option f (copy s vp i) else copy s vp x)"
  proof (cases "ix s x = ix s i")
    case True
    have "copy s' vp x = map_option (on_id i f) (copy s vp x)"
      using True find_key_map [of e_id "on_id i f", OF on_id_id [OF assms(3)]] assms(1,2)
      by (simp add: copy_def map_copies_def)
    moreover have "map_option (on_id i f) (copy s vp x) = (if x = i then map_option f (copy s vp i) else copy s vp x)"
      by (cases "copy s vp x") (auto simp: on_id_def dest: copy_id)
    ultimately show ?thesis by simp
  next
    case False
    then have "x \<noteq> i" by auto
    then show ?thesis using False assms(1,2) by (simp add: copy_def map_copies_def)
  qed
qed

lemma busy_assert: "NOT (d_flags d AND D_BUSY) \<noteq> 0"
proof -
  have "bit (NOT (d_flags d AND D_BUSY)) 1" by (simp add: D_BUSY_def bit_simps)
  then show ?thesis by (rule bit_nonzero)
qed

lemma d_flag_updates [simp]:
  "d_busy (d_setbusy d)" "\<not> d_busy (d_clearbusy d)" "d_modified (d_setbusy d) = d_modified d" "d_modified (d_clearbusy d) = d_modified d"
  "d_vpmask (d_setbusy d) = d_vpmask d" "d_vpmask (d_clearbusy d) = d_vpmask d" "d_id (d_setbusy d) = d_id d" "d_id (d_clearbusy d) = d_id d"
  "d_busy (d_setmodified d) = d_busy d" "d_modified (d_setmodified d)" "d_vpmask (d_setmodified d) = d_vpmask d" "d_id (d_setmodified d) = d_id d"
  "d_busy (d_removevp vp d) = d_busy d" "d_modified (d_removevp vp d) = d_modified d" "d_id (d_removevp vp d) = d_id d" "d_flags (d_removevp vp d) = d_flags d"
  "d_busy (d_addvp vp d) = d_busy d" "d_modified (d_addvp vp d) = d_modified d" "d_id (d_addvp vp d) = d_id d" "d_flags (d_addvp vp d) = d_flags d"
proof -
  show "d_busy (d_setbusy d)" using flag_updates(1) [of "\<lparr>e_id = 0, e_flags = d_flags d, e_lastused = 0, e_data = 0\<rparr>"]
    by (simp add: busy_def set_busy_def BUSY_def d_busy_def d_setbusy_def D_BUSY_def)
  show "d_modified (d_setbusy d) = d_modified d" using flag_updates(2) [of "\<lparr>e_id = 0, e_flags = d_flags d, e_lastused = 0, e_data = 0\<rparr>"]
    by (simp add: dirty_def set_busy_def BUSY_def DIRTY_def d_modified_def d_setbusy_def D_BUSY_def D_MODIFIED_def)
  show "\<not> d_busy (d_clearbusy d)" using flag_updates(4) [of "\<lparr>e_id = 0, e_flags = d_flags d, e_lastused = 0, e_data = 0\<rparr>"]
    by (simp add: busy_def clear_busy_def BUSY_def d_busy_def d_clearbusy_def D_BUSY_def)
  show "d_modified (d_clearbusy d) = d_modified d" using flag_updates(5) [of "\<lparr>e_id = 0, e_flags = d_flags d, e_lastused = 0, e_data = 0\<rparr>"]
    by (simp add: dirty_def clear_busy_def BUSY_def DIRTY_def d_modified_def d_clearbusy_def D_BUSY_def D_MODIFIED_def)
  show "d_busy (d_setmodified d) = d_busy d" using flag_updates(7) [of "\<lparr>e_id = 0, e_flags = d_flags d, e_lastused = 0, e_data = 0\<rparr>"]
    by (simp add: busy_def entry_dirty_def BUSY_def DIRTY_def d_busy_def d_setmodified_def D_BUSY_def D_MODIFIED_def)
  show "d_modified (d_setmodified d)" using flag_updates(8) [of "\<lparr>e_id = 0, e_flags = d_flags d, e_lastused = 0, e_data = 0\<rparr>"]
    by (simp add: dirty_def entry_dirty_def DIRTY_def d_modified_def d_setmodified_def D_MODIFIED_def)
qed (simp_all add: d_setbusy_def d_clearbusy_def d_setmodified_def d_removevp_def d_addvp_def d_busy_def d_modified_def)

lemma d_flags_ok:
  assumes "d_flags d \<in> {0, 1, 2, 3}"
  shows "d_flags (d_setbusy d) \<in> {0, 1, 2, 3}" "d_flags (d_clearbusy d) \<in> {0, 1, 2, 3}" "d_flags (d_setmodified d) \<in> {0, 1, 2, 3}"
  using flags_cases [OF assms]
  by (simp_all del: insert_iff add: d_setbusy_def d_clearbusy_def d_setmodified_def D_BUSY_def D_MODIFIED_def)

lemma listed_in: "listed s i k d \<Longrightarrow> d \<in> set (dirl s (ix s i))"
  by (auto simp: listed_def)

lemma upd_listed:
  assumes "upd_rel s s'" "dirl s' = dirl s" "listed s i k d"
  shows "listed s' i k d"
  using assms co_frameD(4) [of s s'] upd_relD [OF assms(1)] by (auto simp: listed_def)

lemma setbusy_views:
  assumes s: "co_shape s" and p: "holds s me h j i" and l: "listed s i k d" and x: "exact s i d" and me: "me < 31"
  shows "\<exists>s'. setbusyonallcopiesindir me h k j s = Inr s' \<and> upd_rel s s' \<and> copies s' = map_copies s i set_busy \<and>
     entry_of_dir s' = (entry_of_dir s)(i \<mapsto> d_setbusy d)"
proof -
  have h: "h = ix s i" "oid_valid i" using p by (auto simp: holds_def)
  have hl: "ix s i < co_numhashqs s" by (rule ix_less [OF s])
  from all_copies_views [OF s p [unfolded h(1)] x me, of set_busy set_busy] obtain s1 s2 where s2:
    "change_copies (mask_vps (d_vpmask d AND NOT (vp_bit me)) 0) (ix s i) i set_busy s = Inr s1" "co_numhashqs s1 = co_numhashqs s"
    "change_entry me (ix s i) j set_busy s1 = Inr s2"
    "upd_rel s s2" "dirl s2 = dirl s" "copies s2 = map_copies s i set_busy" by auto
  note r2 = upd_relD [OF s2(4)]
  have l2: "listed s2 i k d" by (rule upd_listed [OF s2(4,5) l])
  note ld = line_okD [OF s hl]
  let ?s' = "set_dirline (ix s i) ((dirl s (ix s i))[k := d_setbusy d]) s2"
  have v: "upd_rel s2 ?s'" "copies ?s' = copies s2" "entry_of_dir ?s' = (entry_of_dir s2)(i \<mapsto> d_setbusy d)"
    using set_direntry_views [OF r2(1) l2, of "d_setbusy d"] l listed_in [OF l] ld(3,4) r2(5,8) s2(5) d_flags_ok(1) [of d]
    by (auto simp: listed_def simp del: insert_iff)
  have len: "k < length (dirl s (ix s i))" "dirl s (ix s i) ! k = d" "d_id d = i" "reps s (line_vp s (ix s i)) \<noteq> None"
    using l by (auto simp: listed_def)
  have "entry_of_dir s2 = entry_of_dir s" using s2(5) r2(8) by (simp add: entry_of_dir_def fun_eq_iff)
  moreover have "setbusyonallcopiesindir me h k j s = Inr ?s'"
    using dirline_eq [OF s hl len(4)] len s2(1,2,3) busy_assert [of d] co_shapeD(3) [OF s] h(1)
    by (simp add: setbusyonallcopiesindir_def arr_get_def lrt_assert_def oid_index_def ix_def)
  ultimately show ?thesis using v s2(6) upd_rel_trans [OF s2(4) v(1)] by simp
qed

lemma update_views:
  assumes s: "co_shape s" and p: "holds s me h j i" and l: "listed s i k d" and x: "exact s i d" and me: "me < 31"
  shows "\<exists>s'. updateandclearbusyonallcopiesindir me h k h j s = Inr s' \<and> upd_rel s s' \<and>
     copies s' = map_copies s i (\<lambda>e. clear_busy (e\<lparr>e_data := e_data (copies s h me ! j)\<rparr>)) \<and>
     entry_of_dir s' = (entry_of_dir s)(i \<mapsto> d_clearbusy d)"
proof -
  have h: "h = ix s i" "oid_valid i" "made s me h" "j < co_associativity s" using p by (auto simp: holds_def)
  have hl: "ix s i < co_numhashqs s" by (rule ix_less [OF s])
  let ?f = "\<lambda>e. clear_busy (e\<lparr>e_data := e_data (copies s h me ! j)\<rparr>)"
  from all_copies_views [OF s p [unfolded h(1)] x me, of ?f clear_busy] obtain s1 s2 where s2:
    "change_copies (mask_vps (d_vpmask d AND NOT (vp_bit me)) 0) (ix s i) i ?f s = Inr s1" "co_numhashqs s1 = co_numhashqs s"
    "change_entry me (ix s i) j clear_busy s1 = Inr s2"
    "upd_rel s s2" "dirl s2 = dirl s" "copies s2 = map_copies s i ?f" using h(1) by auto
  note r2 = upd_relD [OF s2(4)]
  have l2: "listed s2 i k d" by (rule upd_listed [OF s2(4,5) l])
  note ld = line_okD [OF s hl]
  let ?s' = "set_dirline (ix s i) ((dirl s (ix s i))[k := d_clearbusy d]) s2"
  have v: "upd_rel s2 ?s'" "copies ?s' = copies s2" "entry_of_dir ?s' = (entry_of_dir s2)(i \<mapsto> d_clearbusy d)"
    using set_direntry_views [OF r2(1) l2, of "d_clearbusy d"] l listed_in [OF l] ld(3,4) r2(5,8) s2(5) d_flags_ok(2) [of d]
    by (auto simp: listed_def simp del: insert_iff)
  have len: "k < length (dirl s (ix s i))" "dirl s (ix s i) ! k = d" "d_id d = i" "reps s (line_vp s (ix s i)) \<noteq> None"
    using l by (auto simp: listed_def)
  have "entry_of_dir s2 = entry_of_dir s" using s2(5) r2(8) by (simp add: entry_of_dir_def fun_eq_iff)
  moreover have "updateandclearbusyonallcopiesindir me h k h j s = Inr ?s'"
    using dirline_eq [OF s hl len(4)] len s2(1,2,3) busy_assert [of d] co_shapeD(3) [OF s] h
      entries_on_eq [OF s hl h(3) [unfolded h(1)]] slots_okD(1) [OF s hl]
    by (simp add: updateandclearbusyonallcopiesindir_def arr_get_def lrt_assert_def oid_index_def ix_def)
  ultimately show ?thesis using v s2(6) upd_rel_trans [OF s2(4) v(1)] by simp
qed

end
