(* ===== verification/SsacRepMiss.thy ===== *)
theory SsacRepMiss
  imports SsacRepDir
begin

text \<open>
  The end of \<open>get\<close>, and a miss: an entry is taken from another object, the directory follows, and the
  data come from another processor or from \<open>load\<close>. A directory line never runs out of entries.
\<close>

subsection \<open>What matters of a copy\<close>

definition facts :: "cache_entry \<Rightarrow> bool \<times> bool \<times> u64" where "facts e = (busy e, dirty e, e_data e)"

definition fcopy :: "ssac_co \<Rightarrow> nat \<Rightarrow> u32 \<Rightarrow> (bool \<times> bool \<times> u64) option" where
  "fcopy s vp i = map_option facts (copy s vp i)"

definition ids_kept :: "ssac_co \<Rightarrow> ssac_co \<Rightarrow> nat set \<Rightarrow> bool" where
  "ids_kept s s' V \<longleftrightarrow> (\<forall>h vp. vp \<in> V \<longrightarrow> map e_id (copies s' h vp) = map e_id (copies s h vp))"

definition take_all :: "(bool \<times> bool \<times> u64) option \<Rightarrow> (bool \<times> bool \<times> u64) option" where
  "take_all = map_option (\<lambda>(b, d, v). (True, d, v))"

lemma upd_rel_refl: "co_shape s \<Longrightarrow> upd_rel s s" by (simp add: upd_rel_def)

lemma holds_upd:
  assumes "holds s p h j i" "co_frame s s'" "map e_id (copies s' h p) = map e_id (copies s h p)" "co_shape s" "co_shape s'"
  shows "holds s' p h j i"
proof -
  have h: "h = ix s i" "j < co_associativity s" "made s p h" "oid_valid i" "e_id (copies s h p ! j) = i" using assms(1) by (auto simp: holds_def)
  have len: "j < length (copies s h p)" "j < length (copies s' h p)"
    using slots_okD(1) [OF assms(4), of h p] slots_okD(1) [OF assms(5), of h p] ix_less [OF assms(4)] ix_less [OF assms(5), of i] h(1,2)
      co_frameD [OF assms(2)] by (metis, metis)
  have "e_id (copies s' h p ! j) = e_id (copies s h p ! j)" using arg_cong [OF assms(3), of "\<lambda>l. l ! j"] len by simp
  then show ?thesis using h co_frameD(3,5,6) [OF assms(2)] by (simp add: holds_def)
qed

lemma finish_views:
  assumes s: "co_shape s" and p: "holds s me h j i" and me: "me < numproc s" and c: "qcount s me h + 1 \<noteq> 0"
    and w: "ty = GETFORWRITE \<Longrightarrow> (\<exists>k'. k = Some k' \<and> listed s i k' d) \<and> exact s i d"
  shows "\<exists>s'. rep_finish ty me h k j s = Inr (RGot j, s') \<and> co_shape s' \<and> co_frame s s' \<and> saved s' = saved s \<and>
     qcount s' = (\<lambda>vp h'. if vp = me \<and> h' = h then qcount s me h + 1 else qcount s vp h') \<and> ids_kept s s' UNIV \<and>
     fcopy s' = (\<lambda>vp x. if x = i \<and> ty = GETFORWRITE then take_all (fcopy s vp i) else fcopy s vp x) \<and>
     entry_of_dir s' = (if ty = GETFORWRITE then (entry_of_dir s)(i \<mapsto> d_setbusy d) else entry_of_dir s)"
proof -
  have h: "h = ix s i" "oid_valid i" using p by (auto simp: holds_def)
  have hl: "h < co_numhashqs s" using ix_less [OF s] h by simp
  have m31: "me < 31" using me co_shapeD(2) [OF s] by simp
  obtain s1 where s1: "(if ty = GETFORWRITE then (case k of None \<Rightarrow> Inl NullDeref | Some k \<Rightarrow> setbusyonallcopiesindir me h k j s) else Inr s) = Inr s1"
    "upd_rel s s1" "ids_kept s s1 UNIV"
    "fcopy s1 = (\<lambda>vp x. if x = i \<and> ty = GETFORWRITE then take_all (fcopy s vp i) else fcopy s vp x)"
    "entry_of_dir s1 = (if ty = GETFORWRITE then (entry_of_dir s)(i \<mapsto> d_setbusy d) else entry_of_dir s)"
  proof (cases "ty = GETFORWRITE")
    case True
    then obtain k' where k': "k = Some k'" "listed s i k' d" "exact s i d" using w by blast
    obtain s1 where s1: "setbusyonallcopiesindir me h k' j s = Inr s1" "upd_rel s s1" "copies s1 = map_copies s i set_busy"
      "entry_of_dir s1 = (entry_of_dir s)(i \<mapsto> d_setbusy d)"
      using setbusy_views [OF s p k'(2,3) m31] by blast
    have "copy s1 = (\<lambda>vp x. if x = i then map_option set_busy (copy s vp i) else copy s vp x)"
      by (rule map_copies_copy [OF s1(3) upd_relD(8) [OF s1(2)]]) simp
    then have "fcopy s1 = (\<lambda>vp x. if x = i \<and> ty = GETFORWRITE then take_all (fcopy s vp i) else fcopy s vp x)"
      using True by (auto simp: fcopy_def take_all_def facts_def fun_eq_iff option.map_comp o_def)
    moreover have "ids_kept s s1 UNIV" by (simp add: ids_kept_def s1(3) map_copies_def del: map_map)
    ultimately show ?thesis using that [of s1] s1 k'(1) True by simp
  next
    case False
    then show ?thesis using that [of s] upd_rel_refl [OF s] by (simp add: ids_kept_def)
  qed
  note r1 = upd_relD [OF s1(2)]
  have p1: "holds s1 me h j i" by (rule holds_upd [OF p r1(2) _ s r1(1)]) (use s1(3) in \<open>simp add: ids_kept_def\<close>)
  have m1: "made s1 me h" using p1 unfolding holds_def by blast
  then obtain r es where r: "reps s1 me = Some r" "hq_entries (r_hashqs r ! h) = Some es" unfolding made_def by blast
  let ?q = "(r_hashqs r ! h)\<lparr>hq_count := hq_count (r_hashqs r ! h) + 1\<rparr>"
  have cnt: "hq_count (r_hashqs r ! h) = qcount s me h" using r(1) by (simp add: r1(4) [symmetric] qcount_def)
  have hl1: "h < co_numhashqs s1" using hl r1 by simp
  have es: "copies s1 h me = es" using r by (simp add: copies_def)
  have sl: "slots_ok (co_associativity s1) (co_numhashqs s1) h (case hq_entries ?q of None \<Rightarrow> replicate (co_associativity s1) new_entry | Some es \<Rightarrow> es)"
    using co_shapeD(7) [OF r1(1) hl1, of me] r es by simp
  note v = set_queue_views [OF r1(1) hl1 r(1) sl]
  let ?s2 = "set_queue me h ?q s1"
  have v2: "co_shape ?s2" "co_frame s1 ?s2" "saved ?s2 = saved s1" "dirl ?s2 = dirl s1" "copies ?s2 = copies s1"
    "qcount ?s2 = (\<lambda>vp' h'. if h' = h \<and> vp' = me then hq_count ?q else qcount s1 vp' h')"
    using v r es by (auto simp: fun_eq_iff cong: option.case_cong)
  have p2: "holds ?s2 me h j i" by (rule holds_upd [OF p1 v2(2) _ r1(1) v2(1)]) (simp add: v2(5))
  obtain s3 where s3: "change_entry me h j (\<lambda>e. e\<lparr>e_lastused := hq_count ?q\<rparr>) ?s2 = Inr s3" "upd_rel ?s2 s3" "dirl s3 = dirl ?s2"
    "copies s3 = (\<lambda>h' vp. if h' = h \<and> vp = me then map (on_id i (\<lambda>e. e\<lparr>e_lastused := hq_count ?q\<rparr>)) (copies ?s2 h me) else copies ?s2 h' vp)"
    using change_entry_views [OF v2(1) p2, of "\<lambda>e. e\<lparr>e_lastused := hq_count ?q\<rparr>"] by auto
  note r3 = upd_relD [OF s3(2)]
  have run: "rep_finish ty me h k j s = Inr (RGot j, s3)"
    using s1(1) queue_on_eq [OF r1(1) hl1 r(1)] c cnt s3(1) by (simp add: rep_finish_def Let_def)
  have frame: "co_frame s s3" using co_frame_trans [OF co_frame_trans [OF r1(2) v2(2)] r3(2)] .
  have ixs: "ix ?s2 = ix s1" "ix s3 = ix s1" using co_frameD(6) [OF v2(2)] r3(8) by (auto simp: fun_eq_iff)
  have "fcopy s3 vp x = fcopy s1 vp x" for vp x
  proof -
    have ff: "facts (on_id i (\<lambda>e. e\<lparr>e_lastused := c\<rparr>) e) = facts e" for e c by (simp add: on_id_def facts_def)
    have f: "map_option facts (find_key e_id (map (on_id i (\<lambda>e. e\<lparr>e_lastused := c\<rparr>)) l) x) = map_option facts (find_key e_id l x)" for l c
      by (subst find_key_map) (simp_all add: on_id_id option.map_comp o_def ff)
    show ?thesis using f by (simp add: fcopy_def copy_def s3(4) v2(5) ixs)
  qed
  then have "fcopy s3 = fcopy s1" by blast
  moreover have "entry_of_dir s3 = entry_of_dir s1" using s3(3) v2(4) ixs by (simp add: entry_of_dir_def fun_eq_iff)
  moreover have "ids_kept s s3 UNIV"
    using s1(3) by (auto simp: ids_kept_def s3(4) v2(5) on_id_ids simp del: map_map)
  moreover have "qcount s3 = (\<lambda>vp h'. if vp = me \<and> h' = h then qcount s me h + 1 else qcount s vp h')"
    using r3(4) v2(6) cnt r1(4) by (auto simp: fun_eq_iff)
  moreover have "saved s3 = saved s" using r3(3) v2(3) r1(3) by simp
  ultimately show ?thesis using run frame r3(1) s1(4,5) by auto
qed

subsection \<open>One entry, one directory entry\<close>

lemma slots_at:
  assumes "co_shape s" "h < co_numhashqs s" "j < co_associativity s"
  shows "e_flags (copies s h vp ! j) \<in> {0, 1, 2, 3}" "oid_valid (e_id (copies s h vp ! j)) \<Longrightarrow> ix s (e_id (copies s h vp ! j)) = h"
    "\<not> oid_valid (e_id (copies s h vp ! j)) \<Longrightarrow> e_flags (copies s h vp ! j) = 0"
  using co_shapeD(7) [OF assms(1,2), of vp] assms(3) unfolding slots_ok_def ix_def by (metis nth_mem)+

lemma set_slot_views:
  assumes s: "co_shape s" and h: "h < co_numhashqs s" "made s me h" "j < co_associativity s"
    and e': "f (copies s h me ! j) = e'" "oid_valid (e_id e')" "ix s (e_id e') = h" "e_flags e' \<in> {0, 1, 2, 3}"
    and new: "e_id e' = e_id (copies s h me ! j) \<or> copy s me (e_id e') = None"
  shows "\<exists>s'. change_entry me h j f s = Inr s' \<and> upd_rel s s' \<and> dirl s' = dirl s \<and> holds s' me h j (e_id e') \<and>
     copies s' h me ! j = e' \<and> ids_kept s s' (- {me}) \<and>
     copy s' = (\<lambda>vp x. if vp = me then ((copy s me)(e_id (copies s h me ! j) := None, e_id e' \<mapsto> e')) x else copy s vp x)"
proof -
  let ?l = "copies s h me" and ?o = "e_id (copies s h me ! j)"
  have len: "j < length ?l" using slots_okD [OF s h(1)] h(3) by simp
  have d: "keys_distinct e_id ?l" using slots_okD [OF s h(1)] by simp
  have n: "e_id (?l ! k) \<noteq> e_id e'" if "k < length ?l" "k \<noteq> j" "oid_valid (e_id e')" for k
  proof
    assume k: "e_id (?l ! k) = e_id e'"
    then have "copy s me (e_id e') = Some (?l ! k)" using find_key_nth [OF d that(1)] e'(2,3) by (simp add: copy_def)
    then have "e_id e' = ?o" using new by simp
    then show False using keys_distinctD [OF d that(1) len] that k e'(2) by simp
  qed
  note u = find_key_update [OF d len n]
  have "\<forall>x \<in> set (?l[j := e']). x \<in> set ?l \<or> x = e'" using set_update_subset_insert [of ?l j e'] by blast
  then have ok: "slots_ok (co_associativity s) (co_numhashqs s) h (?l[j := e'])"
    using co_shapeD(7) [OF s h(1), of me] u(1) e' unfolding slots_ok_def length_list_update ix_def by auto
  note v = set_entries_views [OF s h(1,2) ok]
  let ?s' = "set_entries me h (?l[j := e']) s"
  have run: "change_entry me h j f s = Inr ?s'" using change_entry_eq [OF s h, of f] e'(1) by simp
  have rel: "upd_rel s ?s'" using v by (simp add: upd_rel_def)
  note r = upd_relD [OF rel]
  have "copy ?s' vp x = (if vp = me then ((copy s me)(?o := None, e_id e' \<mapsto> e')) x else copy s vp x)" for vp x
  proof (cases "vp = me \<and> ix s x = h")
    case True
    then show ?thesis using u(2) e'(2) by (auto simp: copy_def v(6) r(8))
  next
    case False
    then have c: "copy ?s' vp x = copy s vp x" by (auto simp: copy_def v(6) r(8))
    have "copy s me x = None \<and> x \<noteq> e_id e'" if "vp = me" "x = ?o"
    proof -
      have "ix s x \<noteq> h" using False that by simp
      then show ?thesis using slots_at(2) [OF s h(1,3), of me] that e'(3) by (cases "oid_valid x") (auto simp: copy_def)
    qed
    moreover have "x \<noteq> e_id e'" if "vp = me" using False that e'(3) by auto
    ultimately show ?thesis using c by auto
  qed
  then have "copy ?s' = (\<lambda>vp x. if vp = me then ((copy s me)(?o := None, e_id e' \<mapsto> e')) x else copy s vp x)" by blast
  moreover have "holds ?s' me h j (e_id e')" using e' h len co_frameD [OF v(2)] by (simp add: holds_def v(6))
  moreover have "ids_kept s ?s' (- {me})" by (simp add: ids_kept_def v(6))
  ultimately show ?thesis using run rel v(4) len by (intro exI [of _ ?s']) (simp add: v(6))
qed

lemma set_dirslot_views:
  assumes s: "co_shape s" and h: "h < co_numhashqs s" "reps s (line_vp s h) \<noteq> None" "k < length (dirl s h)"
    and d': "d_flags d' \<in> {0, 1, 2, 3}" "\<And>x. bit (d_vpmask d') x \<Longrightarrow> x < numproc s"
    and v: "oid_valid (d_id d') \<Longrightarrow> ix s (d_id d') = h \<and> entry_of_dir s (d_id d') = None"
    and i: "\<not> oid_valid (d_id d') \<Longrightarrow> d_vpmask d' = 0"
  defines "s' \<equiv> set_dirline h ((dirl s h)[k := d']) s"
  shows "upd_rel s s'" "copies s' = copies s" "dirl s' = (dirl s)(h := (dirl s h)[k := d'])"
    "entry_of_dir s' = (if oid_valid (d_id d') then (entry_of_dir s)(d_id (dirl s h ! k) := None, d_id d' \<mapsto> d')
       else (entry_of_dir s)(d_id (dirl s h ! k) := None))"
proof -
  let ?l = "dirl s h" and ?o = "d_id (dirl s h ! k)"
  have d: "keys_distinct d_id ?l" using line_okD(2) [OF s h(1)] .
  have n: "d_id (?l ! x) \<noteq> d_id d'" if "x < length ?l" "x \<noteq> k" "oid_valid (d_id d')" for x
  proof
    assume x: "d_id (?l ! x) = d_id d'"
    then have "entry_of_dir s (d_id d') = Some (?l ! x)" using find_key_nth [OF d that(1)] v [OF that(3)] that(3) by (simp add: entry_of_dir_def)
    with v [OF that(3)] show False by simp
  qed
  note u = find_key_update [OF d h(3) n]
  have "\<forall>x \<in> set (?l[k := d']). x \<in> set ?l \<or> x = d'" using set_update_subset_insert [of ?l k d'] by blast
  then have ok: "line_ok (co_associativity s) (numproc s) (co_numhashqs s) h (?l[k := d'])"
    using co_shapeD(8) [OF s h(1)] u(1) d' v i unfolding line_ok_def length_list_update ix_def by auto
  note w = set_dirline_views [OF s h(1,2) ok, folded s'_def]
  show rel: "upd_rel s s'" and "copies s' = copies s" and "dirl s' = (dirl s)(h := ?l[k := d'])" using w by (simp_all add: upd_rel_def)
  note r = upd_relD [OF rel]
  have "entry_of_dir s' x = (if oid_valid (d_id d') then (entry_of_dir s)(?o := None, d_id d' \<mapsto> d') else (entry_of_dir s)(?o := None)) x" for x
  proof (cases "ix s x = h")
    case True
    then show ?thesis using u(2) by (auto simp: entry_of_dir_def w(6) r(8))
  next
    case False
    then have c: "entry_of_dir s' x = entry_of_dir s x" by (simp add: entry_of_dir_def w(6) r(8))
    have "entry_of_dir s x = None" if "x = ?o"
    proof (cases "oid_valid x")
      case True
      then have "ix s x = h" using co_shapeD(8) [OF s h(1)] h(3) that unfolding line_ok_def ix_def by (metis nth_mem)
      with False show ?thesis by simp
    qed (simp add: entry_of_dir_def)
    moreover have "x \<noteq> d_id d'" if "oid_valid (d_id d')" using False v [OF that] by auto
    ultimately show ?thesis using c by auto
  qed
  then show "entry_of_dir s' = (if oid_valid (d_id d') then (entry_of_dir s)(?o := None, d_id d' \<mapsto> d') else (entry_of_dir s)(?o := None))" by blast
qed

lemma finddirline_there:
  assumes "co_shape s" "h < co_numhashqs s" "reps s (line_vp s h) \<noteq> None"
  shows "finddirline mk h s = Inr s"
proof -
  from assms(3) obtain r where r: "reps s (line_vp s h) = Some r" by blast
  have "line_no s h < length (r_dirlines r)" using co_shapeD(6) [OF assms(1) r] line_place(2) [OF assms(1,2)] by simp
  then show ?thesis using r co_shapeD(1) [OF assms(1)] by (simp add: finddirline_def arr_get_def)
qed

lemma saved_views [simp]:
  "copies (s\<lparr>saved := l\<rparr>) = copies s" "dirl (s\<lparr>saved := l\<rparr>) = dirl s" "qcount (s\<lparr>saved := l\<rparr>) = qcount s"
  "ix (s\<lparr>saved := l\<rparr>) = ix s" "made (s\<lparr>saved := l\<rparr>) = made s" "co_shape (s\<lparr>saved := l\<rparr>) = co_shape s"
  "copy (s\<lparr>saved := l\<rparr>) = copy s" "entry_of_dir (s\<lparr>saved := l\<rparr>) = entry_of_dir s"
  "co_frame s0 (s\<lparr>saved := l\<rparr>) = co_frame s0 s"
proof -
  show c: "copies (s\<lparr>saved := l\<rparr>) = copies s" "qcount (s\<lparr>saved := l\<rparr>) = qcount s" "made (s\<lparr>saved := l\<rparr>) = made s" "ix (s\<lparr>saved := l\<rparr>) = ix s"
    by (simp_all add: copies_def qcount_def made_def ix_def fun_eq_iff cong: option.case_cong)
  have "line_vp (s\<lparr>saved := l\<rparr>) = line_vp s" "line_no (s\<lparr>saved := l\<rparr>) = line_no s" by (simp_all add: line_vp_def line_no_def fun_eq_iff)
  then show d: "dirl (s\<lparr>saved := l\<rparr>) = dirl s" by (simp add: dirl_def fun_eq_iff cong: option.case_cong)
  show "co_shape (s\<lparr>saved := l\<rparr>) = co_shape s" unfolding co_shape_def c d by simp
  show "copy (s\<lparr>saved := l\<rparr>) = copy s" "entry_of_dir (s\<lparr>saved := l\<rparr>) = entry_of_dir s"
    by (simp_all add: copy_def entry_of_dir_def c d fun_eq_iff)
  show "co_frame s0 (s\<lparr>saved := l\<rparr>) = co_frame s0 s" by (simp add: co_frame_def c)
qed

lemma saved_listed: "listed (s\<lparr>saved := w\<rparr>) x l b = listed s x l b"
  by (simp add: listed_def line_vp_def)

definition left_dir :: "nat \<Rightarrow> bool \<Rightarrow> dir_entry \<Rightarrow> dir_entry" where
  "left_dir me dt d = d_removevp me (if dt then d_setmodified d else d)"

lemma evict_views:
  assumes s: "co_shape s" and p: "holds s me h j i" and d: "entry_of_dir s i = Some d" and me: "me < numproc s"
  defines "e \<equiv> copies s h me ! j"
  defines "d' \<equiv> left_dir me (dirty e) d"
  shows "\<exists>s'. rep_evict mk me e s = Inr s' \<and> co_shape s' \<and> co_frame s s' \<and> qcount s' = qcount s \<and> copies s' = copies s \<and>
     saved s' = (if d_vpmask d' = 0 \<and> d_modified d' then (i, e_data e) # saved s else saved s) \<and>
     entry_of_dir s' = (entry_of_dir s)(i := if d_vpmask d' = 0 then None else Some d') \<and>
     (\<forall>x l b. x \<noteq> i \<longrightarrow> listed s x l b \<longrightarrow> listed s' x l b)"
proof -
  from entry_listed [OF s d] obtain k where k: "listed s i k d" by blast
  have h: "h = ix s i" "oid_valid i" "e_id e = i" using p by (auto simp: holds_def e_def)
  have hl: "h < co_numhashqs s" using ix_less [OF s] h by simp
  have kk: "reps s (line_vp s h) \<noteq> None" "k < length (dirl s h)" "dirl s h ! k = d" "d_id d = i" using k h by (auto simp: listed_def)
  have din: "d \<in> set (dirl s h)" using kk by auto
  have m31: "me < 31" using me co_shapeD(2) [OF s] by simp
  have lk: "lookupid i (dirl s h) 0 = Some k" using listed_lookup [OF s k] h by simp
  have d'i: "d_id d' = i" using kk(4) by (simp add: d'_def left_dir_def)
  have d'f: "d_flags d' \<in> {0, 1, 2, 3}" using d_flags_ok(3) [of d] line_okD(3) [OF s hl din] by (simp add: d'_def left_dir_def del: insert_iff)
  have d'b: "bit (d_vpmask d') x \<Longrightarrow> x < numproc s" for x
    using line_okD(4) [OF s hl din, of x] bit_without [OF m31, of "d_vpmask d" x] by (auto simp: d'_def left_dir_def d_removevp_def split: if_splits)
  have idx: "oid_index (e_id e) (co_numhashqs s) = Inr h" using h co_shapeD(3) [OF s] by (simp add: oid_index_def ix_def)
  let ?new = "if d_vpmask d' = 0 then d_clearall (d'\<lparr>d_id := SSAC_INVALID\<rparr>) else d'"
  let ?s1 = "set_dirline h ((dirl s h)[k := ?new]) s"
  have run: "removefromdir mk (e_id e) me (dirty e) s = Inr (d_vpmask d' = 0 \<and> d_modified d', ?s1)"
    using idx finddirline_there [OF s hl kk(1)] dirline_eq [OF s hl kk(1)] lk kk(3) h(3)
    by (simp add: removefromdir_def Let_def d'_def left_dir_def)
  have st: "upd_rel s ?s1 \<and> copies ?s1 = copies s \<and> dirl ?s1 = (dirl s)(h := (dirl s h)[k := ?new]) \<and> entry_of_dir ?s1 = (entry_of_dir s)(i := if d_vpmask d' = 0 then None else Some d')"
  proof (cases "d_vpmask d' = 0")
    case True
    then show ?thesis using set_dirslot_views [OF s hl kk(1,2), of ?new] kk(3,4) by (simp add: d_clearall_def)
  next
    case False
    then show ?thesis using set_direntry_views [OF s k, of d'] d'i d'f d'b h(1) by (simp del: insert_iff)
  qed
  obtain s1 where s1: "s1 = ?s1" by blast
  note r = upd_relD [OF conjunct1 [OF st], folded s1]
  have others: "listed s1 x l b" if "x \<noteq> i" "listed s x l b" for x l b
  proof -
    have "l \<noteq> k" if "ix s x = h" using that \<open>x \<noteq> i\<close> \<open>listed s x l b\<close> kk by (auto simp: listed_def)
    then show ?thesis using that(2) st s1 r(8,9) co_frameD(4) [OF r(2)] by (auto simp: listed_def)
  qed
  then have others': "listed (s1\<lparr>saved := w\<rparr>) x l b" if "x \<noteq> i" "listed s x l b" for x l b w
    using others [OF that] by (simp add: saved_listed)
  show ?thesis
  proof (cases "d_vpmask d' = 0 \<and> d_modified d'")
    case True
    then have "rep_evict mk me e s = Inr (s1\<lparr>saved := (i, e_data e) # saved s1\<rparr>)" using run h s1 by (simp add: rep_evict_def)
    then show ?thesis using True r st s1 others' by simp
  next
    case False
    then have "rep_evict mk me e s = Inr s1" using run h s1 by (auto simp: rep_evict_def)
    then show ?thesis using False r st s1 others by auto
  qed
qed

end
