(* ===== verification/SsacRepCoh.thy ===== *)
theory SsacRepCoh
  imports SsacRepMiss
begin

text \<open>
  Coherence: what holds of the copies of one object, of its directory entry and of what was saved, in
  terms of the value the object has and of the writer that holds it; and that a miss keeps it.
\<close>

subsection \<open>One object\<close>

text \<open>
  \<open>ld\<close>: what \<open>load\<close> answers now; \<open>kv\<close>: the value last put back; \<open>hold\<close>: the writer, with the value it
  has made; \<open>c\<close>: the copies; \<open>g\<close>: the directory entry.
\<close>

definition seen :: "(nat \<times> u64) option \<Rightarrow> u64 \<Rightarrow> nat \<Rightarrow> u64" where
  "seen hold kv vp = (case hold of None \<Rightarrow> kv | Some (p, u) \<Rightarrow> if vp = p then u else kv)"

definition obj_ok :: "u64 \<Rightarrow> u64 \<Rightarrow> (nat \<times> u64) option \<Rightarrow> (nat \<Rightarrow> (bool \<times> bool \<times> u64) option) \<Rightarrow> dir_entry option \<Rightarrow> bool" where
  "obj_ok ld kv hold c g \<longleftrightarrow>
     (\<forall>vp. c vp \<noteq> None \<longleftrightarrow> (\<exists>d. g = Some d \<and> bit (d_vpmask d) vp)) \<and>
     (\<forall>d. g = Some d \<longrightarrow> d_vpmask d \<noteq> 0 \<and> d_busy d = (hold \<noteq> None)) \<and>
     (\<forall>vp b dt v. c vp = Some (b, dt, v) \<longrightarrow> b = (hold \<noteq> None) \<and> v = seen hold kv vp) \<and>
     (\<forall>p u. hold = Some (p, u) \<longrightarrow> c p \<noteq> None) \<and>
     ((\<forall>d. g = Some d \<longrightarrow> \<not> d_modified d) \<and> (\<forall>vp b v. c vp \<noteq> Some (b, True, v)) \<longrightarrow>
        kv = ld \<and> (\<forall>p u. hold = Some (p, u) \<longrightarrow> u = kv))"

lemma obj_okD:
  assumes "obj_ok ld kv hold c g"
  shows "c vp \<noteq> None \<longleftrightarrow> (\<exists>d. g = Some d \<and> bit (d_vpmask d) vp)" "g = Some d \<Longrightarrow> d_vpmask d \<noteq> 0"
    "g = Some d \<Longrightarrow> d_busy d = (hold \<noteq> None)" "c vp = Some (b, dt, v) \<Longrightarrow> b = (hold \<noteq> None)"
    "c vp = Some (b, dt, v) \<Longrightarrow> v = seen hold kv vp" "hold = Some (p, u) \<Longrightarrow> c p \<noteq> None"
    "(\<And>d. g = Some d \<Longrightarrow> \<not> d_modified d) \<Longrightarrow> (\<And>vp b v. c vp \<noteq> Some (b, True, v)) \<Longrightarrow> kv = ld"
    "(\<And>d. g = Some d \<Longrightarrow> \<not> d_modified d) \<Longrightarrow> (\<And>vp b v. c vp \<noteq> Some (b, True, v)) \<Longrightarrow> hold = Some (p, u) \<Longrightarrow> u = kv"
  using assms unfolding obj_ok_def by auto

lemma obj_no_entry:
  assumes "obj_ok ld kv hold c None"
  shows "hold = None" "kv = ld" "c vp = None"
proof -
  show c: "c vp = None" for vp using obj_okD(1) [OF assms, of vp] by (cases "c vp") simp_all
  then show "kv = ld" using obj_okD(7) [OF assms] by simp
  show "hold = None" using obj_okD(6) [OF assms] c by (cases hold) auto
qed

lemma obj_empty: "kv = ld \<Longrightarrow> obj_ok ld kv None (\<lambda>_. None) None"
  by (simp add: obj_ok_def)

lemma take_all_Some [simp]: "take_all x = Some (b, dt, v) \<longleftrightarrow> b \<and> (\<exists>b'. x = Some (b', dt, v))"
  by (cases x) (auto simp: take_all_def)

lemma obj_take:
  assumes o: "obj_ok ld kv None c (Some d)" and m: "c me \<noteq> None"
  shows "obj_ok ld kv (Some (me, kv)) (\<lambda>vp. take_all (c vp)) (Some (d_setbusy d))"
  unfolding obj_ok_def
proof (intro conjI allI impI)
  fix vp show "(take_all (c vp) \<noteq> None) = (\<exists>x. Some (d_setbusy d) = Some x \<and> bit (d_vpmask x) vp)"
    using obj_okD(1) [OF o, of vp] by (auto simp: take_all_def)
next
  fix x assume "Some (d_setbusy d) = Some x"
  then show "d_vpmask x \<noteq> 0" "d_busy x = (Some (me, kv) \<noteq> None)" using obj_okD(2) [OF o] by auto
next
  fix vp b dt v assume "take_all (c vp) = Some (b, dt, v)"
  then show "b = (Some (me, kv) \<noteq> None)" "v = seen (Some (me, kv)) kv vp" using obj_okD(5) [OF o] by (auto simp: seen_def)
next
  fix p u assume "Some (me, kv) = Some (p, u)" then show "take_all (c p) \<noteq> None" using m by (auto simp: take_all_def)
next
  assume a: "(\<forall>x. Some (d_setbusy d) = Some x \<longrightarrow> \<not> d_modified x) \<and> (\<forall>vp b v. take_all (c vp) \<noteq> Some (b, True, v))"
  then show "kv = ld" by (intro obj_okD(7) [OF o]) auto
  fix p u assume "Some (me, kv) = Some (p, u)" then show "u = kv" by simp
qed

lemma obj_join:
  assumes o: "obj_ok ld kv None c (Some d)" and m: "me < 31" and n: "c me = None"
  shows "obj_ok ld kv None (c(me \<mapsto> (False, False, kv))) (Some (d_addvp me d))"
  unfolding obj_ok_def
proof (intro conjI allI impI)
  fix vp show "((c(me \<mapsto> (False, False, kv))) vp \<noteq> None) = (\<exists>x. Some (d_addvp me d) = Some x \<and> bit (d_vpmask x) vp)"
    using obj_okD(1) [OF o, of vp] by (auto simp: bit_addvp [OF m])
next
  fix x assume x: "Some (d_addvp me d) = Some x"
  have "bit (d_vpmask (d_addvp me d)) me" by (simp add: bit_addvp [OF m])
  then show "d_vpmask x \<noteq> 0" using x by auto
  show "d_busy x = (None \<noteq> None)" using x obj_okD(3) [OF o] by auto
next
  fix vp b dt v assume "(c(me \<mapsto> (False, False, kv))) vp = Some (b, dt, v)"
  then show "b = (None \<noteq> None)" "v = seen None kv vp"
    using obj_okD(4,5) [OF o] by (auto simp: seen_def split: if_splits)
next
  assume a: "(\<forall>x. Some (d_addvp me d) = Some x \<longrightarrow> \<not> d_modified x) \<and> (\<forall>vp b v. (c(me \<mapsto> (False, False, kv))) vp \<noteq> Some (b, True, v))"
  have "c vp \<noteq> Some (b, True, v)" for vp b v using a [THEN conjunct2, rule_format, of vp b v] n by (cases "vp = me") auto
  with a show "kv = ld" by (intro obj_okD(7) [OF o]) auto
qed auto

lemma obj_first:
  assumes o: "obj_ok ld kv hold c None" and m: "me < 31" and d: "\<And>vp. bit (d_vpmask d) vp \<longleftrightarrow> vp = me" "\<not> d_busy d"
  shows "obj_ok ld kv None (c(me \<mapsto> (False, False, kv))) (Some d)"
proof -
  note n = obj_no_entry [OF o]
  have "d_vpmask d \<noteq> 0" using d(1) [of me] by auto
  then show ?thesis using n d by (auto simp: obj_ok_def seen_def)
qed

lemma left_dir_facts:
  assumes "me < 31"
  shows "bit (d_vpmask (left_dir me dt d)) vp \<longleftrightarrow> bit (d_vpmask d) vp \<and> vp \<noteq> me"
    "d_busy (left_dir me dt d) = d_busy d" "d_modified (left_dir me dt d) \<longleftrightarrow> dt \<or> d_modified d"
proof -
  have "d_vpmask (left_dir me dt d) = d_vpmask d AND NOT (vp_bit me)" by (simp add: left_dir_def d_removevp_def)
  then show "bit (d_vpmask (left_dir me dt d)) vp \<longleftrightarrow> bit (d_vpmask d) vp \<and> vp \<noteq> me" by (simp add: bit_without [OF assms])
qed (simp_all add: left_dir_def)

lemma obj_leave:
  assumes o: "obj_ok ld kv None c (Some d)" and m: "me < 31" "c me = Some (b, dt, v)"
  shows "d_vpmask (left_dir me dt d) \<noteq> 0 \<Longrightarrow> obj_ok ld kv None (c(me := None)) (Some (left_dir me dt d))"
    and "d_vpmask (left_dir me dt d) = 0 \<Longrightarrow> obj_ok (if d_modified (left_dir me dt d) then v else ld) kv None (c(me := None)) None"
proof -
  note f = left_dir_facts [OF m(1)]
  have v: "v = kv" using obj_okD(5) [OF o m(2)] by (simp add: seen_def)
  have clean: "kv = ld" if "\<not> d_modified (left_dir me dt d)" "\<And>vp b v. vp \<noteq> me \<Longrightarrow> c vp \<noteq> Some (b, True, v)"
  proof (rule obj_okD(7) [OF o])
    fix vp b' v' show "c vp \<noteq> Some (b', True, v')" using that f(3) m(2) by (cases "vp = me") auto
  qed (use that f(3) in auto)
  show "obj_ok ld kv None (c(me := None)) (Some (left_dir me dt d))" if nz: "d_vpmask (left_dir me dt d) \<noteq> 0"
    unfolding obj_ok_def
  proof (intro conjI allI impI)
    fix vp show "((c(me := None)) vp \<noteq> None) = (\<exists>x. Some (left_dir me dt d) = Some x \<and> bit (d_vpmask x) vp)"
      using obj_okD(1) [OF o, of vp] f(1) by auto
  next
    fix x assume "Some (left_dir me dt d) = Some x"
    then show "d_vpmask x \<noteq> 0" "d_busy x = (None \<noteq> None)" using nz f(2) obj_okD(3) [OF o] by auto
  next
    fix vp b dt v assume "(c(me := None)) vp = Some (b, dt, v)"
    then show "b = (None \<noteq> None)" "v = seen None kv vp" using obj_okD(4,5) [OF o] by (auto split: if_splits)
  next
    assume "(\<forall>x. Some (left_dir me dt d) = Some x \<longrightarrow> \<not> d_modified x) \<and> (\<forall>vp b v. (c(me := None)) vp \<noteq> Some (b, True, v))"
    then show "kv = ld" by (intro clean) (auto split: if_splits)
  qed auto
  show "obj_ok (if d_modified (left_dir me dt d) then v else ld) kv None (c(me := None)) None" if z: "d_vpmask (left_dir me dt d) = 0"
  proof -
    have none: "c vp = None" if "vp \<noteq> me" for vp
      using obj_okD(1) [OF o, of vp] f(1) [of dt d vp] z that by (cases "c vp") simp_all
    then have c: "c(me := None) = (\<lambda>_. None)" by auto
    have "kv = (if d_modified (left_dir me dt d) then v else ld)" using clean v none by auto
    then show ?thesis unfolding c by (rule obj_empty)
  qed
qed

lemma obj_write:
  assumes o: "obj_ok ld kv (Some (me, u)) c g" and m: "c me = Some (b, dt, v)"
  shows "obj_ok ld kv (Some (me, u')) (c(me \<mapsto> (b, True, u'))) g"
  unfolding obj_ok_def
proof (intro conjI allI impI)
  fix vp show "((c(me \<mapsto> (b, True, u'))) vp \<noteq> None) = (\<exists>d. g = Some d \<and> bit (d_vpmask d) vp)"
    using obj_okD(1) [OF o, of vp] obj_okD(1) [OF o, of me] m by (cases "vp = me") simp_all
next
  fix d assume "g = Some d"
  then show "d_vpmask d \<noteq> 0" "d_busy d = (Some (me, u') \<noteq> None)" using obj_okD(2,3) [OF o] by auto
next
  fix vp b' dt' v' assume "(c(me \<mapsto> (b, True, u'))) vp = Some (b', dt', v')"
  then show "b' = (Some (me, u') \<noteq> None)" "v' = seen (Some (me, u')) kv vp"
    using obj_okD(4) [OF o, of vp] obj_okD(4) [OF o m] obj_okD(5) [OF o, of vp] by (auto simp: seen_def split: if_splits)
next
  assume "(\<forall>d. g = Some d \<longrightarrow> \<not> d_modified d) \<and> (\<forall>vp x v. (c(me \<mapsto> (b, True, u'))) vp \<noteq> Some (x, True, v))"
  then have "(c(me \<mapsto> (b, True, u'))) me \<noteq> Some (b, True, u')" by blast
  then have False by simp
  then show "kv = ld" "\<And>w. w = kv" by simp_all
qed auto

definition put_all :: "u64 \<Rightarrow> (bool \<times> bool \<times> u64) option \<Rightarrow> (bool \<times> bool \<times> u64) option" where
  "put_all u = map_option (\<lambda>(b, d, v). (False, d, u))"

lemma put_all_Some [simp]: "put_all u x = Some (b, dt, v) \<longleftrightarrow> \<not> b \<and> v = u \<and> (\<exists>b' v'. x = Some (b', dt, v'))"
  by (cases x) (auto simp: put_all_def)

lemma obj_put:
  assumes o: "obj_ok ld kv (Some (me, u)) c (Some d)"
  shows "obj_ok ld u None (\<lambda>vp. put_all u (c vp)) (Some (d_clearbusy d))"
  unfolding obj_ok_def
proof (intro conjI allI impI)
  fix vp show "(put_all u (c vp) \<noteq> None) = (\<exists>x. Some (d_clearbusy d) = Some x \<and> bit (d_vpmask x) vp)"
    using obj_okD(1) [OF o, of vp] by (auto simp: put_all_def)
next
  fix x assume "Some (d_clearbusy d) = Some x"
  then show "d_vpmask x \<noteq> 0" "d_busy x = (None \<noteq> None)" using obj_okD(2) [OF o] by auto
next
  fix vp b dt v assume "put_all u (c vp) = Some (b, dt, v)"
  then show "b = (None \<noteq> None)" "v = seen None u vp" by (auto simp: seen_def)
next
  assume a: "(\<forall>x. Some (d_clearbusy d) = Some x \<longrightarrow> \<not> d_modified x) \<and> (\<forall>vp b v. put_all u (c vp) \<noteq> Some (b, True, v))"
  have "kv = ld" using a by (intro obj_okD(7) [OF o]) auto
  moreover have "u = kv" using a by (intro obj_okD(8) [OF o, of me]) auto
  ultimately show "u = ld" by simp
qed auto

lemma obj_flush:
  assumes o: "obj_ok ld kv None c g" and m: "c me = Some (b, dt, v)"
  shows "obj_ok v kv None (c(me \<mapsto> (False, False, v))) g"
proof -
  have v: "v = kv" using obj_okD(5) [OF o m] by (simp add: seen_def)
  show ?thesis
    unfolding obj_ok_def
  proof (intro conjI allI impI)
    fix vp show "((c(me \<mapsto> (False, False, v))) vp \<noteq> None) = (\<exists>d. g = Some d \<and> bit (d_vpmask d) vp)"
      using obj_okD(1) [OF o, of vp] obj_okD(1) [OF o, of me] m by (cases "vp = me") simp_all
  next
    fix vp b' dt' v' assume "(c(me \<mapsto> (False, False, v))) vp = Some (b', dt', v')"
    then show "b' = (None \<noteq> None)" "v' = seen None kv vp"
      using obj_okD(4,5) [OF o, of vp] v by (auto simp: seen_def split: if_splits)
  qed (use obj_okD(2,3) [OF o] v in auto)
qed

subsection \<open>All objects\<close>

text \<open>\<open>K\<close>: the values last put back; \<open>H\<close>: the writers. What \<open>load\<close> answers is what was last saved.\<close>

definition coh :: "((u32 \<times> u64) list \<Rightarrow> u32 \<Rightarrow> u64) \<Rightarrow> (u32 \<Rightarrow> u64) \<Rightarrow> (u32 \<Rightarrow> (nat \<times> u64) option) \<Rightarrow> ssac_co \<Rightarrow> bool" where
  "coh load K H s \<longleftrightarrow> co_shape s \<and>
     (\<forall>i. oid_valid i \<longrightarrow> obj_ok (load (saved s) i) (K i) (H i) (\<lambda>vp. fcopy s vp i) (entry_of_dir s i))"

definition stores :: "((u32 \<times> u64) list \<Rightarrow> u32 \<Rightarrow> u64) \<Rightarrow> bool" where
  "stores load \<longleftrightarrow> (\<forall>l i v. load ((i, v) # l) = (load l)(i := v))"

lemma cohD:
  assumes "coh load K H s"
  shows "co_shape s" "oid_valid i \<Longrightarrow> obj_ok (load (saved s) i) (K i) (H i) (\<lambda>vp. fcopy s vp i) (entry_of_dir s i)"
  using assms by (simp_all add: coh_def)

lemma fcopy_None [simp]: "fcopy s vp i = None \<longleftrightarrow> copy s vp i = None"
  by (simp add: fcopy_def)

lemma copy_proc:
  assumes "co_shape s" "copy s vp i \<noteq> None"
  shows "vp < numproc s"
proof -
  from assms(2) obtain e where "copy s vp i = Some e" by blast
  then have "made s vp (ix s i)" by (rule copy_made)
  then show ?thesis using co_shapeD(4) [OF assms(1)] by (auto simp: made_def)
qed

lemma copies_on_fcopy:
  assumes s: "co_shape s" and u: "ix s' = ix s"
    and c: "copies s' = (\<lambda>h' vp. if h' = ix s i \<and> vp = me then map (on_id i f) (copies s (ix s i) me) else copies s h' vp)" and f: "keeps_entry f"
  shows "fcopy s' vp x = (if vp = me \<and> x = i then map_option (facts \<circ> f) (copy s me i) else fcopy s vp x)"
proof (cases "vp = me \<and> ix s x = ix s i")
  case True
  then have cp: "copy s' vp x = map_option (on_id i f) (copy s vp x)"
    using find_key_map [of e_id "on_id i f", OF on_id_id [OF f]] by (simp add: copy_def c u)
  show ?thesis
  proof (cases "copy s vp x")
    case None
    then show ?thesis using True cp by (auto simp: fcopy_def)
  next
    case (Some e)
    then have "e_id e = x" using copy_id by blast
    then show ?thesis using True cp Some by (auto simp: fcopy_def on_id_def)
  qed
next
  case False
  then show ?thesis by (auto simp: fcopy_def copy_def c u)
qed

definition quiet :: "ssac_co \<Rightarrow> ssac_co \<Rightarrow> bool" where
  "quiet s s' \<longleftrightarrow> co_frame s s' \<and> ids_kept s s' UNIV \<and> qcount s' = qcount s"

lemma quiet_trans: "quiet s s' \<Longrightarrow> quiet s' s'' \<Longrightarrow> quiet s s''"
  by (auto simp: quiet_def ids_kept_def intro: co_frame_trans)

lemma change_fcopy:
  assumes s: "co_shape s" and p: "holds s me h j i" and f: "keeps_entry f"
  shows "\<exists>s'. change_entry me h j f s = Inr s' \<and> co_shape s' \<and> saved s' = saved s \<and> quiet s s' \<and> entry_of_dir s' = entry_of_dir s \<and> holds s' me h j i \<and>
     (\<forall>x k d. listed s x k d \<longrightarrow> listed s' x k d) \<and>
     (\<forall>vp x. fcopy s' vp x = (if vp = me \<and> x = i then Some (facts (f (copies s h me ! j))) else fcopy s vp x))"
proof -
  have h: "h = ix s i" using p by (simp add: holds_def)
  from change_entry_views [OF s p f] obtain s' where s': "change_entry me h j f s = Inr s'" "upd_rel s s'" "dirl s' = dirl s"
    "copies s' = (\<lambda>h' vp. if h' = h \<and> vp = me then map (on_id i f) (copies s h me) else copies s h' vp)" by blast
  note r = upd_relD [OF s'(2)]
  have ids: "ids_kept s s' UNIV" using on_id_ids [OF f] by (auto simp: ids_kept_def s'(4) simp del: map_map)
  moreover have "holds s' me h j i" by (rule holds_upd [OF p r(2) _ s r(1)]) (use ids in \<open>simp add: ids_kept_def\<close>)
  moreover have "fcopy s' vp x = (if vp = me \<and> x = i then Some (facts (f (copies s h me ! j))) else fcopy s vp x)" for vp x
    using copies_on_fcopy [OF s r(8) s'(4) [unfolded h] f, of vp x] holds_copy [OF s p] h by simp
  moreover have "entry_of_dir s' = entry_of_dir s" using s'(3) r(8) by (simp add: entry_of_dir_def fun_eq_iff)
  ultimately show ?thesis using s'(1) r(1-4) upd_listed [OF s'(2,3)] by (simp add: quiet_def)
qed

lemma coh_exact: "coh load K H s \<Longrightarrow> oid_valid i \<Longrightarrow> entry_of_dir s i = Some d \<Longrightarrow> exact s i d"
  using obj_okD(1) [OF cohD(2), of load K H s i] by (simp add: exact_def)

lemma coh_same:
  assumes "coh load K H s" "same_views s s'"
  shows "coh load K H s'"
  using assms same_viewsD(1,3) [OF assms(2)] same_views_maps [OF assms(2)] cohD(1) [OF assms(1)]
  by (simp add: coh_def fcopy_def)

lemma finish_coh:
  assumes c: "coh load K H s" and p: "holds s me h j i" and me: "me < numproc s" and cnt: "qcount s me h + 1 \<noteq> 0"
    and free: "H i = None" and w: "ty = GETFORWRITE \<Longrightarrow> \<exists>k' d. k = Some k' \<and> listed s i k' d"
  shows "\<exists>s'. rep_finish ty me h k j s = Inr (RGot j, s') \<and>
     coh load K (if ty = GETFORWRITE then H(i \<mapsto> (me, K i)) else H) s' \<and> co_frame s s' \<and> saved s' = saved s \<and>
     qcount s' = (\<lambda>vp h'. if vp = me \<and> h' = h then qcount s me h + 1 else qcount s vp h') \<and> ids_kept s s' UNIV"
proof -
  note s = cohD(1) [OF c]
  have i: "oid_valid i" using p by (simp add: holds_def)
  obtain d where d: "ty = GETFORWRITE \<Longrightarrow> (\<exists>k'. k = Some k' \<and> listed s i k' d) \<and> exact s i d"
    using w coh_exact [OF c i listed_entry [OF s]] by metis
  from finish_views [OF s p me cnt d] obtain s' where s': "rep_finish ty me h k j s = Inr (RGot j, s')" "co_shape s'" "co_frame s s'"
    "saved s' = saved s" "qcount s' = (\<lambda>vp h'. if vp = me \<and> h' = h then qcount s me h + 1 else qcount s vp h')" "ids_kept s s' UNIV"
    "fcopy s' = (\<lambda>vp x. if x = i \<and> ty = GETFORWRITE then take_all (fcopy s vp i) else fcopy s vp x)"
    "entry_of_dir s' = (if ty = GETFORWRITE then (entry_of_dir s)(i \<mapsto> d_setbusy d) else entry_of_dir s)" by blast
  have "obj_ok (load (saved s') x) (K x) ((if ty = GETFORWRITE then H(i \<mapsto> (me, K i)) else H) x) (\<lambda>vp. fcopy s' vp x) (entry_of_dir s' x)"
    if x: "oid_valid x" for x
  proof (cases "x = i \<and> ty = GETFORWRITE")
    case True
    then have "entry_of_dir s i = Some d" using d listed_entry [OF s] by blast
    then have "obj_ok (load (saved s) i) (K i) None (\<lambda>vp. fcopy s vp i) (Some d)" using cohD(2) [OF c i] free by simp
    moreover have "fcopy s me i \<noteq> None" using holds_copy [OF s p] by simp
    ultimately show ?thesis using obj_take [of "load (saved s) i" "K i" "\<lambda>vp. fcopy s vp i" d me] True s' by simp
  next
    case False
    then show ?thesis using cohD(2) [OF c x] s' by auto
  qed
  then have "coh load K (if ty = GETFORWRITE then H(i \<mapsto> (me, K i)) else H) s'" using s'(2) by (simp add: coh_def)
  with s' show ?thesis by blast
qed

subsection \<open>Room in the directory\<close>

lemma line_room:
  assumes s: "co_shape s" and p: "holds s me h j i" and me: "me < numproc s" and i: "entry_of_dir s i = None"
    and cover: "\<And>x d. entry_of_dir s x = Some d \<Longrightarrow> ix s x = h \<Longrightarrow> \<exists>vp. copy s vp x \<noteq> None"
  shows "\<exists>k. free_direntry (dirl s h) 0 = Some k"
proof (rule ccontr)
  assume "\<not> ?thesis"
  then have full: "\<forall>d \<in> set (dirl s h). oid_valid (d_id d)" using free_direntry_None [of "dirl s h" 0] by (cases "free_direntry (dirl s h) 0") auto
  have h: "h = ix s i" "oid_valid i" "j < co_associativity s" "e_id (copies s h me ! j) = i" using p by (auto simp: holds_def)
  have hl: "h < co_numhashqs s" using ix_less [OF s] h by simp
  note ld = line_okD [OF s hl]
  let ?D = "d_id ` set (dirl s h)"
  let ?E = "\<Union>vp < numproc s. e_id ` set (copies s h vp)"
  have "distinct (map d_id (dirl s h))"
    unfolding distinct_conv_nth using keys_distinctD [OF ld(2)] full by (metis length_map nth_map nth_mem)
  then have "card ?D = co_associativity s * numproc s"
    using ld(1) distinct_card [of "map d_id (dirl s h)"] by simp
  moreover have "?D \<subseteq> ?E - {i}"
  proof
    fix x assume "x \<in> ?D"
    then obtain d where d: "d \<in> set (dirl s h)" "d_id d = x" by blast
    then obtain l where l: "l < length (dirl s h)" "dirl s h ! l = d" by (metis in_set_conv_nth)
    have v: "oid_valid x" using full d by auto
    have ixx: "ix s x = h" using co_shapeD(8) [OF s hl] d v unfolding line_ok_def ix_def by auto
    have e: "entry_of_dir s x = Some d" using find_key_nth [OF ld(2) l(1)] l d v ixx by (simp add: entry_of_dir_def)
    then have "x \<noteq> i" using i by auto
    from cover [OF e ixx] obtain vp where vp: "copy s vp x \<noteq> None" by blast
    then have "x \<in> e_id ` set (copies s h vp)" using ixx find_key_None [OF v, of e_id "copies s h vp"] by (auto simp: copy_def)
    with copy_proc [OF s vp] \<open>x \<noteq> i\<close> show "x \<in> ?E - {i}" by auto
  qed
  moreover have fin: "finite ?E" by simp
  ultimately have le: "co_associativity s * numproc s \<le> card (?E - {i})" using card_mono [of "?E - {i}" ?D] by simp
  have "i \<in> e_id ` set (copies s h me)" using h(3,4) slots_okD(1) [OF s hl, of me] by (metis image_eqI nth_mem)
  then have "i \<in> ?E" using me by blast
  then have "card (?E - {i}) < card ?E" using fin by (meson card_Diff1_less)
  moreover have "card ?E \<le> (\<Sum>vp < numproc s. card (e_id ` set (copies s h vp)))" by (rule card_UN_le) simp
  moreover have "(\<Sum>vp < numproc s. card (e_id ` set (copies s h vp))) \<le> (\<Sum>vp < numproc s. co_associativity s)"
  proof (rule sum_mono)
    fix vp
    have "card (e_id ` set (copies s h vp)) \<le> length (copies s h vp)"
      using card_image_le [of "set (copies s h vp)" e_id] card_length [of "copies s h vp"] by simp
    then show "card (e_id ` set (copies s h vp)) \<le> co_associativity s" using slots_okD(1) [OF s hl] by simp
  qed
  ultimately show False using le by (simp add: mult.commute)
qed

end
