(* ===== verification/SsacRepGet.thy ===== *)
theory SsacRepGet
  imports SsacRepCoh
begin

text \<open>The passes of \<open>get\<close> keep coherence, and give a copy with the value of the object.\<close>

subsection \<open>Evicting\<close>

definition gone :: "ssac_co \<Rightarrow> nat \<Rightarrow> u32 \<Rightarrow> u32 \<Rightarrow> nat \<Rightarrow> (bool \<times> bool \<times> u64) option" where
  "gone s me o' x vp = (if vp = me \<and> x = o' then None else fcopy s vp x)"

lemma evict_coh:
  assumes c: "coh load K H s" and st: "stores load" and me: "me < numproc s" and h: "h < co_numhashqs s"
    and m: "made s me h" "j < co_associativity s" and nb: "\<not> busy (copies s h me ! j)"
  defines "e \<equiv> copies s h me ! j"
  shows "\<exists>s'. rep_evict mk me e s = Inr s' \<and> co_shape s' \<and> co_frame s s' \<and> qcount s' = qcount s \<and> copies s' = copies s \<and>
     (\<forall>x. x \<noteq> e_id e \<longrightarrow> entry_of_dir s' x = entry_of_dir s x \<and> (\<forall>k d. listed s x k d \<longrightarrow> listed s' x k d)) \<and>
     (\<forall>x. oid_valid x \<longrightarrow> obj_ok (load (saved s') x) (K x) (H x) (\<lambda>vp. gone s me (e_id e) x vp) (entry_of_dir s' x))"
proof (cases "oid_valid (e_id e)")
  case False
  then have "obj_ok (load (saved s) x) (K x) (H x) (\<lambda>vp. gone s me (e_id e) x vp) (entry_of_dir s x)" if "oid_valid x" for x
  proof -
    have "(\<lambda>vp. gone s me (e_id e) x vp) = (\<lambda>vp. fcopy s vp x)" using False that by (auto simp: gone_def)
    then show ?thesis using cohD(2) [OF c that] by simp
  qed
  moreover have "rep_evict mk me e s = Inr s" using False by (simp add: rep_evict_def)
  ultimately show ?thesis using cohD(1) [OF c] by auto
next
  case True
  note s = cohD(1) [OF c]
  let ?i = "e_id e"
  have p: "holds s me h j ?i" using True m slots_at(2) [OF s h m(2), of me] by (simp add: holds_def e_def)
  have cp: "copy s me ?i = Some e" using holds_copy [OF s p] by (simp add: e_def)
  note o = cohD(2) [OF c True]
  have m31: "me < 31" using me co_shapeD(2) [OF s] by simp
  have fc: "fcopy s me ?i = Some (False, dirty e, e_data e)" using cp nb by (simp add: fcopy_def facts_def e_def)
  then have H: "H ?i = None" using obj_okD(4) [OF o fc] by (cases "H ?i") simp_all
  from obj_okD(1) [OF o, of me] fc obtain d where d: "entry_of_dir s ?i = Some d" by auto
  note o' = o [unfolded H d]
  note lv = obj_leave [OF o' m31 fc]
  from evict_views [OF s p d me, of mk, folded e_def] obtain s' where s': "rep_evict mk me e s = Inr s'" "co_shape s'" "co_frame s s'"
    "qcount s' = qcount s" "copies s' = copies s"
    "saved s' = (if d_vpmask (left_dir me (dirty e) d) = 0 \<and> d_modified (left_dir me (dirty e) d) then (?i, e_data e) # saved s else saved s)"
    "entry_of_dir s' = (entry_of_dir s)(?i := if d_vpmask (left_dir me (dirty e) d) = 0 then None else Some (left_dir me (dirty e) d))"
    "\<forall>x l b. x \<noteq> ?i \<longrightarrow> listed s x l b \<longrightarrow> listed s' x l b" by blast
  have ld: "load (saved s') x = load (saved s) x" if "x \<noteq> ?i" for x using st s'(6) that by (simp add: stores_def)
  have ldi: "load (saved s') ?i = (if d_vpmask (left_dir me (dirty e) d) = 0 \<and> d_modified (left_dir me (dirty e) d) then e_data e else load (saved s) ?i)"
    using st s'(6) by (simp add: stores_def)
  have "obj_ok (load (saved s') x) (K x) (H x) (\<lambda>vp. gone s me ?i x vp) (entry_of_dir s' x)" if x: "oid_valid x" for x
  proof (cases "x = ?i")
    case True
    have g: "(\<lambda>vp. gone s me ?i ?i vp) = (\<lambda>vp. fcopy s vp ?i)(me := None)" by (auto simp: gone_def)
    show ?thesis
      using lv s'(7) ldi H unfolding True g by (cases "d_vpmask (left_dir me (dirty e) d) = 0") (simp_all del: fun_upd_apply add: fun_upd_same split: if_splits)
  next
    case False
    then show ?thesis using cohD(2) [OF c x] s'(7) ld by (simp add: gone_def)
  qed
  with s' show ?thesis by auto
qed

subsection \<open>A copy from another processor\<close>

lemma remote_copy:
  assumes s: "co_shape s" and i: "oid_valid i" "d_id d = i" and m: "d_vpmask d \<noteq> 0" "\<not> bit (d_vpmask d) me"
    and c: "\<And>vp. bit (d_vpmask d) vp \<Longrightarrow> \<exists>b dt. fcopy s vp i = Some (b, dt, v)"
  shows "getremotecopyfromdir me d s = Inr v"
proof -
  have h: "ix s i < co_numhashqs s" by (rule ix_less [OF s])
  from m(1) obtain vp vps where vps: "mask_vps (d_vpmask d) 0 = vp # vps" using mask_vps_Nil [of "d_vpmask d" 0] by (cases "mask_vps (d_vpmask d) 0") auto
  then have vp: "bit (d_vpmask d) vp" using mask_vps_0(1) [of "d_vpmask d"] by auto
  then have ne: "vp \<noteq> me" using m(2) by blast
  from c [OF vp] obtain e where e: "copy s vp i = Some e" "e_data e = v" by (auto simp: fcopy_def facts_def)
  from copy_holds [OF s e(1)] obtain j where j: "holds s vp (ix s i) j i" "copies s (ix s i) vp ! j = e" by blast
  have jl: "j < length (copies s (ix s i) vp)" using j(1) slots_okD(1) [OF s h, of vp] by (simp add: holds_def)
  show ?thesis
    using vps ne copy_on_eq [OF s j(1)] entries_on_eq [OF s h, of vp] copy_made [OF e(1)] jl j(2) e(2) i(2) co_shapeD(3) [OF s]
    by (simp add: getremotecopyfromdir_def oid_index_def ix_def lrt_assert_def arr_get_def)
qed

subsection \<open>A miss\<close>

text \<open>The copy is in its place and listed; what is left is the end of \<open>get\<close>.\<close>

definition fill_entry :: "(nat \<Rightarrow> ssac_co \<Rightarrow> ssac_co) \<Rightarrow> ((u32 \<times> u64) list \<Rightarrow> u32 \<Rightarrow> u64) \<Rightarrow> u32 \<Rightarrow> nat \<Rightarrow> nat \<Rightarrow> nat option \<Rightarrow> nat \<Rightarrow> ssac_co \<Rightarrow>
     (nat option \<times> ssac_co) res" where
  "fill_entry mk load i me h k j s =
     rbind (entries_on s me h) (\<lambda>es.
     rbind (rep_evict mk me (es ! j) s) (\<lambda>s.
     rbind (change_entry me h j (\<lambda>e. e\<lparr>e_flags := 0, e_id := i\<rparr>) s) (\<lambda>s.
     rbind (dirline s h) (\<lambda>ds.
     rbind (case k of
              Some k \<Rightarrow> rbind (getremotecopyfromdir me (ds ! k) s) (\<lambda>v. Inr (v, ds[k := d_addvp me (ds ! k)]))
            | None \<Rightarrow> rbind (adddirentry i me ds) (\<lambda>ds. Inr (load (saved s) i, ds))) (\<lambda>(v, ds).
     rbind (change_entry me h j (\<lambda>e. e\<lparr>e_data := v\<rparr>) (set_dirline h ds s)) (\<lambda>s.
     Inr (case k of Some k \<Rightarrow> Some k | None \<Rightarrow> lookupid i ds 0, s)))))))"

lemma rep_miss_fill:
  assumes "co_shape s" "h < co_numhashqs s" "made s me h" "reps s (line_vp s h) \<noteq> None"
  shows "rep_miss mk load i ty me h s =
    (let k = lookupid i (dirl s h) 0
     in if (case k of None \<Rightarrow> False | Some k \<Rightarrow> d_busy (dirl s h ! k)) then Inr (Again2 k, s)
        else (case hq_lruentry (copies s h me) 0 None of
                None \<Rightarrow> Inr (RNoFree, s)
              | Some j \<Rightarrow> rbind (fill_entry mk load i me h k j s) (\<lambda>(k, s). rep_finish ty me h k j s)))"
  using dirline_eq [OF assms(1,2,4)] entries_on_eq [OF assms(1-3)]
  by (simp add: rep_miss_def fill_entry_def Let_def rbind_assoc case_prod_unfold cong: option.case_cong)

text \<open>The directory after a miss: the processor joins the entry of the object, or the object gets an entry.\<close>

definition list_copy :: "((u32 \<times> u64) list \<Rightarrow> u32 \<Rightarrow> u64) \<Rightarrow> u32 \<Rightarrow> nat \<Rightarrow> nat \<Rightarrow> nat option \<Rightarrow> ssac_co \<Rightarrow> (u64 \<times> dir_entry list) res" where
  "list_copy load i me h k s =
     (case k of
        Some k \<Rightarrow> rbind (getremotecopyfromdir me (dirl s h ! k) s) (\<lambda>v. Inr (v, (dirl s h)[k := d_addvp me (dirl s h ! k)]))
      | None \<Rightarrow> rbind (adddirentry i me (dirl s h)) (\<lambda>ds. Inr (load (saved s) i, ds)))"

definition listed_now :: "((u32 \<times> u64) list \<Rightarrow> u32 \<Rightarrow> u64) \<Rightarrow> (u32 \<Rightarrow> u64) \<Rightarrow> u32 \<Rightarrow> nat \<Rightarrow> nat \<Rightarrow> nat option \<Rightarrow> (nat \<Rightarrow> (bool \<times> bool \<times> u64) option) \<Rightarrow>
    ssac_co \<Rightarrow> nat \<Rightarrow> dir_entry \<Rightarrow> bool" where
  "listed_now load K i me h k c s k' d' \<longleftrightarrow>
     (let s' = set_dirline h ((dirl s h)[k' := d']) s
      in list_copy load i me h k s = Inr (K i, (dirl s h)[k' := d']) \<and> k' < length (dirl s h) \<and> d_id d' = i \<and> (k = None \<or> k = Some k') \<and>
         upd_rel s s' \<and> copies s' = copies s \<and> dirl s' = (dirl s)(h := (dirl s h)[k' := d']) \<and> entry_of_dir s' = (entry_of_dir s)(i \<mapsto> d') \<and>
         obj_ok (load (saved s) i) (K i) None (c(me \<mapsto> (False, False, K i))) (Some d'))"

lemma join_dir:
  assumes s: "co_shape s" and me: "me < numproc s" and l: "listed s i k0 d" and h: "h = ix s i"
    and o: "obj_ok (load (saved s) i) (K i) None c (Some d)" and none: "c me = None" and c: "\<And>vp. vp \<noteq> me \<Longrightarrow> fcopy s vp i = c vp"
  shows "listed_now load K i me h (Some k0) c s k0 (d_addvp me d)"
proof -
  have hl: "h < co_numhashqs s" using ix_less [OF s] h by simp
  have m31: "me < 31" using me co_shapeD(2) [OF s] by simp
  have i: "oid_valid i" "d_id d = i" "dirl s h ! k0 = d" "k0 < length (dirl s h)" and din: "d \<in> set (dirl s h)"
    using l listed_in [OF l] h by (auto simp: listed_def)
  have nbit: "\<not> bit (d_vpmask d) me" using obj_okD(1) [OF o, of me] none by simp
  have "getremotecopyfromdir me d s = Inr (K i)"
  proof (rule remote_copy [OF s i(1,2) obj_okD(2) [OF o refl] nbit])
    fix vp assume vp: "bit (d_vpmask d) vp"
    then have "c vp \<noteq> None" using obj_okD(1) [OF o, of vp] by simp
    then obtain b dt v where bdv: "c vp = Some (b, dt, v)" by (cases "c vp") auto
    then have "v = K i" using obj_okD(5) [OF o bdv] by (simp add: seen_def)
    moreover have "vp \<noteq> me" using vp nbit by blast
    ultimately show "\<exists>b dt. fcopy s vp i = Some (b, dt, K i)" using bdv c by simp
  qed
  moreover have "x < numproc s" if "bit (d_vpmask (d_addvp me d)) x" for x
    using that line_okD(4) [OF s hl din, of x] me by (auto simp: bit_addvp [OF m31])
  then have "upd_rel s (set_dirline h ((dirl s h)[k0 := d_addvp me d]) s)" "copies (set_dirline h ((dirl s h)[k0 := d_addvp me d]) s) = copies s"
    "dirl (set_dirline h ((dirl s h)[k0 := d_addvp me d]) s) = (dirl s)(h := (dirl s h)[k0 := d_addvp me d])"
    "entry_of_dir (set_dirline h ((dirl s h)[k0 := d_addvp me d]) s) = (entry_of_dir s)(i \<mapsto> d_addvp me d)"
    using set_direntry_views [OF s l, of "d_addvp me d"] i(2) line_okD(3) [OF s hl din] h by (simp_all del: insert_iff)
  ultimately show ?thesis using i obj_join [OF o m31 none] by (simp add: listed_now_def list_copy_def Let_def)
qed

lemma first_dir:
  assumes s: "co_shape s" and me: "me < numproc s" and p: "holds s me h j i" and r: "reps s (line_vp s h) \<noteq> None"
    and e: "entry_of_dir s i = None" and o: "obj_ok (load (saved s) i) (K i) None c None"
    and cover: "\<And>x d. entry_of_dir s x = Some d \<Longrightarrow> ix s x = h \<Longrightarrow> \<exists>vp. copy s vp x \<noteq> None"
  shows "\<exists>k' d'. listed_now load K i me h None c s k' d'"
proof -
  have i: "oid_valid i" "ix s i = h" using p by (auto simp: holds_def)
  have hl: "h < co_numhashqs s" using ix_less [OF s, of i] i by simp
  have m31: "me < 31" using me co_shapeD(2) [OF s] by simp
  have "\<exists>k. free_direntry (dirl s h) 0 = Some k" by (rule line_room [OF s p me e]) (rule cover)
  then obtain k1 where k1: "free_direntry (dirl s h) 0 = Some k1" by blast
  have free1: "k1 < length (dirl s h)" "\<not> oid_valid (d_id (dirl s h ! k1))" using free_direntry_Some [OF k1] by simp_all
  let ?d = "d_addvp me (d_clearall ((dirl s h ! k1)\<lparr>d_id := i\<rparr>))"
  have zero: "d_vpmask (dirl s h ! k1) = 0" using line_okD(5) [OF s hl nth_mem [OF free1(1)] free1(2)] .
  have mask: "bit (d_vpmask ?d) vp \<longleftrightarrow> vp = me" for vp using zero by (simp add: bit_addvp [OF m31] d_clearall_def)
  have di: "d_id ?d = i" "d_flags ?d = 0" by (simp_all add: d_clearall_def)
  have kv: "K i = load (saved s) i" using obj_no_entry(2) [OF o] .
  have add: "adddirentry i me (dirl s h) = Inr ((dirl s h)[k1 := ?d])" using k1 by (simp add: adddirentry_def)
  have nv: "entry_of_dir s (d_id (dirl s h ! k1)) = None" using free1(2) by (simp add: entry_of_dir_def)
  have "upd_rel s (set_dirline h ((dirl s h)[k1 := ?d]) s)" "copies (set_dirline h ((dirl s h)[k1 := ?d]) s) = copies s"
    "dirl (set_dirline h ((dirl s h)[k1 := ?d]) s) = (dirl s)(h := (dirl s h)[k1 := ?d])"
    "entry_of_dir (set_dirline h ((dirl s h)[k1 := ?d]) s) = (entry_of_dir s)(d_id (dirl s h ! k1) := None, i \<mapsto> ?d)"
    using set_dirslot_views [OF s hl r free1(1), of ?d] di mask me i e by simp_all
  moreover have "(entry_of_dir s)(d_id (dirl s h ! k1) := None, i \<mapsto> ?d) = (entry_of_dir s)(i \<mapsto> ?d)" using nv by auto
  moreover have "obj_ok (load (saved s) i) (K i) None (c(me \<mapsto> (False, False, K i))) (Some ?d)"
    by (rule obj_first [OF o m31 mask]) (simp add: d_busy_def d_clearall_def)
  ultimately have "listed_now load K i me h None c s k1 ?d"
    using add free1(1) di(1) kv by (simp add: listed_now_def list_copy_def Let_def)
  then show ?thesis by blast
qed

text \<open>The slot of the victim, with the identifier of the object.\<close>

definition slot_taken :: "((u32 \<times> u64) list \<Rightarrow> u32 \<Rightarrow> u64) \<Rightarrow> (u32 \<Rightarrow> u64) \<Rightarrow> (u32 \<Rightarrow> (nat \<times> u64) option) \<Rightarrow> u32 \<Rightarrow> nat \<Rightarrow> nat \<Rightarrow> nat \<Rightarrow> ssac_co \<Rightarrow> ssac_co \<Rightarrow> bool" where
  "slot_taken load K H i me h j s s2 \<longleftrightarrow>
     (let o' = e_id (copies s h me ! j)
      in o' \<noteq> i \<and> co_shape s2 \<and> co_frame s s2 \<and> qcount s2 = qcount s \<and> ids_kept s s2 (- {me}) \<and> holds s2 me h j i \<and>
         \<not> busy (copies s2 h me ! j) \<and> \<not> dirty (copies s2 h me ! j) \<and> entry_of_dir s2 i = entry_of_dir s i \<and>
         (\<forall>k d. listed s i k d \<longrightarrow> listed s2 i k d) \<and> (\<forall>vp x. \<not> (vp = me \<and> x = i) \<longrightarrow> fcopy s2 vp x = gone s me o' x vp) \<and>
         (\<forall>x. oid_valid x \<longrightarrow> obj_ok (load (saved s2) x) (K x) (H x) (\<lambda>vp. gone s me o' x vp) (entry_of_dir s2 x)))"

lemma take_slot:
  assumes c: "coh load K H s" and st: "stores load" and me: "me < numproc s" and i: "oid_valid i" and h: "h = ix s i"
    and m: "made s me h" and none: "copy s me i = None" and j: "j < co_associativity s" and nb: "\<not> busy (copies s h me ! j)"
  shows "\<exists>s1 s2. rep_evict mk me (copies s h me ! j) s = Inr s1 \<and> change_entry me h j (\<lambda>e. e\<lparr>e_flags := 0, e_id := i\<rparr>) s1 = Inr s2 \<and>
     slot_taken load K H i me h j s s2"
proof -
  note s = cohD(1) [OF c]
  let ?e = "copies s h me ! j"
  have hl: "h < co_numhashqs s" using ix_less [OF s] h by simp
  have ne: "e_id ?e \<noteq> i"
  proof
    assume "e_id ?e = i"
    then have "holds s me h j i" using i h m j by (simp add: holds_def)
    from holds_copy [OF s this] none show False by simp
  qed
  from evict_coh [OF c st me hl m j nb, of mk] obtain s1 where s1: "rep_evict mk me ?e s = Inr s1" "co_shape s1" "co_frame s s1"
    "qcount s1 = qcount s" "copies s1 = copies s"
    "\<And>x. x \<noteq> e_id ?e \<Longrightarrow> entry_of_dir s1 x = entry_of_dir s x" "\<And>x k d. x \<noteq> e_id ?e \<Longrightarrow> listed s x k d \<Longrightarrow> listed s1 x k d"
    "\<And>x. oid_valid x \<Longrightarrow> obj_ok (load (saved s1) x) (K x) (H x) (\<lambda>vp. gone s me (e_id ?e) x vp) (entry_of_dir s1 x)" by blast
  note f1 = co_frameD [OF s1(3)]
  have hl1: "h < co_numhashqs s1" "made s1 me h" "j < co_associativity s1" using hl m j f1 by simp_all
  have cp1: "copy s1 = copy s" using s1(5) f1(6) by (simp add: copy_def fun_eq_iff)
  let ?f = "\<lambda>e. e\<lparr>e_flags := 0, e_id := i\<rparr>"
  have pre: "?f (copies s1 h me ! j) = ?f ?e" "oid_valid (e_id (?f ?e))" "ix s1 (e_id (?f ?e)) = h" "e_flags (?f ?e) \<in> {0, 1, 2, 3}"
    "e_id (?f ?e) = e_id (copies s1 h me ! j) \<or> copy s1 me (e_id (?f ?e)) = None"
    using i h f1(6) none cp1 s1(5) by simp_all
  from set_slot_views [where f = ?f, OF s1(2) hl1 pre] obtain s2 where s2: "change_entry me h j ?f s1 = Inr s2" "upd_rel s1 s2" "dirl s2 = dirl s1"
    "holds s2 me h j (e_id (?f ?e))" "copies s2 h me ! j = ?f ?e" "ids_kept s1 s2 (- {me})"
    "copy s2 = (\<lambda>vp x. if vp = me then ((copy s1 me)(e_id (copies s1 h me ! j) := None, e_id (?f ?e) \<mapsto> ?f ?e)) x else copy s1 vp x)" by blast
  note r2 = upd_relD [OF s2(2)]
  have e2: "entry_of_dir s2 = entry_of_dir s1" using s2(3) r2(8) by (simp add: entry_of_dir_def fun_eq_iff)
  have "fcopy s2 vp x = gone s me (e_id ?e) x vp" if "\<not> (vp = me \<and> x = i)" for vp x
    using that s1(5) by (auto simp: fcopy_def s2(7) cp1 gone_def)
  moreover have "obj_ok (load (saved s2) x) (K x) (H x) (\<lambda>vp. gone s me (e_id ?e) x vp) (entry_of_dir s2 x)" if "oid_valid x" for x
    using s1(8) [OF that] r2(3) e2 by simp
  moreover have "listed s2 i k d" if "listed s i k d" for k d by (rule upd_listed [OF s2(2,3) s1(7) [OF ne [symmetric] that]])
  moreover have "entry_of_dir s2 i = entry_of_dir s i" using s1(6) [of i] ne e2 by auto
  moreover have "\<not> busy (copies s2 h me ! j)" "\<not> dirty (copies s2 h me ! j)" by (simp_all add: s2(5) busy_def dirty_def)
  moreover have "holds s2 me h j i" "ids_kept s s2 (- {me})" using s2(4,6) s1(5) by (simp_all add: ids_kept_def)
  ultimately show ?thesis
    using s1(1) s2(1) r2(1,4) s1(4) ne co_frame_trans [OF s1(3) r2(2)] by (intro exI [of _ s1] exI [of _ s2]) (simp add: slot_taken_def Let_def)
qed

lemma fill_coh:
  assumes c: "coh load K H s" and st: "stores load" and me: "me < numproc s" and i: "oid_valid i" and h: "h = ix s i"
    and m: "made s me h" "reps s (line_vp s h) \<noteq> None" and none: "copy s me i = None" and free: "H i = None"
    and j: "j < co_associativity s" and nb: "\<not> busy (copies s h me ! j)"
  defines "k \<equiv> lookupid i (dirl s h) 0"
  shows "\<exists>k' s'. fill_entry mk load i me h k j s = Inr (Some k', s') \<and> coh load K H s' \<and> co_frame s s' \<and> qcount s' = qcount s \<and>
     ids_kept s s' (- {me}) \<and> holds s' me h j i \<and> (\<exists>d. listed s' i k' d)"
proof -
  note s = cohD(1) [OF c]
  have hl: "h < co_numhashqs s" using ix_less [OF s] h by simp
  from take_slot [OF c st me i h m(1) none j nb, of mk] obtain s1 s2 o' where s2: "rep_evict mk me (copies s h me ! j) s = Inr s1"
    "change_entry me h j (\<lambda>e. e\<lparr>e_flags := 0, e_id := i\<rparr>) s1 = Inr s2" "o' \<noteq> i" "co_shape s2" "co_frame s s2" "qcount s2 = qcount s"
    "ids_kept s s2 (- {me})" "holds s2 me h j i" "\<not> busy (copies s2 h me ! j)" "\<not> dirty (copies s2 h me ! j)" "entry_of_dir s2 i = entry_of_dir s i"
    "\<And>k d. listed s i k d \<Longrightarrow> listed s2 i k d" "\<And>vp x. \<not> (vp = me \<and> x = i) \<Longrightarrow> fcopy s2 vp x = gone s me o' x vp"
    "\<And>x. oid_valid x \<Longrightarrow> obj_ok (load (saved s2) x) (K x) (H x) (\<lambda>vp. gone s me o' x vp) (entry_of_dir s2 x)"
    unfolding slot_taken_def Let_def by blast
  note f2 = co_frameD [OF s2(5)]
  let ?c = "\<lambda>vp. fcopy s vp i"
  have gi: "(\<lambda>vp. gone s me o' i vp) = ?c" using s2(3) by (auto simp: gone_def)
  note oi = s2(14) [OF i, unfolded gi free]
  have hl2: "h < co_numhashqs s2" "reps s2 (line_vp s2 h) \<noteq> None" "h = ix s2 i" "me < numproc s2" using hl f2(1,2,4,6,7) m(2) h me by simp_all
  obtain k' d' where d': "listed_now load K i me h k ?c s2 k' d'"
  proof (cases k)
    case (Some k0)
    have kd: "k0 < length (dirl s h)" "d_id (dirl s h ! k0) = i" using lookupid_Some [of i "dirl s h" 0 k0] Some by (simp_all add: k_def)
    then have l2: "listed s2 i k0 (dirl s h ! k0)" using i h m(2) by (intro s2(12)) (simp add: listed_def)
    have fc: "fcopy s2 vp i = ?c vp" if "vp \<noteq> me" for vp using s2(13) [of vp i] that s2(3) by (simp add: gone_def)
    have cn: "?c me = None" using none by simp
    have "listed_now load K i me h (Some k0) ?c s2 k0 (d_addvp me (dirl s h ! k0))"
      by (rule join_dir [where c = ?c and load = load and K = K and i = i and s = s2, OF s2(4) hl2(4) l2 hl2(3) oi [unfolded listed_entry [OF s2(4) l2]] cn fc])
    then show ?thesis using that Some by blast
  next
    case None
    then have e: "entry_of_dir s2 i = None" using entry_lookup_None [OF s i] h s2(11) by (simp add: k_def)
    have cover: "\<exists>vp. copy s2 vp x \<noteq> None" if x: "entry_of_dir s2 x = Some d" for x d
    proof (cases "x = i")
      case False
      have "oid_valid x" using x by (cases "oid_valid x") (auto simp: entry_of_dir_def)
      note ox = s2(14) [OF this, unfolded x]
      obtain vp where vp: "bit (d_vpmask d) vp" using obj_okD(2) [OF ox refl] bit_eqI [of "d_vpmask d" 0] by auto
      then have "fcopy s2 vp x \<noteq> None" using obj_okD(1) [OF ox, of vp] s2(13) [of vp x] False by simp
      then show ?thesis by auto
    qed (use x e in simp)
    have "\<exists>k' d'. listed_now load K i me h None ?c s2 k' d'"
      by (rule first_dir [where c = ?c and load = load and K = K and i = i and s = s2, OF s2(4) hl2(4) s2(8) hl2(2) e oi [unfolded e]]) (rule cover)
    then show ?thesis using that None by blast
  qed
  let ?s3 = "set_dirline h ((dirl s2 h)[k' := d']) s2"
  have n: "list_copy load i me h k s2 = Inr (K i, (dirl s2 h)[k' := d'])" "k' < length (dirl s2 h)" "d_id d' = i" "k = None \<or> k = Some k'"
    "upd_rel s2 ?s3" "copies ?s3 = copies s2" "dirl ?s3 = (dirl s2)(h := (dirl s2 h)[k' := d'])" "entry_of_dir ?s3 = (entry_of_dir s2)(i \<mapsto> d')"
    "obj_ok (load (saved s2) i) (K i) None (?c(me \<mapsto> (False, False, K i))) (Some d')"
    using d' unfolding listed_now_def Let_def by blast+
  note r3 = upd_relD [OF n(5)]
  have p3: "holds ?s3 me h j i" by (rule holds_upd [OF s2(8) r3(2) _ s2(4) r3(1)]) (simp add: n(6))
  have fc3: "fcopy ?s3 = fcopy s2" using n(6) r3(8) by (simp add: fcopy_def copy_def fun_eq_iff)
  have kE: "keeps_entry (\<lambda>e. e\<lparr>e_data := K i\<rparr>)" by (simp add: keeps_entry_def)
  from change_fcopy [OF r3(1) p3 kE] obtain s4 where s4: "change_entry me h j (\<lambda>e. e\<lparr>e_data := K i\<rparr>) ?s3 = Inr s4" "co_shape s4" "saved s4 = saved ?s3"
    "quiet ?s3 s4" "entry_of_dir s4 = entry_of_dir ?s3" "holds s4 me h j i" "\<And>x k d. listed ?s3 x k d \<Longrightarrow> listed s4 x k d"
    "\<And>vp x. fcopy s4 vp x = (if vp = me \<and> x = i then Some (facts ((copies ?s3 h me ! j)\<lparr>e_data := K i\<rparr>)) else fcopy ?s3 vp x)" by auto
  have fr4: "co_frame s s4" using s2(5) r3(2) s4(4) unfolding quiet_def by (blast intro: co_frame_trans)
  have fc4: "fcopy s4 vp x = (if vp = me \<and> x = i then Some (False, False, K i) else gone s me o' x vp)" for vp x
    using s4(8) [of vp x] s2(9,10,13) fc3 n(6) by (auto simp: facts_def)
  have "obj_ok (load (saved s4) x) (K x) (H x) (\<lambda>vp. fcopy s4 vp x) (entry_of_dir s4 x)" if x: "oid_valid x" for x
  proof (cases "x = i")
    case True
    have "(\<lambda>vp. fcopy s4 vp i) = ?c(me \<mapsto> (False, False, K i))" using s2(3) by (auto simp: fc4 gone_def)
    then show ?thesis using True n(8,9) s4(3,5) r3(3) free by simp
  next
    case False
    have "(\<lambda>vp. fcopy s4 vp x) = (\<lambda>vp. gone s me o' x vp)" using False by (auto simp: fc4)
    then show ?thesis using s2(14) [OF x] False n(8) s4(3,5) r3(3) by simp
  qed
  then have c4: "coh load K H s4" using s4(2) by (simp add: coh_def)
  have l3: "listed ?s3 i k' d'" using i hl2 n(2,3,7) r3(8,9) co_frameD(4) [OF r3(2) hl2(2)] by (simp add: listed_def)
  have "lookupid i ((dirl s2 h)[k' := d']) 0 = Some k'" using listed_lookup [OF r3(1) l3] r3(8) hl2(3) n(7) by simp
  then have kk: "(case k of Some k \<Rightarrow> Some k | None \<Rightarrow> lookupid i ((dirl s2 h)[k' := d']) 0) = Some k'" using n(4) by (cases k) auto
  have "fill_entry mk load i me h k j s = Inr (Some k', s4)"
    using entries_on_eq [OF s hl m(1)] s2(1,2) dirline_eq [OF s2(4) hl2(1,2)] n(1) s4(1) kk by (simp add: fill_entry_def list_copy_def)
  moreover have "ids_kept s s4 (- {me})" using s2(7) s4(4) n(6) by (simp add: ids_kept_def quiet_def)
  moreover have "qcount s4 = qcount s" using s4(4) r3(4) s2(6) by (simp add: quiet_def)
  ultimately show ?thesis using c4 fr4 s4(6,7) l3 by blast
qed

end
