(* ===== verification/SsacRepRun.thy ===== *)
theory SsacRepRun
  imports SsacRepGet
begin

text \<open>Every call of the replicated cache keeps coherence; no assertion fails.\<close>

subsection \<open>get\<close>

text \<open>What a pass that gives an entry leaves behind.\<close>

definition got_copy :: "((u32 \<times> u64) list \<Rightarrow> u32 \<Rightarrow> u64) \<Rightarrow> (u32 \<Rightarrow> u64) \<Rightarrow> (u32 \<Rightarrow> (nat \<times> u64) option) \<Rightarrow> gettype \<Rightarrow> u32 \<Rightarrow> nat \<Rightarrow> nat \<Rightarrow> nat \<Rightarrow>
    ssac_co \<Rightarrow> ssac_co \<Rightarrow> bool" where
  "got_copy load K H ty i me h j s s' \<longleftrightarrow> H i = None \<and> coh load K (if ty = GETFORWRITE then H(i \<mapsto> (me, K i)) else H) s' \<and>
     co_frame s s' \<and> ids_kept s s' (- {me}) \<and> holds s' me h j i \<and>
     qcount s' = (\<lambda>vp h'. if vp = me \<and> h' = h then qcount s me h + 1 else qcount s vp h')"

lemma rep_miss_coh:
  assumes c: "coh load K H s" and st: "stores load" and me: "me < numproc s" and i: "oid_valid i" and h: "h = ix s i"
    and m: "made s me h" "reps s (line_vp s h) \<noteq> None" and none: "copy s me i = None" and cnt: "qcount s me h + 1 \<noteq> 0"
  shows "(\<exists>k. rep_miss mk load i ty me h s = Inr (Again2 k, s)) \<or> rep_miss mk load i ty me h s = Inr (RNoFree, s) \<or>
     (\<exists>j s'. rep_miss mk load i ty me h s = Inr (RGot j, s') \<and> got_copy load K H ty i me h j s s')"
proof -
  note s = cohD(1) [OF c]
  have hl: "h < co_numhashqs s" using ix_less [OF s] h by simp
  let ?k = "lookupid i (dirl s h) 0"
  let ?b = "case ?k of None \<Rightarrow> False | Some k \<Rightarrow> d_busy (dirl s h ! k)"
  note eq = rep_miss_fill [OF s hl m, of mk load i ty]
  consider (wait) ?b | (full) "\<not> ?b" "hq_lruentry (copies s h me) 0 None = None"
    | (room) j where "\<not> ?b" "hq_lruentry (copies s h me) 0 None = Some j" by fastforce
  then show ?thesis
  proof cases
    case wait
    then show ?thesis using eq by (simp add: Let_def)
  next
    case full
    then show ?thesis using eq by (simp add: Let_def)
  next
    case room
    have free: "H i = None"
    proof (cases ?k)
      case None
      then have "entry_of_dir s i = None" using entry_lookup_None [OF s i] h by simp
      then show ?thesis using obj_no_entry(1) cohD(2) [OF c i] by metis
    next
      case (Some k)
      then have "entry_of_dir s i = Some (dirl s h ! k)" using lookup_find [OF line_okD(2) [OF s hl] i] h by (simp add: entry_of_dir_def)
      from obj_okD(3) [OF cohD(2) [OF c i] this] show ?thesis using room(1) Some by (cases "H i") simp_all
    qed
    have j: "j < co_associativity s" "\<not> busy (copies s h me ! j)" using lru_index [OF room(2)] slots_okD(1) [OF s hl] by simp_all
    from fill_coh [OF c st me i h m none free j, of mk] obtain k' s1 d where s1: "fill_entry mk load i me h ?k j s = Inr (Some k', s1)"
      "coh load K H s1" "co_frame s s1" "qcount s1 = qcount s" "ids_kept s s1 (- {me})" "holds s1 me h j i" "listed s1 i k' d" by blast
    have "me < numproc s1" "qcount s1 me h + 1 \<noteq> 0" using me cnt co_frameD(1) [OF s1(3)] s1(4) by simp_all
    from finish_coh [where k = "Some k'" and ty = ty, OF s1(2,6) this free] s1(7) obtain s2 where s2: "rep_finish ty me h (Some k') j s1 = Inr (RGot j, s2)"
      "coh load K (if ty = GETFORWRITE then H(i \<mapsto> (me, K i)) else H) s2" "co_frame s1 s2"
      "qcount s2 = (\<lambda>vp h'. if vp = me \<and> h' = h then qcount s1 me h + 1 else qcount s1 vp h')" "ids_kept s1 s2 UNIV" by auto
    have "holds s2 me h j i"
      by (rule holds_upd [OF s1(6) s2(3) _ cohD(1) [OF s1(2)] cohD(1) [OF s2(2)]]) (use s2(5) in \<open>simp add: ids_kept_def\<close>)
    moreover have "ids_kept s s2 (- {me})" using s1(5) s2(5) by (simp add: ids_kept_def)
    ultimately have "got_copy load K H ty i me h j s s2"
      using free s2(2,4) s1(4) co_frame_trans [OF s1(3) s2(3)] by (simp add: got_copy_def fun_eq_iff)
    moreover have "rep_miss mk load i ty me h s = Inr (RGot j, s2)" using eq room s1(1) s2(1) by (simp add: Let_def)
    ultimately show ?thesis by blast
  qed
qed

lemma hit_coh:
  assumes c: "coh load K H s" and me: "me < numproc s" and p: "holds s me h j i" and nb: "\<not> busy (copies s h me ! j)"
    and cnt: "qcount s me h + 1 \<noteq> 0" and k: "ty = GETFORWRITE \<Longrightarrow> k = lookupid i (dirl s h) 0"
  shows "\<exists>s'. rep_finish ty me h k j s = Inr (RGot j, s') \<and> got_copy load K H ty i me h j s s'"
proof -
  note s = cohD(1) [OF c]
  have i: "oid_valid i" "h = ix s i" using p by (auto simp: holds_def)
  have fc: "fcopy s me i = Some (False, dirty (copies s h me ! j), e_data (copies s h me ! j))"
    using holds_copy [OF s p] nb by (simp add: fcopy_def facts_def)
  have free: "H i = None" using obj_okD(4) [OF cohD(2) [OF c i(1)] fc] by (cases "H i") simp_all
  from obj_okD(1) [OF cohD(2) [OF c i(1)], of me] fc obtain d where "entry_of_dir s i = Some d" by auto
  from entry_listed [OF s this] obtain k' where k': "listed s i k' d" by blast
  have "\<exists>k' d. k = Some k' \<and> listed s i k' d" if "ty = GETFORWRITE"
    using k [OF that] listed_lookup [OF s k'] k' i(2) by auto
  from finish_coh [where k = k and ty = ty, OF c p me cnt free this] obtain s' where s': "rep_finish ty me h k j s = Inr (RGot j, s')"
    "coh load K (if ty = GETFORWRITE then H(i \<mapsto> (me, K i)) else H) s'" "co_frame s s'"
    "qcount s' = (\<lambda>vp h'. if vp = me \<and> h' = h then qcount s me h + 1 else qcount s vp h')" "ids_kept s s' UNIV" by blast
  have "holds s' me h j i" by (rule holds_upd [OF p s'(3) _ s cohD(1) [OF s'(2)]]) (use s'(5) in \<open>simp add: ids_kept_def\<close>)
  then show ?thesis using s' free by (auto simp: got_copy_def ids_kept_def)
qed

lemma rep_first_coh:
  assumes c: "coh load K H s" and st: "stores load" and mk: "mh_creates mk" and me: "me < numproc s" and i: "oid_valid i" and h: "h = ix s i"
    and m: "made s me h" "ty = GETFORWRITE \<Longrightarrow> reps s (line_vp s h) \<noteq> None" and cnt: "qcount s me h + 1 \<noteq> 0"
  shows "\<exists>g s'. rep_first mk load i ty me h s = Inr (g, s') \<and>
     (case g of
        Again1 \<Rightarrow> s' = s
      | Again2 k \<Rightarrow> same_views s s' \<and> reps s' (line_vp s h) \<noteq> None \<and> copy s me i = None
      | RNoFree \<Rightarrow> s' = s
      | RGot j \<Rightarrow> got_copy load K H ty i me h j s s')"
proof (cases "copy s me i")
  case None
  note s = cohD(1) [OF c]
  have hl: "h < co_numhashqs s" using ix_less [OF s] h by simp
  have se: "hq_search i (copies s h me) 0 = None" using None i h by (simp add: copy_def hq_search_None find_key_None)
  show ?thesis
  proof (cases "ty = GETFORREAD")
    case True
    from finddirline_views [OF mk s hl] obtain s' where "finddirline mk h s = Inr s'" "same_views s s'" "reps s' (line_vp s h) \<noteq> None" by blast
    then show ?thesis using True se entries_on_eq [OF s hl m(1)] None by (simp add: rep_first_def)
  next
    case False
    then have w: "ty = GETFORWRITE" by (cases ty) simp_all
    have "rep_first mk load i ty me h s = rep_miss mk load i ty me h s"
      using se entries_on_eq [OF s hl m(1)] False by (simp add: rep_first_def)
    then show ?thesis using rep_miss_coh [OF c st me i h m(1) m(2) [OF w] None cnt, of mk ty] same_views_refl [OF s] m(2) [OF w] None by auto
  qed
next
  case (Some e)
  note s = cohD(1) [OF c]
  have hl: "h < co_numhashqs s" using ix_less [OF s] h by simp
  from copy_holds [OF s Some] obtain j where j: "holds s me h j i" "hq_search i (copies s h me) 0 = Some j" using h by blast
  show ?thesis
  proof (cases "busy (copies s h me ! j)")
    case True
    then show ?thesis using j entries_on_eq [OF s hl m(1)] by (simp add: rep_first_def)
  next
    case False
    let ?k = "if ty = GETFORWRITE then lookupid i (dirl s h) 0 else None"
    have k: "(if ty = GETFORWRITE then rbind (dirline s h) (\<lambda>ds. Inr (lookupid i ds 0)) else Inr None) = Inr ?k"
      using dirline_eq [OF s hl m(2)] by simp
    obtain s' where "rep_finish ty me h ?k j s = Inr (RGot j, s')" "got_copy load K H ty i me h j s s'"
      using hit_coh [OF c me j(1) False cnt, of ty ?k] by auto
    then show ?thesis using j k False entries_on_eq [OF s hl m(1)] by (simp add: rep_first_def del: if_split cong: if_cong)
  qed
qed

lemma rep_second_coh:
  assumes c: "coh load K H s" and st: "stores load" and me: "me < numproc s" and i: "oid_valid i" and h: "h = ix s i"
    and m: "made s me h" "reps s (line_vp s h) \<noteq> None" and none: "copy s me i = None" and cnt: "qcount s me h + 1 \<noteq> 0"
  shows "\<exists>g s'. rep_second mk load k i ty me h s = Inr (g, s') \<and>
     (case g of Again1 \<Rightarrow> False | Again2 k \<Rightarrow> s' = s | RNoFree \<Rightarrow> s' = s | RGot j \<Rightarrow> got_copy load K H ty i me h j s s')"
proof -
  note s = cohD(1) [OF c]
  have hl: "h < co_numhashqs s" using ix_less [OF s] h by simp
  have se: "hq_search i (copies s h me) 0 = None" using none i h by (simp add: copy_def hq_search_None find_key_None)
  have "rep_second mk load k i ty me h s = rep_miss mk load i ty me h s"
    using se entries_on_eq [OF s hl m(1)] by (simp add: rep_second_def)
  then show ?thesis using rep_miss_coh [OF c st me i h m none cnt, of mk ty] by auto
qed

text \<open>The first call on a processor, and what comes before the first pass.\<close>

lemma rep_enter_views:
  assumes s: "co_shape s" and mk: "mh_creates mk" and i: "oid_valid i" and r: "reps s me \<noteq> None"
  shows "\<exists>s'. rep_enter mk i ty me s = Inr (ix s i, s') \<and> same_views s s' \<and> made s' me (ix s i) \<and>
     (ty = GETFORWRITE \<longrightarrow> reps s' (line_vp s (ix s i)) \<noteq> None)"
proof -
  let ?h = "ix s i"
  have hl: "?h < co_numhashqs s" by (rule ix_less [OF s])
  from r obtain r0 where r0: "reps s me = Some r0" by blast
  let ?q = "r_hashqs r0 ! ?h"
  let ?q1 = "if hq_entries ?q = None then ?q\<lparr>hq_entries := Some (replicate (co_associativity s) new_entry)\<rparr> else ?q"
  have q1: "(if hq_entries ?q = None then hq_init (co_associativity s) ?q else Inr ?q) = Inr ?q1"
    by (simp add: hq_init_def lrt_assert_def)
  have cps: "(case hq_entries ?q1 of None \<Rightarrow> replicate (co_associativity s) new_entry | Some es \<Rightarrow> es) = copies s ?h me"
    using r0 by (auto simp: copies_def split: option.splits)
  let ?s1 = "set_queue me ?h ?q1 s"
  have "slots_ok (co_associativity s) (co_numhashqs s) ?h (case hq_entries ?q1 of None \<Rightarrow> replicate (co_associativity s) new_entry | Some es \<Rightarrow> es)"
    unfolding cps by (rule co_shapeD(7) [OF s hl])
  note v = set_queue_views [OF s hl r0 this]
  have m1: "hq_entries ?q1 \<noteq> None" by auto
  have c1: "copies ?s1 = copies s" using v(5) cps m1 by (auto simp: fun_eq_iff)
  have k1: "qcount ?s1 = qcount s" using v(6) m1 r0 by (auto simp: qcount_def fun_eq_iff)
  have s1: "same_views s ?s1" using v(1-4) m1 c1 k1 by (simp add: same_views_def)
  have made1: "made ?s1 me ?h" using v(7) m1 by blast
  have ix: "oid_index i (co_numhashqs s) = Inr ?h" using co_shapeD(3) [OF s] by (simp add: oid_index_def ix_def)
  show ?thesis
  proof (cases "ty = GETFORWRITE")
    case True
    have hl1: "?h < co_numhashqs ?s1" using hl co_frameD(2) [OF same_viewsD(2) [OF s1]] by simp
    from finddirline_views [OF mk same_viewsD(1) [OF s1] hl1] obtain s' where s': "finddirline mk ?h ?s1 = Inr s'" "same_views ?s1 s'"
      "reps s' (line_vp ?s1 ?h) \<noteq> None" by blast
    have "rep_enter mk i ty me s = Inr (?h, s')"
      using i ix queue_on_eq [OF s hl r0] q1 s'(1) True by (simp add: rep_enter_def lrt_assert_def Let_def)
    then show ?thesis using same_views_trans [OF s1 s'(2)] co_frameD(5) [OF same_viewsD(2) [OF s'(2)] made1] s'(3)
      co_frameD(7) [OF same_viewsD(2) [OF s1]] by auto
  next
    case False
    have "rep_enter mk i ty me s = Inr (?h, ?s1)"
      using i ix queue_on_eq [OF s hl r0] q1 False by (simp add: rep_enter_def lrt_assert_def Let_def)
    then show ?thesis using s1 made1 False by auto
  qed
qed

subsection \<open>The writer\<close>

lemma held_copy:
  assumes c: "coh load K H s" and p: "holds s me h j i"
  shows "fcopy s me i = Some (busy (copies s h me ! j), dirty (copies s h me ! j), seen (H i) (K i) me)"
    "e_data (copies s h me ! j) = seen (H i) (K i) me"
proof -
  have i: "oid_valid i" using p by (simp add: holds_def)
  have fc: "fcopy s me i = Some (facts (copies s h me ! j))" using holds_copy [OF cohD(1) [OF c] p] by (simp add: fcopy_def)
  show "e_data (copies s h me ! j) = seen (H i) (K i) me"
    using obj_okD(5) [OF cohD(2) [OF c i] fc [unfolded facts_def]] .
  then show "fcopy s me i = Some (busy (copies s h me ! j), dirty (copies s h me ! j), seen (H i) (K i) me)" using fc by (simp add: facts_def)
qed

lemma write_coh:
  assumes c: "coh load K H s" and p: "holds s me h j i" and u: "H i = Some (me, u)"
  shows "\<exists>s'. rep_write (h, j) v me s = Inr s' \<and> coh load K (H(i \<mapsto> (me, v))) s' \<and> quiet s s'"
proof -
  let ?f = "\<lambda>e. entry_dirty (e\<lparr>e_data := v\<rparr>)"
  have i: "oid_valid i" using p by (simp add: holds_def)
  from change_fcopy [OF cohD(1) [OF c] p, of ?f] obtain s' where s': "change_entry me h j ?f s = Inr s'" "co_shape s'" "saved s' = saved s" "quiet s s'"
    "entry_of_dir s' = entry_of_dir s" "\<And>vp x. fcopy s' vp x = (if vp = me \<and> x = i then Some (facts (?f (copies s h me ! j))) else fcopy s vp x)"
    by auto
  have "obj_ok (load (saved s') x) (K x) ((H(i \<mapsto> (me, v))) x) (\<lambda>vp. fcopy s' vp x) (entry_of_dir s' x)" if x: "oid_valid x" for x
  proof (cases "x = i")
    case True
    let ?b = "busy (copies s h me ! j)"
    have "(\<lambda>vp. fcopy s' vp i) = (\<lambda>vp. fcopy s vp i)(me \<mapsto> (?b, True, v))" by (auto simp: s'(6) facts_def)
    moreover have "obj_ok (load (saved s) i) (K i) (Some (me, v)) ((\<lambda>vp. fcopy s vp i)(me \<mapsto> (?b, True, v))) (entry_of_dir s i)"
      using obj_write [OF cohD(2) [OF c i, unfolded u] held_copy(1) [OF c p]] .
    ultimately show ?thesis using True s'(3,5) by simp
  next
    case False
    then show ?thesis using cohD(2) [OF c x] s'(3,5,6) by simp
  qed
  then show ?thesis using s'(1,2,4) by (auto simp: coh_def rep_write_def)
qed

lemma putback_coh:
  assumes c: "coh load K H s" and p: "holds s me h j i" and u: "H i = Some (me, u)" and me: "me < numproc s"
  shows "\<exists>s'. rep_putback mk (Some (h, j)) flag me s = Inr (0, s') \<and> coh load (K(i := u)) (H(i := None)) s' \<and> quiet s s'"
proof -
  note s = cohD(1) [OF c]
  have h: "oid_valid i" "h = ix s i" "made s me h" "j < co_associativity s" "e_id (copies s h me ! j) = i" using p by (auto simp: holds_def)
  have hl: "h < co_numhashqs s" using ix_less [OF s] h by simp
  have m31: "me < 31" using me co_shapeD(2) [OF s] by simp
  from h(3) obtain r es where r: "reps s me = Some r" "hq_entries (r_hashqs r ! h) = Some es" unfolding made_def by blast
  have fc: "fcopy s me i \<noteq> None" using held_copy(1) [OF c p] by simp
  from obj_okD(1) [OF cohD(2) [OF c h(1)], of me] fc obtain d where d: "entry_of_dir s i = Some d" by auto
  from entry_listed [OF s d] obtain k where k: "listed s i k d" by blast
  have lv: "reps s (line_vp s h) \<noteq> None" using k h(2) by (simp add: listed_def)
  let ?t = "\<lambda>e. e\<lparr>e_lastused := if flag = KEEP then hq_count (r_hashqs r ! h) else 0\<rparr>"
  from change_fcopy [OF cohD(1) [OF c] p, of ?t] obtain s1 where s1: "change_entry me h j ?t s = Inr s1" "co_shape s1" "saved s1 = saved s" "quiet s s1"
    "entry_of_dir s1 = entry_of_dir s" "holds s1 me h j i" "listed s1 i k d"
    "\<And>vp x. fcopy s1 vp x = (if vp = me \<and> x = i then Some (facts (?t (copies s h me ! j))) else fcopy s vp x)"
    using k by auto
  have fc1: "fcopy s1 = fcopy s" using s1(8) holds_copy [OF s p] by (auto simp: fun_eq_iff facts_def fcopy_def)
  have c1: "coh load K H s1" using c s1(2,3,5) fc1 by (simp add: coh_def)
  have x1: "exact s1 i d" using coh_exact [OF c1 h(1)] d s1(5) by simp
  note fr = co_frameD [OF conjunct1 [OF s1(4) [unfolded quiet_def]]]
  have h1: "h < co_numhashqs s1" "h = ix s1 i" "reps s1 (line_vp s1 h) \<noteq> None" using hl h(2) fr(2,6) s1(7) by (simp_all add: listed_def)
  have data: "e_data (copies s1 h me ! j) = u" using held_copy(2) [OF c1 s1(6)] u by (simp add: seen_def)
  let ?f = "\<lambda>e. clear_busy (e\<lparr>e_data := u\<rparr>)"
  from update_views [OF s1(2,6,7) x1 m31] obtain s2 where s2: "updateandclearbusyonallcopiesindir me h k h j s1 = Inr s2" "upd_rel s1 s2"
    "copies s2 = map_copies s1 i ?f" "entry_of_dir s2 = (entry_of_dir s1)(i \<mapsto> d_clearbusy d)" unfolding data by blast
  note r2 = upd_relD [OF s2(2)]
  have cp2: "copy s2 = (\<lambda>vp x. if x = i then map_option ?f (copy s1 vp i) else copy s1 vp x)"
    by (rule map_copies_copy [OF s2(3) r2(8)]) simp
  have fi: "(\<lambda>vp. fcopy s2 vp i) = (\<lambda>vp. put_all u (fcopy s1 vp i))"
    by (auto simp: fcopy_def cp2 put_all_def facts_def option.map_comp o_def)
  have fo: "fcopy s2 vp x = fcopy s1 vp x" if "x \<noteq> i" for vp x using that by (simp add: fcopy_def cp2)
  have "obj_ok (load (saved s2) x) ((K(i := u)) x) ((H(i := None)) x) (\<lambda>vp. fcopy s2 vp x) (entry_of_dir s2 x)" if x: "oid_valid x" for x
  proof (cases "x = i")
    case True
    have "obj_ok (load (saved s1) i) (K i) (Some (me, u)) (\<lambda>vp. fcopy s1 vp i) (Some d)"
      using cohD(2) [OF c1 h(1)] u d s1(5) by simp
    from obj_put [OF this] show ?thesis using True fi s2(4) r2(3) by simp
  next
    case False
    then show ?thesis using cohD(2) [OF c1 x] fo s2(4) r2(3) by simp
  qed
  then have "coh load (K(i := u)) (H(i := None)) s2" using r2(1) by (simp add: coh_def)
  moreover have "quiet s1 s2" using r2(2,4) by (simp add: quiet_def ids_kept_def s2(3) map_copies_def del: map_map)
  then have "quiet s s2" by (rule quiet_trans [OF s1(4)])
  moreover have "rep_putback mk (Some (h, j)) flag me s = Inr (0, s2)"
  proof -
    have "oid_index i (co_numhashqs s) = Inr h" using co_shapeD(3) [OF s] h(2) by (simp add: oid_index_def ix_def)
    moreover have "lookupid i (dirl s1 h) 0 = Some k" using listed_lookup [OF s1(2,7)] h1(2) by simp
    ultimately show ?thesis
      using entries_on_eq [OF s hl h(3)] slots_okD(1) [OF s hl, of me] h(4,5) queue_on_eq [OF s hl r(1)] r(2) finddirline_there [OF s hl lv]
        s1(1) dirline_eq [OF s1(2) h1(1,3)] s2(1)
      by (simp add: rep_putback_def arr_get_def lrt_assert_def)
  qed
  ultimately show ?thesis by blast
qed

subsection \<open>flush\<close>

lemma flush_loop_eq:
  assumes "stores load"
  shows "keys_distinct e_id es \<Longrightarrow> fst (flush_loop es l) = map flushed es \<and>
    (\<forall>x. load (snd (flush_loop es l)) x =
       (case find_key e_id es x of None \<Rightarrow> load l x | Some e \<Rightarrow> if \<not> busy e \<and> dirty e then e_data e else load l x))"
proof (induction es l rule: flush_loop.induct)
  case (1 es l)
  show ?case
  proof (cases "first_dirty es 0")
    case None
    then have no: "\<not> (\<not> busy e \<and> oid_valid (e_id e) \<and> dirty e)" if "e \<in> set es" for e using that by (auto simp: first_dirty_None)
    then have "map flushed es = es" by (intro map_idI) (auto simp: flushed_def)
    moreover have "\<not> (\<not> busy e \<and> dirty e)" if "find_key e_id es x = Some e" for x e
      using that no [of e] by (auto simp: find_key_Some [OF 1(2)])
    ultimately show ?thesis using None by (auto simp: flush_loop.simps [of es l] split: option.splits)
  next
    case (Some j)
    then have j: "j < length es" "\<not> busy (es ! j)" "oid_valid (e_id (es ! j))" "dirty (es ! j)" using first_dirty_Some [OF Some] by simp_all
    let ?e = "es ! j" and ?es = "es[j := save_entry (es ! j)]" and ?l = "(e_id (es ! j), e_data (es ! j)) # l"
    have k: "e_id (save_entry ?e) = e_id ?e" by simp
    note u = find_key_same [OF 1(2) j(1) k]
    have fl: "flushed ?e = save_entry ?e" using j by (simp add: flushed_def)
    note ih = 1(1) [OF Some u(1)]
    have "map flushed ?es = (map flushed es)[j := flushed ?e]" by (simp add: map_update fl)
    then have "map flushed ?es = map flushed es" using j(1) by (simp add: list_update_same_conv)
    moreover have "load (snd (flush_loop ?es ?l)) x =
       (case find_key e_id es x of None \<Rightarrow> load l x | Some e \<Rightarrow> if \<not> busy e \<and> dirty e then e_data e else load l x)" for x
    proof (cases "x = e_id ?e")
      case True
      have ld: "load ?l x = e_data ?e" using assms True by (simp add: stores_def)
      have "find_key e_id ?es x = Some (save_entry ?e)" using u(2) j(3) True by simp
      then have "load (snd (flush_loop ?es ?l)) x = e_data ?e" using ih ld by simp
      moreover have "find_key e_id es x = Some ?e" using find_key_nth [OF 1(2) j(1,3)] True by simp
      ultimately show ?thesis using j by simp
    next
      case False
      have "load ?l x = load l x" using assms False by (simp add: stores_def)
      moreover have "find_key e_id ?es x = find_key e_id es x" using u(2) False by auto
      ultimately show ?thesis using ih by (simp cong: option.case_cong if_cong)
    qed
    ultimately show ?thesis using ih Some by (simp add: flush_loop.simps [of es l])
  qed
qed

lemma flush_queue_coh:
  assumes c: "coh load K H s" and st: "stores load" and h: "h < co_numhashqs s" and m: "made s me h"
  defines "s1 \<equiv> (set_entries me h (fst (flush_loop (copies s h me) (saved s))) s)\<lparr>saved := snd (flush_loop (copies s h me) (saved s))\<rparr>"
  shows "coh load K H s1" "quiet s s1"
proof -
  note s = cohD(1) [OF c]
  let ?es = "copies s h me" and ?s = "set_entries me h (map flushed (copies s h me)) s"
  have d: "keys_distinct e_id ?es" using slots_okD [OF s h] by simp
  note fl = flush_loop_eq [OF st d, of "saved s"]
  have e1: "s1 = ?s\<lparr>saved := snd (flush_loop ?es (saved s))\<rparr>" using fl by (simp add: s1_def)
  have kf: "keeps_entry flushed" by simp
  have inv: "\<not> oid_valid (e_id e) \<Longrightarrow> flushed e = e" for e by (simp add: flushed_def)
  have ok: "slots_ok (co_associativity s) (co_numhashqs s) h (map flushed ?es)"
    using co_shapeD(7) [OF s h, of me] keys_distinct_map [of e_id flushed] kf inv
    by (auto simp: slots_ok_def keeps_entry_def)
  note v = set_entries_views [OF s h m ok]
  have ids: "ids_kept s s1 UNIV" by (simp add: ids_kept_def e1 v(6) o_def)
  show "quiet s s1" using v(2,5) ids by (simp add: quiet_def e1)
  have ixs: "ix s1 = ix s" using co_frameD(6) [OF v(2)] by (simp add: e1 fun_eq_iff)
  have cp: "copy s1 vp x = (if vp = me \<and> ix s x = h then map_option flushed (copy s vp x) else copy s vp x)" for vp x
    using find_key_map [of e_id flushed ?es x] ixs by (simp add: copy_def e1 v(6))
  have dr: "entry_of_dir s1 = entry_of_dir s" using v(4) ixs by (simp add: entry_of_dir_def e1 fun_eq_iff)
  have ld: "load (saved s1) x = (case if ix s x = h then copy s me x else None of None \<Rightarrow> load (saved s) x
      | Some e \<Rightarrow> if \<not> busy e \<and> dirty e then e_data e else load (saved s) x)" if "oid_valid x" for x
  proof (cases "ix s x = h")
    case True
    then show ?thesis using fl by (simp add: e1 copy_def)
  next
    case False
    have "find_key e_id ?es x = None"
      using False slots_at(2) [OF s h, of _ me] slots_okD(1) [OF s h, of me] that
      by (auto simp: find_key_None in_set_conv_nth)
    then show ?thesis using False fl by (simp add: e1)
  qed
  have "obj_ok (load (saved s1) x) (K x) (H x) (\<lambda>vp. fcopy s1 vp x) (entry_of_dir s1 x)" if x: "oid_valid x" for x
  proof -
    consider e where "ix s x = h" "copy s me x = Some e" "\<not> busy e" "dirty e"
      | "\<And>e. ix s x = h \<Longrightarrow> copy s me x = Some e \<Longrightarrow> busy e \<or> \<not> dirty e" by blast
    then show ?thesis
    proof cases
      case 1
      have fc: "fcopy s me x = Some (False, True, e_data e)" using 1 by (simp add: fcopy_def facts_def)
      have "H x = None" using obj_okD(4) [OF cohD(2) [OF c x] fc] by (cases "H x") simp_all
      from obj_flush [OF cohD(2) [OF c x, unfolded this] fc] this
      have o: "obj_ok (e_data e) (K x) (H x) ((\<lambda>vp. fcopy s vp x)(me \<mapsto> (False, False, e_data e))) (entry_of_dir s x)" by simp
      have "flushed e = save_entry e" using 1 copy_id [OF 1(2)] by (simp add: flushed_def)
      then have "(\<lambda>vp. fcopy s1 vp x) = (\<lambda>vp. fcopy s vp x)(me \<mapsto> (False, False, e_data e))"
        using 1 by (auto simp: fcopy_def cp facts_def)
      moreover have "load (saved s1) x = e_data e" using ld [OF x] 1 by simp
      ultimately show ?thesis using o dr by simp
    next
      case 2
      have "fcopy s1 vp x = fcopy s vp x" for vp
        using 2 by (cases "copy s vp x") (auto simp: fcopy_def cp flushed_def)
      moreover have "load (saved s1) x = load (saved s) x" using ld [OF x] 2 by (auto split: option.splits)
      ultimately show ?thesis using cohD(2) [OF c x] dr by simp
    qed
  qed
  then show "coh load K H s1" using v(1) by (simp add: coh_def e1)
qed

lemma flush_queues_coh:
  "coh load K H s \<Longrightarrow> stores load \<Longrightarrow> reps s me \<noteq> None \<Longrightarrow> \<forall>h \<in> set hs. h < co_numhashqs s \<Longrightarrow>
   \<exists>s'. flush_queues me hs s = Inr s' \<and> coh load K H s' \<and> quiet s s'"
proof (induction hs arbitrary: s)
  case Nil
  then show ?case by (simp add: quiet_def ids_kept_def)
next
  case (Cons h hs)
  note s = cohD(1) [OF Cons.prems(1)]
  have h: "h < co_numhashqs s" using Cons.prems(4) by simp
  from Cons.prems(3) obtain r where r: "reps s me = Some r" by blast
  note q = queue_on_eq [OF s h r]
  show ?case
  proof (cases "hq_entries (r_hashqs r ! h)")
    case None
    then show ?thesis using Cons.IH [OF Cons.prems(1-3)] Cons.prems(4) q by simp
  next
    case (Some es)
    then have m: "made s me h" and es: "copies s h me = es" using r by (auto simp: made_def copies_def)
    let ?s1 = "(set_entries me h (fst (flush_loop es (saved s))) s)\<lparr>saved := snd (flush_loop es (saved s))\<rparr>"
    note f = flush_queue_coh [OF Cons.prems(1,2) h m, unfolded es]
    have fr: "co_frame s ?s1" using f(2) by (simp add: quiet_def)
    have "reps ?s1 me \<noteq> None" using co_frameD(4) [OF fr Cons.prems(3)] .
    moreover have "\<forall>x \<in> set hs. x < co_numhashqs ?s1" using Cons.prems(4) co_frameD(2) [OF fr] by simp
    ultimately obtain s' where s': "flush_queues me hs ?s1 = Inr s'" "coh load K H s'" "quiet ?s1 s'"
      using Cons.IH [OF f(1) Cons.prems(2)] by blast
    have "flush_queues me (h # hs) s = Inr s'" using q Some s'(1) by (simp add: case_prod_unfold Let_def)
    then show ?thesis using s'(2) quiet_trans [OF f(2) s'(3)] by blast
  qed
qed

lemma flush_coh:
  "coh load K H s \<Longrightarrow> stores load \<Longrightarrow> reps s me \<noteq> None \<Longrightarrow> \<exists>s'. rep_flush me s = Inr (0, s') \<and> coh load K H s' \<and> quiet s s'"
  using flush_queues_coh [of load K H s me "[0..<co_numhashqs s]"] by (auto simp: rep_flush_def)

end
