(* ===== verification/SsacRepTrace.thy ===== *)
theory SsacRepTrace
  imports SsacRepRun
begin

text \<open>
  Threads that use the replicated cache, one per processor, as the workers of \<open>SSACtest.C\<close> do: a
  thread asks for an object, waits and tries again while a writer holds it, reads its copy as often as
  it likes, or writes its copy and puts it back. A run is any list of their steps.
\<close>

subsection \<open>Threads\<close>

text \<open>
  Between calls; waiting at \<open>again1\<close> or \<open>again2\<close>; with entry \<open>j\<close> of queue \<open>h\<close> as a copy of \<open>i\<close> for
  reading, or for writing. A thread that reads just goes on: it does not put its copy back.
\<close>

datatype worker = Idle | Retry1 gettype nat u32 | Retry2 "nat option" gettype nat u32 | Reading nat nat u32 | Updating nat nat u32

datatype command = Begin gettype u32 | Retry | ReadData | WriteData u64 | PutBack putflag | Flush

text \<open>What a step shows: the value taken for writing, read or written, and that it is put back.\<close>

datatype shown = Took nat u32 u64 | Looked nat u32 u64 | Wrote nat u32 u64 | Released nat u32

definition data_at :: "ssac_co \<Rightarrow> nat \<Rightarrow> nat \<Rightarrow> nat \<Rightarrow> u64 res" where
  "data_at s p h j = rbind (entries_on s p h) (\<lambda>es. rbind (arr_get es j) (\<lambda>e. Inr (e_data e)))"

definition after_pass :: "nat \<Rightarrow> gettype \<Rightarrow> nat \<Rightarrow> u32 \<Rightarrow> (nat \<Rightarrow> worker) \<Rightarrow> rgot \<Rightarrow> ssac_co \<Rightarrow> (shown list \<times> ssac_co \<times> (nat \<Rightarrow> worker)) res" where
  "after_pass p ty h i ws g s =
     (case g of
        Again1 \<Rightarrow> Inr ([], s, ws(p := Retry1 ty h i))
      | Again2 k \<Rightarrow> Inr ([], s, ws(p := Retry2 k ty h i))
      | RNoFree \<Rightarrow> Inr ([], s, ws(p := Idle))
      | RGot j \<Rightarrow>
          if ty = GETFORWRITE
          then rbind (data_at s p h j) (\<lambda>v. Inr ([Took p i v], s, ws(p := Updating h j i)))
          else Inr ([], s, ws(p := Reading h j i)))"

text \<open>A call through the reference of the object makes the representative of its processor.\<close>

definition call_rep :: "(nat \<Rightarrow> ssac_co \<Rightarrow> ssac_co) \<Rightarrow> nat \<Rightarrow> ssac_co \<Rightarrow> ssac_co" where
  "call_rep mk p s = (if reps s p = None then mk p s else s)"

definition co_act ::
    "(nat \<Rightarrow> ssac_co \<Rightarrow> ssac_co) \<Rightarrow> ((u32 \<times> u64) list \<Rightarrow> u32 \<Rightarrow> u64) \<Rightarrow> nat \<Rightarrow> command \<Rightarrow> ssac_co \<Rightarrow> (nat \<Rightarrow> worker) \<Rightarrow>
     (shown list \<times> ssac_co \<times> (nat \<Rightarrow> worker)) res" where
  "co_act mk load p c s ws =
     (case c of
        Begin ty i \<Rightarrow>
          if (case ws p of Idle \<Rightarrow> True | Reading h j x \<Rightarrow> True | _ \<Rightarrow> False) then
            rbind (rep_enter mk i ty p (call_rep mk p s)) (\<lambda>(h, s).
            rbind (rep_first mk load i ty p h s) (\<lambda>(g, s). after_pass p ty h i ws g s))
          else Inr ([], s, ws)
      | Retry \<Rightarrow>
          (case ws p of
             Retry1 ty h i \<Rightarrow> rbind (rep_first mk load i ty p h s) (\<lambda>(g, s). after_pass p ty h i ws g s)
           | Retry2 k ty h i \<Rightarrow> rbind (rep_second mk load k i ty p h s) (\<lambda>(g, s). after_pass p ty h i ws g s)
           | _ \<Rightarrow> Inr ([], s, ws))
      | ReadData \<Rightarrow>
          (case ws p of
             Reading h j i \<Rightarrow> rbind (data_at s p h j) (\<lambda>v. Inr ([Looked p i v], s, ws))
           | _ \<Rightarrow> Inr ([], s, ws))
      | WriteData v \<Rightarrow>
          (case ws p of
             Updating h j i \<Rightarrow> rbind (rep_write (h, j) v p s) (\<lambda>s. Inr ([Wrote p i v], s, ws))
           | _ \<Rightarrow> Inr ([], s, ws))
      | PutBack f \<Rightarrow>
          (case ws p of
             Updating h j i \<Rightarrow> rbind (rep_putback mk (Some (h, j)) f p s) (\<lambda>(_, s). Inr ([Released p i], s, ws(p := Idle)))
           | _ \<Rightarrow> Inr ([], s, ws))
      | Flush \<Rightarrow>
          if (case ws p of Idle \<Rightarrow> True | Reading h j x \<Rightarrow> True | _ \<Rightarrow> False) then
            rbind (rep_flush p (call_rep mk p s)) (\<lambda>(_, s). Inr ([], s, ws))
          else Inr ([], s, ws))"

fun co_run ::
    "(nat \<Rightarrow> ssac_co \<Rightarrow> ssac_co) \<Rightarrow> ((u32 \<times> u64) list \<Rightarrow> u32 \<Rightarrow> u64) \<Rightarrow> (nat \<times> command) list \<Rightarrow> ssac_co \<Rightarrow> (nat \<Rightarrow> worker) \<Rightarrow>
     (shown list \<times> ssac_co \<times> (nat \<Rightarrow> worker)) res" where
  "co_run mk load [] s ws = Inr ([], s, ws)"
| "co_run mk load ((p, c) # cs) s ws =
     rbind (co_act mk load p c s ws) (\<lambda>(t, s, ws).
     rbind (co_run mk load cs s ws) (\<lambda>(t', s, ws). Inr (t @ t', s, ws)))"

definition co_create :: "nat \<Rightarrow> nat \<Rightarrow> nat \<Rightarrow> ssac_co" where
  "co_create np numq assoc = \<lparr>numproc = np, co_numhashqs = numq, co_associativity = assoc, reps = (\<lambda>_. None), saved = []\<rparr>"

subsection \<open>Specification\<close>

text \<open>
  One memory: a value for each object, and perhaps a writer of it, with the value it has made. A
  reader sees the value last put back.
\<close>

fun mem_step :: "shown \<Rightarrow> (u32 \<Rightarrow> u64) \<times> (u32 \<Rightarrow> (nat \<times> u64) option) \<Rightarrow> ((u32 \<Rightarrow> u64) \<times> (u32 \<Rightarrow> (nat \<times> u64) option)) option" where
  "mem_step (Took p i v) (K, H) = (if H i = None \<and> v = K i then Some (K, H(i \<mapsto> (p, v))) else None)"
| "mem_step (Looked p i v) (K, H) = (if v = K i then Some (K, H) else None)"
| "mem_step (Wrote p i v) (K, H) =
     (case H i of Some (q, u) \<Rightarrow> if q = p then Some (K, H(i \<mapsto> (p, v))) else None | None \<Rightarrow> None)"
| "mem_step (Released p i) (K, H) =
     (case H i of Some (q, u) \<Rightarrow> if q = p then Some (K(i := u), H(i := None)) else None | None \<Rightarrow> None)"

fun mem_run :: "shown list \<Rightarrow> (u32 \<Rightarrow> u64) \<times> (u32 \<Rightarrow> (nat \<times> u64) option) \<Rightarrow> ((u32 \<Rightarrow> u64) \<times> (u32 \<Rightarrow> (nat \<times> u64) option)) option" where
  "mem_run [] m = Some m"
| "mem_run (l # ls) m = (case mem_step l m of None \<Rightarrow> None | Some m \<Rightarrow> mem_run ls m)"

lemma mem_run_append: "mem_run (t @ t') m = (case mem_run t m of None \<Rightarrow> None | Some m \<Rightarrow> mem_run t' m)"
  by (induction t arbitrary: m) (auto split: option.splits)

subsection \<open>Invariant\<close>

fun worker_ok :: "ssac_co \<Rightarrow> nat \<Rightarrow> worker \<Rightarrow> bool" where
  "worker_ok s p Idle \<longleftrightarrow> True"
| "worker_ok s p (Retry1 ty h i) \<longleftrightarrow> oid_valid i \<and> h = ix s i \<and> made s p h \<and> (ty = GETFORWRITE \<longrightarrow> reps s (line_vp s h) \<noteq> None)"
| "worker_ok s p (Retry2 k ty h i) \<longleftrightarrow> oid_valid i \<and> h = ix s i \<and> made s p h \<and> reps s (line_vp s h) \<noteq> None \<and> copy s p i = None"
| "worker_ok s p (Reading h j i) \<longleftrightarrow> holds s p h j i"
| "worker_ok s p (Updating h j i) \<longleftrightarrow> holds s p h j i"

definition writers_ok :: "(u32 \<Rightarrow> (nat \<times> u64) option) \<Rightarrow> (nat \<Rightarrow> worker) \<Rightarrow> bool" where
  "writers_ok H ws \<longleftrightarrow> (\<forall>i p. (\<exists>u. H i = Some (p, u)) \<longleftrightarrow> (\<exists>h j. ws p = Updating h j i))"

definition run_inv ::
    "nat \<Rightarrow> ((u32 \<times> u64) list \<Rightarrow> u32 \<Rightarrow> u64) \<Rightarrow> nat \<Rightarrow> (u32 \<Rightarrow> u64) \<Rightarrow> (u32 \<Rightarrow> (nat \<times> u64) option) \<Rightarrow> ssac_co \<Rightarrow> (nat \<Rightarrow> worker) \<Rightarrow> bool" where
  "run_inv np load N K H s ws \<longleftrightarrow> numproc s = np \<and> coh load K H s \<and> (\<forall>p. worker_ok s p (ws p)) \<and> writers_ok H ws \<and> (\<forall>p. \<forall>h < co_numhashqs s. unat (qcount s p h) \<le> N)"

lemma copy_None_iff: "oid_valid i \<Longrightarrow> copy s p i = None \<longleftrightarrow> i \<notin> e_id ` set (copies s (ix s i) p)"
  by (auto simp: copy_def find_key_None)

lemma copy_ids:
  assumes "co_frame s s'" "\<forall>h. map e_id (copies s' h p) = map e_id (copies s h p)" "oid_valid i" "copy s p i = None"
  shows "copy s' p i = None"
proof -
  have "e_id ` set (copies s' h p) = e_id ` set (copies s h p)" for h using assms(2) by (metis list.set_map)
  then show ?thesis using assms(4) co_frameD(6) [OF assms(1), of i] by (simp only: copy_None_iff [OF assms(3)]) simp
qed

lemma worker_frame:
  assumes "worker_ok s p w" "co_frame s s'" "\<forall>h. map e_id (copies s' h p) = map e_id (copies s h p)" "co_shape s" "co_shape s'"
  shows "worker_ok s' p w"
  using assms(1) co_frameD [OF assms(2)] copy_ids [OF assms(2,3)] holds_upd [OF _ assms(2) _ assms(4,5)] assms(3)
  by (cases w) auto

lemma views_frame:
  assumes "same_views s s'" "co_shape s" "worker_ok s p w"
  shows "worker_ok s' p w"
proof -
  note fr = co_frameD [OF same_viewsD(2) [OF assms(1)]]
  have h: "holds s' p h j i" if "holds s p h j i" for h j i
    using that fr ix_less [OF assms(2), of i] same_viewsD(5) [OF assms(1)] by (auto simp: holds_def)
  show ?thesis using assms(3) fr h same_views_maps(1) [OF assms(1,2)] by (cases w) auto
qed

lemma data_at_eq:
  assumes "coh load K H s" "holds s p h j i"
  shows "data_at s p h j = Inr (seen (H i) (K i) p)"
proof -
  have h: "h < co_numhashqs s" "made s p h" "j < co_associativity s" using assms(2) ix_less [OF cohD(1) [OF assms(1)]] by (auto simp: holds_def)
  then show ?thesis using entries_on_eq [OF cohD(1) [OF assms(1)] h(1,2)] slots_okD(1) [OF cohD(1) [OF assms(1)] h(1)] held_copy(2) [OF assms]
    by (simp add: data_at_def arr_get_def)
qed

subsection \<open>Every step\<close>

lemma run_invD:
  assumes "run_inv np load N K H s ws"
  shows "coh load K H s" "co_shape s" "worker_ok s p (ws p)" "writers_ok H ws" "h < co_numhashqs s \<Longrightarrow> unat (qcount s p h) \<le> N"
    "numproc s = np"
  using assms cohD(1) by (auto simp: run_inv_def)

lemma run_inv_views:
  assumes "run_inv np load N K H s ws" "same_views s s'"
  shows "run_inv np load N K H s' ws"
  using run_invD [OF assms(1)] coh_same [OF _ assms(2)] views_frame [OF assms(2)] same_viewsD(6) [OF assms(2)]
    co_frameD(1,2) [OF same_viewsD(2) [OF assms(2)]]
  by (simp add: run_inv_def)

lemma run_inv_quiet:
  assumes r: "run_inv np load N K H s ws" and c: "coh load K' H' s'" and q: "quiet s s'" and w: "worker_ok s' p w" and H: "writers_ok H' (ws(p := w))"
  shows "run_inv np load (N + 1) K' H' s' (ws(p := w))"
proof -
  have fr: "co_frame s s'" "\<forall>h. map e_id (copies s' h x) = map e_id (copies s h x)" for x using q by (simp_all add: quiet_def ids_kept_def)
  have "worker_ok s' x ((ws(p := w)) x)" for x
    using w worker_frame [OF run_invD(3) [OF r, of x] fr run_invD(2) [OF r] cohD(1) [OF c]] by simp
  moreover have "unat (qcount s' x h) \<le> N + 1" if "h < co_numhashqs s'" for x h
    using run_invD(5) [OF r, of h x] that q co_frameD(2) [OF fr(1)] by (simp add: quiet_def)
  ultimately show ?thesis using c H co_frameD(1) [OF fr(1)] run_invD(6) [OF r] by (simp add: run_inv_def)
qed

lemma quiet_refl: "quiet s s"
  by (simp add: quiet_def ids_kept_def)

lemma run_inv_same: "run_inv np load N K H s ws \<Longrightarrow> worker_ok s p w \<Longrightarrow> writers_ok H (ws(p := w)) \<Longrightarrow> run_inv np load (N + 1) K H s (ws(p := w))"
  by (blast intro: run_inv_quiet run_invD(1) quiet_refl)

definition updating :: "worker \<Rightarrow> bool" where "updating w \<longleftrightarrow> (\<exists>h j i. w = Updating h j i)"

lemma writers_other:
  assumes "writers_ok H ws" "\<not> updating (ws p)" "\<not> updating w"
  shows "writers_ok H (ws(p := w))"
  using assms by (auto simp: writers_ok_def updating_def)

lemma writers_none: "writers_ok H ws \<Longrightarrow> \<not> updating (ws p) \<Longrightarrow> H i \<noteq> Some (p, u)"
  unfolding writers_ok_def updating_def by blast

lemma writers_take:
  assumes "writers_ok H ws" "\<not> updating (ws p)" "H i = None"
  shows "writers_ok (H(i \<mapsto> (p, v))) (ws(p := Updating h j i))"
  unfolding writers_ok_def
proof (intro allI)
  fix x q
  have no: "H x \<noteq> Some (p, u)" for u by (rule writers_none [OF assms(1,2)])
  have old: "(\<exists>u. H x = Some (q, u)) \<longleftrightarrow> (\<exists>h j. ws q = Updating h j x)" using assms(1) by (simp add: writers_ok_def)
  show "(\<exists>u. (H(i \<mapsto> (p, v))) x = Some (q, u)) \<longleftrightarrow> (\<exists>h' j'. (ws(p := Updating h j i)) q = Updating h' j' x)"
  proof (cases "x = i")
    case True
    then show ?thesis using old assms(3) by (cases "q = p") auto
  next
    case False
    then show ?thesis using old no by (cases "q = p") auto
  qed
qed

lemma writers_write:
  assumes "writers_ok H ws" "H i = Some (p, u)"
  shows "writers_ok (H(i \<mapsto> (p, v))) ws"
proof -
  have "(\<exists>w. (H(i \<mapsto> (p, v))) x = Some (q, w)) = (\<exists>w. H x = Some (q, w))" for x q using assms(2) by (cases "x = i") auto
  then show ?thesis using assms(1) unfolding writers_ok_def by metis
qed

lemma writers_release:
  assumes "writers_ok H ws" "H i = Some (p, u)" "ws p = Updating h j i"
  shows "writers_ok (H(i := None)) (ws(p := Idle))"
  unfolding writers_ok_def
proof (intro allI)
  fix x q
  have old: "(\<exists>u. H x = Some (q, u)) \<longleftrightarrow> (\<exists>h j. ws q = Updating h j x)" using assms(1) by (simp add: writers_ok_def)
  show "(\<exists>u. (H(i := None)) x = Some (q, u)) \<longleftrightarrow> (\<exists>h' j'. (ws(p := Idle)) q = Updating h' j' x)"
  proof (cases "x = i")
    case True
    then show ?thesis using old assms(2) by (cases "q = p") auto
  next
    case False
    then show ?thesis using old assms(3) by (cases "q = p") auto
  qed
qed

text \<open>What a step promises.\<close>

definition good_step ::
    "nat \<Rightarrow> ((u32 \<times> u64) list \<Rightarrow> u32 \<Rightarrow> u64) \<Rightarrow> nat \<Rightarrow> (u32 \<Rightarrow> u64) \<Rightarrow> (u32 \<Rightarrow> (nat \<times> u64) option) \<Rightarrow> (shown list \<times> ssac_co \<times> (nat \<Rightarrow> worker)) res \<Rightarrow> bool" where
  "good_step np load N K H r \<longleftrightarrow>
     (\<exists>t s' ws' K' H'. r = Inr (t, s', ws') \<and> mem_run t (K, H) = Some (K', H') \<and> run_inv np load (N + 1) K' H' s' ws')"

lemma good_stepI: "r = Inr (t, s', ws') \<Longrightarrow> mem_run t (K, H) = Some (K', H') \<Longrightarrow> run_inv np load (N + 1) K' H' s' ws' \<Longrightarrow> good_step np load N K H r"
  by (auto simp: good_step_def)

lemma run_inv_Suc: "run_inv np load N K H s ws \<Longrightarrow> run_inv np load (N + 1) K H s ws"
  by (auto simp: run_inv_def intro: le_SucI)

lemma good_idle:
  assumes r: "run_inv np load N K H s ws" and u: "\<not> updating (ws p)" "\<not> updating w" and w: "worker_ok s p w"
  shows "good_step np load N K H (Inr ([], s, ws(p := w)))"
  by (rule good_stepI [OF refl _ run_inv_same [OF r w writers_other [OF run_invD(4) [OF r] u]]]) simp

lemma after_soft:
  assumes r: "run_inv np load N K H s ws" "\<not> updating (ws p)"
    and g: "case g of RGot j \<Rightarrow> False | Again1 \<Rightarrow> worker_ok s p (Retry1 ty h i) | Again2 k \<Rightarrow> worker_ok s p (Retry2 k ty h i) | RNoFree \<Rightarrow> True"
  shows "good_step np load N K H (after_pass p ty h i ws g s)"
proof -
  have "\<not> updating (Retry1 ty h i)" "\<not> updating (Retry2 k ty h i)" "\<not> updating Idle" for k by (simp_all add: updating_def)
  note x = good_idle [OF r this(1)] good_idle [OF r this(2)] good_idle [OF r this(3)]
  show ?thesis
  proof (cases g)
    case Again1
    show ?thesis using x(1) g unfolding after_pass_def Again1 by (simp only: rgot.case)
  next
    case (Again2 k)
    show ?thesis using x(2) g unfolding after_pass_def Again2 by (simp only: rgot.case)
  next
    case RNoFree
    show ?thesis using x(3) unfolding after_pass_def RNoFree by (simp only: rgot.case worker_ok.simps)
  qed (use g in simp)
qed

lemma after_got:
  assumes r: "run_inv np load N K H s ws" and nu: "\<not> updating (ws p)" and g: "got_copy load K H ty i p h j s s'"
    and cnt: "qcount s p h + 1 \<noteq> 0" "h < co_numhashqs s"
  shows "good_step np load N K H (after_pass p ty h i ws (RGot j) s')"
proof -
  let ?H = "if ty = GETFORWRITE then H(i \<mapsto> (p, K i)) else H"
  let ?w = "if ty = GETFORWRITE then Updating h j i else Reading h j i"
  have g': "H i = None" "coh load K ?H s'" "co_frame s s'" "ids_kept s s' (- {p})" "holds s' p h j i"
    "qcount s' = (\<lambda>vp h'. if vp = p \<and> h' = h then qcount s p h + 1 else qcount s vp h')" using g by (auto simp: got_copy_def)
  have inv: "run_inv np load (N + 1) K ?H s' (ws(p := ?w))"
    unfolding run_inv_def
  proof (intro conjI allI impI)
    show "numproc s' = np" using co_frameD(1) [OF g'(3)] run_invD(6) [OF r] by simp
    show "coh load K ?H s'" by (rule g'(2))
    fix x show "worker_ok s' x ((ws(p := ?w)) x)"
    proof (cases "x = p")
      case False
      then have "\<forall>h. map e_id (copies s' h x) = map e_id (copies s h x)" using g'(4) by (simp add: ids_kept_def)
      from worker_frame [OF run_invD(3) [OF r, of x] g'(3) this run_invD(2) [OF r] cohD(1) [OF g'(2)]] False show ?thesis by simp
    qed (use g'(5) in simp)
  next
    show "writers_ok ?H (ws(p := ?w))"
      using writers_take [OF run_invD(4) [OF r] nu g'(1), of "K i" h j] writers_other [OF run_invD(4) [OF r] nu, of "Reading h j i"]
      by (auto simp: updating_def)
  next
    fix x y assume "y < co_numhashqs s'"
    then have "unat (qcount s x y) \<le> N" using run_invD(5) [OF r] co_frameD(2) [OF g'(3)] by simp
    moreover have "unat (qcount s p h + 1) = unat (qcount s p h) + 1" using cnt(1) unatSuc [of "qcount s p h"] by (simp add: add.commute)
    ultimately show "unat (qcount s' x y) \<le> N + 1" using run_invD(5) [OF r cnt(2), of p] by (simp add: g'(6))
  qed
  show ?thesis
  proof (cases "ty = GETFORWRITE")
    case True
    have "data_at s' p h j = Inr (K i)" using data_at_eq [OF g'(2,5)] True by (simp add: seen_def)
    then show ?thesis using inv True g'(1)
      by (intro good_stepI [where t = "[Took p i (K i)]"]) (simp_all add: after_pass_def)
  next
    case False
    then show ?thesis using inv by (intro good_stepI [where t = "[]"]) (simp_all add: after_pass_def)
  qed
qed

lemma count_room:
  assumes "run_inv np load N K H s ws" "h < co_numhashqs s" "N < 2 ^ 64 - 1"
  shows "qcount s p h + 1 \<noteq> 0"
proof
  assume z: "qcount s p h + 1 = 0"
  have "unat (qcount s p h + 1) = (unat (qcount s p h) + unat (1 :: u64)) mod 2 ^ 64" by (simp only: unat_word_ariths) simp
  moreover have "unat (qcount s p h) + 1 < 2 ^ 64" using run_invD(5) [OF assms(1,2), of p] assms(3) by simp
  ultimately show False using z by simp
qed

lemma pass_first:
  assumes r: "run_inv np load N K H s ws" and N: "N < 2 ^ 64 - 1" and st: "stores load" and mk: "mh_creates mk"
    and nu: "\<not> updating (ws p)" and w: "worker_ok s p (Retry1 ty h i)"
  shows "good_step np load N K H (rbind (rep_first mk load i ty p h s) (\<lambda>(g, s). after_pass p ty h i ws g s))"
proof -
  note c = run_invD(1) [OF r] and s = run_invD(2) [OF r]
  have i: "oid_valid i" "h = ix s i" "made s p h" "ty = GETFORWRITE \<Longrightarrow> reps s (line_vp s h) \<noteq> None" using w by auto
  have p: "p < numproc s" using i(3) co_shapeD(4) [OF s] by (auto simp: made_def)
  have hl: "h < co_numhashqs s" using ix_less [OF s] i(2) by simp
  have cnt: "qcount s p h + 1 \<noteq> 0" by (rule count_room [OF r hl N])
  from rep_first_coh [OF c st mk p i(1,2,3) _ cnt, of ty] i(4) obtain g s' where g: "rep_first mk load i ty p h s = Inr (g, s')"
    "case g of Again1 \<Rightarrow> s' = s | Again2 k \<Rightarrow> same_views s s' \<and> reps s' (line_vp s h) \<noteq> None \<and> copy s p i = None
      | RNoFree \<Rightarrow> s' = s | RGot j \<Rightarrow> got_copy load K H ty i p h j s s'" by blast
  show ?thesis
  proof (cases g)
    case (RGot j)
    then show ?thesis using after_got [where ty = ty and i = i and j = j and s' = s', OF r nu _ cnt hl] g by simp
  next
    case Again1
    then show ?thesis using after_soft [where g = g and ty = ty and h = h and i = i, OF r nu] g w by auto
  next
    case RNoFree
    then show ?thesis using after_soft [where g = g and ty = ty and h = h and i = i, OF r nu] g by simp
  next
    case (Again2 k)
    then have v: "same_views s s'" "reps s' (line_vp s h) \<noteq> None" "copy s p i = None" using g(2) by simp_all
    note fr = co_frameD [OF same_viewsD(2) [OF v(1)]]
    have "worker_ok s' p (Retry2 k ty h i)"
      using i v same_views_maps(1) [OF v(1) s] fr(5,6,7) by simp
    then have "good_step np load N K H (after_pass p ty h i ws g s')"
      unfolding Again2 by (intro after_soft [OF run_inv_views [OF r v(1)] nu]) auto
    then show ?thesis using g by simp
  qed
qed

lemma pass_second:
  assumes r: "run_inv np load N K H s ws" and N: "N < 2 ^ 64 - 1" and st: "stores load"
    and nu: "\<not> updating (ws p)" and w: "worker_ok s p (Retry2 k ty h i)"
  shows "good_step np load N K H (rbind (rep_second mk load k i ty p h s) (\<lambda>(g, s). after_pass p ty h i ws g s))"
proof -
  note c = run_invD(1) [OF r] and s = run_invD(2) [OF r]
  have i: "oid_valid i" "h = ix s i" "made s p h" "reps s (line_vp s h) \<noteq> None" "copy s p i = None" using w by auto
  have p: "p < numproc s" using i(3) co_shapeD(4) [OF s] by (auto simp: made_def)
  have hl: "h < co_numhashqs s" using ix_less [OF s] i(2) by simp
  have cnt: "qcount s p h + 1 \<noteq> 0" by (rule count_room [OF r hl N])
  from rep_second_coh [OF c st p i cnt, of mk k ty] obtain g s' where g: "rep_second mk load k i ty p h s = Inr (g, s')"
    "case g of Again1 \<Rightarrow> False | Again2 k \<Rightarrow> s' = s | RNoFree \<Rightarrow> s' = s | RGot j \<Rightarrow> got_copy load K H ty i p h j s s'" by blast
  show ?thesis
  proof (cases g)
    case (RGot j)
    then show ?thesis using after_got [where ty = ty and i = i and j = j and s' = s', OF r nu _ cnt hl] g by simp
  next
    case (Again2 k')
    then show ?thesis using after_soft [where g = g and ty = ty and h = h and i = i, OF r nu] g w by auto
  qed (use after_soft [where g = g and ty = ty and h = h and i = i, OF r nu] g in simp_all)
qed

lemma call_rep_views:
  assumes "co_shape s" "mh_creates mk" "p < numproc s"
  shows "same_views s (call_rep mk p s)" "reps (call_rep mk p s) p \<noteq> None"
  using create_views [OF assms(2,1,3)] same_views_refl [OF assms(1)] by (auto simp: call_rep_def)

fun command_ok :: "command \<Rightarrow> bool" where
  "command_ok (Begin ty i) \<longleftrightarrow> oid_valid i"
| "command_ok _ \<longleftrightarrow> True"

lemma good_same: "run_inv np load N K H s ws \<Longrightarrow> good_step np load N K H (Inr ([], s, ws))"
  by (rule good_stepI [OF refl _ run_inv_Suc]) simp_all

lemma begin_ok:
  assumes r: "run_inv np load N K H s ws" and N: "N < 2 ^ 64 - 1" and st: "stores load" and mk: "mh_creates mk"
    and p: "p < numproc s" and i: "oid_valid i"
  shows "good_step np load N K H (co_act mk load p (Begin ty i) s ws)"
proof (cases "case ws p of Idle \<Rightarrow> True | Reading h j x \<Rightarrow> True | _ \<Rightarrow> False")
  case True
  then have nu: "\<not> updating (ws p)" by (auto simp: updating_def)
  note cr = call_rep_views [OF run_invD(2) [OF r] mk p]
  have r1: "run_inv np load N K H (call_rep mk p s) ws" by (rule run_inv_views [OF r cr(1)])
  let ?s = "call_rep mk p s"
  from rep_enter_views [OF same_viewsD(1) [OF cr(1)] mk i cr(2), of ty] obtain s2 where s2: "rep_enter mk i ty p ?s = Inr (ix ?s i, s2)"
    "same_views ?s s2" "made s2 p (ix ?s i)" "ty = GETFORWRITE \<longrightarrow> reps s2 (line_vp ?s (ix ?s i)) \<noteq> None" by blast
  note fr = co_frameD [OF same_viewsD(2) [OF s2(2)]]
  have "worker_ok s2 p (Retry1 ty (ix ?s i) i)" using i s2(3,4) fr(6,7) by simp
  from pass_first [OF run_inv_views [OF r1 s2(2)] N st mk nu this]
  show ?thesis using True s2(1) by (simp add: co_act_def)
next
  case False
  then have none: "co_act mk load p (Begin ty i) s ws = Inr ([], s, ws)" by (simp add: co_act_def)
  show ?thesis unfolding none by (rule good_same [OF r])
qed

lemma retry_ok:
  assumes r: "run_inv np load N K H s ws" and N: "N < 2 ^ 64 - 1" and st: "stores load" and mk: "mh_creates mk"
  shows "good_step np load N K H (co_act mk load p Retry s ws)"
proof (cases "ws p")
  case (Retry1 ty h i)
  then have "\<not> updating (ws p)" by (simp add: updating_def)
  from pass_first [OF r N st mk this run_invD(3) [OF r, of p, unfolded Retry1]] show ?thesis using Retry1 by (simp add: co_act_def)
next
  case (Retry2 k ty h i)
  then have "\<not> updating (ws p)" by (simp add: updating_def)
  from pass_second [OF r N st this run_invD(3) [OF r, of p, unfolded Retry2]] show ?thesis using Retry2 by (simp add: co_act_def)
qed (use good_same [OF r] in \<open>simp_all add: co_act_def\<close>)

lemma read_ok:
  assumes r: "run_inv np load N K H s ws"
  shows "good_step np load N K H (co_act mk load p ReadData s ws)"
proof (cases "ws p")
  case (Reading h j i)
  then have h: "holds s p h j i" using run_invD(3) [OF r, of p] by simp
  have "H i \<noteq> Some (p, u)" for u by (rule writers_none [OF run_invD(4) [OF r]]) (simp add: Reading updating_def)
  then have "seen (H i) (K i) p = K i" by (auto simp: seen_def split: option.splits)
  then have "co_act mk load p ReadData s ws = Inr ([Looked p i (K i)], s, ws)"
    using data_at_eq [OF run_invD(1) [OF r] h] Reading by (simp add: co_act_def)
  then show ?thesis using run_inv_Suc [OF r] by (intro good_stepI [where t = "[Looked p i (K i)]"]) simp_all
qed (use good_same [OF r] in \<open>simp_all add: co_act_def\<close>)

lemma update_ok:
  assumes r: "run_inv np load N K H s ws"
  shows "good_step np load N K H (co_act mk load p (WriteData v) s ws)"
proof (cases "ws p")
  case (Updating h j i)
  have w: "worker_ok s p (ws p)" by (rule run_invD(3) [OF r])
  then have h: "holds s p h j i" using Updating by simp
  obtain u where u: "H i = Some (p, u)" using run_invD(4) [OF r] Updating unfolding writers_ok_def by blast
  from write_coh [OF run_invD(1) [OF r] h u, of v] obtain s' where s': "rep_write (h, j) v p s = Inr s'" "coh load K (H(i \<mapsto> (p, v))) s'" "quiet s s'"
    by blast
  have "writers_ok (H(i \<mapsto> (p, v))) ws" by (rule writers_write [OF run_invD(4) [OF r] u])
  moreover have "worker_ok s' p (ws p)"
    using worker_frame [OF w _ _ run_invD(2) [OF r] cohD(1) [OF s'(2)]] s'(3) by (simp add: quiet_def ids_kept_def)
  ultimately have "run_inv np load (N + 1) K (H(i \<mapsto> (p, v))) s' ws" using run_inv_quiet [OF r s'(2,3), of p "ws p"] by simp
  then show ?thesis using s'(1) Updating u by (intro good_stepI [where t = "[Wrote p i v]"]) (simp_all add: co_act_def)
qed (use good_same [OF r] in \<open>simp_all add: co_act_def\<close>)

lemma release_ok:
  assumes r: "run_inv np load N K H s ws" and p: "p < numproc s"
  shows "good_step np load N K H (co_act mk load p (PutBack f) s ws)"
proof (cases "ws p")
  case (Updating h j i)
  then have h: "holds s p h j i" using run_invD(3) [OF r, of p] by simp
  obtain u where u: "H i = Some (p, u)" using run_invD(4) [OF r] Updating unfolding writers_ok_def by blast
  from putback_coh [OF run_invD(1) [OF r] h u p, of mk f] obtain s' where s': "rep_putback mk (Some (h, j)) f p s = Inr (0, s')"
    "coh load (K(i := u)) (H(i := None)) s'" "quiet s s'" by blast
  have "writers_ok (H(i := None)) (ws(p := Idle))" by (rule writers_release [OF run_invD(4) [OF r] u Updating])
  then have "run_inv np load (N + 1) (K(i := u)) (H(i := None)) s' (ws(p := Idle))"
    using run_inv_quiet [OF r s'(2,3), of p Idle] by simp
  then show ?thesis using s'(1) Updating u by (intro good_stepI [where t = "[Released p i]"]) (simp_all add: co_act_def)
qed (use good_same [OF r] in \<open>simp_all add: co_act_def\<close>)

lemma flush_ok:
  assumes r: "run_inv np load N K H s ws" and st: "stores load" and mk: "mh_creates mk" and p: "p < numproc s"
  shows "good_step np load N K H (co_act mk load p Flush s ws)"
proof (cases "case ws p of Idle \<Rightarrow> True | Reading h j x \<Rightarrow> True | _ \<Rightarrow> False")
  case True
  note cr = call_rep_views [OF run_invD(2) [OF r] mk p]
  have r1: "run_inv np load N K H (call_rep mk p s) ws" by (rule run_inv_views [OF r cr(1)])
  from flush_coh [OF run_invD(1) [OF r1] st cr(2)] obtain s' where s': "rep_flush p (call_rep mk p s) = Inr (0, s')"
    "coh load K H s'" "quiet (call_rep mk p s) s'" by blast
  have "worker_ok s' p (ws p)"
    using worker_frame [OF run_invD(3) [OF r1, of p] _ _ run_invD(2) [OF r1] cohD(1) [OF s'(2)]] s'(3) by (simp add: quiet_def ids_kept_def)
  then have "run_inv np load (N + 1) K H s' ws" using run_inv_quiet [OF r1 s'(2,3), of p "ws p"] run_invD(4) [OF r] by simp
  then show ?thesis using s'(1) True by (intro good_stepI [where t = "[]"]) (simp_all add: co_act_def)
next
  case False
  then have none: "co_act mk load p Flush s ws = Inr ([], s, ws)" by (simp add: co_act_def)
  show ?thesis unfolding none by (rule good_same [OF r])
qed

lemma co_act_ok:
  assumes "run_inv np load N K H s ws" "N < 2 ^ 64 - 1" "stores load" "mh_creates mk" "p < numproc s" "command_ok c"
  shows "good_step np load N K H (co_act mk load p c s ws)"
  using assms begin_ok retry_ok read_ok update_ok release_ok flush_ok by (cases c) simp_all

subsection \<open>Runs\<close>

lemma co_run_ok:
  assumes "run_inv np load N K H s ws" "stores load" "mh_creates mk"
    and "\<forall>(p, c) \<in> set cs. p < numproc s \<and> command_ok c" "N + length cs < 2 ^ 64"
  shows "\<exists>t s' ws' K' H'. co_run mk load cs s ws = Inr (t, s', ws') \<and> mem_run t (K, H) = Some (K', H') \<and>
     run_inv np load (N + length cs) K' H' s' ws'"
  using assms
proof (induction cs arbitrary: N K H s ws)
  case (Cons pc cs)
  obtain p c where pc: "pc = (p, c)" by (cases pc)
  have N: "N < 2 ^ 64 - 1" and p: "p < numproc s" "command_ok c" using Cons.prems(4,5) pc by simp_all
  from co_act_ok [OF Cons.prems(1) N Cons.prems(2,3) p] obtain t s1 w1 K1 H1 where t: "co_act mk load p c s ws = Inr (t, s1, w1)"
    "mem_run t (K, H) = Some (K1, H1)" "run_inv np load (N + 1) K1 H1 s1 w1" by (auto simp: good_step_def)
  have np: "numproc s1 = numproc s" using run_invD(6) [OF t(3)] run_invD(6) [OF Cons.prems(1)] by simp
  have "\<forall>(p, c) \<in> set cs. p < numproc s1 \<and> command_ok c" "N + 1 + length cs < 2 ^ 64" using Cons.prems(4,5) np by auto
  from Cons.IH [OF t(3) Cons.prems(2,3) this] obtain t' s' ws' K' H' where t': "co_run mk load cs s1 w1 = Inr (t', s', ws')"
    "mem_run t' (K1, H1) = Some (K', H')" "run_inv np load (N + 1 + length cs) K' H' s' ws'" by blast
  have "co_run mk load (pc # cs) s ws = Inr (t @ t', s', ws')" using t(1) t'(1) pc by simp
  moreover have "mem_run (t @ t') (K, H) = Some (K', H')" using t(2) t'(2) by (simp add: mem_run_append)
  ultimately show ?case using t'(3) by (intro exI conjI) (assumption, assumption, simp)
qed simp

lemma created_inv:
  assumes "0 < np" "np \<le> 31" "0 < n"
  shows "run_inv np load 0 (load []) (\<lambda>_. None) (co_create np n a) (\<lambda>_. Idle)"
proof -
  let ?s = "co_create np n a"
  have v: "copies ?s h vp = replicate a new_entry" "dirl ?s h = replicate (a * np) new_direntry" "qcount ?s vp h = 0" for h vp
    by (simp_all add: copies_def dirl_def qcount_def co_create_def)
  have s: "co_shape ?s"
    using assms keys_distinct_replicate [of e_id new_entry a] keys_distinct_replicate [of d_id new_direntry "a * np"]
    by (auto simp: co_shape_def v slots_ok_def line_ok_def) (simp_all add: co_create_def new_entry_def new_direntry_def)
  have "copy ?s vp i = None" "entry_of_dir ?s i = None" for vp i
    using find_key_replicate [of e_id new_entry a] find_key_replicate [of d_id new_direntry "a * np"]
    by (simp_all add: copy_def entry_of_dir_def v)
  then have "coh load (load []) (\<lambda>_. None) ?s"
    using s obj_empty by (simp add: coh_def fcopy_def co_create_def)
  then show ?thesis by (simp add: run_inv_def writers_ok_def v) (simp add: co_create_def)
qed

end
