(* ===== verification/SsacRepProps.thy ===== *)
theory SsacRepProps
  imports SsacRepTrace
begin

text \<open>
  The replicated cache refines one memory in every run. Evaluated runs show a value that passes from
  processor to processor, and two ways to break the cache: a reader that puts its copy back, and the
  directory entry that a waiting writer keeps.
\<close>


subsection \<open>Examples\<close>

text \<open>\<open>createRepOn\<close> of the header, with a remote call that makes the representative; a store that remembers.\<close>

definition createRepOn :: "nat \<Rightarrow> ssac_co \<Rightarrow> ssac_co" where
  "createRepOn vp s =
     s\<lparr>reps := (reps s)(vp \<mapsto> SSACSimpleReplicatedArray_new (numproc s) vp (co_numhashqs s) (co_associativity s))\<rparr>"

definition last_saved :: "(u32 \<times> u64) list \<Rightarrow> u32 \<Rightarrow> u64" where
  "last_saved l i = (case map_of l i of None \<Rightarrow> oid_load i | Some v \<Rightarrow> v)"

lemma createRepOn_creates: "mh_creates createRepOn"
  by (simp add: mh_creates_def createRepOn_def)

lemma last_saved_stores: "stores last_saved"
  by (auto simp: stores_def last_saved_def fun_eq_iff)

text \<open>The equations that evaluate a run.\<close>

lemma vp_bit_01: "vp_bit 0 = 1" "vp_bit (Suc 0) = 2"
  by code_simp+

lemma replicate_eq: "replicate (numeral k) x = x # replicate (pred_numeral k) x" by (simp add: numeral_eq_Suc)


lemmas run_simps = co_act_def call_rep_def createRepOn_def co_create_def SSACSimpleReplicatedArray_new_def rep_enter_def lrt_assert_def
  oid_valid_def SSAC_INVALID_def oid_index_def queue_on_def arr_get_def hq_init_def new_hashq_def set_queue_def finddirline_def line_vp_def line_no_def
  rep_first_def entries_on_def new_entry_def rep_miss_def dirline_def new_direntry_def rep_evict_def change_entry_def set_entries_def
  adddirentry_def d_addvp_def d_clearall_def vp_bit_01 last_saved_def oid_load_def set_dirline_def rep_finish_def setbusyonallcopiesindir_def
  mask_vps.simps D_BUSY_def D_MODIFIED_def d_setbusy_def d_busy_def busy_def dirty_def BUSY_def DIRTY_def set_busy_def after_pass_def data_at_def Let_def
  rep_write_def entry_dirty_def rep_putback_def updateandclearbusyonallcopiesindir_def clear_busy_def d_clearbusy_def removefromdir_def d_removevp_def
  d_modified_def d_setmodified_def getremotecopyfromdir_def copy_on_def rep_second_def replicate_eq

text \<open>
  Processor 0 changes object 5; another object takes its place there; processor 1 still reads the new value.
\<close>

definition demo_commands :: "(nat \<times> command) list" where
  "demo_commands = [(0, Begin GETFORWRITE 5), (0, WriteData 42), (0, PutBack KEEP), (0, Begin GETFORREAD 9), (0, Retry),
     (1, Begin GETFORREAD 5), (1, Retry), (1, ReadData)]"

lemma demo_run:
  "rbind (co_run createRepOn last_saved demo_commands (co_create 2 4 1) (\<lambda>_. Idle)) (\<lambda>(t, s, ws). Inr (t, saved s)) =
   Inr ([Took 0 5 5, Wrote 0 5 42, Released 0 5, Looked 1 5 42], [(5, 42)])"
  by (simp add: demo_commands_def run_simps del: rbind_Inr_iff)


text \<open>
  A thread that puts back a copy it got for reading releases the writer's hold on another processor and
  overwrites what the writer has written: the data and flags of the copy of processor 0.
\<close>

lemma reader_putback_overwrites:
  "rbind (co_run createRepOn last_saved
      [(1, Begin GETFORREAD 5), (1, Retry), (0, Begin GETFORWRITE 5), (0, WriteData 42)] (co_create 2 4 1) (\<lambda>_. Idle)) (\<lambda>(t, s, ws).
   rbind (rep_putback createRepOn (Some (1, 0)) KEEP 1 s) (\<lambda>(rc, s').
   rbind (entries_on s 0 1) (\<lambda>es. rbind (entries_on s' 0 1) (\<lambda>es'.
   Inr (map (\<lambda>e. (e_data e, busy e)) es, map (\<lambda>e. (e_data e, busy e)) es'))))) = Inr ([(42, True)], [(5, False)])"
  by (simp add: run_simps del: rbind_Inr_iff)

text \<open>
  At \<open>again2\<close> a writer that finds a copy after all keeps the directory entry of the pass before. With
  entry 1, which is free by then, that entry is marked instead of the one of the object.
\<close>

definition stale_state :: "ssac_co res" where
  "stale_state = rbind (co_run createRepOn last_saved [(0, Begin GETFORREAD 5), (0, Retry)] (co_create 2 4 1) (\<lambda>_. Idle)) (\<lambda>(t, s, ws). Inr s)"

lemma stale_entry_marked:
  "rbind stale_state (\<lambda>s. rbind (rep_second createRepOn last_saved (Some 1) 5 GETFORWRITE 0 1 s) (\<lambda>(g, s').
     rbind (dirline s' 1) (\<lambda>ds. Inr (g, map (\<lambda>d. (d_id d, d_busy d)) ds)))) =
   Inr (RGot 0, [(5, False), (SSAC_INVALID, True)])"
  by (simp add: stale_state_def run_simps del: rbind_Inr_iff)

end
