(* ===== verification/Spec2Isabelle.thy ===== *)
theory Spec2Isabelle
  imports PicRound L1Props SpinOnce StdioProps CounterProps Amd64PagingProps Amd64PicProps PpcBicProps PpcTlbProps Ppc64TlbProps
    BareStringProps Console EthMgr SsacRuns Barrier CtrCPlus NetIo ConsProps BindProps SsacRepProps
begin

text \<open>
  A verification development for EBBlib.

  EBBlib is the runtime of a component model, Elastic Building Blocks, for multi-core machines:
  an object has a system-wide id, a core that calls it through the id finds its own
  representative in a per-core translation table, and a call that finds none runs the object's
  miss function. Below it are an interrupt controller interface, the memory behind the
  translation tables and memory managers; above it an event manager, a message manager and the
  start-up code. The library runs in a Unix process, where a core is a thread (\<open>l0/lrt/ulnx\<close>), and
  on bare amd64 and PowerPC machines (\<open>l0/lrt/bare\<close>). The managers are modelled on the hosted
  variant, on a 64-bit machine; the hardware-facing code of the bare variants has its own theories.

  The theories, bottom up.

  Foundations and the interrupt controller:
  \<^item> \<open>Prelude\<close>: machine integers, return codes (\<open>l0/types.h\<close>), results that can fault
    (\<open>LRT_Assert\<close>, out-of-bounds accesses, null pointers, self-deadlock, divergence), arrays.
  \<^item> \<open>LrtPic\<close>: core sets (\<open>lrt_pic_set\<close>, a bit vector) and the vector numbers; the contract of
    core sets is the locale \<open>core_set\<close>. \<open>PicState\<close>: the state and operations of
    \<open>l0/lrt/ulnx/pic.c\<close> and \<open>pic-unix.c\<close>. \<open>PicLoop\<close>: initialisation and the loop in which a core
    waits for and dispatches interrupts.
  \<^item> \<open>PicInv\<close>, \<open>PicProps\<close>, \<open>PicSteps\<close>, \<open>PicReach\<close>, \<open>PicRound\<close>: the controller's invariant
    \<open>pic_inv\<close>, the effect of every operation on every branch, reachability (\<open>pic_step\<close>, one
    operation of one core per step), and the rounds of the loop.

  Translation and roots:
  \<^item> \<open>LrtTrans\<close>: the address arithmetic between ids and table entries of the hosted, amd64, ppc64
    and ppc32 runtimes, one locale \<open>id_translation\<close> and its four interpretations.
    \<open>SysTrans\<close>, \<open>TransProps\<close>: \<open>l0/sys/trans.c\<close> and \<open>defFT.c\<close>: allocating, binding, caching,
    invalidating and calling ids. The miss functions are a parameter \<open>callmf\<close>.
  \<^item> \<open>EbbRoots\<close>: the root objects (\<open>l0/cobj\<close>, \<open>l0/cplus\<close>), which find or make the representative
    of a core. \<open>RootProps\<close>: the list of a root as a chain of nodes, its traversal, misses.
    \<open>RootCalls\<close>: calls from any cores in any order reach one representative per core, proved in the
    locales \<open>prim_malloc\<close> (what an allocator promises) and \<open>rep_maker\<close> (what a \<open>createRep\<close>
    function promises) and used for every Ebb with such a root.
  \<^item> \<open>SpinOnce\<close>: the spin lock and the one-time initialisation the managers share, as step
    relations over single memory accesses.

  Memory and Ebb managers:
  \<^item> \<open>MemMgrSimple\<close>, \<open>MemMgrLayout\<close>, \<open>MemMgrFree\<close>: the first-fit manager
    \<open>l0/MemMgrPrimSimple.c\<close> on a store of words, its abstraction to a list of blocks
    (\<open>heap_ok\<close>) and the refinement of first fit and coalescing. \<open>MemMgr\<close>: the bump allocator
    \<open>l0/MemMgrPrimStupid.c\<close> and the contract \<open>mem_mgr\<close> that both managers provide.
  \<^item> \<open>MemBoot\<close>, \<open>MemBootProps\<close>: the memory of each core at boot (\<open>l0/lrt/ulnx/mem.c\<close>) and how the
    cores bring a memory manager up as an Ebb; its \<open>EBBPrimMalloc\<close> interprets \<open>prim_malloc\<close>.
  \<^item> \<open>EbbMgr\<close>, \<open>EbbMgrProps\<close>: the Ebb manager (\<open>l0/EBBMgrPrim.c\<close>), ids after boot, and that its
    calls reach the representative of the calling core.

  Events and messages:
  \<^item> \<open>EventMgr\<close>, \<open>EventProps\<close>, \<open>EventReg\<close>: the event manager (\<open>l0/EventMgrPrimImp.c\<close>): tables of
    handlers, registration from end to end, an interrupt that reaches the handler, failures.
  \<^item> \<open>MsgMgr\<close>, \<open>MsgProps\<close>, \<open>MsgSend\<close>, \<open>MsgRecv\<close>: the message manager (\<open>l1/MsgMgrPrim.c\<close>): the two
    message lists of a representative (locale \<open>msg_list\<close>, interpreted for both), sending, and the
    interrupt handler that runs the messages and gives them back.

  Start-up and hosted input and output:
  \<^item> \<open>StartInfo\<close>, \<open>L1Prim\<close>, \<open>L1Props\<close>: \<open>lrt_start.c\<close> packs arguments and environment into bytes,
    the first layer (\<open>l0/L0Prim.c\<close>) starts the managers, the second (\<open>l1/L1Prim.c\<close>) unpacks the
    bytes for the application.
  \<^item> \<open>Console\<close>: the terminal modes of \<open>io/lrt/ulnx/LRTConsole.c\<close> as a state machine. \<open>EthMgr\<close>: the
    Ethernet Ebb (\<open>net/EthMgrPrim.c\<close>) on top of the event manager and pcap.
  \<^item> \<open>Counter\<close>, \<open>CounterProps\<close>: the counter Ebbs (\<open>misc/CtrPrim.c\<close>, \<open>CtrPrimDistributed.c\<close>) and the
    refinement of an atomic counter by the distributed one. \<open>CtrCPlus\<close>: the C++ counter behind the
    shared C++ root, and its test run end to end on the Ebb manager.
  \<^item> \<open>NetIo\<close>: the loops of \<open>lrt/ulnx/io.c\<close> that write and read a whole buffer.

  Bare machines:
  \<^item> \<open>Stdio\<close>, \<open>StdioProps\<close>: the printf family of \<open>l0/lrt/bare/stdio.c\<close>. \<open>BareString\<close>,
    \<open>BareStringProps\<close>: the string functions, the serial line of amd64 and the mailbox of ppc32.
  \<^item> \<open>BitField\<close>: C bit fields of a word. \<open>Amd64Paging\<close>, \<open>Amd64PagingProps\<close>: the page tables of
    \<open>init32.c\<close> and \<open>trans.c\<close> and the walk of the processor. \<open>Amd64Pic\<close>, \<open>Amd64PicProps\<close>: the
    interrupt descriptor table, local and I/O APIC, legacy devices, the ACPI table.
  \<^item> \<open>PpcBic\<close>, \<open>PpcBicProps\<close>: the Blue Gene/P interrupt controller and the interrupt interface on
    it. \<open>PpcTlb\<close>, \<open>PpcTlbProps\<close>: the lookaside entries of ppc32 that map the translation tables. \<open>Ppc64Tlb\<close>,
    \<open>Ppc64TlbProps\<close>: those of ppc64, that map them without evicting an entry, and its doorbells.

  Clients:
  \<^item> \<open>Ssac\<close>, \<open>SsacProps\<close>, \<open>SsacRuns\<close>: the set-associative cache of \<open>contrib/jmcddn/ssac_cpp\<close>: a
    lookup refines a map with eviction of the least recently used entry, in every reachable state.
    \<open>Barrier\<close>: the spinning barrier of its tests, as an interleaving of memory accesses.
  \<^item> \<open>SsacRep\<close>: the replicated cache of \<open>contrib/jmcddn/ssac_tornado\<close>, with a copy of an entry on
    each processor that uses it and a directory that says where the copies are. \<open>SsacRepInv\<close>,
    \<open>SsacRepView\<close>, \<open>SsacRepUpd\<close>: its shape, what is seen of it per object, elementary updates.
    \<open>SsacRepOps\<close>, \<open>SsacRepDir\<close>, \<open>SsacRepMiss\<close>: operations on one copy, on all copies and the
    directory, eviction. \<open>SsacRepCoh\<close>, \<open>SsacRepGet\<close>, \<open>SsacRepRun\<close>: coherence of the copies of each
    object, kept by every call, with no failing assertion. \<open>SsacRepTrace\<close>, \<open>SsacRepProps\<close>: threads
    that use it, as in \<open>SSACtest.C\<close>, see one memory. A pass that holds its locks is one step; the
    processor masks are 32-bit, so there are at most 31 processors; making a representative on
    another processor (\<open>mk\<close>) is Tornado's, and the store behind the cache (\<open>load\<close>) is a stand-in
    in the source.
  \<^item> \<open>ConsTst\<close>, \<open>ConsProps\<close>: the console Ebb of \<open>apps/contst\<close> and its echo client: the two ring buffers
    of characters, the input and output events, and their refinement of two bounded queues.
  \<^item> \<open>SenseBarrier\<close>: the sense-reversing barrier of \<open>apps/bindtst\<close>, access by access, which, unlike
    the one of \<open>Barrier\<close>, can be reused. \<open>BindTst\<close>, \<open>BindProps\<close>: that test from end to end, on the
    translation system: the phases in which all cores call an id, bind it and call it again.

  State is an extensible record per layer (\<open>pic_state\<close>, then \<open>trans_state\<close>, \<open>root_state\<close>,
  \<open>mem_state\<close>, \<open>ebbmgr_state\<close>, \<open>event_state\<close> or \<open>msg_state\<close> and so on): an operation takes the
  running core's id and the state and returns the new one, polymorphic in what the layers above
  add. Objects are stores from addresses to records, one per structure type. Core ids, event
  numbers and vectors are \<open>nat\<close>, addresses are \<open>64 word\<close>, with their wrap-around. A loop that the
  code gives no bound for is a partial function in the option monad: \<open>None\<close>, turned into the fault
  \<open>Diverges\<close>, is a run that never ends, and each theorem about such a loop shows that it ends, or
  that it does not. Spin locks taken twice by one core are the fault \<open>Blocked\<close>. In the managers the
  interleaving of cores is that of whole operations, which hold their lock; the lock itself, the
  initialisation race and the barrier are modelled access by access.

  Calls through function pointers: a miss function, \<open>createRep\<close> and the code behind a function
  table are arguments (\<open>callmf\<close>, \<open>callcr\<close>, \<open>invoke\<close>); each theory gives the ones its code
  provides (\<open>miss_functions\<close>, \<open>eth_invoke\<close> and others), and the theorems use these where the
  behaviour depends on them. Parameters that stand for code outside the repository are the
  operating system calls (\<open>mmap\<close>, \<open>select\<close>, \<open>dup2\<close>, \<open>read\<close>, \<open>tcsetattr\<close>), pcap, and the contents of
  device registers.

  Fuel: \<open>loop_rounds\<close> runs a given number of rounds of the endless interrupt loop; \<open>ilog2_loop\<close>
  (\<open>PpcTlb\<close>) has 32 steps, and a 32-bit value is 0 after 32 shifts; the pad and digit loops of
  \<open>Stdio\<close> end by a measure. No other definition has fuel.

  Not modelled: vendored code (ACPICA, Blue Gene headers); the other Tornado code of
  \<open>contrib/jmcddn/ssac_tornado\<close> (the partitioned cache, counters, file cache managers); assembly (interrupt stubs, the default function tables of
  \<open>l0/sys/arch\<close>, whose effect is in \<open>SysTrans\<close>); \<open>init64.c\<close> and the \<open>init.c\<close> of the PowerPC ports,
  which are jumps and the order of calls; the creation of
  threads; the other applications, which call the Ebbs modelled here and print; \<open>io/Console.c\<close> and
  \<open>LRTStream.c\<close>, which are unfinished fragments.
\<close>

end
